(* ===== verification/Prelude.thy ===== *)
theory Prelude
  imports Main "HOL-Library.Word" "HOL-Library.Monad_Syntax"
begin

text \<open>
  Shared vocabulary of the development: machine types, the byte-buffer operations behind the
  \<^verbatim>\<open>MACH_READ_FROM\<close> / \<^verbatim>\<open>MACH_WRITE_TO\<close> macros and \<^verbatim>\<open>memcpy\<close> / \<^verbatim>\<open>memmove\<close>, and the lemmas on
  lists and words that every component uses.

  Throughout, \<^typ>\<open>'a option\<close> as the result of an operation reads: \<^term>\<open>None\<close> is a run that
  leaves defined behaviour (a failed \<^verbatim>\<open>ASSERT\<close>, an access outside a buffer, a dereference of
  an invalid pointer, a signed overflow, a loop that never ends); \<^term>\<open>Some r\<close> is a normal return.
  Error codes and Boolean failures of the program are ordinary results inside \<^term>\<open>Some\<close>.
  Multi-byte integers are stored little endian, as on the x86-64 targets of the build files.
\<close>

unbundle bit_operations_syntax

named_theorems buf_simps \<open>reads over writes of byte buffers\<close>
named_theorems inv_defs \<open>definitions of the component invariants\<close>

type_synonym byte = "8 word"
type_synonym u32 = "32 word"
type_synonym buffer = "byte list"

section \<open>Guards\<close>

definition ensure :: "bool \<Rightarrow> unit option" where
  "ensure b = (if b then Some () else None)"

lemma ensure_simps [simp]: "ensure True = Some ()" "ensure False = None"
  by (simp_all add: ensure_def)

lemma ensure_bind_Some [simp]:
  "(Option.bind (ensure b) f = Some y) \<longleftrightarrow> b \<and> f () = Some y"
  by (simp add: ensure_def)

section \<open>Configuration constants\<close>

definition INVALID_PAGE_ID :: int where "INVALID_PAGE_ID = -1"
definition INVALID_LSN :: int where "INVALID_LSN = -1"
definition PAGE_SIZE :: nat where "PAGE_SIZE = 4096"
definition INDEX_ROOTS_PAGE_ID :: int where "INDEX_ROOTS_PAGE_ID = 1"
definition VARCHAR_MAX_LEN :: nat where "VARCHAR_MAX_LEN = PAGE_SIZE div 2"

section \<open>Little-endian 32-bit integers\<close>

definition u32_bytes :: "u32 \<Rightarrow> byte list" where
  "u32_bytes w = [ucast w, ucast (drop_bit 8 w), ucast (drop_bit 16 w), ucast (drop_bit 24 w)]"

fun bytes_u32 :: "byte list \<Rightarrow> u32" where
  "bytes_u32 [a, b, c, d] =
     ucast a OR push_bit 8 (ucast b) OR push_bit 16 (ucast c) OR push_bit 24 (ucast d)"
| "bytes_u32 _ = 0"

lemma length_u32_bytes [simp]: "length (u32_bytes w) = 4"
  by (simp add: u32_bytes_def)

lemma bytes_u32_u32_bytes [simp]: "bytes_u32 (u32_bytes w) = w"
proof (rule bit_word_eqI)
  fix n :: nat
  assume "n < LENGTH(32)"
  then consider "n < 8" | "8 \<le> n" "n < 16" | "16 \<le> n" "n < 24" | "24 \<le> n" "n < 32"
    by fastforce
  then show "bit (bytes_u32 (u32_bytes w)) n = bit w n"
    by cases (auto simp: u32_bytes_def bit_simps)
qed

lemma u32_bytes_inject [simp]: "u32_bytes v = u32_bytes w \<longleftrightarrow> v = w"
  by (metis bytes_u32_u32_bytes)

lemma u32_bytes_bytes_u32: "length bs = 4 \<Longrightarrow> u32_bytes (bytes_u32 bs) = bs"
proof -
  assume "length bs = 4"
  then obtain a b c d where bs: "bs = [a, b, c, d]"
    by (auto simp: numeral_eq_Suc length_Suc_conv)
  have "ucast (bytes_u32 bs) = a" "ucast (drop_bit 8 (bytes_u32 bs)) = b"
    "ucast (drop_bit 16 (bytes_u32 bs)) = c" "ucast (drop_bit 24 (bytes_u32 bs)) = d"
    unfolding bs bytes_u32.simps
    by (rule bit_word_eqI; auto simp: bit_simps dest: bit_imp_le_length)+
  then show ?thesis by (simp add: u32_bytes_def bs)
qed

section \<open>Byte buffers\<close>

definition slice :: "'a list \<Rightarrow> nat \<Rightarrow> nat \<Rightarrow> 'a list" where
  "slice b off n = take n (drop off b)"

definition splice :: "'a list \<Rightarrow> nat \<Rightarrow> 'a list \<Rightarrow> 'a list" where
  "splice b off xs = take off b @ xs @ drop (off + length xs) b"

definition mem_read :: "buffer \<Rightarrow> nat \<Rightarrow> nat \<Rightarrow> byte list option" where
  "mem_read b off n = (if off + n \<le> length b then Some (slice b off n) else None)"

definition mem_write :: "buffer \<Rightarrow> nat \<Rightarrow> byte list \<Rightarrow> buffer option" where
  "mem_write b off xs = (if off + length xs \<le> length b then Some (splice b off xs) else None)"

definition mem_move :: "buffer \<Rightarrow> nat \<Rightarrow> nat \<Rightarrow> nat \<Rightarrow> buffer option" where
  "mem_move b dst src n = do { xs \<leftarrow> mem_read b src n; mem_write b dst xs }"

definition get_u32 :: "buffer \<Rightarrow> nat \<Rightarrow> u32 option" where
  "get_u32 b off = map_option bytes_u32 (mem_read b off 4)"

definition put_u32 :: "buffer \<Rightarrow> nat \<Rightarrow> u32 \<Rightarrow> buffer option" where
  "put_u32 b off w = mem_write b off (u32_bytes w)"

lemma length_slice [simp]: "off + n \<le> length b \<Longrightarrow> length (slice b off n) = n"
  by (simp add: slice_def)

lemma length_splice [simp]: "off + length xs \<le> length b \<Longrightarrow> length (splice b off xs) = length b"
  by (simp add: splice_def)

lemma nth_slice: "off + n \<le> length b \<Longrightarrow> i < n \<Longrightarrow> slice b off n ! i = b ! (off + i)"
  by (simp add: slice_def)

lemma nth_splice:
  "off + length xs \<le> length b \<Longrightarrow> i < length b \<Longrightarrow>
   splice b off xs ! i = (if off \<le> i \<and> i < off + length xs then xs ! (i - off) else b ! i)"
  by (auto simp: splice_def nth_append min_def)

lemma slice_splice_same [buf_simps]:
  "off + length xs \<le> length b \<Longrightarrow> n = length xs \<Longrightarrow> slice (splice b off xs) off n = xs"
  by (simp add: slice_def splice_def)

lemma slice_splice_other [buf_simps]:
  assumes "off + length xs \<le> length b" "off2 + n \<le> off \<or> off + length xs \<le> off2"
  shows "slice (splice b off xs) off2 n = slice b off2 n"
proof (cases "off2 + n \<le> length b")
  case True
  show ?thesis
    by (rule nth_equalityI) (use True assms in \<open>auto simp: nth_slice nth_splice\<close>)
next
  case False
  with assms show ?thesis
    by (auto simp: slice_def splice_def)
qed

lemma slice_splice_sub:
  assumes "off + length xs \<le> length b" "off \<le> off2" "off2 + n \<le> off + length xs"
  shows "slice (splice b off xs) off2 n = slice xs (off2 - off) n"
  by (rule nth_equalityI) (use assms in \<open>auto simp: nth_slice nth_splice\<close>)

lemma slice_slice: "i + n \<le> m \<Longrightarrow> slice (slice b off m) i n = slice b (off + i) n"
  by (simp add: slice_def drop_take min_def add.commute)

lemma slice_append1 [simp]: "slice (xs @ ys) 0 (length xs) = xs"
  by (simp add: slice_def)

lemma slice_full [simp]: "slice b 0 (length b) = b"
  by (simp add: slice_def)

lemma splice_full: "length xs = length b \<Longrightarrow> splice b 0 xs = xs"
  by (simp add: splice_def)

lemma splice_eq_self: "off + n \<le> length b \<Longrightarrow> splice b off (slice b off n) = b"
  by (rule nth_equalityI) (auto simp: nth_splice nth_slice)

lemma mem_read_Some [simp]:
  "mem_read b off n = Some xs \<longleftrightarrow> off + n \<le> length b \<and> xs = slice b off n"
  by (auto simp: mem_read_def)

lemma mem_write_Some [simp]:
  "mem_write b off xs = Some b' \<longleftrightarrow> off + length xs \<le> length b \<and> b' = splice b off xs"
  by (auto simp: mem_write_def)

lemma get_u32_Some:
  "get_u32 b off = Some w \<longleftrightarrow> off + 4 \<le> length b \<and> w = bytes_u32 (slice b off 4)"
  by (auto simp: get_u32_def mem_read_def)

lemma put_u32_Some:
  "put_u32 b off w = Some b' \<longleftrightarrow> off + 4 \<le> length b \<and> b' = splice b off (u32_bytes w)"
  by (simp add: put_u32_def)

lemma mem_move_Some:
  "mem_move b dst src n = Some b' \<longleftrightarrow>
     src + n \<le> length b \<and> dst + n \<le> length b \<and> b' = splice b dst (slice b src n)"
  by (auto simp: mem_move_def bind_eq_Some_conv)

lemma get_u32_defined: "off + 4 \<le> length b \<Longrightarrow> \<exists>w. get_u32 b off = Some w"
  by (simp add: get_u32_Some)

lemma put_u32_defined: "off + 4 \<le> length b \<Longrightarrow> \<exists>b'. put_u32 b off w = Some b'"
  by (simp add: put_u32_Some)

lemma put_u32_length: "put_u32 b off w = Some b' \<Longrightarrow> length b' = length b"
  by (auto simp: put_u32_Some)

lemma get_put_u32_same: "put_u32 b off w = Some b' \<Longrightarrow> get_u32 b' off = Some w"
  by (auto simp: put_u32_Some get_u32_Some buf_simps)

lemma get_put_u32_other:
  "put_u32 b off w = Some b' \<Longrightarrow> off2 + 4 \<le> off \<or> off + 4 \<le> off2 \<Longrightarrow>
   get_u32 b' off2 = get_u32 b off2"
  by (auto simp: put_u32_Some get_u32_def mem_read_def buf_simps)

text \<open>The 32-bit field at an offset that is known to be inside the buffer.\<close>

definition u32_at :: "buffer \<Rightarrow> nat \<Rightarrow> u32" where
  "u32_at b off = bytes_u32 (slice b off 4)"

lemma get_u32_at: "off + 4 \<le> length b \<Longrightarrow> get_u32 b off = Some (u32_at b off)"
  by (simp add: get_u32_Some u32_at_def)

lemma put_u32_at: "off + 4 \<le> length b \<Longrightarrow> put_u32 b off w = Some (splice b off (u32_bytes w))"
  by (simp add: put_u32_Some)

lemma u32_at_splice_same [buf_simps]:
  "off + 4 \<le> length b \<Longrightarrow> u32_at (splice b off (u32_bytes w)) off = w"
  by (simp add: u32_at_def slice_splice_same)

lemma u32_at_splice_other [buf_simps]:
  "off + length xs \<le> length b \<Longrightarrow> off2 + 4 \<le> off \<or> off + length xs \<le> off2 \<Longrightarrow>
   u32_at (splice b off xs) off2 = u32_at b off2"
  by (simp add: u32_at_def slice_splice_other)

section \<open>Words as numbers\<close>

lemma unat_u32_lt: "unat (w :: u32) < 4294967296"
  using unsigned_less [where w = w and 'a = nat] by simp

lemma unat_of_nat_u32 [simp]: "n < 4294967296 \<Longrightarrow> unat (of_nat n :: u32) = n"
  by (simp add: unat_of_nat)

lemma unat_plus_one_u32: "Suc (unat (w :: u32)) < 4294967296 \<Longrightarrow> unat (w + 1) = Suc (unat w)"
  by (simp add: unat_word_ariths)

lemma unat_minus_one_u32: "0 < unat (w :: u32) \<Longrightarrow> unat (w - 1) = unat w - 1"
  by (metis unat_gt_0 unat_minus_one)

lemma sint_of_nat_i32: "n < 2147483648 \<Longrightarrow> sint (of_nat n :: 32 word) = int n"
  by (simp add: signed_of_nat signed_take_bit_int_eq_self_iff)

lemma mult_add_div_mod: "r < n \<Longrightarrow> (n * q + r) div n = q" "r < n \<Longrightarrow> (n * q + r) mod n = (r :: nat)"
  by simp_all

section \<open>Lists\<close>

lemma nth_list_update_split:
  "i < length xs \<Longrightarrow> xs[j := v] ! i = (if i = j then v else xs ! i)"
  by (simp add: nth_list_update)

lemma sum_change_one:
  fixes f g :: "nat \<Rightarrow> nat"
  assumes "i < m" "\<And>e. e \<noteq> i \<Longrightarrow> f e = g e"
  shows "(\<Sum>e < m. f e) + g i = (\<Sum>e < m. g e) + f i"
proof -
  have "(\<Sum>e < m. f e) = f i + (\<Sum>e \<in> {..<m} - {i}. f e)"
    "(\<Sum>e < m. g e) = g i + (\<Sum>e \<in> {..<m} - {i}. g e)"
    using assms(1) by (simp_all add: sum.remove)
  moreover have "(\<Sum>e \<in> {..<m} - {i}. f e) = (\<Sum>e \<in> {..<m} - {i}. g e)"
    using assms(2) by (intro sum.cong) auto
  ultimately show ?thesis by simp
qed

lemma distinct_remove1_set: "distinct xs \<Longrightarrow> set (remove1 x xs) = set xs - {x}"
  by simp

section \<open>Indexing an array or a \<^verbatim>\<open>std::vector\<close> with a signed index\<close>

definition vector_get :: "'a list \<Rightarrow> int \<Rightarrow> 'a option" where
  "vector_get v i = (if 0 \<le> i \<and> nat i < length v then Some (v ! nat i) else None)"

definition vector_set :: "'a list \<Rightarrow> int \<Rightarrow> 'a \<Rightarrow> 'a list option" where
  "vector_set v i x = (if 0 \<le> i \<and> nat i < length v then Some (v[nat i := x]) else None)"

lemma vector_get_Some: "0 \<le> i \<Longrightarrow> nat i < length v \<Longrightarrow> vector_get v i = Some (v ! nat i)"
  by (simp add: vector_get_def)

lemma vector_set_Some: "0 \<le> i \<Longrightarrow> nat i < length v \<Longrightarrow> vector_set v i x = Some (v[nat i := x])"
  by (simp add: vector_set_def)

section \<open>Consecutive fields of a buffer\<close>

lemma splice_adjacent:
  "off + length xs + length ys \<le> length b \<Longrightarrow>
   splice (splice b off xs) (off + length xs) ys = splice b off (xs @ ys)"
  by (simp add: splice_def ac_simps)

lemma slice_adjacent: "slice b off (n + m) = slice b off n @ slice b (off + n) m"
  by (simp add: slice_def take_add) (simp add: add.commute)

lemma slice_eq_append:
  assumes "slice b off (length (xs @ ys)) = xs @ ys"
  shows "slice b off (length xs) = xs" "slice b (off + length xs) (length ys) = ys"
proof -
  have e: "slice b off (length xs) @ slice b (off + length xs) (length ys) = xs @ ys"
    using assms by (simp add: slice_adjacent)
  have "length (slice b off (length xs)) = length xs"
  proof -
    have "length (slice b off (length (xs @ ys))) = length (xs @ ys)" using assms by simp
    then show ?thesis by (simp add: slice_def)
  qed
  with e show "slice b off (length xs) = xs" "slice b (off + length xs) (length ys) = ys" by auto
qed

lemma slice_u32_bytes:
  "slice b off 4 = u32_bytes w \<Longrightarrow> off + 4 \<le> length b \<Longrightarrow> get_u32 b off = Some w"
  by (simp add: get_u32_Some)

lemma write_next:
  "p = off + length xs \<Longrightarrow> p + length ys \<le> length b \<Longrightarrow> mem_write (splice b off xs) p ys = Some (splice b off (xs @ ys))"
  using splice_adjacent [of off xs ys b] by simp

lemma put_next:
  "p = off + length xs \<Longrightarrow> p + 4 \<le> length b \<Longrightarrow> put_u32 (splice b off xs) p w = Some (splice b off (xs @ u32_bytes w))"
  by (simp add: put_u32_def write_next)

lemma read_piece:
  assumes "slice b off (length e) = e" "off + length e \<le> length b" "e = xs @ ys @ zs"
  shows "mem_read b (off + length xs) (length ys) = Some ys"
proof -
  have "slice b (off + length xs) (length (ys @ zs)) = ys @ zs"
    by (rule slice_eq_append(2)) (use assms in simp)
  then have "slice b (off + length xs) (length ys) = ys" by (rule slice_eq_append(1))
  with assms(2,3) show ?thesis by simp
qed

lemma get_piece:
  assumes "slice b off (length e) = e" "off + length e \<le> length b" "e = xs @ u32_bytes w @ zs"
  shows "get_u32 b (off + length xs) = Some w"
  using read_piece [OF assms] by (simp add: get_u32_def del: mem_read_Some)

end
