(* ===== verification/Recovery.thy ===== *)
theory Recovery
  imports Prelude
begin

text \<open>
  Log-based recovery: the log records of \<^verbatim>\<open>include/recovery/log_info.h\<close> and
  \<^verbatim>\<open>include/recovery/log_rec.h\<close>, the checkpoint and \<^verbatim>\<open>RecoveryManager\<close> of
  \<^verbatim>\<open>include/recovery/recovery_manager.h\<close>. The \<^verbatim>\<open>std::map\<close> of log records is a list sorted by
  sequence number; the unordered maps are maps, and where the code walks one of them the order is
  an argument. The specification is a small abstract machine of strict transactions; the main
  theorem says that redo followed by undo restores exactly its committed database.
\<close>

section \<open>Log records\<close>

type_synonym key = string

datatype log_info =
    InsertInfo int key int
  | DeleteInfo int key int
  | UpdateInfo int key int key int
  | BeginInfo int
  | CommitInfo int
  | AbortInfo int

datatype LogRecType = kInvalid | kInsert | kDelete | kUpdate | kBegin | kCommit | kAbort

record log_rec =
  rec_type :: LogRecType
  rec_lsn :: int
  rec_prev_lsn :: int
  rec_info :: log_info

fun info_txn_id :: "log_info \<Rightarrow> int" where
  "info_txn_id (InsertInfo t _ _) = t"
| "info_txn_id (DeleteInfo t _ _) = t"
| "info_txn_id (UpdateInfo t _ _ _ _) = t"
| "info_txn_id (BeginInfo t) = t"
| "info_txn_id (CommitInfo t) = t"
| "info_txn_id (AbortInfo t) = t"

text \<open>The static members \<^verbatim>\<open>prev_lsn_map_\<close> and \<^verbatim>\<open>next_lsn_\<close>. Reading an absent key of the map yields 0.\<close>

record log_statics =
  prev_lsn_map :: "int \<rightharpoonup> int"
  next_lsn :: int

definition log_statics_init :: log_statics where
  "log_statics_init = \<lparr>prev_lsn_map = Map.empty, next_lsn = 0\<rparr>"

text \<open>\<^verbatim>\<open>lsn_t\<close> is \<^verbatim>\<open>int32_t\<close>: the increment of the largest number overflows and is undefined.\<close>

definition LSN_MAX :: int where "LSN_MAX = 2 ^ 31 - 1"

definition LogRec_new :: "LogRecType \<Rightarrow> int \<Rightarrow> log_info \<Rightarrow> log_statics \<Rightarrow> (log_rec \<times> log_statics) option" where
  "LogRec_new ty txnId info st =
     (let lsn = next_lsn st;
          prev = (if ty = kBegin then INVALID_LSN else case prev_lsn_map st txnId of Some l \<Rightarrow> l | None \<Rightarrow> 0)
      in if lsn < LSN_MAX then
           Some (\<lparr>rec_type = ty, rec_lsn = lsn, rec_prev_lsn = prev, rec_info = info\<rparr>,
             \<lparr>prev_lsn_map = (prev_lsn_map st)(txnId \<mapsto> lsn), next_lsn = lsn + 1\<rparr>)
         else None)"

definition CreateInsertLog :: "int \<Rightarrow> key \<Rightarrow> int \<Rightarrow> log_statics \<Rightarrow> (log_rec \<times> log_statics) option" where
  "CreateInsertLog txn_id ins_key ins_val = LogRec_new kInsert txn_id (InsertInfo txn_id ins_key ins_val)"

definition CreateDeleteLog :: "int \<Rightarrow> key \<Rightarrow> int \<Rightarrow> log_statics \<Rightarrow> (log_rec \<times> log_statics) option" where
  "CreateDeleteLog txn_id del_key del_val = LogRec_new kDelete txn_id (DeleteInfo txn_id del_key del_val)"

definition CreateUpdateLog :: "int \<Rightarrow> key \<Rightarrow> int \<Rightarrow> key \<Rightarrow> int \<Rightarrow> log_statics \<Rightarrow> (log_rec \<times> log_statics) option" where
  "CreateUpdateLog txn_id old_key old_val new_key new_val =
     LogRec_new kUpdate txn_id (UpdateInfo txn_id old_key old_val new_key new_val)"

definition CreateBeginLog :: "int \<Rightarrow> log_statics \<Rightarrow> (log_rec \<times> log_statics) option" where
  "CreateBeginLog txn_id = LogRec_new kBegin txn_id (BeginInfo txn_id)"

definition CreateCommitLog :: "int \<Rightarrow> log_statics \<Rightarrow> (log_rec \<times> log_statics) option" where
  "CreateCommitLog txn_id = LogRec_new kCommit txn_id (CommitInfo txn_id)"

definition CreateAbortLog :: "int \<Rightarrow> log_statics \<Rightarrow> (log_rec \<times> log_statics) option" where
  "CreateAbortLog txn_id = LogRec_new kAbort txn_id (AbortInfo txn_id)"

section \<open>Checkpoint and recovery manager\<close>

type_synonym kv_database = "key \<rightharpoonup> int"

record check_point =
  checkpoint_lsn :: int
  cp_active_txns :: "int \<rightharpoonup> int"
  persist_data :: kv_database

definition CheckPoint_new :: check_point where
  "CheckPoint_new = \<lparr>checkpoint_lsn = INVALID_LSN, cp_active_txns = Map.empty, persist_data = Map.empty\<rparr>"

definition AddActiveTxn :: "check_point \<Rightarrow> int \<Rightarrow> int \<Rightarrow> check_point" where
  "AddActiveTxn cp txn_id last_lsn = cp\<lparr>cp_active_txns := (cp_active_txns cp)(txn_id \<mapsto> last_lsn)\<rparr>"

text \<open>\<^verbatim>\<open>emplace\<close> of a map does not overwrite.\<close>

definition kv_emplace :: "kv_database \<Rightarrow> key \<Rightarrow> int \<Rightarrow> kv_database" where
  "kv_emplace m k v = (case m k of None \<Rightarrow> m(k \<mapsto> v) | Some _ \<Rightarrow> m)"

definition AddData :: "check_point \<Rightarrow> key \<Rightarrow> int \<Rightarrow> check_point" where
  "AddData cp k v = cp\<lparr>persist_data := kv_emplace (persist_data cp) k v\<rparr>"

type_synonym log_table = "(int \<times> log_rec) list"

record recovery_manager =
  log_recs :: log_table
  persist_lsn :: int
  active_txns :: "int \<rightharpoonup> int"
  unendedTxn :: "int \<rightharpoonup> int"
  rm_data :: kv_database

definition RecoveryManager_new :: recovery_manager where
  "RecoveryManager_new = \<lparr>log_recs = [], persist_lsn = INVALID_LSN, active_txns = Map.empty,
     unendedTxn = Map.empty, rm_data = Map.empty\<rparr>"

definition Init :: "recovery_manager \<Rightarrow> check_point \<Rightarrow> recovery_manager" where
  "Init rm last_checkpoint = rm\<lparr>persist_lsn := checkpoint_lsn last_checkpoint,
     active_txns := cp_active_txns last_checkpoint, rm_data := persist_data last_checkpoint\<rparr>"

definition AppendLogRec :: "recovery_manager \<Rightarrow> log_rec \<Rightarrow> recovery_manager" where
  "AppendLogRec rm r = rm\<lparr>log_recs :=
     (if map_of (log_recs rm) (rec_lsn r) = None then insort_key fst (rec_lsn r, r) (log_recs rm) else log_recs rm)\<rparr>"

text \<open>
  One pass of the loop of \<^verbatim>\<open>UndoTxn\<close> on a record that is not \<^verbatim>\<open>kBegin\<close>: the effect on the data. A record
  whose \<^verbatim>\<open>log_info\<close> is of the wrong class makes the \<^verbatim>\<open>dynamic_cast\<close> null and its use undefined.
\<close>

fun undo_rec :: "LogRecType \<Rightarrow> log_info \<Rightarrow> kv_database \<Rightarrow> kv_database option" where
  "undo_rec kUpdate (UpdateInfo _ old_key old_val new_key new_val) d =
     Some (kv_emplace (d(new_key := None)) old_key old_val)"
| "undo_rec kDelete (DeleteInfo _ del_key del_val) d =
     Some (if d del_key \<noteq> None then d else kv_emplace d del_key del_val)"
| "undo_rec kInsert (InsertInfo _ ins_key _) d =
     Some (if d ins_key = None then d else d(ins_key := None))"
| "undo_rec kAbort _ d = Some d"
| "undo_rec kCommit _ d = Some d"
| "undo_rec kInvalid _ d = Some d"
| "undo_rec _ _ d = None"

text \<open>\<^verbatim>\<open>log_recs_[lsn]\<close> of an absent number is a null pointer, which the loop dereferences.\<close>

partial_function (option) UndoTxn :: "log_table \<Rightarrow> int \<Rightarrow> kv_database \<Rightarrow> kv_database option" where
  "UndoTxn recs last_lsn d = do {
     r \<leftarrow> map_of recs last_lsn;
     if rec_type r = kBegin then Some d
     else do {
       d \<leftarrow> undo_rec (rec_type r) (rec_info r) d;
       UndoTxn recs (rec_prev_lsn r) d } }"

text \<open>The outcomes of a phase: \<^verbatim>\<open>exit(1)\<close>, undefined behaviour, or a new state.\<close>

datatype recovery_failure = Exit1 | Undefined

definition from_option :: "'a option \<Rightarrow> recovery_failure + 'a" where
  "from_option x = (case x of None \<Rightarrow> Inl Undefined | Some a \<Rightarrow> Inr a)"

definition res_bind :: "'e + 'a \<Rightarrow> ('a \<Rightarrow> 'e + 'b) \<Rightarrow> 'e + 'b" where
  "res_bind x f = (case x of Inl e \<Rightarrow> Inl e | Inr a \<Rightarrow> f a)"

text \<open>The effect of one redo step on the data, with the code's order of tests.\<close>

fun redo_rec :: "log_table \<Rightarrow> log_rec \<Rightarrow> kv_database \<Rightarrow> recovery_failure + kv_database" where
  "redo_rec recs r d =
     (case (rec_type r, rec_info r) of
        (kCommit, _) \<Rightarrow> Inr d
      | (kBegin, _) \<Rightarrow> Inr d
      | (kAbort, _) \<Rightarrow> from_option (UndoTxn recs (rec_prev_lsn r) d)
      | (kUpdate, UpdateInfo _ old_key old_val new_key new_val) \<Rightarrow>
          Inr (kv_emplace (d(old_key := None)) new_key new_val)
      | (kDelete, DeleteInfo _ del_key del_val) \<Rightarrow>
          let d = kv_emplace d del_key 0 in
          if d del_key \<noteq> Some del_val then Inr d else Inr (d(del_key := None))
      | (kInsert, InsertInfo _ ins_key ins_val) \<Rightarrow>
          if d ins_key \<noteq> None then Inl Exit1 else Inr (kv_emplace d ins_key ins_val)
      | (kInvalid, _) \<Rightarrow> Inl Exit1
      | _ \<Rightarrow> Inl Undefined)"

definition redo_step :: "log_table \<Rightarrow> log_rec \<Rightarrow> recovery_manager \<Rightarrow> recovery_failure + recovery_manager" where
  "redo_step recs r rm =
     (let t = info_txn_id (rec_info r);
          u = (unendedTxn rm)(t \<mapsto> rec_lsn r);
          u = (if rec_type r = kCommit \<or> rec_type r = kAbort then u(t := None) else u)
      in res_bind (redo_rec recs r (rm_data rm)) (\<lambda>d. Inr (rm\<lparr>unendedTxn := u, rm_data := d\<rparr>)))"

fun redo_loop :: "log_table \<Rightarrow> log_table \<Rightarrow> recovery_manager \<Rightarrow> recovery_failure + recovery_manager" where
  "redo_loop recs [] rm = Inr rm"
| "redo_loop recs ((_, r) # rs) rm = res_bind (redo_step recs r rm) (redo_loop recs rs)"

text \<open>\<^verbatim>\<open>find(persist_lsn_)\<close> followed by \<^verbatim>\<open>++\<close>: undefined when the number is not in the log.\<close>

definition RedoPhase :: "recovery_manager \<Rightarrow> recovery_failure + recovery_manager" where
  "RedoPhase rm =
     (let rm = rm\<lparr>unendedTxn := active_txns rm\<rparr> in
      if map_of (log_recs rm) (persist_lsn rm) = None then Inl Undefined
      else redo_loop (log_recs rm) (filter (\<lambda>(l, _). l > persist_lsn rm) (log_recs rm)) rm)"

text \<open>\<open>order\<close> is the order in which \<^verbatim>\<open>unendedTxn\<close> is walked.\<close>

fun UndoPhase :: "int list \<Rightarrow> recovery_manager \<Rightarrow> recovery_failure + recovery_manager" where
  "UndoPhase [] rm = Inr rm"
| "UndoPhase (t # order) rm =
     (case unendedTxn rm t of
        None \<Rightarrow> Inl Undefined
      | Some last_lsn \<Rightarrow>
          res_bind (from_option (UndoTxn (log_recs rm) last_lsn (rm_data rm)))
            (\<lambda>d. UndoPhase order (rm\<lparr>rm_data := d\<rparr>)))"

section \<open>Specification: strict transactions\<close>

text \<open>
  The abstract machine keeps the committed database, the current one and, for every key written by
  an unfinished transaction, that transaction as the lock holder. Committing publishes the current
  values of the locked keys, aborting restores the committed ones. An event is admissible when the
  transaction is active, every key it writes is free or locked by itself, and its recorded old
  values are the current ones.
\<close>

record txn_machine =
  committed :: kv_database
  current :: kv_database
  lock :: "key \<rightharpoonup> int"
  active :: "int set"

definition may_write :: "txn_machine \<Rightarrow> int \<Rightarrow> key \<Rightarrow> bool" where
  "may_write A t k \<longleftrightarrow> t \<in> active A \<and> (lock A k = None \<or> lock A k = Some t)"

fun spec_step :: "log_info \<Rightarrow> txn_machine \<Rightarrow> txn_machine option" where
  "spec_step (BeginInfo t) A = (if t \<in> active A then None else Some (A\<lparr>active := insert t (active A)\<rparr>))"
| "spec_step (InsertInfo t k v) A =
     (if may_write A t k \<and> current A k = None
      then Some (A\<lparr>current := (current A)(k \<mapsto> v), lock := (lock A)(k \<mapsto> t)\<rparr>) else None)"
| "spec_step (DeleteInfo t k v) A =
     (if may_write A t k \<and> current A k = Some v
      then Some (A\<lparr>current := (current A)(k := None), lock := (lock A)(k \<mapsto> t)\<rparr>) else None)"
| "spec_step (UpdateInfo t k v k' v') A =
     (if may_write A t k \<and> may_write A t k' \<and> current A k = Some v \<and> (k' = k \<or> current A k' = None)
      then Some (A\<lparr>current := (current A)(k := None, k' \<mapsto> v'), lock := (lock A)(k \<mapsto> t, k' \<mapsto> t)\<rparr>) else None)"
| "spec_step (CommitInfo t) A =
     (if t \<in> active A
      then Some (A\<lparr>committed := (\<lambda>k. if lock A k = Some t then current A k else committed A k),
        lock := (\<lambda>k. if lock A k = Some t then None else lock A k), active := active A - {t}\<rparr>) else None)"
| "spec_step (AbortInfo t) A =
     (if t \<in> active A
      then Some (A\<lparr>current := (\<lambda>k. if lock A k = Some t then committed A k else current A k),
        lock := (\<lambda>k. if lock A k = Some t then None else lock A k), active := active A - {t}\<rparr>) else None)"

fun spec_run :: "log_info list \<Rightarrow> txn_machine \<Rightarrow> txn_machine option" where
  "spec_run [] A = Some A"
| "spec_run (e # es) A = Option.bind (spec_step e A) (spec_run es)"

definition spec_init :: "kv_database \<Rightarrow> txn_machine" where
  "spec_init d = \<lparr>committed = d, current = d, lock = Map.empty, active = {}\<rparr>"

text \<open>The log that a run of the system writes, one record per event, through the \<^verbatim>\<open>Create...Log\<close> functions.\<close>

fun log_event :: "log_info \<Rightarrow> log_statics \<Rightarrow> (log_rec \<times> log_statics) option" where
  "log_event (InsertInfo t k v) = CreateInsertLog t k v"
| "log_event (DeleteInfo t k v) = CreateDeleteLog t k v"
| "log_event (UpdateInfo t k v k' v') = CreateUpdateLog t k v k' v'"
| "log_event (BeginInfo t) = CreateBeginLog t"
| "log_event (CommitInfo t) = CreateCommitLog t"
| "log_event (AbortInfo t) = CreateAbortLog t"

fun write_log :: "log_info list \<Rightarrow> log_statics \<Rightarrow> (log_rec list \<times> log_statics) option" where
  "write_log [] st = Some ([], st)"
| "write_log (e # es) st = do { (r, st) \<leftarrow> log_event e st; (rs, st) \<leftarrow> write_log es st; Some (r # rs, st) }"

definition take_checkpoint :: "txn_machine \<Rightarrow> log_statics \<Rightarrow> check_point" where
  "take_checkpoint A st = \<lparr>checkpoint_lsn = next_lsn st - 1,
     cp_active_txns = (\<lambda>t. if t \<in> active A then prev_lsn_map st t else None), persist_data = current A\<rparr>"

definition recover :: "check_point \<Rightarrow> log_rec list \<Rightarrow> int list \<Rightarrow> recovery_failure + recovery_manager" where
  "recover cp logs order =
     res_bind (RedoPhase (fold (\<lambda>r rm. AppendLogRec rm r) logs (Init RecoveryManager_new cp))) (UndoPhase order)"

section \<open>The log\<close>

fun info_type :: "log_info \<Rightarrow> LogRecType" where
  "info_type (InsertInfo _ _ _) = kInsert"
| "info_type (DeleteInfo _ _ _) = kDelete"
| "info_type (UpdateInfo _ _ _ _ _) = kUpdate"
| "info_type (BeginInfo _) = kBegin"
| "info_type (CommitInfo _) = kCommit"
| "info_type (AbortInfo _) = kAbort"

lemma log_event_eq: "log_event e st = LogRec_new (info_type e) (info_txn_id e) e st"
  by (cases e) (simp_all add: CreateInsertLog_def CreateDeleteLog_def CreateUpdateLog_def
      CreateBeginLog_def CreateCommitLog_def CreateAbortLog_def)

lemma log_event_fields:
  assumes "log_event e st = Some (r, st')"
  shows "rec_type r = info_type e" "rec_lsn r = next_lsn st" "rec_info r = e"
    "rec_prev_lsn r = (if info_type e = kBegin then INVALID_LSN
       else case prev_lsn_map st (info_txn_id e) of Some l \<Rightarrow> l | None \<Rightarrow> 0)"
    "prev_lsn_map st' = (prev_lsn_map st)(info_txn_id e \<mapsto> next_lsn st)" "next_lsn st' = next_lsn st + 1"
  using assms by (auto simp: log_event_eq LogRec_new_def Let_def split: if_splits)

lemma log_event_returns: "next_lsn st < LSN_MAX \<Longrightarrow> \<exists>r st'. log_event e st = Some (r, st')"
  by (simp add: log_event_eq LogRec_new_def Let_def)

lemma write_log_append:
  "write_log (es @ fs) st =
     do { (rs, st1) \<leftarrow> write_log es st; (ss, st2) \<leftarrow> write_log fs st1; Some (rs @ ss, st2) }"
  by (induction es arbitrary: st) (auto split: bind_splits)

lemma write_log_lsns:
  "write_log es st = Some (rs, st') \<Longrightarrow>
   map rec_lsn rs = map (\<lambda>i. next_lsn st + int i) [0..<length es] \<and> next_lsn st' = next_lsn st + int (length es)"
proof (induction es arbitrary: st rs)
  case Nil
  then show ?case by simp
next
  case (Cons e es)
  then obtain r st1 ss where e: "log_event e st = Some (r, st1)" and ss: "write_log es st1 = Some (ss, st')" "rs = r # ss"
    by (auto simp: bind_eq_Some_conv)
  have "map (\<lambda>i. next_lsn st + int i) [0..<length (e # es)] =
      next_lsn st # map (\<lambda>i. next_lsn st + 1 + int i) [0..<length es]"
    by (simp add: upt_conv_Cons map_Suc_upt [symmetric] comp_def algebra_simps del: upt_Suc)
  with Cons.IH [OF ss(1)] ss(2) log_event_fields [OF e] show ?case by simp
qed

lemma write_log_returns: "next_lsn st + int (length es) \<le> LSN_MAX \<Longrightarrow> \<exists>rs st'. write_log es st = Some (rs, st')"
proof (induction es arbitrary: st)
  case (Cons e es)
  then obtain r st1 where e: "log_event e st = Some (r, st1)" using log_event_returns [of st e] by auto
  with Cons.prems log_event_fields(6) [OF e] have "next_lsn st1 + int (length es) \<le> LSN_MAX" by simp
  with Cons.IH e show ?case by fastforce
qed simp

text \<open>Appending records with increasing numbers to a manager with an empty log.\<close>

definition indexed :: "log_rec list \<Rightarrow> log_table" where
  "indexed rs = map (\<lambda>r. (rec_lsn r, r)) rs"

lemma append_all:
  "sorted_wrt (<) (map rec_lsn rs) \<Longrightarrow>
   fold (\<lambda>r rm. AppendLogRec rm r) rs rm = rm\<lparr>log_recs := indexed rs\<rparr>" if "log_recs rm = []"
proof (induction rs rule: rev_induct)
  case Nil
  then show ?case using that by (simp add: indexed_def)
next
  case (snoc r rs)
  have lt: "\<forall>x \<in> set rs. rec_lsn x < rec_lsn r" and s: "sorted_wrt (<) (map rec_lsn rs)"
    using snoc.prems by (auto simp: sorted_wrt_append)
  have "map_of (indexed rs) (rec_lsn r) = None"
    using lt by (auto simp: map_of_eq_None_iff indexed_def)
  moreover have "insort_key fst (rec_lsn r, r) (indexed rs) = indexed rs @ [(rec_lsn r, r)]"
    using lt by (induction rs) (auto simp: indexed_def)
  ultimately show ?case
    using snoc.IH [OF s] by (simp add: AppendLogRec_def indexed_def)
qed

lemma sorted_lsns_distinct: "sorted_wrt (<) xs \<Longrightarrow> distinct (xs :: int list)"
  by (induction xs) auto

lemma lookup_indexed:
  "sorted_wrt (<) (map rec_lsn rs) \<Longrightarrow> r \<in> set rs \<Longrightarrow> map_of (indexed rs) (rec_lsn r) = Some r"
  by (subst map_of_eq_Some_iff) (auto simp: indexed_def comp_def dest: sorted_lsns_distinct)

lemma write_log_sorted: "write_log es st = Some (rs, st') \<Longrightarrow> sorted_wrt (<) (map rec_lsn rs)"
  by (drule write_log_lsns) (simp add: sorted_wrt_iff_nth_less)

section \<open>Undoing one transaction\<close>

definition locked :: "txn_machine \<Rightarrow> int \<Rightarrow> key set" where
  "locked A t = {k. lock A k = Some t}"

text \<open>
  Undoing from record \<open>l\<close> turns the current values of the keys in \<open>S\<close> into the committed ones and touches
  no other key, on every database that has the current values on \<open>S\<close>.
\<close>

definition undo_ok :: "log_table \<Rightarrow> int \<Rightarrow> key set \<Rightarrow> kv_database \<Rightarrow> kv_database \<Rightarrow> bool" where
  "undo_ok recs l S cur com \<longleftrightarrow>
     (\<forall>d. (\<forall>k \<in> S. d k = cur k) \<longrightarrow>
        UndoTxn recs l d = Some (\<lambda>k. if k \<in> S then com k else d k))"

lemma undo_ok_cong:
  assumes "undo_ok recs l S cur com" "\<And>k. k \<in> S \<Longrightarrow> cur' k = cur k" "\<And>k. k \<in> S \<Longrightarrow> com' k = com k"
  shows "undo_ok recs l S cur' com'"
proof -
  have "(\<lambda>k. if k \<in> S then com' k else d k) = (\<lambda>k. if k \<in> S then com k else d k)" for d
    using assms(3) by (intro ext) simp
  then show ?thesis using assms(1,2) unfolding undo_ok_def by simp
qed

lemma undo_ok_begin:
  "map_of recs l = Some r \<Longrightarrow> rec_type r = kBegin \<Longrightarrow> undo_ok recs l {} cur com"
  by (simp add: undo_ok_def UndoTxn.simps)

lemma undo_ok_extend:
  assumes old: "undo_ok recs l S cur com"
    and r: "map_of recs n = Some r" "rec_type r \<noteq> kBegin" "rec_prev_lsn r = l"
    and undo: "\<And>d. (\<And>k. k \<in> K \<Longrightarrow> d k = cur' k) \<Longrightarrow>
      undo_rec (rec_type r) (rec_info r) d = Some (\<lambda>k. if k \<in> K then cur k else d k)"
    and frame: "\<And>k. k \<notin> K \<Longrightarrow> cur' k = cur k" and clean: "\<And>k. k \<in> K - S \<Longrightarrow> cur k = com k"
  shows "undo_ok recs n (S \<union> K) cur' com"
  unfolding undo_ok_def
proof (intro allI impI)
  fix d assume d: "\<forall>k \<in> S \<union> K. d k = cur' k"
  let ?d1 = "\<lambda>k. if k \<in> K then cur k else d k"
  have "UndoTxn recs n d = UndoTxn recs l ?d1"
    using r undo [of d] d by (subst UndoTxn.simps) simp
  also have "\<dots> = Some (\<lambda>k. if k \<in> S then com k else ?d1 k)"
    using old d frame unfolding undo_ok_def by (auto dest!: spec [of _ ?d1])
  also have "(\<lambda>k. if k \<in> S then com k else ?d1 k) = (\<lambda>k. if k \<in> S \<union> K then com k else d k)"
    using clean by (intro ext) simp
  finally show "UndoTxn recs n d = Some (\<lambda>k. if k \<in> S \<union> K then com k else d k)" .
qed

definition log_ok :: "log_table \<Rightarrow> log_statics \<Rightarrow> txn_machine \<Rightarrow> bool" where
  "log_ok recs st A \<longleftrightarrow>
     (\<forall>t \<in> active A. \<exists>l. prev_lsn_map st t = Some l \<and> undo_ok recs l (locked A t) (current A) (committed A)) \<and>
     (\<forall>k t. lock A k = Some t \<longrightarrow> t \<in> active A) \<and>
     (\<forall>k. lock A k = None \<longrightarrow> current A k = committed A k)"

lemma log_ok_active:
  "log_ok recs st A \<Longrightarrow> t \<in> active A \<Longrightarrow>
   \<exists>l. prev_lsn_map st t = Some l \<and> undo_ok recs l (locked A t) (current A) (committed A)"
  by (simp add: log_ok_def)

text \<open>A write by transaction \<open>t\<close> to the keys \<open>K\<close>.\<close>

lemma log_ok_write:
  assumes ok: "log_ok recs st A" and t: "t \<in> active A"
    and A': "committed A' = committed A" "active A' = active A"
      "lock A' = (\<lambda>k. if k \<in> K then Some t else lock A k)" "\<And>k. k \<notin> K \<Longrightarrow> current A' k = current A k"
    and may: "\<And>k. k \<in> K \<Longrightarrow> lock A k = None \<or> lock A k = Some t"
    and st': "prev_lsn_map st' = (prev_lsn_map st)(t \<mapsto> n)"
    and r: "map_of recs n = Some r" "rec_type r \<noteq> kBegin" "prev_lsn_map st t = Some (rec_prev_lsn r)"
    and undo: "\<And>d. (\<And>k. k \<in> K \<Longrightarrow> d k = current A' k) \<Longrightarrow>
      undo_rec (rec_type r) (rec_info r) d = Some (\<lambda>k. if k \<in> K then current A k else d k)"
  shows "log_ok recs st' A'"
proof -
  have lt: "locked A' t = locked A t \<union> K" using A'(3) by (auto simp: locked_def)
  have lo: "locked A' t' = locked A t'" "locked A t' \<inter> K = {}" if "t' \<noteq> t" for t'
  proof -
    have "lock A k \<noteq> Some t'" if "k \<in> K" for k using may [OF that] \<open>t' \<noteq> t\<close> by auto
    then show "locked A' t' = locked A t'" "locked A t' \<inter> K = {}"
      using A'(3) that by (auto simp: locked_def)
  qed
  have "undo_ok recs (rec_prev_lsn r) (locked A t) (current A) (committed A)"
    using ok t r(3) by (auto simp: log_ok_def)
  then have "undo_ok recs n (locked A t \<union> K) (current A') (committed A)"
  proof (rule undo_ok_extend [OF _ r(1,2) refl undo A'(4)])
    show "current A k = committed A k" if "k \<in> K - locked A t" for k
      using that may [of k] ok by (auto simp: locked_def log_ok_def)
  qed auto
  moreover have "\<exists>l. prev_lsn_map st' t' = Some l \<and> undo_ok recs l (locked A' t') (current A') (committed A')"
    if t': "t' \<in> active A" "t' \<noteq> t" for t'
  proof -
    obtain l where l: "prev_lsn_map st t' = Some l" "undo_ok recs l (locked A t') (current A) (committed A)"
      using log_ok_active [OF ok t'(1)] by blast
    have "current A' k = current A k" if "k \<in> locked A t'" for k
      using lo(2) [OF t'(2)] that A'(4) [of k] by blast
    then have "undo_ok recs l (locked A t') (current A') (committed A')"
      by (intro undo_ok_cong [OF l(2)]) (simp_all add: A'(1))
    then show ?thesis using l(1) lo(1) [OF t'(2)] t'(2) st' by simp
  qed
  moreover have "t' \<in> active A'" if "lock A' k = Some t'" for k t'
    using ok t that A'(2,3) by (auto simp: log_ok_def split: if_splits)
  moreover have "current A' k = committed A' k" if "lock A' k = None" for k
    using ok that A'(1,3,4) by (auto simp: log_ok_def split: if_splits)
  ultimately show ?thesis
    using A'(1,2) lt st' unfolding log_ok_def by (metis fun_upd_same)
qed

text \<open>The end of transaction \<open>t\<close>: its locks go, by keeping its values (commit) or by restoring the committed ones.\<close>

lemma log_ok_end:
  assumes ok: "log_ok recs st A"
    and A': "active A' = active A - {t}" "lock A' = (\<lambda>k. if lock A k = Some t then None else lock A k)"
      "\<And>k. lock A k = Some t \<Longrightarrow> current A' k = committed A' k"
      "\<And>k. lock A k \<noteq> Some t \<Longrightarrow> current A' k = current A k \<and> committed A' k = committed A k"
    and st': "prev_lsn_map st' = (prev_lsn_map st)(t \<mapsto> n)"
  shows "log_ok recs st' A'"
proof -
  have "\<exists>l. prev_lsn_map st' t' = Some l \<and> undo_ok recs l (locked A' t') (current A') (committed A')"
    if t': "t' \<in> active A" "t' \<noteq> t" for t'
  proof -
    obtain l where l: "prev_lsn_map st t' = Some l" "undo_ok recs l (locked A t') (current A) (committed A)"
      using log_ok_active [OF ok t'(1)] by blast
    have "undo_ok recs l (locked A t') (current A') (committed A')"
      by (rule undo_ok_cong [OF l(2)]) (use A'(4) t'(2) in \<open>simp_all add: locked_def\<close>)
    moreover have "locked A' t' = locked A t'" using A'(2) t'(2) by (auto simp: locked_def)
    ultimately show ?thesis using l(1) t'(2) st' by simp
  qed
  moreover have "current A' k = committed A' k" if "lock A' k = None" for k
    using ok that A'(2-4) by (auto simp: log_ok_def split: if_splits)
  moreover have "t' \<in> active A'" if "lock A' k = Some t'" for k t'
    using ok that A'(1,2) by (auto simp: log_ok_def split: if_splits)
  ultimately show ?thesis using A'(1) unfolding log_ok_def by blast
qed

lemma emplace_simps:
  "d k = None \<Longrightarrow> kv_emplace d k v = d(k \<mapsto> v)" "kv_emplace (d(k := None)) k v = d(k \<mapsto> v)"
  "d k' = Some v' \<Longrightarrow> kv_emplace d k' v = d"
  by (simp_all add: kv_emplace_def)

lemma log_ok_step:
  assumes ok: "log_ok recs st A" and step: "spec_step e A = Some A'"
    and ev: "log_event e st = Some (r, st')" and look: "map_of recs (rec_lsn r) = Some r"
  shows "log_ok recs st' A'"
proof -
  note F = log_event_fields [OF ev]
  have prev: "prev_lsn_map st (info_txn_id e) = Some (rec_prev_lsn r)"
    if "info_txn_id e \<in> active A" "info_type e \<noteq> kBegin"
    using that ok F(4) by (auto simp: log_ok_def)
  have look': "map_of recs (next_lsn st) = Some r" using look F(2) by simp
  show ?thesis
  proof (cases e)
    case (BeginInfo t)
    with step have A': "A' = A\<lparr>active := insert t (active A)\<rparr>" "t \<notin> active A" by (auto split: if_splits)
    have "locked A t = {}" using ok A'(2) by (auto simp: locked_def log_ok_def)
    moreover have "undo_ok recs (next_lsn st) {} (current A) (committed A)"
      by (rule undo_ok_begin [OF look']) (simp add: F(1) BeginInfo)
    ultimately show ?thesis
      using ok A' F(5) BeginInfo by (auto simp: log_ok_def locked_def)
  next
    case (InsertInfo t k v)
    with step have A': "A' = A\<lparr>current := (current A)(k \<mapsto> v), lock := (lock A)(k \<mapsto> t)\<rparr>"
      "t \<in> active A" "lock A k = None \<or> lock A k = Some t" "current A k = None"
      by (auto simp: may_write_def split: if_splits)
    show ?thesis
      by (rule log_ok_write [OF ok A'(2), where K = "{k}", OF _ _ _ _ _ F(5) [unfolded InsertInfo info_txn_id.simps] look'])
        (use A' F InsertInfo prev in \<open>auto simp: fun_eq_iff\<close>)
  next
    case (DeleteInfo t k v)
    with step have A': "A' = A\<lparr>current := (current A)(k := None), lock := (lock A)(k \<mapsto> t)\<rparr>"
      "t \<in> active A" "lock A k = None \<or> lock A k = Some t" "current A k = Some v"
      by (auto simp: may_write_def split: if_splits)
    show ?thesis
      by (rule log_ok_write [OF ok A'(2), where K = "{k}", OF _ _ _ _ _ F(5) [unfolded DeleteInfo info_txn_id.simps] look'])
        (use A' F DeleteInfo prev in \<open>auto simp: fun_eq_iff emplace_simps\<close>)
  next
    case (UpdateInfo t k v k' v')
    with step have A': "A' = A\<lparr>current := (current A)(k := None, k' \<mapsto> v'), lock := (lock A)(k \<mapsto> t, k' \<mapsto> t)\<rparr>"
      "t \<in> active A" "lock A k = None \<or> lock A k = Some t" "lock A k' = None \<or> lock A k' = Some t"
      "current A k = Some v" "k' = k \<or> current A k' = None"
      by (auto simp: may_write_def split: if_splits)
    show ?thesis
      by (rule log_ok_write [OF ok A'(2), where K = "{k, k'}", OF _ _ _ _ _ F(5) [unfolded UpdateInfo info_txn_id.simps] look'])
        (use A' F UpdateInfo prev in \<open>auto simp: fun_eq_iff kv_emplace_def split: option.splits\<close>)
  next
    case (CommitInfo t)
    with step have A': "t \<in> active A" "A' = A\<lparr>committed := (\<lambda>k. if lock A k = Some t then current A k else committed A k),
        lock := (\<lambda>k. if lock A k = Some t then None else lock A k), active := active A - {t}\<rparr>"
      by (auto split: if_splits)
    show ?thesis
      by (rule log_ok_end [OF ok _ _ _ _ F(5) [unfolded CommitInfo info_txn_id.simps]]) (auto simp: A'(2))
  next
    case (AbortInfo t)
    with step have A': "t \<in> active A" "A' = A\<lparr>current := (\<lambda>k. if lock A k = Some t then committed A k else current A k),
        lock := (\<lambda>k. if lock A k = Some t then None else lock A k), active := active A - {t}\<rparr>"
      by (auto split: if_splits)
    show ?thesis
      by (rule log_ok_end [OF ok _ _ _ _ F(5) [unfolded AbortInfo info_txn_id.simps]]) (auto simp: A'(2))
  qed
qed

section \<open>Redo and undo\<close>

definition redo_rel :: "recovery_manager \<Rightarrow> txn_machine \<Rightarrow> log_statics \<Rightarrow> bool" where
  "redo_rel rm A st \<longleftrightarrow> rm_data rm = current A \<and>
     unendedTxn rm = (\<lambda>t. if t \<in> active A then prev_lsn_map st t else None)"

lemma redo_step_ok:
  assumes ok: "log_ok recs st A" and step: "spec_step e A = Some A'"
    and ev: "log_event e st = Some (r, st')" and rel: "redo_rel rm A st"
  shows "\<exists>rm'. redo_step recs r rm = Inr rm' \<and> redo_rel rm' A' st' \<and> log_recs rm' = log_recs rm"
proof -
  note F = log_event_fields [OF ev]
  have u: "(unendedTxn rm)(info_txn_id e \<mapsto> next_lsn st) = (\<lambda>t. if t \<in> insert (info_txn_id e) (active A) then prev_lsn_map st' t else None)"
    using rel F(5) by (auto simp: redo_rel_def fun_eq_iff)
  have rd: "rm_data rm = current A" using rel by (simp add: redo_rel_def)
  have mid: ?thesis if "redo_rec recs r (current A) = Inr (current A')"
    "rec_type r \<noteq> kCommit" "rec_type r \<noteq> kAbort" "active A' = insert (info_txn_id e) (active A)"
  proof -
    have "redo_step recs r rm = Inr (rm\<lparr>unendedTxn := (unendedTxn rm)(info_txn_id e \<mapsto> next_lsn st), rm_data := current A'\<rparr>)"
      using that(1-3) rd F(2,3) by (simp add: redo_step_def res_bind_def Let_def del: redo_rec.simps)
    with u that(4) show ?thesis by (simp add: redo_rel_def)
  qed
  have fin: ?thesis if "redo_rec recs r (current A) = Inr (current A')"
    "rec_type r = kCommit \<or> rec_type r = kAbort" "active A' = active A - {info_txn_id e}"
  proof -
    have "redo_step recs r rm = Inr (rm\<lparr>unendedTxn := (unendedTxn rm)(info_txn_id e := None), rm_data := current A'\<rparr>)"
      using that(1,2) rd F(2,3) by (auto simp: redo_step_def res_bind_def Let_def simp del: redo_rec.simps)
    moreover have "(unendedTxn rm)(info_txn_id e := None) = (\<lambda>t. if t \<in> active A' then prev_lsn_map st' t else None)"
      using rel F(5) that(3) by (auto simp: redo_rel_def fun_eq_iff)
    ultimately show ?thesis by (simp add: redo_rel_def)
  qed
  show ?thesis
  proof (cases e)
    case (AbortInfo t)
    with step have A': "t \<in> active A" "A' = A\<lparr>current := (\<lambda>k. if lock A k = Some t then committed A k else current A k),
        lock := (\<lambda>k. if lock A k = Some t then None else lock A k), active := active A - {t}\<rparr>"
      by (auto split: if_splits)
    from log_ok_active [OF ok A'(1)] obtain l where l: "prev_lsn_map st t = Some l"
      "undo_ok recs l (locked A t) (current A) (committed A)" by blast
    have "UndoTxn recs l (current A) = Some (current A')"
      using l(2) A'(2) by (simp add: undo_ok_def locked_def)
    then show ?thesis
      by (intro fin) (use F AbortInfo A' l(1) in \<open>simp_all add: from_option_def\<close>)
  next
    case (UpdateInfo t k v k' v')
    with step have A': "A' = A\<lparr>current := (current A)(k := None, k' \<mapsto> v'), lock := (lock A)(k \<mapsto> t, k' \<mapsto> t)\<rparr>"
      "t \<in> active A" "current A k = Some v" "k' = k \<or> current A k' = None"
      by (auto simp: may_write_def split: if_splits)
    show ?thesis
      by (rule mid) (use A' F UpdateInfo in \<open>auto simp: kv_emplace_def fun_eq_iff split: option.splits\<close>)
  next
    case (InsertInfo t k v)
    with step have "A' = A\<lparr>current := (current A)(k \<mapsto> v), lock := (lock A)(k \<mapsto> t)\<rparr>" "t \<in> active A" "current A k = None"
      by (auto simp: may_write_def split: if_splits)
    then show ?thesis by (intro mid) (use F InsertInfo in \<open>auto simp: emplace_simps\<close>)
  next
    case (DeleteInfo t k v)
    with step have "A' = A\<lparr>current := (current A)(k := None), lock := (lock A)(k \<mapsto> t)\<rparr>" "t \<in> active A" "current A k = Some v"
      by (auto simp: may_write_def split: if_splits)
    then show ?thesis by (intro mid) (use F DeleteInfo in \<open>auto simp: emplace_simps Let_def\<close>)
  next
    case (BeginInfo t)
    with step have "A' = A\<lparr>active := insert t (active A)\<rparr>" by (auto split: if_splits)
    then show ?thesis by (intro mid) (use F BeginInfo in simp_all)
  next
    case (CommitInfo t)
    with step have "current A' = current A" "active A' = active A - {t}" by (auto split: if_splits)
    then show ?thesis by (intro fin) (use F CommitInfo in simp_all)
  qed
qed

lemma redo_loop_ok:
  assumes "spec_run es A = Some A'" "write_log es st = Some (rs, st')" "log_ok recs st A" "redo_rel rm A st"
    "\<And>r. r \<in> set rs \<Longrightarrow> map_of recs (rec_lsn r) = Some r"
  shows "\<exists>rm'. redo_loop recs (indexed rs) rm = Inr rm' \<and> redo_rel rm' A' st' \<and> log_recs rm' = log_recs rm \<and> log_ok recs st' A'"
  using assms
proof (induction es arbitrary: A st rs rm)
  case Nil
  then show ?case by (auto simp: indexed_def)
next
  case (Cons e es)
  from Cons.prems(1) obtain A1 where A1: "spec_step e A = Some A1" "spec_run es A1 = Some A'"
    by (auto simp: bind_eq_Some_conv)
  from Cons.prems(2) obtain r st1 ss where ev: "log_event e st = Some (r, st1)" and ss: "write_log es st1 = Some (ss, st')" "rs = r # ss"
    by (auto simp: bind_eq_Some_conv)
  obtain rm1 where rm1: "redo_step recs r rm = Inr rm1" "redo_rel rm1 A1 st1" "log_recs rm1 = log_recs rm"
    using redo_step_ok [OF Cons.prems(3) A1(1) ev Cons.prems(4)] by blast
  have "log_ok recs st1 A1"
    by (rule log_ok_step [OF Cons.prems(3) A1(1) ev]) (use Cons.prems(5) ss(2) in simp)
  from Cons.IH [OF A1(2) ss(1) this rm1(2)] Cons.prems(5) ss(2) rm1 show ?case
    by (auto simp: indexed_def res_bind_def)
qed

lemma log_ok_run:
  assumes "spec_run es A = Some A'" "write_log es st = Some (rs, st')" "log_ok recs st A"
    "\<And>r. r \<in> set rs \<Longrightarrow> map_of recs (rec_lsn r) = Some r"
  shows "log_ok recs st' A'"
proof -
  let ?rm = "\<lparr>log_recs = [], persist_lsn = 0, active_txns = Map.empty,
    unendedTxn = (\<lambda>t. if t \<in> active A then prev_lsn_map st t else None), rm_data = current A\<rparr>"
  have "redo_rel ?rm A st" by (simp add: redo_rel_def)
  from redo_loop_ok [OF assms(1-3) this assms(4)] show ?thesis by blast
qed

lemma undo_phase_ok:
  assumes "log_ok recs st A" "log_recs rm = recs" "distinct order" "set order \<subseteq> active A"
    "unendedTxn rm = (\<lambda>t. if t \<in> active A then prev_lsn_map st t else None)"
    "\<And>k. rm_data rm k = (if lock A k \<in> Some ` set order then current A k else committed A k)"
  shows "\<exists>rm'. UndoPhase order rm = Inr rm' \<and> rm_data rm' = committed A"
  using assms
proof (induction order arbitrary: rm)
  case Nil
  then show ?case by auto
next
  case (Cons t order)
  then have t: "t \<in> active A" by simp
  from log_ok_active [OF Cons.prems(1) t] obtain l where l: "prev_lsn_map st t = Some l"
    "undo_ok recs l (locked A t) (current A) (committed A)" by blast
  let ?d = "\<lambda>k. if k \<in> locked A t then committed A k else rm_data rm k"
  have "UndoTxn recs l (rm_data rm) = Some ?d"
    using l(2) Cons.prems(6) by (simp add: undo_ok_def locked_def)
  moreover have "?d k = (if lock A k \<in> Some ` set order then current A k else committed A k)" for k
    using Cons.prems(3,6) by (auto simp: locked_def)
  then have "\<exists>rm'. UndoPhase order (rm\<lparr>rm_data := ?d\<rparr>) = Inr rm' \<and> rm_data rm' = committed A"
    by (intro Cons.IH [OF Cons.prems(1)]) (use Cons.prems in auto)
  ultimately show ?case
    using Cons.prems(2,5) t l(1) by (simp add: from_option_def res_bind_def)
qed

section \<open>Properties\<close>

lemma log_ok_init: "log_ok recs log_statics_init (spec_init d)"
  by (simp add: log_ok_def spec_init_def)

text \<open>The records up to the checkpoint are those before it, and the last of them is the one the checkpoint names.\<close>

lemma checkpoint_splits_log:
  assumes log: "write_log pre log_statics_init = Some (rs1, st1)" "write_log post st1 = Some (rs2, st2)" and ne: "pre \<noteq> []"
  shows "\<exists>r \<in> set rs1. rec_lsn r = checkpoint_lsn (take_checkpoint A st1)"
    "\<And>r. r \<in> set rs1 \<Longrightarrow> rec_lsn r \<le> checkpoint_lsn (take_checkpoint A st1)" "\<And>r. r \<in> set rs2 \<Longrightarrow> rec_lsn r > checkpoint_lsn (take_checkpoint A st1)"
proof -
  have n1: "map rec_lsn rs1 = map int [0..<length pre]" "next_lsn st1 = int (length pre)"
    using write_log_lsns [OF log(1)] by (simp_all add: log_statics_init_def)
  have n2: "map rec_lsn rs2 = map (\<lambda>i. int (length pre) + int i) [0..<length post]"
    using write_log_lsns [OF log(2)] n1(2) by simp
  have "int (length pre - 1) \<in> set (map rec_lsn rs1)" unfolding n1(1) using ne by simp
  then show "\<exists>r \<in> set rs1. rec_lsn r = checkpoint_lsn (take_checkpoint A st1)"
    using n1(2) ne by (auto simp: take_checkpoint_def of_nat_diff Suc_leI)
  show "rec_lsn r \<le> checkpoint_lsn (take_checkpoint A st1)" if "r \<in> set rs1" for r
  proof -
    have "rec_lsn r \<in> set (map rec_lsn rs1)" using that by simp
    then show ?thesis unfolding n1(1) by (auto simp: take_checkpoint_def n1(2))
  qed
  show "rec_lsn r > checkpoint_lsn (take_checkpoint A st1)" if "r \<in> set rs2" for r
  proof -
    have "rec_lsn r \<in> set (map rec_lsn rs2)" using that by simp
    then show ?thesis unfolding n2 by (auto simp: take_checkpoint_def n1(2))
  qed
qed

lemma recovery_ok:
  assumes run: "spec_run pre (spec_init d0) = Some A1" "spec_run post A1 = Some A2" and ne: "pre \<noteq> []"
    and log: "write_log pre log_statics_init = Some (rs1, st1)" "write_log post st1 = Some (rs2, st2)"
    and order: "distinct order" "set order = active A2"
  shows "\<exists>rm. recover (take_checkpoint A1 st1) (rs1 @ rs2) order = Inr rm \<and> rm_data rm = committed A2"
proof -
  define recs where "recs = indexed (rs1 @ rs2)"
  have whole: "write_log (pre @ post) log_statics_init = Some (rs1 @ rs2, st2)"
    using log by (simp add: write_log_append)
  have sorted: "sorted_wrt (<) (map rec_lsn (rs1 @ rs2))" by (rule write_log_sorted [OF whole])
  have look: "map_of recs (rec_lsn r) = Some r" if "r \<in> set rs1 \<union> set rs2" for r
    unfolding recs_def by (rule lookup_indexed [OF sorted]) (use that in simp)
  have ok1: "log_ok recs st1 A1"
    by (rule log_ok_run [OF run(1) log(1) log_ok_init]) (simp add: look)
  let ?cp = "take_checkpoint A1 st1"
  let ?rm = "(Init RecoveryManager_new ?cp)\<lparr>log_recs := recs, unendedTxn := cp_active_txns ?cp\<rparr>"
  note after = checkpoint_splits_log [OF log ne, where A = A1]
  obtain r where "r \<in> set rs1" "rec_lsn r = checkpoint_lsn ?cp" using after(1) by blast
  with look have found: "map_of recs (checkpoint_lsn ?cp) \<noteq> None" by force
  have filt: "filter (\<lambda>(l, _). l > checkpoint_lsn ?cp) recs = indexed rs2"
    unfolding recs_def using after(2,3) by (simp add: indexed_def filter_map comp_def filter_True filter_False leD)
  have "redo_rel ?rm A1 st1" by (simp add: redo_rel_def Init_def take_checkpoint_def)
  then obtain rm' where rm': "redo_loop recs (indexed rs2) ?rm = Inr rm'" "redo_rel rm' A2 st2" "log_recs rm' = recs"
    "log_ok recs st2 A2"
    using redo_loop_ok [OF run(2) log(2) ok1, of ?rm] look by auto
  have app: "fold (\<lambda>r rm. AppendLogRec rm r) (rs1 @ rs2) (Init RecoveryManager_new ?cp) =
      (Init RecoveryManager_new ?cp)\<lparr>log_recs := recs\<rparr>"
    unfolding recs_def by (rule append_all [OF _ sorted]) (simp add: Init_def RecoveryManager_new_def)
  have "RedoPhase ((Init RecoveryManager_new ?cp)\<lparr>log_recs := recs\<rparr>) = Inr rm'"
    using found filt rm'(1) by (simp add: RedoPhase_def Init_def Let_def)
  moreover have "\<exists>rm. UndoPhase order rm' = Inr rm \<and> rm_data rm = committed A2"
  proof (rule undo_phase_ok [OF rm'(4,3) order(1)])
    show "rm_data rm' k = (if lock A2 k \<in> Some ` set order then current A2 k else committed A2 k)" for k
      using rm'(2,4) order(2) by (cases "lock A2 k") (auto simp: redo_rel_def log_ok_def)
  qed (use rm'(2) order(2) in \<open>auto simp: redo_rel_def\<close>)
  ultimately show ?thesis by (simp add: recover_def app res_bind_def del: fold_append)
qed

text \<open>
  C1: recovery is correct for every log of less than \<open>2 ^ 31\<close> records (more overflow the sequence numbers) written by strict transactions. Run any admissible event
  sequence, take a checkpoint at any point after the first record, let the system run on and crash:
  initialising the manager from the checkpoint, appending all log records, redo and undo ends
  normally, whatever the order in which the unfinished transactions are walked, and the database is
  exactly the committed one: all effects of committed transactions and no effect of an aborted or
  unfinished one.
\<close>

theorem recovery_restores_committed:
  assumes "spec_run pre (spec_init d0) = Some A1" "spec_run post A1 = Some A2" "pre \<noteq> []" "length pre + length post < 2 ^ 31"
    and "distinct order" "set order = active A2"
  shows "\<exists>rs1 st1 rs2 st2 rm. write_log pre log_statics_init = Some (rs1, st1) \<and> write_log post st1 = Some (rs2, st2) \<and>
    recover (take_checkpoint A1 st1) (rs1 @ rs2) order = Inr rm \<and> rm_data rm = committed A2"
proof -
  obtain rs1 st1 where l1: "write_log pre log_statics_init = Some (rs1, st1)"
    using write_log_returns [of log_statics_init pre] assms(4) by (auto simp: log_statics_init_def LSN_MAX_def)
  have "next_lsn st1 = int (length pre)" using write_log_lsns [OF l1] by (simp add: log_statics_init_def)
  then obtain rs2 st2 where l2: "write_log post st1 = Some (rs2, st2)"
    using write_log_returns [of st1 post] assms(4) by (auto simp: LSN_MAX_def)
  from recovery_ok [OF assms(1-3) l1 l2 assms(5,6)] l1 l2 show ?thesis by blast
qed

text \<open>The scenario of the repository's recovery test.\<close>

definition test_pre :: "log_info list" where
  "test_pre = [BeginInfo 0, UpdateInfo 0 ''A'' 2000 ''A'' 2050, DeleteInfo 0 ''B'' 1000, BeginInfo 1]"

definition test_post :: "log_info list" where
  "test_post = [InsertInfo 1 ''C'' 600, CommitInfo 1, UpdateInfo 0 ''C'' 600 ''C'' 700, AbortInfo 0,
     BeginInfo 2, InsertInfo 2 ''D'' 30000, UpdateInfo 2 ''C'' 600 ''C'' 800]"

theorem recovery_restores_committed_witness:
  "\<exists>A1 rs1 st1 rs2 st2 rm. write_log test_pre log_statics_init = Some (rs1, st1) \<and> write_log test_post st1 = Some (rs2, st2) \<and>
     recover (take_checkpoint A1 st1) (rs1 @ rs2) [2] = Inr rm \<and>
     rm_data rm ''A'' = Some 2000 \<and> rm_data rm ''B'' = Some 1000 \<and> rm_data rm ''C'' = Some 600 \<and> rm_data rm ''D'' = None"
proof -
  let ?d0 = "[''A'' \<mapsto> 2000, ''B'' \<mapsto> 1000]"
  define A1 where "A1 = \<lparr>committed = ?d0, current = [''A'' \<mapsto> 2050], lock = [''A'' \<mapsto> 0, ''B'' \<mapsto> 0], active = {0, 1}\<rparr>"
  have A1: "spec_run test_pre (spec_init ?d0) = Some A1"
    by (auto simp: test_pre_def spec_init_def may_write_def A1_def fun_eq_iff)
  have "\<exists>A2. spec_run test_post A1 = Some A2 \<and> active A2 = {2} \<and> committed A2 = ?d0(''C'' \<mapsto> 600)"
    by (simp add: test_post_def may_write_def A1_def) (auto simp: fun_eq_iff)
  then obtain A2 where A2: "spec_run test_post A1 = Some A2" "active A2 = {2}" "committed A2 = ?d0(''C'' \<mapsto> 600)"
    by blast
  have "length test_pre + length test_post < 2 ^ 31" "test_pre \<noteq> []" by (simp_all add: test_pre_def test_post_def)
  from recovery_restores_committed [OF A1 A2(1) this(2,1), of "[2]"] A2(2)
  obtain rs1 st1 rs2 st2 rm where "write_log test_pre log_statics_init = Some (rs1, st1)" "write_log test_post st1 = Some (rs2, st2)"
    "recover (take_checkpoint A1 st1) (rs1 @ rs2) [2] = Inr rm" "rm_data rm = committed A2" by auto
  with A2(3) show ?thesis by (intro exI [of _ A1] exI [of _ rs1] exI [of _ st1] exI [of _ rs2] exI [of _ st2] exI [of _ rm]) simp
qed

text \<open>
  C35: the loop of \<^verbatim>\<open>UndoTxn\<close> ends with a defined result on every log in which each record other than a
  \<^verbatim>\<open>kBegin\<close> carries the information of its type and links to an earlier record of the log, whatever the
  data, consistent or not.
\<close>

definition chained :: "log_table \<Rightarrow> bool" where
  "chained recs \<longleftrightarrow> (\<forall>(l, r) \<in> set recs. 0 \<le> l \<and> (rec_type r \<noteq> kBegin \<longrightarrow>
     info_type (rec_info r) = rec_type r \<and> rec_prev_lsn r < l \<and> map_of recs (rec_prev_lsn r) \<noteq> None))"

lemma undo_rec_defined: "rec_type r \<noteq> kBegin \<Longrightarrow> info_type (rec_info r) = rec_type r \<Longrightarrow> \<exists>d'. undo_rec (rec_type r) (rec_info r) d = Some d'"
  by (cases "rec_info r") auto

theorem UndoTxn_terminates:
  assumes "chained recs" "map_of recs l \<noteq> None"
  shows "\<exists>d'. UndoTxn recs l d = Some d'"
  using assms(2)
proof (induction "nat l" arbitrary: l d rule: less_induct)
  case less
  then obtain r where r: "map_of recs l = Some r" by auto
  then have c: "0 \<le> l" "rec_type r \<noteq> kBegin \<Longrightarrow> info_type (rec_info r) = rec_type r \<and> rec_prev_lsn r < l \<and> map_of recs (rec_prev_lsn r) \<noteq> None"
    using assms(1) by (auto simp: chained_def dest!: map_of_SomeD)
  show ?case
  proof (cases "rec_type r = kBegin")
    case True
    with r show ?thesis by (subst UndoTxn.simps) simp
  next
    case False
    then obtain d1 where d1: "undo_rec (rec_type r) (rec_info r) d = Some d1" using c(2) undo_rec_defined by blast
    obtain r' where "map_of recs (rec_prev_lsn r) = Some r'" using c(2) False by auto
    then have "0 \<le> rec_prev_lsn r" using assms(1) by (auto simp: chained_def dest!: map_of_SomeD)
    then have "nat (rec_prev_lsn r) < nat l" using c(2) False by simp
    from less.hyps [OF this] c(2) False obtain d' where "UndoTxn recs (rec_prev_lsn r) d1 = Some d'" by blast
    with r False d1 show ?thesis by (subst UndoTxn.simps) simp
  qed
qed

theorem UndoTxn_terminates_witness:
  "\<exists>d'. UndoTxn (indexed (fst (the (write_log [BeginInfo 0, InsertInfo 0 ''k'' 5] log_statics_init)))) 1 Map.empty = Some d'"
  by (rule UndoTxn_terminates)
    (simp_all add: indexed_def CreateBeginLog_def CreateInsertLog_def LogRec_new_def LSN_MAX_def Let_def log_statics_init_def chained_def)

text \<open>
  Recovery without a checkpoint is undefined: with the default checkpoint (sequence number
  \<^verbatim>\<open>INVALID_LSN\<close>) and any log written by the system, \<^verbatim>\<open>RedoPhase\<close> increments the end iterator.
\<close>

theorem recover_without_checkpoint_undefined:
  assumes "write_log es log_statics_init = Some (rs, st)"
  shows "recover CheckPoint_new rs order = Inl Undefined"
proof -
  have "map rec_lsn rs = map int [0..<length es]"
    using write_log_lsns [OF assms] by (simp add: log_statics_init_def)
  then have "set (map rec_lsn rs) = int ` {0..<length es}" by simp
  then have "map_of (indexed rs) INVALID_LSN = None"
    by (auto simp: map_of_eq_None_iff indexed_def INVALID_LSN_def image_image)
  moreover have "fold (\<lambda>r rm. AppendLogRec rm r) rs (Init RecoveryManager_new CheckPoint_new) =
      (Init RecoveryManager_new CheckPoint_new)\<lparr>log_recs := indexed rs\<rparr>"
    by (rule append_all [OF _ write_log_sorted [OF assms]]) (simp add: Init_def RecoveryManager_new_def)
  ultimately show ?thesis
    by (simp add: recover_def RedoPhase_def res_bind_def Init_def CheckPoint_new_def)
qed

theorem recover_without_checkpoint_undefined_witness:
  "\<exists>rs st. write_log test_pre log_statics_init = Some (rs, st) \<and> recover CheckPoint_new rs [] = Inl Undefined"
  using write_log_returns [of log_statics_init test_pre] recover_without_checkpoint_undefined
  by (fastforce simp: test_pre_def log_statics_init_def LSN_MAX_def)

text \<open>
  Redoing the deletion of a key that the database does not hold creates the key: the test
  \<^verbatim>\<open>data_[del_key] != del_val\<close> inserts the value 0, and the branch that reports the inconsistency leaves
  it there.
\<close>

theorem redo_delete_missing_key_creates_it:
  assumes "d k = None" "v \<noteq> 0" "rec_type r = kDelete" "rec_info r = DeleteInfo t k v"
  shows "redo_rec recs r d = Inr (d(k \<mapsto> 0))"
  using assms by (simp add: kv_emplace_def Let_def)

theorem redo_delete_missing_key_creates_it_witness:
  "redo_rec [] \<lparr>rec_type = kDelete, rec_lsn = 3, rec_prev_lsn = 2, rec_info = DeleteInfo 0 ''B'' 1000\<rparr> Map.empty = Inr [''B'' \<mapsto> 0]"
  by (rule redo_delete_missing_key_creates_it) simp_all

end
