(* ===== verification/Interfaces.thy ===== *)
theory Interfaces
  imports Prelude
begin

text \<open>
  The contracts between components, as locales. Each one names the operations a client calls, the
  laws the provider promises and the client facts that follow from the laws alone. The theory of
  the component that provides the operations interprets the locale on its own definitions:
  \<^item> \<open>id_allocator\<close>: handing out and taking back identifiers (the extent bitmap, the disk manager);
  \<^item> \<open>block_store\<close>: reading and writing fixed-size blocks by number (the database file);
  \<^item> \<open>replacer\<close>: the abstract class \<^verbatim>\<open>Replacer\<close> (the LRU policy);
  \<^item> \<open>codec\<close>: a serializer and a deserializer for one type (fields, columns, schemas, rows).
\<close>

section \<open>Allocation of identifiers\<close>

fun alloc_seq :: "('s \<Rightarrow> ('i option \<times> 's) option) \<Rightarrow> nat \<Rightarrow> 's \<Rightarrow> ('i list \<times> 's) option" where
  "alloc_seq alloc 0 s = Some ([], s)"
| "alloc_seq alloc (Suc n) s =
     (case alloc s of
        Some (Some i, s') \<Rightarrow> map_option (\<lambda>(is, t). (i # is, t)) (alloc_seq alloc n s')
      | Some (None, s') \<Rightarrow> Some ([], s')
      | None \<Rightarrow> None)"

locale id_allocator =
  fixes inv :: "'s \<Rightarrow> bool"
    and used :: "'s \<Rightarrow> 'i set"
    and avail :: "'s \<Rightarrow> bool"
    and alloc :: "'s \<Rightarrow> ('i option \<times> 's) option"
    and dealloc :: "'i \<Rightarrow> 's \<Rightarrow> 's option"
  assumes alloc_fresh: "inv s \<Longrightarrow> avail s \<Longrightarrow>
      \<exists>i s'. alloc s = Some (Some i, s') \<and> i \<notin> used s \<and> used s' = insert i (used s) \<and> inv s'"
    and dealloc_used: "inv s \<Longrightarrow> i \<in> used s \<Longrightarrow>
      \<exists>s'. dealloc i s = Some s' \<and> used s' = used s - {i} \<and> inv s' \<and> avail s'"
begin

lemma alloc_after_dealloc:
  assumes "inv s" "i \<in> used s"
  obtains s' j s'' where "dealloc i s = Some s'" "alloc s' = Some (Some j, s'')"
    "j \<notin> used s - {i}" "used s'' = insert j (used s - {i})" "inv s''"
proof -
  from dealloc_used [OF assms] obtain s' where s': "dealloc i s = Some s'" "used s' = used s - {i}"
    "inv s'" "avail s'" by blast
  from alloc_fresh [OF s'(3,4)] obtain j s'' where j: "alloc s' = Some (Some j, s'')"
    "j \<notin> used s'" "used s'' = insert j (used s')" "inv s''" by blast
  show thesis by (rule that [OF s'(1) j(1)]) (use s'(2) j in simp_all)
qed

end

text \<open>An allocator that also reports exhaustion, leaving its state alone.\<close>

locale id_allocator_total = id_allocator +
  assumes alloc_exhausted: "inv s \<Longrightarrow> \<not> avail s \<Longrightarrow> alloc s = Some (None, s)"
begin

lemma alloc_seq_distinct:
  "inv s \<Longrightarrow> \<exists>is s'. alloc_seq alloc n s = Some (is, s') \<and> inv s' \<and> distinct is \<and>
     set is \<inter> used s = {} \<and> used s' = used s \<union> set is \<and> length is \<le> n \<and> (length is = n \<or> \<not> avail s')"
proof (induction n arbitrary: s)
  case 0
  then show ?case by simp
next
  case (Suc n)
  show ?case
  proof (cases "avail s")
    case False
    with Suc.prems alloc_exhausted show ?thesis by simp
  next
    case True
    with Suc.prems alloc_fresh obtain i s1 where i: "alloc s = Some (Some i, s1)" "i \<notin> used s"
      "used s1 = insert i (used s)" "inv s1" by blast
    from Suc.IH [OF i(4)] obtain "is" s' where
      "alloc_seq alloc n s1 = Some (is, s')" "inv s'" "distinct is" "set is \<inter> used s1 = {}"
      "used s' = used s1 \<union> set is" "length is \<le> n" "length is = n \<or> \<not> avail s'" by blast
    with i show ?thesis by (intro exI [of _ "i # is"] exI [of _ s']) auto
  qed
qed

end

section \<open>Blocks by number\<close>

fun write_seq :: "('s \<Rightarrow> nat \<Rightarrow> 'b \<Rightarrow> 's) \<Rightarrow> 's \<Rightarrow> (nat \<times> 'b) list \<Rightarrow> 's" where
  "write_seq write s [] = s"
| "write_seq write s ((p, d) # ws) = write_seq write (write s p d) ws"

locale block_store =
  fixes valid :: "'b \<Rightarrow> bool"
    and read :: "'s \<Rightarrow> nat \<Rightarrow> 'b"
    and "write" :: "'s \<Rightarrow> nat \<Rightarrow> 'b \<Rightarrow> 's"
  assumes read_write: "valid d \<Longrightarrow> read (write s p d) q = (if q = p then d else read s q)"
begin

lemma read_write_seq:
  "list_all (valid \<circ> snd) ws \<Longrightarrow>
   read (write_seq write s ws) q = (case map_of (rev ws) q of None \<Rightarrow> read s q | Some d \<Rightarrow> d)"
proof (induction ws arbitrary: s)
  case Nil
  then show ?case by simp
next
  case (Cons w ws)
  then show ?case
    by (cases w) (auto simp: read_write map_add_def split: option.splits)
qed

end

section \<open>Replacement policies\<close>

text \<open>Takes up to \<open>n\<close> victims, one after the other.\<close>

fun victim_seq :: "('s \<Rightarrow> ('f option \<times> 's) option) \<Rightarrow> nat \<Rightarrow> 's \<Rightarrow> ('f list \<times> 's) option" where
  "victim_seq victim 0 s = Some ([], s)"
| "victim_seq victim (Suc n) s =
     (case victim s of
        Some (Some f, s') \<Rightarrow> map_option (\<lambda>(fs, t). (f # fs, t)) (victim_seq victim n s')
      | Some (None, s') \<Rightarrow> Some ([], s')
      | None \<Rightarrow> None)"

locale replacer =
  fixes inv :: "'s \<Rightarrow> bool"
    and valid :: "'s \<Rightarrow> 'f \<Rightarrow> bool"
    and frames :: "'s \<Rightarrow> 'f set"
    and victim :: "'s \<Rightarrow> ('f option \<times> 's) option"
    and pin :: "'s \<Rightarrow> 'f \<Rightarrow> 's option"
    and unpin :: "'s \<Rightarrow> 'f \<Rightarrow> 's option"
    and count :: "'s \<Rightarrow> nat"
  assumes victim_empty: "inv s \<Longrightarrow> frames s = {} \<Longrightarrow> victim s = Some (None, s)"
    and victim_some: "inv s \<Longrightarrow> frames s \<noteq> {} \<Longrightarrow>
      \<exists>f s'. victim s = Some (Some f, s') \<and> f \<in> frames s \<and> frames s' = frames s - {f} \<and> inv s' \<and>
        valid s' = valid s"
    and pin_frames: "inv s \<Longrightarrow> valid s f \<Longrightarrow>
      \<exists>s'. pin s f = Some s' \<and> frames s' = frames s - {f} \<and> inv s' \<and> valid s' = valid s"
    and unpin_frames: "inv s \<Longrightarrow> valid s f \<Longrightarrow>
      \<exists>s'. unpin s f = Some s' \<and> frames s' = insert f (frames s) \<and> inv s' \<and> valid s' = valid s"
    and count_frames: "inv s \<Longrightarrow> finite (frames s) \<and> count s = card (frames s)"
begin

text \<open>A pinned frame is never chosen until it is unpinned again.\<close>

lemma victim_not_pinned:
  assumes "inv s" "valid s f" "pin s f = Some s'" "victim s' = Some (Some g, s'')"
  shows "g \<noteq> f"
proof -
  from pin_frames [OF assms(1,2)] assms(3) have s': "inv s'" "frames s' = frames s - {f}" by auto
  have "frames s' \<noteq> {}" using victim_empty [OF s'(1)] assms(4) by fastforce
  with victim_some [OF s'(1)] assms(4) s'(2) show ?thesis by auto
qed

text \<open>Enough victims drain the replacer, each frame exactly once.\<close>

lemma victim_seq_drains:
  "inv s \<Longrightarrow> count s \<le> n \<Longrightarrow> \<exists>fs s'. victim_seq victim n s = Some (fs, s') \<and> inv s' \<and>
     distinct fs \<and> set fs = frames s \<and> frames s' = {}"
proof (induction n arbitrary: s)
  case 0
  then show ?case using count_frames [of s] by auto
next
  case (Suc n)
  show ?case
  proof (cases "frames s = {}")
    case True
    with Suc.prems victim_empty show ?thesis by simp
  next
    case False
    with victim_some Suc.prems(1) obtain f s1 where f: "victim s = Some (Some f, s1)" "f \<in> frames s"
      "frames s1 = frames s - {f}" "inv s1" by blast
    have "count s1 \<le> n"
      using count_frames [OF f(4)] count_frames [OF Suc.prems(1)] Suc.prems(2) f(2,3) by simp
    from Suc.IH [OF f(4) this] obtain fs s' where "victim_seq victim n s1 = Some (fs, s')" "inv s'"
      "distinct fs" "set fs = frames s1" "frames s' = {}" by blast
    with f show ?thesis by (intro exI [of _ "f # fs"] exI [of _ s']) auto
  qed
qed

end

section \<open>Serialization\<close>

text \<open>
  \<open>put x b off\<close> writes \<open>x\<close> at an offset and \<open>get i b off\<close> reads a value of kind \<open>i\<close> back; both return the
  number of bytes. \<open>put_seq\<close> and \<open>get_seq\<close> are the loops of the serializers.
\<close>

fun put_seq :: "('a \<Rightarrow> buffer \<Rightarrow> nat \<Rightarrow> (buffer \<times> nat) option) \<Rightarrow> 'a list \<Rightarrow> buffer \<Rightarrow> nat \<Rightarrow> (buffer \<times> nat) option" where
  "put_seq put [] b off = Some (b, 0)"
| "put_seq put (x # xs) b off = do {
     (b, n) \<leftarrow> put x b off;
     (b, m) \<leftarrow> put_seq put xs b (off + n);
     Some (b, n + m) }"

fun get_seq :: "('i \<Rightarrow> buffer \<Rightarrow> nat \<Rightarrow> ('a \<times> nat) option) \<Rightarrow> 'i list \<Rightarrow> buffer \<Rightarrow> nat \<Rightarrow> ('a list \<times> nat) option" where
  "get_seq get [] b off = Some ([], 0)"
| "get_seq get (i # is) b off = do {
     (x, n) \<leftarrow> get i b off;
     (xs, m) \<leftarrow> get_seq get is b (off + n);
     Some (x # xs, n + m) }"

fun size_seq :: "('a \<Rightarrow> nat option) \<Rightarrow> 'a list \<Rightarrow> nat option" where
  "size_seq size_of [] = Some 0"
| "size_seq size_of (x # xs) = do { n \<leftarrow> size_of x; m \<leftarrow> size_seq size_of xs; Some (n + m) }"

locale codec =
  fixes valid :: "'i \<Rightarrow> 'a \<Rightarrow> bool"
    and encode :: "'a \<Rightarrow> byte list"
    and put :: "'a \<Rightarrow> buffer \<Rightarrow> nat \<Rightarrow> (buffer \<times> nat) option"
    and get :: "'i \<Rightarrow> buffer \<Rightarrow> nat \<Rightarrow> ('a \<times> nat) option"
    and size_of :: "'a \<Rightarrow> nat option"
  assumes put_encode: "valid i x \<Longrightarrow> off + length (encode x) \<le> length b \<Longrightarrow>
      put x b off = Some (splice b off (encode x), length (encode x))"
    and get_encode: "valid i x \<Longrightarrow> off + length (encode x) \<le> length b \<Longrightarrow>
      slice b off (length (encode x)) = encode x \<Longrightarrow> get i b off = Some (x, length (encode x))"
    and size_encode: "valid i x \<Longrightarrow> size_of x = Some (length (encode x))"
begin

lemma get_put:
  assumes "valid i x" "size_of x = Some n" "off + n \<le> length b"
  obtains b' where "put x b off = Some (b', n)" "length b' = length b" "get i b' off = Some (x, n)"
    "\<And>o2 m. o2 + m \<le> off \<or> off + n \<le> o2 \<Longrightarrow> slice b' o2 m = slice b o2 m"
  using put_encode [OF assms(1)] get_encode [OF assms(1)] size_encode [OF assms(1)] assms(2,3)
  by (intro that [of "splice b off (encode x)"]) (auto simp: buf_simps)

lemma put_seq_encode:
  "list_all2 valid is xs \<Longrightarrow> off + length (concat (map encode xs)) \<le> length b \<Longrightarrow>
   put_seq put xs b off = Some (splice b off (concat (map encode xs)), length (concat (map encode xs)))"
proof (induction arbitrary: off b rule: list_all2_induct)
  case Nil
  then show ?case by (simp add: splice_def)
next
  case (Cons i "is" x xs)
  have "put x b off = Some (splice b off (encode x), length (encode x))"
    using Cons.hyps(1) Cons.prems by (intro put_encode) simp_all
  moreover have "put_seq put xs (splice b off (encode x)) (off + length (encode x)) =
      Some (splice (splice b off (encode x)) (off + length (encode x)) (concat (map encode xs)), length (concat (map encode xs)))"
    using Cons.prems by (intro Cons.IH) simp
  ultimately show ?case
    using splice_adjacent [of off "encode x" "concat (map encode xs)" b] Cons.prems by simp
qed

lemma get_seq_encode:
  "list_all2 valid is xs \<Longrightarrow> off + length (concat (map encode xs)) \<le> length b \<Longrightarrow>
   slice b off (length (concat (map encode xs))) = concat (map encode xs) \<Longrightarrow>
   get_seq get is b off = Some (xs, length (concat (map encode xs)))"
proof (induction arbitrary: off rule: list_all2_induct)
  case Nil
  then show ?case by simp
next
  case (Cons i "is" x xs)
  have s: "slice b off (length (encode x)) = encode x"
    "slice b (off + length (encode x)) (length (concat (map encode xs))) = concat (map encode xs)"
    by (rule slice_eq_append [of b off "encode x" "concat (map encode xs)"]; use Cons.prems in simp)+
  have "get i b off = Some (x, length (encode x))"
    using Cons.hyps(1) Cons.prems s(1) by (intro get_encode) simp_all
  moreover have "get_seq get is b (off + length (encode x)) = Some (xs, length (concat (map encode xs)))"
    using Cons.prems s(2) by (intro Cons.IH) simp_all
  ultimately show ?case by simp
qed

lemma size_seq_encode:
  "list_all2 valid is xs \<Longrightarrow> size_seq size_of xs = Some (length (concat (map encode xs)))"
  by (induction rule: list_all2_induct) (auto simp: size_encode)

end

end
