(* ===== verification/Field_Types.thy ===== *)
theory Field_Types
  imports Interfaces
begin

text \<open>
  Typed values: \<^verbatim>\<open>TypeId\<close>, \<^verbatim>\<open>CmpBool\<close>, the classes \<^verbatim>\<open>TypeInt\<close>, \<^verbatim>\<open>TypeFloat\<close>, \<^verbatim>\<open>TypeChar\<close> of
  \<^verbatim>\<open>include/record/types.h\<close> and \<^verbatim>\<open>record/types.cpp\<close>, and \<^verbatim>\<open>Field\<close> of \<^verbatim>\<open>include/record/field.h\<close>. A
  float is its 32-bit pattern, compared as IEEE 754 does (NaN is unordered, the zeros are equal).
  The memory behind \<^verbatim>\<open>chars_\<close> is a list of bytes; who frees it (\<^verbatim>\<open>manage_data_\<close>) is not modelled.
\<close>

section \<open>Model\<close>

datatype TypeId = kTypeInvalid | kTypeInt | kTypeFloat | kTypeChar

datatype CmpBool = kFalse | kTrue | kNull

definition GetCmpBool :: "bool \<Rightarrow> CmpBool" where
  "GetCmpBool b = (if b then kTrue else kFalse)"

text \<open>\<^verbatim>\<open>throw "Unknown field type."\<close> is \<^term>\<open>None\<close>.\<close>

fun GetTypeSize :: "TypeId \<Rightarrow> nat option" where
  "GetTypeSize kTypeInt = Some 4"
| "GetTypeSize kTypeFloat = Some 4"
| "GetTypeSize kTypeChar = Some 0"
| "GetTypeSize kTypeInvalid = None"

text \<open>The union \<^verbatim>\<open>Val\<close>; \<open>Unset\<close> is a member that was never written or a null pointer.\<close>

datatype field_value = Integer u32 | Float u32 | Chars "byte list" | Unset

record field =
  fd_type :: TypeId
  fd_value :: field_value
  fd_len :: u32
  fd_null :: bool

definition FIELD_NULL_LEN :: u32 where "FIELD_NULL_LEN = - 1"

definition Field_null :: "TypeId \<Rightarrow> field" where
  "Field_null ty = \<lparr>fd_type = ty, fd_value = Unset, fd_len = FIELD_NULL_LEN, fd_null = True\<rparr>"

definition Field_int :: "u32 \<Rightarrow> field" where
  "Field_int i = \<lparr>fd_type = kTypeInt, fd_value = Integer i, fd_len = 4, fd_null = False\<rparr>"

definition Field_float :: "u32 \<Rightarrow> field" where
  "Field_float f = \<lparr>fd_type = kTypeFloat, fd_value = Float f, fd_len = 4, fd_null = False\<rparr>"

text \<open>\<open>data\<close> is \<^term>\<open>None\<close> for a null pointer; a managed copy reads \<open>len\<close> bytes.\<close>

definition Field_char :: "byte list option \<Rightarrow> u32 \<Rightarrow> bool \<Rightarrow> field option" where
  "Field_char data len manage_data =
     (case data of
        None \<Rightarrow> Some \<lparr>fd_type = kTypeChar, fd_value = Unset, fd_len = 0, fd_null = True\<rparr>
      | Some bs \<Rightarrow> do {
          bs \<leftarrow> (if manage_data then do {
                  ensure (unat len < VARCHAR_MAX_LEN);
                  ensure (unat len \<le> length bs);
                  Some (take (unat len) bs) }
                else Some bs);
          Some \<lparr>fd_type = kTypeChar, fd_value = Chars bs, fd_len = len, fd_null = False\<rparr> })"

definition Field_copy :: "field \<Rightarrow> field" where
  "Field_copy other = \<lparr>fd_type = fd_type other, fd_value = fd_value other, fd_len = fd_len other, fd_null = fd_null other\<rparr>"

definition CheckComparable :: "field \<Rightarrow> field \<Rightarrow> bool" where
  "CheckComparable l r \<longleftrightarrow> fd_type l = fd_type r"

fun chars_of :: "field_value \<Rightarrow> byte list option" where
  "chars_of (Chars bs) = Some bs"
| "chars_of _ = None"

fun integer_of :: "field_value \<Rightarrow> int option" where
  "integer_of (Integer i) = Some (sint i)"
| "integer_of _ = None"

fun float_of :: "field_value \<Rightarrow> u32 option" where
  "float_of (Float f) = Some f"
| "float_of _ = None"

subsection \<open>Serialization\<close>

definition TypeInt_SerializeTo :: "field \<Rightarrow> buffer \<Rightarrow> nat \<Rightarrow> (buffer \<times> nat) option" where
  "TypeInt_SerializeTo f b off =
     (if \<not> fd_null f
      then case fd_value f of
          Integer i \<Rightarrow> do { b \<leftarrow> put_u32 b off i; n \<leftarrow> GetTypeSize kTypeInt; Some (b, n) }
        | _ \<Rightarrow> None
      else Some (b, 0))"

definition TypeFloat_SerializeTo :: "field \<Rightarrow> buffer \<Rightarrow> nat \<Rightarrow> (buffer \<times> nat) option" where
  "TypeFloat_SerializeTo f b off =
     (if \<not> fd_null f
      then case fd_value f of
          Float i \<Rightarrow> do { b \<leftarrow> put_u32 b off i; n \<leftarrow> GetTypeSize kTypeFloat; Some (b, n) }
        | _ \<Rightarrow> None
      else Some (b, 0))"

definition TypeChar_SerializeTo :: "field \<Rightarrow> buffer \<Rightarrow> nat \<Rightarrow> (buffer \<times> nat) option" where
  "TypeChar_SerializeTo f b off =
     (if \<not> fd_null f
      then do {
        let len = fd_len f;
        b \<leftarrow> put_u32 b off len;
        bs \<leftarrow> chars_of (fd_value f);
        ensure (unat len \<le> length bs);
        b \<leftarrow> mem_write b (off + 4) (take (unat len) bs);
        Some (b, unat len + 4) }
      else Some (b, 0))"

definition Field_SerializeTo :: "field \<Rightarrow> buffer \<Rightarrow> nat \<Rightarrow> (buffer \<times> nat) option" where
  "Field_SerializeTo f =
     (case fd_type f of kTypeInt \<Rightarrow> TypeInt_SerializeTo f | kTypeFloat \<Rightarrow> TypeFloat_SerializeTo f
      | kTypeChar \<Rightarrow> TypeChar_SerializeTo f | kTypeInvalid \<Rightarrow> (\<lambda>_ _. None))"

definition TypeInt_DeserializeFrom :: "bool \<Rightarrow> buffer \<Rightarrow> nat \<Rightarrow> (field \<times> nat) option" where
  "TypeInt_DeserializeFrom is_null b off =
     (if is_null then Some (Field_null kTypeInt, 0)
      else do { v \<leftarrow> get_u32 b off; n \<leftarrow> GetTypeSize kTypeInt; Some (Field_int v, n) })"

definition TypeFloat_DeserializeFrom :: "bool \<Rightarrow> buffer \<Rightarrow> nat \<Rightarrow> (field \<times> nat) option" where
  "TypeFloat_DeserializeFrom is_null b off =
     (if is_null then Some (Field_null kTypeFloat, 0)
      else do { v \<leftarrow> get_u32 b off; n \<leftarrow> GetTypeSize kTypeFloat; Some (Field_float v, n) })"

definition TypeChar_DeserializeFrom :: "bool \<Rightarrow> buffer \<Rightarrow> nat \<Rightarrow> (field \<times> nat) option" where
  "TypeChar_DeserializeFrom is_null b off =
     (if is_null then Some (Field_null kTypeChar, 0)
      else do {
        len \<leftarrow> get_u32 b off;
        f \<leftarrow> Field_char (Some (drop (off + 4) b)) len True;
        Some (f, unat len + 4) })"

definition Field_DeserializeFrom :: "TypeId \<times> bool \<Rightarrow> buffer \<Rightarrow> nat \<Rightarrow> (field \<times> nat) option" where
  "Field_DeserializeFrom = (\<lambda>(type_id, is_null).
     (case type_id of kTypeInt \<Rightarrow> TypeInt_DeserializeFrom is_null | kTypeFloat \<Rightarrow> TypeFloat_DeserializeFrom is_null
      | kTypeChar \<Rightarrow> TypeChar_DeserializeFrom is_null | kTypeInvalid \<Rightarrow> (\<lambda>_ _. None)))"

definition Field_GetSerializedSize :: "field \<Rightarrow> nat option" where
  "Field_GetSerializedSize f =
     (case fd_type f of
        kTypeInt \<Rightarrow> if fd_null f then Some 0 else GetTypeSize kTypeInt
      | kTypeFloat \<Rightarrow> if fd_null f then Some 0 else GetTypeSize kTypeFloat
      | kTypeChar \<Rightarrow> if fd_null f then Some 0 else Some (unat (fd_len f) + 4)
      | kTypeInvalid \<Rightarrow> None)"

subsection \<open>Comparison\<close>

text \<open>\<^verbatim>\<open>memcmp\<close> of the common prefix; only the sign of its result is used.\<close>

fun memcmp :: "byte list \<Rightarrow> byte list \<Rightarrow> nat \<Rightarrow> int" where
  "memcmp _ _ 0 = 0"
| "memcmp (x # xs) (y # ys) (Suc n) = (if x < y then - 1 else if y < x then 1 else memcmp xs ys n)"
| "memcmp _ _ (Suc n) = 0"

definition CompareStrings :: "byte list \<Rightarrow> int \<Rightarrow> byte list \<Rightarrow> int \<Rightarrow> int option" where
  "CompareStrings str1 len1 str2 len2 = do {
     ensure (0 \<le> len1 \<and> 0 \<le> len2 \<and> nat len1 \<le> length str1 \<and> nat len2 \<le> length str2);
     let ret = memcmp str1 str2 (nat (min len1 len2));
     Some (if ret = 0 \<and> len1 \<noteq> len2 then len1 - len2 else ret) }"

text \<open>The numerical order of 32-bit IEEE patterns: \<^term>\<open>None\<close> for a NaN, otherwise the signed magnitude.\<close>

definition float_key :: "u32 \<Rightarrow> int option" where
  "float_key w =
     (let m = uint (w AND 0x7FFFFFFF) in
      if m > 0x7F800000 then None else Some (if w AND 0x80000000 = 0 then m else - m))"

definition float_eq :: "u32 \<Rightarrow> u32 \<Rightarrow> bool" where "float_eq a b \<longleftrightarrow> float_key a \<noteq> None \<and> float_key a = float_key b"
definition float_ne :: "u32 \<Rightarrow> u32 \<Rightarrow> bool" where "float_ne a b \<longleftrightarrow> \<not> float_eq a b"
definition float_lt :: "u32 \<Rightarrow> u32 \<Rightarrow> bool" where
  "float_lt a b \<longleftrightarrow> (case (float_key a, float_key b) of (Some x, Some y) \<Rightarrow> x < y | _ \<Rightarrow> False)"
definition float_le :: "u32 \<Rightarrow> u32 \<Rightarrow> bool" where "float_le a b \<longleftrightarrow> float_lt a b \<or> float_eq a b"
definition float_gt :: "u32 \<Rightarrow> u32 \<Rightarrow> bool" where "float_gt a b \<longleftrightarrow> float_lt b a"
definition float_ge :: "u32 \<Rightarrow> u32 \<Rightarrow> bool" where "float_ge a b \<longleftrightarrow> float_le b a"

text \<open>The common frame of the six comparisons of each class: the assertion, the null test, the operator.\<close>

definition compare_with :: "(field_value \<Rightarrow> 'v option) \<Rightarrow> ('v \<Rightarrow> 'v \<Rightarrow> bool) \<Rightarrow> field \<Rightarrow> field \<Rightarrow> CmpBool option" where
  "compare_with value cmp l r = do {
     ensure (CheckComparable l r);
     if fd_null l \<or> fd_null r then Some kNull
     else do { x \<leftarrow> value (fd_value l); y \<leftarrow> value (fd_value r); Some (GetCmpBool (cmp x y)) } }"

definition compare_chars :: "(int \<Rightarrow> bool) \<Rightarrow> field \<Rightarrow> field \<Rightarrow> CmpBool option" where
  "compare_chars test l r = do {
     ensure (CheckComparable l r);
     if fd_null l \<or> fd_null r then Some kNull
     else do {
       x \<leftarrow> chars_of (fd_value l); y \<leftarrow> chars_of (fd_value r);
       c \<leftarrow> CompareStrings x (sint (fd_len l)) y (sint (fd_len r));
       Some (GetCmpBool (test c)) } }"

definition TypeInt_CompareEquals :: "field \<Rightarrow> field \<Rightarrow> CmpBool option" where
  "TypeInt_CompareEquals = compare_with integer_of (\<lambda>x y. x = y)"

definition TypeInt_CompareNotEquals :: "field \<Rightarrow> field \<Rightarrow> CmpBool option" where
  "TypeInt_CompareNotEquals = compare_with integer_of (\<lambda>x y. x \<noteq> y)"

definition TypeInt_CompareLessThan :: "field \<Rightarrow> field \<Rightarrow> CmpBool option" where
  "TypeInt_CompareLessThan = compare_with integer_of (\<lambda>x y. x < y)"

definition TypeInt_CompareLessThanEquals :: "field \<Rightarrow> field \<Rightarrow> CmpBool option" where
  "TypeInt_CompareLessThanEquals = compare_with integer_of (\<lambda>x y. x \<le> y)"

definition TypeInt_CompareGreaterThan :: "field \<Rightarrow> field \<Rightarrow> CmpBool option" where
  "TypeInt_CompareGreaterThan = compare_with integer_of (\<lambda>x y. x > y)"

definition TypeInt_CompareGreaterThanEquals :: "field \<Rightarrow> field \<Rightarrow> CmpBool option" where
  "TypeInt_CompareGreaterThanEquals = compare_with integer_of (\<lambda>x y. x \<ge> y)"

definition TypeFloat_CompareEquals :: "field \<Rightarrow> field \<Rightarrow> CmpBool option" where
  "TypeFloat_CompareEquals = compare_with float_of float_eq"

definition TypeFloat_CompareNotEquals :: "field \<Rightarrow> field \<Rightarrow> CmpBool option" where
  "TypeFloat_CompareNotEquals = compare_with float_of float_ne"

definition TypeFloat_CompareLessThan :: "field \<Rightarrow> field \<Rightarrow> CmpBool option" where
  "TypeFloat_CompareLessThan = compare_with float_of float_lt"

definition TypeFloat_CompareLessThanEquals :: "field \<Rightarrow> field \<Rightarrow> CmpBool option" where
  "TypeFloat_CompareLessThanEquals = compare_with float_of float_le"

definition TypeFloat_CompareGreaterThan :: "field \<Rightarrow> field \<Rightarrow> CmpBool option" where
  "TypeFloat_CompareGreaterThan = compare_with float_of float_gt"

definition TypeFloat_CompareGreaterThanEquals :: "field \<Rightarrow> field \<Rightarrow> CmpBool option" where
  "TypeFloat_CompareGreaterThanEquals = compare_with float_of float_ge"

definition TypeChar_CompareEquals :: "field \<Rightarrow> field \<Rightarrow> CmpBool option" where
  "TypeChar_CompareEquals = compare_chars (\<lambda>c. c = 0)"

definition TypeChar_CompareNotEquals :: "field \<Rightarrow> field \<Rightarrow> CmpBool option" where
  "TypeChar_CompareNotEquals = compare_chars (\<lambda>c. c \<noteq> 0)"

definition TypeChar_CompareLessThan :: "field \<Rightarrow> field \<Rightarrow> CmpBool option" where
  "TypeChar_CompareLessThan = compare_chars (\<lambda>c. c < 0)"

definition TypeChar_CompareLessThanEquals :: "field \<Rightarrow> field \<Rightarrow> CmpBool option" where
  "TypeChar_CompareLessThanEquals = compare_chars (\<lambda>c. c \<le> 0)"

definition TypeChar_CompareGreaterThan :: "field \<Rightarrow> field \<Rightarrow> CmpBool option" where
  "TypeChar_CompareGreaterThan = compare_chars (\<lambda>c. c > 0)"

definition TypeChar_CompareGreaterThanEquals :: "field \<Rightarrow> field \<Rightarrow> CmpBool option" where
  "TypeChar_CompareGreaterThanEquals = compare_chars (\<lambda>c. c \<ge> 0)"

text \<open>\<^verbatim>\<open>Field\<close> dispatches on its own type; the base class asserts.\<close>

definition Field_CompareEquals :: "field \<Rightarrow> field \<Rightarrow> CmpBool option" where
  "Field_CompareEquals l r =
     (case fd_type l of kTypeInt \<Rightarrow> TypeInt_CompareEquals l r | kTypeFloat \<Rightarrow> TypeFloat_CompareEquals l r
      | kTypeChar \<Rightarrow> TypeChar_CompareEquals l r | kTypeInvalid \<Rightarrow> None)"

definition Field_CompareNotEquals :: "field \<Rightarrow> field \<Rightarrow> CmpBool option" where
  "Field_CompareNotEquals l r =
     (case fd_type l of kTypeInt \<Rightarrow> TypeInt_CompareNotEquals l r | kTypeFloat \<Rightarrow> TypeFloat_CompareNotEquals l r
      | kTypeChar \<Rightarrow> TypeChar_CompareNotEquals l r | kTypeInvalid \<Rightarrow> None)"

definition Field_CompareLessThan :: "field \<Rightarrow> field \<Rightarrow> CmpBool option" where
  "Field_CompareLessThan l r =
     (case fd_type l of kTypeInt \<Rightarrow> TypeInt_CompareLessThan l r | kTypeFloat \<Rightarrow> TypeFloat_CompareLessThan l r
      | kTypeChar \<Rightarrow> TypeChar_CompareLessThan l r | kTypeInvalid \<Rightarrow> None)"

definition Field_CompareLessThanEquals :: "field \<Rightarrow> field \<Rightarrow> CmpBool option" where
  "Field_CompareLessThanEquals l r =
     (case fd_type l of kTypeInt \<Rightarrow> TypeInt_CompareLessThanEquals l r | kTypeFloat \<Rightarrow> TypeFloat_CompareLessThanEquals l r
      | kTypeChar \<Rightarrow> TypeChar_CompareLessThanEquals l r | kTypeInvalid \<Rightarrow> None)"

definition Field_CompareGreaterThan :: "field \<Rightarrow> field \<Rightarrow> CmpBool option" where
  "Field_CompareGreaterThan l r =
     (case fd_type l of kTypeInt \<Rightarrow> TypeInt_CompareGreaterThan l r | kTypeFloat \<Rightarrow> TypeFloat_CompareGreaterThan l r
      | kTypeChar \<Rightarrow> TypeChar_CompareGreaterThan l r | kTypeInvalid \<Rightarrow> None)"

definition Field_CompareGreaterThanEquals :: "field \<Rightarrow> field \<Rightarrow> CmpBool option" where
  "Field_CompareGreaterThanEquals l r =
     (case fd_type l of kTypeInt \<Rightarrow> TypeInt_CompareGreaterThanEquals l r | kTypeFloat \<Rightarrow> TypeFloat_CompareGreaterThanEquals l r
      | kTypeChar \<Rightarrow> TypeChar_CompareGreaterThanEquals l r | kTypeInvalid \<Rightarrow> None)"

lemmas type_compare_defs =
  TypeInt_CompareEquals_def TypeInt_CompareNotEquals_def TypeInt_CompareLessThan_def TypeInt_CompareLessThanEquals_def TypeInt_CompareGreaterThan_def TypeInt_CompareGreaterThanEquals_def
  TypeFloat_CompareEquals_def TypeFloat_CompareNotEquals_def TypeFloat_CompareLessThan_def TypeFloat_CompareLessThanEquals_def TypeFloat_CompareGreaterThan_def TypeFloat_CompareGreaterThanEquals_def
  TypeChar_CompareEquals_def TypeChar_CompareNotEquals_def TypeChar_CompareLessThan_def TypeChar_CompareLessThanEquals_def TypeChar_CompareGreaterThan_def TypeChar_CompareGreaterThanEquals_def

lemmas field_compare_defs = Field_CompareEquals_def Field_CompareNotEquals_def Field_CompareLessThan_def Field_CompareLessThanEquals_def Field_CompareGreaterThan_def Field_CompareGreaterThanEquals_def

section \<open>Well-formed fields and their encoding\<close>

definition field_ok :: "TypeId \<times> bool \<Rightarrow> field \<Rightarrow> bool" where
  "field_ok = (\<lambda>(ty, null) f. fd_type f = ty \<and> fd_null f = null \<and> ty \<noteq> kTypeInvalid \<and>
     (if null then f = Field_null ty
      else case fd_value f of
          Integer i \<Rightarrow> ty = kTypeInt \<and> fd_len f = 4
        | Float i \<Rightarrow> ty = kTypeFloat \<and> fd_len f = 4
        | Chars bs \<Rightarrow> ty = kTypeChar \<and> length bs < VARCHAR_MAX_LEN \<and> fd_len f = of_nat (length bs)
        | Unset \<Rightarrow> False))"

definition field_encode :: "field \<Rightarrow> byte list" where
  "field_encode f =
     (if fd_null f then []
      else case fd_value f of
          Integer i \<Rightarrow> u32_bytes i | Float i \<Rightarrow> u32_bytes i
        | Chars bs \<Rightarrow> u32_bytes (fd_len f) @ bs | Unset \<Rightarrow> [])"

lemma field_ok_cases:
  assumes "field_ok (ty, null) f"
  obtains (Null) "null" "ty \<noteq> kTypeInvalid" "f = Field_null ty"
  | (Int) i where "\<not> null" "ty = kTypeInt" "f = Field_int i"
  | (Flt) i where "\<not> null" "ty = kTypeFloat" "f = Field_float i"
  | (Char) bs where "\<not> null" "ty = kTypeChar" "length bs < VARCHAR_MAX_LEN"
      "f = \<lparr>fd_type = kTypeChar, fd_value = Chars bs, fd_len = of_nat (length bs), fd_null = False\<rparr>"
proof -
  show thesis
  proof (cases f)
    case (fields t v l n)
    show thesis
      using assms fields Null Int Flt Char
      by (cases null; cases v) (auto simp: field_ok_def Field_int_def Field_float_def)
  qed
qed

lemma varchar_len: "n < VARCHAR_MAX_LEN \<Longrightarrow> unat (of_nat n :: u32) = n"
  by (simp add: VARCHAR_MAX_LEN_def PAGE_SIZE_def)

lemma field_put_encode:
  assumes "field_ok i f" "off + length (field_encode f) \<le> length b"
  shows "Field_SerializeTo f b off = Some (splice b off (field_encode f), length (field_encode f))"
proof -
  obtain ty null where i: "i = (ty, null)" by (cases i)
  from assms(1) [unfolded i] show ?thesis
  proof (cases rule: field_ok_cases)
    case Null
    then show ?thesis
      by (cases ty) (simp_all add: Field_SerializeTo_def Field_null_def field_encode_def splice_def
          TypeInt_SerializeTo_def TypeFloat_SerializeTo_def TypeChar_SerializeTo_def)
  next
    case (Int v)
    then show ?thesis using assms(2)
      by (simp add: Field_SerializeTo_def Field_int_def field_encode_def TypeInt_SerializeTo_def put_u32_def mem_write_def)
  next
    case (Flt v)
    then show ?thesis using assms(2)
      by (simp add: Field_SerializeTo_def Field_float_def field_encode_def TypeFloat_SerializeTo_def put_u32_def mem_write_def)
  next
    case (Char bs)
    have "splice (splice b off (u32_bytes (fd_len f))) (off + 4) bs = splice b off (u32_bytes (fd_len f) @ bs)"
      using splice_adjacent [of off "u32_bytes (fd_len f)" bs b] assms(2) Char by (simp add: field_encode_def)
    then show ?thesis using assms(2) Char varchar_len [OF Char(3)]
      by (simp add: Field_SerializeTo_def field_encode_def TypeChar_SerializeTo_def put_u32_def mem_write_def ensure_def)
  qed
qed

lemma field_get_encode:
  assumes "field_ok i f" "off + length (field_encode f) \<le> length b"
    "slice b off (length (field_encode f)) = field_encode f"
  shows "Field_DeserializeFrom i b off = Some (f, length (field_encode f))"
proof -
  obtain ty null where i: "i = (ty, null)" by (cases i)
  from assms(1) [unfolded i] show ?thesis
  proof (cases rule: field_ok_cases)
    case Null
    then show ?thesis
      by (cases ty) (simp_all add: i Field_DeserializeFrom_def Field_null_def field_encode_def
          TypeInt_DeserializeFrom_def TypeFloat_DeserializeFrom_def TypeChar_DeserializeFrom_def)
  next
    case (Int v)
    then show ?thesis using assms(2,3) slice_u32_bytes [of b off v]
      by (simp add: i Field_DeserializeFrom_def Field_int_def field_encode_def TypeInt_DeserializeFrom_def)
  next
    case (Flt v)
    then show ?thesis using assms(2,3) slice_u32_bytes [of b off v]
      by (simp add: i Field_DeserializeFrom_def Field_float_def field_encode_def TypeFloat_DeserializeFrom_def)
  next
    case (Char bs)
    have e: "field_encode f = u32_bytes (fd_len f) @ bs" using Char by (simp add: field_encode_def)
    have s: "slice b off 4 = u32_bytes (fd_len f)" "slice b (off + 4) (length bs) = bs"
      using slice_eq_append [of b off "u32_bytes (fd_len f)" bs] assms(3) unfolding e by simp_all
    have "get_u32 b off = Some (fd_len f)" using slice_u32_bytes [OF s(1)] assms(2) unfolding e by simp
    then show ?thesis using assms(2) Char varchar_len [OF Char(3)] s(2) unfolding e
      by (simp add: i Field_DeserializeFrom_def TypeChar_DeserializeFrom_def Field_char_def ensure_def slice_def)
  qed
qed

lemma field_size_encode: "field_ok i f \<Longrightarrow> Field_GetSerializedSize f = Some (length (field_encode f))"
proof -
  assume ok: "field_ok i f"
  obtain ty null where i: "i = (ty, null)" by (cases i)
  from ok [unfolded i] show ?thesis
    by (cases rule: field_ok_cases)
      (cases ty; auto simp: Field_GetSerializedSize_def field_encode_def Field_null_def Field_int_def Field_float_def varchar_len)+
qed

interpretation field_codec: codec field_ok field_encode Field_SerializeTo Field_DeserializeFrom Field_GetSerializedSize
  by unfold_locales (rule field_put_encode field_get_encode field_size_encode; assumption)+

section \<open>The order of strings\<close>

definition byte_order :: "(byte \<times> byte) set" where "byte_order = {(x, y). x < y}"

definition bytes_less :: "byte list \<Rightarrow> byte list \<Rightarrow> bool" where
  "bytes_less xs ys \<longleftrightarrow> (xs, ys) \<in> lexord byte_order"

lemma bytes_less_simps [simp]:
  "bytes_less [] ys \<longleftrightarrow> ys \<noteq> []" "\<not> bytes_less xs []"
  "bytes_less (x # xs) (y # ys) \<longleftrightarrow> x < y \<or> x = y \<and> bytes_less xs ys"
  by (auto simp: bytes_less_def byte_order_def neq_Nil_conv)

lemma bytes_less_total: "bytes_less xs ys \<or> xs = ys \<or> bytes_less ys xs"
  by (induction xs ys rule: list_induct2') auto

lemma bytes_less_asym: "bytes_less xs ys \<Longrightarrow> \<not> bytes_less ys xs"
  by (induction xs ys rule: list_induct2') auto

lemma bytes_less_irrefl: "\<not> bytes_less xs xs"
  using bytes_less_asym by blast

definition compare_bytes :: "byte list \<Rightarrow> byte list \<Rightarrow> int" where
  "compare_bytes xs ys =
     (let ret = memcmp xs ys (min (length xs) (length ys)) in
      if ret = 0 \<and> length xs \<noteq> length ys then int (length xs) - int (length ys) else ret)"

lemma compare_bytes_Cons:
  "compare_bytes (x # xs) (y # ys) = (if x < y then - 1 else if y < x then 1 else compare_bytes xs ys)"
  by (simp add: compare_bytes_def Let_def)

lemma compare_bytes_sign:
  "(compare_bytes xs ys < 0 \<longleftrightarrow> bytes_less xs ys) \<and> (compare_bytes xs ys = 0 \<longleftrightarrow> xs = ys)"
proof (induction xs ys rule: list_induct2')
  case (4 x xs y ys)
  then show ?case by (auto simp: compare_bytes_Cons)
qed (auto simp: compare_bytes_def Let_def)

lemma CompareStrings_eq:
  "CompareStrings xs (int (length xs)) ys (int (length ys)) = Some (compare_bytes xs ys)"
  by (simp add: CompareStrings_def compare_bytes_def ensure_def Let_def min_def)

definition char_field :: "byte list \<Rightarrow> field" where
  "char_field bs = \<lparr>fd_type = kTypeChar, fd_value = Chars bs, fd_len = of_nat (length bs), fd_null = False\<rparr>"

lemma sint_varchar: "n < VARCHAR_MAX_LEN \<Longrightarrow> sint (of_nat n :: u32) = int n"
  by (rule sint_of_nat_i32) (simp add: VARCHAR_MAX_LEN_def PAGE_SIZE_def)

section \<open>Properties\<close>

text \<open>
  A well-formed field written with \<^verbatim>\<open>SerializeTo\<close> into any large enough buffer is read back by
  \<^verbatim>\<open>DeserializeFrom\<close> with its type and null flag as the same field; both advance by exactly
  \<^verbatim>\<open>GetSerializedSize\<close> bytes and no byte outside that range is written.
\<close>

theorem field_serialize_roundtrip:
  assumes "field_ok (ty, null) f" "Field_GetSerializedSize f = Some n" "off + n \<le> length b"
  shows "\<exists>b'. Field_SerializeTo f b off = Some (b', n) \<and> length b' = length b \<and>
    Field_DeserializeFrom (ty, null) b' off = Some (f, n) \<and>
    (\<forall>o2 m. o2 + m \<le> off \<or> off + n \<le> o2 \<longrightarrow> slice b' o2 m = slice b o2 m)"
  using field_codec.get_put [OF assms] by metis

theorem field_serialize_roundtrip_witness:
  "\<exists>b'. Field_SerializeTo (char_field [77, 83]) (replicate 16 0) 3 = Some (b', 6) \<and>
     Field_DeserializeFrom (kTypeChar, False) b' 3 = Some (char_field [77, 83], 6)"
proof -
  have "field_ok (kTypeChar, False) (char_field [77, 83])" "Field_GetSerializedSize (char_field [77, 83]) = Some 6"
    by (simp_all add: field_ok_def char_field_def VARCHAR_MAX_LEN_def PAGE_SIZE_def Field_GetSerializedSize_def)
  from field_serialize_roundtrip [OF this, of 3 "replicate 16 0"] show ?thesis by auto
qed

text \<open>
  The six comparisons of \<^verbatim>\<open>CHAR\<close> fields decide the lexicographic order of the unsigned bytes, a
  proper prefix being smaller; that order is total, so exactly one of less-than, equals and
  greater-than answers \<^verbatim>\<open>kTrue\<close>.
\<close>

theorem char_compare_lexicographic:
  assumes "length xs < VARCHAR_MAX_LEN" "length ys < VARCHAR_MAX_LEN"
  shows "Field_CompareEquals (char_field xs) (char_field ys) = Some (GetCmpBool (xs = ys)) \<and>
    Field_CompareNotEquals (char_field xs) (char_field ys) = Some (GetCmpBool (xs \<noteq> ys)) \<and>
    Field_CompareLessThan (char_field xs) (char_field ys) = Some (GetCmpBool (bytes_less xs ys)) \<and>
    Field_CompareLessThanEquals (char_field xs) (char_field ys) = Some (GetCmpBool (bytes_less xs ys \<or> xs = ys)) \<and>
    Field_CompareGreaterThan (char_field xs) (char_field ys) = Some (GetCmpBool (bytes_less ys xs)) \<and>
    Field_CompareGreaterThanEquals (char_field xs) (char_field ys) = Some (GetCmpBool (bytes_less ys xs \<or> xs = ys))"
proof -
  let ?c = "compare_bytes xs ys"
  have cmp: "compare_chars test (char_field xs) (char_field ys) = Some (GetCmpBool (test ?c))" for test
    using assms by (simp add: compare_chars_def char_field_def ensure_def CheckComparable_def sint_varchar CompareStrings_eq)
  have "(?c < 0) = bytes_less xs ys" "(?c = 0) = (xs = ys)" using compare_bytes_sign [of xs ys] by auto
  moreover have "(?c > 0) = bytes_less ys xs"
    using compare_bytes_sign [of xs ys] bytes_less_total [of xs ys] bytes_less_asym [of xs ys] bytes_less_irrefl [of xs]
    by (metis linorder_neqE_linordered_idom order_less_asym)
  moreover have "(?c \<le> 0) = (?c < 0 \<or> ?c = 0)" "(?c \<ge> 0) = (?c > 0 \<or> ?c = 0)" by auto
  ultimately show ?thesis
    by (simp only: field_compare_defs type_compare_defs cmp) (simp add: char_field_def)
qed

theorem char_compare_lexicographic_witness:
  "Field_CompareLessThan (char_field [65, 66]) (char_field [65, 66, 1]) = Some kTrue"
  using char_compare_lexicographic [of "[65, 66]" "[65, 66, 1]"]
  by (simp add: VARCHAR_MAX_LEN_def PAGE_SIZE_def GetCmpBool_def)

text \<open>
  every comparison of two fields of the same type of which one is null is \<^verbatim>\<open>kNull\<close>, and every
  comparison of fields of different types fails its assertion.
\<close>

theorem null_and_mismatch_comparison:
  assumes "fd_type l \<noteq> kTypeInvalid"
    "cmp \<in> {Field_CompareEquals, Field_CompareNotEquals, Field_CompareLessThan, Field_CompareLessThanEquals,
       Field_CompareGreaterThan, Field_CompareGreaterThanEquals}"
  shows "cmp l r = (if fd_type l \<noteq> fd_type r then None else if fd_null l \<or> fd_null r then Some kNull else cmp l r)"
  using assms
  by (cases "fd_type l")
    (auto simp: field_compare_defs type_compare_defs compare_with_def compare_chars_def ensure_def CheckComparable_def)

theorem null_and_mismatch_comparison_witness:
  "Field_CompareNotEquals (Field_int 3) (Field_null kTypeInt) = Some kNull \<and>
   Field_CompareNotEquals (Field_int 3) (Field_float 3) = None"
  using null_and_mismatch_comparison [of "Field_int 3" Field_CompareNotEquals "Field_null kTypeInt"]
    null_and_mismatch_comparison [of "Field_int 3" Field_CompareNotEquals "Field_float 3"]
  by (simp add: Field_int_def Field_float_def Field_null_def)

end
