(* ===== verification/Schema_Row.thy ===== *)
theory Schema_Row
  imports Field_Types
begin

text \<open>
  Columns, schemas and rows: \<^verbatim>\<open>record/column.cpp\<close>, \<^verbatim>\<open>record/schema.cpp\<close>, \<^verbatim>\<open>record/row.cpp\<close> with their headers, and
  \<^verbatim>\<open>include/common/rowid.h\<close>. A \<^verbatim>\<open>std::string\<close> is the list of its bytes. The serializers write into a
  buffer at an offset; the loops over columns and fields are \<^const>\<open>put_seq\<close> and \<^const>\<open>get_seq\<close>, whose
  laws come from the \<open>codec\<close> contract.
\<close>

section \<open>Error codes and row ids\<close>

datatype dberr = DB_SUCCESS | DB_FAILED | DB_ALREADY_EXIST | DB_NOT_EXIST | DB_TABLE_ALREADY_EXIST
  | DB_TABLE_NOT_EXIST | DB_INDEX_ALREADY_EXIST | DB_INDEX_NOT_FOUND | DB_COLUMN_NAME_NOT_EXIST
  | DB_KEY_NOT_FOUND | DB_QUIT

record rowid =
  rid_page :: int
  rid_slot :: u32

definition INVALID_ROWID :: rowid where "INVALID_ROWID = \<lparr>rid_page = INVALID_PAGE_ID, rid_slot = 0\<rparr>"

definition RowId_Get :: "rowid \<Rightarrow> 64 word" where
  "RowId_Get r = push_bit 32 (word_of_int (rid_page r)) OR ucast (rid_slot r)"

definition RowId_of_int64 :: "64 word \<Rightarrow> rowid" where
  "RowId_of_int64 rid = \<lparr>rid_page = sint (ucast (signed_drop_bit 32 rid) :: 32 word), rid_slot = ucast rid\<rparr>"

section \<open>Columns\<close>

record column =
  col_name :: "byte list"
  col_type :: TypeId
  col_len :: u32
  col_table_ind :: u32
  col_nullable :: bool
  col_unique :: bool

definition COLUMN_MAGIC_NUM :: u32 where "COLUMN_MAGIC_NUM = 210928"

definition Column_fixed :: "byte list \<Rightarrow> TypeId \<Rightarrow> u32 \<Rightarrow> bool \<Rightarrow> bool \<Rightarrow> column option" where
  "Column_fixed name ty index nullable unique =
     (case ty of
        kTypeInt \<Rightarrow> Some \<lparr>col_name = name, col_type = ty, col_len = 4, col_table_ind = index, col_nullable = nullable, col_unique = unique\<rparr>
      | kTypeFloat \<Rightarrow> Some \<lparr>col_name = name, col_type = ty, col_len = 4, col_table_ind = index, col_nullable = nullable, col_unique = unique\<rparr>
      | _ \<Rightarrow> None)"

definition Column_char :: "byte list \<Rightarrow> TypeId \<Rightarrow> u32 \<Rightarrow> u32 \<Rightarrow> bool \<Rightarrow> bool \<Rightarrow> column option" where
  "Column_char name ty len index nullable unique = do {
     ensure (ty = kTypeChar);
     Some \<lparr>col_name = name, col_type = ty, col_len = len, col_table_ind = index, col_nullable = nullable, col_unique = unique\<rparr> }"

fun TypeId_code :: "TypeId \<Rightarrow> u32" where
  "TypeId_code kTypeInvalid = 0"
| "TypeId_code kTypeInt = 1"
| "TypeId_code kTypeFloat = 2"
| "TypeId_code kTypeChar = 3"

text \<open>A number that is no enumerator makes every later use of the column fail an assertion.\<close>

definition TypeId_of_code :: "u32 \<Rightarrow> TypeId option" where
  "TypeId_of_code w = (if w = 0 then Some kTypeInvalid else if w = 1 then Some kTypeInt
     else if w = 2 then Some kTypeFloat else if w = 3 then Some kTypeChar else None)"

definition bool_u32 :: "bool \<Rightarrow> u32" where "bool_u32 b = (if b then 1 else 0)"

definition Column_SerializeTo :: "column \<Rightarrow> buffer \<Rightarrow> nat \<Rightarrow> (buffer \<times> nat) option" where
  "Column_SerializeTo c b off = do {
     b \<leftarrow> put_u32 b off COLUMN_MAGIC_NUM;
     let name_len = of_nat (length (col_name c));
     b \<leftarrow> put_u32 b (off + 4) name_len;
     b \<leftarrow> mem_write b (off + 8) (col_name c);
     let p = off + 8 + unat name_len;
     b \<leftarrow> put_u32 b p (TypeId_code (col_type c));
     b \<leftarrow> put_u32 b (p + 4) (col_len c);
     b \<leftarrow> put_u32 b (p + 8) (col_table_ind c);
     b \<leftarrow> put_u32 b (p + 12) (bool_u32 (col_nullable c));
     b \<leftarrow> put_u32 b (p + 16) (bool_u32 (col_unique c));
     Some (b, p + 20 - off) }"

definition Column_GetSerializedSize :: "column \<Rightarrow> nat option" where
  "Column_GetSerializedSize c = Some (4 * 7 + length (col_name c))"

definition Column_DeserializeFrom :: "buffer \<Rightarrow> nat \<Rightarrow> (column \<times> nat) option" where
  "Column_DeserializeFrom b off = do {
     magic_num \<leftarrow> get_u32 b off;
     ensure (magic_num = COLUMN_MAGIC_NUM);
     name_len \<leftarrow> get_u32 b (off + 4);
     column_name \<leftarrow> mem_read b (off + 8) (unat name_len);
     let p = off + 8 + unat name_len;
     t \<leftarrow> get_u32 b p;
     ty \<leftarrow> TypeId_of_code t;
     col_len \<leftarrow> get_u32 b (p + 4);
     col_ind \<leftarrow> get_u32 b (p + 8);
     nullable \<leftarrow> get_u32 b (p + 12);
     unique \<leftarrow> get_u32 b (p + 16);
     c \<leftarrow> (if ty = kTypeChar then Column_char column_name ty col_len col_ind (nullable \<noteq> 0) (unique \<noteq> 0)
          else Column_fixed column_name ty col_ind (nullable \<noteq> 0) (unique \<noteq> 0));
     Some (c, p + 20 - off) }"

section \<open>Schemas\<close>

type_synonym schema = "column list"

definition SCHEMA_MAGIC_NUM :: u32 where "SCHEMA_MAGIC_NUM = 200715"

definition Schema_SerializeTo :: "schema \<Rightarrow> buffer \<Rightarrow> nat \<Rightarrow> (buffer \<times> nat) option" where
  "Schema_SerializeTo columns b off = do {
     b \<leftarrow> put_u32 b off SCHEMA_MAGIC_NUM;
     b \<leftarrow> put_u32 b (off + 4) (of_nat (length columns));
     (b, n) \<leftarrow> put_seq Column_SerializeTo columns b (off + 8);
     Some (b, 8 + n) }"

definition Schema_DeserializeFrom :: "buffer \<Rightarrow> nat \<Rightarrow> (schema \<times> nat) option" where
  "Schema_DeserializeFrom b off = do {
     magic_num \<leftarrow> get_u32 b off;
     ensure (magic_num = SCHEMA_MAGIC_NUM);
     column_count \<leftarrow> get_u32 b (off + 4);
     (columns, n) \<leftarrow> get_seq (\<lambda>_. Column_DeserializeFrom) (replicate (unat column_count) ()) b (off + 8);
     Some (columns, 8 + n) }"

definition Schema_GetSerializedSize :: "schema \<Rightarrow> nat option" where
  "Schema_GetSerializedSize columns = do { n \<leftarrow> size_seq Column_GetSerializedSize columns; Some (4 * 2 + n) }"

text \<open>The output parameter \<^verbatim>\<open>index\<close> is \<^term>\<open>None\<close> when it is not written.\<close>

fun find_column :: "schema \<Rightarrow> byte list \<Rightarrow> nat \<Rightarrow> nat option" where
  "find_column [] name i = None"
| "find_column (c # cs) name i = (if col_name c = name then Some i else find_column cs name (Suc i))"

definition GetColumnIndex :: "schema \<Rightarrow> byte list \<Rightarrow> dberr \<times> nat option" where
  "GetColumnIndex columns name =
     (case find_column columns name 0 of
        Some i \<Rightarrow> (DB_SUCCESS, Some i)
      | None \<Rightarrow> (DB_COLUMN_NAME_NOT_EXIST, None))"

definition ShallowCopySchema :: "schema \<Rightarrow> nat list \<Rightarrow> schema option" where
  "ShallowCopySchema table_schema attrs =
     (if list_all (\<lambda>i. i < length table_schema) attrs then Some (map (\<lambda>i. table_schema ! i) attrs) else None)"

definition DeepCopySchema :: "schema \<Rightarrow> schema" where
  "DeepCopySchema from_schema = map (\<lambda>c. \<lparr>col_name = col_name c, col_type = col_type c, col_len = col_len c,
     col_table_ind = col_table_ind c, col_nullable = col_nullable c, col_unique = col_unique c\<rparr>) from_schema"

section \<open>Rows\<close>

record row =
  row_rid :: rowid
  row_fields :: "field list"

definition ROW_MAGIC_NUM :: u32 where "ROW_MAGIC_NUM = 0x12345678"

definition Row_new :: "field list \<Rightarrow> row" where
  "Row_new fds = \<lparr>row_rid = \<lparr>rid_page = INVALID_PAGE_ID, rid_slot = 0\<rparr>, row_fields = map Field_copy fds\<rparr>"

text \<open>\<^verbatim>\<open>1 << i\<close> is undefined when the shift reaches the width.\<close>

definition int_shift :: "nat \<Rightarrow> u32 option" where
  "int_shift i = (if i < 32 then Some (push_bit i 1) else None)"

fun null_bitmap :: "field list \<Rightarrow> nat \<Rightarrow> u32 \<Rightarrow> u32 option" where
  "null_bitmap [] i acc = Some acc"
| "null_bitmap (f # fs) i acc =
     (if fd_null f then do { m \<leftarrow> int_shift i; null_bitmap fs (Suc i) (acc OR m) }
      else null_bitmap fs (Suc i) acc)"

definition Row_SerializeTo :: "schema \<Rightarrow> row \<Rightarrow> buffer \<Rightarrow> nat \<Rightarrow> (buffer \<times> nat) option" where
  "Row_SerializeTo schema r b off = do {
     ensure (length schema = length (row_fields r));
     b \<leftarrow> put_u32 b off ROW_MAGIC_NUM;
     b \<leftarrow> put_u32 b (off + 4) (of_nat (length (row_fields r)));
     nb \<leftarrow> null_bitmap (row_fields r) 0 0;
     b \<leftarrow> put_u32 b (off + 8) nb;
     (b, n) \<leftarrow> put_seq Field_SerializeTo (row_fields r) b (off + 12);
     Some (b, 12 + n) }"

text \<open>The loop reads \<^verbatim>\<open>schema->GetColumn(i)\<close>; there are \<open>n\<close> fields from position \<open>i\<close> on.\<close>

fun field_kinds :: "schema \<Rightarrow> u32 \<Rightarrow> nat \<Rightarrow> nat \<Rightarrow> (TypeId \<times> bool) list option" where
  "field_kinds schema nb i 0 = Some []"
| "field_kinds schema nb i (Suc n) = do {
     ensure (i < length schema);
     m \<leftarrow> int_shift i;
     ks \<leftarrow> field_kinds schema nb (Suc i) n;
     Some ((col_type (schema ! i), nb AND m \<noteq> 0) # ks) }"

definition Row_DeserializeFrom :: "schema \<Rightarrow> row \<Rightarrow> buffer \<Rightarrow> nat \<Rightarrow> (row \<times> nat) option" where
  "Row_DeserializeFrom schema r b off = do {
     magic_num \<leftarrow> get_u32 b off;
     ensure (magic_num = ROW_MAGIC_NUM);
     field_count \<leftarrow> get_u32 b (off + 4);
     nb \<leftarrow> get_u32 b (off + 8);
     kinds \<leftarrow> field_kinds schema nb 0 (unat field_count);
     (fs, n) \<leftarrow> get_seq Field_DeserializeFrom kinds b (off + 12);
     Some (r\<lparr>row_fields := fs\<rparr>, 12 + n) }"

definition Row_GetSerializedSize :: "schema \<Rightarrow> row \<Rightarrow> nat option" where
  "Row_GetSerializedSize schema r = do {
     ensure (length schema = length (row_fields r));
     n \<leftarrow> size_seq Field_GetSerializedSize (row_fields r);
     Some (4 * 3 + n) }"

definition GetField :: "row \<Rightarrow> nat \<Rightarrow> field option" where
  "GetField r idx = (if idx < length (row_fields r) then Some (row_fields r ! idx) else None)"

text \<open>\<^verbatim>\<open>idx\<close> keeps its previous value when a key column is not found; at first it is uninitialised.\<close>

fun key_fields :: "schema \<Rightarrow> schema \<Rightarrow> row \<Rightarrow> nat option \<Rightarrow> field list option" where
  "key_fields schema [] r idx = Some []"
| "key_fields schema (c # cs) r idx = do {
     let idx = (case snd (GetColumnIndex schema (col_name c)) of Some i \<Rightarrow> Some i | None \<Rightarrow> idx);
     i \<leftarrow> idx;
     f \<leftarrow> GetField r i;
     fs \<leftarrow> key_fields schema cs r idx;
     Some (Field_copy f # fs) }"

definition GetKeyFromRow :: "schema \<Rightarrow> schema \<Rightarrow> row \<Rightarrow> row option" where
  "GetKeyFromRow schema key_schema r = do {
     fs \<leftarrow> key_fields schema key_schema r None;
     Some (Row_new fs) }"

section \<open>Encoding of columns and schemas\<close>

definition column_ok :: "unit \<Rightarrow> column \<Rightarrow> bool" where
  "column_ok _ c \<longleftrightarrow> length (col_name c) < 2 ^ 32 \<and> col_type c \<noteq> kTypeInvalid \<and> (col_type c \<noteq> kTypeChar \<longrightarrow> col_len c = 4)"

definition column_encode :: "column \<Rightarrow> byte list" where
  "column_encode c = u32_bytes COLUMN_MAGIC_NUM @ u32_bytes (of_nat (length (col_name c))) @ col_name c @
     u32_bytes (TypeId_code (col_type c)) @ u32_bytes (col_len c) @ u32_bytes (col_table_ind c) @
     u32_bytes (bool_u32 (col_nullable c)) @ u32_bytes (bool_u32 (col_unique c))"

lemma TypeId_code_inverse [simp]: "TypeId_of_code (TypeId_code t) = Some t"
  by (cases t) (simp_all add: TypeId_of_code_def)

lemma bool_u32_nonzero [simp]: "bool_u32 b \<noteq> 0 \<longleftrightarrow> b"
  by (simp add: bool_u32_def)

lemma put_u32_splice: "off + 4 \<le> length b \<Longrightarrow> put_u32 b off w = Some (splice b off (u32_bytes w))"
  by (simp add: put_u32_Some)

lemma column_put_encode:
  assumes "column_ok i c" "off + length (column_encode c) \<le> length b"
  shows "Column_SerializeTo c b off = Some (splice b off (column_encode c), length (column_encode c))"
proof -
  have n: "unat (of_nat (length (col_name c)) :: u32) = length (col_name c)"
    using assms(1) by (simp add: column_ok_def unat_of_nat_u32)
  show ?thesis
    using assms(2) unfolding Column_SerializeTo_def column_encode_def
    by (simp add: n put_u32_splice [of off b COLUMN_MAGIC_NUM] put_next write_next Let_def del: mem_write_Some)
qed

lemma column_get_encode:
  assumes "column_ok i c" "off + length (column_encode c) \<le> length b"
    "slice b off (length (column_encode c)) = column_encode c"
  shows "Column_DeserializeFrom b off = Some (c, length (column_encode c))"
proof -
  have n: "unat (of_nat (length (col_name c)) :: u32) = length (col_name c)"
    using assms(1) by (simp add: column_ok_def unat_of_nat_u32)
  note R = get_piece [OF assms(3,2), unfolded column_encode_def] and S = read_piece [OF assms(3,2), unfolded column_encode_def]
  let ?m = "u32_bytes COLUMN_MAGIC_NUM" and ?l = "u32_bytes (of_nat (length (col_name c)))" and ?n = "col_name c"
    and ?t = "u32_bytes (TypeId_code (col_type c))" and ?c = "u32_bytes (col_len c)" and ?i = "u32_bytes (col_table_ind c)"
    and ?u = "u32_bytes (bool_u32 (col_nullable c))"
  have g: "get_u32 b off = Some COLUMN_MAGIC_NUM" "get_u32 b (off + 4) = Some (of_nat (length ?n))"
    "mem_read b (off + 8) (length ?n) = Some ?n" "get_u32 b (off + 8 + length ?n) = Some (TypeId_code (col_type c))"
    "get_u32 b (off + 8 + length ?n + 4) = Some (col_len c)" "get_u32 b (off + 8 + length ?n + 8) = Some (col_table_ind c)"
    "get_u32 b (off + 8 + length ?n + 12) = Some (bool_u32 (col_nullable c))"
    "get_u32 b (off + 8 + length ?n + 16) = Some (bool_u32 (col_unique c))"
    using R [of "[]"] R [of ?m] S [of "?m @ ?l" ?n] R [of "?m @ ?l @ ?n"] R [of "?m @ ?l @ ?n @ ?t"]
      R [of "?m @ ?l @ ?n @ ?t @ ?c"] R [of "?m @ ?l @ ?n @ ?t @ ?c @ ?i"] R [of "?m @ ?l @ ?n @ ?t @ ?c @ ?i @ ?u" _ "[]"]
    by (simp_all add: ac_simps del: mem_read_Some)
  have l: "length (column_encode c) = 28 + length ?n" by (simp add: column_encode_def)
  show ?thesis
    using assms(1) unfolding Column_DeserializeFrom_def l
    by (cases c; cases "col_type c") (use g n in \<open>simp_all add: ensure_def Let_def Column_fixed_def Column_char_def column_ok_def
        TypeId_of_code_def del: mem_read_Some\<close>)
qed

interpretation column_codec: codec column_ok column_encode Column_SerializeTo "\<lambda>_. Column_DeserializeFrom" Column_GetSerializedSize
  by unfold_locales
    (auto intro: column_put_encode column_get_encode, simp add: Column_GetSerializedSize_def column_encode_def)

definition schema_ok :: "unit \<Rightarrow> schema \<Rightarrow> bool" where
  "schema_ok _ cs \<longleftrightarrow> length cs < 2 ^ 32 \<and> list_all (column_ok ()) cs"

definition schema_encode :: "schema \<Rightarrow> byte list" where
  "schema_encode cs = u32_bytes SCHEMA_MAGIC_NUM @ u32_bytes (of_nat (length cs)) @ concat (map column_encode cs)"

lemma schema_columns_ok: "schema_ok i cs \<Longrightarrow> list_all2 column_ok (replicate (length cs) ()) cs"
  by (auto simp: schema_ok_def list_all2_conv_all_nth list_all_length)

interpretation schema_codec: codec schema_ok schema_encode Schema_SerializeTo "\<lambda>_. Schema_DeserializeFrom" Schema_GetSerializedSize
proof
  fix i cs and off :: nat and b :: buffer
  assume ok: "schema_ok i cs" and fit: "off + length (schema_encode cs) \<le> length b"
  note cols = schema_columns_ok [OF ok]
  let ?e = "concat (map column_encode cs)" and ?h = "u32_bytes SCHEMA_MAGIC_NUM @ u32_bytes (of_nat (length cs))"
  have len: "length (schema_encode cs) = 8 + length ?e" by (simp add: schema_encode_def)
  have n: "unat (of_nat (length cs) :: u32) = length cs" using ok by (simp add: schema_ok_def unat_of_nat_u32)
  have "put_seq Column_SerializeTo cs (splice b off ?h) (off + 8) =
      Some (splice (splice b off ?h) (off + 8) ?e, length ?e)"
    using fit by (intro column_codec.put_seq_encode [OF cols]) (simp add: len)
  moreover have "splice (splice b off ?h) (off + 8) ?e = splice b off (schema_encode cs)"
    using splice_adjacent [of off ?h ?e b] fit by (simp add: len schema_encode_def)
  ultimately show "Schema_SerializeTo cs b off = Some (splice b off (schema_encode cs), length (schema_encode cs))"
    using fit by (simp add: Schema_SerializeTo_def put_u32_splice [of off b SCHEMA_MAGIC_NUM] put_next len)
  assume sl: "slice b off (length (schema_encode cs)) = schema_encode cs"
  have g: "get_u32 b off = Some SCHEMA_MAGIC_NUM" "get_u32 b (off + 4) = Some (of_nat (length cs))"
    using get_piece [OF sl fit, unfolded schema_encode_def, of "[]"]
      get_piece [OF sl fit, unfolded schema_encode_def, of "u32_bytes SCHEMA_MAGIC_NUM"] by simp_all
  have "slice b (off + 8) (length ?e) = ?e"
    using slice_eq_append(2) [of b off ?h ?e] sl by (simp add: schema_encode_def)
  then have "get_seq (\<lambda>_. Column_DeserializeFrom) (replicate (length cs) ()) b (off + 8) = Some (cs, length ?e)"
    using fit by (intro column_codec.get_seq_encode [OF cols]) (simp_all add: len)
  then show "Schema_DeserializeFrom b off = Some (cs, length (schema_encode cs))"
    using g n by (simp add: Schema_DeserializeFrom_def ensure_def len)
next
  fix i cs assume "schema_ok i cs"
  from column_codec.size_seq_encode [OF schema_columns_ok [OF this]]
  show "Schema_GetSerializedSize cs = Some (length (schema_encode cs))"
    by (simp add: Schema_GetSerializedSize_def schema_encode_def)
qed

section \<open>Encoding of rows\<close>

lemma null_bitmap_ok:
  "i + length fs \<le> 32 \<Longrightarrow> \<exists>w. null_bitmap fs i acc = Some w \<and>
     (\<forall>j. bit w j \<longleftrightarrow> bit acc j \<or> i \<le> j \<and> j < i + length fs \<and> fd_null (fs ! (j - i)))"
proof (induction fs arbitrary: i acc)
  case Nil
  then show ?case by (auto simp: not_less)
next
  case (Cons f fs)
  let ?acc = "if fd_null f then acc OR push_bit i 1 else acc"
  obtain w where w: "null_bitmap fs (Suc i) ?acc = Some w"
    "\<And>j. bit w j \<longleftrightarrow> bit ?acc j \<or> Suc i \<le> j \<and> j < Suc i + length fs \<and> fd_null (fs ! (j - Suc i))"
    using Cons.IH [of "Suc i" ?acc] Cons.prems by auto
  have "null_bitmap (f # fs) i acc = Some w"
    using w(1) Cons.prems by (simp add: int_shift_def split: if_splits)
  moreover have "bit ?acc j \<longleftrightarrow> bit acc j \<or> j = i \<and> fd_null f" for j
    using Cons.prems by (auto simp: bit_or_iff bit_exp_iff)
  then have "bit w j \<longleftrightarrow> bit acc j \<or> i \<le> j \<and> j < i + length (f # fs) \<and> fd_null ((f # fs) ! (j - i))" for j
    unfolding w(2) by (cases "j = i") (auto simp: nth_Cons' Suc_le_eq)
  ultimately show ?case by blast
qed

lemma field_kinds_eq:
  "i + n \<le> length schema \<Longrightarrow> i + n \<le> 32 \<Longrightarrow>
   field_kinds schema nb i n = Some (map (\<lambda>j. (col_type (schema ! j), bit nb j)) [i..<i + n])"
proof (induction n arbitrary: i)
  case (Suc n)
  then have "field_kinds schema nb (Suc i) n = Some (map (\<lambda>j. (col_type (schema ! j), bit nb j)) [Suc i..<Suc i + n])"
    by (intro Suc.IH) simp_all
  with Suc.prems show ?case
    by (simp add: ensure_def int_shift_def upt_conv_Cons bit_iff_and_push_bit_not_eq_0 del: upt_Suc)
qed simp

definition row_ok :: "schema \<Rightarrow> rowid \<Rightarrow> row \<Rightarrow> bool" where
  "row_ok schema rid r \<longleftrightarrow> row_rid r = rid \<and> length (row_fields r) = length schema \<and> length schema \<le> 32 \<and>
     (\<forall>i < length schema. field_ok (col_type (schema ! i), fd_null (row_fields r ! i)) (row_fields r ! i))"

definition row_bitmap :: "row \<Rightarrow> u32" where
  "row_bitmap r = (case null_bitmap (row_fields r) 0 0 of Some w \<Rightarrow> w | None \<Rightarrow> 0)"

definition row_encode :: "row \<Rightarrow> byte list" where
  "row_encode r = u32_bytes ROW_MAGIC_NUM @ u32_bytes (of_nat (length (row_fields r))) @ u32_bytes (row_bitmap r) @
     concat (map field_encode (row_fields r))"

definition row_kinds :: "schema \<Rightarrow> row \<Rightarrow> (TypeId \<times> bool) list" where
  "row_kinds schema r = map (\<lambda>j. (col_type (schema ! j), bit (row_bitmap r) j)) [0..<length schema]"

lemma row_bitmap_ok:
  assumes "row_ok schema rid r"
  shows "null_bitmap (row_fields r) 0 0 = Some (row_bitmap r)"
    "j < length schema \<Longrightarrow> bit (row_bitmap r) j \<longleftrightarrow> fd_null (row_fields r ! j)"
proof -
  obtain w where "null_bitmap (row_fields r) 0 0 = Some w"
    "\<And>j. bit w j \<longleftrightarrow> j < length (row_fields r) \<and> fd_null (row_fields r ! j)"
    using null_bitmap_ok [of 0 "row_fields r" 0] assms by (auto simp: row_ok_def)
  then show "null_bitmap (row_fields r) 0 0 = Some (row_bitmap r)"
    "j < length schema \<Longrightarrow> bit (row_bitmap r) j \<longleftrightarrow> fd_null (row_fields r ! j)"
    using assms by (auto simp: row_bitmap_def row_ok_def)
qed

lemma row_kinds_ok: "row_ok schema rid r \<Longrightarrow> list_all2 field_ok (row_kinds schema r) (row_fields r)"
  using row_bitmap_ok(2) by (auto simp: list_all2_conv_all_nth row_kinds_def row_ok_def)

interpretation row_codec: codec "row_ok schema" row_encode "Row_SerializeTo schema"
  "\<lambda>rid. Row_DeserializeFrom schema \<lparr>row_rid = rid, row_fields = []\<rparr>" "Row_GetSerializedSize schema"
  for schema
proof
  fix rid r and off :: nat and b :: buffer
  assume ok: "row_ok schema rid r" and fit: "off + length (row_encode r) \<le> length b"
  note kinds = row_kinds_ok [OF ok] and bm = row_bitmap_ok [OF ok]
  let ?fs = "row_fields r"
  let ?e = "concat (map field_encode ?fs)"
    and ?h = "u32_bytes ROW_MAGIC_NUM @ u32_bytes (of_nat (length ?fs)) @ u32_bytes (row_bitmap r)"
  have len: "length (row_encode r) = 12 + length ?e" by (simp add: row_encode_def)
  have n: "length ?fs = length schema" "length schema \<le> 32" "unat (of_nat (length ?fs) :: u32) = length schema" "row_rid r = rid"
    using ok by (auto simp: row_ok_def unat_of_nat_u32)
  have "put_seq Field_SerializeTo ?fs (splice b off ?h) (off + 12) = Some (splice (splice b off ?h) (off + 12) ?e, length ?e)"
    using fit by (intro field_codec.put_seq_encode [OF kinds]) (simp add: len)
  moreover have "splice (splice b off ?h) (off + 12) ?e = splice b off (row_encode r)"
    using splice_adjacent [of off ?h ?e b] fit by (simp add: len row_encode_def)
  ultimately show "Row_SerializeTo schema r b off = Some (splice b off (row_encode r), length (row_encode r))"
    using fit n(1) bm(1) by (simp add: Row_SerializeTo_def ensure_def put_u32_splice [of off b ROW_MAGIC_NUM] put_next len)
  assume sl: "slice b off (length (row_encode r)) = row_encode r"
  note G = get_piece [OF sl fit, unfolded row_encode_def]
  have g: "get_u32 b off = Some ROW_MAGIC_NUM" "get_u32 b (off + 4) = Some (of_nat (length ?fs))" "get_u32 b (off + 8) = Some (row_bitmap r)"
    using G [of "[]"] G [of "u32_bytes ROW_MAGIC_NUM"] G [of "u32_bytes ROW_MAGIC_NUM @ u32_bytes (of_nat (length ?fs))"] by simp_all
  have "slice b (off + 12) (length ?e) = ?e"
    using slice_eq_append(2) [of b off ?h ?e] sl by (simp add: row_encode_def)
  then have "get_seq Field_DeserializeFrom (row_kinds schema r) b (off + 12) = Some (?fs, length ?e)"
    using fit by (intro field_codec.get_seq_encode [OF kinds]) (simp_all add: len)
  moreover have "field_kinds schema (row_bitmap r) 0 (length schema) = Some (row_kinds schema r)"
    using n field_kinds_eq [of 0 "length schema"] by (simp add: row_kinds_def)
  ultimately show "Row_DeserializeFrom schema \<lparr>row_rid = rid, row_fields = []\<rparr> b off = Some (r, length (row_encode r))"
    using g n by (cases r) (simp add: Row_DeserializeFrom_def ensure_def row_encode_def)
next
  fix rid r assume ok: "row_ok schema rid r"
  from field_codec.size_seq_encode [OF row_kinds_ok [OF this]] ok
  show "Row_GetSerializedSize schema r = Some (length (row_encode r))"
    by (simp add: Row_GetSerializedSize_def row_encode_def ensure_def row_ok_def)
qed

section \<open>Properties\<close>

text \<open>
  C30: rows round-trip. For a row that matches its schema (at most 32 columns, character fields below
  the \<^verbatim>\<open>VARCHAR\<close> limit), \<^verbatim>\<open>SerializeTo\<close> writes exactly \<^verbatim>\<open>GetSerializedSize\<close> bytes, nothing outside them, and
  \<^verbatim>\<open>DeserializeFrom\<close> with the same schema returns the same fields, nulls included.
\<close>

theorem row_serialize_roundtrip:
  assumes "row_ok schema rid r" "Row_GetSerializedSize schema r = Some n" "off + n \<le> length b"
  shows "\<exists>b'. Row_SerializeTo schema r b off = Some (b', n) \<and> length b' = length b \<and>
    Row_DeserializeFrom schema \<lparr>row_rid = rid, row_fields = []\<rparr> b' off = Some (r, n) \<and>
    (\<forall>o2 m. o2 + m \<le> off \<or> off + n \<le> o2 \<longrightarrow> slice b' o2 m = slice b o2 m)"
  using row_codec.get_put [OF assms] by metis

definition sample_schema :: schema where
  "sample_schema = [\<lparr>col_name = [105], col_type = kTypeInt, col_len = 4, col_table_ind = 0, col_nullable = False, col_unique = True\<rparr>,
     \<lparr>col_name = [110], col_type = kTypeChar, col_len = 64, col_table_ind = 1, col_nullable = True, col_unique = False\<rparr>,
     \<lparr>col_name = [97], col_type = kTypeFloat, col_len = 4, col_table_ind = 2, col_nullable = True, col_unique = False\<rparr>]"

definition sample_row :: row where
  "sample_row = \<lparr>row_rid = INVALID_ROWID, row_fields = [Field_int 7, char_field [77, 83], Field_null kTypeFloat]\<rparr>"

lemma sample_row_ok: "row_ok sample_schema INVALID_ROWID sample_row" "Row_GetSerializedSize sample_schema sample_row = Some 22"
  by (auto simp: row_ok_def sample_schema_def sample_row_def field_ok_def Field_int_def char_field_def Field_null_def
      VARCHAR_MAX_LEN_def PAGE_SIZE_def less_Suc_eq numeral_3_eq_3 Row_GetSerializedSize_def ensure_def Field_GetSerializedSize_def)

theorem row_serialize_roundtrip_witness:
  "\<exists>b'. Row_SerializeTo sample_schema sample_row (replicate 64 0) 8 = Some (b', 22) \<and>
     Row_DeserializeFrom sample_schema \<lparr>row_rid = INVALID_ROWID, row_fields = []\<rparr> b' 8 = Some (sample_row, 22)"
  using row_serialize_roundtrip [OF sample_row_ok, of 8 "replicate 64 0"] by auto

text \<open>
  Schemas round-trip: the columns with their names, types, lengths, positions and flags are read
  back as written, and \<^verbatim>\<open>GetSerializedSize\<close> is the number of bytes used.
\<close>

theorem schema_serialize_roundtrip:
  assumes "schema_ok () cs" "Schema_GetSerializedSize cs = Some n" "off + n \<le> length b"
  shows "\<exists>b'. Schema_SerializeTo cs b off = Some (b', n) \<and> length b' = length b \<and>
    Schema_DeserializeFrom b' off = Some (cs, n) \<and>
    (\<forall>o2 m. o2 + m \<le> off \<or> off + n \<le> o2 \<longrightarrow> slice b' o2 m = slice b o2 m)"
  using schema_codec.get_put [OF assms] by metis

theorem schema_serialize_roundtrip_witness:
  "\<exists>b'. Schema_SerializeTo sample_schema (replicate 128 0) 0 = Some (b', 95) \<and>
     Schema_DeserializeFrom b' 0 = Some (sample_schema, 95)"
proof -
  have "schema_ok () sample_schema" "Schema_GetSerializedSize sample_schema = Some 95"
    by (simp_all add: schema_ok_def column_ok_def sample_schema_def Schema_GetSerializedSize_def Column_GetSerializedSize_def)
  from schema_serialize_roundtrip [OF this, of 0 "replicate 128 0"] show ?thesis by auto
qed

text \<open>
  The null bitmap has 32 bits and \<^verbatim>\<open>DeserializeFrom\<close> evaluates \<^verbatim>\<open>1 << i\<close> for every column, so a stored row
  with more than 32 fields has no defined deserialization, although serializing it without null
  fields succeeds.
\<close>

theorem row_more_than_32_fields_undefined:
  assumes "32 < unat field_count" "get_u32 b (off + 4) = Some field_count"
  shows "Row_DeserializeFrom schema r b off = None"
proof -
  have "field_kinds schema nb i n = None" if "i \<le> 32" "32 < i + n" for nb i n
    using that
  proof (induction n arbitrary: i)
    case (Suc n)
    show ?case
    proof (cases "i = 32")
      case False
      with Suc.prems have "field_kinds schema nb (Suc i) n = None" by (intro Suc.IH) auto
      then show ?thesis by (simp add: bind_eq_None_conv)
    qed (simp add: int_shift_def ensure_def)
  qed simp
  from this [of 0 "unat field_count"] assms show ?thesis
    by (auto simp: Row_DeserializeFrom_def bind_eq_None_conv)
qed

theorem row_more_than_32_fields_undefined_witness:
  "Row_DeserializeFrom sample_schema sample_row (u32_bytes ROW_MAGIC_NUM @ u32_bytes 40 @ replicate 300 0) 0 = None"
proof -
  have "get_u32 (u32_bytes ROW_MAGIC_NUM @ u32_bytes 40 @ replicate 300 0) (0 + 4) = Some 40"
    by (simp add: get_u32_Some slice_def)
  then show ?thesis by (rule row_more_than_32_fields_undefined [rotated]) simp
qed

lemma find_column_ok:
  "find_column cs name i = Some j \<longleftrightarrow>
     (i \<le> j \<and> j < i + length cs \<and> col_name (cs ! (j - i)) = name \<and> (\<forall>k. i \<le> k \<and> k < j \<longrightarrow> col_name (cs ! (k - i)) \<noteq> name))"
proof (induction cs arbitrary: i)
  case Nil
  then show ?case by auto
next
  case (Cons c cs)
  show ?case
  proof (cases "col_name c = name")
    case True
    then show ?thesis by (auto simp: nth_Cons' dest!: spec [of _ i])
  next
    case False
    with Cons.IH [of "Suc i"] show ?thesis
      by (auto simp: nth_Cons' Suc_le_eq)
  qed
qed

text \<open>
  \<^verbatim>\<open>GetKeyFromRow\<close> projects a row onto the key columns: when the key schema is made of columns of the
  table schema chosen by position and column names are distinct, the key row holds exactly the
  fields at these positions, in key order.
\<close>

lemma find_column_nth:
  assumes "distinct (map col_name cs)" "j < length cs"
  shows "find_column cs (col_name (cs ! j)) 0 = Some j"
  using assms unfolding find_column_ok by (auto simp: distinct_conv_nth)

theorem get_key_from_row_projects:
  assumes "distinct (map col_name schema)" "length (row_fields r) = length schema"
    "ShallowCopySchema schema attrs = Some key_schema"
  shows "\<exists>k. GetKeyFromRow schema key_schema r = Some k \<and> row_fields k = map (\<lambda>i. row_fields r ! i) attrs"
proof -
  have k: "key_schema = map (\<lambda>i. schema ! i) attrs" "list_all (\<lambda>i. i < length schema) attrs"
    using assms(3) by (auto simp: ShallowCopySchema_def split: if_splits)
  have "key_fields schema (map (\<lambda>i. schema ! i) attrs) r idx = Some (map (\<lambda>i. row_fields r ! i) attrs)" for idx
    using k(2)
  proof (induction attrs arbitrary: idx)
    case (Cons a attrs)
    then show ?case
      using find_column_nth [OF assms(1), of a] assms(2)
      by (simp add: GetColumnIndex_def GetField_def Field_copy_def)
  qed simp
  then show ?thesis
    by (simp add: GetKeyFromRow_def k(1) Row_new_def Field_copy_def)
qed

theorem get_key_from_row_projects_witness:
  "\<exists>k. GetKeyFromRow sample_schema [sample_schema ! 2, sample_schema ! 0] sample_row = Some k \<and>
     row_fields k = [Field_null kTypeFloat, Field_int 7]"
  using get_key_from_row_projects [of sample_schema sample_row "[2, 0]" "[sample_schema ! 2, sample_schema ! 0]"]
  by (simp add: sample_schema_def sample_row_def ShallowCopySchema_def)

text \<open>
  packing a row id into 64 bits and unpacking it returns the same page id and slot, for every
  page id of 32 bits, negative ones included.
\<close>

theorem rowid_pack_roundtrip:
  assumes "- (2 ^ 31) \<le> rid_page r" "rid_page r < 2 ^ 31"
  shows "RowId_of_int64 (RowId_Get r) = r"
proof -
  have "ucast (signed_drop_bit 32 (RowId_Get r)) = (word_of_int (rid_page r) :: 32 word)"
    by (rule bit_word_eqI) (auto simp: RowId_Get_def bit_simps bit_word_of_int_iff bit_ucast_iff dest: bit_imp_le_length)
  moreover have "ucast (RowId_Get r) = rid_slot r"
    by (rule bit_word_eqI) (auto simp: RowId_Get_def bit_simps bit_ucast_iff)
  moreover have "sint (word_of_int (rid_page r) :: 32 word) = rid_page r"
    using assms by (simp add: sint_sbintrunc' signed_take_bit_int_eq_self)
  ultimately show ?thesis by (cases r) (simp add: RowId_of_int64_def)
qed

theorem rowid_pack_roundtrip_witness: "RowId_of_int64 (RowId_Get INVALID_ROWID) = INVALID_ROWID"
  by (rule rowid_pack_roundtrip) (simp_all add: INVALID_ROWID_def INVALID_PAGE_ID_def)

end
