(* ===== verification/Table_Page.thy ===== *)
theory Table_Page
  imports Schema_Row
begin

text \<open>
  The slotted page of a table: \<^verbatim>\<open>TablePage\<close> of \<^verbatim>\<open>include/page/table_page.h\<close> and \<^verbatim>\<open>page/table_page.cpp\<close>, on the
  4096 bytes of the page. Header fields and slots are read and written at their byte offsets in 32-bit
  arithmetic; the tuples lie between the free-space pointer and the end of the page. The lemmas show
  that every operation keeps the slots disjoint and inside the page and leaves the bytes of all other
  tuples unchanged, also when the remaining tuples are moved to close a gap.
\<close>

section \<open>Model\<close>

definition SIZE_TABLE_PAGE_HEADER :: nat where "SIZE_TABLE_PAGE_HEADER = 24"
definition SIZE_TUPLE :: nat where "SIZE_TUPLE = 8"
definition SIZE_MAX_ROW :: nat where "SIZE_MAX_ROW = PAGE_SIZE - SIZE_TABLE_PAGE_HEADER - SIZE_TUPLE"
definition DELETE_MASK :: u32 where "DELETE_MASK = push_bit 31 1"

definition GetTablePageId :: "buffer \<Rightarrow> int option" where "GetTablePageId d = map_option sint (get_u32 d 0)"
definition GetPrevPageId :: "buffer \<Rightarrow> int option" where "GetPrevPageId d = map_option sint (get_u32 d 8)"
definition GetNextPageId :: "buffer \<Rightarrow> int option" where "GetNextPageId d = map_option sint (get_u32 d 12)"
definition SetPrevPageId :: "buffer \<Rightarrow> int \<Rightarrow> buffer option" where "SetPrevPageId d p = put_u32 d 8 (word_of_int p)"
definition SetNextPageId :: "buffer \<Rightarrow> int \<Rightarrow> buffer option" where "SetNextPageId d p = put_u32 d 12 (word_of_int p)"
definition GetFreeSpacePointer :: "buffer \<Rightarrow> u32 option" where "GetFreeSpacePointer d = get_u32 d 16"
definition SetFreeSpacePointer :: "buffer \<Rightarrow> u32 \<Rightarrow> buffer option" where "SetFreeSpacePointer d p = put_u32 d 16 p"
definition GetTupleCount :: "buffer \<Rightarrow> u32 option" where "GetTupleCount d = get_u32 d 20"
definition SetTupleCount :: "buffer \<Rightarrow> u32 \<Rightarrow> buffer option" where "SetTupleCount d n = put_u32 d 20 n"
definition GetTupleOffsetAtSlot :: "buffer \<Rightarrow> nat \<Rightarrow> u32 option" where
  "GetTupleOffsetAtSlot d slot_num = get_u32 d (24 + SIZE_TUPLE * slot_num)"
definition SetTupleOffsetAtSlot :: "buffer \<Rightarrow> nat \<Rightarrow> u32 \<Rightarrow> buffer option" where
  "SetTupleOffsetAtSlot d slot_num off = put_u32 d (24 + SIZE_TUPLE * slot_num) off"
definition GetTupleSize :: "buffer \<Rightarrow> nat \<Rightarrow> u32 option" where
  "GetTupleSize d slot_num = get_u32 d (28 + SIZE_TUPLE * slot_num)"
definition SetTupleSize :: "buffer \<Rightarrow> nat \<Rightarrow> u32 \<Rightarrow> buffer option" where
  "SetTupleSize d slot_num sz = put_u32 d (28 + SIZE_TUPLE * slot_num) sz"

definition IsDeleted :: "u32 \<Rightarrow> bool" where
  "IsDeleted tuple_size \<longleftrightarrow> tuple_size AND DELETE_MASK \<noteq> 0 \<or> tuple_size = 0"

definition SetDeletedFlag :: "u32 \<Rightarrow> u32" where "SetDeletedFlag tuple_size = tuple_size OR DELETE_MASK"
definition UnsetDeletedFlag :: "u32 \<Rightarrow> u32" where "UnsetDeletedFlag tuple_size = tuple_size AND NOT DELETE_MASK"

definition GetFreeSpaceRemaining :: "buffer \<Rightarrow> u32 option" where
  "GetFreeSpaceRemaining d = do {
     p \<leftarrow> GetFreeSpacePointer d; n \<leftarrow> GetTupleCount d;
     Some (p - of_nat SIZE_TABLE_PAGE_HEADER - of_nat SIZE_TUPLE * n) }"

definition GetFreeSpace :: "buffer \<Rightarrow> u32 option" where
  "GetFreeSpace d = do {
     p \<leftarrow> GetFreeSpacePointer d; n \<leftarrow> GetTupleCount d;
     Some (p - of_nat SIZE_TABLE_PAGE_HEADER - of_nat SIZE_TUPLE * n - of_nat SIZE_TUPLE) }"

definition TP_Init :: "buffer \<Rightarrow> int \<Rightarrow> int \<Rightarrow> buffer option" where
  "TP_Init d page_id prev_id = do {
     d \<leftarrow> put_u32 d 0 (word_of_int page_id);
     d \<leftarrow> SetPrevPageId d prev_id;
     d \<leftarrow> SetNextPageId d INVALID_PAGE_ID;
     d \<leftarrow> SetFreeSpacePointer d (of_nat PAGE_SIZE);
     SetTupleCount d 0 }"

text \<open>The search for an empty slot: the first of the \<open>n\<close> slots from \<open>i\<close> on with size 0, else the slot after them.\<close>

fun free_slot :: "buffer \<Rightarrow> nat \<Rightarrow> nat \<Rightarrow> nat option" where
  "free_slot d i 0 = Some i"
| "free_slot d i (Suc n) = do { s \<leftarrow> GetTupleSize d i; if s = 0 then Some i else free_slot d (Suc i) n }"

text \<open>Result: the Boolean, the page, the row with its new row id.\<close>

definition TP_InsertTuple :: "schema \<Rightarrow> buffer \<Rightarrow> row \<Rightarrow> (bool \<times> buffer \<times> row) option" where
  "TP_InsertTuple schema d row = do {
     serialized_size \<leftarrow> Row_GetSerializedSize schema row;
     ensure (serialized_size > 0);
     rem \<leftarrow> GetFreeSpaceRemaining d;
     if unat rem < serialized_size + SIZE_TUPLE then Some (False, d, row)
     else do {
       n \<leftarrow> GetTupleCount d;
       i \<leftarrow> free_slot d 0 (unat n);
       if i = unat n \<and> unat rem < serialized_size + SIZE_TUPLE then Some (False, d, row)
       else do {
         p \<leftarrow> GetFreeSpacePointer d;
         d \<leftarrow> SetFreeSpacePointer d (p - of_nat serialized_size);
         p \<leftarrow> GetFreeSpacePointer d;
         (d, write_bytes) \<leftarrow> Row_SerializeTo schema row d (unat p);
         ensure (write_bytes = serialized_size);
         p \<leftarrow> GetFreeSpacePointer d;
         d \<leftarrow> SetTupleOffsetAtSlot d i p;
         d \<leftarrow> SetTupleSize d i (of_nat serialized_size);
         pid \<leftarrow> GetTablePageId d;
         let row = row\<lparr>row_rid := \<lparr>rid_page = pid, rid_slot = of_nat i\<rparr>\<rparr>;
         n \<leftarrow> GetTupleCount d;
         d \<leftarrow> (if i = unat n then SetTupleCount d (n + 1) else Some d);
         Some (True, d, row) } } }"

definition TP_MarkDelete :: "buffer \<Rightarrow> rowid \<Rightarrow> (bool \<times> buffer) option" where
  "TP_MarkDelete d rid = do {
     let slot_num = unat (rid_slot rid);
     n \<leftarrow> GetTupleCount d;
     if slot_num \<ge> unat n then Some (False, d)
     else do {
       tuple_size \<leftarrow> GetTupleSize d slot_num;
       if IsDeleted tuple_size then Some (False, d)
       else do {
         d \<leftarrow> (if tuple_size > 0 then SetTupleSize d slot_num (SetDeletedFlag tuple_size) else Some d);
         Some (True, d) } } }"

text \<open>The loops that correct the offsets after tuples have moved.\<close>

fun shift_offsets :: "(u32 \<Rightarrow> bool) \<Rightarrow> u32 \<Rightarrow> buffer \<Rightarrow> nat \<Rightarrow> nat \<Rightarrow> buffer option" where
  "shift_offsets moved delta d i 0 = Some d"
| "shift_offsets moved delta d i (Suc n) = do {
     tuple_offset_i \<leftarrow> GetTupleOffsetAtSlot d i;
     s \<leftarrow> GetTupleSize d i;
     d \<leftarrow> (if s \<noteq> 0 \<and> moved tuple_offset_i then SetTupleOffsetAtSlot d i (tuple_offset_i + delta) else Some d);
     shift_offsets moved delta d (Suc i) n }"

text \<open>
  Result: the Boolean, the page, the old row as read before the update. Positions \<open>GetData() + p + q - r\<close> are pointer
  arithmetic and do not wrap; a position before the page would be undefined.
\<close>

definition TP_UpdateTuple :: "schema \<Rightarrow> buffer \<Rightarrow> row \<Rightarrow> row \<Rightarrow> (bool \<times> buffer \<times> row) option" where
  "TP_UpdateTuple schema d new_row old_row = do {
     ensure (RowId_Get (row_rid old_row) \<noteq> RowId_Get INVALID_ROWID);
     serialized_size \<leftarrow> Row_GetSerializedSize schema new_row;
     ensure (serialized_size > 0);
     let slot_num = unat (rid_slot (row_rid old_row));
     n \<leftarrow> GetTupleCount d;
     if slot_num \<ge> unat n then Some (False, d, old_row)
     else do {
       tuple_size \<leftarrow> GetTupleSize d slot_num;
       if IsDeleted tuple_size then Some (False, d, old_row)
       else do {
         rem \<leftarrow> GetFreeSpaceRemaining d;
         if unat (rem + tuple_size) < serialized_size then Some (False, d, old_row)
         else do {
           tuple_offset \<leftarrow> GetTupleOffsetAtSlot d slot_num;
           (old_row, read_bytes) \<leftarrow> Row_DeserializeFrom schema old_row d (unat tuple_offset);
           ensure (unat tuple_size = read_bytes);
           free_space_pointer \<leftarrow> GetFreeSpacePointer d;
           ensure (tuple_offset \<ge> free_space_pointer);
           ensure (serialized_size \<le> unat free_space_pointer + unat tuple_size);
           d \<leftarrow> mem_move d (unat free_space_pointer + unat tuple_size - serialized_size) (unat free_space_pointer)
             (unat (tuple_offset - free_space_pointer));
           d \<leftarrow> SetFreeSpacePointer d (free_space_pointer + tuple_size - of_nat serialized_size);
           (d, _) \<leftarrow> Row_SerializeTo schema new_row d (unat tuple_offset + unat tuple_size - serialized_size);
           d \<leftarrow> SetTupleSize d slot_num (of_nat serialized_size);
           d \<leftarrow> shift_offsets (\<lambda>o_i. o_i < tuple_offset + tuple_size) (tuple_size - of_nat serialized_size) d 0 (unat n);
           Some (True, d, old_row) } } } }"

definition TP_ApplyDelete :: "buffer \<Rightarrow> rowid \<Rightarrow> buffer option" where
  "TP_ApplyDelete d rid = do {
     let slot_num = unat (rid_slot rid);
     n \<leftarrow> GetTupleCount d;
     ensure (slot_num < unat n);
     tuple_offset \<leftarrow> GetTupleOffsetAtSlot d slot_num;
     tuple_size \<leftarrow> GetTupleSize d slot_num;
     let tuple_size = (if IsDeleted tuple_size then UnsetDeletedFlag tuple_size else tuple_size);
     free_space_pointer \<leftarrow> GetFreeSpacePointer d;
     ensure (tuple_offset \<ge> free_space_pointer);
     d \<leftarrow> mem_move d (unat free_space_pointer + unat tuple_size) (unat free_space_pointer) (unat (tuple_offset - free_space_pointer));
     d \<leftarrow> SetFreeSpacePointer d (free_space_pointer + tuple_size);
     d \<leftarrow> SetTupleSize d slot_num 0;
     d \<leftarrow> SetTupleOffsetAtSlot d slot_num 0;
     shift_offsets (\<lambda>o_i. o_i < tuple_offset) tuple_size d 0 (unat n) }"

definition TP_RollbackDelete :: "buffer \<Rightarrow> rowid \<Rightarrow> buffer option" where
  "TP_RollbackDelete d rid = do {
     let slot_num = unat (rid_slot rid);
     n \<leftarrow> GetTupleCount d;
     ensure (slot_num < unat n);
     tuple_size \<leftarrow> GetTupleSize d slot_num;
     if IsDeleted tuple_size then SetTupleSize d slot_num (UnsetDeletedFlag tuple_size) else Some d }"

definition TP_GetTuple :: "schema \<Rightarrow> buffer \<Rightarrow> row \<Rightarrow> (bool \<times> row) option" where
  "TP_GetTuple schema d row = do {
     ensure (RowId_Get (row_rid row) \<noteq> RowId_Get INVALID_ROWID);
     let slot_num = unat (rid_slot (row_rid row));
     n \<leftarrow> GetTupleCount d;
     if slot_num \<ge> unat n then Some (False, row)
     else do {
       tuple_size \<leftarrow> GetTupleSize d slot_num;
       if IsDeleted tuple_size then Some (False, row)
       else do {
         tuple_offset \<leftarrow> GetTupleOffsetAtSlot d slot_num;
         (row, read_bytes) \<leftarrow> Row_DeserializeFrom schema row d (unat tuple_offset);
         ensure (unat tuple_size = read_bytes);
         Some (True, row) } } }"

fun next_live :: "buffer \<Rightarrow> nat \<Rightarrow> nat \<Rightarrow> nat option option" where
  "next_live d i 0 = Some None"
| "next_live d i (Suc n) = do { s \<leftarrow> GetTupleSize d i; if \<not> IsDeleted s then Some (Some i) else next_live d (Suc i) n }"

definition GetFirstTupleRid :: "buffer \<Rightarrow> (bool \<times> rowid) option" where
  "GetFirstTupleRid d = do {
     n \<leftarrow> GetTupleCount d;
     r \<leftarrow> next_live d 0 (unat n);
     case r of
       Some i \<Rightarrow> do { pid \<leftarrow> GetTablePageId d; Some (True, \<lparr>rid_page = pid, rid_slot = of_nat i\<rparr>) }
     | None \<Rightarrow> Some (False, \<lparr>rid_page = INVALID_PAGE_ID, rid_slot = 0\<rparr>) }"

definition GetNextTupleRid :: "buffer \<Rightarrow> rowid \<Rightarrow> (bool \<times> rowid) option" where
  "GetNextTupleRid d cur_rid = do {
     pid \<leftarrow> GetTablePageId d;
     ensure (rid_page cur_rid = pid);
     n \<leftarrow> GetTupleCount d;
     let start = unat (rid_slot cur_rid + 1);
     r \<leftarrow> next_live d start (unat n - start);
     case r of
       Some i \<Rightarrow> Some (True, \<lparr>rid_page = pid, rid_slot = of_nat i\<rparr>)
     | None \<Rightarrow> Some (False, \<lparr>rid_page = INVALID_PAGE_ID, rid_slot = 0\<rparr>) }"

section \<open>Views of the page\<close>

definition tp_pid :: "buffer \<Rightarrow> u32" where "tp_pid d = u32_at d 0"
definition tp_fsp :: "buffer \<Rightarrow> u32" where "tp_fsp d = u32_at d 16"
definition tp_cnt :: "buffer \<Rightarrow> u32" where "tp_cnt d = u32_at d 20"
definition tp_off :: "buffer \<Rightarrow> nat \<Rightarrow> u32" where "tp_off d i = u32_at d (24 + 8 * i)"
definition tp_size :: "buffer \<Rightarrow> nat \<Rightarrow> u32" where "tp_size d i = u32_at d (28 + 8 * i)"

lemmas tp_view_defs = tp_pid_def tp_fsp_def tp_cnt_def tp_off_def tp_size_def

definition tp_len :: "buffer \<Rightarrow> nat \<Rightarrow> nat" where "tp_len d i = unat (UnsetDeletedFlag (tp_size d i))"

text \<open>The bytes of tuple \<open>i\<close>.\<close>

definition tp_bytes :: "buffer \<Rightarrow> nat \<Rightarrow> byte list" where
  "tp_bytes d i = slice d (unat (tp_off d i)) (tp_len d i)"

text \<open>Slots \<open>0..<n\<close> lie inside the page.\<close>

definition slots_fit :: "buffer \<Rightarrow> nat \<Rightarrow> bool" where
  "slots_fit d n \<longleftrightarrow> length d = PAGE_SIZE \<and> 24 + 8 * n \<le> PAGE_SIZE"

lemma slots_fitD: "slots_fit d n \<Longrightarrow> i < n \<Longrightarrow> 32 + 8 * i \<le> length d"
  by (simp add: slots_fit_def)

lemma tp_getters:
  assumes "length d = PAGE_SIZE"
  shows "GetTablePageId d = Some (sint (tp_pid d))" "GetFreeSpacePointer d = Some (tp_fsp d)"
    "GetTupleCount d = Some (tp_cnt d)"
    "32 + 8 * i \<le> PAGE_SIZE \<Longrightarrow> GetTupleOffsetAtSlot d i = Some (tp_off d i)"
    "32 + 8 * i \<le> PAGE_SIZE \<Longrightarrow> GetTupleSize d i = Some (tp_size d i)"
  using assms
  by (simp_all add: GetTablePageId_def GetFreeSpacePointer_def GetTupleCount_def GetTupleOffsetAtSlot_def
      GetTupleSize_def tp_view_defs get_u32_at SIZE_TUPLE_def PAGE_SIZE_def)

lemma tp_setters:
  assumes "length d = PAGE_SIZE"
  shows "SetFreeSpacePointer d w = Some (splice d 16 (u32_bytes w))" "SetTupleCount d w = Some (splice d 20 (u32_bytes w))"
    "32 + 8 * i \<le> PAGE_SIZE \<Longrightarrow> SetTupleOffsetAtSlot d i w = Some (splice d (24 + 8 * i) (u32_bytes w))"
    "32 + 8 * i \<le> PAGE_SIZE \<Longrightarrow> SetTupleSize d i w = Some (splice d (28 + 8 * i) (u32_bytes w))"
  using assms
  by (simp_all add: SetFreeSpacePointer_def SetTupleCount_def SetTupleOffsetAtSlot_def SetTupleSize_def
      put_u32_at SIZE_TUPLE_def PAGE_SIZE_def)

text \<open>Views after a write to one header field or slot field.\<close>

lemma view_set_fsp:
  assumes "length d = PAGE_SIZE"
  shows "tp_pid (splice d 16 (u32_bytes w)) = tp_pid d" "tp_fsp (splice d 16 (u32_bytes w)) = w"
    "tp_cnt (splice d 16 (u32_bytes w)) = tp_cnt d" "tp_off (splice d 16 (u32_bytes w)) i = tp_off d i"
    "tp_size (splice d 16 (u32_bytes w)) i = tp_size d i" "length (splice d 16 (u32_bytes w)) = PAGE_SIZE"
  using assms by (simp_all add: tp_view_defs u32_at_splice_same u32_at_splice_other PAGE_SIZE_def)

lemma view_set_cnt:
  assumes "length d = PAGE_SIZE"
  shows "tp_pid (splice d 20 (u32_bytes w)) = tp_pid d" "tp_fsp (splice d 20 (u32_bytes w)) = tp_fsp d"
    "tp_cnt (splice d 20 (u32_bytes w)) = w" "tp_off (splice d 20 (u32_bytes w)) i = tp_off d i"
    "tp_size (splice d 20 (u32_bytes w)) i = tp_size d i" "length (splice d 20 (u32_bytes w)) = PAGE_SIZE"
  using assms by (simp_all add: tp_view_defs u32_at_splice_same u32_at_splice_other PAGE_SIZE_def)

lemma view_set_off:
  assumes "length d = PAGE_SIZE" "32 + 8 * k \<le> PAGE_SIZE"
  shows "tp_pid (splice d (24 + 8 * k) (u32_bytes w)) = tp_pid d" "tp_fsp (splice d (24 + 8 * k) (u32_bytes w)) = tp_fsp d"
    "tp_cnt (splice d (24 + 8 * k) (u32_bytes w)) = tp_cnt d"
    "tp_off (splice d (24 + 8 * k) (u32_bytes w)) i = (if i = k then w else tp_off d i)"
    "tp_size (splice d (24 + 8 * k) (u32_bytes w)) i = tp_size d i"
    "length (splice d (24 + 8 * k) (u32_bytes w)) = PAGE_SIZE"
proof -
  show "tp_off (splice d (24 + 8 * k) (u32_bytes w)) i = (if i = k then w else tp_off d i)"
  proof (cases "i = k")
    case False
    then have "24 + 8 * i + 4 \<le> 24 + 8 * k \<or> 24 + 8 * k + 4 \<le> 24 + 8 * i" by arith
    with False assms show ?thesis by (simp add: tp_view_defs u32_at_splice_other)
  qed (use assms in \<open>simp add: tp_view_defs u32_at_splice_same\<close>)
  have "28 + 8 * i + 4 \<le> 24 + 8 * k \<or> 24 + 8 * k + 4 \<le> 28 + 8 * i" by arith
  then show "tp_size (splice d (24 + 8 * k) (u32_bytes w)) i = tp_size d i"
    using assms by (simp add: tp_view_defs u32_at_splice_other)
qed (use assms in \<open>simp_all add: tp_view_defs u32_at_splice_other\<close>)

lemma view_set_size:
  assumes "length d = PAGE_SIZE" "32 + 8 * k \<le> PAGE_SIZE"
  shows "tp_pid (splice d (28 + 8 * k) (u32_bytes w)) = tp_pid d" "tp_fsp (splice d (28 + 8 * k) (u32_bytes w)) = tp_fsp d"
    "tp_cnt (splice d (28 + 8 * k) (u32_bytes w)) = tp_cnt d"
    "tp_off (splice d (28 + 8 * k) (u32_bytes w)) i = tp_off d i"
    "tp_size (splice d (28 + 8 * k) (u32_bytes w)) i = (if i = k then w else tp_size d i)"
    "length (splice d (28 + 8 * k) (u32_bytes w)) = PAGE_SIZE"
proof -
  show "tp_size (splice d (28 + 8 * k) (u32_bytes w)) i = (if i = k then w else tp_size d i)"
  proof (cases "i = k")
    case False
    then have "28 + 8 * i + 4 \<le> 28 + 8 * k \<or> 28 + 8 * k + 4 \<le> 28 + 8 * i" by arith
    with False assms show ?thesis by (simp add: tp_view_defs u32_at_splice_other)
  qed (use assms in \<open>simp add: tp_view_defs u32_at_splice_same\<close>)
  have "24 + 8 * i + 4 \<le> 28 + 8 * k \<or> 28 + 8 * k + 4 \<le> 24 + 8 * i" by arith
  then show "tp_off (splice d (28 + 8 * k) (u32_bytes w)) i = tp_off d i"
    using assms by (simp add: tp_view_defs u32_at_splice_other)
qed (use assms in \<open>simp_all add: tp_view_defs u32_at_splice_other\<close>)

text \<open>A write at or above \<open>lo\<close> leaves the header and the slots below \<open>lo\<close> alone.\<close>

lemma view_write_above:
  assumes "length d = PAGE_SIZE" "lo + length xs \<le> PAGE_SIZE" "24 \<le> lo"
  shows "tp_pid (splice d lo xs) = tp_pid d" "tp_fsp (splice d lo xs) = tp_fsp d" "tp_cnt (splice d lo xs) = tp_cnt d"
    "32 + 8 * i \<le> lo \<Longrightarrow> tp_off (splice d lo xs) i = tp_off d i"
    "32 + 8 * i \<le> lo \<Longrightarrow> tp_size (splice d lo xs) i = tp_size d i"
    "length (splice d lo xs) = PAGE_SIZE"
  using assms by (simp_all add: tp_view_defs u32_at_def slice_splice_other)

lemmas tp_simps = tp_getters tp_setters view_set_fsp view_set_cnt view_set_off view_set_size view_write_above

section \<open>Invariant\<close>

definition tp_inv :: "buffer \<Rightarrow> bool" where
  "tp_inv d \<longleftrightarrow> length d = PAGE_SIZE \<and> 24 + 8 * unat (tp_cnt d) \<le> unat (tp_fsp d) \<and> unat (tp_fsp d) \<le> PAGE_SIZE \<and>
     (\<forall>i < unat (tp_cnt d). tp_size d i \<noteq> 0 \<longrightarrow>
        0 < tp_len d i \<and> unat (tp_fsp d) \<le> unat (tp_off d i) \<and> unat (tp_off d i) + tp_len d i \<le> PAGE_SIZE) \<and>
     (\<forall>i < unat (tp_cnt d). \<forall>j < unat (tp_cnt d). i \<noteq> j \<longrightarrow> tp_size d i \<noteq> 0 \<longrightarrow> tp_size d j \<noteq> 0 \<longrightarrow>
        unat (tp_off d i) + tp_len d i \<le> unat (tp_off d j) \<or> unat (tp_off d j) + tp_len d j \<le> unat (tp_off d i))"

declare tp_inv_def [inv_defs]

lemma tp_invD:
  assumes "tp_inv d"
  shows "length d = PAGE_SIZE" "24 + 8 * unat (tp_cnt d) \<le> unat (tp_fsp d)" "unat (tp_fsp d) \<le> PAGE_SIZE"
    "\<And>i. i < unat (tp_cnt d) \<Longrightarrow> tp_size d i \<noteq> 0 \<Longrightarrow>
       0 < tp_len d i \<and> unat (tp_fsp d) \<le> unat (tp_off d i) \<and> unat (tp_off d i) + tp_len d i \<le> PAGE_SIZE"
    "\<And>i j. i < unat (tp_cnt d) \<Longrightarrow> j < unat (tp_cnt d) \<Longrightarrow> i \<noteq> j \<Longrightarrow> tp_size d i \<noteq> 0 \<Longrightarrow> tp_size d j \<noteq> 0 \<Longrightarrow>
       unat (tp_off d i) + tp_len d i \<le> unat (tp_off d j) \<or> unat (tp_off d j) + tp_len d j \<le> unat (tp_off d i)"
    "\<And>i. i < unat (tp_cnt d) \<Longrightarrow> 32 + 8 * i \<le> PAGE_SIZE"
  using assms by (auto simp: tp_inv_def)

lemma tp_remaining:
  assumes "tp_inv d"
  shows "GetFreeSpaceRemaining d = Some (of_nat (unat (tp_fsp d) - 24 - 8 * unat (tp_cnt d)))"
    "unat (tp_fsp d - 24 - 8 * tp_cnt d) = unat (tp_fsp d) - 24 - 8 * unat (tp_cnt d)"
proof -
  note D = tp_invD [OF assms]
  have "tp_fsp d - 24 - 8 * tp_cnt d = of_nat (unat (tp_fsp d) - 24 - 8 * unat (tp_cnt d))"
    using D(2) by (simp add: of_nat_diff)
  then show "GetFreeSpaceRemaining d = Some (of_nat (unat (tp_fsp d) - 24 - 8 * unat (tp_cnt d)))"
    "unat (tp_fsp d - 24 - 8 * tp_cnt d) = unat (tp_fsp d) - 24 - 8 * unat (tp_cnt d)"
    using D(1,3) by (simp_all add: GetFreeSpaceRemaining_def tp_getters SIZE_TABLE_PAGE_HEADER_def SIZE_TUPLE_def
        unat_of_nat_u32 PAGE_SIZE_def)
qed

section \<open>The deletion flag\<close>

lemma IsDeleted_iff: "IsDeleted s \<longleftrightarrow> bit s 31 \<or> s = 0"
  by (simp add: IsDeleted_def DELETE_MASK_def bit_iff_and_push_bit_not_eq_0)

lemma bit_DELETE_MASK: "bit DELETE_MASK n \<longleftrightarrow> n = 31"
  unfolding DELETE_MASK_def bit_push_bit_iff by (auto simp: bit_1_iff)

lemma bit_Unset: "bit (UnsetDeletedFlag s) n \<longleftrightarrow> bit s n \<and> n \<noteq> 31"
  by (auto simp: UnsetDeletedFlag_def bit_and_iff bit_not_iff bit_DELETE_MASK dest: bit_imp_le_length)

lemma bit_Set: "bit (SetDeletedFlag s) n \<longleftrightarrow> bit s n \<or> n = 31"
  by (auto simp: SetDeletedFlag_def bit_or_iff bit_DELETE_MASK)

lemma Unset_live: "\<not> bit s 31 \<Longrightarrow> UnsetDeletedFlag s = s"
  by (rule bit_word_eqI) (auto simp: bit_Unset)

lemma Unset_Set: "\<not> bit s 31 \<Longrightarrow> UnsetDeletedFlag (SetDeletedFlag s) = s"
  by (rule bit_word_eqI) (auto simp: bit_Unset bit_Set)

lemma small_not_deleted:
  fixes s :: u32
  assumes "unat s < 2 ^ 31"
  shows "\<not> bit s 31"
proof -
  have "bit (take_bit 31 (unat s)) 31 = False" by (simp add: bit_take_bit_iff)
  moreover have "take_bit 31 (unat s) = unat s" using assms by (simp add: take_bit_nat_eq_self)
  moreover have "bit (unat s) 31 = bit s 31" by (simp add: bit_unsigned_iff)
  ultimately show ?thesis by metis
qed

section \<open>Insertion\<close>

lemma free_slot_ok:
  "length d = PAGE_SIZE \<Longrightarrow> 24 + 8 * (i + n) \<le> PAGE_SIZE \<Longrightarrow>
   \<exists>k. free_slot d i n = Some k \<and> i \<le> k \<and> k \<le> i + n \<and> (k < i + n \<longrightarrow> tp_size d k = 0) \<and> (\<forall>j. i \<le> j \<and> j < k \<longrightarrow> tp_size d j \<noteq> 0)"
proof (induction n arbitrary: i)
  case 0
  then show ?case by auto
next
  case (Suc n)
  show ?case
  proof (cases "tp_size d i = 0")
    case True
    with Suc.prems show ?thesis by (intro exI [of _ i]) (auto simp: tp_getters)
  next
    case False
    obtain k where k: "free_slot d (Suc i) n = Some k" "Suc i \<le> k" "k \<le> Suc i + n" "k < Suc i + n \<longrightarrow> tp_size d k = 0"
      "\<forall>j. Suc i \<le> j \<and> j < k \<longrightarrow> tp_size d j \<noteq> 0"
      using Suc.IH [of "Suc i"] Suc.prems by auto
    have "tp_size d j \<noteq> 0" if "i \<le> j" "j < k" for j using that k(5) False by (cases "j = i") auto
    with k False Suc.prems show ?thesis by (intro exI [of _ k]) (simp add: tp_getters)
  qed
qed

lemma tp_len_small: "tp_size d i = of_nat n \<Longrightarrow> n < 2 ^ 31 \<Longrightarrow> tp_len d i = n"
  using small_not_deleted [of "of_nat n"] by (simp add: tp_len_def Unset_live)

lemma row_size_pos: "row_ok schema rid r \<Longrightarrow> Row_GetSerializedSize schema r = Some n \<Longrightarrow> 0 < n"
  using row_codec.size_encode [of schema rid r] by (auto simp: row_encode_def)

text \<open>A slot that is new or was empty, with a tuple of \<open>n\<close> bytes just below the others.\<close>

lemma tp_inv_add:
  assumes inv: "tp_inv d" and page: "length d' = PAGE_SIZE" and k: "k \<le> unat (tp_cnt d)"
    and cnt: "unat (tp_cnt d') = (if k = unat (tp_cnt d) then Suc k else unat (tp_cnt d))"
    and n: "0 < n" "n + 8 + 24 + 8 * unat (tp_cnt d) \<le> unat (tp_fsp d)" "unat (tp_fsp d) \<le> 4096" and fsp: "unat (tp_fsp d') = unat (tp_fsp d) - n"
    and new: "unat (tp_off d' k) = unat (tp_fsp d) - n" "tp_len d' k = n"
    and old: "\<And>j. j < unat (tp_cnt d) \<Longrightarrow> j \<noteq> k \<Longrightarrow> tp_off d' j = tp_off d j \<and> tp_len d' j = tp_len d j \<and> tp_size d' j = tp_size d j"
  shows "tp_inv d'"
proof -
  note D = tp_invD [OF inv]
  have idx: "j < unat (tp_cnt d) \<or> j = k" if "j < unat (tp_cnt d')" for j using that cnt by (auto split: if_splits)
  have ranges: "0 < tp_len d' j \<and> unat (tp_fsp d') \<le> unat (tp_off d' j) \<and> unat (tp_off d' j) + tp_len d' j \<le> PAGE_SIZE"
    if "j < unat (tp_cnt d')" "tp_size d' j \<noteq> 0" for j
  proof (cases "j = k")
    case True
    then show ?thesis using new n fsp by (simp add: PAGE_SIZE_def)
  next
    case False
    then have j: "j < unat (tp_cnt d)" using idx [OF that(1)] by simp
    with that(2) False old [of j] D(4) [of j] fsp show ?thesis by auto
  qed
  have low: "unat (tp_off d' k) + tp_len d' k \<le> unat (tp_off d' x)" if "x < unat (tp_cnt d)" "x \<noteq> k" "tp_size d' x \<noteq> 0" for x
    using that old [of x] new D(4) [of x] n by auto
  have disj: "unat (tp_off d' i) + tp_len d' i \<le> unat (tp_off d' j) \<or> unat (tp_off d' j) + tp_len d' j \<le> unat (tp_off d' i)"
    if "i < unat (tp_cnt d')" "j < unat (tp_cnt d')" "i \<noteq> j" "tp_size d' i \<noteq> 0" "tp_size d' j \<noteq> 0" for i j
    using low [of i] low [of j] D(5) [of i j] that idx [OF that(1)] idx [OF that(2)] old [of i] old [of j]
    by (cases "i = k"; cases "j = k") auto
  show ?thesis unfolding tp_inv_def using page cnt fsp n ranges disj k by (auto simp: PAGE_SIZE_def)
qed

lemma TP_InsertTuple_ok:
  assumes inv: "tp_inv d" and r: "row_ok schema rid r" and sz: "Row_GetSerializedSize schema r = Some n"
    and fit: "n + 8 \<le> unat (tp_fsp d) - 24 - 8 * unat (tp_cnt d)"
  obtains k d' where "TP_InsertTuple schema d r = Some (True, d', r\<lparr>row_rid := \<lparr>rid_page = sint (tp_pid d), rid_slot = of_nat k\<rparr>\<rparr>)"
    "tp_inv d'" "k \<le> unat (tp_cnt d)" "k < unat (tp_cnt d) \<Longrightarrow> tp_size d k = 0"
    "unat (tp_cnt d') = (if k = unat (tp_cnt d) then Suc k else unat (tp_cnt d))"
    "tp_bytes d' k = row_encode r" "tp_size d' k = of_nat n" "tp_len d' k = n" "tp_pid d' = tp_pid d"
    "\<And>j. j < unat (tp_cnt d) \<Longrightarrow> j \<noteq> k \<Longrightarrow> tp_size d' j = tp_size d j \<and> (tp_size d j \<noteq> 0 \<longrightarrow> tp_bytes d' j = tp_bytes d j)"
    "unat (tp_fsp d') = unat (tp_fsp d) - n"
proof -
  note D = tp_invD [OF inv] and rem = tp_remaining [OF inv]
  let ?c = "unat (tp_cnt d)" and ?f = "unat (tp_fsp d)"
  have enc: "length (row_encode r) = n" using row_codec.size_encode [OF r] sz by simp
  have n0: "0 < n" by (rule row_size_pos [OF r sz])
  have f: "n + 8 + 24 + 8 * ?c \<le> ?f" "?f \<le> 4096" using fit n0 D(3) by (simp_all add: PAGE_SIZE_def)
  obtain k where k: "free_slot d 0 ?c = Some k" "k \<le> ?c" "k < ?c \<longrightarrow> tp_size d k = 0"
    using free_slot_ok [OF D(1), of 0 ?c] D(2,3) by auto
  have kp: "32 + 8 * k \<le> PAGE_SIZE" "32 + 8 * k \<le> ?f - n" using f k(2) by (simp_all add: PAGE_SIZE_def)
  define p where "p = tp_fsp d - of_nat n"
  have p: "unat p = ?f - n"
    using f by (simp add: p_def unat_sub word_le_nat_alt)
  define d1 where "d1 = splice d 16 (u32_bytes p)"
  define d2 where "d2 = splice d1 (unat p) (row_encode r)"
  define d3 where "d3 = splice d2 (24 + 8 * k) (u32_bytes p)"
  define d4 where "d4 = splice d3 (28 + 8 * k) (u32_bytes (of_nat n))"
  define d5 where "d5 = (if k = ?c then splice d4 20 (u32_bytes (tp_cnt d + 1)) else d4)"
  have l1: "length d1 = PAGE_SIZE" unfolding d1_def by (rule view_set_fsp(6) [OF D(1)])
  have pb: "unat p + length (row_encode r) \<le> PAGE_SIZE" "24 \<le> unat p" using f p enc by (simp_all add: PAGE_SIZE_def)
  have l2: "length d2 = PAGE_SIZE" unfolding d2_def by (rule view_write_above(6) [OF l1 pb])
  have l3: "length d3 = PAGE_SIZE" unfolding d3_def by (rule view_set_off(6) [OF l2 kp(1)])
  have l4: "length d4 = PAGE_SIZE" unfolding d4_def by (rule view_set_size(6) [OF l3 kp(1)])
  have l5: "length d5 = PAGE_SIZE" using l4 view_set_cnt(6) [OF l4] by (simp add: d5_def)
  note W = view_set_fsp [OF D(1), of p, folded d1_def] view_write_above [OF l1 pb, folded d2_def]
    view_set_off [OF l2 kp(1), of p, folded d3_def] view_set_size [OF l3 kp(1), of "of_nat n", folded d4_def]
    view_set_cnt [OF l4]
  have view: "tp_fsp d5 = p" "tp_cnt d5 = (if k = ?c then tp_cnt d + 1 else tp_cnt d)" "tp_pid d5 = tp_pid d"
    "\<And>j. j < ?c \<or> j = k \<Longrightarrow> tp_off d5 j = (if j = k then p else tp_off d j) \<and> tp_size d5 j = (if j = k then of_nat n else tp_size d j)"
  proof -
    show "tp_fsp d5 = p" "tp_cnt d5 = (if k = ?c then tp_cnt d + 1 else tp_cnt d)" "tp_pid d5 = tp_pid d"
      by (simp_all add: d5_def W)
    fix j assume "j < ?c \<or> j = k"
    then have "32 + 8 * j \<le> unat p" using f k(2) p by auto
    then show "tp_off d5 j = (if j = k then p else tp_off d j) \<and> tp_size d5 j = (if j = k then of_nat n else tp_size d j)"
      by (simp add: d5_def W)
  qed
  have cnt: "unat (tp_cnt d5) = (if k = ?c then Suc k else ?c)"
    unfolding view(2) using f by (auto simp: unat_plus_one_u32)
  obtain w where w: "GetFreeSpaceRemaining d = Some w" "\<not> unat w < n + 8"
  proof (rule that [OF rem(1)])
    have "n + 8 \<le> m \<Longrightarrow> m \<le> 4096 \<Longrightarrow> \<not> unat (word_of_nat m :: u32) < n + 8" for m by (simp add: unat_of_nat_u32)
    from this [OF fit] show "\<not> unat (word_of_nat (?f - 24 - 8 * ?c) :: u32) < n + 8" using f(2) by fastforce
  qed
  have put: "Row_SerializeTo schema r d1 (unat p) = Some (d2, n)"
    using row_codec.put_encode [OF r, of "unat p" d1] pb l1 enc by (simp add: d2_def)
  have run: "TP_InsertTuple schema d r = Some (True, d5, r\<lparr>row_rid := \<lparr>rid_page = sint (tp_pid d), rid_slot = of_nat k\<rparr>\<rparr>)"
    using k w n0 sz put D(1) l1 l2 l3 l4 kp(1)
    by (simp add: TP_InsertTuple_def ensure_def tp_getters tp_setters W d5_def SIZE_TUPLE_def
        flip: p_def d1_def d2_def d3_def d4_def)
  have above: "slice d5 x m = slice d x m" if "?f \<le> x" for x m
  proof -
    have x: "28 + 8 * k + 4 \<le> x" "unat p + length (row_encode r) \<le> x" "24 \<le> x"
      using that kp(2) f p enc by linarith+
    have "slice d4 x m = slice d x m"
      using x D(1) l1 l2 l3 pb kp(1) by (simp add: d4_def d3_def d2_def d1_def slice_splice_other)
    then show ?thesis using x(3) l4 by (simp add: d5_def slice_splice_other PAGE_SIZE_def)
  qed
  have len: "tp_len d5 j = (if j = k then n else tp_len d j)" if "j < ?c \<or> j = k" for j
    using view(4) [OF that] f tp_len_small [of d5 k n] by (auto simp: tp_len_def)
  have "slice d5 (unat p) n = row_encode r"
    using l1 l2 l3 l4 pb kp p enc by (simp add: d5_def d4_def d3_def slice_splice_other) (simp add: d2_def slice_splice_same)
  then have bytes: "tp_bytes d5 k = row_encode r"
    using view(4) [of k] len [of k] by (simp add: tp_bytes_def)
  have other: "tp_size d5 j = tp_size d j \<and> (tp_size d j \<noteq> 0 \<longrightarrow> tp_bytes d5 j = tp_bytes d j)" if "j < ?c" "j \<noteq> k" for j
    using view(4) [of j] len [of j] that above D(4) [of j] by (auto simp: tp_bytes_def)
  have "tp_inv d5"
  proof (rule tp_inv_add [OF inv l5 k(2) cnt n0])
    show "tp_off d5 j = tp_off d j \<and> tp_len d5 j = tp_len d j \<and> tp_size d5 j = tp_size d j" if "j < ?c" "j \<noteq> k" for j
      using view(4) [of j] len [of j] that by simp
  qed (use f view(1) view(4) [of k] p len [of k] in auto)
  then show thesis
    by (rule that [OF run]) (use k cnt bytes view(3) view(4) [of k] len [of k] other view(1) p in auto)
qed

section \<open>Reading a tuple, marking and unmarking deletion\<close>

lemma tp_live: "tp_size d k \<noteq> 0 \<Longrightarrow> \<not> IsDeleted (tp_size d k) \<Longrightarrow> tp_len d k = unat (tp_size d k)"
  by (simp add: tp_len_def IsDeleted_iff Unset_live)

lemma TP_GetTuple_ok:
  assumes inv: "tp_inv d" and k: "unat (rid_slot rid) < unat (tp_cnt d)" "\<not> IsDeleted (tp_size d (unat (rid_slot rid)))"
    and r: "row_ok schema rid r" "tp_bytes d (unat (rid_slot rid)) = row_encode r" and rid: "RowId_Get rid \<noteq> RowId_Get INVALID_ROWID"
  shows "TP_GetTuple schema d \<lparr>row_rid = rid, row_fields = []\<rparr> = Some (True, r)"
proof -
  note D = tp_invD [OF inv]
  let ?k = "unat (rid_slot rid)"
  have nz: "tp_size d ?k \<noteq> 0" using k(2) by (auto simp: IsDeleted_iff)
  note R = D(4) [OF k(1) nz] and len = tp_live [OF nz k(2)]
  have l: "length (row_encode r) = tp_len d ?k"
    using R D(1) by (simp flip: r(2) add: tp_bytes_def)
  have "Row_DeserializeFrom schema \<lparr>row_rid = rid, row_fields = []\<rparr> d (unat (tp_off d ?k)) = Some (r, tp_len d ?k)"
    using row_codec.get_encode [OF r(1), of "unat (tp_off d ?k)" d] R D(1) l r(2) by (simp add: tp_bytes_def)
  with k rid D(1) D(6) [OF k(1)] len show ?thesis
    by (simp add: TP_GetTuple_def ensure_def tp_getters)
qed

lemma tp_inv_set_size:
  assumes inv: "tp_inv d" and k: "k < unat (tp_cnt d)" "tp_size d k \<noteq> 0" and w: "UnsetDeletedFlag w = UnsetDeletedFlag (tp_size d k)"
    and d': "d' = splice d (28 + 8 * k) (u32_bytes w)"
  shows "tp_inv d'" "tp_size d' j = (if j = k then w else tp_size d j)" "j < unat (tp_cnt d) \<Longrightarrow> tp_size d j \<noteq> 0 \<Longrightarrow> tp_bytes d' j = tp_bytes d j"
    "tp_cnt d' = tp_cnt d" "tp_fsp d' = tp_fsp d" "tp_pid d' = tp_pid d"
proof -
  note D = tp_invD [OF inv]
  note V = view_set_size [OF D(1) D(6) [OF k(1)], of w, folded d']
  have len: "tp_len d' i = tp_len d i" for i using w by (simp add: tp_len_def V)
  have nz: "w \<noteq> 0"
    using D(4) [OF k] w by (auto simp: tp_len_def UnsetDeletedFlag_def)
  then have zero: "tp_size d' i = 0 \<longleftrightarrow> tp_size d i = 0" for i using k(2) by (simp add: V)
  show "tp_inv d'"
    using inv unfolding tp_inv_def zero len by (simp add: V)
  show "tp_size d' j = (if j = k then w else tp_size d j)" "tp_cnt d' = tp_cnt d" "tp_fsp d' = tp_fsp d" "tp_pid d' = tp_pid d"
    by (simp_all add: V)
  assume j: "j < unat (tp_cnt d)" "tp_size d j \<noteq> 0"
  have "28 + 8 * k + 4 \<le> unat (tp_off d j)" using D(2) D(4) [OF j] k(1) by linarith
  then show "tp_bytes d' j = tp_bytes d j"
    using D(1) D(6) [OF k(1)] by (simp add: tp_bytes_def len V) (simp add: d' slice_splice_other)
qed

section \<open>Moving tuples\<close>

lemma shift_offsets_ok:
  "length d = PAGE_SIZE \<Longrightarrow> 24 + 8 * (i + n) \<le> PAGE_SIZE \<Longrightarrow>
   \<exists>d'. shift_offsets moved delta d i n = Some d' \<and> length d' = PAGE_SIZE \<and> tp_fsp d' = tp_fsp d \<and> tp_cnt d' = tp_cnt d \<and>
     tp_pid d' = tp_pid d \<and> (\<forall>j. tp_size d' j = tp_size d j) \<and>
     (\<forall>j. tp_off d' j = (if i \<le> j \<and> j < i + n \<and> tp_size d j \<noteq> 0 \<and> moved (tp_off d j) then tp_off d j + delta else tp_off d j)) \<and>
     (\<forall>x m. 24 + 8 * (i + n) \<le> x \<longrightarrow> slice d' x m = slice d x m)"
proof (induction n arbitrary: i d)
  case 0
  then show ?case by auto
next
  case (Suc n)
  define d1 where "d1 = (if tp_size d i \<noteq> 0 \<and> moved (tp_off d i) then splice d (24 + 8 * i) (u32_bytes (tp_off d i + delta)) else d)"
  have i: "32 + 8 * i \<le> PAGE_SIZE" using Suc.prems(2) by simp
  note V = view_set_off [OF Suc.prems(1) i, of "tp_off d i + delta"]
  have v: "length d1 = PAGE_SIZE" "tp_fsp d1 = tp_fsp d" "tp_cnt d1 = tp_cnt d" "tp_pid d1 = tp_pid d" "\<And>j. tp_size d1 j = tp_size d j"
    "\<And>j. tp_off d1 j = (if j = i \<and> tp_size d i \<noteq> 0 \<and> moved (tp_off d i) then tp_off d i + delta else tp_off d j)"
    using Suc.prems(1) by (auto simp: d1_def V)
  have sl: "slice d1 x m = slice d x m" if "32 + 8 * i \<le> x" for x m
    using that i Suc.prems(1) by (simp add: d1_def slice_splice_other)
  obtain d' where d': "shift_offsets moved delta d1 (Suc i) n = Some d'" "length d' = PAGE_SIZE" "tp_fsp d' = tp_fsp d" "tp_cnt d' = tp_cnt d"
    "tp_pid d' = tp_pid d" "\<forall>j. tp_size d' j = tp_size d j"
    "\<forall>j. tp_off d' j = (if Suc i \<le> j \<and> j < Suc i + n \<and> tp_size d1 j \<noteq> 0 \<and> moved (tp_off d1 j) then tp_off d1 j + delta else tp_off d1 j)"
    "\<forall>x m. 24 + 8 * (Suc i + n) \<le> x \<longrightarrow> slice d' x m = slice d1 x m"
    using Suc.IH [of d1 "Suc i"] v Suc.prems(2) by auto
  have run: "shift_offsets moved delta d i (Suc n) = Some d'"
    using d'(1) Suc.prems(1) i by (auto simp: tp_getters tp_setters d1_def split: if_splits)
  have off: "tp_off d' j = (if i \<le> j \<and> j < i + Suc n \<and> tp_size d j \<noteq> 0 \<and> moved (tp_off d j) then tp_off d j + delta else tp_off d j)" for j
    using d'(7) v(5,6) by (cases "j = i") (auto simp: less_Suc_eq_le Suc_le_eq)
  show ?case
    by (rule exI [of _ d']) (use run d' off sl in auto)
qed

lemma mem_move_ok:
  assumes "src + n \<le> length d" "dst + n \<le> length d"
  obtains d' where "mem_move d dst src n = Some d'" "length d' = length d"
    "\<And>x m. src \<le> x \<Longrightarrow> x + m \<le> src + n \<Longrightarrow> slice d' (x - src + dst) m = slice d x m"
    "\<And>x m. x + m \<le> dst \<or> dst + n \<le> x \<Longrightarrow> slice d' x m = slice d x m"
proof
  let ?d = "splice d dst (slice d src n)"
  show "mem_move d dst src n = Some ?d" using assms by (simp add: mem_move_Some)
  show "length ?d = length d" using assms by simp
  show "slice ?d (x - src + dst) m = slice d x m" if "src \<le> x" "x + m \<le> src + n" for x m
    using that assms by (simp add: slice_splice_sub slice_slice)
  show "slice ?d x m = slice d x m" if "x + m \<le> dst \<or> dst + n \<le> x" for x m
    using that assms by (simp add: slice_splice_other)
qed

text \<open>Headers and slots are determined by the bytes below the free-space pointer.\<close>

lemma view_agree:
  assumes "\<And>x m. x + m \<le> lo \<Longrightarrow> slice d' x m = slice d x m" "24 \<le> lo"
  shows "tp_pid d' = tp_pid d" "tp_fsp d' = tp_fsp d" "tp_cnt d' = tp_cnt d"
    "32 + 8 * j \<le> lo \<Longrightarrow> tp_off d' j = tp_off d j" "32 + 8 * j \<le> lo \<Longrightarrow> tp_size d' j = tp_size d j"
  using assms by (simp_all add: tp_view_defs u32_at_def)

text \<open>
  Replacing tuple \<open>k\<close> by one of length \<open>n\<close> (0: none) and moving the tuples below it by the difference keeps
  the invariant.
\<close>

lemma tp_inv_relocate:
  assumes inv: "tp_inv d" and k: "k < unat (tp_cnt d)" "tp_size d k \<noteq> 0"
    and room: "24 + 8 * unat (tp_cnt d) + n \<le> unat (tp_fsp d) + tp_len d k"
    and d': "length d' = PAGE_SIZE" "tp_cnt d' = tp_cnt d" "unat (tp_fsp d') = unat (tp_fsp d) + tp_len d k - n"
    and other: "\<And>j. j < unat (tp_cnt d) \<Longrightarrow> j \<noteq> k \<Longrightarrow> tp_size d' j = tp_size d j"
      "\<And>j. j < unat (tp_cnt d) \<Longrightarrow> j \<noteq> k \<Longrightarrow> tp_size d j \<noteq> 0 \<Longrightarrow> unat (tp_off d' j) =
         (if unat (tp_off d j) < unat (tp_off d k) then unat (tp_off d j) + tp_len d k - n else unat (tp_off d j))"
    and this_k: "tp_size d' k \<noteq> 0 \<Longrightarrow> 0 < n \<and> tp_len d' k = n \<and> unat (tp_off d' k) = unat (tp_off d k) + tp_len d k - n"
  shows "tp_inv d'"
proof -
  note D = tp_invD [OF inv]
  note K = D(4) [OF k]
  have len: "tp_len d' j = tp_len d j" if "j < unat (tp_cnt d)" "j \<noteq> k" for j
    using other(1) [OF that] by (simp add: tp_len_def)
  have side: "unat (tp_off d j) + tp_len d j \<le> unat (tp_off d k) \<or> unat (tp_off d k) + tp_len d k \<le> unat (tp_off d j)"
    if "j < unat (tp_cnt d)" "j \<noteq> k" "tp_size d j \<noteq> 0" for j
    using D(5) [OF that(1) k(1) that(2,3) k(2)] .
  have ranges: "0 < tp_len d' j \<and> unat (tp_fsp d') \<le> unat (tp_off d' j) \<and> unat (tp_off d' j) + tp_len d' j \<le> PAGE_SIZE"
    if j: "j < unat (tp_cnt d)" "tp_size d' j \<noteq> 0" for j
  proof (cases "j = k")
    case True
    with this_k j K d'(3) room show ?thesis by auto
  next
    case False
    with other(1) j have nz: "tp_size d j \<noteq> 0" by simp
    from D(4) [OF j(1) nz] side [OF j(1) False nz] other(2) [OF j(1) False nz] len [OF j(1) False] K d'(3) room
    show ?thesis by (simp split: if_splits) linarith+
  qed
  have kj: "unat (tp_off d' j) + tp_len d' j \<le> unat (tp_off d' k) \<or> unat (tp_off d' k) + tp_len d' k \<le> unat (tp_off d' j)"
    if j: "j < unat (tp_cnt d)" "j \<noteq> k" "tp_size d' j \<noteq> 0" "tp_size d' k \<noteq> 0" for j
  proof -
    have nz: "tp_size d j \<noteq> 0" using j other(1) by simp
    from D(4) [OF j(1) nz] side [OF j(1,2) nz] other(2) [OF j(1,2) nz] len [OF j(1,2)] K room this_k [OF j(4)] D(2)
    show ?thesis by (simp split: if_splits) linarith
  qed
  have ij: "unat (tp_off d' i) + tp_len d' i \<le> unat (tp_off d' j) \<or> unat (tp_off d' j) + tp_len d' j \<le> unat (tp_off d' i)"
    if "i < unat (tp_cnt d)" "i \<noteq> k" "tp_size d' i \<noteq> 0" and "j < unat (tp_cnt d)" "j \<noteq> k" "tp_size d' j \<noteq> 0" "i \<noteq> j" for i j
  proof -
    have nz: "tp_size d i \<noteq> 0" "tp_size d j \<noteq> 0" using that other(1) by simp_all
    from D(4) [OF that(1) nz(1)] D(4) [OF that(4) nz(2)] D(5) [OF that(1,4,7) nz]
      side [OF that(1,2) nz(1)] side [OF that(4,5) nz(2)] other(2) [OF that(1,2) nz(1)] other(2) [OF that(4,5) nz(2)]
      len [OF that(1,2)] len [OF that(4,5)] K room D(2)
    show ?thesis by (simp split: if_splits) linarith+
  qed
  have disj: "unat (tp_off d' i) + tp_len d' i \<le> unat (tp_off d' j) \<or> unat (tp_off d' j) + tp_len d' j \<le> unat (tp_off d' i)"
    if "i < unat (tp_cnt d)" "j < unat (tp_cnt d)" "i \<noteq> j" "tp_size d' i \<noteq> 0" "tp_size d' j \<noteq> 0" for i j
    using kj [of i] kj [of j] ij [of i j] that by (cases "i = k"; cases "j = k") auto
  show ?thesis
    unfolding tp_inv_def d'(2) using d'(1,3) ranges disj room K by auto
qed

text \<open>
  The common core of deletion and update: close or open the gap at tuple \<open>k\<close> with \<^verbatim>\<open>memmove\<close>. The bytes of the other tuples
  are found at their new places.
\<close>

lemma close_gap:
  assumes inv: "tp_inv d" and k: "k < unat (tp_cnt d)" "tp_size d k \<noteq> 0"
    and room: "24 + 8 * unat (tp_cnt d) + n \<le> unat (tp_fsp d) + tp_len d k"
  obtains d1 where
    "mem_move d (unat (tp_fsp d) + tp_len d k - n) (unat (tp_fsp d)) (unat (tp_off d k) - unat (tp_fsp d)) = Some d1"
    "length d1 = PAGE_SIZE" "tp_pid d1 = tp_pid d" "tp_fsp d1 = tp_fsp d" "tp_cnt d1 = tp_cnt d"
    "\<And>j. j < unat (tp_cnt d) \<Longrightarrow> tp_off d1 j = tp_off d j \<and> tp_size d1 j = tp_size d j"
    "\<And>j. j < unat (tp_cnt d) \<Longrightarrow> j \<noteq> k \<Longrightarrow> tp_size d j \<noteq> 0 \<Longrightarrow>
       slice d1 (if unat (tp_off d j) < unat (tp_off d k) then unat (tp_off d j) + tp_len d k - n else unat (tp_off d j)) (tp_len d j) = tp_bytes d j"
proof -
  note D = tp_invD [OF inv]
  note K = D(4) [OF k]
  let ?f = "unat (tp_fsp d)" and ?o = "unat (tp_off d k)" and ?L = "tp_len d k"
  have b: "?f + (?o - ?f) \<le> length d" "?f + ?L - n + (?o - ?f) \<le> length d" using K room D(1) by linarith+
  obtain d1 where d1: "mem_move d (?f + ?L - n) ?f (?o - ?f) = Some d1" "length d1 = length d"
    "\<And>x m. ?f \<le> x \<Longrightarrow> x + m \<le> ?f + (?o - ?f) \<Longrightarrow> slice d1 (x - ?f + (?f + ?L - n)) m = slice d x m"
    "\<And>x m. x + m \<le> ?f + ?L - n \<or> ?f + ?L - n + (?o - ?f) \<le> x \<Longrightarrow> slice d1 x m = slice d x m"
    by (rule mem_move_ok [OF b], rule that, blast+)
  have lo: "24 \<le> ?f + ?L - n" "\<And>j. j < unat (tp_cnt d) \<Longrightarrow> 32 + 8 * j \<le> ?f + ?L - n" using room by linarith+
  note V = view_agree [of "?f + ?L - n" d1 d, OF d1(4) lo(1), OF disjI1]
  show thesis
  proof (rule that [OF d1(1)])
    show "length d1 = PAGE_SIZE" using d1(2) D(1) by simp
    show "tp_pid d1 = tp_pid d" "tp_fsp d1 = tp_fsp d" "tp_cnt d1 = tp_cnt d" by (simp_all add: V)
    show "tp_off d1 j = tp_off d j \<and> tp_size d1 j = tp_size d j" if "j < unat (tp_cnt d)" for j
      using lo(2) [OF that] by (simp add: V)
    fix j assume j: "j < unat (tp_cnt d)" "j \<noteq> k" "tp_size d j \<noteq> 0"
    note J = D(4) [OF j(1,3)] and S = D(5) [OF j(1) k(1) j(2,3) k(2)]
    show "slice d1 (if unat (tp_off d j) < ?o then unat (tp_off d j) + ?L - n else unat (tp_off d j)) (tp_len d j) = tp_bytes d j"
    proof (cases "unat (tp_off d j) < ?o")
      case True
      then have "unat (tp_off d j) + tp_len d j \<le> ?f + (?o - ?f)" "unat (tp_off d j) - ?f + (?f + ?L - n) = unat (tp_off d j) + ?L - n"
        using J S K room by linarith+
      with d1(3) [of "unat (tp_off d j)" "tp_len d j"] J True show ?thesis by (simp add: tp_bytes_def)
    next
      case False
      then have "?f + ?L - n + (?o - ?f) \<le> unat (tp_off d j)" using J S K room by linarith
      with d1(4) [of "unat (tp_off d j)" "tp_len d j"] False show ?thesis by (simp add: tp_bytes_def)
    qed
  qed
qed

section \<open>Applying a deletion\<close>

lemma TP_ApplyDelete_ok:
  assumes inv: "tp_inv d" and k: "k < unat (tp_cnt d)" "tp_size d k \<noteq> 0" and rid: "unat (rid_slot rid) = k"
  obtains d' where "TP_ApplyDelete d rid = Some d'" "tp_inv d'" "tp_pid d' = tp_pid d" "tp_cnt d' = tp_cnt d" "tp_size d' k = 0"
    "unat (tp_fsp d') = unat (tp_fsp d) + tp_len d k"
    "\<And>j. j < unat (tp_cnt d) \<Longrightarrow> j \<noteq> k \<Longrightarrow> tp_size d' j = tp_size d j \<and> (tp_size d j \<noteq> 0 \<longrightarrow> tp_bytes d' j = tp_bytes d j)"
proof -
  note D = tp_invD [OF inv]
  note K = D(4) [OF k] and kp = D(6) [OF k(1)]
  let ?f = "unat (tp_fsp d)" and ?o = "unat (tp_off d k)" and ?L = "tp_len d k" and ?c = "unat (tp_cnt d)"
  define w where "w = UnsetDeletedFlag (tp_size d k)"
  have wL: "unat w = ?L" by (simp add: w_def tp_len_def)
  have w: "(if IsDeleted (tp_size d k) then UnsetDeletedFlag (tp_size d k) else tp_size d k) = w"
    using k(2) by (auto simp: w_def IsDeleted_iff Unset_live)
  have p: "unat (tp_fsp d + w) = ?f + ?L" "unat (tp_off d k - tp_fsp d) = ?o - ?f" "tp_fsp d \<le> tp_off d k"
    using K wL by (simp_all add: unat_word_ariths unat_sub word_le_nat_alt PAGE_SIZE_def)
  obtain d1 where d1: "mem_move d (?f + ?L) ?f (?o - ?f) = Some d1"
    "length d1 = PAGE_SIZE" "tp_pid d1 = tp_pid d" "tp_fsp d1 = tp_fsp d" "tp_cnt d1 = tp_cnt d"
    "\<And>j. j < ?c \<Longrightarrow> tp_off d1 j = tp_off d j \<and> tp_size d1 j = tp_size d j"
    "\<And>j. j < ?c \<Longrightarrow> j \<noteq> k \<Longrightarrow> tp_size d j \<noteq> 0 \<Longrightarrow>
       slice d1 (if unat (tp_off d j) < ?o then unat (tp_off d j) + ?L else unat (tp_off d j)) (tp_len d j) = tp_bytes d j"
    using close_gap [OF inv k, of 0, unfolded diff_zero add_0_right, OF trans_le_add1 [OF D(2)]] by blast
  define d2 where "d2 = splice d1 16 (u32_bytes (tp_fsp d + w))"
  define d3 where "d3 = splice d2 (28 + 8 * k) (u32_bytes 0)"
  define d4 where "d4 = splice d3 (24 + 8 * k) (u32_bytes 0)"
  have l2: "length d2 = PAGE_SIZE" unfolding d2_def by (rule view_set_fsp(6) [OF d1(2)])
  have l3: "length d3 = PAGE_SIZE" unfolding d3_def by (rule view_set_size(6) [OF l2 kp])
  have l4: "length d4 = PAGE_SIZE" unfolding d4_def by (rule view_set_off(6) [OF l3 kp])
  note W = view_set_fsp [OF d1(2), of "tp_fsp d + w", folded d2_def] view_set_size [OF l2 kp, of 0, folded d3_def]
    view_set_off [OF l3 kp, of 0, folded d4_def]
  have cp: "24 + 8 * (0 + ?c) \<le> PAGE_SIZE" using D(2,3) by simp
  obtain d5 where d5: "shift_offsets (\<lambda>o_i. o_i < tp_off d k) w d4 0 ?c = Some d5" "length d5 = PAGE_SIZE" "tp_fsp d5 = tp_fsp d4"
    "tp_cnt d5 = tp_cnt d4" "tp_pid d5 = tp_pid d4" "\<forall>j. tp_size d5 j = tp_size d4 j"
    "\<forall>j. tp_off d5 j = (if 0 \<le> j \<and> j < 0 + ?c \<and> tp_size d4 j \<noteq> 0 \<and> tp_off d4 j < tp_off d k then tp_off d4 j + w else tp_off d4 j)"
    "\<forall>x m. 24 + 8 * (0 + ?c) \<le> x \<longrightarrow> slice d5 x m = slice d4 x m"
    using shift_offsets_ok [OF l4 cp, of "\<lambda>o_i. o_i < tp_off d k" w] by blast
  have run: "TP_ApplyDelete d rid = Some d5"
    using rid k(1) D(1) kp w wL p d1(1,2) d5(1) l2 l3 unfolding d2_def d3_def d4_def
    by (simp add: TP_ApplyDelete_def ensure_def tp_getters tp_setters)
  have view: "tp_cnt d5 = tp_cnt d" "unat (tp_fsp d5) = ?f + ?L" "tp_pid d5 = tp_pid d" "tp_size d5 k = 0"
    using d5(3,4,5,6) d1(3,5) p(1) by (simp_all add: W)
  have sz: "tp_size d5 j = tp_size d j" "tp_size d j \<noteq> 0 \<longrightarrow> unat (tp_off d5 j) = (if unat (tp_off d j) < ?o then unat (tp_off d j) + ?L else unat (tp_off d j))"
    if j: "j < ?c" "j \<noteq> k" for j
  proof -
    show s: "tp_size d5 j = tp_size d j" using d5(6) d1(6) [OF j(1)] j(2) by (simp add: W)
    have "unat (tp_off d j + w) = unat (tp_off d j) + ?L" if "tp_size d j \<noteq> 0" "unat (tp_off d j) < ?o"
      using D(4) [OF j(1) that(1)] K that(2) wL by (simp add: unat_word_ariths PAGE_SIZE_def)
    then show "tp_size d j \<noteq> 0 \<longrightarrow> unat (tp_off d5 j) = (if unat (tp_off d j) < ?o then unat (tp_off d j) + ?L else unat (tp_off d j))"
      using d5(7) d1(6) [OF j(1)] j by (simp add: W word_less_nat_alt)
  qed
  have bytes: "tp_bytes d5 j = tp_bytes d j" if j: "j < ?c" "j \<noteq> k" "tp_size d j \<noteq> 0" for j
  proof -
    have lo: "24 + 8 * ?c \<le> unat (tp_off d5 j)" using sz(2) [OF j(1,2)] D(2) D(4) [OF j(1,3)] j(3) by auto
    have "32 + 8 * k \<le> unat (tp_off d5 j)" using lo k(1) by linarith
    then have "slice d4 (unat (tp_off d5 j)) m = slice d1 (unat (tp_off d5 j)) m" for m
      unfolding d4_def d3_def d2_def using d1(2) l2 l3 kp by (simp add: slice_splice_other d2_def d3_def)
    then show ?thesis
      using d1(7) [OF j] d5(8) lo sz [OF j(1,2)] j(3) by (simp add: tp_bytes_def tp_len_def)
  qed
  have "tp_inv d5"
    by (rule tp_inv_relocate [OF inv k, of 0 d5]) (use D(2) d5(2) view sz in auto)
  then show thesis
    by (rule that [OF run]) (use view sz bytes in auto)
qed

section \<open>Updating a tuple\<close>

lemma unat_shift:
  fixes a b :: u32
  assumes "n \<le> unat a + unat b" "unat a + unat b < 4294967296"
  shows "unat (a + (b - of_nat n)) = unat a + unat b - n" "a + b - of_nat n = a + (b - of_nat n)"
proof -
  have "a + (b - of_nat n) = (of_nat (unat a + unat b - n) :: u32)" using assms(1) by (simp add: of_nat_diff)
  then show "unat (a + (b - of_nat n)) = unat a + unat b - n" using assms(2) by (simp only: unat_of_nat_u32)
qed simp

lemma of_nat_u32_nonzero:
  assumes "0 < n" "n < 4294967296"
  shows "(of_nat n :: u32) \<noteq> 0"
proof
  assume "(of_nat n :: u32) = 0"
  then have "unat (of_nat n :: u32) = 0" by simp
  with assms show False by simp
qed

text \<open>The bytes of the other tuples after the move, the rewritten tuple and the corrected offsets.\<close>

lemma update_moves:
  assumes inv: "tp_inv d" and k: "k < unat (tp_cnt d)" "tp_size d k \<noteq> 0" "\<not> IsDeleted (tp_size d k)"
    and room: "24 + 8 * unat (tp_cnt d) + length e \<le> unat (tp_fsp d) + tp_len d k" and e: "0 < length e"
    and d1: "length d1 = PAGE_SIZE" "tp_pid d1 = tp_pid d" "tp_cnt d1 = tp_cnt d"
      "\<And>j. j < unat (tp_cnt d) \<Longrightarrow> tp_off d1 j = tp_off d j \<and> tp_size d1 j = tp_size d j"
      "\<And>j. j < unat (tp_cnt d) \<Longrightarrow> j \<noteq> k \<Longrightarrow> tp_size d j \<noteq> 0 \<Longrightarrow>
         slice d1 (if unat (tp_off d j) < unat (tp_off d k) then unat (tp_off d j) + tp_len d k - length e else unat (tp_off d j)) (tp_len d j) = tp_bytes d j"
    and d2: "d2 = splice d1 16 (u32_bytes (tp_fsp d + tp_size d k - of_nat (length e)))"
    and d3: "d3 = splice d2 (unat (tp_off d k) + tp_len d k - length e) e"
    and d4: "d4 = splice d3 (28 + 8 * k) (u32_bytes (of_nat (length e)))"
  obtains d5 where
    "shift_offsets (\<lambda>o_i. o_i < tp_off d k + tp_size d k) (tp_size d k - of_nat (length e)) d4 0 (unat (tp_cnt d)) = Some d5"
    "length d2 = PAGE_SIZE" "length d3 = PAGE_SIZE" "tp_inv d5" "tp_pid d5 = tp_pid d" "tp_cnt d5 = tp_cnt d"
    "tp_size d5 k = of_nat (length e)" "tp_bytes d5 k = e"
    "\<And>j. j < unat (tp_cnt d) \<Longrightarrow> j \<noteq> k \<Longrightarrow> tp_size d5 j = tp_size d j \<and> (tp_size d j \<noteq> 0 \<longrightarrow> tp_bytes d5 j = tp_bytes d j)"
proof -
  note D = tp_invD [OF inv]
  note K = D(4) [OF k(1,2)] and kp = D(6) [OF k(1)]
  let ?f = "unat (tp_fsp d)" and ?o = "unat (tp_off d k)" and ?L = "tp_len d k" and ?c = "unat (tp_cnt d)" and ?n = "length e"
  have L: "unat (tp_size d k) = ?L" using tp_live [OF k(2,3)] by simp
  have n: "?n \<le> 4096" using K room by (simp add: PAGE_SIZE_def)
  have pos: "?o + ?L - ?n + length e \<le> PAGE_SIZE" "24 \<le> ?o + ?L - ?n" "\<And>j. j < ?c \<Longrightarrow> 32 + 8 * j \<le> ?o + ?L - ?n" using K room by linarith+
  have l2: "length d2 = PAGE_SIZE" unfolding d2 by (rule view_set_fsp(6) [OF d1(1)])
  have l3: "length d3 = PAGE_SIZE" unfolding d3 by (rule view_write_above(6) [OF l2 pos(1,2)])
  have l4: "length d4 = PAGE_SIZE" unfolding d4 by (rule view_set_size(6) [OF l3 kp])
  note W = view_set_fsp [OF d1(1), of "tp_fsp d + tp_size d k - of_nat ?n", folded d2] view_write_above [OF l2 pos(1,2), folded d3]
    view_set_size [OF l3 kp, of "of_nat ?n", folded d4]
  have v4: "tp_fsp d4 = tp_fsp d + tp_size d k - of_nat ?n" "tp_cnt d4 = tp_cnt d" "tp_pid d4 = tp_pid d"
    "\<And>j. j < ?c \<Longrightarrow> tp_off d4 j = tp_off d j" "\<And>j. j < ?c \<Longrightarrow> tp_size d4 j = (if j = k then of_nat ?n else tp_size d j)"
    using pos(3) d1(2-4) by (simp_all add: W)
  have cp: "24 + 8 * (0 + ?c) \<le> PAGE_SIZE" using D(2,3) by simp
  obtain d5 where d5: "shift_offsets (\<lambda>o_i. o_i < tp_off d k + tp_size d k) (tp_size d k - of_nat ?n) d4 0 ?c = Some d5"
    "length d5 = PAGE_SIZE" "tp_fsp d5 = tp_fsp d4" "tp_cnt d5 = tp_cnt d4" "tp_pid d5 = tp_pid d4" "\<forall>j. tp_size d5 j = tp_size d4 j"
    "\<forall>j. tp_off d5 j = (if 0 \<le> j \<and> j < 0 + ?c \<and> tp_size d4 j \<noteq> 0 \<and> tp_off d4 j < tp_off d k + tp_size d k
       then tp_off d4 j + (tp_size d k - of_nat ?n) else tp_off d4 j)"
    "\<forall>x m. 24 + 8 * (0 + ?c) \<le> x \<longrightarrow> slice d5 x m = slice d4 x m"
    using shift_offsets_ok [OF l4 cp, of "\<lambda>o_i. o_i < tp_off d k + tp_size d k" "tp_size d k - of_nat ?n"] by blast
  have edge: "unat (tp_off d k + tp_size d k) = ?o + ?L" using K L by (simp add: unat_word_ariths PAGE_SIZE_def)
  have nz: "(of_nat ?n :: u32) \<noteq> 0" using of_nat_u32_nonzero [OF e] n by simp
  have offk: "unat (tp_off d5 k) = ?o + ?L - ?n" and sizek: "tp_size d5 k = of_nat ?n" "tp_len d5 k = ?n"
  proof -
    show "unat (tp_off d5 k) = ?o + ?L - ?n"
      using d5(7) k v4(4,5) nz edge K unat_shift(1) [of ?n "tp_off d k" "tp_size d k"] L room by (simp add: word_less_nat_alt PAGE_SIZE_def)
    show "tp_size d5 k = of_nat ?n" using d5(6) v4(5) k(1) by simp
    then show "tp_len d5 k = ?n" using n by (intro tp_len_small) simp_all
  qed
  have sz: "tp_size d5 j = tp_size d j"
    "tp_size d j \<noteq> 0 \<longrightarrow> unat (tp_off d5 j) = (if unat (tp_off d j) < ?o then unat (tp_off d j) + ?L - ?n else unat (tp_off d j))"
    if j: "j < ?c" "j \<noteq> k" for j
  proof -
    show "tp_size d5 j = tp_size d j" using d5(6) v4(5) j by simp
    show "tp_size d j \<noteq> 0 \<longrightarrow> unat (tp_off d5 j) = (if unat (tp_off d j) < ?o then unat (tp_off d j) + ?L - ?n else unat (tp_off d j))"
    proof
      assume z: "tp_size d j \<noteq> 0"
      note J = D(4) [OF j(1) z] and S = D(5) [OF j(1) k(1) j(2) z k(2)]
      have "unat (tp_off d j) < ?o + ?L \<longleftrightarrow> unat (tp_off d j) < ?o" using J S by linarith
      then show "unat (tp_off d5 j) = (if unat (tp_off d j) < ?o then unat (tp_off d j) + ?L - ?n else unat (tp_off d j))"
        using d5(7) v4(4,5) j z edge unat_shift(1) [of ?n "tp_off d j" "tp_size d k"] L room J K by (simp add: word_less_nat_alt PAGE_SIZE_def)
    qed
  qed
  have e4: "slice d4 (?o + ?L - ?n) ?n = e"
    using pos(3) [OF k(1)] l2 l3 kp pos(1) unfolding d4 by (simp add: slice_splice_other) (simp add: d3 slice_splice_same)
  have "24 + 8 * (0 + ?c) \<le> ?o + ?L - ?n" using K room by auto
  then have bk: "tp_bytes d5 k = e"
    using d5(8) e4 offk sizek by (simp add: tp_bytes_def)
  have bytes: "tp_bytes d5 j = tp_bytes d j" if j: "j < ?c" "j \<noteq> k" "tp_size d j \<noteq> 0" for j
  proof -
    note J = D(4) [OF j(1,3)] and S = D(5) [OF j(1) k(1) j(2,3) k(2)] and o = sz(2) [OF j(1,2), THEN mp, OF j(3)]
    have len: "tp_len d5 j = tp_len d j" using sz(1) [OF j(1,2)] by (simp add: tp_len_def)
    have lo: "24 + 8 * ?c \<le> unat (tp_off d5 j)" "28 + 8 * k + 4 \<le> unat (tp_off d5 j)" using o J K room D(2) k(1) by (simp_all split: if_splits)
    have "unat (tp_off d5 j) + tp_len d j \<le> ?o + ?L - ?n \<or> ?o + ?L - ?n + ?n \<le> unat (tp_off d5 j)"
      using o J S K room by (simp split: if_splits) linarith+
    then have "slice d4 (unat (tp_off d5 j)) (tp_len d j) = slice d1 (unat (tp_off d5 j)) (tp_len d j)"
      using lo l2 l3 d1(1) kp pos(1) by (simp add: d4 slice_splice_other) (simp add: d3 slice_splice_other, simp add: d2 slice_splice_other)
    then show ?thesis
      using d1(5) [OF j] d5(8) lo(1) o len by (simp add: tp_bytes_def)
  qed
  have fsp: "unat (tp_fsp d5) = ?f + ?L - ?n"
    using d5(3) v4(1) unat_shift [of ?n "tp_fsp d" "tp_size d k"] L room K by (simp add: PAGE_SIZE_def diff_conv_add_uminus add.assoc del: add_uminus_conv_diff)
  have "tp_inv d5"
    by (rule tp_inv_relocate [OF inv k(1,2) room d5(2)]) (use d5(4) v4(2) fsp sz sizek offk e in auto)
  then show thesis
    by (rule that [OF d5(1) l2 l3]) (use d5(4,5) v4 sizek bk sz bytes in auto)
qed

lemma TP_UpdateTuple_ok:
  assumes inv: "tp_inv d" and k: "k < unat (tp_cnt d)" "\<not> IsDeleted (tp_size d k)" "unat (rid_slot rid) = k"
    and rid: "RowId_Get rid \<noteq> RowId_Get INVALID_ROWID"
    and old: "row_ok schema rid r_old" "tp_bytes d k = row_encode r_old"
    and new: "row_ok schema rid' r_new" "Row_GetSerializedSize schema r_new = Some n"
    and fit: "n \<le> unat (tp_fsp d) - 24 - 8 * unat (tp_cnt d) + tp_len d k"
  obtains d' where "TP_UpdateTuple schema d r_new \<lparr>row_rid = rid, row_fields = []\<rparr> = Some (True, d', r_old)"
    "tp_inv d'" "tp_pid d' = tp_pid d" "tp_cnt d' = tp_cnt d" "tp_size d' k = of_nat n" "tp_bytes d' k = row_encode r_new"
    "\<And>j. j < unat (tp_cnt d) \<Longrightarrow> j \<noteq> k \<Longrightarrow> tp_size d' j = tp_size d j \<and> (tp_size d j \<noteq> 0 \<longrightarrow> tp_bytes d' j = tp_bytes d j)"
proof -
  note D = tp_invD [OF inv]
  have nz: "tp_size d k \<noteq> 0" using k(2) by (auto simp: IsDeleted_iff)
  note K = D(4) [OF k(1) nz] and kp = D(6) [OF k(1)] and L = tp_live [OF nz k(2)]
  let ?f = "unat (tp_fsp d)" and ?o = "unat (tp_off d k)" and ?L = "tp_len d k" and ?c = "unat (tp_cnt d)"
  have enc: "length (row_encode r_new) = n" using row_codec.size_encode [OF new(1)] new(2) by simp
  have n0: "0 < n" by (rule row_size_pos [OF new])
  have room: "24 + 8 * ?c + n \<le> ?f + ?L" using fit D(2) by linarith
  obtain d1 where d1: "mem_move d (?f + ?L - n) ?f (?o - ?f) = Some d1"
    "length d1 = PAGE_SIZE" "tp_pid d1 = tp_pid d" "tp_fsp d1 = tp_fsp d" "tp_cnt d1 = tp_cnt d"
    "\<And>j. j < ?c \<Longrightarrow> tp_off d1 j = tp_off d j \<and> tp_size d1 j = tp_size d j"
    "\<And>j. j < ?c \<Longrightarrow> j \<noteq> k \<Longrightarrow> tp_size d j \<noteq> 0 \<Longrightarrow>
       slice d1 (if unat (tp_off d j) < ?o then unat (tp_off d j) + ?L - n else unat (tp_off d j)) (tp_len d j) = tp_bytes d j"
    using close_gap [OF inv k(1) nz room] by blast
  define d2 where "d2 = splice d1 16 (u32_bytes (tp_fsp d + tp_size d k - of_nat n))"
  define d3 where "d3 = splice d2 (?o + ?L - n) (row_encode r_new)"
  define d4 where "d4 = splice d3 (28 + 8 * k) (u32_bytes (of_nat n))"
  obtain d5 where d5: "shift_offsets (\<lambda>o_i. o_i < tp_off d k + tp_size d k) (tp_size d k - of_nat n) d4 0 ?c = Some d5"
    "length d2 = PAGE_SIZE" "length d3 = PAGE_SIZE" "tp_inv d5" "tp_pid d5 = tp_pid d" "tp_cnt d5 = tp_cnt d"
    "tp_size d5 k = of_nat n" "tp_bytes d5 k = row_encode r_new"
    "\<And>j. j < ?c \<Longrightarrow> j \<noteq> k \<Longrightarrow> tp_size d5 j = tp_size d j \<and> (tp_size d j \<noteq> 0 \<longrightarrow> tp_bytes d5 j = tp_bytes d j)"
    using update_moves [OF inv k(1) nz k(2), where e = "row_encode r_new", unfolded enc, OF room n0 d1(2,3,5,6,7) d2_def d3_def d4_def] by blast
  have l: "length (row_encode r_old) = ?L" using K D(1) by (simp flip: old(2) add: tp_bytes_def)
  have read: "Row_DeserializeFrom schema \<lparr>row_rid = rid, row_fields = []\<rparr> d ?o = Some (r_old, ?L)"
    using row_codec.get_encode [OF old(1), of ?o d] K D(1) l old(2) by (simp add: tp_bytes_def)
  have put: "Row_SerializeTo schema r_new d2 (?o + ?L - n) = Some (d3, n)"
    using row_codec.put_encode [OF new(1), of "?o + ?L - n" d2] K D(1) d5(2) enc room by (simp add: d3_def)
  obtain w where w: "GetFreeSpaceRemaining d = Some w" "unat w = ?f - 24 - 8 * ?c"
  proof (rule that [OF tp_remaining(1) [OF inv]])
    have "?f - 24 - 8 * ?c < 4294967296" using D(3) by (simp add: PAGE_SIZE_def)
    then show "unat (word_of_nat (?f - 24 - 8 * ?c) :: u32) = ?f - 24 - 8 * ?c" by (rule unat_of_nat_u32)
  qed
  have words: "\<not> unat (w + tp_size d k) < n" "n \<le> ?f + ?L" "unat (tp_off d k - tp_fsp d) = ?o - ?f" "tp_fsp d \<le> tp_off d k"
  proof -
    have "unat w + ?L < 4294967296" using w(2) K unfolding PAGE_SIZE_def by linarith
    then show "\<not> unat (w + tp_size d k) < n" using w(2) L fit by (simp add: unat_word_ariths)
    show "n \<le> ?f + ?L" using room by simp
    show "unat (tp_off d k - tp_fsp d) = ?o - ?f" "tp_fsp d \<le> tp_off d k" using K by (simp_all add: unat_sub word_le_nat_alt)
  qed
  have "TP_UpdateTuple schema d r_new \<lparr>row_rid = rid, row_fields = []\<rparr> = Some (True, d5, r_old)"
    using rid new(2) n0 k w(1) words D(1) kp read L d1(1,2) d5(1,2,3) put
    by (simp add: TP_UpdateTuple_def ensure_def tp_getters tp_setters flip: d2_def d4_def)
  then show thesis by (rule that) (use d5 in auto)
qed

end
