(* ===== verification/Table_Page_Map.thy ===== *)
theory Table_Page_Map
  imports Table_Page
begin

text \<open>
  What a table page promises: it implements a finite map from slot numbers to rows with a deletion mark. Every operation
  of \<^verbatim>\<open>TablePage\<close> is shown to implement its update or lookup of that map.
\<close>

section \<open>The page as a finite map of rows\<close>

text \<open>
  The abstract page maps a slot number to the deletion mark and the fields of the tuple in it.
  \<open>tp_rep schema d m\<close>: the bytes \<open>d\<close> represent the map \<open>m\<close>.
\<close>

type_synonym page_map = "nat \<rightharpoonup> bool \<times> field list"

abbreviation row_of :: "field list \<Rightarrow> row" where "row_of fs \<equiv> \<lparr>row_rid = INVALID_ROWID, row_fields = fs\<rparr>"

definition slot_rep :: "schema \<Rightarrow> buffer \<Rightarrow> nat \<Rightarrow> (bool \<times> field list) option \<Rightarrow> bool" where
  "slot_rep schema d i v = (case v of None \<Rightarrow> tp_size d i = 0
     | Some (del, fs) \<Rightarrow> tp_size d i \<noteq> 0 \<and> (IsDeleted (tp_size d i) \<longleftrightarrow> del) \<and> row_ok schema INVALID_ROWID (row_of fs) \<and>
         tp_bytes d i = row_encode (row_of fs))"

definition tp_rep :: "schema \<Rightarrow> buffer \<Rightarrow> page_map \<Rightarrow> bool" where
  "tp_rep schema d m \<longleftrightarrow> tp_inv d \<and> dom m \<subseteq> {..<unat (tp_cnt d)} \<and> (\<forall>i < unat (tp_cnt d). slot_rep schema d i (m i))"

lemma row_encode_fields: "row_encode r = row_encode (row_of (row_fields r))"
  by (simp add: row_encode_def row_bitmap_def)

lemma row_ok_fields: "row_ok schema rid r \<longleftrightarrow> row_rid r = rid \<and> row_ok schema INVALID_ROWID (row_of (row_fields r))"
  by (auto simp: row_ok_def)

lemma slot_rep_same:
  assumes "tp_size d' i = tp_size d i" "tp_size d i \<noteq> 0 \<Longrightarrow> tp_bytes d' i = tp_bytes d i" "slot_rep schema d i v"
  shows "slot_rep schema d' i v"
  using assms by (auto simp: slot_rep_def split: option.splits)

text \<open>An operation that changes slot \<open>k\<close> only.\<close>

lemma tp_rep_upd:
  assumes rep: "tp_rep schema d m" and inv: "tp_inv d'"
    and cnt: "k < unat (tp_cnt d')" "unat (tp_cnt d') = max (unat (tp_cnt d)) (Suc k)" "k \<le> unat (tp_cnt d)"
    and k: "slot_rep schema d' k v"
    and other: "\<And>j. j < unat (tp_cnt d) \<Longrightarrow> j \<noteq> k \<Longrightarrow> tp_size d' j = tp_size d j \<and> (tp_size d j \<noteq> 0 \<longrightarrow> tp_bytes d' j = tp_bytes d j)"
  shows "tp_rep schema d' (m(k := v))"
proof -
  have "slot_rep schema d' i ((m(k := v)) i)" if "i < unat (tp_cnt d')" for i
  proof (cases "i = k")
    case False
    then have i: "i < unat (tp_cnt d)" using that cnt by auto
    with rep have "slot_rep schema d i (m i)" by (simp add: tp_rep_def)
    with other [OF i False] False show ?thesis by (auto intro: slot_rep_same)
  qed (use k in simp)
  moreover have "dom (m(k := v)) \<subseteq> {..<unat (tp_cnt d')}" using rep cnt by (auto simp: tp_rep_def)
  ultimately show ?thesis using inv by (simp add: tp_rep_def)
qed

lemma tp_repD:
  assumes "tp_rep schema d m"
  shows "tp_inv d" "m k = Some v \<Longrightarrow> k < unat (tp_cnt d)" "i < unat (tp_cnt d) \<Longrightarrow> slot_rep schema d i (m i)"
    "k \<ge> unat (tp_cnt d) \<Longrightarrow> m k = None"
  using assms by (auto simp: tp_rep_def)

lemma tp_rep_slot:
  assumes "tp_rep schema d m" "m k = Some (del, fs)"
  shows "k < unat (tp_cnt d)" "tp_size d k \<noteq> 0" "IsDeleted (tp_size d k) \<longleftrightarrow> del" "row_ok schema INVALID_ROWID (row_of fs)"
    "tp_bytes d k = row_encode (row_of fs)"
  using tp_repD(2) [OF assms] tp_repD(3) [OF assms(1), of k] assms(2) by (auto simp: slot_rep_def)

lemma insert_room:
  assumes "tp_rep schema d m" "row_ok schema rid r" "Row_GetSerializedSize schema r = Some n"
    and "n + 8 \<le> unat (tp_fsp d) - 24 - 8 * unat (tp_cnt d)"
  shows "\<exists>k d'. TP_InsertTuple schema d r = Some (True, d', r\<lparr>row_rid := \<lparr>rid_page = sint (tp_pid d), rid_slot = of_nat k\<rparr>\<rparr>) \<and>
     m k = None \<and> k \<le> unat (tp_cnt d) \<and> tp_pid d' = tp_pid d \<and> tp_rep schema d' (m(k \<mapsto> (False, row_fields r)))"
proof -
  note inv = tp_repD(1) [OF assms(1)]
  obtain k d' where I: "TP_InsertTuple schema d r = Some (True, d', r\<lparr>row_rid := \<lparr>rid_page = sint (tp_pid d), rid_slot = of_nat k\<rparr>\<rparr>)"
    "tp_inv d'" "k \<le> unat (tp_cnt d)" "k < unat (tp_cnt d) \<Longrightarrow> tp_size d k = 0"
    "unat (tp_cnt d') = (if k = unat (tp_cnt d) then Suc k else unat (tp_cnt d))"
    "tp_bytes d' k = row_encode r" "tp_size d' k = of_nat n" "tp_len d' k = n" "tp_pid d' = tp_pid d"
    "\<And>j. j < unat (tp_cnt d) \<Longrightarrow> j \<noteq> k \<Longrightarrow> tp_size d' j = tp_size d j \<and> (tp_size d j \<noteq> 0 \<longrightarrow> tp_bytes d' j = tp_bytes d j)"
    "unat (tp_fsp d') = unat (tp_fsp d) - n"
    by (rule TP_InsertTuple_ok [OF inv assms(2-4)], rule that, blast+)
  have n: "0 < n" "n \<le> 4096" using row_size_pos [OF assms(2,3)] assms(4) tp_invD(3) [OF inv] by (simp_all add: PAGE_SIZE_def)
  have "m k = None"
    using tp_repD(3,4) [OF assms(1), of k] I(4) by (cases "k < unat (tp_cnt d)"; cases "m k") (auto simp: slot_rep_def)
  moreover have "slot_rep schema d' k (Some (False, row_fields r))"
    using I(6,7) n of_nat_u32_nonzero [of n] small_not_deleted [of "of_nat n"] assms(2)
    by (auto simp: slot_rep_def IsDeleted_iff row_ok_fields [of schema rid] row_encode_fields [of r])
  ultimately show ?thesis
    using tp_rep_upd [OF assms(1) I(2), of k] I by (intro exI [of _ k] exI [of _ d']) (simp add: max_def)
qed

lemma insert_no_room:
  assumes "tp_inv d" "row_ok schema rid r" "Row_GetSerializedSize schema r = Some n"
    and "\<not> n + 8 \<le> unat (tp_fsp d) - 24 - 8 * unat (tp_cnt d)"
  shows "TP_InsertTuple schema d r = Some (False, d, r)"
proof -
  have "unat (word_of_nat (unat (tp_fsp d) - 24 - 8 * unat (tp_cnt d)) :: u32) \<le> unat (tp_fsp d) - 24 - 8 * unat (tp_cnt d)"
    by (simp only: unat_of_nat mod_less_eq_dividend)
  with assms(4) have "unat (word_of_nat (unat (tp_fsp d) - 24 - 8 * unat (tp_cnt d)) :: u32) < n + SIZE_TUPLE"
    unfolding SIZE_TUPLE_def by linarith
  then show ?thesis
    using assms(3) row_size_pos [OF assms(2,3)] by (simp only: TP_InsertTuple_def tp_remaining(1) [OF assms(1)]) (simp add: ensure_def)
qed

lemma rep_set_size:
  assumes rep: "tp_rep schema d m" and k: "m k = Some (del, fs)"
    and w: "UnsetDeletedFlag w = UnsetDeletedFlag (tp_size d k)" "IsDeleted w \<longleftrightarrow> del'"
  shows "tp_rep schema (splice d (28 + 8 * k) (u32_bytes w)) (m(k \<mapsto> (del', fs)))"
proof -
  note S = tp_rep_slot [OF rep k] and inv = tp_repD(1) [OF rep]
  note V = tp_inv_set_size [OF inv S(1,2) w(1) refl]
  have "w \<noteq> 0" using tp_invD(4) [OF inv S(1,2)] w(1) by (auto simp: tp_len_def UnsetDeletedFlag_def)
  then have "slot_rep schema (splice d (28 + 8 * k) (u32_bytes w)) k (Some (del', fs))"
    using S V(2) V(3) [OF S(1,2)] w(2) by (simp add: slot_rep_def)
  with V S(1) show ?thesis by (intro tp_rep_upd [OF rep V(1)]) (simp_all add: max_def)
qed

lemma delete_rep:
  assumes rep: "tp_rep schema d m" and k: "unat (rid_slot rid) = k"
  shows "case m k of
      Some (False, fs) \<Rightarrow> \<exists>d'. TP_MarkDelete d rid = Some (True, d') \<and> tp_rep schema d' (m(k \<mapsto> (True, fs)))
    | _ \<Rightarrow> TP_MarkDelete d rid = Some (False, d)"
    and "\<forall>del fs. m k = Some (del, fs) \<longrightarrow>
      (\<exists>d'. TP_RollbackDelete d rid = Some d' \<and> tp_rep schema d' (m(k \<mapsto> (False, fs)))) \<and>
      (\<exists>d'. TP_ApplyDelete d rid = Some d' \<and> tp_rep schema d' (m(k := None)) \<and>
        unat (tp_fsp d') = unat (tp_fsp d) + length (row_encode (row_of fs)))"
proof -
  note inv = tp_repD(1) [OF rep]
  note D = tp_invD [OF inv]
  show "case m k of
      Some (False, fs) \<Rightarrow> \<exists>d'. TP_MarkDelete d rid = Some (True, d') \<and> tp_rep schema d' (m(k \<mapsto> (True, fs)))
    | _ \<Rightarrow> TP_MarkDelete d rid = Some (False, d)"
  proof (cases "m k")
    case None
    with tp_repD(3) [OF rep, of k] k D(1) D(6) [of k] show ?thesis
      by (cases "k < unat (tp_cnt d)") (simp_all add: TP_MarkDelete_def tp_getters slot_rep_def IsDeleted_iff)
  next
    case (Some v)
    obtain del fs where v: "v = (del, fs)" by force
    note S = tp_rep_slot [OF rep Some [unfolded v]]
    show ?thesis
    proof (cases del)
      case True
      with S Some v k D(1) D(6) [OF S(1)] show ?thesis by (simp add: TP_MarkDelete_def tp_getters)
    next
      case False
      then have live: "\<not> bit (tp_size d k) 31" using S(3) by (simp add: IsDeleted_iff)
      have "tp_rep schema (splice d (28 + 8 * k) (u32_bytes (SetDeletedFlag (tp_size d k)))) (m(k \<mapsto> (True, fs)))"
        using live by (intro rep_set_size [OF rep Some [unfolded v]]) (simp_all add: Unset_Set Unset_live IsDeleted_iff bit_Set)
      with S Some v k False D(1) D(6) [OF S(1)] show ?thesis
        by (simp add: TP_MarkDelete_def tp_getters tp_setters word_greater_zero_iff)
    qed
  qed
  show "\<forall>del fs. m k = Some (del, fs) \<longrightarrow>
      (\<exists>d'. TP_RollbackDelete d rid = Some d' \<and> tp_rep schema d' (m(k \<mapsto> (False, fs)))) \<and>
      (\<exists>d'. TP_ApplyDelete d rid = Some d' \<and> tp_rep schema d' (m(k := None)) \<and>
        unat (tp_fsp d') = unat (tp_fsp d) + length (row_encode (row_of fs)))"
  proof (intro allI impI conjI)
    fix del fs assume m: "m k = Some (del, fs)"
    note S = tp_rep_slot [OF rep m]
    note K = D(4) [OF S(1,2)]
    have nz: "UnsetDeletedFlag (tp_size d k) \<noteq> 0" using K by (auto simp: tp_len_def)
    have "tp_rep schema (splice d (28 + 8 * k) (u32_bytes (UnsetDeletedFlag (tp_size d k)))) (m(k \<mapsto> (False, fs)))"
      using nz by (intro rep_set_size [OF rep m]) (simp_all add: IsDeleted_iff bit_Unset Unset_live)
    then show "\<exists>d'. TP_RollbackDelete d rid = Some d' \<and> tp_rep schema d' (m(k \<mapsto> (False, fs)))"
      using S m k D(1) D(6) [OF S(1)] rep by (cases del) (simp_all add: TP_RollbackDelete_def tp_getters tp_setters fun_upd_idem)
    obtain d' where A: "TP_ApplyDelete d rid = Some d'" "tp_inv d'" "tp_pid d' = tp_pid d" "tp_cnt d' = tp_cnt d" "tp_size d' k = 0"
      "unat (tp_fsp d') = unat (tp_fsp d) + tp_len d k"
      "\<And>j. j < unat (tp_cnt d) \<Longrightarrow> j \<noteq> k \<Longrightarrow> tp_size d' j = tp_size d j \<and> (tp_size d j \<noteq> 0 \<longrightarrow> tp_bytes d' j = tp_bytes d j)"
      by (rule TP_ApplyDelete_ok [OF inv S(1,2) k], rule that, blast+)
    have "length (row_encode (row_of fs)) = tp_len d k" using K D(1) by (simp flip: S(5) add: tp_bytes_def)
    moreover have "tp_rep schema d' (m(k := None))"
      using A S(1) by (intro tp_rep_upd [OF rep A(2)]) (simp_all add: slot_rep_def max_def)
    ultimately show "\<exists>d'. TP_ApplyDelete d rid = Some d' \<and> tp_rep schema d' (m(k := None)) \<and>
        unat (tp_fsp d') = unat (tp_fsp d) + length (row_encode (row_of fs))"
      using A(1,6) by auto
  qed
qed

text \<open>A page that \<^verbatim>\<open>Init\<close> has just set up is the empty map.\<close>

lemma TP_Init_rep:
  assumes "length d = PAGE_SIZE"
  obtains d' where "TP_Init d page_id prev_id = Some d'" "tp_rep schema d' Map.empty" "tp_pid d' = word_of_int page_id"
    "unat (tp_fsp d') = PAGE_SIZE" "tp_cnt d' = 0"
proof
  let ?d1 = "splice d 0 (u32_bytes (word_of_int page_id))"
  let ?d2 = "splice ?d1 8 (u32_bytes (word_of_int prev_id))"
  let ?d3 = "splice ?d2 12 (u32_bytes (word_of_int INVALID_PAGE_ID))"
  let ?d4 = "splice ?d3 16 (u32_bytes (of_nat PAGE_SIZE))"
  let ?d5 = "splice ?d4 20 (u32_bytes 0)"
  have l: "length ?d1 = PAGE_SIZE" "length ?d2 = PAGE_SIZE" "length ?d3 = PAGE_SIZE" "length ?d4 = PAGE_SIZE" "length ?d5 = PAGE_SIZE"
    using assms by (simp_all add: PAGE_SIZE_def)
  show "TP_Init d page_id prev_id = Some ?d5"
    using assms l by (simp add: TP_Init_def SetPrevPageId_def SetNextPageId_def tp_setters put_u32_at PAGE_SIZE_def)
  show pid: "tp_pid ?d5 = word_of_int page_id"
    using assms by (simp add: tp_pid_def buf_simps PAGE_SIZE_def)
  show cnt: "tp_cnt ?d5 = 0" and fsp: "unat (tp_fsp ?d5) = PAGE_SIZE"
    using l(3,4) by (simp_all add: view_set_cnt view_set_fsp) (simp add: PAGE_SIZE_def)
  show "tp_rep schema ?d5 Map.empty"
    unfolding tp_rep_def tp_inv_def cnt fsp using l(5) by (simp add: PAGE_SIZE_def)
qed

text \<open>An empty page, and the same page with one row in it.\<close>

definition sample_page :: buffer where
  "sample_page = (case TP_Init (replicate PAGE_SIZE 0) 5 INVALID_PAGE_ID of Some d \<Rightarrow> d | None \<Rightarrow> [])"

definition sample_page1 :: buffer where
  "sample_page1 = (case TP_InsertTuple sample_schema sample_page sample_row of Some (_, d, _) \<Rightarrow> d | None \<Rightarrow> [])"

lemma sample_page:
  "TP_Init (replicate PAGE_SIZE 0) 5 INVALID_PAGE_ID = Some sample_page" "tp_rep sample_schema sample_page Map.empty"
  "unat (tp_fsp sample_page) = PAGE_SIZE" "tp_cnt sample_page = 0" "tp_pid sample_page = 5"
  using TP_Init_rep [of "replicate PAGE_SIZE 0" 5 INVALID_PAGE_ID sample_schema, OF length_replicate] unfolding sample_page_def
  by (metis option.simps(5) word_of_int_numeral)+

lemma sample_page1:
  "tp_rep sample_schema sample_page1 [0 \<mapsto> (False, row_fields sample_row)]"
  "tp_cnt sample_page1 = 1" "unat (tp_fsp sample_page1) = 4074"
proof -
  have fit: "22 + 8 \<le> unat (tp_fsp sample_page) - 24 - 8 * unat (tp_cnt sample_page)" by (simp add: sample_page PAGE_SIZE_def)
  obtain k d' where I: "TP_InsertTuple sample_schema sample_page sample_row =
      Some (True, d', sample_row\<lparr>row_rid := \<lparr>rid_page = sint (tp_pid sample_page), rid_slot = of_nat k\<rparr>\<rparr>)"
    "k \<le> unat (tp_cnt sample_page)" "unat (tp_cnt d') = (if k = unat (tp_cnt sample_page) then Suc k else unat (tp_cnt sample_page))"
    "unat (tp_fsp d') = unat (tp_fsp sample_page) - 22"
    by (rule TP_InsertTuple_ok [OF tp_repD(1) [OF sample_page(2)] sample_row_ok fit], rule that, blast+)
  then have k: "k = 0" and d': "sample_page1 = d'" by (simp_all add: sample_page sample_page1_def)
  from insert_room [OF sample_page(2) sample_row_ok fit] I(1)
  show "tp_rep sample_schema sample_page1 [0 \<mapsto> (False, row_fields sample_row)]"
    unfolding d' using sample_page(4) by auto
  show "tp_cnt sample_page1 = 1" "unat (tp_fsp sample_page1) = 4074"
    using I(3,4) k by (simp_all add: d' sample_page PAGE_SIZE_def word_unat_eq_iff [THEN iffD2])
qed

definition sample_rid :: rowid where "sample_rid = \<lparr>rid_page = 5, rid_slot = 0\<rparr>"

lemma sample_rid: "RowId_Get sample_rid \<noteq> RowId_Get INVALID_ROWID" "unat (rid_slot sample_rid) = 0"
  by (code_simp, simp add: sample_rid_def)

section \<open>Properties\<close>

text \<open>
  C19: insertion into a page. A row that matches its schema is stored iff its serialized size and a slot fit into the free
  space: then it goes to a slot that was empty, the row gets the row id of that slot, and the page represents the old
  map with the new row added, so that no other tuple is lost or changed. Otherwise the page is left as it was.
\<close>

theorem table_page_insert:
  assumes rep: "tp_rep schema d m" and r: "row_ok schema rid r" and n: "Row_GetSerializedSize schema r = Some n"
  shows "if n + 8 \<le> unat (tp_fsp d) - 24 - 8 * unat (tp_cnt d)
    then \<exists>k d'. TP_InsertTuple schema d r = Some (True, d', r\<lparr>row_rid := \<lparr>rid_page = sint (tp_pid d), rid_slot = of_nat k\<rparr>\<rparr>) \<and>
      m k = None \<and> k \<le> unat (tp_cnt d) \<and> tp_pid d' = tp_pid d \<and> tp_rep schema d' (m(k \<mapsto> (False, row_fields r)))
    else TP_InsertTuple schema d r = Some (False, d, r)"
  using insert_room [OF rep r n] insert_no_room [OF tp_repD(1) [OF rep] r n] by simp

theorem table_page_insert_witness:
  "\<exists>k d'. TP_InsertTuple sample_schema sample_page sample_row =
       Some (True, d', sample_row\<lparr>row_rid := \<lparr>rid_page = sint (tp_pid sample_page), rid_slot = of_nat k\<rparr>\<rparr>) \<and>
     tp_rep sample_schema d' [k \<mapsto> (False, row_fields sample_row)]"
proof -
  have "22 + 8 \<le> unat (tp_fsp sample_page) - 24 - 8 * unat (tp_cnt sample_page)" by (simp add: sample_page PAGE_SIZE_def)
  with table_page_insert [OF sample_page(2) sample_row_ok] show ?thesis by (simp only: if_True) blast
qed

text \<open>
  Reading a tuple. \<^verbatim>\<open>GetTuple\<close> succeeds exactly on the live tuples of the page and then returns the fields stored in the
  slot of the row id; for a slot that is empty, marked deleted or beyond the last one it returns false.
\<close>

theorem table_page_get:
  assumes rep: "tp_rep schema d m" and rid: "RowId_Get rid \<noteq> RowId_Get INVALID_ROWID"
  shows "TP_GetTuple schema d \<lparr>row_rid = rid, row_fields = []\<rparr> =
    (case m (unat (rid_slot rid)) of Some (False, fs) \<Rightarrow> Some (True, \<lparr>row_rid = rid, row_fields = fs\<rparr>)
     | _ \<Rightarrow> Some (False, \<lparr>row_rid = rid, row_fields = []\<rparr>))"
proof (cases "m (unat (rid_slot rid))")
  case None
  note D = tp_invD [OF tp_repD(1) [OF rep]]
  have "unat (rid_slot rid) < unat (tp_cnt d) \<Longrightarrow> tp_size d (unat (rid_slot rid)) = 0"
    using tp_repD(3) [OF rep, of "unat (rid_slot rid)"] None by (simp add: slot_rep_def)
  with None rid D(1) D(6) [of "unat (rid_slot rid)"] show ?thesis
    by (cases "unat (rid_slot rid) < unat (tp_cnt d)") (simp_all add: TP_GetTuple_def ensure_def tp_getters IsDeleted_iff)
next
  case (Some v)
  obtain del fs where v: "v = (del, fs)" by force
  note S = tp_rep_slot [OF rep Some [unfolded v]] and D = tp_invD [OF tp_repD(1) [OF rep]]
  show ?thesis
  proof (cases del)
    case True
    with S Some v rid D(1) D(6) [OF S(1)] show ?thesis by (simp add: TP_GetTuple_def ensure_def tp_getters)
  next
    case False
    have "row_ok schema rid \<lparr>row_rid = rid, row_fields = fs\<rparr>" using S(4) by (simp add: row_ok_fields [of schema rid])
    moreover have "tp_bytes d (unat (rid_slot rid)) = row_encode \<lparr>row_rid = rid, row_fields = fs\<rparr>"
      using S(5) row_encode_fields [of "\<lparr>row_rid = rid, row_fields = fs\<rparr>"] by simp
    ultimately show ?thesis
      using TP_GetTuple_ok [OF tp_repD(1) [OF rep] S(1)] S(3) False rid Some v by simp
  qed
qed

theorem table_page_get_witness:
  "TP_GetTuple sample_schema sample_page1 \<lparr>row_rid = sample_rid, row_fields = []\<rparr> = Some (True, \<lparr>row_rid = sample_rid, row_fields = row_fields sample_row\<rparr>)"
  using table_page_get [OF sample_page1(1) sample_rid(1)] by (simp add: sample_rid)

text \<open>
  C26: deletion in two phases. \<^verbatim>\<open>MarkDelete\<close> marks a live tuple and refuses an empty, marked or non-existent slot;
  \<^verbatim>\<open>RollbackDelete\<close> takes the mark back, so that mark and rollback leave all tuples as they were; \<^verbatim>\<open>ApplyDelete\<close> removes the
  tuple, gives its bytes back to the free space by moving the tuples stored below it, and leaves every other tuple readable
  in its slot.
\<close>

theorem table_page_delete:
  assumes "tp_rep schema d m" "unat (rid_slot rid) = k"
  shows "(case m k of
      Some (False, fs) \<Rightarrow> \<exists>d'. TP_MarkDelete d rid = Some (True, d') \<and> tp_rep schema d' (m(k \<mapsto> (True, fs)))
    | _ \<Rightarrow> TP_MarkDelete d rid = Some (False, d)) \<and>
    (\<forall>del fs. m k = Some (del, fs) \<longrightarrow>
      (\<exists>d'. TP_RollbackDelete d rid = Some d' \<and> tp_rep schema d' (m(k \<mapsto> (False, fs)))) \<and>
      (\<exists>d'. TP_ApplyDelete d rid = Some d' \<and> tp_rep schema d' (m(k := None)) \<and>
        unat (tp_fsp d') = unat (tp_fsp d) + length (row_encode (row_of fs))))"
  using delete_rep [OF assms] by (rule conjI)

theorem table_page_delete_witness:
  "\<exists>d'. TP_MarkDelete sample_page1 sample_rid = Some (True, d') \<and> tp_rep sample_schema d' [0 \<mapsto> (True, row_fields sample_row)]"
  using table_page_delete [OF sample_page1(1) sample_rid(2)] by simp

text \<open>
  C20: update in place. A live tuple is replaced by a new row of any size that fits into the free space plus the old tuple:
  the tuples below it move, the old row is returned, and the page represents the old map with the slot's fields replaced.
\<close>

theorem table_page_update:
  assumes rep: "tp_rep schema d m" and m: "m (unat (rid_slot rid)) = Some (False, fs)"
    and rid: "RowId_Get rid \<noteq> RowId_Get INVALID_ROWID"
    and new: "row_ok schema rid' r_new" "Row_GetSerializedSize schema r_new = Some n"
    and fit: "n \<le> unat (tp_fsp d) - 24 - 8 * unat (tp_cnt d) + length (row_encode (row_of fs))"
  shows "\<exists>d'. TP_UpdateTuple schema d r_new \<lparr>row_rid = rid, row_fields = []\<rparr> = Some (True, d', \<lparr>row_rid = rid, row_fields = fs\<rparr>) \<and>
    tp_rep schema d' (m(unat (rid_slot rid) \<mapsto> (False, row_fields r_new)))"
proof -
  let ?k = "unat (rid_slot rid)"
  note inv = tp_repD(1) [OF rep]
  note S = tp_rep_slot [OF rep m] and D = tp_invD [OF inv]
  note K = D(4) [OF S(1,2)]
  have len: "length (row_encode (row_of fs)) = tp_len d ?k" using K D(1) by (simp flip: S(5) add: tp_bytes_def)
  have old: "row_ok schema rid \<lparr>row_rid = rid, row_fields = fs\<rparr>" "tp_bytes d ?k = row_encode \<lparr>row_rid = rid, row_fields = fs\<rparr>"
    using S(4,5) row_encode_fields [of "\<lparr>row_rid = rid, row_fields = fs\<rparr>"] by (simp_all add: row_ok_fields [of schema rid])
  have live: "\<not> IsDeleted (tp_size d ?k)" using S(3) by simp
  obtain d' where U: "TP_UpdateTuple schema d r_new \<lparr>row_rid = rid, row_fields = []\<rparr> = Some (True, d', \<lparr>row_rid = rid, row_fields = fs\<rparr>)"
    "tp_inv d'" "tp_pid d' = tp_pid d" "tp_cnt d' = tp_cnt d" "tp_size d' ?k = of_nat n" "tp_bytes d' ?k = row_encode r_new"
    "\<And>j. j < unat (tp_cnt d) \<Longrightarrow> j \<noteq> ?k \<Longrightarrow> tp_size d' j = tp_size d j \<and> (tp_size d j \<noteq> 0 \<longrightarrow> tp_bytes d' j = tp_bytes d j)"
    by (rule TP_UpdateTuple_ok [OF inv S(1) live refl rid old new fit [unfolded len]], rule that, blast+)
  have n: "0 < n" "n < 2 ^ 31" using row_size_pos [OF new] fit len K D(3) unfolding PAGE_SIZE_def by simp_all linarith
  have "slot_rep schema d' ?k (Some (False, row_fields r_new))"
    using U(5,6) n of_nat_u32_nonzero [of n] small_not_deleted [of "of_nat n"] new(1)
    by (auto simp: slot_rep_def IsDeleted_iff row_ok_fields [of schema rid'] row_encode_fields [of r_new])
  then show ?thesis
    using U S(1) by (intro exI [of _ d'] conjI tp_rep_upd [OF rep U(2)]) (simp_all add: max_def)
qed

theorem table_page_update_witness:
  "\<exists>d'. TP_UpdateTuple sample_schema sample_page1 sample_row \<lparr>row_rid = sample_rid, row_fields = []\<rparr> =
     Some (True, d', \<lparr>row_rid = sample_rid, row_fields = row_fields sample_row\<rparr>)"
  using table_page_update [OF sample_page1(1) _ sample_rid(1) sample_row_ok] by (auto simp: sample_page1 sample_rid)

lemma next_live_find:
  "length d = PAGE_SIZE \<Longrightarrow> 24 + 8 * (i + n) \<le> PAGE_SIZE \<Longrightarrow>
   next_live d i n = Some (find (\<lambda>j. \<not> IsDeleted (tp_size d j)) [i..<i + n])"
proof (induction n arbitrary: i)
  case (Suc n)
  have "[i..<i + Suc n] = i # [Suc i..<Suc i + n]" by (simp add: upt_conv_Cons del: upt_Suc)
  with Suc show ?case by (simp add: tp_getters del: upt_Suc)
qed simp

lemma filter_find_None: "find P xs = None \<Longrightarrow> filter P xs = []"
  by (simp add: find_None_iff filter_empty_conv)

lemma filter_upt_find: "find P [a..<b] = Some j \<Longrightarrow> filter P [a..<b] = j # filter P [Suc j..<b]"
proof (induction "b - a" arbitrary: a)
  case (Suc n)
  have "[a..<b] = a # [Suc a..<b]" using Suc.hyps(2) by (simp add: upt_conv_Cons)
  with Suc.hyps(1) [of "Suc a"] Suc.hyps(2) Suc.prems show ?case by (auto split: if_splits)
qed simp

text \<open>Iterating with \<^verbatim>\<open>GetNextTupleRid\<close> from a row id until it returns false, at most \<open>n\<close> times.\<close>

fun tp_walk :: "buffer \<Rightarrow> nat \<Rightarrow> rowid \<Rightarrow> rowid list option" where
  "tp_walk d 0 rid = None"
| "tp_walk d (Suc n) rid = do {
     (found, next_rid) \<leftarrow> GetNextTupleRid d rid;
     if found then map_option (Cons rid) (tp_walk d n next_rid) else Some [rid] }"

definition slot_rid :: "buffer \<Rightarrow> nat \<Rightarrow> rowid" where
  "slot_rid d i = \<lparr>rid_page = sint (tp_pid d), rid_slot = of_nat i\<rparr>"

lemma tp_walk_live:
  assumes inv: "tp_inv d"
  shows "i < unat (tp_cnt d) \<Longrightarrow> unat (tp_cnt d) \<le> i + n \<Longrightarrow>
    tp_walk d n (slot_rid d i) = Some (map (slot_rid d) (i # filter (\<lambda>j. \<not> IsDeleted (tp_size d j)) [Suc i..<unat (tp_cnt d)]))"
proof (induction n arbitrary: i)
  case (Suc n)
  note D = tp_invD [OF inv]
  let ?c = "unat (tp_cnt d)" and ?P = "\<lambda>j. \<not> IsDeleted (tp_size d j)"
  have i: "unat (of_nat i + 1 :: u32) = Suc i" using Suc.prems(1) D(2,3) by (simp add: unat_word_ariths PAGE_SIZE_def)
  have nl: "next_live d (Suc i) (?c - Suc i) = Some (find ?P [Suc i..<?c])"
    using next_live_find [OF D(1), of "Suc i" "?c - Suc i"] Suc.prems(1) D(2,3) by (simp del: upt_Suc)
  show ?case
  proof (cases "find ?P [Suc i..<?c]")
    case None
    with nl i D(1) filter_find_None [OF None] show ?thesis
      by (simp add: GetNextTupleRid_def tp_getters slot_rid_def del: upt_Suc)
  next
    case (Some j)
    then have j: "j < ?c" "i < j" by (auto simp: find_Some_iff)
    have next_rid: "GetNextTupleRid d (slot_rid d i) = Some (True, slot_rid d j)"
      using nl Some i D(1) by (simp add: GetNextTupleRid_def tp_getters slot_rid_def del: upt_Suc)
    show ?thesis using Suc.IH [OF j(1)] j(2) Suc.prems(2) filter_upt_find [OF Some] next_rid by simp
  qed
qed simp

text \<open>
  C27: iteration over a page. \<^verbatim>\<open>GetFirstTupleRid\<close> followed by \<^verbatim>\<open>GetNextTupleRid\<close> until it fails visits exactly the live tuples
  of the page, each once, in slot order, and ends after at most as many steps as the page has slots; on a page without live
  tuples \<^verbatim>\<open>GetFirstTupleRid\<close> returns false and the invalid row id.
\<close>

theorem table_page_iteration:
  assumes rep: "tp_rep schema d m"
  defines "live \<equiv> map (slot_rid d) (filter (\<lambda>i. \<exists>fs. m i = Some (False, fs)) [0..<unat (tp_cnt d)])"
  shows "if live = [] then GetFirstTupleRid d = Some (False, INVALID_ROWID)
    else GetFirstTupleRid d = Some (True, hd live) \<and> tp_walk d (unat (tp_cnt d)) (hd live) = Some live"
proof -
  note inv = tp_repD(1) [OF rep]
  note D = tp_invD [OF inv]
  let ?c = "unat (tp_cnt d)" and ?P = "\<lambda>j. \<not> IsDeleted (tp_size d j)"
  have "(\<exists>fs. m i = Some (False, fs)) \<longleftrightarrow> ?P i" if "i < ?c" for i
    using tp_repD(3) [OF rep that] by (cases "m i") (auto simp: slot_rep_def IsDeleted_iff)
  then have live: "live = map (slot_rid d) (filter ?P [0..<?c])" unfolding live_def by (intro arg_cong [where f = "map (slot_rid d)"] filter_cong) auto
  have nl: "next_live d 0 ?c = Some (find ?P [0..<?c])" using next_live_find [OF D(1), of 0 ?c] D(2,3) by simp
  show ?thesis
  proof (cases "find ?P [0..<?c]")
    case None
    with nl D(1) filter_find_None [OF None] live show ?thesis by (simp add: GetFirstTupleRid_def tp_getters INVALID_ROWID_def)
  next
    case (Some j)
    then have j: "j < ?c" by (auto simp: find_Some_iff)
    have l: "live = map (slot_rid d) (j # filter ?P [Suc j..<?c])" unfolding live filter_upt_find [OF Some] ..
    moreover have "GetFirstTupleRid d = Some (True, slot_rid d j)"
      using nl Some D(1) by (simp add: GetFirstTupleRid_def tp_getters slot_rid_def)
    ultimately show ?thesis using tp_walk_live [OF inv j, of ?c] by simp
  qed
qed

theorem table_page_iteration_witness:
  "GetFirstTupleRid sample_page1 = Some (True, slot_rid sample_page1 0) \<and>
   tp_walk sample_page1 1 (slot_rid sample_page1 0) = Some [slot_rid sample_page1 0]"
  using table_page_iteration [OF sample_page1(1)] by (simp add: sample_page1)

end
