(* ===== verification/Bitmap_Page.thy ===== *)
theory Bitmap_Page
  imports Interfaces
begin

text \<open>
  The free-page bitmap of one extent: \<^verbatim>\<open>BitmapPage<PageSize>\<close> of
  \<^verbatim>\<open>include/page/bitmap_page.h\<close> and \<^verbatim>\<open>page/bitmap_page.cpp\<close>. The template parameter is the
  argument \<open>ps\<close> of every operation. Abstractly a bitmap is the set \<open>bm_allocated\<close> of the page
  offsets whose bit is set; the lemmas show that the operations implement insertion of a fresh
  offset and removal on that set, and that the search loop of \<^verbatim>\<open>AllocatePage\<close> ends.
\<close>

section \<open>Model\<close>

record bitmap_page =
  page_allocated :: u32
  next_free_page :: u32
  bm_bytes :: "byte list"

definition MAX_CHARS :: "nat \<Rightarrow> nat" where
  "MAX_CHARS ps = ps - 2 * 4"

definition MAX_PAGES :: "nat \<Rightarrow> nat" where
  "MAX_PAGES ps = (ps - 2 * 4) * 8"

definition BitmapPage_new :: "nat \<Rightarrow> bitmap_page" where
  "BitmapPage_new ps =
     \<lparr>page_allocated = 0, next_free_page = 0, bm_bytes = replicate (MAX_CHARS ps) 0\<rparr>"

definition GetMaxSupportedSize :: "nat \<Rightarrow> nat" where
  "GetMaxSupportedSize ps = 8 * MAX_CHARS ps"

definition bm_set :: "bitmap_page \<Rightarrow> u32 \<Rightarrow> bitmap_page option" where
  "bm_set b x =
     (let i = unat (drop_bit 3 x); k = unat (x AND 7) in
      if i < length (bm_bytes b)
      then Some (b\<lparr>bm_bytes := (bm_bytes b)[i := bm_bytes b ! i OR push_bit k 1]\<rparr>)
      else None)"

definition bm_reset :: "bitmap_page \<Rightarrow> u32 \<Rightarrow> bitmap_page option" where
  "bm_reset b x =
     (let i = unat (drop_bit 3 x); k = unat (x AND 7) in
      if i < length (bm_bytes b)
      then Some (b\<lparr>bm_bytes := (bm_bytes b)[i := bm_bytes b ! i AND (255 XOR push_bit k 1)]\<rparr>)
      else None)"

definition bm_get :: "bitmap_page \<Rightarrow> u32 \<Rightarrow> bool option" where
  "bm_get b x =
     (let i = unat (drop_bit 3 x); k = unat (x AND 7) in
      if i < length (bm_bytes b) then Some (drop_bit k (bm_bytes b ! i) AND 1 \<noteq> 0) else None)"

definition BM_IsPageFree :: "nat \<Rightarrow> bitmap_page \<Rightarrow> u32 \<Rightarrow> bool option" where
  "BM_IsPageFree ps b page_offset =
     (if unat page_offset \<ge> MAX_PAGES ps then Some False
      else map_option Not (bm_get b page_offset))"

definition IsPageFreeLow :: "nat \<Rightarrow> bitmap_page \<Rightarrow> u32 \<Rightarrow> byte \<Rightarrow> bool option" where
  "IsPageFreeLow ps b byte_index bit_index =
     (if unat (byte_index * 8 + ucast bit_index) \<ge> MAX_PAGES ps then Some False
      else if unat byte_index < length (bm_bytes b)
      then Some ((ucast (bm_bytes b ! unat byte_index) AND push_bit (unat bit_index) (1::u32)) XOR 1 \<noteq> 0)
      else None)"

text \<open>The \<^verbatim>\<open>while\<close> loop of \<^verbatim>\<open>AllocatePage\<close>, which moves the cursor to the next free bit.\<close>

definition next_cursor :: "nat \<Rightarrow> u32 \<Rightarrow> u32" where
  "next_cursor ps n = (if unat (n + 1) \<ge> MAX_PAGES ps then of_nat (unat (n + 1) mod MAX_PAGES ps) else n + 1)"

partial_function (option) advance_free :: "nat \<Rightarrow> bitmap_page \<Rightarrow> bitmap_page option" where
  "advance_free ps b = do {
     free \<leftarrow> BM_IsPageFree ps b (next_free_page b);
     if free then Some b
     else advance_free ps (b\<lparr>next_free_page := next_cursor ps (next_free_page b)\<rparr>) }"

text \<open>Result: the Boolean, the output parameter \<^verbatim>\<open>page_offset\<close> (\<^term>\<open>None\<close> when not written), the page.\<close>

definition BM_AllocatePage :: "nat \<Rightarrow> bitmap_page \<Rightarrow> (bool \<times> u32 option \<times> bitmap_page) option" where
  "BM_AllocatePage ps b =
     (if unat (page_allocated b + 1) > MAX_PAGES ps then Some (False, None, b)
      else do {
        b2 \<leftarrow> bm_set (b\<lparr>page_allocated := page_allocated b + 1\<rparr>) (next_free_page b);
        b3 \<leftarrow> (if unat (page_allocated b2) = MAX_PAGES ps
              then Some (b2\<lparr>next_free_page := 0\<rparr>) else advance_free ps b2);
        Some (True, Some (next_free_page b), b3) })"

definition BM_DeAllocatePage :: "nat \<Rightarrow> bitmap_page \<Rightarrow> u32 \<Rightarrow> (bool \<times> bitmap_page) option" where
  "BM_DeAllocatePage ps b page_offset = do {
     free \<leftarrow> (if unat page_offset \<ge> MAX_PAGES ps then Some True else BM_IsPageFree ps b page_offset);
     if free then Some (False, b)
     else do {
       b1 \<leftarrow> bm_reset b page_offset;
       let b2 = (if unat (page_allocated b1) = MAX_PAGES ps
                 then b1\<lparr>next_free_page := page_offset\<rparr> else b1);
       Some (True, b2\<lparr>page_allocated := page_allocated b2 - 1\<rparr>) } }"

section \<open>Abstraction and invariant\<close>

definition bm_allocated :: "nat \<Rightarrow> bitmap_page \<Rightarrow> nat set" where
  "bm_allocated ps b = {i. i < MAX_PAGES ps \<and> bit (bm_bytes b ! (i div 8)) (i mod 8)}"

definition bitmap_inv :: "nat \<Rightarrow> bitmap_page \<Rightarrow> bool" where
  "bitmap_inv ps b \<longleftrightarrow>
     0 < MAX_PAGES ps \<and> MAX_PAGES ps < 2 ^ 31 \<and> length (bm_bytes b) = MAX_CHARS ps \<and>
     unat (page_allocated b) = card (bm_allocated ps b) \<and>
     unat (next_free_page b) < MAX_PAGES ps \<and>
     (card (bm_allocated ps b) < MAX_PAGES ps \<longrightarrow> unat (next_free_page b) \<notin> bm_allocated ps b)"

declare bitmap_inv_def [inv_defs]

lemma bitmap_invD:
  assumes "bitmap_inv ps b"
  shows "length (bm_bytes b) = MAX_CHARS ps" "unat (page_allocated b) = card (bm_allocated ps b)"
    "unat (next_free_page b) < MAX_PAGES ps" "MAX_PAGES ps < 2 ^ 31" "0 < MAX_PAGES ps"
  using assms by (auto simp: bitmap_inv_def)

lemma unat_and_7: "unat ((x :: u32) AND 7) = unat x mod 8"
proof -
  have "x AND 7 = take_bit 3 x"
    by (simp add: take_bit_eq_mask mask_eq_exp_minus_1)
  then show ?thesis by (simp add: take_bit_eq_mod unat_mod)
qed

lemma unat_drop_3: "unat (drop_bit 3 (x :: u32)) = unat x div 8"
  by (simp add: drop_bit_eq_div unat_div)

lemma MAX_PAGES_chars: "i < MAX_PAGES ps \<Longrightarrow> i div 8 < MAX_CHARS ps"
  by (simp add: MAX_PAGES_def MAX_CHARS_def less_mult_imp_div_less)

lemma odd_drop_bit_byte: "(drop_bit k (w :: byte) AND 1 \<noteq> 0) = bit w k"
  by (simp add: and_one_eq odd_iff_mod_2_eq_one bit_iff_odd_drop_bit)

lemma finite_bm_allocated [simp]: "finite (bm_allocated ps b)"
  by (rule finite_subset [of _ "{..<MAX_PAGES ps}"]) (auto simp: bm_allocated_def)

lemma card_bm_allocated_le: "card (bm_allocated ps b) \<le> MAX_PAGES ps"
  by (rule order_trans [OF card_mono [of "{..<MAX_PAGES ps}"]]) (auto simp: bm_allocated_def)

lemma bm_get_eq:
  "length (bm_bytes b) = MAX_CHARS ps \<Longrightarrow> unat x < MAX_PAGES ps \<Longrightarrow>
   bm_get b x = Some (unat x \<in> bm_allocated ps b)"
  by (simp add: bm_get_def Let_def unat_and_7 unat_drop_3 odd_drop_bit_byte bm_allocated_def MAX_PAGES_chars)

lemma IsPageFree_eq:
  "length (bm_bytes b) = MAX_CHARS ps \<Longrightarrow>
   BM_IsPageFree ps b x = Some (unat x < MAX_PAGES ps \<and> unat x \<notin> bm_allocated ps b)"
  by (simp add: BM_IsPageFree_def bm_get_eq not_less)

lemma div_mod_8_cases: "(i :: nat) div 8 = j div 8 \<Longrightarrow> i mod 8 = j mod 8 \<Longrightarrow> i = j"
  by (metis div_mult_mod_eq)

lemma bm_set_eq:
  assumes "length (bm_bytes b) = MAX_CHARS ps" "unat x < MAX_PAGES ps"
  obtains b' where "bm_set b x = Some b'" "page_allocated b' = page_allocated b"
    "next_free_page b' = next_free_page b" "length (bm_bytes b') = MAX_CHARS ps"
    "bm_allocated ps b' = insert (unat x) (bm_allocated ps b)"
proof
  let ?i = "unat x div 8" and ?k = "unat x mod 8"
  let ?b' = "b\<lparr>bm_bytes := (bm_bytes b)[?i := bm_bytes b ! ?i OR push_bit ?k 1]\<rparr>"
  show "bm_set b x = Some ?b'"
    using assms by (simp add: bm_set_def Let_def unat_and_7 unat_drop_3 MAX_PAGES_chars)
  show "bm_allocated ps ?b' = insert (unat x) (bm_allocated ps b)"
    using assms MAX_PAGES_chars [of _ ps]
    by (auto simp: bm_allocated_def nth_list_update bit_simps dest: div_mod_8_cases split: if_splits)
qed (use assms in auto)

lemma bm_reset_eq:
  assumes "length (bm_bytes b) = MAX_CHARS ps" "unat x < MAX_PAGES ps"
  obtains b' where "bm_reset b x = Some b'" "page_allocated b' = page_allocated b"
    "next_free_page b' = next_free_page b" "length (bm_bytes b') = MAX_CHARS ps"
    "bm_allocated ps b' = bm_allocated ps b - {unat x}"
proof
  let ?i = "unat x div 8" and ?k = "unat x mod 8"
  let ?b' = "b\<lparr>bm_bytes := (bm_bytes b)[?i := bm_bytes b ! ?i AND (255 XOR push_bit ?k 1)]\<rparr>"
  have ff: "(255 :: byte) = mask 8"
    by (simp add: mask_eq_exp_minus_1)
  show "bm_reset b x = Some ?b'"
    using assms by (simp add: bm_reset_def Let_def unat_and_7 unat_drop_3 MAX_PAGES_chars)
  show "bm_allocated ps ?b' = bm_allocated ps b - {unat x}"
    using assms MAX_PAGES_chars [of _ ps]
    by (auto simp: bm_allocated_def nth_list_update bit_simps ff dest: div_mod_8_cases split: if_splits)
qed (use assms in auto)

section \<open>The search loop\<close>

lemma advance_free_ex:
  assumes "length (bm_bytes b) = MAX_CHARS ps" "0 < MAX_PAGES ps" "MAX_PAGES ps < 2 ^ 31"
    "unat (next_free_page b) < MAX_PAGES ps" "j < MAX_PAGES ps" "j \<notin> bm_allocated ps b"
    "d = (j + MAX_PAGES ps - unat (next_free_page b)) mod MAX_PAGES ps"
  shows "\<exists>w. advance_free ps b = Some (b\<lparr>next_free_page := w\<rparr>) \<and> unat w < MAX_PAGES ps \<and>
    unat w \<notin> bm_allocated ps b"
  using assms
proof (induction d arbitrary: b)
  case 0
  then have "unat (next_free_page b) = j"
    by (auto simp: mod_if split: if_splits)
  with 0 show ?case
    by (intro exI [of _ "next_free_page b"]) (simp add: advance_free.simps IsPageFree_eq)
next
  case (Suc d)
  let ?n = "unat (next_free_page b)" and ?M = "MAX_PAGES ps"
  let ?b' = "b\<lparr>next_free_page := next_cursor ps (next_free_page b)\<rparr>"
  have n': "unat (next_free_page b + 1) = Suc ?n"
    using Suc.prems(3,4) by (intro unat_plus_one_u32) simp
  have cur: "unat (next_cursor ps (next_free_page b)) = (if Suc ?n = ?M then 0 else Suc ?n)"
    using Suc.prems(3,4) by (auto simp: next_cursor_def n')
  show ?case
  proof (cases "?n \<in> bm_allocated ps b")
    case False
    with Suc.prems show ?thesis
      by (intro exI [of _ "next_free_page b"]) (simp add: advance_free.simps IsPageFree_eq)
  next
    case True
    have eq: "bm_allocated ps ?b' = bm_allocated ps b"
      by (simp add: bm_allocated_def)
    have "d = (j + ?M - unat (next_free_page ?b')) mod ?M"
      using Suc.prems(4,5,7) cur by (auto simp: mod_if split: if_splits)
    with Suc.IH [of ?b'] Suc.prems eq cur obtain w where
      "advance_free ps ?b' = Some (?b'\<lparr>next_free_page := w\<rparr>)" "unat w < ?M"
      "unat w \<notin> bm_allocated ps b"
      by (auto split: if_splits)
    with True Suc.prems show ?thesis
      by (intro exI [of _ w]) (simp add: advance_free.simps [of ps b] IsPageFree_eq)
  qed
qed

section \<open>Behaviour of the operations\<close>

lemma bitmap_alloc_ok:
  assumes inv: "bitmap_inv ps b" and space: "card (bm_allocated ps b) < MAX_PAGES ps"
  obtains b' where "BM_AllocatePage ps b = Some (True, Some (next_free_page b), b')"
    "bitmap_inv ps b'" "unat (next_free_page b) \<notin> bm_allocated ps b"
    "bm_allocated ps b' = insert (unat (next_free_page b)) (bm_allocated ps b)"
proof -
  note D = bitmap_invD [OF inv]
  let ?b1 = "b\<lparr>page_allocated := page_allocated b + 1\<rparr>" and ?x = "next_free_page b"
  have new: "unat ?x \<notin> bm_allocated ps b"
    using inv space by (simp add: bitmap_inv_def)
  have cnt: "unat (page_allocated b + 1) = Suc (card (bm_allocated ps b))"
    using D space by (subst unat_plus_one_u32) auto
  obtain b2 where b2: "bm_set ?b1 ?x = Some b2" "page_allocated b2 = page_allocated ?b1"
    "next_free_page b2 = ?x" "length (bm_bytes b2) = MAX_CHARS ps"
    "bm_allocated ps b2 = insert (unat ?x) (bm_allocated ps b)"
    by (rule bm_set_eq [of ?b1 ps ?x]) (use D in \<open>auto simp: bm_allocated_def\<close>)
  have card2: "card (bm_allocated ps b2) = Suc (card (bm_allocated ps b))"
    using new by (simp add: b2)
  show thesis
  proof (cases "Suc (card (bm_allocated ps b)) = MAX_PAGES ps")
    case True
    let ?b3 = "b2\<lparr>next_free_page := 0\<rparr>"
    have eq: "bm_allocated ps ?b3 = bm_allocated ps b2" by (simp add: bm_allocated_def)
    show thesis
    proof (rule that [of ?b3])
      show "BM_AllocatePage ps b = Some (True, Some ?x, ?b3)"
        using True b2(1,2) cnt by (simp add: BM_AllocatePage_def)
      show "bitmap_inv ps ?b3"
        unfolding bitmap_inv_def eq card2 using True D b2(2,4) cnt by simp
    qed (use new b2(5) eq in simp_all)
  next
    case False
    have "\<exists>j < MAX_PAGES ps. j \<notin> bm_allocated ps b2"
    proof (rule ccontr)
      assume "\<not> ?thesis"
      then have "{..<MAX_PAGES ps} \<subseteq> bm_allocated ps b2" by auto
      then have "MAX_PAGES ps \<le> card (bm_allocated ps b2)"
        by (metis card_lessThan card_mono finite_bm_allocated)
      with False space card2 show False by simp
    qed
    then obtain j where j: "j < MAX_PAGES ps" "j \<notin> bm_allocated ps b2" by blast
    have x2: "unat (next_free_page b2) < MAX_PAGES ps"
      using D(3) b2(3) by simp
    from advance_free_ex [OF b2(4) D(5,4) x2 j refl] obtain w where
      w: "advance_free ps b2 = Some (b2\<lparr>next_free_page := w\<rparr>)"
      "unat w < MAX_PAGES ps" "unat w \<notin> bm_allocated ps b2" by blast
    let ?b3 = "b2\<lparr>next_free_page := w\<rparr>"
    have eq: "bm_allocated ps ?b3 = bm_allocated ps b2" by (simp add: bm_allocated_def)
    show thesis
    proof (rule that [of ?b3])
      show "BM_AllocatePage ps b = Some (True, Some ?x, ?b3)"
        using False space b2(1,2) cnt w(1) by (simp add: BM_AllocatePage_def)
      show "bitmap_inv ps ?b3"
        unfolding bitmap_inv_def eq card2 using D b2(2,4) cnt w by simp
    qed (use new b2(5) eq in simp_all)
  qed
qed

lemma bitmap_alloc_full:
  assumes "bitmap_inv ps b" "card (bm_allocated ps b) = MAX_PAGES ps"
  shows "BM_AllocatePage ps b = Some (False, None, b)"
proof -
  from bitmap_invD [OF assms(1)] assms(2) have "unat (page_allocated b + 1) = Suc (MAX_PAGES ps)"
    by (subst unat_plus_one_u32) auto
  then show ?thesis by (simp add: BM_AllocatePage_def)
qed

lemma bitmap_dealloc_ok:
  assumes inv: "bitmap_inv ps b" and "unat x \<in> bm_allocated ps b"
  obtains b' where "BM_DeAllocatePage ps b x = Some (True, b')" "bitmap_inv ps b'"
    "bm_allocated ps b' = bm_allocated ps b - {unat x}"
proof -
  note D = bitmap_invD [OF inv]
  have x: "unat x < MAX_PAGES ps"
    using assms(2) by (simp add: bm_allocated_def)
  obtain b1 where b1: "bm_reset b x = Some b1" "page_allocated b1 = page_allocated b"
    "next_free_page b1 = next_free_page b" "length (bm_bytes b1) = MAX_CHARS ps"
    "bm_allocated ps b1 = bm_allocated ps b - {unat x}"
    by (rule bm_reset_eq [OF D(1) x])
  have pos: "0 < card (bm_allocated ps b)"
    using assms(2) by (auto simp: card_gt_0_iff)
  have card1: "card (bm_allocated ps b1) = card (bm_allocated ps b) - 1"
    using assms(2) by (simp add: b1)
  have cnt: "unat (page_allocated b - 1) = card (bm_allocated ps b) - 1"
    using D(2) pos unat_minus_one_u32 [of "page_allocated b"] by simp
  let ?b2 = "(if card (bm_allocated ps b) = MAX_PAGES ps then b1\<lparr>next_free_page := x\<rparr> else b1)
     \<lparr>page_allocated := page_allocated b - 1\<rparr>"
  have eq: "bm_allocated ps ?b2 = bm_allocated ps b - {unat x}"
    using b1(5) by (simp add: bm_allocated_def)
  have "bitmap_inv ps ?b2"
    using inv x b1 cnt card1 eq card_bm_allocated_le [of ps b] pos by (auto simp: bitmap_inv_def)
  moreover have "BM_DeAllocatePage ps b x = Some (True, ?b2)"
    using x D assms(2) b1 by (simp add: BM_DeAllocatePage_def IsPageFree_eq)
  ultimately show thesis using eq that by blast
qed

lemma bitmap_dealloc_free:
  assumes "bitmap_inv ps b" "unat x \<notin> bm_allocated ps b"
  shows "BM_DeAllocatePage ps b x = Some (False, b)"
  using assms bitmap_invD(1) [OF assms(1)] by (simp add: BM_DeAllocatePage_def IsPageFree_eq)

lemma bitmap_inv_new: "8 < ps \<Longrightarrow> ps < 2 ^ 28 \<Longrightarrow> bitmap_inv ps (BitmapPage_new ps)"
  by (auto simp: bitmap_inv_def BitmapPage_new_def MAX_PAGES_def MAX_CHARS_def bm_allocated_def
      nth_replicate less_mult_imp_div_less)

section \<open>The bitmap as an identifier allocator\<close>

definition bitmap_alloc :: "nat \<Rightarrow> bitmap_page \<Rightarrow> (nat option \<times> bitmap_page) option" where
  "bitmap_alloc ps b = map_option (\<lambda>(ok, off, b'). (if ok then map_option unat off else None, b'))
     (BM_AllocatePage ps b)"

definition bitmap_dealloc :: "nat \<Rightarrow> nat \<Rightarrow> bitmap_page \<Rightarrow> bitmap_page option" where
  "bitmap_dealloc ps i b = map_option snd (BM_DeAllocatePage ps b (of_nat i))"

interpretation bitmap: id_allocator_total
  "bitmap_inv ps" "bm_allocated ps" "\<lambda>b. card (bm_allocated ps b) < MAX_PAGES ps"
  "bitmap_alloc ps" "bitmap_dealloc ps"
  for ps
proof
  fix b
  assume "bitmap_inv ps b" "card (bm_allocated ps b) < MAX_PAGES ps"
  then obtain b' where "BM_AllocatePage ps b = Some (True, Some (next_free_page b), b')"
    "bitmap_inv ps b'" "unat (next_free_page b) \<notin> bm_allocated ps b"
    "bm_allocated ps b' = insert (unat (next_free_page b)) (bm_allocated ps b)"
    by (rule bitmap_alloc_ok)
  then show "\<exists>i b'. bitmap_alloc ps b = Some (Some i, b') \<and> i \<notin> bm_allocated ps b \<and>
      bm_allocated ps b' = insert i (bm_allocated ps b) \<and> bitmap_inv ps b'"
    by (simp add: bitmap_alloc_def)
next
  fix b i
  assume inv: "bitmap_inv ps b" and i: "i \<in> bm_allocated ps b"
  then have n: "unat (of_nat i :: u32) = i"
    by (auto simp: bm_allocated_def bitmap_inv_def)
  obtain b' where b': "BM_DeAllocatePage ps b (of_nat i) = Some (True, b')" "bitmap_inv ps b'"
    "bm_allocated ps b' = bm_allocated ps b - {i}"
    using bitmap_dealloc_ok [OF inv, of "of_nat i"] i n by metis
  have "card (bm_allocated ps b') < MAX_PAGES ps"
    using i b'(3) card_bm_allocated_le [of ps b]
    by (metis card_Diff1_less finite_bm_allocated order_less_le_trans)
  with b' show "\<exists>b'. bitmap_dealloc ps i b = Some b' \<and> bm_allocated ps b' = bm_allocated ps b - {i} \<and>
      bitmap_inv ps b' \<and> card (bm_allocated ps b') < MAX_PAGES ps"
    by (auto simp: bitmap_dealloc_def)
next
  fix b
  assume "bitmap_inv ps b" "\<not> card (bm_allocated ps b) < MAX_PAGES ps"
  then show "bitmap_alloc ps b = Some (None, b)"
    using card_bm_allocated_le [of ps b] by (simp add: bitmap_alloc_def bitmap_alloc_full)
qed

section \<open>Properties\<close>

text \<open>
  On every consistent bitmap, \<^verbatim>\<open>AllocatePage\<close> is total: a full bitmap is reported with \<^verbatim>\<open>false\<close> and
  left unchanged; otherwise the search loop ends and one offset that was free, and only that one, becomes
  allocated, its number is returned and the bitmap stays consistent (the cursor again points to a
  free page unless the bitmap is full).
\<close>

theorem bitmap_allocate_total:
  assumes "bitmap_inv ps b"
  shows "BM_AllocatePage ps b = Some (False, None, b) \<and> card (bm_allocated ps b) = MAX_PAGES ps \<or>
    (\<exists>x b'. BM_AllocatePage ps b = Some (True, Some x, b') \<and> unat x < MAX_PAGES ps \<and>
      unat x \<notin> bm_allocated ps b \<and> bm_allocated ps b' = insert (unat x) (bm_allocated ps b) \<and>
      bitmap_inv ps b')"
proof (cases "card (bm_allocated ps b) < MAX_PAGES ps")
  case True
  then obtain b' where "BM_AllocatePage ps b = Some (True, Some (next_free_page b), b')"
    "bitmap_inv ps b'" "unat (next_free_page b) \<notin> bm_allocated ps b"
    "bm_allocated ps b' = insert (unat (next_free_page b)) (bm_allocated ps b)"
    by (rule bitmap_alloc_ok [OF assms])
  moreover from this(4) have "unat (next_free_page b) < MAX_PAGES ps"
    by (auto simp: bm_allocated_def)
  ultimately show ?thesis by blast
next
  case False
  with card_bm_allocated_le [of ps b] bitmap_alloc_full [OF assms] show ?thesis by simp
qed

theorem bitmap_allocate_total_witness:
  "\<exists>x b'. BM_AllocatePage 64 (BitmapPage_new 64) = Some (True, Some x, b') \<and> bitmap_inv 64 b'"
proof -
  have "card (bm_allocated 64 (BitmapPage_new 64)) = 0"
    by (simp add: bm_allocated_def BitmapPage_new_def MAX_PAGES_def MAX_CHARS_def nth_replicate
        less_mult_imp_div_less)
  then show ?thesis
    using bitmap_allocate_total [OF bitmap_inv_new [of 64]] by (auto simp: MAX_PAGES_def)
qed

text \<open>
  \<^verbatim>\<open>DeAllocatePage\<close> of an allocated offset succeeds, frees exactly that offset and keeps the bitmap
  consistent, also when the bitmap was full and the cursor has to be repaired; for a free or an
  out-of-range offset it returns \<^verbatim>\<open>false\<close> and changes nothing.
\<close>

theorem bitmap_deallocate_total:
  assumes "bitmap_inv ps b"
  shows "if unat x \<in> bm_allocated ps b
    then \<exists>b'. BM_DeAllocatePage ps b x = Some (True, b') \<and> bitmap_inv ps b' \<and>
      bm_allocated ps b' = bm_allocated ps b - {unat x}
    else BM_DeAllocatePage ps b x = Some (False, b)"
  using bitmap_dealloc_ok [OF assms, of x] bitmap_dealloc_free [OF assms, of x] by (metis (full_types))

theorem bitmap_deallocate_total_witness:
  "BM_DeAllocatePage 64 (BitmapPage_new 64) 3 = Some (False, BitmapPage_new 64)"
proof -
  have "unat (3 :: u32) \<notin> bm_allocated 64 (BitmapPage_new 64)"
    by (simp add: bm_allocated_def BitmapPage_new_def MAX_PAGES_def MAX_CHARS_def nth_replicate)
  then show ?thesis
    using bitmap_deallocate_total [OF bitmap_inv_new [of 64], of 3] by simp
qed

text \<open>
  Any number of allocations from a newly created bitmap returns pairwise distinct offsets, as
  many as were asked for unless all \<^verbatim>\<open>MAX_PAGES\<close> offsets are in use.
\<close>

theorem bitmap_alloc_sequence:
  assumes "8 < ps" "ps < 2 ^ 28"
  shows "\<exists>is b. alloc_seq (bitmap_alloc ps) n (BitmapPage_new ps) = Some (is, b) \<and> distinct is \<and>
    bm_allocated ps b = set is \<and> (length is = n \<or> length is = MAX_PAGES ps)"
proof -
  have "bm_allocated ps (BitmapPage_new ps) = {}"
    by (auto simp: bm_allocated_def BitmapPage_new_def MAX_PAGES_def MAX_CHARS_def nth_replicate
        less_mult_imp_div_less)
  then obtain "is" b where "alloc_seq (bitmap_alloc ps) n (BitmapPage_new ps) = Some (is, b)" "distinct is"
    "bm_allocated ps b = set is" "length is = n \<or> \<not> card (set is) < MAX_PAGES ps"
    using bitmap.alloc_seq_distinct [OF bitmap_inv_new [OF assms], of n] by auto
  moreover from this have "length is \<le> MAX_PAGES ps"
    using card_bm_allocated_le [of ps b] by (simp add: distinct_card)
  ultimately show ?thesis by (intro exI [of _ "is"] exI [of _ b]) (auto simp: distinct_card)
qed

theorem bitmap_alloc_sequence_witness:
  "\<exists>is b. alloc_seq (bitmap_alloc 64) 500 (BitmapPage_new 64) = Some (is, b) \<and> distinct is \<and>
     (length is = 500 \<or> length is = 448)"
  using bitmap_alloc_sequence [of 64 500] by (auto simp: MAX_PAGES_def)

text \<open>
  The helper \<^verbatim>\<open>IsPageFreeLow\<close> negates with \<^verbatim>\<open>^1\<close> a value that is \<^verbatim>\<open>0\<close> or \<^verbatim>\<open>1 << bit_index\<close>; for every bit
  but bit 0 it therefore answers "free" whatever the bitmap holds, allocated pages included.
\<close>

theorem IsPageFreeLow_ignores_bitmap:
  assumes "unat bit_index \<noteq> 0" "unat byte_index < length (bm_bytes b)"
    "unat (byte_index * 8 + ucast bit_index) < MAX_PAGES ps"
  shows "IsPageFreeLow ps b byte_index bit_index = Some True"
proof -
  let ?v = "ucast (bm_bytes b ! unat byte_index) AND push_bit (unat bit_index) (1::u32)"
  have "\<not> bit ?v 0" using assms(1) by (simp add: bit_simps)
  then have "bit (?v XOR 1) 0" by (simp add: bit_xor_iff bit_1_iff)
  then have "?v XOR 1 \<noteq> 0" by auto
  with assms(2,3) show ?thesis by (simp add: IsPageFreeLow_def)
qed

theorem IsPageFreeLow_ignores_bitmap_witness:
  "IsPageFreeLow 64 \<lparr>page_allocated = 1, next_free_page = 0, bm_bytes = replicate 56 255\<rparr> 0 3 = Some True"
  by (rule IsPageFreeLow_ignores_bitmap) (simp_all add: MAX_PAGES_def)

end
