(* ===== verification/Disk_Manager.thy ===== *)
theory Disk_Manager
  imports Bitmap_Page
begin

text \<open>
  The database file: \<^verbatim>\<open>DiskManager\<close> (\<^verbatim>\<open>include/storage/disk_manager.h\<close>,
  \<^verbatim>\<open>storage/disk_manager.cpp\<close>) and \<^verbatim>\<open>DiskFileMetaPage\<close>. The file is a byte list behind an
  \<^verbatim>\<open>fstream\<close> with its open and failure flags; the meta page is the 4096-byte buffer
  \<^verbatim>\<open>meta_data_\<close>, read and written through the offsets of \<^verbatim>\<open>DiskFileMetaPage\<close>; the bitmap page of
  an extent is the overlay of \<^verbatim>\<open>BitmapPage<PAGE_SIZE>\<close> on a 4096-byte block. Offsets are computed
  at the widths of the source: \<^verbatim>\<open>ReadPhysicalPage\<close> multiplies in a signed 32-bit \<^verbatim>\<open>int\<close>.
\<close>

section \<open>Model\<close>

record fstream =
  fs_content :: "byte list"
  fs_open :: bool
  fs_fail :: bool

record disk_manager =
  db_io :: fstream
  closed :: bool
  meta_data :: buffer

definition BITMAP_SIZE :: nat where "BITMAP_SIZE = GetMaxSupportedSize PAGE_SIZE"
definition MAX_BITMAP :: nat where "MAX_BITMAP = (PAGE_SIZE - 8) div 4"
definition MAX_VALID_PAGE_ID :: int where
  "MAX_VALID_PAGE_ID = int ((PAGE_SIZE - 8) div 4 * GetMaxSupportedSize PAGE_SIZE)"

definition GetFileSize :: "fstream \<Rightarrow> int" where
  "GetFileSize f = sint (of_nat (length (fs_content f)) :: 32 word)"

definition int32_mult :: "int \<Rightarrow> int \<Rightarrow> int option" where
  "int32_mult a b = (if - (2 ^ 31) \<le> a * b \<and> a * b < 2 ^ 31 then Some (a * b) else None)"

definition ReadPhysicalPage :: "disk_manager \<Rightarrow> int \<Rightarrow> (buffer \<times> disk_manager) option" where
  "ReadPhysicalPage db physical_page_id = do {
     offset \<leftarrow> int32_mult physical_page_id (int PAGE_SIZE);
     if offset \<ge> GetFileSize (db_io db) then Some (replicate PAGE_SIZE 0, db)
     else
       let f = db_io db;
           page_data = (if fs_open f \<and> \<not> fs_fail f \<and> 0 \<le> offset
                        then slice (fs_content f) (nat offset) PAGE_SIZE else []);
           read_count = length page_data
       in if read_count < PAGE_SIZE
          then Some (page_data @ replicate (PAGE_SIZE - read_count) 0, db\<lparr>db_io := f\<lparr>fs_fail := True\<rparr>\<rparr>)
          else Some (page_data, db) }"

definition file_write :: "byte list \<Rightarrow> nat \<Rightarrow> byte list \<Rightarrow> byte list" where
  "file_write c off xs = take off (c @ replicate (off - length c) 0) @ xs @ drop (off + length xs) c"

definition WritePhysicalPage :: "disk_manager \<Rightarrow> int \<Rightarrow> buffer \<Rightarrow> disk_manager option" where
  "WritePhysicalPage db physical_page_id page_data =
     (let f = db_io db in
      if length page_data \<noteq> PAGE_SIZE then None
      else if fs_open f \<and> \<not> fs_fail f \<and> 0 \<le> physical_page_id
      then Some (db\<lparr>db_io := f\<lparr>fs_content := file_write (fs_content f) (nat physical_page_id * PAGE_SIZE) page_data\<rparr>\<rparr>)
      else Some (db\<lparr>db_io := f\<lparr>fs_fail := True\<rparr>\<rparr>))"

definition MapPageId :: "int \<Rightarrow> int" where
  "MapPageId logical_page_id =
     (let extent_id = logical_page_id div int BITMAP_SIZE; inner_index = logical_page_id mod int BITMAP_SIZE
      in extent_id * (int BITMAP_SIZE + 1) + inner_index + 2)"

definition DM_ReadPage :: "disk_manager \<Rightarrow> int \<Rightarrow> (buffer \<times> disk_manager) option" where
  "DM_ReadPage db logical_page_id = do {
     ensure (logical_page_id \<ge> 0);
     ReadPhysicalPage db (MapPageId logical_page_id) }"

definition DM_WritePage :: "disk_manager \<Rightarrow> int \<Rightarrow> buffer \<Rightarrow> disk_manager option" where
  "DM_WritePage db logical_page_id page_data = do {
     ensure (logical_page_id \<ge> 0);
     WritePhysicalPage db (MapPageId logical_page_id) page_data }"

definition DM_open :: "fstream \<Rightarrow> disk_manager option" where
  "DM_open f = do {
     (m, db) \<leftarrow> ReadPhysicalPage \<lparr>db_io = f, closed = False, meta_data = replicate PAGE_SIZE 0\<rparr> 0;
     Some (db\<lparr>meta_data := m\<rparr>) }"

definition DM_Close :: "disk_manager \<Rightarrow> disk_manager option" where
  "DM_Close db = do {
     db \<leftarrow> WritePhysicalPage db 0 (meta_data db);
     Some (if closed db then db else db\<lparr>db_io := (db_io db)\<lparr>fs_open := False\<rparr>, closed := True\<rparr>) }"

text \<open>\<^verbatim>\<open>DiskFileMetaPage\<close>: allocated pages at offset 0, extents at 4, the used-page array from 8.\<close>

definition GetAllocatedPages :: "buffer \<Rightarrow> u32 option" where "GetAllocatedPages m = get_u32 m 0"
definition GetExtentNums :: "buffer \<Rightarrow> u32 option" where "GetExtentNums m = get_u32 m 4"
definition extent_used_page :: "buffer \<Rightarrow> nat \<Rightarrow> u32 option" where "extent_used_page m e = get_u32 m (8 + 4 * e)"

definition GetExtentUsedPage :: "buffer \<Rightarrow> nat \<Rightarrow> u32 option" where
  "GetExtentUsedPage m extent_id = do {
     n \<leftarrow> GetExtentNums m;
     if extent_id \<ge> unat n then Some 0 else extent_used_page m extent_id }"

text \<open>The overlay of \<^verbatim>\<open>BitmapPage<PAGE_SIZE>\<close> on a page-sized buffer (\<^verbatim>\<open>reinterpret_cast\<close>).\<close>

definition bitmap_of_bytes :: "buffer \<Rightarrow> bitmap_page" where
  "bitmap_of_bytes bs = \<lparr>page_allocated = bytes_u32 (slice bs 0 4),
     next_free_page = bytes_u32 (slice bs 4 4), bm_bytes = drop 8 bs\<rparr>"

definition bytes_of_bitmap :: "bitmap_page \<Rightarrow> buffer" where
  "bytes_of_bitmap b = u32_bytes (page_allocated b) @ u32_bytes (next_free_page b) @ bm_bytes b"

function find_extent :: "buffer \<Rightarrow> nat \<Rightarrow> nat \<Rightarrow> nat option" where
  "find_extent m n i =
     (if i < n then do {
        u \<leftarrow> GetExtentUsedPage m i;
        if unat u < BITMAP_SIZE then Some i else find_extent m n (Suc i) }
      else Some i)"
  by pat_completeness auto
termination
  by (relation "measure (\<lambda>(m, n, i). n - i)") auto

declare find_extent.simps [simp del]

definition bitmap_block :: "nat \<Rightarrow> nat" where
  "bitmap_block e = e * (BITMAP_SIZE + 1) + 1"

text \<open>\<^verbatim>\<open>extent_used_page_[i]++; num_allocated_pages_++\<close>, and the same with \<^verbatim>\<open>--\<close>, by the amount \<open>d\<close>.\<close>

definition meta_count :: "buffer \<Rightarrow> nat \<Rightarrow> u32 \<Rightarrow> buffer option" where
  "meta_count m i d = do {
     u \<leftarrow> extent_used_page m i;
     m1 \<leftarrow> put_u32 m (8 + 4 * i) (u + d);
     a \<leftarrow> GetAllocatedPages m1;
     put_u32 m1 0 (a + d) }"

definition DM_AllocatePage :: "disk_manager \<Rightarrow> (int \<times> disk_manager) option" where
  "DM_AllocatePage db = do {
     n \<leftarrow> GetExtentNums (meta_data db);
     i \<leftarrow> find_extent (meta_data db) (unat n) 0;
     if i = unat n \<and> unat n = MAX_BITMAP then Some (INVALID_PAGE_ID, db)
     else do {
       m1 \<leftarrow> (if i = unat n then put_u32 (meta_data db) 4 (n + 1) else Some (meta_data db));
       (bm, db1) \<leftarrow> ReadPhysicalPage (db\<lparr>meta_data := m1\<rparr>) (int (bitmap_block i));
       m2 \<leftarrow> meta_count m1 i 1;
       (ok, inner_index, b) \<leftarrow> BM_AllocatePage PAGE_SIZE (bitmap_of_bytes bm);
       db2 \<leftarrow> WritePhysicalPage (db1\<lparr>meta_data := m2\<rparr>) (int (bitmap_block i)) (bytes_of_bitmap b);
       inner_index \<leftarrow> inner_index;
       Some (int (i * BITMAP_SIZE + unat inner_index), db2) } }"

definition DM_DeAllocatePage :: "disk_manager \<Rightarrow> int \<Rightarrow> disk_manager option" where
  "DM_DeAllocatePage db logical_page_id =
     (if logical_page_id \<ge> MAX_VALID_PAGE_ID then Some db
      else do {
        ensure (0 \<le> logical_page_id);
        let bitmap_id = (nat logical_page_id + BITMAP_SIZE) div BITMAP_SIZE - 1;
        let inner_index = nat logical_page_id mod BITMAP_SIZE;
        (bm, db1) \<leftarrow> ReadPhysicalPage db (int (bitmap_block bitmap_id));
        m \<leftarrow> meta_count (meta_data db1) bitmap_id (- 1);
        (ok, b) \<leftarrow> BM_DeAllocatePage PAGE_SIZE (bitmap_of_bytes bm) (of_nat inner_index);
        WritePhysicalPage (db1\<lparr>meta_data := m\<rparr>) (int (bitmap_block bitmap_id)) (bytes_of_bitmap b) })"

definition DM_IsPageFree :: "disk_manager \<Rightarrow> int \<Rightarrow> (bool \<times> disk_manager) option" where
  "DM_IsPageFree db logical_page_id =
     (if logical_page_id \<ge> MAX_VALID_PAGE_ID then Some (False, db)
      else do {
        ensure (0 \<le> logical_page_id);
        let bitmap_id = (nat logical_page_id + BITMAP_SIZE) div BITMAP_SIZE - 1;
        let inner_index = nat logical_page_id mod BITMAP_SIZE;
        (bm, db1) \<leftarrow> ReadPhysicalPage db (int (bitmap_block bitmap_id));
        is_free \<leftarrow> BM_IsPageFree PAGE_SIZE (bitmap_of_bytes bm) (of_nat inner_index);
        Some (is_free, db1) })"

section \<open>The file as a store of blocks\<close>

definition block :: "byte list \<Rightarrow> nat \<Rightarrow> buffer" where
  "block c p = slice (c @ replicate ((p + 1) * PAGE_SIZE - length c) 0) (p * PAGE_SIZE) PAGE_SIZE"

lemma length_block [simp]: "length (block c p) = PAGE_SIZE"
  by (simp add: block_def slice_def)

lemma nth_block:
  "i < PAGE_SIZE \<Longrightarrow> block c p ! i = (if p * PAGE_SIZE + i < length c then c ! (p * PAGE_SIZE + i) else 0)"
  by (auto simp: block_def slice_def nth_append)

lemma length_file_write: "length (file_write c off xs) = max (length c) (off + length xs)"
  by (simp add: file_write_def)

lemma nth_file_write:
  "i < max (length c) (off + length xs) \<Longrightarrow>
   file_write c off xs ! i = (if off \<le> i \<and> i < off + length xs then xs ! (i - off)
      else if i < length c then c ! i else 0)"
  by (auto simp: file_write_def nth_append min_def)

lemma block_ranges:
  assumes "p \<noteq> q" "i < n" "q * n + i < p * n + n"
  shows "q * n + i < p * (n :: nat)"
proof -
  have "q < p \<or> p < q" using assms(1) by auto
  then show ?thesis
  proof
    assume "q < p"
    then have "(q + 1) * n \<le> p * n" by (intro mult_right_mono) auto
    with assms(2) show ?thesis by simp
  next
    assume "p < q"
    then have "(p + 1) * n \<le> q * n" by (intro mult_right_mono) auto
    with assms(3) show ?thesis by simp
  qed
qed

lemma block_file_write:
  assumes "length d = PAGE_SIZE"
  shows "block (file_write c (p * PAGE_SIZE) d) q = (if q = p then d else block c q)"
proof (rule nth_equalityI)
  fix i assume "i < length (block (file_write c (p * PAGE_SIZE) d) q)"
  then have i: "i < PAGE_SIZE" by simp
  then show "block (file_write c (p * PAGE_SIZE) d) q ! i = (if q = p then d else block c q) ! i"
    using assms block_ranges [of p q i PAGE_SIZE]
    by (auto simp: nth_block length_file_write nth_file_write)
qed (use assms in simp)

interpretation db_file: block_store "\<lambda>d. length d = PAGE_SIZE" block
  "\<lambda>c p d. file_write c (p * PAGE_SIZE) d"
  by unfold_locales (simp add: block_file_write)

section \<open>Physical input and output below the 2 GiB limit\<close>

text \<open>Physical page ids whose last byte has an offset that fits a signed 32-bit \<^verbatim>\<open>int\<close>.\<close>

definition PHYS_LIMIT :: nat where "PHYS_LIMIT = 524287"

definition io_ok :: "disk_manager \<Rightarrow> bool" where
  "io_ok db \<longleftrightarrow> fs_open (db_io db) \<and> \<not> fs_fail (db_io db) \<and>
     PAGE_SIZE dvd length (fs_content (db_io db)) \<and> length (fs_content (db_io db)) \<le> PHYS_LIMIT * PAGE_SIZE"

abbreviation content :: "disk_manager \<Rightarrow> byte list" where
  "content db \<equiv> fs_content (db_io db)"

lemma GetFileSize_io_ok: "io_ok db \<Longrightarrow> GetFileSize (db_io db) = int (length (content db))"
  by (simp add: GetFileSize_def io_ok_def PHYS_LIMIT_def PAGE_SIZE_def sint_of_nat_i32)

lemma slice_eq_block:
  "p * PAGE_SIZE + PAGE_SIZE \<le> length c \<Longrightarrow> slice c (p * PAGE_SIZE) PAGE_SIZE = block c p"
  by (rule nth_equalityI) (auto simp: nth_slice nth_block)

lemma block_beyond: "length c \<le> p * PAGE_SIZE \<Longrightarrow> block c p = replicate PAGE_SIZE 0"
  by (rule nth_equalityI) (auto simp: nth_block)

lemma int32_mult_page: "p < PHYS_LIMIT \<Longrightarrow> int32_mult (int p) (int PAGE_SIZE) = Some (int (p * PAGE_SIZE))"
  by (simp add: int32_mult_def PHYS_LIMIT_def PAGE_SIZE_def)

lemma ReadPhysicalPage_ok:
  assumes "io_ok db" "p < PHYS_LIMIT"
  shows "ReadPhysicalPage db (int p) = Some (block (content db) p, db)"
proof (cases "length (content db) \<le> p * PAGE_SIZE")
  case True
  then have "int (length (content db)) \<le> int p * int PAGE_SIZE"
    by (metis of_nat_le_iff of_nat_mult)
  with True assms show ?thesis
    by (simp add: ReadPhysicalPage_def int32_mult_page GetFileSize_io_ok block_beyond)
next
  case False
  obtain k where k: "length (content db) = PAGE_SIZE * k"
    using assms(1) by (auto simp: io_ok_def)
  with False have "p < k" by (metis mult.commute mult_le_cancel1 not_le)
  then have "(p + 1) * PAGE_SIZE \<le> k * PAGE_SIZE" by (intro mult_right_mono) auto
  then have "p * PAGE_SIZE + PAGE_SIZE \<le> length (content db)" by (simp add: k mult.commute)
  moreover have "\<not> int (length (content db)) \<le> int p * int PAGE_SIZE"
    using False by (metis of_nat_le_iff of_nat_mult)
  ultimately show ?thesis
    using assms by (simp add: ReadPhysicalPage_def int32_mult_page GetFileSize_io_ok slice_eq_block
        io_ok_def Let_def nat_mult_distrib)
qed

lemma WritePhysicalPage_ok:
  assumes "io_ok db" "p < PHYS_LIMIT" "length d = PAGE_SIZE"
  obtains db' where "WritePhysicalPage db (int p) d = Some db'" "io_ok db'"
    "meta_data db' = meta_data db" "closed db' = closed db"
    "\<And>q. block (content db') q = (if q = p then d else block (content db) q)"
proof
  let ?c = "file_write (content db) (p * PAGE_SIZE) d"
  let ?db' = "db\<lparr>db_io := (db_io db)\<lparr>fs_content := ?c\<rparr>\<rparr>"
  show "WritePhysicalPage db (int p) d = Some ?db'"
    using assms by (simp add: WritePhysicalPage_def io_ok_def Let_def)
  have "(p + 1) * PAGE_SIZE \<le> PHYS_LIMIT * PAGE_SIZE"
    using assms(2) by (intro mult_right_mono) auto
  then show "io_ok ?db'"
    using assms by (auto simp: io_ok_def length_file_write max_def)
  show "block (content ?db') q = (if q = p then d else block (content db) q)" for q
    by (simp add: block_file_write assms(3))
qed simp_all

section \<open>Layout of the file\<close>

lemma BITMAP_SIZE_val: "BITMAP_SIZE = 32704"
  by (simp add: BITMAP_SIZE_def GetMaxSupportedSize_def MAX_CHARS_def PAGE_SIZE_def)

lemma MAX_PAGES_PAGE_SIZE: "MAX_PAGES PAGE_SIZE = BITMAP_SIZE"
  by (simp add: BITMAP_SIZE_val MAX_PAGES_def PAGE_SIZE_def)

lemma MAX_BITMAP_val: "MAX_BITMAP = 1022"
  by (simp add: MAX_BITMAP_def PAGE_SIZE_def)

definition data_block :: "nat \<Rightarrow> nat" where
  "data_block l = nat (MapPageId (int l))"

lemma MapPageId_nat:
  "MapPageId (int l) = int (l div BITMAP_SIZE * (BITMAP_SIZE + 1) + l mod BITMAP_SIZE + 2)"
  by (simp only: MapPageId_def Let_def zdiv_int zmod_int of_nat_add of_nat_mult of_nat_numeral of_nat_1)

lemma data_block_alt: "data_block l = l div BITMAP_SIZE * (BITMAP_SIZE + 1) + l mod BITMAP_SIZE + 2"
  unfolding data_block_def MapPageId_nat by (rule nat_int)

lemma MapPageId_eq: "MapPageId (int l) = int (data_block l)"
  unfolding data_block_alt by (rule MapPageId_nat)

lemma data_block_decode:
  "(data_block l - 1) div (BITMAP_SIZE + 1) = l div BITMAP_SIZE"
  "(data_block l - 1) mod (BITMAP_SIZE + 1) = l mod BITMAP_SIZE + 1"
proof -
  have eq: "data_block l - 1 = (BITMAP_SIZE + 1) * (l div BITMAP_SIZE) + (l mod BITMAP_SIZE + 1)"
    unfolding data_block_alt by (simp only: mult.commute)
  have lt: "l mod BITMAP_SIZE + 1 < BITMAP_SIZE + 1"
    by (simp add: BITMAP_SIZE_val)
  show "(data_block l - 1) div (BITMAP_SIZE + 1) = l div BITMAP_SIZE"
    "(data_block l - 1) mod (BITMAP_SIZE + 1) = l mod BITMAP_SIZE + 1"
    unfolding eq by (rule mult_add_div_mod [OF lt])+
qed

lemma data_block_inject: "data_block l = data_block l' \<longleftrightarrow> l = l'"
  by (metis data_block_decode add_right_cancel div_mult_mod_eq)

lemma bitmap_block_decode: "(bitmap_block e - 1) mod (BITMAP_SIZE + 1) = 0"
  unfolding bitmap_block_def by (simp only: diff_add_inverse2 mod_mult_self2_is_0)

lemma data_block_ne_bitmap: "data_block l \<noteq> bitmap_block e"
  using data_block_decode(2) [of l] bitmap_block_decode [of e] by auto

lemma data_block_ne_meta: "data_block l \<noteq> 0"
  by (simp add: data_block_alt)

lemma bitmap_block_inject: "bitmap_block e = bitmap_block e' \<longleftrightarrow> e = e'"
  by (simp add: bitmap_block_def BITMAP_SIZE_val)

lemma bitmap_block_ne_meta: "bitmap_block e \<noteq> 0"
  by (simp add: bitmap_block_def)

lemmas layout_neq = data_block_ne_bitmap data_block_ne_bitmap [symmetric] data_block_ne_meta
  data_block_ne_meta [symmetric] bitmap_block_ne_meta bitmap_block_ne_meta [symmetric]
  data_block_inject bitmap_block_inject

section \<open>Invariant\<close>

definition ext_bitmap :: "disk_manager \<Rightarrow> nat \<Rightarrow> bitmap_page" where
  "ext_bitmap db e = bitmap_of_bytes (block (content db) (bitmap_block e))"

abbreviation ext_used :: "disk_manager \<Rightarrow> nat \<Rightarrow> nat set" where
  "ext_used db e \<equiv> bm_allocated PAGE_SIZE (ext_bitmap db e)"

text \<open>The number of extents whose bitmap page lies below the 2 GiB limit.\<close>

definition EXT_LIMIT :: nat where "EXT_LIMIT = 17"

definition disk_inv :: "disk_manager \<Rightarrow> bool" where
  "disk_inv db \<longleftrightarrow> io_ok db \<and> length (meta_data db) = PAGE_SIZE \<and>
     unat (u32_at (meta_data db) 4) \<le> EXT_LIMIT \<and>
     (\<forall>e < MAX_BITMAP. bitmap_inv PAGE_SIZE (ext_bitmap db e) \<and>
        page_allocated (ext_bitmap db e) = u32_at (meta_data db) (8 + 4 * e)) \<and>
     (\<forall>e. unat (u32_at (meta_data db) 4) \<le> e \<and> e < MAX_BITMAP \<longrightarrow> ext_used db e = {}) \<and>
     unat (u32_at (meta_data db) 0) = (\<Sum>e < MAX_BITMAP. card (ext_used db e))"

declare disk_inv_def [inv_defs]

definition disk_used :: "disk_manager \<Rightarrow> nat set" where
  "disk_used db = {l. l div BITMAP_SIZE < MAX_BITMAP \<and> l mod BITMAP_SIZE \<in> ext_used db (l div BITMAP_SIZE)}"

definition disk_avail :: "disk_manager \<Rightarrow> bool" where
  "disk_avail db \<longleftrightarrow> (\<exists>e < EXT_LIMIT. card (ext_used db e) < BITMAP_SIZE)"

lemma disk_invD:
  assumes "disk_inv db"
  shows "io_ok db" "length (meta_data db) = PAGE_SIZE"
    "unat (u32_at (meta_data db) 4) \<le> EXT_LIMIT"
    "e < MAX_BITMAP \<Longrightarrow> bitmap_inv PAGE_SIZE (ext_bitmap db e)"
    "e < MAX_BITMAP \<Longrightarrow> page_allocated (ext_bitmap db e) = u32_at (meta_data db) (8 + 4 * e)"
    "unat (u32_at (meta_data db) 4) \<le> e \<Longrightarrow> e < MAX_BITMAP \<Longrightarrow> ext_used db e = {}"
    "unat (u32_at (meta_data db) 0) = (\<Sum>e < MAX_BITMAP. card (ext_used db e))"
  using assms by (auto simp: disk_inv_def)

lemma bitmap_bytes_inverse: "bitmap_of_bytes (bytes_of_bitmap b) = b"
  by (simp add: bitmap_of_bytes_def bytes_of_bitmap_def slice_def)

lemma length_bytes_of_bitmap: "length (bytes_of_bitmap b) = 8 + length (bm_bytes b)"
  by (simp add: bytes_of_bitmap_def)

lemma bitmap_inv_page_length: "bitmap_inv PAGE_SIZE b \<Longrightarrow> length (bytes_of_bitmap b) = PAGE_SIZE"
  by (simp add: length_bytes_of_bitmap bitmap_inv_def MAX_CHARS_def PAGE_SIZE_def)

lemma EXT_LIMIT_MAX_BITMAP: "e < EXT_LIMIT \<Longrightarrow> e < MAX_BITMAP"
  by (simp add: EXT_LIMIT_def MAX_BITMAP_val)

lemma bitmap_block_limit: "e < EXT_LIMIT \<Longrightarrow> bitmap_block e < PHYS_LIMIT"
  by (simp add: EXT_LIMIT_def bitmap_block_def PHYS_LIMIT_def BITMAP_SIZE_val)

lemma read_ext_bitmap:
  "disk_inv db \<Longrightarrow> e < EXT_LIMIT \<Longrightarrow>
   ReadPhysicalPage (db\<lparr>meta_data := m\<rparr>) (int (bitmap_block e)) =
     Some (block (content db) (bitmap_block e), db\<lparr>meta_data := m\<rparr>)"
  by (subst ReadPhysicalPage_ok) (auto simp: disk_inv_def io_ok_def bitmap_block_limit)

text \<open>Writing back one bitmap: only that extent's bitmap changes, no data page does.\<close>

lemma write_ext_bitmap:
  assumes "io_ok db" "e < EXT_LIMIT" "bitmap_inv PAGE_SIZE b"
  obtains db' where "WritePhysicalPage (db\<lparr>meta_data := m\<rparr>) (int (bitmap_block e)) (bytes_of_bitmap b) = Some db'"
    "io_ok db'" "meta_data db' = m" "closed db' = closed db"
    "\<And>e'. ext_bitmap db' e' = (if e' = e then b else ext_bitmap db e')"
    "\<And>l. block (content db') (data_block l) = block (content db) (data_block l)"
proof -
  have "io_ok (db\<lparr>meta_data := m\<rparr>)"
    using assms(1) by (simp add: io_ok_def)
  from WritePhysicalPage_ok [OF this bitmap_block_limit [OF assms(2)] bitmap_inv_page_length [OF assms(3)]]
  obtain db' where "WritePhysicalPage (db\<lparr>meta_data := m\<rparr>) (int (bitmap_block e)) (bytes_of_bitmap b) = Some db'"
    "io_ok db'" "meta_data db' = meta_data (db\<lparr>meta_data := m\<rparr>)" "closed db' = closed (db\<lparr>meta_data := m\<rparr>)"
    "\<And>q. block (content db') q =
       (if q = bitmap_block e then bytes_of_bitmap b else block (content (db\<lparr>meta_data := m\<rparr>)) q)"
    by blast
  then show thesis
    by (intro that [of db']) (auto simp: ext_bitmap_def layout_neq bitmap_bytes_inverse)
qed

lemma find_extent_ex:
  assumes "disk_inv db" "n = unat (u32_at (meta_data db) 4)"
  shows "i \<le> n \<Longrightarrow> \<exists>j. find_extent (meta_data db) n i = Some j \<and> i \<le> j \<and> j \<le> n \<and>
    (\<forall>e. i \<le> e \<and> e < j \<longrightarrow> card (ext_used db e) \<ge> BITMAP_SIZE) \<and>
    (j < n \<longrightarrow> card (ext_used db j) < BITMAP_SIZE)"
proof (induction "n - i" arbitrary: i)
  case 0
  then show ?case by (intro exI [of _ i]) (auto simp: find_extent.simps)
next
  case (Suc d)
  note D = disk_invD [OF assms(1)]
  from Suc.hyps(2) have i: "i < n" by simp
  then have iM: "i < MAX_BITMAP"
    using D(3) assms(2) EXT_LIMIT_MAX_BITMAP by simp
  have used: "GetExtentUsedPage (meta_data db) i = Some (page_allocated (ext_bitmap db i))"
    using i iM D(2,5) assms(2)
    by (simp add: GetExtentUsedPage_def GetExtentNums_def extent_used_page_def get_u32_at
        MAX_BITMAP_val PAGE_SIZE_def)
  have card: "unat (page_allocated (ext_bitmap db i)) = card (ext_used db i)"
    using D(4) [OF iM] by (simp add: bitmap_inv_def)
  show ?case
  proof (cases "card (ext_used db i) < BITMAP_SIZE")
    case True
    with i used card show ?thesis
      by (intro exI [of _ i]) (auto simp: find_extent.simps)
  next
    case False
    have "d = n - Suc i" "Suc i \<le> n" using Suc.hyps(2) i by auto
    from Suc.hyps(1) [OF this] obtain j where j:
      "find_extent (meta_data db) n (Suc i) = Some j" "Suc i \<le> j" "j \<le> n"
      "\<forall>e. Suc i \<le> e \<and> e < j \<longrightarrow> card (ext_used db e) \<ge> BITMAP_SIZE"
      "j < n \<longrightarrow> card (ext_used db j) < BITMAP_SIZE" by blast
    have "find_extent (meta_data db) n i = Some j"
      using False i used card j(1) by (subst find_extent.simps) simp
    moreover have "card (ext_used db e) \<ge> BITMAP_SIZE" if "i \<le> e" "e < j" for e
      using that False j(4) by (cases "e = i") auto
    ultimately show ?thesis using j by auto
  qed
qed

text \<open>The extent that \<^verbatim>\<open>AllocatePage\<close> settles on has room and an addressable bitmap page.\<close>

lemma find_extent_avail:
  assumes "disk_inv db" "disk_avail db" "n = unat (u32_at (meta_data db) 4)"
  obtains j where "find_extent (meta_data db) n 0 = Some j" "j \<le> n" "j < EXT_LIMIT"
    "card (ext_used db j) < BITMAP_SIZE" "\<And>e. e < j \<Longrightarrow> BITMAP_SIZE \<le> card (ext_used db e)"
proof -
  note D = disk_invD [OF assms(1)]
  obtain j where j: "find_extent (meta_data db) n 0 = Some j" "j \<le> n"
    "\<forall>e. 0 \<le> e \<and> e < j \<longrightarrow> card (ext_used db e) \<ge> BITMAP_SIZE"
    "j < n \<longrightarrow> card (ext_used db j) < BITMAP_SIZE"
    using find_extent_ex [OF assms(1,3), of 0] by auto
  have "j < EXT_LIMIT"
  proof (rule ccontr)
    assume "\<not> j < EXT_LIMIT"
    with j(3) have "\<forall>e < EXT_LIMIT. card (ext_used db e) \<ge> BITMAP_SIZE" by auto
    with assms(2) show False by (auto simp: disk_avail_def not_less [symmetric])
  qed
  moreover have "card (ext_used db j) < BITMAP_SIZE"
  proof (cases "j < n")
    case False
    then have "ext_used db j = {}"
      using D(6) assms(3) \<open>j < EXT_LIMIT\<close> EXT_LIMIT_MAX_BITMAP by simp
    then show ?thesis by (simp add: BITMAP_SIZE_val)
  qed (use j(4) in simp)
  ultimately show thesis using that j(1-3) by blast
qed

lemma disk_total_bound: "(\<Sum>e < MAX_BITMAP. card (ext_used db e)) \<le> 33423488"
proof -
  have "(\<Sum>e < MAX_BITMAP. card (ext_used db e)) \<le> (\<Sum>e < MAX_BITMAP. BITMAP_SIZE)"
    by (intro sum_mono) (metis MAX_PAGES_PAGE_SIZE card_bm_allocated_le)
  then show ?thesis by (simp add: MAX_BITMAP_val BITMAP_SIZE_val)
qed

lemma meta_offsets:
  "length m = PAGE_SIZE \<Longrightarrow> e < MAX_BITMAP \<Longrightarrow> 8 + 4 * e + 4 \<le> length m"
  "length m = PAGE_SIZE \<Longrightarrow> 4 + 4 \<le> length m" "length m = PAGE_SIZE \<Longrightarrow> 0 + 4 \<le> length m"
  by (simp_all add: PAGE_SIZE_def MAX_BITMAP_val)

text \<open>
  The part of the invariant that links the meta page and the bitmaps, after one extent's bitmap
  and both of its counters have changed.
\<close>

lemma disk_inv_update:
  assumes inv: "disk_inv db" and e: "e < EXT_LIMIT" and io: "io_ok db'"
    and len: "length (meta_data db') = PAGE_SIZE"
    and n: "unat (u32_at (meta_data db') 4) \<le> EXT_LIMIT" "e < unat (u32_at (meta_data db') 4)"
      "unat (u32_at (meta_data db) 4) \<le> unat (u32_at (meta_data db') 4)"
    and bm: "\<And>e'. ext_bitmap db' e' = (if e' = e then b else ext_bitmap db e')"
    and b: "bitmap_inv PAGE_SIZE b" "u32_at (meta_data db') (8 + 4 * e) = page_allocated b"
    and other: "\<And>e'. e' < MAX_BITMAP \<Longrightarrow> e' \<noteq> e \<Longrightarrow>
      u32_at (meta_data db') (8 + 4 * e') = u32_at (meta_data db) (8 + 4 * e')"
    and total: "unat (u32_at (meta_data db') 0) + card (ext_used db e) =
      unat (u32_at (meta_data db) 0) + card (bm_allocated PAGE_SIZE b)"
  shows "disk_inv db'"
proof -
  note D = disk_invD [OF inv]
  have eM: "e < MAX_BITMAP" using e by (rule EXT_LIMIT_MAX_BITMAP)
  have "(\<Sum>x < MAX_BITMAP. card (ext_used db' x)) + card (ext_used db e) =
      (\<Sum>x < MAX_BITMAP. card (ext_used db x)) + card (ext_used db' e)"
    by (rule sum_change_one [OF eM]) (simp add: bm)
  then have "unat (u32_at (meta_data db') 0) = (\<Sum>x < MAX_BITMAP. card (ext_used db' x))"
    using total D(7) by (simp add: bm)
  moreover have "ext_used db' x = {}" if "unat (u32_at (meta_data db') 4) \<le> x" "x < MAX_BITMAP" for x
    using that n D(6) [of x] by (simp add: bm)
  ultimately show ?thesis
    unfolding disk_inv_def using io len n(1) D(4,5) b other by (auto simp: bm)
qed

lemma meta_count_ok:
  assumes "length m = PAGE_SIZE" "e < MAX_BITMAP"
  obtains m' where "meta_count m e d = Some m'" "length m' = PAGE_SIZE"
    "u32_at m' 0 = u32_at m 0 + d" "u32_at m' 4 = u32_at m 4"
    "u32_at m' (8 + 4 * e) = u32_at m (8 + 4 * e) + d"
    "\<And>x. x < MAX_BITMAP \<Longrightarrow> x \<noteq> e \<Longrightarrow> u32_at m' (8 + 4 * x) = u32_at m (8 + 4 * x)"
proof -
  define m1 where "m1 = splice m (8 + 4 * e) (u32_bytes (u32_at m (8 + 4 * e) + d))"
  define m2 where "m2 = splice m1 0 (u32_bytes (u32_at m1 0 + d))"
  have len: "length m1 = PAGE_SIZE" "length m2 = PAGE_SIZE"
    using assms by (simp_all add: m2_def m1_def PAGE_SIZE_def MAX_BITMAP_val)
  note off = meta_offsets(1) [OF assms] meta_offsets(3) [OF len(1)]
  have "meta_count m e d = Some m2"
    using off by (simp add: meta_count_def extent_used_page_def GetAllocatedPages_def get_u32_at
        put_u32_at flip: m1_def m2_def)
  moreover have "u32_at m2 (8 + 4 * x) = u32_at m (8 + 4 * x)" if "x \<noteq> e" for x
    using that assms len by (cases "x < e") (simp_all add: m2_def m1_def buf_simps PAGE_SIZE_def MAX_BITMAP_val)
  ultimately show thesis
    by (intro that [of m2])
      (use assms len in \<open>auto simp: m2_def m1_def buf_simps PAGE_SIZE_def MAX_BITMAP_val\<close>)
qed

lemma DM_AllocatePage_step:
  assumes inv: "disk_inv db" and av: "disk_avail db"
  obtains e k db' where "DM_AllocatePage db = Some (int (e * BITMAP_SIZE + k), db')" "disk_inv db'"
    "e < EXT_LIMIT" "k < BITMAP_SIZE" "k \<notin> ext_used db e"
    "\<And>e'. ext_used db' e' = (if e' = e then insert k (ext_used db e) else ext_used db e')"
    "\<And>l. block (content db') (data_block l) = block (content db) (data_block l)"
    "\<And>e'. e' < e \<Longrightarrow> BITMAP_SIZE \<le> card (ext_used db e')"
    "k = unat (next_free_page (ext_bitmap db e))" "BM_AllocatePage PAGE_SIZE (ext_bitmap db e) = Some (True, Some (next_free_page (ext_bitmap db e)), ext_bitmap db' e)"
proof -
  note D = disk_invD [OF inv]
  define n where "n = u32_at (meta_data db) 4"
  obtain e where e: "find_extent (meta_data db) (unat n) 0 = Some e" "e \<le> unat n" "e < EXT_LIMIT"
    "card (ext_used db e) < BITMAP_SIZE" "\<And>e'. e' < e \<Longrightarrow> BITMAP_SIZE \<le> card (ext_used db e')"
    using find_extent_avail [OF inv av] n_def by metis
  have eM: "e < MAX_BITMAP" using e(3) by (rule EXT_LIMIT_MAX_BITMAP)
  have nM: "unat n < MAX_BITMAP" "unat (n + 1) = Suc (unat n)"
    using D(3) unat_plus_one_u32 [of n] by (simp_all add: n_def EXT_LIMIT_def MAX_BITMAP_val)
  have gn: "GetExtentNums (meta_data db) = Some n"
    using D(2) by (simp add: GetExtentNums_def get_u32_at n_def PAGE_SIZE_def)
  define m1 where "m1 = (if e = unat n then splice (meta_data db) 4 (u32_bytes (n + 1)) else meta_data db)"
  have m1: "(if e = unat n then put_u32 (meta_data db) 4 (n + 1) else Some (meta_data db)) = Some m1"
    "length m1 = PAGE_SIZE" "u32_at m1 4 = (if e = unat n then n + 1 else n)"
    "u32_at m1 0 = u32_at (meta_data db) 0" "\<And>x. u32_at m1 (8 + 4 * x) = u32_at (meta_data db) (8 + 4 * x)"
    using D(2) by (simp_all add: m1_def put_u32_at PAGE_SIZE_def buf_simps n_def)
  obtain m2 where m2: "meta_count m1 e 1 = Some m2" "length m2 = PAGE_SIZE"
    "u32_at m2 0 = u32_at m1 0 + 1" "u32_at m2 4 = u32_at m1 4"
    "u32_at m2 (8 + 4 * e) = u32_at m1 (8 + 4 * e) + 1"
    "\<And>x. x < MAX_BITMAP \<Longrightarrow> x \<noteq> e \<Longrightarrow> u32_at m2 (8 + 4 * x) = u32_at m1 (8 + 4 * x)"
    using meta_count_ok [OF m1(2) eM, where d = 1] by blast
  let ?b0 = "ext_bitmap db e" and ?k = "unat (next_free_page (ext_bitmap db e))"
  have i0: "unat (page_allocated ?b0) = card (ext_used db e)" "?k < BITMAP_SIZE"
    using D(4) [OF eM] by (simp_all add: bitmap_inv_def MAX_PAGES_PAGE_SIZE)
  obtain b where b: "BM_AllocatePage PAGE_SIZE ?b0 = Some (True, Some (next_free_page ?b0), b)"
    "bitmap_inv PAGE_SIZE b" "?k \<notin> ext_used db e" "bm_allocated PAGE_SIZE b = insert ?k (ext_used db e)"
    using bitmap_alloc_ok [OF D(4) [OF eM]] e(4) MAX_PAGES_PAGE_SIZE by metis
  obtain db' where db': "WritePhysicalPage (db\<lparr>meta_data := m2\<rparr>) (int (bitmap_block e)) (bytes_of_bitmap b) = Some db'"
    "io_ok db'" "meta_data db' = m2" "closed db' = closed db"
    "\<And>e'. ext_bitmap db' e' = (if e' = e then b else ext_bitmap db e')"
    "\<And>l. block (content db') (data_block l) = block (content db) (data_block l)"
    using write_ext_bitmap [OF D(1) e(3) b(2)] by blast
  have run: "DM_AllocatePage db = Some (int (e * BITMAP_SIZE + ?k), db')"
    using e(1) nM m1(1) m2(1) read_ext_bitmap [OF inv e(3)] b(1) db'(1) gn
    by (simp add: DM_AllocatePage_def flip: ext_bitmap_def)
  have cb: "unat (page_allocated b) = Suc (card (ext_used db e))"
    using b(2-4) by (simp add: bitmap_inv_def)
  have pa: "page_allocated b = page_allocated ?b0 + 1"
    by (rule word_unat_eq_iff [THEN iffD2]) (use cb i0(1) e(4) in \<open>simp add: unat_plus_one_u32 BITMAP_SIZE_val\<close>)
  have z: "unat (u32_at m2 0) = Suc (unat (u32_at (meta_data db) 0))"
    unfolding m2(3) m1(4) using D(7) disk_total_bound [of db] by (intro unat_plus_one_u32) simp
  have "disk_inv db'"
    by (rule disk_inv_update [OF inv e(3) db'(2), where b = b])
      (use db'(3,5) m1 m2 nM e(2,3) D(3) D(5) [OF eM] b(2-4) z pa in
        \<open>auto simp: n_def [symmetric]\<close>)
  then show thesis
    by (intro that [OF run]) (use e(3,5) i0(2) b(1,3,4) db'(5,6) in auto)
qed

lemma DM_AllocatePage_ok:
  assumes inv: "disk_inv db" and av: "disk_avail db"
  obtains e k db' where "DM_AllocatePage db = Some (int (e * BITMAP_SIZE + k), db')" "disk_inv db'"
    "e < EXT_LIMIT" "k < BITMAP_SIZE" "k \<notin> ext_used db e"
    "\<And>e'. ext_used db' e' = (if e' = e then insert k (ext_used db e) else ext_used db e')"
    "\<And>l. block (content db') (data_block l) = block (content db) (data_block l)"
    "\<And>e'. e' < e \<Longrightarrow> BITMAP_SIZE \<le> card (ext_used db e')"
  by (rule DM_AllocatePage_step [OF inv av], rule that, assumption+)

lemma disk_used_extent:
  assumes "disk_inv db" "l \<in> disk_used db"
  shows "l div BITMAP_SIZE < EXT_LIMIT" "l mod BITMAP_SIZE \<in> ext_used db (l div BITMAP_SIZE)"
    "int l < MAX_VALID_PAGE_ID" "(l + BITMAP_SIZE) div BITMAP_SIZE - 1 = l div BITMAP_SIZE"
proof -
  show used: "l mod BITMAP_SIZE \<in> ext_used db (l div BITMAP_SIZE)"
    using assms(2) by (simp add: disk_used_def)
  show e: "l div BITMAP_SIZE < EXT_LIMIT"
  proof (rule ccontr)
    assume "\<not> l div BITMAP_SIZE < EXT_LIMIT"
    then have "ext_used db (l div BITMAP_SIZE) = {}"
      using assms disk_invD(3) [OF assms(1)] by (intro disk_invD(6)) (auto simp: disk_used_def)
    with used show False by simp
  qed
  then have "l div BITMAP_SIZE \<le> 16" by (simp add: EXT_LIMIT_def)
  then show "int l < MAX_VALID_PAGE_ID"
    by (simp add: MAX_VALID_PAGE_ID_def GetMaxSupportedSize_def MAX_CHARS_def PAGE_SIZE_def BITMAP_SIZE_val)
qed (simp add: BITMAP_SIZE_val)

lemma DM_DeAllocatePage_ok:
  assumes inv: "disk_inv db" and l: "l \<in> disk_used db"
  obtains db' where "DM_DeAllocatePage db (int l) = Some db'" "disk_inv db'"
    "\<And>e. ext_used db' e = (if e = l div BITMAP_SIZE then ext_used db e - {l mod BITMAP_SIZE} else ext_used db e)"
    "\<And>p. block (content db') (data_block p) = block (content db) (data_block p)"
proof -
  note D = disk_invD [OF inv] and L = disk_used_extent [OF inv l]
  let ?e = "l div BITMAP_SIZE" and ?k = "l mod BITMAP_SIZE"
  have eM: "?e < MAX_BITMAP" using L(1) by (rule EXT_LIMIT_MAX_BITMAP)
  obtain m where m: "meta_count (meta_data db) ?e (- 1) = Some m" "length m = PAGE_SIZE"
    "u32_at m 0 = u32_at (meta_data db) 0 + (- 1)" "u32_at m 4 = u32_at (meta_data db) 4"
    "u32_at m (8 + 4 * ?e) = u32_at (meta_data db) (8 + 4 * ?e) + (- 1)"
    "\<And>x. x < MAX_BITMAP \<Longrightarrow> x \<noteq> ?e \<Longrightarrow> u32_at m (8 + 4 * x) = u32_at (meta_data db) (8 + 4 * x)"
    using meta_count_ok [OF D(2) eM, where d = "- 1"] by blast
  have k: "unat (of_nat ?k :: u32) = ?k" by (simp add: BITMAP_SIZE_val)
  let ?b0 = "ext_bitmap db ?e"
  have b0: "unat (page_allocated ?b0) = card (ext_used db ?e)"
    using D(4) [OF eM] by (simp add: bitmap_inv_def)
  obtain b where b: "BM_DeAllocatePage PAGE_SIZE ?b0 (of_nat ?k) = Some (True, b)" "bitmap_inv PAGE_SIZE b"
    "bm_allocated PAGE_SIZE b = ext_used db ?e - {?k}"
    using bitmap_dealloc_ok [OF D(4) [OF eM], of "of_nat ?k"] L(2) k by metis
  obtain db' where db': "WritePhysicalPage (db\<lparr>meta_data := m\<rparr>) (int (bitmap_block ?e)) (bytes_of_bitmap b) = Some db'"
    "io_ok db'" "meta_data db' = m" "closed db' = closed db"
    "\<And>e'. ext_bitmap db' e' = (if e' = ?e then b else ext_bitmap db e')"
    "\<And>p. block (content db') (data_block p) = block (content db) (data_block p)"
    using write_ext_bitmap [OF D(1) L(1) b(2)] by blast
  have "DM_DeAllocatePage db (int l) = Some db'"
    using L(3,4) m(1) b(1) db'(1) read_ext_bitmap [OF inv L(1), of "meta_data db"]
    by (simp add: DM_DeAllocatePage_def flip: ext_bitmap_def)
  moreover have pos: "0 < card (ext_used db ?e)"
    using L(2) by (auto simp: card_gt_0_iff)
  have cb: "unat (page_allocated b) = card (ext_used db ?e) - 1"
    using b(2,3) L(2) by (simp add: bitmap_inv_def)
  have pa: "page_allocated b = page_allocated ?b0 - 1"
    by (rule word_unat_eq_iff [THEN iffD2]) (use cb b0 pos unat_minus_one_u32 [of "page_allocated ?b0"] in simp)
  have tot: "card (ext_used db ?e) \<le> unat (u32_at (meta_data db) 0)"
    unfolding D(7) using eM by (intro member_le_sum) auto
  then have z: "unat (u32_at m 0) = unat (u32_at (meta_data db) 0) - 1"
    using m(3) pos unat_minus_one_u32 [of "u32_at (meta_data db) 0"] by simp
  have "?e < unat (u32_at (meta_data db) 4)"
    using D(6) [of ?e] L(2) eM by (metis empty_iff not_less)
  then have "disk_inv db'"
    by (intro disk_inv_update [OF inv L(1) db'(2), where b = b])
      (use db'(3,5) m D(3) D(5) [OF eM] b(2,3) z pa L(2) pos tot in auto)
  ultimately show thesis
    by (intro that [of db']) (use db'(5,6) b(3) in auto)
qed

lemma DM_IsPageFree_ok:
  assumes "disk_inv db" "l div BITMAP_SIZE < EXT_LIMIT"
  shows "DM_IsPageFree db (int l) = Some (l \<notin> disk_used db, db)"
proof -
  let ?e = "l div BITMAP_SIZE"
  have eM: "?e < MAX_BITMAP" using assms(2) by (rule EXT_LIMIT_MAX_BITMAP)
  have lt: "int l < MAX_VALID_PAGE_ID" "(l + BITMAP_SIZE) div BITMAP_SIZE - 1 = ?e"
    using assms(2) by (simp_all add: MAX_VALID_PAGE_ID_def GetMaxSupportedSize_def MAX_CHARS_def
        PAGE_SIZE_def BITMAP_SIZE_val EXT_LIMIT_def)
  have k: "unat (of_nat (l mod BITMAP_SIZE) :: u32) = l mod BITMAP_SIZE" "l mod BITMAP_SIZE < BITMAP_SIZE"
    by (simp_all add: BITMAP_SIZE_val)
  have "length (bm_bytes (ext_bitmap db ?e)) = MAX_CHARS PAGE_SIZE"
    using disk_invD(4) [OF assms(1) eM] by (rule bitmap_invD)
  with lt k eM read_ext_bitmap [OF assms, of "meta_data db"] show ?thesis
    by (simp add: DM_IsPageFree_def IsPageFree_eq MAX_PAGES_PAGE_SIZE disk_used_def flip: ext_bitmap_def)
qed

text \<open>Page contents: reading and writing through the logical page ids.\<close>

abbreviation page_at :: "disk_manager \<Rightarrow> nat \<Rightarrow> buffer" where
  "page_at db l \<equiv> block (content db) (data_block l)"

lemma DM_ReadPage_ok:
  "io_ok db \<Longrightarrow> data_block l < PHYS_LIMIT \<Longrightarrow> DM_ReadPage db (int l) = Some (page_at db l, db)"
  by (simp add: DM_ReadPage_def MapPageId_eq ReadPhysicalPage_ok)

lemma DM_WritePage_ok:
  assumes "io_ok db" "data_block l < PHYS_LIMIT" "length d = PAGE_SIZE"
  obtains db' where "DM_WritePage db (int l) d = Some db'" "io_ok db'"
    "meta_data db' = meta_data db" "closed db' = closed db"
    "\<And>p. page_at db' p = (if p = l then d else page_at db p)"
    "\<And>e. ext_bitmap db' e = ext_bitmap db e"
proof -
  from WritePhysicalPage_ok [OF assms] obtain db' where
    "WritePhysicalPage db (int (data_block l)) d = Some db'" "io_ok db'"
    "meta_data db' = meta_data db" "closed db' = closed db"
    "\<And>q. block (content db') q = (if q = data_block l then d else block (content db) q)" by blast
  then show thesis
    by (intro that [of db']) (auto simp: DM_WritePage_def MapPageId_eq ext_bitmap_def layout_neq)
qed

lemma DM_WritePage_inv:
  assumes "disk_inv db" "data_block l < PHYS_LIMIT" "length d = PAGE_SIZE" "DM_WritePage db (int l) d = Some db'"
  shows "disk_inv db'" "disk_used db' = disk_used db"
proof -
  obtain db'' where "DM_WritePage db (int l) d = Some db''" "io_ok db''" "meta_data db'' = meta_data db"
    "\<And>e. ext_bitmap db'' e = ext_bitmap db e"
    using DM_WritePage_ok [OF disk_invD(1) [OF assms(1)] assms(2,3)] by metis
  with assms(1,4) show "disk_inv db'" "disk_used db' = disk_used db"
    by (auto simp: disk_inv_def disk_used_def)
qed

section \<open>The disk manager as an identifier allocator\<close>

definition disk_alloc :: "disk_manager \<Rightarrow> (nat option \<times> disk_manager) option" where
  "disk_alloc db = map_option (\<lambda>(i, db'). (if i = INVALID_PAGE_ID then None else Some (nat i), db'))
     (DM_AllocatePage db)"

definition disk_dealloc :: "nat \<Rightarrow> disk_manager \<Rightarrow> disk_manager option" where
  "disk_dealloc i db = DM_DeAllocatePage db (int i)"

lemma disk_used_insert:
  assumes "\<And>e'. ext_used db' e' = (if e' = e then insert k (ext_used db e) else ext_used db e')"
    "e < EXT_LIMIT" "k < BITMAP_SIZE"
  shows "disk_used db' = insert (e * BITMAP_SIZE + k) (disk_used db)"
proof -
  have dm: "l div BITMAP_SIZE = e \<and> l mod BITMAP_SIZE = k \<longleftrightarrow> l = e * BITMAP_SIZE + k" for l
    using assms(3) by auto
  show ?thesis
    using EXT_LIMIT_MAX_BITMAP [OF assms(2)] dm
    by (auto simp: disk_used_def assms(1) split: if_splits)
qed

lemma disk_used_remove:
  assumes "\<And>e. ext_used db' e =
    (if e = l div BITMAP_SIZE then ext_used db e - {l mod BITMAP_SIZE} else ext_used db e)"
  shows "disk_used db' = disk_used db - {l}"
proof (rule set_eqI)
  fix x
  have "x = l \<longleftrightarrow> x div BITMAP_SIZE = l div BITMAP_SIZE \<and> x mod BITMAP_SIZE = l mod BITMAP_SIZE"
    by (metis div_mult_mod_eq)
  then show "x \<in> disk_used db' \<longleftrightarrow> x \<in> disk_used db - {l}"
    by (cases "x div BITMAP_SIZE = l div BITMAP_SIZE") (simp_all add: disk_used_def assms)
qed

interpretation disk: id_allocator disk_inv disk_used disk_avail disk_alloc disk_dealloc
proof
  fix db
  assume "disk_inv db" "disk_avail db"
  then obtain e k db' where "DM_AllocatePage db = Some (int (e * BITMAP_SIZE + k), db')" "disk_inv db'"
    "e < EXT_LIMIT" "k < BITMAP_SIZE" "k \<notin> ext_used db e"
    "\<And>e'. ext_used db' e' = (if e' = e then insert k (ext_used db e) else ext_used db e')"
    by (rule DM_AllocatePage_ok) blast
  moreover from this have "e * BITMAP_SIZE + k \<notin> disk_used db"
    by (simp add: disk_used_def)
  ultimately show "\<exists>i db'. disk_alloc db = Some (Some i, db') \<and> i \<notin> disk_used db \<and>
      disk_used db' = insert i (disk_used db) \<and> disk_inv db'"
    by (auto simp: disk_alloc_def INVALID_PAGE_ID_def disk_used_insert simp del: of_nat_add of_nat_mult)
next
  fix db l
  assume inv: "disk_inv db" and l: "l \<in> disk_used db"
  then obtain db' where db': "DM_DeAllocatePage db (int l) = Some db'" "disk_inv db'"
    "\<And>e. ext_used db' e = (if e = l div BITMAP_SIZE then ext_used db e - {l mod BITMAP_SIZE} else ext_used db e)"
    by (rule DM_DeAllocatePage_ok) blast
  let ?e = "l div BITMAP_SIZE"
  have "ext_used db' ?e = ext_used db ?e - {l mod BITMAP_SIZE}"
    by (simp add: db'(3))
  then have "card (ext_used db' ?e) < card (ext_used db ?e)"
    using disk_used_extent(2) [OF inv l] by (simp only: card_Diff1_less finite_bm_allocated)
  also have "\<dots> \<le> BITMAP_SIZE" using card_bm_allocated_le by (simp add: MAX_PAGES_PAGE_SIZE [symmetric])
  finally have "disk_avail db'"
    using disk_used_extent(1) [OF inv l] by (auto simp: disk_avail_def)
  with db' show "\<exists>db'. disk_dealloc l db = Some db' \<and> disk_used db' = disk_used db - {l} \<and> disk_inv db' \<and> disk_avail db'"
    by (simp add: disk_dealloc_def disk_used_remove)
qed

section \<open>A fresh file\<close>

lemma bitmap_of_zero_block: "bitmap_of_bytes (replicate PAGE_SIZE 0) = BitmapPage_new PAGE_SIZE"
proof -
  have "bytes_u32 (replicate 4 0) = 0" by (simp add: numeral_eq_Suc)
  then show ?thesis
    by (simp add: bitmap_of_bytes_def BitmapPage_new_def slice_def MAX_CHARS_def PAGE_SIZE_def)
qed

definition empty_file :: fstream where
  "empty_file = \<lparr>fs_content = [], fs_open = True, fs_fail = False\<rparr>"

definition fresh_disk :: disk_manager where
  "fresh_disk = \<lparr>db_io = empty_file, closed = False, meta_data = replicate PAGE_SIZE 0\<rparr>"

lemma DM_open_empty: "DM_open empty_file = Some fresh_disk"
  by (simp add: DM_open_def ReadPhysicalPage_def int32_mult_def empty_file_def GetFileSize_def
      fresh_disk_def)

lemma fresh_disk_ext: "ext_bitmap fresh_disk e = BitmapPage_new PAGE_SIZE"
  by (simp add: ext_bitmap_def fresh_disk_def empty_file_def block_beyond bitmap_of_zero_block)

lemma fresh_disk_ext_used: "ext_used fresh_disk e = {}"
  by (auto simp: fresh_disk_ext bm_allocated_def BitmapPage_new_def MAX_PAGES_def MAX_CHARS_def
      nth_replicate less_mult_imp_div_less)

lemma u32_at_zeros: "off + 4 \<le> n \<Longrightarrow> u32_at (replicate n 0) off = 0"
  by (simp add: u32_at_def slice_def min_def numeral_eq_Suc)

lemma disk_inv_fresh: "disk_inv fresh_disk"
proof -
  have "bitmap_inv PAGE_SIZE (ext_bitmap fresh_disk e)" for e
    unfolding fresh_disk_ext by (rule bitmap_inv_new) (simp_all add: PAGE_SIZE_def)
  moreover have "io_ok fresh_disk"
    by (simp add: io_ok_def fresh_disk_def empty_file_def)
  moreover have "page_allocated (ext_bitmap fresh_disk e) = 0" for e
    by (simp add: fresh_disk_ext BitmapPage_new_def)
  moreover have "meta_data fresh_disk = replicate PAGE_SIZE 0"
    by (simp add: fresh_disk_def)
  ultimately show ?thesis
    by (simp add: disk_inv_def fresh_disk_ext_used [unfolded PAGE_SIZE_def] u32_at_zeros PAGE_SIZE_def MAX_BITMAP_val)
qed

lemma disk_avail_fresh: "disk_avail fresh_disk"
  unfolding disk_avail_def fresh_disk_ext_used
  by (intro exI [of _ 0]) (simp add: EXT_LIMIT_def BITMAP_SIZE_val)

lemma disk_used_fresh: "disk_used fresh_disk = {}"
  by (simp add: disk_used_def fresh_disk_ext_used)

text \<open>The first two pages of a new file: the cursor of the bitmap moves from bit 0 to bit 1.\<close>

lemma bitmap_first_two:
  obtains b where "BM_AllocatePage PAGE_SIZE (BitmapPage_new PAGE_SIZE) = Some (True, Some 0, b)" "next_free_page b = 1"
proof -
  let ?b0 = "BitmapPage_new PAGE_SIZE" and ?b2 = "(BitmapPage_new PAGE_SIZE)\<lparr>page_allocated := 1, bm_bytes := (bm_bytes (BitmapPage_new PAGE_SIZE))[0 := 1]\<rparr>"
  have set: "bm_set (?b0\<lparr>page_allocated := page_allocated ?b0 + 1\<rparr>) (next_free_page ?b0) = Some ?b2"
    by (simp add: BitmapPage_new_def bm_set_def PAGE_SIZE_def MAX_CHARS_def)
  have free: "BM_IsPageFree PAGE_SIZE ?b2 0 = Some False" "BM_IsPageFree PAGE_SIZE (?b2\<lparr>next_free_page := 1\<rparr>) 1 = Some True"
    by (simp_all add: BM_IsPageFree_def bm_get_def BitmapPage_new_def PAGE_SIZE_def MAX_CHARS_def MAX_PAGES_def)
  have cur: "next_cursor PAGE_SIZE 0 = 1" by (simp add: next_cursor_def MAX_PAGES_def MAX_CHARS_def PAGE_SIZE_def)
  have "advance_free PAGE_SIZE ?b2 = Some (?b2\<lparr>next_free_page := 1\<rparr>)"
    using free cur by (subst advance_free.simps, subst advance_free.simps) (simp add: BitmapPage_new_def)
  then have "BM_AllocatePage PAGE_SIZE ?b0 = Some (True, Some 0, ?b2\<lparr>next_free_page := 1\<rparr>)"
    using set by (simp add: BM_AllocatePage_def BitmapPage_new_def MAX_PAGES_def MAX_CHARS_def PAGE_SIZE_def)
  then show thesis using that by simp
qed

lemma disk_first_two:
  obtains d1 d2 where "DM_AllocatePage fresh_disk = Some (0, d1)" "disk_inv d1" "disk_used d1 = {0}" "\<And>e. ext_used d1 e = (if e = 0 then {0} else {})"
    "DM_AllocatePage d1 = Some (1, d2)" "disk_inv d2" "disk_used d2 = {0, 1}"
proof -
  obtain e k d1 where a: "DM_AllocatePage fresh_disk = Some (int (e * BITMAP_SIZE + k), d1)" "disk_inv d1" "k < BITMAP_SIZE"
    "\<And>e'. ext_used d1 e' = (if e' = e then insert k (ext_used fresh_disk e) else ext_used fresh_disk e')" "\<And>e'. e' < e \<Longrightarrow> BITMAP_SIZE \<le> card (ext_used fresh_disk e')"
    "k = unat (next_free_page (ext_bitmap fresh_disk e))" "e < EXT_LIMIT"
    "BM_AllocatePage PAGE_SIZE (ext_bitmap fresh_disk e) = Some (True, Some (next_free_page (ext_bitmap fresh_disk e)), ext_bitmap d1 e)"
    by (rule DM_AllocatePage_step [OF disk_inv_fresh disk_avail_fresh], rule that, assumption+)
  have e: "e = 0" using a(5) [of 0] by (cases e) (simp_all add: fresh_disk_ext_used BITMAP_SIZE_val)
  have k: "k = 0" using a(6) by (simp add: fresh_disk_ext BitmapPage_new_def)
  obtain b where b: "BM_AllocatePage PAGE_SIZE (BitmapPage_new PAGE_SIZE) = Some (True, Some 0, b)" "next_free_page b = 1" by (rule bitmap_first_two)
  then have n1: "next_free_page (ext_bitmap d1 0) = 1" using a(8) unfolding e fresh_disk_ext by simp
  have u1: "ext_used d1 e' = (if e' = 0 then {0} else {})" for e' using a(4) [of e'] by (simp add: e k fresh_disk_ext_used)
  have av: "disk_avail d1" unfolding disk_avail_def u1 by (intro exI [of _ 0]) (simp add: EXT_LIMIT_def BITMAP_SIZE_val)
  obtain e2 k2 d2 where c: "DM_AllocatePage d1 = Some (int (e2 * BITMAP_SIZE + k2), d2)" "disk_inv d2" "k2 < BITMAP_SIZE" "e2 < EXT_LIMIT"
    "\<And>e'. ext_used d2 e' = (if e' = e2 then insert k2 (ext_used d1 e2) else ext_used d1 e')" "\<And>e'. e' < e2 \<Longrightarrow> BITMAP_SIZE \<le> card (ext_used d1 e')"
    "k2 = unat (next_free_page (ext_bitmap d1 e2))"
    by (rule DM_AllocatePage_step [OF a(2) av], rule that, assumption+)
  have e2: "e2 = 0" using c(6) [of 0] by (cases e2) (simp_all add: u1 BITMAP_SIZE_val)
  have k2: "k2 = 1" using c(7) by (simp add: e2 n1)
  have u: "disk_used d1 = {0}" "disk_used d2 = {0, 1}"
    using disk_used_insert [OF a(4,7,3)] disk_used_insert [OF c(5,4,3)] by (simp_all add: e k e2 k2 disk_used_fresh insert_commute)
  show thesis by (rule that [of d1 d2]) (use a(1,2) c(1,2) e k e2 k2 u u1 in simp_all)
qed

text \<open>Room in one of the extents whose data pages all lie below the limit of \<^verbatim>\<open>ReadPhysicalPage\<close>.\<close>

definition disk_room :: "disk_manager \<Rightarrow> bool" where
  "disk_room db \<longleftrightarrow> (\<exists>e < EXT_LIMIT - 1. card (ext_used db e) < BITMAP_SIZE)"

lemma disk_room_fresh: "disk_room fresh_disk"
  unfolding disk_room_def fresh_disk_ext_used
  by (intro exI [of _ 0]) (simp add: EXT_LIMIT_def BITMAP_SIZE_val)

lemma DM_AllocatePage_room:
  assumes "disk_inv db" "disk_room db"
  obtains l db' where "DM_AllocatePage db = Some (int l, db')" "disk_inv db'" "l \<notin> disk_used db"
    "disk_used db' = insert l (disk_used db)" "data_block l < PHYS_LIMIT" "\<And>p. page_at db' p = page_at db p"
proof -
  from assms(2) obtain e0 where e0: "e0 < EXT_LIMIT - 1" "card (ext_used db e0) < BITMAP_SIZE"
    by (auto simp: disk_room_def)
  then have av: "disk_avail db" by (auto simp: disk_avail_def intro!: exI [of _ e0])
  obtain e k db' where r: "DM_AllocatePage db = Some (int (e * BITMAP_SIZE + k), db')" "disk_inv db'"
    "e < EXT_LIMIT" "k < BITMAP_SIZE" "k \<notin> ext_used db e"
    "\<And>e'. ext_used db' e' = (if e' = e then insert k (ext_used db e) else ext_used db e')"
    "\<And>l. page_at db' l = page_at db l" "\<And>e'. e' < e \<Longrightarrow> BITMAP_SIZE \<le> card (ext_used db e')"
    using DM_AllocatePage_ok [OF assms(1) av] by blast
  have "e \<le> e0" using r(8) [of e0] e0(2) by (meson not_le)
  then have "e * 32705 \<le> 15 * 32705" using e0(1) by (simp add: EXT_LIMIT_def)
  then have "data_block (e * BITMAP_SIZE + k) < PHYS_LIMIT"
    using r(4) by (simp add: data_block_alt PHYS_LIMIT_def BITMAP_SIZE_val)
  moreover have "e * BITMAP_SIZE + k \<notin> disk_used db" using r(4,5) by (simp add: disk_used_def)
  ultimately show thesis
    using that [OF r(1,2)] r(7) disk_used_insert [OF r(6)] r(3,4) by metis
qed

section \<open>Properties\<close>

text \<open>
  C16: on a consistent file with room in an addressable extent, \<^verbatim>\<open>AllocatePage\<close> returns the id of a
  page that was free, marks exactly that page as used, keeps meta page and bitmaps consistent and
  changes the contents of no data page.
\<close>

theorem disk_allocate_correct:
  assumes "disk_inv db" "disk_avail db"
  shows "\<exists>l db'. DM_AllocatePage db = Some (int l, db') \<and> l \<notin> disk_used db \<and>
    disk_used db' = insert l (disk_used db) \<and> disk_inv db' \<and>
    (\<forall>p. page_at db' p = page_at db p)"
proof -
  obtain e k db' where "DM_AllocatePage db = Some (int (e * BITMAP_SIZE + k), db')" "disk_inv db'"
    "e < EXT_LIMIT" "k < BITMAP_SIZE" "k \<notin> ext_used db e"
    "\<And>e'. ext_used db' e' = (if e' = e then insert k (ext_used db e) else ext_used db e')"
    "\<And>l. page_at db' l = page_at db l" "\<And>e'. e' < e \<Longrightarrow> BITMAP_SIZE \<le> card (ext_used db e')"
    using DM_AllocatePage_ok [OF assms] by blast
  moreover from this have "e * BITMAP_SIZE + k \<notin> disk_used db"
    by (simp add: disk_used_def)
  ultimately show ?thesis by (metis disk_used_insert)
qed

theorem disk_allocate_correct_witness:
  "\<exists>l db'. DM_AllocatePage fresh_disk = Some (int l, db') \<and> disk_used db' = {l} \<and> disk_inv db'"
  using disk_allocate_correct [OF disk_inv_fresh disk_avail_fresh] disk_used_fresh by auto

text \<open>
  Deallocating a used page frees exactly that page, keeps the file consistent, leaves every
  data page's contents alone, and afterwards an allocation succeeds with a page outside the
  remaining used set.
\<close>

theorem disk_deallocate_correct:
  assumes "disk_inv db" "l \<in> disk_used db"
  shows "\<exists>db'. DM_DeAllocatePage db (int l) = Some db' \<and> disk_used db' = disk_used db - {l} \<and>
    disk_inv db' \<and> (\<forall>p. page_at db' p = page_at db p) \<and>
    (\<exists>l' db''. disk_alloc db' = Some (Some l', db'') \<and> l' \<notin> disk_used db - {l} \<and> disk_inv db'')"
proof -
  obtain db' where db': "DM_DeAllocatePage db (int l) = Some db'" "disk_inv db'"
    "\<And>e. ext_used db' e = (if e = l div BITMAP_SIZE then ext_used db e - {l mod BITMAP_SIZE} else ext_used db e)"
    "\<And>p. page_at db' p = page_at db p"
    using DM_DeAllocatePage_ok [OF assms] by blast
  obtain s l' db'' where "disk_dealloc l db = Some s" "disk_alloc s = Some (Some l', db'')"
    "l' \<notin> disk_used db - {l}" "disk_inv db''"
    by (rule disk.alloc_after_dealloc [OF assms])
  with db' disk_used_remove [OF db'(3)] show ?thesis
    by (auto simp: disk_dealloc_def)
qed

lemma disk_deallocate_correct_witness:
  "\<exists>l db db'. DM_AllocatePage fresh_disk = Some (int l, db) \<and> DM_DeAllocatePage db (int l) = Some db' \<and>
     disk_used db' = {}"
proof -
  obtain l db where "DM_AllocatePage fresh_disk = Some (int l, db)" "disk_used db = {l}" "disk_inv db"
    using DM_AllocatePage_ok [OF disk_inv_fresh disk_avail_fresh] disk_used_insert disk_used_fresh by metis
  with disk_deallocate_correct [of db l] show ?thesis by fastforce
qed

text \<open>
  C15: a page written through \<^verbatim>\<open>WritePage\<close> is read back by \<^verbatim>\<open>ReadPage\<close>, every other logical page
  reads as before, and neither the meta data nor any allocation bitmap is touched: distinct
  logical ids never share a physical page, nor overlap a bitmap page or the meta page.
\<close>

theorem disk_read_after_write:
  assumes "disk_inv db" "data_block l < PHYS_LIMIT" "data_block p < PHYS_LIMIT" "length d = PAGE_SIZE"
  shows "\<exists>db'. DM_WritePage db (int l) d = Some db' \<and> disk_inv db' \<and> disk_used db' = disk_used db \<and>
    DM_ReadPage db' (int p) = Some (if p = l then d else page_at db p, db')"
proof -
  obtain db' where db': "DM_WritePage db (int l) d = Some db'" "io_ok db'"
    "\<And>p. page_at db' p = (if p = l then d else page_at db p)"
    using DM_WritePage_ok [OF disk_invD(1) [OF assms(1)] assms(2,4)] by metis
  then show ?thesis
    using DM_WritePage_inv [OF assms(1,2,4) db'(1)] DM_ReadPage_ok [OF db'(2) assms(3)] by auto
qed

lemma disk_read_after_write_witness:
  "\<exists>db'. DM_WritePage fresh_disk 7 (replicate PAGE_SIZE 1) = Some db' \<and>
     DM_ReadPage db' 7 = Some (replicate PAGE_SIZE 1, db')"
  using disk_read_after_write [OF disk_inv_fresh, of 7 7 "replicate PAGE_SIZE 1"]
  by (auto simp: data_block_alt BITMAP_SIZE_val PHYS_LIMIT_def)

lemma disk_close_open:
  assumes "disk_inv db" "\<not> closed db"
  shows "\<exists>db1 db2. DM_Close db = Some db1 \<and> closed db1 \<and> \<not> fs_open (db_io db1) \<and>
    DM_open ((db_io db1)\<lparr>fs_open := True\<rparr>) = Some db2 \<and> meta_data db2 = meta_data db \<and>
    disk_inv db2 \<and> disk_used db2 = disk_used db \<and> (\<forall>p. page_at db2 p = page_at db p)"
proof -
  note D = disk_invD [OF assms(1)]
  have z: "0 < PHYS_LIMIT" by (simp add: PHYS_LIMIT_def)
  obtain w where w: "WritePhysicalPage db (int 0) (meta_data db) = Some w" "io_ok w"
    "meta_data w = meta_data db" "closed w = closed db"
    "\<And>q. block (content w) q = (if q = 0 then meta_data db else block (content db) q)"
    by (rule WritePhysicalPage_ok [OF D(1) z D(2)]) (erule (3) that, blast)
  let ?f = "(db_io w)\<lparr>fs_open := True\<rparr>"
  let ?db0 = "\<lparr>db_io = ?f, closed = False, meta_data = replicate PAGE_SIZE 0\<rparr>"
  let ?db2 = "\<lparr>db_io = ?f, closed = False, meta_data = meta_data db\<rparr>"
  have "io_ok ?db0" using w(2) by (simp add: io_ok_def)
  from ReadPhysicalPage_ok [OF this z] w(5) have "DM_open ?f = Some ?db2"
    by (simp add: DM_open_def)
  moreover have ext: "ext_bitmap ?db2 e = ext_bitmap db e" for e
    using w(5) by (simp add: ext_bitmap_def layout_neq)
  moreover have "disk_inv ?db2"
    using assms(1) w(2) ext by (simp add: disk_inv_def io_ok_def)
  moreover have "disk_used ?db2 = disk_used db" using ext by (simp only: disk_used_def)
  moreover have "page_at ?db2 p = page_at db p" for p using w(5) by (simp add: layout_neq)
  moreover have "DM_Close db = Some (w\<lparr>db_io := (db_io w)\<lparr>fs_open := False\<rparr>, closed := True\<rparr>)"
    using w(1,4) assms(2) by (simp add: DM_Close_def)
  ultimately show ?thesis by simp
qed

text \<open>
  Closing a consistent database file and opening it again restores the meta page, the set of
  allocated pages and the contents of every data page.
\<close>

theorem disk_close_open_roundtrip:
  assumes "disk_inv db" "\<not> closed db"
  shows "\<exists>db1 db2. DM_Close db = Some db1 \<and> closed db1 \<and> \<not> fs_open (db_io db1) \<and>
    DM_open ((db_io db1)\<lparr>fs_open := True\<rparr>) = Some db2 \<and> meta_data db2 = meta_data db \<and>
    disk_inv db2 \<and> disk_used db2 = disk_used db \<and> (\<forall>p. page_at db2 p = page_at db p)"
  by (rule disk_close_open [OF assms])

lemma disk_close_open_roundtrip_witness:
  "\<exists>db1 db2. DM_Close fresh_disk = Some db1 \<and> DM_open ((db_io db1)\<lparr>fs_open := True\<rparr>) = Some db2 \<and>
     meta_data db2 = meta_data fresh_disk"
  using disk_close_open_roundtrip [OF disk_inv_fresh] by (auto simp: fresh_disk_def)

lemma DM_DeAllocatePage_free:
  assumes "disk_inv db" "l div BITMAP_SIZE < EXT_LIMIT" "l \<notin> disk_used db"
  shows "\<exists>db'. DM_DeAllocatePage db (int l) = Some db' \<and> disk_used db' = disk_used db \<and>
    u32_at (meta_data db') 0 = u32_at (meta_data db) 0 - 1 \<and> \<not> disk_inv db'"
proof -
  note D = disk_invD [OF assms(1)] and le = assms(2)
  let ?e = "l div BITMAP_SIZE" and ?k = "l mod BITMAP_SIZE"
  have eM: "?e < MAX_BITMAP" using le by (rule EXT_LIMIT_MAX_BITMAP)
  obtain m where m: "meta_count (meta_data db) ?e (- 1) = Some m" "length m = PAGE_SIZE"
    "u32_at m 0 = u32_at (meta_data db) 0 + (- 1)"
    "u32_at m (8 + 4 * ?e) = u32_at (meta_data db) (8 + 4 * ?e) + (- 1)"
    using meta_count_ok [OF D(2) eM, where d = "- 1"] by blast
  have "unat (of_nat ?k :: u32) = ?k" by (simp add: BITMAP_SIZE_val)
  then have b: "BM_DeAllocatePage PAGE_SIZE (ext_bitmap db ?e) (of_nat ?k) = Some (False, ext_bitmap db ?e)"
    using assms(3) eM by (intro bitmap_dealloc_free [OF D(4) [OF eM]]) (simp add: disk_used_def)
  obtain db' where db': "WritePhysicalPage (db\<lparr>meta_data := m\<rparr>) (int (bitmap_block ?e))
      (bytes_of_bitmap (ext_bitmap db ?e)) = Some db'" "meta_data db' = m"
    "\<And>e'. ext_bitmap db' e' = (if e' = ?e then ext_bitmap db ?e else ext_bitmap db e')"
    using write_ext_bitmap [OF D(1) le D(4) [OF eM]] by blast
  have ext: "ext_bitmap db' e = ext_bitmap db e" for e using db'(3) by simp
  have "l < 17 * BITMAP_SIZE" using le by (simp add: EXT_LIMIT_def BITMAP_SIZE_val)
  then have "int l < MAX_VALID_PAGE_ID"
    by (simp add: MAX_VALID_PAGE_ID_def GetMaxSupportedSize_def MAX_CHARS_def PAGE_SIZE_def BITMAP_SIZE_val)
  moreover have "(l + BITMAP_SIZE) div BITMAP_SIZE - 1 = ?e" by (simp add: BITMAP_SIZE_val)
  ultimately have "DM_DeAllocatePage db (int l) = Some db'"
    using m(1) b db'(1) read_ext_bitmap [OF assms(1) le, of "meta_data db"]
    by (simp add: DM_DeAllocatePage_def flip: ext_bitmap_def)
  moreover have "disk_used db' = disk_used db" by (simp only: disk_used_def ext)
  moreover have "\<not> disk_inv db'"
  proof
    assume "disk_inv db'"
    from disk_invD(5) [OF this eM] D(5) [OF eM] m(4) show False by (simp add: db'(2) ext)
  qed
  ultimately show ?thesis using m(3) db'(2) by auto
qed

lemma DM_DeAllocatePage_total:
  assumes "disk_inv db" "l div BITMAP_SIZE < EXT_LIMIT"
  shows "\<exists>db'. DM_DeAllocatePage db (int l) = Some db'"
  using DM_DeAllocatePage_ok [OF assms(1)] DM_DeAllocatePage_free [OF assms] by metis

text \<open>
  \<^verbatim>\<open>ReadPhysicalPage\<close> computes its byte offset in a signed 32-bit integer, so every logical page
  that maps at or beyond physical page 524288 (2 GiB) has no defined read, although logical ids up
  to \<^verbatim>\<open>MAX_VALID_PAGE_ID\<close> (more than 33 million) pass the validity checks.
\<close>

theorem read_beyond_2GiB_undefined:
  "(DM_ReadPage db (int l) = None \<longleftrightarrow> data_block l \<ge> 524288) \<and> (524288 :: int) < MAX_VALID_PAGE_ID"
proof -
  have "int32_mult (int (data_block l)) (int PAGE_SIZE) = None \<longleftrightarrow> data_block l \<ge> 524288"
    unfolding int32_mult_def PAGE_SIZE_def by auto
  then have "DM_ReadPage db (int l) = None \<longleftrightarrow> data_block l \<ge> 524288"
    by (auto simp: DM_ReadPage_def MapPageId_eq ReadPhysicalPage_def Let_def bind_eq_None_conv)
  moreover have "(524288 :: int) < MAX_VALID_PAGE_ID"
    by (simp add: MAX_VALID_PAGE_ID_def GetMaxSupportedSize_def MAX_CHARS_def PAGE_SIZE_def)
  ultimately show ?thesis by blast
qed

text \<open>
  \<^verbatim>\<open>DeAllocatePage\<close> lowers both counters of the meta page before the bitmap has confirmed that the
  page was allocated, and ignores the bitmap's answer: freeing a page that is already free keeps
  the used set but makes the recorded totals wrong, so the file is no longer consistent.
\<close>

theorem disk_double_free_breaks_meta:
  assumes "disk_inv db" "l div BITMAP_SIZE < EXT_LIMIT" "l \<notin> disk_used db"
  shows "\<exists>db'. DM_DeAllocatePage db (int l) = Some db' \<and> disk_used db' = disk_used db \<and>
    u32_at (meta_data db') 0 = u32_at (meta_data db) 0 - 1 \<and> \<not> disk_inv db'"
  by (rule DM_DeAllocatePage_free [OF assms])

theorem disk_double_free_breaks_meta_witness:
  "\<exists>db'. DM_DeAllocatePage fresh_disk 5 = Some db' \<and> u32_at (meta_data db') 0 = - 1 \<and> \<not> disk_inv db'"
proof -
  have "u32_at (meta_data fresh_disk) 0 = 0"
    by (simp add: fresh_disk_def u32_at_zeros PAGE_SIZE_def)
  then show ?thesis
    using disk_double_free_breaks_meta [OF disk_inv_fresh, of 5]
    by (auto simp: disk_used_fresh BITMAP_SIZE_val EXT_LIMIT_def)
qed

end
