(* ===== verification/Lru_Replacer.thy ===== *)
theory Lru_Replacer
  imports Interfaces
begin

text \<open>
  The replacement policy in use (\<^verbatim>\<open>USE_LRU_REPLACER\<close>): \<^verbatim>\<open>LRUReplacer\<close> of
  \<^verbatim>\<open>include/buffer/lru_replacer.h\<close> and \<^verbatim>\<open>buffer/lru_replacer.cpp\<close>. The doubly linked list is
  modelled at pointer level: a heap of \<^verbatim>\<open>node\<close> objects, the sentinels \<^verbatim>\<open>head\<close> and \<^verbatim>\<open>tail\<close>, the map
  from frame ids to node addresses and the vector \<^verbatim>\<open>unpinned\<close>. Following a dangling or
  uninitialised pointer, or indexing the vector out of range, is \<^term>\<open>None\<close>. The lemmas show that
  every operation refines one on the list of frames, most recently lru_unpinned first.
\<close>

section \<open>Model\<close>

text \<open>\<^verbatim>\<open>new node\<close> leaves the fields uninitialised: a link is \<^term>\<open>None\<close> until it is assigned.\<close>

record lru_node =
  node_val :: int
  node_prev :: "nat option"
  node_next :: "nat option"

record lru_replacer =
  lru_heap :: "nat \<rightharpoonup> lru_node"
  lru_brk :: nat
  lru_head :: nat
  lru_tail :: nat
  LRU_MAX_NUM_PAGES :: int
  now_size :: nat
  lru_map :: "int \<rightharpoonup> nat"
  lru_unpinned :: "bool list"

type_synonym lru_memory = "nat \<rightharpoonup> lru_node"

definition get_prev :: "lru_memory \<Rightarrow> nat \<Rightarrow> nat option" where
  "get_prev h p = Option.bind (h p) node_prev"

definition get_next :: "lru_memory \<Rightarrow> nat \<Rightarrow> nat option" where
  "get_next h p = Option.bind (h p) node_next"

definition set_prev :: "lru_memory \<Rightarrow> nat \<Rightarrow> nat \<Rightarrow> lru_memory option" where
  "set_prev h p q = map_option (\<lambda>n. h(p \<mapsto> n\<lparr>node_prev := Some q\<rparr>)) (h p)"

definition set_next :: "lru_memory \<Rightarrow> nat \<Rightarrow> nat \<Rightarrow> lru_memory option" where
  "set_next h p q = map_option (\<lambda>n. h(p \<mapsto> n\<lparr>node_next := Some q\<rparr>)) (h p)"

definition blank_node :: lru_node where
  "blank_node = \<lparr>node_val = 0, node_prev = None, node_next = None\<rparr>"

definition LRUReplacer_new :: "nat \<Rightarrow> lru_replacer" where
  "LRUReplacer_new num_pages =
     \<lparr>lru_heap = [0 \<mapsto> blank_node\<lparr>node_next := Some 1\<rparr>, 1 \<mapsto> blank_node\<lparr>node_prev := Some 0\<rparr>], lru_brk = 2,
      lru_head = 0, lru_tail = 1, LRU_MAX_NUM_PAGES = int num_pages, now_size = 0, lru_map = Map.empty,
      lru_unpinned = replicate (num_pages + 5) False\<rparr>"

text \<open>\<^verbatim>\<open>(now->next)->prev=now->prev; (now->prev)->next=now->next;\<close> as in \<^verbatim>\<open>Victim\<close> and \<^verbatim>\<open>Pin\<close>.\<close>

definition unlink :: "lru_memory \<Rightarrow> nat \<Rightarrow> lru_memory option" where
  "unlink h now = do {
     nx \<leftarrow> get_next h now; pv \<leftarrow> get_prev h now;
     h1 \<leftarrow> set_prev h nx pv;
     pv1 \<leftarrow> get_prev h1 now; nx1 \<leftarrow> get_next h1 now;
     set_next h1 pv1 nx1 }"

definition LRU_Victim :: "lru_replacer \<Rightarrow> (int option \<times> lru_replacer) option" where
  "LRU_Victim r =
     (if now_size r = 0 then Some (None, r)
      else do {
        now \<leftarrow> get_prev (lru_heap r) (lru_tail r);
        n \<leftarrow> lru_heap r now;
        let frame_id = node_val n;
        h \<leftarrow> unlink (lru_heap r) now;
        u \<leftarrow> vector_set (lru_unpinned r) frame_id False;
        Some (Some frame_id, r\<lparr>lru_heap := h(now := None), lru_map := (lru_map r)(frame_id := None),
          lru_unpinned := u, now_size := now_size r - 1\<rparr>) })"

definition LRU_Pin :: "lru_replacer \<Rightarrow> int \<Rightarrow> lru_replacer option" where
  "LRU_Pin r frame_id =
     (if frame_id > LRU_MAX_NUM_PAGES r then Some r
      else do {
        b \<leftarrow> vector_get (lru_unpinned r) frame_id;
        if \<not> b then Some r
        else do {
          u \<leftarrow> vector_set (lru_unpinned r) frame_id False;
          now \<leftarrow> lru_map r frame_id;
          h \<leftarrow> unlink (lru_heap r) now;
          Some (r\<lparr>lru_unpinned := u, lru_heap := h(now := None), lru_map := (lru_map r)(frame_id := None),
            now_size := now_size r - 1\<rparr>) } })"

definition LRU_Unpin :: "lru_replacer \<Rightarrow> int \<Rightarrow> lru_replacer option" where
  "LRU_Unpin r frame_id =
     (if frame_id > LRU_MAX_NUM_PAGES r then Some r
      else do {
        b \<leftarrow> vector_get (lru_unpinned r) frame_id;
        if b then Some r
        else do {
          u \<leftarrow> vector_set (lru_unpinned r) frame_id True;
          let now = lru_brk r;
          first \<leftarrow> get_next (lru_heap r) (lru_head r);
          let h1 = (lru_heap r)(now \<mapsto> \<lparr>node_val = frame_id, node_prev = Some (lru_head r), node_next = Some first\<rparr>);
          h2 \<leftarrow> set_prev h1 first now;
          h3 \<leftarrow> set_next h2 (lru_head r) now;
          Some (r\<lparr>lru_unpinned := u, now_size := now_size r + 1, lru_heap := h3, lru_brk := now + 1,
            lru_map := (lru_map r)(frame_id \<mapsto> now)\<rparr>) } })"

definition LRU_Size :: "lru_replacer \<Rightarrow> nat" where
  "LRU_Size r = now_size r"

section \<open>Doubly linked chains\<close>

definition linked2 :: "lru_memory \<Rightarrow> nat \<Rightarrow> nat \<Rightarrow> bool" where
  "linked2 h p q \<longleftrightarrow> get_next h p = Some q \<and> get_prev h q = Some p"

fun chain :: "lru_memory \<Rightarrow> nat list \<Rightarrow> bool" where
  "chain h (p # q # ps) = (linked2 h p q \<and> chain h (q # ps))"
| "chain h _ = True"

lemma chain_append: "chain h (xs @ p # ys) \<longleftrightarrow> chain h (xs @ [p]) \<and> chain h (p # ys)"
  by (induction xs rule: induct_list012) auto

lemma chain_cong:
  assumes "chain h ps"
    "\<And>p. p \<in> set (butlast ps) \<Longrightarrow> get_next h' p = get_next h p"
    "\<And>p. p \<in> set (tl ps) \<Longrightarrow> get_prev h' p = get_prev h p"
  shows "chain h' ps"
  using assms by (induction ps rule: induct_list012) (auto simp: linked2_def split: if_splits)

lemma links_upd [simp]:
  "get_prev (h(p \<mapsto> n)) q = (if q = p then node_prev n else get_prev h q)"
  "get_next (h(p \<mapsto> n)) q = (if q = p then node_next n else get_next h q)"
  "get_prev (h(p := None)) q = (if q = p then None else get_prev h q)"
  "get_next (h(p := None)) q = (if q = p then None else get_next h q)"
  by (simp_all add: get_prev_def get_next_def)

lemma get_links_Some:
  "get_prev h p = Some q \<Longrightarrow> \<exists>n. h p = Some n \<and> node_prev n = Some q"
  "get_next h p = Some q \<Longrightarrow> \<exists>n. h p = Some n \<and> node_next n = Some q"
  by (auto simp: get_prev_def get_next_def bind_eq_Some_conv)

text \<open>Unlinking a node that has both neighbours: the neighbours are joined, no other link and no
  value changes.\<close>

lemma unlink_ok:
  assumes "linked2 h a p" "linked2 h p b" "a \<noteq> p" "b \<noteq> p" "a \<noteq> b"
  obtains h' where "unlink h p = Some h'" "dom h' = dom h"
    "\<And>q. map_option node_val (h' q) = map_option node_val (h q)"
    "\<And>q. get_next h' q = (if q = a then Some b else get_next h q)"
    "\<And>q. get_prev h' q = (if q = b then Some a else get_prev h q)"
proof -
  obtain nb na where n: "h b = Some nb" "h a = Some na"
    using assms(1,2) by (auto simp: linked2_def dest!: get_links_Some)
  let ?h1 = "h(b \<mapsto> nb\<lparr>node_prev := Some a\<rparr>)"
  let ?h2 = "?h1(a \<mapsto> na\<lparr>node_next := Some b\<rparr>)"
  have "unlink h p = Some ?h2"
    using assms n by (simp add: unlink_def linked2_def set_prev_def set_next_def)
  then show thesis
    by (rule that) (use n assms in \<open>auto simp: get_prev_def get_next_def\<close>)
qed

text \<open>Unlinking and deleting an inner node of a chain leaves the chain without it.\<close>

lemma chain_delete:
  assumes ch: "chain h (xs @ a # p # b # ys)" and dist: "distinct (xs @ a # p # b # ys)"
  obtains h' where "unlink h p = Some h'" "dom h' = dom h"
    "\<And>q. map_option node_val (h' q) = map_option node_val (h q)"
    "chain (h'(p := None)) (xs @ a # b # ys)"
proof -
  have c: "chain h (xs @ [a])" "linked2 h a p" "linked2 h p b" "chain h (b # ys)"
    using ch chain_append [of h xs a "p # b # ys"] by simp_all
  obtain h' where h': "unlink h p = Some h'" "dom h' = dom h"
    "\<And>q. map_option node_val (h' q) = map_option node_val (h q)"
    "\<And>q. get_next h' q = (if q = a then Some b else get_next h q)"
    "\<And>q. get_prev h' q = (if q = b then Some a else get_prev h q)"
    using unlink_ok [OF c(2,3)] dist by auto
  have "chain (h'(p := None)) (xs @ [a])"
    by (rule chain_cong [OF c(1)]) (use dist in \<open>cases xs; auto simp: h'(4,5)\<close>)+
  moreover have "chain (h'(p := None)) (b # ys)"
    by (rule chain_cong [OF c(4)]) (use dist in \<open>auto simp: h'(4,5) dest: in_set_butlastD split: if_splits\<close>)
  moreover have "linked2 (h'(p := None)) a b"
    using dist by (auto simp: linked2_def h'(4,5))
  ultimately have "chain (h'(p := None)) (xs @ a # b # ys)"
    by (subst chain_append) simp
  with h' show thesis by (intro that [of h']) auto
qed

section \<open>Invariant and abstraction\<close>

text \<open>\<open>ps\<close> are the addresses of the nodes between the sentinels.\<close>

definition lru_vals :: "lru_replacer \<Rightarrow> nat list \<Rightarrow> int list" where
  "lru_vals r ps = map (\<lambda>p. node_val (the (lru_heap r p))) ps"

definition lru_nodes :: "lru_replacer \<Rightarrow> nat list \<Rightarrow> nat list" where
  "lru_nodes r ps = lru_head r # ps @ [lru_tail r]"

definition lru_rep :: "lru_replacer \<Rightarrow> nat list \<Rightarrow> bool" where
  "lru_rep r ps \<longleftrightarrow>
     chain (lru_heap r) (lru_nodes r ps) \<and> distinct (lru_nodes r ps) \<and>
     dom (lru_heap r) = set (lru_nodes r ps) \<and> (\<forall>p \<in> dom (lru_heap r). p < lru_brk r) \<and>
     now_size r = length ps \<and> 0 \<le> LRU_MAX_NUM_PAGES r \<and>
     length (lru_unpinned r) = nat (LRU_MAX_NUM_PAGES r) + 5 \<and>
     distinct (lru_vals r ps) \<and> set (lru_vals r ps) \<subseteq> {0..LRU_MAX_NUM_PAGES r} \<and>
     (\<forall>i < length (lru_unpinned r). lru_unpinned r ! i \<longleftrightarrow> int i \<in> set (lru_vals r ps)) \<and>
     (\<forall>f p. lru_map r f = Some p \<longleftrightarrow> p \<in> set ps \<and> node_val (the (lru_heap r p)) = f)"

definition lru_order :: "lru_replacer \<Rightarrow> int list \<Rightarrow> bool" where
  "lru_order r fs \<longleftrightarrow> (\<exists>ps. lru_rep r ps \<and> fs = lru_vals r ps)"

definition lru_inv :: "lru_replacer \<Rightarrow> bool" where
  "lru_inv r \<longleftrightarrow> (\<exists>fs. lru_order r fs)"

definition lru_frames :: "lru_replacer \<Rightarrow> int set" where
  "lru_frames r = {f. vector_get (lru_unpinned r) f = Some True}"

definition lru_valid :: "lru_replacer \<Rightarrow> int \<Rightarrow> bool" where
  "lru_valid r f \<longleftrightarrow> 0 \<le> f \<and> f \<le> LRU_MAX_NUM_PAGES r"

declare lru_rep_def [inv_defs] lru_order_def [inv_defs] lru_inv_def [inv_defs]

lemma lru_order_frames: "lru_order r fs \<Longrightarrow> lru_frames r = set fs"
proof -
  assume "lru_order r fs"
  then obtain ps where "lru_rep r ps" "fs = lru_vals r ps" by (auto simp: lru_order_def)
  moreover from this have "nat f < length (lru_unpinned r)" if "f \<in> set fs" for f
  proof -
    have "f \<in> {0..LRU_MAX_NUM_PAGES r}" "length (lru_unpinned r) = nat (LRU_MAX_NUM_PAGES r) + 5"
      using that \<open>lru_rep r ps\<close> \<open>fs = lru_vals r ps\<close> unfolding lru_rep_def by blast+
    then show ?thesis by auto
  qed
  ultimately show ?thesis
    unfolding lru_frames_def vector_get_def lru_rep_def by (auto split: if_splits)
qed

lemma lru_map_node:
  assumes "lru_rep r ps" "f \<in> set (lru_vals r ps)"
  obtains as p bs where "ps = as @ p # bs" "lru_map r f = Some p"
    "node_val (the (lru_heap r p)) = f"
proof -
  from assms(2) obtain p where p: "p \<in> set ps" "node_val (the (lru_heap r p)) = f"
    by (auto simp: lru_vals_def)
  then obtain as bs where ps: "ps = as @ p # bs" by (meson split_list)
  have "lru_map r f = Some p" using assms(1) p unfolding lru_rep_def by blast
  with ps p that show thesis by blast
qed

text \<open>
  Deleting one node of the representation: the common effect of \<^verbatim>\<open>Victim\<close> and \<^verbatim>\<open>Pin\<close>.
\<close>

lemma lru_chain_delete:
  assumes "chain h (hd_p # (as @ p # bs) @ [tl_p])" "distinct (hd_p # (as @ p # bs) @ [tl_p])"
  obtains h' where "unlink h p = Some h'" "dom h' = dom h"
    "\<And>q. map_option node_val (h' q) = map_option node_val (h q)"
    "chain (h'(p := None)) (hd_p # (as @ bs) @ [tl_p])"
proof -
  obtain xs a where xs: "hd_p # as = xs @ [a]" by (metis list.distinct(1) rev_exhaust)
  obtain b ys where ys: "bs @ [tl_p] = b # ys" by (metis append_is_Nil_conv list.exhaust not_Cons_self2)
  have eq: "hd_p # (as @ p # bs) @ [tl_p] = xs @ a # p # b # ys"
    "hd_p # (as @ bs) @ [tl_p] = xs @ a # b # ys"
    using xs ys by (metis append.assoc append_Cons append_Nil)+
  show thesis
    by (rule chain_delete [OF assms [unfolded eq]]) (use that eq in auto)
qed

lemma vals_cong:
  assumes "\<And>q. q \<in> set ps \<Longrightarrow> map_option node_val (lru_heap r' q) = map_option node_val (lru_heap r q)"
    "set ps \<subseteq> dom (lru_heap r)"
  shows "lru_vals r' ps = lru_vals r ps"
proof -
  have "node_val (the (lru_heap r' q)) = node_val (the (lru_heap r q))" if "q \<in> set ps" for q
    using assms(1) [OF that] assms(2) that by (cases "lru_heap r' q") auto
  then show ?thesis by (simp add: lru_vals_def)
qed

lemma lru_vals_append: "lru_vals r (as @ bs) = lru_vals r as @ lru_vals r bs"
  by (simp add: lru_vals_def)

lemma lru_rep_delete:
  assumes rep: "lru_rep r (as @ p # bs)" and f: "node_val (the (lru_heap r p)) = f"
  obtains h u r' where "unlink (lru_heap r) p = Some h" "vector_set (lru_unpinned r) f False = Some u"
    "r' = r\<lparr>lru_heap := h(p := None), lru_map := (lru_map r)(f := None), lru_unpinned := u,
       now_size := now_size r - 1\<rparr>"
    "lru_rep r' (as @ bs)" "lru_vals r' (as @ bs) = lru_vals r as @ lru_vals r bs"
proof -
  note R = rep [unfolded lru_rep_def lru_nodes_def]
  have ch: "chain (lru_heap r) (lru_head r # (as @ p # bs) @ [lru_tail r])"
    and dist: "distinct (lru_head r # (as @ p # bs) @ [lru_tail r])"
    and dm: "dom (lru_heap r) = set (lru_head r # (as @ p # bs) @ [lru_tail r])"
    and brk: "\<forall>p \<in> dom (lru_heap r). p < lru_brk r"
    and len: "0 \<le> LRU_MAX_NUM_PAGES r" "length (lru_unpinned r) = nat (LRU_MAX_NUM_PAGES r) + 5"
    and dv: "distinct (lru_vals r (as @ p # bs))"
    and sv: "set (lru_vals r (as @ p # bs)) \<subseteq> {0..LRU_MAX_NUM_PAGES r}"
    and un: "\<And>i. i < length (lru_unpinned r) \<Longrightarrow> lru_unpinned r ! i \<longleftrightarrow> int i \<in> set (lru_vals r (as @ p # bs))"
    and mp: "\<And>f q. lru_map r f = Some q \<longleftrightarrow> q \<in> set (as @ p # bs) \<and> node_val (the (lru_heap r q)) = f"
    using R by blast+
  obtain h where h: "unlink (lru_heap r) p = Some h" "dom h = dom (lru_heap r)"
    "\<And>q. map_option node_val (h q) = map_option node_val (lru_heap r q)"
    "chain (h(p := None)) (lru_head r # (as @ bs) @ [lru_tail r])"
    by (rule lru_chain_delete [OF ch dist]) blast
  have vs: "lru_vals r (as @ p # bs) = lru_vals r as @ f # lru_vals r bs"
    using f by (simp add: lru_vals_def)
  have fr: "0 \<le> f" "f \<le> LRU_MAX_NUM_PAGES r" using sv vs by auto
  define u where "u = (lru_unpinned r)[nat f := False]"
  define r' where "r' = r\<lparr>lru_heap := h(p := None), lru_map := (lru_map r)(f := None), lru_unpinned := u,
     now_size := now_size r - 1\<rparr>"
  have np: "p \<notin> set (as @ bs)" and nf: "f \<notin> set (lru_vals r as @ lru_vals r bs)"
    using dist dv vs by auto
  have v': "lru_vals r' (as @ bs) = lru_vals r as @ lru_vals r bs"
    unfolding lru_vals_append [of r, symmetric]
    by (rule vals_cong) (use np dm h(3) in \<open>auto simp: r'_def\<close>)
  have nv: "node_val (the (lru_heap r' q)) = node_val (the (lru_heap r q))" if "q \<in> set (as @ bs)" for q
    using v' that by (auto simp: lru_vals_def)
  have "lru_map r' g = Some q \<longleftrightarrow> q \<in> set (as @ bs) \<and> node_val (the (lru_heap r' q)) = g" for g q
  proof -
    have "q \<in> set (as @ bs) \<Longrightarrow> node_val (the (lru_heap r q)) \<noteq> f" using nf by (auto simp: lru_vals_def)
    moreover have "lru_map r' g = (if g = f then None else lru_map r g)" by (simp add: r'_def)
    ultimately show ?thesis using mp [of g q] nv [of q] f by auto
  qed
  moreover have "u ! i \<longleftrightarrow> int i \<in> set (lru_vals r' (as @ bs))" if "i < length (lru_unpinned r)" for i
    using un [OF that, unfolded vs] that nf fr unfolding u_def v' by (cases "i = nat f") auto
  moreover have "dom (lru_heap r') = set (lru_nodes r' (as @ bs))"
    using h(2) dm dist by (auto simp: r'_def lru_nodes_def)
  moreover have "chain (lru_heap r') (lru_nodes r' (as @ bs))" "distinct (lru_nodes r' (as @ bs))"
    using h(4) dist by (auto simp: r'_def lru_nodes_def)
  moreover have "now_size r' = length (as @ bs)" using R by (simp add: r'_def)
  moreover have "distinct (lru_vals r' (as @ bs))" "set (lru_vals r' (as @ bs)) \<subseteq> {0..LRU_MAX_NUM_PAGES r'}"
    using dv sv unfolding v' vs by (auto simp: r'_def)
  moreover have "\<forall>p \<in> dom (lru_heap r'). p < lru_brk r'" using brk h(2) by (auto simp: r'_def)
  ultimately have "lru_rep r' (as @ bs)"
    using len unfolding lru_rep_def by (simp add: r'_def u_def)
  moreover have "vector_set (lru_unpinned r) f False = Some u"
    using fr len by (simp add: vector_set_def u_def)
  ultimately show thesis using that h(1) r'_def v' by metis
qed

lemma lru_rep_last:
  assumes "lru_rep r (qs @ [p])"
  shows "get_prev (lru_heap r) (lru_tail r) = Some p" "\<exists>n. lru_heap r p = Some n"
proof -
  have "chain (lru_heap r) ((lru_head r # qs) @ p # [lru_tail r])"
    using assms by (simp add: lru_rep_def lru_nodes_def)
  then have "linked2 (lru_heap r) p (lru_tail r)"
    by (subst (asm) chain_append) simp
  then show "get_prev (lru_heap r) (lru_tail r) = Some p" "\<exists>n. lru_heap r p = Some n"
    by (auto simp: linked2_def dest: get_links_Some)
qed

section \<open>Refinement: the operations on the list of frames\<close>

lemma LRU_Victim_ok:
  assumes "lru_order r fs"
  shows "if fs = [] then LRU_Victim r = Some (None, r)
    else \<exists>r'. LRU_Victim r = Some (Some (last fs), r') \<and> lru_order r' (butlast fs) \<and>
      LRU_MAX_NUM_PAGES r' = LRU_MAX_NUM_PAGES r"
proof -
  from assms obtain ps where rep: "lru_rep r ps" and fs: "fs = lru_vals r ps" by (auto simp: lru_order_def)
  show ?thesis
  proof (cases ps rule: rev_cases)
    case Nil
    with rep fs show ?thesis by (simp add: LRU_Victim_def lru_rep_def lru_vals_def)
  next
    case (snoc qs p)
    obtain n where n: "lru_heap r p = Some n" using lru_rep_last(2) rep snoc by blast
    obtain h u r' where d: "unlink (lru_heap r) p = Some h"
      "vector_set (lru_unpinned r) (node_val n) False = Some u"
      "r' = r\<lparr>lru_heap := h(p := None), lru_map := (lru_map r)(node_val n := None), lru_unpinned := u,
         now_size := now_size r - 1\<rparr>" "lru_rep r' (qs @ [])" "lru_vals r' (qs @ []) = lru_vals r qs @ lru_vals r []"
      by (rule lru_rep_delete [of r qs p "[]" "node_val n"]) (use rep snoc n in auto)
    have "now_size r \<noteq> 0" using rep snoc by (simp add: lru_rep_def)
    then have "LRU_Victim r = Some (Some (node_val n), r')"
      using lru_rep_last(1) [of r qs p] rep snoc n d(1-3) by (simp add: LRU_Victim_def Let_def)
    moreover have "fs = lru_vals r qs @ [node_val n]" using fs snoc n by (simp add: lru_vals_def)
    moreover have "lru_order r' (lru_vals r qs)" using d(4,5) by (auto simp: lru_order_def lru_vals_def)
    ultimately show ?thesis using d(3) by simp
  qed
qed

lemma lru_frame_lookup:
  assumes "lru_order r fs" "lru_valid r f"
  shows "vector_get (lru_unpinned r) f = Some (f \<in> set fs)"
  using assms unfolding lru_order_def lru_rep_def lru_valid_def vector_get_def by auto

lemma LRU_Pin_ok:
  assumes "lru_order r fs" "lru_valid r f"
  shows "\<exists>r'. LRU_Pin r f = Some r' \<and> lru_order r' (remove1 f fs) \<and>
    LRU_MAX_NUM_PAGES r' = LRU_MAX_NUM_PAGES r"
proof (cases "f \<in> set fs")
  case False
  with assms lru_frame_lookup [OF assms] show ?thesis
    by (simp add: LRU_Pin_def lru_valid_def remove1_idem)
next
  case True
  from assms(1) obtain ps where rep: "lru_rep r ps" and fs: "fs = lru_vals r ps" by (auto simp: lru_order_def)
  obtain as p bs where p: "ps = as @ p # bs" "lru_map r f = Some p" "node_val (the (lru_heap r p)) = f"
    using lru_map_node [OF rep] True fs by metis
  obtain h u r' where d: "unlink (lru_heap r) p = Some h" "vector_set (lru_unpinned r) f False = Some u"
    "r' = r\<lparr>lru_heap := h(p := None), lru_map := (lru_map r)(f := None), lru_unpinned := u,
       now_size := now_size r - 1\<rparr>" "lru_rep r' (as @ bs)" "lru_vals r' (as @ bs) = lru_vals r as @ lru_vals r bs"
    by (rule lru_rep_delete [of r as p bs f]) (use rep p in auto)
  have "LRU_Pin r f = Some r'"
    using assms(2) lru_frame_lookup [OF assms] True p(2) d(1-3) by (simp add: LRU_Pin_def lru_valid_def)
  moreover have "distinct fs" "fs = lru_vals r as @ f # lru_vals r bs"
    using rep fs p(1,3) by (auto simp: lru_vals_def lru_rep_def)
  then have "remove1 f fs = lru_vals r as @ lru_vals r bs"
    by (simp add: remove1_append)
  ultimately show ?thesis using d(3-5) by (auto simp: lru_order_def)
qed

lemma lru_rep_first:
  assumes "lru_rep r ps"
  obtains p qs where "ps @ [lru_tail r] = p # qs" "linked2 (lru_heap r) (lru_head r) p"
    "chain (lru_heap r) (p # qs)" "p \<noteq> lru_head r"
proof -
  obtain p qs where e: "ps @ [lru_tail r] = p # qs" by (cases ps) auto
  with assms have "chain (lru_heap r) (lru_head r # p # qs)" "distinct (lru_head r # p # qs)"
    unfolding lru_rep_def lru_nodes_def by (metis append_Cons)+
  with e that show thesis by simp
qed

lemma LRU_Unpin_ok:
  assumes ord: "lru_order r fs" and f: "lru_valid r f"
  shows "\<exists>r'. LRU_Unpin r f = Some r' \<and> lru_order r' (if f \<in> set fs then fs else f # fs) \<and>
    LRU_MAX_NUM_PAGES r' = LRU_MAX_NUM_PAGES r"
proof (cases "f \<in> set fs")
  case True
  with assms lru_frame_lookup [OF assms] show ?thesis
    by (simp add: LRU_Unpin_def lru_valid_def)
next
  case False
  from ord obtain ps where rep: "lru_rep r ps" and fs: "fs = lru_vals r ps" by (auto simp: lru_order_def)
  note R = rep [unfolded lru_rep_def]
  from rep obtain p qs where p: "ps @ [lru_tail r] = p # qs" "linked2 (lru_heap r) (lru_head r) p"
    "chain (lru_heap r) (p # qs)" "p \<noteq> lru_head r" by (rule lru_rep_first)
  obtain np nh where n: "lru_heap r p = Some np" "lru_heap r (lru_head r) = Some nh"
    "get_next (lru_heap r) (lru_head r) = Some p"
    using p(2) by (auto simp: linked2_def dest!: get_links_Some)
  let ?now = "lru_brk r"
  have new: "?now \<notin> set (lru_nodes r ps)" using R by (metis less_irrefl)
  then have ne: "?now \<noteq> p" "?now \<noteq> lru_head r" using n R by (auto simp: lru_nodes_def domIff)
  define h where "h = (lru_heap r)(?now \<mapsto> \<lparr>node_val = f, node_prev = Some (lru_head r), node_next = Some p\<rparr>,
    p \<mapsto> np\<lparr>node_prev := Some ?now\<rparr>, lru_head r \<mapsto> nh\<lparr>node_next := Some ?now\<rparr>)"
  define u where "u = (lru_unpinned r)[nat f := True]"
  define r' where "r' = r\<lparr>lru_unpinned := u, now_size := now_size r + 1, lru_heap := h, lru_brk := ?now + 1,
    lru_map := (lru_map r)(f \<mapsto> ?now)\<rparr>"
  have uset: "vector_set (lru_unpinned r) f True = Some u"
  proof -
    have "length (lru_unpinned r) = nat (LRU_MAX_NUM_PAGES r) + 5" using R by blast
    with f show ?thesis by (auto simp: vector_set_def u_def lru_valid_def)
  qed
  have run: "LRU_Unpin r f = Some r'"
    using f lru_frame_lookup [OF assms] False n ne p(4) uset
    by (simp add: LRU_Unpin_def lru_valid_def Let_def set_prev_def set_next_def r'_def h_def)
  have "?now \<notin> set ps" and dist: "distinct (lru_nodes r ps)" using new R by (auto simp: lru_nodes_def)
  have val': "map_option node_val (h q) = map_option node_val (lru_heap r q)" if "q \<noteq> ?now" for q
    using that n by (auto simp: h_def)
  have vs: "lru_vals r' ps = lru_vals r ps"
  proof (rule vals_cong)
    show "map_option node_val (lru_heap r' q) = map_option node_val (lru_heap r q)" if "q \<in> set ps" for q
      using val' [of q] that \<open>?now \<notin> set ps\<close> by (auto simp: r'_def)
    show "set ps \<subseteq> dom (lru_heap r)" using R by (auto simp: lru_nodes_def)
  qed
  then have nv: "node_val (the (lru_heap r' q)) = node_val (the (lru_heap r q))" if "q \<in> set ps" for q
    using that by (auto simp: lru_vals_def)
  have vnow: "node_val (the (lru_heap r' ?now)) = f" using ne by (simp add: r'_def h_def)
  have "chain h (p # qs)"
    by (rule chain_cong [OF p(3)])
      (use p(1,4) dist ne new in \<open>auto simp: h_def lru_nodes_def n get_prev_def get_next_def
        dest: in_set_butlastD split: if_splits\<close>)
  then have ch: "chain (lru_heap r') (lru_nodes r' (?now # ps))"
    using p(1,4) ne n by (simp add: r'_def lru_nodes_def linked2_def h_def)
  have v': "lru_vals r' (?now # ps) = f # fs" using vs vnow fs by (simp add: lru_vals_def)
  have mp: "lru_map r' g = Some q \<longleftrightarrow> q \<in> set (?now # ps) \<and> node_val (the (lru_heap r' q)) = g" for g q
  proof (cases "q = ?now")
    case True
    have "lru_map r g \<noteq> Some ?now" using R \<open>?now \<notin> set ps\<close> by blast
    with True vnow show ?thesis by (auto simp: r'_def)
  next
    case q: False
    have "q \<in> set ps \<Longrightarrow> node_val (the (lru_heap r q)) \<noteq> f" using False fs by (auto simp: lru_vals_def)
    moreover have "lru_map r' g = (if g = f then Some ?now else lru_map r g)" by (simp add: r'_def)
    moreover have "lru_map r g = Some q \<longleftrightarrow> q \<in> set ps \<and> node_val (the (lru_heap r q)) = g" using R by blast
    ultimately show ?thesis using q nv [of q] by auto
  qed
  have un: "u ! i \<longleftrightarrow> int i \<in> set (f # fs)" if "i < length (lru_unpinned r)" for i
    using R that fs f by (cases "i = nat f") (auto simp: u_def lru_valid_def)
  have "dom (lru_heap r') = set (lru_nodes r' (?now # ps))"
    using R n by (auto simp: r'_def h_def lru_nodes_def)
  moreover have "distinct (lru_nodes r' (?now # ps))" using new dist by (auto simp: lru_nodes_def r'_def)
  moreover have "\<forall>q \<in> dom (lru_heap r'). q < lru_brk r'"
    using R n by (auto simp: r'_def h_def less_Suc_eq)
  ultimately have "lru_rep r' (?now # ps)"
    unfolding lru_rep_def v' using ch mp un R f False fs
    by (simp add: r'_def u_def lru_valid_def)
  with run v' False show ?thesis by (auto simp: lru_order_def r'_def)
qed

section \<open>The replacer contract\<close>

lemma lru_order_distinct: "lru_order r fs \<Longrightarrow> distinct fs"
  by (auto simp: lru_order_def lru_rep_def)

lemma lru_order_size: "lru_order r fs \<Longrightarrow> LRU_Size r = length fs"
  by (auto simp: lru_order_def lru_rep_def LRU_Size_def lru_vals_def)

lemma lru_order_new: "lru_order (LRUReplacer_new n) []"
proof -
  have "lru_rep (LRUReplacer_new n) []"
    by (auto simp: lru_rep_def LRUReplacer_new_def lru_nodes_def lru_vals_def linked2_def blank_node_def
        get_prev_def get_next_def split: if_splits)
  then show ?thesis by (auto simp: lru_order_def lru_vals_def)
qed

interpretation lru: replacer lru_inv lru_valid lru_frames LRU_Victim LRU_Pin LRU_Unpin LRU_Size
proof
  fix r assume r: "lru_inv r" "lru_frames r = {}"
  then obtain fs where "lru_order r fs" "fs = []" using lru_order_frames by (fastforce simp: lru_inv_def)
  with LRU_Victim_ok [of r fs] show "LRU_Victim r = Some (None, r)" by simp
next
  fix r assume r: "lru_inv r" "lru_frames r \<noteq> {}"
  then obtain fs where fs: "lru_order r fs" "fs \<noteq> []" using lru_order_frames by (fastforce simp: lru_inv_def)
  with LRU_Victim_ok [of r fs] obtain r' where r': "LRU_Victim r = Some (Some (last fs), r')"
    "lru_order r' (butlast fs)" "LRU_MAX_NUM_PAGES r' = LRU_MAX_NUM_PAGES r" by auto
  have "set (butlast fs) = set fs - {last fs}"
    using lru_order_distinct [OF fs(1)] fs(2)
    by (metis Diff_insert_absorb append_butlast_last_id distinct_append insert_iff list.set(2)
        not_distinct_conv_prefix rotate1.simps(2) set_rotate1 append.simps(1) distinct1_rotate distinct.simps(2))
  with r' fs show "\<exists>f r'. LRU_Victim r = Some (Some f, r') \<and> f \<in> lru_frames r \<and>
      lru_frames r' = lru_frames r - {f} \<and> lru_inv r' \<and> lru_valid r' = lru_valid r"
    by (intro exI [of _ "last fs"] exI [of _ r'])
      (auto simp: lru_order_frames lru_inv_def lru_valid_def fun_eq_iff)
next
  fix r f assume "lru_inv r" and f: "lru_valid r f"
  then obtain fs where fs: "lru_order r fs" by (auto simp: lru_inv_def)
  show "\<exists>r'. LRU_Pin r f = Some r' \<and> lru_frames r' = lru_frames r - {f} \<and> lru_inv r' \<and> lru_valid r' = lru_valid r"
    using LRU_Pin_ok [OF fs f] fs lru_order_distinct [OF fs]
    by (auto simp: lru_order_frames lru_inv_def lru_valid_def fun_eq_iff)
  show "\<exists>r'. LRU_Unpin r f = Some r' \<and> lru_frames r' = insert f (lru_frames r) \<and> lru_inv r' \<and> lru_valid r' = lru_valid r"
    using LRU_Unpin_ok [OF fs f] fs
    by (auto simp: lru_order_frames lru_inv_def lru_valid_def fun_eq_iff insert_absorb split: if_splits)
next
  fix r assume "lru_inv r"
  then obtain fs where fs: "lru_order r fs" by (auto simp: lru_inv_def)
  then show "finite (lru_frames r) \<and> LRU_Size r = card (lru_frames r)"
    by (simp add: lru_order_frames lru_order_size distinct_card lru_order_distinct)
qed

section \<open>Properties\<close>

text \<open>
  C28: the pointer-level operations implement the least-recently-used list. On a well-formed replacer
  that holds the frames \<open>fs\<close> (most recently unpinned first) and for a valid frame \<open>f\<close>, no operation
  follows a bad pointer; \<^verbatim>\<open>Victim\<close> reports an empty replacer or removes and returns the last frame of
  \<open>fs\<close>, \<^verbatim>\<open>Pin\<close> removes \<open>f\<close>, \<^verbatim>\<open>Unpin\<close> puts \<open>f\<close> in front unless it is present, \<^verbatim>\<open>Size\<close> is the length.
\<close>

theorem lru_refines_list:
  assumes "lru_order r fs" "lru_valid r f"
  shows "(if fs = [] then LRU_Victim r = Some (None, r)
      else \<exists>r'. LRU_Victim r = Some (Some (last fs), r') \<and> lru_order r' (butlast fs)) \<and>
    (\<exists>r'. LRU_Pin r f = Some r' \<and> lru_order r' (remove1 f fs)) \<and>
    (\<exists>r'. LRU_Unpin r f = Some r' \<and> lru_order r' (if f \<in> set fs then fs else f # fs)) \<and>
    LRU_Size r = length fs"
proof -
  have "if fs = [] then LRU_Victim r = Some (None, r)
      else \<exists>r'. LRU_Victim r = Some (Some (last fs), r') \<and> lru_order r' (butlast fs)"
    using LRU_Victim_ok [OF assms(1)] by (auto split: if_splits)
  moreover have "\<exists>r'. LRU_Pin r f = Some r' \<and> lru_order r' (remove1 f fs)"
    using LRU_Pin_ok [OF assms] by blast
  moreover have "\<exists>r'. LRU_Unpin r f = Some r' \<and> lru_order r' (if f \<in> set fs then fs else f # fs)"
    using LRU_Unpin_ok [OF assms] by blast
  ultimately show ?thesis using lru_order_size [OF assms(1)] by blast
qed

theorem lru_refines_list_witness:
  "\<exists>r r'. LRU_Unpin (LRUReplacer_new 7) 3 = Some r \<and> lru_order r [3] \<and>
     LRU_Victim r = Some (Some 3, r') \<and> lru_order r' []"
proof -
  have v: "lru_valid (LRUReplacer_new 7) 3" by (simp add: lru_valid_def LRUReplacer_new_def)
  obtain r where r: "LRU_Unpin (LRUReplacer_new 7) 3 = Some r" "lru_order r [3]"
    "LRU_MAX_NUM_PAGES r = LRU_MAX_NUM_PAGES (LRUReplacer_new 7)"
    using LRU_Unpin_ok [OF lru_order_new v] by auto
  have "lru_valid r 3" using r(3) by (simp add: lru_valid_def LRUReplacer_new_def)
  from lru_refines_list [OF r(2) this] r show ?thesis by auto
qed

text \<open>\<^verbatim>\<open>Unpin\<close> of several frames, in order.\<close>

fun unpin_all :: "int list \<Rightarrow> lru_replacer \<Rightarrow> lru_replacer option" where
  "unpin_all [] r = Some r"
| "unpin_all (f # fs) r = Option.bind (LRU_Unpin r f) (unpin_all fs)"

lemma unpin_all_ok:
  "lru_order r gs \<Longrightarrow> list_all (lru_valid r) fs \<Longrightarrow> distinct (fs @ gs) \<Longrightarrow>
   \<exists>r'. unpin_all fs r = Some r' \<and> lru_order r' (rev fs @ gs)"
proof (induction fs arbitrary: r gs)
  case Nil
  then show ?case by simp
next
  case (Cons f fs)
  then obtain r1 where r1: "LRU_Unpin r f = Some r1" "lru_order r1 (f # gs)"
    "LRU_MAX_NUM_PAGES r1 = LRU_MAX_NUM_PAGES r"
    using LRU_Unpin_ok [OF Cons.prems(1), of f] by auto
  have "lru_valid r1 = lru_valid r" using r1(3) by (simp add: lru_valid_def fun_eq_iff)
  with Cons.IH [OF r1(2)] Cons.prems r1 show ?case by auto
qed

lemma victim_seq_order:
  "lru_order r fs \<Longrightarrow> \<exists>r'. victim_seq LRU_Victim (length fs) r = Some (rev fs, r') \<and> lru_order r' []"
proof (induction fs arbitrary: r rule: rev_induct)
  case Nil
  then show ?case by auto
next
  case (snoc f fs)
  from LRU_Victim_ok [OF snoc.prems] obtain r1 where "LRU_Victim r = Some (Some f, r1)" "lru_order r1 fs"
    by auto
  with snoc.IH [OF this(2)] show ?case by auto
qed

text \<open>
  Frames are evicted in the order in which they were unpinned: unpinning distinct frames in the
  order \<open>fs\<close> on a new replacer and then asking for that many victims returns \<open>fs\<close> and leaves the
  replacer empty.
\<close>

theorem lru_eviction_order:
  assumes "distinct fs" "list_all (lru_valid (LRUReplacer_new n)) fs"
  shows "\<exists>r r'. unpin_all fs (LRUReplacer_new n) = Some r \<and> LRU_Size r = length fs \<and>
    victim_seq LRU_Victim (length fs) r = Some (fs, r') \<and> LRU_Size r' = 0"
  using unpin_all_ok [OF lru_order_new assms(2)] assms(1) victim_seq_order [of _ "rev fs"] lru_order_size
  by fastforce

theorem lru_eviction_order_witness:
  "\<exists>r r'. unpin_all [4, 1, 6] (LRUReplacer_new 7) = Some r \<and> victim_seq LRU_Victim 3 r = Some ([4, 1, 6], r')"
proof -
  have "list_all (lru_valid (LRUReplacer_new 7)) [4, 1, 6]" "distinct [4, 1, 6 :: int]" "length [4, 1, 6 :: int] = 3"
    by (simp_all add: lru_valid_def LRUReplacer_new_def)
  with lru_eviction_order [of "[4, 1, 6]" 7] show ?thesis by metis
qed

end
