(* ===== verification/Buffer_Pool.thy ===== *)
theory Buffer_Pool
  imports Disk_Manager Lru_Replacer
begin

text \<open>
  The buffer pool: \<^verbatim>\<open>BufferPoolManager\<close> (\<^verbatim>\<open>include/buffer/buffer_pool_manager.h\<close>,
  \<^verbatim>\<open>buffer/buffer_pool_manager.cpp\<close>) over the frames \<^verbatim>\<open>Page\<close> of \<^verbatim>\<open>include/page/page.h\<close>, the LRU
  replacer and the disk manager. A \<^verbatim>\<open>Page *\<close> returned to a client is the frame number. The
  abstract state is the view: for every logical page, its contents as a client sees them, from the
  frame when the page is resident and from the file otherwise. Latches are not modelled and pin
  counts are unbounded integers.
\<close>

section \<open>Frames\<close>

record page =
  pg_data :: buffer
  pg_id :: int
  pg_pins :: int
  pg_dirty :: bool

definition Page_new :: page where
  "Page_new = \<lparr>pg_data = replicate PAGE_SIZE 0, pg_id = INVALID_PAGE_ID, pg_pins = 0, pg_dirty = False\<rparr>"

definition Page_ResetMemory :: "page \<Rightarrow> page" where
  "Page_ResetMemory pg = pg\<lparr>pg_data := replicate PAGE_SIZE 0\<rparr>"

definition Page_ResetAll :: "page \<Rightarrow> page" where
  "Page_ResetAll pg = (Page_ResetMemory pg)\<lparr>pg_id := INVALID_PAGE_ID, pg_pins := 0, pg_dirty := False\<rparr>"

definition Page_Pin :: "page \<Rightarrow> page" where "Page_Pin pg = pg\<lparr>pg_pins := pg_pins pg + 1\<rparr>"
definition Page_unPin :: "page \<Rightarrow> page" where "Page_unPin pg = pg\<lparr>pg_pins := pg_pins pg - 1\<rparr>"
definition Page_SetPageId :: "page \<Rightarrow> int \<Rightarrow> page" where "Page_SetPageId pg p = pg\<lparr>pg_id := p\<rparr>"
definition Page_SetDirty :: "page \<Rightarrow> page" where "Page_SetDirty pg = pg\<lparr>pg_dirty := True\<rparr>"
definition Page_ResetDirty :: "page \<Rightarrow> page" where "Page_ResetDirty pg = pg\<lparr>pg_dirty := False\<rparr>"

lemmas page_op_defs = Page_new_def Page_ResetMemory_def Page_ResetAll_def Page_Pin_def Page_unPin_def
  Page_SetPageId_def Page_SetDirty_def Page_ResetDirty_def

section \<open>The manager\<close>

record bpm =
  bpm_pool_size :: nat
  bpm_pages :: "page list"
  bpm_disk :: disk_manager
  bpm_table :: "int \<rightharpoonup> int"
  bpm_replacer :: lru_replacer
  bpm_free :: "int list"

definition BPM_new :: "nat \<Rightarrow> disk_manager \<Rightarrow> bpm" where
  "BPM_new pool_size disk =
     \<lparr>bpm_pool_size = pool_size, bpm_pages = replicate pool_size Page_new, bpm_disk = disk,
      bpm_table = Map.empty, bpm_replacer = LRUReplacer_new pool_size, bpm_free = map int [0..<pool_size]\<rparr>"

text \<open>The choice of a frame, the same text in \<^verbatim>\<open>FetchPage\<close> and \<^verbatim>\<open>NewPage\<close>.\<close>

definition take_frame :: "bpm \<Rightarrow> (int option \<times> bpm) option" where
  "take_frame b =
     (case bpm_free b of
        f # fs \<Rightarrow> Some (Some f, b\<lparr>bpm_free := fs\<rparr>)
      | [] \<Rightarrow>
        if LRU_Size (bpm_replacer b) = 0 then Some (None, b)
        else do {
          (v, r) \<leftarrow> LRU_Victim (bpm_replacer b);
          f \<leftarrow> v;
          Some (Some f, b\<lparr>bpm_replacer := r\<rparr>) })"

definition BPM_FetchPage :: "bpm \<Rightarrow> int \<Rightarrow> (int option \<times> bpm) option" where
  "BPM_FetchPage b page_id =
     (case bpm_table b page_id of
        Some frame_id \<Rightarrow> do {
          pg \<leftarrow> vector_get (bpm_pages b) frame_id;
          ps \<leftarrow> vector_set (bpm_pages b) frame_id (Page_Pin pg);
          r \<leftarrow> LRU_Pin (bpm_replacer b) frame_id;
          Some (Some frame_id, b\<lparr>bpm_pages := ps, bpm_replacer := r\<rparr>) }
      | None \<Rightarrow> do {
          (fr, b) \<leftarrow> take_frame b;
          case fr of
            None \<Rightarrow> Some (None, b)
          | Some frame_id \<Rightarrow> do {
              pg \<leftarrow> vector_get (bpm_pages b) frame_id;
              d \<leftarrow> (if pg_dirty pg then DM_WritePage (bpm_disk b) page_id (pg_data pg) else Some (bpm_disk b));
              let t = (bpm_table b)(pg_id pg := None, page_id \<mapsto> frame_id);
              let pg = Page_Pin (Page_SetPageId (Page_ResetAll pg) page_id);
              r \<leftarrow> LRU_Pin (bpm_replacer b) frame_id;
              (data, d) \<leftarrow> DM_ReadPage d page_id;
              ps \<leftarrow> vector_set (bpm_pages b) frame_id (pg\<lparr>pg_data := data\<rparr>);
              Some (Some frame_id,
                b\<lparr>bpm_pages := ps, bpm_disk := d, bpm_table := t, bpm_replacer := r\<rparr>) } })"

text \<open>The result also carries the output parameter \<^verbatim>\<open>page_id\<close>.\<close>

definition BPM_NewPage :: "bpm \<Rightarrow> ((int \<times> int) option \<times> bpm) option" where
  "BPM_NewPage b = do {
     (fr, b) \<leftarrow> take_frame b;
     case fr of
       None \<Rightarrow> Some (None, b)
     | Some frame_id \<Rightarrow> do {
         (page_id, d) \<leftarrow> DM_AllocatePage (bpm_disk b);
         pg \<leftarrow> vector_get (bpm_pages b) frame_id;
         d \<leftarrow> (if pg_dirty pg then DM_WritePage d page_id (pg_data pg) else Some d);
         let t = (bpm_table b)(pg_id pg := None, page_id \<mapsto> frame_id);
         ps \<leftarrow> vector_set (bpm_pages b) frame_id (Page_Pin (Page_SetPageId (Page_ResetMemory pg) page_id));
         r \<leftarrow> LRU_Pin (bpm_replacer b) frame_id;
         Some (Some (page_id, frame_id),
           b\<lparr>bpm_pages := ps, bpm_disk := d, bpm_table := t, bpm_replacer := r\<rparr>) } }"

definition BPM_DeletePage :: "bpm \<Rightarrow> int \<Rightarrow> (bool \<times> bpm) option" where
  "BPM_DeletePage b page_id =
     (if bpm_table b page_id \<noteq> None
      then do {
        d \<leftarrow> DM_DeAllocatePage (bpm_disk b) page_id;
        Some (True, b\<lparr>bpm_disk := d\<rparr>) }
      else do {
        let frame_id = 0;
        let b = b\<lparr>bpm_table := (bpm_table b)(page_id \<mapsto> frame_id)\<rparr>;
        pg \<leftarrow> vector_get (bpm_pages b) frame_id;
        if pg_pins pg \<noteq> 0 then Some (False, b)
        else do {
          d \<leftarrow> DM_DeAllocatePage (bpm_disk b) page_id;
          ps \<leftarrow> vector_set (bpm_pages b) frame_id (Page_ResetAll pg);
          Some (True, b\<lparr>bpm_disk := d, bpm_table := (bpm_table b)(page_id := None), bpm_pages := ps,
            bpm_free := frame_id # bpm_free b\<rparr>) } })"

definition BPM_UnpinPage :: "bpm \<Rightarrow> int \<Rightarrow> bool \<Rightarrow> (bool \<times> bpm) option" where
  "BPM_UnpinPage b page_id is_dirty =
     (case bpm_table b page_id of
        None \<Rightarrow> Some (True, b)
      | Some frame_id \<Rightarrow> do {
          pg \<leftarrow> vector_get (bpm_pages b) frame_id;
          if pg_pins pg = 0 then Some (True, b)
          else do {
            let pg = Page_unPin (if is_dirty then Page_SetDirty pg else pg);
            ps \<leftarrow> vector_set (bpm_pages b) frame_id pg;
            let b = b\<lparr>bpm_pages := ps\<rparr>;
            if pg_pins pg = 0 then do {
              r \<leftarrow> LRU_Unpin (bpm_replacer b) frame_id;
              Some (True, b\<lparr>bpm_replacer := r\<rparr>) }
            else Some (False, b) } })"

definition BPM_FlushPage :: "bpm \<Rightarrow> int \<Rightarrow> (bool \<times> bpm) option" where
  "BPM_FlushPage b page_id =
     (case bpm_table b page_id of
        None \<Rightarrow> Some (True, b)
      | Some frame_id \<Rightarrow> do {
          pg \<leftarrow> vector_get (bpm_pages b) frame_id;
          d \<leftarrow> DM_WritePage (bpm_disk b) page_id (pg_data pg);
          ps \<leftarrow> vector_set (bpm_pages b) frame_id (Page_ResetDirty pg);
          Some (True, b\<lparr>bpm_disk := d, bpm_pages := ps\<rparr>) })"

definition BPM_IsPageFree :: "bpm \<Rightarrow> int \<Rightarrow> (bool \<times> bpm) option" where
  "BPM_IsPageFree b page_id = do {
     (free, d) \<leftarrow> DM_IsPageFree (bpm_disk b) page_id;
     Some (free, b\<lparr>bpm_disk := d\<rparr>) }"

definition CheckAllUnpinned :: "bpm \<Rightarrow> bool" where
  "CheckAllUnpinned b = list_all (\<lambda>pg. pg_pins pg = 0) (bpm_pages b)"

text \<open>The destructor flushes every page of the page table; \<open>ids\<close> is the order in which the table is walked.\<close>

fun BPM_flush_all :: "bpm \<Rightarrow> int list \<Rightarrow> bpm option" where
  "BPM_flush_all b [] = Some b"
| "BPM_flush_all b (p # ids) = do { (_, b) \<leftarrow> BPM_FlushPage b p; BPM_flush_all b ids }"

text \<open>A client's store through \<^verbatim>\<open>Page::GetData()\<close>.\<close>

definition write_frame :: "bpm \<Rightarrow> int \<Rightarrow> buffer \<Rightarrow> bpm option" where
  "write_frame b frame_id data = do {
     pg \<leftarrow> vector_get (bpm_pages b) frame_id;
     ps \<leftarrow> vector_set (bpm_pages b) frame_id (pg\<lparr>pg_data := data\<rparr>);
     Some (b\<lparr>bpm_pages := ps\<rparr>) }"

section \<open>Invariant and view\<close>

definition page_ok :: "int \<Rightarrow> bool" where
  "page_ok p \<longleftrightarrow> 0 \<le> p \<and> data_block (nat p) < PHYS_LIMIT"

abbreviation frame :: "bpm \<Rightarrow> int \<Rightarrow> page" where
  "frame b f \<equiv> bpm_pages b ! nat f"

definition frame_ids :: "bpm \<Rightarrow> int set" where
  "frame_ids b = {f. 0 \<le> f \<and> f < int (bpm_pool_size b)}"

definition bpm_wf :: "bpm \<Rightarrow> bool" where
  "bpm_wf b \<longleftrightarrow>
     length (bpm_pages b) = bpm_pool_size b \<and>
     lru_inv (bpm_replacer b) \<and> (\<forall>f. lru_valid (bpm_replacer b) f \<longleftrightarrow> 0 \<le> f \<and> f \<le> int (bpm_pool_size b)) \<and>
     disk_inv (bpm_disk b) \<and>
     distinct (bpm_free b) \<and> set (bpm_free b) \<subseteq> frame_ids b \<and>
     (\<forall>p f. bpm_table b p = Some f \<longrightarrow> f \<in> frame_ids b \<and> f \<notin> set (bpm_free b) \<and> pg_id (frame b f) = p \<and> page_ok p) \<and>
     (\<forall>f \<in> frame_ids b. f \<notin> set (bpm_free b) \<longrightarrow> bpm_table b (pg_id (frame b f)) = Some f) \<and>
     (\<forall>f \<in> set (bpm_free b). pg_id (frame b f) = INVALID_PAGE_ID \<and> pg_pins (frame b f) = 0 \<and> \<not> pg_dirty (frame b f)) \<and>
     (\<forall>f \<in> frame_ids b. length (pg_data (frame b f)) = PAGE_SIZE \<and> 0 \<le> pg_pins (frame b f)) \<and>
     lru_frames (bpm_replacer b) = {f \<in> frame_ids b. f \<notin> set (bpm_free b) \<and> pg_pins (frame b f) = 0}"

definition bpm_coherent :: "bpm \<Rightarrow> bool" where
  "bpm_coherent b \<longleftrightarrow> (\<forall>f \<in> lru_frames (bpm_replacer b). \<not> pg_dirty (frame b f) \<longrightarrow>
     pg_data (frame b f) = page_at (bpm_disk b) (nat (pg_id (frame b f))))"

text \<open>The frames are consistent, and every page that may be evicted without being written back is on disk.\<close>

definition bpm_inv :: "bpm \<Rightarrow> bool" where
  "bpm_inv b \<longleftrightarrow> bpm_wf b \<and> bpm_coherent b"

declare bpm_inv_def [inv_defs] bpm_wf_def [inv_defs] bpm_coherent_def [inv_defs]

definition bpm_view :: "bpm \<Rightarrow> int \<Rightarrow> buffer" where
  "bpm_view b p = (case bpm_table b p of Some f \<Rightarrow> pg_data (frame b f) | None \<Rightarrow> page_at (bpm_disk b) (nat p))"

lemma bpm_wfD:
  assumes "bpm_wf b"
  shows "length (bpm_pages b) = bpm_pool_size b" "lru_inv (bpm_replacer b)"
    "\<And>f. lru_valid (bpm_replacer b) f \<longleftrightarrow> 0 \<le> f \<and> f \<le> int (bpm_pool_size b)"
    "disk_inv (bpm_disk b)" "distinct (bpm_free b)" "set (bpm_free b) \<subseteq> frame_ids b"
    "\<And>p f. bpm_table b p = Some f \<Longrightarrow> f \<in> frame_ids b \<and> f \<notin> set (bpm_free b) \<and> pg_id (frame b f) = p \<and> page_ok p"
    "\<And>f. f \<in> frame_ids b \<Longrightarrow> f \<notin> set (bpm_free b) \<Longrightarrow> bpm_table b (pg_id (frame b f)) = Some f"
    "\<And>f. f \<in> set (bpm_free b) \<Longrightarrow>
       pg_id (frame b f) = INVALID_PAGE_ID \<and> pg_pins (frame b f) = 0 \<and> \<not> pg_dirty (frame b f)"
    "\<And>f. f \<in> frame_ids b \<Longrightarrow> length (pg_data (frame b f)) = PAGE_SIZE \<and> 0 \<le> pg_pins (frame b f)"
    "lru_frames (bpm_replacer b) = {f \<in> frame_ids b. f \<notin> set (bpm_free b) \<and> pg_pins (frame b f) = 0}"
  using assms unfolding bpm_wf_def by blast+

lemma bpm_inv_wf: "bpm_inv b \<Longrightarrow> bpm_wf b"
  by (simp add: bpm_inv_def)

lemma bpm_inv_coherent:
  "bpm_inv b \<Longrightarrow> f \<in> lru_frames (bpm_replacer b) \<Longrightarrow> \<not> pg_dirty (frame b f) \<Longrightarrow>
   pg_data (frame b f) = page_at (bpm_disk b) (nat (pg_id (frame b f)))"
  by (simp add: bpm_inv_def bpm_coherent_def)

lemmas bpm_invD = bpm_wfD [OF bpm_inv_wf] bpm_inv_coherent

lemma frame_ids_access_wf:
  assumes "bpm_wf b" "f \<in> frame_ids b"
  shows "vector_get (bpm_pages b) f = Some (frame b f)"
    "vector_set (bpm_pages b) f pg = Some ((bpm_pages b)[nat f := pg])"
    "lru_valid (bpm_replacer b) f"
  using bpm_wfD(1,3) [OF assms(1)] assms(2) by (auto simp: frame_ids_def vector_get_def vector_set_def)

lemma frame_update_wf:
  assumes "bpm_wf b" "f \<in> frame_ids b" "g \<in> frame_ids b"
  shows "(bpm_pages b)[nat f := pg] ! nat g = (if g = f then pg else frame b g)"
  using assms bpm_wfD(1) [OF assms(1)] by (auto simp: frame_ids_def nth_list_update)

lemmas frame_ids_access = frame_ids_access_wf [OF bpm_inv_wf]
lemmas frame_update = frame_update_wf [OF bpm_inv_wf]

lemma take_frame_ok_wf:
  assumes inv: "bpm_wf b" and some: "bpm_free b \<noteq> [] \<or> lru_frames (bpm_replacer b) \<noteq> {}"
  obtains f fs r where "take_frame b = Some (Some f, b\<lparr>bpm_free := fs, bpm_replacer := r\<rparr>)"
    "f \<in> (if bpm_free b = [] then lru_frames (bpm_replacer b) else set (bpm_free b))" "f \<in> frame_ids b"
    "distinct fs" "set fs = set (bpm_free b) - {f}"
    "lru_inv r" "lru_valid r = lru_valid (bpm_replacer b)" "lru_frames r = lru_frames (bpm_replacer b) - {f}"
proof (cases "bpm_free b")
  case Nil
  note D = bpm_wfD [OF inv]
  from some Nil lru.victim_some [OF D(2)] obtain f r where v: "LRU_Victim (bpm_replacer b) = Some (Some f, r)"
    "f \<in> lru_frames (bpm_replacer b)" "lru_frames r = lru_frames (bpm_replacer b) - {f}" "lru_inv r"
    "lru_valid r = lru_valid (bpm_replacer b)" by blast
  have "LRU_Size (bpm_replacer b) \<noteq> 0" using lru.count_frames [OF D(2)] v(2) by auto
  then show thesis
    by (intro that [of f r "[]"]) (use v Nil D(11) in \<open>auto simp: take_frame_def\<close>)
next
  case (Cons f fs)
  note D = bpm_wfD [OF inv]
  show thesis
    by (rule that [of f "bpm_replacer b" fs]) (use Cons D(2,5,6,11) in \<open>auto simp: take_frame_def\<close>)
qed

lemmas take_frame_ok = take_frame_ok_wf [OF bpm_inv_wf]

text \<open>
  Installing a page \<open>p\<close> that is not resident in a frame that was free or evictable, whatever the frame held.
\<close>

lemma bpm_wf_install:
  assumes inv: "bpm_wf b" and p: "bpm_table b p = None" "page_ok p"
    and f: "f \<in> set (bpm_free b) \<union> lru_frames (bpm_replacer b)" "f \<in> frame_ids b"
    and fs: "distinct fs" "set fs = set (bpm_free b) - {f}"
    and r: "lru_inv r" "lru_valid r = lru_valid (bpm_replacer b)" "lru_frames r = lru_frames (bpm_replacer b) - {f}"
    and pg: "pg_id pg = p" "pg_pins pg = 1" "length (pg_data pg) = PAGE_SIZE" and d: "disk_inv d"
  shows "bpm_wf \<lparr>bpm_pool_size = bpm_pool_size b, bpm_pages = (bpm_pages b)[nat f := pg], bpm_disk = d,
    bpm_table = (bpm_table b)(pg_id (frame b f) := None, p \<mapsto> f), bpm_replacer = r, bpm_free = fs\<rparr>"
    (is "bpm_wf ?b")
    and "g \<in> frame_ids b \<Longrightarrow> g \<notin> set fs \<Longrightarrow> g \<noteq> f \<Longrightarrow> pg_id (frame b g) \<noteq> p"
proof -
  note D = bpm_wfD [OF inv]
  have ids: "frame_ids ?b = frame_ids b" by (simp add: frame_ids_def)
  have fr: "frame ?b g = (if g = f then pg else frame b g)" if "g \<in> frame_ids b" for g
    using frame_update_wf [OF inv f(2) that] by simp
  have old: "pg_id (frame b g) \<noteq> pg_id (frame b f)" if "g \<in> frame_ids b" "g \<noteq> f" "g \<notin> set fs" for g
  proof -
    have g: "bpm_table b (pg_id (frame b g)) = Some g" using D(8) [OF that(1)] that fs(2) by simp
    then have "0 \<le> pg_id (frame b g)" using D(7) [OF g] by (simp add: page_ok_def)
    then show ?thesis using D(8) [OF f(2)] D(9) [of f] g that(2)
      by (cases "f \<in> set (bpm_free b)") (auto simp: INVALID_PAGE_ID_def)
  qed
  show np: "pg_id (frame b g) \<noteq> p" if "g \<in> frame_ids b" "g \<notin> set fs" "g \<noteq> f" for g
  proof -
    have "bpm_table b (pg_id (frame b g)) = Some g" using D(8) [OF that(1)] that fs(2) by simp
    with p(1) show ?thesis by (metis option.distinct(1))
  qed
  have t: "g \<in> frame_ids b \<and> g \<notin> set fs \<and> pg_id (frame ?b g) = q \<and> page_ok q" if "bpm_table ?b q = Some g" for q g
    using that D(7) [of q g] fr [of g] f(2) p(2) pg(1) fs(2) by (auto split: if_splits)
  have t': "bpm_table ?b (pg_id (frame ?b g)) = Some g" if g: "g \<in> frame_ids b" "g \<notin> set fs" for g
  proof (cases "g = f")
    case True
    then show ?thesis using fr [OF g(1)] pg(1) by simp
  next
    case False
    have "bpm_table b (pg_id (frame b g)) = Some g" using D(8) [OF g(1)] g(2) False fs(2) by simp
    then show ?thesis using fr [OF g(1)] old [OF g(1) False g(2)] np [OF g False] False by simp
  qed
  have free: "pg_id (frame ?b g) = INVALID_PAGE_ID \<and> pg_pins (frame ?b g) = 0 \<and> \<not> pg_dirty (frame ?b g)"
    if "g \<in> set fs" for g
  proof -
    have "g \<in> set (bpm_free b)" "g \<noteq> f" "g \<in> frame_ids b" using that fs(2) D(6) by auto
    then show ?thesis using D(9) [of g] fr [of g] by simp
  qed
  have data: "length (pg_data (frame ?b g)) = PAGE_SIZE \<and> 0 \<le> pg_pins (frame ?b g)" if "g \<in> frame_ids b" for g
    using D(10) [OF that] fr [OF that] pg by simp
  have lru: "lru_frames r = {g \<in> frame_ids b. g \<notin> set fs \<and> pg_pins (frame ?b g) = 0}" (is "_ = ?S")
  proof (rule set_eqI)
    fix g
    show "g \<in> lru_frames r \<longleftrightarrow> g \<in> ?S"
      using D(11) fr [of g] pg(2) fs(2) f by (cases "g = f"; cases "g \<in> frame_ids b") (simp_all add: r(3))
  qed
  have sub: "set fs \<subseteq> frame_ids b" using D(6) fs(2) by auto
  show "bpm_wf ?b"
    unfolding bpm_wf_def ids using t t' free data lru D(1,3,6) r(1,2) d fs(1) sub by simp
qed

lemma bpm_inv_install:
  assumes inv: "bpm_inv b" and p: "bpm_table b p = None" "page_ok p"
    and f: "f \<in> set (bpm_free b) \<union> lru_frames (bpm_replacer b)" "f \<in> frame_ids b"
    and fs: "distinct fs" "set fs = set (bpm_free b) - {f}"
    and r: "lru_inv r" "lru_valid r = lru_valid (bpm_replacer b)" "lru_frames r = lru_frames (bpm_replacer b) - {f}"
    and pg: "pg_id pg = p" "pg_pins pg = 1" "length (pg_data pg) = PAGE_SIZE"
    and d: "disk_inv d" "\<And>q. q \<noteq> nat p \<Longrightarrow> page_at d q = page_at (bpm_disk b) q"
  shows "bpm_inv \<lparr>bpm_pool_size = bpm_pool_size b, bpm_pages = (bpm_pages b)[nat f := pg], bpm_disk = d,
    bpm_table = (bpm_table b)(pg_id (frame b f) := None, p \<mapsto> f), bpm_replacer = r, bpm_free = fs\<rparr>"
    (is "bpm_inv ?b")
proof -
  note D = bpm_invD [OF inv]
  note W = bpm_wf_install [OF bpm_inv_wf [OF inv] p f fs r pg d(1)]
  have fr: "frame ?b g = (if g = f then pg else frame b g)" if "g \<in> frame_ids b" for g
    using frame_update [OF inv f(2) that] by simp
  have coh: "pg_data (frame ?b g) = page_at d (nat (pg_id (frame ?b g)))"
    if g: "g \<in> lru_frames r" "\<not> pg_dirty (frame ?b g)" for g
  proof -
    have g': "g \<in> frame_ids b" "g \<notin> set fs" "g \<noteq> f" "g \<in> lru_frames (bpm_replacer b)"
      using g(1) r(3) D(11) fs(2) by auto
    have "0 \<le> pg_id (frame b g)" using D(7,8) g' fs(2) unfolding page_ok_def by blast
    then have "nat (pg_id (frame b g)) \<noteq> nat p" using W(2) [OF g'(1,2,3)] p(2) by (auto simp: page_ok_def)
    then show ?thesis using D(12) [OF g'(4)] fr [OF g'(1)] g(2) g'(3) d(2) by auto
  qed
  show ?thesis using W(1) coh by (simp add: bpm_inv_def bpm_coherent_def)
qed

text \<open>
  Updating a resident frame in place: pinning, unpinning, flushing and client stores.
\<close>

lemma bpm_wf_update_frame:
  assumes inv: "bpm_wf b" and f: "f \<in> frame_ids b" "f \<notin> set (bpm_free b)"
    and pg: "pg_id pg = pg_id (frame b f)" "length (pg_data pg) = PAGE_SIZE" "0 \<le> pg_pins pg"
    and r: "lru_inv r" "lru_valid r = lru_valid (bpm_replacer b)"
      "lru_frames r = (if pg_pins pg = 0 then insert f (lru_frames (bpm_replacer b))
         else lru_frames (bpm_replacer b) - {f})"
    and d: "disk_inv d"
  shows "bpm_wf (b\<lparr>bpm_pages := (bpm_pages b)[nat f := pg], bpm_disk := d, bpm_replacer := r\<rparr>)"
    (is "bpm_wf ?b")
proof -
  note D = bpm_wfD [OF inv]
  have ids: "frame_ids ?b = frame_ids b" by (simp add: frame_ids_def)
  have fr: "frame ?b g = (if g = f then pg else frame b g)" if "g \<in> frame_ids b" for g
    using frame_update_wf [OF inv f(1) that] by simp
  have id: "pg_id (frame ?b g) = pg_id (frame b g)" if "g \<in> frame_ids b" for g
    using fr [OF that] pg(1) by simp
  have free: "pg_id (frame ?b g) = INVALID_PAGE_ID \<and> pg_pins (frame ?b g) = 0 \<and> \<not> pg_dirty (frame ?b g)"
    if "g \<in> set (bpm_free b)" for g
  proof -
    have "g \<in> frame_ids b" "g \<noteq> f" using D(6) that f(2) by auto
    with D(9) [OF that] fr [of g] show ?thesis by simp
  qed
  have data: "length (pg_data (frame ?b g)) = PAGE_SIZE \<and> 0 \<le> pg_pins (frame ?b g)" if "g \<in> frame_ids b" for g
    using D(10) [OF that] fr [OF that] pg by simp
  have lru: "lru_frames r = {g \<in> frame_ids b. g \<notin> set (bpm_free b) \<and> pg_pins (frame ?b g) = 0}" (is "_ = ?S")
  proof (rule set_eqI)
    fix g
    show "g \<in> lru_frames r \<longleftrightarrow> g \<in> ?S"
      using D(11) fr [of g] f by (cases "g = f"; cases "g \<in> frame_ids b") (simp_all add: r(3))
  qed
  have tab: "g \<in> frame_ids b \<and> g \<notin> set (bpm_free b) \<and> pg_id (frame ?b g) = q \<and> page_ok q" if "bpm_table b q = Some g" for q g
    using D(7) [OF that] id by simp
  have tab': "bpm_table b (pg_id (frame ?b g)) = Some g" if "g \<in> frame_ids b" "g \<notin> set (bpm_free b)" for g
    using D(8) [OF that] id that by simp
  show ?thesis
    unfolding bpm_wf_def ids using tab tab' free data lru D(1,3,5,6) r(1,2) d by simp
qed

lemma bpm_inv_update_frame:
  assumes inv: "bpm_inv b" and f: "f \<in> frame_ids b" "f \<notin> set (bpm_free b)"
    and pg: "pg_id pg = pg_id (frame b f)" "length (pg_data pg) = PAGE_SIZE" "0 \<le> pg_pins pg"
    and r: "lru_inv r" "lru_valid r = lru_valid (bpm_replacer b)"
      "lru_frames r = (if pg_pins pg = 0 then insert f (lru_frames (bpm_replacer b))
         else lru_frames (bpm_replacer b) - {f})"
    and d: "disk_inv d" "\<And>q. q \<noteq> nat (pg_id (frame b f)) \<Longrightarrow> page_at d q = page_at (bpm_disk b) q"
    and coh: "pg_pins pg = 0 \<Longrightarrow> \<not> pg_dirty pg \<Longrightarrow> pg_data pg = page_at d (nat (pg_id pg))"
  shows "bpm_inv (b\<lparr>bpm_pages := (bpm_pages b)[nat f := pg], bpm_disk := d, bpm_replacer := r\<rparr>)"
    (is "bpm_inv ?b")
proof -
  note D = bpm_invD [OF inv]
  have fr: "frame ?b g = (if g = f then pg else frame b g)" if "g \<in> frame_ids b" for g
    using frame_update [OF inv f(1) that] by simp
  have coh': "pg_data (frame ?b g) = page_at d (nat (pg_id (frame ?b g)))"
    if g: "g \<in> lru_frames r" "\<not> pg_dirty (frame ?b g)" for g
  proof (cases "g = f")
    case True
    have "pg_pins pg = 0" using g(1) True r(3) by (auto split: if_splits)
    with True g(2) fr [OF f(1)] coh show ?thesis by simp
  next
    case False
    then have g': "g \<in> lru_frames (bpm_replacer b)" "g \<in> frame_ids b" "g \<notin> set (bpm_free b)"
      using g(1) r(3) D(11) by (auto split: if_splits)
    have t: "bpm_table b (pg_id (frame b g)) = Some g" "bpm_table b (pg_id (frame b f)) = Some f"
      using D(8) g' f by auto
    have "0 \<le> pg_id (frame b g)" "0 \<le> pg_id (frame b f)" using D(7) [OF t(1)] D(7) [OF t(2)] by (auto simp: page_ok_def)
    moreover have "pg_id (frame b g) \<noteq> pg_id (frame b f)" using t False by auto
    ultimately have "nat (pg_id (frame b g)) \<noteq> nat (pg_id (frame b f))" by simp
    then show ?thesis using D(12) [OF g'(1)] fr [OF g'(2)] g(2) False d(2) by simp
  qed
  show ?thesis
    using bpm_wf_update_frame [OF bpm_inv_wf [OF inv] f pg r d(1)] coh' by (simp add: bpm_inv_def bpm_coherent_def)
qed

lemma bpm_view_update_frame_wf:
  assumes inv: "bpm_wf b" and f: "f \<in> frame_ids b" "f \<notin> set (bpm_free b)"
    and d: "\<And>q. q \<noteq> nat (pg_id (frame b f)) \<Longrightarrow> page_at d q = page_at (bpm_disk b) q"
    and q: "0 \<le> q"
  shows "bpm_view (b\<lparr>bpm_pages := (bpm_pages b)[nat f := pg], bpm_disk := d, bpm_replacer := r\<rparr>) q =
    (if q = pg_id (frame b f) then pg_data pg else bpm_view b q)"
proof -
  note D = bpm_wfD [OF inv]
  have t: "bpm_table b (pg_id (frame b f)) = Some f" using D(8) f by simp
  have p: "0 \<le> pg_id (frame b f)" using D(7) [OF t] by (simp add: page_ok_def)
  show ?thesis
  proof (cases "bpm_table b q")
    case None
    with t p q show ?thesis using d [of "nat q"] by (auto simp: bpm_view_def)
  next
    case (Some g)
    with D(7) [OF Some] frame_update_wf [OF inv f(1), of g pg] t show ?thesis by (auto simp: bpm_view_def)
  qed
qed

lemmas bpm_view_update_frame = bpm_view_update_frame_wf [OF bpm_inv_wf]

section \<open>The operations keep the invariant and the view\<close>

lemma fetch_hit:
  assumes inv: "bpm_inv b" and t: "bpm_table b p = Some f"
  obtains b' where "BPM_FetchPage b p = Some (Some f, b')" "bpm_inv b'" "bpm_table b' = bpm_table b"
    "bpm_disk b' = bpm_disk b" "0 < pg_pins (frame b' f)" "\<And>q. 0 \<le> q \<Longrightarrow> bpm_view b' q = bpm_view b q"
proof -
  note D = bpm_invD [OF inv]
  have f: "f \<in> frame_ids b" "f \<notin> set (bpm_free b)" "pg_id (frame b f) = p" using D(7) [OF t] by auto
  note acc = frame_ids_access [OF inv f(1)]
  from lru.pin_frames [OF D(2) acc(3)] obtain r where r: "LRU_Pin (bpm_replacer b) f = Some r"
    "lru_frames r = lru_frames (bpm_replacer b) - {f}" "lru_inv r" "lru_valid r = lru_valid (bpm_replacer b)" by blast
  let ?b = "b\<lparr>bpm_pages := (bpm_pages b)[nat f := Page_Pin (frame b f)], bpm_disk := bpm_disk b, bpm_replacer := r\<rparr>"
  have eq: "?b = b\<lparr>bpm_pages := (bpm_pages b)[nat f := Page_Pin (frame b f)], bpm_replacer := r\<rparr>" by simp
  have pins: "0 \<le> pg_pins (frame b f)" "length (pg_data (frame b f)) = PAGE_SIZE" using D(10) [OF f(1)] by auto
  have "bpm_inv ?b"
    by (rule bpm_inv_update_frame [OF inv f(1,2)]) (use r pins D(4) in \<open>simp_all add: Page_Pin_def\<close>)
  moreover have "bpm_view ?b q = bpm_view b q" if "0 \<le> q" for q
    using bpm_view_update_frame [OF inv f(1,2), of "bpm_disk b" q r "Page_Pin (frame b f)"] that f(3) t
    by (simp add: Page_Pin_def bpm_view_def)
  moreover have "BPM_FetchPage b p = Some (Some f, ?b)"
    using t acc r(1) unfolding eq by (simp add: BPM_FetchPage_def)
  moreover have "0 < pg_pins (frame ?b f)"
    using frame_update [OF inv f(1) f(1)] pins by (simp add: Page_Pin_def)
  ultimately show thesis using that [of ?b] by simp
qed

lemma bpm_view_install:
  assumes inv: "bpm_inv b" and p: "bpm_table b p = None" "page_ok p"
    and f: "f \<in> set (bpm_free b) \<union> lru_frames (bpm_replacer b)" "f \<in> frame_ids b" "\<not> pg_dirty (frame b f)"
    and d: "\<And>q. q \<noteq> nat p \<Longrightarrow> page_at d q = page_at (bpm_disk b) q" and q: "0 \<le> q"
  shows "bpm_view \<lparr>bpm_pool_size = bpm_pool_size b, bpm_pages = (bpm_pages b)[nat f := pg], bpm_disk = d,
    bpm_table = (bpm_table b)(pg_id (frame b f) := None, p \<mapsto> f), bpm_replacer = r, bpm_free = fs\<rparr> q =
    (if q = p then pg_data pg else bpm_view b q)" (is "bpm_view ?b q = _")
proof -
  note D = bpm_invD [OF inv]
  have fr: "frame ?b g = (if g = f then pg else frame b g)" if "g \<in> frame_ids b" for g
    using frame_update [OF inv f(2) that] by simp
  consider "q = p" | "q \<noteq> p" "q = pg_id (frame b f)" | "q \<noteq> p" "q \<noteq> pg_id (frame b f)" by blast
  then show ?thesis
  proof cases
    case 1
    with fr [OF f(2)] show ?thesis by (simp add: bpm_view_def)
  next
    case 2
    then have "f \<notin> set (bpm_free b)" using D(9) [of f] q by (auto simp: INVALID_PAGE_ID_def)
    then have "f \<in> lru_frames (bpm_replacer b)" "bpm_table b q = Some f" using f 2 D(8) by auto
    moreover have "nat q \<noteq> nat p" using 2 q p(2) by (auto simp: page_ok_def)
    ultimately show ?thesis using 2 D(12) [of f] f(3) d [of "nat q"] by (simp add: bpm_view_def)
  next
    case 3
    show ?thesis
    proof (cases "bpm_table b q")
      case None
      moreover have "nat q \<noteq> nat p" using 3 q p(2) by (auto simp: page_ok_def)
      ultimately show ?thesis using 3 d by (simp add: bpm_view_def)
    next
      case (Some g)
      with 3 D(7) [OF Some] fr [of g] show ?thesis by (auto simp: bpm_view_def)
    qed
  qed
qed

lemma DM_ReadPage_ok':
  "disk_inv d \<Longrightarrow> page_ok p \<Longrightarrow> DM_ReadPage d p = Some (page_at d (nat p), d)"
  using DM_ReadPage_ok [OF disk_invD(1), of d "nat p"] by (simp add: page_ok_def)

lemma DM_WritePage_ok':
  assumes "disk_inv d" "page_ok p" "length data = PAGE_SIZE"
  obtains d' where "DM_WritePage d p data = Some d'" "disk_inv d'" "disk_used d' = disk_used d"
    "\<And>q. page_at d' q = (if q = nat p then data else page_at d q)"
proof -
  have p: "int (nat p) = p" "data_block (nat p) < PHYS_LIMIT" using assms(2) by (auto simp: page_ok_def)
  obtain d' where d': "DM_WritePage d p data = Some d'"
    "\<And>q. page_at d' q = (if q = nat p then data else page_at d q)"
    using DM_WritePage_ok [OF disk_invD(1) [OF assms(1)] p(2) assms(3)] unfolding p(1) by metis
  show thesis
    by (rule that [OF d'(1)]) (use DM_WritePage_inv [OF assms(1) p(2) assms(3)] d' p(1) in auto)
qed

text \<open>The state after a miss: the chosen frame \<open>f\<close> holds what the disk has for \<open>p\<close>, after the chosen
  frame's data has been written to \<open>p\<close> when it was dirty.\<close>

lemma fetch_miss:
  assumes inv: "bpm_inv b" and p: "bpm_table b p = None" "page_ok p"
    and some: "bpm_free b \<noteq> [] \<or> lru_frames (bpm_replacer b) \<noteq> {}"
  obtains f b' d r fs where "BPM_FetchPage b p = Some (Some f, b')" "bpm_inv b'"
    "f \<in> (if bpm_free b = [] then lru_frames (bpm_replacer b) else set (bpm_free b))" "f \<in> frame_ids b"
    "b' = \<lparr>bpm_pool_size = bpm_pool_size b,
       bpm_pages = (bpm_pages b)[nat f := \<lparr>pg_data = page_at d (nat p), pg_id = p, pg_pins = 1, pg_dirty = False\<rparr>],
       bpm_disk = d, bpm_table = (bpm_table b)(pg_id (frame b f) := None, p \<mapsto> f), bpm_replacer = r, bpm_free = fs\<rparr>"
    "\<And>q. page_at d q = (if pg_dirty (frame b f) \<and> q = nat p then pg_data (frame b f) else page_at (bpm_disk b) q)"
proof -
  note D = bpm_invD [OF inv]
  from inv some obtain f fs r0 where tf: "take_frame b = Some (Some f, b\<lparr>bpm_free := fs, bpm_replacer := r0\<rparr>)"
    "f \<in> (if bpm_free b = [] then lru_frames (bpm_replacer b) else set (bpm_free b))" "f \<in> frame_ids b"
    "distinct fs" "set fs = set (bpm_free b) - {f}"
    "lru_inv r0" "lru_valid r0 = lru_valid (bpm_replacer b)" "lru_frames r0 = lru_frames (bpm_replacer b) - {f}"
    by (rule take_frame_ok)
  note acc = frame_ids_access [OF inv tf(3)]
  have "lru_valid r0 f" using acc(3) tf(7) by simp
  from lru.pin_frames [OF tf(6) this] obtain r where r: "LRU_Pin r0 f = Some r" "lru_frames r = lru_frames (bpm_replacer b) - {f}"
    "lru_inv r" "lru_valid r = lru_valid (bpm_replacer b)" using tf(7,8) by auto
  obtain d where d: "(if pg_dirty (frame b f) then DM_WritePage (bpm_disk b) p (pg_data (frame b f)) else Some (bpm_disk b)) = Some d"
    "disk_inv d" "\<And>q. page_at d q = (if pg_dirty (frame b f) \<and> q = nat p then pg_data (frame b f) else page_at (bpm_disk b) q)"
  proof (cases "pg_dirty (frame b f)")
    case True
    from DM_WritePage_ok' [OF D(4) p(2)] D(10) [OF tf(3)] obtain d where "DM_WritePage (bpm_disk b) p (pg_data (frame b f)) = Some d"
      "disk_inv d" "\<And>q. page_at d q = (if q = nat p then pg_data (frame b f) else page_at (bpm_disk b) q)" by metis
    then show thesis using True that by simp
  next
    case False
    then show thesis using that [of "bpm_disk b"] D(4) by simp
  qed
  let ?pg = "\<lparr>pg_data = page_at d (nat p), pg_id = p, pg_pins = 1, pg_dirty = False\<rparr>"
  let ?b = "\<lparr>bpm_pool_size = bpm_pool_size b, bpm_pages = (bpm_pages b)[nat f := ?pg],
    bpm_disk = d, bpm_table = (bpm_table b)(pg_id (frame b f) := None, p \<mapsto> f), bpm_replacer = r, bpm_free = fs\<rparr>"
  have "Page_Pin (Page_SetPageId (Page_ResetAll (frame b f)) p)\<lparr>pg_data := x\<rparr> =
      \<lparr>pg_data = x, pg_id = p, pg_pins = 1, pg_dirty = False\<rparr>" for x
    by (cases "frame b f") (simp add: page_op_defs)
  then have "BPM_FetchPage b p = Some (Some f, ?b)"
    using p(1) tf(1) acc r(1) d(1) DM_ReadPage_ok' [OF d(2) p(2)]
    by (cases "pg_dirty (frame b f)"; cases b) (simp_all add: BPM_FetchPage_def Let_def)
  moreover have "bpm_inv ?b"
    by (rule bpm_inv_install [OF inv p _ tf(3,4,5)]) (use tf(2) r d D(10) [OF tf(3)] in \<open>auto split: if_splits\<close>)
  ultimately show thesis using that tf(2,3) d(3) by blast
qed

text \<open>\<open>allocated_only b\<close>: clients fetch only pages that are allocated on disk.\<close>

definition allocated_only :: "bpm \<Rightarrow> bool" where
  "allocated_only b \<longleftrightarrow> (\<forall>p \<in> dom (bpm_table b). nat p \<in> disk_used (bpm_disk b))"

lemma new_page_ok:
  assumes inv: "bpm_inv b" and room: "disk_room (bpm_disk b)" and al: "allocated_only b"
    and some: "bpm_free b \<noteq> [] \<or> lru_frames (bpm_replacer b) \<noteq> {}"
  obtains p f b' d r fs pg where "BPM_NewPage b = Some (Some (p, f), b')" "bpm_inv b'"
    "page_ok p" "nat p \<notin> disk_used (bpm_disk b)" "disk_used d = insert (nat p) (disk_used (bpm_disk b))" "bpm_table b p = None"
    "f \<in> (if bpm_free b = [] then lru_frames (bpm_replacer b) else set (bpm_free b))" "f \<in> frame_ids b"
    "b' = \<lparr>bpm_pool_size = bpm_pool_size b, bpm_pages = (bpm_pages b)[nat f := pg],
       bpm_disk = d, bpm_table = (bpm_table b)(pg_id (frame b f) := None, p \<mapsto> f), bpm_replacer = r, bpm_free = fs\<rparr>"
    "pg = \<lparr>pg_data = replicate PAGE_SIZE 0, pg_id = p, pg_pins = 1, pg_dirty = pg_dirty (frame b f)\<rparr>"
    "\<And>q. page_at d q = (if pg_dirty (frame b f) \<and> q = nat p then pg_data (frame b f) else page_at (bpm_disk b) q)"
proof -
  note D = bpm_invD [OF inv]
  from inv some obtain f fs r0 where tf: "take_frame b = Some (Some f, b\<lparr>bpm_free := fs, bpm_replacer := r0\<rparr>)"
    "f \<in> (if bpm_free b = [] then lru_frames (bpm_replacer b) else set (bpm_free b))" "f \<in> frame_ids b"
    "distinct fs" "set fs = set (bpm_free b) - {f}"
    "lru_inv r0" "lru_valid r0 = lru_valid (bpm_replacer b)" "lru_frames r0 = lru_frames (bpm_replacer b) - {f}"
    by (rule take_frame_ok)
  note acc = frame_ids_access [OF inv tf(3)]
  have "lru_valid r0 f" using acc(3) tf(7) by simp
  from lru.pin_frames [OF tf(6) this] obtain r where r: "LRU_Pin r0 f = Some r" "lru_frames r = lru_frames (bpm_replacer b) - {f}"
    "lru_inv r" "lru_valid r = lru_valid (bpm_replacer b)" using tf(7,8) by auto
  obtain l d0 where a: "DM_AllocatePage (bpm_disk b) = Some (int l, d0)" "disk_inv d0" "l \<notin> disk_used (bpm_disk b)"
    "disk_used d0 = insert l (disk_used (bpm_disk b))" "data_block l < PHYS_LIMIT" "\<And>p. page_at d0 p = page_at (bpm_disk b) p"
    using DM_AllocatePage_room [OF D(4) room] by blast
  have ok: "page_ok (int l)" using a(5) by (simp add: page_ok_def)
  have np: "bpm_table b (int l) = None" using al a(3) by (force simp: allocated_only_def)
  obtain d where d: "(if pg_dirty (frame b f) then DM_WritePage d0 (int l) (pg_data (frame b f)) else Some d0) = Some d"
    "disk_inv d" "\<And>q. page_at d q = (if pg_dirty (frame b f) \<and> q = l then pg_data (frame b f) else page_at (bpm_disk b) q)"
    "disk_used d = disk_used d0"
  proof (cases "pg_dirty (frame b f)")
    case True
    from DM_WritePage_ok' [OF a(2) ok] D(10) [OF tf(3)] obtain d where "DM_WritePage d0 (int l) (pg_data (frame b f)) = Some d"
      "disk_inv d" "disk_used d = disk_used d0" "\<And>q. page_at d q = (if q = nat (int l) then pg_data (frame b f) else page_at d0 q)" by metis
    then show thesis using True that a(6) by simp
  next
    case False
    then show thesis using that [of d0] a(2,6) by simp
  qed
  let ?pg = "\<lparr>pg_data = replicate PAGE_SIZE 0, pg_id = int l, pg_pins = 1, pg_dirty = pg_dirty (frame b f)\<rparr>"
  let ?b = "\<lparr>bpm_pool_size = bpm_pool_size b, bpm_pages = (bpm_pages b)[nat f := ?pg],
    bpm_disk = d, bpm_table = (bpm_table b)(pg_id (frame b f) := None, int l \<mapsto> f), bpm_replacer = r, bpm_free = fs\<rparr>"
  have "pg_pins (frame b f) = 0" using tf(2) D(9,11) by (auto split: if_splits)
  then have "Page_Pin (Page_SetPageId (Page_ResetMemory (frame b f)) (int l)) = ?pg"
    by (cases "frame b f") (simp add: page_op_defs)
  then have "BPM_NewPage b = Some (Some (int l, f), ?b)"
    using tf(1) acc r(1) d(1) a(1)
    by (cases "pg_dirty (frame b f)"; cases b) (simp_all add: BPM_NewPage_def Let_def)
  moreover have "bpm_inv ?b"
    by (rule bpm_inv_install [OF inv np ok _ tf(3,4,5)]) (use tf(2) r d in \<open>auto split: if_splits\<close>)
  ultimately show thesis
    using that [of "int l" f ?b d ?pg r fs] ok a(3,4) d(3,4) np tf(2,3) by simp
qed

lemma unpin_page_ok:
  assumes inv: "bpm_inv b" and t: "bpm_table b p = Some f" and pins: "pg_pins (frame b f) \<noteq> 0"
    and honest: "is_dirty \<or> pg_dirty (frame b f) \<or> pg_data (frame b f) = page_at (bpm_disk b) (nat p) \<or> pg_pins (frame b f) > 1"
  obtains b' where "BPM_UnpinPage b p is_dirty = Some (pg_pins (frame b f) = 1, b')" "bpm_inv b'"
    "bpm_table b' = bpm_table b" "bpm_disk b' = bpm_disk b" "\<And>q. 0 \<le> q \<Longrightarrow> bpm_view b' q = bpm_view b q"
    "lru_frames (bpm_replacer b') =
       (if pg_pins (frame b f) = 1 then insert f (lru_frames (bpm_replacer b)) else lru_frames (bpm_replacer b))"
    "pg_dirty (frame b' f) = (is_dirty \<or> pg_dirty (frame b f))" "bpm_free b' = bpm_free b"
proof -
  note D = bpm_invD [OF inv]
  have f: "f \<in> frame_ids b" "f \<notin> set (bpm_free b)" "pg_id (frame b f) = p" using D(7) [OF t] by auto
  note acc = frame_ids_access [OF inv f(1)]
  let ?pg = "Page_unPin (if is_dirty then Page_SetDirty (frame b f) else frame b f)"
  have pg: "pg_id ?pg = p" "pg_data ?pg = pg_data (frame b f)" "pg_pins ?pg = pg_pins (frame b f) - 1"
    "pg_dirty ?pg = (is_dirty \<or> pg_dirty (frame b f))" using f(3) by (auto simp: page_op_defs)
  have pos: "1 \<le> pg_pins (frame b f)" "length (pg_data (frame b f)) = PAGE_SIZE" using D(10) [OF f(1)] pins by auto
  have nl: "f \<notin> lru_frames (bpm_replacer b)" using D(11) pins by auto
  from lru.unpin_frames [OF D(2) acc(3)] obtain r1 where r1: "LRU_Unpin (bpm_replacer b) f = Some r1"
    "lru_frames r1 = insert f (lru_frames (bpm_replacer b))" "lru_inv r1" "lru_valid r1 = lru_valid (bpm_replacer b)" by blast
  define r where "r = (if pg_pins (frame b f) = 1 then r1 else bpm_replacer b)"
  let ?b = "b\<lparr>bpm_pages := (bpm_pages b)[nat f := ?pg], bpm_disk := bpm_disk b, bpm_replacer := r\<rparr>"
  have "bpm_inv ?b"
    by (rule bpm_inv_update_frame [OF inv f(1,2)]) (use pg pos nl r1 D(2,4) honest in \<open>auto simp: r_def f(3)\<close>)
  moreover have "bpm_view ?b q = bpm_view b q" if "0 \<le> q" for q
    using bpm_view_update_frame [OF inv f(1,2), of "bpm_disk b" q r ?pg] that f(3) t pg(2)
    by (simp add: bpm_view_def)
  moreover have "BPM_UnpinPage b p is_dirty = Some (pg_pins (frame b f) = 1, ?b)"
    using t acc r1(1) pg(3) pins by (auto simp: BPM_UnpinPage_def Let_def r_def)
  moreover have "frame ?b f = ?pg" using frame_update [OF inv f(1,1)] by simp
  ultimately show thesis using that [of ?b] r1(2) pg(4) by (simp add: r_def)
qed

lemma flush_page_ok:
  assumes inv: "bpm_inv b" and t: "bpm_table b p = Some f"
  obtains b' where "BPM_FlushPage b p = Some (True, b')" "bpm_inv b'"
    "bpm_table b' = bpm_table b" "page_at (bpm_disk b') (nat p) = bpm_view b p" "\<not> pg_dirty (frame b' f)"
    "\<And>q. q \<noteq> nat p \<Longrightarrow> page_at (bpm_disk b') q = page_at (bpm_disk b) q"
    "\<And>q. 0 \<le> q \<Longrightarrow> bpm_view b' q = bpm_view b q"
proof -
  note D = bpm_invD [OF inv]
  have f: "f \<in> frame_ids b" "f \<notin> set (bpm_free b)" "pg_id (frame b f) = p" "page_ok p" using D(7) [OF t] by auto
  note acc = frame_ids_access [OF inv f(1)]
  have pos: "0 \<le> pg_pins (frame b f)" "length (pg_data (frame b f)) = PAGE_SIZE" using D(10) [OF f(1)] by auto
  obtain d where d: "DM_WritePage (bpm_disk b) p (pg_data (frame b f)) = Some d" "disk_inv d" "disk_used d = disk_used (bpm_disk b)"
    "\<And>q. page_at d q = (if q = nat p then pg_data (frame b f) else page_at (bpm_disk b) q)"
    using DM_WritePage_ok' [OF D(4) f(4) pos(2)] by blast
  let ?b = "b\<lparr>bpm_pages := (bpm_pages b)[nat f := Page_ResetDirty (frame b f)], bpm_disk := d, bpm_replacer := bpm_replacer b\<rparr>"
  have "lru_frames (bpm_replacer b) = (if pg_pins (frame b f) = 0 then insert f (lru_frames (bpm_replacer b))
      else lru_frames (bpm_replacer b) - {f})" using D(11) f(1,2) by auto
  then have "bpm_inv ?b"
    by (intro bpm_inv_update_frame [OF inv f(1,2)]) (use pos D(2) d f(3) in \<open>simp_all add: Page_ResetDirty_def\<close>)
  moreover have "bpm_view ?b q = bpm_view b q" if "0 \<le> q" for q
    using bpm_view_update_frame [OF inv f(1,2), of d q "bpm_replacer b" "Page_ResetDirty (frame b f)"] that f(3) t d(4)
    by (simp add: bpm_view_def Page_ResetDirty_def)
  moreover have "BPM_FlushPage b p = Some (True, ?b)" using t acc d(1) by (simp add: BPM_FlushPage_def)
  moreover have "\<not> pg_dirty (frame ?b f)" using frame_update [OF inv f(1,1)] by (simp add: Page_ResetDirty_def)
  ultimately show thesis using that [of ?b] d(4) t by (simp add: bpm_view_def)
qed

lemma write_frame_ok:
  assumes inv: "bpm_inv b" and t: "bpm_table b p = Some f" and pins: "pg_pins (frame b f) \<noteq> 0" and "length data = PAGE_SIZE"
  obtains b' where "write_frame b f data = Some b'" "bpm_inv b'" "bpm_table b' = bpm_table b" "bpm_disk b' = bpm_disk b"
    "\<And>q. 0 \<le> q \<Longrightarrow> bpm_view b' q = (if q = p then data else bpm_view b q)"
    "pg_pins (frame b' f) = pg_pins (frame b f)" "frame_ids b' = frame_ids b"
proof -
  note D = bpm_invD [OF inv]
  have f: "f \<in> frame_ids b" "f \<notin> set (bpm_free b)" "pg_id (frame b f) = p" using D(7) [OF t] by auto
  note acc = frame_ids_access [OF inv f(1)]
  let ?pg = "(frame b f)\<lparr>pg_data := data\<rparr>"
  let ?b = "b\<lparr>bpm_pages := (bpm_pages b)[nat f := ?pg], bpm_disk := bpm_disk b, bpm_replacer := bpm_replacer b\<rparr>"
  have "lru_frames (bpm_replacer b) = lru_frames (bpm_replacer b) - {f}" using D(11) pins by auto
  then have "bpm_inv ?b"
    by (intro bpm_inv_update_frame [OF inv f(1,2)]) (use D(2,4) D(10) [OF f(1)] assms(4) pins in simp_all)
  moreover have "bpm_view ?b q = (if q = p then data else bpm_view b q)" if "0 \<le> q" for q
    using bpm_view_update_frame [OF inv f(1,2), of "bpm_disk b" q "bpm_replacer b" ?pg] that f(3) by simp
  moreover have "write_frame b f data = Some ?b" using acc by (simp add: write_frame_def)
  moreover have "pg_pins (frame ?b f) = pg_pins (frame b f)" using frame_update [OF inv f(1,1)] by simp
  ultimately show thesis using that [of ?b] by (simp add: frame_ids_def)
qed

lemma bpm_inv_new: "disk_inv d \<Longrightarrow> bpm_inv (BPM_new n d)"
proof -
  assume d: "disk_inv d"
  have "lru_frames (LRUReplacer_new n) = {}" "lru_inv (LRUReplacer_new n)"
    using lru_order_new lru_order_frames by (fastforce simp: lru_inv_def)+
  moreover have "lru_valid (LRUReplacer_new n) f \<longleftrightarrow> 0 \<le> f \<and> f \<le> int n" for f
    by (simp add: lru_valid_def LRUReplacer_new_def)
  moreover have "int ` {0..<n} = {f. 0 \<le> f \<and> f < int n}"
    by (auto simp: image_int_atLeastLessThan)
  ultimately show ?thesis
    using d by (auto simp: bpm_inv_def bpm_wf_def bpm_coherent_def BPM_new_def frame_ids_def Page_new_def distinct_map)
qed

section \<open>Properties\<close>

text \<open>The frames \<^verbatim>\<open>FetchPage\<close> and \<^verbatim>\<open>NewPage\<close> may evict are all clean, or eviction is not needed.\<close>

definition clean_eviction :: "bpm \<Rightarrow> bool" where
  "clean_eviction b \<longleftrightarrow> bpm_free b \<noteq> [] \<or>
     lru_frames (bpm_replacer b) \<noteq> {} \<and> (\<forall>f \<in> lru_frames (bpm_replacer b). \<not> pg_dirty (frame b f))"

definition small_pool :: bpm where "small_pool = BPM_new 3 fresh_disk"

lemma small_pool_facts:
  "bpm_inv small_pool" "bpm_free small_pool = [0, 1, 2]" "bpm_table small_pool = Map.empty"
  "bpm_disk small_pool = fresh_disk" "frame_ids small_pool = {0..2}" "f \<in> {0..2} \<Longrightarrow> frame small_pool f = Page_new"
  "lru_frames (bpm_replacer small_pool) = {}" "allocated_only small_pool" "bpm_pool_size small_pool = 3"
proof -
  show "bpm_inv small_pool" unfolding small_pool_def by (rule bpm_inv_new [OF disk_inv_fresh])
  show "lru_frames (bpm_replacer small_pool) = {}"
    using lru_order_frames [OF lru_order_new] by (simp add: small_pool_def BPM_new_def)
  show "frame small_pool f = Page_new" if "f \<in> {0..2}"
    using that by (auto simp: small_pool_def BPM_new_def nth_replicate)
qed (auto simp: small_pool_def BPM_new_def frame_ids_def allocated_only_def upt_rec)

text \<open>
  C10: \<^verbatim>\<open>FetchPage\<close> on a consistent pool, when no dirty page has to be evicted: it returns a pinned frame
  that holds exactly the current contents of the requested page (the resident copy if there is one,
  the copy on disk otherwise), the contents of every page stay what they were, and the pool stays
  consistent.
\<close>

theorem fetch_page_correct:
  assumes "bpm_inv b" "page_ok p" "bpm_table b p \<noteq> None \<or> clean_eviction b"
  shows "\<exists>f b'. BPM_FetchPage b p = Some (Some f, b') \<and> bpm_inv b' \<and> bpm_table b' p = Some f \<and>
    0 < pg_pins (frame b' f) \<and> pg_data (frame b' f) = bpm_view b p \<and> (\<forall>q \<ge> 0. bpm_view b' q = bpm_view b q)"
proof (cases "bpm_table b p")
  case (Some f)
  obtain b' where "BPM_FetchPage b p = Some (Some f, b')" "bpm_inv b'" "bpm_table b' = bpm_table b"
    "bpm_disk b' = bpm_disk b" "0 < pg_pins (frame b' f)" "\<And>q. 0 \<le> q \<Longrightarrow> bpm_view b' q = bpm_view b q"
    using fetch_hit [OF assms(1) Some] by blast
  moreover from this(3,6) have "pg_data (frame b' f) = bpm_view b p"
    using Some assms(2) by (metis bpm_view_def option.simps(5) page_ok_def)
  ultimately show ?thesis using Some by auto
next
  case None
  with assms(3) have c: "clean_eviction b" by simp
  then have some: "bpm_free b \<noteq> [] \<or> lru_frames (bpm_replacer b) \<noteq> {}" by (auto simp: clean_eviction_def)
  obtain f b' d r fs where m: "BPM_FetchPage b p = Some (Some f, b')" "bpm_inv b'"
    "f \<in> (if bpm_free b = [] then lru_frames (bpm_replacer b) else set (bpm_free b))" "f \<in> frame_ids b"
    "b' = \<lparr>bpm_pool_size = bpm_pool_size b,
       bpm_pages = (bpm_pages b)[nat f := \<lparr>pg_data = page_at d (nat p), pg_id = p, pg_pins = 1, pg_dirty = False\<rparr>],
       bpm_disk = d, bpm_table = (bpm_table b)(pg_id (frame b f) := None, p \<mapsto> f), bpm_replacer = r, bpm_free = fs\<rparr>"
    "\<And>q. page_at d q = (if pg_dirty (frame b f) \<and> q = nat p then pg_data (frame b f) else page_at (bpm_disk b) q)"
    using fetch_miss [OF assms(1) None assms(2) some] by blast
  have clean: "\<not> pg_dirty (frame b f)"
    using c m(3) bpm_invD(9) [OF assms(1)] by (auto simp: clean_eviction_def split: if_splits)
  have fr: "frame b' f = \<lparr>pg_data = page_at d (nat p), pg_id = p, pg_pins = 1, pg_dirty = False\<rparr>"
    unfolding m(5) using frame_update [OF assms(1) m(4,4)] by simp
  have src: "f \<in> set (bpm_free b) \<union> lru_frames (bpm_replacer b)" using m(3) by (auto split: if_splits)
  have same: "page_at d q = page_at (bpm_disk b) q" for q using m(6) clean by simp
  have "bpm_view b' q = bpm_view b q" if "0 \<le> q" for q
    using bpm_view_install [OF assms(1) None assms(2) src m(4) clean same that] None
    unfolding m(5) by (simp add: same bpm_view_def)
  moreover have "bpm_table b' p = Some f" unfolding m(5) by simp
  moreover have "pg_data (frame b' f) = bpm_view b p" using fr None by (simp add: bpm_view_def same)
  ultimately show ?thesis using m(1,2) fr by auto
qed

theorem fetch_page_correct_witness:
  "\<exists>f b'. BPM_FetchPage small_pool 5 = Some (Some f, b') \<and> pg_data (frame b' f) = replicate PAGE_SIZE 0"
proof -
  have "page_ok 5" by (simp add: page_ok_def data_block_alt BITMAP_SIZE_val PHYS_LIMIT_def)
  moreover have "clean_eviction small_pool" by (simp add: clean_eviction_def small_pool_facts)
  moreover have "bpm_view small_pool 5 = replicate PAGE_SIZE 0"
    by (simp add: bpm_view_def small_pool_facts fresh_disk_def empty_file_def block_beyond)
  ultimately show ?thesis using fetch_page_correct [OF small_pool_facts(1), of 5] by auto
qed

text \<open>
  C34: \<^verbatim>\<open>FetchPage\<close> writes a dirty victim to the page that is being fetched instead of the victim's own
  page. When a dirty page \<open>q\<close> has to be evicted to fetch \<open>p\<close>, the client gets \<open>q\<close>'s data as the
  contents of \<open>p\<close>, the data of \<open>p\<close> on disk is overwritten with it, and page \<open>q\<close> falls back to its old
  copy on disk: its modifications are lost.
\<close>

theorem fetch_dirty_victim_corrupts:
  assumes "bpm_inv b" "page_ok p" "bpm_table b p = None" "bpm_free b = []"
    "lru_frames (bpm_replacer b) \<noteq> {}" "\<forall>f \<in> lru_frames (bpm_replacer b). pg_dirty (frame b f)"
  shows "\<exists>f b' q. BPM_FetchPage b p = Some (Some f, b') \<and> q = pg_id (frame b f) \<and> q \<noteq> p \<and>
    bpm_table b q = Some f \<and> bpm_table b' q = None \<and>
    pg_data (frame b' f) = bpm_view b q \<and> page_at (bpm_disk b') (nat p) = bpm_view b q \<and>
    bpm_view b' q = page_at (bpm_disk b) (nat q)"
proof -
  note D = bpm_invD [OF assms(1)]
  have "bpm_free b \<noteq> [] \<or> lru_frames (bpm_replacer b) \<noteq> {}" using assms(5) by simp
  then obtain f b' d r fs where m: "BPM_FetchPage b p = Some (Some f, b')" "bpm_inv b'"
    "f \<in> (if bpm_free b = [] then lru_frames (bpm_replacer b) else set (bpm_free b))" "f \<in> frame_ids b"
    "b' = \<lparr>bpm_pool_size = bpm_pool_size b,
       bpm_pages = (bpm_pages b)[nat f := \<lparr>pg_data = page_at d (nat p), pg_id = p, pg_pins = 1, pg_dirty = False\<rparr>],
       bpm_disk = d, bpm_table = (bpm_table b)(pg_id (frame b f) := None, p \<mapsto> f), bpm_replacer = r, bpm_free = fs\<rparr>"
    "\<And>q. page_at d q = (if pg_dirty (frame b f) \<and> q = nat p then pg_data (frame b f) else page_at (bpm_disk b) q)"
    using fetch_miss [OF assms(1,3,2)] by blast
  let ?q = "pg_id (frame b f)"
  have dirty: "pg_dirty (frame b f)" and t: "bpm_table b ?q = Some f"
    using m(3,4) assms(4,6) D(8) [OF m(4)] by auto
  have ne: "?q \<noteq> p" using t assms(3) by auto
  have ne': "nat ?q \<noteq> nat p" using ne assms(2) D(7) [OF t] by (auto simp: page_ok_def eq_nat_nat_iff)
  have "frame b' f = \<lparr>pg_data = page_at d (nat p), pg_id = p, pg_pins = 1, pg_dirty = False\<rparr>"
    unfolding m(5) using frame_update [OF assms(1) m(4,4)] by simp
  moreover have "bpm_table b' ?q = None" "bpm_disk b' = d" using ne unfolding m(5) by simp_all
  ultimately show ?thesis
    using m(1,6) dirty t ne ne' by (intro exI [of _ f] exI [of _ b'] exI [of _ ?q]) (simp add: bpm_view_def)
qed

text \<open>A pool with a single frame that holds a dirty, unpinned page.\<close>

lemma dirty_pool_exists:
  "\<exists>b q. bpm_inv b \<and> bpm_free b = [] \<and> lru_frames (bpm_replacer b) = {0} \<and> pg_dirty (frame b 0) \<and>
     dom (bpm_table b) = {q} \<and> disk_used (bpm_disk b) = {nat q} \<and> 0 \<le> q"
proof -
  let ?b0 = "BPM_new 1 fresh_disk"
  have inv0: "bpm_inv ?b0" by (rule bpm_inv_new [OF disk_inv_fresh])
  have "allocated_only ?b0" "disk_room (bpm_disk ?b0)" "bpm_free ?b0 \<noteq> []"
    by (auto simp: BPM_new_def allocated_only_def disk_room_fresh)
  then obtain p f b1 d r fs pg where m: "BPM_NewPage ?b0 = Some (Some (p, f), b1)" "bpm_inv b1"
    "page_ok p" "disk_used d = insert (nat p) (disk_used (bpm_disk ?b0))" "f \<in> frame_ids ?b0"
    "b1 = \<lparr>bpm_pool_size = bpm_pool_size ?b0, bpm_pages = (bpm_pages ?b0)[nat f := pg],
       bpm_disk = d, bpm_table = (bpm_table ?b0)(pg_id (frame ?b0 f) := None, p \<mapsto> f), bpm_replacer = r, bpm_free = fs\<rparr>"
    "pg = \<lparr>pg_data = replicate PAGE_SIZE 0, pg_id = p, pg_pins = 1, pg_dirty = pg_dirty (frame ?b0 f)\<rparr>"
    using new_page_ok [OF inv0, of thesis] by metis
  have t: "bpm_table b1 p = Some f" unfolding m(6) by simp
  have fr: "frame b1 f = pg" unfolding m(6) using frame_update [OF inv0 m(5,5)] by simp
  then have "pg_pins (frame b1 f) = 1" by (simp add: m(7))
  then obtain b2 where u: "bpm_inv b2" "bpm_table b2 = bpm_table b1" "bpm_disk b2 = bpm_disk b1"
    "lru_frames (bpm_replacer b2) = insert f (lru_frames (bpm_replacer b1))" "pg_dirty (frame b2 f)"
    "bpm_free b2 = bpm_free b1"
    using unpin_page_ok [OF m(2) t, of True] by (metis zero_neq_one)
  have f0: "f = 0" using m(5) by (simp add: frame_ids_def BPM_new_def)
  have ids: "frame_ids b1 = {0}" unfolding m(6) by (auto simp: frame_ids_def BPM_new_def)
  have "lru_frames (bpm_replacer b1) \<subseteq> {0}" using bpm_invD(11) [OF m(2)] ids by auto
  moreover have "bpm_free b1 = []"
  proof -
    have "set (bpm_free b1) \<subseteq> {0}" "f \<notin> set (bpm_free b1)"
      using bpm_invD(6) [OF m(2)] bpm_invD(7) [OF m(2) t] ids by auto
    then show ?thesis using f0 by (cases "bpm_free b1") auto
  qed
  moreover have "dom (bpm_table b1) = {p}" "bpm_disk b1 = d" unfolding m(6) by (auto simp: BPM_new_def split: if_splits)
  moreover have "disk_used d = {nat p}" using m(4) by (simp add: BPM_new_def disk_used_fresh)
  ultimately show ?thesis
    using u f0 m(3) by (intro exI [of _ b2] exI [of _ p]) (auto simp: page_ok_def)
qed

theorem fetch_dirty_victim_corrupts_witness:
  "\<exists>b p f b' q. BPM_FetchPage b p = Some (Some f, b') \<and> q \<noteq> p \<and> bpm_table b q = Some f \<and>
     page_at (bpm_disk b') (nat p) = bpm_view b q"
proof -
  obtain b q where b: "bpm_inv b" "bpm_free b = []" "lru_frames (bpm_replacer b) = {0}" "pg_dirty (frame b 0)"
    "dom (bpm_table b) = {q}" using dirty_pool_exists by blast
  define p where "p = (if q = 0 then 1 else 0 :: int)"
  have "p \<notin> dom (bpm_table b)" using b(5) by (simp add: p_def)
  then have "bpm_table b p = None" by (simp add: domIff)
  moreover have "page_ok p" by (simp add: p_def page_ok_def data_block_alt BITMAP_SIZE_val PHYS_LIMIT_def)
  ultimately have "\<exists>f b' q. BPM_FetchPage b p = Some (Some f, b') \<and> q = pg_id (frame b f) \<and> q \<noteq> p \<and>
    bpm_table b q = Some f \<and> bpm_table b' q = None \<and>
    pg_data (frame b' f) = bpm_view b q \<and> page_at (bpm_disk b') (nat p) = bpm_view b q \<and>
    bpm_view b' q = page_at (bpm_disk b) (nat q)"
    using b(2-4) by (intro fetch_dirty_victim_corrupts [OF b(1)]) auto
  then show ?thesis by blast
qed

text \<open>
  C29: \<^verbatim>\<open>NewPage\<close> on a consistent pool with room on disk: it returns a pinned frame for a page that was
  free on disk and is now allocated, its contents are zero, and, when no dirty page has to be
  evicted, the contents of every other page are unchanged.
\<close>

theorem new_page_correct:
  assumes "bpm_inv b" "disk_room (bpm_disk b)" "allocated_only b" "clean_eviction b"
  shows "\<exists>p f b'. BPM_NewPage b = Some (Some (p, f), b') \<and> bpm_inv b' \<and> bpm_table b' p = Some f \<and>
    nat p \<notin> disk_used (bpm_disk b) \<and> disk_used (bpm_disk b') = insert (nat p) (disk_used (bpm_disk b)) \<and>
    pg_pins (frame b' f) = 1 \<and> pg_data (frame b' f) = replicate PAGE_SIZE 0 \<and>
    (\<forall>q \<ge> 0. q \<noteq> p \<longrightarrow> bpm_view b' q = bpm_view b q)"
proof -
  have some: "bpm_free b \<noteq> [] \<or> lru_frames (bpm_replacer b) \<noteq> {}" using assms(4) by (auto simp: clean_eviction_def)
  obtain p f b' d r fs pg where m: "BPM_NewPage b = Some (Some (p, f), b')" "bpm_inv b'"
    "page_ok p" "nat p \<notin> disk_used (bpm_disk b)" "disk_used d = insert (nat p) (disk_used (bpm_disk b))" "bpm_table b p = None"
    "f \<in> (if bpm_free b = [] then lru_frames (bpm_replacer b) else set (bpm_free b))" "f \<in> frame_ids b"
    "b' = \<lparr>bpm_pool_size = bpm_pool_size b, bpm_pages = (bpm_pages b)[nat f := pg],
       bpm_disk = d, bpm_table = (bpm_table b)(pg_id (frame b f) := None, p \<mapsto> f), bpm_replacer = r, bpm_free = fs\<rparr>"
    "pg = \<lparr>pg_data = replicate PAGE_SIZE 0, pg_id = p, pg_pins = 1, pg_dirty = pg_dirty (frame b f)\<rparr>"
    "\<And>q. page_at d q = (if pg_dirty (frame b f) \<and> q = nat p then pg_data (frame b f) else page_at (bpm_disk b) q)"
    by (rule new_page_ok [OF assms(1-3) some]) (erule (9) that, blast)
  have clean: "\<not> pg_dirty (frame b f)"
    using assms(4) m(7) bpm_invD(9) [OF assms(1)] by (auto simp: clean_eviction_def split: if_splits)
  have same: "page_at d q = page_at (bpm_disk b) q" for q using m(11) clean by simp
  have src: "f \<in> set (bpm_free b) \<union> lru_frames (bpm_replacer b)" using m(7) by (auto split: if_splits)
  have "bpm_view b' q = bpm_view b q" if "0 \<le> q" "q \<noteq> p" for q
    using bpm_view_install [OF assms(1) m(6,3) src m(8) clean same that(1)] that(2) unfolding m(9) by simp
  moreover have "frame b' f = pg" unfolding m(9) using frame_update [OF assms(1) m(8,8)] by simp
  moreover have "bpm_table b' p = Some f" "bpm_disk b' = d" unfolding m(9) by simp_all
  ultimately show ?thesis
    using m(1,2,4,5,10) by (intro exI [of _ p] exI [of _ f] exI [of _ b']) simp
qed

theorem new_page_correct_witness:
  "\<exists>p f b'. BPM_NewPage small_pool = Some (Some (p, f), b') \<and> bpm_inv b' \<and> disk_used (bpm_disk b') = {nat p} \<and>
     pg_data (frame b' f) = replicate PAGE_SIZE 0"
proof -
  have "clean_eviction small_pool" "disk_room (bpm_disk small_pool)"
    by (simp_all add: clean_eviction_def small_pool_facts disk_room_fresh)
  with new_page_correct [OF small_pool_facts(1) _ small_pool_facts(8)] show ?thesis
    by (auto simp: small_pool_facts disk_used_fresh)
qed

text \<open>
  With every frame pinned and none free, \<^verbatim>\<open>FetchPage\<close> of a page that is not resident and \<^verbatim>\<open>NewPage\<close>
  return the null pointer and change nothing; in particular no page is allocated on disk.
\<close>

theorem all_pinned_returns_null:
  assumes "bpm_inv b" "bpm_free b = []" "lru_frames (bpm_replacer b) = {}" "bpm_table b p = None"
  shows "BPM_FetchPage b p = Some (None, b) \<and> BPM_NewPage b = Some (None, b)"
proof -
  have "LRU_Size (bpm_replacer b) = 0" using lru.count_frames [OF bpm_invD(2) [OF assms(1)]] assms(3) by simp
  with assms show ?thesis by (simp add: BPM_FetchPage_def BPM_NewPage_def take_frame_def)
qed

theorem all_pinned_returns_null_witness:
  "BPM_FetchPage (BPM_new 0 fresh_disk) 3 = Some (None, BPM_new 0 fresh_disk)"
proof -
  have "lru_frames (bpm_replacer (BPM_new 0 fresh_disk)) = {}"
    using lru_order_frames [OF lru_order_new, of 0] by (simp add: BPM_new_def)
  with all_pinned_returns_null [OF bpm_inv_new [OF disk_inv_fresh], of 0 3] show ?thesis
    by (simp add: BPM_new_def)
qed

text \<open>
  The update protocol of every client: storing new contents into a pinned frame and unpinning it
  as dirty makes these the contents of the page and leaves all other pages alone; the call reports
  whether the page became evictable, and exactly then the frame is handed to the replacer.
\<close>

theorem write_unpin_updates_view:
  assumes "bpm_inv b" "bpm_table b p = Some f" "pg_pins (frame b f) \<noteq> 0" "length data = PAGE_SIZE"
  shows "\<exists>b1 b2. write_frame b f data = Some b1 \<and> BPM_UnpinPage b1 p True = Some (pg_pins (frame b f) = 1, b2) \<and>
    bpm_inv b2 \<and> (\<forall>q \<ge> 0. bpm_view b2 q = (if q = p then data else bpm_view b q)) \<and>
    (f \<in> lru_frames (bpm_replacer b2) \<longleftrightarrow> pg_pins (frame b f) = 1)"
proof -
  obtain b1 where b1: "write_frame b f data = Some b1" "bpm_inv b1" "bpm_table b1 = bpm_table b"
    "\<And>q. 0 \<le> q \<Longrightarrow> bpm_view b1 q = (if q = p then data else bpm_view b q)"
    "pg_pins (frame b1 f) = pg_pins (frame b f)"
    using write_frame_ok [OF assms] by metis
  then obtain b2 where b2: "BPM_UnpinPage b1 p True = Some (pg_pins (frame b f) = 1, b2)" "bpm_inv b2"
    "\<And>q. 0 \<le> q \<Longrightarrow> bpm_view b2 q = bpm_view b1 q"
    "lru_frames (bpm_replacer b2) =
       (if pg_pins (frame b f) = 1 then insert f (lru_frames (bpm_replacer b1)) else lru_frames (bpm_replacer b1))"
    using unpin_page_ok [of b1 p f True] assms(2,3) by metis
  have "f \<notin> lru_frames (bpm_replacer b1)" using bpm_invD(11) [OF b1(2)] b1(5) assms(3) by auto
  with b1 b2 show ?thesis by auto
qed

lemma pinned_pool_exists:
  "\<exists>b p f. bpm_inv b \<and> bpm_table b p = Some f \<and> pg_pins (frame b f) = 1 \<and> 0 \<le> p"
proof -
  have "disk_room (bpm_disk small_pool)" "bpm_free small_pool \<noteq> []"
    by (simp_all add: small_pool_facts disk_room_fresh)
  then obtain p f b' d r fs pg where m: "bpm_inv b'" "page_ok p" "f \<in> frame_ids small_pool"
    "b' = \<lparr>bpm_pool_size = bpm_pool_size small_pool, bpm_pages = (bpm_pages small_pool)[nat f := pg],
       bpm_disk = d, bpm_table = (bpm_table small_pool)(pg_id (frame small_pool f) := None, p \<mapsto> f), bpm_replacer = r, bpm_free = fs\<rparr>"
    "pg = \<lparr>pg_data = replicate PAGE_SIZE 0, pg_id = p, pg_pins = 1, pg_dirty = pg_dirty (frame small_pool f)\<rparr>"
    using new_page_ok [OF small_pool_facts(1) _ small_pool_facts(8), of thesis] by metis
  have "bpm_table b' p = Some f" "frame b' f = pg"
    unfolding m(4) using frame_update [OF small_pool_facts(1) m(3,3)] by simp_all
  with m show ?thesis by (intro exI [of _ b'] exI [of _ p] exI [of _ f]) (simp add: page_ok_def)
qed

theorem write_unpin_updates_view_witness:
  "\<exists>b p f b1 b2. write_frame b f (replicate PAGE_SIZE 7) = Some b1 \<and> BPM_UnpinPage b1 p True = Some (True, b2) \<and>
     bpm_view b2 p = replicate PAGE_SIZE 7"
proof -
  obtain b p f where b: "bpm_inv b" "bpm_table b p = Some f" "pg_pins (frame b f) = 1" "0 \<le> p"
    using pinned_pool_exists by blast
  with write_unpin_updates_view [OF b(1,2), of "replicate PAGE_SIZE 7"] show ?thesis by fastforce
qed

text \<open>
  The flush of every resident page, as the destructor does it, makes the file hold the contents
  that the clients see, for every page.
\<close>

lemma flush_all_keeps:
  "bpm_inv b \<Longrightarrow> set ids \<subseteq> dom (bpm_table b) \<Longrightarrow> \<exists>b'. BPM_flush_all b ids = Some b' \<and> bpm_inv b' \<and>
     bpm_table b' = bpm_table b \<and> (\<forall>q \<ge> 0. bpm_view b' q = bpm_view b q) \<and>
     (\<forall>q \<ge> 0. page_at (bpm_disk b') (nat q) = (if q \<in> set ids then bpm_view b q else page_at (bpm_disk b) (nat q)))"
proof (induction ids arbitrary: b)
  case Nil
  then show ?case by simp
next
  case (Cons p ids)
  then obtain f where t: "bpm_table b p = Some f" by auto
  have p: "0 \<le> p" using bpm_invD(7) [OF Cons.prems(1) t] by (simp add: page_ok_def)
  obtain b1 where b1: "BPM_FlushPage b p = Some (True, b1)" "bpm_inv b1" "bpm_table b1 = bpm_table b"
    "page_at (bpm_disk b1) (nat p) = bpm_view b p"
    "\<And>q. q \<noteq> nat p \<Longrightarrow> page_at (bpm_disk b1) q = page_at (bpm_disk b) q"
    "\<And>q. 0 \<le> q \<Longrightarrow> bpm_view b1 q = bpm_view b q"
    using flush_page_ok [OF Cons.prems(1) t] by metis
  from Cons.IH [OF b1(2)] Cons.prems(2) b1(3) obtain b' where b': "BPM_flush_all b1 ids = Some b'" "bpm_inv b'"
    "bpm_table b' = bpm_table b1" "\<forall>q \<ge> 0. bpm_view b' q = bpm_view b1 q"
    "\<forall>q \<ge> 0. page_at (bpm_disk b') (nat q) = (if q \<in> set ids then bpm_view b1 q else page_at (bpm_disk b1) (nat q))"
    by auto
  have "page_at (bpm_disk b') (nat q) = (if q \<in> set (p # ids) then bpm_view b q else page_at (bpm_disk b) (nat q))"
    if "0 \<le> q" for q
    using b'(5) b1(4,6) b1(5) [of "nat q"] that p by (cases "q = p") (auto simp: eq_nat_nat_iff)
  with b1 b' show ?case by simp
qed

theorem flush_all_durable:
  assumes "bpm_inv b" "set ids = dom (bpm_table b)"
  shows "\<exists>b'. BPM_flush_all b ids = Some b' \<and> bpm_inv b' \<and>
    (\<forall>q \<ge> 0. page_at (bpm_disk b') (nat q) = bpm_view b q)"
  using flush_all_keeps [OF assms(1), of ids] assms(2) by (fastforce simp: bpm_view_def split: option.splits)

theorem flush_all_durable_witness:
  "\<exists>b p b'. bpm_table b p \<noteq> None \<and> BPM_flush_all b [p] = Some b' \<and> page_at (bpm_disk b') (nat p) = bpm_view b p"
proof -
  obtain b q where b: "bpm_inv b" "dom (bpm_table b) = {q}" "0 \<le> q" using dirty_pool_exists by blast
  then have "bpm_table b q \<noteq> None" by blast
  moreover obtain b' where "BPM_flush_all b [q] = Some b'" "page_at (bpm_disk b') (nat q) = bpm_view b q"
    using flush_all_durable [OF b(1), of "[q]"] b(2,3) by (metis empty_set list.simps(15))
  ultimately show ?thesis by blast
qed

text \<open>
  The page-table test of \<^verbatim>\<open>DeletePage\<close> is inverted. A resident page, even one that is pinned, is freed
  on disk with the answer \<^verbatim>\<open>true\<close> while its frame, its pin count and its page-table entry stay, so the
  same page id can be handed out again while the old frame is still mapped to it.
\<close>

theorem delete_resident_page_keeps_frame:
  assumes "bpm_inv b" "bpm_table b p = Some f" "nat p \<in> disk_used (bpm_disk b)"
  shows "\<exists>b'. BPM_DeletePage b p = Some (True, b') \<and> nat p \<notin> disk_used (bpm_disk b') \<and>
    bpm_table b' = bpm_table b \<and> bpm_pages b' = bpm_pages b \<and> bpm_free b' = bpm_free b"
proof -
  have p: "int (nat p) = p" using bpm_invD(7) [OF assms(1,2)] by (simp add: page_ok_def)
  obtain d where "DM_DeAllocatePage (bpm_disk b) p = Some d" "disk_used d = disk_used (bpm_disk b) - {nat p}"
  proof -
    obtain s where "disk_dealloc (nat p) (bpm_disk b) = Some s" "disk_used s = disk_used (bpm_disk b) - {nat p}"
      using disk.dealloc_used [OF bpm_invD(4) [OF assms(1)] assms(3)] by blast
    with that p show thesis by (simp add: disk_dealloc_def)
  qed
  with assms(2) show ?thesis by (simp add: BPM_DeletePage_def)
qed

theorem delete_resident_page_keeps_frame_witness:
  "\<exists>b p b'. BPM_DeletePage b p = Some (True, b') \<and> bpm_table b' p \<noteq> None \<and> nat p \<notin> disk_used (bpm_disk b')"
proof -
  obtain b q where b: "bpm_inv b" "dom (bpm_table b) = {q}" "disk_used (bpm_disk b) = {nat q}"
    using dirty_pool_exists by blast
  then obtain f where "bpm_table b q = Some f" by blast
  then obtain b' where "BPM_DeletePage b q = Some (True, b')" "nat q \<notin> disk_used (bpm_disk b')" "bpm_table b' = bpm_table b"
    using delete_resident_page_keeps_frame [OF b(1), of q f] b(3) by auto
  then show ?thesis using \<open>bpm_table b q = Some f\<close> by (metis option.distinct(1))
qed

text \<open>
  Deleting a page that is not resident operates on frame 0, because \<^verbatim>\<open>page_table_[page_id]\<close> inserts the
  default value. If frame 0 holds an unpinned page \<open>q\<close>, that frame is wiped and put on the free list
  while the page table still maps \<open>q\<close> to it: the next fetch of \<open>q\<close> returns a zeroed page.
\<close>

theorem delete_absent_page_wipes_frame0:
  assumes "bpm_inv b" "bpm_table b p = None" "0 \<le> p" "nat p div BITMAP_SIZE < EXT_LIMIT"
    "bpm_table b q = Some 0" "pg_pins (frame b 0) = 0"
  shows "\<exists>b'. BPM_DeletePage b p = Some (True, b') \<and> bpm_table b' q = Some 0 \<and> 0 \<in> set (bpm_free b') \<and>
    bpm_view b' q = replicate PAGE_SIZE 0"
proof -
  have f: "0 \<in> frame_ids b" using bpm_invD(7) [OF assms(1,5)] by simp
  note acc = frame_ids_access [OF assms(1) f]
  obtain d where d: "DM_DeAllocatePage (bpm_disk b) p = Some d"
    using DM_DeAllocatePage_total [OF bpm_invD(4) [OF assms(1)] assms(4)] assms(3) by auto
  have "(bpm_pages b)[0 := Page_ResetAll (frame b 0)] ! 0 = Page_ResetAll (frame b 0)"
    using frame_update [OF assms(1) f f, of "Page_ResetAll (frame b 0)"] by simp
  moreover have "q \<noteq> p" using assms(2,5) by auto
  ultimately show ?thesis
    using assms(2,5,6) acc d
    by (simp add: BPM_DeletePage_def Let_def bpm_view_def) (simp add: page_op_defs)
qed

theorem delete_absent_page_wipes_frame0_witness:
  "\<exists>b p q b'. BPM_DeletePage b p = Some (True, b') \<and> bpm_table b' q = Some 0 \<and> bpm_view b' q = replicate PAGE_SIZE 0"
proof -
  obtain b q where b: "bpm_inv b" "bpm_free b = []" "lru_frames (bpm_replacer b) = {0}" "dom (bpm_table b) = {q}"
    using dirty_pool_exists by blast
  have "0 \<in> lru_frames (bpm_replacer b)" by (simp add: b(3))
  then have f: "0 \<in> frame_ids b" "pg_pins (frame b 0) = 0" unfolding bpm_invD(11) [OF b(1)] by simp_all
  have "bpm_table b (pg_id (frame b 0)) = Some 0" using bpm_invD(8) [OF b(1) f(1)] b(2) by simp
  then have t: "bpm_table b q = Some 0" using b(4) by (metis domI singletonD)
  define p where "p = (if q = 0 then 1 else 0 :: int)"
  have "p \<notin> dom (bpm_table b)" using b(4) by (simp add: p_def)
  then have "bpm_table b p = None" by (simp add: domIff)
  moreover have "0 \<le> p" "nat p div BITMAP_SIZE < EXT_LIMIT" by (simp_all add: p_def BITMAP_SIZE_val EXT_LIMIT_def)
  ultimately show ?thesis using delete_absent_page_wipes_frame0 [OF b(1) _ _ _ t f(2), of p] by blast
qed

end
