(* ===== verification/Generic_Key.thy ===== *)
theory Generic_Key
  imports Schema_Row
begin

text \<open>
  Index keys: \<^verbatim>\<open>GenericKey\<close> and \<^verbatim>\<open>KeyManager\<close> of \<^verbatim>\<open>include/index/generic_key.h\<close>. A key is a zero-padded buffer of
  \<^verbatim>\<open>key_size_\<close> bytes that holds a serialized row of the key schema; two keys are compared column by column. The
  theory states what a B+ tree needs of its comparator as the locale \<open>key_compare\<close>, proves the binary searches of the
  tree pages inside it, and interprets it for \<^verbatim>\<open>CompareKeys\<close> on keys without nulls and NaNs.
\<close>

section \<open>Model\<close>

record key_manager =
  km_key_size :: nat
  km_key_schema :: schema

type_synonym generic_key = "byte list"

definition SerializeFromKey :: "key_manager \<Rightarrow> row \<Rightarrow> schema \<Rightarrow> generic_key option" where
  "SerializeFromKey km key schema = do {
     size \<leftarrow> Row_GetSerializedSize schema key;
     ensure (length (row_fields key) = length schema);
     ensure (size \<le> km_key_size km);
     (data, _) \<leftarrow> Row_SerializeTo schema key (replicate (km_key_size km) 0) 0;
     Some data }"

definition DeserializeToKey :: "key_manager \<Rightarrow> generic_key \<Rightarrow> row \<Rightarrow> schema \<Rightarrow> row option" where
  "DeserializeToKey km key_buf key schema = do {
     (key, ofs) \<leftarrow> Row_DeserializeFrom schema key key_buf 0;
     ensure (ofs \<le> km_key_size km);
     Some key }"

text \<open>The loop over the columns \<open>i..<i + n\<close>. A comparison with a null answers \<^verbatim>\<open>kNull\<close> and counts as equal.\<close>

fun compare_columns :: "row \<Rightarrow> row \<Rightarrow> nat \<Rightarrow> nat \<Rightarrow> int option" where
  "compare_columns lhs_key rhs_key i 0 = Some 0"
| "compare_columns lhs_key rhs_key i (Suc n) = do {
     lhs_value \<leftarrow> GetField lhs_key i;
     rhs_value \<leftarrow> GetField rhs_key i;
     less \<leftarrow> Field_CompareLessThan lhs_value rhs_value;
     if less = kTrue then Some (- 1)
     else do {
       greater \<leftarrow> Field_CompareGreaterThan lhs_value rhs_value;
       if greater = kTrue then Some 1 else compare_columns lhs_key rhs_key (Suc i) n } }"

definition CompareKeys :: "key_manager \<Rightarrow> generic_key \<Rightarrow> generic_key \<Rightarrow> int option" where
  "CompareKeys km lhs rhs = do {
     let empty = \<lparr>row_rid = INVALID_ROWID, row_fields = []\<rparr>;
     lhs_key \<leftarrow> DeserializeToKey km lhs empty (km_key_schema km);
     rhs_key \<leftarrow> DeserializeToKey km rhs empty (km_key_schema km);
     compare_columns lhs_key rhs_key 0 (length (km_key_schema km)) }"

section \<open>Comparators\<close>

definition key_lt :: "('k \<Rightarrow> 'k \<Rightarrow> int option) \<Rightarrow> 'k \<Rightarrow> 'k \<Rightarrow> bool" where
  "key_lt cmp a b \<longleftrightarrow> (case cmp a b of Some c \<Rightarrow> c < 0 | None \<Rightarrow> False)"

definition key_le :: "('k \<Rightarrow> 'k \<Rightarrow> int option) \<Rightarrow> 'k \<Rightarrow> 'k \<Rightarrow> bool" where
  "key_le cmp a b \<longleftrightarrow> (case cmp a b of Some c \<Rightarrow> c \<le> 0 | None \<Rightarrow> False)"

definition key_eq :: "('k \<Rightarrow> 'k \<Rightarrow> int option) \<Rightarrow> 'k \<Rightarrow> 'k \<Rightarrow> bool" where
  "key_eq cmp a b \<longleftrightarrow> cmp a b = Some 0"

lemmas key_rel_defs = key_lt_def key_le_def key_eq_def

text \<open>
  The binary searches of the pages. \<open>key_at\<close> reads the key at an index; the first search is \<^verbatim>\<open>LeafPage::KeyIndex\<close>, the
  second \<^verbatim>\<open>LeafPage::Lookup\<close> (the index of an equal key or none), the third the middle part of \<^verbatim>\<open>InternalPage::Lookup\<close>.
\<close>

function key_index_loop :: "('k \<Rightarrow> 'k \<Rightarrow> int option) \<Rightarrow> (int \<Rightarrow> 'k option) \<Rightarrow> 'k \<Rightarrow> int \<Rightarrow> int \<Rightarrow> int option" where
  "key_index_loop cmp key_at key left right =
     (if left < right then do {
        let mid = (left + right) div 2;
        k \<leftarrow> key_at mid;
        c \<leftarrow> cmp k key;
        if c < 0 then key_index_loop cmp key_at key (mid + 1) right else key_index_loop cmp key_at key left mid }
      else Some right)"
  by pat_completeness auto
termination by (relation "measure (\<lambda>(_, _, _, l, r). nat (r - l))") auto

function leaf_lookup_loop :: "('k \<Rightarrow> 'k \<Rightarrow> int option) \<Rightarrow> (int \<Rightarrow> 'k option) \<Rightarrow> 'k \<Rightarrow> int \<Rightarrow> int \<Rightarrow> int option option" where
  "leaf_lookup_loop cmp key_at key left right =
     (if left \<le> right then do {
        let index = (left + right) div 2;
        k \<leftarrow> key_at index;
        c \<leftarrow> cmp k key;
        if c = 0 then Some (Some index)
        else if c < 0 then leaf_lookup_loop cmp key_at key (index + 1) right
        else leaf_lookup_loop cmp key_at key left (index - 1) }
      else Some None)"
  by pat_completeness auto
termination by (relation "measure (\<lambda>(_, _, _, l, r). nat (r - l + 1))") auto

function child_loop :: "('k \<Rightarrow> 'k \<Rightarrow> int option) \<Rightarrow> (int \<Rightarrow> 'k option) \<Rightarrow> 'k \<Rightarrow> int \<Rightarrow> int \<Rightarrow> int option" where
  "child_loop cmp key_at key left right =
     (if left \<le> right then do {
        let mid = (left + right) div 2;
        k \<leftarrow> key_at mid;
        c \<leftarrow> cmp k key;
        found \<leftarrow> (if c \<le> 0 then do { k' \<leftarrow> key_at (mid + 1); c' \<leftarrow> cmp k' key; Some (c' > 0) } else Some False);
        if found then Some mid
        else if c > 0 then child_loop cmp key_at key left (mid - 1)
        else child_loop cmp key_at key (mid + 1) right }
      else Some left)"
  by pat_completeness auto
termination by (relation "measure (\<lambda>(_, _, _, l, r). nat (r - l + 1))") auto

declare key_index_loop.simps [simp del] leaf_lookup_loop.simps [simp del] child_loop.simps [simp del]

text \<open>A comparator is a total preorder on the valid keys.\<close>

locale key_compare =
  fixes valid :: "'k \<Rightarrow> bool"
    and cmp :: "'k \<Rightarrow> 'k \<Rightarrow> int option"
  assumes cmp_total: "valid a \<Longrightarrow> valid b \<Longrightarrow> \<exists>c. cmp a b = Some c"
    and cmp_flip: "valid a \<Longrightarrow> valid b \<Longrightarrow> key_lt cmp a b \<longleftrightarrow> \<not> key_le cmp b a"
    and cmp_trans: "valid a \<Longrightarrow> valid b \<Longrightarrow> valid c \<Longrightarrow> key_le cmp a b \<Longrightarrow> key_le cmp b c \<Longrightarrow> key_le cmp a c"
begin

lemma lt_le: "key_lt cmp a b \<Longrightarrow> key_le cmp a b"
  by (simp add: key_rel_defs split: option.splits)

lemma lt_trans: "valid a \<Longrightarrow> valid b \<Longrightarrow> valid c \<Longrightarrow> key_lt cmp a b \<Longrightarrow> key_le cmp b c \<Longrightarrow> key_lt cmp a c"
  "valid a \<Longrightarrow> valid b \<Longrightarrow> valid c \<Longrightarrow> key_le cmp a b \<Longrightarrow> key_lt cmp b c \<Longrightarrow> key_lt cmp a c"
  using cmp_flip cmp_trans by blast+

lemma eq_iff: "valid a \<Longrightarrow> valid b \<Longrightarrow> key_eq cmp a b \<longleftrightarrow> key_le cmp a b \<and> \<not> key_lt cmp a b"
  using cmp_total [of a b] by (auto simp: key_rel_defs)

lemma cmp_cases:
  assumes "valid a" "valid b"
  obtains c where "cmp a b = Some c" "c < 0 \<longleftrightarrow> key_lt cmp a b" "c \<le> 0 \<longleftrightarrow> key_le cmp a b" "c = 0 \<longleftrightarrow> key_eq cmp a b"
  using cmp_total [OF assms] by (auto simp: key_rel_defs)

text \<open>In a strictly sorted list of valid keys the keys below a given key form a prefix.\<close>

lemma prefix_lt:
  assumes "sorted_wrt (key_lt cmp) ks" "\<forall>k \<in> set ks. valid k" "valid key" "i \<le> j" "j < length ks"
  shows "key_lt cmp (ks ! j) key \<Longrightarrow> key_lt cmp (ks ! i) key" "key_le cmp (ks ! j) key \<Longrightarrow> key_le cmp (ks ! i) key"
proof -
  have v: "valid (ks ! i)" "valid (ks ! j)" using assms(2,4,5) by simp_all
  have le: "i = j \<or> key_lt cmp (ks ! i) (ks ! j)"
    using assms(1,4,5) by (cases "i = j") (auto simp: sorted_wrt_iff_nth_less)
  show "key_lt cmp (ks ! j) key \<Longrightarrow> key_lt cmp (ks ! i) key"
    using le lt_trans(2) [OF v(1,2) assms(3)] lt_le by blast
  show "key_le cmp (ks ! j) key \<Longrightarrow> key_le cmp (ks ! i) key"
    using le cmp_trans [OF v(1,2) assms(3)] lt_le by blast
qed

lemma key_index_loop_ok:
  assumes at: "\<And>i. i < length ks \<Longrightarrow> key_at (int i) = Some (ks ! i)"
    and ks: "sorted_wrt (key_lt cmp) ks" "\<forall>k \<in> set ks. valid k" "valid key"
  shows "l \<le> r \<Longrightarrow> r \<le> length ks \<Longrightarrow> \<forall>i < l. key_lt cmp (ks ! i) key \<Longrightarrow> \<forall>i. r \<le> i \<and> i < length ks \<longrightarrow> \<not> key_lt cmp (ks ! i) key \<Longrightarrow>
    \<exists>p. key_index_loop cmp key_at key (int l) (int r) = Some (int p) \<and> p \<le> length ks \<and> (\<forall>i < p. key_lt cmp (ks ! i) key) \<and>
      (\<forall>i. p \<le> i \<and> i < length ks \<longrightarrow> \<not> key_lt cmp (ks ! i) key)"
proof (induction "r - l" arbitrary: l r rule: less_induct)
  case less
  show ?case
  proof (cases "l < r")
    case False
    then have "l = r" using less.prems by simp
    then show ?thesis using less.prems by (subst key_index_loop.simps) auto
  next
    case True
    define m where "m = (l + r) div 2"
    have m: "l \<le> m" "m < r" "m < length ks" "(int l + int r) div 2 = int m"
      using True less.prems(2) by (simp_all add: m_def zdiv_int)
    have dec: "r - Suc m < r - l" "m - l < r - l" using m True by simp_all
    obtain c where c: "cmp (ks ! m) key = Some c" "c < 0 \<longleftrightarrow> key_lt cmp (ks ! m) key"
      by (rule cmp_cases [of "ks ! m" key]) (use ks m(3) in auto)
    note step = key_index_loop.simps [of cmp key_at key "int l" "int r"]
    show ?thesis
    proof (cases "c < 0")
      case True': True
      have "\<forall>i < Suc m. key_lt cmp (ks ! i) key"
        using prefix_lt(1) [OF ks _ m(3)] True' c(2) by (simp add: less_Suc_eq_le)
      from less.hyps [OF dec(1) _ less.prems(2) this less.prems(4)] m(2)
      obtain p where "key_index_loop cmp key_at key (int (Suc m)) (int r) = Some (int p)" "p \<le> length ks" "\<forall>i < p. key_lt cmp (ks ! i) key"
        "\<forall>i. p \<le> i \<and> i < length ks \<longrightarrow> \<not> key_lt cmp (ks ! i) key" by auto
      then show ?thesis using step True True' c(1) m at [OF m(3)] by (auto simp: add.commute)
    next
      case False
      have "\<forall>i. m \<le> i \<and> i < length ks \<longrightarrow> \<not> key_lt cmp (ks ! i) key"
        using prefix_lt(1) [OF ks] False c(2) by blast
      from less.hyps [OF dec(2) m(1) less_imp_le [OF m(3)] less.prems(3) this]
      obtain p where "key_index_loop cmp key_at key (int l) (int m) = Some (int p)" "p \<le> length ks" "\<forall>i < p. key_lt cmp (ks ! i) key"
        "\<forall>i. p \<le> i \<and> i < length ks \<longrightarrow> \<not> key_lt cmp (ks ! i) key" by auto
      then show ?thesis using step True False c(1) m at [OF m(3)] by auto
    qed
  qed
qed

text \<open>\<^verbatim>\<open>KeyIndex\<close>: the number of keys below the given one, which is the first index that is not below it.\<close>

lemma key_index_ok:
  assumes "\<And>i. i < length ks \<Longrightarrow> key_at (int i) = Some (ks ! i)"
    and "sorted_wrt (key_lt cmp) ks" "\<forall>k \<in> set ks. valid k" "valid key"
  obtains p where "key_index_loop cmp key_at key 0 (int (length ks)) = Some (int p)" "p \<le> length ks" "\<And>i. i < p \<Longrightarrow> key_lt cmp (ks ! i) key"
    "\<And>i. p \<le> i \<Longrightarrow> i < length ks \<Longrightarrow> \<not> key_lt cmp (ks ! i) key"
proof -
  have ends: "\<forall>i < 0. key_lt cmp (ks ! i) key" "\<forall>i. length ks \<le> i \<and> i < length ks \<longrightarrow> \<not> key_lt cmp (ks ! i) key" by auto
  from key_index_loop_ok [OF assms le0 order_refl ends] show thesis using that by auto
qed

lemma leaf_lookup_loop_ok:
  assumes at: "\<And>i. i < length ks \<Longrightarrow> key_at (int i) = Some (ks ! i)"
    and ks: "sorted_wrt (key_lt cmp) ks" "\<forall>k \<in> set ks. valid k" "valid key"
  shows "l \<le> r \<Longrightarrow> r \<le> length ks \<Longrightarrow> \<forall>i < l. key_lt cmp (ks ! i) key \<Longrightarrow> \<forall>i. r \<le> i \<and> i < length ks \<longrightarrow> \<not> key_le cmp (ks ! i) key \<Longrightarrow>
    (case leaf_lookup_loop cmp key_at key (int l) (int r - 1) of
       Some (Some i) \<Rightarrow> 0 \<le> i \<and> nat i < length ks \<and> key_eq cmp (ks ! nat i) key
     | Some None \<Rightarrow> \<forall>k \<in> set ks. \<not> key_eq cmp k key
     | None \<Rightarrow> False)"
proof (induction "r - l" arbitrary: l r rule: less_induct)
  case less
  show ?case
  proof (cases "l < r")
    case False
    then have "l = r" using less.prems by simp
    then have "\<not> key_eq cmp (ks ! i) key" if "i < length ks" for i
      using less.prems(3,4) that eq_iff [of "ks ! i" key] ks by (cases "i < l") auto
    then show ?thesis using \<open>l = r\<close> by (subst leaf_lookup_loop.simps) (auto simp: in_set_conv_nth)
  next
    case True
    define m where "m = (l + r - 1) div 2"
    have m: "l \<le> m" "m < r" "m < length ks" "(int l + (int r - 1)) div 2 = int m"
      using True less.prems(2) by (auto simp: m_def zdiv_int of_nat_diff)
    have dec: "r - Suc m < r - l" "m - l < r - l" using m True by simp_all
    obtain c where c: "cmp (ks ! m) key = Some c" "c < 0 \<longleftrightarrow> key_lt cmp (ks ! m) key" "c \<le> 0 \<longleftrightarrow> key_le cmp (ks ! m) key" "c = 0 \<longleftrightarrow> key_eq cmp (ks ! m) key"
      by (rule cmp_cases [of "ks ! m" key]) (use ks m(3) in auto)
    note step = leaf_lookup_loop.simps [of cmp key_at key "int l" "int r - 1"]
    have s: "leaf_lookup_loop cmp key_at key (int l) (int r - 1) = (if c = 0 then Some (Some (int m))
        else if c < 0 then leaf_lookup_loop cmp key_at key (int (Suc m)) (int r - 1) else leaf_lookup_loop cmp key_at key (int l) (int m - 1))"
    proof -
      have "int l \<le> int r - 1" "int (Suc m) = int m + 1" using True by simp_all
      then show ?thesis using c(1) m(4) at [OF m(3)] by (simp only: step Let_def bind.bind_lunit if_True)
    qed
    consider "c = 0" | "c < 0" | "c > 0" by linarith
    then show ?thesis
    proof cases
      case 1
      then show ?thesis using s c(4) m(3) by simp
    next
      case 2
      have "\<forall>i < Suc m. key_lt cmp (ks ! i) key"
        using prefix_lt(1) [OF ks _ m(3)] 2 c(2) by (simp add: less_Suc_eq_le)
      from less.hyps [OF dec(1) _ less.prems(2) this less.prems(4)] m(2) s 2 show ?thesis by simp
    next
      case 3
      have "\<forall>i. m \<le> i \<and> i < length ks \<longrightarrow> \<not> key_le cmp (ks ! i) key"
        using prefix_lt(2) [OF ks] 3 c(3) by (meson not_less)
      from less.hyps [OF dec(2) m(1) less_imp_le [OF m(3)] less.prems(3) this] s 3 show ?thesis by simp
    qed
  qed
qed

lemma leaf_lookup_ok:
  assumes "\<And>i. i < length ks \<Longrightarrow> key_at (int i) = Some (ks ! i)"
    and "sorted_wrt (key_lt cmp) ks" "\<forall>k \<in> set ks. valid k" "valid key"
  shows "case leaf_lookup_loop cmp key_at key 0 (int (length ks) - 1) of
       Some (Some i) \<Rightarrow> 0 \<le> i \<and> nat i < length ks \<and> key_eq cmp (ks ! nat i) key
     | Some None \<Rightarrow> \<forall>k \<in> set ks. \<not> key_eq cmp k key
     | None \<Rightarrow> False"
proof -
  have ends: "\<forall>i < 0. key_lt cmp (ks ! i) key" "\<forall>i. length ks \<le> i \<and> i < length ks \<longrightarrow> \<not> key_le cmp (ks ! i) key" by auto
  from leaf_lookup_loop_ok [OF assms le0 order_refl ends] show ?thesis by simp
qed

text \<open>In a strictly sorted list equal keys are the same element.\<close>

lemma eq_unique:
  assumes ks: "sorted_wrt (key_lt cmp) ks" "\<forall>k \<in> set ks. valid k" "valid key"
    and ij: "i < length ks" "j < length ks" "key_eq cmp (ks ! i) key" "key_eq cmp (ks ! j) key"
  shows "i = j"
proof -
  have aux: "\<not> i < j" if ij: "i < length ks" "j < length ks" "key_eq cmp (ks ! i) key" "key_eq cmp (ks ! j) key" for i j
  proof
    assume "i < j"
    then have "key_lt cmp (ks ! i) (ks ! j)" using ks(1) ij by (simp add: sorted_wrt_iff_nth_less)
    moreover have v: "valid (ks ! i)" "valid (ks ! j)" using ks(2) ij by simp_all
    ultimately have "key_lt cmp (ks ! i) key" using lt_trans(1) ks(3) ij(4) eq_iff by blast
    then show False using ij(3) v ks(3) eq_iff by blast
  qed
  from aux [OF ij] aux [OF ij(2,1,4,3)] show ?thesis by simp
qed

text \<open>The child of an internal node: the last separator (they start at index 1) that is not above the key.\<close>

lemma child_loop_ok:
  assumes at: "\<And>i. 1 \<le> i \<Longrightarrow> i < length ks \<Longrightarrow> key_at (int i) = Some (ks ! i)"
    and v: "\<And>i. 1 \<le> i \<Longrightarrow> i < length ks \<Longrightarrow> valid (ks ! i)" "valid key"
    and p: "\<And>i. 1 \<le> i \<Longrightarrow> i < length ks \<Longrightarrow> key_le cmp (ks ! i) key \<longleftrightarrow> i \<le> p"
  shows "1 \<le> l \<Longrightarrow> l \<le> p \<Longrightarrow> p \<le> r \<Longrightarrow> r + 1 < length ks \<Longrightarrow> child_loop cmp key_at key (int l) (int r) = Some (int p)"
proof (induction "r - l" arbitrary: l r rule: less_induct)
  case less
  define m where "m = (l + r) div 2"
  have m: "l \<le> m" "m \<le> r" "1 \<le> m" "Suc m < length ks" "(int l + int r) div 2 = int m"
    using less.prems by (simp_all add: m_def zdiv_int)
  have v': "valid (ks ! m)" "valid (ks ! Suc m)" using v(1) m by simp_all
  obtain c where c: "cmp (ks ! m) key = Some c" "c \<le> 0 \<longleftrightarrow> m \<le> p"
    using cmp_cases [OF v'(1) v(2)] p m by (metis Suc_lessD)
  obtain c' where c': "cmp (ks ! Suc m) key = Some c'" "c' \<le> 0 \<longleftrightarrow> Suc m \<le> p"
    using cmp_cases [OF v'(2) v(2)] p m by (metis le_SucI)
  have at': "key_at (int m) = Some (ks ! m)" "key_at (int m + 1) = Some (ks ! Suc m)"
    using at [of m] at [of "Suc m"] m by (simp_all add: add.commute)
  have s: "child_loop cmp key_at key (int l) (int r) = (if m = p then Some (int m)
      else if m > p then child_loop cmp key_at key (int l) (int m - 1) else child_loop cmp key_at key (int (Suc m)) (int r))"
  proof -
    have c3: "0 < c \<longleftrightarrow> p < m" "0 < c' \<longleftrightarrow> p < Suc m" using c(2) c'(2) by (simp_all flip: not_le)
    have "int l \<le> int r" "int (Suc m) = int m + 1" using less.prems by simp_all
    then have e: "child_loop cmp key_at key (int l) (int r) =
        (if m \<le> p \<and> p < Suc m then Some (int m) else if p < m then child_loop cmp key_at key (int l) (int m - 1) else child_loop cmp key_at key (int m + 1) (int r))"
      using at' m(5) c c'(1) c3 by (simp only: child_loop.simps [of cmp key_at key "int l" "int r"] Let_def bind.bind_lunit if_True) simp
    show ?thesis unfolding e by (cases "p < m") (auto simp: add.commute)
  qed
  consider "m = p" | "m < p" | "m > p" by linarith
  then show ?case
  proof cases
    case 2
    then show ?thesis using s less.hyps [of r "Suc m"] less.prems m by simp
  next
    case 3
    then have "child_loop cmp key_at key (int l) (int (m - 1)) = Some (int p)" using less.hyps [of "m - 1" l] less.prems m by simp
    then show ?thesis using s 3 by (simp add: of_nat_diff)
  qed (use s in simp)
qed

end

section \<open>The order of keys\<close>

definition field_less :: "field \<Rightarrow> field \<Rightarrow> bool" where
  "field_less f g = (case (fd_value f, fd_value g) of
     (Integer a, Integer b) \<Rightarrow> sint a < sint b
   | (Float a, Float b) \<Rightarrow> float_lt a b
   | (Chars a, Chars b) \<Rightarrow> bytes_less a b
   | _ \<Rightarrow> False)"

text \<open>Fields of the same type that can be ordered: no nulls and no NaNs.\<close>

definition orderable :: "TypeId \<Rightarrow> field \<Rightarrow> bool" where
  "orderable ty f \<longleftrightarrow> field_ok (ty, False) f \<and> (case fd_value f of Float w \<Rightarrow> float_key w \<noteq> None | _ \<Rightarrow> True)"

lemma orderable_cases:
  assumes "orderable ty f"
  obtains (Int) i where "ty = kTypeInt" "f = Field_int i"
    | (Float) w x where "ty = kTypeFloat" "f = Field_float w" "float_key w = Some x"
    | (Char) bs where "ty = kTypeChar" "f = char_field bs" "length bs < VARCHAR_MAX_LEN"
  using assms
  by (cases f; cases "fd_value f") (auto simp: orderable_def field_ok_def Field_int_def Field_float_def char_field_def)

lemma bytes_less_trans: "bytes_less xs ys \<Longrightarrow> bytes_less ys zs \<Longrightarrow> bytes_less xs zs"
  unfolding bytes_less_def by (rule lexord_trans) (auto simp: byte_order_def intro: transI)

lemma field_less_order:
  assumes "orderable ty a" "orderable ty b"
  shows "field_less a b \<Longrightarrow> \<not> field_less b a"
    "orderable ty c \<Longrightarrow> \<not> field_less b a \<Longrightarrow> \<not> field_less c b \<Longrightarrow> \<not> field_less c a"
proof -
  show "field_less a b \<Longrightarrow> \<not> field_less b a"
    using assms by (auto elim!: orderable_cases simp: field_less_def Field_int_def Field_float_def char_field_def float_lt_def dest: bytes_less_asym)
  assume c: "orderable ty c" and "\<not> field_less b a" "\<not> field_less c b"
  with assms show "\<not> field_less c a"
    by (auto elim!: orderable_cases simp: field_less_def Field_int_def Field_float_def char_field_def float_lt_def)
      (metis bytes_less_total bytes_less_trans)
qed

lemma compare_chars_ok:
  assumes "length xs < VARCHAR_MAX_LEN" "length ys < VARCHAR_MAX_LEN"
  shows "compare_chars test (char_field xs) (char_field ys) = Some (GetCmpBool (test (compare_bytes xs ys)))"
  using assms by (simp add: compare_chars_def char_field_def ensure_def CheckComparable_def sint_varchar CompareStrings_eq)

lemma compare_bytes_pos: "0 < compare_bytes xs ys \<longleftrightarrow> bytes_less ys xs"
  using compare_bytes_sign [of xs ys] bytes_less_total [of xs ys] bytes_less_asym [of xs ys] bytes_less_irrefl [of xs]
  by (metis linorder_neqE_linordered_idom order_less_asym)

lemma field_compare_less:
  assumes "orderable ty a" "orderable ty b"
  shows "Field_CompareLessThan a b = Some (GetCmpBool (field_less a b))" "Field_CompareGreaterThan a b = Some (GetCmpBool (field_less b a))"
proof -
  have types: "fd_type (Field_int i) = kTypeInt" "fd_type (Field_float w) = kTypeFloat" "fd_type (char_field bs) = kTypeChar" for i w bs
    by (simp_all add: Field_int_def Field_float_def char_field_def)
  show "Field_CompareLessThan a b = Some (GetCmpBool (field_less a b))" "Field_CompareGreaterThan a b = Some (GetCmpBool (field_less b a))"
    using assms
    by (auto elim!: orderable_cases simp: field_compare_defs type_compare_defs types compare_chars_ok compare_bytes_sign compare_bytes_pos
        compare_with_def CheckComparable_def float_gt_def field_less_def)
      (simp_all add: Field_int_def Field_float_def char_field_def)
qed

fun fields_less :: "field list \<Rightarrow> field list \<Rightarrow> bool" where
  "fields_less (f # fs) (g # gs) \<longleftrightarrow> field_less f g \<or> \<not> field_less g f \<and> fields_less fs gs"
| "fields_less _ _ \<longleftrightarrow> False"

lemma fields_less_asym:
  "list_all2 orderable tys fs \<Longrightarrow> list_all2 orderable tys gs \<Longrightarrow> fields_less fs gs \<Longrightarrow> \<not> fields_less gs fs"
proof (induction tys arbitrary: fs gs)
  case (Cons ty tys)
  then show ?case by (auto simp: list_all2_Cons1 dest: field_less_order(1))
qed simp

lemma fields_less_trans:
  "list_all2 orderable tys fs \<Longrightarrow> list_all2 orderable tys gs \<Longrightarrow> list_all2 orderable tys hs \<Longrightarrow>
   \<not> fields_less gs fs \<Longrightarrow> \<not> fields_less hs gs \<Longrightarrow> \<not> fields_less hs fs"
proof (induction tys arbitrary: fs gs hs)
  case (Cons ty tys)
  obtain f fs' g gs' h hs' where l: "fs = f # fs'" "gs = g # gs'" "hs = h # hs'"
    "orderable ty f" "orderable ty g" "orderable ty h"
    "list_all2 orderable tys fs'" "list_all2 orderable tys gs'" "list_all2 orderable tys hs'"
    using Cons.prems(1-3) by (auto simp: list_all2_Cons1)
  note T = field_less_order(2)
  have n: "\<not> field_less g f" "\<not> field_less h g" using Cons.prems(4,5) l by auto
  then have hf: "\<not> field_less h f" using T [OF l(4,5,6)] by blast
  show ?case
  proof (cases "field_less f h")
    case True
    then show ?thesis using hf l by simp
  next
    case False
    then have "\<not> field_less f g" "\<not> field_less g h"
      using n T [OF l(5,6,4)] T [OF l(6,4,5)] by blast+
    then show ?thesis using Cons.IH [OF l(7,8,9)] Cons.prems(4,5) n l hf by auto
  qed
qed simp

lemma compare_columns_ok:
  assumes "list_all2 orderable tys (row_fields l)" "list_all2 orderable tys (row_fields r)"
  shows "i + n = length tys \<Longrightarrow> compare_columns l r i n =
    Some (if fields_less (drop i (row_fields l)) (drop i (row_fields r)) then - 1
          else if fields_less (drop i (row_fields r)) (drop i (row_fields l)) then 1 else 0)"
proof (induction n arbitrary: i)
  case 0
  then show ?case using assms by (simp add: list_all2_lengthD)
next
  case (Suc n)
  have len: "i < length (row_fields l)" "i < length (row_fields r)" "i < length tys"
    using Suc.prems assms by (simp_all add: list_all2_lengthD [symmetric])
  have o: "orderable (tys ! i) (row_fields l ! i)" "orderable (tys ! i) (row_fields r ! i)"
    using assms len by (simp_all add: list_all2_conv_all_nth)
  have d: "drop i (row_fields l) = row_fields l ! i # drop (Suc i) (row_fields l)" "drop i (row_fields r) = row_fields r ! i # drop (Suc i) (row_fields r)"
    using len by (simp_all add: Cons_nth_drop_Suc)
  note F = field_compare_less [OF o] and A = field_less_order(1) [OF o]
  show ?case unfolding d using Suc.IH [of "Suc i"] Suc.prems len F A
    by (auto simp: GetField_def ensure_def GetCmpBool_def)
qed

text \<open>\<open>key_rep km k fs\<close>: the key buffer \<open>k\<close> holds the fields \<open>fs\<close> of the key schema, nulls allowed.\<close>

definition key_row :: "field list \<Rightarrow> row" where
  "key_row fs = \<lparr>row_rid = INVALID_ROWID, row_fields = fs\<rparr>"

definition key_rep :: "key_manager \<Rightarrow> generic_key \<Rightarrow> field list \<Rightarrow> bool" where
  "key_rep km k fs \<longleftrightarrow> row_ok (km_key_schema km) INVALID_ROWID (key_row fs) \<and> length k = km_key_size km \<and>
     length (row_encode (key_row fs)) \<le> km_key_size km \<and> slice k 0 (length (row_encode (key_row fs))) = row_encode (key_row fs)"

definition orderable_key :: "key_manager \<Rightarrow> generic_key \<Rightarrow> bool" where
  "orderable_key km k \<longleftrightarrow> (\<exists>fs. key_rep km k fs \<and> list_all2 orderable (map col_type (km_key_schema km)) fs)"

lemma key_rep_serialize:
  assumes "row_ok (km_key_schema km) INVALID_ROWID (key_row fs)" "length (row_encode (key_row fs)) \<le> km_key_size km"
  obtains k where "SerializeFromKey km (key_row fs) (km_key_schema km) = Some k" "key_rep km k fs"
proof
  let ?e = "row_encode (key_row fs)" and ?z = "replicate (km_key_size km) 0 :: buffer"
  have "Row_SerializeTo (km_key_schema km) (key_row fs) ?z 0 = Some (splice ?z 0 ?e, length ?e)"
    using row_codec.put_encode [OF assms(1), of 0 ?z] assms(2) by simp
  then show "SerializeFromKey km (key_row fs) (km_key_schema km) = Some (splice ?z 0 ?e)"
    using row_codec.size_encode [OF assms(1)] assms by (simp add: SerializeFromKey_def ensure_def row_ok_def key_row_def)
  show "key_rep km (splice ?z 0 ?e) fs" using assms by (simp add: key_rep_def slice_splice_same)
qed

lemma key_rep_deserialize:
  assumes "key_rep km k fs"
  shows "DeserializeToKey km k \<lparr>row_rid = INVALID_ROWID, row_fields = []\<rparr> (km_key_schema km) = Some (key_row fs)"
  using assms row_codec.get_encode [of "km_key_schema km" INVALID_ROWID "key_row fs" 0 k]
  by (simp add: key_rep_def DeserializeToKey_def ensure_def)

lemma CompareKeys_columns:
  "key_rep km k fs \<Longrightarrow> key_rep km k' gs \<Longrightarrow>
   CompareKeys km k k' = compare_columns (key_row fs) (key_row gs) 0 (length (km_key_schema km))"
  by (simp add: CompareKeys_def key_rep_deserialize)

lemma CompareKeys_ok:
  assumes "key_rep km k fs" "key_rep km k' gs"
    and "list_all2 orderable (map col_type (km_key_schema km)) fs" "list_all2 orderable (map col_type (km_key_schema km)) gs"
  shows "CompareKeys km k k' = Some (if fields_less fs gs then - 1 else if fields_less gs fs then 1 else 0)"
  unfolding CompareKeys_columns [OF assms(1,2)] using assms(3,4)
  by (subst compare_columns_ok [where tys = "map col_type (km_key_schema km)"]) (simp_all add: key_row_def)

interpretation km: key_compare "orderable_key km" "CompareKeys km" for km
proof
  let ?o = "list_all2 orderable (map col_type (km_key_schema km))"
  have rel: "key_lt (CompareKeys km) k k' \<longleftrightarrow> fields_less fs gs" "key_le (CompareKeys km) k k' \<longleftrightarrow> \<not> fields_less gs fs"
    if "key_rep km k fs" "key_rep km k' gs" "?o fs" "?o gs" for k k' fs gs
    using CompareKeys_ok [OF that] fields_less_asym [OF that(3,4)] by (auto simp: key_rel_defs)
  show "\<exists>c. CompareKeys km a b = Some c" if "orderable_key km a" "orderable_key km b" for a b
    using that CompareKeys_ok unfolding orderable_key_def by blast
  show "key_lt (CompareKeys km) a b \<longleftrightarrow> \<not> key_le (CompareKeys km) b a" if "orderable_key km a" "orderable_key km b" for a b
    using that rel unfolding orderable_key_def by blast
  show "key_le (CompareKeys km) a c"
    if o: "orderable_key km a" "orderable_key km b" "orderable_key km c" and le: "key_le (CompareKeys km) a b" "key_le (CompareKeys km) b c" for a b c
  proof -
    obtain x y z where k: "key_rep km a x" "?o x" "key_rep km b y" "?o y" "key_rep km c z" "?o z"
      using o unfolding orderable_key_def by blast
    from le fields_less_trans [OF k(2,4,6)] show ?thesis
      unfolding rel(2) [OF k(1,3,2,4)] rel(2) [OF k(3,5,4,6)] rel(2) [OF k(1,5,2,6)] by blast
  qed
qed

section \<open>Properties\<close>

text \<open>
  C31: keys made by \<^verbatim>\<open>SerializeFromKey\<close> from rows without nulls and NaNs are compared by \<^verbatim>\<open>CompareKeys\<close> exactly like
  the rows, column by column: the result is -1, 1 or 0 as the first row is below, above or equal to the second in the
  lexicographic order of the typed columns, whatever the padding; in particular no comparison fails.
\<close>

theorem compare_keys_lexicographic:
  assumes fs: "row_ok (km_key_schema km) INVALID_ROWID (key_row fs)" "length (row_encode (key_row fs)) \<le> km_key_size km"
      "list_all2 orderable (map col_type (km_key_schema km)) fs"
    and gs: "row_ok (km_key_schema km) INVALID_ROWID (key_row gs)" "length (row_encode (key_row gs)) \<le> km_key_size km"
      "list_all2 orderable (map col_type (km_key_schema km)) gs"
  shows "\<exists>k k'. SerializeFromKey km (key_row fs) (km_key_schema km) = Some k \<and> SerializeFromKey km (key_row gs) (km_key_schema km) = Some k' \<and>
    CompareKeys km k k' = Some (if fields_less fs gs then - 1 else if fields_less gs fs then 1 else 0)"
  using key_rep_serialize [OF fs(1,2)] key_rep_serialize [OF gs(1,2)] CompareKeys_ok [OF _ _ fs(3) gs(3)] by metis

definition int_key_manager :: key_manager where
  "int_key_manager = \<lparr>km_key_size = 16, km_key_schema = [\<lparr>col_name = [105], col_type = kTypeInt, col_len = 4, col_table_ind = 0, col_nullable = True, col_unique = True\<rparr>]\<rparr>"

lemma int_key_ok:
  "row_ok (km_key_schema int_key_manager) INVALID_ROWID (key_row [Field_int i])"
  "length (row_encode (key_row [Field_int i])) \<le> km_key_size int_key_manager"
  "list_all2 orderable (map col_type (km_key_schema int_key_manager)) [Field_int i]"
  by (simp_all add: int_key_manager_def row_ok_def key_row_def field_ok_def Field_int_def row_encode_def field_encode_def orderable_def)

theorem compare_keys_lexicographic_witness:
  "\<exists>k k'. SerializeFromKey int_key_manager (key_row [Field_int 7]) (km_key_schema int_key_manager) = Some k \<and>
     SerializeFromKey int_key_manager (key_row [Field_int (- 1)]) (km_key_schema int_key_manager) = Some k' \<and>
     CompareKeys int_key_manager k k' = Some 1"
  using compare_keys_lexicographic [OF int_key_ok int_key_ok, of 7 "- 1"]
  by (simp add: field_less_def Field_int_def)

text \<open>
  Nulls break the order of index keys. A key whose columns are all null compares equal to every key, so two
  different keys are both equal to it: the comparison is not transitive, and a key with a null cannot be told from any
  other key by the searches of the index.
\<close>

theorem null_key_equals_every_key:
  assumes "key_rep km k fs" "key_rep km k' gs" "\<forall>f \<in> set fs. fd_null f"
  shows "CompareKeys km k k' = Some 0 \<and> CompareKeys km k' k = Some 0"
proof -
  have ok: "row_ok (km_key_schema km) INVALID_ROWID (key_row fs)" "row_ok (km_key_schema km) INVALID_ROWID (key_row gs)"
    using assms(1,2) by (simp_all add: key_rep_def)
  have null: "Field_CompareLessThan f g = Some kNull \<and> Field_CompareGreaterThan f g = Some kNull"
    if "fd_null f \<or> fd_null g" "fd_type f = fd_type g" "fd_type f \<noteq> kTypeInvalid" for f g
    using that by (cases "fd_type f")
      (simp_all add: Field_CompareLessThan_def Field_CompareGreaterThan_def type_compare_defs compare_with_def compare_chars_def CheckComparable_def)
  have loop: "compare_columns l r i n = Some 0"
    if "\<And>j. j < i + n \<Longrightarrow> j < length (row_fields l) \<and> j < length (row_fields r) \<and> (fd_null (row_fields l ! j) \<or> fd_null (row_fields r ! j)) \<and>
      fd_type (row_fields l ! j) = fd_type (row_fields r ! j) \<and> fd_type (row_fields l ! j) \<noteq> kTypeInvalid" for l r i n
    using that
  proof (induction n arbitrary: i)
    case (Suc n)
    have "compare_columns l r (Suc i) n = Some 0" by (rule Suc.IH, rule Suc.prems) simp
    with Suc.prems [of i] null [of "row_fields l ! i" "row_fields r ! i"] show ?case by (auto simp: GetField_def)
  qed simp
  have cols: "j < length fs \<and> j < length gs \<and> fd_null (fs ! j) \<and> fd_type (fs ! j) = fd_type (gs ! j) \<and> fd_type (gs ! j) \<noteq> kTypeInvalid"
    if "j < length (km_key_schema km)" for j
    using ok that assms(3) by (auto simp: row_ok_def key_row_def field_ok_def)
  show ?thesis
    unfolding CompareKeys_columns [OF assms(1,2)] CompareKeys_columns [OF assms(2,1)]
    using cols by (intro conjI loop) (simp_all add: key_row_def)
qed

theorem null_key_equals_every_key_witness:
  "\<exists>k k1 k2. SerializeFromKey int_key_manager (key_row [Field_null kTypeInt]) (km_key_schema int_key_manager) = Some k \<and>
     SerializeFromKey int_key_manager (key_row [Field_int 1]) (km_key_schema int_key_manager) = Some k1 \<and>
     SerializeFromKey int_key_manager (key_row [Field_int 2]) (km_key_schema int_key_manager) = Some k2 \<and>
     CompareKeys int_key_manager k k1 = Some 0 \<and> CompareKeys int_key_manager k k2 = Some 0 \<and> CompareKeys int_key_manager k1 k2 = Some (- 1)"
proof -
  have n: "row_ok (km_key_schema int_key_manager) INVALID_ROWID (key_row [Field_null kTypeInt])"
    "length (row_encode (key_row [Field_null kTypeInt])) \<le> km_key_size int_key_manager" "\<forall>f \<in> set [Field_null kTypeInt]. fd_null f"
    by (simp_all add: int_key_manager_def row_ok_def key_row_def field_ok_def Field_null_def row_encode_def field_encode_def)
  obtain k where k: "SerializeFromKey int_key_manager (key_row [Field_null kTypeInt]) (km_key_schema int_key_manager) = Some k"
    "key_rep int_key_manager k [Field_null kTypeInt]" by (rule key_rep_serialize [OF n(1,2)])
  obtain k1 where k1: "SerializeFromKey int_key_manager (key_row [Field_int 1]) (km_key_schema int_key_manager) = Some k1"
    "key_rep int_key_manager k1 [Field_int 1]" by (rule key_rep_serialize [OF int_key_ok(1,2)])
  obtain k2 where k2: "SerializeFromKey int_key_manager (key_row [Field_int 2]) (km_key_schema int_key_manager) = Some k2"
    "key_rep int_key_manager k2 [Field_int 2]" by (rule key_rep_serialize [OF int_key_ok(1,2)])
  have "CompareKeys int_key_manager k1 k2 = Some (- 1)"
    using CompareKeys_ok [OF k1(2) k2(2) int_key_ok(3) int_key_ok(3)] by (simp add: field_less_def Field_int_def)
  with null_key_equals_every_key [OF k(2) k1(2) n(3)] null_key_equals_every_key [OF k(2) k2(2) n(3)] k k1 k2 show ?thesis by blast
qed

end
