(* ===== verification/B_Plus_Tree_Page.thy ===== *)
theory B_Plus_Tree_Page
  imports Generic_Key
begin

text \<open>
  What leaf and internal pages of the B+ tree share: the 28-byte header of \<^verbatim>\<open>include/page/b_plus_tree_page.h\<close> and
  \<^verbatim>\<open>page/b_plus_tree_page.cpp\<close>, and the array of key/value pairs behind it. The pages are modelled on their 4096 bytes.
  The array lemmas treat a page as a sequence of chunks of \<^verbatim>\<open>pair_size\<close> bytes: reading a chunk after writing one, and the
  two loops that move chunks by one place.
\<close>

section \<open>Header\<close>

datatype IndexPageType = INVALID_INDEX_PAGE | LEAF_PAGE | INTERNAL_PAGE

fun page_type_code :: "IndexPageType \<Rightarrow> u32" where
  "page_type_code INVALID_INDEX_PAGE = 0"
| "page_type_code LEAF_PAGE = 1"
| "page_type_code INTERNAL_PAGE = 2"

definition get_i32 :: "buffer \<Rightarrow> nat \<Rightarrow> int option" where "get_i32 d off = map_option sint (get_u32 d off)"
definition put_i32 :: "buffer \<Rightarrow> nat \<Rightarrow> int \<Rightarrow> buffer option" where "put_i32 d off x = put_u32 d off (word_of_int x)"

definition IsLeafPage :: "buffer \<Rightarrow> bool option" where
  "IsLeafPage d = map_option (\<lambda>w. w = page_type_code LEAF_PAGE) (get_u32 d 0)"
definition BP_IsRootPage :: "buffer \<Rightarrow> bool option" where
  "BP_IsRootPage d = map_option (\<lambda>p. p = INVALID_PAGE_ID) (get_i32 d 20)"
definition SetPageType :: "buffer \<Rightarrow> IndexPageType \<Rightarrow> buffer option" where "SetPageType d t = put_u32 d 0 (page_type_code t)"
definition BP_GetKeySize :: "buffer \<Rightarrow> int option" where "BP_GetKeySize d = get_i32 d 4"
definition BP_SetKeySize :: "buffer \<Rightarrow> int \<Rightarrow> buffer option" where "BP_SetKeySize d n = put_i32 d 4 n"
definition BP_GetSize :: "buffer \<Rightarrow> int option" where "BP_GetSize d = get_i32 d 12"
definition BP_SetSize :: "buffer \<Rightarrow> int \<Rightarrow> buffer option" where "BP_SetSize d n = put_i32 d 12 n"
definition BP_GetMaxSize :: "buffer \<Rightarrow> int option" where "BP_GetMaxSize d = get_i32 d 16"
definition BP_SetMaxSize :: "buffer \<Rightarrow> int \<Rightarrow> buffer option" where "BP_SetMaxSize d n = put_i32 d 16 n"
definition BP_GetParentPageId :: "buffer \<Rightarrow> int option" where "BP_GetParentPageId d = get_i32 d 20"
definition BP_SetParentPageId :: "buffer \<Rightarrow> int \<Rightarrow> buffer option" where "BP_SetParentPageId d p = put_i32 d 20 p"
definition BP_GetPageId :: "buffer \<Rightarrow> int option" where "BP_GetPageId d = get_i32 d 24"
definition BP_SetPageId :: "buffer \<Rightarrow> int \<Rightarrow> buffer option" where "BP_SetPageId d p = put_i32 d 24 p"
definition BP_SetLSN :: "buffer \<Rightarrow> int \<Rightarrow> buffer option" where "BP_SetLSN d lsn = put_i32 d 8 lsn"

text \<open>\<^verbatim>\<open>size_ += amount\<close> on \<^verbatim>\<open>int\<close>; an overflow is undefined.\<close>

definition IncreaseSize :: "buffer \<Rightarrow> int \<Rightarrow> buffer option" where
  "IncreaseSize d amount = do {
     n \<leftarrow> BP_GetSize d;
     ensure (- 2147483648 \<le> n + amount \<and> n + amount < 2147483648);
     BP_SetSize d (n + amount) }"

text \<open>Halving an \<^verbatim>\<open>int\<close> rounds towards zero.\<close>

definition int_half :: "int \<Rightarrow> int" where "int_half m = (if m < 0 then - ((- m) div 2) else m div 2)"

definition BP_GetMinSize :: "buffer \<Rightarrow> int option" where "BP_GetMinSize d = map_option int_half (BP_GetMaxSize d)"

section \<open>Pairs\<close>

text \<open>
  The position of pair \<open>index\<close> in an array of pairs of \<open>psz\<close> bytes at \<open>base\<close>; a negative index leaves the array. The copy of one pair,
  and the loops \<^verbatim>\<open>for (i = i0; i > index; i--)\<close> and \<^verbatim>\<open>for (i = i0; i < n; i++)\<close> that copy \<open>n\<close> pairs one place up or down.
\<close>

definition pair_pos :: "nat \<Rightarrow> nat \<Rightarrow> int \<Rightarrow> nat option" where
  "pair_pos base psz index = (if 0 \<le> index then Some (base + nat index * psz) else None)"

definition copy_pair :: "nat \<Rightarrow> nat \<Rightarrow> buffer \<Rightarrow> int \<Rightarrow> int \<Rightarrow> buffer option" where
  "copy_pair base psz d dst src = do {
     p \<leftarrow> pair_pos base psz dst;
     q \<leftarrow> pair_pos base psz src;
     mem_move d p q psz }"

fun shift_up :: "nat \<Rightarrow> nat \<Rightarrow> buffer \<Rightarrow> int \<Rightarrow> nat \<Rightarrow> buffer option" where
  "shift_up base psz d i 0 = Some d"
| "shift_up base psz d i (Suc n) = do { d \<leftarrow> copy_pair base psz d i (i - 1); shift_up base psz d (i - 1) n }"

fun shift_down :: "nat \<Rightarrow> nat \<Rightarrow> buffer \<Rightarrow> int \<Rightarrow> nat \<Rightarrow> buffer option" where
  "shift_down base psz d i 0 = Some d"
| "shift_down base psz d i (Suc n) = do { d \<leftarrow> copy_pair base psz d i (i + 1); shift_down base psz d (i + 1) n }"

section \<open>Header fields under writes\<close>

lemma sint_word_of_int_u32: "- 2147483648 \<le> x \<Longrightarrow> x < 2147483648 \<Longrightarrow> sint (word_of_int x :: u32) = x"
  by (simp add: signed_of_int signed_take_bit_int_eq_self_iff)

lemma get_i32_at: "off + 4 \<le> length d \<Longrightarrow> get_i32 d off = Some (sint (u32_at d off))"
  by (simp add: get_i32_def get_u32_at)

lemma put_i32_at: "off + 4 \<le> length d \<Longrightarrow> put_i32 d off x = Some (splice d off (u32_bytes (word_of_int x)))"
  by (simp add: put_i32_def put_u32_at)

lemmas header_defs = BP_IsRootPage_def BP_GetKeySize_def BP_SetKeySize_def BP_GetSize_def BP_SetSize_def BP_GetMaxSize_def BP_SetMaxSize_def
  BP_GetParentPageId_def BP_SetParentPageId_def BP_GetPageId_def BP_SetPageId_def IsLeafPage_def SetPageType_def

section \<open>Chunks\<close>

definition chunk :: "nat \<Rightarrow> nat \<Rightarrow> buffer \<Rightarrow> nat \<Rightarrow> byte list" where
  "chunk base psz d i = slice d (base + i * psz) psz"

lemma chunk_disjoint: "i \<noteq> j \<Longrightarrow> base + i * psz + psz \<le> base + j * psz \<or> base + j * psz + psz \<le> base + i * (psz :: nat)"
proof -
  assume "i \<noteq> j"
  then have "Suc i \<le> j \<or> Suc j \<le> i" by arith
  then have "Suc i * psz \<le> j * psz \<or> Suc j * psz \<le> i * psz" using mult_le_mono1 by blast
  then show ?thesis by auto
qed

lemma chunk_bound: "i < n \<Longrightarrow> base + n * psz \<le> m \<Longrightarrow> base + i * psz + psz \<le> (m :: nat)"
proof -
  assume "i < n" "base + n * psz \<le> m"
  moreover from \<open>i < n\<close> have "Suc i * psz \<le> n * psz" by (intro mult_le_mono1) simp
  ultimately show ?thesis by simp
qed

lemma length_chunk: "base + i * psz + psz \<le> length d \<Longrightarrow> length (chunk base psz d i) = psz"
  by (simp add: chunk_def)

lemma chunk_splice:
  assumes "base + j * psz + psz \<le> length d" "length xs = psz"
  shows "chunk base psz (splice d (base + j * psz) xs) i = (if i = j then xs else chunk base psz d i)"
  using assms chunk_disjoint [of i j base psz] by (cases "i = j") (auto simp: chunk_def slice_splice_same slice_splice_other)

text \<open>Writes below \<open>base\<close> do not change chunks.\<close>

lemma chunk_splice_below:
  "off + length xs \<le> base \<Longrightarrow> base \<le> length d \<Longrightarrow> chunk base psz (splice d off xs) i = chunk base psz d i"
  by (simp add: chunk_def slice_splice_other)

lemma copy_pair_ok:
  assumes "base + n * psz \<le> length d" "i < n" "j < n"
  obtains d' where "copy_pair base psz d (int i) (int j) = Some d'" "length d' = length d"
    "\<And>k. chunk base psz d' k = (if k = i then chunk base psz d j else chunk base psz d k)"
    "\<And>x m. x + m \<le> base \<Longrightarrow> slice d' x m = slice d x m"
proof
  note b = chunk_bound [OF assms(2,1)] chunk_bound [OF assms(3,1)]
  let ?d = "splice d (base + i * psz) (chunk base psz d j)"
  show "copy_pair base psz d (int i) (int j) = Some ?d"
    using b by (simp add: copy_pair_def pair_pos_def mem_move_Some chunk_def)
  show "length ?d = length d" using b by (simp add: length_chunk)
  show "chunk base psz ?d k = (if k = i then chunk base psz d j else chunk base psz d k)" for k
    using b by (simp add: chunk_splice length_chunk)
  show "slice ?d x m = slice d x m" if "x + m \<le> base" for x m
    using that b by (intro slice_splice_other) (auto simp: length_chunk)
qed

lemma shift_up_ok:
  "base + n * psz \<le> length d \<Longrightarrow> i < n \<Longrightarrow> k \<le> i \<Longrightarrow>
   \<exists>d'. shift_up base psz d (int i) k = Some d' \<and> length d' = length d \<and> (\<forall>x m. x + m \<le> base \<longrightarrow> slice d' x m = slice d x m) \<and>
     (\<forall>j. chunk base psz d' j = (if i - k < j \<and> j \<le> i then chunk base psz d (j - 1) else chunk base psz d j))"
proof (induction k arbitrary: i d)
  case (Suc k)
  have b: "i < n" "i - 1 < n" and k: "k \<le> i - 1" using Suc.prems by simp_all
  obtain d1 where d1: "copy_pair base psz d (int i) (int (i - 1)) = Some d1" "length d1 = length d"
    "\<And>j. chunk base psz d1 j = (if j = i then chunk base psz d (i - 1) else chunk base psz d j)"
    "\<And>x m. x + m \<le> base \<Longrightarrow> slice d1 x m = slice d x m"
    by (rule copy_pair_ok [OF Suc.prems(1) b], rule that, blast+)
  obtain d' where d': "shift_up base psz d1 (int (i - 1)) k = Some d'" "length d' = length d1" "\<forall>x m. x + m \<le> base \<longrightarrow> slice d' x m = slice d1 x m"
    "\<forall>j. chunk base psz d' j = (if i - 1 - k < j \<and> j \<le> i - 1 then chunk base psz d1 (j - 1) else chunk base psz d1 j)"
    using Suc.IH [OF _ b(2) k, of d1] Suc.prems(1) d1(2) by auto
  have "chunk base psz d' j = (if i - Suc k < j \<and> j \<le> i then chunk base psz d (j - 1) else chunk base psz d j)" for j
    using d'(4) d1(3) Suc.prems(3) by auto
  moreover have "shift_up base psz d (int i) (Suc k) = Some d'" using d1(1) d'(1) Suc.prems(3) by (simp add: of_nat_diff)
  ultimately show ?case using d1(2,4) d'(2,3) by (intro exI [of _ d']) simp
qed auto

lemma shift_down_ok:
  "base + n * psz \<le> length d \<Longrightarrow> i + k < n \<Longrightarrow>
   \<exists>d'. shift_down base psz d (int i) k = Some d' \<and> length d' = length d \<and> (\<forall>x m. x + m \<le> base \<longrightarrow> slice d' x m = slice d x m) \<and>
     (\<forall>j. chunk base psz d' j = (if i \<le> j \<and> j < i + k then chunk base psz d (Suc j) else chunk base psz d j))"
proof (induction k arbitrary: i d)
  case (Suc k)
  have b: "i < n" "Suc i < n" using Suc.prems by simp_all
  obtain d1 where d1: "copy_pair base psz d (int i) (int (Suc i)) = Some d1" "length d1 = length d"
    "\<And>j. chunk base psz d1 j = (if j = i then chunk base psz d (Suc i) else chunk base psz d j)"
    "\<And>x m. x + m \<le> base \<Longrightarrow> slice d1 x m = slice d x m"
    by (rule copy_pair_ok [OF Suc.prems(1) b], rule that, blast+)
  obtain d' where d': "shift_down base psz d1 (int (Suc i)) k = Some d'" "length d' = length d1" "\<forall>x m. x + m \<le> base \<longrightarrow> slice d' x m = slice d1 x m"
    "\<forall>j. chunk base psz d' j = (if Suc i \<le> j \<and> j < Suc i + k then chunk base psz d1 (Suc j) else chunk base psz d1 j)"
    using Suc.IH [of d1 "Suc i"] Suc.prems d1(2) by auto
  have "chunk base psz d' j = (if i \<le> j \<and> j < i + Suc k then chunk base psz d (Suc j) else chunk base psz d j)" for j
    using d'(4) d1(3) by auto
  moreover have "shift_down base psz d (int i) (Suc k) = Some d'" using d1(1) d'(1) by (simp add: add.commute)
  ultimately show ?case using d1(2,4) d'(2,3) by (intro exI [of _ d']) simp
qed auto

section \<open>Nodes as lists of entries\<close>

text \<open>
  \<open>node_rep ty base venc vlen ks d es\<close>: the page \<open>d\<close> has type \<open>ty\<close>, keys of \<open>ks\<close> bytes, and its pairs, from \<open>base\<close> on and with
  values encoded by \<open>venc\<close> in \<open>vlen\<close> bytes, are the list \<open>es\<close>. \<open>hdr_same\<close>: the header fields from the maximal size on agree.
\<close>

definition node_rep :: "IndexPageType \<Rightarrow> nat \<Rightarrow> ('v \<Rightarrow> byte list) \<Rightarrow> nat \<Rightarrow> nat \<Rightarrow> buffer \<Rightarrow> (generic_key \<times> 'v) list \<Rightarrow> bool" where
  "node_rep ty base venc vlen ks d es \<longleftrightarrow> length d = PAGE_SIZE \<and> 28 \<le> base \<and> u32_at d 0 = page_type_code ty \<and> u32_at d 4 = of_nat ks \<and>
     u32_at d 12 = of_nat (length es) \<and> ks \<le> PAGE_SIZE \<and> length es \<le> PAGE_SIZE \<and> base + length es * (ks + vlen) \<le> PAGE_SIZE \<and>
     (\<forall>i < length es. length (fst (es ! i)) = ks \<and> length (venc (snd (es ! i))) = vlen \<and>
        chunk base (ks + vlen) d i = fst (es ! i) @ venc (snd (es ! i)))"

definition hdr_same :: "nat \<Rightarrow> buffer \<Rightarrow> buffer \<Rightarrow> bool" where
  "hdr_same base d d' \<longleftrightarrow> (\<forall>off. 16 \<le> off \<and> off + 4 \<le> base \<longrightarrow> u32_at d' off = u32_at d off)"

lemma node_repD:
  assumes "node_rep ty base venc vlen ks d es"
  shows "length d = PAGE_SIZE" "28 \<le> base" "base + length es * (ks + vlen) \<le> PAGE_SIZE" "ks \<le> PAGE_SIZE" "length es \<le> PAGE_SIZE"
    "BP_GetSize d = Some (int (length es))" "BP_GetKeySize d = Some (int ks)" "IsLeafPage d = Some (ty = LEAF_PAGE)"
    "\<And>i. i < length es \<Longrightarrow> chunk base (ks + vlen) d i = fst (es ! i) @ venc (snd (es ! i))"
    "\<And>i. i < length es \<Longrightarrow> length (fst (es ! i)) = ks" "\<And>i. i < length es \<Longrightarrow> length (venc (snd (es ! i))) = vlen"
proof -
  have "sint (of_nat n :: u32) = int n" if "n \<le> PAGE_SIZE" for n
    using that by (intro sint_of_nat_i32) (simp add: PAGE_SIZE_def)
  then show "BP_GetSize d = Some (int (length es))" "BP_GetKeySize d = Some (int ks)" "IsLeafPage d = Some (ty = LEAF_PAGE)"
    using assms by (cases ty; simp add: node_rep_def header_defs get_i32_at get_u32_at PAGE_SIZE_def)+
qed (use assms in \<open>simp_all add: node_rep_def\<close>)

text \<open>Writing the size field.\<close>

lemma SetSize_ok:
  assumes "length d = PAGE_SIZE" "n \<le> PAGE_SIZE" "28 \<le> base" "base \<le> PAGE_SIZE"
  obtains d' where "BP_SetSize d (int n) = Some d'" "length d' = PAGE_SIZE" "u32_at d' 12 = of_nat n"
    "u32_at d' 0 = u32_at d 0" "u32_at d' 4 = u32_at d 4" "hdr_same base d d'" "\<And>i. chunk base psz d' i = chunk base psz d i"
proof
  let ?d = "splice d 12 (u32_bytes (of_nat n))"
  show "BP_SetSize d (int n) = Some ?d" "length ?d = PAGE_SIZE" using assms by (simp_all add: header_defs put_i32_at PAGE_SIZE_def)
  show "u32_at ?d 12 = of_nat n" "u32_at ?d 0 = u32_at d 0" "u32_at ?d 4 = u32_at d 4"
    using assms by (simp_all add: buf_simps PAGE_SIZE_def)
  show "hdr_same base d ?d" using assms by (auto simp: hdr_same_def u32_at_splice_other PAGE_SIZE_def)
  show "chunk base psz ?d i = chunk base psz d i" for i using assms by (intro chunk_splice_below) simp_all
qed

lemma hdr_sameI: "(\<And>x m. x + m \<le> base \<Longrightarrow> slice d' x m = slice d x m) \<Longrightarrow> hdr_same base d d'"
  by (simp add: hdr_same_def u32_at_def)

lemma hdr_same_trans: "hdr_same base d d' \<Longrightarrow> hdr_same base d' d'' \<Longrightarrow> hdr_same base d d''"
  by (simp add: hdr_same_def)

text \<open>From the chunks and the size to the entries.\<close>

lemma node_set_size:
  assumes rep: "node_rep ty base venc vlen ks d es" and d1: "length d1 = PAGE_SIZE" "\<And>x m. x + m \<le> base \<Longrightarrow> slice d1 x m = slice d x m"
    and es': "length es' \<le> PAGE_SIZE" "base + length es' * (ks + vlen) \<le> PAGE_SIZE"
      "\<And>i. i < length es' \<Longrightarrow> length (fst (es' ! i)) = ks \<and> length (venc (snd (es' ! i))) = vlen \<and>
        chunk base (ks + vlen) d1 i = fst (es' ! i) @ venc (snd (es' ! i))"
  obtains d' where "BP_SetSize d1 (int (length es')) = Some d'" "node_rep ty base venc vlen ks d' es'" "hdr_same base d d'"
proof -
  note D = node_repD [OF rep]
  have b: "base \<le> PAGE_SIZE" using D(3) by simp
  obtain d' where d': "BP_SetSize d1 (int (length es')) = Some d'" "length d' = PAGE_SIZE" "u32_at d' 12 = of_nat (length es')"
    "u32_at d' 0 = u32_at d1 0" "u32_at d' 4 = u32_at d1 4" "hdr_same base d1 d'" "\<And>i. chunk base (ks + vlen) d' i = chunk base (ks + vlen) d1 i"
    by (rule SetSize_ok [OF d1(1) es'(1) D(2) b, where psz = "ks + vlen"], rule that, blast+)
  have "u32_at d1 0 = u32_at d 0" "u32_at d1 4 = u32_at d 4" using d1(2) D(2) by (simp_all add: u32_at_def)
  with d' es' rep have "node_rep ty base venc vlen ks d' es'" by (simp add: node_rep_def)
  moreover have "hdr_same base d d'" using hdr_same_trans [OF hdr_sameI [OF d1(2)] d'(6)] .
  ultimately show thesis using d'(1) that by blast
qed

text \<open>A size that only shrinks drops the last entries.\<close>

lemma node_truncate:
  assumes rep: "node_rep ty base venc vlen ks d es" and n: "n \<le> length es"
  obtains d' where "BP_SetSize d (int n) = Some d'" "node_rep ty base venc vlen ks d' (take n es)" "hdr_same base d d'"
proof -
  note D = node_repD [OF rep]
  have "base + n * (ks + vlen) \<le> PAGE_SIZE" using D(3) n mult_le_mono1 [OF n, of "ks + vlen"] by linarith
  then have "length (take n es) \<le> PAGE_SIZE" "base + length (take n es) * (ks + vlen) \<le> PAGE_SIZE"
    "\<And>i. i < length (take n es) \<Longrightarrow> length (fst (take n es ! i)) = ks \<and> length (venc (snd (take n es ! i))) = vlen \<and>
        chunk base (ks + vlen) d i = fst (take n es ! i) @ venc (snd (take n es ! i))"
    using n D by (simp_all add: min_absorb2)
  moreover have "int (length (take n es)) = int n" using n by simp
  ultimately show thesis using node_set_size [OF rep D(1) refl, of "take n es"] that by metis
qed

text \<open>Insertion at position \<open>p\<close>: the entries from \<open>p\<close> on move up, the new pair is written, the size grows.\<close>

lemma node_insert_at:
  assumes rep: "node_rep ty base venc vlen ks d es" and p: "p \<le> length es"
    and room: "base + Suc (length es) * (ks + vlen) \<le> PAGE_SIZE" "length es < PAGE_SIZE"
    and kv: "length k = ks" "length (venc v) = vlen"
  obtains d1 d2 where "shift_up base (ks + vlen) d (int (length es)) (length es - p) = Some d1" "length d1 = PAGE_SIZE"
    "\<And>x m. x + m \<le> base \<Longrightarrow> slice d1 x m = slice d x m"
    "BP_SetSize (splice d1 (base + p * (ks + vlen)) (k @ venc v)) (int (Suc (length es))) = Some d2"
    "node_rep ty base venc vlen ks d2 (take p es @ (k, v) # drop p es)" "hdr_same base d d2"
proof -
  note D = node_repD [OF rep]
  let ?w = "ks + vlen" and ?es = "take p es @ (k, v) # drop p es"
  have len: "length ?es = Suc (length es)" using p by simp
  have room': "base + Suc (length es) * ?w \<le> length d" using room D(1) by simp
  obtain d1 where d1: "shift_up base ?w d (int (length es)) (length es - p) = Some d1" "length d1 = PAGE_SIZE"
    "\<forall>x m. x + m \<le> base \<longrightarrow> slice d1 x m = slice d x m"
    "\<forall>j. chunk base ?w d1 j = (if p < j \<and> j \<le> length es then chunk base ?w d (j - 1) else chunk base ?w d j)"
    using shift_up_ok [OF room', of "length es" "length es - p"] p D(1) by auto
  have pb: "base + p * ?w + ?w \<le> length d1" using chunk_bound [OF _ room(1), of p] p d1(2) by simp
  define e where "e = splice d1 (base + p * ?w) (k @ venc v)"
  have e: "length e = PAGE_SIZE" "\<And>x m. x + m \<le> base \<Longrightarrow> slice e x m = slice d x m"
    using d1(2,3) pb kv by (simp_all add: e_def slice_splice_other)
  have ch: "chunk base ?w e i = (if i = p then k @ venc v else chunk base ?w d1 i)" for i
    using chunk_splice [OF pb, of "k @ venc v" i] kv by (simp add: e_def)
  have ent: "length (fst (?es ! i)) = ks \<and> length (venc (snd (?es ! i))) = vlen \<and> chunk base ?w e i = fst (?es ! i) @ venc (snd (?es ! i))"
    if i: "i < length ?es" for i
  proof -
    consider "i < p" | "i = p" | "p < i" "i \<le> length es" using i len by linarith
    then show ?thesis
    proof cases
      case 1
      then show ?thesis using ch [of i] d1(4) D(9-11) p by (simp add: nth_append)
    next
      case 2
      then show ?thesis using ch [of i] kv p by (simp add: nth_append)
    next
      case 3
      then have "?es ! i = es ! (i - 1)" using p by (simp add: nth_append nth_Cons')
      then show ?thesis using 3 ch [of i] d1(4) D(9-11) by (simp add: less_Suc_eq_le)
    qed
  qed
  have "base + length ?es * ?w \<le> PAGE_SIZE" "length ?es \<le> PAGE_SIZE" using room len by simp_all
  from node_set_size [OF rep e this(2,1) ent] len d1 show thesis using that unfolding e_def by metis
qed

text \<open>Removal at position \<open>p\<close>: the entries behind \<open>p\<close> move down, the size shrinks.\<close>

lemma node_remove_at:
  assumes rep: "node_rep ty base venc vlen ks d es" and p: "p < length es"
  obtains d1 d2 where "shift_down base (ks + vlen) d (int p) (length es - 1 - p) = Some d1" "length d1 = PAGE_SIZE"
    "\<And>x m. x + m \<le> base \<Longrightarrow> slice d1 x m = slice d x m"
    "BP_SetSize d1 (int (length es - 1)) = Some d2" "node_rep ty base venc vlen ks d2 (take p es @ drop (Suc p) es)" "hdr_same base d d2"
proof -
  note D = node_repD [OF rep]
  let ?w = "ks + vlen" and ?es = "take p es @ drop (Suc p) es"
  have len: "length ?es = length es - 1" using p by simp
  have room: "base + length es * ?w \<le> length d" using D(1,3) by simp
  obtain d1 where d1: "shift_down base ?w d (int p) (length es - 1 - p) = Some d1" "length d1 = PAGE_SIZE"
    "\<forall>x m. x + m \<le> base \<longrightarrow> slice d1 x m = slice d x m"
    "\<forall>j. chunk base ?w d1 j = (if p \<le> j \<and> j < length es - 1 then chunk base ?w d (Suc j) else chunk base ?w d j)"
  proof -
    have b: "p + (length es - 1 - p) < length es" and l: "p + (length es - 1 - p) = length es - 1" using p by simp_all
    from shift_down_ok [OF room b] show thesis unfolding l D(1) using that by blast
  qed
  have ent: "length (fst (?es ! i)) = ks \<and> length (venc (snd (?es ! i))) = vlen \<and> chunk base ?w d1 i = fst (?es ! i) @ venc (snd (?es ! i))"
    if i: "i < length ?es" for i
  proof (cases "i < p")
    case True
    then show ?thesis using d1(4) D(9-11) p by (simp add: nth_append)
  next
    case False
    then have "?es ! i = es ! Suc i" using i len by (simp add: nth_append)
    moreover have "p \<le> i" "i < length es - 1" "Suc i < length es" using False i unfolding len by simp_all
    ultimately show ?thesis using d1(4) D(9-11) [of "Suc i"] by simp
  qed
  have "base + length ?es * ?w \<le> PAGE_SIZE"
  proof -
    have "length ?es * ?w \<le> length es * ?w" using len by (intro mult_le_mono1) simp
    then show ?thesis using D(3) by linarith
  qed
  moreover have "length ?es \<le> PAGE_SIZE" using len D(5) by linarith
  ultimately show thesis using node_set_size [OF rep d1(2) d1(3) [rule_format] _ _ ent] len d1 that by metis
qed

text \<open>Copying a run of entries to the end of a page, as \<^verbatim>\<open>CopyNFrom\<close> does.\<close>

definition enc_entry :: "('v \<Rightarrow> byte list) \<Rightarrow> generic_key \<times> 'v \<Rightarrow> byte list" where
  "enc_entry venc e = fst e @ venc (snd e)"

lemma slice_concat:
  "(\<And>y. y \<in> set ys \<Longrightarrow> length y = w) \<Longrightarrow> i < length ys \<Longrightarrow> slice (concat ys) (i * w) w = ys ! i"
proof (induction ys arbitrary: i)
  case (Cons y ys)
  then show ?case by (cases i) (simp_all add: slice_def)
qed simp

lemma length_concat_const: "(\<And>y. y \<in> set ys \<Longrightarrow> length y = w) \<Longrightarrow> length (concat ys) = length ys * w"
  by (induction ys) simp_all

lemma node_read:
  assumes rep: "node_rep ty base venc vlen ks d es"
  shows "i + m \<le> length es \<Longrightarrow> slice d (base + i * (ks + vlen)) (m * (ks + vlen)) = concat (map (enc_entry venc) (take m (drop i es)))"
proof (induction m arbitrary: i)
  case 0
  then show ?case by (simp add: slice_def)
next
  case (Suc m)
  have "take (Suc m) (drop i es) = es ! i # take m (drop (Suc i) es)" using Suc.prems by (simp flip: Cons_nth_drop_Suc)
  moreover have "slice d (base + i * (ks + vlen)) (ks + vlen) = enc_entry venc (es ! i)"
    using node_repD(9) [OF rep, of i] Suc.prems by (simp add: chunk_def enc_entry_def)
  moreover have "base + i * (ks + vlen) + (ks + vlen) = base + Suc i * (ks + vlen)" by simp
  ultimately show ?case
    using Suc.IH [of "Suc i"] Suc.prems slice_adjacent [of d "base + i * (ks + vlen)" "ks + vlen" "m * (ks + vlen)"] by (simp add: add.assoc add.left_commute add.commute)
qed

lemma node_append:
  assumes rep: "node_rep ty base venc vlen ks d es"
    and xs: "\<And>e. e \<in> set xs \<Longrightarrow> length (fst e) = ks \<and> length (venc (snd e)) = vlen"
    and room: "base + (length es + length xs) * (ks + vlen) \<le> PAGE_SIZE" "length es + length xs \<le> PAGE_SIZE"
  obtains d' where "BP_SetSize (splice d (base + length es * (ks + vlen)) (concat (map (enc_entry venc) xs))) (int (length es + length xs)) = Some d'"
    "node_rep ty base venc vlen ks d' (es @ xs)" "hdr_same base d d'"
proof -
  note D = node_repD [OF rep]
  let ?w = "ks + vlen" and ?c = "concat (map (enc_entry venc) xs)" and ?n = "length es"
  have ll: "length y = ?w" if "y \<in> set (map (enc_entry venc) xs)" for y using that xs by (auto simp: enc_entry_def)
  have lc: "length ?c = length xs * ?w" using length_concat_const [of "map (enc_entry venc) xs", OF ll] by simp
  have r: "base + ?n * ?w + length ?c \<le> length d" using room(1) D(1) lc by (simp add: algebra_simps)
  define e where "e = splice d (base + ?n * ?w) ?c"
  have e: "length e = PAGE_SIZE" "\<And>x m. x + m \<le> base \<Longrightarrow> slice e x m = slice d x m"
    using r D(1) by (simp_all add: e_def slice_splice_other)
  have ent: "length (fst ((es @ xs) ! i)) = ks \<and> length (venc (snd ((es @ xs) ! i))) = vlen \<and>
      chunk base ?w e i = fst ((es @ xs) ! i) @ venc (snd ((es @ xs) ! i))" if i: "i < length (es @ xs)" for i
  proof (cases "i < ?n")
    case True
    have "base + i * ?w + ?w \<le> base + ?n * ?w" by (rule chunk_bound [OF True order_refl])
    then have "chunk base ?w e i = chunk base ?w d i" using r by (simp add: chunk_def e_def slice_splice_other)
    then show ?thesis using True D(9-11) by (simp add: nth_append)
  next
    case False
    define j where "j = i - ?n"
    have j: "i = ?n + j" "j < length xs" using False i by (simp_all add: j_def)
    have "j * ?w + ?w \<le> length xs * ?w" using chunk_bound [OF j(2) order_refl, of 0 ?w] by simp
    then have "chunk base ?w e i = slice ?c (j * ?w) ?w"
      unfolding chunk_def e_def using r lc by (subst slice_splice_sub) (simp_all add: j(1) algebra_simps)
    also have "\<dots> = enc_entry venc (xs ! j)" using slice_concat [of "map (enc_entry venc) xs" ?w j, OF ll] j(2) by simp
    finally show ?thesis using j xs [of "xs ! j"] by (simp add: enc_entry_def nth_append)
  qed
  from node_set_size [OF rep e _ _ ent] room show thesis using that unfolding e_def by (metis length_append)
qed

end
