(* ===== verification/Leaf_Page.thy ===== *)
theory Leaf_Page
  imports B_Plus_Tree_Page
begin

text \<open>
  Leaf pages of the B+ tree: \<^verbatim>\<open>BPlusTreeLeafPage\<close> of \<^verbatim>\<open>include/page/b_plus_tree_leaf_page.h\<close> and
  \<^verbatim>\<open>page/b_plus_tree_leaf_page.cpp\<close>, on the bytes of the page. A pointer to a key stands for the bytes it points to.
  The lemmas show that a page implements a sorted list of keys with row ids and that splitting, merging and
  redistributing move entries between two pages without losing any.
\<close>

section \<open>Model\<close>

definition LEAF_PAGE_HEADER_SIZE :: nat where "LEAF_PAGE_HEADER_SIZE = 32"

definition leaf_pair_size :: "buffer \<Rightarrow> nat option" where
  "leaf_pair_size d = do { ks \<leftarrow> BP_GetKeySize d; ensure (0 \<le> ks); Some (nat ks + 8) }"

definition Leaf_GetNextPageId :: "buffer \<Rightarrow> int option" where "Leaf_GetNextPageId d = get_i32 d 28"
definition Leaf_SetNextPageId :: "buffer \<Rightarrow> int \<Rightarrow> buffer option" where "Leaf_SetNextPageId d p = put_i32 d 28 p"

definition Leaf_Init :: "buffer \<Rightarrow> int \<Rightarrow> int \<Rightarrow> int \<Rightarrow> int \<Rightarrow> buffer option" where
  "Leaf_Init d page_id parent_id key_size max_size = do {
     d \<leftarrow> BP_SetPageId d page_id;
     d \<leftarrow> BP_SetParentPageId d parent_id;
     d \<leftarrow> BP_SetKeySize d key_size;
     d \<leftarrow> BP_SetMaxSize d max_size;
     d \<leftarrow> BP_SetSize d 0;
     d \<leftarrow> SetPageType d LEAF_PAGE;
     Leaf_SetNextPageId d INVALID_PAGE_ID }"

definition Leaf_PairPtrAt :: "buffer \<Rightarrow> int \<Rightarrow> nat option" where
  "Leaf_PairPtrAt d index = do { psz \<leftarrow> leaf_pair_size d; pair_pos LEAF_PAGE_HEADER_SIZE psz index }"

definition Leaf_KeyAt :: "buffer \<Rightarrow> int \<Rightarrow> generic_key option" where
  "Leaf_KeyAt d index = do { ks \<leftarrow> BP_GetKeySize d; p \<leftarrow> Leaf_PairPtrAt d index; mem_read d p (nat ks) }"

definition Leaf_SetKeyAt :: "buffer \<Rightarrow> int \<Rightarrow> generic_key \<Rightarrow> buffer option" where
  "Leaf_SetKeyAt d index key = do {
     ks \<leftarrow> BP_GetKeySize d;
     p \<leftarrow> Leaf_PairPtrAt d index;
     k \<leftarrow> mem_read key 0 (nat ks);
     mem_write d p k }"

definition Leaf_ValueAt :: "buffer \<Rightarrow> int \<Rightarrow> rowid option" where
  "Leaf_ValueAt d index = do {
     ks \<leftarrow> BP_GetKeySize d;
     p \<leftarrow> Leaf_PairPtrAt d index;
     pg \<leftarrow> get_i32 d (p + nat ks);
     slot \<leftarrow> get_u32 d (p + nat ks + 4);
     Some \<lparr>rid_page = pg, rid_slot = slot\<rparr> }"

definition Leaf_SetValueAt :: "buffer \<Rightarrow> int \<Rightarrow> rowid \<Rightarrow> buffer option" where
  "Leaf_SetValueAt d index value = do {
     ks \<leftarrow> BP_GetKeySize d;
     p \<leftarrow> Leaf_PairPtrAt d index;
     d \<leftarrow> put_i32 d (p + nat ks) (rid_page value);
     put_u32 d (p + nat ks + 4) (rid_slot value) }"

text \<open>\<open>(dest, p)\<close> and \<open>(src, q)\<close> are the pointers; the source has no caller of this helper.\<close>

definition Leaf_PairCopy :: "buffer \<Rightarrow> buffer \<Rightarrow> nat \<Rightarrow> buffer \<Rightarrow> nat \<Rightarrow> int \<Rightarrow> buffer option" where
  "Leaf_PairCopy d dest p src q pair_num = do {
     psz \<leftarrow> leaf_pair_size d;
     ensure (0 \<le> pair_num);
     xs \<leftarrow> mem_read src q (nat pair_num * psz);
     mem_write dest p xs }"

definition Leaf_GetItem :: "buffer \<Rightarrow> int \<Rightarrow> (generic_key \<times> rowid) option" where
  "Leaf_GetItem d index = do { k \<leftarrow> Leaf_KeyAt d index; v \<leftarrow> Leaf_ValueAt d index; Some (k, v) }"

definition Leaf_KeyIndex :: "(generic_key \<Rightarrow> generic_key \<Rightarrow> int option) \<Rightarrow> buffer \<Rightarrow> generic_key \<Rightarrow> int option" where
  "Leaf_KeyIndex cmp d key = do { size \<leftarrow> BP_GetSize d; key_index_loop cmp (Leaf_KeyAt d) key 0 size }"

text \<open>The result is the size after the insertion and the page.\<close>

definition Leaf_Insert :: "(generic_key \<Rightarrow> generic_key \<Rightarrow> int option) \<Rightarrow> buffer \<Rightarrow> generic_key \<Rightarrow> rowid \<Rightarrow> (int \<times> buffer) option" where
  "Leaf_Insert cmp d key value = do {
     index \<leftarrow> Leaf_KeyIndex cmp d key;
     size \<leftarrow> BP_GetSize d;
     psz \<leftarrow> leaf_pair_size d;
     d \<leftarrow> shift_up LEAF_PAGE_HEADER_SIZE psz d size (nat (size - index));
     d \<leftarrow> Leaf_SetKeyAt d index key;
     d \<leftarrow> Leaf_SetValueAt d index value;
     d \<leftarrow> IncreaseSize d 1;
     n \<leftarrow> BP_GetSize d;
     Some (n, d) }"

text \<open>\<open>(src, p)\<close> is the pointer into the source page.\<close>

definition Leaf_CopyNFrom :: "buffer \<Rightarrow> buffer \<Rightarrow> nat \<Rightarrow> int \<Rightarrow> buffer option" where
  "Leaf_CopyNFrom d src p sz = do {
     psz \<leftarrow> leaf_pair_size d;
     n \<leftarrow> BP_GetSize d;
     q \<leftarrow> Leaf_PairPtrAt d n;
     ensure (0 \<le> sz);
     xs \<leftarrow> mem_read src p (nat sz * psz);
     d \<leftarrow> mem_write d q xs;
     IncreaseSize d sz }"

text \<open>The moves return this page and the recipient.\<close>

definition Leaf_MoveHalfTo :: "buffer \<Rightarrow> buffer \<Rightarrow> (buffer \<times> buffer) option" where
  "Leaf_MoveHalfTo d recipient = do {
     size \<leftarrow> BP_GetSize d;
     let move_size = int_half size;
     p \<leftarrow> Leaf_PairPtrAt d (size - move_size);
     recipient \<leftarrow> Leaf_CopyNFrom recipient d p move_size;
     d \<leftarrow> BP_SetSize d (size - move_size);
     Some (d, recipient) }"

definition Leaf_Lookup :: "(generic_key \<Rightarrow> generic_key \<Rightarrow> int option) \<Rightarrow> buffer \<Rightarrow> generic_key \<Rightarrow> rowid option option" where
  "Leaf_Lookup cmp d key = do {
     size \<leftarrow> BP_GetSize d;
     r \<leftarrow> leaf_lookup_loop cmp (Leaf_KeyAt d) key 0 (size - 1);
     case r of None \<Rightarrow> Some None | Some index \<Rightarrow> map_option Some (Leaf_ValueAt d index) }"

definition Leaf_RemoveAndDeleteRecord ::
  "(generic_key \<Rightarrow> generic_key \<Rightarrow> int option) \<Rightarrow> buffer \<Rightarrow> generic_key \<Rightarrow> (int \<times> buffer) option" where
  "Leaf_RemoveAndDeleteRecord cmp d key = do {
     index \<leftarrow> Leaf_KeyIndex cmp d key;
     size \<leftarrow> BP_GetSize d;
     found \<leftarrow> (if index < size then do { k \<leftarrow> Leaf_KeyAt d index; c \<leftarrow> cmp k key; Some (c = 0) } else Some False);
     if found then do {
       psz \<leftarrow> leaf_pair_size d;
       d \<leftarrow> shift_down LEAF_PAGE_HEADER_SIZE psz d index (nat (size - 1 - index));
       d \<leftarrow> IncreaseSize d (- 1);
       n \<leftarrow> BP_GetSize d;
       Some (n, d) }
     else Some (- 1, d) }"

definition Leaf_MoveAllTo :: "buffer \<Rightarrow> buffer \<Rightarrow> (buffer \<times> buffer) option" where
  "Leaf_MoveAllTo d recipient = do {
     p \<leftarrow> Leaf_PairPtrAt d 0;
     size \<leftarrow> BP_GetSize d;
     recipient \<leftarrow> Leaf_CopyNFrom recipient d p size;
     d \<leftarrow> BP_SetSize d 0;
     next_id \<leftarrow> Leaf_GetNextPageId d;
     recipient \<leftarrow> Leaf_SetNextPageId recipient next_id;
     size \<leftarrow> BP_GetSize d;
     recipient \<leftarrow> IncreaseSize recipient size;
     Some (d, recipient) }"

definition Leaf_CopyLastFrom :: "buffer \<Rightarrow> generic_key \<Rightarrow> rowid \<Rightarrow> buffer option" where
  "Leaf_CopyLastFrom d key value = do {
     n \<leftarrow> BP_GetSize d;
     d \<leftarrow> Leaf_SetKeyAt d n key;
     n \<leftarrow> BP_GetSize d;
     d \<leftarrow> Leaf_SetValueAt d n value;
     IncreaseSize d 1 }"

definition Leaf_MoveFirstToEndOf :: "buffer \<Rightarrow> buffer \<Rightarrow> (buffer \<times> buffer) option" where
  "Leaf_MoveFirstToEndOf d recipient = do {
     k \<leftarrow> Leaf_KeyAt d 0;
     v \<leftarrow> Leaf_ValueAt d 0;
     recipient \<leftarrow> Leaf_CopyLastFrom recipient k v;
     size \<leftarrow> BP_GetSize d;
     psz \<leftarrow> leaf_pair_size d;
     d \<leftarrow> shift_down LEAF_PAGE_HEADER_SIZE psz d 0 (nat (size - 1));
     d \<leftarrow> IncreaseSize d (- 1);
     Some (d, recipient) }"

definition Leaf_CopyFirstFrom :: "buffer \<Rightarrow> generic_key \<Rightarrow> rowid \<Rightarrow> buffer option" where
  "Leaf_CopyFirstFrom d key value = do {
     size \<leftarrow> BP_GetSize d;
     psz \<leftarrow> leaf_pair_size d;
     d \<leftarrow> shift_up LEAF_PAGE_HEADER_SIZE psz d size (nat size);
     d \<leftarrow> Leaf_SetKeyAt d 0 key;
     d \<leftarrow> Leaf_SetValueAt d 0 value;
     IncreaseSize d 1 }"

definition Leaf_MoveLastToFrontOf :: "buffer \<Rightarrow> buffer \<Rightarrow> (buffer \<times> buffer) option" where
  "Leaf_MoveLastToFrontOf d recipient = do {
     size \<leftarrow> BP_GetSize d;
     k \<leftarrow> Leaf_KeyAt d (size - 1);
     v \<leftarrow> Leaf_ValueAt d (size - 1);
     recipient \<leftarrow> Leaf_CopyFirstFrom recipient k v;
     d \<leftarrow> IncreaseSize d (- 1);
     Some (d, recipient) }"

section \<open>Leaves as lists of entries\<close>

definition rid_enc :: "rowid \<Rightarrow> byte list" where
  "rid_enc v = u32_bytes (word_of_int (rid_page v)) @ u32_bytes (rid_slot v)"

definition rid_ok :: "rowid \<Rightarrow> bool" where "rid_ok v \<longleftrightarrow> - 2147483648 \<le> rid_page v \<and> rid_page v < 2147483648"

definition leaf_rep :: "nat \<Rightarrow> buffer \<Rightarrow> (generic_key \<times> rowid) list \<Rightarrow> bool" where
  "leaf_rep ks d es \<longleftrightarrow> node_rep LEAF_PAGE 32 rid_enc 8 ks d es \<and> (\<forall>e \<in> set es. rid_ok (snd e))"

lemma length_rid_enc [simp]: "length (rid_enc v) = 8"
  by (simp add: rid_enc_def)

lemma leaf_pair_size_ok: "BP_GetKeySize d = Some (int ks) \<Longrightarrow> leaf_pair_size d = Some (ks + 8)"
  by (simp add: leaf_pair_size_def)

lemma Leaf_PairPtrAt_ok: "BP_GetKeySize d = Some (int ks) \<Longrightarrow> Leaf_PairPtrAt d (int i) = Some (32 + i * (ks + 8))"
  by (simp add: Leaf_PairPtrAt_def leaf_pair_size_ok pair_pos_def LEAF_PAGE_HEADER_SIZE_def)

lemma chunk_parts:
  assumes "chunk base (n + m) d i = xs @ ys" "length xs = n" "length ys = m" "base + i * (n + m) + (n + m) \<le> length d"
  shows "slice d (base + i * (n + m)) n = xs" "slice d (base + i * (n + m) + n) m = ys"
  using slice_eq_append [of d "base + i * (n + m)" xs ys] assms by (simp_all add: chunk_def)

lemma Leaf_at:
  assumes rep: "leaf_rep ks d es" and i: "i < length es"
  shows "Leaf_KeyAt d (int i) = Some (fst (es ! i))" "Leaf_ValueAt d (int i) = Some (snd (es ! i))"
proof -
  have nr: "node_rep LEAF_PAGE 32 rid_enc 8 ks d es" and ok: "rid_ok (snd (es ! i))" using rep i by (simp_all add: leaf_rep_def)
  note D = node_repD [OF nr]
  let ?p = "32 + i * (ks + 8)"
  have b: "?p + (ks + 8) \<le> length d" using chunk_bound [OF i D(3)] D(1) by simp
  have s: "slice d ?p ks = fst (es ! i)" "slice d (?p + ks) 8 = rid_enc (snd (es ! i))"
    using chunk_parts [OF D(9) [OF i] D(10,11) [OF i] b] by simp_all
  show "Leaf_KeyAt d (int i) = Some (fst (es ! i))" using D(7) b s(1) by (simp add: Leaf_KeyAt_def Leaf_PairPtrAt_ok mem_read_def)
  have "slice d (?p + ks) (length (u32_bytes (word_of_int (rid_page (snd (es ! i)))) @ u32_bytes (rid_slot (snd (es ! i))))) =
      u32_bytes (word_of_int (rid_page (snd (es ! i)))) @ u32_bytes (rid_slot (snd (es ! i)))"
    using s(2) by (simp add: rid_enc_def)
  from slice_eq_append [OF this] b have "get_u32 d (?p + ks) = Some (word_of_int (rid_page (snd (es ! i))))"
    "get_u32 d (?p + ks + 4) = Some (rid_slot (snd (es ! i)))"
    by (simp_all add: slice_u32_bytes)
  then show "Leaf_ValueAt d (int i) = Some (snd (es ! i))"
    using D(7) ok by (simp add: Leaf_ValueAt_def Leaf_PairPtrAt_ok get_i32_def rid_ok_def sint_word_of_int_u32)
qed

section \<open>Writing a pair\<close>

lemma header_above:
  assumes "28 \<le> p" "p + length xs \<le> length d"
  shows "BP_GetKeySize (splice d p xs) = BP_GetKeySize d" "BP_GetSize (splice d p xs) = BP_GetSize d"
  using assms by (simp_all add: header_defs get_i32_at u32_at_splice_other)

lemma header_agree:
  assumes "\<And>x m. x + m \<le> base \<Longrightarrow> slice d' x m = slice d x m" "28 \<le> base" "length d' = length d"
  shows "BP_GetKeySize d' = BP_GetKeySize d" "BP_GetSize d' = BP_GetSize d"
  using assms by (simp_all add: header_defs get_i32_def get_u32_def mem_read_def)

lemma leaf_put_pair:
  assumes "BP_GetKeySize d = Some (int ks)" "32 + i * (ks + 8) + (ks + 8) \<le> length d" "length key = ks"
  shows "Leaf_SetKeyAt d (int i) key = Some (splice d (32 + i * (ks + 8)) key)"
    "Leaf_SetValueAt (splice d (32 + i * (ks + 8)) key) (int i) v = Some (splice d (32 + i * (ks + 8)) (key @ rid_enc v))"
proof -
  let ?p = "32 + i * (ks + 8)"
  have k: "slice key 0 ks = key" using assms(3) by auto
  show "Leaf_SetKeyAt d (int i) key = Some (splice d ?p key)"
    using assms k by (simp add: Leaf_SetKeyAt_def Leaf_PairPtrAt_ok mem_read_def mem_write_def)
  have ks: "BP_GetKeySize (splice d ?p key) = Some (int ks)" using assms by (subst header_above) simp_all
  let ?w = "u32_bytes (word_of_int (rid_page v))"
  have "put_i32 (splice d ?p key) (?p + ks) (rid_page v) = Some (splice d ?p (key @ ?w))"
    unfolding put_i32_def using assms by (intro put_next) simp_all
  moreover have "put_u32 (splice d ?p (key @ ?w)) (?p + ks + 4) (rid_slot v) = Some (splice d ?p ((key @ ?w) @ u32_bytes (rid_slot v)))"
    using assms by (intro put_next) simp_all
  ultimately show "Leaf_SetValueAt (splice d ?p key) (int i) v = Some (splice d ?p (key @ rid_enc v))"
    using ks by (simp add: Leaf_SetValueAt_def Leaf_PairPtrAt_ok rid_enc_def)
qed

lemma IncreaseSize_ok:
  "BP_GetSize d = Some n \<Longrightarrow> - 2147483648 \<le> n + a \<Longrightarrow> n + a < 2147483648 \<Longrightarrow> IncreaseSize d a = BP_SetSize d (n + a)"
  by (simp add: IncreaseSize_def ensure_def)

text \<open>The common part of \<^verbatim>\<open>Insert\<close>, \<^verbatim>\<open>CopyFirstFrom\<close> and \<^verbatim>\<open>CopyLastFrom\<close>.\<close>

definition leaf_room :: "nat \<Rightarrow> (generic_key \<times> rowid) list \<Rightarrow> nat \<Rightarrow> bool" where
  "leaf_room ks es n \<longleftrightarrow> 32 + (length es + n) * (ks + 8) \<le> PAGE_SIZE"

lemma leaf_room_size: "leaf_room ks es n \<Longrightarrow> length es + n \<le> 508"
proof -
  assume "leaf_room ks es n"
  moreover have "(length es + n) * 8 \<le> (length es + n) * (ks + 8)" by (intro mult_le_mono2) simp
  ultimately have "(length es + n) * 8 \<le> 4064" unfolding leaf_room_def PAGE_SIZE_def by linarith
  then show ?thesis by presburger
qed

lemma leaf_insert_at:
  assumes rep: "leaf_rep ks d es" and p: "p \<le> length es" and room: "leaf_room ks es 1" and kv: "length key = ks" "rid_ok v"
  obtains d' where
    "(do { d \<leftarrow> shift_up 32 (ks + 8) d (int (length es)) (length es - p); d \<leftarrow> Leaf_SetKeyAt d (int p) key;
           d \<leftarrow> Leaf_SetValueAt d (int p) v; IncreaseSize d 1 }) = Some d'"
    "leaf_rep ks d' (take p es @ (key, v) # drop p es)" "hdr_same 32 d d'"
proof -
  have nr: "node_rep LEAF_PAGE 32 rid_enc 8 ks d es" using rep by (simp add: leaf_rep_def)
  note D = node_repD [OF nr]
  have r: "32 + Suc (length es) * (ks + 8) \<le> PAGE_SIZE" "length es < PAGE_SIZE"
    using room leaf_room_size [OF room] by (simp_all add: leaf_room_def PAGE_SIZE_def)
  obtain d1 d2 where N: "shift_up 32 (ks + 8) d (int (length es)) (length es - p) = Some d1" "length d1 = PAGE_SIZE"
    "\<And>x m. x + m \<le> 32 \<Longrightarrow> slice d1 x m = slice d x m"
    "BP_SetSize (splice d1 (32 + p * (ks + 8)) (key @ rid_enc v)) (int (Suc (length es))) = Some d2"
    "node_rep LEAF_PAGE 32 rid_enc 8 ks d2 (take p es @ (key, v) # drop p es)" "hdr_same 32 d d2"
    by (rule node_insert_at [OF nr p r kv(1) length_rid_enc], rule that, blast+)
  have pb: "32 + p * (ks + 8) + (ks + 8) \<le> length d1" using chunk_bound [OF _ r(1), of p] p N(2) by simp
  have h: "BP_GetKeySize d1 = Some (int ks)" "BP_GetSize d1 = Some (int (length es))"
    using header_agree [OF N(3)] N(2) D(1,6,7) by simp_all
  note P = leaf_put_pair [OF h(1) pb kv(1)]
  have "IncreaseSize (splice d1 (32 + p * (ks + 8)) (key @ rid_enc v)) 1 = Some d2"
    using IncreaseSize_ok [of "splice d1 (32 + p * (ks + 8)) (key @ rid_enc v)" "int (length es)" 1] header_above(2) [of "32 + p * (ks + 8)" "key @ rid_enc v" d1]
      h(2) pb kv N(4) r(2) by (simp add: PAGE_SIZE_def add.commute)
  moreover have "leaf_rep ks d2 (take p es @ (key, v) # drop p es)"
    using N(5) rep kv(2) by (auto simp: leaf_rep_def dest: in_set_takeD in_set_dropD)
  ultimately show thesis using that N(1,6) P by simp
qed

lemma leaf_remove_at:
  assumes rep: "leaf_rep ks d es" and p: "p < length es"
  obtains d' where "(do { d \<leftarrow> shift_down 32 (ks + 8) d (int p) (length es - 1 - p); IncreaseSize d (- 1) }) = Some d'"
    "leaf_rep ks d' (take p es @ drop (Suc p) es)" "hdr_same 32 d d'"
proof -
  have nr: "node_rep LEAF_PAGE 32 rid_enc 8 ks d es" using rep by (simp add: leaf_rep_def)
  note D = node_repD [OF nr]
  obtain d1 d2 where N: "shift_down 32 (ks + 8) d (int p) (length es - 1 - p) = Some d1" "length d1 = PAGE_SIZE"
    "\<And>x m. x + m \<le> 32 \<Longrightarrow> slice d1 x m = slice d x m" "BP_SetSize d1 (int (length es - 1)) = Some d2"
    "node_rep LEAF_PAGE 32 rid_enc 8 ks d2 (take p es @ drop (Suc p) es)" "hdr_same 32 d d2"
    by (rule node_remove_at [OF nr p], rule that, blast+)
  have "BP_GetSize d1 = Some (int (length es))" using header_agree [OF N(3)] N(2) D(1,6) by simp
  then have "IncreaseSize d1 (- 1) = Some d2"
    using IncreaseSize_ok [of d1 "int (length es)" "- 1"] N(4) p D(5) by (simp add: PAGE_SIZE_def of_nat_diff)
  moreover have "leaf_rep ks d2 (take p es @ drop (Suc p) es)"
    using N(5) rep by (auto simp: leaf_rep_def dest: in_set_takeD in_set_dropD)
  ultimately show thesis using that N(1,6) by simp
qed

lemma leaf_append:
  assumes rep: "leaf_rep ks d es" "leaf_rep ks src xs" and room: "leaf_room ks es n" and n: "i + n \<le> length xs"
  obtains d' where "Leaf_CopyNFrom d src (32 + i * (ks + 8)) (int n) = Some d'" "leaf_rep ks d' (es @ take n (drop i xs))" "hdr_same 32 d d'"
proof -
  have nr: "node_rep LEAF_PAGE 32 rid_enc 8 ks d es" "node_rep LEAF_PAGE 32 rid_enc 8 ks src xs" using rep by (simp_all add: leaf_rep_def)
  note D = node_repD [OF nr(1)] and S = node_repD [OF nr(2)]
  let ?w = "ks + 8" and ?ys = "take n (drop i xs)"
  let ?c = "concat (map (enc_entry rid_enc) ?ys)"
  have ly: "length ?ys = n" using n by simp
  have ys: "length (fst e) = ks \<and> length (rid_enc (snd e)) = 8" if "e \<in> set ?ys" for e
    using that S(10) by (auto dest!: in_set_takeD in_set_dropD simp: in_set_conv_nth)
  have r: "32 + (length es + length ?ys) * ?w \<le> PAGE_SIZE" "length es + length ?ys \<le> PAGE_SIZE"
    using room leaf_room_size [OF room] by (simp_all only: ly leaf_room_def PAGE_SIZE_def)
  obtain d2 where N: "BP_SetSize (splice d (32 + length es * ?w) ?c) (int (length es + length ?ys)) = Some d2"
    "node_rep LEAF_PAGE 32 rid_enc 8 ks d2 (es @ ?ys)" "hdr_same 32 d d2"
    by (rule node_append [of LEAF_PAGE 32 rid_enc 8 ks d es ?ys, OF nr(1) ys r], assumption, rule that, blast+)
  have "length y = ?w" if "y \<in> set (map (enc_entry rid_enc) ?ys)" for y using that ys by (auto simp: enc_entry_def)
  from length_concat_const [OF this, of "map (enc_entry rid_enc) ?ys"] have lc: "length ?c = n * ?w" using ly by simp
  have rd: "slice src (32 + i * ?w) (n * ?w) = ?c" by (rule node_read [OF nr(2) n])
  have "32 + (i + n) * ?w \<le> PAGE_SIZE" using S(3) mult_le_mono1 [OF n, of ?w] by linarith
  then have sb: "32 + i * ?w + n * ?w \<le> length src" using S(1) by (simp add: algebra_simps)
  have db: "32 + length es * ?w + length ?c \<le> length d" using r(1) lc ly D(1) by (simp add: algebra_simps)
  have "IncreaseSize (splice d (32 + length es * ?w) ?c) (int n) = Some d2"
    using IncreaseSize_ok [of "splice d (32 + length es * ?w) ?c" "int (length es)" "int n"] header_above(2) [of "32 + length es * ?w" ?c d]
      db D(6) N(1) [unfolded ly] r(2) [unfolded ly] by (simp add: PAGE_SIZE_def)
  then have "Leaf_CopyNFrom d src (32 + i * ?w) (int n) = Some d2"
    using D(6,7) sb db rd lc by (simp add: Leaf_CopyNFrom_def leaf_pair_size_ok Leaf_PairPtrAt_ok mem_read_def mem_write_def)
  moreover have "leaf_rep ks d2 (es @ ?ys)"
    using N(2) rep by (auto simp: leaf_rep_def dest: in_set_takeD in_set_dropD)
  ultimately show thesis using that N(3) by blast
qed

section \<open>Searching\<close>

definition leaf_keys_ok :: "key_manager \<Rightarrow> (generic_key \<times> 'v) list \<Rightarrow> bool" where
  "leaf_keys_ok km es \<longleftrightarrow> sorted_wrt (key_lt (CompareKeys km)) (map fst es) \<and> (\<forall>k \<in> set (map fst es). orderable_key km k)"

lemma Leaf_KeyIndex_ok:
  assumes rep: "leaf_rep ks d es" and ok: "leaf_keys_ok km es" and key: "orderable_key km key"
  obtains p where "Leaf_KeyIndex (CompareKeys km) d key = Some (int p)" "p \<le> length es"
    "\<And>i. i < p \<Longrightarrow> key_lt (CompareKeys km) (fst (es ! i)) key" "\<And>i. p \<le> i \<Longrightarrow> i < length es \<Longrightarrow> \<not> key_lt (CompareKeys km) (fst (es ! i)) key"
proof -
  note D = node_repD [OF rep [unfolded leaf_rep_def, THEN conjunct1]]
  have at: "Leaf_KeyAt d (int i) = Some (map fst es ! i)" if "i < length (map fst es)" for i using Leaf_at(1) [OF rep] that by simp
  obtain p where p: "key_index_loop (CompareKeys km) (Leaf_KeyAt d) key 0 (int (length (map fst es))) = Some (int p)" "p \<le> length (map fst es)"
    "\<And>i. i < p \<Longrightarrow> key_lt (CompareKeys km) (map fst es ! i) key"
    "\<And>i. p \<le> i \<Longrightarrow> i < length (map fst es) \<Longrightarrow> \<not> key_lt (CompareKeys km) (map fst es ! i) key"
    by (rule km.key_index_ok [of "map fst es" "Leaf_KeyAt d" km key, OF at]) (use ok key that in \<open>auto simp: leaf_keys_ok_def\<close>)
  show thesis by (rule that [of p]) (use p D(6) in \<open>auto simp: Leaf_KeyIndex_def\<close>)
qed

lemma find_unique:
  assumes "i < length xs" "P (xs ! i)" "\<And>j. j < length xs \<Longrightarrow> P (xs ! j) \<Longrightarrow> j = i"
  shows "find P xs = Some (xs ! i)"
proof -
  have "\<not> P (xs ! j)" if "j < i" for j using assms(3) [of j] that assms(1) by auto
  then show ?thesis using assms(1,2) unfolding find_Some_iff by (intro exI [of _ i]) simp
qed

lemma leaf_eq_unique:
  assumes "leaf_keys_ok km es" "orderable_key km key" "i < length es" "j < length es"
    "key_eq (CompareKeys km) (fst (es ! i)) key" "key_eq (CompareKeys km) (fst (es ! j)) key"
  shows "i = j"
  using km.eq_unique [of km "map fst es" key i j] assms by (simp add: leaf_keys_ok_def)

lemma Leaf_Lookup_ok:
  assumes rep: "leaf_rep ks d es" and ok: "leaf_keys_ok km es" and key: "orderable_key km key"
  shows "Leaf_Lookup (CompareKeys km) d key = Some (map_option snd (find (\<lambda>e. key_eq (CompareKeys km) (fst e) key) es))"
proof -
  note D = node_repD [OF rep [unfolded leaf_rep_def, THEN conjunct1]]
  let ?l = "leaf_lookup_loop (CompareKeys km) (Leaf_KeyAt d) key 0 (int (length es) - 1)"
  have at: "Leaf_KeyAt d (int i) = Some (map fst es ! i)" if "i < length (map fst es)" for i using Leaf_at(1) [OF rep] that by simp
  have L: "case ?l of Some (Some i) \<Rightarrow> 0 \<le> i \<and> nat i < length es \<and> key_eq (CompareKeys km) (fst (es ! nat i)) key
     | Some None \<Rightarrow> \<forall>e \<in> set es. \<not> key_eq (CompareKeys km) (fst e) key | None \<Rightarrow> False"
    using km.leaf_lookup_ok [of "map fst es" "Leaf_KeyAt d" km key, OF at] ok key
    by (auto simp: leaf_keys_ok_def split: option.splits)
  show ?thesis
  proof (cases ?l)
    case None
    with L show ?thesis by simp
  next
    case (Some r)
    show ?thesis
    proof (cases r)
      case None
      with L Some have "find (\<lambda>e. key_eq (CompareKeys km) (fst e) key) es = None" by (auto simp: find_None_iff)
      with None Some D(6) show ?thesis by (simp add: Leaf_Lookup_def)
    next
      case Some': (Some i)
      with L Some have i: "0 \<le> i" "nat i < length es" "key_eq (CompareKeys km) (fst (es ! nat i)) key" by simp_all
      then have "find (\<lambda>e. key_eq (CompareKeys km) (fst e) key) es = Some (es ! nat i)"
        using leaf_eq_unique [OF ok key] by (intro find_unique) blast+
      with Some Some' D(6) Leaf_at(2) [OF rep i(2)] i(1) show ?thesis by (simp add: Leaf_Lookup_def)
    qed
  qed
qed

text \<open>Where a key that is not in the page belongs.\<close>

lemma sorted_insert_at:
  assumes ok: "leaf_keys_ok km es" and key: "orderable_key km key" and p: "p \<le> length es"
    "\<And>i. i < p \<Longrightarrow> key_lt (CompareKeys km) (fst (es ! i)) key" "\<And>i. p \<le> i \<Longrightarrow> i < length es \<Longrightarrow> \<not> key_lt (CompareKeys km) (fst (es ! i)) key"
    and new: "\<forall>e \<in> set es. \<not> key_eq (CompareKeys km) (fst e) key"
  shows "leaf_keys_ok km (take p es @ (key, v) # drop p es)"
proof -
  let ?lt = "key_lt (CompareKeys km)"
  have srt: "sorted_wrt ?lt (map fst (take p es))" "sorted_wrt ?lt (map fst (drop p es))"
    "\<forall>x \<in> set (map fst (take p es)). \<forall>y \<in> set (map fst (drop p es)). ?lt x y"
    using ok sorted_wrt_append [of ?lt "map fst (take p es)" "map fst (drop p es)"] by (simp_all add: leaf_keys_ok_def flip: map_append)
  have below: "?lt (fst e) key" if "e \<in> set (take p es)" for e
    using that p(2) by (auto simp: in_set_conv_nth)
  have above: "?lt key (fst e)" if e: "e \<in> set (drop p es)" for e
  proof -
    obtain i where i: "p \<le> i" "i < length es" "e = es ! i"
      using e by (auto simp: in_set_conv_nth) (metis add.commute le_add1 less_diff_conv)
    have "orderable_key km (fst e)" using ok i by (simp add: leaf_keys_ok_def)
    then show ?thesis
      using p(3) [OF i(1,2)] new i nth_mem [OF i(2)] km.eq_iff [of km "fst e" key] km.cmp_flip [of km key "fst e"] key by auto
  qed
  have "orderable_key km k" if "k \<in> set (map fst (take p es @ (key, v) # drop p es))" for k
    using that ok key by (auto simp: leaf_keys_ok_def dest: in_set_takeD in_set_dropD)
  moreover have "sorted_wrt ?lt (map fst (take p es @ (key, v) # drop p es))"
    using srt below above by (auto simp: sorted_wrt_append)
  ultimately show ?thesis by (simp add: leaf_keys_ok_def)
qed

text \<open>A page that \<^verbatim>\<open>Init\<close> has set up is an empty leaf.\<close>

lemma Leaf_Init_rep:
  assumes "length d = PAGE_SIZE" "ks \<le> PAGE_SIZE"
  obtains d' where "Leaf_Init d page_id parent_id (int ks) max_size = Some d'" "leaf_rep ks d' []"
    "BP_GetPageId d' = Some (sint (word_of_int page_id :: u32))" "BP_GetParentPageId d' = Some (sint (word_of_int parent_id :: u32))"
    "BP_GetMaxSize d' = Some (sint (word_of_int max_size :: u32))" "Leaf_GetNextPageId d' = Some INVALID_PAGE_ID"
proof
  let ?d1 = "splice d 24 (u32_bytes (word_of_int page_id))"
  let ?d2 = "splice ?d1 20 (u32_bytes (word_of_int parent_id))"
  let ?d3 = "splice ?d2 4 (u32_bytes (word_of_int (int ks)))"
  let ?d4 = "splice ?d3 16 (u32_bytes (word_of_int max_size))"
  let ?d5 = "splice ?d4 12 (u32_bytes (word_of_int 0))"
  let ?d6 = "splice ?d5 0 (u32_bytes 1)"
  let ?d7 = "splice ?d6 28 (u32_bytes (word_of_int INVALID_PAGE_ID))"
  have l: "length ?d1 = PAGE_SIZE" "length ?d2 = PAGE_SIZE" "length ?d3 = PAGE_SIZE" "length ?d4 = PAGE_SIZE" "length ?d5 = PAGE_SIZE"
    "length ?d6 = PAGE_SIZE" "length ?d7 = PAGE_SIZE" using assms(1) by (simp_all add: PAGE_SIZE_def)
  show "Leaf_Init d page_id parent_id (int ks) max_size = Some ?d7"
    using assms(1) l by (simp add: Leaf_Init_def Leaf_SetNextPageId_def header_defs put_i32_at put_u32_at PAGE_SIZE_def)
  show "leaf_rep ks ?d7 []"
    using l assms by (simp add: leaf_rep_def node_rep_def buf_simps PAGE_SIZE_def)
  show "BP_GetPageId ?d7 = Some (sint (word_of_int page_id :: u32))" "BP_GetParentPageId ?d7 = Some (sint (word_of_int parent_id :: u32))"
    "BP_GetMaxSize ?d7 = Some (sint (word_of_int max_size :: u32))" "Leaf_GetNextPageId ?d7 = Some INVALID_PAGE_ID"
    using l assms(1) by (simp_all add: header_defs Leaf_GetNextPageId_def get_i32_at buf_simps PAGE_SIZE_def INVALID_PAGE_ID_def)
qed

lemma Leaf_Insert_ok:
  assumes rep: "leaf_rep ks d es" and ok: "leaf_keys_ok km es" and key: "orderable_key km key" "length key = ks" and v: "rid_ok v"
    and room: "leaf_room ks es 1" and new: "\<forall>e \<in> set es. \<not> key_eq (CompareKeys km) (fst e) key"
  obtains d' p where "Leaf_Insert (CompareKeys km) d key v = Some (int (length es) + 1, d')" "leaf_rep ks d' (take p es @ (key, v) # drop p es)"
    "leaf_keys_ok km (take p es @ (key, v) # drop p es)" "p \<le> length es" "hdr_same 32 d d'"
proof -
  note D = node_repD [OF rep [unfolded leaf_rep_def, THEN conjunct1]]
  obtain p where p: "Leaf_KeyIndex (CompareKeys km) d key = Some (int p)" "p \<le> length es"
    "\<And>i. i < p \<Longrightarrow> key_lt (CompareKeys km) (fst (es ! i)) key" "\<And>i. p \<le> i \<Longrightarrow> i < length es \<Longrightarrow> \<not> key_lt (CompareKeys km) (fst (es ! i)) key"
    by (rule Leaf_KeyIndex_ok [OF rep ok key(1)], rule that, blast+)
  obtain d' where d': "(do { d \<leftarrow> shift_up 32 (ks + 8) d (int (length es)) (length es - p); d \<leftarrow> Leaf_SetKeyAt d (int p) key;
      d \<leftarrow> Leaf_SetValueAt d (int p) v; IncreaseSize d 1 }) = Some d'" "leaf_rep ks d' (take p es @ (key, v) # drop p es)" "hdr_same 32 d d'"
    by (rule leaf_insert_at [OF rep p(2) room key(2) v])
  let ?es = "take p es @ (key, v) # drop p es"
  have n: "BP_GetSize d' = Some (int (length es) + 1)"
    using node_repD(6) [OF d'(2) [unfolded leaf_rep_def, THEN conjunct1]] p(2) by simp
  have "nat (int (length es) - int p) = length es - p" by simp
  then have "Leaf_Insert (CompareKeys km) d key v = Some (int (length es) + 1, d')"
    using p(1) D(6,7) d'(1) n by (auto simp: Leaf_Insert_def leaf_pair_size_ok LEAF_PAGE_HEADER_SIZE_def bind_eq_Some_conv)
  then show thesis using that d'(2,3) p(2) sorted_insert_at [OF ok key(1) p(2-4) new, of v] by blast
qed

section \<open>Moving entries between leaves\<close>

lemma leaf_room_mono: "leaf_room ks rs n \<Longrightarrow> m \<le> n \<Longrightarrow> leaf_room ks rs m"
proof -
  assume r: "leaf_room ks rs n" and "m \<le> n"
  then have "(length rs + m) * (ks + 8) \<le> (length rs + n) * (ks + 8)" by (intro mult_le_mono1) simp
  with r show ?thesis unfolding leaf_room_def by linarith
qed

lemma leaf_truncate:
  assumes "leaf_rep ks d es" "n \<le> length es"
  obtains d' where "BP_SetSize d (int n) = Some d'" "leaf_rep ks d' (take n es)" "hdr_same 32 d d'"
proof -
  have nr: "node_rep LEAF_PAGE 32 rid_enc 8 ks d es" using assms(1) by (simp add: leaf_rep_def)
  obtain d' where "BP_SetSize d (int n) = Some d'" "node_rep LEAF_PAGE 32 rid_enc 8 ks d' (take n es)" "hdr_same 32 d d'"
    by (rule node_truncate [OF nr assms(2)])
  with assms(1) show thesis by (intro that) (auto simp: leaf_rep_def dest: in_set_takeD)
qed

lemma leaf_move_half:
  assumes d: "leaf_rep ks d es" and r: "leaf_rep ks r rs" and room: "leaf_room ks rs (length es)"
  shows "\<exists>d' r'. Leaf_MoveHalfTo d r = Some (d', r') \<and> leaf_rep ks d' (take (length es - length es div 2) es) \<and>
      leaf_rep ks r' (rs @ drop (length es - length es div 2) es) \<and> hdr_same 32 d d' \<and> hdr_same 32 r r'"
proof -
  note D = node_repD [OF d [unfolded leaf_rep_def, THEN conjunct1]]
  let ?m = "length es div 2" and ?i = "length es - length es div 2"
  have m: "?i + ?m \<le> length es" "?i \<le> length es" and half: "int_half (int (length es)) = int ?m" "int (length es) - int ?m = int ?i"
    by (simp_all add: int_half_def zdiv_int of_nat_diff)
  obtain r' where r': "Leaf_CopyNFrom r d (32 + ?i * (ks + 8)) (int ?m) = Some r'" "leaf_rep ks r' (rs @ take ?m (drop ?i es))" "hdr_same 32 r r'"
    by (rule leaf_append [OF r d leaf_room_mono [OF room] m(1)]) (use that in simp_all)
  obtain d' where d': "BP_SetSize d (int ?i) = Some d'" "leaf_rep ks d' (take ?i es)" "hdr_same 32 d d'" by (rule leaf_truncate [OF d m(2)])
  have "take ?m (drop ?i es) = drop ?i es" by simp
  moreover have "Leaf_MoveHalfTo d r = Some (d', r')"
    using D(6,7) r'(1) d'(1) Leaf_PairPtrAt_ok [OF D(7), of ?i] by (simp only: Leaf_MoveHalfTo_def bind.bind_lunit half Let_def prod.case)
  ultimately show ?thesis using r'(2,3) d'(2,3) by metis
qed

lemma leaf_move_all:
  assumes d: "leaf_rep ks d es" and r: "leaf_rep ks r rs" and room: "leaf_room ks rs (length es)"
  shows "\<exists>d' r'. Leaf_MoveAllTo d r = Some (d', r') \<and> leaf_rep ks d' [] \<and> leaf_rep ks r' (rs @ es) \<and>
      Leaf_GetNextPageId r' = Leaf_GetNextPageId d"
proof -
  note D = node_repD [OF d [unfolded leaf_rep_def, THEN conjunct1]]
  have z: "0 + length es \<le> length es" by simp
  obtain r1 where r1: "Leaf_CopyNFrom r d (32 + 0 * (ks + 8)) (int (length es)) = Some r1" "leaf_rep ks r1 (rs @ take (length es) (drop 0 es))" "hdr_same 32 r r1"
    by (rule leaf_append [OF r d room z])
  obtain d' where d': "BP_SetSize d (int 0) = Some d'" "leaf_rep ks d' (take 0 es)" "hdr_same 32 d d'" by (rule leaf_truncate [OF d le0])
  note R = node_repD [OF r1(2) [unfolded leaf_rep_def, THEN conjunct1]] and D' = node_repD [OF d'(2) [unfolded leaf_rep_def, THEN conjunct1]]
  let ?nx = "sint (u32_at d 28)"
  have nx: "Leaf_GetNextPageId d = Some ?nx" "Leaf_GetNextPageId d' = Some ?nx"
    using d'(3) D(1) D'(1) by (simp_all add: Leaf_GetNextPageId_def get_i32_at hdr_same_def PAGE_SIZE_def)
  define r2 where "r2 = splice r1 28 (u32_bytes (word_of_int ?nx))"
  have set_next: "Leaf_SetNextPageId r1 ?nx = Some r2" using R(1) by (simp add: Leaf_SetNextPageId_def put_i32_at r2_def PAGE_SIZE_def)
  have r2: "leaf_rep ks r2 (rs @ es)" "Leaf_GetNextPageId r2 = Some ?nx"
    using r1(2) R(1) by (simp_all add: leaf_rep_def node_rep_def r2_def buf_simps chunk_splice_below Leaf_GetNextPageId_def get_i32_at PAGE_SIZE_def sint_word_of_int_u32)
  note R2 = node_repD [OF r2(1) [unfolded leaf_rep_def, THEN conjunct1]]
  obtain r' where r': "BP_SetSize r2 (int (length (rs @ es))) = Some r'" "leaf_rep ks r' (take (length (rs @ es)) (rs @ es))" "hdr_same 32 r2 r'"
    by (rule leaf_truncate [OF r2(1) order_refl])
  have "length (rs @ es) \<le> PAGE_SIZE" using R2(5) .
  then have "IncreaseSize r2 0 = Some r'" using IncreaseSize_ok [OF R2(6), of 0] r'(1) by (simp add: PAGE_SIZE_def)
  moreover have "BP_GetSize d' = Some 0" using D'(6) by simp
  moreover have "Leaf_PairPtrAt d 0 = Some 32" using Leaf_PairPtrAt_ok [OF D(7), of 0] by simp
  ultimately have "Leaf_MoveAllTo d r = Some (d', r')"
    using D(6) r1(1) d'(1) nx set_next by (simp add: Leaf_MoveAllTo_def)
  moreover have "Leaf_GetNextPageId r' = Some ?nx"
    using r'(2,3) r2(2) R2(1) node_repD(1) [OF r'(2) [unfolded leaf_rep_def, THEN conjunct1]]
    by (simp add: Leaf_GetNextPageId_def get_i32_at hdr_same_def PAGE_SIZE_def)
  ultimately show ?thesis using d'(2) r'(2) nx by simp
qed

lemma leaf_move_first:
  assumes d: "leaf_rep ks d es" and r: "leaf_rep ks r rs" and room: "leaf_room ks rs (length es)" and ne: "es \<noteq> []"
  shows "\<exists>d' r'. Leaf_MoveFirstToEndOf d r = Some (d', r') \<and> leaf_rep ks d' (tl es) \<and> leaf_rep ks r' (rs @ [hd es]) \<and>
      hdr_same 32 d d' \<and> hdr_same 32 r r'"
proof -
  note D = node_repD [OF d [unfolded leaf_rep_def, THEN conjunct1]] and R = node_repD [OF r [unfolded leaf_rep_def, THEN conjunct1]]
  have pos: "0 < length es" using ne by simp
  have e: "length (fst (es ! 0)) = ks" "rid_ok (snd (es ! 0))" using D(10) pos d by (simp_all add: leaf_rep_def)
  have r1: "leaf_room ks rs 1" by (rule leaf_room_mono [OF room]) (use ne in \<open>cases es; simp\<close>)
  obtain r' where r': "(do { d \<leftarrow> shift_up 32 (ks + 8) r (int (length rs)) (length rs - length rs); d \<leftarrow> Leaf_SetKeyAt d (int (length rs)) (fst (es ! 0));
      d \<leftarrow> Leaf_SetValueAt d (int (length rs)) (snd (es ! 0)); IncreaseSize d 1 }) = Some r'"
    "leaf_rep ks r' (take (length rs) rs @ (fst (es ! 0), snd (es ! 0)) # drop (length rs) rs)" "hdr_same 32 r r'"
    by (rule leaf_insert_at [OF r order_refl r1 e])
  obtain d' where d': "(do { d \<leftarrow> shift_down 32 (ks + 8) d (int 0) (length es - 1 - 0); IncreaseSize d (- 1) }) = Some d'"
    "leaf_rep ks d' (take 0 es @ drop (Suc 0) es)" "hdr_same 32 d d'"
    by (rule leaf_remove_at [OF d pos])
  have rb: "32 + length rs * (ks + 8) + (ks + 8) \<le> length r" using r1 R(1) by (simp add: leaf_room_def)
  have sz: "BP_GetSize (splice r (32 + length rs * (ks + 8)) (fst (es ! 0))) = Some (int (length rs))"
    using header_above(2) [of "32 + length rs * (ks + 8)" "fst (es ! 0)" r] rb R(6) e(1) by simp
  have "Leaf_CopyLastFrom r (fst (es ! 0)) (snd (es ! 0)) = Some r'"
    using r'(1) R(6) leaf_put_pair(1) [OF R(7) rb e(1)] sz by (simp add: Leaf_CopyLastFrom_def)
  moreover have "nat (int (length es) - 1) = length es - 1" by simp
  ultimately have "Leaf_MoveFirstToEndOf d r = Some (d', r')"
    using D(6,7) d'(1) Leaf_at [OF d pos]
    by (auto simp: Leaf_MoveFirstToEndOf_def leaf_pair_size_ok LEAF_PAGE_HEADER_SIZE_def bind_eq_Some_conv)
  then show ?thesis using r'(2,3) d'(2,3) ne by (simp add: hd_conv_nth drop_Suc)
qed

lemma leaf_move_last:
  assumes d: "leaf_rep ks d es" and r: "leaf_rep ks r rs" and room: "leaf_room ks rs (length es)" and ne: "es \<noteq> []"
  shows "\<exists>d' r'. Leaf_MoveLastToFrontOf d r = Some (d', r') \<and> leaf_rep ks d' (butlast es) \<and> leaf_rep ks r' (last es # rs) \<and>
      hdr_same 32 d d' \<and> hdr_same 32 r r'"
proof -
  note D = node_repD [OF d [unfolded leaf_rep_def, THEN conjunct1]] and R = node_repD [OF r [unfolded leaf_rep_def, THEN conjunct1]]
  obtain l where ln: "length es = Suc l" using ne by (cases es) simp_all
  have pos: "l < length es" using ln by simp
  have e: "length (fst (es ! l)) = ks" "rid_ok (snd (es ! l))" using D(10) pos d by (simp_all add: leaf_rep_def)
  have r1: "leaf_room ks rs 1" by (rule leaf_room_mono [OF room]) (use ne in \<open>cases es; simp\<close>)
  obtain r' where r': "(do { d \<leftarrow> shift_up 32 (ks + 8) r (int (length rs)) (length rs - 0); d \<leftarrow> Leaf_SetKeyAt d (int 0) (fst (es ! l));
      d \<leftarrow> Leaf_SetValueAt d (int 0) (snd (es ! l)); IncreaseSize d 1 }) = Some r'"
    "leaf_rep ks r' (take 0 rs @ (fst (es ! l), snd (es ! l)) # drop 0 rs)" "hdr_same 32 r r'"
    by (rule leaf_insert_at [OF r le0 r1 e])
  obtain d' where d': "BP_SetSize d (int l) = Some d'" "leaf_rep ks d' (take l es)" "hdr_same 32 d d'"
    by (rule leaf_truncate [OF d less_imp_le [OF pos]])
  have l: "int (length es) - 1 = int l" using ln by simp
  have "Leaf_CopyFirstFrom r (fst (es ! l)) (snd (es ! l)) = Some r'"
    using r'(1) R(6,7) by (simp add: Leaf_CopyFirstFrom_def leaf_pair_size_ok LEAF_PAGE_HEADER_SIZE_def)
  moreover have "IncreaseSize d (- 1) = Some d'"
    using IncreaseSize_ok [OF D(6), of "- 1"] D(5) d'(1) by (simp add: ln PAGE_SIZE_def)
  ultimately have "Leaf_MoveLastToFrontOf d r = Some (d', r')"
    using D(6) l Leaf_at [OF d pos] by (simp add: Leaf_MoveLastToFrontOf_def)
  then show ?thesis using r'(2,3) d'(2,3) ne by (simp add: last_conv_nth butlast_conv_take ln)
qed

section \<open>A sample leaf\<close>

definition sample_key :: "u32 \<Rightarrow> generic_key" where
  "sample_key i = (case SerializeFromKey int_key_manager (key_row [Field_int i]) (km_key_schema int_key_manager) of Some k \<Rightarrow> k | None \<Rightarrow> [])"

lemma sample_key_rep: "key_rep int_key_manager (sample_key i) [Field_int i]"
  by (rule key_rep_serialize [OF int_key_ok(1,2), of i]) (simp add: sample_key_def)

lemma sample_key:
  "orderable_key int_key_manager (sample_key i)" "length (sample_key i) = 16"
  "key_eq (CompareKeys int_key_manager) (sample_key i) (sample_key j) \<longleftrightarrow> i = j"
proof -
  show "orderable_key int_key_manager (sample_key i)" using sample_key_rep int_key_ok(3) unfolding orderable_key_def by blast
  show "length (sample_key i) = 16" using sample_key_rep [of i] by (simp add: key_rep_def int_key_manager_def)
  have "sint i = sint j \<longleftrightarrow> i = j" by (auto intro: signed_word_eqI)
  then show "key_eq (CompareKeys int_key_manager) (sample_key i) (sample_key j) \<longleftrightarrow> i = j"
    using CompareKeys_ok [OF sample_key_rep sample_key_rep int_key_ok(3) int_key_ok(3), of i j]
    by (auto simp: key_eq_def field_less_def Field_int_def)
qed

definition sample_leaf0 :: buffer where
  "sample_leaf0 = (case Leaf_Init (replicate PAGE_SIZE 0) 7 INVALID_PAGE_ID 16 3 of Some d \<Rightarrow> d | None \<Rightarrow> [])"

definition sample_rid7 :: rowid where "sample_rid7 = \<lparr>rid_page = 5, rid_slot = 7\<rparr>"

definition sample_leaf1 :: buffer where
  "sample_leaf1 = (case Leaf_Insert (CompareKeys int_key_manager) sample_leaf0 (sample_key 7) sample_rid7 of Some (_, d) \<Rightarrow> d | None \<Rightarrow> [])"

lemma sample_leaf0: "leaf_rep 16 sample_leaf0 []" "leaf_keys_ok int_key_manager ([] :: (generic_key \<times> rowid) list)"
proof -
  show "leaf_keys_ok int_key_manager ([] :: (generic_key \<times> rowid) list)" by (simp add: leaf_keys_ok_def)
  have "16 \<le> PAGE_SIZE" by (simp add: PAGE_SIZE_def)
  then show "leaf_rep 16 sample_leaf0 []"
    by (rule Leaf_Init_rep [OF length_replicate [of PAGE_SIZE 0], of 16 7 INVALID_PAGE_ID 3]) (simp add: sample_leaf0_def)
qed

lemma sample_leaf1: "leaf_rep 16 sample_leaf1 [(sample_key 7, sample_rid7)]" "leaf_keys_ok int_key_manager [(sample_key 7, sample_rid7)]"
proof -
  have "rid_ok sample_rid7" "leaf_room 16 [] 1" "\<forall>e \<in> set ([] :: (generic_key \<times> rowid) list). \<not> key_eq (CompareKeys int_key_manager) (fst e) (sample_key 7)"
    by (simp_all add: rid_ok_def sample_rid7_def leaf_room_def PAGE_SIZE_def)
  from Leaf_Insert_ok [OF sample_leaf0 sample_key(1,2) this]
  show "leaf_rep 16 sample_leaf1 [(sample_key 7, sample_rid7)]" "leaf_keys_ok int_key_manager [(sample_key 7, sample_rid7)]"
    by (fastforce simp: sample_leaf1_def)+
qed

section \<open>Properties\<close>

text \<open>
  C22: lookup in a leaf. On a page that represents a strictly sorted list of entries the binary search of \<^verbatim>\<open>Lookup\<close> finds
  the row id stored under a key equal to the given one and answers false if there is none.
\<close>

theorem leaf_lookup_correct:
  assumes "leaf_rep ks d es" "leaf_keys_ok km es" "orderable_key km key"
  shows "Leaf_Lookup (CompareKeys km) d key = Some (map_option snd (find (\<lambda>e. key_eq (CompareKeys km) (fst e) key) es))"
  by (rule Leaf_Lookup_ok [OF assms])

theorem leaf_lookup_correct_witness:
  "Leaf_Lookup (CompareKeys int_key_manager) sample_leaf1 (sample_key 7) = Some (Some sample_rid7) \<and>
   Leaf_Lookup (CompareKeys int_key_manager) sample_leaf1 (sample_key 8) = Some None"
  using leaf_lookup_correct [OF sample_leaf1 sample_key(1)] by (simp add: sample_key(3))

text \<open>
  C21: insertion into a leaf. If the key is new and the page has room for one more pair, \<^verbatim>\<open>Insert\<close> returns the new size, the
  page then represents the old entries and the new one, still strictly sorted, and the header (sizes, parent, page id, next page)
  is otherwise unchanged.
\<close>

theorem leaf_insert_correct:
  assumes rep: "leaf_rep ks d es" and ok: "leaf_keys_ok km es" and key: "orderable_key km key" "length key = ks" and v: "rid_ok v"
    and room: "leaf_room ks es 1" and new: "\<forall>e \<in> set es. \<not> key_eq (CompareKeys km) (fst e) key"
  shows "\<exists>d' es'. Leaf_Insert (CompareKeys km) d key v = Some (int (length es) + 1, d') \<and> leaf_rep ks d' es' \<and> leaf_keys_ok km es' \<and>
    set es' = insert (key, v) (set es) \<and> length es' = Suc (length es) \<and> hdr_same 32 d d'"
proof -
  obtain d' p where I: "Leaf_Insert (CompareKeys km) d key v = Some (int (length es) + 1, d')" "leaf_rep ks d' (take p es @ (key, v) # drop p es)"
    "leaf_keys_ok km (take p es @ (key, v) # drop p es)" "p \<le> length es" "hdr_same 32 d d'"
    by (rule Leaf_Insert_ok [OF assms])
  have "set (take p es @ (key, v) # drop p es) = insert (key, v) (set es)" using set_append [of "take p es" "drop p es"] by simp
  moreover have "length (take p es @ (key, v) # drop p es) = Suc (length es)" using I(4) by simp
  ultimately show ?thesis using I by blast
qed

theorem leaf_insert_correct_witness:
  "\<exists>d' es'. Leaf_Insert (CompareKeys int_key_manager) sample_leaf1 (sample_key 3) sample_rid7 = Some (2, d') \<and> leaf_rep 16 d' es' \<and>
     set es' = {(sample_key 3, sample_rid7), (sample_key 7, sample_rid7)}"
proof -
  have "rid_ok sample_rid7" "leaf_room 16 [(sample_key 7, sample_rid7)] 1"
    "\<forall>e \<in> set [(sample_key 7, sample_rid7)]. \<not> key_eq (CompareKeys int_key_manager) (fst e) (sample_key 3)"
    by (simp_all add: rid_ok_def sample_rid7_def leaf_room_def PAGE_SIZE_def sample_key(3))
  from leaf_insert_correct [OF sample_leaf1 sample_key(1,2) this] show ?thesis by auto
qed

lemma filter_one_out:
  assumes "p < length xs" "P (xs ! p)" "\<And>i. i < length xs \<Longrightarrow> P (xs ! i) \<Longrightarrow> i = p"
  shows "filter (\<lambda>x. \<not> P x) xs = take p xs @ drop (Suc p) xs"
proof -
  have "\<not> P (xs ! i)" if "i < length xs" "i \<noteq> p" for i using assms(3) that by blast
  then have "filter (\<lambda>x. \<not> P x) (take p xs) = take p xs" "filter (\<lambda>x. \<not> P x) (drop (Suc p) xs) = drop (Suc p) xs"
    using assms(1) by (auto intro!: filter_True simp: in_set_conv_nth)
  moreover have "xs = take p xs @ xs ! p # drop (Suc p) xs" using assms(1) by (simp add: id_take_nth_drop)
  ultimately show ?thesis using assms(2) by (metis filter.simps(2) filter_append)
qed

text \<open>The keys of a leaf are ordered, so an equal one is at the place where the binary search ends.\<close>

lemma equal_key_position:
  assumes ok: "leaf_keys_ok km es" and key: "orderable_key km key"
    and below: "\<And>i. i < p \<Longrightarrow> key_lt (CompareKeys km) (fst (es ! i)) key"
    and above: "\<And>i. p \<le> i \<Longrightarrow> i < length es \<Longrightarrow> \<not> key_lt (CompareKeys km) (fst (es ! i)) key"
    and i: "i < length es" "key_eq (CompareKeys km) (fst (es ! i)) key"
  shows "i = p"
proof (rule ccontr)
  have v: "orderable_key km (fst (es ! i))" if "i < length es" for i using ok that by (simp add: leaf_keys_ok_def)
  have le: "\<not> key_lt (CompareKeys km) (fst (es ! i)) key" "key_le (CompareKeys km) (fst (es ! i)) key" using i(2) km.eq_iff [OF v [OF i(1)] key] by blast+
  assume "i \<noteq> p"
  then have pi: "p < i" using below [of i] le(1) by (cases "i < p") auto
  then have "key_lt (CompareKeys km) (fst (es ! p)) (fst (es ! i))" using ok i(1) by (simp add: leaf_keys_ok_def sorted_wrt_iff_nth_less)
  then have "key_lt (CompareKeys km) (fst (es ! p)) key" using km.lt_trans(1) [OF v v [OF i(1)] key] pi i(1) le(2) by auto
  then show False using above [of p] pi i(1) by simp
qed

text \<open>
  C24: removal from a leaf. \<^verbatim>\<open>RemoveAndDeleteRecord\<close> removes exactly the entry with an equal key and returns the new size; if
  there is none it returns -1 and leaves the page as it is.
\<close>

theorem leaf_remove_correct:
  assumes rep: "leaf_rep ks d es" and ok: "leaf_keys_ok km es" and key: "orderable_key km key"
  shows "if \<exists>e \<in> set es. key_eq (CompareKeys km) (fst e) key
    then \<exists>d'. Leaf_RemoveAndDeleteRecord (CompareKeys km) d key = Some (int (length es) - 1, d') \<and>
      leaf_rep ks d' (filter (\<lambda>e. \<not> key_eq (CompareKeys km) (fst e) key) es) \<and> hdr_same 32 d d'
    else Leaf_RemoveAndDeleteRecord (CompareKeys km) d key = Some (- 1, d)"
proof -
  note D = node_repD [OF rep [unfolded leaf_rep_def, THEN conjunct1]]
  let ?eq = "\<lambda>e. key_eq (CompareKeys km) (fst e) key"
  obtain p where p: "Leaf_KeyIndex (CompareKeys km) d key = Some (int p)" "p \<le> length es"
    "\<And>i. i < p \<Longrightarrow> key_lt (CompareKeys km) (fst (es ! i)) key" "\<And>i. p \<le> i \<Longrightarrow> i < length es \<Longrightarrow> \<not> key_lt (CompareKeys km) (fst (es ! i)) key"
    by (rule Leaf_KeyIndex_ok [OF rep ok key], rule that, blast+)
  have v: "orderable_key km (fst (es ! i))" if "i < length es" for i using ok that by (simp add: leaf_keys_ok_def)
  note only_p = equal_key_position [OF ok key p(3,4)]
  show ?thesis
  proof (cases "p < length es \<and> ?eq (es ! p)")
    case True
    obtain d' where d': "(do { d \<leftarrow> shift_down 32 (ks + 8) d (int p) (length es - 1 - p); IncreaseSize d (- 1) }) = Some d'"
      "leaf_rep ks d' (take p es @ drop (Suc p) es)" "hdr_same 32 d d'"
      by (rule leaf_remove_at [OF rep]) (use True that in auto)
    have f: "filter (\<lambda>e. \<not> ?eq e) es = take p es @ drop (Suc p) es"
      by (rule filter_one_out) (use True only_p in blast)+
    have n: "BP_GetSize d' = Some (int (length es) - 1)"
      using node_repD(6) [OF d'(2) [unfolded leaf_rep_def, THEN conjunct1]] True by (simp add: of_nat_diff)
    have "nat (int (length es) - 1 - int p) = length es - 1 - p" by simp
    then have "Leaf_RemoveAndDeleteRecord (CompareKeys km) d key = Some (int (length es) - 1, d')"
      using p(1) D(6,7) d'(1) n True Leaf_at(1) [OF rep, of p]
      by (auto simp: Leaf_RemoveAndDeleteRecord_def leaf_pair_size_ok LEAF_PAGE_HEADER_SIZE_def bind_eq_Some_conv key_eq_def)
    then show ?thesis using True d' f by auto
  next
    case False
    then have "\<not> ?eq (es ! i)" if "i < length es" for i using only_p that by blast
    then have "\<not> (\<exists>e \<in> set es. ?eq e)" by (metis in_set_conv_nth)
    moreover have "Leaf_RemoveAndDeleteRecord (CompareKeys km) d key = Some (- 1, d)"
    proof (cases "p < length es")
      case True
      obtain c where "CompareKeys km (fst (es ! p)) key = Some c" using km.cmp_total [OF v [OF True] key] by blast
      then show ?thesis using p(1) D(6) False True Leaf_at(1) [OF rep True] by (simp add: Leaf_RemoveAndDeleteRecord_def key_eq_def)
    qed (use p(1) D(6) in \<open>simp add: Leaf_RemoveAndDeleteRecord_def\<close>)
    ultimately show ?thesis by simp
  qed
qed

theorem leaf_remove_correct_witness:
  "(\<exists>d'. Leaf_RemoveAndDeleteRecord (CompareKeys int_key_manager) sample_leaf1 (sample_key 7) = Some (0, d') \<and> leaf_rep 16 d' []) \<and>
   Leaf_RemoveAndDeleteRecord (CompareKeys int_key_manager) sample_leaf1 (sample_key 8) = Some (- 1, sample_leaf1)"
  using leaf_remove_correct [OF sample_leaf1 sample_key(1), of 7] leaf_remove_correct [OF sample_leaf1 sample_key(1), of 8]
  by (auto simp: sample_key(3))

text \<open>
  Split, merge and redistribution of leaves. \<^verbatim>\<open>MoveHalfTo\<close> moves the upper half of the entries behind those of the
  recipient, \<^verbatim>\<open>MoveAllTo\<close> all of them together with the link to the next leaf, \<^verbatim>\<open>MoveFirstToEndOf\<close> and \<^verbatim>\<open>MoveLastToFrontOf\<close>
  one entry each; no entry is lost, changed or duplicated, whenever the recipient has room.
\<close>

theorem leaf_moves_correct:
  assumes d: "leaf_rep ks d es" and r: "leaf_rep ks r rs" and room: "leaf_room ks rs (length es)"
  shows "(\<exists>d' r'. Leaf_MoveHalfTo d r = Some (d', r') \<and> leaf_rep ks d' (take (length es - length es div 2) es) \<and>
      leaf_rep ks r' (rs @ drop (length es - length es div 2) es) \<and> hdr_same 32 d d' \<and> hdr_same 32 r r') \<and>
    (\<exists>d' r'. Leaf_MoveAllTo d r = Some (d', r') \<and> leaf_rep ks d' [] \<and> leaf_rep ks r' (rs @ es) \<and>
      Leaf_GetNextPageId r' = Leaf_GetNextPageId d) \<and>
    (es \<noteq> [] \<longrightarrow> (\<exists>d' r'. Leaf_MoveFirstToEndOf d r = Some (d', r') \<and> leaf_rep ks d' (tl es) \<and> leaf_rep ks r' (rs @ [hd es]) \<and>
      hdr_same 32 d d' \<and> hdr_same 32 r r')) \<and>
    (es \<noteq> [] \<longrightarrow> (\<exists>d' r'. Leaf_MoveLastToFrontOf d r = Some (d', r') \<and> leaf_rep ks d' (butlast es) \<and> leaf_rep ks r' (last es # rs) \<and>
      hdr_same 32 d d' \<and> hdr_same 32 r r'))"
  using leaf_move_half [OF d r room] leaf_move_all [OF d r room] leaf_move_first [OF d r room] leaf_move_last [OF d r room] by blast

theorem leaf_moves_correct_witness:
  "\<exists>d' r'. Leaf_MoveAllTo sample_leaf1 sample_leaf0 = Some (d', r') \<and> leaf_rep 16 d' [] \<and> leaf_rep 16 r' [(sample_key 7, sample_rid7)]"
proof -
  have "leaf_room 16 [] (length [(sample_key 7, sample_rid7)])" by (simp add: leaf_room_def PAGE_SIZE_def)
  from leaf_moves_correct [OF sample_leaf1(1) sample_leaf0(1) this] show ?thesis by auto
qed

end
