(* ===== verification/Internal_Page.thy ===== *)
theory Internal_Page
  imports Leaf_Page
begin

text \<open>
  Internal pages of the B+ tree: \<^verbatim>\<open>BPlusTreeInternalPage\<close> of \<^verbatim>\<open>include/page/b_plus_tree_internal_page.h\<close> and
  \<^verbatim>\<open>page/b_plus_tree_internal_page.cpp\<close>, on the bytes of the page. The operations that hand children to another page also set the
  parent of each child through the buffer pool; here they return the page ids of those children, in the order of the code, and the
  tree performs the adoption.
\<close>

section \<open>Model\<close>

definition INTERNAL_PAGE_HEADER_SIZE :: nat where "INTERNAL_PAGE_HEADER_SIZE = 28"

definition int_pair_size :: "buffer \<Rightarrow> nat option" where
  "int_pair_size d = do { ks \<leftarrow> BP_GetKeySize d; ensure (0 \<le> ks); Some (nat ks + 4) }"

definition Int_Init :: "buffer \<Rightarrow> int \<Rightarrow> int \<Rightarrow> int \<Rightarrow> int \<Rightarrow> buffer option" where
  "Int_Init d page_id parent_id key_size max_size = do {
     d \<leftarrow> BP_SetPageId d page_id;
     d \<leftarrow> BP_SetParentPageId d parent_id;
     d \<leftarrow> BP_SetKeySize d key_size;
     d \<leftarrow> BP_SetMaxSize d max_size;
     d \<leftarrow> BP_SetSize d 0;
     SetPageType d INTERNAL_PAGE }"

definition Int_PairPtrAt :: "buffer \<Rightarrow> int \<Rightarrow> nat option" where
  "Int_PairPtrAt d index = do { psz \<leftarrow> int_pair_size d; pair_pos INTERNAL_PAGE_HEADER_SIZE psz index }"

definition Int_KeyAt :: "buffer \<Rightarrow> int \<Rightarrow> generic_key option" where
  "Int_KeyAt d index = do { ks \<leftarrow> BP_GetKeySize d; p \<leftarrow> Int_PairPtrAt d index; mem_read d p (nat ks) }"

definition Int_SetKeyAt :: "buffer \<Rightarrow> int \<Rightarrow> generic_key \<Rightarrow> buffer option" where
  "Int_SetKeyAt d index key = do {
     ks \<leftarrow> BP_GetKeySize d;
     p \<leftarrow> Int_PairPtrAt d index;
     k \<leftarrow> mem_read key 0 (nat ks);
     mem_write d p k }"

definition Int_ValueAt :: "buffer \<Rightarrow> int \<Rightarrow> int option" where
  "Int_ValueAt d index = do { ks \<leftarrow> BP_GetKeySize d; p \<leftarrow> Int_PairPtrAt d index; get_i32 d (p + nat ks) }"

definition Int_SetValueAt :: "buffer \<Rightarrow> int \<Rightarrow> int \<Rightarrow> buffer option" where
  "Int_SetValueAt d index value = do { ks \<leftarrow> BP_GetKeySize d; p \<leftarrow> Int_PairPtrAt d index; put_i32 d (p + nat ks) value }"

fun value_index_from :: "buffer \<Rightarrow> int \<Rightarrow> int \<Rightarrow> nat \<Rightarrow> int option" where
  "value_index_from d value i 0 = Some (- 1)"
| "value_index_from d value i (Suc n) = do {
     v \<leftarrow> Int_ValueAt d i;
     if v = value then Some i else value_index_from d value (i + 1) n }"

definition Int_ValueIndex :: "buffer \<Rightarrow> int \<Rightarrow> int option" where
  "Int_ValueIndex d value = do { size \<leftarrow> BP_GetSize d; value_index_from d value 0 (nat size) }"

text \<open>\<open>(dest, p)\<close> and \<open>(src, q)\<close> are the pointers; the source has no caller of this helper.\<close>

definition Int_PairCopy :: "buffer \<Rightarrow> buffer \<Rightarrow> nat \<Rightarrow> buffer \<Rightarrow> nat \<Rightarrow> int \<Rightarrow> buffer option" where
  "Int_PairCopy d dest p src q pair_num = do {
     psz \<leftarrow> int_pair_size d;
     ensure (0 \<le> pair_num);
     xs \<leftarrow> mem_read src q (nat pair_num * psz);
     mem_write dest p xs }"

definition Int_Lookup :: "(generic_key \<Rightarrow> generic_key \<Rightarrow> int option) \<Rightarrow> buffer \<Rightarrow> generic_key \<Rightarrow> int option" where
  "Int_Lookup cmp d key = do {
     k1 \<leftarrow> Int_KeyAt d 1;
     c1 \<leftarrow> cmp k1 key;
     if c1 > 0 then Int_ValueAt d 0
     else do {
       size \<leftarrow> BP_GetSize d;
       kn \<leftarrow> Int_KeyAt d (size - 1);
       cn \<leftarrow> cmp kn key;
       if cn \<le> 0 then Int_ValueAt d (size - 1)
       else do {
         i \<leftarrow> child_loop cmp (Int_KeyAt d) key 1 (size - 2);
         Int_ValueAt d i } } }"

definition PopulateNewRoot :: "buffer \<Rightarrow> int \<Rightarrow> generic_key \<Rightarrow> int \<Rightarrow> buffer option" where
  "PopulateNewRoot d old_value new_key new_value = do {
     d \<leftarrow> BP_SetSize d 2;
     d \<leftarrow> Int_SetValueAt d 0 old_value;
     d \<leftarrow> Int_SetKeyAt d 1 new_key;
     Int_SetValueAt d 1 new_value }"

definition InsertNodeAfter :: "buffer \<Rightarrow> int \<Rightarrow> generic_key \<Rightarrow> int \<Rightarrow> (int \<times> buffer) option" where
  "InsertNodeAfter d old_value new_key new_value = do {
     i \<leftarrow> Int_ValueIndex d old_value;
     let index = i + 1;
     size \<leftarrow> BP_GetSize d;
     psz \<leftarrow> int_pair_size d;
     d \<leftarrow> shift_up INTERNAL_PAGE_HEADER_SIZE psz d size (nat (size - index));
     d \<leftarrow> Int_SetKeyAt d index new_key;
     d \<leftarrow> Int_SetValueAt d index new_value;
     d \<leftarrow> IncreaseSize d 1;
     n \<leftarrow> BP_GetSize d;
     Some (n, d) }"

text \<open>The child page ids are read from the source after the copy.\<close>

fun child_ids :: "buffer \<Rightarrow> nat \<Rightarrow> nat \<Rightarrow> nat \<Rightarrow> nat \<Rightarrow> int list option" where
  "child_ids src p psz voff 0 = Some []"
| "child_ids src p psz voff (Suc n) = do {
     c \<leftarrow> get_i32 src (p + voff);
     cs \<leftarrow> child_ids src (p + psz) psz voff n;
     Some (c # cs) }"

definition Int_CopyNFrom :: "buffer \<Rightarrow> buffer \<Rightarrow> nat \<Rightarrow> int \<Rightarrow> (buffer \<times> int list) option" where
  "Int_CopyNFrom d src p sz = do {
     ks \<leftarrow> BP_GetKeySize d;
     psz \<leftarrow> int_pair_size d;
     n \<leftarrow> BP_GetSize d;
     q \<leftarrow> Int_PairPtrAt d n;
     ensure (0 \<le> sz);
     xs \<leftarrow> mem_read src p (nat sz * psz);
     d \<leftarrow> mem_write d q xs;
     d \<leftarrow> IncreaseSize d sz;
     cs \<leftarrow> child_ids src p psz (nat ks) (nat sz);
     Some (d, cs) }"

text \<open>The moves return this page, the recipient and the children to adopt.\<close>

definition Int_MoveHalfTo :: "buffer \<Rightarrow> buffer \<Rightarrow> (buffer \<times> buffer \<times> int list) option" where
  "Int_MoveHalfTo d recipient = do {
     size \<leftarrow> BP_GetSize d;
     let move_size = int_half size;
     p \<leftarrow> Int_PairPtrAt d (size - move_size);
     (recipient, cs) \<leftarrow> Int_CopyNFrom recipient d p move_size;
     d \<leftarrow> BP_SetSize d (size - move_size);
     Some (d, recipient, cs) }"

definition Int_Remove :: "buffer \<Rightarrow> int \<Rightarrow> buffer option" where
  "Int_Remove d index = do {
     size \<leftarrow> BP_GetSize d;
     psz \<leftarrow> int_pair_size d;
     d \<leftarrow> shift_down INTERNAL_PAGE_HEADER_SIZE psz d (index + 1) (nat (size - 1 - (index + 1)));
     IncreaseSize d (- 1) }"

definition RemoveAndReturnOnlyChild :: "buffer \<Rightarrow> (int \<times> buffer) option" where
  "RemoveAndReturnOnlyChild d = do { value \<leftarrow> Int_ValueAt d 0; d \<leftarrow> BP_SetSize d 0; Some (value, d) }"

text \<open>\<open>middle_key\<close> is not used.\<close>

definition Int_MoveAllTo :: "buffer \<Rightarrow> buffer \<Rightarrow> generic_key \<Rightarrow> (buffer \<times> buffer \<times> int list) option" where
  "Int_MoveAllTo d recipient middle_key = do {
     p \<leftarrow> Int_PairPtrAt d 0;
     size \<leftarrow> BP_GetSize d;
     (recipient, cs) \<leftarrow> Int_CopyNFrom recipient d p size;
     d \<leftarrow> BP_SetSize d 0;
     Some (d, recipient, cs) }"

definition Int_CopyLastFrom :: "buffer \<Rightarrow> generic_key \<Rightarrow> int \<Rightarrow> (buffer \<times> int list) option" where
  "Int_CopyLastFrom d key value = do {
     d \<leftarrow> IncreaseSize d 1;
     n \<leftarrow> BP_GetSize d;
     d \<leftarrow> Int_SetKeyAt d (n - 1) key;
     n \<leftarrow> BP_GetSize d;
     d \<leftarrow> Int_SetValueAt d (n - 1) value;
     Some (d, [value]) }"

definition Int_MoveFirstToEndOf :: "buffer \<Rightarrow> buffer \<Rightarrow> generic_key \<Rightarrow> (buffer \<times> buffer \<times> int list) option" where
  "Int_MoveFirstToEndOf d recipient middle_key = do {
     v \<leftarrow> Int_ValueAt d 0;
     (recipient, cs) \<leftarrow> Int_CopyLastFrom recipient middle_key v;
     d \<leftarrow> Int_Remove d (- 1);
     Some (d, recipient, cs) }"

definition Int_CopyFirstFrom :: "buffer \<Rightarrow> int \<Rightarrow> (buffer \<times> int list) option" where
  "Int_CopyFirstFrom d value = do {
     d \<leftarrow> IncreaseSize d 1;
     n \<leftarrow> BP_GetSize d;
     psz \<leftarrow> int_pair_size d;
     d \<leftarrow> shift_up INTERNAL_PAGE_HEADER_SIZE psz d (n - 1) (nat (n - 1));
     d \<leftarrow> Int_SetValueAt d 0 value;
     Some (d, [value]) }"

definition Int_MoveLastToFrontOf :: "buffer \<Rightarrow> buffer \<Rightarrow> generic_key \<Rightarrow> (buffer \<times> buffer \<times> int list) option" where
  "Int_MoveLastToFrontOf d recipient middle_key = do {
     size \<leftarrow> BP_GetSize d;
     v \<leftarrow> Int_ValueAt d (size - 1);
     (recipient, cs) \<leftarrow> Int_CopyFirstFrom recipient v;
     k \<leftarrow> Int_KeyAt d (size - 1);
     recipient \<leftarrow> Int_SetKeyAt recipient 0 k;
     d \<leftarrow> Int_Remove d (size - 2);
     Some (d, recipient, cs) }"

section \<open>Internal pages as lists of entries\<close>

definition pid_enc :: "int \<Rightarrow> byte list" where "pid_enc p = u32_bytes (word_of_int p)"

definition pid_ok :: "int \<Rightarrow> bool" where "pid_ok p \<longleftrightarrow> - 2147483648 \<le> p \<and> p < 2147483648"

definition int_rep :: "nat \<Rightarrow> buffer \<Rightarrow> (generic_key \<times> int) list \<Rightarrow> bool" where
  "int_rep ks d es \<longleftrightarrow> node_rep INTERNAL_PAGE 28 pid_enc 4 ks d es \<and> (\<forall>e \<in> set es. pid_ok (snd e))"

lemma length_pid_enc [simp]: "length (pid_enc v) = 4"
  by (simp add: pid_enc_def)

lemma int_pair_size_ok: "BP_GetKeySize d = Some (int ks) \<Longrightarrow> int_pair_size d = Some (ks + 4)"
  by (simp add: int_pair_size_def)

lemma Int_PairPtrAt_ok: "BP_GetKeySize d = Some (int ks) \<Longrightarrow> Int_PairPtrAt d (int i) = Some (28 + i * (ks + 4))"
  by (simp add: Int_PairPtrAt_def int_pair_size_ok pair_pos_def INTERNAL_PAGE_HEADER_SIZE_def)

lemma Int_at:
  assumes rep: "int_rep ks d es" and i: "i < length es"
  shows "Int_KeyAt d (int i) = Some (fst (es ! i))" "Int_ValueAt d (int i) = Some (snd (es ! i))"
proof -
  have nr: "node_rep INTERNAL_PAGE 28 pid_enc 4 ks d es" and ok: "pid_ok (snd (es ! i))" using rep i by (simp_all add: int_rep_def)
  note D = node_repD [OF nr]
  let ?p = "28 + i * (ks + 4)"
  have b: "?p + (ks + 4) \<le> length d" using chunk_bound [OF i D(3)] D(1) by simp
  have s: "slice d ?p ks = fst (es ! i)" "slice d (?p + ks) 4 = pid_enc (snd (es ! i))"
    using chunk_parts [OF D(9) [OF i] D(10,11) [OF i] b] by simp_all
  show "Int_KeyAt d (int i) = Some (fst (es ! i))" using D(7) b s(1) by (simp add: Int_KeyAt_def Int_PairPtrAt_ok mem_read_def)
  have "get_u32 d (?p + ks) = Some (word_of_int (snd (es ! i)))"
    using s(2) b by (simp add: slice_u32_bytes pid_enc_def)
  then show "Int_ValueAt d (int i) = Some (snd (es ! i))"
    using D(7) ok by (simp add: Int_ValueAt_def Int_PairPtrAt_ok get_i32_def pid_ok_def sint_word_of_int_u32)
qed

lemma int_put_pair:
  assumes "BP_GetKeySize d = Some (int ks)" "28 + i * (ks + 4) + (ks + 4) \<le> length d" "length key = ks"
  shows "Int_SetKeyAt d (int i) key = Some (splice d (28 + i * (ks + 4)) key)"
    "Int_SetValueAt (splice d (28 + i * (ks + 4)) key) (int i) v = Some (splice d (28 + i * (ks + 4)) (key @ pid_enc v))"
    "Int_SetValueAt d (int i) v = Some (splice d (28 + i * (ks + 4) + ks) (pid_enc v))"
proof -
  let ?p = "28 + i * (ks + 4)"
  have k: "slice key 0 ks = key" using assms(3) by auto
  show "Int_SetKeyAt d (int i) key = Some (splice d ?p key)"
    using assms k by (simp add: Int_SetKeyAt_def Int_PairPtrAt_ok mem_read_def mem_write_def)
  have ks: "BP_GetKeySize (splice d ?p key) = Some (int ks)" using assms by (subst header_above) simp_all
  have "put_i32 (splice d ?p key) (?p + ks) v = Some (splice d ?p (key @ pid_enc v))"
    unfolding put_i32_def pid_enc_def using assms by (intro put_next) simp_all
  then show "Int_SetValueAt (splice d ?p key) (int i) v = Some (splice d ?p (key @ pid_enc v))"
    using ks by (simp add: Int_SetValueAt_def Int_PairPtrAt_ok)
  show "Int_SetValueAt d (int i) v = Some (splice d (?p + ks) (pid_enc v))"
    using assms by (simp add: Int_SetValueAt_def Int_PairPtrAt_ok put_i32_at pid_enc_def)
qed

definition int_room :: "nat \<Rightarrow> (generic_key \<times> int) list \<Rightarrow> nat \<Rightarrow> bool" where
  "int_room ks es n \<longleftrightarrow> 28 + (length es + n) * (ks + 4) \<le> PAGE_SIZE"

lemma int_room_size: "int_room ks es n \<Longrightarrow> length es + n \<le> 1017"
proof -
  assume "int_room ks es n"
  moreover have "(length es + n) * 4 \<le> (length es + n) * (ks + 4)" by (intro mult_le_mono2) simp
  ultimately have "(length es + n) * 4 \<le> 4068" unfolding int_room_def PAGE_SIZE_def by linarith
  then show ?thesis by presburger
qed

lemma int_room_mono: "int_room ks rs n \<Longrightarrow> m \<le> n \<Longrightarrow> int_room ks rs m"
proof -
  assume r: "int_room ks rs n" and "m \<le> n"
  then have "(length rs + m) * (ks + 4) \<le> (length rs + n) * (ks + 4)" by (intro mult_le_mono1) simp
  with r show ?thesis unfolding int_room_def by linarith
qed

section \<open>Searching\<close>

definition int_keys_ok :: "key_manager \<Rightarrow> (generic_key \<times> 'v) list \<Rightarrow> bool" where
  "int_keys_ok km es \<longleftrightarrow> leaf_keys_ok km (tl es)"

text \<open>The child to descend to: the number of separators, from index 1 on, that are not above the key.\<close>

definition child_index :: "key_manager \<Rightarrow> generic_key \<Rightarrow> (generic_key \<times> 'v) list \<Rightarrow> nat" where
  "child_index km key es = length (filter (\<lambda>e. key_le (CompareKeys km) (fst e) key) (tl es))"

lemma length_filter_prefix:
  assumes "p \<le> length xs" "\<And>i. i < length xs \<Longrightarrow> P (xs ! i) \<longleftrightarrow> i < p"
  shows "length (filter P xs) = p"
proof -
  have "{i. i < length xs \<and> P (xs ! i)} = {..<p}" using assms by auto
  then show ?thesis by (simp add: length_filter_conv_card)
qed

lemma child_index_split:
  assumes ok: "int_keys_ok km es" and key: "orderable_key km key"
  shows "child_index km key es \<le> length es - 1"
    "1 \<le> i \<Longrightarrow> i < length es \<Longrightarrow> key_le (CompareKeys km) (fst (es ! i)) key \<longleftrightarrow> i \<le> child_index km key es"
proof -
  let ?P = "\<lambda>e. key_le (CompareKeys km) (fst e) key" and ?t = "tl es"
  define p where "p = length (takeWhile ?P ?t)"
  have p: "p \<le> length ?t" unfolding p_def by (rule length_takeWhile_le)
  have srt: "key_lt (CompareKeys km) (fst (?t ! i)) (fst (?t ! j))" if "i < j" "j < length ?t" for i j
    using ok that by (simp add: int_keys_ok_def leaf_keys_ok_def sorted_wrt_iff_nth_less)
  have v: "orderable_key km (fst (?t ! i))" if "i < length ?t" for i using ok that by (simp add: int_keys_ok_def leaf_keys_ok_def)
  have split: "?P (?t ! i) \<longleftrightarrow> i < p" if i: "i < length ?t" for i
  proof
    assume Pi: "?P (?t ! i)"
    show "i < p"
    proof (rule ccontr)
      assume ni: "\<not> i < p"
      then have pl: "p < length ?t" using i by simp
      then have np: "\<not> ?P (?t ! p)" using nth_length_takeWhile [of ?P ?t] by (simp add: p_def)
      with Pi ni have "p < i" by (cases "p = i") auto
      with np show False using km.lt_trans(1) [OF v [OF pl] v [OF i] key srt [OF _ i] Pi] km.lt_le by blast
    qed
  next
    assume "i < p"
    then show "?P (?t ! i)" using takeWhile_nth [of i ?P ?t] set_takeWhileD [of _ ?P ?t] unfolding p_def by (metis nth_mem)
  qed
  have c: "child_index km key es = p" unfolding child_index_def by (rule length_filter_prefix [OF p split])
  show "child_index km key es \<le> length es - 1" using p c by simp
  show "?P (es ! i) \<longleftrightarrow> i \<le> child_index km key es" if "1 \<le> i" "i < length es"
  proof -
    obtain j where j: "i = Suc j" using \<open>1 \<le> i\<close> not0_implies_Suc [of i] by auto
    have jl: "j < length ?t" using that(2) j by simp
    then show ?thesis using split [OF jl] nth_tl [OF jl] by (simp add: j c Suc_le_eq)
  qed
qed

lemma Int_Lookup_ok:
  assumes rep: "int_rep ks d es" and two: "2 \<le> length es" and ok: "int_keys_ok km es" and key: "orderable_key km key"
  shows "Int_Lookup (CompareKeys km) d key = Some (snd (es ! child_index km key es))"
proof -
  note D = node_repD [OF rep [unfolded int_rep_def, THEN conjunct1]]
  define p where "p = child_index km key es"
  obtain n where n: "length es = Suc (Suc n)" using two by (metis Suc_le_D numeral_2_eq_2 Suc_le_mono)
  have p: "p \<le> Suc n" using child_index_split(1) [OF ok key] n by (simp add: p_def)
  note s = child_index_split(2) [OF ok key, folded p_def]
  have v: "orderable_key km (map fst es ! i)" if i: "1 \<le> i" "i < length (map fst es)" for i
  proof -
    obtain j where j: "i = Suc j" using i(1) by (cases i) simp_all
    have jl: "j < length (tl es)" using i(2) j by simp
    from nth_mem [OF this] show ?thesis using ok nth_tl [OF jl] j i by (simp add: int_keys_ok_def leaf_keys_ok_def)
  qed
  have cmp: "\<exists>c. CompareKeys km (fst (es ! i)) key = Some c \<and> (c \<le> 0 \<longleftrightarrow> i \<le> p)" if i: "1 \<le> i" "i < length es" for i
  proof -
    have "orderable_key km (fst (es ! i))" using v [of i] i by simp
    from km.cmp_cases [OF this key] s [OF i] show ?thesis by metis
  qed
  obtain c1 where c1: "CompareKeys km (fst (es ! 1)) key = Some c1" "c1 \<le> 0 \<longleftrightarrow> 1 \<le> p" using cmp [of 1] n by auto
  obtain cn where cn: "CompareKeys km (fst (es ! Suc n)) key = Some cn" "cn \<le> 0 \<longleftrightarrow> Suc n \<le> p" using cmp [of "Suc n"] n by auto
  have at: "Int_KeyAt d 1 = Some (fst (es ! 1))" "Int_KeyAt d (1 + int n) = Some (fst (es ! Suc n))"
    using Int_at(1) [OF rep, of 1] Int_at(1) [OF rep, of "Suc n"] n by simp_all
  have val: "Int_ValueAt d (int p) = Some (snd (es ! p))" using Int_at(2) [OF rep, of p] p n by simp
  consider "p = 0" | "p = Suc n" | "1 \<le> p" "p \<le> n" using p by linarith
  then have "Int_Lookup (CompareKeys km) d key = Some (snd (es ! p))"
  proof cases
    case 1
    then show ?thesis using at(1) c1 val by (simp add: Int_Lookup_def)
  next
    case 2
    then show ?thesis using at c1 cn val D(6) n by (simp add: Int_Lookup_def)
  next
    case 3
    have "child_loop (CompareKeys km) (Int_KeyAt d) key (int 1) (int n) = Some (int p)"
    proof (rule km.child_loop_ok [of "map fst es" _ km])
      show "Int_KeyAt d (int i) = Some (map fst es ! i)" if "1 \<le> i" "i < length (map fst es)" for i using Int_at(1) [OF rep] that by simp
      show "key_le (CompareKeys km) (map fst es ! i) key \<longleftrightarrow> i \<le> p" if "1 \<le> i" "i < length (map fst es)" for i using s that by simp
    qed (use v key 3 n in auto)
    then have cl: "child_loop (CompareKeys km) (Int_KeyAt d) key 1 (int n) = Some (int p)" by simp
    have c: "\<not> c1 > 0" "\<not> cn \<le> 0" using c1(2) cn(2) 3 by linarith+
    have sz: "BP_GetSize d = Some (int n + 2)" "int n + 2 - 1 = 1 + int n" "int n + 2 - 2 = int n" using D(6) n by simp_all
    show ?thesis using at c1(1) cn(1) c cl val sz by (simp only: Int_Lookup_def bind.bind_lunit if_False sz)
  qed
  then show ?thesis by (simp add: p_def)
qed

section \<open>Writing entries\<close>

lemma int_write_chunk:
  assumes rep: "int_rep ks d es" and i: "i < length es" and kv: "length k = ks" "pid_ok v"
  shows "int_rep ks (splice d (28 + i * (ks + 4)) (k @ pid_enc v)) (es[i := (k, v)])" (is "int_rep ks ?d ?es")
    "hdr_same 28 d (splice d (28 + i * (ks + 4)) (k @ pid_enc v))"
proof -
  have nr: "node_rep INTERNAL_PAGE 28 pid_enc 4 ks d es" using rep by (simp add: int_rep_def)
  note D = node_repD [OF nr]
  have b: "28 + i * (ks + 4) + (ks + 4) \<le> length d" using chunk_bound [OF i D(3)] D(1) by simp
  have sl: "slice ?d x m = slice d x m" if "x + m \<le> 28" for x m using that b kv by (simp add: slice_splice_other)
  then show "hdr_same 28 d ?d" by (rule hdr_sameI)
  have "chunk 28 (ks + 4) ?d j = fst (?es ! j) @ pid_enc (snd (?es ! j))" if "j < length es" for j
    using chunk_splice [OF b, of "k @ pid_enc v" j] D(9) [OF that] that i kv by (simp add: nth_list_update)
  then have "node_rep INTERNAL_PAGE 28 pid_enc 4 ks ?d ?es"
    using nr b kv sl i D(10) by (auto simp: node_rep_def nth_list_update u32_at_def)
  moreover have "\<forall>e \<in> set ?es. pid_ok (snd e)" using rep kv(2) set_update_subset_insert [of es i "(k, v)"] by (auto simp: int_rep_def)
  ultimately show "int_rep ks ?d ?es" by (simp add: int_rep_def)
qed

lemma splice_keep: "slice d p (length xs) = xs \<Longrightarrow> p + length xs \<le> length d \<Longrightarrow> splice d p xs = d"
  unfolding slice_def splice_def by (metis append_take_drop_id drop_drop add.commute)

lemma splice_append: "p + length xs + length ys \<le> length d \<Longrightarrow> splice (splice d p xs) (p + length xs) ys = splice d p (xs @ ys)"
  by (simp add: splice_def add.commute add.left_commute)

lemma Int_set:
  assumes rep: "int_rep ks d es" and i: "i < length es"
  shows "length k = ks \<Longrightarrow> \<exists>d'. Int_SetKeyAt d (int i) k = Some d' \<and> int_rep ks d' (es[i := (k, snd (es ! i))]) \<and> hdr_same 28 d d'"
    "pid_ok v \<Longrightarrow> \<exists>d'. Int_SetValueAt d (int i) v = Some d' \<and> int_rep ks d' (es[i := (fst (es ! i), v)]) \<and> hdr_same 28 d d'"
proof -
  have nr: "node_rep INTERNAL_PAGE 28 pid_enc 4 ks d es" using rep by (simp add: int_rep_def)
  note D = node_repD [OF nr]
  let ?p = "28 + i * (ks + 4)"
  have b: "?p + (ks + 4) \<le> length d" using chunk_bound [OF i D(3)] D(1) by simp
  have s: "slice d ?p ks = fst (es ! i)" "slice d (?p + ks) 4 = pid_enc (snd (es ! i))"
    using chunk_parts [OF D(9) [OF i] D(10,11) [OF i] b] by simp_all
  have l: "length (fst (es ! i)) = ks" and ok: "pid_ok (snd (es ! i))" using D(10) [OF i] rep i by (simp_all add: int_rep_def)
  show "\<exists>d'. Int_SetKeyAt d (int i) k = Some d' \<and> int_rep ks d' (es[i := (k, snd (es ! i))]) \<and> hdr_same 28 d d'" if k: "length k = ks"
  proof -
    have "slice (splice d ?p k) (?p + ks) 4 = pid_enc (snd (es ! i))" using s(2) b k by (simp add: slice_splice_other)
    then have "splice d ?p (k @ pid_enc (snd (es ! i))) = splice d ?p k"
      using splice_append [of ?p k "pid_enc (snd (es ! i))" d] splice_keep [of "splice d ?p k" "?p + ks" "pid_enc (snd (es ! i))"] b k by simp
    then show ?thesis using int_put_pair(1) [OF D(7) b k] int_write_chunk [OF rep i k ok] by auto
  qed
  show "\<exists>d'. Int_SetValueAt d (int i) v = Some d' \<and> int_rep ks d' (es[i := (fst (es ! i), v)]) \<and> hdr_same 28 d d'" if v: "pid_ok v"
  proof -
    have "splice d ?p (fst (es ! i)) = d" using s(1) b l by (intro splice_keep) simp_all
    then have "splice d ?p (fst (es ! i) @ pid_enc v) = splice d (?p + ks) (pid_enc v)"
      using splice_append [of ?p "fst (es ! i)" "pid_enc v" d] b l by simp
    then show ?thesis using int_put_pair(3) [OF D(7) b l] int_write_chunk [OF rep i l v] by auto
  qed
qed

text \<open>A size that grows exposes the bytes behind the last entry as entries.\<close>

lemma int_grow:
  assumes rep: "int_rep ks d es" and room: "int_room ks es n"
  obtains d' xs where "BP_SetSize d (int (length es + n)) = Some d'" "int_rep ks d' (es @ xs)" "length xs = n" "hdr_same 28 d d'"
proof -
  have nr: "node_rep INTERNAL_PAGE 28 pid_enc 4 ks d es" using rep by (simp add: int_rep_def)
  note D = node_repD [OF nr]
  define ent where "ent j = (slice d (28 + j * (ks + 4)) ks, sint (bytes_u32 (slice d (28 + j * (ks + 4) + ks) 4)))" for j
  define xs where "xs = map ent [length es..<length es + n]"
  have lx: "length xs = n" by (simp add: xs_def)
  have r: "28 + (length es + n) * (ks + 4) \<le> PAGE_SIZE" "length es + n \<le> PAGE_SIZE"
    using room int_room_size [OF room] by (simp_all add: int_room_def PAGE_SIZE_def)
  have E: "length (fst (ent j)) = ks \<and> chunk 28 (ks + 4) d j = fst (ent j) @ pid_enc (snd (ent j)) \<and> pid_ok (snd (ent j))"
    if j: "j < length es + n" for j
  proof -
    have b: "28 + j * (ks + 4) + (ks + 4) \<le> length d" using chunk_bound [OF j r(1)] D(1) by simp
    have "pid_enc (snd (ent j)) = slice d (28 + j * (ks + 4) + ks) 4"
      using b by (simp add: ent_def pid_enc_def u32_bytes_bytes_u32)
    then have "chunk 28 (ks + 4) d j = fst (ent j) @ pid_enc (snd (ent j))"
      by (simp add: chunk_def ent_def flip: slice_adjacent)
    moreover have "pid_ok (snd (ent j))"
      using sint_greater_eq [of "bytes_u32 (slice d (28 + j * (ks + 4) + ks) 4)"] sint_less [of "bytes_u32 (slice d (28 + j * (ks + 4) + ks) 4)"]
      by (simp add: pid_ok_def ent_def)
    ultimately show ?thesis using b by (simp add: ent_def)
  qed
  have "length (fst ((es @ xs) ! i)) = ks \<and> length (pid_enc (snd ((es @ xs) ! i))) = 4 \<and>
      chunk 28 (ks + 4) d i = fst ((es @ xs) ! i) @ pid_enc (snd ((es @ xs) ! i))" if i: "i < length (es @ xs)" for i
    using D(9,10) E [of i] i by (cases "i < length es") (simp_all add: nth_append xs_def)
  moreover have "\<forall>e \<in> set (es @ xs). pid_ok (snd e)" using rep E by (auto simp: int_rep_def xs_def)
  ultimately show thesis
    using node_set_size [OF nr D(1) refl, of "es @ xs"] r lx that unfolding int_rep_def by (metis length_append)
qed

lemma int_shift_up:
  assumes rep: "int_rep ks d (es @ [x])"
  obtains d' where "shift_up 28 (ks + 4) d (int (length es)) (length es) = Some d'" "int_rep ks d' (hd (es @ [x]) # es)" "hdr_same 28 d d'"
proof -
  have nr: "node_rep INTERNAL_PAGE 28 pid_enc 4 ks d (es @ [x])" using rep by (simp add: int_rep_def)
  note D = node_repD [OF nr]
  let ?es = "hd (es @ [x]) # es"
  obtain d' where d': "shift_up 28 (ks + 4) d (int (length es)) (length es) = Some d'" "length d' = length d"
      "\<forall>y m. y + m \<le> 28 \<longrightarrow> slice d' y m = slice d y m"
      "\<forall>j. chunk 28 (ks + 4) d' j = (if length es - length es < j \<and> j \<le> length es then chunk 28 (ks + 4) d (j - 1) else chunk 28 (ks + 4) d j)"
    using shift_up_ok [of 28 "length (es @ [x])" "ks + 4" d "length es" "length es"] D(1,3) by auto
  have h0: "hd (es @ [x]) = (es @ [x]) ! 0" by (simp add: hd_conv_nth)
  have "length (fst (?es ! j)) = ks \<and> chunk 28 (ks + 4) d' j = fst (?es ! j) @ pid_enc (snd (?es ! j))" if j: "j < length ?es" for j
  proof (cases j)
    case 0
    then show ?thesis using d'(4) D(9,10) [of 0] h0 by simp
  next
    case (Suc i)
    then have "i < length es" using j by simp
    then show ?thesis using d'(4) D(9,10) [of i] Suc by (simp add: nth_append)
  qed
  then have "node_rep INTERNAL_PAGE 28 pid_enc 4 ks d' ?es"
    using nr d'(2,3) by (simp add: node_rep_def u32_at_def)
  moreover have "\<forall>e \<in> set ?es. pid_ok (snd e)" using rep by (cases es) (auto simp: int_rep_def)
  ultimately show thesis using that d'(1,3) hdr_sameI [of 28 d' d] by (auto simp: int_rep_def)
qed

lemma Int_Init_rep:
  assumes "length d = PAGE_SIZE" "ks \<le> PAGE_SIZE"
  obtains d' where "Int_Init d page_id parent_id (int ks) max_size = Some d'" "int_rep ks d' []"
    "BP_GetPageId d' = Some (sint (word_of_int page_id :: u32))" "BP_GetParentPageId d' = Some (sint (word_of_int parent_id :: u32))"
    "BP_GetMaxSize d' = Some (sint (word_of_int max_size :: u32))"
proof
  let ?d1 = "splice d 24 (u32_bytes (word_of_int page_id))"
  let ?d2 = "splice ?d1 20 (u32_bytes (word_of_int parent_id))"
  let ?d3 = "splice ?d2 4 (u32_bytes (word_of_int (int ks)))"
  let ?d4 = "splice ?d3 16 (u32_bytes (word_of_int max_size))"
  let ?d5 = "splice ?d4 12 (u32_bytes (word_of_int 0))"
  let ?d6 = "splice ?d5 0 (u32_bytes 2)"
  have l: "length ?d1 = PAGE_SIZE" "length ?d2 = PAGE_SIZE" "length ?d3 = PAGE_SIZE" "length ?d4 = PAGE_SIZE" "length ?d5 = PAGE_SIZE"
    "length ?d6 = PAGE_SIZE" using assms(1) by (simp_all add: PAGE_SIZE_def)
  show "Int_Init d page_id parent_id (int ks) max_size = Some ?d6"
    using assms(1) l by (simp add: Int_Init_def header_defs put_i32_at put_u32_at PAGE_SIZE_def)
  show "int_rep ks ?d6 []"
    using l assms by (simp add: int_rep_def node_rep_def buf_simps PAGE_SIZE_def)
  show "BP_GetPageId ?d6 = Some (sint (word_of_int page_id :: u32))" "BP_GetParentPageId ?d6 = Some (sint (word_of_int parent_id :: u32))"
    "BP_GetMaxSize ?d6 = Some (sint (word_of_int max_size :: u32))"
    using l assms(1) by (simp_all add: header_defs get_i32_at buf_simps PAGE_SIZE_def)
qed

lemma int_insert_at:
  assumes rep: "int_rep ks d es" and p: "p \<le> length es" and room: "int_room ks es 1" and kv: "length key = ks" "pid_ok v"
  obtains d' where
    "(do { d \<leftarrow> shift_up 28 (ks + 4) d (int (length es)) (length es - p); d \<leftarrow> Int_SetKeyAt d (int p) key;
           d \<leftarrow> Int_SetValueAt d (int p) v; IncreaseSize d 1 }) = Some d'"
    "int_rep ks d' (take p es @ (key, v) # drop p es)" "hdr_same 28 d d'"
proof -
  have nr: "node_rep INTERNAL_PAGE 28 pid_enc 4 ks d es" using rep by (simp add: int_rep_def)
  note D = node_repD [OF nr]
  have r: "28 + Suc (length es) * (ks + 4) \<le> PAGE_SIZE" "length es < PAGE_SIZE"
    using room int_room_size [OF room] by (simp_all add: int_room_def PAGE_SIZE_def)
  obtain d1 d2 where N: "shift_up 28 (ks + 4) d (int (length es)) (length es - p) = Some d1" "length d1 = PAGE_SIZE"
    "\<And>x m. x + m \<le> 28 \<Longrightarrow> slice d1 x m = slice d x m"
    "BP_SetSize (splice d1 (28 + p * (ks + 4)) (key @ pid_enc v)) (int (Suc (length es))) = Some d2"
    "node_rep INTERNAL_PAGE 28 pid_enc 4 ks d2 (take p es @ (key, v) # drop p es)" "hdr_same 28 d d2"
    by (rule node_insert_at [OF nr p r kv(1) length_pid_enc], rule that, blast+)
  have pb: "28 + p * (ks + 4) + (ks + 4) \<le> length d1" using chunk_bound [OF _ r(1), of p] p N(2) by simp
  have h: "BP_GetKeySize d1 = Some (int ks)" "BP_GetSize d1 = Some (int (length es))"
    using header_agree [OF N(3)] N(2) D(1,6,7) by simp_all
  note P = int_put_pair [OF h(1) pb kv(1)]
  have "IncreaseSize (splice d1 (28 + p * (ks + 4)) (key @ pid_enc v)) 1 = Some d2"
    using IncreaseSize_ok [of "splice d1 (28 + p * (ks + 4)) (key @ pid_enc v)" "int (length es)" 1] header_above(2) [of "28 + p * (ks + 4)" "key @ pid_enc v" d1]
      h(2) pb kv N(4) r(2) by (simp add: PAGE_SIZE_def add.commute)
  moreover have "int_rep ks d2 (take p es @ (key, v) # drop p es)"
    using N(5) rep kv(2) by (auto simp: int_rep_def dest: in_set_takeD in_set_dropD)
  ultimately show thesis using that N(1,6) P by simp
qed

lemma Int_Remove_ok:
  assumes rep: "int_rep ks d es" and p: "p < length es"
  obtains d' where "Int_Remove d (int p - 1) = Some d'" "int_rep ks d' (take p es @ drop (Suc p) es)" "hdr_same 28 d d'"
proof -
  have nr: "node_rep INTERNAL_PAGE 28 pid_enc 4 ks d es" using rep by (simp add: int_rep_def)
  note D = node_repD [OF nr]
  obtain d1 d2 where N: "shift_down 28 (ks + 4) d (int p) (length es - 1 - p) = Some d1" "length d1 = PAGE_SIZE"
    "\<And>x m. x + m \<le> 28 \<Longrightarrow> slice d1 x m = slice d x m" "BP_SetSize d1 (int (length es - 1)) = Some d2"
    "node_rep INTERNAL_PAGE 28 pid_enc 4 ks d2 (take p es @ drop (Suc p) es)" "hdr_same 28 d d2"
    by (rule node_remove_at [OF nr p], rule that, blast+)
  have "BP_GetSize d1 = Some (int (length es))" using header_agree [OF N(3)] N(2) D(1,6) by simp
  then have "IncreaseSize d1 (- 1) = Some d2"
    using IncreaseSize_ok [of d1 "int (length es)" "- 1"] N(4) p D(5) by (simp add: PAGE_SIZE_def of_nat_diff)
  moreover have "nat (int (length es) - 1 - int p) = length es - 1 - p" by simp
  ultimately have "Int_Remove d (int p - 1) = Some d2"
    using D(6,7) N(1) by (simp add: Int_Remove_def int_pair_size_ok INTERNAL_PAGE_HEADER_SIZE_def)
  moreover have "int_rep ks d2 (take p es @ drop (Suc p) es)"
    using N(5) rep by (auto simp: int_rep_def dest: in_set_takeD in_set_dropD)
  ultimately show thesis using that N(6) by simp
qed

lemma int_truncate:
  assumes "int_rep ks d es" "n \<le> length es"
  obtains d' where "BP_SetSize d (int n) = Some d'" "int_rep ks d' (take n es)" "hdr_same 28 d d'"
proof -
  have nr: "node_rep INTERNAL_PAGE 28 pid_enc 4 ks d es" using assms(1) by (simp add: int_rep_def)
  obtain d' where "BP_SetSize d (int n) = Some d'" "node_rep INTERNAL_PAGE 28 pid_enc 4 ks d' (take n es)" "hdr_same 28 d d'"
    by (rule node_truncate [OF nr assms(2)])
  with assms(1) show thesis by (intro that) (auto simp: int_rep_def dest: in_set_takeD)
qed

lemma child_ids_ok:
  "int_rep ks src xs \<Longrightarrow> i + n \<le> length xs \<Longrightarrow>
   child_ids src (28 + i * (ks + 4)) (ks + 4) ks n = Some (map snd (take n (drop i xs)))"
proof (induction n arbitrary: i)
  case (Suc n)
  note D = node_repD [OF Suc.prems(1) [unfolded int_rep_def, THEN conjunct1]]
  have i: "i < length xs" using Suc.prems(2) by simp
  have "get_i32 src (28 + i * (ks + 4) + ks) = Some (snd (xs ! i))"
    using Int_at(2) [OF Suc.prems(1) i] D(7) by (simp add: Int_ValueAt_def Int_PairPtrAt_ok)
  moreover have "28 + i * (ks + 4) + (ks + 4) = 28 + Suc i * (ks + 4)" by simp
  moreover have "take (Suc n) (drop i xs) = xs ! i # take n (drop (Suc i) xs)" using i by (simp flip: Cons_nth_drop_Suc)
  ultimately show ?case using Suc.IH [OF Suc.prems(1), of "Suc i"] Suc.prems(2) by (simp only: child_ids.simps bind.bind_lunit) simp
qed simp

lemma int_append:
  assumes rep: "int_rep ks d es" "int_rep ks src xs" and room: "int_room ks es n" and n: "i + n \<le> length xs"
  obtains d' where "Int_CopyNFrom d src (28 + i * (ks + 4)) (int n) = Some (d', map snd (take n (drop i xs)))"
    "int_rep ks d' (es @ take n (drop i xs))" "hdr_same 28 d d'"
proof -
  have nr: "node_rep INTERNAL_PAGE 28 pid_enc 4 ks d es" "node_rep INTERNAL_PAGE 28 pid_enc 4 ks src xs" using rep by (simp_all add: int_rep_def)
  note D = node_repD [OF nr(1)] and S = node_repD [OF nr(2)]
  let ?w = "ks + 4" and ?ys = "take n (drop i xs)"
  let ?c = "concat (map (enc_entry pid_enc) ?ys)"
  have ly: "length ?ys = n" using n by simp
  have ys: "length (fst e) = ks \<and> length (pid_enc (snd e)) = 4" if "e \<in> set ?ys" for e
    using that S(10) by (auto dest!: in_set_takeD in_set_dropD simp: in_set_conv_nth)
  have r: "28 + (length es + length ?ys) * ?w \<le> PAGE_SIZE" "length es + length ?ys \<le> PAGE_SIZE"
    using room int_room_size [OF room] by (simp_all only: ly int_room_def PAGE_SIZE_def)
  obtain d2 where N: "BP_SetSize (splice d (28 + length es * ?w) ?c) (int (length es + length ?ys)) = Some d2"
    "node_rep INTERNAL_PAGE 28 pid_enc 4 ks d2 (es @ ?ys)" "hdr_same 28 d d2"
    by (rule node_append [of INTERNAL_PAGE 28 pid_enc 4 ks d es ?ys, OF nr(1) ys r], assumption, rule that, blast+)
  have "length y = ?w" if "y \<in> set (map (enc_entry pid_enc) ?ys)" for y using that ys by (auto simp: enc_entry_def)
  from length_concat_const [OF this, of "map (enc_entry pid_enc) ?ys"] have lc: "length ?c = n * ?w" using ly by simp
  have rd: "slice src (28 + i * ?w) (n * ?w) = ?c" by (rule node_read [OF nr(2) n])
  have "28 + (i + n) * ?w \<le> PAGE_SIZE" using S(3) mult_le_mono1 [OF n, of ?w] by linarith
  then have sb: "28 + i * ?w + n * ?w \<le> length src" using S(1) by (simp add: algebra_simps)
  have db: "28 + length es * ?w + length ?c \<le> length d" using r(1) lc ly D(1) by (simp add: algebra_simps)
  have "IncreaseSize (splice d (28 + length es * ?w) ?c) (int n) = Some d2"
    using IncreaseSize_ok [of "splice d (28 + length es * ?w) ?c" "int (length es)" "int n"] header_above(2) [of "28 + length es * ?w" ?c d]
      db D(6) N(1) [unfolded ly] r(2) [unfolded ly] by (simp add: PAGE_SIZE_def)
  then have "Int_CopyNFrom d src (28 + i * ?w) (int n) = Some (d2, map snd ?ys)"
    using D(6,7) sb db rd lc child_ids_ok [OF rep(2) n] by (simp add: Int_CopyNFrom_def int_pair_size_ok Int_PairPtrAt_ok mem_read_def mem_write_def)
  moreover have "int_rep ks d2 (es @ ?ys)"
    using N(2) rep by (auto simp: int_rep_def dest: in_set_takeD in_set_dropD)
  ultimately show thesis using that N(3) by blast
qed

section \<open>Operations\<close>

definition first_index :: "int \<Rightarrow> (generic_key \<times> int) list \<Rightarrow> nat option" where
  "first_index v es = find (\<lambda>i. snd (es ! i) = v) [0..<length es]"

lemma value_index_from_ok:
  "int_rep ks d es \<Longrightarrow> i + n = length es \<Longrightarrow>
   value_index_from d v (int i) n = Some (case find (\<lambda>j. snd (es ! j) = v) [i..<length es] of None \<Rightarrow> - 1 | Some j \<Rightarrow> int j)"
proof (induction n arbitrary: i)
  case (Suc n)
  have i: "i < length es" using Suc.prems by simp
  have "[i..<length es] = i # [Suc i..<length es]" using i by (simp add: upt_conv_Cons)
  then show ?case using Int_at(2) [OF Suc.prems(1) i] Suc.IH [OF Suc.prems(1), of "Suc i"] Suc.prems(2) by (simp add: add.commute)
qed simp

lemma Int_ValueIndex_ok:
  assumes "int_rep ks d es"
  shows "Int_ValueIndex d v = Some (case first_index v es of None \<Rightarrow> - 1 | Some i \<Rightarrow> int i)"
  using value_index_from_ok [OF assms, of 0 "length es" v] node_repD(6) [OF assms [unfolded int_rep_def, THEN conjunct1]]
  by (simp add: Int_ValueIndex_def first_index_def)

lemma first_index_less: "first_index v es = Some i \<Longrightarrow> i < length es \<and> snd (es ! i) = v"
  by (auto simp: first_index_def find_Some_iff)

lemma InsertNodeAfter_ok:
  fixes old :: int
  assumes rep: "int_rep ks d es" and room: "int_room ks es 1" and kv: "length key = ks" "pid_ok v"
  defines "p \<equiv> case first_index old es of None \<Rightarrow> 0 | Some i \<Rightarrow> Suc i"
  obtains d' where "InsertNodeAfter d old key v = Some (int (length es) + 1, d')" "int_rep ks d' (take p es @ (key, v) # drop p es)" "hdr_same 28 d d'"
proof -
  note D = node_repD [OF rep [unfolded int_rep_def, THEN conjunct1]]
  have p: "p \<le> length es" using first_index_less [of old es] by (auto simp: p_def split: option.splits)
  obtain d' where d': "(do { d \<leftarrow> shift_up 28 (ks + 4) d (int (length es)) (length es - p); d \<leftarrow> Int_SetKeyAt d (int p) key;
      d \<leftarrow> Int_SetValueAt d (int p) v; IncreaseSize d 1 }) = Some d'" "int_rep ks d' (take p es @ (key, v) # drop p es)" "hdr_same 28 d d'"
    by (rule int_insert_at [OF rep p room kv])
  have n: "BP_GetSize d' = Some (int (length es) + 1)"
    using node_repD(6) [OF d'(2) [unfolded int_rep_def, THEN conjunct1]] p by simp
  obtain i where i: "Int_ValueIndex d old = Some i" "i + 1 = int p" using Int_ValueIndex_ok [OF rep, of old] by (auto simp: p_def split: option.splits)
  have "nat (int (length es) - int p) = length es - p" by simp
  then have "InsertNodeAfter d old key v = Some (int (length es) + 1, d')"
    using i D(6,7) d'(1) n by (auto simp: InsertNodeAfter_def int_pair_size_ok INTERNAL_PAGE_HEADER_SIZE_def bind_eq_Some_conv)
  then show thesis using that d'(2,3) by blast
qed

lemma PopulateNewRoot_ok:
  assumes rep: "int_rep ks d []" and room: "int_room ks [] 2" and kv: "length key = ks" "pid_ok old" "pid_ok v"
  obtains d' k0 where "PopulateNewRoot d old key v = Some d'" "int_rep ks d' [(k0, old), (key, v)]" "hdr_same 28 d d'"
proof -
  obtain d1 xs where d1: "BP_SetSize d 2 = Some d1" "int_rep ks d1 xs" "length xs = 2" "hdr_same 28 d d1"
    by (rule int_grow [OF rep room]) (use that in simp)
  obtain a b where xs: "xs = [a, b]" using d1(3) by (auto simp: numeral_2_eq_2 length_Suc_conv)
  have r1: "int_rep ks d1 [a, b]" using d1(2) xs by simp
  obtain d2 where d2: "Int_SetValueAt d1 0 old = Some d2" "int_rep ks d2 [(fst a, old), b]" "hdr_same 28 d1 d2"
    using Int_set(2) [OF r1, of 0 old] kv(2) by auto
  obtain d3 where d3: "Int_SetKeyAt d2 1 key = Some d3" "int_rep ks d3 [(fst a, old), (key, snd b)]" "hdr_same 28 d2 d3"
    using Int_set(1) [OF d2(2), of 1 key] kv(1) by auto
  obtain d4 where d4: "Int_SetValueAt d3 1 v = Some d4" "int_rep ks d4 [(fst a, old), (key, v)]" "hdr_same 28 d3 d4"
    using Int_set(2) [OF d3(2), of 1 v] kv(3) by auto
  have "PopulateNewRoot d old key v = Some d4" using d1(1) d2(1) d3(1) d4(1) by (simp add: PopulateNewRoot_def)
  then show thesis using that d4(2) hdr_same_trans [OF d1(4) hdr_same_trans [OF d2(3) hdr_same_trans [OF d3(3) d4(3)]]] by blast
qed

lemma int_move_half:
  assumes d: "int_rep ks d es" and r: "int_rep ks r rs" and room: "int_room ks rs (length es)"
  shows "\<exists>d' r'. Int_MoveHalfTo d r = Some (d', r', map snd (drop (length es - length es div 2) es)) \<and>
      int_rep ks d' (take (length es - length es div 2) es) \<and> int_rep ks r' (rs @ drop (length es - length es div 2) es) \<and>
      hdr_same 28 d d' \<and> hdr_same 28 r r'"
proof -
  note D = node_repD [OF d [unfolded int_rep_def, THEN conjunct1]]
  let ?m = "length es div 2" and ?i = "length es - length es div 2"
  have m: "?i + ?m \<le> length es" "?i \<le> length es" and half: "int_half (int (length es)) = int ?m" "int (length es) - int ?m = int ?i"
    by (simp_all add: int_half_def zdiv_int of_nat_diff)
  have e: "take ?m (drop ?i es) = drop ?i es" by simp
  obtain r' where r': "Int_CopyNFrom r d (28 + ?i * (ks + 4)) (int ?m) = Some (r', map snd (drop ?i es))" "int_rep ks r' (rs @ drop ?i es)" "hdr_same 28 r r'"
    by (rule int_append [OF r d int_room_mono [OF room] m(1), unfolded e]) (use that in simp_all)
  obtain d' where d': "BP_SetSize d (int ?i) = Some d'" "int_rep ks d' (take ?i es)" "hdr_same 28 d d'" by (rule int_truncate [OF d m(2)])
  have "Int_MoveHalfTo d r = Some (d', r', map snd (drop ?i es))"
    using D(6,7) r'(1) d'(1) Int_PairPtrAt_ok [OF D(7), of ?i] by (simp only: Int_MoveHalfTo_def bind.bind_lunit half Let_def prod.case)
  then show ?thesis using r'(2,3) d'(2,3) by metis
qed

lemma int_move_all:
  assumes d: "int_rep ks d es" and r: "int_rep ks r rs" and room: "int_room ks rs (length es)"
  shows "\<exists>d' r'. Int_MoveAllTo d r mid = Some (d', r', map snd es) \<and> int_rep ks d' [] \<and> int_rep ks r' (rs @ es) \<and>
      hdr_same 28 d d' \<and> hdr_same 28 r r'"
proof -
  note D = node_repD [OF d [unfolded int_rep_def, THEN conjunct1]]
  have z: "0 + length es \<le> length es" by simp
  obtain r' where r': "Int_CopyNFrom r d (28 + 0 * (ks + 4)) (int (length es)) = Some (r', map snd (take (length es) (drop 0 es)))"
    "int_rep ks r' (rs @ take (length es) (drop 0 es))" "hdr_same 28 r r'"
    by (rule int_append [OF r d room z])
  obtain d' where d': "BP_SetSize d (int 0) = Some d'" "int_rep ks d' (take 0 es)" "hdr_same 28 d d'" by (rule int_truncate [OF d le0])
  have "Int_PairPtrAt d 0 = Some 28" using Int_PairPtrAt_ok [OF D(7), of 0] by simp
  then have "Int_MoveAllTo d r mid = Some (d', r', map snd es)" using D(6) r'(1) d'(1) by (simp add: Int_MoveAllTo_def)
  then show ?thesis using r'(2,3) d'(2,3) by simp
qed

lemma int_grow1:
  assumes rep: "int_rep ks d es" and room: "int_room ks es 1"
  obtains d' x where "IncreaseSize d 1 = Some d'" "int_rep ks d' (es @ [x])" "hdr_same 28 d d'"
proof -
  note D = node_repD [OF rep [unfolded int_rep_def, THEN conjunct1]]
  obtain d1 xs where d1: "BP_SetSize d (int (length es + 1)) = Some d1" "int_rep ks d1 (es @ xs)" "length xs = 1" "hdr_same 28 d d1"
    by (rule int_grow [OF rep room])
  then obtain x where x: "xs = [x]" by (auto simp: length_Suc_conv)
  have "IncreaseSize d 1 = Some d1"
    using IncreaseSize_ok [OF D(6), of 1] d1(1) int_room_size [OF room] by (simp add: add.commute)
  then show thesis using that d1(2,4) x by blast
qed

lemma int_move_first:
  assumes d: "int_rep ks d es" and r: "int_rep ks r rs" and room: "int_room ks rs 1" and ne: "es \<noteq> []" and mid: "length mid = ks"
  shows "\<exists>d' r'. Int_MoveFirstToEndOf d r mid = Some (d', r', [snd (hd es)]) \<and> int_rep ks d' (tl es) \<and>
      int_rep ks r' (rs @ [(mid, snd (hd es))]) \<and> hdr_same 28 d d' \<and> hdr_same 28 r r'"
proof -
  have pos: "0 < length es" using ne by simp
  have v: "pid_ok (snd (es ! 0))" using d pos by (simp add: int_rep_def)
  obtain r1 x where r1: "IncreaseSize r 1 = Some r1" "int_rep ks r1 (rs @ [x])" "hdr_same 28 r r1" by (rule int_grow1 [OF r room])
  have l: "length rs < length (rs @ [x])" by simp
  obtain r2 where r2: "Int_SetKeyAt r1 (int (length rs)) mid = Some r2" "int_rep ks r2 (rs @ [(mid, snd x)])" "hdr_same 28 r1 r2"
    using Int_set(1) [OF r1(2) l mid] by auto
  have l2: "length rs < length (rs @ [(mid, snd x)])" by simp
  obtain r3 where r3: "Int_SetValueAt r2 (int (length rs)) (snd (es ! 0)) = Some r3" "int_rep ks r3 (rs @ [(mid, snd (es ! 0))])" "hdr_same 28 r2 r3"
    using Int_set(2) [OF r2(2) l2 v] by auto
  obtain d' where d': "Int_Remove d (int 0 - 1) = Some d'" "int_rep ks d' (take 0 es @ drop (Suc 0) es)" "hdr_same 28 d d'"
    by (rule Int_Remove_ok [OF d pos])
  note S = node_repD(6) [OF r1(2) [unfolded int_rep_def, THEN conjunct1]] node_repD(6) [OF r2(2) [unfolded int_rep_def, THEN conjunct1]]
  have "Int_CopyLastFrom r mid (snd (es ! 0)) = Some (r3, [snd (es ! 0)])"
    using r1(1) r2(1) r3(1) S by (simp add: Int_CopyLastFrom_def)
  then have "Int_MoveFirstToEndOf d r mid = Some (d', r3, [snd (es ! 0)])"
    using d'(1) Int_at(2) [OF d pos] by (simp add: Int_MoveFirstToEndOf_def)
  then show ?thesis
    using r3(2) d'(2,3) hdr_same_trans [OF r1(3) hdr_same_trans [OF r2(3) r3(3)]] ne by (simp add: hd_conv_nth drop_Suc)
qed

lemma int_move_last:
  assumes d: "int_rep ks d es" and r: "int_rep ks r rs" and room: "int_room ks rs 1" and ne: "es \<noteq> []"
  shows "\<exists>d' r'. Int_MoveLastToFrontOf d r mid = Some (d', r', [snd (last es)]) \<and> int_rep ks d' (butlast es) \<and>
      int_rep ks r' (last es # rs) \<and> hdr_same 28 d d' \<and> hdr_same 28 r r'"
proof -
  note D = node_repD [OF d [unfolded int_rep_def, THEN conjunct1]]
  obtain l where ln: "length es = Suc l" using ne by (cases es) simp_all
  have pos: "l < length es" using ln by simp
  have e: "length (fst (es ! l)) = ks" "pid_ok (snd (es ! l))" using D(10) pos d by (simp_all add: int_rep_def)
  obtain r1 x where r1: "IncreaseSize r 1 = Some r1" "int_rep ks r1 (rs @ [x])" "hdr_same 28 r r1" by (rule int_grow1 [OF r room])
  note R1 = node_repD(6,7) [OF r1(2) [unfolded int_rep_def, THEN conjunct1]]
  obtain r2 where r2: "shift_up 28 (ks + 4) r1 (int (length rs)) (length rs) = Some r2" "int_rep ks r2 (hd (rs @ [x]) # rs)" "hdr_same 28 r1 r2"
    by (rule int_shift_up [OF r1(2)])
  obtain k0 where r3: "\<exists>r3. Int_SetValueAt r2 0 (snd (es ! l)) = Some r3 \<and> int_rep ks r3 ((k0, snd (es ! l)) # rs) \<and> hdr_same 28 r2 r3"
    using Int_set(2) [OF r2(2), of 0, OF _ e(2)] by auto
  then obtain r3 where r3: "Int_SetValueAt r2 0 (snd (es ! l)) = Some r3" "int_rep ks r3 ((k0, snd (es ! l)) # rs)" "hdr_same 28 r2 r3" by blast
  obtain r4 where r4: "Int_SetKeyAt r3 0 (fst (es ! l)) = Some r4" "int_rep ks r4 ((fst (es ! l), snd (es ! l)) # rs)" "hdr_same 28 r3 r4"
    using Int_set(1) [OF r3(2), of 0, OF _ e(1)] by auto
  obtain d' where d': "Int_Remove d (int l - 1) = Some d'" "int_rep ks d' (take l es @ drop (Suc l) es)" "hdr_same 28 d d'"
    by (rule Int_Remove_ok [OF d pos])
  have "Int_CopyFirstFrom r (snd (es ! l)) = Some (r3, [snd (es ! l)])"
    using r1(1) r2(1) r3(1) R1 by (simp add: Int_CopyFirstFrom_def int_pair_size_ok INTERNAL_PAGE_HEADER_SIZE_def)
  moreover have "BP_GetSize d = Some (int l + 1)" "int l + 1 - 1 = int l" "int l + 1 - 2 = int l - 1" using D(6) ln by simp_all
  ultimately have "Int_MoveLastToFrontOf d r mid = Some (d', r4, [snd (es ! l)])"
    using r4(1) d'(1) Int_at [OF d pos] by (simp add: Int_MoveLastToFrontOf_def)
  then show ?thesis
    using r4(2) d'(2,3) hdr_same_trans [OF r1(3) hdr_same_trans [OF r2(3) hdr_same_trans [OF r3(3) r4(3)]]] ne
    by (simp add: last_conv_nth butlast_conv_take ln)
qed

section \<open>A sample internal page\<close>

lemma two_children:
  assumes "\<exists>p < length [a, b]. X = Some (snd ([a, b] ! p)) \<and> (\<forall>i. 1 \<le> i \<and> i < length [a, b] \<longrightarrow> (P (fst ([a, b] ! i)) \<longleftrightarrow> i \<le> p))"
  shows "X = Some (if P (fst b) then snd b else snd a)"
proof -
  from assms obtain p where p: "p < length [a, b]" "X = Some (snd ([a, b] ! p))" "P (fst ([a, b] ! 1)) \<longleftrightarrow> 1 \<le> p" by fastforce
  then show ?thesis by (cases p) simp_all
qed

lemma sample_key_le: "key_le (CompareKeys int_key_manager) (sample_key i) (sample_key j) \<longleftrightarrow> sint i \<le> sint j"
  using CompareKeys_ok [OF sample_key_rep sample_key_rep int_key_ok(3) int_key_ok(3), of i j]
  by (auto simp: key_le_def field_less_def Field_int_def)

definition sample_int :: buffer where
  "sample_int = (case do { d \<leftarrow> Int_Init (replicate PAGE_SIZE 0) 9 INVALID_PAGE_ID 16 3; PopulateNewRoot d 3 (sample_key 7) 4 } of
     Some d \<Rightarrow> d | None \<Rightarrow> [])"

definition sample_sep :: generic_key where
  "sample_sep = (case Int_KeyAt sample_int 0 of Some k \<Rightarrow> k | None \<Rightarrow> [])"

lemma sample_int: "int_rep 16 sample_int [(sample_sep, 3), (sample_key 7, 4)]" "int_keys_ok int_key_manager [(sample_sep, 3 :: int), (sample_key 7, 4)]"
proof -
  have "16 \<le> PAGE_SIZE" and room: "int_room 16 [] 2" and ok: "pid_ok 3" "pid_ok 4" by (simp_all add: PAGE_SIZE_def int_room_def pid_ok_def)
  then obtain d where d: "Int_Init (replicate PAGE_SIZE 0) 9 INVALID_PAGE_ID (int 16) 3 = Some d" "int_rep 16 d []"
    using Int_Init_rep [OF length_replicate [of PAGE_SIZE 0], of 16 9 INVALID_PAGE_ID 3] by metis
  obtain d' k0 where d': "PopulateNewRoot d 3 (sample_key 7) 4 = Some d'" "int_rep 16 d' [(k0, 3), (sample_key 7, 4)]"
    by (rule PopulateNewRoot_ok [OF d(2) room sample_key(2) ok])
  then have e: "sample_int = d'" using d(1) by (simp add: sample_int_def)
  have "sample_sep = k0" using Int_at(1) [OF d'(2), of 0] by (simp add: sample_sep_def e)
  then show "int_rep 16 sample_int [(sample_sep, 3), (sample_key 7, 4)]" using d'(2) e by simp
  show "int_keys_ok int_key_manager [(sample_sep, 3 :: int), (sample_key 7, 4)]" by (simp add: int_keys_ok_def leaf_keys_ok_def sample_key(1))
qed

section \<open>Properties\<close>

text \<open>
  C23: lookup in an internal page. On a page of at least two entries with strictly sorted separators \<^verbatim>\<open>Lookup\<close> ends and returns
  the child whose range contains the key: the one whose separator is the last that is not above the key, or the first child if all
  separators are above it.
\<close>

theorem internal_lookup_correct:
  assumes "int_rep ks d es" "2 \<le> length es" "int_keys_ok km es" "orderable_key km key"
  shows "\<exists>p < length es. Int_Lookup (CompareKeys km) d key = Some (snd (es ! p)) \<and>
    (\<forall>i. 1 \<le> i \<and> i < length es \<longrightarrow> (key_le (CompareKeys km) (fst (es ! i)) key \<longleftrightarrow> i \<le> p))"
proof -
  have "child_index km key es < length es" using child_index_split(1) [OF assms(3,4)] assms(2) by linarith
  then show ?thesis using Int_Lookup_ok [OF assms] child_index_split(2) [OF assms(3,4)] by blast
qed

theorem internal_lookup_correct_witness:
  "Int_Lookup (CompareKeys int_key_manager) sample_int (sample_key 8) = Some 4 \<and>
   Int_Lookup (CompareKeys int_key_manager) sample_int (sample_key 3) = Some 3"
proof -
  have "2 \<le> length [(sample_sep, 3 :: int), (sample_key 7, 4)]" by simp
  note L = internal_lookup_correct [OF sample_int(1) this sample_int(2) sample_key(1)]
  have "sint (8 :: u32) = 8" "sint (7 :: u32) = 7" "sint (3 :: u32) = 3" by simp_all
  then have le: "key_le (CompareKeys int_key_manager) (sample_key 7) (sample_key 8)" "\<not> key_le (CompareKeys int_key_manager) (sample_key 7) (sample_key 3)"
    by (simp_all add: sample_key_le)
  from two_children [OF L [of 8]] two_children [OF L [of 3]] le show ?thesis by simp
qed

text \<open>
  C25: insertion into an internal page. If the page has room, \<^verbatim>\<open>InsertNodeAfter\<close> returns the new size and puts the pair right behind
  the first entry with the old value (in front of all entries if there is none); the other entries and the header stay as they are.
\<close>

theorem internal_insert_correct:
  assumes "int_rep ks d es" "int_room ks es 1" "length key = ks" "pid_ok v"
  shows "\<exists>d' p. InsertNodeAfter d old key v = Some (int (length es) + 1, d') \<and> int_rep ks d' (take p es @ (key, v) # drop p es) \<and>
    hdr_same 28 d d' \<and>
    (if old \<in> snd ` set es then 0 < p \<and> p \<le> length es \<and> snd (es ! (p - 1)) = old \<and> (\<forall>i < p - 1. snd (es ! i) \<noteq> old) else p = 0)"
proof -
  let ?p = "case first_index old es of None \<Rightarrow> 0 | Some i \<Rightarrow> Suc i"
  have "if old \<in> snd ` set es then 0 < ?p \<and> ?p \<le> length es \<and> snd (es ! (?p - 1)) = old \<and> (\<forall>i < ?p - 1. snd (es ! i) \<noteq> old) else ?p = 0"
  proof (cases "first_index old es")
    case None
    then have "\<forall>i < length es. snd (es ! i) \<noteq> old" by (simp add: first_index_def find_None_iff)
    then have "old \<notin> snd ` set es" by (metis imageE in_set_conv_nth)
    then show ?thesis using None by simp
  next
    case (Some i)
    then have "i < length es" "snd (es ! i) = old" "\<forall>j < i. snd (es ! j) \<noteq> old" by (auto simp: first_index_def find_Some_iff)
    moreover from this have "old \<in> snd ` set es" using nth_mem [of i es] by force
    ultimately show ?thesis using Some by simp
  qed
  then show ?thesis using InsertNodeAfter_ok [OF assms, of old] by blast
qed

theorem internal_insert_correct_witness:
  "\<exists>d'. InsertNodeAfter sample_int 3 (sample_key 5) 6 = Some (3, d') \<and> int_rep 16 d' [(sample_sep, 3), (sample_key 5, 6), (sample_key 7, 4)]"
proof -
  have "int_room 16 [(sample_sep, 3), (sample_key 7, 4)] 1" "pid_ok 6" by (simp_all add: int_room_def PAGE_SIZE_def pid_ok_def)
  from internal_insert_correct [OF sample_int(1) this(1) sample_key(2) [of 5] this(2), of 3]
  obtain d' p where d': "InsertNodeAfter sample_int 3 (sample_key 5) 6 = Some (3, d')" "0 < p" "p \<le> 2" "snd ([(sample_sep, 3 :: int), (sample_key 7, 4)] ! (p - 1)) = 3"
    "int_rep 16 d' (take p [(sample_sep, 3), (sample_key 7, 4)] @ (sample_key 5, 6) # drop p [(sample_sep, 3), (sample_key 7, 4)])" by auto
  then have "p = 1" by (cases "p = 2") auto
  with d' show ?thesis by auto
qed

text \<open>
  Removal from an internal page. \<^verbatim>\<open>Remove(index)\<close> removes the entry behind \<open>index\<close>, and the entry at 0 when called with -1,
  not the entry at \<open>index\<close> as its comment says.
\<close>

theorem internal_remove_correct:
  assumes "int_rep ks d es" "p < length es"
  shows "\<exists>d'. Int_Remove d (int p - 1) = Some d' \<and> int_rep ks d' (take p es @ drop (Suc p) es) \<and> hdr_same 28 d d'"
  by (rule Int_Remove_ok [OF assms]) blast

theorem internal_remove_correct_witness:
  "\<exists>d'. Int_Remove sample_int 0 = Some d' \<and> int_rep 16 d' [(sample_sep, 3)]"
  using internal_remove_correct [OF sample_int(1), of 1] by auto

text \<open>
  Split, merge and redistribution of internal pages. \<^verbatim>\<open>MoveHalfTo\<close> and \<^verbatim>\<open>MoveAllTo\<close> append the upper half or all of the
  entries to the recipient, \<^verbatim>\<open>MoveFirstToEndOf\<close> moves the first child under the middle key, \<^verbatim>\<open>MoveLastToFrontOf\<close> the last
  entry; the children handed to \<^verbatim>\<open>FetchPage\<close> for adoption are exactly those moved, in order, and no entry is lost.
\<close>

theorem internal_moves_correct:
  assumes d: "int_rep ks d es" and r: "int_rep ks r rs" and room: "int_room ks rs (length es)" and mid: "length mid = ks"
  shows "(\<exists>d' r'. Int_MoveHalfTo d r = Some (d', r', map snd (drop (length es - length es div 2) es)) \<and>
      int_rep ks d' (take (length es - length es div 2) es) \<and> int_rep ks r' (rs @ drop (length es - length es div 2) es) \<and>
      hdr_same 28 d d' \<and> hdr_same 28 r r') \<and>
    (\<exists>d' r'. Int_MoveAllTo d r mid = Some (d', r', map snd es) \<and> int_rep ks d' [] \<and> int_rep ks r' (rs @ es) \<and> hdr_same 28 d d' \<and> hdr_same 28 r r') \<and>
    (es \<noteq> [] \<longrightarrow> (\<exists>d' r'. Int_MoveFirstToEndOf d r mid = Some (d', r', [snd (hd es)]) \<and> int_rep ks d' (tl es) \<and>
      int_rep ks r' (rs @ [(mid, snd (hd es))]) \<and> hdr_same 28 d d' \<and> hdr_same 28 r r')) \<and>
    (es \<noteq> [] \<longrightarrow> (\<exists>d' r'. Int_MoveLastToFrontOf d r mid = Some (d', r', [snd (last es)]) \<and> int_rep ks d' (butlast es) \<and>
      int_rep ks r' (last es # rs) \<and> hdr_same 28 d d' \<and> hdr_same 28 r r'))"
proof -
  have "int_room ks rs 1" if "es \<noteq> []" by (rule int_room_mono [OF room]) (use that in \<open>cases es; simp\<close>)
  then show ?thesis
    using int_move_half [OF d r room] int_move_all [OF d r room, of mid] int_move_first [OF d r _ _ mid] int_move_last [OF d r, of mid] by blast
qed

theorem internal_moves_correct_witness:
  "\<exists>d' r'. Int_MoveAllTo sample_int sample_int (sample_key 9) = Some (d', r', [3, 4]) \<and> int_rep 16 d' [] \<and>
     int_rep 16 r' [(sample_sep, 3), (sample_key 7, 4), (sample_sep, 3), (sample_key 7, 4)]"
proof -
  have "int_room 16 [(sample_sep, 3), (sample_key 7, 4)] (length [(sample_sep, 3 :: int), (sample_key 7, 4)])" by (simp add: int_room_def PAGE_SIZE_def)
  from internal_moves_correct [OF sample_int(1) sample_int(1) this sample_key(2) [of 9]] show ?thesis by auto
qed

end
