(* ===== verification/Index_Roots.thy ===== *)
theory Index_Roots
  imports B_Plus_Tree_Page
begin

text \<open>
  The index roots page: \<^verbatim>\<open>IndexRootsPage\<close> of \<^verbatim>\<open>include/page/index_roots_page.h\<close> and \<^verbatim>\<open>page/index_roots_page.cpp\<close>, on the
  bytes of the page: a counter and an array of pairs of an index id and the page id of its root. The lemmas show that it
  implements a finite map from index ids to page ids.
\<close>

section \<open>Model\<close>

definition MAX_INDEX_COUNT :: nat where "MAX_INDEX_COUNT = (PAGE_SIZE - 4) div 8"

definition IR_Init :: "buffer \<Rightarrow> buffer option" where "IR_Init d = put_i32 d 0 0"

definition IR_GetIndexCount :: "buffer \<Rightarrow> int option" where "IR_GetIndexCount d = get_i32 d 0"

text \<open>The members of \<^verbatim>\<open>roots_[i]\<close>; a negative index leaves the array.\<close>

definition root_pos :: "int \<Rightarrow> nat option" where "root_pos i = (if 0 \<le> i then Some (4 + 8 * nat i) else None)"

fun find_index_from :: "buffer \<Rightarrow> u32 \<Rightarrow> int \<Rightarrow> nat \<Rightarrow> int option" where
  "find_index_from d index_id i 0 = Some INVALID_PAGE_ID"
| "find_index_from d index_id i (Suc n) = do {
     p \<leftarrow> root_pos i;
     w \<leftarrow> get_u32 d p;
     if w = index_id then Some i else find_index_from d index_id (i + 1) n }"

definition IR_FindIndex :: "buffer \<Rightarrow> u32 \<Rightarrow> int option" where
  "IR_FindIndex d index_id = do { count \<leftarrow> get_i32 d 0; find_index_from d index_id 0 (nat count) }"

definition IR_Insert :: "buffer \<Rightarrow> u32 \<Rightarrow> int \<Rightarrow> (bool \<times> buffer) option" where
  "IR_Insert d index_id root_id = do {
     index \<leftarrow> IR_FindIndex d index_id;
     if index \<noteq> - 1 then Some (False, d)
     else do {
       count \<leftarrow> get_i32 d 0;
       p \<leftarrow> root_pos count;
       d \<leftarrow> put_u32 d p index_id;
       d \<leftarrow> put_i32 d (p + 4) root_id;
       d \<leftarrow> put_i32 d 0 (count + 1);
       Some (True, d) } }"

text \<open>The loop \<^verbatim>\<open>for (i = index; i < count_ - 1; i++)\<close> of \<^verbatim>\<open>Delete\<close> moves pairs of 8 bytes down by one place.\<close>

definition IR_Delete :: "buffer \<Rightarrow> u32 \<Rightarrow> (bool \<times> buffer) option" where
  "IR_Delete d index_id = do {
     index \<leftarrow> IR_FindIndex d index_id;
     if index = - 1 then Some (False, d)
     else do {
       count \<leftarrow> get_i32 d 0;
       d \<leftarrow> shift_down 4 8 d index (nat (count - 1 - index));
       d \<leftarrow> put_i32 d 0 (count - 1);
       Some (True, d) } }"

definition IR_Update :: "buffer \<Rightarrow> u32 \<Rightarrow> int \<Rightarrow> (bool \<times> buffer) option" where
  "IR_Update d index_id root_id = do {
     index \<leftarrow> IR_FindIndex d index_id;
     if index = - 1 then Some (False, d)
     else do {
       p \<leftarrow> root_pos index;
       d \<leftarrow> put_i32 d (p + 4) root_id;
       Some (True, d) } }"

text \<open>The result is the value stored in the output parameter, if any.\<close>

definition IR_GetRootId :: "buffer \<Rightarrow> u32 \<Rightarrow> int option option" where
  "IR_GetRootId d index_id = do {
     index \<leftarrow> IR_FindIndex d index_id;
     if index = - 1 then Some None
     else do {
       p \<leftarrow> root_pos index;
       v \<leftarrow> get_i32 d (p + 4);
       Some (Some v) } }"

section \<open>The page as a list of pairs\<close>

definition roots_rep :: "buffer \<Rightarrow> (u32 \<times> int) list \<Rightarrow> bool" where
  "roots_rep d rs \<longleftrightarrow> length d = PAGE_SIZE \<and> length rs \<le> MAX_INDEX_COUNT \<and> u32_at d 0 = of_nat (length rs) \<and> distinct (map fst rs) \<and>
     (\<forall>i < length rs. u32_at d (4 + 8 * i) = fst (rs ! i) \<and> u32_at d (8 + 8 * i) = word_of_int (snd (rs ! i)) \<and>
        - 2147483648 \<le> snd (rs ! i) \<and> snd (rs ! i) < 2147483648)"

lemma roots_repD:
  assumes "roots_rep d rs"
  shows "length d = PAGE_SIZE" "length rs \<le> 511" "get_i32 d 0 = Some (int (length rs))" "distinct (map fst rs)"
    "\<And>i. i < length rs \<Longrightarrow> get_u32 d (4 + 8 * i) = Some (fst (rs ! i))"
    "\<And>i. i < length rs \<Longrightarrow> get_i32 d (8 + 8 * i) = Some (snd (rs ! i))"
proof -
  show l: "length d = PAGE_SIZE" "length rs \<le> 511" "distinct (map fst rs)" using assms by (simp_all add: roots_rep_def MAX_INDEX_COUNT_def PAGE_SIZE_def)
  have "sint (of_nat (length rs) :: u32) = int (length rs)" using l(2) by (intro sint_of_nat_i32) simp
  then show "get_i32 d 0 = Some (int (length rs))" using assms l(1) by (simp add: roots_rep_def get_i32_at PAGE_SIZE_def)
  show "get_u32 d (4 + 8 * i) = Some (fst (rs ! i))" if "i < length rs" for i
    using assms that l by (simp add: roots_rep_def get_u32_at PAGE_SIZE_def)
  show "get_i32 d (8 + 8 * i) = Some (snd (rs ! i))" if "i < length rs" for i
    using assms that l by (simp add: roots_rep_def get_i32_at PAGE_SIZE_def sint_word_of_int_u32)
qed

text \<open>The position of an index id.\<close>

definition root_index :: "u32 \<Rightarrow> (u32 \<times> int) list \<Rightarrow> nat option" where
  "root_index x rs = find (\<lambda>i. fst (rs ! i) = x) [0..<length rs]"

lemma find_index_from_ok:
  "roots_rep d rs \<Longrightarrow> i + n = length rs \<Longrightarrow>
   find_index_from d x (int i) n = Some (case find (\<lambda>j. fst (rs ! j) = x) [i..<length rs] of None \<Rightarrow> - 1 | Some j \<Rightarrow> int j)"
proof (induction n arbitrary: i)
  case (Suc n)
  have i: "i < length rs" using Suc.prems by simp
  have "[i..<length rs] = i # [Suc i..<length rs]" using i by (simp add: upt_conv_Cons)
  then show ?case
    using roots_repD(5) [OF Suc.prems(1) i] Suc.IH [OF Suc.prems(1), of "Suc i"] Suc.prems(2) by (simp add: add.commute root_pos_def)
qed (simp add: INVALID_PAGE_ID_def)

lemma IR_FindIndex_ok:
  assumes "roots_rep d rs"
  shows "IR_FindIndex d x = Some (case root_index x rs of None \<Rightarrow> - 1 | Some i \<Rightarrow> int i)"
  using find_index_from_ok [OF assms, of 0 "length rs" x] roots_repD(3) [OF assms]
  by (simp add: IR_FindIndex_def root_index_def)

lemma root_index_map_of:
  assumes "distinct (map fst rs)"
  shows "case root_index x rs of None \<Rightarrow> map_of rs x = None | Some i \<Rightarrow> i < length rs \<and> fst (rs ! i) = x \<and> map_of rs x = Some (snd (rs ! i))"
proof (cases "root_index x rs")
  case None
  then have "\<forall>i < length rs. fst (rs ! i) \<noteq> x" by (simp add: root_index_def find_None_iff)
  then have "x \<notin> fst ` set rs" by (metis imageE in_set_conv_nth)
  with None show ?thesis by (simp add: map_of_eq_None_iff)
next
  case (Some i)
  then have i: "i < length rs" "fst (rs ! i) = x" by (auto simp: root_index_def find_Some_iff)
  then have "(x, snd (rs ! i)) \<in> set rs" by (metis nth_mem prod.collapse)
  with i Some assms show ?thesis by simp
qed

section \<open>Operations\<close>

lemma IR_GetRootId_ok:
  assumes "roots_rep d rs"
  shows "IR_GetRootId d x = Some (map_of rs x)"
  using IR_FindIndex_ok [OF assms, of x] root_index_map_of [OF roots_repD(4) [OF assms], of x] roots_repD(6) [OF assms]
  by (auto simp: IR_GetRootId_def root_pos_def add.commute split: option.splits)

lemma IR_Insert_ok:
  assumes rep: "roots_rep d rs" and x: "map_of rs x = None" and room: "length rs < MAX_INDEX_COUNT" and v: "- 2147483648 \<le> v" "v < 2147483648"
  obtains d' where "IR_Insert d x v = Some (True, d')" "roots_rep d' (rs @ [(x, v)])"
proof -
  note D = roots_repD [OF rep]
  let ?n = "length rs"
  have n: "?n < 511" using room by (simp add: MAX_INDEX_COUNT_def PAGE_SIZE_def)
  have nx: "x \<notin> fst ` set rs" using x by (simp add: map_of_eq_None_iff)
  have fi: "IR_FindIndex d x = Some (- 1)"
    using IR_FindIndex_ok [OF rep, of x] root_index_map_of [OF D(4), of x] x by (auto split: option.splits)
  define d1 where "d1 = splice d (4 + 8 * ?n) (u32_bytes x)"
  define d2 where "d2 = splice d1 (8 + 8 * ?n) (u32_bytes (word_of_int v))"
  define d3 where "d3 = splice d2 0 (u32_bytes (word_of_int (int ?n + 1)))"
  have l: "length d1 = 4096" "length d2 = 4096" "length d3 = 4096" "length d = 4096" using D(1) n by (simp_all add: d1_def d2_def d3_def PAGE_SIZE_def)
  have "put_u32 d (4 + 8 * ?n) x = Some d1" "put_i32 d1 (8 + 8 * ?n) v = Some d2" "put_i32 d2 0 (int ?n + 1) = Some d3"
    using l n by (simp_all add: put_u32_at put_i32_at d1_def d2_def d3_def)
  then have "IR_Insert d x v = Some (True, d3)" using fi D(3) by (simp add: IR_Insert_def root_pos_def add.commute)
  moreover have "roots_rep d3 (rs @ [(x, v)])"
  proof -
    have old: "u32_at d3 off = u32_at d off" if "4 \<le> off" "off + 4 \<le> 4 + 8 * ?n" for off
      using that l n by (simp add: d1_def d2_def d3_def buf_simps)
    have new: "u32_at d3 (4 + 8 * ?n) = x" "u32_at d3 (8 + 8 * ?n) = word_of_int v" "u32_at d3 0 = of_nat (Suc ?n)"
      using l n by (simp_all add: d1_def d2_def d3_def buf_simps add.commute)
    have "u32_at d3 (4 + 8 * i) = fst ((rs @ [(x, v)]) ! i) \<and> u32_at d3 (8 + 8 * i) = word_of_int (snd ((rs @ [(x, v)]) ! i)) \<and>
        - 2147483648 \<le> snd ((rs @ [(x, v)]) ! i) \<and> snd ((rs @ [(x, v)]) ! i) < 2147483648" if "i < Suc ?n" for i
      using that rep old new v by (cases "i < ?n") (auto simp: roots_rep_def nth_append less_Suc_eq)
    then show ?thesis using rep l room nx new(3) by (simp add: roots_rep_def PAGE_SIZE_def image_iff)
  qed
  ultimately show thesis by (rule that)
qed

lemma IR_Update_ok:
  assumes rep: "roots_rep d rs" and v: "- 2147483648 \<le> v" "v < 2147483648"
  obtains d' where "IR_Update d x v = Some (map_of rs x \<noteq> None, d')" "roots_rep d' (map (\<lambda>(y, w). (y, if y = x then v else w)) rs)"
proof (cases "root_index x rs")
  case None
  then have "map_of rs x = None" using root_index_map_of [OF roots_repD(4) [OF rep], of x] by simp
  moreover from this have "map (\<lambda>(y, w). (y, if y = x then v else w)) rs = rs" by (intro map_idI) (auto simp: map_of_eq_None_iff image_iff)
  ultimately show thesis using that [of d] IR_FindIndex_ok [OF rep, of x] None rep by (simp add: IR_Update_def)
next
  case (Some i)
  note D = roots_repD [OF rep]
  have i: "i < length rs" "fst (rs ! i) = x" "map_of rs x = Some (snd (rs ! i))" using root_index_map_of [OF D(4), of x] Some by simp_all
  let ?d = "splice d (8 + 8 * i) (u32_bytes (word_of_int v))" and ?rs = "map (\<lambda>(y, w). (y, if y = x then v else w)) rs"
  have l: "length d = 4096" "i < 511" using D(1,2) i(1) by (simp_all add: PAGE_SIZE_def)
  have "IR_Update d x v = Some (map_of rs x \<noteq> None, ?d)"
    using IR_FindIndex_ok [OF rep, of x] Some i(3) l by (simp add: IR_Update_def root_pos_def put_i32_at add.commute)
  moreover have "roots_rep ?d ?rs"
  proof -
    have eqi: "fst (rs ! j) = x \<longleftrightarrow> j = i" if "j < length rs" for j
      using that i(1,2) nth_eq_iff_index_eq [OF D(4), of j i] by simp
    have "u32_at ?d (4 + 8 * j) = fst (?rs ! j) \<and> u32_at ?d (8 + 8 * j) = word_of_int (snd (?rs ! j)) \<and>
        - 2147483648 \<le> snd (?rs ! j) \<and> snd (?rs ! j) < 2147483648" if j: "j < length rs" for j
    proof -
      have b: "j < 511" using j D(2) by simp
      have a: "u32_at ?d (4 + 8 * j) = u32_at d (4 + 8 * j)" using l b by (intro u32_at_splice_other) (cases "j \<le> i"; simp)+
      have c: "u32_at ?d (8 + 8 * j) = (if j = i then word_of_int v else u32_at d (8 + 8 * j))"
      proof (cases "j = i")
        case False
        then have "Suc j \<le> i \<or> Suc i \<le> j" by arith
        then show ?thesis using False l b by (auto intro!: u32_at_splice_other)
      qed (use l in \<open>simp add: u32_at_splice_same\<close>)
      show ?thesis using a c eqi [OF j] rep j v by (cases "rs ! j") (auto simp: roots_rep_def)
    qed
    moreover have "u32_at ?d 0 = u32_at d 0" using l by (intro u32_at_splice_other) simp_all
    moreover have "distinct (map fst ?rs)" using D(4) by (simp add: case_prod_beta o_def)
    moreover have "length ?rs = length rs" "u32_at d 0 = of_nat (length rs)" "length rs \<le> MAX_INDEX_COUNT" using rep by (simp_all add: roots_rep_def)
    ultimately show ?thesis using l unfolding roots_rep_def by (simp only: length_splice) (simp add: PAGE_SIZE_def)
  qed
  ultimately show thesis by (rule that)
qed

lemma chunk_u32:
  assumes "chunk 4 8 d' j = chunk 4 8 d k"
  shows "u32_at d' (4 + 8 * j) = u32_at d (4 + 8 * k)" "u32_at d' (8 + 8 * j) = u32_at d (8 + 8 * k)"
proof -
  have s: "slice (slice b off 8) 0 4 = slice b off 4" "slice (slice b off 8) 4 4 = slice b (off + 4) 4" for b :: buffer and off
    by (simp_all add: slice_def drop_take add.commute)
  have "slice d' (4 + j * 8) 8 = slice d (4 + k * 8) 8" using assms by (simp add: chunk_def)
  from arg_cong [OF this, of "\<lambda>x. slice x 0 4"] arg_cong [OF this, of "\<lambda>x. slice x 4 4"]
  show "u32_at d' (4 + 8 * j) = u32_at d (4 + 8 * k)" "u32_at d' (8 + 8 * j) = u32_at d (8 + 8 * k)"
    unfolding s by (simp_all add: u32_at_def mult.commute add.commute)
qed

lemma IR_Delete_ok:
  assumes rep: "roots_rep d rs"
  obtains d' where "IR_Delete d x = Some (map_of rs x \<noteq> None, d')" "roots_rep d' (filter (\<lambda>r. fst r \<noteq> x) rs)"
proof (cases "root_index x rs")
  case None
  then have "map_of rs x = None" using root_index_map_of [OF roots_repD(4) [OF rep], of x] by simp
  moreover from this have "filter (\<lambda>r. fst r \<noteq> x) rs = rs" by (intro filter_True) (auto simp: map_of_eq_None_iff)
  ultimately show thesis using that [of d] IR_FindIndex_ok [OF rep, of x] None rep by (simp add: IR_Delete_def)
next
  case (Some i)
  note D = roots_repD [OF rep]
  have i: "i < length rs" "fst (rs ! i) = x" "map_of rs x = Some (snd (rs ! i))" using root_index_map_of [OF D(4), of x] Some by simp_all
  let ?rs = "take i rs @ drop (Suc i) rs"
  have len: "length ?rs = length rs - 1" "nat (int (length rs) - 1 - int i) = length rs - 1 - i" "i + (length rs - 1 - i) = length rs - 1" using i(1) by simp_all
  have f: "filter (\<lambda>r. fst r \<noteq> x) rs = ?rs"
  proof -
    have ne: "fst r \<noteq> x" if "r \<in> set ?rs" for r
    proof -
      have "distinct (map fst (take i rs @ rs ! i # drop (Suc i) rs))" using D(4) i(1) by (metis id_take_nth_drop)
      then show ?thesis using that i(2) by (auto simp: image_iff)
    qed
    have "filter (\<lambda>r. fst r \<noteq> x) (take i rs @ rs ! i # drop (Suc i) rs) = ?rs" using ne i(2) by (simp add: filter_id_conv)
    then show ?thesis using i(1) by (metis id_take_nth_drop)
  qed
  have room: "4 + length rs * 8 \<le> length d" using D(1,2) by (simp add: PAGE_SIZE_def)
  have b: "i + (length rs - 1 - i) < length rs" using i(1) by simp
  obtain d1 where d1: "shift_down 4 8 d (int i) (length rs - 1 - i) = Some d1" "length d1 = length d"
    "\<forall>y m. y + m \<le> 4 \<longrightarrow> slice d1 y m = slice d y m"
    "\<forall>j. chunk 4 8 d1 j = (if i \<le> j \<and> j < length rs - 1 then chunk 4 8 d (Suc j) else chunk 4 8 d j)"
    using shift_down_ok [OF room b] unfolding len by blast
  let ?d = "splice d1 0 (u32_bytes (word_of_int (int (length rs) - 1)))"
  have l: "length d1 = 4096" using d1(2) D(1) by (simp add: PAGE_SIZE_def)
  have c0: "get_i32 d 0 = Some (int (length rs))" using D(3) .
  have "IR_Delete d x = Some (map_of rs x \<noteq> None, ?d)"
    using IR_FindIndex_ok [OF rep, of x] Some i(3) c0 d1(1) l len(2) by (simp add: IR_Delete_def put_i32_at)
  moreover have "roots_rep ?d ?rs"
  proof -
    have "u32_at ?d (4 + 8 * j) = fst (?rs ! j) \<and> u32_at ?d (8 + 8 * j) = word_of_int (snd (?rs ! j)) \<and>
        - 2147483648 \<le> snd (?rs ! j) \<and> snd (?rs ! j) < 2147483648" if j: "j < length rs - 1" for j
    proof -
      let ?k = "if i \<le> j then Suc j else j"
      have k: "?k < length rs" "?rs ! j = rs ! ?k" using j i(1) by (auto simp: nth_append)
      have "chunk 4 8 d1 j = chunk 4 8 d ?k" using d1(4) j by simp
      from chunk_u32 [OF this] have "u32_at d1 (4 + 8 * j) = u32_at d (4 + 8 * ?k)" "u32_at d1 (8 + 8 * j) = u32_at d (8 + 8 * ?k)" .
      moreover have "u32_at ?d (4 + 8 * j) = u32_at d1 (4 + 8 * j)" "u32_at ?d (8 + 8 * j) = u32_at d1 (8 + 8 * j)"
        using l by (intro u32_at_splice_other; simp)+
      ultimately show ?thesis using rep k by (simp add: roots_rep_def)
    qed
    moreover have "u32_at ?d 0 = of_nat (length ?rs)" unfolding len(1) using l i(1) by (simp add: u32_at_splice_same of_nat_diff)
    moreover have "distinct (map fst ?rs)" using distinct_filter [of "map fst rs" "\<lambda>y. y \<noteq> x"] D(4) unfolding f [symmetric] by (simp add: filter_map o_def distinct_map_filter)
    moreover have "length rs - 1 \<le> 511" using D(2) by simp
    ultimately show ?thesis using l unfolding roots_rep_def len(1) by (simp add: PAGE_SIZE_def MAX_INDEX_COUNT_def)
  qed
  ultimately show thesis using that unfolding f by blast
qed

lemma IR_Init_ok: "length d = PAGE_SIZE \<Longrightarrow> \<exists>d'. IR_Init d = Some d' \<and> roots_rep d' []"
  by (simp add: IR_Init_def put_i32_at PAGE_SIZE_def roots_rep_def buf_simps)

section \<open>Properties\<close>

text \<open>
  C36: the index roots page is a map. On a page whose entries are \<open>rs\<close>, with distinct index ids, \<^verbatim>\<open>GetRootId\<close> looks an
  index up, \<^verbatim>\<open>Insert\<close> of a new index adds it (if there is room for one more pair), \<^verbatim>\<open>Update\<close> changes the root of an existing index
  only and \<^verbatim>\<open>Delete\<close> removes it; each reports whether the index was there.
\<close>

theorem index_roots_map:
  assumes rep: "roots_rep d rs" and v: "- 2147483648 \<le> v" "v < 2147483648"
  shows "IR_GetRootId d x = Some (map_of rs x) \<and>
    (map_of rs x = None \<and> length rs < MAX_INDEX_COUNT \<longrightarrow> (\<exists>d'. IR_Insert d x v = Some (True, d') \<and> roots_rep d' (rs @ [(x, v)]))) \<and>
    (map_of rs x \<noteq> None \<longrightarrow> IR_Insert d x v = Some (False, d)) \<and>
    (\<exists>d'. IR_Update d x v = Some (map_of rs x \<noteq> None, d') \<and> roots_rep d' (map (\<lambda>(y, w). (y, if y = x then v else w)) rs)) \<and>
    (\<exists>d'. IR_Delete d x = Some (map_of rs x \<noteq> None, d') \<and> roots_rep d' (filter (\<lambda>r. fst r \<noteq> x) rs))"
proof (intro conjI impI)
  show "IR_GetRootId d x = Some (map_of rs x)" by (rule IR_GetRootId_ok [OF rep])
  show "\<exists>d'. IR_Insert d x v = Some (True, d') \<and> roots_rep d' (rs @ [(x, v)])" if "map_of rs x = None \<and> length rs < MAX_INDEX_COUNT"
    by (rule IR_Insert_ok [OF rep _ _ v]) (use that in auto)
  show "IR_Insert d x v = Some (False, d)" if "map_of rs x \<noteq> None"
    using that IR_FindIndex_ok [OF rep, of x] root_index_map_of [OF roots_repD(4) [OF rep], of x]
    by (auto simp: IR_Insert_def split: option.splits)
  show "\<exists>d'. IR_Update d x v = Some (map_of rs x \<noteq> None, d') \<and> roots_rep d' (map (\<lambda>(y, w). (y, if y = x then v else w)) rs)"
    by (rule IR_Update_ok [OF rep v]) blast
  show "\<exists>d'. IR_Delete d x = Some (map_of rs x \<noteq> None, d') \<and> roots_rep d' (filter (\<lambda>r. fst r \<noteq> x) rs)"
    by (rule IR_Delete_ok [OF rep]) blast
qed

theorem index_roots_map_witness:
  "\<exists>d d'. IR_Init (replicate PAGE_SIZE 0) = Some d \<and> IR_Insert d 3 9 = Some (True, d') \<and> IR_GetRootId d' 3 = Some (Some 9) \<and>
     IR_GetRootId d' 4 = Some None"
proof -
  obtain d where d: "IR_Init (replicate PAGE_SIZE 0) = Some d" "roots_rep d []" using IR_Init_ok [OF length_replicate [of PAGE_SIZE 0]] by blast
  obtain d' where d': "IR_Insert d 3 9 = Some (True, d')" "roots_rep d' ([] @ [(3, 9)])"
    using index_roots_map [OF d(2), of 9 3] by (auto simp: MAX_INDEX_COUNT_def PAGE_SIZE_def)
  from index_roots_map [OF d'(2), of 0 3] index_roots_map [OF d'(2), of 0 4] d d' show ?thesis by auto
qed

end
