(* ===== verification/B_Plus_Tree.thy ===== *)
theory B_Plus_Tree
  imports Buffer_Pool Internal_Page Index_Roots
begin

text \<open>
  The B+ tree: \<^verbatim>\<open>BPlusTree\<close> of \<^verbatim>\<open>include/index/b_plus_tree.h\<close> and \<^verbatim>\<open>index/b_plus_tree.cpp\<close>, and its iterator
  (\<^verbatim>\<open>index/index_iterator.cpp\<close>), over the buffer pool. A pointer to a node is the number of the frame that holds its page, a pointer
  to a key stored in a node is a frame with an offset; both are dereferenced at the time of use, also after the page has been unpinned.
  A missing frame (a null page) that the code dereferences is undefined. Loops and recursions that a damaged tree could keep
  running are partial functions: not returning is \<open>None\<close>. The \<^verbatim>\<open>std::runtime_error\<close> of a full pool is the outcome \<open>Thrown\<close>.
\<close>

section \<open>State and access to pages\<close>

record btree =
  bt_index_id :: u32
  bt_root :: int
  bt_bpm :: bpm
  bt_km :: key_manager
  bt_leaf_max :: int
  bt_int_max :: int

datatype 'a outcome = Thrown | Done 'a

abbreviation bt_cmp :: "btree \<Rightarrow> generic_key \<Rightarrow> generic_key \<Rightarrow> int option" where
  "bt_cmp t \<equiv> CompareKeys (bt_km t)"

text \<open>\<^verbatim>\<open>FetchPage(p)\<close> with a null result, and \<^verbatim>\<open>FetchPage(p)->GetData()\<close>, which must not be null.\<close>

definition fetch_or_null :: "btree \<Rightarrow> int \<Rightarrow> (int option \<times> btree) option" where
  "fetch_or_null t p = do { (fo, b) \<leftarrow> BPM_FetchPage (bt_bpm t) p; Some (fo, t\<lparr>bt_bpm := b\<rparr>) }"

definition fetch_node :: "btree \<Rightarrow> int \<Rightarrow> (int \<times> btree) option" where
  "fetch_node t p = do { (fo, t) \<leftarrow> fetch_or_null t p; f \<leftarrow> fo; Some (f, t) }"

definition new_node :: "btree \<Rightarrow> ((int \<times> int) option \<times> btree) option" where
  "new_node t = do { (r, b) \<leftarrow> BPM_NewPage (bt_bpm t); Some (r, t\<lparr>bt_bpm := b\<rparr>) }"

definition unpin_node :: "btree \<Rightarrow> int \<Rightarrow> bool \<Rightarrow> btree option" where
  "unpin_node t p is_dirty = do { (_, b) \<leftarrow> BPM_UnpinPage (bt_bpm t) p is_dirty; Some (t\<lparr>bt_bpm := b\<rparr>) }"

definition delete_node :: "btree \<Rightarrow> int \<Rightarrow> btree option" where
  "delete_node t p = do { (_, b) \<leftarrow> BPM_DeletePage (bt_bpm t) p; Some (t\<lparr>bt_bpm := b\<rparr>) }"

definition node_data :: "btree \<Rightarrow> int \<Rightarrow> buffer option" where
  "node_data t f = map_option pg_data (vector_get (bpm_pages (bt_bpm t)) f)"

definition put_node :: "btree \<Rightarrow> int \<Rightarrow> buffer \<Rightarrow> btree option" where
  "put_node t f d = do { b \<leftarrow> write_frame (bt_bpm t) f d; Some (t\<lparr>bt_bpm := b\<rparr>) }"

text \<open>The \<open>n\<close> bytes behind a key pointer.\<close>

definition key_at_ptr :: "btree \<Rightarrow> int \<times> nat \<Rightarrow> int \<Rightarrow> generic_key option" where
  "key_at_ptr t kp n = do { d \<leftarrow> node_data t (fst kp); mem_read d (snd kp) (nat n) }"

section \<open>Construction and destruction\<close>

definition UNDEFINED_SIZE :: int where "UNDEFINED_SIZE = 0"

definition BPlusTree_new :: "u32 \<Rightarrow> bpm \<Rightarrow> key_manager \<Rightarrow> int \<Rightarrow> int \<Rightarrow> btree option" where
  "BPlusTree_new index_id b km leaf_max_size internal_max_size = do {
     let leaf_max_size_cal = int ((PAGE_SIZE - LEAF_PAGE_HEADER_SIZE) div (8 + km_key_size km)) - 1;
     let internal_max_size_cal = int ((PAGE_SIZE - INTERNAL_PAGE_HEADER_SIZE) div (8 + km_key_size km)) - 1;
     let t = \<lparr>bt_index_id = index_id, bt_root = INVALID_PAGE_ID, bt_bpm = b, bt_km = km,
       bt_leaf_max = (if leaf_max_size \<noteq> UNDEFINED_SIZE then leaf_max_size else leaf_max_size_cal),
       bt_int_max = (if internal_max_size \<noteq> UNDEFINED_SIZE then internal_max_size else internal_max_size_cal)\<rparr>;
     (f, t) \<leftarrow> fetch_node t INDEX_ROOTS_PAGE_ID;
     d \<leftarrow> node_data t f;
     r \<leftarrow> IR_GetRootId d index_id;
     let t = (case r of None \<Rightarrow> t | Some root \<Rightarrow> t\<lparr>bt_root := root\<rparr>);
     unpin_node t INDEX_ROOTS_PAGE_ID True }"

text \<open>The recursion and the loop over the children; the bound is on the number of calls.\<close>

fun Destroy :: "nat \<Rightarrow> btree \<Rightarrow> int \<Rightarrow> btree option"
  and destroy_children :: "nat \<Rightarrow> btree \<Rightarrow> int \<Rightarrow> int \<Rightarrow> btree option" where
  "Destroy 0 t current_page_id = None"
| "Destroy (Suc n) t current_page_id = do {
     let current_page_id = (if current_page_id = INVALID_PAGE_ID then bt_root t else current_page_id);
     if current_page_id = INVALID_PAGE_ID then Some t
     else do {
       (fo, t) \<leftarrow> fetch_or_null t current_page_id;
       case fo of None \<Rightarrow> Some t
       | Some f \<Rightarrow> do {
           d \<leftarrow> node_data t f;
           leaf \<leftarrow> IsLeafPage d;
           t \<leftarrow> (if leaf then Some t else destroy_children n t f 0);
           t \<leftarrow> unpin_node t current_page_id False;
           delete_node t current_page_id } } }"
| "destroy_children 0 t f i = None"
| "destroy_children (Suc n) t f i = do {
     d \<leftarrow> node_data t f;
     size \<leftarrow> BP_GetSize d;
     if i < size then do {
       v \<leftarrow> Int_ValueAt d i;
       t \<leftarrow> Destroy n t v;
       destroy_children n t f (i + 1) }
     else Some t }"

definition BT_IsEmpty :: "btree \<Rightarrow> bool" where "BT_IsEmpty t \<longleftrightarrow> bt_root t = INVALID_PAGE_ID"

definition UpdateRootPageId :: "btree \<Rightarrow> int \<Rightarrow> btree option" where
  "UpdateRootPageId t insert_record = do {
     (f, t) \<leftarrow> fetch_node t INDEX_ROOTS_PAGE_ID;
     d \<leftarrow> node_data t f;
     (_, d) \<leftarrow> (if insert_record \<noteq> 0 then IR_Insert d (bt_index_id t) (bt_root t) else IR_Update d (bt_index_id t) (bt_root t));
     t \<leftarrow> put_node t f d;
     unpin_node t INDEX_ROOTS_PAGE_ID True }"

section \<open>Search\<close>

partial_function (option) find_leaf_loop :: "btree \<Rightarrow> int \<Rightarrow> generic_key \<Rightarrow> bool \<Rightarrow> (int \<times> btree) option" where
  "find_leaf_loop t f key leftMost = do {
     d \<leftarrow> node_data t f;
     leaf \<leftarrow> IsLeafPage d;
     if leaf then Some (f, t)
     else do {
       page_id \<leftarrow> (if leftMost then Int_ValueAt d 0 else Int_Lookup (bt_cmp t) d key);
       self \<leftarrow> BP_GetPageId d;
       t \<leftarrow> unpin_node t self False;
       (f, t) \<leftarrow> fetch_node t page_id;
       find_leaf_loop t f key leftMost } }"

text \<open>The result is the frame of the leaf, or null for an empty tree.\<close>

definition FindLeafPage :: "btree \<Rightarrow> generic_key \<Rightarrow> int \<Rightarrow> bool \<Rightarrow> (int option \<times> btree) option" where
  "FindLeafPage t key page_id leftMost =
     (if BT_IsEmpty t then Some (None, t)
      else do {
        (f, t) \<leftarrow> fetch_node t (if page_id = INVALID_PAGE_ID then bt_root t else page_id);
        (f, t) \<leftarrow> find_leaf_loop t f key leftMost;
        Some (Some f, t) })"

text \<open>The result is the row id pushed on the result vector, if any.\<close>

definition GetValue :: "btree \<Rightarrow> generic_key \<Rightarrow> (rowid option \<times> btree) option" where
  "GetValue t key =
     (if BT_IsEmpty t then Some (None, t)
      else do {
        (fo, t) \<leftarrow> FindLeafPage t key INVALID_PAGE_ID False;
        case fo of None \<Rightarrow> Some (None, t)
        | Some f \<Rightarrow> do {
            d \<leftarrow> node_data t f;
            r \<leftarrow> Leaf_Lookup (bt_cmp t) d key;
            self \<leftarrow> BP_GetPageId d;
            t \<leftarrow> unpin_node t self False;
            Some (r, t) } })"

section \<open>Insertion\<close>

definition StartNewTree :: "btree \<Rightarrow> generic_key \<Rightarrow> rowid \<Rightarrow> (unit outcome \<times> btree) option" where
  "StartNewTree t key value = do {
     (r, t) \<leftarrow> new_node t;
     case r of None \<Rightarrow> Some (Thrown, t)
     | Some (page_id, f) \<Rightarrow> do {
         let t = t\<lparr>bt_root := page_id\<rparr>;
         t \<leftarrow> UpdateRootPageId t 1;
         d \<leftarrow> node_data t f;
         d \<leftarrow> Leaf_Init d page_id INVALID_PAGE_ID (int (km_key_size (bt_km t))) (bt_leaf_max t);
         (_, d) \<leftarrow> Leaf_Insert (bt_cmp t) d key value;
         t \<leftarrow> put_node t f d;
         t \<leftarrow> unpin_node t page_id True;
         Some (Done (), t) } }"

text \<open>
  \<^verbatim>\<open>SetParentPageId\<close> for each moved child: the last part of \<^verbatim>\<open>CopyNFrom\<close>, \<^verbatim>\<open>CopyLastFrom\<close> and \<^verbatim>\<open>CopyFirstFrom\<close> of internal pages. A
  child that cannot be fetched is skipped.
\<close>

fun adopt :: "btree \<Rightarrow> int \<Rightarrow> int list \<Rightarrow> btree option" where
  "adopt t f [] = Some t"
| "adopt t f (c # cs) = do {
     (fo, t) \<leftarrow> fetch_or_null t c;
     t \<leftarrow> (case fo of None \<Rightarrow> Some t
       | Some g \<Rightarrow> do {
           d \<leftarrow> node_data t f;
           self \<leftarrow> BP_GetPageId d;
           e \<leftarrow> node_data t g;
           e \<leftarrow> BP_SetParentPageId e self;
           t \<leftarrow> put_node t g e;
           unpin_node t c True });
     adopt t f cs }"

text \<open>The new page may not be given the frame of the page that is split.\<close>

definition Split_internal :: "btree \<Rightarrow> int \<Rightarrow> (int outcome \<times> btree) option" where
  "Split_internal t f = do {
     (r, t) \<leftarrow> new_node t;
     case r of None \<Rightarrow> Some (Thrown, t)
     | Some (page_id, g) \<Rightarrow> do {
         ensure (g \<noteq> f);
         d \<leftarrow> node_data t f;
         e \<leftarrow> node_data t g;
         parent_id \<leftarrow> BP_GetParentPageId d;
         ks \<leftarrow> BP_GetKeySize d;
         m \<leftarrow> BP_GetMaxSize d;
         e \<leftarrow> Int_Init e page_id parent_id ks m;
         (d, e, cs) \<leftarrow> Int_MoveHalfTo d e;
         t \<leftarrow> put_node t f d;
         t \<leftarrow> put_node t g e;
         t \<leftarrow> adopt t g cs;
         e \<leftarrow> node_data t g;
         self \<leftarrow> BP_GetPageId e;
         t \<leftarrow> unpin_node t self True;
         Some (Done g, t) } }"

definition Split_leaf :: "btree \<Rightarrow> int \<Rightarrow> (int outcome \<times> btree) option" where
  "Split_leaf t f = do {
     (r, t) \<leftarrow> new_node t;
     case r of None \<Rightarrow> Some (Thrown, t)
     | Some (page_id, g) \<Rightarrow> do {
         ensure (g \<noteq> f);
         d \<leftarrow> node_data t f;
         e \<leftarrow> node_data t g;
         parent_id \<leftarrow> BP_GetParentPageId d;
         ks \<leftarrow> BP_GetKeySize d;
         m \<leftarrow> BP_GetMaxSize d;
         e \<leftarrow> Leaf_Init e page_id parent_id ks m;
         (d, e) \<leftarrow> Leaf_MoveHalfTo d e;
         next_id \<leftarrow> Leaf_GetNextPageId d;
         e \<leftarrow> Leaf_SetNextPageId e next_id;
         self \<leftarrow> BP_GetPageId e;
         d \<leftarrow> Leaf_SetNextPageId d self;
         t \<leftarrow> put_node t f d;
         t \<leftarrow> put_node t g e;
         t \<leftarrow> unpin_node t self True;
         Some (Done g, t) } }"

text \<open>The first branch of \<^verbatim>\<open>InsertIntoParent\<close>: the split node was the root.\<close>

definition insert_new_root :: "btree \<Rightarrow> int \<Rightarrow> int \<times> nat \<Rightarrow> int \<Rightarrow> (unit outcome \<times> btree) option" where
  "insert_new_root t old key new = do {
     (r, t) \<leftarrow> new_node t;
     case r of None \<Rightarrow> Some (Thrown, t)
     | Some (page_id, f) \<Rightarrow> do {
         ensure (f \<noteq> old \<and> f \<noteq> new \<and> f \<noteq> fst key);
         d \<leftarrow> node_data t old;
         e \<leftarrow> node_data t f;
         ks \<leftarrow> BP_GetKeySize d;
         e \<leftarrow> Int_Init e page_id INVALID_PAGE_ID ks (bt_int_max t);
         leaf \<leftarrow> IsLeafPage d;
         k0 \<leftarrow> (if leaf then Leaf_KeyAt d 0 else Int_KeyAt d 0);
         e \<leftarrow> Int_SetKeyAt e 0 k0;
         old_id \<leftarrow> BP_GetPageId d;
         e \<leftarrow> Int_SetValueAt e 0 old_id;
         k1 \<leftarrow> key_at_ptr t key ks;
         e \<leftarrow> Int_SetKeyAt e 1 k1;
         nd \<leftarrow> node_data t new;
         new_id \<leftarrow> BP_GetPageId nd;
         e \<leftarrow> Int_SetValueAt e 1 new_id;
         e \<leftarrow> BP_SetSize e 2;
         t \<leftarrow> put_node t f e;
         root_id \<leftarrow> BP_GetPageId e;
         d \<leftarrow> BP_SetParentPageId d root_id;
         t \<leftarrow> put_node t old d;
         nd \<leftarrow> node_data t new;
         nd \<leftarrow> BP_SetParentPageId nd root_id;
         t \<leftarrow> put_node t new nd;
         let t = t\<lparr>bt_root := root_id\<rparr>;
         t \<leftarrow> UpdateRootPageId t 0;
         t \<leftarrow> unpin_node t root_id True;
         Some (Done (), t) } }"

partial_function (option) InsertIntoParent :: "btree \<Rightarrow> int \<Rightarrow> int \<times> nat \<Rightarrow> int \<Rightarrow> (unit outcome \<times> btree) option" where
  "InsertIntoParent t old key new = do {
     d \<leftarrow> node_data t old;
     is_root \<leftarrow> BP_IsRootPage d;
     if is_root then insert_new_root t old key new
     else do {
       parent_id \<leftarrow> BP_GetParentPageId d;
       (f, t) \<leftarrow> fetch_node t parent_id;
       ensure (f \<noteq> fst key);
       p \<leftarrow> node_data t f;
       d \<leftarrow> node_data t old;
       old_id \<leftarrow> BP_GetPageId d;
       ks \<leftarrow> BP_GetKeySize p;
       k \<leftarrow> key_at_ptr t key ks;
       nd \<leftarrow> node_data t new;
       new_id \<leftarrow> BP_GetPageId nd;
       (size, p) \<leftarrow> InsertNodeAfter p old_id k new_id;
       t \<leftarrow> put_node t f p;
       m \<leftarrow> BP_GetMaxSize p;
       (r, t) \<leftarrow> (if size > m then do {
           (s, t) \<leftarrow> Split_internal t f;
           case s of Thrown \<Rightarrow> Some (Thrown, t)
           | Done g \<Rightarrow> InsertIntoParent t f (g, INTERNAL_PAGE_HEADER_SIZE) g }
         else Some (Done (), t));
       case r of Thrown \<Rightarrow> Some (Thrown, t)
       | Done _ \<Rightarrow> do { t \<leftarrow> unpin_node t parent_id True; Some (Done (), t) } } }"

definition InsertIntoLeaf :: "btree \<Rightarrow> generic_key \<Rightarrow> rowid \<Rightarrow> (bool outcome \<times> btree) option" where
  "InsertIntoLeaf t key value = do {
     (fo, t) \<leftarrow> FindLeafPage t key INVALID_PAGE_ID False;
     case fo of None \<Rightarrow> Some (Done False, t)
     | Some f \<Rightarrow> do {
         d \<leftarrow> node_data t f;
         r \<leftarrow> Leaf_Lookup (bt_cmp t) d key;
         self \<leftarrow> BP_GetPageId d;
         if r \<noteq> None then do { t \<leftarrow> unpin_node t self False; Some (Done False, t) }
         else do {
           (_, d) \<leftarrow> Leaf_Insert (bt_cmp t) d key value;
           t \<leftarrow> put_node t f d;
           t \<leftarrow> unpin_node t self True;
           d \<leftarrow> node_data t f;
           size \<leftarrow> BP_GetSize d;
           if size > bt_leaf_max t then do {
             (s, t) \<leftarrow> Split_leaf t f;
             case s of Thrown \<Rightarrow> Some (Thrown, t)
             | Done g \<Rightarrow> do {
                 (s, t) \<leftarrow> InsertIntoParent t f (g, LEAF_PAGE_HEADER_SIZE) g;
                 case s of Thrown \<Rightarrow> Some (Thrown, t) | Done _ \<Rightarrow> Some (Done True, t) } }
           else Some (Done True, t) } } }"

definition BT_Insert :: "btree \<Rightarrow> generic_key \<Rightarrow> rowid \<Rightarrow> (bool outcome \<times> btree) option" where
  "BT_Insert t key value =
     (if BT_IsEmpty t then do {
        (s, t) \<leftarrow> StartNewTree t key value;
        case s of Thrown \<Rightarrow> Some (Thrown, t) | Done _ \<Rightarrow> Some (Done True, t) }
      else InsertIntoLeaf t key value)"

section \<open>Removal\<close>

definition AdjustRoot :: "btree \<Rightarrow> int \<Rightarrow> (bool \<times> btree) option" where
  "AdjustRoot t old_root = do {
     d \<leftarrow> node_data t old_root;
     size \<leftarrow> BP_GetSize d;
     if size > 1 then Some (False, t)
     else do {
       leaf \<leftarrow> IsLeafPage d;
       t \<leftarrow> (if leaf then Some (t\<lparr>bt_root := INVALID_PAGE_ID\<rparr>)
         else do {
           v0 \<leftarrow> Int_ValueAt d 0;
           (f, t) \<leftarrow> fetch_node (t\<lparr>bt_root := v0\<rparr>) v0;
           e \<leftarrow> node_data t f;
           n \<leftarrow> BP_GetSize e;
           d \<leftarrow> node_data t old_root;
           r \<leftarrow> (if n = 0 then Int_ValueAt d 1 else Some v0);
           (fo, t) \<leftarrow> fetch_or_null (t\<lparr>bt_root := r\<rparr>) r;
           case fo of None \<Rightarrow> Some t
           | Some g \<Rightarrow> do {
               e \<leftarrow> node_data t g;
               e \<leftarrow> BP_SetParentPageId e INVALID_PAGE_ID;
               t \<leftarrow> put_node t g e;
               unpin_node t r True } });
       d \<leftarrow> node_data t old_root;
       self \<leftarrow> BP_GetPageId d;
       t \<leftarrow> delete_node t self;
       Some (True, t) } }"

text \<open>
  \<^verbatim>\<open>Coalesce\<close> up to its test of the parent's size: \<open>node\<close> is emptied into \<open>neighbor\<close> and deleted.
\<close>

definition coalesce_leaf_move :: "btree \<Rightarrow> int \<Rightarrow> int \<Rightarrow> int \<Rightarrow> int \<Rightarrow> btree option" where
  "coalesce_leaf_move t neighbor node parent index = do {
     d \<leftarrow> node_data t node;
     e \<leftarrow> node_data t neighbor;
     (d, e) \<leftarrow> Leaf_MoveAllTo d e;
     t \<leftarrow> put_node t node d;
     t \<leftarrow> put_node t neighbor e;
     self \<leftarrow> BP_GetPageId d;
     t \<leftarrow> unpin_node t self False;
     d \<leftarrow> node_data t node;
     self \<leftarrow> BP_GetPageId d;
     t \<leftarrow> delete_node t self;
     p \<leftarrow> node_data t parent;
     p \<leftarrow> Int_Remove p index;
     put_node t parent p }"

definition coalesce_internal_move :: "btree \<Rightarrow> int \<Rightarrow> int \<Rightarrow> int \<Rightarrow> int \<Rightarrow> btree option" where
  "coalesce_internal_move t neighbor node parent index = do {
     d \<leftarrow> node_data t node;
     e \<leftarrow> node_data t neighbor;
     p \<leftarrow> node_data t parent;
     k \<leftarrow> Int_KeyAt p (index + 1);
     (d, e, cs) \<leftarrow> Int_MoveAllTo d e k;
     t \<leftarrow> put_node t node d;
     t \<leftarrow> put_node t neighbor e;
     t \<leftarrow> adopt t neighbor cs;
     d \<leftarrow> node_data t node;
     self \<leftarrow> BP_GetPageId d;
     t \<leftarrow> unpin_node t self False;
     d \<leftarrow> node_data t node;
     self \<leftarrow> BP_GetPageId d;
     t \<leftarrow> delete_node t self;
     p \<leftarrow> node_data t parent;
     p \<leftarrow> Int_Remove p index;
     put_node t parent p }"

definition Redistribute_leaf :: "btree \<Rightarrow> int \<Rightarrow> int \<Rightarrow> int \<Rightarrow> btree option" where
  "Redistribute_leaf t neighbor node index = do {
     d \<leftarrow> node_data t node;
     parent_id \<leftarrow> BP_GetParentPageId d;
     (f, t) \<leftarrow> fetch_node t parent_id;
     e \<leftarrow> node_data t neighbor;
     d \<leftarrow> node_data t node;
     (e, d) \<leftarrow> (if index = 0 then Leaf_MoveFirstToEndOf e d else Leaf_MoveLastToFrontOf e d);
     t \<leftarrow> put_node t neighbor e;
     t \<leftarrow> put_node t node d;
     p \<leftarrow> node_data t f;
     p \<leftarrow> (if index = 0 then do { k \<leftarrow> Leaf_KeyAt e 0; Int_SetKeyAt p 1 k }
       else do { k \<leftarrow> Leaf_KeyAt d 0; Int_SetKeyAt p index k });
     t \<leftarrow> put_node t f p;
     unpin_node t parent_id False }"

definition Redistribute_internal :: "btree \<Rightarrow> int \<Rightarrow> int \<Rightarrow> int \<Rightarrow> btree option" where
  "Redistribute_internal t neighbor node index = do {
     d \<leftarrow> node_data t node;
     parent_id \<leftarrow> BP_GetParentPageId d;
     (f, t) \<leftarrow> fetch_node t parent_id;
     p \<leftarrow> node_data t f;
     e \<leftarrow> node_data t neighbor;
     d \<leftarrow> node_data t node;
     (e, d, cs) \<leftarrow> (if index = 0 then do { k \<leftarrow> Int_KeyAt p 1; Int_MoveFirstToEndOf e d k }
       else do { k \<leftarrow> Int_KeyAt p index; Int_MoveLastToFrontOf e d k });
     t \<leftarrow> put_node t neighbor e;
     t \<leftarrow> put_node t node d;
     t \<leftarrow> adopt t node cs;
     p \<leftarrow> node_data t f;
     e \<leftarrow> node_data t neighbor;
     d \<leftarrow> node_data t node;
     p \<leftarrow> (if index = 0 then do { k \<leftarrow> Int_KeyAt e 0; Int_SetKeyAt p 1 k }
       else do { k \<leftarrow> Int_KeyAt d 0; Int_SetKeyAt p index k });
     t \<leftarrow> put_node t f p;
     unpin_node t parent_id False }"

text \<open>
  \<^verbatim>\<open>CoalesceOrRedistribute\<close> for internal nodes, with the tail of \<^verbatim>\<open>Coalesce\<close>, and for leaves. The references \<^verbatim>\<open>node\<close> and
  \<^verbatim>\<open>parent\<close> are never reassigned.
\<close>

partial_function (option) CoalesceOrRedistribute_internal :: "btree \<Rightarrow> int \<Rightarrow> (bool \<times> btree) option" where
  "CoalesceOrRedistribute_internal t node = do {
     d \<leftarrow> node_data t node;
     is_root \<leftarrow> BP_IsRootPage d;
     if is_root then AdjustRoot t node
     else do {
       parent_id \<leftarrow> BP_GetParentPageId d;
       (parent, t) \<leftarrow> fetch_node t parent_id;
       p \<leftarrow> node_data t parent;
       d \<leftarrow> node_data t node;
       self \<leftarrow> BP_GetPageId d;
       index \<leftarrow> Int_ValueIndex p self;
       let sibling_index = (if index = 0 then 1 else index - 1);
       sib_id \<leftarrow> Int_ValueAt p sibling_index;
       (sibling, t) \<leftarrow> fetch_node t sib_id;
       d \<leftarrow> node_data t node;
       e \<leftarrow> node_data t sibling;
       n \<leftarrow> BP_GetSize d;
       m \<leftarrow> BP_GetSize e;
       mx \<leftarrow> BP_GetMaxSize d;
       (should_delete, t) \<leftarrow> (if n + m < mx then do {
           t \<leftarrow> (if index = 0 then coalesce_internal_move t node sibling parent index
             else coalesce_internal_move t sibling node parent sibling_index);
           p \<leftarrow> node_data t parent;
           n \<leftarrow> BP_GetSize p;
           mn \<leftarrow> BP_GetMinSize p;
           if n < mn then CoalesceOrRedistribute_internal t parent else Some (False, t) }
         else do { t \<leftarrow> Redistribute_internal t sibling node index; Some (False, t) });
       e \<leftarrow> node_data t sibling;
       sib \<leftarrow> BP_GetPageId e;
       t \<leftarrow> unpin_node t sib True;
       t \<leftarrow> unpin_node t parent_id True;
       Some (should_delete, t) } }"

definition CoalesceOrRedistribute_leaf :: "btree \<Rightarrow> int \<Rightarrow> (bool \<times> btree) option" where
  "CoalesceOrRedistribute_leaf t node = do {
     d \<leftarrow> node_data t node;
     is_root \<leftarrow> BP_IsRootPage d;
     if is_root then AdjustRoot t node
     else do {
       parent_id \<leftarrow> BP_GetParentPageId d;
       (parent, t) \<leftarrow> fetch_node t parent_id;
       p \<leftarrow> node_data t parent;
       d \<leftarrow> node_data t node;
       self \<leftarrow> BP_GetPageId d;
       index \<leftarrow> Int_ValueIndex p self;
       let sibling_index = (if index = 0 then 1 else index - 1);
       sib_id \<leftarrow> Int_ValueAt p sibling_index;
       (sibling, t) \<leftarrow> fetch_node t sib_id;
       d \<leftarrow> node_data t node;
       e \<leftarrow> node_data t sibling;
       n \<leftarrow> BP_GetSize d;
       m \<leftarrow> BP_GetSize e;
       mx \<leftarrow> BP_GetMaxSize d;
       (should_delete, t) \<leftarrow> (if n + m < mx then do {
           t \<leftarrow> (if index = 0 then coalesce_leaf_move t node sibling parent index
             else coalesce_leaf_move t sibling node parent sibling_index);
           p \<leftarrow> node_data t parent;
           n \<leftarrow> BP_GetSize p;
           mn \<leftarrow> BP_GetMinSize p;
           if n < mn then CoalesceOrRedistribute_internal t parent else Some (False, t) }
         else do { t \<leftarrow> Redistribute_leaf t sibling node index; Some (False, t) });
       e \<leftarrow> node_data t sibling;
       sib \<leftarrow> BP_GetPageId e;
       t \<leftarrow> unpin_node t sib True;
       t \<leftarrow> unpin_node t parent_id True;
       Some (should_delete, t) } }"

text \<open>
  The loop of \<^verbatim>\<open>Remove\<close> that copies the first key of \<open>node\<close> over its separator in \<open>parent\<close>: it stops at the first entry for the
  node. The result is that index, or -1.
\<close>

definition update_separator :: "btree \<Rightarrow> int \<Rightarrow> int \<Rightarrow> generic_key \<Rightarrow> (int \<times> btree) option" where
  "update_separator t parent node k = do {
     p \<leftarrow> node_data t parent;
     d \<leftarrow> node_data t node;
     self \<leftarrow> BP_GetPageId d;
     i \<leftarrow> Int_ValueIndex p self;
     if i = - 1 then Some (i, t)
     else do { p \<leftarrow> Int_SetKeyAt p i k; t \<leftarrow> put_node t parent p; Some (i, t) } }"

definition BT_Remove :: "btree \<Rightarrow> generic_key \<Rightarrow> btree option" where
  "BT_Remove t key =
     (if BT_IsEmpty t then Some t
      else do {
        (fo, t) \<leftarrow> FindLeafPage t key INVALID_PAGE_ID False;
        case fo of None \<Rightarrow> Some t
        | Some leaf \<Rightarrow> do {
            d \<leftarrow> node_data t leaf;
            (_, d) \<leftarrow> Leaf_RemoveAndDeleteRecord (bt_cmp t) d key;
            t \<leftarrow> put_node t leaf d;
            is_root \<leftarrow> BP_IsRootPage d;
            t \<leftarrow> (if is_root then Some t
              else do {
                parent_id \<leftarrow> BP_GetParentPageId d;
                (parent, t) \<leftarrow> fetch_node t parent_id;
                d \<leftarrow> node_data t leaf;
                k \<leftarrow> Leaf_KeyAt d 0;
                (i, t) \<leftarrow> update_separator t parent leaf k;
                p \<leftarrow> node_data t parent;
                parent_is_root \<leftarrow> BP_IsRootPage p;
                t \<leftarrow> (if i = 0 \<and> \<not> parent_is_root then do {
                    grand_id \<leftarrow> BP_GetParentPageId p;
                    (grand, t) \<leftarrow> fetch_node t grand_id;
                    p \<leftarrow> node_data t parent;
                    k \<leftarrow> Int_KeyAt p 0;
                    (_, t) \<leftarrow> update_separator t grand parent k;
                    g \<leftarrow> node_data t grand;
                    gid \<leftarrow> BP_GetPageId g;
                    unpin_node t gid True }
                  else Some t);
                p \<leftarrow> node_data t parent;
                pid \<leftarrow> BP_GetPageId p;
                unpin_node t pid True });
            d \<leftarrow> node_data t leaf;
            n \<leftarrow> BP_GetSize d;
            mn \<leftarrow> BP_GetMinSize d;
            (_, t) \<leftarrow> (if n < mn then CoalesceOrRedistribute_leaf t leaf else Some (False, t));
            d \<leftarrow> node_data t leaf;
            self \<leftarrow> BP_GetPageId d;
            unpin_node t self True } })"

definition BT_Check :: "btree \<Rightarrow> bool" where "BT_Check t = CheckAllUnpinned (bt_bpm t)"

section \<open>Iteration\<close>

record index_iterator =
  it_page_id :: int
  it_page :: "int option"
  it_index :: int

text \<open>The iterator shares the buffer pool of its tree, so its operations take and return the tree.\<close>

definition IndexIterator_new :: "btree \<Rightarrow> int \<Rightarrow> int \<Rightarrow> (index_iterator \<times> btree) option" where
  "IndexIterator_new t page_id index =
     (if page_id \<noteq> INVALID_PAGE_ID then do {
        (f, t) \<leftarrow> fetch_node t page_id;
        Some (\<lparr>it_page_id = page_id, it_page = Some f, it_index = index\<rparr>, t) }
      else Some (\<lparr>it_page_id = page_id, it_page = None, it_index = index\<rparr>, t))"

definition IndexIterator_delete :: "btree \<Rightarrow> index_iterator \<Rightarrow> btree option" where
  "IndexIterator_delete t it = (if it_page_id it \<noteq> INVALID_PAGE_ID then unpin_node t (it_page_id it) False else Some t)"

definition iter_deref :: "btree \<Rightarrow> index_iterator \<Rightarrow> (generic_key \<times> rowid) option" where
  "iter_deref t it = do { f \<leftarrow> it_page it; d \<leftarrow> node_data t f; Leaf_GetItem d (it_index it) }"

definition iter_next :: "btree \<Rightarrow> index_iterator \<Rightarrow> (index_iterator \<times> btree) option" where
  "iter_next t it = do {
     let i = it_index it + 1;
     f \<leftarrow> it_page it;
     d \<leftarrow> node_data t f;
     n \<leftarrow> BP_GetSize d;
     if i \<ge> n then do {
       next_page_id \<leftarrow> Leaf_GetNextPageId d;
       t \<leftarrow> unpin_node t (it_page_id it) False;
       if next_page_id = INVALID_PAGE_ID then Some (\<lparr>it_page_id = INVALID_PAGE_ID, it_page = None, it_index = 0\<rparr>, t)
       else do {
         (f, t) \<leftarrow> fetch_node t next_page_id;
         Some (\<lparr>it_page_id = next_page_id, it_page = Some f, it_index = 0\<rparr>, t) } }
     else Some (it\<lparr>it_index := i\<rparr>, t) }"

definition iter_eq :: "index_iterator \<Rightarrow> index_iterator \<Rightarrow> bool" where
  "iter_eq a b \<longleftrightarrow> it_page_id a = it_page_id b \<and> it_index a = it_index b"

definition iter_neq :: "index_iterator \<Rightarrow> index_iterator \<Rightarrow> bool" where "iter_neq a b \<longleftrightarrow> \<not> iter_eq a b"

definition BT_End :: "btree \<Rightarrow> (index_iterator \<times> btree) option" where
  "BT_End t = IndexIterator_new t INVALID_PAGE_ID 0"

definition BT_Begin :: "btree \<Rightarrow> (index_iterator \<times> btree) option" where
  "BT_Begin t = do {
     (fo, t) \<leftarrow> FindLeafPage t [] (bt_root t) True;
     case fo of None \<Rightarrow> BT_End t
     | Some f \<Rightarrow> do {
         pg \<leftarrow> vector_get (bpm_pages (bt_bpm t)) f;
         IndexIterator_new t (pg_id pg) 0 } }"

definition BT_Begin_at :: "btree \<Rightarrow> generic_key \<Rightarrow> (index_iterator \<times> btree) option" where
  "BT_Begin_at t key = do {
     (fo, t) \<leftarrow> FindLeafPage t key INVALID_PAGE_ID False;
     case fo of None \<Rightarrow> BT_End t
     | Some f \<Rightarrow> do {
         d \<leftarrow> node_data t f;
         index \<leftarrow> Leaf_KeyIndex (bt_cmp t) d key;
         n \<leftarrow> BP_GetSize d;
         if index = n then BT_End t
         else do {
           pg \<leftarrow> vector_get (bpm_pages (bt_bpm t)) f;
           IndexIterator_new t (pg_id pg) index } } }"

end
