(* ===== verification/Pool_Client.thy ===== *)
theory Pool_Client
  imports Buffer_Pool
begin

text \<open>
  The buffer pool as its clients rely on it. A pool that has a frame for every allocated page never evicts one, so the frames it
  hands out stay valid, also after they have been unpinned, and the pool is a map from page ids to contents: \<open>pool_ok n\<close> says that
  this holds and that \<open>n\<close> more pages can be allocated. The contract is the locale \<open>page_map\<close>; the pool with this invariant is an instance.
\<close>

section \<open>A pool with a frame for every page\<close>

definition disk_space :: "nat \<Rightarrow> disk_manager \<Rightarrow> bool" where
  "disk_space n d \<longleftrightarrow> card (disk_used d) + n \<le> (EXT_LIMIT - 1) * BITMAP_SIZE"

definition pool_ok :: "nat \<Rightarrow> bpm \<Rightarrow> bool" where
  "pool_ok n b \<longleftrightarrow> bpm_wf b \<and> allocated_only b \<and> card (disk_used (bpm_disk b)) + n \<le> bpm_pool_size b \<and> disk_space n (bpm_disk b)"

definition pool_pages :: "bpm \<Rightarrow> int set" where
  "pool_pages b = {p. page_ok p \<and> nat p \<in> disk_used (bpm_disk b)}"

lemma pool_ok_weaken: "pool_ok n b \<Longrightarrow> m \<le> n \<Longrightarrow> pool_ok m b"
  by (simp add: pool_ok_def disk_space_def)

lemma finite_disk_used: "finite (disk_used d)"
proof -
  have "disk_used d \<subseteq> {..<MAX_BITMAP * BITMAP_SIZE}"
  proof
    fix l assume "l \<in> disk_used d"
    then have "l div BITMAP_SIZE < MAX_BITMAP" by (simp add: disk_used_def)
    then show "l \<in> {..<MAX_BITMAP * BITMAP_SIZE}"
      using div_less_iff_less_mult [of BITMAP_SIZE l MAX_BITMAP] by (simp add: BITMAP_SIZE_val)
  qed
  then show ?thesis using finite_subset by blast
qed

lemma disk_space_room:
  assumes "disk_space (Suc n) d" "disk_inv d"
  shows "disk_room d"
proof (rule ccontr)
  assume "\<not> disk_room d"
  then have full: "BITMAP_SIZE \<le> card (ext_used d e)" if "e < EXT_LIMIT - 1" for e using that unfolding disk_room_def by (meson not_less)
  let ?S = "\<lambda>e. (\<lambda>k. e * BITMAP_SIZE + k) ` ext_used d e"
  have fin: "finite (ext_used d e)" for e by simp
  have lt: "k < BITMAP_SIZE" if "k \<in> ext_used d e" for k e using that by (simp add: bm_allocated_def MAX_PAGES_PAGE_SIZE)
  have dj: "?S e \<inter> ?S e' = {}" if "e \<noteq> e'" for e e'
  proof -
    have "e = e'" if k: "k \<in> ext_used d e" "k' \<in> ext_used d e'" "e * BITMAP_SIZE + k = e' * BITMAP_SIZE + k'" for k k'
    proof -
      have "(e * BITMAP_SIZE + k) div BITMAP_SIZE = e" "(e' * BITMAP_SIZE + k') div BITMAP_SIZE = e'" using lt [OF k(1)] lt [OF k(2)] by simp_all
      with k(3) show ?thesis by metis
    qed
    then show ?thesis using that by blast
  qed
  have sub: "(\<Union>e < EXT_LIMIT - 1. ?S e) \<subseteq> disk_used d"
  proof
    fix x assume "x \<in> (\<Union>e < EXT_LIMIT - 1. ?S e)"
    then obtain e k where e: "e < EXT_LIMIT - 1" "k \<in> ext_used d e" "x = e * BITMAP_SIZE + k" by blast
    have "x div BITMAP_SIZE = e" "x mod BITMAP_SIZE = k" using lt [OF e(2)] e(3) by simp_all
    moreover have "EXT_LIMIT - 1 \<le> MAX_BITMAP" by (simp add: EXT_LIMIT_def MAX_BITMAP_def PAGE_SIZE_def)
    ultimately show "x \<in> disk_used d" using e(1,2) by (simp add: disk_used_def)
  qed
  have "(EXT_LIMIT - 1) * BITMAP_SIZE = (\<Sum>e < EXT_LIMIT - 1. BITMAP_SIZE)" by simp
  also have "\<dots> \<le> (\<Sum>e < EXT_LIMIT - 1. card (?S e))"
    using full by (intro sum_mono) (simp add: card_image inj_on_def)
  also have "\<dots> = card (\<Union>e < EXT_LIMIT - 1. ?S e)" using dj fin by (intro card_UN_disjoint [symmetric]) auto
  also have "\<dots> \<le> card (disk_used d)" by (rule card_mono [OF finite_disk_used sub])
  finally show False using assms(1) by (simp add: disk_space_def)
qed

lemma dom_table_card:
  assumes wf: "bpm_wf b" and al: "allocated_only b"
  shows "dom (bpm_table b) \<subseteq> int ` disk_used (bpm_disk b)" "bpm_free b = [] \<Longrightarrow> bpm_pool_size b \<le> card (dom (bpm_table b))"
proof -
  note D = bpm_wfD [OF wf]
  show sub: "dom (bpm_table b) \<subseteq> int ` disk_used (bpm_disk b)"
  proof
    fix p assume p: "p \<in> dom (bpm_table b)"
    then have "nat p \<in> disk_used (bpm_disk b)" "0 \<le> p" using al D(7) by (auto simp: allocated_only_def page_ok_def)
    then show "p \<in> int ` disk_used (bpm_disk b)" by (metis image_eqI int_nat_eq)
  qed
  assume free: "bpm_free b = []"
  let ?i = "\<lambda>f. pg_id (frame b f)"
  have "inj_on ?i (frame_ids b)" using D(8) free by (intro inj_onI) (metis empty_iff empty_set option.inject)
  moreover have "?i ` frame_ids b \<subseteq> dom (bpm_table b)" using D(8) free by force
  moreover have "finite (dom (bpm_table b))" using sub finite_disk_used finite_subset by blast
  ultimately have "card (frame_ids b) \<le> card (dom (bpm_table b))" by (metis card_image card_mono)
  moreover have "frame_ids b = int ` {..<bpm_pool_size b}"
  proof
    show "frame_ids b \<subseteq> int ` {..<bpm_pool_size b}"
    proof
      fix f assume "f \<in> frame_ids b"
      then have "f = int (nat f)" "nat f < bpm_pool_size b" by (auto simp: frame_ids_def)
      then show "f \<in> int ` {..<bpm_pool_size b}" by blast
    qed
  qed (auto simp: frame_ids_def)
  then have "card (frame_ids b) = bpm_pool_size b" by (simp add: card_image)
  ultimately show "bpm_pool_size b \<le> card (dom (bpm_table b))" by simp
qed

text \<open>A miss finds a free frame.\<close>

lemma pool_free:
  assumes ok: "pool_ok n b" and p: "p \<in> pool_pages b" "bpm_table b p = None"
  shows "bpm_free b \<noteq> []"
proof
  assume "bpm_free b = []"
  with ok have "bpm_pool_size b \<le> card (dom (bpm_table b))" by (intro dom_table_card(2)) (simp_all add: pool_ok_def)
  moreover have "dom (bpm_table b) \<subseteq> int ` disk_used (bpm_disk b) - {p}" using dom_table_card(1) [of b] ok p(2) by (auto simp: pool_ok_def)
  then have "card (dom (bpm_table b)) \<le> card (int ` disk_used (bpm_disk b) - {p})" using finite_disk_used by (intro card_mono) simp_all
  moreover have "p \<in> int ` disk_used (bpm_disk b)" using p(1) by (auto simp: pool_pages_def page_ok_def image_iff intro: bexI [of _ "nat p"])
  then have "card (int ` disk_used (bpm_disk b) - {p}) < card (disk_used (bpm_disk b))"
    using finite_disk_used by (metis card_Diff1_less card_image finite_imageI inj_on_of_nat)
  ultimately show False using ok by (simp add: pool_ok_def)
qed

lemma pool_free_new:
  assumes ok: "pool_ok (Suc n) b"
  shows "bpm_free b \<noteq> []"
proof
  assume "bpm_free b = []"
  with ok have "bpm_pool_size b \<le> card (dom (bpm_table b))" by (intro dom_table_card(2)) (simp_all add: pool_ok_def)
  moreover have "card (dom (bpm_table b)) \<le> card (int ` disk_used (bpm_disk b))"
    using dom_table_card(1) [of b] ok finite_disk_used by (intro card_mono) (simp_all add: pool_ok_def)
  ultimately show False using ok card_image_le [OF finite_disk_used, of int "bpm_disk b"] by (simp add: pool_ok_def)
qed

section \<open>The operations on such a pool\<close>

lemma bpm_view_install_free:
  assumes wf: "bpm_wf b" and p: "bpm_table b p = None" "page_ok p" and f: "f \<in> set (bpm_free b)"
    and d: "\<And>q. q \<noteq> nat p \<Longrightarrow> page_at d q = page_at (bpm_disk b) q" and q: "0 \<le> q"
  shows "bpm_view \<lparr>bpm_pool_size = bpm_pool_size b, bpm_pages = (bpm_pages b)[nat f := pg], bpm_disk = d,
    bpm_table = (bpm_table b)(pg_id (frame b f) := None, p \<mapsto> f), bpm_replacer = r, bpm_free = fs\<rparr> q =
    (if q = p then pg_data pg else bpm_view b q)" (is "bpm_view ?b q = _")
proof -
  note D = bpm_wfD [OF wf]
  have ids: "f \<in> frame_ids b" using D(6) f by blast
  have fr: "frame ?b g = (if g = f then pg else frame b g)" if "g \<in> frame_ids b" for g
    using frame_update_wf [OF wf ids that] by simp
  have inv: "pg_id (frame b f) = INVALID_PAGE_ID" using D(9) [OF f] by simp
  show ?thesis
  proof (cases "q = p")
    case True
    with fr [OF ids] show ?thesis by (simp add: bpm_view_def)
  next
    case False
    have ne: "q \<noteq> pg_id (frame b f)" "nat q \<noteq> nat p" using q inv p(2) False by (auto simp: INVALID_PAGE_ID_def page_ok_def)
    show ?thesis
    proof (cases "bpm_table b q")
      case None
      then show ?thesis using False ne d by (simp add: bpm_view_def)
    next
      case (Some g)
      have "g \<in> frame_ids b" "g \<noteq> f" using D(7) [OF Some] f by auto
      then show ?thesis using False ne Some fr [of g] by (simp add: bpm_view_def)
    qed
  qed
qed

text \<open>\<open>pool_ext b b'\<close>: every frame that holds a page still holds it.\<close>

definition pool_ext :: "bpm \<Rightarrow> bpm \<Rightarrow> bool" where
  "pool_ext b b' \<longleftrightarrow> (\<forall>p f. bpm_table b p = Some f \<longrightarrow> bpm_table b' p = Some f) \<and> bpm_pool_size b' = bpm_pool_size b"

lemma pool_fetch:
  assumes ok: "pool_ok n b" and p: "p \<in> pool_pages b"
  obtains f b' where "BPM_FetchPage b p = Some (Some f, b')" "pool_ok n b'" "bpm_table b' p = Some f" "pool_ext b b'"
    "pool_pages b' = pool_pages b" "\<And>q. 0 \<le> q \<Longrightarrow> bpm_view b' q = bpm_view b q"
proof (cases "bpm_table b p")
  case (Some f)
  have wf: "bpm_wf b" using ok by (simp add: pool_ok_def)
  note D = bpm_wfD [OF wf]
  have f: "f \<in> frame_ids b" "f \<notin> set (bpm_free b)" "pg_id (frame b f) = p" using D(7) [OF Some] by auto
  note acc = frame_ids_access_wf [OF wf f(1)]
  from lru.pin_frames [OF D(2) acc(3)] obtain r where r: "LRU_Pin (bpm_replacer b) f = Some r"
    "lru_frames r = lru_frames (bpm_replacer b) - {f}" "lru_inv r" "lru_valid r = lru_valid (bpm_replacer b)" by blast
  let ?b = "b\<lparr>bpm_pages := (bpm_pages b)[nat f := Page_Pin (frame b f)], bpm_disk := bpm_disk b, bpm_replacer := r\<rparr>"
  have eq: "?b = b\<lparr>bpm_pages := (bpm_pages b)[nat f := Page_Pin (frame b f)], bpm_replacer := r\<rparr>" by simp
  have pins: "0 \<le> pg_pins (frame b f)" "length (pg_data (frame b f)) = PAGE_SIZE" using D(10) [OF f(1)] by auto
  have "bpm_wf ?b"
    by (rule bpm_wf_update_frame [OF wf f(1,2)]) (use r pins D(4) in \<open>simp_all add: Page_Pin_def\<close>)
  then have "pool_ok n ?b" using ok by (simp add: pool_ok_def allocated_only_def)
  moreover have "bpm_view ?b q = bpm_view b q" if "0 \<le> q" for q
    using bpm_view_update_frame_wf [OF wf f(1,2), of "bpm_disk b" q r "Page_Pin (frame b f)"] that f(3) Some
    by (simp add: Page_Pin_def bpm_view_def)
  moreover have "BPM_FetchPage b p = Some (Some f, ?b)"
    using Some acc r(1) unfolding eq by (simp add: BPM_FetchPage_def)
  ultimately show thesis using that [of f ?b] Some by (simp add: pool_ext_def pool_pages_def)
next
  case None
  have wf: "bpm_wf b" using ok by (simp add: pool_ok_def)
  note D = bpm_wfD [OF wf]
  have pk: "page_ok p" "nat p \<in> disk_used (bpm_disk b)" using p by (simp_all add: pool_pages_def)
  obtain f fs where fr: "bpm_free b = f # fs" using pool_free [OF ok p None] by (cases "bpm_free b") auto
  have f: "f \<in> frame_ids b" "f \<in> set (bpm_free b)" "distinct fs" "set fs = set (bpm_free b) - {f}"
    using D(5,6) fr by auto
  note acc = frame_ids_access_wf [OF wf f(1)]
  have clean: "\<not> pg_dirty (frame b f)" "pg_id (frame b f) = INVALID_PAGE_ID" using D(9) [OF f(2)] by auto
  have nl: "f \<notin> lru_frames (bpm_replacer b)" using D(11) f(2) by auto
  from lru.pin_frames [OF D(2) acc(3)] obtain r where r: "LRU_Pin (bpm_replacer b) f = Some r"
    "lru_frames r = lru_frames (bpm_replacer b) - {f}" "lru_inv r" "lru_valid r = lru_valid (bpm_replacer b)" by blast
  let ?pg = "\<lparr>pg_data = page_at (bpm_disk b) (nat p), pg_id = p, pg_pins = 1, pg_dirty = False\<rparr>"
  let ?b = "\<lparr>bpm_pool_size = bpm_pool_size b, bpm_pages = (bpm_pages b)[nat f := ?pg],
    bpm_disk = bpm_disk b, bpm_table = (bpm_table b)(pg_id (frame b f) := None, p \<mapsto> f), bpm_replacer = r, bpm_free = fs\<rparr>"
  have "Page_Pin (Page_SetPageId (Page_ResetAll (frame b f)) p)\<lparr>pg_data := x\<rparr> =
      \<lparr>pg_data = x, pg_id = p, pg_pins = 1, pg_dirty = False\<rparr>" for x
    by (cases "frame b f") (simp add: page_op_defs)
  then have "BPM_FetchPage b p = Some (Some f, ?b)"
    using None fr acc r(1) clean(1) DM_ReadPage_ok' [OF D(4) pk(1)]
    by (cases b) (simp add: BPM_FetchPage_def take_frame_def Let_def)
  moreover have wf': "bpm_wf ?b"
    by (rule bpm_wf_install(1) [OF wf None pk(1) _ f(1,3,4)]) (use f r D(4) in simp_all)
  moreover have "bpm_view ?b q = bpm_view b q" if "0 \<le> q" for q
    using bpm_view_install_free [OF wf None pk(1) f(2) refl that] None by (simp add: bpm_view_def)
  moreover have "bpm_table b INVALID_PAGE_ID = None"
    using D(7) [of INVALID_PAGE_ID] by (cases "bpm_table b INVALID_PAGE_ID") (auto simp: page_ok_def INVALID_PAGE_ID_def)
  ultimately show thesis
    using that [of f ?b] ok pk(2) clean(2) None by (auto simp: pool_ok_def pool_ext_def pool_pages_def allocated_only_def split: if_splits)
qed

lemma pool_new:
  assumes ok: "pool_ok (Suc n) b"
  obtains p f b' where "BPM_NewPage b = Some (Some (p, f), b')" "pool_ok n b'" "bpm_table b' p = Some f" "pool_ext b b'"
    "p \<notin> pool_pages b" "pool_pages b' = insert p (pool_pages b)" "0 \<le> p" "\<And>q. bpm_table b q \<noteq> Some f"
    "\<And>q. 0 \<le> q \<Longrightarrow> bpm_view b' q = (if q = p then replicate PAGE_SIZE 0 else bpm_view b q)"
    "DM_AllocatePage (bpm_disk b) = Some (p, bpm_disk b')" "bpm_pool_size b' = bpm_pool_size b" "bpm_table b' = (bpm_table b)(p \<mapsto> f)" "pg_pins (frame b' f) = 1"
proof -
  have wf: "bpm_wf b" and al: "allocated_only b" using ok by (simp_all add: pool_ok_def)
  note D = bpm_wfD [OF wf]
  obtain f fs where fr: "bpm_free b = f # fs" using pool_free_new [OF ok] by (cases "bpm_free b") auto
  have f: "f \<in> frame_ids b" "f \<in> set (bpm_free b)" "distinct fs" "set fs = set (bpm_free b) - {f}"
    using D(5,6) fr by auto
  note acc = frame_ids_access_wf [OF wf f(1)]
  have clean: "\<not> pg_dirty (frame b f)" "pg_id (frame b f) = INVALID_PAGE_ID" "pg_pins (frame b f) = 0" using D(9) [OF f(2)] by auto
  have room: "disk_room (bpm_disk b)" using disk_space_room ok D(4) by (auto simp: pool_ok_def)
  obtain l d where a: "DM_AllocatePage (bpm_disk b) = Some (int l, d)" "disk_inv d" "l \<notin> disk_used (bpm_disk b)"
    "disk_used d = insert l (disk_used (bpm_disk b))" "data_block l < PHYS_LIMIT" "\<And>p. page_at d p = page_at (bpm_disk b) p"
    using DM_AllocatePage_room [OF D(4) room] by blast
  have pk: "page_ok (int l)" using a(5) by (simp add: page_ok_def)
  have np: "bpm_table b (int l) = None" using al a(3) by (force simp: allocated_only_def)
  from lru.pin_frames [OF D(2) acc(3)] obtain r where r: "LRU_Pin (bpm_replacer b) f = Some r"
    "lru_frames r = lru_frames (bpm_replacer b) - {f}" "lru_inv r" "lru_valid r = lru_valid (bpm_replacer b)" by blast
  let ?pg = "\<lparr>pg_data = replicate PAGE_SIZE 0, pg_id = int l, pg_pins = 1, pg_dirty = False\<rparr>"
  let ?b = "\<lparr>bpm_pool_size = bpm_pool_size b, bpm_pages = (bpm_pages b)[nat f := ?pg],
    bpm_disk = d, bpm_table = (bpm_table b)(pg_id (frame b f) := None, int l \<mapsto> f), bpm_replacer = r, bpm_free = fs\<rparr>"
  have "Page_Pin (Page_SetPageId (Page_ResetMemory (frame b f)) (int l)) = ?pg"
    using clean by (cases "frame b f") (simp add: page_op_defs)
  then have eq: "BPM_NewPage b = Some (Some (int l, f), ?b)"
    using fr acc r(1) clean(1) a(1) by (cases b) (simp add: BPM_NewPage_def take_frame_def Let_def)
  have wf': "bpm_wf ?b"
    by (rule bpm_wf_install(1) [OF wf np pk _ f(1,3,4)]) (use f r a(2) in simp_all)
  have view: "bpm_view ?b q = (if q = int l then replicate PAGE_SIZE 0 else bpm_view b q)" if "0 \<le> q" for q
    using bpm_view_install_free [OF wf np pk f(2) a(6) that] by simp
  have card: "card (disk_used d) = Suc (card (disk_used (bpm_disk b)))" using a(3,4) finite_disk_used by simp
  have inv: "bpm_table b INVALID_PAGE_ID = None"
    using D(7) [of INVALID_PAGE_ID] by (cases "bpm_table b INVALID_PAGE_ID") (auto simp: page_ok_def INVALID_PAGE_ID_def)
  have "allocated_only ?b"
    unfolding allocated_only_def
  proof
    fix q assume "q \<in> dom (bpm_table ?b)"
    then have "q = int l \<or> q \<in> dom (bpm_table b)" by (auto split: if_splits)
    then show "nat q \<in> disk_used (bpm_disk ?b)" using al a(4) by (auto simp: allocated_only_def)
  qed
  then have "pool_ok n ?b" using ok wf' card by (simp add: pool_ok_def disk_space_def)
  moreover have "pool_ext b ?b" using clean(2) inv np by (auto simp: pool_ext_def)
  moreover have "nat q = l \<longleftrightarrow> q = int l" if "page_ok q" for q using that by (auto simp: page_ok_def)
  then have "pool_pages ?b = insert (int l) (pool_pages b)" using a(4) pk by (auto simp: pool_pages_def)
  moreover have "int l \<notin> pool_pages b" using a(3) by (simp add: pool_pages_def)
  moreover have "bpm_table b q \<noteq> Some f" for q using D(7) [of q f] f(2) by auto
  moreover have "bpm_table ?b = (bpm_table b)(int l \<mapsto> f)" using clean(2) inv by auto
  moreover have "pg_pins (frame ?b f) = 1" using frame_update_wf [OF wf f(1) f(1)] by simp
  ultimately show thesis using that [OF eq] view a(1) by simp
qed

lemma pool_unpin:
  assumes ok: "pool_ok n b"
  obtains r b' where "BPM_UnpinPage b p is_dirty = Some (r, b')" "pool_ok n b'" "bpm_table b' = bpm_table b" "pool_ext b b'"
    "pool_pages b' = pool_pages b" "\<And>q. 0 \<le> q \<Longrightarrow> bpm_view b' q = bpm_view b q"
proof (cases "\<exists>f. bpm_table b p = Some f \<and> pg_pins (frame b f) \<noteq> 0")
  case False
  have wf: "bpm_wf b" using ok by (simp add: pool_ok_def)
  have "BPM_UnpinPage b p is_dirty = Some (True, b)"
  proof (cases "bpm_table b p")
    case (Some f)
    have "f \<in> frame_ids b" using bpm_wfD(7) [OF wf Some] by simp
    then show ?thesis using Some False frame_ids_access_wf(1) [OF wf] by (simp add: BPM_UnpinPage_def)
  qed (simp add: BPM_UnpinPage_def)
  then show thesis using that ok by (simp add: pool_ext_def)
next
  case True
  have wf: "bpm_wf b" using ok by (simp add: pool_ok_def)
  note D = bpm_wfD [OF wf]
  obtain f where t: "bpm_table b p = Some f" "pg_pins (frame b f) \<noteq> 0" using True by blast
  have f: "f \<in> frame_ids b" "f \<notin> set (bpm_free b)" "pg_id (frame b f) = p" using D(7) [OF t(1)] by auto
  note acc = frame_ids_access_wf [OF wf f(1)]
  let ?pg = "Page_unPin (if is_dirty then Page_SetDirty (frame b f) else frame b f)"
  have pg: "pg_id ?pg = p" "pg_data ?pg = pg_data (frame b f)" "pg_pins ?pg = pg_pins (frame b f) - 1"
    using f(3) by (auto simp: page_op_defs)
  have pos: "1 \<le> pg_pins (frame b f)" "length (pg_data (frame b f)) = PAGE_SIZE" using D(10) [OF f(1)] t(2) by auto
  have nl: "f \<notin> lru_frames (bpm_replacer b)" using D(11) t(2) by auto
  from lru.unpin_frames [OF D(2) acc(3)] obtain r1 where r1: "LRU_Unpin (bpm_replacer b) f = Some r1"
    "lru_frames r1 = insert f (lru_frames (bpm_replacer b))" "lru_inv r1" "lru_valid r1 = lru_valid (bpm_replacer b)" by blast
  define r where "r = (if pg_pins (frame b f) = 1 then r1 else bpm_replacer b)"
  let ?b = "b\<lparr>bpm_pages := (bpm_pages b)[nat f := ?pg], bpm_disk := bpm_disk b, bpm_replacer := r\<rparr>"
  have "bpm_wf ?b"
    by (rule bpm_wf_update_frame [OF wf f(1,2)]) (use pg pos nl r1 D(2,4) in \<open>auto simp: r_def f(3)\<close>)
  moreover have "bpm_view ?b q = bpm_view b q" if "0 \<le> q" for q
    using bpm_view_update_frame_wf [OF wf f(1,2), of "bpm_disk b" q r ?pg] that f(3) t pg(2)
    by (simp add: bpm_view_def)
  moreover have "BPM_UnpinPage b p is_dirty = Some (pg_pins (frame b f) = 1, ?b)"
    using t acc r1(1) pg(3) by (auto simp: BPM_UnpinPage_def Let_def r_def)
  ultimately show thesis using that ok by (simp add: pool_ok_def pool_ext_def pool_pages_def allocated_only_def)
qed

lemma pool_write:
  assumes ok: "pool_ok n b" and t: "bpm_table b p = Some f" and l: "length data = PAGE_SIZE"
  obtains b' where "write_frame b f data = Some b'" "pool_ok n b'" "bpm_table b' = bpm_table b" "pool_ext b b'" "pool_pages b' = pool_pages b"
    "\<And>q. 0 \<le> q \<Longrightarrow> bpm_view b' q = (if q = p then data else bpm_view b q)"
proof -
  have wf: "bpm_wf b" using ok by (simp add: pool_ok_def)
  note D = bpm_wfD [OF wf]
  have f: "f \<in> frame_ids b" "f \<notin> set (bpm_free b)" "pg_id (frame b f) = p" using D(7) [OF t] by auto
  note acc = frame_ids_access_wf [OF wf f(1)]
  let ?pg = "(frame b f)\<lparr>pg_data := data\<rparr>"
  let ?b = "b\<lparr>bpm_pages := (bpm_pages b)[nat f := ?pg], bpm_disk := bpm_disk b, bpm_replacer := bpm_replacer b\<rparr>"
  have "lru_frames (bpm_replacer b) = (if pg_pins (frame b f) = 0 then insert f (lru_frames (bpm_replacer b))
      else lru_frames (bpm_replacer b) - {f})" using D(11) f(1,2) by auto
  then have "bpm_wf ?b"
    by (intro bpm_wf_update_frame [OF wf f(1,2)]) (use D(2,4) D(10) [OF f(1)] l in simp_all)
  moreover have "bpm_view ?b q = (if q = p then data else bpm_view b q)" if "0 \<le> q" for q
    using bpm_view_update_frame_wf [OF wf f(1,2), of "bpm_disk b" q "bpm_replacer b" ?pg] that f(3) by simp
  moreover have "write_frame b f data = Some ?b" using acc by (simp add: write_frame_def)
  ultimately show thesis using that ok by (simp add: pool_ok_def pool_ext_def pool_pages_def allocated_only_def)
qed

lemma pool_read:
  assumes ok: "pool_ok n b" and t: "bpm_table b p = Some f"
  shows "vector_get (bpm_pages b) f = Some (frame b f)" "pg_data (frame b f) = bpm_view b p" "pg_id (frame b f) = p"
    "length (bpm_view b p) = PAGE_SIZE" "p \<in> pool_pages b" "0 \<le> p"
proof -
  have wf: "bpm_wf b" and al: "allocated_only b" using ok by (simp_all add: pool_ok_def)
  note D = bpm_wfD [OF wf]
  have f: "f \<in> frame_ids b" "pg_id (frame b f) = p" "page_ok p" using D(7) [OF t] by auto
  show "vector_get (bpm_pages b) f = Some (frame b f)" by (rule frame_ids_access_wf(1) [OF wf f(1)])
  show v: "pg_data (frame b f) = bpm_view b p" "pg_id (frame b f) = p" using t f(2) by (simp_all add: bpm_view_def)
  show "length (bpm_view b p) = PAGE_SIZE" using D(10) [OF f(1)] v(1) by simp
  show "p \<in> pool_pages b" using f(3) al t by (auto simp: pool_pages_def allocated_only_def)
  show "0 \<le> p" using f(3) by (simp add: page_ok_def)
qed

section \<open>The contract\<close>

text \<open>
  \<open>ok n s\<close>: \<open>n\<close> more pages can be created; \<open>holds s f p\<close>: frame \<open>f\<close> holds page \<open>p\<close>. The client lemma is the cycle every structure on
  pages is made of: fetch a page, change it in place, give it back.
\<close>

locale page_map =
  fixes ok :: "nat \<Rightarrow> 's \<Rightarrow> bool" and pages :: "'s \<Rightarrow> int set" and holds :: "'s \<Rightarrow> int \<Rightarrow> int \<Rightarrow> bool" and view :: "'s \<Rightarrow> int \<Rightarrow> buffer"
    and fetch :: "'s \<Rightarrow> int \<Rightarrow> (int option \<times> 's) option" and create :: "'s \<Rightarrow> ((int \<times> int) option \<times> 's) option"
    and store :: "'s \<Rightarrow> int \<Rightarrow> buffer \<Rightarrow> 's option" and release :: "'s \<Rightarrow> int \<Rightarrow> bool \<Rightarrow> (bool \<times> 's) option"
    and data :: "'s \<Rightarrow> int \<Rightarrow> buffer option"
  assumes fetch: "ok n s \<Longrightarrow> p \<in> pages s \<Longrightarrow> \<exists>f s'. fetch s p = Some (Some f, s') \<and> ok n s' \<and> holds s' f p \<and>
      (\<forall>g q. holds s g q \<longrightarrow> holds s' g q) \<and> pages s' = pages s \<and> (\<forall>q \<in> pages s. view s' q = view s q)"
    and create: "ok (Suc n) s \<Longrightarrow> \<exists>p f s'. create s = Some (Some (p, f), s') \<and> ok n s' \<and> holds s' f p \<and>
      (\<forall>g q. holds s g q \<longrightarrow> holds s' g q) \<and> p \<notin> pages s \<and> 0 \<le> p \<and> (\<forall>q. \<not> holds s f q) \<and> pages s' = insert p (pages s) \<and>
      (\<forall>q \<in> pages s'. view s' q = (if q = p then replicate PAGE_SIZE 0 else view s q))"
    and store: "ok n s \<Longrightarrow> holds s f p \<Longrightarrow> length d = PAGE_SIZE \<Longrightarrow> \<exists>s'. store s f d = Some s' \<and> ok n s' \<and>
      (\<forall>g q. holds s' g q = holds s g q) \<and> pages s' = pages s \<and> (\<forall>q \<in> pages s. view s' q = (if q = p then d else view s q))"
    and release: "ok n s \<Longrightarrow> \<exists>r s'. release s p dirty = Some (r, s') \<and> ok n s' \<and> (\<forall>g q. holds s' g q = holds s g q) \<and>
      pages s' = pages s \<and> (\<forall>q \<in> pages s. view s' q = view s q)"
    and data: "ok n s \<Longrightarrow> holds s f p \<Longrightarrow> data s f = Some (view s p) \<and> length (view s p) = PAGE_SIZE \<and> p \<in> pages s"
    and holds_unique: "ok n s \<Longrightarrow> holds s f p \<Longrightarrow> holds s f q \<Longrightarrow> p = q"
begin

lemma modify:
  assumes "ok n s" "p \<in> pages s" and g: "g (view s p) = Some d" "length d = PAGE_SIZE"
  obtains f s1 s2 r s3 where "fetch s p = Some (Some f, s1)" "data s1 f = Some (view s p)" "store s1 f d = Some s2" "release s2 p dirty = Some (r, s3)"
    "ok n s3" "\<And>h q. holds s h q \<Longrightarrow> holds s3 h q" "pages s3 = pages s" "\<And>q. q \<in> pages s \<Longrightarrow> view s3 q = (if q = p then d else view s q)"
proof -
  from fetch [OF assms(1,2)] obtain f s1 where s1: "fetch s p = Some (Some f, s1)" "ok n s1" "holds s1 f p" "\<forall>h q. holds s h q \<longrightarrow> holds s1 h q"
    "pages s1 = pages s" "\<forall>q \<in> pages s. view s1 q = view s q" by blast
  from store [OF s1(2,3) g(2)] obtain s2 where s2: "store s1 f d = Some s2" "ok n s2" "\<forall>h q. holds s2 h q = holds s1 h q" "pages s2 = pages s1"
    "\<forall>q \<in> pages s1. view s2 q = (if q = p then d else view s1 q)" by blast
  from release [OF s2(2), of p dirty] obtain r s3 where s3: "release s2 p dirty = Some (r, s3)" "ok n s3" "\<forall>h q. holds s3 h q = holds s2 h q"
    "pages s3 = pages s2" "\<forall>q \<in> pages s2. view s3 q = view s2 q" by blast
  show thesis
    by (rule that [OF s1(1) _ s2(1) s3(1,2)]) (use s1 s2 s3 data [OF s1(2,3)] assms(2) in auto)
qed

end

definition frame_data :: "bpm \<Rightarrow> int \<Rightarrow> buffer option" where
  "frame_data b f = map_option pg_data (vector_get (bpm_pages b) f)"

definition frame_holds :: "bpm \<Rightarrow> int \<Rightarrow> int \<Rightarrow> bool" where
  "frame_holds b f p \<longleftrightarrow> bpm_table b p = Some f"

lemma pool_pages_pos: "p \<in> pool_pages b \<Longrightarrow> 0 \<le> p"
  by (simp add: pool_pages_def page_ok_def)

interpretation pool: page_map pool_ok pool_pages frame_holds bpm_view BPM_FetchPage BPM_NewPage write_frame BPM_UnpinPage frame_data
proof
  show "\<exists>f b'. BPM_FetchPage b p = Some (Some f, b') \<and> pool_ok n b' \<and> frame_holds b' f p \<and> (\<forall>g q. frame_holds b g q \<longrightarrow> frame_holds b' g q) \<and>
      pool_pages b' = pool_pages b \<and> (\<forall>q \<in> pool_pages b. bpm_view b' q = bpm_view b q)" if "pool_ok n b" "p \<in> pool_pages b" for n b p
    by (rule pool_fetch [OF that]) (use pool_pages_pos in \<open>auto simp: frame_holds_def pool_ext_def\<close>)
  show "\<exists>p f b'. BPM_NewPage b = Some (Some (p, f), b') \<and> pool_ok n b' \<and> frame_holds b' f p \<and> (\<forall>g q. frame_holds b g q \<longrightarrow> frame_holds b' g q) \<and>
      p \<notin> pool_pages b \<and> 0 \<le> p \<and> (\<forall>q. \<not> frame_holds b f q) \<and> pool_pages b' = insert p (pool_pages b) \<and>
      (\<forall>q \<in> pool_pages b'. bpm_view b' q = (if q = p then replicate PAGE_SIZE 0 else bpm_view b q))" if new: "pool_ok (Suc n) b" for n b
  proof -
    obtain p f b' where N: "BPM_NewPage b = Some (Some (p, f), b')" "pool_ok n b'" "bpm_table b' p = Some f" "pool_ext b b'"
      "p \<notin> pool_pages b" "pool_pages b' = insert p (pool_pages b)" "0 \<le> p" "\<And>q. bpm_table b q \<noteq> Some f"
      "\<And>q. 0 \<le> q \<Longrightarrow> bpm_view b' q = (if q = p then replicate PAGE_SIZE 0 else bpm_view b q)"
      by (rule pool_new [OF new], rule that, assumption+)
    then show ?thesis using pool_pages_pos by (intro exI [of _ p] exI [of _ f] exI [of _ b']) (auto simp: frame_holds_def pool_ext_def)
  qed
  show "\<exists>b'. write_frame b f d = Some b' \<and> pool_ok n b' \<and> (\<forall>g q. frame_holds b' g q = frame_holds b g q) \<and> pool_pages b' = pool_pages b \<and>
      (\<forall>q \<in> pool_pages b. bpm_view b' q = (if q = p then d else bpm_view b q))"
    if "pool_ok n b" "frame_holds b f p" "length d = PAGE_SIZE" for n b f p d
    by (rule pool_write [OF that(1) that(2) [unfolded frame_holds_def] that(3)]) (use pool_pages_pos in \<open>auto simp: frame_holds_def\<close>)
  show "\<exists>r b'. BPM_UnpinPage b p dirty = Some (r, b') \<and> pool_ok n b' \<and> (\<forall>g q. frame_holds b' g q = frame_holds b g q) \<and>
      pool_pages b' = pool_pages b \<and> (\<forall>q \<in> pool_pages b. bpm_view b' q = bpm_view b q)" if "pool_ok n b" for n b p dirty
    by (rule pool_unpin [OF that, of p dirty]) (use pool_pages_pos in \<open>auto simp: frame_holds_def\<close>)
  show "frame_data b f = Some (bpm_view b p) \<and> length (bpm_view b p) = PAGE_SIZE \<and> p \<in> pool_pages b" if "pool_ok n b" "frame_holds b f p" for n b f p
    using pool_read [OF that(1) that(2) [unfolded frame_holds_def]] by (simp add: frame_data_def)
  show "p = q" if "pool_ok n b" "frame_holds b f p" "frame_holds b f q" for n b f p q
    using pool_read(3) [OF that(1) that(2) [unfolded frame_holds_def]] pool_read(3) [OF that(1) that(3) [unfolded frame_holds_def]] by simp
qed

end
