(* ===== verification/Tree_Search.thy ===== *)
theory Tree_Search
  imports B_Plus_Tree Pool_Client
begin

text \<open>
  Searching the B+ tree. The pages of a tree are described by a tree of entries (\<open>ptree\<close>): every page has the bytes of its node, its own id
  and the id of its parent. On a tree whose separators are in order the descent ends at the only leaf that can hold the key.
\<close>

section \<open>Nodes in the pool\<close>

text \<open>
  \<open>tstate n t m A\<close>: the allocated pages are \<open>A\<close>, their contents \<open>m\<close>, and \<open>n\<close> more can be created; \<open>holds t f p\<close>: frame \<open>f\<close> holds page \<open>p\<close>;
  \<open>tkeep t t'\<close>: \<open>t'\<close> differs from \<open>t\<close> in its pool and its root only, and frames kept their pages.
\<close>

definition tstate :: "nat \<Rightarrow> btree \<Rightarrow> (int \<Rightarrow> buffer) \<Rightarrow> int set \<Rightarrow> bool" where
  "tstate n t m A \<longleftrightarrow> pool_ok n (bt_bpm t) \<and> pool_pages (bt_bpm t) = A \<and> (\<forall>q \<in> A. bpm_view (bt_bpm t) q = m q)"

abbreviation holds :: "btree \<Rightarrow> int \<Rightarrow> int \<Rightarrow> bool" where
  "holds t f p \<equiv> frame_holds (bt_bpm t) f p"

definition tkeep :: "btree \<Rightarrow> btree \<Rightarrow> bool" where
  "tkeep t t' \<longleftrightarrow> bt_index_id t' = bt_index_id t \<and> bt_km t' = bt_km t \<and> bt_leaf_max t' = bt_leaf_max t \<and> bt_int_max t' = bt_int_max t \<and>
     (\<forall>f p. holds t f p \<longrightarrow> holds t' f p)"

lemma tkeep_refl [simp]: "tkeep t t"
  by (simp add: tkeep_def)

lemma tkeep_trans [trans]: "tkeep t t' \<Longrightarrow> tkeep t' t'' \<Longrightarrow> tkeep t t''"
  by (simp add: tkeep_def)

lemma tkeep_holds: "tkeep t t' \<Longrightarrow> holds t f p \<Longrightarrow> holds t' f p"
  by (simp add: tkeep_def)

lemma tkeep_fields: "tkeep t t' \<Longrightarrow> bt_km t' = bt_km t" "tkeep t t' \<Longrightarrow> bt_leaf_max t' = bt_leaf_max t"
    "tkeep t t' \<Longrightarrow> bt_int_max t' = bt_int_max t" "tkeep t t' \<Longrightarrow> bt_index_id t' = bt_index_id t"
  by (simp_all add: tkeep_def)

lemma tkeep_root [simp]: "tkeep t (t'\<lparr>bt_root := r\<rparr>) \<longleftrightarrow> tkeep t t'" "tkeep (t\<lparr>bt_root := r\<rparr>) t' \<longleftrightarrow> tkeep t t'"
  by (simp_all add: tkeep_def)

lemma tstate_root [simp]: "tstate n (t\<lparr>bt_root := r\<rparr>) m A \<longleftrightarrow> tstate n t m A"
  by (simp add: tstate_def)

lemma holds_page: "tstate n t m A \<Longrightarrow> holds t f p \<Longrightarrow> p \<in> A"
  using pool.data [of n "bt_bpm t" f p] by (simp add: tstate_def)

lemma holds_unique: "tstate n t m A \<Longrightarrow> holds t f p \<Longrightarrow> holds t f q \<Longrightarrow> p = q"
  using pool.holds_unique [of n "bt_bpm t" f p q] by (simp add: tstate_def)

lemma holds_frame: "holds t f p \<Longrightarrow> holds t g p \<Longrightarrow> f = g"
  by (simp add: frame_holds_def)

lemma node_data_ok:
  assumes "tstate n t m A" "holds t f p"
  shows "node_data t f = Some (m p)" "length (m p) = PAGE_SIZE"
  using pool.data [of n "bt_bpm t" f p] assms by (auto simp: tstate_def node_data_def frame_data_def)

lemma tstate_length: "tstate n t m A \<Longrightarrow> p \<in> A \<Longrightarrow> length (m p) = PAGE_SIZE"
proof -
  assume t: "tstate n t m A" and p: "p \<in> A"
  then have "pool_ok n (bt_bpm t)" "p \<in> pool_pages (bt_bpm t)" and v: "bpm_view (bt_bpm t) p = m p" by (auto simp: tstate_def)
  from pool.fetch [OF this(1,2)] this(2) obtain f b' where b: "pool_ok n b'" "frame_holds b' f p" "bpm_view b' p = m p" unfolding v [symmetric] by blast
  from pool.data [OF b(1,2)] b(3) show ?thesis by simp
qed

lemma fetch_node_ok:
  assumes "tstate n t m A" "p \<in> A"
  obtains f t' where "fetch_node t p = Some (f, t')" "fetch_or_null t p = Some (Some f, t')" "tstate n t' m A" "holds t' f p" "tkeep t t'" "bt_root t' = bt_root t"
proof -
  from pool.fetch [of n "bt_bpm t" p] assms obtain f b where b: "BPM_FetchPage (bt_bpm t) p = Some (Some f, b)" "pool_ok n b" "frame_holds b f p"
    "\<forall>g q. frame_holds (bt_bpm t) g q \<longrightarrow> frame_holds b g q" "pool_pages b = A" "\<forall>q \<in> A. bpm_view b q = bpm_view (bt_bpm t) q"
    by (auto simp: tstate_def)
  show thesis by (rule that [of f "t\<lparr>bt_bpm := b\<rparr>"]) (use b assms in \<open>auto simp: fetch_node_def fetch_or_null_def tstate_def tkeep_def\<close>)
qed

lemma unpin_node_ok:
  assumes "tstate n t m A"
  obtains t' where "unpin_node t p dirty = Some t'" "tstate n t' m A" "tkeep t t'" "bt_root t' = bt_root t"
proof -
  from pool.release [of n "bt_bpm t" p dirty] assms obtain r b where b: "BPM_UnpinPage (bt_bpm t) p dirty = Some (r, b)" "pool_ok n b"
    "\<forall>g q. frame_holds b g q = frame_holds (bt_bpm t) g q" "pool_pages b = A" "\<forall>q \<in> A. bpm_view b q = bpm_view (bt_bpm t) q"
    by (auto simp: tstate_def)
  show thesis by (rule that [of "t\<lparr>bt_bpm := b\<rparr>"]) (use b assms in \<open>auto simp: unpin_node_def tstate_def tkeep_def\<close>)
qed

lemma put_node_ok:
  assumes "tstate n t m A" "holds t f p" "length d = PAGE_SIZE"
  obtains t' where "put_node t f d = Some t'" "tstate n t' (m(p := d)) A" "tkeep t t'" "bt_root t' = bt_root t"
proof -
  from pool.store [of n "bt_bpm t" f p d] assms obtain b where b: "write_frame (bt_bpm t) f d = Some b" "pool_ok n b"
    "\<forall>g q. frame_holds b g q = frame_holds (bt_bpm t) g q" "pool_pages b = A" "\<forall>q \<in> A. bpm_view b q = (if q = p then d else bpm_view (bt_bpm t) q)"
    by (auto simp: tstate_def)
  show thesis by (rule that [of "t\<lparr>bt_bpm := b\<rparr>"]) (use b assms in \<open>auto simp: put_node_def tstate_def tkeep_def\<close>)
qed

lemma new_node_ok:
  assumes "tstate (Suc n) t m A"
  obtains p f t' where "new_node t = Some (Some (p, f), t')" "tstate n t' (m(p := replicate PAGE_SIZE 0)) (insert p A)" "holds t' f p" "p \<notin> A" "0 \<le> p"
    "\<And>q. \<not> holds t f q" "tkeep t t'" "bt_root t' = bt_root t"
proof -
  from pool.create [of n "bt_bpm t"] assms obtain p f b where b: "BPM_NewPage (bt_bpm t) = Some (Some (p, f), b)" "pool_ok n b" "frame_holds b f p"
    "\<forall>g q. frame_holds (bt_bpm t) g q \<longrightarrow> frame_holds b g q" "p \<notin> A" "0 \<le> p" "\<forall>q. \<not> frame_holds (bt_bpm t) f q" "pool_pages b = insert p A"
    "\<forall>q \<in> insert p A. bpm_view b q = (if q = p then replicate PAGE_SIZE 0 else bpm_view (bt_bpm t) q)"
    by (auto simp: tstate_def)
  show thesis by (rule that [of p f "t\<lparr>bt_bpm := b\<rparr>"]) (use b assms in \<open>auto simp: new_node_def tstate_def tkeep_def\<close>)
qed

section \<open>Trees of pages\<close>

datatype ptree = PLeaf int "(generic_key \<times> rowid) list" | PNode int "(generic_key \<times> ptree) list"

lemma ptree_induct [case_names PLeaf PNode]:
  assumes "\<And>p es. P (PLeaf p es)" "\<And>p cs. (\<And>c. c \<in> set cs \<Longrightarrow> P (snd c)) \<Longrightarrow> P (PNode p cs)"
  shows "P T"
proof (induction T)
  case (PNode p cs)
  then show ?case by (intro assms(2)) (auto simp: snds.simps)
qed (rule assms(1))

fun pid_of :: "ptree \<Rightarrow> int" where
  "pid_of (PLeaf p es) = p"
| "pid_of (PNode p cs) = p"

fun entries :: "ptree \<Rightarrow> (generic_key \<times> rowid) list" where
  "entries (PLeaf p es) = es"
| "entries (PNode p cs) = concat (map (\<lambda>c. entries (snd c)) cs)"

fun tree_pids :: "ptree \<Rightarrow> int list" where
  "tree_pids (PLeaf p es) = [p]"
| "tree_pids (PNode p cs) = p # concat (map (\<lambda>c. tree_pids (snd c)) cs)"

abbreviation child_refs :: "(generic_key \<times> ptree) list \<Rightarrow> (generic_key \<times> int) list" where
  "child_refs cs \<equiv> map (\<lambda>c. (fst c, pid_of (snd c))) cs"

text \<open>The header of a node: its own id, its parent and its maximal size.\<close>

definition node_header :: "buffer \<Rightarrow> int \<Rightarrow> int \<Rightarrow> int \<Rightarrow> bool" where
  "node_header d p par mx \<longleftrightarrow> BP_GetPageId d = Some p \<and> BP_GetParentPageId d = Some par \<and> BP_GetMaxSize d = Some mx"

fun tree_rep :: "nat \<Rightarrow> int \<Rightarrow> int \<Rightarrow> (int \<Rightarrow> buffer) \<Rightarrow> int \<Rightarrow> ptree \<Rightarrow> bool" where
  "tree_rep ks lm im m par (PLeaf p es) \<longleftrightarrow> leaf_rep ks (m p) es \<and> node_header (m p) p par lm"
| "tree_rep ks lm im m par (PNode p cs) \<longleftrightarrow> int_rep ks (m p) (child_refs cs) \<and> node_header (m p) p par im \<and>
     (\<forall>c \<in> set cs. tree_rep ks lm im m p (snd c))"

text \<open>The order of the tree: child \<open>i\<close> has the keys from separator \<open>i\<close> up to separator \<open>i + 1\<close>.\<close>

fun tree_order :: "key_manager \<Rightarrow> ptree \<Rightarrow> bool" where
  "tree_order km (PLeaf p es) \<longleftrightarrow> leaf_keys_ok km es"
| "tree_order km (PNode p cs) \<longleftrightarrow> 2 \<le> length cs \<and> int_keys_ok km cs \<and> (\<forall>c \<in> set cs. tree_order km (snd c)) \<and>
     (\<forall>i < length cs. \<forall>e \<in> set (entries (snd (cs ! i))).
        (1 \<le> i \<longrightarrow> key_le (CompareKeys km) (fst (cs ! i)) (fst e)) \<and>
        (Suc i < length cs \<longrightarrow> key_lt (CompareKeys km) (fst e) (fst (cs ! Suc i))))"

lemma pid_of_in_pids: "pid_of T \<in> set (tree_pids T)"
  by (cases T) simp_all

lemma child_index_refs: "child_index km key (child_refs cs) = child_index km key cs"
  by (simp add: child_index_def filter_map o_def map_tl [symmetric])

lemma int_keys_ok_refs: "int_keys_ok km (child_refs cs) = int_keys_ok km cs"
  by (simp add: int_keys_ok_def leaf_keys_ok_def map_tl [symmetric] o_def)

lemma entries_orderable: "tree_order km T \<Longrightarrow> e \<in> set (entries T) \<Longrightarrow> orderable_key km (fst e)"
  by (induction T) (auto simp: leaf_keys_ok_def)

text \<open>The child on the search path holds every entry with the key.\<close>

lemma tree_order_child:
  assumes "tree_order km (PNode p cs)" "orderable_key km key"
  defines "i \<equiv> child_index km key cs"
  shows "i < length cs" "j < length cs \<Longrightarrow> e \<in> set (entries (snd (cs ! j))) \<Longrightarrow> key_eq (CompareKeys km) (fst e) key \<Longrightarrow> j = i"
proof -
  have ok: "2 \<le> length cs" "int_keys_ok km cs" using assms(1) by simp_all
  show i: "i < length cs" using child_index_split(1) [OF ok(2) assms(2)] ok(1) unfolding i_def by linarith
  assume j: "j < length cs" and e: "e \<in> set (entries (snd (cs ! j)))" and eq: "key_eq (CompareKeys km) (fst e) key"
  have oe: "orderable_key km (fst e)" using assms(1) j e entries_orderable [of km "snd (cs ! j)" e] by auto
  have ok_sep: "orderable_key km (fst (cs ! k))" if k: "1 \<le> k" "k < length cs" for k
  proof -
    obtain l where l: "k = Suc l" using k(1) by (cases k) simp_all
    have ll: "l < length (tl cs)" using k(2) l by simp
    from nth_mem [OF this] show ?thesis using ok(2) nth_tl [OF ll] l by (simp add: int_keys_ok_def leaf_keys_ok_def)
  qed
  have le: "key_le (CompareKeys km) (fst e) key" "key_le (CompareKeys km) key (fst e)"
    using eq km.eq_iff [OF oe assms(2)] km.cmp_flip [OF assms(2) oe] km.cmp_flip [OF oe assms(2)] km.lt_le by blast+
  show "j = i"
  proof (rule linorder_cases [of j i])
    assume ji: "j < i"
    have s: "1 \<le> Suc j" "Suc j < length cs" using ji i by simp_all
    have "key_lt (CompareKeys km) (fst e) (fst (cs ! Suc j))" using assms(1) j e s(2) by auto
    moreover have "key_le (CompareKeys km) (fst (cs ! Suc j)) key" using child_index_split(2) [OF ok(2) assms(2) s] ji unfolding i_def by simp
    ultimately have "key_lt (CompareKeys km) (fst e) key" using km.lt_trans(1) [OF oe ok_sep [OF s] assms(2)] by blast
    then show ?thesis using le(2) km.cmp_flip [OF oe assms(2)] by blast
  next
    assume ij: "i < j"
    have s: "1 \<le> j" using ij by simp
    have "key_le (CompareKeys km) (fst (cs ! j)) (fst e)" using assms(1) j e s by auto
    with le(1) have "key_le (CompareKeys km) (fst (cs ! j)) key" using km.cmp_trans [OF ok_sep [OF s j] oe assms(2)] by blast
    then show ?thesis using child_index_split(2) [OF ok(2) assms(2) s j] ij unfolding i_def by simp
  qed simp
qed

section \<open>The search path\<close>

text \<open>
  A position in a tree: the page of each ancestor, the entries left and right of the child on the path and that child's separator,
  innermost first. \<open>on_path\<close>: every step of the path is the one the key asks for.
\<close>

type_synonym crumb = "int \<times> (generic_key \<times> ptree) list \<times> generic_key \<times> (generic_key \<times> ptree) list"

fun plug :: "ptree \<Rightarrow> crumb list \<Rightarrow> ptree" where
  "plug T [] = T"
| "plug T ((p, ls, k, rs) # path) = plug (PNode p (ls @ (k, T) # rs)) path"

fun on_path :: "key_manager \<Rightarrow> generic_key \<Rightarrow> ptree \<Rightarrow> crumb list \<Rightarrow> bool" where
  "on_path km key T [] \<longleftrightarrow> True"
| "on_path km key T ((p, ls, k, rs) # path) \<longleftrightarrow>
     child_index km key (ls @ (k, T) # rs) = length ls \<and> on_path km key (PNode p (ls @ (k, T) # rs)) path"

fun path_parent :: "crumb list \<Rightarrow> int" where
  "path_parent [] = INVALID_PAGE_ID"
| "path_parent ((p, ls, k, rs) # path) = p"

lemma tree_rep_plug: "tree_rep ks lm im m INVALID_PAGE_ID (plug T path) \<Longrightarrow> tree_rep ks lm im m (path_parent path) T"
proof (induction T path rule: plug.induct)
  case (2 T p ls k rs path)
  from "2.IH" "2.prems" have "tree_rep ks lm im m (path_parent path) (PNode p (ls @ (k, T) # rs))" by simp
  then show ?case by simp
qed simp

lemma tree_order_plug: "tree_order km (plug T path) \<Longrightarrow> tree_order km T"
proof (induction T path rule: plug.induct)
  case (2 T p ls k rs path)
  from "2.IH" "2.prems" have "tree_order km (PNode p (ls @ (k, T) # rs))" by simp
  then show ?case by simp
qed simp

lemma tree_pids_plug: "set (tree_pids T) \<subseteq> set (tree_pids (plug T path))"
proof (induction T path rule: plug.induct)
  case (2 T p ls k rs path)
  have "set (tree_pids T) \<subseteq> set (tree_pids (PNode p (ls @ (k, T) # rs)))" by auto
  also have "\<dots> \<subseteq> set (tree_pids (plug T ((p, ls, k, rs) # path)))" using "2.IH" by simp
  finally show ?case .
qed simp

lemma find_append_None: "find P xs = None \<Longrightarrow> find P (xs @ ys) = find P ys"
  by (induction xs) (auto split: if_splits)

lemma find_append_left: "find P ys = None \<Longrightarrow> find P (xs @ ys) = find P xs"
  by (induction xs) auto

lemma find_entries_path:
  "tree_order km (plug T path) \<Longrightarrow> orderable_key km key \<Longrightarrow> on_path km key T path \<Longrightarrow>
   find (\<lambda>e. key_eq (CompareKeys km) (fst e) key) (entries (plug T path)) = find (\<lambda>e. key_eq (CompareKeys km) (fst e) key) (entries T)"
proof (induction T path rule: plug.induct)
  case (2 T p ls k rs path)
  let ?P = "\<lambda>e. key_eq (CompareKeys km) (fst e) key" and ?cs = "ls @ (k, T) # rs"
  have ord: "tree_order km (PNode p ?cs)" using tree_order_plug [of km "PNode p ?cs" path] "2.prems"(1) by simp
  note child = tree_order_child(2) [OF ord "2.prems"(2)]
  have i: "child_index km key ?cs = length ls" using "2.prems"(3) by simp
  have l: "find ?P (concat (map (\<lambda>c. entries (snd c)) ls)) = None"
    unfolding find_None_iff
  proof
    assume "\<exists>e. e \<in> set (concat (map (\<lambda>c. entries (snd c)) ls)) \<and> ?P e"
    then obtain e c where "e \<in> set (entries (snd c))" "?P e" "c \<in> set ls" by auto
    then obtain j where "e \<in> set (entries (snd (ls ! j)))" "?P e" "j < length ls" by (metis in_set_conv_nth)
    with child [of j e] i show False by (simp add: nth_append)
  qed
  have r: "find ?P (concat (map (\<lambda>c. entries (snd c)) rs)) = None"
    unfolding find_None_iff
  proof
    assume "\<exists>e. e \<in> set (concat (map (\<lambda>c. entries (snd c)) rs)) \<and> ?P e"
    then obtain e c where "e \<in> set (entries (snd c))" "?P e" "c \<in> set rs" by auto
    then obtain j where "e \<in> set (entries (snd (rs ! j)))" "?P e" "j < length rs" by (metis in_set_conv_nth)
    with child [of "length ls + 1 + j" e] i show False by (simp add: nth_append)
  qed
  show ?case using 2 find_append_None [OF l] find_append_left [OF r] by simp
qed simp

section \<open>The descent\<close>

lemma tree_rep_leaf_page: "tree_rep ks lm im m par T \<Longrightarrow> IsLeafPage (m (pid_of T)) = Some (case T of PLeaf _ _ \<Rightarrow> True | PNode _ _ \<Rightarrow> False)"
  by (cases T) (auto simp: leaf_rep_def int_rep_def dest!: node_repD(8))

lemma find_leaf_loop_ok:
  assumes "tstate n t m A" "tree_rep ks lm im m par T" "tree_order km T" "orderable_key km key" "holds t f (pid_of T)"
    "set (tree_pids T) \<subseteq> A" "bt_km t = km" "plug T outer = R" "on_path km key T outer"
  shows "\<exists>p es path f' t'. find_leaf_loop t f key False = Some (f', t') \<and> tstate n t' m A \<and> holds t' f' p \<and> tkeep t t' \<and> bt_root t' = bt_root t \<and>
    plug (PLeaf p es) path = R \<and> on_path km key (PLeaf p es) path"
  using assms
proof (induction T arbitrary: t f par outer)
  case (PLeaf p es)
  have "find_leaf_loop t f key False = Some (f, t)"
    using node_data_ok(1) [OF PLeaf.prems(1,5)] tree_rep_leaf_page [OF PLeaf.prems(2)] by (subst find_leaf_loop.simps) simp
  with PLeaf.prems show ?case by (intro exI [of _ p] exI [of _ es] exI [of _ outer] exI [of _ f] exI [of _ t]) simp
next
  case (PNode p cs)
  let ?i = "child_index km key cs"
  have rep: "int_rep ks (m p) (child_refs cs)" "node_header (m p) p par im" "\<forall>c \<in> set cs. tree_rep ks lm im m p (snd c)" using PNode.prems(2) by simp_all
  have ord: "2 \<le> length cs" "int_keys_ok km cs" "\<forall>c \<in> set cs. tree_order km (snd c)" using PNode.prems(3) by simp_all
  have i: "?i < length cs" by (rule tree_order_child(1) [OF PNode.prems(3,4)])
  have "Int_Lookup (CompareKeys km) (m p) key = Some (pid_of (snd (cs ! ?i)))"
    using Int_Lookup_ok [OF rep(1) _ _ PNode.prems(4)] ord i by (simp add: child_index_refs int_keys_ok_refs)
  moreover have d: "node_data t f = Some (m p)" "IsLeafPage (m p) = Some False"
    using node_data_ok(1) [OF PNode.prems(1,5)] tree_rep_leaf_page [OF PNode.prems(2)] by simp_all
  moreover have "BP_GetPageId (m p) = Some p" using rep(2) by (simp add: node_header_def)
  moreover obtain t1 where t1: "unpin_node t p False = Some t1" "tstate n t1 m A" "tkeep t t1" "bt_root t1 = bt_root t"
    by (rule unpin_node_ok [OF PNode.prems(1)])
  moreover have mem: "cs ! ?i \<in> set cs" using i by simp
  then have sub: "set (tree_pids (snd (cs ! ?i))) \<subseteq> A" using PNode.prems(6) by auto
  then have "pid_of (snd (cs ! ?i)) \<in> A" using pid_of_in_pids by blast
  then obtain g t2 where t2: "fetch_node t1 (pid_of (snd (cs ! ?i))) = Some (g, t2)" "tstate n t2 m A" "holds t2 g (pid_of (snd (cs ! ?i)))" "tkeep t1 t2" "bt_root t2 = bt_root t1"
    using fetch_node_ok [OF t1(2)] by metis
  ultimately have step: "find_leaf_loop t f key False = find_leaf_loop t2 g key False"
    using PNode.prems(7) by (subst find_leaf_loop.simps) simp
  have cs: "cs = take ?i cs @ (fst (cs ! ?i), snd (cs ! ?i)) # drop (Suc ?i) cs" using i by (simp add: id_take_nth_drop)
  let ?outer = "(p, take ?i cs, fst (cs ! ?i), drop (Suc ?i) cs) # outer"
  have "\<exists>p' es path f' t'. find_leaf_loop t2 g key False = Some (f', t') \<and> tstate n t' m A \<and> holds t' f' p' \<and> tkeep t2 t' \<and> bt_root t' = bt_root t2 \<and>
    plug (PLeaf p' es) path = R \<and> on_path km key (PLeaf p' es) path"
  proof (rule PNode.IH [of "cs ! ?i" "snd (cs ! ?i)" t2 p g ?outer])
    show "cs ! ?i \<in> set cs" "snd (cs ! ?i) \<in> Basic_BNFs.snds (cs ! ?i)" using mem by (auto simp: snds.simps)
    show "plug (snd (cs ! ?i)) ?outer = R" using PNode.prems(8) cs by simp
    show "on_path km key (snd (cs ! ?i)) ?outer" using PNode.prems(9) cs i by simp
  qed (use t2 rep(3) ord(3) mem sub PNode.prems(4,7) tkeep_fields(1) [OF t1(3)] tkeep_fields(1) [OF t2(4)] in simp_all)
  then show ?case unfolding step using tkeep_trans [OF tkeep_trans [OF t1(3) t2(4)]] t1(4) t2(5) by metis
qed

section \<open>The keys of a tree in order\<close>

text \<open>
  The keys of the entries and the separators from left to right; the first key of a node is not a separator. In an ordered tree an entry is
  below every separator to its right and not below the separators to its left.
\<close>

datatype item = Ent generic_key | Sep generic_key

fun item_key :: "item \<Rightarrow> generic_key" where
  "item_key (Ent k) = k"
| "item_key (Sep k) = k"

fun items :: "ptree \<Rightarrow> item list" where
  "items (PLeaf p es) = map (Ent \<circ> fst) es"
| "items (PNode p cs) = tl (concat (map (\<lambda>c. Sep (fst c) # items (snd c)) cs))"

definition item_less :: "key_manager \<Rightarrow> item \<Rightarrow> item \<Rightarrow> bool" where
  "item_less km x y \<longleftrightarrow> (case (x, y) of (Sep a, Ent b) \<Rightarrow> key_le (CompareKeys km) a b | _ \<Rightarrow> key_lt (CompareKeys km) (item_key x) (item_key y))"

fun nodes_ok :: "ptree \<Rightarrow> bool" where
  "nodes_ok (PLeaf p es) \<longleftrightarrow> True"
| "nodes_ok (PNode p cs) \<longleftrightarrow> 2 \<le> length cs \<and> (\<forall>c \<in> set cs. nodes_ok (snd c))"

definition tree_sorted :: "key_manager \<Rightarrow> ptree \<Rightarrow> bool" where
  "tree_sorted km T \<longleftrightarrow> nodes_ok T \<and> (\<forall>x \<in> set (items T). orderable_key km (item_key x)) \<and> sorted_wrt (item_less km) (items T)"

abbreviation child_items :: "(generic_key \<times> ptree) list \<Rightarrow> item list" where
  "child_items cs \<equiv> concat (map (\<lambda>c. Sep (fst c) # items (snd c)) cs)"

lemma items_node: "cs \<noteq> [] \<Longrightarrow> child_items cs = Sep (fst (hd cs)) # items (PNode p cs)"
  by (cases cs) simp_all

lemma child_items_nth:
  assumes "i < length cs"
  shows "child_items cs = child_items (take i cs) @ Sep (fst (cs ! i)) # items (snd (cs ! i)) @ child_items (drop (Suc i) cs)"
proof -
  have "child_items cs = child_items (take i cs @ cs ! i # drop (Suc i) cs)" using id_take_nth_drop [OF assms] by simp
  then show ?thesis by (simp only: map_append concat_append list.map concat.simps append_Cons)
qed

lemma entries_items: "nodes_ok T \<Longrightarrow> e \<in> set (entries T) \<Longrightarrow> Ent (fst e) \<in> set (items T)"
proof (induction T rule: ptree_induct)
  case (PNode p cs)
  then obtain c where c: "c \<in> set cs" "e \<in> set (entries (snd c))" by auto
  have "Ent (fst e) \<in> set (items (snd c))" by (rule PNode.IH [OF c(1)]) (use PNode.prems(1) c in auto)
  then have "Ent (fst e) \<in> (\<Union>c \<in> set cs. set (Sep (fst c) # items (snd c)))" using c(1) by (intro UN_I [of c]) simp_all
  then have mem: "Ent (fst e) \<in> set (child_items cs)" by simp
  have ne: "cs \<noteq> []" using c(1) by auto
  have "Ent (fst e) \<in> insert (Sep (fst (hd cs))) (set (items (PNode p cs)))"
    using arg_cong [OF items_node [OF ne, of p], of set] mem by (simp only: list.set)
  then show ?case by (simp del: items.simps)
qed auto

lemma tree_sorted_child:
  assumes "tree_sorted km (PNode p (ls @ (k, T) # rs))"
  shows "tree_sorted km T"
proof -
  have "\<exists>xs ys. items (PNode p (ls @ (k, T) # rs)) = xs @ items T @ ys"
  proof (cases ls)
    case Nil
    then show ?thesis by (intro exI [of _ "[]"] exI [of _ "child_items rs"]) simp
  next
    case (Cons c ls')
    then show ?thesis by (intro exI [of _ "items (snd c) @ child_items ls' @ [Sep k]"] exI [of _ "child_items rs"]) simp
  qed
  with assms show ?thesis by (auto simp: tree_sorted_def sorted_wrt_append)
qed

lemma item_less_Ent [simp]: "item_less km (Ent a) y = key_lt (CompareKeys km) a (item_key y)"
  by (cases y) (simp_all add: item_less_def)

lemma item_less_Sep [simp]: "item_less km x (Sep b) = key_lt (CompareKeys km) (item_key x) b"
  by (cases x) (simp_all add: item_less_def)

lemma item_less_Sep_Ent [simp]: "item_less km (Sep a) (Ent b) = key_le (CompareKeys km) a b"
  by (simp add: item_less_def)

lemma child_items_before:
  assumes "i < length cs" "j < i"
  shows "Sep (fst (cs ! j)) \<in> set (child_items (take i cs))" "set (items (snd (cs ! j))) \<subseteq> set (child_items (take i cs))"
proof -
  have "cs ! j \<in> set (take i cs)" using assms by (auto simp: in_set_conv_nth)
  then have "set (Sep (fst (cs ! j)) # items (snd (cs ! j))) \<subseteq> (\<Union>c \<in> set (take i cs). set (Sep (fst c) # items (snd c)))" by blast
  then show "Sep (fst (cs ! j)) \<in> set (child_items (take i cs))" "set (items (snd (cs ! j))) \<subseteq> set (child_items (take i cs))" by auto
qed

text \<open>A separator and the items around it.\<close>

lemma node_sorted_at:
  assumes "tree_sorted km (PNode p cs)" "1 \<le> i" "i < length cs"
  shows "j < i \<Longrightarrow> x \<in> set (items (snd (cs ! j))) \<Longrightarrow> item_less km x (Sep (fst (cs ! i)))"
    "x \<in> set (items (snd (cs ! i))) \<Longrightarrow> item_less km (Sep (fst (cs ! i))) x"
    "1 \<le> j \<Longrightarrow> j < i \<Longrightarrow> item_less km (Sep (fst (cs ! j))) (Sep (fst (cs ! i)))"
    "orderable_key km (fst (cs ! i))"
proof -
  obtain c0 cs' where cs: "cs = c0 # cs'" using assms(3) by (cases cs) simp_all
  obtain l where l: "i = Suc l" "l < length cs'" using assms(2,3) cs by (cases i) auto
  define pre where "pre = items (snd c0) @ child_items (take l cs')"
  have it: "items (PNode p cs) = pre @ Sep (fst (cs ! i)) # items (snd (cs ! i)) @ child_items (drop (Suc l) cs')"
    using child_items_nth [OF l(2)] cs l(1) by (simp add: pre_def)
  have srt: "sorted_wrt (item_less km) (pre @ Sep (fst (cs ! i)) # items (snd (cs ! i)) @ child_items (drop (Suc l) cs'))"
    and ordb: "orderable_key km (item_key (Sep (fst (cs ! i))))" using assms(1) unfolding tree_sorted_def it by simp_all
  show "orderable_key km (fst (cs ! i))" using ordb by simp
  have memI: "x \<in> set pre" if j: "j < i" and x: "x \<in> set (items (snd (cs ! j)))" for j x
  proof (cases j)
    case (Suc j')
    then have "set (items (snd (cs ! j))) \<subseteq> set (child_items (take l cs'))" using child_items_before(2) [OF l(2), of j'] j l cs by simp
    then show ?thesis using x unfolding pre_def by auto
  qed (use x cs in \<open>simp add: pre_def\<close>)
  show "item_less km x (Sep (fst (cs ! i)))" if "j < i" "x \<in> set (items (snd (cs ! j)))"
    using memI [OF that] srt by (simp add: sorted_wrt_append)
  show "item_less km (Sep (fst (cs ! i))) x" if "x \<in> set (items (snd (cs ! i)))" using that srt by (simp add: sorted_wrt_append)
  show "item_less km (Sep (fst (cs ! j))) (Sep (fst (cs ! i)))" if j: "1 \<le> j" "j < i"
  proof -
    obtain j' where "j = Suc j'" using j(1) by (cases j) auto
    then have "Sep (fst (cs ! j)) \<in> set (child_items (take l cs'))" using child_items_before(1) [OF l(2), of j'] j l cs by simp
    then have "Sep (fst (cs ! j)) \<in> set pre" unfolding pre_def by simp
    then have "item_less km (Sep (fst (cs ! j))) (Sep (fst (cs ! i)))" using srt unfolding sorted_wrt_append by (meson list.set_intros(1))
    then show ?thesis .
  qed
qed

lemma tree_sorted_order: "tree_sorted km T \<Longrightarrow> tree_order km T"
proof (induction T rule: ptree_induct)
  case (PLeaf p es)
  then show ?case by (auto simp: tree_sorted_def leaf_keys_ok_def sorted_wrt_map)
next
  case (PNode p cs)
  note N = node_sorted_at [OF PNode.prems]
  have two: "2 \<le> length cs" and nok: "\<And>c. c \<in> set cs \<Longrightarrow> nodes_ok (snd c)" using PNode.prems by (simp_all add: tree_sorted_def)
  have sub: "tree_order km (snd c)" if c: "c \<in> set cs" for c
  proof -
    obtain ls rs where "cs = ls @ (fst c, snd c) # rs" using split_list [OF c] by auto
    with PNode.prems have "tree_sorted km (snd c)" using tree_sorted_child [of km p ls "fst c" "snd c" rs] by simp
    then show ?thesis by (rule PNode.IH [OF c])
  qed
  have ent: "Ent (fst e) \<in> set (items (snd (cs ! i)))" if "i < length cs" "e \<in> set (entries (snd (cs ! i)))" for i e
    using entries_items [OF nok that(2)] that(1) by simp
  have "int_keys_ok km cs"
  proof -
    have "key_lt (CompareKeys km) (fst (tl cs ! i)) (fst (tl cs ! j))" if "i < j" "j < length (tl cs)" for i j
      using N(3) [of "Suc j" "Suc i"] that by (simp add: nth_tl)
    moreover have "orderable_key km (fst c)" if c: "c \<in> set (tl cs)" for c
    proof -
      obtain i where "i < length (tl cs)" "c = tl cs ! i" using c by (metis in_set_conv_nth)
      then show ?thesis using N(4) [of "Suc i"] by (simp add: nth_tl)
    qed
    ultimately show ?thesis by (auto simp: int_keys_ok_def leaf_keys_ok_def sorted_wrt_iff_nth_less)
  qed
  moreover have "key_lt (CompareKeys km) (fst e) (fst (cs ! Suc i))" if "Suc i < length cs" "e \<in> set (entries (snd (cs ! i)))" for i e
    using N(1) [of "Suc i" i "Ent (fst e)"] ent [of i e] that by simp
  moreover have "key_le (CompareKeys km) (fst (cs ! i)) (fst e)" if "1 \<le> i" "i < length cs" "e \<in> set (entries (snd (cs ! i)))" for i e
    using N(2) [of i "Ent (fst e)"] ent [of i e] that by simp
  ultimately show ?case using two sub by simp
qed

section \<open>Searching a tree\<close>

fun tree_sizes :: "int \<Rightarrow> int \<Rightarrow> ptree \<Rightarrow> bool" where
  "tree_sizes lm im (PLeaf p es) \<longleftrightarrow> int (length es) \<le> lm"
| "tree_sizes lm im (PNode p cs) \<longleftrightarrow> int (length cs) \<le> im \<and> (\<forall>c \<in> set cs. tree_sizes lm im (snd c))"

text \<open>
  The state of a tree with the pages of \<open>T\<close>; a page takes one entry more than its maximal size before it is split. The index
  roots page, and with \<open>btree_inv\<close> also the contents of all other pages, are not part of the tree.
\<close>

definition max_sizes_ok :: "nat \<Rightarrow> int \<Rightarrow> int \<Rightarrow> bool" where
  "max_sizes_ok ks lm im \<longleftrightarrow> 1 \<le> lm \<and> 3 \<le> im \<and> 32 + (nat lm + 1) * (ks + 8) \<le> PAGE_SIZE \<and> 28 + (nat im + 1) * (ks + 4) \<le> PAGE_SIZE"

definition btree_inv :: "nat \<Rightarrow> btree \<Rightarrow> (int \<Rightarrow> buffer) \<Rightarrow> int set \<Rightarrow> ptree \<Rightarrow> bool" where
  "btree_inv n t m A T \<longleftrightarrow> tstate n t m A \<and> bt_root t = pid_of T \<and> distinct (tree_pids T) \<and> set (tree_pids T) \<subseteq> A - {INDEX_ROOTS_PAGE_ID} \<and>
     tree_rep (km_key_size (bt_km t)) (bt_leaf_max t) (bt_int_max t) m INVALID_PAGE_ID T \<and> tree_sorted (bt_km t) T \<and>
     tree_sizes (bt_leaf_max t) (bt_int_max t) T \<and> max_sizes_ok (km_key_size (bt_km t)) (bt_leaf_max t) (bt_int_max t)"

lemma tstate_pos: "tstate n t m A \<Longrightarrow> p \<in> A \<Longrightarrow> 0 \<le> p"
  using pool_pages_pos by (auto simp: tstate_def)

lemma tkeep_tstate_eq:
  "tkeep t t' \<Longrightarrow> tstate n t' m A \<Longrightarrow> bt_root t' = bt_root t \<Longrightarrow> btree_inv n' t m' A' T \<Longrightarrow> m' = m \<Longrightarrow> A' = A \<Longrightarrow> btree_inv n t' m A T"
  by (simp add: btree_inv_def tkeep_def)

lemma btree_inv_root: "btree_inv n t m A T \<Longrightarrow> \<not> BT_IsEmpty t"
proof -
  assume inv: "btree_inv n t m A T"
  have "pid_of T \<in> A" using inv pid_of_in_pids [of T] by (auto simp: btree_inv_def)
  then have "0 \<le> pid_of T" using tstate_pos inv by (auto simp: btree_inv_def)
  then show ?thesis using inv by (auto simp: btree_inv_def BT_IsEmpty_def INVALID_PAGE_ID_def)
qed

lemma FindLeafPage_ok:
  assumes inv: "btree_inv n t m A T" and key: "orderable_key (bt_km t) key"
  obtains p es path f t' where "FindLeafPage t key INVALID_PAGE_ID False = Some (Some f, t')" "tstate n t' m A" "holds t' f p" "tkeep t t'"
    "bt_root t' = bt_root t" "plug (PLeaf p es) path = T" "on_path (bt_km t) key (PLeaf p es) path"
proof -
  note I = inv [unfolded btree_inv_def]
  have sub: "set (tree_pids T) \<subseteq> A" using I by blast
  then have "pid_of T \<in> A" using pid_of_in_pids [of T] by blast
  then obtain f0 t0 where f0: "fetch_node t (pid_of T) = Some (f0, t0)" "tstate n t0 m A" "holds t0 f0 (pid_of T)" "tkeep t t0" "bt_root t0 = bt_root t"
    using fetch_node_ok [of n t m A "pid_of T"] I by metis
  obtain p es path f t' where L: "find_leaf_loop t0 f0 key False = Some (f, t')" "tstate n t' m A" "holds t' f p" "tkeep t0 t'" "bt_root t' = bt_root t0"
    "plug (PLeaf p es) path = T" "on_path (bt_km t) key (PLeaf p es) path"
    using find_leaf_loop_ok [OF f0(2) _ _ key f0(3), of "km_key_size (bt_km t)" "bt_leaf_max t" "bt_int_max t" INVALID_PAGE_ID "[]" T]
      I sub tkeep_fields(1) [OF f0(4)] tree_sorted_order by auto
  have "FindLeafPage t key INVALID_PAGE_ID False = Some (Some f, t')"
    using btree_inv_root [OF inv] f0(1) L(1) I by (simp add: FindLeafPage_def)
  then show thesis using that L tkeep_trans [OF f0(4) L(4)] f0(5) by metis
qed

text \<open>What a leaf on the search path is.\<close>

lemma path_leaf_rep:
  assumes inv: "btree_inv n t m A T" and T: "plug (PLeaf p es) path = T"
  shows "leaf_rep (km_key_size (bt_km t)) (m p) es" "node_header (m p) p (path_parent path) (bt_leaf_max t)" "leaf_keys_ok (bt_km t) es" "p \<in> A" "p \<noteq> INDEX_ROOTS_PAGE_ID"
proof -
  note I = inv [unfolded btree_inv_def]
  have "tree_rep (km_key_size (bt_km t)) (bt_leaf_max t) (bt_int_max t) m (path_parent path) (PLeaf p es)"
    using I T by (intro tree_rep_plug) simp
  then show "leaf_rep (km_key_size (bt_km t)) (m p) es" "node_header (m p) p (path_parent path) (bt_leaf_max t)" by simp_all
  have "tree_order (bt_km t) (PLeaf p es)" by (rule tree_order_plug [where path = path]) (simp add: T I tree_sorted_order)
  then show "leaf_keys_ok (bt_km t) es" by simp
  have "set (tree_pids (PLeaf p es)) \<subseteq> set (tree_pids T)" using tree_pids_plug T by blast
  then show "p \<in> A" "p \<noteq> INDEX_ROOTS_PAGE_ID" using I by auto
qed

lemma GetValue_ok:
  assumes inv: "btree_inv n t m A T" and key: "orderable_key (bt_km t) key"
  obtains t' where "GetValue t key = Some (map_option snd (find (\<lambda>e. key_eq (bt_cmp t) (fst e) key) (entries T)), t')" "btree_inv n t' m A T"
    "tstate n t' m A" "tkeep t t'" "bt_root t' = bt_root t"
proof -
  obtain p es path f t1 where L: "FindLeafPage t key INVALID_PAGE_ID False = Some (Some f, t1)" "tstate n t1 m A" "holds t1 f p" "tkeep t t1"
    "bt_root t1 = bt_root t" "plug (PLeaf p es) path = T" "on_path (bt_km t) key (PLeaf p es) path"
    by (rule FindLeafPage_ok [OF inv key])
  note P = path_leaf_rep [OF inv L(6)]
  obtain t2 where t2: "unpin_node t1 p False = Some t2" "tstate n t2 m A" "tkeep t1 t2" "bt_root t2 = bt_root t1" by (rule unpin_node_ok [OF L(2)])
  let ?P = "\<lambda>e. key_eq (bt_cmp t) (fst e) key"
  have ord: "tree_order (bt_km t) (plug (PLeaf p es) path)" using inv L(6) by (simp add: btree_inv_def tree_sorted_order)
  have "Leaf_Lookup (bt_cmp t) (m p) key = Some (map_option snd (find ?P es))" by (rule Leaf_Lookup_ok [OF P(1,3) key])
  moreover have "find ?P (entries T) = find ?P es" using find_entries_path [OF ord key L(7)] L(6) by simp
  ultimately have "GetValue t key = Some (map_option snd (find ?P (entries T)), t2)"
    using btree_inv_root [OF inv] L(1) node_data_ok(1) [OF L(2,3)] P(2) t2(1) tkeep_fields(1) [OF L(4)] by (simp add: GetValue_def node_header_def)
  moreover have "btree_inv n t2 m A T"
    using tkeep_tstate_eq [OF tkeep_trans [OF L(4) t2(3)] t2(2) _ inv refl refl] t2(4) L(5) by simp
  ultimately show thesis using that t2(2,4) tkeep_trans [OF L(4) t2(3)] L(5) by simp
qed

end
