(* ===== verification/Tree_Insert.thy ===== *)
theory Tree_Insert
  imports Tree_Search "HOL-Library.Multiset"
begin

text \<open>
  Insertion into the B+ tree. A split leaves the tree with a hole: the page of the path's innermost node lists the old node only, while
  the new node stands beside it. \<open>path_rep\<close> describes the pages around the hole, and \<^verbatim>\<open>InsertIntoParent\<close>
  closes it, splitting the nodes of the path as far as needed. What the tree contains is tracked by the list of its
  items, which no split changes.
\<close>

section \<open>The pages around a position\<close>

fun path_rep :: "nat \<Rightarrow> int \<Rightarrow> int \<Rightarrow> (int \<Rightarrow> buffer) \<Rightarrow> crumb list \<Rightarrow> int \<Rightarrow> bool" where
  "path_rep ks lm im m [] p \<longleftrightarrow> True"
| "path_rep ks lm im m ((q, ls, k, rs) # path) p \<longleftrightarrow> int_rep ks (m q) (child_refs ls @ (k, p) # child_refs rs) \<and>
     node_header (m q) q (path_parent path) im \<and> (\<forall>c \<in> set ls \<union> set rs. tree_rep ks lm im m q (snd c)) \<and> path_rep ks lm im m path q"

abbreviation child_pids :: "(generic_key \<times> ptree) list \<Rightarrow> int list" where
  "child_pids cs \<equiv> concat (map (\<lambda>c. tree_pids (snd c)) cs)"

fun path_pids :: "crumb list \<Rightarrow> int list" where
  "path_pids [] = []"
| "path_pids ((q, ls, k, rs) # path) = q # child_pids ls @ child_pids rs @ path_pids path"

definition tree_shape :: "int \<Rightarrow> int \<Rightarrow> ptree \<Rightarrow> bool" where
  "tree_shape lm im T \<longleftrightarrow> tree_sizes lm im T \<and> nodes_ok T"

fun path_shape :: "int \<Rightarrow> int \<Rightarrow> crumb list \<Rightarrow> bool" where
  "path_shape lm im [] \<longleftrightarrow> True"
| "path_shape lm im ((q, ls, k, rs) # path) \<longleftrightarrow> int (length ls + 1 + length rs) \<le> im \<and> 2 \<le> length ls + 1 + length rs \<and>
     (\<forall>c \<in> set ls \<union> set rs. tree_shape lm im (snd c)) \<and> path_shape lm im path"

text \<open>All leaves of a tree are at the same depth.\<close>

fun balanced :: "nat \<Rightarrow> ptree \<Rightarrow> bool" where
  "balanced h (PLeaf p es) \<longleftrightarrow> h = 0"
| "balanced h (PNode p cs) \<longleftrightarrow> 0 < h \<and> (\<forall>c \<in> set cs. balanced (h - 1) (snd c))"

fun path_balanced :: "nat \<Rightarrow> crumb list \<Rightarrow> bool" where
  "path_balanced h [] \<longleftrightarrow> True"
| "path_balanced h ((q, ls, k, rs) # path) \<longleftrightarrow> (\<forall>c \<in> set ls \<union> set rs. balanced h (snd c)) \<and> path_balanced (Suc h) path"

definition is_balanced :: "ptree \<Rightarrow> bool" where
  "is_balanced T \<longleftrightarrow> (\<exists>h. balanced h T)"

definition split_balanced :: "crumb list \<Rightarrow> ptree \<Rightarrow> ptree \<Rightarrow> bool" where
  "split_balanced path L R \<longleftrightarrow> (\<exists>h. balanced h L \<and> balanced h R \<and> path_balanced h path)"

fun around :: "crumb list \<Rightarrow> item list \<Rightarrow> item list" where
  "around [] xs = xs"
| "around ((q, ls, k, rs) # path) xs = around path (tl (child_items ls @ Sep k # xs @ child_items rs))"

abbreviation child_entries :: "(generic_key \<times> ptree) list \<Rightarrow> (generic_key \<times> rowid) list" where
  "child_entries cs \<equiv> concat (map (\<lambda>c. entries (snd c)) cs)"

fun left_of :: "crumb list \<Rightarrow> (generic_key \<times> rowid) list" where
  "left_of [] = []"
| "left_of ((q, ls, k, rs) # path) = left_of path @ child_entries ls"

fun right_of :: "crumb list \<Rightarrow> (generic_key \<times> rowid) list" where
  "right_of [] = []"
| "right_of ((q, ls, k, rs) # path) = child_entries rs @ right_of path"

fun root_of :: "crumb list \<Rightarrow> int \<Rightarrow> int" where
  "root_of [] p = p"
| "root_of ((q, ls, k, rs) # path) p = root_of path q"

lemma tree_shape_simps [simp]:
  "tree_shape lm im (PLeaf p es) \<longleftrightarrow> int (length es) \<le> lm"
  "tree_shape lm im (PNode p cs) \<longleftrightarrow> int (length cs) \<le> im \<and> 2 \<le> length cs \<and> (\<forall>c \<in> set cs. tree_shape lm im (snd c))"
  by (auto simp: tree_shape_def)

lemma plug_rep: "tree_rep ks lm im m INVALID_PAGE_ID (plug T path) \<longleftrightarrow> path_rep ks lm im m path (pid_of T) \<and> tree_rep ks lm im m (path_parent path) T"
  by (induction T path rule: plug.induct) auto

lemma plug_pids: "mset (tree_pids (plug T path)) = mset (tree_pids T) + mset (path_pids path)"
  by (induction T path rule: plug.induct) auto

lemma plug_pids_set: "set (tree_pids (plug T path)) = set (tree_pids T) \<union> set (path_pids path)"
  using arg_cong [OF plug_pids [of T path], of set_mset] by simp

lemma plug_distinct: "distinct (tree_pids (plug T path)) \<longleftrightarrow> distinct (tree_pids T @ path_pids path)"
  using plug_pids [of T path] by (metis mset_append mset_eq_imp_distinct_iff)

lemma plug_shape: "tree_shape lm im (plug T path) \<longleftrightarrow> path_shape lm im path \<and> tree_shape lm im T"
  by (induction T path rule: plug.induct) auto

lemma plug_items: "items (plug T path) = around path (items T)"
  by (induction T path rule: plug.induct) simp_all

lemma plug_entries: "entries (plug T path) = left_of path @ entries T @ right_of path"
  by (induction T path rule: plug.induct) simp_all

lemma plug_pid: "pid_of (plug T path) = root_of path (pid_of T)"
  by (induction T path rule: plug.induct) simp_all

lemma plug_balanced: "is_balanced (plug T path) \<longleftrightarrow> (\<exists>h. balanced h T \<and> path_balanced h path)"
proof (induction T path rule: plug.induct)
  case (2 T p ls k rs path)
  let ?N = "PNode p (ls @ (k, T) # rs)"
  have "(\<exists>h. balanced h ?N \<and> path_balanced h path) \<longleftrightarrow> (\<exists>h. balanced (Suc h) ?N \<and> path_balanced (Suc h) path)"
    by (metis balanced.simps(2) gr0_conv_Suc)
  also have "\<dots> \<longleftrightarrow> (\<exists>h. balanced h T \<and> path_balanced h ((p, ls, k, rs) # path))" by (intro ex_cong1) auto
  finally show ?case using 2 by simp
qed (simp add: is_balanced_def)

lemma balanced_leaf: "is_balanced (plug (PLeaf p es) path) \<Longrightarrow> is_balanced (plug (PLeaf p es') path) \<and> split_balanced path (PLeaf p es') (PLeaf q es'')"
  by (simp add: plug_balanced split_balanced_def)

lemma balanced_root: "split_balanced [] L R \<Longrightarrow> is_balanced (PNode p [(a, L), (b, R)])"
proof -
  assume "split_balanced [] L R"
  then obtain h where "balanced h L" "balanced h R" by (auto simp: split_balanced_def)
  then have "balanced (Suc h) (PNode p [(a, L), (b, R)])" by simp
  then show ?thesis unfolding is_balanced_def by blast
qed

lemma balanced_entered:
  assumes "split_balanced ((q, ls, kk, rs) # path) L R" and cs: "cs = ls @ (kk, L) # (k, R) # rs"
  shows "is_balanced (plug (PNode q cs) path)" "split_balanced path (PNode q (take s cs)) (PNode q' (drop s cs))"
proof -
  from assms(1) obtain h where h: "\<forall>c \<in> set cs. balanced h (snd c)" "path_balanced (Suc h) path" by (auto simp: split_balanced_def cs)
  then show "is_balanced (plug (PNode q cs) path)" unfolding plug_balanced by (intro exI [of _ "Suc h"]) simp
  show "split_balanced path (PNode q (take s cs)) (PNode q' (drop s cs))"
    unfolding split_balanced_def using h by (intro exI [of _ "Suc h"]) (auto dest: in_set_takeD in_set_dropD)
qed

lemma tree_rep_cong: "(\<And>x. x \<in> set (tree_pids T) \<Longrightarrow> m' x = m x) \<Longrightarrow> tree_rep ks lm im m par T \<Longrightarrow> tree_rep ks lm im m' par T"
proof (induction T arbitrary: par rule: ptree_induct)
  case (PNode p cs)
  have "tree_rep ks lm im m' p (snd c)" if c: "c \<in> set cs" for c
    by (rule PNode.IH [OF c]) (use PNode.prems c in auto)
  then show ?case using PNode.prems by simp
qed simp

lemma path_rep_cong: "(\<And>x. x \<in> set (path_pids path) \<Longrightarrow> m' x = m x) \<Longrightarrow> path_rep ks lm im m path p \<Longrightarrow> path_rep ks lm im m' path p"
proof (induction path arbitrary: p)
  case (Cons c path)
  obtain q ls k rs where c: "c = (q, ls, k, rs)" by (cases c)
  have "tree_rep ks lm im m' q (snd d)" if "d \<in> set ls \<union> set rs" for d
    by (rule tree_rep_cong [where m = m]) (use Cons.prems that in \<open>auto simp: c\<close>)
  moreover have "path_rep ks lm im m' path q" by (rule Cons.IH) (use Cons.prems in \<open>auto simp: c\<close>)
  ultimately show ?case using Cons.prems by (simp add: c)
qed simp

section \<open>The parent of a page\<close>

lemma set_parent:
  assumes "length d = PAGE_SIZE" "pid_ok q"
  obtains d' where "BP_SetParentPageId d q = Some d'" "length d' = PAGE_SIZE" "BP_GetParentPageId d' = Some q" "BP_GetPageId d' = BP_GetPageId d"
    "BP_GetMaxSize d' = BP_GetMaxSize d" "\<And>ks es. leaf_rep ks d es \<Longrightarrow> leaf_rep ks d' es" "\<And>ks es. int_rep ks d es \<Longrightarrow> int_rep ks d' es"
    "\<And>x n. 28 \<le> x \<Longrightarrow> slice d' x n = slice d x n"
proof -
  let ?d = "splice d 20 (u32_bytes (word_of_int q))"
  have len: "length ?d = PAGE_SIZE" using assms(1) by (simp add: PAGE_SIZE_def)
  have ch: "chunk base psz ?d i = chunk base psz d i" if "28 \<le> base" "base \<le> PAGE_SIZE" for base psz i
    by (rule chunk_splice_below) (use that assms(1) in simp_all)
  have rep: "node_rep ty base venc vlen ks ?d es" if "node_rep ty base venc vlen ks d es" for ty base venc vlen ks es
    using that assms(1) len ch [of base] by (auto simp: node_rep_def buf_simps PAGE_SIZE_def)
  show thesis
  proof (rule that [of ?d])
    show "BP_SetParentPageId d q = Some ?d" using assms(1) by (simp add: header_defs put_i32_at PAGE_SIZE_def)
    show "BP_GetParentPageId ?d = Some q" using assms by (simp add: header_defs get_i32_at buf_simps PAGE_SIZE_def pid_ok_def sint_word_of_int_u32)
    show "BP_GetPageId ?d = BP_GetPageId d" "BP_GetMaxSize ?d = BP_GetMaxSize d"
      using assms(1) by (simp_all add: header_defs get_i32_at buf_simps PAGE_SIZE_def)
    show "leaf_rep ks ?d es" if "leaf_rep ks d es" for ks es using that rep by (auto simp: leaf_rep_def)
    show "int_rep ks ?d es" if "int_rep ks d es" for ks es using that rep by (auto simp: int_rep_def)
    show "slice ?d x n = slice d x n" if "28 \<le> x" for x n using that assms(1) by (simp add: buf_simps PAGE_SIZE_def)
  qed (rule len)
qed

lemma tree_rep_length: "tree_rep ks lm im m par T \<Longrightarrow> length (m (pid_of T)) = PAGE_SIZE"
  by (cases T) (auto simp: leaf_rep_def int_rep_def dest: node_repD(1))

lemma tree_rep_header: "tree_rep ks lm im m par T \<Longrightarrow> BP_GetPageId (m (pid_of T)) = Some (pid_of T) \<and> BP_GetParentPageId (m (pid_of T)) = Some par \<and>
    BP_GetKeySize (m (pid_of T)) = Some (int ks)"
  by (cases T) (auto simp: leaf_rep_def int_rep_def node_header_def dest: node_repD(7))

text \<open>Only the page of the root of a tree names the parent.\<close>

lemma tree_rep_parent:
  assumes rep: "tree_rep ks lm im m par T" and dist: "distinct (tree_pids T)" and q: "pid_ok q"
  obtains d' where "BP_SetParentPageId (m (pid_of T)) q = Some d'" "tree_rep ks lm im (m(pid_of T := d')) q T" "length d' = PAGE_SIZE"
    "\<And>x n. 28 \<le> x \<Longrightarrow> slice d' x n = slice (m (pid_of T)) x n"
proof -
  obtain d' where d': "BP_SetParentPageId (m (pid_of T)) q = Some d'" "length d' = PAGE_SIZE" "BP_GetParentPageId d' = Some q"
    "BP_GetPageId d' = BP_GetPageId (m (pid_of T))" "BP_GetMaxSize d' = BP_GetMaxSize (m (pid_of T))"
    "\<And>ks es. leaf_rep ks (m (pid_of T)) es \<Longrightarrow> leaf_rep ks d' es" "\<And>ks es. int_rep ks (m (pid_of T)) es \<Longrightarrow> int_rep ks d' es"
    "\<And>x n. 28 \<le> x \<Longrightarrow> slice d' x n = slice (m (pid_of T)) x n"
    by (rule set_parent [OF tree_rep_length [OF rep] q], rule that, blast+)
  have "tree_rep ks lm im (m(pid_of T := d')) q T"
  proof (cases T)
    case (PLeaf p es)
    then show ?thesis using rep d' by (simp add: node_header_def)
  next
    case (PNode p cs)
    have "tree_rep ks lm im (m(p := d')) p (snd c)" if "c \<in> set cs" for c
      by (rule tree_rep_cong [where m = m]) (use rep dist that PNode in auto)
    then show ?thesis using rep d' PNode by (simp add: node_header_def)
  qed
  then show thesis using that d' by blast
qed

lemma tstate_pid_ok: "tstate n t m A \<Longrightarrow> p \<in> A \<Longrightarrow> pid_ok p"
  by (auto simp: tstate_def pool_pages_def page_ok_def pid_ok_def data_block_alt PHYS_LIMIT_def)

lemma invalid_pid_ok: "pid_ok INVALID_PAGE_ID"
  by (simp add: pid_ok_def INVALID_PAGE_ID_def)

text \<open>The moved children name their new parent.\<close>

lemma adopt_ok:
  assumes "tstate n t m A" "holds t f q" "BP_GetPageId (m q) = Some q" "\<forall>c \<in> set cs. tree_rep ks lm im m par (snd c)"
    "distinct (child_pids cs)" "q \<notin> set (child_pids cs)" "set (child_pids cs) \<subseteq> A"
  obtains t' m' where "adopt t f (map (\<lambda>c. pid_of (snd c)) cs) = Some t'" "tstate n t' m' A" "tkeep t t'" "bt_root t' = bt_root t"
    "\<And>x. x \<notin> set (child_pids cs) \<Longrightarrow> m' x = m x" "\<forall>c \<in> set cs. tree_rep ks lm im m' q (snd c)"
  using assms
proof (induction cs arbitrary: t m thesis)
  case Nil
  then show ?case by (intro Nil.prems(1) [of t m]) simp_all
next
  case (Cons c cs)
  let ?p = "pid_of (snd c)"
  have rep: "tree_rep ks lm im m par (snd c)" "distinct (tree_pids (snd c))" using Cons.prems(5,6) by simp_all
  have p: "?p \<in> A" "?p \<noteq> q" using pid_of_in_pids [of "snd c"] Cons.prems(7,8) by auto
  obtain g t1 where t1: "fetch_or_null t ?p = Some (Some g, t1)" "tstate n t1 m A" "holds t1 g ?p" "tkeep t t1" "bt_root t1 = bt_root t"
    using fetch_node_ok [OF Cons.prems(2) p(1)] by blast
  have q: "holds t1 f q" "pid_ok q" using tkeep_holds [OF t1(4) Cons.prems(3)] tstate_pid_ok [OF t1(2) holds_page [OF t1(2)]] by blast+
  obtain d' where d': "BP_SetParentPageId (m ?p) q = Some d'" "tree_rep ks lm im (m(?p := d')) q (snd c)" "length d' = PAGE_SIZE"
    by (rule tree_rep_parent [OF rep q(2)], rule that, assumption+)
  obtain t2 where t2: "put_node t1 g d' = Some t2" "tstate n t2 (m(?p := d')) A" "tkeep t1 t2" "bt_root t2 = bt_root t1"
    by (rule put_node_ok [OF t1(2,3) d'(3)])
  obtain t3 where t3: "unpin_node t2 ?p True = Some t3" "tstate n t3 (m(?p := d')) A" "tkeep t2 t3" "bt_root t3 = bt_root t2"
    by (rule unpin_node_ok [OF t2(2)])
  note keep = tkeep_trans [OF t1(4) tkeep_trans [OF t2(3) t3(3)]]
  have notin: "?p \<notin> set (child_pids cs)" "set (tree_pids (snd c)) \<inter> set (child_pids cs) = {}" using Cons.prems(6) pid_of_in_pids [of "snd c"] by auto
  have cs: "\<forall>d \<in> set cs. tree_rep ks lm im (m(?p := d')) par (snd d)"
  proof
    fix d assume d: "d \<in> set cs"
    show "tree_rep ks lm im (m(?p := d')) par (snd d)" by (rule tree_rep_cong [where m = m]) (use Cons.prems(5) notin(1) d in auto)
  qed
  obtain t' m' where r: "adopt t3 f (map (\<lambda>c. pid_of (snd c)) cs) = Some t'" "tstate n t' m' A" "tkeep t3 t'" "bt_root t' = bt_root t3"
    "\<And>x. x \<notin> set (child_pids cs) \<Longrightarrow> m' x = (m(?p := d')) x" "\<forall>c \<in> set cs. tree_rep ks lm im m' q (snd c)"
    by (rule Cons.IH [OF _ t3(2) tkeep_holds [OF keep Cons.prems(3)] _ cs], rule that, blast+) (use Cons.prems p(2) in simp_all)
  have "tree_rep ks lm im m' q (snd c)" by (rule tree_rep_cong [OF _ d'(2)]) (use r(5) notin(2) in blast)
  moreover have "adopt t f (map (\<lambda>c. pid_of (snd c)) (c # cs)) = Some t'"
    using t1(1) node_data_ok(1) [OF t1(2) q(1)] node_data_ok(1) [OF t1(2,3)] Cons.prems(4) d'(1) t2(1) t3(1) r(1) by simp
  moreover have "m' x = m x" if "x \<notin> set (child_pids (c # cs))" for x
    using r(5) [of x] that pid_of_in_pids [of "snd c"] by auto
  ultimately show ?case using r(2,6) t1(5) t2(4) t3(4) r(4) by (intro Cons.prems(1) [of t' m'] tkeep_trans [OF keep r(3)]) auto
qed

section \<open>The index roots page\<close>

lemma UpdateRootPageId_ok:
  assumes t: "tstate n t m A" "INDEX_ROOTS_PAGE_ID \<in> A" and rs: "roots_rep (m INDEX_ROOTS_PAGE_ID) rs" and root: "pid_ok (bt_root t)"
  obtains t' d' where "UpdateRootPageId t 0 = Some t'" "tstate n t' (m(INDEX_ROOTS_PAGE_ID := d')) A" "tkeep t t'" "bt_root t' = bt_root t"
    "roots_rep d' (map (\<lambda>(y, w). (y, if y = bt_index_id t then bt_root t else w)) rs)"
proof -
  obtain f t1 where t1: "fetch_node t INDEX_ROOTS_PAGE_ID = Some (f, t1)" "tstate n t1 m A" "holds t1 f INDEX_ROOTS_PAGE_ID" "tkeep t t1" "bt_root t1 = bt_root t"
    using fetch_node_ok [OF t] by blast
  obtain d' where d': "IR_Update (m INDEX_ROOTS_PAGE_ID) (bt_index_id t) (bt_root t) = Some (map_of rs (bt_index_id t) \<noteq> None, d')"
    "roots_rep d' (map (\<lambda>(y, w). (y, if y = bt_index_id t then bt_root t else w)) rs)"
    using IR_Update_ok [OF rs] root by (auto simp: pid_ok_def)
  obtain t2 where t2: "put_node t1 f d' = Some t2" "tstate n t2 (m(INDEX_ROOTS_PAGE_ID := d')) A" "tkeep t1 t2" "bt_root t2 = bt_root t1"
    by (rule put_node_ok [OF t1(2,3) roots_repD(1) [OF d'(2)]])
  obtain t3 where t3: "unpin_node t2 INDEX_ROOTS_PAGE_ID True = Some t3" "tstate n t3 (m(INDEX_ROOTS_PAGE_ID := d')) A" "tkeep t2 t3" "bt_root t3 = bt_root t2"
    by (rule unpin_node_ok [OF t2(2)])
  have "UpdateRootPageId t 0 = Some t3"
    using t1(1) node_data_ok(1) [OF t1(2,3)] d'(1) t2(1) t3(1) t1(5) tkeep_fields(4) [OF t1(4)] by (simp add: UpdateRootPageId_def)
  then show thesis using that [OF _ t3(2) tkeep_trans [OF t1(4) tkeep_trans [OF t2(3) t3(3)]] _ d'(2)] t3(4) t2(4) t1(5) by simp
qed

lemma UpdateRootPageId_new:
  assumes t: "tstate n t m A" "INDEX_ROOTS_PAGE_ID \<in> A" and rs: "roots_rep (m INDEX_ROOTS_PAGE_ID) rs" and root: "pid_ok (bt_root t)"
    and new: "map_of rs (bt_index_id t) = None" "length rs < MAX_INDEX_COUNT"
  obtains t' d' where "UpdateRootPageId t 1 = Some t'" "tstate n t' (m(INDEX_ROOTS_PAGE_ID := d')) A" "tkeep t t'" "bt_root t' = bt_root t"
    "roots_rep d' (rs @ [(bt_index_id t, bt_root t)])"
proof -
  obtain f t1 where t1: "fetch_node t INDEX_ROOTS_PAGE_ID = Some (f, t1)" "tstate n t1 m A" "holds t1 f INDEX_ROOTS_PAGE_ID" "tkeep t t1" "bt_root t1 = bt_root t"
    using fetch_node_ok [OF t] by blast
  obtain d' where d': "IR_Insert (m INDEX_ROOTS_PAGE_ID) (bt_index_id t) (bt_root t) = Some (True, d')" "roots_rep d' (rs @ [(bt_index_id t, bt_root t)])"
    using IR_Insert_ok [OF rs new] root by (auto simp: pid_ok_def)
  obtain t2 where t2: "put_node t1 f d' = Some t2" "tstate n t2 (m(INDEX_ROOTS_PAGE_ID := d')) A" "tkeep t1 t2" "bt_root t2 = bt_root t1"
    by (rule put_node_ok [OF t1(2,3) roots_repD(1) [OF d'(2)]])
  obtain t3 where t3: "unpin_node t2 INDEX_ROOTS_PAGE_ID True = Some t3" "tstate n t3 (m(INDEX_ROOTS_PAGE_ID := d')) A" "tkeep t2 t3" "bt_root t3 = bt_root t2"
    by (rule unpin_node_ok [OF t2(2)])
  have "UpdateRootPageId t 1 = Some t3"
    using t1(1) node_data_ok(1) [OF t1(2,3)] d'(1) t2(1) t3(1) t1(5) tkeep_fields(4) [OF t1(4)] by (simp add: UpdateRootPageId_def)
  then show thesis using that [OF _ t3(2) tkeep_trans [OF t1(4) tkeep_trans [OF t2(3) t3(3)]] _ d'(2)] t3(4) t2(4) t1(5) by simp
qed

section \<open>A split node and its position\<close>

abbreviation ksz :: "btree \<Rightarrow> nat" where "ksz t \<equiv> km_key_size (bt_km t)"
abbreviation lmx :: "btree \<Rightarrow> int" where "lmx t \<equiv> bt_leaf_max t"
abbreviation imx :: "btree \<Rightarrow> int" where "imx t \<equiv> bt_int_max t"

definition roots_at :: "(int \<Rightarrow> buffer) \<Rightarrow> int set \<Rightarrow> u32 \<Rightarrow> int \<Rightarrow> bool" where
  "roots_at m A i r \<longleftrightarrow> INDEX_ROOTS_PAGE_ID \<in> A \<and> (\<exists>rs. roots_rep (m INDEX_ROOTS_PAGE_ID) rs \<and> map_of rs i = Some r)"

text \<open>A tree that is complete: its pages, its root and the entry of the index roots page.\<close>

definition tree_at :: "nat \<Rightarrow> btree \<Rightarrow> (int \<Rightarrow> buffer) \<Rightarrow> int set \<Rightarrow> ptree \<Rightarrow> bool" where
  "tree_at n t m A T \<longleftrightarrow> tstate n t m A \<and> bt_root t = pid_of T \<and> roots_at m A (bt_index_id t) (bt_root t) \<and> distinct (tree_pids T) \<and>
     set (tree_pids T) \<subseteq> A - {INDEX_ROOTS_PAGE_ID} \<and> tree_rep (ksz t) (lmx t) (imx t) m INVALID_PAGE_ID T \<and> tree_shape (lmx t) (imx t) T \<and>
     max_sizes_ok (ksz t) (lmx t) (imx t) \<and> is_balanced T"

text \<open>The node \<open>L\<close> has its place on the path; its new right neighbour \<open>R\<close> has none yet. The separator is the first key of the page of \<open>R\<close>.\<close>

definition split_at :: "nat \<Rightarrow> btree \<Rightarrow> (int \<Rightarrow> buffer) \<Rightarrow> int set \<Rightarrow> crumb list \<Rightarrow> ptree \<Rightarrow> generic_key \<Rightarrow> ptree \<Rightarrow> bool" where
  "split_at n t m A path L k R \<longleftrightarrow> tstate n t m A \<and> bt_root t = root_of path (pid_of L) \<and> roots_at m A (bt_index_id t) (bt_root t) \<and>
     distinct (tree_pids L @ tree_pids R @ path_pids path) \<and> set (tree_pids L @ tree_pids R @ path_pids path) \<subseteq> A - {INDEX_ROOTS_PAGE_ID} \<and>
     tree_rep (ksz t) (lmx t) (imx t) m (path_parent path) L \<and> tree_rep (ksz t) (lmx t) (imx t) m (path_parent path) R \<and>
     path_rep (ksz t) (lmx t) (imx t) m path (pid_of L) \<and> tree_shape (lmx t) (imx t) L \<and> tree_shape (lmx t) (imx t) R \<and> path_shape (lmx t) (imx t) path \<and>
     length k = ksz t \<and> max_sizes_ok (ksz t) (lmx t) (imx t) \<and> split_balanced path L R"

lemma split_atD:
  assumes "split_at n t m A path L k R"
  shows "tstate n t m A" "bt_root t = root_of path (pid_of L)" "roots_at m A (bt_index_id t) (bt_root t)"
    "distinct (tree_pids L @ tree_pids R @ path_pids path)" "set (tree_pids L @ tree_pids R @ path_pids path) \<subseteq> A - {INDEX_ROOTS_PAGE_ID}"
    "tree_rep (ksz t) (lmx t) (imx t) m (path_parent path) L" "tree_rep (ksz t) (lmx t) (imx t) m (path_parent path) R"
    "path_rep (ksz t) (lmx t) (imx t) m path (pid_of L)" "tree_shape (lmx t) (imx t) L" "tree_shape (lmx t) (imx t) R" "path_shape (lmx t) (imx t) path"
    "length k = ksz t" "max_sizes_ok (ksz t) (lmx t) (imx t)" "split_balanced path L R"
  using assms unfolding split_at_def by blast+

lemma tree_atD:
  assumes "tree_at n t m A T"
  shows "tstate n t m A" "bt_root t = pid_of T" "roots_at m A (bt_index_id t) (bt_root t)" "distinct (tree_pids T)" "set (tree_pids T) \<subseteq> A - {INDEX_ROOTS_PAGE_ID}"
    "tree_rep (ksz t) (lmx t) (imx t) m INVALID_PAGE_ID T" "tree_shape (lmx t) (imx t) T" "max_sizes_ok (ksz t) (lmx t) (imx t)"
    "is_balanced T"
  using assms unfolding tree_at_def by blast+

lemma max_sizesD:
  assumes "max_sizes_ok ks lm im"
  shows "1 \<le> lm" "3 \<le> im" "pid_ok lm" "pid_ok im" "ks \<le> PAGE_SIZE" "32 + ks \<le> PAGE_SIZE"
    "int (length es) \<le> im \<Longrightarrow> int_room ks es 1" "int (length xs) \<le> lm \<Longrightarrow> leaf_room ks xs 1" "int (length es) \<le> im + 1 \<Longrightarrow> int_room ks [] (length es)"
    "int (length xs) \<le> lm + 1 \<Longrightarrow> leaf_room ks [] (length xs)"
proof -
  have S: "1 \<le> lm" "3 \<le> im" "32 + (nat lm + 1) * (ks + 8) \<le> PAGE_SIZE" "28 + (nat im + 1) * (ks + 4) \<le> PAGE_SIZE"
    using assms by (simp_all add: max_sizes_ok_def)
  show "1 \<le> lm" "3 \<le> im" by (rule S)+
  have l: "(nat lm + 1) * 8 \<le> (nat lm + 1) * (ks + 8)" "1 * (ks + 8) \<le> (nat lm + 1) * (ks + 8)" "(nat im + 1) * 4 \<le> (nat im + 1) * (ks + 4)"
    by (rule mult_le_mono; simp)+
  then show "pid_ok lm" "pid_ok im" "ks \<le> PAGE_SIZE" "32 + ks \<le> PAGE_SIZE" using S by (simp_all add: PAGE_SIZE_def pid_ok_def)
  have R: "28 + c * (ks + 4) \<le> PAGE_SIZE" if "c \<le> nat im + 1" for c
    using mult_le_mono1 [OF that, of "ks + 4"] S(4) by linarith
  show "int (length es) \<le> im \<Longrightarrow> int_room ks es 1" using R [of "length es + 1"] by (simp add: int_room_def)
  show "int (length es) \<le> im + 1 \<Longrightarrow> int_room ks [] (length es)" using R [of "length es"] by (simp add: int_room_def)
  have L: "32 + c * (ks + 8) \<le> PAGE_SIZE" if "c \<le> nat lm + 1" for c
    using mult_le_mono1 [OF that, of "ks + 8"] S(3) by linarith
  show "int (length xs) \<le> lm \<Longrightarrow> leaf_room ks xs 1" using L [of "length xs + 1"] by (simp add: leaf_room_def)
  show "int (length xs) \<le> lm + 1 \<Longrightarrow> leaf_room ks [] (length xs)" using L [of "length xs"] by (simp add: leaf_room_def)
qed

section \<open>A new root\<close>

lemma new_root_page:
  assumes rep: "int_rep ks e []" and room: "int_room ks [] 2" and kv: "length k0 = ks" "length k1 = ks" "pid_ok p" "pid_ok q"
  obtains e1 e2 e3 e4 e5 where "Int_SetKeyAt e 0 k0 = Some e1" "Int_SetValueAt e1 0 p = Some e2" "Int_SetKeyAt e2 1 k1 = Some e3"
    "Int_SetValueAt e3 1 q = Some e4" "BP_SetSize e4 2 = Some e5" "int_rep ks e5 [(k0, p), (k1, q)]" "hdr_same 28 e e5"
proof -
  have nr: "node_rep INTERNAL_PAGE 28 pid_enc 4 ks e []" using rep by (simp add: int_rep_def)
  note D = node_repD [OF nr]
  have len: "length e = PAGE_SIZE" "28 + 2 * (ks + 4) \<le> PAGE_SIZE" using D(1) room by (simp_all add: int_room_def)
  let ?e2 = "splice e 28 (k0 @ pid_enc p)"
  have K: "BP_GetKeySize e = Some (int ks)" "BP_GetKeySize ?e2 = Some (int ks)" using D(7) len header_above(1) [of 28 "k0 @ pid_enc p" e] kv(1) by simp_all
  note P0 = int_put_pair [OF K(1), of 0 k0] and P1 = int_put_pair [OF K(2), of 1 k1]
  have "splice ?e2 (28 + (ks + 4)) (k1 @ pid_enc q) = splice e (28 + 0 * (ks + 4)) (concat (map (enc_entry pid_enc) [(k0, p), (k1, q)]))"
    using splice_append [of 28 "k0 @ pid_enc p" "k1 @ pid_enc q" e] len kv by (simp add: enc_entry_def)
  note sp = this
  obtain e5 where e5: "BP_SetSize (splice ?e2 (28 + (ks + 4)) (k1 @ pid_enc q)) 2 = Some e5"
    "node_rep INTERNAL_PAGE 28 pid_enc 4 ks e5 [(k0, p), (k1, q)]" "hdr_same 28 e e5"
  proof -
    have xs: "length (fst e) = ks \<and> length (pid_enc (snd e)) = 4" if "e \<in> set [(k0, p), (k1, q)]" for e using that kv by auto
    obtain e5 where "BP_SetSize (splice e (28 + length [] * (ks + 4)) (concat (map (enc_entry pid_enc) [(k0, p), (k1, q)]))) (int (length [] + length [(k0, p), (k1, q)])) = Some e5"
      "node_rep INTERNAL_PAGE 28 pid_enc 4 ks e5 ([] @ [(k0, p), (k1, q)])" "hdr_same 28 e e5"
      by (rule node_append [OF nr, of "[(k0, p), (k1, q)]"], erule xs) (use len that in \<open>simp_all add: PAGE_SIZE_def\<close>)
    then show thesis by (intro that [of e5, unfolded sp]) simp_all
  qed
  show thesis
    by (rule that [OF _ _ _ _ e5(1)]) (use P0 P1 len kv e5 in \<open>simp_all add: int_rep_def\<close>)
qed

lemma first_key:
  assumes rep: "tree_rep ks lm im m par T" and sz: "32 + ks \<le> PAGE_SIZE"
  obtains k leaf where "IsLeafPage (m (pid_of T)) = Some leaf" "(if leaf then Leaf_KeyAt (m (pid_of T)) 0 else Int_KeyAt (m (pid_of T)) 0) = Some k" "length k = ks"
proof (cases T)
  case (PLeaf p es)
  note D = node_repD [of LEAF_PAGE 32 rid_enc 8 ks "m p" es]
  have nr: "node_rep LEAF_PAGE 32 rid_enc 8 ks (m p) es" using rep PLeaf by (simp add: leaf_rep_def)
  show thesis by (rule that [of True "slice (m p) 32 ks"])
    (use D [OF nr] PLeaf sz Leaf_PairPtrAt_ok [OF D(7) [OF nr], of 0] in \<open>simp_all add: Leaf_KeyAt_def mem_read_def\<close>)
next
  case (PNode p cs)
  note D = node_repD [of INTERNAL_PAGE 28 pid_enc 4 ks "m p" "child_refs cs"]
  have nr: "node_rep INTERNAL_PAGE 28 pid_enc 4 ks (m p) (child_refs cs)" using rep PNode by (simp add: int_rep_def)
  show thesis by (rule that [of False "slice (m p) 28 ks"])
    (use D [OF nr] PNode sz Int_PairPtrAt_ok [OF D(7) [OF nr], of 0] in \<open>simp_all add: Int_KeyAt_def mem_read_def\<close>)
qed

lemma hdr_same_header:
  assumes "hdr_same b d d'" "28 \<le> b" "length d = PAGE_SIZE" "length d' = PAGE_SIZE"
  shows "BP_GetPageId d' = BP_GetPageId d" "BP_GetParentPageId d' = BP_GetParentPageId d" "BP_GetMaxSize d' = BP_GetMaxSize d"
    "node_header d' p par mx = node_header d p par mx"
  using assms by (auto simp: header_defs get_i32_at hdr_same_def PAGE_SIZE_def node_header_def)

lemma word_pid: "pid_ok p \<Longrightarrow> sint (word_of_int p :: u32) = p"
  by (simp add: pid_ok_def sint_word_of_int_u32)

lemma Int_Init_node:
  assumes "length d = PAGE_SIZE" "ks \<le> PAGE_SIZE" "pid_ok p" "pid_ok par" "pid_ok mx"
  obtains e where "Int_Init d p par (int ks) mx = Some e" "int_rep ks e []" "node_header e p par mx"
  by (rule Int_Init_rep [OF assms(1,2), of p par mx], rule that) (simp_all add: node_header_def word_pid assms)

lemma Leaf_Init_node:
  assumes "length d = PAGE_SIZE" "ks \<le> PAGE_SIZE" "pid_ok p" "pid_ok par" "pid_ok mx"
  obtains e where "Leaf_Init d p par (int ks) mx = Some e" "leaf_rep ks e []" "node_header e p par mx" "Leaf_GetNextPageId e = Some INVALID_PAGE_ID"
  by (rule Leaf_Init_rep [OF assms(1,2), of p par mx], rule that) (simp_all add: node_header_def word_pid assms)

lemma key_at_ptr_ok:
  assumes "tstate n t m A" "holds t g q" "off + ks \<le> PAGE_SIZE"
  shows "key_at_ptr t (g, off) (int ks) = Some (slice (m q) off ks)"
  using node_data_ok [OF assms(1,2)] assms(3) by (simp add: key_at_ptr_def mem_read_def)

lemma insert_new_root_ok:
  assumes S: "split_at (Suc n) t m A [] L k R" and f: "holds t f (pid_of L)" and g: "holds t g (pid_of R)"
    and key: "slice (m (pid_of R)) off (ksz t) = k" "off + ksz t \<le> PAGE_SIZE"
  obtains t' m' A' T' where "insert_new_root t f (g, off) g = Some (Done (), t')" "tree_at n t' m' A' T'" "tkeep t t'"
    "items T' = items L @ Sep k # items R" "entries T' = entries L @ entries R" "A \<subseteq> A'"
    "\<And>x. x \<in> A \<Longrightarrow> x \<notin> set (tree_pids L @ tree_pids R) \<union> {INDEX_ROOTS_PAGE_ID} \<Longrightarrow> m' x = m x"
proof -
  let ?ks = "ksz t" and ?lm = "lmx t" and ?im = "imx t" and ?pl = "pid_of L" and ?pr = "pid_of R" and ?R = INDEX_ROOTS_PAGE_ID
  have I: "tstate (Suc n) t m A" "roots_at m A (bt_index_id t) (bt_root t)" "distinct (tree_pids L)" "distinct (tree_pids R)"
    "set (tree_pids L) \<inter> set (tree_pids R) = {}" "set (tree_pids L) \<subseteq> A - {?R}" "set (tree_pids R) \<subseteq> A - {?R}"
    "tree_rep ?ks ?lm ?im m INVALID_PAGE_ID L" "tree_rep ?ks ?lm ?im m INVALID_PAGE_ID R" "tree_shape ?lm ?im L" "tree_shape ?lm ?im R"
    "length k = ?ks" "max_sizes_ok ?ks ?lm ?im" using S by (auto simp: split_at_def)
  note M = max_sizesD [OF I(13)]
  have pl: "?pl \<in> A" "?pl \<noteq> ?R" "?pr \<in> A" "?pr \<noteq> ?R" "?pl \<noteq> ?pr" using pid_of_in_pids [of L] pid_of_in_pids [of R] I(5,6,7) by auto
  obtain rs where rs: "roots_rep (m ?R) rs" "?R \<in> A" "map_of rs (bt_index_id t) = Some (bt_root t)" using I(2) by (auto simp: roots_at_def)
  obtain p0 h t1 where t1: "new_node t = Some (Some (p0, h), t1)" "tstate n t1 (m(p0 := replicate PAGE_SIZE 0)) (insert p0 A)" "holds t1 h p0" "p0 \<notin> A"
    "\<And>q. \<not> holds t h q" "tkeep t t1" "bt_root t1 = bt_root t"
    by (rule new_node_ok [OF I(1)], rule that, assumption+)
  have ne: "h \<noteq> f" "h \<noteq> g" "?pl \<noteq> p0" "?pr \<noteq> p0" "?R \<noteq> p0" using t1(4,5) f g pl rs(2) by auto
  have p0: "pid_ok p0" using tstate_pid_ok [OF t1(2)] by simp
  obtain e where e: "Int_Init (replicate PAGE_SIZE 0) p0 INVALID_PAGE_ID (int ?ks) ?im = Some e" "int_rep ?ks e []" "node_header e p0 INVALID_PAGE_ID ?im"
    by (rule Int_Init_node [of "replicate PAGE_SIZE 0" ?ks p0 INVALID_PAGE_ID ?im]) (use M p0 invalid_pid_ok that in simp_all)
  obtain k0 leaf where k0: "IsLeafPage (m ?pl) = Some leaf" "(if leaf then Leaf_KeyAt (m ?pl) 0 else Int_KeyAt (m ?pl) 0) = Some k0" "length k0 = ?ks"
    by (rule first_key [OF I(8) M(6)])
  have room2: "int_room ?ks [] 2" using M(9) [of "[undefined, undefined]"] M(2) by (simp add: numeral_2_eq_2)
  have pok: "pid_ok ?pl" "pid_ok ?pr" using tstate_pid_ok [OF I(1)] pl by blast+
  obtain e1 e2 e3 e4 e5 where E: "Int_SetKeyAt e 0 k0 = Some e1" "Int_SetValueAt e1 0 ?pl = Some e2" "Int_SetKeyAt e2 1 k = Some e3"
    "Int_SetValueAt e3 1 ?pr = Some e4" "BP_SetSize e4 2 = Some e5" "int_rep ?ks e5 [(k0, ?pl), (k, ?pr)]" "hdr_same 28 e e5"
    by (rule new_root_page [OF e(2) room2 k0(3) I(12) pok], rule that, assumption+)
  have len: "length e = PAGE_SIZE" "length e5 = PAGE_SIZE" using e(2) E(6) by (auto simp: int_rep_def dest: node_repD(1))
  have h5: "node_header e5 p0 INVALID_PAGE_ID ?im" using hdr_same_header(4) [OF E(7) _ len] e(3) by simp
  let ?m1 = "m(p0 := replicate PAGE_SIZE 0)" and ?m2 = "m(p0 := e5)"
  obtain t2 where t2: "put_node t1 h e5 = Some t2" "tstate n t2 ?m2 (insert p0 A)" "tkeep t1 t2" "bt_root t2 = bt_root t1"
    by (rule put_node_ok [OF t1(2,3) len(2)]) (use that in simp)
  obtain dl where dl: "BP_SetParentPageId (m ?pl) p0 = Some dl" "tree_rep ?ks ?lm ?im (m(?pl := dl)) p0 L" "length dl = PAGE_SIZE"
    by (rule tree_rep_parent [OF I(8,3) p0], rule that, assumption+)
  obtain dr where dr: "BP_SetParentPageId (m ?pr) p0 = Some dr" "tree_rep ?ks ?lm ?im (m(?pr := dr)) p0 R" "length dr = PAGE_SIZE"
    by (rule tree_rep_parent [OF I(9,4) p0], rule that, assumption+)
  note H = tkeep_holds [OF t1(6)] tkeep_holds [OF tkeep_trans [OF t1(6) t2(3)]]
  obtain t3 where t3: "put_node t2 f dl = Some t3" "tstate n t3 (?m2(?pl := dl)) (insert p0 A)" "tkeep t2 t3" "bt_root t3 = bt_root t2"
    by (rule put_node_ok [OF t2(2) H(2) [OF f] dl(3)])
  have g3: "holds t3 g ?pr" using tkeep_holds [OF t3(3)] H(2) [OF g] by blast
  obtain t4 where t4: "put_node t3 g dr = Some t4" "tstate n t4 (?m2(?pl := dl, ?pr := dr)) (insert p0 A)" "tkeep t3 t4" "bt_root t4 = bt_root t3"
    by (rule put_node_ok [OF t3(2) g3 dr(3)])
  note K4 = tkeep_trans [OF t1(6) tkeep_trans [OF t2(3) tkeep_trans [OF t3(3) t4(3)]]]
  let ?m4 = "?m2(?pl := dl, ?pr := dr)"
  have m4R: "?m4 ?R = m ?R" using pl ne by auto
  let ?t4 = "t4\<lparr>bt_root := p0\<rparr>"
  have U: "tstate n ?t4 ?m4 (insert p0 A)" "?R \<in> insert p0 A" "roots_rep (?m4 ?R) rs" "pid_ok (bt_root ?t4)" using t4(2) rs p0 unfolding m4R by simp_all
  obtain t6 rd where t6: "UpdateRootPageId ?t4 0 = Some t6" "tstate n t6 (?m4(?R := rd)) (insert p0 A)" "tkeep ?t4 t6"
    "bt_root t6 = bt_root ?t4" "roots_rep rd (map (\<lambda>(y, w). (y, if y = bt_index_id ?t4 then bt_root ?t4 else w)) rs)"
    by (rule UpdateRootPageId_ok [OF U])
  obtain t7 where t7: "unpin_node t6 p0 True = Some t7" "tstate n t7 (?m4(?R := rd)) (insert p0 A)" "tkeep t6 t7" "bt_root t7 = bt_root t6"
    by (rule unpin_node_ok [OF t6(2)])
  have K7: "tkeep t t7" using tkeep_trans [OF tkeep_trans [OF K4 t6(3) [unfolded tkeep_root(2)]] t7(3)] .
  let ?m = "?m4(?R := rd)" and ?T = "PNode p0 [(k0, L), (k, R)]"
  have "tree_rep ?ks ?lm ?im ?m p0 L" by (rule tree_rep_cong [OF _ dl(2)]) (use I(5,6) t1(4) ne pl pid_of_in_pids [of R] in auto)
  moreover have "tree_rep ?ks ?lm ?im ?m p0 R" by (rule tree_rep_cong [OF _ dr(2)]) (use I(5,7) t1(4) ne pl pid_of_in_pids [of L] in auto)
  ultimately have rep: "tree_rep ?ks ?lm ?im ?m INVALID_PAGE_ID ?T" using E(6) h5 ne by simp
  have id4: "bt_index_id ?t4 = bt_index_id t" using tkeep_fields(4) [OF K4] by simp
  have "map_of (map (\<lambda>(y, w). (y, if y = bt_index_id ?t4 then bt_root ?t4 else w)) rs) (bt_index_id t) = Some p0"
    unfolding id4 using rs(3) by (induction rs) auto
  then have roots: "roots_at ?m (insert p0 A) (bt_index_id t) p0" using t6(5) rs(2) by (auto simp: roots_at_def)
  have at: "tree_at n t7 ?m (insert p0 A) ?T"
    using t7(2) t7(4) t6(4) roots rep I M t1(4) ne tkeep_fields [OF K7] balanced_root [OF split_atD(14) [OF S]] by (auto simp: tree_at_def)
  have kp: "key_at_ptr t1 (g, off) (int ?ks) = Some k"
    using key_at_ptr_ok [OF t1(2) H(1) [OF g] key(2)] key(1) ne by simp
  note N1 = node_data_ok(1) [OF t1(2) H(1) [OF f]] node_data_ok(1) [OF t1(2) H(1) [OF g]] node_data_ok(1) [OF t1(2,3)] node_data_ok(1) [OF t3(2) g3]
  have run: "insert_new_root t f (g, off) g = Some (Done (), t7)"
    unfolding insert_new_root_def t1(1)
    using ne pl N1 tree_rep_header [OF I(8)] tree_rep_header [OF I(9)] e(1) k0(1,2) E(1-5) kp h5 t2(1) dl(1) dr(1) t3(1) t4(1) t6(1) t7(1) tkeep_fields(3) [OF t1(6)]
    by (simp add: node_header_def ensure_def)
  show thesis by (rule that [OF run at K7]) (use ne t1(4) pid_of_in_pids [of L] pid_of_in_pids [of R] in auto)
qed

section \<open>Splitting a node\<close>

lemma leaf_first_key: "leaf_rep ks d ((k, v) # es) \<Longrightarrow> slice d 32 ks = k \<and> length k = ks \<and> 32 + ks \<le> PAGE_SIZE"
proof -
  assume "leaf_rep ks d ((k, v) # es)"
  then have nr: "node_rep LEAF_PAGE 32 rid_enc 8 ks d ((k, v) # es)" by (simp add: leaf_rep_def)
  note D = node_repD [OF nr]
  have "32 + 0 * (ks + 8) + (ks + 8) \<le> length d" using D(1,3) by simp
  from chunk_parts(1) [OF D(9) [of 0] D(10) [of 0] D(11) [of 0] this] show ?thesis using D(3) D(10) [of 0] by simp
qed

lemma int_first_key: "int_rep ks d ((k, v) # es) \<Longrightarrow> slice d 28 ks = k \<and> length k = ks \<and> 28 + ks \<le> PAGE_SIZE"
proof -
  assume "int_rep ks d ((k, v) # es)"
  then have nr: "node_rep INTERNAL_PAGE 28 pid_enc 4 ks d ((k, v) # es)" by (simp add: int_rep_def)
  note D = node_repD [OF nr]
  have "28 + 0 * (ks + 4) + (ks + 4) \<le> length d" using D(1,3) by simp
  from chunk_parts(1) [OF D(9) [of 0] D(10) [of 0] D(11) [of 0] this] show ?thesis using D(3) D(10) [of 0] by simp
qed

lemma leaf_set_next:
  assumes rep: "leaf_rep ks d es"
  obtains d' where "Leaf_SetNextPageId d x = Some d'" "leaf_rep ks d' es" "\<And>p par mx. node_header d' p par mx = node_header d p par mx"
proof -
  let ?d = "splice d 28 (u32_bytes (word_of_int x))"
  have nr: "node_rep LEAF_PAGE 32 rid_enc 8 ks d es" using rep by (simp add: leaf_rep_def)
  note D = node_repD [OF nr]
  have len: "length d = PAGE_SIZE" "length ?d = PAGE_SIZE" using D(1) by (simp_all add: PAGE_SIZE_def)
  have "chunk 32 (ks + 8) ?d i = chunk 32 (ks + 8) d i" for i by (rule chunk_splice_below) (use len in \<open>simp_all add: PAGE_SIZE_def\<close>)
  then have rep': "leaf_rep ks ?d es" using rep len by (auto simp: leaf_rep_def node_rep_def buf_simps PAGE_SIZE_def)
  have "hdr_same 28 d ?d" using len by (auto simp: hdr_same_def u32_at_splice_other PAGE_SIZE_def)
  note H = hdr_same_header(4) [OF this _ len]
  show thesis by (rule that [of ?d]) (use len rep' H in \<open>simp_all add: Leaf_SetNextPageId_def put_i32_at PAGE_SIZE_def\<close>)
qed

lemma Split_leaf_ok:
  assumes t: "tstate (Suc n) t m A" "holds t f p" and rep: "leaf_rep ks (m p) es" "node_header (m p) p par lm" and ok: "pid_ok par" "pid_ok lm"
    and room: "leaf_room ks [] (length es)"
  defines "s \<equiv> length es - length es div 2"
  obtains t' q g d e where "Split_leaf t f = Some (Done g, t')" "tstate n t' (m(p := d, q := e)) (insert q A)" "holds t' g q" "q \<notin> A" "tkeep t t'"
    "bt_root t' = bt_root t" "leaf_rep ks d (take s es)" "leaf_rep ks e (drop s es)" "node_header d p par lm" "node_header e q par lm"
proof -
  have p: "p \<in> A" by (rule holds_page [OF t])
  obtain q g t1 where t1: "new_node t = Some (Some (q, g), t1)" "tstate n t1 (m(q := replicate PAGE_SIZE 0)) (insert q A)" "holds t1 g q" "q \<notin> A"
    "\<And>x. \<not> holds t g x" "tkeep t t1" "bt_root t1 = bt_root t"
    by (rule new_node_ok [OF t(1)], rule that, assumption+)
  have ne: "g \<noteq> f" "p \<noteq> q" using t1(4,5) t(2) p by auto
  have q: "pid_ok q" using tstate_pid_ok [OF t1(2)] by simp
  have nr: "node_rep LEAF_PAGE 32 rid_enc 8 ks (m p) es" using rep(1) by (simp add: leaf_rep_def)
  note D = node_repD [OF nr]
  obtain e0 where e0: "Leaf_Init (replicate PAGE_SIZE 0) q par (int ks) lm = Some e0" "leaf_rep ks e0 []" "node_header e0 q par lm"
    by (rule Leaf_Init_node [OF length_replicate D(4) q ok], rule that, assumption+)
  obtain d1 e1 where h: "Leaf_MoveHalfTo (m p) e0 = Some (d1, e1)" "leaf_rep ks d1 (take s es)" "leaf_rep ks e1 (drop s es)" "hdr_same 32 (m p) d1" "hdr_same 32 e0 e1"
    using leaf_move_half [OF rep(1) e0(2) room] unfolding s_def by auto
  have len: "length (m p) = PAGE_SIZE" "length d1 = PAGE_SIZE" "length e0 = PAGE_SIZE" "length e1 = PAGE_SIZE"
    using rep(1) h(2,3) e0(2) by (auto simp: leaf_rep_def dest: node_repD(1))
  have hd1: "node_header d1 p par lm" "node_header e1 q par lm"
    using hdr_same_header(4) [OF h(4) _ len(1,2)] hdr_same_header(4) [OF h(5) _ len(3,4)] rep(2) e0(3) by simp_all
  obtain x where x: "Leaf_GetNextPageId d1 = Some x" using len(2) by (simp add: Leaf_GetNextPageId_def get_i32_at PAGE_SIZE_def)
  obtain e2 where e2: "Leaf_SetNextPageId e1 x = Some e2" "leaf_rep ks e2 (drop s es)" "\<And>p par mx. node_header e2 p par mx = node_header e1 p par mx"
    by (rule leaf_set_next [OF h(3)], rule that, assumption+)
  obtain d2 where d2: "Leaf_SetNextPageId d1 q = Some d2" "leaf_rep ks d2 (take s es)" "\<And>p par mx. node_header d2 p par mx = node_header d1 p par mx"
    by (rule leaf_set_next [OF h(2)], rule that, assumption+)
  have l2: "length d2 = PAGE_SIZE" "length e2 = PAGE_SIZE" using d2(2) e2(2) by (auto simp: leaf_rep_def dest: node_repD(1))
  note H1 = tkeep_holds [OF t1(6) t(2)]
  obtain t2 where t2: "put_node t1 f d2 = Some t2" "tstate n t2 (m(q := replicate PAGE_SIZE 0, p := d2)) (insert q A)" "tkeep t1 t2" "bt_root t2 = bt_root t1"
    by (rule put_node_ok [OF t1(2) H1 l2(1)])
  obtain t3 where t3: "put_node t2 g e2 = Some t3" "tstate n t3 (m(q := replicate PAGE_SIZE 0, p := d2, q := e2)) (insert q A)" "tkeep t2 t3" "bt_root t3 = bt_root t2"
    by (rule put_node_ok [OF t2(2) tkeep_holds [OF t2(3) t1(3)] l2(2)])
  obtain t4 where t4: "unpin_node t3 q True = Some t4" "tstate n t4 (m(q := replicate PAGE_SIZE 0, p := d2, q := e2)) (insert q A)" "tkeep t3 t4" "bt_root t4 = bt_root t3"
    by (rule unpin_node_ok [OF t3(2)])
  note K = tkeep_trans [OF t2(3) tkeep_trans [OF t3(3) t4(3)]]
  have m: "m(q := replicate PAGE_SIZE 0, p := d2, q := e2) = m(p := d2, q := e2)" using ne by (simp add: fun_upd_twist)
  have self: "BP_GetPageId e2 = Some q" using e2(3) [of q par lm] hd1(2) by (simp add: node_header_def)
  have run: "Split_leaf t f = Some (Done g, t4)"
    using t1(1) ne node_data_ok(1) [OF t1(2) H1] node_data_ok(1) [OF t1(2,3)] rep(2) D(7) e0(1) h(1) x e2(1) self d2(1) t2(1) t3(1) t4(1)
    by (simp add: Split_leaf_def ensure_def node_header_def)
  show thesis
    by (rule that [OF run t4(2) [unfolded m] tkeep_holds [OF K t1(3)] t1(4) tkeep_trans [OF t1(6) K]])
      (use t1(7) t2(4) t3(4) t4(4) d2 e2 hd1 in simp_all)
qed

lemma Split_internal_ok:
  assumes t: "tstate (Suc n) t m A" "holds t f p" and rep: "int_rep ks (m p) (child_refs cs)" "node_header (m p) p par im"
    "\<forall>c \<in> set cs. tree_rep ks lm im m p (snd c)" and ok: "pid_ok par" "pid_ok im"
    and pids: "distinct (p # child_pids cs)" "set (child_pids cs) \<subseteq> A" and room: "int_room ks [] (length cs)"
  defines "s \<equiv> length cs - length cs div 2"
  obtains t' q g m' where "Split_internal t f = Some (Done g, t')" "tstate n t' m' (insert q A)" "holds t' g q" "q \<notin> A" "tkeep t t'"
    "bt_root t' = bt_root t" "tree_rep ks lm im m' par (PNode p (take s cs))" "tree_rep ks lm im m' par (PNode q (drop s cs))"
    "\<And>x. x \<notin> insert p (insert q (set (child_pids cs))) \<Longrightarrow> m' x = m x"
proof -
  have p: "p \<in> A" by (rule holds_page [OF t])
  obtain q g t1 where t1: "new_node t = Some (Some (q, g), t1)" "tstate n t1 (m(q := replicate PAGE_SIZE 0)) (insert q A)" "holds t1 g q" "q \<notin> A"
    "\<And>x. \<not> holds t g x" "tkeep t t1" "bt_root t1 = bt_root t"
    by (rule new_node_ok [OF t(1)], rule that, assumption+)
  have ne: "g \<noteq> f" "p \<noteq> q" "q \<notin> set (child_pids cs)" using t1(4,5) t(2) p pids(2) by auto
  have q: "pid_ok q" using tstate_pid_ok [OF t1(2)] by simp
  have nr: "node_rep INTERNAL_PAGE 28 pid_enc 4 ks (m p) (child_refs cs)" using rep(1) by (simp add: int_rep_def)
  note D = node_repD [OF nr]
  obtain e0 where e0: "Int_Init (replicate PAGE_SIZE 0) q par (int ks) im = Some e0" "int_rep ks e0 []" "node_header e0 q par im"
    by (rule Int_Init_node [OF length_replicate D(4) q ok], rule that, assumption+)
  have room': "int_room ks [] (length (child_refs cs))" using room by simp
  obtain d1 e1 where h: "Int_MoveHalfTo (m p) e0 = Some (d1, e1, map (\<lambda>c. pid_of (snd c)) (drop s cs))" "int_rep ks d1 (child_refs (take s cs))"
    "int_rep ks e1 (child_refs (drop s cs))" "hdr_same 28 (m p) d1" "hdr_same 28 e0 e1"
    using int_move_half [OF rep(1) e0(2) room'] unfolding s_def by (auto simp: take_map drop_map o_def)
  have len: "length (m p) = PAGE_SIZE" "length d1 = PAGE_SIZE" "length e0 = PAGE_SIZE" "length e1 = PAGE_SIZE"
    using rep(1) h(2,3) e0(2) by (auto simp: int_rep_def dest: node_repD(1))
  have hd1: "node_header d1 p par im" "node_header e1 q par im"
    using hdr_same_header(4) [OF h(4) _ len(1,2)] hdr_same_header(4) [OF h(5) _ len(3,4)] rep(2) e0(3) by simp_all
  note H1 = tkeep_holds [OF t1(6) t(2)]
  let ?m2 = "m(q := replicate PAGE_SIZE 0, p := d1)" and ?m3 = "m(q := replicate PAGE_SIZE 0, p := d1, q := e1)"
  obtain t2 where t2: "put_node t1 f d1 = Some t2" "tstate n t2 ?m2 (insert q A)" "tkeep t1 t2" "bt_root t2 = bt_root t1"
    by (rule put_node_ok [OF t1(2) H1 len(2)])
  obtain t3 where t3: "put_node t2 g e1 = Some t3" "tstate n t3 ?m3 (insert q A)" "tkeep t2 t3" "bt_root t3 = bt_root t2"
    by (rule put_node_ok [OF t2(2) tkeep_holds [OF t2(3) t1(3)] len(4)])
  have g3: "holds t3 g q" "BP_GetPageId (?m3 q) = Some q" using tkeep_holds [OF tkeep_trans [OF t2(3) t3(3)] t1(3)] hd1(2) by (simp_all add: node_header_def)
  have sub: "set (child_pids (take s cs)) \<subseteq> set (child_pids cs)" "set (child_pids (drop s cs)) \<subseteq> set (child_pids cs)"
    using set_take_subset [of s cs] set_drop_subset [of s cs] by auto
  have "child_pids cs = child_pids (take s cs @ drop s cs)" by simp
  then have dist: "distinct (child_pids (take s cs) @ child_pids (drop s cs))" using pids(1) by (simp only: map_append concat_append distinct.simps)
  have m3: "tree_rep ks lm im ?m3 p (snd c)" if c: "c \<in> set cs" for c
    by (rule tree_rep_cong [where m = m]) (use rep(3) c pids(1) ne(3) in auto)
  have A: "\<forall>c \<in> set (drop s cs). tree_rep ks lm im ?m3 p (snd c)" "distinct (child_pids (drop s cs))" "q \<notin> set (child_pids (drop s cs))"
    "set (child_pids (drop s cs)) \<subseteq> insert q A"
  proof -
    show "\<forall>c \<in> set (drop s cs). tree_rep ks lm im ?m3 p (snd c)" using m3 by (blast dest: in_set_dropD)
    show "distinct (child_pids (drop s cs))" using dist by simp
    show "q \<notin> set (child_pids (drop s cs))" "set (child_pids (drop s cs)) \<subseteq> insert q A" using sub(2) ne(3) pids(2) by blast+
  qed
  obtain t4 m' where t4: "adopt t3 g (map (\<lambda>c. pid_of (snd c)) (drop s cs)) = Some t4" "tstate n t4 m' (insert q A)" "tkeep t3 t4" "bt_root t4 = bt_root t3"
    "\<And>x. x \<notin> set (child_pids (drop s cs)) \<Longrightarrow> m' x = ?m3 x" "\<forall>c \<in> set (drop s cs). tree_rep ks lm im m' q (snd c)"
    by (rule adopt_ok [OF t3(2) g3 A], rule that, assumption+)
  obtain t5 where t5: "unpin_node t4 q True = Some t5" "tstate n t5 m' (insert q A)" "tkeep t4 t5" "bt_root t5 = bt_root t4"
    by (rule unpin_node_ok [OF t4(2)])
  note K = tkeep_trans [OF t2(3) tkeep_trans [OF t3(3) tkeep_trans [OF t4(3) t5(3)]]]
  have mq: "m' q = e1" "m' p = d1" using t4(5) [of q] t4(5) [of p] sub(2) ne pids(1) by auto
  have "tree_rep ks lm im m' p (snd c)" if c: "c \<in> set (take s cs)" for c
  proof (rule tree_rep_cong [OF _ m3])
    show "m' x = ?m3 x" if x: "x \<in> set (tree_pids (snd c))" for x
    proof (rule t4(5))
      have "x \<in> set (child_pids (take s cs))" using c x by auto
      then show "x \<notin> set (child_pids (drop s cs))" using dist by (metis disjoint_iff distinct_append)
    qed
    show "c \<in> set cs" using c by (rule in_set_takeD)
  qed
  then have L: "tree_rep ks lm im m' par (PNode p (take s cs))" using h(2) hd1(1) mq by simp
  have R: "tree_rep ks lm im m' par (PNode q (drop s cs))" using h(3) hd1(2) mq t4(6) by simp
  have run: "Split_internal t f = Some (Done g, t5)"
    using t1(1) ne node_data_ok(1) [OF t1(2) H1] node_data_ok(1) [OF t1(2,3)] rep(2) D(7) e0(1) h(1) t2(1) t3(1) t4(1) t5(1)
      node_data_ok(1) [OF t4(2) tkeep_holds [OF t4(3) g3(1)]] mq hd1(2)
    by (simp add: Split_internal_def ensure_def node_header_def)
  show thesis
  proof (rule that [OF run t5(2) tkeep_holds [OF K t1(3)] t1(4) tkeep_trans [OF t1(6) K] _ L R])
    show "bt_root t5 = bt_root t" using t1(7) t2(4) t3(4) t4(4) t5(4) by simp
    show "m' x = m x" if "x \<notin> insert p (insert q (set (child_pids cs)))" for x using t4(5) [of x] that sub(2) by auto
  qed
qed

section \<open>Insertion into the parent\<close>

lemma items_split:
  assumes "0 < s" "s < length cs"
  shows "items (PNode p (take s cs)) @ Sep (fst (hd (drop s cs))) # items (PNode q (drop s cs)) = items (PNode r cs)"
proof -
  have ne: "take s cs \<noteq> []" "drop s cs \<noteq> []" "cs \<noteq> []" using assms by auto
  have "Sep (fst (hd cs)) # items (PNode r cs) = child_items (take s cs @ drop s cs)" using items_node [OF ne(3), of r] by simp
  also have "\<dots> = child_items (take s cs) @ child_items (drop s cs)" by (simp only: map_append concat_append)
  also have "\<dots> = Sep (fst (hd (take s cs))) # items (PNode p (take s cs)) @ Sep (fst (hd (drop s cs))) # items (PNode q (drop s cs))"
    using items_node [OF ne(1), of p] items_node [OF ne(2), of q] by simp
  finally show ?thesis by simp
qed

lemma tstate_weaken: "tstate n t m A \<Longrightarrow> k \<le> n \<Longrightarrow> tstate k t m A"
  using pool_ok_weaken by (auto simp: tstate_def)

lemma first_index_middle: "v \<notin> snd ` set xs \<Longrightarrow> first_index v (xs @ (k, v) # ys) = Some (length xs)"
proof -
  assume v: "v \<notin> snd ` set xs"
  let ?es = "xs @ (k, v) # ys" and ?P = "\<lambda>i. snd ((xs @ (k, v) # ys) ! i) = v"
  have "snd (xs ! i) \<noteq> v" if "i < length xs" for i using v nth_mem [OF that] by auto
  then have none: "find ?P [0..<length xs] = None" by (auto simp: find_None_iff nth_append)
  have "[0..<length ?es] = [0..<length xs] @ length xs # [Suc (length xs)..<length ?es]"
    using upt_add_eq_append [of 0 "length xs" "Suc (length ys)"] by (simp add: upt_conv_Cons del: upt_Suc)
  then show ?thesis unfolding first_index_def using find_append_None [OF none] by simp
qed

text \<open>The parent's page after the new child has been entered.\<close>

lemma enter_child:
  assumes S: "split_at n t m A ((q, ls, kk, rs) # path) L k R"
  obtains d' where "InsertNodeAfter (m q) (pid_of L) k (pid_of R) = Some (int (length ls + 1 + length rs) + 1, d')"
    "int_rep (ksz t) d' (child_refs (ls @ (kk, L) # (k, R) # rs))" "node_header d' q (path_parent path) (imx t)" "length d' = PAGE_SIZE"
proof -
  let ?es = "child_refs ls @ (kk, pid_of L) # child_refs rs"
  have I: "tstate n t m A" "distinct (tree_pids L @ tree_pids R @ path_pids ((q, ls, kk, rs) # path))"
    "set (tree_pids L @ tree_pids R @ path_pids ((q, ls, kk, rs) # path)) \<subseteq> A - {INDEX_ROOTS_PAGE_ID}"
    "int_rep (ksz t) (m q) ?es" "node_header (m q) q (path_parent path) (imx t)" "int (length ls + 1 + length rs) \<le> imx t" "length k = ksz t"
    "max_sizes_ok (ksz t) (lmx t) (imx t)" using S by (simp_all add: split_at_def)
  have pl: "pid_of L \<notin> snd ` set (child_refs ls)"
  proof
    assume "pid_of L \<in> snd ` set (child_refs ls)"
    then obtain c where c: "c \<in> set ls" "pid_of L = pid_of (snd c)" by auto
    then have "pid_of L \<in> set (child_pids ls)" using pid_of_in_pids [of "snd c"] by auto
    then show False using I(2) pid_of_in_pids [of L] by auto
  qed
  have fi: "first_index (pid_of L) ?es = Some (length ls)" using first_index_middle [OF pl] by simp
  have room: "int_room (ksz t) ?es 1" using max_sizesD(7) [OF I(8), of ?es] I(6) by simp
  have pr: "pid_ok (pid_of R)" using tstate_pid_ok [OF I(1)] I(3) pid_of_in_pids [of R] by auto
  obtain d' where d': "InsertNodeAfter (m q) (pid_of L) k (pid_of R) = Some (int (length ?es) + 1, d')"
    "int_rep (ksz t) d' (take (case first_index (pid_of L) ?es of None \<Rightarrow> 0 | Some i \<Rightarrow> Suc i) ?es @ (k, pid_of R) # drop (case first_index (pid_of L) ?es of None \<Rightarrow> 0 | Some i \<Rightarrow> Suc i) ?es)"
    "hdr_same 28 (m q) d'"
    by (rule InsertNodeAfter_ok [OF I(4) room I(7) pr])
  have rep: "int_rep (ksz t) d' (child_refs (ls @ (kk, L) # (k, R) # rs))" using d'(2) unfolding fi by simp
  have len: "length (m q) = PAGE_SIZE" "length d' = PAGE_SIZE" using I(4) rep by (auto simp: int_rep_def dest: node_repD(1))
  show thesis by (rule that [of d']) (use d'(1) rep hdr_same_header(4) [OF d'(3) _ len] I(5) len in simp_all)
qed

text \<open>The node that takes the new child, after its page has been written.\<close>

lemma entered_node:
  assumes S: "split_at n t m A ((q, ls, kk, rs) # path) L k R"
    and d: "int_rep (ksz t) d (child_refs (ls @ (kk, L) # (k, R) # rs))" "node_header d q (path_parent path) (imx t)"
  defines "cs \<equiv> ls @ (kk, L) # (k, R) # rs"
  shows "tree_rep (ksz t) (lmx t) (imx t) (m(q := d)) (path_parent path) (PNode q cs)" "path_rep (ksz t) (lmx t) (imx t) (m(q := d)) path q"
    "distinct (tree_pids (PNode q cs) @ path_pids path)" "set (tree_pids (PNode q cs) @ path_pids path) \<subseteq> A - {INDEX_ROOTS_PAGE_ID}"
    "set (tree_pids (PNode q cs) @ path_pids path) = set (tree_pids L @ tree_pids R @ path_pids ((q, ls, kk, rs) # path))"
    "\<forall>c \<in> set cs. tree_shape (lmx t) (imx t) (snd c)" "roots_at (m(q := d)) A (bt_index_id t) (bt_root t)"
proof -
  let ?old = "tree_pids L @ tree_pids R @ path_pids ((q, ls, kk, rs) # path)"
  note D = split_atD [OF S]
  have I: "distinct ?old" "set ?old \<subseteq> A - {INDEX_ROOTS_PAGE_ID}" "roots_at m A (bt_index_id t) (bt_root t)"
    "tree_rep (ksz t) (lmx t) (imx t) m q L" "tree_rep (ksz t) (lmx t) (imx t) m q R" "\<forall>c \<in> set ls \<union> set rs. tree_rep (ksz t) (lmx t) (imx t) m q (snd c)"
    "path_rep (ksz t) (lmx t) (imx t) m path q" "tree_shape (lmx t) (imx t) L" "tree_shape (lmx t) (imx t) R"
    "\<forall>c \<in> set ls \<union> set rs. tree_shape (lmx t) (imx t) (snd c)"
    using D(3-5) D(6-11) by simp_all
  have pids: "tree_pids (PNode q cs) = q # child_pids ls @ tree_pids L @ tree_pids R @ child_pids rs" by (simp add: cs_def)
  have "mset (tree_pids (PNode q cs) @ path_pids path) = mset ?old" unfolding pids by simp
  then show dist: "distinct (tree_pids (PNode q cs) @ path_pids path)" using I(1) mset_eq_imp_distinct_iff by blast
  show set: "set (tree_pids (PNode q cs) @ path_pids path) = set ?old" unfolding pids by auto
  show "set (tree_pids (PNode q cs) @ path_pids path) \<subseteq> A - {INDEX_ROOTS_PAGE_ID}" using set I(2) by simp
  have qn: "q \<notin> set (child_pids cs)" "q \<notin> set (path_pids path)" using dist by auto
  show "path_rep (ksz t) (lmx t) (imx t) (m(q := d)) path q" by (rule path_rep_cong [OF _ I(7)]) (use qn(2) in auto)
  have "tree_rep (ksz t) (lmx t) (imx t) m q (snd c)" if "c \<in> set cs" for c using that I(4-6) by (auto simp: cs_def)
  then have "tree_rep (ksz t) (lmx t) (imx t) (m(q := d)) q (snd c)" if "c \<in> set cs" for c
    by (rule tree_rep_cong [rotated]) (use that qn(1) in auto)
  then show "tree_rep (ksz t) (lmx t) (imx t) (m(q := d)) (path_parent path) (PNode q cs)" using d by (simp add: cs_def)
  show "\<forall>c \<in> set cs. tree_shape (lmx t) (imx t) (snd c)" using I(8-10) by (auto simp: cs_def)
  have "q \<noteq> INDEX_ROOTS_PAGE_ID" using I(2) by auto
  then show "roots_at (m(q := d)) A (bt_index_id t) (bt_root t)" using I(3) by (simp add: roots_at_def)
qed

definition insert_result :: "nat \<Rightarrow> btree \<Rightarrow> (int \<Rightarrow> buffer) \<Rightarrow> int set \<Rightarrow> int set \<Rightarrow> item list \<Rightarrow> (generic_key \<times> rowid) list \<Rightarrow> btree \<Rightarrow> bool" where
  "insert_result n t m A P xs es t' \<longleftrightarrow> (\<exists>m' A' T'. tree_at n t' m' A' T' \<and> tkeep t t' \<and> items T' = xs \<and> entries T' = es \<and> A \<subseteq> A' \<and>
     (\<forall>x \<in> A - P. m' x = m x))"

lemma insert_result_trans:
  assumes "tkeep t t1" "A \<subseteq> A1" "\<And>x. x \<in> A - P \<Longrightarrow> m1 x = m x \<and> x \<notin> P1" "insert_result n t1 m1 A1 P1 xs es t'"
  shows "insert_result n t m A P xs es t'"
proof -
  from assms(4) obtain m' A' T' where "tree_at n t' m' A' T'" "tkeep t1 t'" "items T' = xs" "entries T' = es" "A1 \<subseteq> A'" "\<forall>x \<in> A1 - P1. m' x = m1 x"
    unfolding insert_result_def by blast
  moreover have "\<forall>x \<in> A - P. m' x = m x" using calculation(6) assms(2,3) by (metis Diff_iff in_mono)
  ultimately show ?thesis unfolding insert_result_def using tkeep_trans [OF assms(1)] assms(2) by blast
qed

lemma insert_result_unpin:
  assumes "insert_result n t m A P xs es t1"
  obtains t' where "unpin_node t1 p dirty = Some t'" "insert_result n t m A P xs es t'"
proof -
  from assms obtain m' A' T' where r: "tree_at n t1 m' A' T'" "tkeep t t1" "items T' = xs" "entries T' = es" "A \<subseteq> A'" "\<forall>x \<in> A - P. m' x = m x"
    unfolding insert_result_def by blast
  then obtain t' where t': "unpin_node t1 p dirty = Some t'" "tstate n t' m' A'" "tkeep t1 t'" "bt_root t' = bt_root t1"
    using unpin_node_ok [of n t1 m' A' p dirty] unfolding tree_at_def by blast
  have "tree_at n t' m' A' T'" using r(1) t'(2) unfolding tree_at_def t'(4) tkeep_fields [OF t'(3)] by blast
  then show thesis using that [OF t'(1)] r tkeep_trans [OF r(2) t'(3)] unfolding insert_result_def by blast
qed

abbreviation split_pids :: "crumb list \<Rightarrow> ptree \<Rightarrow> ptree \<Rightarrow> int set" where
  "split_pids path L R \<equiv> insert INDEX_ROOTS_PAGE_ID (set (tree_pids L @ tree_pids R @ path_pids path))"

text \<open>The state after the parent has been split in turn.\<close>

lemma parent_split:
  assumes S: "split_at (Suc n) t m A ((q, ls, kk, rs) # path) L k R" and t2: "tstate (Suc n) t2 (m(q := d)) A" "holds t2 h q" "tkeep t t2" "bt_root t2 = bt_root t"
    and d: "int_rep (ksz t) d (child_refs (ls @ (kk, L) # (k, R) # rs))" "node_header d q (path_parent path) (imx t)"
    and full: "imx t < int (length ls + 1 + length rs) + 1"
  obtains t3 g m3 A3 L' k' R' where "Split_internal t2 h = Some (Done g, t3)" "split_at n t3 m3 A3 path L' k' R'" "holds t3 h (pid_of L')" "holds t3 g (pid_of R')"
    "slice (m3 (pid_of R')) INTERNAL_PAGE_HEADER_SIZE (ksz t3) = k'" "tkeep t t3" "A \<subseteq> A3"
    "items L' @ Sep k' # items R' = items (PNode q (ls @ (kk, L) # (k, R) # rs))" "entries L' @ entries R' = entries (PNode q (ls @ (kk, L) # (k, R) # rs))"
    "\<And>x. x \<in> A - split_pids ((q, ls, kk, rs) # path) L R \<Longrightarrow> m3 x = m x \<and> x \<notin> split_pids path L' R'"
proof -
  let ?ks = "ksz t" and ?lm = "lmx t" and ?im = "imx t"
  define cs where "cs = ls @ (kk, L) # (k, R) # rs"
  note D = split_atD [OF S] and N = entered_node [OF S d, folded cs_def] and M = max_sizesD [OF split_atD(13) [OF S]]
  have size: "int (length cs) = ?im + 1" "4 \<le> length cs" using D(11) full M(2) by (simp_all add: cs_def)
  have pids: "distinct (q # child_pids cs)" "set (child_pids cs) \<subseteq> A" "q \<in> A" using N(3,4) by auto
  have par: "pid_ok (path_parent path)"
  proof (cases path)
    case (Cons c path')
    obtain p' a b e where c: "c = (p', a, b, e)" by (cases c)
    have "p' \<in> A" using N(4) by (simp add: Cons c)
    then show ?thesis using tstate_pid_ok [OF t2(1)] by (simp add: Cons c)
  qed (simp add: invalid_pid_ok)
  have reps: "int_rep ?ks ((m(q := d)) q) (child_refs cs)" "node_header ((m(q := d)) q) q (path_parent path) ?im"
    "\<forall>c \<in> set cs. tree_rep ?ks ?lm ?im (m(q := d)) q (snd c)"
    using N(1) by simp_all
  have room: "int_room ?ks [] (length cs)" using M(9) [of "child_refs cs"] size(1) by simp
  define s where "s = length cs - length cs div 2"
  have s: "0 < s" "s < length cs" "2 \<le> s" "2 \<le> length cs - s" "int s \<le> ?im" "int (length cs - s) \<le> ?im"
    using size unfolding s_def by linarith+
  obtain t3 q' g m3 where t3: "Split_internal t2 h = Some (Done g, t3)" "tstate n t3 m3 (insert q' A)" "holds t3 g q'" "q' \<notin> A" "tkeep t2 t3"
    "bt_root t3 = bt_root t2" "tree_rep ?ks ?lm ?im m3 (path_parent path) (PNode q (take s cs))" "tree_rep ?ks ?lm ?im m3 (path_parent path) (PNode q' (drop s cs))"
    "\<And>x. x \<notin> insert q (insert q' (set (child_pids cs))) \<Longrightarrow> m3 x = (m(q := d)) x"
    by (rule Split_internal_ok [OF t2(1,2) reps par M(4) pids(1,2) room, folded s_def], rule that, assumption+)
  have K: "tkeep t t3" by (rule tkeep_trans [OF t2(3) t3(5)])
  note F = tkeep_fields [OF K]
  obtain k' v' ds where hd: "drop s cs = (k', v') # ds" using s(2) by (cases "drop s cs") auto
  have fk: "slice (m3 q') 28 ?ks = k' \<and> length k' = ?ks \<and> 28 + ?ks \<le> PAGE_SIZE"
    using t3(8) unfolding hd by (intro int_first_key [where v = "pid_of v'" and es = "child_refs ds"]) simp
  let ?L = "PNode q (take s cs)" and ?R = "PNode q' (drop s cs)"
  have cp: "child_pids (take s cs) @ child_pids (drop s cs) = child_pids cs" by (simp only: map_append [symmetric] concat_append [symmetric] append_take_drop_id)
  have "mset (tree_pids ?L @ tree_pids ?R @ path_pids path) = mset (q' # tree_pids (PNode q cs) @ path_pids path)"
    using arg_cong [OF cp, of mset] by simp
  note ms = this
  have sets: "set (tree_pids ?L @ tree_pids ?R @ path_pids path) = insert q' (set (tree_pids (PNode q cs) @ path_pids path))"
    using arg_cong [OF ms, of set_mset] by simp
  have "distinct (q' # tree_pids (PNode q cs) @ path_pids path)" using N(3,4) t3(4) by auto
  then have dist: "distinct (tree_pids ?L @ tree_pids ?R @ path_pids path)" using ms mset_eq_imp_distinct_iff by blast
  have R: "INDEX_ROOTS_PAGE_ID \<in> A" using N(7) by (simp add: roots_at_def)
  have "q' \<noteq> INDEX_ROOTS_PAGE_ID" using R t3(4) by auto
  then have sub: "set (tree_pids ?L @ tree_pids ?R @ path_pids path) \<subseteq> insert q' A - {INDEX_ROOTS_PAGE_ID}" unfolding sets using N(4) by blast
  have path: "path_rep ?ks ?lm ?im m3 path q"
  proof (rule path_rep_cong [OF _ N(2)])
    fix x assume x: "x \<in> set (path_pids path)"
    have "x \<notin> set (tree_pids (PNode q cs))" "x \<in> A" using N(3,4) x by auto
    then show "m3 x = (m(q := d)) x" using t3(4,9) by auto
  qed
  have mR: "m3 INDEX_ROOTS_PAGE_ID = m INDEX_ROOTS_PAGE_ID" using t3(9) [of INDEX_ROOTS_PAGE_ID] N(4) R t3(4) by auto
  have S': "split_at n t3 m3 (insert q' A) path ?L k' ?R"
    unfolding split_at_def F
  proof (intro conjI)
    show "bt_root t3 = root_of path (pid_of ?L)" using D(2) t3(6) t2(4) by simp
    show "roots_at m3 (insert q' A) (bt_index_id t) (bt_root t3)" using D(3) mR t3(6) t2(4) by (simp add: roots_at_def)
    show "path_rep ?ks ?lm ?im m3 path (pid_of ?L)" using path by simp
    show "tree_shape ?lm ?im ?L" "tree_shape ?lm ?im ?R" using N(6) s by (auto dest: in_set_takeD in_set_dropD)
    show "path_shape ?lm ?im path" using D(11) by simp
    show "split_balanced path ?L ?R" by (rule balanced_entered(2) [OF D(14) cs_def])
  qed (use t3 dist sub fk D(13) in \<open>simp_all only:\<close>)
  have H': "holds t3 h (pid_of ?L)" using tkeep_holds [OF t3(5) t2(2)] by simp
  have G': "holds t3 g (pid_of ?R)" using t3(3) by simp
  have F': "slice (m3 (pid_of ?R)) INTERNAL_PAGE_HEADER_SIZE (ksz t3) = k'" using fk F(1) by (simp add: INTERNAL_PAGE_HEADER_SIZE_def)
  have I': "items ?L @ Sep k' # items ?R = items (PNode q cs)" using items_split [OF s(1,2), of q q' q] hd by (simp del: items.simps)
  have E': "entries ?L @ entries ?R = entries (PNode q cs)"
    by (simp only: entries.simps map_append [symmetric] concat_append [symmetric] append_take_drop_id)
  have X': "m3 x = m x \<and> x \<notin> split_pids path ?L ?R" if x: "x \<in> A - split_pids ((q, ls, kk, rs) # path) L R" for x
  proof -
    have x': "x \<notin> set (tree_pids (PNode q cs) @ path_pids path)" "x \<noteq> INDEX_ROOTS_PAGE_ID" "x \<noteq> q'" using x N(5) t3(4) by auto
    then show ?thesis using t3(9) [of x] sets by auto
  qed
  show thesis by (rule that [folded cs_def, OF t3(1) S' H' G' F' K subset_insertI I' E' X'])
qed

text \<open>A parent that has room takes the new child.\<close>

lemma parent_takes_child:
  fixes path q ls kk rs
  defines "full \<equiv> (q, ls, kk, rs) # path"
  assumes S: "split_at (Suc (n + Suc (length path))) t m A ((q, ls, kk, rs) # path) L k R"
    and d: "int_rep (ksz t) d (child_refs (ls @ (kk, L) # (k, R) # rs))" "node_header d q (path_parent path) (imx t)"
    and t2: "tstate (Suc (n + Suc (length path))) t2 (m(q := d)) A" "tkeep t t2" "bt_root t2 = bt_root t"
    and room: "\<not> int (length ls + 1 + length rs) + 1 > imx t"
  shows "insert_result n t m A (split_pids full L R) (around full (items L @ Sep k # items R)) (left_of full @ entries L @ entries R @ right_of full) t2"
proof -
  let ?cs = "ls @ (kk, L) # (k, R) # rs"
  note D = split_atD [OF S] and N = entered_node [OF S d]
  have at: "tree_at n t2 (m(q := d)) A (plug (PNode q ?cs) path)"
    unfolding tree_at_def tkeep_fields [OF t2(2)] plug_pid plug_distinct plug_pids_set plug_rep plug_shape
  proof (intro conjI)
    show "tstate n t2 (m(q := d)) A" by (rule tstate_weaken [OF t2(1)]) simp
    show "bt_root t2 = root_of path (pid_of (PNode q ?cs))" using D(2) t2(3) by simp
    show "roots_at (m(q := d)) A (bt_index_id t) (bt_root t2)" using N(7) t2(3) by simp
    show "set (tree_pids (PNode q ?cs)) \<union> set (path_pids path) \<subseteq> A - {INDEX_ROOTS_PAGE_ID}" using N(4) by simp
    show "path_rep (ksz t) (lmx t) (imx t) (m(q := d)) path (pid_of (PNode q ?cs))" using N(2) by simp
    show "path_shape (lmx t) (imx t) path" using D(11) by simp
    show "tree_shape (lmx t) (imx t) (PNode q ?cs)" unfolding tree_shape_simps using N(6) room by auto
    show "is_balanced (plug (PNode q ?cs) path)" by (rule balanced_entered(1) [OF D(14) refl])
  qed (rule N(3) N(1) D(13))+
  show ?thesis unfolding insert_result_def full_def
    by (intro exI [of _ "m(q := d)"] exI [of _ A] exI [of _ "plug (PNode q ?cs) path"] conjI at t2(2) subset_refl) (simp_all add: plug_items plug_entries)
qed

lemma InsertIntoParent_ok:
  "split_at (n + Suc (length path)) t m A path L k R \<Longrightarrow> holds t f (pid_of L) \<Longrightarrow> holds t g (pid_of R) \<Longrightarrow>
   slice (m (pid_of R)) off (ksz t) = k \<Longrightarrow> off + ksz t \<le> PAGE_SIZE \<Longrightarrow>
   \<exists>t'. InsertIntoParent t f (g, off) g = Some (Done (), t') \<and>
     insert_result n t m A (split_pids path L R) (around path (items L @ Sep k # items R)) (left_of path @ entries L @ entries R @ right_of path) t'"
proof (induction path arbitrary: t m A L k R f g off)
  case Nil
  obtain t' m' A' T' where r: "insert_new_root t f (g, off) g = Some (Done (), t')" "tree_at n t' m' A' T'" "tkeep t t'"
    "items T' = items L @ Sep k # items R" "entries T' = entries L @ entries R" "A \<subseteq> A'"
    "\<And>x. x \<in> A \<Longrightarrow> x \<notin> set (tree_pids L @ tree_pids R) \<union> {INDEX_ROOTS_PAGE_ID} \<Longrightarrow> m' x = m x"
    by (rule insert_new_root_ok [of n t m A L k R f g off]) (use Nil.prems in \<open>simp_all add: that\<close>)
  note D = split_atD [OF Nil.prems(1)]
  have root: "BP_IsRootPage (m (pid_of L)) = Some True"
    using tree_rep_header [OF D(6)] by (auto simp: BP_IsRootPage_def BP_GetParentPageId_def)
  have "InsertIntoParent t f (g, off) g = Some (Done (), t')"
    using node_data_ok(1) [OF D(1) Nil.prems(2)] root r(1) by (subst InsertIntoParent.simps) simp
  moreover have "insert_result n t m A (split_pids [] L R) (around [] (items L @ Sep k # items R)) (left_of [] @ entries L @ entries R @ right_of []) t'"
    unfolding insert_result_def using r(2-7) by (intro exI [of _ m'] exI [of _ A'] exI [of _ T']) auto
  ultimately show ?case by blast
next
  case (Cons c path)
  obtain q ls kk rs where c: "c = (q, ls, kk, rs)" by (cases c)
  let ?cs = "ls @ (kk, L) # (k, R) # rs" and ?path = "(q, ls, kk, rs) # path"
  have S: "split_at (Suc (n + Suc (length path))) t m A ?path L k R" using Cons.prems(1) by (simp add: c)
  note D = split_atD [OF S]
  have q: "q \<in> A" "q \<noteq> pid_of R" using D(4,5) pid_of_in_pids [of R] by auto
  have root: "BP_IsRootPage (m (pid_of L)) = Some False" "BP_GetParentPageId (m (pid_of L)) = Some q"
    using tree_rep_header [OF D(6)] tstate_pos [OF D(1) q(1)] by (auto simp: BP_IsRootPage_def BP_GetParentPageId_def INVALID_PAGE_ID_def)
  obtain h t1 where t1: "fetch_node t q = Some (h, t1)" "tstate (Suc (n + Suc (length path))) t1 m A" "holds t1 h q" "tkeep t t1" "bt_root t1 = bt_root t"
    using fetch_node_ok [OF D(1) q(1)] by blast
  note H = tkeep_holds [OF t1(4) Cons.prems(2)] tkeep_holds [OF t1(4) Cons.prems(3)]
  have hg: "h \<noteq> g" using holds_unique [OF t1(2,3)] H(2) q(2) by blast
  obtain d where d: "InsertNodeAfter (m q) (pid_of L) k (pid_of R) = Some (int (length ls + 1 + length rs) + 1, d)"
    "int_rep (ksz t) d (child_refs ?cs)" "node_header d q (path_parent path) (imx t)" "length d = PAGE_SIZE"
    by (rule enter_child [OF S])
  obtain t2 where t2: "put_node t1 h d = Some t2" "tstate (Suc (n + Suc (length path))) t2 (m(q := d)) A" "tkeep t1 t2" "bt_root t2 = bt_root t1"
    by (rule put_node_ok [OF t1(2,3) d(4)])
  note K2 = tkeep_trans [OF t1(4) t2(3)]
  have kq: "BP_GetKeySize (m q) = Some (int (ksz t))" using D(8) by (auto simp: int_rep_def dest: node_repD(7))
  have kp: "key_at_ptr t1 (g, off) (int (ksz t)) = Some k" using key_at_ptr_ok [OF t1(2) H(2) Cons.prems(5)] Cons.prems(4) by simp
  let ?rest = "\<lambda>(r, t). case r of Thrown \<Rightarrow> Some (Thrown, t) | Done _ \<Rightarrow> do { t \<leftarrow> unpin_node t q True; Some (Done (), t) }"
  let ?go = "if int (length ls + 1 + length rs) + 1 > imx t then do {
       (s, t) \<leftarrow> Split_internal t2 h; case s of Thrown \<Rightarrow> Some (Thrown, t) | Done g \<Rightarrow> InsertIntoParent t h (g, INTERNAL_PAGE_HEADER_SIZE) g }
     else Some (Done (), t2)"
  have run: "InsertIntoParent t f (g, off) g = ?go \<bind> ?rest"
    using node_data_ok(1) [OF D(1) Cons.prems(2)] root t1(1) hg node_data_ok(1) [OF t1(2,3)] node_data_ok(1) [OF t1(2) H(1)]
      node_data_ok(1) [OF t1(2) H(2)] tree_rep_header [OF D(6)] tree_rep_header [OF D(7)] kq kp d(1) t2(1) d(3)
    by (subst InsertIntoParent.simps) (simp add: ensure_def node_header_def)
  have "\<exists>t3. ?go = Some (Done (), t3) \<and> insert_result n t m A (split_pids ?path L R) (around ?path (items L @ Sep k # items R))
      (left_of ?path @ entries L @ entries R @ right_of ?path) t3"
  proof (cases "int (length ls + 1 + length rs) + 1 > imx t")
    case False
    have "insert_result n t m A (split_pids ?path L R) (around ?path (items L @ Sep k # items R)) (left_of ?path @ entries L @ entries R @ right_of ?path) t2"
      by (rule parent_takes_child [OF S d(2,3) t2(2) K2 _ False]) (simp add: t2(4) t1(5))
    then show ?thesis using False by simp
  next
    case True
    obtain t3 g' m3 A3 L' k' R' where P: "Split_internal t2 h = Some (Done g', t3)" "split_at (n + Suc (length path)) t3 m3 A3 path L' k' R'"
      "holds t3 h (pid_of L')" "holds t3 g' (pid_of R')" "slice (m3 (pid_of R')) INTERNAL_PAGE_HEADER_SIZE (ksz t3) = k'" "tkeep t t3" "A \<subseteq> A3"
      "items L' @ Sep k' # items R' = items (PNode q ?cs)" "entries L' @ entries R' = entries (PNode q ?cs)"
      "\<And>x. x \<in> A - split_pids ?path L R \<Longrightarrow> m3 x = m x \<and> x \<notin> split_pids path L' R'"
      by (rule parent_split [OF S t2(2) tkeep_holds [OF t2(3) t1(3)] K2 _ d(2,3)], simp add: t2(4) t1(5), use True in simp, rule that, assumption+)
    have off: "INTERNAL_PAGE_HEADER_SIZE + ksz t3 \<le> PAGE_SIZE"
      using max_sizesD(6) [OF split_atD(13) [OF P(2)]] by (simp add: INTERNAL_PAGE_HEADER_SIZE_def)
    obtain t4 where t4: "InsertIntoParent t3 h (g', INTERNAL_PAGE_HEADER_SIZE) g' = Some (Done (), t4)"
      "insert_result n t3 m3 A3 (split_pids path L' R') (around path (items L' @ Sep k' # items R')) (left_of path @ entries L' @ entries R' @ right_of path) t4"
      using Cons.IH [OF P(2-5) off] by blast
    have xs: "around path (items L' @ Sep k' # items R') = around ?path (items L @ Sep k # items R)" unfolding P(8) by simp
    have es: "left_of path @ entries L' @ entries R' @ right_of path = left_of ?path @ entries L @ entries R @ right_of ?path"
      using arg_cong [OF P(9), of "\<lambda>es. left_of path @ es @ right_of path"] by simp
    have "insert_result n t m A (split_pids ?path L R) (around ?path (items L @ Sep k # items R)) (left_of ?path @ entries L @ entries R @ right_of ?path) t4"
      by (rule insert_result_trans [OF P(6,7,10) t4(2) [unfolded xs es]])
    then show ?thesis using True P(1) t4(1) by simp
  qed
  then obtain t3 where t3: "?go = Some (Done (), t3)" "insert_result n t m A (split_pids ?path L R) (around ?path (items L @ Sep k # items R))
      (left_of ?path @ entries L @ entries R @ right_of ?path) t3" by blast
  obtain t4 where t4: "unpin_node t3 q True = Some t4" "insert_result n t m A (split_pids ?path L R) (around ?path (items L @ Sep k # items R))
      (left_of ?path @ entries L @ entries R @ right_of ?path) t4" by (rule insert_result_unpin [OF t3(2)])
  show ?case unfolding c run t3(1) using t4 by simp
qed

section \<open>The place of a key\<close>

fun left_items :: "crumb list \<Rightarrow> item list" where
  "left_items [] = []"
| "left_items ((q, ls, k, rs) # path) = left_items path @ tl (child_items ls @ [Sep k])"

fun right_items :: "crumb list \<Rightarrow> item list" where
  "right_items [] = []"
| "right_items ((q, ls, k, rs) # path) = child_items rs @ right_items path"

lemma around_eq: "around path xs = left_items path @ xs @ right_items path"
proof (induction path arbitrary: xs)
  case (Cons c path)
  obtain q ls k rs where c: "c = (q, ls, k, rs)" by (cases c)
  have "tl (child_items ls @ Sep k # xs @ child_items rs) = tl (child_items ls @ [Sep k]) @ xs @ child_items rs" by (cases ls) simp_all
  then show ?case using Cons.IH [of "tl (child_items ls @ Sep k # xs @ child_items rs)"] by (simp add: c)
qed simp

lemma tree_sorted_plug: "tree_sorted km (plug T path) \<Longrightarrow> tree_sorted km T"
proof (induction T path rule: plug.induct)
  case (2 T p ls k rs path)
  from "2.IH" "2.prems" have "tree_sorted km (PNode p (ls @ (k, T) # rs))" by simp
  then show ?case by (rule tree_sorted_child)
qed simp

text \<open>At a node on the search path: the items left of the child are below the key, those right of it above.\<close>

lemma key_between:
  assumes srt: "tree_sorted km (PNode q (ls @ (k, T) # rs))" and key: "orderable_key km key" and i: "child_index km key (ls @ (k, T) # rs) = length ls"
  shows "x \<in> set (tl (child_items ls @ [Sep k])) \<Longrightarrow> item_less km x (Ent key)" "x \<in> set (child_items rs) \<Longrightarrow> item_less km (Ent key) x"
proof -
  let ?cs = "ls @ (k, T) # rs" and ?cmp = "CompareKeys km"
  note N = node_sorted_at [OF srt]
  have items: "items (PNode q ?cs) = tl (child_items ls @ [Sep k]) @ items T @ child_items rs" using around_eq [of "[(q, ls, k, rs)]" "items T"] by simp
  have ok: "orderable_key km (item_key x)" if "x \<in> set (items (PNode q ?cs))" for x using srt that by (simp add: tree_sorted_def)
  have ints: "int_keys_ok km ?cs" using tree_sorted_order [OF srt] by simp
  have sep: "key_le ?cmp (fst (?cs ! j)) key \<longleftrightarrow> j \<le> length ls" if "1 \<le> j" "j < length ?cs" for j
    using child_index_split(2) [OF ints key that] i by simp
  have srtd: "sorted_wrt (item_less km) (tl (child_items ls @ [Sep k]) @ items T @ child_items rs)" using srt unfolding tree_sorted_def items by simp
  show "item_less km x (Ent key)" if x: "x \<in> set (tl (child_items ls @ [Sep k]))"
  proof -
    obtain xs where xs: "tl (child_items ls @ [Sep k]) = xs @ [Sep k]" "ls \<noteq> []" using x by (cases ls) auto
    have kk: "key_le ?cmp k key" "orderable_key km k" using sep [of "length ls"] N(4) [of "length ls"] xs(2) by (simp_all add: Suc_le_eq)
    consider "x = Sep k" | "x \<in> set xs" using x xs(1) by auto
    then show ?thesis
    proof cases
      case 2
      then have "item_less km x (Sep k)" using srtd unfolding xs(1) by (simp add: sorted_wrt_append)
      then have lt: "key_lt ?cmp (item_key x) k" by simp
      have ox: "orderable_key km (item_key x)" by (rule ok) (use x in \<open>simp add: items del: items.simps\<close>)
      have "key_lt ?cmp (item_key x) key" using km.lt_trans(1) [OF ox kk(2) key lt kk(1)] .
      then show ?thesis using km.lt_le by (cases x) simp_all
    qed (use kk in simp)
  qed
  show "item_less km (Ent key) x" if x: "x \<in> set (child_items rs)"
  proof -
    obtain k' T' rs' where rs: "rs = (k', T') # rs'" using x by (cases rs) auto
    have nk: "\<not> key_le ?cmp k' key" "orderable_key km k'" using sep [of "Suc (length ls)"] N(4) [of "Suc (length ls)"] by (simp_all add: rs nth_append)
    then have lt: "key_lt ?cmp key k'" using km.cmp_flip [OF key nk(2)] by simp
    consider "x = Sep k'" | "x \<in> set (items T' @ child_items rs')" using x by (auto simp: rs)
    then show ?thesis
    proof cases
      case 2
      then have "item_less km (Sep k') x" using srtd by (simp add: rs sorted_wrt_append)
      then have le: "key_le ?cmp k' (item_key x)"
      proof (cases x)
        case (Sep a)
        have "orderable_key km a" using ok [of x] x by (simp add: items Sep del: items.simps)
        then show ?thesis using \<open>item_less km (Sep k') x\<close> km.lt_le by (simp add: Sep)
      qed simp
      have ox: "orderable_key km (item_key x)" by (rule ok) (use x in \<open>simp add: items del: items.simps\<close>)
      show ?thesis using km.lt_trans(1) [OF key nk(2) ox lt le] by simp
    qed (use lt in simp)
  qed
qed

lemma key_between_path:
  "tree_sorted km (plug T path) \<Longrightarrow> orderable_key km key \<Longrightarrow> on_path km key T path \<Longrightarrow>
   (\<forall>x \<in> set (left_items path). item_less km x (Ent key)) \<and> (\<forall>x \<in> set (right_items path). item_less km (Ent key) x)"
proof (induction T path rule: plug.induct)
  case (2 T p ls k rs path)
  have "tree_sorted km (PNode p (ls @ (k, T) # rs))" by (rule tree_sorted_plug [where path = path]) (use "2.prems" in simp)
  note B = key_between [OF this "2.prems"(2)]
  have "child_index km key (ls @ (k, T) # rs) = length ls" using "2.prems"(3) by simp
  with B "2.IH" "2.prems" show ?case by (auto simp del: set_concat)
qed simp

lemma sorted_insert_sep:
  assumes srt: "sorted_wrt (item_less km) (xs @ map Ent as @ Ent k # zs)" and ok: "\<forall>x \<in> set (xs @ map Ent as @ Ent k # zs). orderable_key km (item_key x)"
    and ne: "as \<noteq> []"
  shows "sorted_wrt (item_less km) (xs @ map Ent as @ Sep k # Ent k # zs)"
proof -
  let ?cmp = "CompareKeys km"
  obtain a bs where as: "as = a # bs" using ne by (cases as) auto
  have k: "orderable_key km k" "orderable_key km a" using ok as by auto
  have refl: "key_le ?cmp k k" using km.cmp_flip [OF k(1) k(1)] km.lt_le by blast
  have lt: "key_lt ?cmp b k" if "b \<in> set as" for b using srt that by (auto simp: sorted_wrt_append)
  have "item_less km x (Sep k)" if x: "x \<in> set xs" for x
  proof -
    have ox: "orderable_key km (item_key x)" and xa: "item_less km x (Ent a)" using ok srt x by (auto simp: sorted_wrt_append as)
    have "key_le ?cmp (item_key x) a" using xa km.lt_le by (cases x) simp_all
    then show ?thesis using km.lt_trans(2) [OF ox k(2,1)] lt [of a] as by simp
  qed
  moreover have "item_less km (Sep k) z" if "z \<in> set zs" for z
  proof -
    have "item_less km (Ent k) z" using srt that by (simp add: sorted_wrt_append)
    then show ?thesis using km.lt_le by (cases z) simp_all
  qed
  ultimately show ?thesis using srt refl lt by (auto simp: sorted_wrt_append)
qed

lemma insert_sorted:
  assumes srt: "tree_sorted km (plug (PLeaf p es) path)" and key: "orderable_key km key" and path: "on_path km key (PLeaf p es) path"
    and es': "leaf_keys_ok km (take i es @ (key, v) # drop i es)"
  defines "xs \<equiv> around path (map (Ent \<circ> fst) (take i es @ (key, v) # drop i es))"
  shows "sorted_wrt (item_less km) xs" "\<forall>x \<in> set xs. orderable_key km (item_key x)"
proof -
  let ?es = "take i es @ (key, v) # drop i es"
  have old: "sorted_wrt (item_less km) (left_items path @ map (Ent \<circ> fst) es @ right_items path)"
    "\<forall>x \<in> set (left_items path @ map (Ent \<circ> fst) es @ right_items path). orderable_key km (item_key x)"
    using srt unfolding tree_sorted_def plug_items around_eq by simp_all
  have B: "\<forall>x \<in> set (left_items path). item_less km x (Ent key)" "\<forall>x \<in> set (right_items path). item_less km (Ent key) x"
    using key_between_path [OF srt key path] by simp_all
  have es: "sorted_wrt (key_lt (CompareKeys km)) (map fst ?es)" "\<forall>k \<in> set (map fst ?es). orderable_key km k" using es' unfolding leaf_keys_ok_def by blast+
  have sub: "fst e = key \<or> Ent (fst e) \<in> set (map (Ent \<circ> fst) es)" if "e \<in> set ?es" for e using that by (auto dest: in_set_takeD in_set_dropD)
  have "sorted_wrt (item_less km) (map (Ent \<circ> fst) ?es)" using es(1) by (simp only: sorted_wrt_map item_less_Ent item_key.simps o_apply)
  moreover have "item_less km x y" if "x \<in> set (left_items path)" "y \<in> set (map (Ent \<circ> fst) ?es @ right_items path)" for x y
    using that old(1) B(1) sub by (fastforce simp: sorted_wrt_append)
  moreover have "item_less km x y" if "x \<in> set (map (Ent \<circ> fst) ?es)" "y \<in> set (right_items path)" for x y
    using that old(1) B(2) sub by (fastforce simp: sorted_wrt_append)
  moreover have "sorted_wrt (item_less km) (left_items path)" "sorted_wrt (item_less km) (right_items path)" using old(1) by (simp_all add: sorted_wrt_append)
  ultimately show "sorted_wrt (item_less km) xs" unfolding xs_def around_eq by (simp only: sorted_wrt_append) blast
  show "\<forall>x \<in> set xs. orderable_key km (item_key x)" 
  proof
    fix x assume "x \<in> set xs"
    then consider "x \<in> set (left_items path @ map (Ent \<circ> fst) es @ right_items path)" | k where "x = Ent k" "k \<in> set (map fst ?es)"
      unfolding xs_def around_eq by auto
    then show "orderable_key km (item_key x)" by cases (use old(2) es(2) in auto)
  qed
qed

section \<open>Insertion into a leaf\<close>

definition btree_ok :: "nat \<Rightarrow> btree \<Rightarrow> (int \<Rightarrow> buffer) \<Rightarrow> int set \<Rightarrow> ptree \<Rightarrow> bool" where
  "btree_ok n t m A T \<longleftrightarrow> tree_at n t m A T \<and> tree_sorted (bt_km t) T"

lemma btree_ok_inv: "btree_ok n t m A T \<Longrightarrow> btree_inv n t m A T"
  by (auto simp: btree_ok_def tree_at_def btree_inv_def tree_shape_def)

lemma tree_at_keep: "tree_at n t m A T \<Longrightarrow> tkeep t t' \<Longrightarrow> bt_root t' = bt_root t \<Longrightarrow> tstate n' t' m A \<Longrightarrow> tree_at n' t' m A T"
  unfolding tree_at_def using tkeep_fields [of t t'] by metis

lemma tree_at_weaken: "tree_at n t m A T \<Longrightarrow> k \<le> n \<Longrightarrow> tree_at k t m A T"
  unfolding tree_at_def using tstate_weaken by blast

lemma btree_ok_keep: "btree_ok n t m A T \<Longrightarrow> tkeep t t' \<Longrightarrow> bt_root t' = bt_root t \<Longrightarrow> tstate n' t' m A \<Longrightarrow> btree_ok n' t' m A T"
  using tree_at_keep tkeep_fields(1) by (auto simp: btree_ok_def)

fun depth :: "ptree \<Rightarrow> nat" where
  "depth (PLeaf p es) = 0"
| "depth (PNode p cs) = Suc (foldr max (map (\<lambda>c. depth (snd c)) cs) 0)"

lemma foldr_max: "x \<in> set xs \<Longrightarrow> x \<le> foldr max xs (0 :: nat)"
  by (induction xs) auto

lemma depth_plug: "length path + depth T \<le> depth (plug T path)"
proof (induction T path rule: plug.induct)
  case (2 T p ls k rs path)
  have "depth T \<le> foldr max (map (\<lambda>c. depth (snd c)) (ls @ (k, T) # rs)) 0" by (rule foldr_max) simp
  then show ?case using "2.IH" by simp
qed simp

text \<open>The tree after the entry has been written into its leaf, before a split.\<close>

lemma leaf_written:
  assumes at: "tree_at n t m A (plug (PLeaf p es) path)" and d: "leaf_rep (ksz t) d es'" "node_header d p (path_parent path) (lmx t)"
  shows "tree_rep (ksz t) (lmx t) (imx t) (m(p := d)) (path_parent path) (PLeaf p es')" "path_rep (ksz t) (lmx t) (imx t) (m(p := d)) path p"
    "distinct (p # path_pids path)" "set (p # path_pids path) \<subseteq> A - {INDEX_ROOTS_PAGE_ID}" "roots_at (m(p := d)) A (bt_index_id t) (bt_root t)"
    "path_shape (lmx t) (imx t) path" "bt_root t = root_of path p" "max_sizes_ok (ksz t) (lmx t) (imx t)"
    "is_balanced (plug (PLeaf p es') path)" "split_balanced path (PLeaf p xs) (PLeaf q ys)"
proof -
  have I: "bt_root t = root_of path p" "roots_at m A (bt_index_id t) (bt_root t)" "distinct (p # path_pids path)"
    "set (p # path_pids path) \<subseteq> A - {INDEX_ROOTS_PAGE_ID}" "path_rep (ksz t) (lmx t) (imx t) m path p" "path_shape (lmx t) (imx t) path" "max_sizes_ok (ksz t) (lmx t) (imx t)"
    using tree_atD [OF at, unfolded plug_pid plug_distinct plug_pids_set plug_rep plug_shape] by simp_all
  show "distinct (p # path_pids path)" "set (p # path_pids path) \<subseteq> A - {INDEX_ROOTS_PAGE_ID}" "path_shape (lmx t) (imx t) path" "bt_root t = root_of path p"
    "max_sizes_ok (ksz t) (lmx t) (imx t)" by (rule I)+
  show "is_balanced (plug (PLeaf p es') path)" "split_balanced path (PLeaf p xs) (PLeaf q ys)" using balanced_leaf tree_atD(9) [OF at] by blast+
  show "path_rep (ksz t) (lmx t) (imx t) (m(p := d)) path p" by (rule path_rep_cong [OF _ I(5)]) (use I(3) in auto)
  show "tree_rep (ksz t) (lmx t) (imx t) (m(p := d)) (path_parent path) (PLeaf p es')" using d by simp
  show "roots_at (m(p := d)) A (bt_index_id t) (bt_root t)" using I(2,4) by (auto simp: roots_at_def)
qed

lemma leaf_kept:
  assumes at: "tree_at n t m A (plug (PLeaf p es) path)" and d: "leaf_rep (ksz t) d es'" "node_header d p (path_parent path) (lmx t)"
    and t': "tstate n t' (m(p := d)) A" "tkeep t t'" "bt_root t' = bt_root t" and fits: "int (length es') \<le> lmx t"
  shows "tree_at n t' (m(p := d)) A (plug (PLeaf p es') path)"
  unfolding tree_at_def tkeep_fields [OF t'(2)] t'(3) plug_pid plug_distinct plug_pids_set plug_rep plug_shape
  using leaf_written [OF at d] t'(1) fits by simp

text \<open>The position of the tree after its leaf has been split.\<close>

lemma leaf_split:
  assumes at: "tree_at (Suc n) t m A (plug (PLeaf p es) path)" and d: "leaf_rep (ksz t) d es'" "node_header d p (path_parent path) (lmx t)"
    and t1: "tstate (Suc n) t1 (m(p := d)) A" "holds t1 f p" "tkeep t t1" "bt_root t1 = bt_root t" and full: "int (length es') = lmx t + 1"
  obtains t2 g m2 A2 L k R as zs where "Split_leaf t1 f = Some (Done g, t2)" "split_at n t2 m2 A2 path L k R" "holds t2 f (pid_of L)" "holds t2 g (pid_of R)"
    "slice (m2 (pid_of R)) LEAF_PAGE_HEADER_SIZE (ksz t2) = k" "tkeep t t2" "A \<subseteq> A2" "entries L @ entries R = es'"
    "items L = map Ent as" "items R = Ent k # zs" "as \<noteq> []" "map Ent as @ Ent k # zs = map (Ent \<circ> fst) es'"
    "\<And>x. x \<in> A \<Longrightarrow> x \<notin> insert INDEX_ROOTS_PAGE_ID (set (p # path_pids path)) \<Longrightarrow> m2 x = m x \<and> x \<notin> split_pids path L R"
proof -
  let ?ks = "ksz t" and ?lm = "lmx t" and ?im = "imx t"
  note W = leaf_written [OF at d] and M = max_sizesD [OF leaf_written(8) [OF at d]]
  have par: "pid_ok (path_parent path)"
  proof (cases path)
    case (Cons c path')
    obtain p' a b e where c: "c = (p', a, b, e)" by (cases c)
    have "p' \<in> A" using W(4) by (simp add: Cons c)
    then show ?thesis using tstate_pid_ok [OF t1(1)] by (simp add: Cons c)
  qed (simp add: invalid_pid_ok)
  have d': "leaf_rep ?ks ((m(p := d)) p) es'" "node_header ((m(p := d)) p) p (path_parent path) ?lm" using d by simp_all
  have room: "leaf_room ?ks [] (length es')" using M(10) [of es'] full by simp
  define s where "s = length es' - length es' div 2"
  have s: "0 < s" "s < length es'" "int s \<le> ?lm" "int (length es' - s) \<le> ?lm" using full M(1) unfolding s_def by linarith+
  obtain t2 q g d2 e2 where t2: "Split_leaf t1 f = Some (Done g, t2)" "tstate n t2 (m(p := d, p := d2, q := e2)) (insert q A)" "holds t2 g q" "q \<notin> A" "tkeep t1 t2"
    "bt_root t2 = bt_root t1" "leaf_rep ?ks d2 (take s es')" "leaf_rep ?ks e2 (drop s es')" "node_header d2 p (path_parent path) ?lm" "node_header e2 q (path_parent path) ?lm"
    by (rule Split_leaf_ok [OF t1(1,2) d' par M(3) room, folded s_def])
  have K: "tkeep t t2" by (rule tkeep_trans [OF t1(3) t2(5)])
  note F = tkeep_fields [OF K]
  let ?m2 = "m(p := d2, q := e2)"
  obtain k v ds where hd: "drop s es' = (k, v) # ds" using s(2) by (cases "drop s es'") auto
  have fk: "slice e2 32 ?ks = k \<and> length k = ?ks \<and> 32 + ?ks \<le> PAGE_SIZE" using t2(8) unfolding hd by (rule leaf_first_key)
  have R: "INDEX_ROOTS_PAGE_ID \<in> A" "p \<in> A" "p \<noteq> INDEX_ROOTS_PAGE_ID" using W(4,5) by (auto simp: roots_at_def)
  have ne: "q \<noteq> p" "q \<noteq> INDEX_ROOTS_PAGE_ID" "q \<notin> set (path_pids path)" "p \<notin> set (path_pids path)" using t2(4) R W(3,4) by auto
  have path: "path_rep ?ks ?lm ?im ?m2 path p" by (rule path_rep_cong [OF _ W(2)]) (use ne in auto)
  let ?L = "PLeaf p (take s es')" and ?R = "PLeaf q (drop s es')"
  have S: "split_at n t2 ?m2 (insert q A) path ?L k ?R"
    unfolding split_at_def F
  proof (intro conjI)
    show "tstate n t2 ?m2 (insert q A)" using t2(2) by simp
    show "bt_root t2 = root_of path (pid_of ?L)" using W(7) t2(6) t1(4) by simp
    show "roots_at ?m2 (insert q A) (bt_index_id t) (bt_root t2)" using W(5) t2(6) t1(4) ne R by (simp add: roots_at_def)
    show "distinct (tree_pids ?L @ tree_pids ?R @ path_pids path)" using W(3) ne by simp
    show "set (tree_pids ?L @ tree_pids ?R @ path_pids path) \<subseteq> insert q A - {INDEX_ROOTS_PAGE_ID}" using W(4) ne by auto
    show "tree_rep ?ks ?lm ?im ?m2 (path_parent path) ?L" "tree_rep ?ks ?lm ?im ?m2 (path_parent path) ?R" using t2(7-10) ne by simp_all
    show "tree_shape ?lm ?im ?L" "tree_shape ?lm ?im ?R" using s by simp_all
    show "split_balanced path ?L ?R" by (rule W(10))
  qed (use path fk W(6,8) in simp_all)
  have "map (Ent \<circ> fst) es' = map (Ent \<circ> fst) (take s es' @ drop s es')" by simp
  then have it: "map Ent (map fst (take s es')) @ Ent k # map (Ent \<circ> fst) ds = map (Ent \<circ> fst) es'" unfolding map_append by (simp add: hd)
  show thesis
  proof (rule that [of g t2 ?m2 "insert q A" ?L k ?R "map fst (take s es')" "map (Ent \<circ> fst) ds"])
    show "holds t2 f (pid_of ?L)" using tkeep_holds [OF t2(5) t1(2)] by simp
    show "slice (?m2 (pid_of ?R)) LEAF_PAGE_HEADER_SIZE (ksz t2) = k" using fk F(1) by (simp add: LEAF_PAGE_HEADER_SIZE_def)
    show "?m2 x = m x \<and> x \<notin> split_pids path ?L ?R" if "x \<in> A" "x \<notin> insert INDEX_ROOTS_PAGE_ID (set (p # path_pids path))" for x using that t2(4) by auto
    show "map fst (take s es') \<noteq> []" using s by auto
    show "entries ?L @ entries ?R = es'" by simp
  qed (use t2 S K it hd in auto)
qed

text \<open>The result of an insertion: a correct tree whose entries are those of \<open>T\<close> with the new one at its place, other pages as they were.\<close>

definition inserted :: "nat \<Rightarrow> btree \<Rightarrow> (int \<Rightarrow> buffer) \<Rightarrow> int set \<Rightarrow> ptree \<Rightarrow> generic_key \<Rightarrow> rowid \<Rightarrow> btree \<Rightarrow> bool" where
  "inserted n t m A T key v t' \<longleftrightarrow> (\<exists>m' A' T' xs ys. btree_ok n t' m' A' T' \<and> tkeep t t' \<and> entries T = xs @ ys \<and> entries T' = xs @ (key, v) # ys \<and>
     A \<subseteq> A' \<and> (\<forall>x \<in> A - insert INDEX_ROOTS_PAGE_ID (set (tree_pids T)). m' x = m x))"

lemma split_inserted:
  assumes ok: "btree_ok n0 t m A (plug (PLeaf p es) path)" and key: "orderable_key (bt_km t) key" "on_path (bt_km t) key (PLeaf p es) path"
    and es': "leaf_keys_ok (bt_km t) (take i es @ (key, v) # drop i es)"
    and r: "insert_result n t m A (insert INDEX_ROOTS_PAGE_ID (set (tree_pids (plug (PLeaf p es) path)))) (around path xs)
      (left_of path @ (take i es @ (key, v) # drop i es) @ right_of path) t'"
    and xs: "xs = map (Ent \<circ> fst) (take i es @ (key, v) # drop i es) \<or>
      (\<exists>as k zs. xs = map Ent as @ Sep k # Ent k # zs \<and> as \<noteq> [] \<and> map Ent as @ Ent k # zs = map (Ent \<circ> fst) (take i es @ (key, v) # drop i es))"
  shows "inserted n t m A (plug (PLeaf p es) path) key v t'"
proof -
  from r obtain m' A' T' where T': "tree_at n t' m' A' T'" "tkeep t t'" "items T' = around path xs"
    "entries T' = left_of path @ (take i es @ (key, v) # drop i es) @ right_of path" "A \<subseteq> A'"
    "\<forall>x \<in> A - insert INDEX_ROOTS_PAGE_ID (set (tree_pids (plug (PLeaf p es) path))). m' x = m x" unfolding insert_result_def by blast
  have srt: "tree_sorted (bt_km t) (plug (PLeaf p es) path)" using ok by (simp add: btree_ok_def)
  note I = insert_sorted [OF srt key es']
  have "sorted_wrt (item_less (bt_km t)) (around path xs) \<and> (\<forall>x \<in> set (around path xs). orderable_key (bt_km t) (item_key x))"
    using xs
  proof
    assume "\<exists>as k zs. xs = map Ent as @ Sep k # Ent k # zs \<and> as \<noteq> [] \<and> map Ent as @ Ent k # zs = map (Ent \<circ> fst) (take i es @ (key, v) # drop i es)"
    then obtain as k zs where a: "xs = map Ent as @ Sep k # Ent k # zs" "as \<noteq> []" "map (Ent \<circ> fst) (take i es @ (key, v) # drop i es) = map Ent as @ Ent k # zs" by metis
    have s: "sorted_wrt (item_less (bt_km t)) (left_items path @ map Ent as @ Ent k # (zs @ right_items path))"
      "\<forall>x \<in> set (left_items path @ map Ent as @ Ent k # (zs @ right_items path)). orderable_key (bt_km t) (item_key x)"
      using I unfolding a(3) around_eq by simp_all
    from sorted_insert_sep [OF s a(2)] s(2) show ?thesis unfolding a(1) around_eq by simp
  qed (use I in blast)
  then have "tree_sorted (bt_km t') T'"
    using T'(1,3) tkeep_fields(1) [OF T'(2)] tree_atD(7) [OF T'(1)] by (simp add: tree_sorted_def tree_shape_def)
  then have "btree_ok n t' m' A' T'" using T'(1) by (simp add: btree_ok_def)
  moreover have "entries (plug (PLeaf p es) path) = (left_of path @ take i es) @ drop i es @ right_of path" unfolding plug_entries by simp
  moreover have "entries T' = (left_of path @ take i es) @ (key, v) # drop i es @ right_of path" using T'(4) by simp
  ultimately show ?thesis unfolding inserted_def using T'(2,5,6) by blast
qed

lemma InsertIntoLeaf_ok:
  assumes ok: "btree_ok (n + depth T + 2) t m A T" and key: "orderable_key (bt_km t) key" "length key = ksz t" and v: "rid_ok v"
  shows "\<exists>t'. if find (\<lambda>e. key_eq (bt_cmp t) (fst e) key) (entries T) \<noteq> None
    then InsertIntoLeaf t key v = Some (Done False, t') \<and> btree_ok (n + depth T + 2) t' m A T \<and> tkeep t t'
    else InsertIntoLeaf t key v = Some (Done True, t') \<and> inserted n t m A T key v t'"
proof -
  let ?N = "n + depth T + 2" and ?P = "\<lambda>e. key_eq (bt_cmp t) (fst e) key"
  note inv = btree_ok_inv [OF ok]
  obtain p es path f t1 where L: "FindLeafPage t key INVALID_PAGE_ID False = Some (Some f, t1)" "tstate ?N t1 m A" "holds t1 f p" "tkeep t t1"
    "bt_root t1 = bt_root t" "plug (PLeaf p es) path = T" "on_path (bt_km t) key (PLeaf p es) path" by (rule FindLeafPage_ok [OF inv key(1)])
  note P = path_leaf_rep [OF inv L(6)] and T = tree_atD [OF ok [unfolded btree_ok_def, THEN conjunct1]]
  have fe: "find ?P (entries T) = find ?P es"
    using find_entries_path [of "bt_km t" "PLeaf p es" path key] ok key(1) L(6,7) tree_sorted_order by (auto simp: btree_ok_def)
  have look: "Leaf_Lookup (bt_cmp t1) (m p) key = Some (map_option snd (find ?P es))" using Leaf_Lookup_ok [OF P(1,3) key(1)] tkeep_fields(1) [OF L(4)] by simp
  have pg: "BP_GetPageId (m p) = Some p" using P(2) by (simp add: node_header_def)
  note N1 = node_data_ok(1) [OF L(2,3)]
  show ?thesis
  proof (cases "find ?P es")
    case (Some e)
    obtain t2 where t2: "unpin_node t1 p False = Some t2" "tstate ?N t2 m A" "tkeep t1 t2" "bt_root t2 = bt_root t1" by (rule unpin_node_ok [OF L(2)])
    have "btree_ok ?N t2 m A T" using btree_ok_keep [OF ok tkeep_trans [OF L(4) t2(3)]] t2(2,4) L(5) by simp
    moreover have "InsertIntoLeaf t key v = Some (Done False, t2)" using L(1) N1 look Some pg t2(1) by (simp add: InsertIntoLeaf_def)
    ultimately show ?thesis using fe Some tkeep_trans [OF L(4) t2(3)] by auto
  next
    case None
    have size: "int (length es) \<le> lmx t" using T(7) L(6) plug_shape by auto
    note M = max_sizesD [OF T(8)]
    have new: "\<forall>e \<in> set es. \<not> key_eq (CompareKeys (bt_km t)) (fst e) key" using None by (auto simp: find_None_iff)
    obtain d i where d: "Leaf_Insert (bt_cmp t) (m p) key v = Some (int (length es) + 1, d)" "leaf_rep (ksz t) d (take i es @ (key, v) # drop i es)"
      "leaf_keys_ok (bt_km t) (take i es @ (key, v) # drop i es)" "i \<le> length es" "hdr_same 32 (m p) d"
      by (rule Leaf_Insert_ok [OF P(1,3) key v M(8) [OF size] new])
    let ?es = "take i es @ (key, v) # drop i es"
    have len: "length (m p) = PAGE_SIZE" "length d = PAGE_SIZE" "length ?es = length es + 1" using P(1) d(2,4) by (auto simp: leaf_rep_def dest: node_repD(1))
    have hd: "node_header d p (path_parent path) (lmx t)" using hdr_same_header(4) [OF d(5) _ len(1,2)] P(2) by simp
    obtain t2 where t2: "put_node t1 f d = Some t2" "tstate ?N t2 (m(p := d)) A" "tkeep t1 t2" "bt_root t2 = bt_root t1" by (rule put_node_ok [OF L(2,3) len(2)])
    obtain t3 where t3: "unpin_node t2 p True = Some t3" "tstate ?N t3 (m(p := d)) A" "tkeep t2 t3" "bt_root t3 = bt_root t2" by (rule unpin_node_ok [OF t2(2)])
    have K: "tkeep t t3" "bt_root t3 = bt_root t" "holds t3 f p"
      using tkeep_trans [OF L(4) tkeep_trans [OF t2(3) t3(3)]] L(5) t2(4) t3(4) tkeep_holds [OF tkeep_trans [OF t2(3) t3(3)] L(3)] by simp_all
    have N3: "node_data t3 f = Some d" "BP_GetSize d = Some (int (length es) + 1)"
      using node_data_ok(1) [OF t3(2) K(3)] d(2) len(3) by (auto simp: leaf_rep_def dest: node_repD(6))
    let ?grow = "if int (length es) + 1 > lmx t then do { (s, t) \<leftarrow> Split_leaf t3 f; case s of Thrown \<Rightarrow> Some (Thrown, t)
       | Done g \<Rightarrow> do { (s, t) \<leftarrow> InsertIntoParent t f (g, LEAF_PAGE_HEADER_SIZE) g; case s of Thrown \<Rightarrow> Some (Thrown, t) | Done _ \<Rightarrow> Some (Done True, t) } }
     else Some (Done True, t3)"
    have run: "InsertIntoLeaf t key v = ?grow"
      using L(1) N1 look None pg d(1) t2(1) t3(1) N3 tkeep_fields(1) [OF L(4)] tkeep_fields(2) [OF K(1)] by (simp add: InsertIntoLeaf_def)
    have at: "tree_at ?N t m A (plug (PLeaf p es) path)" "btree_ok ?N t m A (plug (PLeaf p es) path)" using ok L(6) by (simp_all add: btree_ok_def)
    have "\<exists>t'. ?grow = Some (Done True, t') \<and> inserted n t m A T key v t'"
    proof (cases "int (length es) + 1 > lmx t")
      case False
      have "tree_at ?N t3 (m(p := d)) A (plug (PLeaf p ?es) path)" by (rule leaf_kept [OF at(1) d(2) hd t3(2) K(1,2)]) (use False len(3) in simp)
      then have "tree_at n t3 (m(p := d)) A (plug (PLeaf p ?es) path)" by (rule tree_at_weaken) simp
      then have "insert_result n t m A (insert INDEX_ROOTS_PAGE_ID (set (tree_pids (plug (PLeaf p es) path)))) (around path (map (Ent \<circ> fst) ?es))
          (left_of path @ ?es @ right_of path) t3"
        unfolding insert_result_def plug_pids_set using K(1)
        by (intro exI [of _ "m(p := d)"] exI [of _ A] exI [of _ "plug (PLeaf p ?es) path"]) (simp add: plug_items plug_entries)
      from split_inserted [OF at(2) key(1) L(7) d(3) this] show ?thesis using False L(6) by auto
    next
      case True
      have full: "int (length ?es) = lmx t + 1" using True size len(3) by simp
      have dp: "n + Suc (length path) \<le> n + depth T + 1" using depth_plug [of path "PLeaf p es"] L(6) by simp
      have at': "tree_at (Suc (n + Suc (length path))) t m A (plug (PLeaf p es) path)" "tstate (Suc (n + Suc (length path))) t3 (m(p := d)) A"
        by (rule tree_at_weaken [OF at(1)] tstate_weaken [OF t3(2)], use dp in simp)+
      obtain t4 g m4 A4 L' k R' as zs where S: "Split_leaf t3 f = Some (Done g, t4)" "split_at (n + Suc (length path)) t4 m4 A4 path L' k R'" "holds t4 f (pid_of L')"
        "holds t4 g (pid_of R')" "slice (m4 (pid_of R')) LEAF_PAGE_HEADER_SIZE (ksz t4) = k" "tkeep t t4" "A \<subseteq> A4" "entries L' @ entries R' = ?es"
        "items L' = map Ent as" "items R' = Ent k # zs" "as \<noteq> []" "map Ent as @ Ent k # zs = map (Ent \<circ> fst) ?es"
        "\<And>x. x \<in> A \<Longrightarrow> x \<notin> insert INDEX_ROOTS_PAGE_ID (set (p # path_pids path)) \<Longrightarrow> m4 x = m x \<and> x \<notin> split_pids path L' R'"
        by (rule leaf_split [OF at'(1) d(2) hd at'(2) K(3,1,2) full], rule that, assumption+)
      have off: "LEAF_PAGE_HEADER_SIZE + ksz t4 \<le> PAGE_SIZE" using M(6) tkeep_fields(1) [OF S(6)] by (simp add: LEAF_PAGE_HEADER_SIZE_def)
      obtain t5 where t5: "InsertIntoParent t4 f (g, LEAF_PAGE_HEADER_SIZE) g = Some (Done (), t5)"
        "insert_result n t4 m4 A4 (split_pids path L' R') (around path (items L' @ Sep k # items R')) (left_of path @ entries L' @ entries R' @ right_of path) t5"
        using InsertIntoParent_ok [OF S(2-5) off] by blast
      have es5: "left_of path @ entries L' @ entries R' @ right_of path = left_of path @ ?es @ right_of path" using S(8) by (metis append.assoc)
      have "insert_result n t m A (insert INDEX_ROOTS_PAGE_ID (set (tree_pids (plug (PLeaf p es) path)))) (around path (items L' @ Sep k # items R'))
          (left_of path @ ?es @ right_of path) t5"
        by (rule insert_result_trans [OF S(6,7) _ t5(2) [unfolded es5]], rule S(13)) (auto simp: plug_pids_set)
      from split_inserted [OF at(2) key(1) L(7) d(3) this] S(9-12) have "inserted n t m A T key v t5" unfolding L(6) by auto
      then show ?thesis using True S(1) t5(1) by simp
    qed
    then show ?thesis unfolding run using None fe by simp
  qed
qed

end
