(* ===== verification/Expressions.thy ===== *)
theory Expressions
  imports Schema_Row
begin

text \<open>
  The expressions of the planner (\<^verbatim>\<open>include/planner/expressions/*.h\<close>): column references, constants,
  comparisons and the connectives \<^verbatim>\<open>and\<close>, \<^verbatim>\<open>or\<close>, with their evaluation on a row and on a pair of rows.
  A thrown \<^verbatim>\<open>std::logic_error\<close> is \<open>Inl Logic_error\<close>; a failed assertion, a null row that is
  dereferenced and a missing field are \<open>Inl Aborted\<close>.

  The properties relate evaluation to three-valued logic: an unknown comparison is stored as the
  integer 2, which a connective takes for false, and for the filters built from \<^verbatim>\<open>and\<close> and \<^verbatim>\<open>or\<close> that
  selects the same rows as three-valued logic does.
\<close>

section \<open>Model\<close>

datatype failure = Logic_error | Aborted

type_synonym 'a attempt = "failure + 'a"

definition of_option :: "'a option \<Rightarrow> 'a attempt" where
  "of_option x = (case x of None \<Rightarrow> Inl Aborted | Some v \<Rightarrow> Inr v)"

definition andthen :: "'a attempt \<Rightarrow> ('a \<Rightarrow> 'b attempt) \<Rightarrow> 'b attempt" where
  "andthen x f = (case x of Inl e \<Rightarrow> Inl e | Inr v \<Rightarrow> f v)"

datatype ExpressionType = LogicExpressionT | ComparisonExpressionT | ColumnExpressionT | ConstantExpressionT

datatype LogicType = And | Or

datatype expression =
  ColumnValueExpression nat nat TypeId
| ConstantValueExpression field
| ComparisonExpression expression expression string
| LogicExpression expression expression LogicType

fun GetType :: "expression \<Rightarrow> ExpressionType" where
  "GetType (ColumnValueExpression _ _ _) = ColumnExpressionT"
| "GetType (ConstantValueExpression _) = ConstantExpressionT"
| "GetType (ComparisonExpression _ _ _) = ComparisonExpressionT"
| "GetType (LogicExpression _ _ _) = LogicExpressionT"

fun GetReturnType :: "expression \<Rightarrow> TypeId" where
  "GetReturnType (ColumnValueExpression _ _ ret_type) = ret_type"
| "GetReturnType (ConstantValueExpression val) = fd_type val"
| "GetReturnType (ComparisonExpression _ _ _) = kTypeInt"
| "GetReturnType (LogicExpression _ _ _) = kTypeInt"

fun GetChildren :: "expression \<Rightarrow> expression list" where
  "GetChildren (ComparisonExpression left right _) = [left, right]"
| "GetChildren (LogicExpression left right _) = [left, right]"
| "GetChildren _ = []"

definition GetChildAt :: "expression \<Rightarrow> nat \<Rightarrow> expression option" where
  "GetChildAt e child_idx = (if child_idx < length (GetChildren e) then Some (GetChildren e ! child_idx) else None)"

text \<open>The constructor of a logic expression checks the types of its children.\<close>

definition LogicExpression_new :: "expression \<Rightarrow> expression \<Rightarrow> LogicType \<Rightarrow> expression attempt" where
  "LogicExpression_new left right logic_type =
     (if GetReturnType left \<noteq> kTypeInt \<or> GetReturnType right \<noteq> kTypeInt then Inl Logic_error
      else Inr (LogicExpression left right logic_type))"

definition Char2Type :: "string \<Rightarrow> LogicType attempt" where
  "Char2Type val = (if val = ''and'' then Inr And else if val = ''or'' then Inr Or else Inl Logic_error)"

text \<open>The value of the enumerator, as \<^verbatim>\<open>Field(kTypeInt, CmpBool)\<close> stores it.\<close>

fun CmpBool_code :: "CmpBool \<Rightarrow> u32" where
  "CmpBool_code kFalse = 0"
| "CmpBool_code kTrue = 1"
| "CmpBool_code kNull = 2"

definition PerformComparison :: "string \<Rightarrow> field \<Rightarrow> field \<Rightarrow> CmpBool attempt" where
  "PerformComparison comp_type lhs rhs =
     (if comp_type = ''='' then of_option (Field_CompareEquals lhs rhs)
      else if comp_type = ''<>'' then of_option (Field_CompareNotEquals lhs rhs)
      else if comp_type = ''<'' then of_option (Field_CompareLessThan lhs rhs)
      else if comp_type = ''<='' then of_option (Field_CompareLessThanEquals lhs rhs)
      else if comp_type = ''>'' then of_option (Field_CompareGreaterThan lhs rhs)
      else if comp_type = ''>='' then of_option (Field_CompareGreaterThanEquals lhs rhs)
      else if comp_type = ''is'' then Inr (GetCmpBool (fd_null lhs))
      else if comp_type = ''not'' then Inr (GetCmpBool (\<not> fd_null lhs))
      else Inl Logic_error)"

text \<open>The result of \<^verbatim>\<open>CompareEquals\<close> is used as a condition: every non-zero enumerator counts as true.\<close>

definition GetFieldAsCmpBool :: "field \<Rightarrow> CmpBool attempt" where
  "GetFieldAsCmpBool val =
     (if fd_null val then Inr kNull
      else andthen (of_option (Field_CompareEquals val (Field_int 1)))
        (\<lambda>c. if CmpBool_code c \<noteq> 0 then Inr kTrue else Inr kFalse))"

definition PerformComputation :: "LogicType \<Rightarrow> field \<Rightarrow> field \<Rightarrow> CmpBool attempt" where
  "PerformComputation logic_type lhs rhs =
     andthen (GetFieldAsCmpBool lhs) (\<lambda>l. andthen (GetFieldAsCmpBool rhs) (\<lambda>r.
       case logic_type of
         And \<Rightarrow> if l = kFalse \<or> r = kFalse then Inr kFalse
                else if l = kTrue \<and> r = kTrue then Inr kTrue else Inr kNull
       | Or \<Rightarrow> if l = kFalse \<and> r = kFalse then Inr kFalse
               else if l = kTrue \<or> r = kTrue then Inr kTrue else Inr kNull))"

fun Evaluate :: "expression \<Rightarrow> row option \<Rightarrow> field attempt" where
  "Evaluate (ColumnValueExpression row_idx col_idx _) row =
     of_option (do { r \<leftarrow> row; f \<leftarrow> GetField r col_idx; Some (Field_copy f) })"
| "Evaluate (ConstantValueExpression val) row = Inr (Field_copy val)"
| "Evaluate (ComparisonExpression left right comp_type) row =
     andthen (Evaluate left row) (\<lambda>lhs. andthen (Evaluate right row) (\<lambda>rhs.
       andthen (PerformComparison comp_type lhs rhs) (\<lambda>c. Inr (Field_int (CmpBool_code c)))))"
| "Evaluate (LogicExpression left right logic_type) row =
     andthen (Evaluate left row) (\<lambda>lhs. andthen (Evaluate right row) (\<lambda>rhs.
       andthen (PerformComputation logic_type lhs rhs) (\<lambda>c. Inr (Field_int (CmpBool_code c)))))"

fun EvaluateJoin :: "expression \<Rightarrow> row option \<Rightarrow> row option \<Rightarrow> field attempt" where
  "EvaluateJoin (ColumnValueExpression row_idx col_idx _) left_row right_row =
     (if row_idx = 0 then of_option (do { r \<leftarrow> left_row; f \<leftarrow> GetField r col_idx; Some (Field_copy f) })
      else of_option (do { r \<leftarrow> right_row; f \<leftarrow> GetField r col_idx; Some (Field_copy f) }))"
| "EvaluateJoin (ConstantValueExpression val) left_row right_row = Inr (Field_copy val)"
| "EvaluateJoin (ComparisonExpression left right comp_type) left_row right_row =
     andthen (EvaluateJoin left left_row right_row) (\<lambda>lhs. andthen (EvaluateJoin right left_row right_row) (\<lambda>rhs.
       andthen (PerformComparison comp_type lhs rhs) (\<lambda>c. Inr (Field_int (CmpBool_code c)))))"
| "EvaluateJoin (LogicExpression left right logic_type) left_row right_row =
     andthen (EvaluateJoin left left_row right_row) (\<lambda>lhs. andthen (EvaluateJoin right left_row right_row) (\<lambda>rhs.
       andthen (PerformComputation logic_type lhs rhs) (\<lambda>c. Inr (Field_int (CmpBool_code c)))))"

text \<open>The test of the scan executors: \<^verbatim>\<open>predicate->Evaluate(p_row).CompareEquals(Field(kTypeInt, 1))\<close>.\<close>

definition predicate_holds :: "expression \<Rightarrow> row \<Rightarrow> bool attempt" where
  "predicate_holds predicate p_row =
     andthen (Evaluate predicate (Some p_row)) (\<lambda>f. andthen (of_option (Field_CompareEquals f (Field_int 1)))
       (\<lambda>c. Inr (CmpBool_code c \<noteq> 0)))"

section \<open>Three-valued logic as the reference\<close>

text \<open>The order of values, independent of the classes that compare them.\<close>

fun value_less :: "field_value \<Rightarrow> field_value \<Rightarrow> bool" where
  "value_less (Integer i) (Integer j) \<longleftrightarrow> sint i < sint j"
| "value_less (Float x) (Float y) \<longleftrightarrow> float_lt x y"
| "value_less (Chars s) (Chars t) \<longleftrightarrow> bytes_less s t"
| "value_less _ _ \<longleftrightarrow> False"

fun value_eq :: "field_value \<Rightarrow> field_value \<Rightarrow> bool" where
  "value_eq (Integer i) (Integer j) \<longleftrightarrow> i = j"
| "value_eq (Float x) (Float y) \<longleftrightarrow> float_eq x y"
| "value_eq (Chars s) (Chars t) \<longleftrightarrow> s = t"
| "value_eq _ _ \<longleftrightarrow> False"

definition order_test :: "string \<Rightarrow> field_value \<Rightarrow> field_value \<Rightarrow> bool" where
  "order_test op v w =
     (if op = ''='' then value_eq v w else if op = ''<>'' then \<not> value_eq v w
      else if op = ''<'' then value_less v w else if op = ''<='' then value_less v w \<or> value_eq v w
      else if op = ''>'' then value_less w v else value_less w v \<or> value_eq w v)"

definition order_operators :: "string set" where
  "order_operators = {''='', ''<>'', ''<'', ''<='', ''>'', ''>=''}"

definition comparison_truth :: "string \<Rightarrow> field \<Rightarrow> field \<Rightarrow> CmpBool" where
  "comparison_truth op l r =
     (if op = ''is'' then GetCmpBool (fd_null l) else if op = ''not'' then GetCmpBool (\<not> fd_null l)
      else if fd_null l \<or> fd_null r then kNull else GetCmpBool (order_test op (fd_value l) (fd_value r)))"

fun kleene :: "LogicType \<Rightarrow> CmpBool \<Rightarrow> CmpBool \<Rightarrow> CmpBool" where
  "kleene And kTrue b = b"
| "kleene And kFalse b = kFalse"
| "kleene And kNull b = (if b = kFalse then kFalse else kNull)"
| "kleene Or kFalse b = b"
| "kleene Or kTrue b = kTrue"
| "kleene Or kNull b = (if b = kTrue then kTrue else kNull)"

fun operand :: "expression \<Rightarrow> row \<Rightarrow> field" where
  "operand (ColumnValueExpression _ i _) r = row_fields r ! i"
| "operand (ConstantValueExpression v) r = v"
| "operand _ r = Field_null kTypeInvalid"

fun truth :: "expression \<Rightarrow> row \<Rightarrow> CmpBool" where
  "truth (ComparisonExpression a b op) r = comparison_truth op (operand a r) (operand b r)"
| "truth (LogicExpression a b lt) r = kleene lt (truth a r) (truth b r)"
| "truth _ r = kFalse"

text \<open>Predicates as the statements build them: connectives over comparisons of columns and constants of one type.\<close>

fun operand_typed :: "schema \<Rightarrow> TypeId \<Rightarrow> expression \<Rightarrow> bool" where
  "operand_typed schema ty (ColumnValueExpression _ i ty') \<longleftrightarrow>
     i < length schema \<and> col_type (schema ! i) = ty \<and> ty' = ty"
| "operand_typed schema ty (ConstantValueExpression v) \<longleftrightarrow> field_ok (ty, fd_null v) v"
| "operand_typed schema ty _ \<longleftrightarrow> False"

fun predicate_typed :: "schema \<Rightarrow> expression \<Rightarrow> bool" where
  "predicate_typed schema (ComparisonExpression a b op) \<longleftrightarrow>
     (\<exists>ty \<in> {kTypeInt, kTypeFloat, kTypeChar}. operand_typed schema ty a \<and> operand_typed schema ty b) \<and>
     op \<in> order_operators \<union> {''is'', ''not''}"
| "predicate_typed schema (LogicExpression a b lt) \<longleftrightarrow> predicate_typed schema a \<and> predicate_typed schema b"
| "predicate_typed schema _ \<longleftrightarrow> False"

lemma andthen_simps [simp]: "andthen (Inr v) f = f v" "andthen (Inl e) f = Inl e"
  by (simp_all add: andthen_def)

lemma of_option_simps [simp]: "of_option (Some v) = Inr v" "of_option None = Inl Aborted"
  by (simp_all add: of_option_def)

lemma Field_copy_id [simp]: "Field_copy f = f"
  by (simp add: Field_copy_def)

lemma float_order: "float_ne x y = (\<not> float_eq x y)" "float_le x y = (float_lt x y \<or> float_eq x y)"
  "float_gt x y = float_lt y x" "float_ge x y = (float_lt y x \<or> float_eq y x)"
  by (simp_all add: float_ne_def float_le_def float_gt_def float_ge_def)

lemma sint_eq_iff: "sint i = sint j \<longleftrightarrow> i = (j :: u32)"
  by (auto intro: signed_word_eqI)

lemma sint_eq_1: "sint c = 1 \<longleftrightarrow> c = (1 :: u32)"
  using sint_eq_iff [of c 1] by simp

lemma int_comparison:
  "op \<in> order_operators \<Longrightarrow>
   PerformComparison op (Field_int i) (Field_int j) = Inr (GetCmpBool (order_test op (Integer i) (Integer j)))"
  unfolding order_operators_def
  by (elim insertE emptyE; simp add: PerformComparison_def order_test_def field_compare_defs type_compare_defs
      compare_with_def Field_int_def ensure_def CheckComparable_def le_less disj_commute eq_commute [of j] sint_eq_iff)

lemma float_comparison:
  "op \<in> order_operators \<Longrightarrow>
   PerformComparison op (Field_float i) (Field_float j) = Inr (GetCmpBool (order_test op (Float i) (Float j)))"
  unfolding order_operators_def
  by (elim insertE emptyE; simp add: PerformComparison_def order_test_def field_compare_defs type_compare_defs
      compare_with_def Field_float_def ensure_def CheckComparable_def float_order)

lemma char_comparison:
  assumes "op \<in> order_operators" "length s < VARCHAR_MAX_LEN" "length t < VARCHAR_MAX_LEN"
  shows "PerformComparison op (char_field s) (char_field t) = Inr (GetCmpBool (order_test op (Chars s) (Chars t)))"
  using assms(1) unfolding order_operators_def
  by (elim insertE emptyE; simp add: char_compare_lexicographic [OF assms(2,3)] PerformComparison_def order_test_def
      eq_commute [of t])

lemma order_comparison:
  assumes ok: "field_ok (ty, fd_null l) l" "field_ok (ty, fd_null r) r" and op: "op \<in> order_operators"
  shows "PerformComparison op l r =
    Inr (if fd_null l \<or> fd_null r then kNull else GetCmpBool (order_test op (fd_value l) (fd_value r)))"
proof (cases "fd_null l \<or> fd_null r")
  case True
  have ty: "fd_type l = ty" "fd_type r = ty" "ty \<noteq> kTypeInvalid" using ok by (auto simp: field_ok_def)
  have "cmp l r = Some kNull" if "cmp \<in> {Field_CompareEquals, Field_CompareNotEquals, Field_CompareLessThan,
      Field_CompareLessThanEquals, Field_CompareGreaterThan, Field_CompareGreaterThanEquals}" for cmp
    using null_and_mismatch_comparison [OF _ that, of l r] ty True by simp
  note null = this
  show ?thesis using op True unfolding order_operators_def
    by (elim insertE emptyE; simp add: PerformComparison_def null)
next
  case False
  then have ok': "field_ok (ty, False) l" "field_ok (ty, False) r" using ok by simp_all
  from ok'(1) show ?thesis
  proof (cases rule: field_ok_cases)
    case (Int i)
    obtain j where "r = Field_int j" using ok'(2) Int by (cases rule: field_ok_cases) auto
    with Int int_comparison [OF op] show ?thesis by (simp add: Field_int_def)
  next
    case (Flt i)
    obtain j where "r = Field_float j" using ok'(2) Flt by (cases rule: field_ok_cases) auto
    with Flt float_comparison [OF op] show ?thesis by (simp add: Field_float_def)
  next
    case (Char s)
    obtain t where "r = char_field t" "length t < VARCHAR_MAX_LEN"
      using ok'(2) Char by (cases rule: field_ok_cases) (auto simp: char_field_def)
    with Char char_comparison [OF op, of s t] show ?thesis by (simp add: char_field_def)
  qed simp
qed

lemma operand_evaluates:
  assumes "operand_typed schema ty a" "row_ok schema rid r"
  shows "Evaluate a (Some r) = Inr (operand a r)" "field_ok (ty, fd_null (operand a r)) (operand a r)"
  using assms by (cases a; auto simp: row_ok_def GetField_def)+

lemma comparison_evaluates:
  assumes "predicate_typed schema (ComparisonExpression a b op)" "row_ok schema rid r"
  shows "Evaluate (ComparisonExpression a b op) (Some r) =
    Inr (Field_int (CmpBool_code (truth (ComparisonExpression a b op) r)))"
proof -
  obtain ty where a: "operand_typed schema ty a" and b: "operand_typed schema ty b" using assms(1) by auto
  have "PerformComparison op (operand a r) (operand b r) = Inr (comparison_truth op (operand a r) (operand b r))"
  proof (cases "op \<in> order_operators")
    case True
    then have "op \<noteq> ''is''" "op \<noteq> ''not''" by (auto simp: order_operators_def)
    then show ?thesis
      using order_comparison [OF operand_evaluates(2) [OF a assms(2)] operand_evaluates(2) [OF b assms(2)] True]
      by (simp add: comparison_truth_def)
  next
    case False
    then show ?thesis using assms(1) by (auto simp: PerformComparison_def comparison_truth_def)
  qed
  then show ?thesis using operand_evaluates(1) [OF a assms(2)] operand_evaluates(1) [OF b assms(2)] by simp
qed

text \<open>What a connective makes of a stored truth value: the unknown value 2 counts as false.\<close>

lemma GetFieldAsCmpBool_int: "GetFieldAsCmpBool (Field_int c) = Inr (if c = 1 then kTrue else kFalse)"
  by (auto simp: GetFieldAsCmpBool_def Field_CompareEquals_def TypeInt_CompareEquals_def compare_with_def Field_int_def
      ensure_def CheckComparable_def GetCmpBool_def sint_eq_1)

lemma predicate_evaluates:
  assumes "predicate_typed schema e" "row_ok schema rid r"
  shows "\<exists>c. Evaluate e (Some r) = Inr (Field_int (CmpBool_code c)) \<and> (c = kTrue \<longleftrightarrow> truth e r = kTrue)"
  using assms(1)
proof (induction e)
  case (ComparisonExpression a b op)
  show ?case using comparison_evaluates [OF ComparisonExpression.prems assms(2)] by blast
next
  case (LogicExpression a b lt)
  then obtain c d where
    c: "Evaluate a (Some r) = Inr (Field_int (CmpBool_code c))" "c = kTrue \<longleftrightarrow> truth a r = kTrue" and
    d: "Evaluate b (Some r) = Inr (Field_int (CmpBool_code d))" "d = kTrue \<longleftrightarrow> truth b r = kTrue" by auto
  have code: "CmpBool_code x = 1 \<longleftrightarrow> x = kTrue" for x by (cases x) auto
  show ?case
    by (cases lt; cases "truth a r"; cases "truth b r")
      (use c d in \<open>auto simp: PerformComputation_def GetFieldAsCmpBool_int code intro: exI [of _ kTrue] exI [of _ kFalse]\<close>)
qed simp_all

text \<open>The test of the scan executors on a typed predicate.\<close>

lemma predicate_holds_truth:
  assumes "predicate_typed schema e" "row_ok schema rid r"
  shows "predicate_holds e r = Inr (truth e r = kTrue)"
proof -
  obtain c where "Evaluate e (Some r) = Inr (Field_int (CmpBool_code c))" "c = kTrue \<longleftrightarrow> truth e r = kTrue"
    using predicate_evaluates [OF assms] by blast
  then show ?thesis
    by (cases c) (simp_all add: predicate_holds_def Field_CompareEquals_def TypeInt_CompareEquals_def compare_with_def
        Field_int_def ensure_def CheckComparable_def GetCmpBool_def)
qed

definition unknown_test :: expression where
  "unknown_test = ComparisonExpression (ColumnValueExpression 0 0 kTypeInt) (ConstantValueExpression (Field_int 5)) ''=''"

section \<open>Properties\<close>

text \<open>
  C32: on a row of the schema, a predicate built from \<^verbatim>\<open>and\<close> and \<^verbatim>\<open>or\<close> over typed comparisons always
  evaluates, and the test of the scan executors accepts the row exactly when the predicate is true
  in three-valued logic, although evaluation replaces unknown by false below every connective.
\<close>

theorem filter_is_three_valued:
  assumes "predicate_typed schema e" "row_ok schema rid r"
  shows "predicate_holds e r = Inr (truth e r = kTrue)"
  by (rule predicate_holds_truth [OF assms])

theorem filter_is_three_valued_witness:
  "predicate_holds (LogicExpression (ComparisonExpression (ColumnValueExpression 0 0 kTypeInt) (ConstantValueExpression (Field_int 5)) ''<'')
       (ComparisonExpression (ColumnValueExpression 0 1 kTypeInt) (ConstantValueExpression (Field_int 5)) ''='') Or)
     (Row_new [Field_int 3, Field_null kTypeInt]) = Inr True"
proof -
  let ?e = "LogicExpression (ComparisonExpression (ColumnValueExpression 0 0 kTypeInt) (ConstantValueExpression (Field_int 5)) ''<'')
       (ComparisonExpression (ColumnValueExpression 0 1 kTypeInt) (ConstantValueExpression (Field_int 5)) ''='') Or"
  let ?c = "\<lparr>col_name = [97], col_type = kTypeInt, col_len = 4, col_table_ind = 0, col_nullable = True, col_unique = False\<rparr>"
  let ?r = "Row_new [Field_int 3, Field_null kTypeInt]"
  have "predicate_typed [?c, ?c] ?e" by (simp add: field_ok_def Field_int_def order_operators_def)
  moreover have "row_ok [?c, ?c] (row_rid ?r) ?r"
    by (auto simp: row_ok_def Row_new_def field_ok_def Field_int_def Field_null_def less_Suc_eq)
  ultimately have "predicate_holds ?e ?r = Inr (truth ?e ?r = kTrue)" by (rule filter_is_three_valued)
  also have "truth ?e ?r = kTrue"
    by (simp add: comparison_truth_def order_test_def Row_new_def Field_int_def Field_null_def GetCmpBool_def)
  finally show ?thesis by simp
qed

text \<open>
  The value that a connective returns is not the three-valued one: over a null column the
  disjunction of two unknown comparisons evaluates to 0 (false), where a comparison alone evaluates
  to 2 (unknown).
\<close>

theorem connective_forgets_unknown:
  "Evaluate unknown_test (Some (Row_new [Field_null kTypeInt])) = Inr (Field_int 2) \<and>
   truth (LogicExpression unknown_test unknown_test Or) (Row_new [Field_null kTypeInt]) = kNull \<and>
   Evaluate (LogicExpression unknown_test unknown_test Or) (Some (Row_new [Field_null kTypeInt])) = Inr (Field_int 0)"
  by (simp add: unknown_test_def GetField_def PerformComparison_def PerformComputation_def GetFieldAsCmpBool_int
      comparison_truth_def Field_CompareEquals_def TypeInt_CompareEquals_def compare_with_def ensure_def
      CheckComparable_def Row_new_def Field_null_def Field_int_def [of 5])

end
