(* ===== verification/Syntax_Tree.thy ===== *)
theory Syntax_Tree
  imports Prelude
begin

text \<open>
  The abstract syntax tree the parser hands to the planner (\<^verbatim>\<open>include/parser/syntax_tree.h\<close>,
  \<^verbatim>\<open>parser/syntax_tree.c\<close>). A node holds its first child and its next sibling, as the struct does;
  nodes are values, so a node that hangs below two parents is not modelled. The globals of the parser
  that \<^verbatim>\<open>CreateSyntaxNode\<close> reads and writes are the record \<open>parser_globals\<close>; its list of all allocated
  nodes is a list of node ids. Writes past the end of an allocated block are \<^term>\<open>None\<close>.
\<close>

section \<open>Model\<close>

datatype SyntaxNodeType =
  kNodeUnknown | kNodeQuit | kNodeExecFile | kNodeIdentifier | kNodeNumber | kNodeString
| kNodeNull | kNodeCreateDB | kNodeDropDB | kNodeShowDB | kNodeUseDB
| kNodeShowTables | kNodeCreateTable | kNodeDropTable | kNodeShowIndexes | kNodeInsert
| kNodeDelete | kNodeUpdate | kNodeSelect | kNodeConditions | kNodeConnector
| kNodeCompareOperator | kNodeColumnType | kNodeColumnDefinition | kNodeColumnDefinitionList | kNodeColumnList
| kNodeColumnValues | kNodeUpdateValues | kNodeUpdateValue | kNodeAllColumns | kNodeCreateIndex
| kNodeDropIndex | kNodeIndexType | kNodeTrxBegin | kNodeTrxCommit | kNodeTrxRollback

datatype syntax_node =
  SyntaxNode (sn_id: int) (sn_type: SyntaxNodeType) (sn_line_no: int) (sn_col_no: int)
    (sn_child: "syntax_node option") (sn_next: "syntax_node option") (sn_val: "string option")

record parser_globals =
  pg_line_no :: int
  pg_column_no :: int
  pg_debug_node_count :: int
  pg_syntax_node_list :: "int list"
  pg_root_node :: "syntax_node option"
  pg_error :: int
  pg_error_message :: "string option"
  pg_reports :: "(int \<times> int \<times> string) list"
  pg_blocks :: "nat list"

text \<open>
  Blocks of \<^verbatim>\<open>malloc\<close>; a string is read up to its terminator. The allocator is a parameter: \<open>usable n\<close> is the number of bytes that may be written in the block
  that a request of \<open>n\<close> bytes returns, and all that is documented of it is that they are at least \<open>n\<close>.
\<close>

type_synonym allocator = "nat \<Rightarrow> nat"

definition malloc_ok :: "allocator \<Rightarrow> bool" where "malloc_ok usable \<longleftrightarrow> (\<forall>n. n \<le> usable n)"

definition malloc_chars :: "allocator \<Rightarrow> nat \<Rightarrow> string" where "malloc_chars usable n = replicate (usable n) CHR 0x00"

definition store_char :: "string \<Rightarrow> nat \<Rightarrow> char \<Rightarrow> string option" where
  "store_char b i c = (if i < length b then Some (b[i := c]) else None)"

definition copy_chars :: "string \<Rightarrow> string \<Rightarrow> string option" where
  "copy_chars b src = (if length src \<le> length b then Some (src @ drop (length src) b) else None)"

definition c_string :: "string \<Rightarrow> string" where "c_string b = takeWhile (\<lambda>c. c \<noteq> CHR 0x00) b"

text \<open>\<^verbatim>\<open>strlen(val) - 1\<close> and \<^verbatim>\<open>len - 1\<close> wrap for strings of less than two characters; the copy is then undefined.\<close>

definition copy_value :: "allocator \<Rightarrow> SyntaxNodeType \<Rightarrow> string \<Rightarrow> string option" where
  "copy_value usable ty val =
     (if ty = kNodeString then do {
        ensure (2 \<le> length val);
        let len = length val - 1;
        b \<leftarrow> copy_chars (malloc_chars usable len) (take (len - 1) (drop 1 val));
        b \<leftarrow> store_char b (len - 1) CHR 0x00;
        Some (c_string b) }
      else do {
        let len = length val + 1;
        b \<leftarrow> copy_chars (malloc_chars usable len) (val @ [CHR 0x00]);
        b \<leftarrow> store_char b len CHR 0x00;
        Some (c_string b) })"

text \<open>
  The terminator of a value that is not a string is stored at \<^verbatim>\<open>val_[len]\<close>, the byte behind the \<^verbatim>\<open>len\<close> bytes that were asked for. \<open>pg_blocks\<close> collects the sizes of
  these blocks; the program does not have it.
\<close>

definition overrun :: "SyntaxNodeType \<Rightarrow> string option \<Rightarrow> nat list" where
  "overrun ty val = (case val of Some s \<Rightarrow> if ty = kNodeString then [] else [length s + 1] | None \<Rightarrow> [])"

definition CreateSyntaxNode ::
    "allocator \<Rightarrow> SyntaxNodeType \<Rightarrow> string option \<Rightarrow> parser_globals \<Rightarrow> (syntax_node \<times> parser_globals) option" where
  "CreateSyntaxNode usable ty val g = do {
     v \<leftarrow> (case val of Some s \<Rightarrow> map_option Some (copy_value usable ty s) | None \<Rightarrow> Some None);
     let i = pg_debug_node_count g;
     Some (SyntaxNode i ty (pg_line_no g) (pg_column_no g) None None v,
       g\<lparr>pg_debug_node_count := i + 1,
         pg_syntax_node_list := i # pg_syntax_node_list g,
         pg_blocks := overrun ty val @ pg_blocks g\<rparr>) }"

definition DestroySyntaxTree :: "parser_globals \<Rightarrow> parser_globals" where
  "DestroySyntaxTree g = g\<lparr>pg_syntax_node_list := []\<rparr>"

text \<open>The walk to the last sibling.\<close>

fun append_sibling :: "syntax_node \<Rightarrow> syntax_node option \<Rightarrow> syntax_node" where
  "append_sibling (SyntaxNode i ty l c ch None v) child = SyntaxNode i ty l c ch child v"
| "append_sibling (SyntaxNode i ty l c ch (Some p) v) child = SyntaxNode i ty l c ch (Some (append_sibling p child)) v"

fun SyntaxNodeAddChildren :: "syntax_node \<Rightarrow> syntax_node option \<Rightarrow> syntax_node" where
  "SyntaxNodeAddChildren (SyntaxNode i ty l c None n v) child = SyntaxNode i ty l c child n v"
| "SyntaxNodeAddChildren (SyntaxNode i ty l c (Some p) n v) child = SyntaxNode i ty l c (Some (append_sibling p child)) n v"

fun SyntaxNodeAddSibling :: "syntax_node option \<Rightarrow> syntax_node option \<Rightarrow> syntax_node option" where
  "SyntaxNodeAddSibling None sib = None"
| "SyntaxNodeAddSibling (Some node) None = Some node"
| "SyntaxNodeAddSibling (Some (SyntaxNode i ty l c ch None v)) (Some sib) = Some (SyntaxNode i ty l c ch (Some sib) v)"
| "SyntaxNodeAddSibling (Some (SyntaxNode i ty l c ch (Some p) v)) (Some sib) =
     Some (SyntaxNode i ty l c ch (Some (append_sibling p (Some sib))) v)"

subsection \<open>The parser's state\<close>

text \<open>The text is a C string: its length is taken up to the terminator. The first argument is not used.\<close>

fun move_pos :: "string \<Rightarrow> parser_globals \<Rightarrow> parser_globals" where
  "move_pos [] g = g"
| "move_pos (ch # cs) g = move_pos cs
     (if ch = CHR 0x0A then g\<lparr>pg_column_no := 0, pg_line_no := pg_line_no g + 1\<rparr>
      else if ch = CHR 0x09 then g\<lparr>pg_column_no := pg_column_no g + (4 - pg_column_no g mod 4)\<rparr>
      else g\<lparr>pg_column_no := pg_column_no g + 1\<rparr>)"

definition MinisqlParserMovePos :: "int \<Rightarrow> string \<Rightarrow> parser_globals \<Rightarrow> parser_globals" where
  "MinisqlParserMovePos line s g = move_pos (c_string s) g"

definition MinisqlParserSetRoot :: "syntax_node option \<Rightarrow> parser_globals \<Rightarrow> parser_globals" where
  "MinisqlParserSetRoot node g = g\<lparr>pg_root_node := node\<rparr>"

text \<open>What is printed of an error, with its line and column, is added to \<open>pg_reports\<close>. The message that there is a message already is not: it needs an error that is not set.\<close>

definition MinisqlParserSetError :: "string \<Rightarrow> parser_globals \<Rightarrow> parser_globals" where
  "MinisqlParserSetError msg g =
     (if pg_error g \<noteq> 0 then g
      else g\<lparr>pg_error := 1, pg_reports := pg_reports g @ [(pg_line_no g, pg_column_no g, msg)], pg_error_message := Some msg\<rparr>)"

definition MinisqlParserInit :: "parser_globals \<Rightarrow> parser_globals" where
  "MinisqlParserInit g = g\<lparr>pg_root_node := None, pg_line_no := 1, pg_column_no := 0, pg_error := 0,
     pg_error_message := None, pg_debug_node_count := 0\<rparr>"

definition MinisqlParserFinish :: "parser_globals \<Rightarrow> parser_globals" where
  "MinisqlParserFinish g = DestroySyntaxTree g"

fun GetSyntaxNodeTypeStr :: "SyntaxNodeType \<Rightarrow> string" where
  "GetSyntaxNodeTypeStr kNodeUnknown = ''kNodeUnknown''"
| "GetSyntaxNodeTypeStr kNodeQuit = ''kNodeQuit''"
| "GetSyntaxNodeTypeStr kNodeExecFile = ''kNodeExecFile''"
| "GetSyntaxNodeTypeStr kNodeIdentifier = ''kNodeIdentifier''"
| "GetSyntaxNodeTypeStr kNodeNumber = ''kNodeNumber''"
| "GetSyntaxNodeTypeStr kNodeString = ''kNodeString''"
| "GetSyntaxNodeTypeStr kNodeNull = ''kNodeNull''"
| "GetSyntaxNodeTypeStr kNodeCreateDB = ''kNodeCreateDB''"
| "GetSyntaxNodeTypeStr kNodeDropDB = ''kNodeDropDB''"
| "GetSyntaxNodeTypeStr kNodeShowDB = ''kNodeShowDB''"
| "GetSyntaxNodeTypeStr kNodeUseDB = ''kNodeUseDB''"
| "GetSyntaxNodeTypeStr kNodeShowTables = ''kNodeShowTables''"
| "GetSyntaxNodeTypeStr kNodeCreateTable = ''kNodeCreateTable''"
| "GetSyntaxNodeTypeStr kNodeDropTable = ''kNodeDropTable''"
| "GetSyntaxNodeTypeStr kNodeShowIndexes = ''kNodeShowIndexes''"
| "GetSyntaxNodeTypeStr kNodeInsert = ''kNodeInsert''"
| "GetSyntaxNodeTypeStr kNodeDelete = ''kNodeDelete''"
| "GetSyntaxNodeTypeStr kNodeUpdate = ''kNodeUpdate''"
| "GetSyntaxNodeTypeStr kNodeSelect = ''kNodeSelect''"
| "GetSyntaxNodeTypeStr kNodeConditions = ''kNodeConditions''"
| "GetSyntaxNodeTypeStr kNodeConnector = ''kNodeConnector''"
| "GetSyntaxNodeTypeStr kNodeCompareOperator = ''kNodeCompareOperator''"
| "GetSyntaxNodeTypeStr kNodeColumnType = ''kNodeColumnType''"
| "GetSyntaxNodeTypeStr kNodeColumnDefinition = ''kNodeColumnDefinition''"
| "GetSyntaxNodeTypeStr kNodeColumnDefinitionList = ''kNodeColumnDefinitionList''"
| "GetSyntaxNodeTypeStr kNodeColumnList = ''kNodeColumnList''"
| "GetSyntaxNodeTypeStr kNodeColumnValues = ''kNodeColumnValues''"
| "GetSyntaxNodeTypeStr kNodeUpdateValues = ''kNodeUpdateValues''"
| "GetSyntaxNodeTypeStr kNodeUpdateValue = ''kNodeUpdateValue''"
| "GetSyntaxNodeTypeStr kNodeAllColumns = ''kNodeAllColumns''"
| "GetSyntaxNodeTypeStr kNodeCreateIndex = ''kNodeCreateIndex''"
| "GetSyntaxNodeTypeStr kNodeDropIndex = ''kNodeDropIndex''"
| "GetSyntaxNodeTypeStr kNodeIndexType = ''error type''"
| "GetSyntaxNodeTypeStr kNodeTrxBegin = ''kNodeTrxBegin''"
| "GetSyntaxNodeTypeStr kNodeTrxCommit = ''kNodeTrxCommit''"
| "GetSyntaxNodeTypeStr kNodeTrxRollback = ''kNodeTrxRollback''"

text \<open>What the globals say of errors; most operations leave it alone.\<close>

definition pg_errors :: "parser_globals \<Rightarrow> int \<times> string option \<times> (int \<times> int \<times> string) list" where
  "pg_errors g = (pg_error g, pg_error_message g, pg_reports g)"

lemma pg_errors_simps [simp]:
  "pg_errors (g\<lparr>pg_line_no := l\<rparr>) = pg_errors g" "pg_errors (g\<lparr>pg_column_no := l\<rparr>) = pg_errors g" "pg_errors (g\<lparr>pg_root_node := n\<rparr>) = pg_errors g"
  "pg_errors (g\<lparr>pg_debug_node_count := l\<rparr>) = pg_errors g" "pg_errors (g\<lparr>pg_syntax_node_list := ns\<rparr>) = pg_errors g"
  "pg_errors (g\<lparr>pg_blocks := bs\<rparr>) = pg_errors g"
  by (simp_all add: pg_errors_def)

section \<open>The ordered tree a node stands for\<close>

datatype ast = Ast SyntaxNodeType "string option" "ast list"

fun siblings :: "syntax_node \<Rightarrow> ast list" where
  "siblings (SyntaxNode i ty l c ch n v) =
     Ast ty v (case ch of None \<Rightarrow> [] | Some x \<Rightarrow> siblings x) # (case n of None \<Rightarrow> [] | Some x \<Rightarrow> siblings x)"

definition forest :: "syntax_node option \<Rightarrow> ast list" where
  "forest n = (case n of None \<Rightarrow> [] | Some x \<Rightarrow> siblings x)"

lemma siblings_append: "siblings (append_sibling n s) = siblings n @ forest s"
  by (induction n s rule: append_sibling.induct) (simp_all add: forest_def)

lemma c_string_take:
  assumes "CHR 0x00 \<notin> set s"
  shows "c_string (s @ [CHR 0x00]) = s"
proof -
  have "takeWhile (\<lambda>c. c \<noteq> CHR 0x00) (s @ [CHR 0x00]) = s @ takeWhile (\<lambda>c. c \<noteq> CHR 0x00) [CHR 0x00]"
    using assms by (intro takeWhile_append2) auto
  then show ?thesis by (simp add: c_string_def)
qed

section \<open>Properties\<close>

text \<open>
  Adding a child to a node puts the tree of the child, with its siblings, after the children that
  are already there, and adding a sibling puts it after the last sibling; nothing else changes, and a
  null argument changes nothing.
\<close>

theorem syntax_tree_append:
  "siblings (SyntaxNodeAddChildren n child) =
     (case siblings n of Ast ty v cs # rest \<Rightarrow> Ast ty v (cs @ forest child) # rest | [] \<Rightarrow> []) \<and>
   forest (SyntaxNodeAddSibling node sib) = (if node = None then [] else forest node @ forest sib)"
proof
  show "siblings (SyntaxNodeAddChildren n child) =
     (case siblings n of Ast ty v cs # rest \<Rightarrow> Ast ty v (cs @ forest child) # rest | [] \<Rightarrow> [])"
    by (cases "(n, child)" rule: SyntaxNodeAddChildren.cases) (simp_all add: siblings_append forest_def)
  show "forest (SyntaxNodeAddSibling node sib) = (if node = None then [] else forest node @ forest sib)"
    by (cases "(node, sib)" rule: SyntaxNodeAddSibling.cases) (simp_all add: siblings_append forest_def)
qed

lemma c_string_stop: "c_string (s @ CHR 0x00 # r) = c_string s"
  unfolding c_string_def by (induction s) auto

lemma c_string_id: "CHR 0x00 \<notin> set s \<Longrightarrow> c_string s = s"
  unfolding c_string_def by (induction s) auto

lemma c_string_block: "c_string ((s @ replicate (Suc n) CHR 0x00)[i := CHR 0x00]) = c_string s" if "length s \<le> i"
proof -
  have "(replicate (Suc n) CHR 0x00)[j := CHR 0x00] = replicate (Suc n) CHR 0x00" for j
    by (metis list_update_beyond list_update_id not_le_imp_less nth_replicate length_replicate)
  then show ?thesis using that by (simp add: list_update_append c_string_stop)
qed

text \<open>The text between the quotes is copied into a block of its size.\<close>

lemma copy_value_string:
  assumes "malloc_ok usable"
  shows "copy_value usable kNodeString s = (if 2 \<le> length s then Some (c_string (take (length s - 2) (drop 1 s))) else None)"
proof -
  obtain k where k: "usable (length s - 1) = length s - 1 + k" using assms by (metis malloc_ok_def le_iff_add)
  show ?thesis
  proof (cases "2 \<le> length s")
    case True
    then obtain m where "length s = Suc (Suc m)" by (metis add_2_eq_Suc le_iff_add)
    moreover have "drop m (CHR 0x00 # replicate (m + k) CHR 0x00) = CHR 0x00 # replicate k CHR 0x00" by (induction m) simp_all
    ultimately show ?thesis
      using k c_string_block [of "take m (drop 1 s)" m k] by (simp add: copy_value_def copy_chars_def malloc_chars_def store_char_def)
  qed (simp add: copy_value_def)
qed

text \<open>Any other value needs a byte that was not asked for.\<close>

lemma copy_value_other:
  assumes "ty \<noteq> kNodeString" "malloc_ok usable"
  shows "copy_value usable ty s = (if length s + 1 < usable (length s + 1) then Some (c_string s) else None)"
proof -
  obtain k where k: "usable (Suc (length s)) = Suc (length s) + k" using assms(2) by (metis malloc_ok_def le_iff_add)
  then show ?thesis
    using assms(1) c_string_block [of s "Suc (length s)" k] by (simp add: copy_value_def copy_chars_def malloc_chars_def store_char_def)
qed

text \<open>An allocator that leaves room behind every block. On it nothing is overrun; what the parser does with another one is reduced to this.\<close>

definition roomy :: "nat \<Rightarrow> allocator" where "roomy slack n = n + Suc slack"

lemma malloc_ok_roomy [simp]: "malloc_ok (roomy slack)"
  by (simp add: malloc_ok_def roomy_def)

lemma copy_value_roomy: "CHR 0x00 \<notin> set s \<Longrightarrow> ty \<noteq> kNodeString \<Longrightarrow> copy_value (roomy slack) ty s = Some s"
  by (simp add: copy_value_other c_string_id) (simp add: roomy_def)

text \<open>Two allocators that keep the contract: one that gives exactly what is asked for, and one that gives whole words.\<close>

definition whole_words :: allocator where "whole_words n = (n + 7) div 8 * 8"

lemma malloc_ok_examples [simp]: "malloc_ok id" "malloc_ok whole_words"
proof -
  have "n \<le> (n + 7) div 8 * 8" for n :: nat by presburger
  then show "malloc_ok id" "malloc_ok whole_words" by (simp_all add: malloc_ok_def whole_words_def)
qed

text \<open>
  A string node gets the text between its quotes; a node of any other type gets its value when the block has a byte more than was asked for, and is undefined
  otherwise.
\<close>

theorem create_node_value:
  assumes "CHR 0x00 \<notin> set s" "malloc_ok usable"
  shows "(\<exists>n g'. CreateSyntaxNode usable kNodeString (Some (q # s @ [q'])) g = Some (n, g') \<and> siblings n = [Ast kNodeString (Some s) []]) \<and>
    (ty \<noteq> kNodeString \<longrightarrow> (if length s + 1 < usable (length s + 1)
      then \<exists>n g'. CreateSyntaxNode usable ty (Some s) g = Some (n, g') \<and> siblings n = [Ast ty (Some s) []]
      else CreateSyntaxNode usable ty (Some s) g = None))"
  using assms by (simp add: CreateSyntaxNode_def Let_def copy_value_string copy_value_other c_string_id)

theorem create_node_value_witness:
  "(\<exists>n g'. CreateSyntaxNode id kNodeString (Some (CHR 0x22 # ''ab'' @ [CHR 0x22])) \<lparr>pg_line_no = 1, pg_column_no = 1,
      pg_debug_node_count = 0, pg_syntax_node_list = [], pg_root_node = None, pg_error = 0, pg_error_message = None, pg_reports = [], pg_blocks = []\<rparr> = Some (n, g') \<and>
      siblings n = [Ast kNodeString (Some ''ab'') []]) \<and>
   CreateSyntaxNode id kNodeIdentifier (Some ''ab'') \<lparr>pg_line_no = 1, pg_column_no = 1,
      pg_debug_node_count = 0, pg_syntax_node_list = [], pg_root_node = None, pg_error = 0, pg_error_message = None, pg_reports = [], pg_blocks = []\<rparr> = None"
  using create_node_value [of "''ab''" id "CHR 0x22" "CHR 0x22" "\<lparr>pg_line_no = 1, pg_column_no = 1,
      pg_debug_node_count = 0, pg_syntax_node_list = [], pg_root_node = None, pg_error = 0, pg_error_message = None, pg_reports = [], pg_blocks = []\<rparr>" kNodeIdentifier]
  by auto

end
