(* ===== verification/Catalog_Meta.thy ===== *)
theory Catalog_Meta
  imports Schema_Row
begin

text \<open>
  The catalog's records on disk: \<^verbatim>\<open>CatalogMeta\<close> (\<^verbatim>\<open>include/catalog/catalog.h\<close>, \<^verbatim>\<open>catalog/catalog.cpp\<close>),
  \<^verbatim>\<open>TableMetadata\<close> (\<^verbatim>\<open>catalog/table.cpp\<close>) and \<^verbatim>\<open>IndexMetadata\<close> (\<^verbatim>\<open>catalog/indexes.cpp\<close>). The two \<^verbatim>\<open>std::map\<close>s of
  \<^verbatim>\<open>CatalogMeta\<close> are association lists in the order of their keys. The serializers return the buffer with
  the number of bytes written, the deserializers the object with the number of bytes read; each pair is an
  instance of the \<open>codec\<close> contract.
\<close>

section \<open>Ordered maps\<close>

text \<open>\<^verbatim>\<open>m[k] = v\<close> and \<^verbatim>\<open>m.emplace(k, v)\<close>.\<close>

fun map_put :: "'k::linorder \<Rightarrow> 'v \<Rightarrow> ('k \<times> 'v) list \<Rightarrow> ('k \<times> 'v) list" where
  "map_put k v [] = [(k, v)]"
| "map_put k v ((k', v') # m) =
     (if k < k' then (k, v) # (k', v') # m else if k = k' then (k, v) # m else (k', v') # map_put k v m)"

definition map_emplace :: "'k::linorder \<Rightarrow> 'v \<Rightarrow> ('k \<times> 'v) list \<Rightarrow> ('k \<times> 'v) list" where
  "map_emplace k v m = (if map_of m k = None then map_put k v m else m)"

definition map_ordered :: "('k::linorder \<times> 'v) list \<Rightarrow> bool" where
  "map_ordered m \<longleftrightarrow> sorted_wrt (<) (map fst m)"

section \<open>Model\<close>

definition put_pair :: "u32 \<times> int \<Rightarrow> buffer \<Rightarrow> nat \<Rightarrow> (buffer \<times> nat) option" where
  "put_pair kv b off = do {
     b \<leftarrow> put_u32 b off (fst kv);
     b \<leftarrow> put_u32 b (off + 4) (word_of_int (snd kv));
     Some (b, 8) }"

definition get_pair :: "buffer \<Rightarrow> nat \<Rightarrow> ((u32 \<times> int) \<times> nat) option" where
  "get_pair b off = do {
     k \<leftarrow> get_u32 b off;
     v \<leftarrow> get_u32 b (off + 4);
     Some ((k, sint v), 8) }"

definition CATALOG_METADATA_MAGIC_NUM :: u32 where "CATALOG_METADATA_MAGIC_NUM = 89849"

record catalog_meta =
  table_meta_pages :: "(u32 \<times> int) list"
  index_meta_pages :: "(u32 \<times> int) list"

definition CatalogMeta_new :: catalog_meta where
  "CatalogMeta_new = \<lparr>table_meta_pages = [], index_meta_pages = []\<rparr>"

definition CatalogMeta_GetSerializedSize :: "catalog_meta \<Rightarrow> nat option" where
  "CatalogMeta_GetSerializedSize c = do {
     n \<leftarrow> size_seq (\<lambda>_. Some (4 + 4)) (table_meta_pages c);
     m \<leftarrow> size_seq (\<lambda>_. Some (4 + 4)) (index_meta_pages c);
     Some (4 + 4 + 4 + n + m) }"

definition CatalogMeta_SerializeTo :: "catalog_meta \<Rightarrow> buffer \<Rightarrow> nat \<Rightarrow> (buffer \<times> nat) option" where
  "CatalogMeta_SerializeTo c b off = do {
     size \<leftarrow> CatalogMeta_GetSerializedSize c;
     ensure (size \<le> PAGE_SIZE);
     b \<leftarrow> put_u32 b off CATALOG_METADATA_MAGIC_NUM;
     b \<leftarrow> put_u32 b (off + 4) (of_nat (length (table_meta_pages c)));
     b \<leftarrow> put_u32 b (off + 8) (of_nat (length (index_meta_pages c)));
     (b, n) \<leftarrow> put_seq put_pair (table_meta_pages c) b (off + 12);
     (b, m) \<leftarrow> put_seq put_pair (index_meta_pages c) b (off + 12 + n);
     Some (b, 12 + n + m) }"

definition CatalogMeta_DeserializeFrom :: "buffer \<Rightarrow> nat \<Rightarrow> (catalog_meta \<times> nat) option" where
  "CatalogMeta_DeserializeFrom b off = do {
     magic_num \<leftarrow> get_u32 b off;
     ensure (magic_num = CATALOG_METADATA_MAGIC_NUM);
     table_nums \<leftarrow> get_u32 b (off + 4);
     index_nums \<leftarrow> get_u32 b (off + 8);
     (ts, n) \<leftarrow> get_seq (\<lambda>_. get_pair) (replicate (unat table_nums) ()) b (off + 12);
     (xs, m) \<leftarrow> get_seq (\<lambda>_. get_pair) (replicate (unat index_nums) ()) b (off + 12 + n);
     Some (\<lparr>table_meta_pages = foldl (\<lambda>m (k, v). map_emplace k v m) [] ts,
       index_meta_pages = foldl (\<lambda>m (k, v). map_emplace k v m) [] xs\<rparr>, 12 + n + m) }"

text \<open>The largest key plus one; the addition wraps.\<close>

definition next_id :: "(u32 \<times> int) list \<Rightarrow> u32" where
  "next_id m = (if m = [] then 0 else fst (last m) + 1)"

definition GetNextTableId :: "catalog_meta \<Rightarrow> u32" where "GetNextTableId c = next_id (table_meta_pages c)"
definition GetNextIndexId :: "catalog_meta \<Rightarrow> u32" where "GetNextIndexId c = next_id (index_meta_pages c)"

definition TABLE_METADATA_MAGIC_NUM :: u32 where "TABLE_METADATA_MAGIC_NUM = 344528"

record table_metadata =
  tm_table_id :: u32
  tm_table_name :: "byte list"
  tm_root_page_id :: int
  tm_freespace_map_page_id :: int
  tm_schema :: schema

definition TableMetadata_GetSerializedSize :: "table_metadata \<Rightarrow> nat option" where
  "TableMetadata_GetSerializedSize t = do {
     n \<leftarrow> Schema_GetSerializedSize (tm_schema t);
     Some (4 + 4 + 4 + length (tm_table_name t) + 4 + 4 + n) }"

definition TableMetadata_SerializeTo :: "table_metadata \<Rightarrow> buffer \<Rightarrow> nat \<Rightarrow> (buffer \<times> nat) option" where
  "TableMetadata_SerializeTo t b off = do {
     ofs \<leftarrow> TableMetadata_GetSerializedSize t;
     ensure (ofs \<le> PAGE_SIZE);
     b \<leftarrow> put_u32 b off TABLE_METADATA_MAGIC_NUM;
     b \<leftarrow> put_u32 b (off + 4) (tm_table_id t);
     b \<leftarrow> put_u32 b (off + 8) (of_nat (length (tm_table_name t)));
     b \<leftarrow> mem_write b (off + 12) (tm_table_name t);
     let p = off + 12 + length (tm_table_name t);
     b \<leftarrow> put_u32 b p (word_of_int (tm_root_page_id t));
     b \<leftarrow> put_u32 b (p + 4) (word_of_int (tm_freespace_map_page_id t));
     (b, n) \<leftarrow> Schema_SerializeTo (tm_schema t) b (p + 8);
     ensure (p + 8 + n - off = ofs);
     Some (b, ofs) }"

definition TableMetadata_DeserializeFrom :: "buffer \<Rightarrow> nat \<Rightarrow> (table_metadata \<times> nat) option" where
  "TableMetadata_DeserializeFrom b off = do {
     magic_num \<leftarrow> get_u32 b off;
     ensure (magic_num = TABLE_METADATA_MAGIC_NUM);
     table_id \<leftarrow> get_u32 b (off + 4);
     len \<leftarrow> get_u32 b (off + 8);
     table_name \<leftarrow> mem_read b (off + 12) (unat len);
     let p = off + 12 + unat len;
     root_page_id \<leftarrow> get_u32 b p;
     freespace_map_page_id \<leftarrow> get_u32 b (p + 4);
     (schema, n) \<leftarrow> Schema_DeserializeFrom b (p + 8);
     Some (\<lparr>tm_table_id = table_id, tm_table_name = table_name, tm_root_page_id = sint root_page_id,
       tm_freespace_map_page_id = sint freespace_map_page_id, tm_schema = schema\<rparr>, p + 8 + n - off) }"

definition TableMetadata_Create :: "u32 \<Rightarrow> byte list \<Rightarrow> int \<Rightarrow> int \<Rightarrow> schema \<Rightarrow> table_metadata" where
  "TableMetadata_Create table_id table_name root_page_id freespace_map_page_id schema =
     \<lparr>tm_table_id = table_id, tm_table_name = table_name, tm_root_page_id = root_page_id,
      tm_freespace_map_page_id = freespace_map_page_id, tm_schema = schema\<rparr>"

definition INDEX_METADATA_MAGIC_NUM :: u32 where "INDEX_METADATA_MAGIC_NUM = 344528"

record index_metadata =
  im_index_id :: u32
  im_index_name :: "byte list"
  im_table_id :: u32
  im_key_map :: "u32 list"

definition IndexMetadata_Create :: "u32 \<Rightarrow> byte list \<Rightarrow> u32 \<Rightarrow> u32 list \<Rightarrow> index_metadata" where
  "IndexMetadata_Create index_id index_name table_id key_map =
     \<lparr>im_index_id = index_id, im_index_name = index_name, im_table_id = table_id, im_key_map = key_map\<rparr>"

definition put_index :: "u32 \<Rightarrow> buffer \<Rightarrow> nat \<Rightarrow> (buffer \<times> nat) option" where
  "put_index w b off = do { b \<leftarrow> put_u32 b off w; Some (b, 4) }"

definition get_index :: "buffer \<Rightarrow> nat \<Rightarrow> (u32 \<times> nat) option" where
  "get_index b off = do { w \<leftarrow> get_u32 b off; Some (w, 4) }"

definition IndexMetadata_GetSerializedSize :: "index_metadata \<Rightarrow> nat option" where
  "IndexMetadata_GetSerializedSize x = do {
     n \<leftarrow> size_seq (\<lambda>_. Some 4) (im_key_map x);
     Some (4 + 4 + 4 + length (im_index_name x) + 4 + 4 + n) }"

definition IndexMetadata_SerializeTo :: "index_metadata \<Rightarrow> buffer \<Rightarrow> nat \<Rightarrow> (buffer \<times> nat) option" where
  "IndexMetadata_SerializeTo x b off = do {
     ofs \<leftarrow> IndexMetadata_GetSerializedSize x;
     ensure (ofs \<le> PAGE_SIZE);
     b \<leftarrow> put_u32 b off INDEX_METADATA_MAGIC_NUM;
     b \<leftarrow> put_u32 b (off + 4) (im_index_id x);
     b \<leftarrow> put_u32 b (off + 8) (of_nat (length (im_index_name x)));
     b \<leftarrow> mem_write b (off + 12) (im_index_name x);
     let p = off + 12 + length (im_index_name x);
     b \<leftarrow> put_u32 b p (im_table_id x);
     b \<leftarrow> put_u32 b (p + 4) (of_nat (length (im_key_map x)));
     (b, n) \<leftarrow> put_seq put_index (im_key_map x) b (p + 8);
     ensure (p + 8 + n - off = ofs);
     Some (b, ofs) }"

definition IndexMetadata_DeserializeFrom :: "buffer \<Rightarrow> nat \<Rightarrow> (index_metadata \<times> nat) option" where
  "IndexMetadata_DeserializeFrom b off = do {
     magic_num \<leftarrow> get_u32 b off;
     ensure (magic_num = INDEX_METADATA_MAGIC_NUM);
     index_id \<leftarrow> get_u32 b (off + 4);
     len \<leftarrow> get_u32 b (off + 8);
     index_name \<leftarrow> mem_read b (off + 12) (unat len);
     let p = off + 12 + unat len;
     table_id \<leftarrow> get_u32 b p;
     index_key_count \<leftarrow> get_u32 b (p + 4);
     (key_map, n) \<leftarrow> get_seq (\<lambda>_. get_index) (replicate (unat index_key_count) ()) b (p + 8);
     Some (\<lparr>im_index_id = index_id, im_index_name = index_name, im_table_id = table_id, im_key_map = key_map\<rparr>,
       p + 8 + n - off) }"

section \<open>Composition of codecs\<close>

context codec
begin

lemma put_after:
  "valid i x \<Longrightarrow> p = off + length xs \<Longrightarrow> p + length (encode x) \<le> length b \<Longrightarrow>
   put x (splice b off xs) p = Some (splice b off (xs @ encode x), length (encode x))"
  using put_encode [of i x p "splice b off xs"] splice_adjacent [of off xs "encode x" b] by simp

lemma put_seq_after:
  "list_all2 valid is ys \<Longrightarrow> p = off + length xs \<Longrightarrow> p + length (concat (map encode ys)) \<le> length b \<Longrightarrow>
   put_seq put ys (splice b off xs) p = Some (splice b off (xs @ concat (map encode ys)), length (concat (map encode ys)))"
  using put_seq_encode [of "is" ys p "splice b off xs"] splice_adjacent [of off xs "concat (map encode ys)" b] by simp

lemma get_at:
  assumes "valid i x" "slice b off (length e) = e" "off + length e \<le> length b" "e = xs @ encode x @ zs"
  shows "get i b (off + length xs) = Some (x, length (encode x))"
  using get_encode [OF assms(1)] read_piece [OF assms(2-4)] assms(3,4) by (simp add: mem_read_def split: if_splits)

lemma get_seq_at:
  assumes "list_all2 valid is ys" "slice b off (length e) = e" "off + length e \<le> length b" "e = xs @ concat (map encode ys) @ zs"
  shows "get_seq get is b (off + length xs) = Some (ys, length (concat (map encode ys)))"
  using get_seq_encode [OF assms(1)] read_piece [OF assms(2-4)] assms(3,4) by (simp add: mem_read_def split: if_splits)

end

section \<open>The encodings\<close>

definition i32_range :: "int \<Rightarrow> bool" where "i32_range p \<longleftrightarrow> - (2 ^ 31) \<le> p \<and> p < 2 ^ 31"

lemma sint_i32_range: "i32_range x \<Longrightarrow> sint (word_of_int x :: u32) = x"
  by (simp add: i32_range_def signed_of_int signed_take_bit_int_eq_self_iff)

definition pair_encode :: "u32 \<times> int \<Rightarrow> byte list" where
  "pair_encode kv = u32_bytes (fst kv) @ u32_bytes (word_of_int (snd kv))"

interpretation pair_codec: codec "\<lambda>_ kv. i32_range (snd kv)" pair_encode put_pair "\<lambda>_. get_pair" "\<lambda>_. Some (4 + 4)"
proof
  fix i :: 'a and kv and off :: nat and b :: buffer
  assume ok: "i32_range (snd kv)" and fit: "off + length (pair_encode kv) \<le> length b"
  then show "put_pair kv b off = Some (splice b off (pair_encode kv), length (pair_encode kv))"
    by (simp add: put_pair_def pair_encode_def put_u32_splice [of off b] put_next)
  assume sl: "slice b off (length (pair_encode kv)) = pair_encode kv"
  have "get_u32 b off = Some (fst kv)" "get_u32 b (off + 4) = Some (word_of_int (snd kv))"
    using get_piece [OF sl fit, unfolded pair_encode_def, of "[]"]
      get_piece [OF sl fit, unfolded pair_encode_def, of "u32_bytes (fst kv)" _ "[]"] by simp_all
  then show "get_pair b off = Some (kv, length (pair_encode kv))"
    using ok by (cases kv) (simp add: get_pair_def pair_encode_def sint_i32_range)
qed (simp add: pair_encode_def)

interpretation index_codec: codec "\<lambda>_ _. True" u32_bytes put_index "\<lambda>_. get_index" "\<lambda>_. Some 4"
  by unfold_locales (auto simp: put_index_def get_index_def put_u32_splice slice_u32_bytes)

lemma map_of_ordered_fresh: "map_ordered (m @ [(k, v)]) \<Longrightarrow> map_of m k = None"
  by (auto simp: map_ordered_def sorted_wrt_append map_of_eq_None_iff)

lemma map_put_last: "map_ordered (m @ [(k, v)]) \<Longrightarrow> map_put k v m = m @ [(k, v)]"
  by (induction m) (auto simp: map_ordered_def)

lemma map_emplace_all: "map_ordered m \<Longrightarrow> foldl (\<lambda>m (k, v). map_emplace k v m) [] m = m"
proof (induction m rule: rev_induct)
  case (snoc kv m)
  obtain k v where kv: "kv = (k, v)" by (cases kv)
  have "map_ordered m" using snoc.prems by (simp add: map_ordered_def sorted_wrt_append)
  with snoc.IH snoc.prems kv show ?case
    using map_of_ordered_fresh [of m k v] map_put_last [of m k v] by (simp add: map_emplace_def)
qed simp

definition pages_ok :: "(u32 \<times> int) list \<Rightarrow> bool" where
  "pages_ok m \<longleftrightarrow> map_ordered m \<and> (\<forall>kv \<in> set m. i32_range (snd kv))"

definition pages_encode :: "(u32 \<times> int) list \<Rightarrow> byte list" where
  "pages_encode m = concat (map pair_encode m)"

definition catalog_meta_ok :: "catalog_meta \<Rightarrow> bool" where
  "catalog_meta_ok c \<longleftrightarrow> pages_ok (table_meta_pages c) \<and> pages_ok (index_meta_pages c) \<and>
     12 + 8 * length (table_meta_pages c) + 8 * length (index_meta_pages c) \<le> PAGE_SIZE"

definition catalog_meta_encode :: "catalog_meta \<Rightarrow> byte list" where
  "catalog_meta_encode c = u32_bytes CATALOG_METADATA_MAGIC_NUM @ u32_bytes (of_nat (length (table_meta_pages c))) @
     u32_bytes (of_nat (length (index_meta_pages c))) @ pages_encode (table_meta_pages c) @ pages_encode (index_meta_pages c)"

lemma length_pages_encode [simp]: "length (pages_encode m) = 8 * length m"
  by (induction m) (simp_all add: pages_encode_def pair_encode_def)

lemma pages_list_all2: "pages_ok m \<Longrightarrow> list_all2 (\<lambda>_ kv. i32_range (snd kv)) (replicate (length m) ()) m"
  by (auto simp: pages_ok_def list_all2_conv_all_nth)

lemma pages_size: "size_seq (\<lambda>_. Some 8) m = Some (8 * length m)"
  by (induction m) simp_all

interpretation catalog_codec: codec "\<lambda>_. catalog_meta_ok" catalog_meta_encode CatalogMeta_SerializeTo "\<lambda>_. CatalogMeta_DeserializeFrom"
  CatalogMeta_GetSerializedSize
proof
  fix i :: 'a and c and off :: nat and b :: buffer
  assume ok: "catalog_meta_ok c" and fit: "off + length (catalog_meta_encode c) \<le> length b"
  let ?t = "table_meta_pages c" and ?x = "index_meta_pages c"
  let ?h = "u32_bytes CATALOG_METADATA_MAGIC_NUM @ u32_bytes (of_nat (length ?t)) @ u32_bytes (of_nat (length ?x))"
  have len: "length (catalog_meta_encode c) = 12 + 8 * length ?t + 8 * length ?x" by (simp add: catalog_meta_encode_def)
  have pt: "pages_ok ?t" and px: "pages_ok ?x" and sz: "12 + 8 * length ?t + 8 * length ?x \<le> PAGE_SIZE"
    using ok by (simp_all add: catalog_meta_ok_def)
  note T = pages_list_all2 [OF pt] and X = pages_list_all2 [OF px]
  have "put_seq put_pair ?t (splice b off ?h) (off + 12) = Some (splice b off (?h @ pages_encode ?t), 8 * length ?t)"
    using pair_codec.put_seq_after [OF T, of "off + 12" off ?h b] fit by (simp add: len pages_encode_def [symmetric])
  moreover have "put_seq put_pair ?x (splice b off (?h @ pages_encode ?t)) (off + 12 + 8 * length ?t) =
      Some (splice b off ((?h @ pages_encode ?t) @ pages_encode ?x), 8 * length ?x)"
    using pair_codec.put_seq_after [OF X, of "off + 12 + 8 * length ?t" off "?h @ pages_encode ?t" b] fit
    by (simp add: len pages_encode_def [symmetric])
  ultimately show "CatalogMeta_SerializeTo c b off = Some (splice b off (catalog_meta_encode c), length (catalog_meta_encode c))"
    using fit sz by (simp add: CatalogMeta_SerializeTo_def CatalogMeta_GetSerializedSize_def pages_size ensure_def
        put_u32_splice [of off b CATALOG_METADATA_MAGIC_NUM] put_next len catalog_meta_encode_def)
  assume sl: "slice b off (length (catalog_meta_encode c)) = catalog_meta_encode c"
  note G = get_piece [OF sl fit, unfolded catalog_meta_encode_def]
  let ?m = "u32_bytes CATALOG_METADATA_MAGIC_NUM"
  have g: "get_u32 b off = Some CATALOG_METADATA_MAGIC_NUM" "get_u32 b (off + 4) = Some (of_nat (length ?t))"
    "get_u32 b (off + 8) = Some (of_nat (length ?x))"
    using G [of "[]"] G [of ?m] G [of "?m @ u32_bytes (of_nat (length ?t))"] by simp_all
  have "get_seq (\<lambda>_. get_pair) (replicate (length ?t) ()) b (off + length ?h) = Some (?t, 8 * length ?t)"
    using pair_codec.get_seq_at [OF T sl fit, of ?h "pages_encode ?x"]
    by (simp add: catalog_meta_encode_def pages_encode_def [symmetric])
  moreover have "get_seq (\<lambda>_. get_pair) (replicate (length ?x) ()) b (off + length (?h @ pages_encode ?t)) = Some (?x, 8 * length ?x)"
    using pair_codec.get_seq_at [OF X sl fit, of "?h @ pages_encode ?t" "[]"]
    by (simp add: catalog_meta_encode_def pages_encode_def [symmetric])
  moreover have "unat (of_nat (length ?t) :: u32) = length ?t" "unat (of_nat (length ?x) :: u32) = length ?x"
    using sz by (simp_all add: PAGE_SIZE_def unat_of_nat_u32)
  ultimately show "CatalogMeta_DeserializeFrom b off = Some (c, length (catalog_meta_encode c))"
    using g pt px by (cases c) (simp add: CatalogMeta_DeserializeFrom_def ensure_def catalog_meta_encode_def pages_ok_def map_emplace_all add.assoc)
next
  fix i :: 'a and c
  show "CatalogMeta_GetSerializedSize c = Some (length (catalog_meta_encode c))"
    by (simp add: CatalogMeta_GetSerializedSize_def pages_size catalog_meta_encode_def)
qed

text \<open>A length-prefixed name inside a record.\<close>

definition name_ok :: "byte list \<Rightarrow> bool" where "name_ok s \<longleftrightarrow> length s < 2 ^ 32"

definition table_meta_encode :: "table_metadata \<Rightarrow> byte list" where
  "table_meta_encode t = u32_bytes TABLE_METADATA_MAGIC_NUM @ u32_bytes (tm_table_id t) @
     u32_bytes (of_nat (length (tm_table_name t))) @ tm_table_name t @ u32_bytes (word_of_int (tm_root_page_id t)) @
     u32_bytes (word_of_int (tm_freespace_map_page_id t)) @ schema_encode (tm_schema t)"

definition table_meta_ok :: "table_metadata \<Rightarrow> bool" where
  "table_meta_ok t \<longleftrightarrow> schema_ok () (tm_schema t) \<and> i32_range (tm_root_page_id t) \<and>
     i32_range (tm_freespace_map_page_id t) \<and> length (table_meta_encode t) \<le> PAGE_SIZE"

lemma table_meta_length: "length (table_meta_encode t) = 20 + length (tm_table_name t) + length (schema_encode (tm_schema t))"
  by (simp add: table_meta_encode_def)

interpretation table_meta_codec: codec "\<lambda>_. table_meta_ok" table_meta_encode TableMetadata_SerializeTo
  "\<lambda>_. TableMetadata_DeserializeFrom" TableMetadata_GetSerializedSize
proof
  fix i :: 'a and t and off :: nat and b :: buffer
  assume ok: "table_meta_ok t" and fit: "off + length (table_meta_encode t) \<le> length b"
  let ?n = "tm_table_name t" and ?s = "schema_encode (tm_schema t)"
  let ?h = "u32_bytes TABLE_METADATA_MAGIC_NUM @ u32_bytes (tm_table_id t) @ u32_bytes (of_nat (length ?n)) @ ?n @
    u32_bytes (word_of_int (tm_root_page_id t)) @ u32_bytes (word_of_int (tm_freespace_map_page_id t))"
  have sc: "schema_ok () (tm_schema t)" and sz: "length (table_meta_encode t) \<le> PAGE_SIZE"
    and r: "i32_range (tm_root_page_id t)" "i32_range (tm_freespace_map_page_id t)"
    using ok by (simp_all add: table_meta_ok_def)
  note len = table_meta_length [of t]
  have "Schema_SerializeTo (tm_schema t) (splice b off ?h) (off + 12 + length ?n + 8) = Some (splice b off (?h @ ?s), length ?s)"
    using schema_codec.put_after [OF sc, of "off + 12 + length ?n + 8" off ?h b] fit by (simp add: len)
  then show "TableMetadata_SerializeTo t b off = Some (splice b off (table_meta_encode t), length (table_meta_encode t))"
    using fit sz schema_codec.size_encode [OF sc]
    by (simp add: TableMetadata_SerializeTo_def TableMetadata_GetSerializedSize_def ensure_def Let_def len
        put_u32_splice [of off b TABLE_METADATA_MAGIC_NUM] put_next write_next table_meta_encode_def del: mem_write_Some)
  assume sl: "slice b off (length (table_meta_encode t)) = table_meta_encode t"
  note G = get_piece [OF sl fit, unfolded table_meta_encode_def] and S = read_piece [OF sl fit, unfolded table_meta_encode_def]
  let ?m = "u32_bytes TABLE_METADATA_MAGIC_NUM" and ?i = "u32_bytes (tm_table_id t)" and ?l = "u32_bytes (of_nat (length ?n))"
    and ?r = "u32_bytes (word_of_int (tm_root_page_id t))"
  have g: "get_u32 b off = Some TABLE_METADATA_MAGIC_NUM" "get_u32 b (off + 4) = Some (tm_table_id t)"
    "get_u32 b (off + 8) = Some (of_nat (length ?n))" "mem_read b (off + 12) (length ?n) = Some ?n"
    "get_u32 b (off + 12 + length ?n) = Some (word_of_int (tm_root_page_id t))"
    "get_u32 b (off + 12 + length ?n + 4) = Some (word_of_int (tm_freespace_map_page_id t))"
    using G [of "[]"] G [of ?m] G [of "?m @ ?i"] S [of "?m @ ?i @ ?l" ?n] G [of "?m @ ?i @ ?l @ ?n"] G [of "?m @ ?i @ ?l @ ?n @ ?r"]
    by (simp_all add: ac_simps del: mem_read_Some)
  have "Schema_DeserializeFrom b (off + length ?h) = Some (tm_schema t, length ?s)"
    using schema_codec.get_at [OF sc sl fit, of ?h "[]"] by (simp add: table_meta_encode_def)
  then have sd: "Schema_DeserializeFrom b (off + 12 + length ?n + 8) = Some (tm_schema t, length ?s)" by (simp add: ac_simps)
  have n: "unat (of_nat (length ?n) :: u32) = length ?n" using sz len by (simp add: PAGE_SIZE_def unat_of_nat_u32)
  show "TableMetadata_DeserializeFrom b off = Some (t, length (table_meta_encode t))"
    using g sd n by (simp add: TableMetadata_DeserializeFrom_def ensure_def len Let_def sint_i32_range r del: mem_read_Some)
next
  fix i :: 'a and t assume "table_meta_ok t"
  then have "schema_ok () (tm_schema t)" by (simp add: table_meta_ok_def)
  from schema_codec.size_encode [OF this] show "TableMetadata_GetSerializedSize t = Some (length (table_meta_encode t))"
    by (simp add: TableMetadata_GetSerializedSize_def table_meta_length)
qed

definition index_meta_encode :: "index_metadata \<Rightarrow> byte list" where
  "index_meta_encode x = u32_bytes INDEX_METADATA_MAGIC_NUM @ u32_bytes (im_index_id x) @
     u32_bytes (of_nat (length (im_index_name x))) @ im_index_name x @ u32_bytes (im_table_id x) @
     u32_bytes (of_nat (length (im_key_map x))) @ concat (map u32_bytes (im_key_map x))"

definition index_meta_ok :: "index_metadata \<Rightarrow> bool" where
  "index_meta_ok x \<longleftrightarrow> length (index_meta_encode x) \<le> PAGE_SIZE"

lemma length_concat_u32 [simp]: "length (concat (map u32_bytes ws)) = 4 * length ws"
  by (induction ws) simp_all

lemma index_meta_length: "length (index_meta_encode x) = 20 + length (im_index_name x) + 4 * length (im_key_map x)"
  by (simp add: index_meta_encode_def del: length_concat)

lemma index_list_all2: "list_all2 (\<lambda>_ _. True) (replicate (length ws) ()) ws"
  by (simp add: list_all2_conv_all_nth)

interpretation index_meta_codec: codec "\<lambda>_. index_meta_ok" index_meta_encode IndexMetadata_SerializeTo
  "\<lambda>_. IndexMetadata_DeserializeFrom" IndexMetadata_GetSerializedSize
proof
  have size: "IndexMetadata_GetSerializedSize x = Some (length (index_meta_encode x))" for x
    using index_codec.size_seq_encode [OF index_list_all2, of "im_key_map x"]
    by (simp add: IndexMetadata_GetSerializedSize_def index_meta_length del: length_concat)
  fix i :: 'a and x and off :: nat and b :: buffer
  show "IndexMetadata_GetSerializedSize x = Some (length (index_meta_encode x))" by (rule size)
  assume ok: "index_meta_ok x" and fit: "off + length (index_meta_encode x) \<le> length b"
  let ?n = "im_index_name x" and ?k = "im_key_map x"
  let ?e = "concat (map u32_bytes ?k)"
  let ?h = "u32_bytes INDEX_METADATA_MAGIC_NUM @ u32_bytes (im_index_id x) @ u32_bytes (of_nat (length ?n)) @ ?n @
    u32_bytes (im_table_id x) @ u32_bytes (of_nat (length ?k))"
  note len = index_meta_length [of x]
  have "put_seq put_index ?k (splice b off ?h) (off + 12 + length ?n + 8) = Some (splice b off (?h @ ?e), 4 * length ?k)"
    using index_codec.put_seq_after [OF index_list_all2, of "off + 12 + length ?n + 8" off ?h ?k b] fit
    by (simp add: len del: length_concat)
  then show "IndexMetadata_SerializeTo x b off = Some (splice b off (index_meta_encode x), length (index_meta_encode x))"
    using fit ok size [of x]
    by (simp add: IndexMetadata_SerializeTo_def ensure_def Let_def len index_meta_ok_def
        put_u32_splice [of off b INDEX_METADATA_MAGIC_NUM] put_next write_next index_meta_encode_def del: mem_write_Some length_concat)
  assume sl: "slice b off (length (index_meta_encode x)) = index_meta_encode x"
  note G = get_piece [OF sl fit, unfolded index_meta_encode_def] and S = read_piece [OF sl fit, unfolded index_meta_encode_def]
  let ?m = "u32_bytes INDEX_METADATA_MAGIC_NUM" and ?i = "u32_bytes (im_index_id x)" and ?l = "u32_bytes (of_nat (length ?n))"
    and ?t = "u32_bytes (im_table_id x)"
  have g: "get_u32 b off = Some INDEX_METADATA_MAGIC_NUM" "get_u32 b (off + 4) = Some (im_index_id x)"
    "get_u32 b (off + 8) = Some (of_nat (length ?n))" "mem_read b (off + 12) (length ?n) = Some ?n"
    "get_u32 b (off + 12 + length ?n) = Some (im_table_id x)" "get_u32 b (off + 12 + length ?n + 4) = Some (of_nat (length ?k))"
    using G [of "[]"] G [of ?m] G [of "?m @ ?i"] S [of "?m @ ?i @ ?l" ?n] G [of "?m @ ?i @ ?l @ ?n"] G [of "?m @ ?i @ ?l @ ?n @ ?t"]
    by (simp_all add: ac_simps del: mem_read_Some length_concat)
  have "get_seq (\<lambda>_. get_index) (replicate (length ?k) ()) b (off + length ?h) = Some (?k, 4 * length ?k)"
    using index_codec.get_seq_at [OF index_list_all2 sl fit, of ?h ?k "[]"] by (simp add: index_meta_encode_def del: length_concat)
  then have sd: "get_seq (\<lambda>_. get_index) (replicate (length ?k) ()) b (off + 12 + length ?n + 8) = Some (?k, 4 * length ?k)"
    by (simp add: ac_simps)
  have n: "unat (of_nat (length ?n) :: u32) = length ?n" "unat (of_nat (length ?k) :: u32) = length ?k"
    using ok len by (simp_all add: index_meta_ok_def PAGE_SIZE_def unat_of_nat_u32)
  show "IndexMetadata_DeserializeFrom b off = Some (x, length (index_meta_encode x))"
    using g sd n by (simp add: IndexMetadata_DeserializeFrom_def ensure_def len Let_def del: mem_read_Some)
qed

section \<open>Properties\<close>

lemma word_less_add_1:
  assumes "w \<noteq> - 1"
  shows "w < w + (1 :: u32)"
proof -
  have "1 + w \<noteq> 0" using assms by (metis add.commute add_eq_0_iff)
  then have "unat (w + 1) = Suc (unat w)" using unatSuc [of w] by (simp add: add.commute)
  then show ?thesis by (simp add: word_less_nat_alt)
qed

lemma map_put_ordered: "map_ordered m \<Longrightarrow> map_ordered (map_put k v m) \<and> set (map fst (map_put k v m)) = insert k (set (map fst m))"
proof (induction m)
  case (Cons kv m)
  obtain k' v' where kv: "kv = (k', v')" by (cases kv)
  have m: "map_ordered m" and lt: "\<forall>x \<in> set (map fst m). k' < x" using Cons.prems kv by (auto simp: map_ordered_def)
  from Cons.IH [OF m] have IH: "sorted_wrt (<) (map fst (map_put k v m))" "set (map fst (map_put k v m)) = insert k (set (map fst m))"
    by (auto simp: map_ordered_def)
  show ?case using Cons.prems kv lt IH by (auto simp: map_ordered_def)
qed (simp add: map_ordered_def)

lemma map_of_put: "map_of (map_put k v m) = (map_of m)(k \<mapsto> v)"
  by (induction k v m rule: map_put.induct) (auto simp: fun_eq_iff)

text \<open>\<open>ids_left n m\<close>: \<open>n\<close> more ids can be handed out before the addition wraps.\<close>

definition ids_left :: "nat \<Rightarrow> (u32 \<times> int) list \<Rightarrow> bool" where
  "ids_left n m \<longleftrightarrow> list_all (\<lambda>kv. unat (fst kv) + n < 2 ^ 32) m"

lemma next_id_above:
  assumes "map_ordered m" "m \<noteq> [] \<Longrightarrow> fst (last m) \<noteq> - 1" "k \<in> fst ` set m"
  shows "k < next_id m"
proof -
  have ne: "m \<noteq> []" using assms(3) by auto
  then obtain ys y where m: "m = ys @ [y]" by (meson rev_exhaust)
  with assms(1,3) have "k \<le> fst (last m)" by (auto simp: map_ordered_def sorted_wrt_append less_imp_le)
  also have "fst (last m) < fst (last m) + 1" using word_less_add_1 [OF assms(2) [OF ne]] .
  finally show ?thesis using ne by (simp add: next_id_def)
qed

lemma next_id_fresh: "map_ordered m \<Longrightarrow> (m \<noteq> [] \<Longrightarrow> fst (last m) \<noteq> - 1) \<Longrightarrow> map_of m (next_id m) = None"
  using next_id_above [of m "next_id m"] by (force simp: map_of_eq_None_iff)

lemma ids_left_last: "ids_left (Suc n) m \<Longrightarrow> m \<noteq> [] \<Longrightarrow> fst (last m) \<noteq> - 1"
proof
  assume l: "ids_left (Suc n) m" "m \<noteq> []" "fst (last m) = - 1"
  have "unat (fst (last m)) + Suc n < 2 ^ 32" using l(1,2) by (auto simp: ids_left_def list_all_iff dest: last_in_set)
  moreover have "unat (- 1 :: u32) = 2 ^ 32 - 1" by (simp add: unsigned_minus_1_eq_mask mask_eq_exp_minus_1)
  ultimately show False using l(3) by simp
qed

lemma ids_left_put:
  assumes "map_ordered m" "ids_left (Suc n) m" "n < 2 ^ 32"
  shows "ids_left n (map_put (next_id m) p m)"
proof -
  have old: "unat k + Suc n < 2 ^ 32" if "k \<in> fst ` set m" for k using assms(2) that by (auto simp: ids_left_def list_all_iff)
  have "unat (next_id m) + n < 2 ^ 32"
  proof (cases "m = []")
    case False
    have "unat (next_id m) \<le> unat (fst (last m)) + 1" using False by (simp add: next_id_def unat_word_ariths)
    moreover have "fst (last m) \<in> fst ` set m" using False by simp
    ultimately show ?thesis using old [of "fst (last m)"] by simp
  qed (use assms(3) in \<open>simp add: next_id_def\<close>)
  moreover have "fst ` set (map_put (next_id m) p m) = insert (next_id m) (fst ` set m)" using map_put_ordered [OF assms(1), of "next_id m" p] by simp
  ultimately have "unat k + n < 2 ^ 32" if "k \<in> fst ` set (map_put (next_id m) p m)" for k using that old by force
  then show ?thesis by (auto simp: ids_left_def list_all_iff)
qed

lemma ids_left_mono: "ids_left n m \<Longrightarrow> k \<le> n \<Longrightarrow> ids_left k m"
  by (force simp: ids_left_def list_all_iff)

text \<open>
  C33: the three records of the catalog (the catalog page, a table, an index) survive a round trip: what
  \<^verbatim>\<open>SerializeTo\<close> writes into a buffer with enough room, \<^verbatim>\<open>DeserializeFrom\<close> reads back as the same record, over
  exactly the \<^verbatim>\<open>GetSerializedSize\<close> bytes; nothing outside is written. The catalog page keeps its two ordered maps.
\<close>

theorem catalog_records_roundtrip:
  assumes "catalog_meta_ok c" "CatalogMeta_GetSerializedSize c = Some n" "off + n \<le> length b"
    "table_meta_ok t" "TableMetadata_GetSerializedSize t = Some n'" "off' + n' \<le> length b"
    "index_meta_ok x" "IndexMetadata_GetSerializedSize x = Some n''" "off'' + n'' \<le> length b"
  shows "(\<exists>b'. CatalogMeta_SerializeTo c b off = Some (b', n) \<and> CatalogMeta_DeserializeFrom b' off = Some (c, n) \<and>
      (\<forall>o2 m. o2 + m \<le> off \<or> off + n \<le> o2 \<longrightarrow> slice b' o2 m = slice b o2 m)) \<and>
    (\<exists>b'. TableMetadata_SerializeTo t b off' = Some (b', n') \<and> TableMetadata_DeserializeFrom b' off' = Some (t, n') \<and>
      (\<forall>o2 m. o2 + m \<le> off' \<or> off' + n' \<le> o2 \<longrightarrow> slice b' o2 m = slice b o2 m)) \<and>
    (\<exists>b'. IndexMetadata_SerializeTo x b off'' = Some (b', n'') \<and> IndexMetadata_DeserializeFrom b' off'' = Some (x, n'') \<and>
      (\<forall>o2 m. o2 + m \<le> off'' \<or> off'' + n'' \<le> o2 \<longrightarrow> slice b' o2 m = slice b o2 m))"
proof (intro conjI)
  show "\<exists>b'. CatalogMeta_SerializeTo c b off = Some (b', n) \<and> CatalogMeta_DeserializeFrom b' off = Some (c, n) \<and>
      (\<forall>o2 m. o2 + m \<le> off \<or> off + n \<le> o2 \<longrightarrow> slice b' o2 m = slice b o2 m)"
    by (rule catalog_codec.get_put [OF assms(1-3)]) blast
  show "\<exists>b'. TableMetadata_SerializeTo t b off' = Some (b', n') \<and> TableMetadata_DeserializeFrom b' off' = Some (t, n') \<and>
      (\<forall>o2 m. o2 + m \<le> off' \<or> off' + n' \<le> o2 \<longrightarrow> slice b' o2 m = slice b o2 m)"
    by (rule table_meta_codec.get_put [OF assms(4-6)]) blast
  show "\<exists>b'. IndexMetadata_SerializeTo x b off'' = Some (b', n'') \<and> IndexMetadata_DeserializeFrom b' off'' = Some (x, n'') \<and>
      (\<forall>o2 m. o2 + m \<le> off'' \<or> off'' + n'' \<le> o2 \<longrightarrow> slice b' o2 m = slice b o2 m)"
    by (rule index_meta_codec.get_put [OF assms(7-9)]) blast
qed

definition sample_catalog :: catalog_meta where
  "sample_catalog = \<lparr>table_meta_pages = [(0, 4), (2, 9)], index_meta_pages = [(0, 7)]\<rparr>"

definition sample_table :: table_metadata where
  "sample_table = TableMetadata_Create 2 [116, 49] 5 6 sample_schema"

definition sample_index :: index_metadata where
  "sample_index = IndexMetadata_Create 0 [120] 2 [1, 0]"

theorem catalog_records_roundtrip_witness:
  "(\<exists>b'. CatalogMeta_SerializeTo sample_catalog (replicate 4096 0) 0 = Some (b', 36) \<and>
      CatalogMeta_DeserializeFrom b' 0 = Some (sample_catalog, 36)) \<and>
   (\<exists>b' n. TableMetadata_SerializeTo sample_table (replicate 4096 0) 0 = Some (b', n) \<and>
      TableMetadata_DeserializeFrom b' 0 = Some (sample_table, n)) \<and>
   (\<exists>b'. IndexMetadata_SerializeTo sample_index (replicate 4096 0) 4 = Some (b', 29) \<and>
      IndexMetadata_DeserializeFrom b' 4 = Some (sample_index, 29))"
proof -
  have c: "catalog_meta_ok sample_catalog" "CatalogMeta_GetSerializedSize sample_catalog = Some 36"
    by (simp_all add: sample_catalog_def catalog_meta_ok_def pages_ok_def map_ordered_def i32_range_def PAGE_SIZE_def
        CatalogMeta_GetSerializedSize_def)
  have sc: "schema_ok () sample_schema" "length (schema_encode sample_schema) \<le> 1000"
    by (simp_all add: schema_ok_def sample_schema_def column_ok_def schema_encode_def column_encode_def)
  then have t: "table_meta_ok sample_table"
    by (simp add: sample_table_def table_meta_ok_def TableMetadata_Create_def i32_range_def table_meta_length PAGE_SIZE_def)
  obtain n where n: "TableMetadata_GetSerializedSize sample_table = Some n" "n \<le> 4096"
    using table_meta_codec.size_encode [OF t] t by (auto simp: table_meta_ok_def PAGE_SIZE_def)
  have x: "index_meta_ok sample_index" "IndexMetadata_GetSerializedSize sample_index = Some 29"
    by (simp_all add: sample_index_def IndexMetadata_Create_def index_meta_ok_def index_meta_length PAGE_SIZE_def
        IndexMetadata_GetSerializedSize_def)
  from catalog_records_roundtrip [OF c _ t n(1) _ x, of 0 "replicate 4096 0" 0 4] n(2) show ?thesis by auto
qed

text \<open>
  The id handed out for a new table is not in use, as long as the largest id is not the largest 32-bit
  number, and entering it keeps the map ordered; all other entries stay.
\<close>

theorem next_table_id_fresh:
  assumes "pages_ok (table_meta_pages c)" "table_meta_pages c \<noteq> [] \<Longrightarrow> fst (last (table_meta_pages c)) \<noteq> - 1"
  shows "map_of (table_meta_pages c) (GetNextTableId c) = None \<and>
    map_ordered (map_put (GetNextTableId c) p (table_meta_pages c)) \<and>
    map_of (map_put (GetNextTableId c) p (table_meta_pages c)) = (map_of (table_meta_pages c))(GetNextTableId c \<mapsto> p)"
proof -
  have ord: "map_ordered (table_meta_pages c)" using assms(1) by (simp add: pages_ok_def)
  show ?thesis using next_id_fresh [OF ord assms(2)] map_put_ordered [OF ord] map_of_put by (auto simp: GetNextTableId_def)
qed

theorem next_table_id_fresh_witness:
  "map_of (map_put (GetNextTableId sample_catalog) 12 (table_meta_pages sample_catalog)) 3 = Some 12"
proof -
  have "pages_ok (table_meta_pages sample_catalog)" by (simp add: sample_catalog_def pages_ok_def map_ordered_def i32_range_def)
  moreover have "fst (last (table_meta_pages sample_catalog)) \<noteq> - 1" by (simp add: sample_catalog_def)
  ultimately have "map_of (map_put (GetNextTableId sample_catalog) 12 (table_meta_pages sample_catalog)) =
      (map_of (table_meta_pages sample_catalog))(GetNextTableId sample_catalog \<mapsto> 12)"
    using next_table_id_fresh [of sample_catalog 12] by blast
  then show ?thesis by (simp add: sample_catalog_def GetNextTableId_def next_id_def)
qed

end
