(* ===== verification/Free_Space_Map.thy ===== *)
theory Free_Space_Map
  imports Pool_Client
begin

text \<open>
  The free-space map of a table: \<^verbatim>\<open>FreeSpaceMapPage\<close> (\<^verbatim>\<open>include/page/freespace_map_page.h\<close>,
  \<^verbatim>\<open>page/freespace_map_page.cpp\<close>) on the bytes of a page, and \<^verbatim>\<open>FreeSpaceMap\<close>
  (\<^verbatim>\<open>include/storage/freespace_map.h\<close>, \<^verbatim>\<open>storage/freespace_map.cpp\<close>), a chain of such pages in the buffer
  pool. A page pointer is the number of its frame and is dereferenced at the time of use, also after
  the page has been unpinned. The members \<^verbatim>\<open>internal_index\<close> and \<^verbatim>\<open>page_index\<close> are not initialised by the
  constructor. The loops along the chain are partial functions, since a damaged chain may be cyclic.
\<close>

section \<open>The map page\<close>

definition SIZE_FREESPACEMAP_PAGE_HEADER :: nat where "SIZE_FREESPACEMAP_PAGE_HEADER = 16"
definition SIZE_PAIR :: nat where "SIZE_PAIR = 8"
definition SIZE_MAX_PAIR :: nat where "SIZE_MAX_PAIR = (PAGE_SIZE - SIZE_FREESPACEMAP_PAGE_HEADER) div SIZE_PAIR"

definition FP_GetNextPageId :: "buffer \<Rightarrow> int option" where "FP_GetNextPageId d = map_option sint (get_u32 d 8)"
definition FP_SetNextPageId :: "buffer \<Rightarrow> int \<Rightarrow> buffer option" where "FP_SetNextPageId d p = put_u32 d 8 (word_of_int p)"
definition FP_GetPairCount :: "buffer \<Rightarrow> u32 option" where "FP_GetPairCount d = get_u32 d 12"
definition FP_SetPairCount :: "buffer \<Rightarrow> u32 \<Rightarrow> buffer option" where "FP_SetPairCount d n = put_u32 d 12 n"

definition FP_GetSpacePageId :: "buffer \<Rightarrow> u32 \<Rightarrow> int option" where
  "FP_GetSpacePageId d i = map_option sint (get_u32 d (SIZE_FREESPACEMAP_PAGE_HEADER + SIZE_PAIR * unat i))"
definition FP_SetSpacePageId :: "buffer \<Rightarrow> u32 \<Rightarrow> int \<Rightarrow> buffer option" where
  "FP_SetSpacePageId d i p = put_u32 d (SIZE_FREESPACEMAP_PAGE_HEADER + SIZE_PAIR * unat i) (word_of_int p)"
definition FP_GetFreeSpace :: "buffer \<Rightarrow> u32 \<Rightarrow> u32 option" where
  "FP_GetFreeSpace d i = get_u32 d (SIZE_FREESPACEMAP_PAGE_HEADER + SIZE_PAIR * unat i + 4)"
definition FP_SetFreeSpace :: "buffer \<Rightarrow> u32 \<Rightarrow> u32 \<Rightarrow> buffer option" where
  "FP_SetFreeSpace d i n = put_u32 d (SIZE_FREESPACEMAP_PAGE_HEADER + SIZE_PAIR * unat i + 4) n"

definition FP_Init :: "buffer \<Rightarrow> int \<Rightarrow> buffer option" where
  "FP_Init d page_id = do {
     d \<leftarrow> put_u32 d 0 (word_of_int page_id);
     d \<leftarrow> FP_SetNextPageId d INVALID_PAGE_ID;
     FP_SetPairCount d 0 }"

definition FP_NewPair :: "buffer \<Rightarrow> int \<Rightarrow> u32 \<Rightarrow> (u32 \<times> buffer) option" where
  "FP_NewPair d page_id free_space = do {
     pair_count \<leftarrow> FP_GetPairCount d;
     d \<leftarrow> FP_SetFreeSpace d pair_count free_space;
     d \<leftarrow> FP_SetSpacePageId d pair_count page_id;
     let pair_count = pair_count + 1;
     d \<leftarrow> FP_SetPairCount d pair_count;
     Some (pair_count, d) }"

section \<open>The map\<close>

record free_space_map =
  fsm_first :: int
  fsm_last :: int
  fsm_MAX_PAIR_COUNT :: u32
  fsm_internal_index :: "u32 option"
  fsm_page_index :: "int option"

definition frame_id_of :: "bpm \<Rightarrow> int \<Rightarrow> int option" where
  "frame_id_of b f = map_option pg_id (vector_get (bpm_pages b) f)"

definition FreeSpaceMap_new :: "int \<Rightarrow> bpm \<Rightarrow> (free_space_map \<times> bpm) option" where
  "FreeSpaceMap_new first_map_page_id b = do {
     (fo, b) \<leftarrow> BPM_FetchPage b first_map_page_id;
     f \<leftarrow> fo;
     d \<leftarrow> frame_data b f;
     d \<leftarrow> FP_Init d first_map_page_id;
     b \<leftarrow> write_frame b f d;
     (_, b) \<leftarrow> BPM_UnpinPage b first_map_page_id True;
     Some (\<lparr>fsm_first = first_map_page_id, fsm_last = INVALID_PAGE_ID, fsm_MAX_PAIR_COUNT = of_nat SIZE_MAX_PAIR,
       fsm_internal_index = None, fsm_page_index = None\<rparr>, b) }"

text \<open>The search for a map page with room; a missing next page is created and linked. \<^term>\<open>Inl b\<close>: no page could be made.\<close>

partial_function (option) new_pair_loop :: "bpm \<Rightarrow> int \<Rightarrow> (bpm + int \<times> bpm) option" where
  "new_pair_loop b f = do {
     d \<leftarrow> frame_data b f;
     pair_count \<leftarrow> FP_GetPairCount d;
     if unat pair_count < SIZE_MAX_PAIR then Some (Inr (f, b))
     else do {
       next_page_id \<leftarrow> FP_GetNextPageId d;
       r \<leftarrow> (if next_page_id = INVALID_PAGE_ID then do {
               (np, b) \<leftarrow> BPM_NewPage b;
               case np of None \<Rightarrow> Some (Inl b)
               | Some (next_page_id, _) \<Rightarrow> do {
                   (_, b) \<leftarrow> BPM_UnpinPage b next_page_id False;
                   (go, b) \<leftarrow> BPM_FetchPage b next_page_id;
                   g \<leftarrow> go;
                   d' \<leftarrow> frame_data b g;
                   d' \<leftarrow> FP_Init d' next_page_id;
                   b \<leftarrow> write_frame b g d';
                   d \<leftarrow> frame_data b f;
                   d \<leftarrow> FP_SetNextPageId d next_page_id;
                   b \<leftarrow> write_frame b f d;
                   (_, b) \<leftarrow> BPM_UnpinPage b next_page_id True;
                   Some (Inr (next_page_id, b)) } }
             else Some (Inr (next_page_id, b)));
       case r of Inl b \<Rightarrow> Some (Inl b)
       | Inr (next_page_id, b) \<Rightarrow> do {
           self \<leftarrow> frame_id_of b f;
           (_, b) \<leftarrow> BPM_UnpinPage b self False;
           (fo, b) \<leftarrow> BPM_FetchPage b next_page_id;
           f \<leftarrow> fo;
           new_pair_loop b f } } }"

definition SetNewPair :: "free_space_map \<Rightarrow> bpm \<Rightarrow> int \<Rightarrow> u32 \<Rightarrow> (free_space_map \<times> bpm) option" where
  "SetNewPair m b page_id free_space = do {
     (fo, b) \<leftarrow> BPM_FetchPage b (fsm_first m);
     case fo of None \<Rightarrow> Some (m, b)
     | Some f \<Rightarrow> do {
         r \<leftarrow> new_pair_loop b f;
         case r of Inl b \<Rightarrow> Some (m, b)
         | Inr (f, b) \<Rightarrow> do {
             self \<leftarrow> frame_id_of b f;
             (_, b) \<leftarrow> BPM_UnpinPage b self False;
             d \<leftarrow> frame_data b f;
             (_, d) \<leftarrow> FP_NewPair d page_id free_space;
             b \<leftarrow> write_frame b f d;
             Some (m\<lparr>fsm_last := page_id\<rparr>, b) } } }"

text \<open>The inner loop of the searches: the first of the \<open>n\<close> pairs from \<open>i\<close> on that passes the test.\<close>

fun find_pair :: "(buffer \<Rightarrow> u32 \<Rightarrow> bool option) \<Rightarrow> buffer \<Rightarrow> nat \<Rightarrow> nat \<Rightarrow> u32 option option" where
  "find_pair test d i 0 = Some None"
| "find_pair test d i (Suc n) = do {
     ok \<leftarrow> test d (of_nat i);
     if ok then Some (Some (of_nat i)) else find_pair test d (Suc i) n }"

definition has_space :: "u32 \<Rightarrow> buffer \<Rightarrow> u32 \<Rightarrow> bool option" where
  "has_space need_space d i = do { n \<leftarrow> FP_GetFreeSpace d i; Some (need_space \<le> n) }"

definition is_page :: "int \<Rightarrow> buffer \<Rightarrow> u32 \<Rightarrow> bool option" where
  "is_page page_id d i = do { p \<leftarrow> FP_GetSpacePageId d i; Some (p = page_id) }"

text \<open>The common loop of \<^verbatim>\<open>GetBegin\<close> and \<^verbatim>\<open>GetNext\<close>, from pair \<open>internal_id\<close> of the page in frame \<open>f\<close> on.\<close>

partial_function (option) search_space :: "free_space_map \<Rightarrow> bpm \<Rightarrow> int \<Rightarrow> u32 \<Rightarrow> u32 \<Rightarrow> (int \<times> free_space_map \<times> bpm) option" where
  "search_space m b f internal_id need_space = do {
     d \<leftarrow> frame_data b f;
     pair_count \<leftarrow> FP_GetPairCount d;
     r \<leftarrow> find_pair (has_space need_space) d (unat internal_id) (unat pair_count - unat internal_id);
     self \<leftarrow> frame_id_of b f;
     case r of
       Some i \<Rightarrow> do {
         (_, b) \<leftarrow> BPM_UnpinPage b self False;
         d \<leftarrow> frame_data b f;
         p \<leftarrow> FP_GetSpacePageId d i;
         Some (p, m\<lparr>fsm_internal_index := Some i, fsm_page_index := Some self\<rparr>, b) }
     | None \<Rightarrow> do {
         next_page_id \<leftarrow> FP_GetNextPageId d;
         if next_page_id = INVALID_PAGE_ID then do {
           (_, b) \<leftarrow> BPM_UnpinPage b self False;
           index \<leftarrow> fsm_internal_index m;
           if index = pair_count - 1 then Some (INVALID_PAGE_ID, m, b)
           else do {
             self \<leftarrow> frame_id_of b f;
             Some (fsm_last m, m\<lparr>fsm_internal_index := Some (pair_count - 1), fsm_page_index := Some self\<rparr>, b) } }
         else do {
           (_, b) \<leftarrow> BPM_UnpinPage b self False;
           (fo, b) \<leftarrow> BPM_FetchPage b next_page_id;
           f \<leftarrow> fo;
           search_space m b f 0 need_space } } }"

definition GetBegin :: "free_space_map \<Rightarrow> bpm \<Rightarrow> u32 \<Rightarrow> (int \<times> free_space_map \<times> bpm) option" where
  "GetBegin m b need_space = do {
     (fo, b) \<leftarrow> BPM_FetchPage b (fsm_first m);
     case fo of None \<Rightarrow> Some (INVALID_PAGE_ID, m, b)
     | Some f \<Rightarrow> search_space (m\<lparr>fsm_internal_index := Some (- 1), fsm_page_index := Some (- 1)\<rparr>) b f 0 need_space }"

definition GetNext :: "free_space_map \<Rightarrow> bpm \<Rightarrow> u32 \<Rightarrow> (int \<times> free_space_map \<times> bpm) option" where
  "GetNext m b need_space = do {
     page_index \<leftarrow> fsm_page_index m;
     (fo, b) \<leftarrow> BPM_FetchPage b page_index;
     case fo of None \<Rightarrow> Some (INVALID_PAGE_ID, m, b)
     | Some f \<Rightarrow> do {
         index \<leftarrow> fsm_internal_index m;
         search_space m b f (index + 1) need_space } }"

partial_function (option) search_page :: "bpm \<Rightarrow> int \<Rightarrow> int \<Rightarrow> u32 \<Rightarrow> (int \<times> bpm) option" where
  "search_page b f page_id free_space = do {
     d \<leftarrow> frame_data b f;
     pair_count \<leftarrow> FP_GetPairCount d;
     r \<leftarrow> find_pair (is_page page_id) d 0 (unat pair_count);
     self \<leftarrow> frame_id_of b f;
     case r of
       Some i \<Rightarrow> do {
         d \<leftarrow> FP_SetFreeSpace d i free_space;
         b \<leftarrow> write_frame b f d;
         (_, b) \<leftarrow> BPM_UnpinPage b self True;
         Some (self, b) }
     | None \<Rightarrow> do {
         next_page_id \<leftarrow> FP_GetNextPageId d;
         (_, b) \<leftarrow> BPM_UnpinPage b self False;
         if next_page_id = INVALID_PAGE_ID then Some (INVALID_PAGE_ID, b)
         else do {
           (fo, b) \<leftarrow> BPM_FetchPage b next_page_id;
           f \<leftarrow> fo;
           search_page b f page_id free_space } } }"

definition SetFreeSpace :: "free_space_map \<Rightarrow> bpm \<Rightarrow> int \<Rightarrow> u32 \<Rightarrow> (int \<times> bpm) option" where
  "SetFreeSpace m b page_id free_space = do {
     (fo, b) \<leftarrow> BPM_FetchPage b (fsm_first m);
     case fo of None \<Rightarrow> Some (INVALID_PAGE_ID, b)
     | Some f \<Rightarrow> search_page b f page_id free_space }"

text \<open>The debugging accessor; it leaves the page pinned.\<close>

definition FSM_GetFreeSpace :: "bpm \<Rightarrow> int \<Rightarrow> u32 \<Rightarrow> (u32 \<times> bpm) option" where
  "FSM_GetFreeSpace b page_id internal_index = do {
     (fo, b) \<leftarrow> BPM_FetchPage b page_id;
     f \<leftarrow> fo;
     d \<leftarrow> frame_data b f;
     _ \<leftarrow> FP_GetPairCount d;
     n \<leftarrow> FP_GetFreeSpace d internal_index;
     Some (n, b) }"

end
