(* ===== verification/Table_Heap.thy ===== *)
theory Table_Heap
  imports Free_Space_Map Table_Page_Map
begin

text \<open>
  Table heaps: \<^verbatim>\<open>TableHeap\<close> of \<^verbatim>\<open>include/storage/table_heap.h\<close> and \<^verbatim>\<open>storage/table_heap.cpp\<close>, and its iterator
  (\<^verbatim>\<open>storage/table_iterator.cpp\<close>), over the buffer pool, the table pages and the free-space map, in the
  configuration of the repository (\<^verbatim>\<open>USE_FREESPACE_MAP\<close>). Page pointers are frame numbers, dereferenced at the
  time of use. Latches, the transaction, the lock and the log manager are passed on and unused in the code.
\<close>

section \<open>State and construction\<close>

text \<open>\<open>th_fsm\<close> is \<^term>\<open>None\<close> once the map has been deleted.\<close>

record table_heap =
  th_bpm :: bpm
  th_first_page_id :: int
  th_schema :: schema
  th_fsm :: "free_space_map option"

definition heap_fetch :: "table_heap \<Rightarrow> int \<Rightarrow> (int option \<times> table_heap) option" where
  "heap_fetch h p = do { (fo, b) \<leftarrow> BPM_FetchPage (th_bpm h) p; Some (fo, h\<lparr>th_bpm := b\<rparr>) }"

definition heap_unpin :: "table_heap \<Rightarrow> int \<Rightarrow> bool \<Rightarrow> table_heap option" where
  "heap_unpin h p is_dirty = do { (_, b) \<leftarrow> BPM_UnpinPage (th_bpm h) p is_dirty; Some (h\<lparr>th_bpm := b\<rparr>) }"

definition heap_delete_page :: "table_heap \<Rightarrow> int \<Rightarrow> table_heap option" where
  "heap_delete_page h p = do { (_, b) \<leftarrow> BPM_DeletePage (th_bpm h) p; Some (h\<lparr>th_bpm := b\<rparr>) }"

definition heap_put :: "table_heap \<Rightarrow> int \<Rightarrow> buffer \<Rightarrow> table_heap option" where
  "heap_put h f d = do { b \<leftarrow> write_frame (th_bpm h) f d; Some (h\<lparr>th_bpm := b\<rparr>) }"

abbreviation heap_data :: "table_heap \<Rightarrow> int \<Rightarrow> buffer option" where "heap_data h f \<equiv> frame_data (th_bpm h) f"
abbreviation heap_frame_id :: "table_heap \<Rightarrow> int \<Rightarrow> int option" where "heap_frame_id h f \<equiv> frame_id_of (th_bpm h) f"

text \<open>\<^verbatim>\<open>freespace_map_->SetFreeSpace(page_id, page->GetFreeSpace())\<close>.\<close>

definition record_space :: "table_heap \<Rightarrow> int \<Rightarrow> int \<Rightarrow> table_heap option" where
  "record_space h page_id f = do {
     m \<leftarrow> th_fsm h;
     d \<leftarrow> heap_data h f;
     n \<leftarrow> Table_Page.GetFreeSpace d;
     (_, b) \<leftarrow> SetFreeSpace m (th_bpm h) page_id n;
     Some (h\<lparr>th_bpm := b\<rparr>) }"

definition TableHeap_new :: "bpm \<Rightarrow> schema \<Rightarrow> table_heap option" where
  "TableHeap_new b schema = do {
     (r, b) \<leftarrow> BPM_NewPage b;
     (first_page_id, f) \<leftarrow> r;
     d \<leftarrow> frame_data b f;
     d \<leftarrow> TP_Init d first_page_id INVALID_PAGE_ID;
     b \<leftarrow> write_frame b f d;
     (r, b) \<leftarrow> BPM_NewPage b;
     (_, g) \<leftarrow> r;
     map_id \<leftarrow> frame_id_of b g;
     (m, b) \<leftarrow> FreeSpaceMap_new map_id b;
     d \<leftarrow> frame_data b f;
     n \<leftarrow> Table_Page.GetFreeSpace d;
     (m, b) \<leftarrow> SetNewPair m b first_page_id n;
     (_, b) \<leftarrow> BPM_UnpinPage b first_page_id True;
     map_id \<leftarrow> frame_id_of b g;
     (_, b) \<leftarrow> BPM_UnpinPage b map_id True;
     Some \<lparr>th_bpm = b, th_first_page_id = first_page_id, th_schema = schema, th_fsm = Some m\<rparr> }"

definition TableHeap_open :: "bpm \<Rightarrow> int \<Rightarrow> int \<Rightarrow> schema \<Rightarrow> table_heap option" where
  "TableHeap_open b first_page_id freespace_map_page_id schema = do {
     (m, b) \<leftarrow> FreeSpaceMap_new freespace_map_page_id b;
     Some \<lparr>th_bpm = b, th_first_page_id = first_page_id, th_schema = schema, th_fsm = Some m\<rparr> }"

section \<open>Operations\<close>

text \<open>
  The loop of \<^verbatim>\<open>InsertTuple\<close>; \<open>true_page\<close> is the frame of the page tried last. In the branch for a new page that
  frame has been unpinned when its link is written.
\<close>

partial_function (option) insert_loop ::
    "table_heap \<Rightarrow> row \<Rightarrow> u32 \<Rightarrow> int \<Rightarrow> int option \<Rightarrow> (bool \<times> row \<times> table_heap) option" where
  "insert_loop h row need_space next_page_id true_page =
     (if next_page_id = INVALID_PAGE_ID then do {
        (r, b) \<leftarrow> BPM_NewPage (th_bpm h);
        let h = h\<lparr>th_bpm := b\<rparr>;
        case r of None \<Rightarrow> Some (False, row, h)
        | Some (next_page_id, f) \<Rightarrow> do {
            prev \<leftarrow> (case true_page of None \<Rightarrow> Some INVALID_PAGE_ID | Some g \<Rightarrow> heap_frame_id h g);
            d \<leftarrow> heap_data h f;
            d \<leftarrow> TP_Init d next_page_id prev;
            (_, d, row) \<leftarrow> TP_InsertTuple (th_schema h) d row;
            h \<leftarrow> heap_put h f d;
            n \<leftarrow> Table_Page.GetFreeSpace d;
            m \<leftarrow> th_fsm h;
            (m, b) \<leftarrow> SetNewPair m (th_bpm h) next_page_id n;
            let h = h\<lparr>th_bpm := b, th_fsm := Some m\<rparr>;
            h \<leftarrow> heap_unpin h next_page_id True;
            h \<leftarrow> (case true_page of None \<Rightarrow> Some h
              | Some g \<Rightarrow> do {
                  d \<leftarrow> heap_data h g;
                  d \<leftarrow> SetNextPageId d next_page_id;
                  h \<leftarrow> heap_put h g d;
                  self \<leftarrow> heap_frame_id h g;
                  heap_unpin h self True });
            Some (True, row, h) } }
      else do {
        (fo, h) \<leftarrow> heap_fetch h next_page_id;
        case fo of None \<Rightarrow> Some (False, row, h)
        | Some f \<Rightarrow> do {
            d \<leftarrow> heap_data h f;
            (ok, d, row) \<leftarrow> TP_InsertTuple (th_schema h) d row;
            h \<leftarrow> heap_put h f d;
            if ok then do {
              h \<leftarrow> record_space h next_page_id f;
              h \<leftarrow> heap_unpin h next_page_id True;
              Some (True, row, h) }
            else do {
              h \<leftarrow> heap_unpin h next_page_id False;
              m \<leftarrow> th_fsm h;
              (p, m, b) \<leftarrow> GetNext m (th_bpm h) need_space;
              insert_loop (h\<lparr>th_bpm := b, th_fsm := Some m\<rparr>) row need_space p (Some f) } } })"

definition TH_InsertTuple :: "table_heap \<Rightarrow> row \<Rightarrow> (bool \<times> row \<times> table_heap) option" where
  "TH_InsertTuple h row = do {
     need_space \<leftarrow> Row_GetSerializedSize (th_schema h) row;
     if need_space > SIZE_MAX_ROW then Some (False, row, h)
     else do {
       m \<leftarrow> th_fsm h;
       (p, m, b) \<leftarrow> GetBegin m (th_bpm h) (of_nat need_space);
       insert_loop (h\<lparr>th_bpm := b, th_fsm := Some m\<rparr>) row (of_nat need_space) p None } }"

text \<open>The result of \<^verbatim>\<open>page->MarkDelete\<close> is not used.\<close>

definition TH_MarkDelete :: "table_heap \<Rightarrow> rowid \<Rightarrow> (bool \<times> table_heap) option" where
  "TH_MarkDelete h rid = do {
     (fo, h) \<leftarrow> heap_fetch h (rid_page rid);
     case fo of None \<Rightarrow> Some (False, h)
     | Some f \<Rightarrow> do {
         d \<leftarrow> heap_data h f;
         (_, d) \<leftarrow> TP_MarkDelete d rid;
         h \<leftarrow> heap_put h f d;
         self \<leftarrow> heap_frame_id h f;
         h \<leftarrow> record_space h self f;
         d \<leftarrow> heap_data h f;
         p \<leftarrow> GetTablePageId d;
         h \<leftarrow> heap_unpin h p True;
         Some (True, h) } }"

definition TH_GetTuple :: "table_heap \<Rightarrow> row \<Rightarrow> (bool \<times> row \<times> table_heap) option" where
  "TH_GetTuple h row = do {
     (fo, h) \<leftarrow> heap_fetch h (rid_page (row_rid row));
     case fo of None \<Rightarrow> Some (False, row, h)
     | Some f \<Rightarrow> do {
         d \<leftarrow> heap_data h f;
         (ok, row) \<leftarrow> TP_GetTuple (th_schema h) d row;
         p \<leftarrow> GetTablePageId d;
         h \<leftarrow> heap_unpin h p False;
         Some (ok, row, h) } }"

text \<open>
  \<^verbatim>\<open>TablePage::UpdateTuple\<close> returns a \<^verbatim>\<open>bool\<close>, which is stored in an \<^verbatim>\<open>int\<close>: true is 1 and false is 0, and the
  \<^verbatim>\<open>switch\<close> takes 0 for success.
\<close>

definition TH_UpdateTuple :: "table_heap \<Rightarrow> row \<Rightarrow> rowid \<Rightarrow> (bool \<times> table_heap) option" where
  "TH_UpdateTuple h row rid =
     (if rid = INVALID_ROWID then Some (False, h)
      else do {
        (fo, h) \<leftarrow> heap_fetch h (rid_page rid);
        case fo of None \<Rightarrow> Some (False, h)
        | Some f \<Rightarrow> do {
            (got, ori_row, h) \<leftarrow> TH_GetTuple h \<lparr>row_rid = rid, row_fields = []\<rparr>;
            if \<not> got then do {
              d \<leftarrow> heap_data h f;
              p \<leftarrow> GetTablePageId d;
              h \<leftarrow> heap_unpin h p False;
              Some (False, h) }
            else do {
              d \<leftarrow> heap_data h f;
              (ok, d, _) \<leftarrow> TP_UpdateTuple (th_schema h) d row ori_row;
              h \<leftarrow> heap_put h f d;
              let update_tuple_result = (if ok then 1 else 0 :: int);
              self \<leftarrow> heap_frame_id h f;
              h \<leftarrow> record_space h self f;
              d \<leftarrow> heap_data h f;
              p \<leftarrow> GetTablePageId d;
              h \<leftarrow> heap_unpin h p (update_tuple_result = 0);
              Some (update_tuple_result = 0, h) } } })"

definition TH_ApplyDelete :: "table_heap \<Rightarrow> rowid \<Rightarrow> table_heap option" where
  "TH_ApplyDelete h rid = do {
     (fo, h) \<leftarrow> heap_fetch h (rid_page rid);
     case fo of None \<Rightarrow> Some h
     | Some f \<Rightarrow> do {
         d \<leftarrow> heap_data h f;
         d \<leftarrow> TP_ApplyDelete d rid;
         h \<leftarrow> heap_put h f d;
         h \<leftarrow> record_space h (rid_page rid) f;
         heap_unpin h (rid_page rid) True } }"

definition TH_RollbackDelete :: "table_heap \<Rightarrow> rowid \<Rightarrow> table_heap option" where
  "TH_RollbackDelete h rid = do {
     (fo, h) \<leftarrow> heap_fetch h (rid_page rid);
     f \<leftarrow> fo;
     d \<leftarrow> heap_data h f;
     d \<leftarrow> TP_RollbackDelete d rid;
     h \<leftarrow> heap_put h f d;
     h \<leftarrow> record_space h (rid_page rid) f;
     d \<leftarrow> heap_data h f;
     p \<leftarrow> GetTablePageId d;
     heap_unpin h p True }"

partial_function (option) free_heap_loop :: "table_heap \<Rightarrow> int \<Rightarrow> table_heap option" where
  "free_heap_loop h next_page_id =
     (if next_page_id = INVALID_PAGE_ID then Some h
      else do {
        (fo, h) \<leftarrow> heap_fetch h next_page_id;
        f \<leftarrow> fo;
        d \<leftarrow> heap_data h f;
        n \<leftarrow> GetNextPageId d;
        h \<leftarrow> heap_unpin h next_page_id False;
        h \<leftarrow> heap_delete_page h next_page_id;
        free_heap_loop h n })"

definition FreeTableHeap :: "table_heap \<Rightarrow> table_heap option" where
  "FreeTableHeap h = free_heap_loop h (th_first_page_id h)"

text \<open>The default argument \<^verbatim>\<open>INVALID_PAGE_ID\<close> deletes the map and starts at the first page.\<close>

partial_function (option) DeleteTable :: "table_heap \<Rightarrow> int \<Rightarrow> table_heap option" where
  "DeleteTable h page_id =
     (if page_id \<noteq> INVALID_PAGE_ID then do {
        (fo, h) \<leftarrow> heap_fetch h page_id;
        f \<leftarrow> fo;
        d \<leftarrow> heap_data h f;
        n \<leftarrow> GetNextPageId d;
        h \<leftarrow> (if n \<noteq> INVALID_PAGE_ID then DeleteTable h n else Some h);
        h \<leftarrow> heap_unpin h page_id False;
        heap_delete_page h page_id }
      else do {
        _ \<leftarrow> th_fsm h;
        DeleteTable (h\<lparr>th_fsm := None\<rparr>) (th_first_page_id h) })"

section \<open>Iterators\<close>

text \<open>\<open>ti_null\<close>: the pointer to the heap is null, as in \<^verbatim>\<open>End()\<close>. Copies of an iterator share the pinned page.\<close>

record table_iterator =
  ti_rid :: rowid
  ti_null :: bool
  ti_page :: "int option"
  ti_row :: row

definition TableIterator_new :: "table_heap \<Rightarrow> rowid \<Rightarrow> (table_iterator \<times> table_heap) option" where
  "TableIterator_new h rid =
     (if rid_page rid \<noteq> INVALID_PAGE_ID then do {
        (_, row, h) \<leftarrow> TH_GetTuple h \<lparr>row_rid = rid, row_fields = []\<rparr>;
        (fo, h) \<leftarrow> heap_fetch h (rid_page rid);
        Some (\<lparr>ti_rid = rid, ti_null = False, ti_page = fo, ti_row = row\<rparr>, h) }
      else Some (\<lparr>ti_rid = rid, ti_null = False, ti_page = None, ti_row = \<lparr>row_rid = rid, row_fields = []\<rparr>\<rparr>, h))"

definition TableIterator_copy :: "table_iterator \<Rightarrow> table_iterator" where
  "TableIterator_copy other = \<lparr>ti_rid = ti_rid other, ti_null = ti_null other, ti_page = ti_page other, ti_row = ti_row other\<rparr>"

definition TableIterator_delete :: "table_heap \<Rightarrow> table_iterator \<Rightarrow> table_heap option" where
  "TableIterator_delete h it =
     (case ti_page it of None \<Rightarrow> Some h
      | Some f \<Rightarrow> do { self \<leftarrow> heap_frame_id h f; heap_unpin h self False })"

definition ti_eq :: "table_iterator \<Rightarrow> table_iterator \<Rightarrow> bool" where
  "ti_eq it itr \<longleftrightarrow> row_rid (ti_row it) = row_rid (ti_row itr)"

definition ti_neq :: "table_iterator \<Rightarrow> table_iterator \<Rightarrow> bool" where
  "ti_neq it itr \<longleftrightarrow> (if ti_eq it itr then False else True)"

definition ti_deref :: "table_iterator \<Rightarrow> row" where "ti_deref it = ti_row it"

definition ti_assign :: "table_iterator \<Rightarrow> table_iterator \<Rightarrow> table_iterator" where
  "ti_assign it itr = \<lparr>ti_rid = ti_rid itr, ti_null = ti_null itr, ti_page = ti_page itr, ti_row = ti_row itr\<rparr>"

text \<open>The loop of \<^verbatim>\<open>MoveToNextTuple\<close>, with the page in frame \<open>f\<close>.\<close>

partial_function (option) move_loop ::
    "table_heap \<Rightarrow> table_iterator \<Rightarrow> int \<Rightarrow> bool \<Rightarrow> (table_iterator \<times> table_heap) option" where
  "move_loop h it f first_slot = do {
     let rid = (if \<not> first_slot then \<lparr>rid_page = rid_page (ti_rid it), rid_slot = rid_slot (ti_rid it) + 1\<rparr> else ti_rid it);
     let it = it\<lparr>ti_rid := rid\<rparr>;
     d \<leftarrow> heap_data h f;
     n \<leftarrow> GetTupleCount d;
     if rid_slot rid < n then do {
       s \<leftarrow> GetTupleSize d (unat (rid_slot rid));
       if \<not> IsDeleted s then do {
         (_, row, h) \<leftarrow> TH_GetTuple h ((ti_row it)\<lparr>row_rid := rid\<rparr>);
         self \<leftarrow> heap_frame_id h f;
         h \<leftarrow> heap_unpin h self False;
         Some (it\<lparr>ti_row := row, ti_page := Some f\<rparr>, h) }
       else move_loop h it f False }
     else do {
       next_page_id \<leftarrow> GetNextPageId d;
       self \<leftarrow> heap_frame_id h f;
       h \<leftarrow> heap_unpin h self False;
       if next_page_id = INVALID_PAGE_ID then do {
         let rid = \<lparr>rid_page = INVALID_PAGE_ID, rid_slot = 0\<rparr>;
         Some (it\<lparr>ti_page := None, ti_rid := rid, ti_row := (ti_row it)\<lparr>row_rid := rid\<rparr>\<rparr>, h) }
       else do {
         (fo, h) \<leftarrow> heap_fetch h next_page_id;
         f \<leftarrow> fo;
         move_loop h (it\<lparr>ti_rid := \<lparr>rid_page = next_page_id, rid_slot = 0\<rparr>\<rparr>) f True } } }"

definition MoveToNextTuple :: "table_heap \<Rightarrow> table_iterator \<Rightarrow> (table_iterator \<times> table_heap) option" where
  "MoveToNextTuple h it = (case ti_page it of None \<Rightarrow> Some (it, h) | Some f \<Rightarrow> move_loop h it f False)"

definition TH_End :: table_iterator where
  "TH_End = (let rid = \<lparr>rid_page = INVALID_PAGE_ID, rid_slot = 0\<rparr> in
     \<lparr>ti_rid = rid, ti_null = True, ti_page = None, ti_row = \<lparr>row_rid = rid, row_fields = []\<rparr>\<rparr>)"

definition TH_Begin :: "table_heap \<Rightarrow> (table_iterator \<times> table_heap) option" where
  "TH_Begin h = do {
     (fo, h) \<leftarrow> heap_fetch h (th_first_page_id h);
     case fo of None \<Rightarrow> Some (TH_End, h)
     | Some f \<Rightarrow> do {
         d \<leftarrow> heap_data h f;
         (found, rid) \<leftarrow> GetFirstTupleRid d;
         self \<leftarrow> heap_frame_id h f;
         h \<leftarrow> heap_unpin h self False;
         if found then TableIterator_new h rid else Some (TH_End, h) } }"

end
