(* ===== verification/Tree_Index.thy ===== *)
theory Tree_Index
  imports B_Plus_Tree
begin

text \<open>
  The index over a B+ tree: \<^verbatim>\<open>BPlusTreeIndex\<close> of \<^verbatim>\<open>include/index/b_plus_tree_index.h\<close> and \<^verbatim>\<open>index/b_plus_tree_index.cpp\<close>. An index is its
  container; the key schema is the one of its key manager. The destructors of the iterators run at the end of their scopes.
\<close>

definition BPlusTreeIndex_new :: "u32 \<Rightarrow> schema \<Rightarrow> nat \<Rightarrow> bpm \<Rightarrow> btree option" where
  "BPlusTreeIndex_new index_id key_schema key_size b =
     BPlusTree_new index_id b \<lparr>km_key_size = key_size, km_key_schema = key_schema\<rparr> UNDEFINED_SIZE UNDEFINED_SIZE"

abbreviation ix_schema :: "btree \<Rightarrow> schema" where "ix_schema t \<equiv> km_key_schema (bt_km t)"

definition InsertEntry :: "btree \<Rightarrow> row \<Rightarrow> rowid \<Rightarrow> (dberr outcome \<times> btree) option" where
  "InsertEntry t key row_id = do {
     index_key \<leftarrow> SerializeFromKey (bt_km t) key (ix_schema t);
     (s, t) \<leftarrow> BT_Insert t index_key row_id;
     case s of Thrown \<Rightarrow> Some (Thrown, t)
     | Done status \<Rightarrow> Some (Done (if \<not> status then DB_FAILED else DB_SUCCESS), t) }"

definition RemoveEntry :: "btree \<Rightarrow> row \<Rightarrow> rowid \<Rightarrow> (dberr \<times> btree) option" where
  "RemoveEntry t key row_id = do {
     index_key \<leftarrow> SerializeFromKey (bt_km t) key (ix_schema t);
     t \<leftarrow> BT_Remove t index_key;
     Some (DB_SUCCESS, t) }"

text \<open>The loops \<^verbatim>\<open>for (; iter != stop; ++iter) result.emplace_back((*iter).second)\<close>.\<close>

partial_function (option) scan_loop :: "btree \<Rightarrow> index_iterator \<Rightarrow> index_iterator \<Rightarrow> rowid list \<Rightarrow> (rowid list \<times> index_iterator \<times> btree) option" where
  "scan_loop t it stop result =
     (if iter_neq it stop then do {
        item \<leftarrow> iter_deref t it;
        (it, t) \<leftarrow> iter_next t it;
        scan_loop t it stop (result @ [snd item]) }
      else Some (result, it, t))"

text \<open>A found value is pushed on the result.\<close>

definition push_value :: "btree \<Rightarrow> generic_key \<Rightarrow> rowid list \<Rightarrow> (bool \<times> rowid list \<times> btree) option" where
  "push_value t key result = do {
     (r, t) \<leftarrow> GetValue t key;
     case r of None \<Rightarrow> Some (False, result, t) | Some v \<Rightarrow> Some (True, result @ [v], t) }"

definition scan_to_end :: "btree \<Rightarrow> index_iterator \<Rightarrow> index_iterator \<Rightarrow> rowid list \<Rightarrow> (rowid list \<times> btree) option" where
  "scan_to_end t it stop result = do {
     (result, it, t) \<leftarrow> scan_loop t it stop result;
     t \<leftarrow> IndexIterator_delete t it;
     Some (result, t) }"

definition ScanKey :: "btree \<Rightarrow> row \<Rightarrow> rowid list \<Rightarrow> string \<Rightarrow> (dberr \<times> rowid list \<times> btree) option" where
  "ScanKey t key result compare_operator = do {
     index_key \<leftarrow> SerializeFromKey (bt_km t) key (ix_schema t);
     (end_iter, t) \<leftarrow> BT_End t;
     (result, t) \<leftarrow>
       (if compare_operator = ''='' then do { (_, result, t) \<leftarrow> push_value t index_key result; Some (result, t) }
        else if compare_operator = ''>'' then do {
          (it, t) \<leftarrow> BT_Begin_at t index_key;
          (found, result, t) \<leftarrow> push_value t index_key result;
          (it, t) \<leftarrow> (if found then iter_next t it else Some (it, t));
          scan_to_end t it end_iter [] }
        else if compare_operator = ''>='' then do {
          (it, t) \<leftarrow> BT_Begin_at t index_key;
          scan_to_end t it end_iter result }
        else if compare_operator = ''<'' \<or> compare_operator = ''<='' then do {
          (stop_iter, t) \<leftarrow> BT_Begin_at t index_key;
          (it, t) \<leftarrow> BT_Begin t;
          (result, t) \<leftarrow> scan_to_end t it stop_iter result;
          (_, result, t) \<leftarrow> (if compare_operator = ''<='' then push_value t index_key result else Some (False, result, t));
          t \<leftarrow> IndexIterator_delete t stop_iter;
          Some (result, t) }
        else if compare_operator = ''<>'' then do {
          (it, t) \<leftarrow> BT_Begin t;
          (result, t) \<leftarrow> scan_to_end t it end_iter result;
          (found, temp, t) \<leftarrow> push_value t index_key [];
          result \<leftarrow> (if found then do { ensure (hd temp \<in> set result); Some (remove1 (hd temp) result) } else Some result);
          Some (result, t) }
        else Some (result, t));
     t \<leftarrow> IndexIterator_delete t end_iter;
     Some (if result \<noteq> [] then DB_SUCCESS else DB_KEY_NOT_FOUND, result, t) }"

definition Index_Destroy :: "nat \<Rightarrow> btree \<Rightarrow> (dberr \<times> btree) option" where
  "Index_Destroy n t = do { t \<leftarrow> Destroy n t INVALID_PAGE_ID; Some (DB_SUCCESS, t) }"

end
