(* ===== verification/Catalog.thy ===== *)
theory Catalog
  imports Catalog_Meta Table_Heap Tree_Index "HOL-Library.AList"
begin

text \<open>
  The catalog manager: \<^verbatim>\<open>CatalogManager\<close> (\<^verbatim>\<open>include/catalog/catalog.h\<close>, \<^verbatim>\<open>catalog/catalog.cpp\<close>) with the objects it
  keeps in memory, \<^verbatim>\<open>TableInfo\<close> and \<^verbatim>\<open>IndexInfo\<close> (\<^verbatim>\<open>include/catalog/table.h\<close>, \<^verbatim>\<open>include/catalog/indexes.h\<close>,
  \<^verbatim>\<open>catalog/indexes.cpp\<close>). All tables and indexes use the one buffer pool of the catalog: the pool of a stored
  heap or tree is replaced by it at each use. An \<^verbatim>\<open>std::unordered_map\<close> is an association list with distinct
  keys, whose order stands for the unspecified order of iteration. The pointer from an index to its table is the
  table's id.
\<close>

section \<open>Tables and indexes in memory\<close>

record table_info =
  tbl_meta :: table_metadata
  tbl_heap :: table_heap

record index_info =
  ix_meta :: index_metadata
  ix_index :: "btree option"
  ix_table :: u32
  ix_key_schema :: schema

definition TableInfo_Init :: "table_metadata \<Rightarrow> table_heap \<Rightarrow> table_info" where
  "TableInfo_Init table_meta table_heap = \<lparr>tbl_meta = table_meta, tbl_heap = table_heap\<rparr>"

abbreviation GetTableName :: "table_info \<Rightarrow> byte list" where "GetTableName i \<equiv> tm_table_name (tbl_meta i)"
abbreviation GetSchema :: "table_info \<Rightarrow> schema" where "GetSchema i \<equiv> tm_schema (tbl_meta i)"

text \<open>\<^term>\<open>None\<close> inside is the null pointer of an unsupported type or a key that is too large.\<close>

definition IndexInfo_CreateIndex :: "index_metadata \<Rightarrow> schema \<Rightarrow> bpm \<Rightarrow> string \<Rightarrow> btree option option" where
  "IndexInfo_CreateIndex meta key_schema b index_type = do {
     let max_size = sum_list (map (\<lambda>c. unat (col_len c)) key_schema);
     if index_type = ''bptree'' then
       if max_size \<le> 8 then map_option Some (BPlusTreeIndex_new (im_index_id meta) key_schema 16 b)
       else if max_size \<le> 24 then map_option Some (BPlusTreeIndex_new (im_index_id meta) key_schema 32 b)
       else if max_size \<le> 56 then map_option Some (BPlusTreeIndex_new (im_index_id meta) key_schema 64 b)
       else if max_size \<le> 120 then map_option Some (BPlusTreeIndex_new (im_index_id meta) key_schema 128 b)
       else if max_size \<le> 248 then map_option Some (BPlusTreeIndex_new (im_index_id meta) key_schema 256 b)
       else Some None
     else Some None }"

fun fields_at :: "row \<Rightarrow> u32 list \<Rightarrow> field list option" where
  "fields_at r [] = Some []"
| "fields_at r (i # is) = do { f \<leftarrow> GetField r (unat i); fs \<leftarrow> fields_at r is; Some (Field_copy f # fs) }"

text \<open>\<^verbatim>\<open>iter++\<close>: the copy that is returned is destroyed at once.\<close>

definition ti_post_increment :: "table_heap \<Rightarrow> table_iterator \<Rightarrow> (table_iterator \<times> table_heap) option" where
  "ti_post_increment h it = do {
     let temp = TableIterator_copy it;
     (it, h) \<leftarrow> MoveToNextTuple h it;
     h \<leftarrow> TableIterator_delete h temp;
     Some (it, h) }"

text \<open>The loop of \<^verbatim>\<open>IndexInfo::Init\<close> that enters the rows of the table.\<close>

partial_function (option) fill_index ::
    "table_heap \<Rightarrow> btree option \<Rightarrow> table_iterator \<Rightarrow> u32 list \<Rightarrow> (unit outcome \<times> btree option \<times> table_heap) option" where
  "fill_index h index it key_map =
     (if ti_neq it TH_End then do {
        fs \<leftarrow> fields_at (ti_row it) key_map;
        t \<leftarrow> index;
        (s, t) \<leftarrow> InsertEntry (t\<lparr>bt_bpm := th_bpm h\<rparr>) (Row_new fs) (row_rid (ti_row it));
        let h = h\<lparr>th_bpm := bt_bpm t\<rparr>;
        case s of Thrown \<Rightarrow> Some (Thrown, Some t, h)
        | Done _ \<Rightarrow> do {
            (it, h) \<leftarrow> ti_post_increment h it;
            fill_index h (Some t) it key_map } }
      else do { h \<leftarrow> TableIterator_delete h it; Some (Done (), index, h) })"

definition IndexInfo_Init :: "index_metadata \<Rightarrow> u32 \<Rightarrow> table_info \<Rightarrow> bpm \<Rightarrow> (unit outcome \<times> index_info \<times> bpm) option" where
  "IndexInfo_Init index_meta table_id info b = do {
     key_schema \<leftarrow> ShallowCopySchema (GetSchema info) (map unat (im_key_map index_meta));
     index \<leftarrow> IndexInfo_CreateIndex index_meta key_schema b ''bptree'';
     let b = (case index of None \<Rightarrow> b | Some t \<Rightarrow> bt_bpm t);
     (it, h) \<leftarrow> TH_Begin ((tbl_heap info)\<lparr>th_bpm := b\<rparr>);
     (s, index, h) \<leftarrow> fill_index h index it (im_key_map index_meta);
     Some (s, \<lparr>ix_meta = index_meta, ix_index = index, ix_table = table_id, ix_key_schema = key_schema\<rparr>, th_bpm h) }"

section \<open>The catalog manager\<close>

record catalog =
  cat_bpm :: bpm
  cat_meta :: catalog_meta
  cat_table_names :: "(byte list \<times> u32) list"
  cat_tables :: "(u32 \<times> table_info) list"
  cat_index_names :: "(byte list \<times> (byte list \<times> u32) list) list"
  cat_indexes :: "(u32 \<times> index_info) list"

definition META_PAGE_ID :: int where "META_PAGE_ID = 0"
definition CATALOG_META_PAGE_ID :: int where "CATALOG_META_PAGE_ID = 0"

text \<open>\<^verbatim>\<open>index_names_[table_name]\<close>: a missing entry is the empty map.\<close>

definition index_map :: "catalog \<Rightarrow> byte list \<Rightarrow> (byte list \<times> u32) list" where
  "index_map c table_name = (case map_of (cat_index_names c) table_name of Some m \<Rightarrow> m | None \<Rightarrow> [])"

definition set_index_map :: "catalog \<Rightarrow> byte list \<Rightarrow> (byte list \<times> u32) list \<Rightarrow> catalog" where
  "set_index_map c table_name m = c\<lparr>cat_index_names := AList.update table_name m (cat_index_names c)\<rparr>"

definition FlushCatalogMetaPage :: "catalog \<Rightarrow> (dberr \<times> catalog) option" where
  "FlushCatalogMetaPage c = do {
     (fo, b) \<leftarrow> BPM_FetchPage (cat_bpm c) META_PAGE_ID;
     f \<leftarrow> fo;
     d \<leftarrow> frame_data b f;
     (d, _) \<leftarrow> CatalogMeta_SerializeTo (cat_meta c) d 0;
     b \<leftarrow> write_frame b f d;
     (ok, b) \<leftarrow> BPM_FlushPage b META_PAGE_ID;
     Some (if \<not> ok then DB_FAILED else DB_SUCCESS, c\<lparr>cat_bpm := b\<rparr>) }"

text \<open>The common part of the constructor and of \<^verbatim>\<open>LoadTable\<close>.\<close>

definition enter_table :: "catalog \<Rightarrow> u32 \<Rightarrow> int \<Rightarrow> catalog option" where
  "enter_table c table_id page_id = do {
     (fo, b) \<leftarrow> BPM_FetchPage (cat_bpm c) page_id;
     f \<leftarrow> fo;
     d \<leftarrow> frame_data b f;
     (meta, _) \<leftarrow> TableMetadata_DeserializeFrom d 0;
     heap \<leftarrow> TableHeap_open b (tm_root_page_id meta) (tm_freespace_map_page_id meta) (tm_schema meta);
     Some (c\<lparr>cat_bpm := th_bpm heap, cat_tables := AList.update table_id (TableInfo_Init meta heap) (cat_tables c),
       cat_table_names := AList.update (tm_table_name meta) table_id (cat_table_names c)\<rparr>) }"

definition LoadTable :: "catalog \<Rightarrow> u32 \<Rightarrow> int \<Rightarrow> (dberr \<times> catalog) option" where
  "LoadTable c table_id page_id =
     (if map_of (cat_tables c) table_id \<noteq> None then Some (DB_TABLE_ALREADY_EXIST, c)
      else do {
        c \<leftarrow> enter_table c table_id page_id;
        let meta = cat_meta c;
        Some (DB_SUCCESS, c\<lparr>cat_meta := meta\<lparr>table_meta_pages := map_put table_id page_id (table_meta_pages meta)\<rparr>\<rparr>) })"

text \<open>The common part of the constructor and of \<^verbatim>\<open>LoadIndex\<close>; a table that is not loaded is a null pointer.\<close>

definition enter_index :: "catalog \<Rightarrow> u32 \<Rightarrow> int \<Rightarrow> (unit outcome \<times> catalog) option" where
  "enter_index c index_id page_id = do {
     (fo, b) \<leftarrow> BPM_FetchPage (cat_bpm c) page_id;
     f \<leftarrow> fo;
     d \<leftarrow> frame_data b f;
     (meta, _) \<leftarrow> IndexMetadata_DeserializeFrom d 0;
     info \<leftarrow> map_of (cat_tables c) (im_table_id meta);
     (s, ix, b) \<leftarrow> IndexInfo_Init meta (im_table_id meta) info b;
     let c = c\<lparr>cat_bpm := b\<rparr>;
     case s of Thrown \<Rightarrow> Some (Thrown, c)
     | Done _ \<Rightarrow> do {
         let c = c\<lparr>cat_indexes := AList.update index_id ix (cat_indexes c)\<rparr>;
         Some (Done (), set_index_map c (GetTableName info)
           (AList.update (im_index_name meta) index_id (index_map c (GetTableName info)))) } }"

definition LoadIndex :: "catalog \<Rightarrow> u32 \<Rightarrow> int \<Rightarrow> (dberr outcome \<times> catalog) option" where
  "LoadIndex c index_id page_id = do {
     (s, c) \<leftarrow> enter_index c index_id page_id;
     case s of Thrown \<Rightarrow> Some (Thrown, c)
     | Done _ \<Rightarrow> do {
         let meta = cat_meta c;
         Some (Done DB_FAILED, c\<lparr>cat_meta := meta\<lparr>index_meta_pages := map_put index_id page_id (index_meta_pages meta)\<rparr>\<rparr>) } }"

fun enter_tables :: "catalog \<Rightarrow> (u32 \<times> int) list \<Rightarrow> catalog option" where
  "enter_tables c [] = Some c"
| "enter_tables c ((table_id, page_id) # rest) = do { c \<leftarrow> enter_table c table_id page_id; enter_tables c rest }"

fun enter_indexes :: "catalog \<Rightarrow> (u32 \<times> int) list \<Rightarrow> (unit outcome \<times> catalog) option" where
  "enter_indexes c [] = Some (Done (), c)"
| "enter_indexes c ((index_id, page_id) # rest) = do {
     (s, c) \<leftarrow> enter_index c index_id page_id;
     case s of Thrown \<Rightarrow> Some (Thrown, c) | Done _ \<Rightarrow> enter_indexes c rest }"

definition CatalogManager_new :: "bpm \<Rightarrow> bool \<Rightarrow> (unit outcome \<times> catalog) option" where
  "CatalogManager_new b init = do {
     let c = \<lparr>cat_bpm = b, cat_meta = CatalogMeta_new, cat_table_names = [], cat_tables = [], cat_index_names = [], cat_indexes = []\<rparr>;
     if init then Some (Done (), c)
     else do {
       (fo, b) \<leftarrow> BPM_FetchPage b CATALOG_META_PAGE_ID;
       f \<leftarrow> fo;
       d \<leftarrow> frame_data b f;
       (meta, _) \<leftarrow> CatalogMeta_DeserializeFrom d 0;
       c \<leftarrow> enter_tables (c\<lparr>cat_bpm := b, cat_meta := meta\<rparr>) (table_meta_pages meta);
       enter_indexes c (index_meta_pages meta) } }"

definition CatalogManager_delete :: "catalog \<Rightarrow> catalog option" where
  "CatalogManager_delete c = do { (_, c) \<leftarrow> FlushCatalogMetaPage c; Some c }"

subsection \<open>Lookup\<close>

definition CM_GetTable :: "catalog \<Rightarrow> byte list \<Rightarrow> dberr \<times> table_info option" where
  "CM_GetTable c table_name =
     (case map_of (cat_table_names c) table_name of
        None \<Rightarrow> (DB_TABLE_NOT_EXIST, None)
      | Some table_id \<Rightarrow>
          (case map_of (cat_tables c) table_id of None \<Rightarrow> (DB_FAILED, None) | Some info \<Rightarrow> (DB_SUCCESS, Some info)))"

definition CM_GetTable_by_id :: "catalog \<Rightarrow> u32 \<Rightarrow> dberr \<times> table_info option" where
  "CM_GetTable_by_id c table_id =
     (case map_of (cat_tables c) table_id of None \<Rightarrow> (DB_FAILED, None) | Some info \<Rightarrow> (DB_SUCCESS, Some info))"

text \<open>The loop appends to the result until an entry is missing.\<close>

fun collect :: "(u32 \<times> 'a) list \<Rightarrow> (byte list \<times> u32) list \<Rightarrow> 'a list \<Rightarrow> dberr \<times> 'a list" where
  "collect objects [] acc = (DB_SUCCESS, acc)"
| "collect objects ((name, i) # rest) acc =
     (case map_of objects i of None \<Rightarrow> (DB_FAILED, acc) | Some x \<Rightarrow> collect objects rest (acc @ [x]))"

definition GetTables :: "catalog \<Rightarrow> dberr \<times> table_info list" where
  "GetTables c = collect (cat_tables c) (cat_table_names c) []"

definition GetIndex :: "catalog \<Rightarrow> byte list \<Rightarrow> byte list \<Rightarrow> (dberr \<times> index_info option) option" where
  "GetIndex c table_name index_name =
     (if map_of (cat_table_names c) table_name = None then Some (DB_TABLE_NOT_EXIST, None)
      else do {
        m \<leftarrow> map_of (cat_index_names c) table_name;
        case map_of m index_name of None \<Rightarrow> Some (DB_INDEX_NOT_FOUND, None)
        | Some index_id \<Rightarrow> do {
            info \<leftarrow> map_of (cat_indexes c) index_id;
            Some (DB_SUCCESS, Some info) } })"

definition GetTableIndexes :: "catalog \<Rightarrow> byte list \<Rightarrow> (dberr \<times> index_info list) \<times> catalog" where
  "GetTableIndexes c table_name =
     (if map_of (cat_table_names c) table_name = None then ((DB_TABLE_NOT_EXIST, []), c)
      else let m = index_map c table_name in (collect (cat_indexes c) m [], set_index_map c table_name m))"

subsection \<open>Creation\<close>

fun find_table_ind :: "schema \<Rightarrow> byte list \<Rightarrow> u32 option" where
  "find_table_ind [] name = None"
| "find_table_ind (j # js) name = (if col_name j = name then Some (col_table_ind j) else find_table_ind js name)"

fun key_map_of :: "schema \<Rightarrow> byte list list \<Rightarrow> u32 list option" where
  "key_map_of schema [] = Some []"
| "key_map_of schema (i # is) =
     (case find_table_ind schema i of None \<Rightarrow> None
      | Some k \<Rightarrow> map_option (\<lambda>ks. k # ks) (key_map_of schema is))"

definition CreateIndex ::
    "catalog \<Rightarrow> byte list \<Rightarrow> byte list \<Rightarrow> byte list list \<Rightarrow> string \<Rightarrow> (dberr outcome \<times> catalog) option" where
  "CreateIndex c table_name index_name index_keys index_type =
     (case map_of (cat_table_names c) table_name of None \<Rightarrow> Some (Done DB_TABLE_NOT_EXIST, c)
      | Some table_id \<Rightarrow>
          let c = set_index_map c table_name (index_map c table_name) in
          if map_of (index_map c table_name) index_name \<noteq> None then Some (Done DB_INDEX_ALREADY_EXIST, c)
          else if index_type \<noteq> ''bptree'' then Some (Done DB_FAILED, c)
          else case map_of (cat_tables c) table_id of None \<Rightarrow> Some (Done DB_FAILED, c)
          | Some info \<Rightarrow>
              case key_map_of (GetSchema info) index_keys of None \<Rightarrow> Some (Done DB_COLUMN_NAME_NOT_EXIST, c)
              | Some key_map \<Rightarrow> do {
                  let index_id = GetNextIndexId (cat_meta c);
                  let c = set_index_map c table_name (AList.update index_name index_id (index_map c table_name));
                  let meta = IndexMetadata_Create index_id index_name table_id key_map;
                  (s, ix, b) \<leftarrow> IndexInfo_Init meta table_id info (cat_bpm c);
                  let c = c\<lparr>cat_bpm := b\<rparr>;
                  case s of Thrown \<Rightarrow> Some (Thrown, c)
                  | Done _ \<Rightarrow> do {
                      let c = c\<lparr>cat_indexes := AList.update index_id ix (cat_indexes c)\<rparr>;
                      (r, b) \<leftarrow> BPM_NewPage (cat_bpm c);
                      (page_id, f) \<leftarrow> r;
                      let cm = cat_meta c;
                      let c = c\<lparr>cat_meta := cm\<lparr>index_meta_pages := map_put index_id page_id (index_meta_pages cm)\<rparr>\<rparr>;
                      d \<leftarrow> frame_data b f;
                      (d, _) \<leftarrow> IndexMetadata_SerializeTo meta d 0;
                      b \<leftarrow> write_frame b f d;
                      Some (Done DB_SUCCESS, c\<lparr>cat_bpm := b\<rparr>) } })"

definition unique_suffix :: "byte list" where "unique_suffix = map of_char ''_unique_index''"

text \<open>The results of \<^verbatim>\<open>CreateIndex\<close> are not looked at.\<close>

fun create_unique_indexes :: "catalog \<Rightarrow> byte list \<Rightarrow> schema \<Rightarrow> (unit outcome \<times> catalog) option" where
  "create_unique_indexes c table_name [] = Some (Done (), c)"
| "create_unique_indexes c table_name (i # is) = do {
     (s, c) \<leftarrow> (if col_unique i then CreateIndex c table_name (col_name i @ unique_suffix) [col_name i] ''bptree''
               else Some (Done DB_SUCCESS, c));
     case s of Thrown \<Rightarrow> Some (Thrown, c) | Done _ \<Rightarrow> create_unique_indexes c table_name is }"

definition CreateTable :: "catalog \<Rightarrow> byte list \<Rightarrow> schema \<Rightarrow> (dberr outcome \<times> catalog) option" where
  "CreateTable c table_name schema =
     (if map_of (cat_table_names c) table_name \<noteq> None then Some (Done DB_TABLE_ALREADY_EXIST, c)
      else do {
        let table_id = GetNextTableId (cat_meta c);
        let c = c\<lparr>cat_table_names := AList.update table_name table_id (cat_table_names c)\<rparr>;
        let deep_copied_schema = DeepCopySchema schema;
        heap \<leftarrow> TableHeap_new (cat_bpm c) deep_copied_schema;
        m \<leftarrow> th_fsm heap;
        let meta = TableMetadata_Create table_id table_name (th_first_page_id heap) (fsm_first m) deep_copied_schema;
        let c = c\<lparr>cat_bpm := th_bpm heap, cat_tables := AList.update table_id (TableInfo_Init meta heap) (cat_tables c)\<rparr>;
        (r, b) \<leftarrow> BPM_NewPage (cat_bpm c);
        (page_id, f) \<leftarrow> r;
        let cm = cat_meta c;
        let c = c\<lparr>cat_meta := cm\<lparr>table_meta_pages := map_put table_id page_id (table_meta_pages cm)\<rparr>\<rparr>;
        d \<leftarrow> frame_data b f;
        (d, _) \<leftarrow> TableMetadata_SerializeTo meta d 0;
        b \<leftarrow> write_frame b f d;
        (s, c) \<leftarrow> create_unique_indexes (c\<lparr>cat_bpm := b\<rparr>) table_name schema;
        case s of Thrown \<Rightarrow> Some (Thrown, c) | Done _ \<Rightarrow> Some (Done DB_SUCCESS, c) })"

subsection \<open>Removal\<close>

definition DropTable :: "catalog \<Rightarrow> byte list \<Rightarrow> dberr \<times> catalog" where
  "DropTable c table_name =
     (case map_of (cat_table_names c) table_name of
        None \<Rightarrow> (DB_TABLE_NOT_EXIST, c)
      | Some table_id \<Rightarrow> (DB_SUCCESS, c\<lparr>cat_table_names := AList.delete table_name (cat_table_names c),
          cat_tables := AList.delete table_id (cat_tables c)\<rparr>))"

text \<open>The common part of \<^verbatim>\<open>DropIndex\<close> and \<^verbatim>\<open>DropAllIndexes\<close>, for an index that the table's map names.\<close>

definition erase_index :: "catalog \<Rightarrow> byte list \<Rightarrow> byte list \<Rightarrow> u32 \<Rightarrow> dberr \<times> catalog" where
  "erase_index c table_name index_name index_id =
     (if map_of (cat_indexes c) index_id = None then (DB_FAILED, c)
      else (DB_SUCCESS, set_index_map (c\<lparr>cat_indexes := AList.delete index_id (cat_indexes c)\<rparr>) table_name
        (AList.delete index_name (index_map c table_name))))"

definition DropIndex :: "catalog \<Rightarrow> byte list \<Rightarrow> byte list \<Rightarrow> (dberr \<times> catalog) option" where
  "DropIndex c table_name index_name =
     (if map_of (cat_table_names c) table_name = None then Some (DB_TABLE_NOT_EXIST, c)
      else do {
        m \<leftarrow> map_of (cat_index_names c) table_name;
        case map_of m index_name of None \<Rightarrow> Some (DB_INDEX_NOT_FOUND, c)
        | Some index_id \<Rightarrow> Some (erase_index c table_name index_name index_id) })"

fun drop_in_tables :: "catalog \<Rightarrow> byte list \<Rightarrow> (byte list \<times> u32) list \<Rightarrow> u32 \<Rightarrow> (dberr \<times> u32 \<times> catalog) option" where
  "drop_in_tables c index_name [] drop_tot = Some (DB_SUCCESS, drop_tot, c)"
| "drop_in_tables c index_name ((table_name, _) # rest) drop_tot = do {
     m \<leftarrow> map_of (cat_index_names c) table_name;
     case map_of m index_name of None \<Rightarrow> drop_in_tables c index_name rest drop_tot
     | Some index_id \<Rightarrow>
         (case erase_index c table_name index_name index_id of
            (DB_SUCCESS, c) \<Rightarrow> drop_in_tables c index_name rest (drop_tot + 1)
          | (e, c) \<Rightarrow> Some (e, drop_tot, c)) }"

definition DropAllIndexes :: "catalog \<Rightarrow> byte list \<Rightarrow> u32 \<Rightarrow> (dberr \<times> u32 \<times> catalog) option" where
  "DropAllIndexes c index_name drop_tot = drop_in_tables c index_name (cat_table_names c) drop_tot"

end
