(* ===== verification/Statements.thy ===== *)
theory Statements
  imports Expressions Syntax_Tree Catalog
begin

text \<open>
  Binding of syntax trees to statements and plans: \<^verbatim>\<open>include/planner/statement/*.h\<close> and
  \<^verbatim>\<open>planner/planner.cpp\<close>. A statement is a record that \<^verbatim>\<open>SyntaxTree2Statement\<close> fills while it walks along the
  siblings. A thrown \<^verbatim>\<open>std::logic_error\<close> (also the \<^verbatim>\<open>invalid_argument\<close> and \<^verbatim>\<open>out_of_range\<close> of \<^verbatim>\<open>stoi\<close> and \<^verbatim>\<open>stof\<close>, which
  derive from it) is \<open>Inl Logic_error\<close>, a null pointer that is dereferenced \<open>Inl Aborted\<close>. \<^verbatim>\<open>ToString\<close> is left out.
\<close>

section \<open>Conversion of numbers\<close>

text \<open>The numbers of the lexer: an optional sign, digits, and for \<^verbatim>\<open>stof\<close> a fraction; the rest of the string is ignored.\<close>

definition is_digit :: "char \<Rightarrow> bool" where
  "is_digit c \<longleftrightarrow> of_char CHR ''0'' \<le> (of_char c :: int) \<and> (of_char c :: int) \<le> of_char CHR ''9''"

definition digit_value :: "char \<Rightarrow> int" where "digit_value c = of_char c - of_char CHR ''0''"

definition decimal :: "string \<Rightarrow> int" where "decimal ds = foldl (\<lambda>n c. 10 * n + digit_value c) 0 ds"

definition is_space :: "char \<Rightarrow> bool" where
  "is_space c \<longleftrightarrow> c = CHR '' '' \<or> (9 \<le> (of_char c :: int) \<and> (of_char c :: int) \<le> 13)"

definition sign_split :: "string \<Rightarrow> bool \<times> string" where
  "sign_split s = (let s = dropWhile is_space s in
     case s of c # r \<Rightarrow> if c = CHR ''-'' then (True, r) else if c = CHR ''+'' then (False, r) else (False, s) | [] \<Rightarrow> (False, s))"

definition stoi :: "string \<Rightarrow> int attempt" where
  "stoi s =
     (let (neg, r) = sign_split s; ds = takeWhile is_digit r; v = (if neg then - decimal ds else decimal ds) in
      if ds = [] then Inl Logic_error
      else if v < - (2 ^ 31) \<or> 2 ^ 31 \<le> v then Inl Logic_error else Inr v)"

text \<open>
  Rounding of \<open>n / d\<close> to the nearest binary32, ties to even: \<open>e\<close> is the least exponent, from \<open>-149\<close> on, for which
  the significand is below \<open>2 ^ 24\<close>; the result is \<open>None\<close> out of range. An inexact subnormal is out of range.
\<close>

definition scaled :: "int \<Rightarrow> int \<Rightarrow> int \<Rightarrow> int \<times> int" where
  "scaled n d e = (if 0 \<le> e then (n, d * 2 ^ nat e) else (n * 2 ^ nat (- e), d))"

definition round_half_even :: "int \<Rightarrow> int \<Rightarrow> int" where
  "round_half_even n d =
     (let q = n div d; r = n mod d in if 2 * r < d \<or> (2 * r = d \<and> even q) then q else q + 1)"

definition binary32 :: "int \<Rightarrow> int \<Rightarrow> u32 option" where
  "binary32 n d =
     (case find (\<lambda>e. let (a, b) = scaled n d e in a < 2 ^ 24 * b) [- 149 .. 104] of
        None \<Rightarrow> None
      | Some e \<Rightarrow>
          let (a, b) = scaled n d e; m = round_half_even a b; (m, e) = (if m = 2 ^ 24 then (2 ^ 23, e + 1) else (m, e)) in
          if m < 2 ^ 23 then (if a mod b = 0 then Some (of_int m) else None)
          else if 104 < e then None
          else Some (of_int ((e + 150) * 2 ^ 23 + (m - 2 ^ 23))))"

definition stof :: "string \<Rightarrow> u32 attempt" where
  "stof s =
     (let (neg, r) = sign_split s; ds = takeWhile is_digit r; r' = dropWhile is_digit r;
          fs = (case r' of c # f \<Rightarrow> if c = CHR ''.'' then takeWhile is_digit f else [] | [] \<Rightarrow> []) in
      if ds = [] \<and> fs = [] then Inl Logic_error
      else case binary32 (decimal (ds @ fs)) (10 ^ length fs) of
          None \<Rightarrow> Inl Logic_error
        | Some w \<Rightarrow> Inr (if neg then w OR 0x80000000 else w))"

section \<open>Expressions from syntax trees\<close>

definition bytes_of :: "string \<Rightarrow> byte list" where "bytes_of s = map of_char s"

text \<open>\<^verbatim>\<open>GetTable(table_name, info)\<close> followed by \<^verbatim>\<open>info->GetSchema()\<close>: \<^verbatim>\<open>info\<close> stays null when the table is missing.\<close>

definition schema_of :: "catalog \<Rightarrow> byte list \<Rightarrow> schema attempt" where
  "schema_of c table_name = andthen (of_option (snd (CM_GetTable c table_name))) (\<lambda>info. Inr (GetSchema info))"

text \<open>The index of a named column; the missing column is an exception.\<close>

definition column_index :: "schema \<Rightarrow> syntax_node \<Rightarrow> nat attempt" where
  "column_index schema n = andthen (of_option (sn_val n)) (\<lambda>v.
     case GetColumnIndex schema (bytes_of v) of (DB_SUCCESS, Some i) \<Rightarrow> Inr i | _ \<Rightarrow> Inl Logic_error)"

definition MakeColumnValueExpression :: "catalog \<Rightarrow> byte list \<Rightarrow> syntax_node \<Rightarrow> expression attempt" where
  "MakeColumnValueExpression c table_name col =
     andthen (schema_of c table_name) (\<lambda>schema. andthen (column_index schema col) (\<lambda>index.
       if index < length schema then Inr (ColumnValueExpression 0 index (col_type (schema ! index))) else Inl Aborted))"

definition MakeConstantValueExpression :: "TypeId \<Rightarrow> syntax_node \<Rightarrow> expression attempt" where
  "MakeConstantValueExpression ty v =
     (if sn_type v = kNodeNull then Inr (ConstantValueExpression (Field_null ty))
      else case ty of
        kTypeInt \<Rightarrow>
          if sn_type v \<noteq> kNodeNumber then Inl Logic_error
          else andthen (of_option (sn_val v)) (\<lambda>s. andthen (stoi s) (\<lambda>i. Inr (ConstantValueExpression (Field_int (word_of_int i)))))
      | kTypeFloat \<Rightarrow>
          if sn_type v \<noteq> kNodeNumber then Inl Logic_error
          else andthen (of_option (sn_val v)) (\<lambda>s. andthen (stof s) (\<lambda>w. Inr (ConstantValueExpression (Field_float w))))
      | kTypeChar \<Rightarrow>
          if sn_type v \<noteq> kNodeString then Inl Logic_error
          else andthen (of_option (sn_val v)) (\<lambda>s.
            andthen (of_option (Field_char (Some (bytes_of s)) (of_nat (length s)) True)) (\<lambda>f. Inr (ConstantValueExpression f)))
      | kTypeInvalid \<Rightarrow> Inl Logic_error)"

definition add_column :: "nat \<Rightarrow> nat list option \<Rightarrow> nat list option" where
  "add_column index cols = map_option (\<lambda>xs. if index \<in> set xs then xs else xs @ [index]) cols"

text \<open>
  \<open>cols\<close> and \<open>has_or\<close> are the optional output parameters. The recursive calls do not pass \<open>has_or\<close> on.
\<close>

fun MakePredicate ::
    "catalog \<Rightarrow> syntax_node option \<Rightarrow> byte list \<Rightarrow> nat list option \<Rightarrow> bool option \<Rightarrow> (expression \<times> nat list option \<times> bool option) attempt" where
  "MakePredicate c None table_name cols has_or = Inl Aborted"
| "MakePredicate c (Some (SyntaxNode i ty l k ch nx v)) table_name cols has_or =
     (if ty = kNodeConnector then
        (case ch of None \<Rightarrow> Inl Aborted
         | Some (SyntaxNode i1 ty1 l1 k1 ch1 nx1 v1) \<Rightarrow>
             andthen (MakePredicate c (Some (SyntaxNode i1 ty1 l1 k1 ch1 nx1 v1)) table_name cols None) (\<lambda>(left, cols, _).
             andthen (MakePredicate c nx1 table_name cols None) (\<lambda>(right, cols, _).
             andthen (of_option v) (\<lambda>s.
               let has_or = (if s = ''or'' then map_option (\<lambda>_. True) has_or else has_or) in
               andthen (Char2Type s) (\<lambda>logic_type.
               andthen (LogicExpression_new left right logic_type) (\<lambda>e. Inr (e, cols, has_or)))))))
      else if ty = kNodeCompareOperator then
        (case ch of None \<Rightarrow> Inl Aborted
         | Some col \<Rightarrow>
             andthen (MakeColumnValueExpression c table_name col) (\<lambda>col_expr.
             andthen (of_option (sn_next col)) (\<lambda>val.
             andthen (MakeConstantValueExpression (GetReturnType col_expr) val) (\<lambda>const_expr.
               let cols = (case col_expr of ColumnValueExpression _ index _ \<Rightarrow> add_column index cols | _ \<Rightarrow> cols) in
               andthen (of_option v) (\<lambda>s. Inr (ComparisonExpression col_expr const_expr s, cols, has_or))))))
      else Inl Logic_error)"

section \<open>Statements\<close>

record select_statement =
  sel_table_name :: "byte list"
  sel_column_list :: "(byte list \<times> expression) list"
  sel_column_in_condition :: "nat list"
  sel_has_or :: bool
  sel_where :: "expression option"

definition SelectStatement_new :: select_statement where
  "SelectStatement_new = \<lparr>sel_table_name = [], sel_column_list = [], sel_column_in_condition = [], sel_has_or = False, sel_where = None\<rparr>"

text \<open>The case \<^verbatim>\<open>kNodeIdentifier\<close> of all statements.\<close>

definition table_named :: "catalog \<Rightarrow> string option \<Rightarrow> byte list attempt" where
  "table_named c v = andthen (of_option v) (\<lambda>s.
     if fst (CM_GetTable c (bytes_of s)) \<noteq> DB_SUCCESS then Inl Logic_error else Inr (bytes_of s))"

fun listed_columns :: "schema \<Rightarrow> syntax_node option \<Rightarrow> (byte list \<times> expression) list \<Rightarrow> (byte list \<times> expression) list attempt" where
  "listed_columns schema None acc = Inr acc"
| "listed_columns schema (Some (SyntaxNode i ty l k ch nx v)) acc =
     andthen (column_index schema (SyntaxNode i ty l k ch nx v)) (\<lambda>index.
       if index < length schema then
         andthen (of_option v) (\<lambda>s.
           listed_columns schema nx (acc @ [(bytes_of s, ColumnValueExpression 0 index (col_type (schema ! index)))]))
       else Inl Aborted)"

definition MakeColumnList :: "catalog \<Rightarrow> syntax_node option \<Rightarrow> select_statement \<Rightarrow> select_statement attempt" where
  "MakeColumnList c ast st =
     andthen (schema_of c (sel_table_name st)) (\<lambda>schema.
       if ast = None then
         Inr (st\<lparr>sel_column_list := sel_column_list st @
           map (\<lambda>col. (col_name col, ColumnValueExpression 0 (unat (col_table_ind col)) (col_type col))) schema\<rparr>)
       else andthen (listed_columns schema ast (sel_column_list st)) (\<lambda>l. Inr (st\<lparr>sel_column_list := l\<rparr>)))"

fun Select_SyntaxTree2Statement :: "catalog \<Rightarrow> syntax_node option \<Rightarrow> select_statement \<Rightarrow> select_statement attempt" where
  "Select_SyntaxTree2Statement c None st = Inr st"
| "Select_SyntaxTree2Statement c (Some (SyntaxNode i ty l k ch nx v)) st =
     (if ty = kNodeIdentifier then
        andthen (table_named c v) (\<lambda>t. Select_SyntaxTree2Statement c nx (st\<lparr>sel_table_name := t\<rparr>))
      else if ty = kNodeAllColumns \<or> ty = kNodeColumnList then
        andthen (Select_SyntaxTree2Statement c nx st) (\<lambda>st. MakeColumnList c ch st)
      else if ty = kNodeConditions then
        andthen (MakePredicate c ch (sel_table_name st) (Some (sel_column_in_condition st)) (Some (sel_has_or st)))
          (\<lambda>(e, cols, has_or). Select_SyntaxTree2Statement c nx
             (st\<lparr>sel_where := Some e, sel_column_in_condition := the cols, sel_has_or := the has_or\<rparr>))
      else Inl Logic_error)"

record insert_statement =
  ins_table_name :: "byte list"
  ins_raw_values :: "expression list list"

text \<open>\<open>stmt\<close> is the type of the statement's own node \<^verbatim>\<open>ast_\<close>, which the code tests in place of the value.\<close>

fun insert_values :: "SyntaxNodeType \<Rightarrow> schema \<Rightarrow> syntax_node option \<Rightarrow> (expression list \<times> syntax_node option) attempt" where
  "insert_values stmt [] ast = Inr ([], ast)"
| "insert_values stmt (column # columns) ast =
     (case ast of None \<Rightarrow> Inl Logic_error
      | Some n \<Rightarrow>
          andthen (if stmt = kNodeNull then Inr (ConstantValueExpression (Field_null (col_type column)))
                   else MakeConstantValueExpression (col_type column) n) (\<lambda>e.
          andthen (insert_values stmt columns (sn_next n)) (\<lambda>(es, ast). Inr (e # es, ast))))"

definition MakeInsertValues :: "catalog \<Rightarrow> SyntaxNodeType \<Rightarrow> syntax_node option \<Rightarrow> insert_statement \<Rightarrow> insert_statement attempt" where
  "MakeInsertValues c stmt ast st =
     andthen (schema_of c (ins_table_name st)) (\<lambda>schema.
     andthen (insert_values stmt schema ast) (\<lambda>(value, ast).
       if ast \<noteq> None then Inl Logic_error else Inr (st\<lparr>ins_raw_values := ins_raw_values st @ [value]\<rparr>)))"

fun Insert_SyntaxTree2Statement :: "catalog \<Rightarrow> SyntaxNodeType \<Rightarrow> syntax_node option \<Rightarrow> insert_statement \<Rightarrow> insert_statement attempt" where
  "Insert_SyntaxTree2Statement c stmt None st = Inr st"
| "Insert_SyntaxTree2Statement c stmt (Some (SyntaxNode i ty l k ch nx v)) st =
     (if ty = kNodeIdentifier then
        andthen (table_named c v) (\<lambda>t. Insert_SyntaxTree2Statement c stmt nx (st\<lparr>ins_table_name := t\<rparr>))
      else if ty = kNodeColumnValues then
        andthen (MakeInsertValues c stmt ch st) (\<lambda>st. Insert_SyntaxTree2Statement c stmt nx st)
      else Inl Logic_error)"

record update_statement =
  upd_table_name :: "byte list"
  upd_where :: "expression option"
  upd_attrs :: "(nat \<times> expression) list"

definition MakeUpdateValues :: "catalog \<Rightarrow> syntax_node \<Rightarrow> update_statement \<Rightarrow> update_statement attempt" where
  "MakeUpdateValues c ast st =
     andthen (of_option (sn_child ast)) (\<lambda>col.
     andthen (schema_of c (upd_table_name st)) (\<lambda>schema.
     andthen (column_index schema col) (\<lambda>index.
     andthen (of_option (sn_next col)) (\<lambda>val.
       if index < length schema then
         andthen (MakeConstantValueExpression (col_type (schema ! index)) val) (\<lambda>e.
           Inr (st\<lparr>upd_attrs := AList.update index e (upd_attrs st)\<rparr>))
       else Inl Aborted))))"

fun update_values :: "catalog \<Rightarrow> syntax_node option \<Rightarrow> update_statement \<Rightarrow> update_statement attempt" where
  "update_values c None st = Inr st"
| "update_values c (Some (SyntaxNode i ty l k ch nx v)) st =
     andthen (MakeUpdateValues c (SyntaxNode i ty l k ch nx v) st) (\<lambda>st. update_values c nx st)"

fun Update_SyntaxTree2Statement :: "catalog \<Rightarrow> syntax_node option \<Rightarrow> update_statement \<Rightarrow> update_statement attempt" where
  "Update_SyntaxTree2Statement c None st = Inr st"
| "Update_SyntaxTree2Statement c (Some (SyntaxNode i ty l k ch nx v)) st =
     (if ty = kNodeIdentifier then
        andthen (table_named c v) (\<lambda>t. Update_SyntaxTree2Statement c nx (st\<lparr>upd_table_name := t\<rparr>))
      else if ty = kNodeUpdateValues then
        andthen (update_values c ch st) (\<lambda>st. Update_SyntaxTree2Statement c nx st)
      else if ty = kNodeConditions then
        andthen (MakePredicate c ch (upd_table_name st) None None)
          (\<lambda>(e, _, _). Update_SyntaxTree2Statement c nx (st\<lparr>upd_where := Some e\<rparr>))
      else Inl Logic_error)"

record delete_statement =
  del_table_name :: "byte list"
  del_where :: "expression option"

fun Delete_SyntaxTree2Statement :: "catalog \<Rightarrow> syntax_node option \<Rightarrow> delete_statement \<Rightarrow> delete_statement attempt" where
  "Delete_SyntaxTree2Statement c None st = Inr st"
| "Delete_SyntaxTree2Statement c (Some (SyntaxNode i ty l k ch nx v)) st =
     (if ty = kNodeIdentifier then
        andthen (table_named c v) (\<lambda>t. Delete_SyntaxTree2Statement c nx (st\<lparr>del_table_name := t\<rparr>))
      else if ty = kNodeConditions then
        andthen (MakePredicate c ch (del_table_name st) None None)
          (\<lambda>(e, _, _). Delete_SyntaxTree2Statement c nx (st\<lparr>del_where := Some e\<rparr>))
      else Inl Logic_error)"

section \<open>What binding guarantees\<close>

text \<open>The trees of the grammar: a comparison has one of the eight operators of the language.\<close>

fun operators_known :: "syntax_node option \<Rightarrow> bool" where
  "operators_known None \<longleftrightarrow> True"
| "operators_known (Some (SyntaxNode i ty l k ch nx v)) \<longleftrightarrow>
     (ty = kNodeCompareOperator \<longrightarrow> v \<in> Some ` (order_operators \<union> {''is'', ''not''})) \<and> operators_known ch \<and> operators_known nx"

definition schema_typed :: "schema \<Rightarrow> bool" where
  "schema_typed schema \<longleftrightarrow> list_all (\<lambda>c. col_type c \<noteq> kTypeInvalid) schema"

lemma andthen_Inr: "andthen x f = Inr y \<longleftrightarrow> (\<exists>v. x = Inr v \<and> f v = Inr y)"
  by (cases x) simp_all

lemma of_option_Inr: "of_option x = Inr v \<longleftrightarrow> x = Some v"
  by (cases x) simp_all

lemmas attempt_simps = andthen_Inr of_option_Inr

lemma MakeColumnValueExpression_typed:
  assumes "MakeColumnValueExpression c table_name col = Inr e" "schema_of c table_name = Inr schema"
  obtains i where "e = ColumnValueExpression 0 i (col_type (schema ! i))" "i < length schema"
  using assms by (auto simp: MakeColumnValueExpression_def attempt_simps split: if_splits)

lemma char_constant_typed:
  assumes "Field_char (Some bs) (of_nat (length bs)) True = Some f"
  shows "field_ok (kTypeChar, False) f" "\<not> fd_null f"
  using assms by (auto simp: Field_char_def field_ok_def ensure_def split: if_splits)

lemma MakeConstantValueExpression_typed:
  assumes "MakeConstantValueExpression ty v = Inr e" "ty \<noteq> kTypeInvalid"
  shows "operand_typed schema ty e"
proof (cases "sn_type v = kNodeNull")
  case True
  then show ?thesis using assms by (auto simp: MakeConstantValueExpression_def field_ok_def Field_null_def)
next
  case False
  show ?thesis
  proof (cases ty)
    case kTypeChar
    then obtain s f where f: "Field_char (Some (bytes_of s)) (of_nat (length s)) True = Some f" "e = ConstantValueExpression f"
      using assms False by (auto simp: MakeConstantValueExpression_def attempt_simps split: if_splits)
    have len: "length (bytes_of s) = length s" by (simp add: bytes_of_def)
    note F = char_constant_typed [of "bytes_of s" f, unfolded len, OF f(1)]
    show ?thesis using F kTypeChar by (simp add: f(2))
  qed (use assms False in \<open>auto simp: MakeConstantValueExpression_def attempt_simps field_ok_def Field_int_def Field_float_def split: if_splits\<close>)
qed

lemma comparison_typed:
  assumes col: "MakeColumnValueExpression c table_name col = Inr a" and con: "MakeConstantValueExpression (GetReturnType a) val = Inr b"
    and schema: "schema_of c table_name = Inr schema" "schema_typed schema" and op: "s \<in> order_operators \<union> {''is'', ''not''}"
  shows "predicate_typed schema (ComparisonExpression a b s)"
proof -
  obtain i where a: "a = ColumnValueExpression 0 i (col_type (schema ! i))" "i < length schema"
    by (rule MakeColumnValueExpression_typed [OF col schema(1)])
  have ty: "col_type (schema ! i) \<noteq> kTypeInvalid" using schema(2) a(2) by (simp add: schema_typed_def list_all_length)
  have "operand_typed schema (col_type (schema ! i)) b"
    by (rule MakeConstantValueExpression_typed) (use con a(1) ty in simp_all)
  then show ?thesis using a op ty by (cases "col_type (schema ! i)") auto
qed

lemma MakePredicate_typed:
  "MakePredicate c ast table_name cols has_or = Inr (e, cols', has_or') \<Longrightarrow> operators_known ast \<Longrightarrow>
   schema_of c table_name = Inr schema \<Longrightarrow> schema_typed schema \<Longrightarrow> predicate_typed schema e"
proof (induction c ast table_name cols has_or arbitrary: e cols' has_or' rule: MakePredicate.induct)
  case (2 c i ty l k ch nx v table_name cols has_or)
  show ?case
  proof (cases "ty = kNodeConnector")
    case True
    then obtain i1 ty1 l1 k1 ch1 nx1 v1 where n: "ch = Some (SyntaxNode i1 ty1 l1 k1 ch1 nx1 v1)"
      using "2.prems"(1) by (cases ch) (auto split: syntax_node.splits)
    from "2.prems"(1) True n obtain left cs h1 right cs' h2 s lt where
      l: "MakePredicate c ch table_name cols None = Inr (left, cs, h1)" and
      r: "MakePredicate c nx1 table_name cs None = Inr (right, cs', h2)" and
      e: "LogicExpression_new left right lt = Inr e"
      by (auto simp: attempt_simps Let_def)
    have "predicate_typed schema left" by (rule "2.IH"(1) [OF True n refl]) (use l n "2.prems" in auto)
    moreover have "predicate_typed schema right" by (rule "2.IH"(2) [OF True n refl r]) (use l n "2.prems" in auto)
    ultimately show ?thesis using e by (auto simp: LogicExpression_new_def split: if_splits)
  next
    case False
    then have ty: "ty = kNodeCompareOperator" using "2.prems"(1) by (auto split: if_splits)
    then obtain col where ch: "ch = Some col" using "2.prems"(1) by (cases ch) auto
    from "2.prems"(1) ty ch obtain a val b s where
      p: "MakeColumnValueExpression c table_name col = Inr a" "MakeConstantValueExpression (GetReturnType a) val = Inr b"
      "v = Some s" "e = ComparisonExpression a b s"
      by (auto simp: attempt_simps Let_def)
    show ?thesis unfolding p(4) by (rule comparison_typed [OF p(1,2)]) (use "2.prems" ty p(3) in auto)
  qed
qed simp

text \<open>The columns a predicate compares, and the connectives it has.\<close>

fun compared_columns :: "expression \<Rightarrow> nat set" where
  "compared_columns (ComparisonExpression (ColumnValueExpression _ i _) b op) = {i}"
| "compared_columns (LogicExpression a b lt) = compared_columns a \<union> compared_columns b"
| "compared_columns _ = {}"

fun has_connective :: "LogicType \<Rightarrow> expression \<Rightarrow> bool" where
  "has_connective lt (LogicExpression a b lt') \<longleftrightarrow> lt' = lt \<or> has_connective lt a \<or> has_connective lt b"
| "has_connective lt _ \<longleftrightarrow> False"

text \<open>A table \<open>t\<close> with two integer columns \<open>a\<close> and \<open>b\<close>, and the tree of a condition.\<close>

definition int_column :: "string \<Rightarrow> u32 \<Rightarrow> column" where
  "int_column name ind = \<lparr>col_name = bytes_of name, col_type = kTypeInt, col_len = 4, col_table_ind = ind, col_nullable = True, col_unique = False\<rparr>"

definition ab_schema :: schema where "ab_schema = [int_column ''a'' 0, int_column ''b'' 1]"

definition ab_catalog :: catalog where
  "ab_catalog = \<lparr>cat_bpm = small_pool, cat_meta = CatalogMeta_new, cat_table_names = [(bytes_of ''t'', 0)],
     cat_tables = [(0, TableInfo_Init (TableMetadata_Create 0 (bytes_of ''t'') 1 2 ab_schema)
       \<lparr>th_bpm = small_pool, th_first_page_id = 1, th_schema = ab_schema, th_fsm = None\<rparr>)],
     cat_index_names = [], cat_indexes = []\<rparr>"

definition leaf_node :: "SyntaxNodeType \<Rightarrow> string \<Rightarrow> syntax_node option \<Rightarrow> syntax_node" where
  "leaf_node ty v nx = SyntaxNode 0 ty 1 1 None nx (Some v)"

definition test_node :: "string \<Rightarrow> string \<Rightarrow> string \<Rightarrow> syntax_node option \<Rightarrow> syntax_node" where
  "test_node col op val nx =
     SyntaxNode 0 kNodeCompareOperator 1 1 (Some (leaf_node kNodeIdentifier col (Some (leaf_node kNodeNumber val None)))) nx (Some op)"

definition connector_node :: "string \<Rightarrow> syntax_node \<Rightarrow> syntax_node option \<Rightarrow> syntax_node" where
  "connector_node c left nx = SyntaxNode 0 kNodeConnector 1 1 (Some left) nx (Some c)"

text \<open>\<^verbatim>\<open>(a = 1 or b = 2) and a < 3\<close>\<close>

definition or_below_and :: syntax_node where
  "or_below_and = connector_node ''and''
     (connector_node ''or'' (test_node ''a'' ''='' ''1'' (Some (test_node ''b'' ''='' ''2'' None))) (Some (test_node ''a'' ''<'' ''3'' None))) None"

abbreviation ab_test :: "nat \<Rightarrow> u32 \<Rightarrow> string \<Rightarrow> expression" where
  "ab_test i w op \<equiv> ComparisonExpression (ColumnValueExpression 0 i kTypeInt) (ConstantValueExpression (Field_int w)) op"

definition or_below_and_expression :: expression where
  "or_below_and_expression = LogicExpression (LogicExpression (ab_test 0 1 ''='') (ab_test 1 2 ''='') Or) (ab_test 0 3 ''<'') And"

lemma schema_of_ab: "schema_of ab_catalog (bytes_of ''t'') = Inr ab_schema"
  by (simp add: schema_of_def ab_catalog_def CM_GetTable_def TableInfo_Init_def TableMetadata_Create_def)

lemma ab_columns: "GetColumnIndex ab_schema (bytes_of ''a'') = (DB_SUCCESS, Some 0)" "GetColumnIndex ab_schema (bytes_of ''b'') = (DB_SUCCESS, Some 1)"
  by (simp_all add: GetColumnIndex_def ab_schema_def int_column_def bytes_of_def)

lemma stoi_digits: "stoi ''1'' = Inr 1" "stoi ''2'' = Inr 2" "stoi ''3'' = Inr 3"
  by (simp_all add: stoi_def sign_split_def is_space_def is_digit_def decimal_def digit_value_def)

lemma ab_column_expressions:
  "MakeColumnValueExpression ab_catalog (bytes_of ''t'') (leaf_node ty ''a'' nx) = Inr (ColumnValueExpression 0 0 kTypeInt)"
  "MakeColumnValueExpression ab_catalog (bytes_of ''t'') (leaf_node ty ''b'' nx) = Inr (ColumnValueExpression 0 1 kTypeInt)"
  by (simp_all add: MakeColumnValueExpression_def column_index_def schema_of_ab ab_columns leaf_node_def)
    (simp_all add: ab_schema_def int_column_def)

lemma ab_constants:
  "MakeConstantValueExpression kTypeInt (leaf_node kNodeNumber ''1'' nx) = Inr (ConstantValueExpression (Field_int 1))"
  "MakeConstantValueExpression kTypeInt (leaf_node kNodeNumber ''2'' nx) = Inr (ConstantValueExpression (Field_int 2))"
  "MakeConstantValueExpression kTypeInt (leaf_node kNodeNumber ''3'' nx) = Inr (ConstantValueExpression (Field_int 3))"
  by (simp_all add: MakeConstantValueExpression_def leaf_node_def stoi_digits)

lemma MakePredicate_test:
  assumes "MakeColumnValueExpression c t (leaf_node kNodeIdentifier col (Some (leaf_node kNodeNumber val None))) = Inr (ColumnValueExpression 0 i kTypeInt)"
    "MakeConstantValueExpression kTypeInt (leaf_node kNodeNumber val None) = Inr b"
  shows "MakePredicate c (Some (test_node col op val nx)) t cols h =
    Inr (ComparisonExpression (ColumnValueExpression 0 i kTypeInt) b op, add_column i cols, h)"
  using assms by (simp add: test_node_def leaf_node_def)

lemma MakePredicate_connector:
  assumes "MakePredicate c (Some left) t cols None = Inr (a, cs, h1)" "MakePredicate c (sn_next left) t cs None = Inr (b, cs', h2)"
    "Char2Type op = Inr lt" "LogicExpression_new a b lt = Inr e"
  shows "MakePredicate c (Some (connector_node op left nx)) t cols h = Inr (e, cs', if op = ''or'' then map_option (\<lambda>_. True) h else h)"
  using assms by (cases left) (simp add: connector_node_def)

lemma MakePredicate_ab:
  "MakePredicate ab_catalog (Some or_below_and) (bytes_of ''t'') (Some []) (Some False) = Inr (or_below_and_expression, Some [0, 1], Some False)"
proof -
  let ?t = "bytes_of ''t''"
  let ?or = "connector_node ''or'' (test_node ''a'' ''='' ''1'' (Some (test_node ''b'' ''='' ''2'' None))) (Some (test_node ''a'' ''<'' ''3'' None))"
  note T = MakePredicate_test [OF ab_column_expressions(1) ab_constants(1)] MakePredicate_test [OF ab_column_expressions(2) ab_constants(2)]
    MakePredicate_test [OF ab_column_expressions(1) ab_constants(3)]
  have nx: "sn_next (test_node col op val nx) = nx" "sn_next (connector_node op l nx) = nx" for col op val l nx
    by (simp_all add: test_node_def connector_node_def)
  have "MakePredicate ab_catalog (Some ?or) ?t (Some []) None = Inr (LogicExpression (ab_test 0 1 ''='') (ab_test 1 2 ''='') Or, Some [0, 1], None)"
    using MakePredicate_connector [OF T(1) [of "''=''" "Some (test_node ''b'' ''='' ''2'' None)" "Some []" None],
        of "ab_test 1 2 ''=''" _ _ "''or''" Or "LogicExpression (ab_test 0 1 ''='') (ab_test 1 2 ''='') Or"]
    by (simp add: nx T add_column_def Char2Type_def LogicExpression_new_def)
  from MakePredicate_connector [OF this, where op = "''and''" and lt = And] show ?thesis
    by (simp add: nx T add_column_def Char2Type_def LogicExpression_new_def or_below_and_def or_below_and_expression_def)
qed

section \<open>Properties\<close>

text \<open>
  C18: the predicate that is bound from a condition compares a column of the table with a constant of the column's type in
  each of its tests. So it never fails on a row of the table: the filter of the scans returns, and it accepts
  the row exactly when the predicate is true in three-valued logic.
\<close>

theorem bound_predicate_typed:
  assumes "MakePredicate c ast table_name cols has_or = Inr (e, cols', has_or')" "operators_known ast"
    "schema_of c table_name = Inr schema" "schema_typed schema"
  shows "predicate_typed schema e \<and> (\<forall>rid r. row_ok schema rid r \<longrightarrow> predicate_holds e r = Inr (truth e r = kTrue))"
  using MakePredicate_typed [OF assms] predicate_holds_truth by blast

theorem bound_predicate_typed_witness:
  "predicate_typed ab_schema or_below_and_expression \<and>
   predicate_holds or_below_and_expression (Row_new [Field_int 1, Field_int 5]) = Inr (truth or_below_and_expression (Row_new [Field_int 1, Field_int 5]) = kTrue)"
proof -
  have "row_ok ab_schema INVALID_ROWID (Row_new [Field_int 1, Field_int 5])"
    by (auto simp: row_ok_def ab_schema_def int_column_def Row_new_def field_ok_def Field_int_def Field_copy_def INVALID_ROWID_def less_Suc_eq)
  moreover have "predicate_typed ab_schema or_below_and_expression \<and>
     (\<forall>rid r. row_ok ab_schema rid r \<longrightarrow> predicate_holds or_below_and_expression r = Inr (truth or_below_and_expression r = kTrue))"
    by (rule bound_predicate_typed [OF MakePredicate_ab _ schema_of_ab])
      (auto simp: or_below_and_def connector_node_def test_node_def leaf_node_def order_operators_def schema_typed_def ab_schema_def int_column_def)
  ultimately show ?thesis by blast
qed

text \<open>
  The flag that tells the planner not to intersect index scans looks at the outermost connective only. A condition
  whose outermost connective is \<^verbatim>\<open>and\<close> leaves the flag as it was, also when there is an \<^verbatim>\<open>or\<close> below: the recursive calls
  get no flag.
\<close>

theorem nested_or_unnoticed:
  assumes "MakePredicate c (Some (SyntaxNode i kNodeConnector l k ch nx (Some ''and''))) table_name cols has_or = Inr (e, cols', has_or')"
  shows "has_or' = has_or"
  using assms by (auto simp: attempt_simps Let_def split: option.splits syntax_node.splits)

theorem nested_or_unnoticed_witness:
  "\<exists>cols' has_or'. MakePredicate ab_catalog (Some or_below_and) (bytes_of ''t'') (Some []) (Some False) = Inr (or_below_and_expression, cols', has_or') \<and>
     has_connective Or or_below_and_expression \<and> has_or' = Some False"
proof -
  have "Some False = Some False"
    by (rule nested_or_unnoticed [OF MakePredicate_ab [unfolded or_below_and_def connector_node_def [of "''and''"]]])
  then show ?thesis using MakePredicate_ab by (simp add: or_below_and_expression_def)
qed

end
