(* ===== verification/Planner.thy ===== *)
theory Planner
  imports Statements
begin

text \<open>
  The planner (\<^verbatim>\<open>planner/planner.cpp\<close>) and its plan nodes (\<^verbatim>\<open>include/executor/plans/*.h\<close>). A plan names its
  indexes by their ids. A null output schema is \<^term>\<open>None\<close>.
\<close>

section \<open>Model\<close>

datatype plan =
  SeqScanPlan "schema option" "byte list" "expression option"
| IndexScanPlan "schema option" "byte list" "u32 list" bool "expression option"
| ValuesPlan "expression list list"
| InsertPlan "schema option" plan "byte list"
| DeletePlan "schema option" plan "byte list"
| UpdatePlan "schema option" plan "byte list" "(nat \<times> expression) list"

fun OutputSchema :: "plan \<Rightarrow> schema option" where
  "OutputSchema (SeqScanPlan s _ _) = s"
| "OutputSchema (IndexScanPlan s _ _ _ _) = s"
| "OutputSchema (ValuesPlan _) = None"
| "OutputSchema (InsertPlan s _ _) = s"
| "OutputSchema (DeletePlan s _ _) = s"
| "OutputSchema (UpdatePlan s _ _ _) = s"

definition MAX_VARCHAR_SIZE :: u32 where "MAX_VARCHAR_SIZE = 128"

fun MakeOutputSchema :: "(byte list \<times> expression) list \<Rightarrow> schema attempt" where
  "MakeOutputSchema [] = Inr []"
| "MakeOutputSchema ((name, e) # rest) =
     (case e of
        ColumnValueExpression _ col_idx ty \<Rightarrow>
          andthen (of_option (if ty \<noteq> kTypeChar then Column_fixed name ty (of_nat col_idx) False False
                              else Column_char name ty MAX_VARCHAR_SIZE (of_nat col_idx) False False)) (\<lambda>col.
          andthen (MakeOutputSchema rest) (\<lambda>cols. Inr (col # cols)))
      | _ \<Rightarrow> Inl Aborted)"

text \<open>The loop that picks the indexes on one column that the condition mentions.\<close>

definition available_indexes :: "index_info list \<Rightarrow> nat list \<Rightarrow> index_info list" where
  "available_indexes indexes cols = filter (\<lambda>ix. length (ix_key_schema ix) = 1 \<and> unat (col_table_ind (ix_key_schema ix ! 0)) \<in> set cols) indexes"

definition PlanSelect :: "catalog \<Rightarrow> select_statement \<Rightarrow> (plan attempt \<times> catalog)" where
  "PlanSelect c st =
     (case MakeOutputSchema (sel_column_list st) of Inl e \<Rightarrow> (Inl e, c)
      | Inr out_schema \<Rightarrow>
          let ((_, indexes), c) = GetTableIndexes c (sel_table_name st);
              available_index = available_indexes indexes (sel_column_in_condition st) in
          if available_index = [] \<or> sel_has_or st
          then (Inr (SeqScanPlan (Some out_schema) (sel_table_name st) (sel_where st)), c)
          else (Inr (IndexScanPlan (Some out_schema) (sel_table_name st) (map (\<lambda>ix. im_index_id (ix_meta ix)) available_index)
                 (length available_index \<noteq> length (sel_column_in_condition st)) (sel_where st)), c))"

definition PlanInsert :: "insert_statement \<Rightarrow> plan" where
  "PlanInsert st = InsertPlan None (ValuesPlan (ins_raw_values st)) (ins_table_name st)"

definition PlanDelete :: "catalog \<Rightarrow> delete_statement \<Rightarrow> plan attempt" where
  "PlanDelete c st = andthen (schema_of c (del_table_name st)) (\<lambda>schema.
     Inr (DeletePlan (Some schema) (SeqScanPlan (Some schema) (del_table_name st) (del_where st)) (del_table_name st)))"

definition PlanUpdate :: "catalog \<Rightarrow> update_statement \<Rightarrow> plan attempt" where
  "PlanUpdate c st = andthen (schema_of c (upd_table_name st)) (\<lambda>schema.
     Inr (UpdatePlan (Some schema) (SeqScanPlan (Some schema) (upd_table_name st) (upd_where st)) (upd_table_name st) (upd_attrs st)))"

definition PlanQuery :: "catalog \<Rightarrow> syntax_node \<Rightarrow> (plan attempt \<times> catalog)" where
  "PlanQuery c ast =
     (if sn_type ast = kNodeSelect then
        (case Select_SyntaxTree2Statement c (sn_child ast) SelectStatement_new of Inl e \<Rightarrow> (Inl e, c) | Inr st \<Rightarrow> PlanSelect c st)
      else if sn_type ast = kNodeInsert then
        (andthen (Insert_SyntaxTree2Statement c (sn_type ast) (sn_child ast) \<lparr>ins_table_name = [], ins_raw_values = []\<rparr>)
           (\<lambda>st. Inr (PlanInsert st)), c)
      else if sn_type ast = kNodeDelete then
        (andthen (Delete_SyntaxTree2Statement c (sn_child ast) \<lparr>del_table_name = [], del_where = None\<rparr>) (PlanDelete c), c)
      else if sn_type ast = kNodeUpdate then
        (andthen (Update_SyntaxTree2Statement c (sn_child ast) \<lparr>upd_table_name = [], upd_where = None, upd_attrs = []\<rparr>) (PlanUpdate c), c)
      else (Inl Logic_error, c))"

section \<open>The filter of an index scan\<close>

text \<open>Two indexes on the first column of \<open>t\<close>, as a unique column that is indexed once more has, and \<^verbatim>\<open>select a from t where a = 1 and b = 2\<close>.\<close>

definition a_index :: "u32 \<Rightarrow> string \<Rightarrow> index_info" where
  "a_index i name = \<lparr>ix_meta = IndexMetadata_Create i (bytes_of name) 0 [0], ix_index = None, ix_table = 0, ix_key_schema = [int_column ''a'' 0]\<rparr>"

definition aa_catalog :: catalog where
  "aa_catalog = ab_catalog\<lparr>cat_index_names := [(bytes_of ''t'', [(bytes_of ''i'', 0), (bytes_of ''j'', 1)])],
     cat_indexes := [(0, a_index 0 ''i''), (1, a_index 1 ''j'')]\<rparr>"

definition ab_condition :: expression where
  "ab_condition = LogicExpression (ab_test 0 1 ''='') (ab_test 1 2 ''='') And"

definition ab_select :: select_statement where
  "ab_select = \<lparr>sel_table_name = bytes_of ''t'', sel_column_list = [(bytes_of ''a'', ColumnValueExpression 0 0 kTypeInt)],
     sel_column_in_condition = [0, 1], sel_has_or = False, sel_where = Some ab_condition\<rparr>"

text \<open>
  The planner compares the number of usable indexes with the number of columns in the condition. With two indexes on one
  column it plans an index scan without a filter, although no index covers the other column.
\<close>

theorem unindexed_column_not_filtered:
  "\<exists>out c'. PlanSelect aa_catalog ab_select = (Inr (IndexScanPlan (Some out) (bytes_of ''t'') [0, 1] False (Some ab_condition)), c') \<and>
     compared_columns ab_condition = {0, 1} \<and>
     (\<forall>i \<in> {0, 1}. \<forall>ix. map_of (cat_indexes aa_catalog) i = Some ix \<longrightarrow> col_table_ind (ix_key_schema ix ! 0) = 0)"
proof -
  have "MakeOutputSchema (sel_column_list ab_select) = Inr [int_column ''a'' 0\<lparr>col_nullable := False\<rparr>]"
    by (simp add: ab_select_def int_column_def Column_fixed_def ensure_def)
  moreover have "GetTableIndexes aa_catalog (bytes_of ''t'') = ((DB_SUCCESS, [a_index 0 ''i'', a_index 1 ''j'']), aa_catalog)"
    by (simp add: GetTableIndexes_def aa_catalog_def ab_catalog_def index_map_def set_index_map_def)
  ultimately have "PlanSelect aa_catalog ab_select =
      (Inr (IndexScanPlan (Some [int_column ''a'' 0\<lparr>col_nullable := False\<rparr>]) (bytes_of ''t'') [0, 1] False (Some ab_condition)), aa_catalog)"
    by (simp add: PlanSelect_def ab_select_def available_indexes_def a_index_def int_column_def IndexMetadata_Create_def)
  then show ?thesis by (auto simp: ab_condition_def aa_catalog_def a_index_def int_column_def)
qed

end
