(* ===== verification/Executors.thy ===== *)
theory Executors
  imports Planner "HOL-Library.Multiset"
begin

text \<open>
  The executors (\<^verbatim>\<open>executor/*_executor.cpp\<close>) and the part of \<^verbatim>\<open>ExecuteEngine\<close> that runs a plan. An executor is
  the record of its members; the table it works on is named by its id and the state it changes is the
  catalog. A thrown exception is \<open>Thrown\<close>; undefined behaviour and failed assertions are \<^term>\<open>None\<close>.
\<close>

section \<open>Access to tables and indexes\<close>

definition with_heap :: "catalog \<Rightarrow> u32 \<Rightarrow> (table_heap \<Rightarrow> ('a \<times> table_heap) option) \<Rightarrow> ('a \<times> catalog) option" where
  "with_heap c table_id f = do {
     info \<leftarrow> map_of (cat_tables c) table_id;
     (r, h) \<leftarrow> f ((tbl_heap info)\<lparr>th_bpm := cat_bpm c\<rparr>);
     Some (r, c\<lparr>cat_bpm := th_bpm h, cat_tables := AList.update table_id (info\<lparr>tbl_heap := h\<rparr>) (cat_tables c)\<rparr>) }"

definition with_index :: "catalog \<Rightarrow> u32 \<Rightarrow> (btree \<Rightarrow> ('a \<times> btree) option) \<Rightarrow> ('a \<times> catalog) option" where
  "with_index c index_id f = do {
     ix \<leftarrow> map_of (cat_indexes c) index_id;
     t \<leftarrow> ix_index ix;
     (r, t) \<leftarrow> f (t\<lparr>bt_bpm := cat_bpm c\<rparr>);
     Some (r, c\<lparr>cat_bpm := bt_bpm t, cat_indexes := AList.update index_id (ix\<lparr>ix_index := Some t\<rparr>) (cat_indexes c)\<rparr>) }"

text \<open>\<^verbatim>\<open>GetTable(name, table_info_)\<close>; a missing table is a null pointer that the callers dereference.\<close>

definition table_id_of :: "catalog \<Rightarrow> byte list \<Rightarrow> u32 option" where
  "table_id_of c name = map_option (\<lambda>info. tm_table_id (tbl_meta info)) (snd (CM_GetTable c name))"

definition schema_of_id :: "catalog \<Rightarrow> u32 \<Rightarrow> schema option" where
  "schema_of_id c table_id = map_option GetSchema (map_of (cat_tables c) table_id)"

section \<open>Projection\<close>

definition SchemaEqual :: "schema \<Rightarrow> schema \<Rightarrow> bool" where
  "SchemaEqual table_schema output_schema \<longleftrightarrow>
     length table_schema = length output_schema \<and>
     list_all (\<lambda>(a, b). \<not> (col_name a \<noteq> col_name b \<or> col_type a \<noteq> col_type b \<or> col_len a \<noteq> col_len b)) (zip table_schema output_schema)"

fun transfer_fields :: "schema \<Rightarrow> row \<Rightarrow> field list option" where
  "transfer_fields [] row = Some []"
| "transfer_fields (column # columns) row = do {
     f \<leftarrow> GetField row (unat (col_table_ind column));
     fs \<leftarrow> transfer_fields columns row;
     Some (Field_copy f # fs) }"

definition TupleTransfer :: "schema \<Rightarrow> row \<Rightarrow> row option" where
  "TupleTransfer output_schema row = map_option Row_new (transfer_fields output_schema row)"

definition output_row :: "bool \<Rightarrow> schema \<Rightarrow> row \<Rightarrow> row option" where
  "output_row is_schema_same out row = (if \<not> is_schema_same then TupleTransfer out row else Some row)"

section \<open>Sequential scan\<close>

record seq_scan =
  ss_table_name :: "byte list"
  ss_predicate :: "expression option"
  ss_output_schema :: "schema option"
  ss_table :: "u32 option"
  ss_iterator :: table_iterator
  ss_schema :: schema
  ss_same :: bool

definition SeqScan_new :: "schema option \<Rightarrow> byte list \<Rightarrow> expression option \<Rightarrow> seq_scan" where
  "SeqScan_new out name predicate = \<lparr>ss_table_name = name, ss_predicate = predicate, ss_output_schema = out,
     ss_table = None, ss_iterator = TH_End, ss_schema = [], ss_same = False\<rparr>"

text \<open>\<^verbatim>\<open>first_row\<close> is an iterator that is only constructed and destroyed; the assignment keeps no reference to the temporary's row.\<close>

definition SeqScan_Init :: "catalog \<Rightarrow> seq_scan \<Rightarrow> (seq_scan \<times> catalog) option" where
  "SeqScan_Init c e = do {
     table_id \<leftarrow> table_id_of c (ss_table_name e);
     (it, c) \<leftarrow> with_heap c table_id (\<lambda>h. do {
        (first_row, h) \<leftarrow> TH_Begin h;
        (temp, h) \<leftarrow> TH_Begin h;
        let it = ti_assign (ss_iterator e) temp;
        h \<leftarrow> TableIterator_delete h temp;
        h \<leftarrow> TableIterator_delete h first_row;
        Some (it, h) });
     schema \<leftarrow> schema_of_id c table_id;
     out \<leftarrow> ss_output_schema e;
     Some (e\<lparr>ss_table := Some table_id, ss_iterator := it, ss_schema := out, ss_same := SchemaEqual schema out\<rparr>, c) }"

text \<open>\<^verbatim>\<open>predicate->Evaluate(p_row).CompareEquals(Field(kTypeInt, 1))\<close>, with no predicate accepting every row.\<close>

definition accepts :: "expression option \<Rightarrow> row \<Rightarrow> bool attempt" where
  "accepts predicate row = (case predicate of None \<Rightarrow> Inr True | Some p \<Rightarrow> predicate_holds p row)"

definition move_next :: "catalog \<Rightarrow> u32 \<Rightarrow> table_iterator \<Rightarrow> (table_iterator \<times> catalog) option" where
  "move_next c table_id it = with_heap c table_id (\<lambda>h. ti_post_increment h it)"

partial_function (option) SeqScan_Next :: "catalog \<Rightarrow> seq_scan \<Rightarrow> ((row \<times> rowid) option outcome \<times> seq_scan \<times> catalog) option" where
  "SeqScan_Next c e =
     (if ti_neq (ss_iterator e) TH_End then do {
        table_id \<leftarrow> ss_table e;
        let p_row = ti_deref (ss_iterator e);
        case accepts (ss_predicate e) p_row of
          Inl Logic_error \<Rightarrow> Some (Thrown, e, c)
        | Inl Aborted \<Rightarrow> None
        | Inr ok \<Rightarrow>
            if \<not> ok then do {
              (it, c) \<leftarrow> move_next c table_id (ss_iterator e);
              SeqScan_Next c (e\<lparr>ss_iterator := it\<rparr>) }
            else do {
              let rid = row_rid p_row;
              row \<leftarrow> output_row (ss_same e) (ss_schema e) p_row;
              (it, c) \<leftarrow> move_next c table_id (ss_iterator e);
              Some (Done (Some (row, rid)), e\<lparr>ss_iterator := it\<rparr>, c) } }
      else Some (Done None, e, c))"

section \<open>Index scan\<close>

record index_scan =
  is_table_name :: "byte list"
  is_indexes :: "u32 list"
  is_need_filter :: bool
  is_predicate :: "expression option"
  is_output_schema :: "schema option"
  is_table :: "u32 option"
  is_result :: "rowid list"
  is_cursor :: nat
  is_same :: bool

definition IndexScan_new :: "schema option \<Rightarrow> byte list \<Rightarrow> u32 list \<Rightarrow> bool \<Rightarrow> expression option \<Rightarrow> index_scan" where
  "IndexScan_new out name indexes need_filter predicate = \<lparr>is_table_name = name, is_indexes = indexes, is_need_filter = need_filter,
     is_predicate = predicate, is_output_schema = out, is_table = None, is_result = [], is_cursor = 0, is_same = False\<rparr>"

text \<open>
  \<^verbatim>\<open>sort\<close> and \<^verbatim>\<open>set_intersection\<close> by \<^verbatim>\<open>RowId::Get()\<close>, a signed 64-bit number: of each group of equal ids the
  intersection keeps as many as both lists have, from the first list.
\<close>

definition rid_key :: "rowid \<Rightarrow> int" where "rid_key r = sint (RowId_Get r)"

fun set_intersection :: "rowid list \<Rightarrow> rowid list \<Rightarrow> rowid list" where
  "set_intersection [] ys = []"
| "set_intersection xs [] = []"
| "set_intersection (x # xs) (y # ys) =
     (if rid_key x < rid_key y then set_intersection xs (y # ys)
      else if rid_key y < rid_key x then set_intersection (x # xs) ys
      else x # set_intersection xs ys)"

text \<open>The loop over the plan's indexes: the first one on the column of the comparison is scanned.\<close>

fun scan_indexes :: "catalog \<Rightarrow> u32 list \<Rightarrow> nat \<Rightarrow> row \<Rightarrow> string \<Rightarrow> (rowid list \<times> catalog) option" where
  "scan_indexes c [] col_idx key comp_type = Some ([], c)"
| "scan_indexes c (index_id # rest) col_idx key comp_type = do {
     ix \<leftarrow> map_of (cat_indexes c) index_id;
     ensure (ix_key_schema ix \<noteq> []);
     if col_idx = unat (col_table_ind (ix_key_schema ix ! 0)) then do {
       ((_, ret), c) \<leftarrow> with_index c index_id (\<lambda>t. do { (e, ret, t) \<leftarrow> ScanKey t key [] comp_type; Some ((e, ret), t) });
       Some (ret, c) }
     else scan_indexes c rest col_idx key comp_type }"

fun IndexScan :: "catalog \<Rightarrow> u32 list \<Rightarrow> expression \<Rightarrow> (rowid list \<times> catalog) option" where
  "IndexScan c indexes (LogicExpression left right _) = do {
     (lhs, c) \<leftarrow> IndexScan c indexes left;
     (rhs, c) \<leftarrow> IndexScan c indexes right;
     if lhs = [] then Some (rhs, c)
     else if rhs = [] then Some (lhs, c)
     else Some (set_intersection (sort_key rid_key lhs) (sort_key rid_key rhs), c) }"
| "IndexScan c indexes (ComparisonExpression left right comp_type) =
     (case Evaluate right None of
        Inl _ \<Rightarrow> None
      | Inr f \<Rightarrow> do {
          let key = Row_new [Field_copy f];
          case left of
            ColumnValueExpression _ col_idx _ \<Rightarrow> scan_indexes c indexes col_idx key comp_type
          | _ \<Rightarrow> if indexes = [] then Some ([], c) else None })"
| "IndexScan c indexes _ = None"

definition IndexScan_Init :: "catalog \<Rightarrow> index_scan \<Rightarrow> (index_scan \<times> catalog) option" where
  "IndexScan_Init c e = do {
     table_id \<leftarrow> table_id_of c (is_table_name e);
     (first_row, c) \<leftarrow> with_heap c table_id TH_Begin;
     predicate \<leftarrow> is_predicate e;
     (result, c) \<leftarrow> IndexScan c (is_indexes e) predicate;
     schema \<leftarrow> schema_of_id c table_id;
     out \<leftarrow> is_output_schema e;
     (_, c) \<leftarrow> with_heap c table_id (\<lambda>h. do { h \<leftarrow> TableIterator_delete h first_row; Some ((), h) });
     Some (e\<lparr>is_table := Some table_id, is_result := result, is_same := SchemaEqual schema out\<rparr>, c) }"

text \<open>The result of \<^verbatim>\<open>GetTuple\<close> is not looked at.\<close>

function IndexScan_Next :: "catalog \<Rightarrow> index_scan \<Rightarrow> ((row \<times> rowid) option outcome \<times> index_scan \<times> catalog) option" where
  "IndexScan_Next c e =
     (if is_cursor e < length (is_result e) then do {
        table_id \<leftarrow> is_table e;
        let rid = is_result e ! is_cursor e;
        (p_row, c) \<leftarrow> with_heap c table_id (\<lambda>h. do { (_, row, h) \<leftarrow> TH_GetTuple h \<lparr>row_rid = rid, row_fields = []\<rparr>; Some (row, h) });
        let e' = e\<lparr>is_cursor := is_cursor e + 1\<rparr>;
        case (if is_need_filter e then andthen (of_option (is_predicate e)) (\<lambda>p. predicate_holds p p_row) else Inr True) of
          Inl Logic_error \<Rightarrow> Some (Thrown, e, c)
        | Inl Aborted \<Rightarrow> None
        | Inr ok \<Rightarrow>
            if \<not> ok then IndexScan_Next c e'
            else do {
              out \<leftarrow> is_output_schema e;
              row \<leftarrow> output_row (is_same e) out p_row;
              Some (Done (Some (row, rid)), e', c) } }
      else Some (Done None, e, c))"
  by pat_completeness auto

termination
  by (relation "measure (\<lambda>(c, e). length (is_result e) - is_cursor e)") auto

section \<open>Values, insert, delete, update\<close>

record values_scan =
  vs_values :: "expression list list"
  vs_cursor :: nat
  vs_size :: nat

definition Values_Init :: "values_scan \<Rightarrow> values_scan" where "Values_Init e = e\<lparr>vs_size := length (vs_values e)\<rparr>"

fun evaluate_all :: "expression list \<Rightarrow> field list attempt" where
  "evaluate_all [] = Inr []"
| "evaluate_all (x # xs) = andthen (Evaluate x None) (\<lambda>f. andthen (evaluate_all xs) (\<lambda>fs. Inr (f # fs)))"

definition Values_Next :: "values_scan \<Rightarrow> row option attempt \<times> values_scan" where
  "Values_Next e =
     (if vs_cursor e < vs_size e then
        (if vs_cursor e < length (vs_values e) then
           (case evaluate_all (vs_values e ! vs_cursor e) of Inl err \<Rightarrow> (Inl err, e)
            | Inr fs \<Rightarrow> (Inr (Some (Row_new fs)), e\<lparr>vs_cursor := vs_cursor e + 1\<rparr>))
         else (Inl Logic_error, e))
      else (Inr None, e))"

record insert_exec =
  ie_child :: values_scan
  ie_table_name :: "byte list"
  ie_table :: "u32 option"
  ie_indexes :: "u32 list"

definition Insert_Init :: "catalog \<Rightarrow> insert_exec \<Rightarrow> (insert_exec \<times> catalog) option" where
  "Insert_Init c e = do {
     table_id \<leftarrow> table_id_of c (ie_table_name e);
     info \<leftarrow> map_of (cat_tables c) table_id;
     let ((_, indexes), c) = GetTableIndexes c (GetTableName info);
     Some (e\<lparr>ie_child := Values_Init (ie_child e), ie_table := Some table_id,
       ie_indexes := map (\<lambda>ix. im_index_id (ix_meta ix)) indexes\<rparr>, c) }"

text \<open>The first loop: is the key of the row already in one of the indexes?\<close>

fun key_exists :: "catalog \<Rightarrow> schema \<Rightarrow> row \<Rightarrow> u32 list \<Rightarrow> (bool \<times> catalog) option" where
  "key_exists c schema row [] = Some (False, c)"
| "key_exists c schema row (index_id # rest) = do {
     ix \<leftarrow> map_of (cat_indexes c) index_id;
     key_row \<leftarrow> GetKeyFromRow schema (ix_key_schema ix) row;
     (found, c) \<leftarrow> (if row_fields key_row \<noteq> []
        then with_index c index_id (\<lambda>t. do { (err, _, t) \<leftarrow> ScanKey t key_row [] ''=''; Some (err = DB_SUCCESS, t) })
        else Some (False, c));
     if found then Some (True, c) else key_exists c schema row rest }"

fun insert_keys :: "catalog \<Rightarrow> schema \<Rightarrow> row \<Rightarrow> u32 list \<Rightarrow> (unit outcome \<times> catalog) option" where
  "insert_keys c schema row [] = Some (Done (), c)"
| "insert_keys c schema row (index_id # rest) = do {
     ix \<leftarrow> map_of (cat_indexes c) index_id;
     key_row \<leftarrow> GetKeyFromRow schema (ix_key_schema ix) row;
     (s, c) \<leftarrow> with_index c index_id (\<lambda>t. InsertEntry t key_row (row_rid row));
     case s of Thrown \<Rightarrow> Some (Thrown, c) | Done _ \<Rightarrow> insert_keys c schema row rest }"

definition Insert_Next :: "catalog \<Rightarrow> insert_exec \<Rightarrow> (bool outcome \<times> insert_exec \<times> catalog) option" where
  "Insert_Next c e =
     (case Values_Next (ie_child e) of
        (Inl Logic_error, child) \<Rightarrow> Some (Thrown, e\<lparr>ie_child := child\<rparr>, c)
      | (Inl Aborted, _) \<Rightarrow> None
      | (Inr None, child) \<Rightarrow> Some (Done False, e\<lparr>ie_child := child\<rparr>, c)
      | (Inr (Some row), child) \<Rightarrow> do {
          let e = e\<lparr>ie_child := child\<rparr>;
          table_id \<leftarrow> ie_table e;
          schema \<leftarrow> schema_of_id c table_id;
          (found, c) \<leftarrow> key_exists c schema row (ie_indexes e);
          if found then Some (Done False, e, c)
          else do {
            ((ok, row), c) \<leftarrow> with_heap c table_id (\<lambda>h. do { (ok, row, h) \<leftarrow> TH_InsertTuple h row; Some ((ok, row), h) });
            if ok then do {
              (s, c) \<leftarrow> insert_keys c schema row (ie_indexes e);
              case s of Thrown \<Rightarrow> Some (Thrown, e, c) | Done _ \<Rightarrow> Some (Done True, e, c) }
            else Some (Done False, e, c) } })"

record modify_exec =
  me_child :: seq_scan
  me_table_name :: "byte list"
  me_update_attrs :: "(nat \<times> expression) list"
  me_table :: "u32 option"
  me_indexes :: "u32 list"

text \<open>\<^verbatim>\<open>Init\<close> of the delete and the update executor.\<close>

definition Modify_Init :: "catalog \<Rightarrow> modify_exec \<Rightarrow> (modify_exec \<times> catalog) option" where
  "Modify_Init c e = do {
     (child, c) \<leftarrow> SeqScan_Init c (me_child e);
     table_id \<leftarrow> table_id_of c (me_table_name e);
     info \<leftarrow> map_of (cat_tables c) table_id;
     let ((_, indexes), c) = GetTableIndexes c (GetTableName info);
     Some (e\<lparr>me_child := child, me_table := Some table_id, me_indexes := map (\<lambda>ix. im_index_id (ix_meta ix)) indexes\<rparr>, c) }"

fun remove_keys :: "catalog \<Rightarrow> schema \<Rightarrow> row \<Rightarrow> rowid \<Rightarrow> u32 list \<Rightarrow> catalog option" where
  "remove_keys c schema row rid [] = Some c"
| "remove_keys c schema row rid (index_id # rest) = do {
     ix \<leftarrow> map_of (cat_indexes c) index_id;
     key_row \<leftarrow> GetKeyFromRow schema (ix_key_schema ix) row;
     (_, c) \<leftarrow> with_index c index_id (\<lambda>t. RemoveEntry t key_row rid);
     remove_keys c schema row rid rest }"

definition Delete_Next :: "catalog \<Rightarrow> modify_exec \<Rightarrow> (row option outcome \<times> modify_exec \<times> catalog) option" where
  "Delete_Next c e = do {
     (r, child, c) \<leftarrow> SeqScan_Next c (me_child e);
     let e = e\<lparr>me_child := child\<rparr>;
     case r of Thrown \<Rightarrow> Some (Thrown, e, c)
     | Done None \<Rightarrow> Some (Done None, e, c)
     | Done (Some (row, rid)) \<Rightarrow> do {
         table_id \<leftarrow> me_table e;
         (ok, c) \<leftarrow> with_heap c table_id (\<lambda>h. TH_MarkDelete h rid);
         if \<not> ok then Some (Done None, e, c)
         else do {
           schema \<leftarrow> schema_of_id c table_id;
           c \<leftarrow> remove_keys c schema row rid (me_indexes e);
           Some (Done (Some row), e, c) } } }"

fun updated_fields :: "(nat \<times> expression) list \<Rightarrow> row \<Rightarrow> nat \<Rightarrow> nat \<Rightarrow> field list attempt" where
  "updated_fields attrs src_row idx 0 = Inr []"
| "updated_fields attrs src_row idx (Suc n) =
     andthen (case map_of attrs idx of
                None \<Rightarrow> of_option (map_option Field_copy (GetField src_row idx))
              | Some expr \<Rightarrow> Evaluate expr (Some src_row)) (\<lambda>f.
     andthen (updated_fields attrs src_row (Suc idx) n) (\<lambda>fs. Inr (f # fs)))"

definition GenerateUpdatedTuple :: "(nat \<times> expression) list \<Rightarrow> schema \<Rightarrow> row \<Rightarrow> row attempt" where
  "GenerateUpdatedTuple update_attrs schema src_row =
     andthen (updated_fields update_attrs src_row 0 (length schema)) (\<lambda>fs. Inr (Row_new fs))"

fun update_keys :: "catalog \<Rightarrow> schema \<Rightarrow> row \<Rightarrow> row \<Rightarrow> rowid \<Rightarrow> u32 list \<Rightarrow> (unit outcome \<times> catalog) option" where
  "update_keys c schema src_row dest_row rid [] = Some (Done (), c)"
| "update_keys c schema src_row dest_row rid (index_id # rest) = do {
     ix \<leftarrow> map_of (cat_indexes c) index_id;
     src_key_row \<leftarrow> GetKeyFromRow schema (ix_key_schema ix) src_row;
     dest_key_row \<leftarrow> GetKeyFromRow schema (ix_key_schema ix) dest_row;
     (_, c) \<leftarrow> with_index c index_id (\<lambda>t. RemoveEntry t src_key_row rid);
     (s, c) \<leftarrow> with_index c index_id (\<lambda>t. InsertEntry t dest_key_row rid);
     case s of Thrown \<Rightarrow> Some (Thrown, c) | Done _ \<Rightarrow> update_keys c schema src_row dest_row rid rest }"

definition Update_Next :: "catalog \<Rightarrow> modify_exec \<Rightarrow> (bool outcome \<times> modify_exec \<times> catalog) option" where
  "Update_Next c e = do {
     (r, child, c) \<leftarrow> SeqScan_Next c (me_child e);
     let e = e\<lparr>me_child := child\<rparr>;
     case r of Thrown \<Rightarrow> Some (Thrown, e, c)
     | Done None \<Rightarrow> Some (Done False, e, c)
     | Done (Some (src_row, src_rid)) \<Rightarrow> do {
         table_id \<leftarrow> me_table e;
         schema \<leftarrow> schema_of_id c table_id;
         case GenerateUpdatedTuple (me_update_attrs e) schema src_row of
           Inl Logic_error \<Rightarrow> Some (Thrown, e, c)
         | Inl Aborted \<Rightarrow> None
         | Inr dest_row \<Rightarrow> do {
             (ok, c) \<leftarrow> with_heap c table_id (\<lambda>h. TH_UpdateTuple h dest_row src_rid);
             if \<not> ok then Some (Done False, e, c)
             else do {
               (s, c) \<leftarrow> update_keys c schema src_row dest_row src_rid (me_indexes e);
               case s of Thrown \<Rightarrow> Some (Thrown, e, c) | Done _ \<Rightarrow> Some (Done True, e, c) } } } }"

section \<open>Running a plan\<close>

datatype executor =
  SeqScanExecutor seq_scan
| IndexScanExecutor index_scan
| ValuesExecutor values_scan
| InsertExecutor insert_exec
| DeleteExecutor modify_exec
| UpdateExecutor modify_exec

text \<open>The children that the planner builds: values below an insert, a sequential scan below a delete and an update.\<close>

fun CreateExecutor :: "plan \<Rightarrow> executor option" where
  "CreateExecutor (SeqScanPlan out name predicate) = Some (SeqScanExecutor (SeqScan_new out name predicate))"
| "CreateExecutor (IndexScanPlan out name indexes need_filter predicate) =
     Some (IndexScanExecutor (IndexScan_new out name indexes need_filter predicate))"
| "CreateExecutor (ValuesPlan values) = Some (ValuesExecutor \<lparr>vs_values = values, vs_cursor = 0, vs_size = 0\<rparr>)"
| "CreateExecutor (InsertPlan out child name) = (case CreateExecutor child of
     Some (ValuesExecutor v) \<Rightarrow> Some (InsertExecutor \<lparr>ie_child = v, ie_table_name = name, ie_table = None, ie_indexes = []\<rparr>)
   | _ \<Rightarrow> None)"
| "CreateExecutor (DeletePlan out child name) = (case CreateExecutor child of
     Some (SeqScanExecutor s) \<Rightarrow> Some (DeleteExecutor
       \<lparr>me_child = s, me_table_name = name, me_update_attrs = [], me_table = None, me_indexes = []\<rparr>)
   | _ \<Rightarrow> None)"
| "CreateExecutor (UpdatePlan out child name attrs) = (case CreateExecutor child of
     Some (SeqScanExecutor s) \<Rightarrow> Some (UpdateExecutor
       \<lparr>me_child = s, me_table_name = name, me_update_attrs = attrs, me_table = None, me_indexes = []\<rparr>)
   | _ \<Rightarrow> None)"

fun Executor_Init :: "catalog \<Rightarrow> executor \<Rightarrow> (executor \<times> catalog) option" where
  "Executor_Init c (SeqScanExecutor e) = map_option (\<lambda>(e, c). (SeqScanExecutor e, c)) (SeqScan_Init c e)"
| "Executor_Init c (IndexScanExecutor e) = map_option (\<lambda>(e, c). (IndexScanExecutor e, c)) (IndexScan_Init c e)"
| "Executor_Init c (ValuesExecutor e) = Some (ValuesExecutor (Values_Init e), c)"
| "Executor_Init c (InsertExecutor e) = map_option (\<lambda>(e, c). (InsertExecutor e, c)) (Insert_Init c e)"
| "Executor_Init c (DeleteExecutor e) = map_option (\<lambda>(e, c). (DeleteExecutor e, c)) (Modify_Init c e)"
| "Executor_Init c (UpdateExecutor e) = map_option (\<lambda>(e, c). (UpdateExecutor e, c)) (Modify_Init c e)"

definition map_outcome :: "('a \<Rightarrow> 'b) \<Rightarrow> 'a outcome \<Rightarrow> 'b outcome" where
  "map_outcome f r = (case r of Thrown \<Rightarrow> Thrown | Done x \<Rightarrow> Done (f x))"

text \<open>
  The output parameter \<open>row\<close> of \<^verbatim>\<open>Next\<close> keeps its value where an executor does not write it. The delete
  executor passes it to its child, so it is the deleted row.
\<close>

fun Executor_Next :: "catalog \<Rightarrow> executor \<Rightarrow> row \<Rightarrow> (row option outcome \<times> executor \<times> catalog) option" where
  "Executor_Next c (SeqScanExecutor e) row =
     map_option (\<lambda>(r, e, c). (map_outcome (map_option fst) r, SeqScanExecutor e, c)) (SeqScan_Next c e)"
| "Executor_Next c (IndexScanExecutor e) row =
     map_option (\<lambda>(r, e, c). (map_outcome (map_option fst) r, IndexScanExecutor e, c)) (IndexScan_Next c e)"
| "Executor_Next c (ValuesExecutor e) row =
     (case Values_Next e of (Inl Logic_error, e) \<Rightarrow> Some (Thrown, ValuesExecutor e, c) | (Inl Aborted, _) \<Rightarrow> None
      | (Inr r, e) \<Rightarrow> Some (Done r, ValuesExecutor e, c))"
| "Executor_Next c (InsertExecutor e) row =
     map_option (\<lambda>(r, e, c). (map_outcome (\<lambda>ok. if ok then Some row else None) r, InsertExecutor e, c)) (Insert_Next c e)"
| "Executor_Next c (DeleteExecutor e) row =
     map_option (\<lambda>(r, e, c). (r, DeleteExecutor e, c)) (Delete_Next c e)"
| "Executor_Next c (UpdateExecutor e) row =
     map_option (\<lambda>(r, e, c). (map_outcome (\<lambda>ok. if ok then Some row else None) r, UpdateExecutor e, c)) (Update_Next c e)"

partial_function (option) plan_loop :: "catalog \<Rightarrow> executor \<Rightarrow> row \<Rightarrow> row list \<Rightarrow> (row list outcome \<times> catalog) option" where
  "plan_loop c e row result_set = do {
     (r, e, c) \<leftarrow> Executor_Next c e row;
     case r of Thrown \<Rightarrow> Some (Thrown, c)
     | Done None \<Rightarrow> Some (Done result_set, c)
     | Done (Some row) \<Rightarrow> plan_loop c e row (result_set @ [row]) }"

definition ExecutePlan :: "catalog \<Rightarrow> plan \<Rightarrow> (dberr \<times> row list \<times> catalog) option" where
  "ExecutePlan c p = do {
     e \<leftarrow> CreateExecutor p;
     (e, c) \<leftarrow> Executor_Init c e;
     (r, c) \<leftarrow> plan_loop c e \<lparr>row_rid = INVALID_ROWID, row_fields = []\<rparr> [];
     case r of Thrown \<Rightarrow> Some (DB_FAILED, [], c) | Done result_set \<Rightarrow> Some (DB_SUCCESS, result_set, c) }"

section \<open>Intersection of index scans\<close>

lemma set_intersection_mset:
  "sorted (map rid_key xs) \<Longrightarrow> sorted (map rid_key ys) \<Longrightarrow>
   mset (map rid_key (set_intersection xs ys)) = mset (map rid_key xs) \<inter># mset (map rid_key ys)"
proof (induction xs ys rule: set_intersection.induct)
  case (3 x xs y ys)
  consider "rid_key x < rid_key y" | "rid_key y < rid_key x" | "rid_key x = rid_key y" by linarith
  then show ?case
  proof cases
    case 1
    then have "rid_key x \<notin># mset (map rid_key (y # ys))" using "3.prems"(2) by auto
    with 1 "3.IH"(1) "3.prems" show ?thesis by (simp add: inter_add_left1)
  next
    case 2
    then have "rid_key y \<notin># mset (map rid_key (x # xs))" using "3.prems"(1) by auto
    with 2 "3.IH"(2) "3.prems" show ?thesis by (simp add: inter_add_right1)
  next
    case 3
    with "3.IH"(3) "3.prems" show ?thesis by (simp add: inter_add_left2)
  qed
qed simp_all

section \<open>Properties\<close>

text \<open>
  An index scan of a conjunction or disjunction: when both sides find rows, the result are the row ids that both sides found,
  each as often as both have it, whichever connective it is; when one side finds none, the result is that of the other side. So a
  side without a matching row is taken for a side without an index, and its comparison is dropped.
\<close>

theorem index_scan_connective:
  assumes "IndexScan c indexes left = Some (lhs, c1)" "IndexScan c1 indexes right = Some (rhs, c2)"
  shows "\<exists>ids. IndexScan c indexes (LogicExpression left right lt) = Some (ids, c2) \<and>
    (if lhs = [] then ids = rhs else if rhs = [] then ids = lhs
     else mset (map rid_key ids) = mset (map rid_key lhs) \<inter># mset (map rid_key rhs))"
proof -
  have "mset (map rid_key (set_intersection (sort_key rid_key lhs) (sort_key rid_key rhs))) = mset (map rid_key lhs) \<inter># mset (map rid_key rhs)"
    by (subst set_intersection_mset) simp_all
  then show ?thesis using assms by simp
qed

theorem index_scan_connective_witness:
  "IndexScan ab_catalog [] (LogicExpression (ab_test 0 1 ''='') (ab_test 1 2 ''='') And) = Some ([], ab_catalog)"
proof -
  have t: "IndexScan ab_catalog [] (ab_test i w ''='') = Some ([], ab_catalog)" for i w by simp
  show ?thesis using index_scan_connective [OF t t, of 0 1 1 2 And] by simp
qed

end
