(* ===== verification/Catalog_Invariant.thy ===== *)
theory Catalog_Invariant
  imports Executors
begin

text \<open>
  The maps of the catalog manager agree: table names and table ids are in bijection, each table and index is kept
  under its own id, and each has a page in the catalog's metadata. The invariant holds of a new catalog and every
  operation that returns keeps it, also the use of a table or an index by an executor.
\<close>

section \<open>The invariant\<close>

definition tables_inv :: "catalog \<Rightarrow> bool" where
  "tables_inv c \<longleftrightarrow> map_ordered (table_meta_pages (cat_meta c)) \<and>
     (\<forall>name i. map_of (cat_table_names c) name = Some i \<longleftrightarrow> (\<exists>info. map_of (cat_tables c) i = Some info \<and> GetTableName info = name)) \<and>
     (\<forall>i info. map_of (cat_tables c) i = Some info \<longrightarrow> tm_table_id (tbl_meta info) = i \<and> map_of (table_meta_pages (cat_meta c)) i \<noteq> None)"

text \<open>An index named by a table is kept under its id, under its name, and belongs to no other table.\<close>

definition indexes_inv :: "catalog \<Rightarrow> bool" where
  "indexes_inv c \<longleftrightarrow> map_ordered (index_meta_pages (cat_meta c)) \<and>
     (\<forall>t n i. map_of (index_map c t) n = Some i \<longrightarrow> map_of (index_meta_pages (cat_meta c)) i \<noteq> None \<and>
        (\<exists>ix. map_of (cat_indexes c) i = Some ix \<and> im_index_id (ix_meta ix) = i \<and> im_index_name (ix_meta ix) = n)) \<and>
     (\<forall>t n t' n' i. map_of (index_map c t) n = Some i \<longrightarrow> map_of (index_map c t') n' = Some i \<longrightarrow> t' = t)"

definition catalog_inv :: "catalog \<Rightarrow> bool" where
  "catalog_inv c \<longleftrightarrow> tables_inv c \<and> indexes_inv c"

text \<open>The operations on the catalog; a creation needs an id for the table or the index and one for each unique column.\<close>

definition ids_for :: "nat \<Rightarrow> catalog \<Rightarrow> bool" where
  "ids_for n c \<longleftrightarrow> n < 2 ^ 32 \<and> ids_left n (table_meta_pages (cat_meta c)) \<and> ids_left n (index_meta_pages (cat_meta c))"

inductive catalog_step :: "catalog \<Rightarrow> catalog \<Rightarrow> bool" where
  create_table: "CreateTable c name schema = Some (Done r, c') \<Longrightarrow> ids_for (Suc (length schema)) c \<Longrightarrow> catalog_step c c'"
| create_index: "CreateIndex c t n keys ty = Some (Done r, c') \<Longrightarrow> ids_for 1 c \<Longrightarrow> catalog_step c c'"
| drop_table: "DropTable c name = (r, c') \<Longrightarrow> catalog_step c c'"
| drop_index: "DropIndex c t n = Some (r, c') \<Longrightarrow> catalog_step c c'"
| drop_all_indexes: "DropAllIndexes c n k = Some (r, k', c') \<Longrightarrow> catalog_step c c'"
| table_indexes: "GetTableIndexes c t = (r, c') \<Longrightarrow> catalog_step c c'"
| flush: "FlushCatalogMetaPage c = Some (r, c') \<Longrightarrow> catalog_step c c'"
| use_table: "with_heap c i (\<lambda>h. map_option (Pair ()) (f h)) = Some (x, c') \<Longrightarrow> catalog_step c c'"
| use_index: "with_index c i (\<lambda>t. map_option (Pair ()) (g t)) = Some (y, c') \<Longrightarrow> catalog_step c c'"

section \<open>Single operations\<close>

lemma case_outcome_Done: "(case s of Thrown \<Rightarrow> Some (Thrown, c) | Done x \<Rightarrow> f x) = Some (Done r, c') \<longleftrightarrow> (\<exists>x. s = Done x \<and> f x = Some (Done r, c'))"
  by (cases s) simp_all

lemma index_map_simps [simp]:
  "index_map (c\<lparr>cat_bpm := b\<rparr>) = index_map c" "index_map (c\<lparr>cat_meta := m\<rparr>) = index_map c"
  "index_map (c\<lparr>cat_indexes := xs\<rparr>) = index_map c" "index_map (c\<lparr>cat_tables := ts\<rparr>) = index_map c"
  "index_map (c\<lparr>cat_table_names := ns\<rparr>) = index_map c"
  by (simp_all add: index_map_def fun_eq_iff)

lemma index_map_set [simp]: "index_map (set_index_map c t m) t' = (if t' = t then m else index_map c t')"
  by (simp add: index_map_def set_index_map_def update_conv')

lemma set_index_map_fields [simp]:
  "cat_bpm (set_index_map c t m) = cat_bpm c" "cat_meta (set_index_map c t m) = cat_meta c" "cat_indexes (set_index_map c t m) = cat_indexes c"
  "cat_tables (set_index_map c t m) = cat_tables c" "cat_table_names (set_index_map c t m) = cat_table_names c"
  by (simp_all add: set_index_map_def)

lemma tables_inv_cong:
  "cat_table_names c' = cat_table_names c \<Longrightarrow> cat_tables c' = cat_tables c \<Longrightarrow> table_meta_pages (cat_meta c') = table_meta_pages (cat_meta c) \<Longrightarrow>
   tables_inv c' = tables_inv c"
  by (simp add: tables_inv_def)

lemma indexes_inv_cong:
  "index_map c' = index_map c \<Longrightarrow> cat_indexes c' = cat_indexes c \<Longrightarrow> index_meta_pages (cat_meta c') = index_meta_pages (cat_meta c) \<Longrightarrow>
   indexes_inv c' = indexes_inv c"
  by (simp add: indexes_inv_def)

lemma index_map_touch [simp]: "index_map (set_index_map c t (index_map c t)) = index_map c"
  by (simp add: fun_eq_iff)

lemma catalog_inv_touch [simp]: "catalog_inv (set_index_map c t (index_map c t)) = catalog_inv c"
  unfolding catalog_inv_def by (subst tables_inv_cong [of _ c], simp_all, subst indexes_inv_cong [of _ c], simp_all)

lemma catalog_inv_new: "CatalogManager_new b True = Some (Done (), c) \<Longrightarrow> catalog_inv c"
  by (auto simp: CatalogManager_new_def catalog_inv_def tables_inv_def indexes_inv_def map_ordered_def CatalogMeta_new_def index_map_def)

lemma DropTable_inv:
  assumes "catalog_inv c" "DropTable c name = (r, c')"
  shows "catalog_inv c'"
proof (cases "map_of (cat_table_names c) name")
  case None
  then show ?thesis using assms by (simp add: DropTable_def)
next
  case (Some i)
  then have c': "c' = c\<lparr>cat_table_names := AList.delete name (cat_table_names c), cat_tables := AList.delete i (cat_tables c)\<rparr>"
    using assms(2) by (simp add: DropTable_def)
  have T: "map_ordered (table_meta_pages (cat_meta c))"
    "\<And>n j. map_of (cat_table_names c) n = Some j \<longleftrightarrow> (\<exists>info. map_of (cat_tables c) j = Some info \<and> GetTableName info = n)"
    "\<And>j info. map_of (cat_tables c) j = Some info \<Longrightarrow> tm_table_id (tbl_meta info) = j \<and> map_of (table_meta_pages (cat_meta c)) j \<noteq> None"
    using assms(1) by (simp_all add: catalog_inv_def tables_inv_def)
  have "map_of (cat_table_names c') n = Some j \<longleftrightarrow> (\<exists>info. map_of (cat_tables c') j = Some info \<and> GetTableName info = n)" for n j
    using T(2) [of n j] T(2) [of name i] T(2) [of name j] T(2) [of n i] Some by (auto simp: c' delete_conv' split: if_splits)
  moreover have "tm_table_id (tbl_meta info) = j \<and> map_of (table_meta_pages (cat_meta c')) j \<noteq> None" if "map_of (cat_tables c') j = Some info" for j info
    using T(3) [of j info] that by (simp add: c' delete_conv' split: if_splits)
  ultimately have "tables_inv c'" using T(1) by (simp add: tables_inv_def c')
  moreover have "indexes_inv c' = indexes_inv c" by (rule indexes_inv_cong) (simp_all add: c')
  ultimately show ?thesis using assms(1) by (simp add: catalog_inv_def)
qed

lemma erase_index_inv:
  assumes inv: "catalog_inv c" and i: "map_of (index_map c t) n = Some i" and e: "erase_index c t n i = (r, c')"
  shows "catalog_inv c'"
proof (cases "map_of (cat_indexes c) i")
  case None
  then show ?thesis using inv e by (simp add: erase_index_def)
next
  case (Some ix)
  then have c': "c' = set_index_map (c\<lparr>cat_indexes := AList.delete i (cat_indexes c)\<rparr>) t (AList.delete n (index_map c t))"
    using e by (simp add: erase_index_def)
  have X: "map_ordered (index_meta_pages (cat_meta c))"
    "\<And>t n j. map_of (index_map c t) n = Some j \<Longrightarrow> map_of (index_meta_pages (cat_meta c)) j \<noteq> None \<and>
        (\<exists>ix. map_of (cat_indexes c) j = Some ix \<and> im_index_id (ix_meta ix) = j \<and> im_index_name (ix_meta ix) = n)"
    "\<And>t n t' n' j. map_of (index_map c t) n = Some j \<Longrightarrow> map_of (index_map c t') n' = Some j \<Longrightarrow> t' = t"
    using inv by (simp_all add: catalog_inv_def indexes_inv_def)
  have old: "map_of (index_map c s) k = Some j" "j \<noteq> i" if "map_of (index_map c' s) k = Some j" for s k j
  proof -
    show o: "map_of (index_map c s) k = Some j" using that by (simp add: c' delete_conv' split: if_splits)
    show "j \<noteq> i"
    proof
      assume "j = i"
      then have "s = t" "k = n" using X(3) [OF i, of s k] X(2) [OF i] X(2) [OF o] o by auto
      then show False using that by (simp add: c' delete_conv')
    qed
  qed
  have "indexes_inv c'" unfolding indexes_inv_def
  proof (intro conjI allI impI)
    fix s k j assume m: "map_of (index_map c' s) k = Some j"
    note o = old [OF m]
    show "map_of (index_meta_pages (cat_meta c')) j \<noteq> None" using X(2) [OF o(1)] by (simp add: c')
    show "\<exists>ix. map_of (cat_indexes c') j = Some ix \<and> im_index_id (ix_meta ix) = j \<and> im_index_name (ix_meta ix) = k"
      using X(2) [OF o(1)] o(2) by (simp add: c' delete_conv')
    fix s' k' assume "map_of (index_map c' s') k' = Some j"
    then show "s' = s" using X(3) [OF o(1)] old(1) by blast
  qed (simp add: c' X(1))
  moreover have "tables_inv c' = tables_inv c" by (rule tables_inv_cong) (simp_all add: c')
  ultimately show ?thesis using inv by (simp add: catalog_inv_def)
qed

lemma DropIndex_inv: "catalog_inv c \<Longrightarrow> DropIndex c t n = Some (r, c') \<Longrightarrow> catalog_inv c'"
  using erase_index_inv [of c t n]
  by (auto simp: DropIndex_def bind_eq_Some_conv index_map_def split: if_splits option.splits)

lemma drop_in_tables_inv: "catalog_inv c \<Longrightarrow> drop_in_tables c n ts k = Some (r, k', c') \<Longrightarrow> catalog_inv c'"
proof (induction c n ts k rule: drop_in_tables.induct)
  case (2 c n t i rest k)
  from "2.prems"(2) obtain m where m: "map_of (cat_index_names c) t = Some m" by (auto simp: bind_eq_Some_conv)
  show ?case
  proof (cases "map_of m n")
    case None
    then show ?thesis using "2.IH"(1) [OF m None] "2.prems" m by simp
  next
    case (Some j)
    obtain e c1 where e: "erase_index c t n j = (e, c1)" by fastforce
    have c1: "catalog_inv c1" by (rule erase_index_inv [OF "2.prems"(1) _ e]) (use m Some in \<open>simp add: index_map_def\<close>)
    show ?thesis
    proof (cases e)
      case DB_SUCCESS
      then show ?thesis using "2.IH"(2) [OF m Some e [symmetric] DB_SUCCESS c1] "2.prems" m Some e by simp
    qed (use "2.prems" m Some e c1 in auto)
  qed
qed simp

lemma IndexInfo_Init_meta: "IndexInfo_Init meta i info b = Some (s, ix, b') \<Longrightarrow> ix_meta ix = meta"
  by (auto simp: IndexInfo_Init_def bind_eq_Some_conv Let_def)

lemma CreateIndex_cases:
  assumes "CreateIndex c t n keys ty = Some (Done r, c')"
  obtains (unchanged) "c' = c" | (touched) "c' = set_index_map c t (index_map c t)"
  | (created) ix page tid ks where "map_of (index_map c t) n = None" "ix_meta ix = IndexMetadata_Create (GetNextIndexId (cat_meta c)) n tid ks"
      "cat_table_names c' = cat_table_names c" "cat_tables c' = cat_tables c"
      "cat_indexes c' = AList.update (GetNextIndexId (cat_meta c)) ix (cat_indexes c)"
      "cat_meta c' = (cat_meta c)\<lparr>index_meta_pages := map_put (GetNextIndexId (cat_meta c)) page (index_meta_pages (cat_meta c))\<rparr>"
      "\<And>s. index_map c' s = (if s = t then AList.update n (GetNextIndexId (cat_meta c)) (index_map c t) else index_map c s)"
proof (cases "map_of (cat_table_names c) t")
  case None
  then show thesis using assms unchanged by (simp add: CreateIndex_def)
next
  case (Some tid)
  note name = this
  show thesis
  proof (cases "map_of (index_map c t) n \<noteq> None \<or> ty \<noteq> ''bptree''")
    case True
    then show thesis using assms touched name by (auto simp: CreateIndex_def Let_def split: if_split_asm)
  next
    case False
    show thesis
    proof (cases "map_of (cat_tables c) tid")
      case None
      then show thesis using assms touched name False by (auto simp: CreateIndex_def Let_def)
    next
      case (Some info)
      show thesis
      proof (cases "key_map_of (GetSchema info) keys")
        case None
        then show thesis using assms touched name False Some by (auto simp: CreateIndex_def Let_def)
      next
        case (Some ks)
        let ?i = "GetNextIndexId (cat_meta c)"
        from assms name False \<open>map_of (cat_tables c) tid = Some info\<close> Some obtain ix b page b' where
          ix: "IndexInfo_Init (IndexMetadata_Create ?i n tid ks) tid info (cat_bpm c) = Some (Done (), ix, b)" and
          c': "c' = (set_index_map (set_index_map c t (index_map c t)) t (AList.update n ?i (index_map c t)))
            \<lparr>cat_indexes := AList.update ?i ix (cat_indexes c),
             cat_meta := (cat_meta c)\<lparr>index_meta_pages := map_put ?i page (index_meta_pages (cat_meta c))\<rparr>, cat_bpm := b'\<rparr>"
          by (auto simp: CreateIndex_def Let_def bind_eq_Some_conv case_outcome_Done)
        show thesis
          by (rule created [of ix tid ks page]) (use False IndexInfo_Init_meta [OF ix] in \<open>simp_all add: c'\<close>)
      qed
    qed
  qed
qed

lemma CreateIndex_inv:
  assumes inv: "catalog_inv c" and cr: "CreateIndex c t n keys ty = Some (Done r, c')" and ids: "ids_left (Suc k) (index_meta_pages (cat_meta c))" "k < 2 ^ 32"
  shows "catalog_inv c'" "table_meta_pages (cat_meta c') = table_meta_pages (cat_meta c)" "ids_left k (index_meta_pages (cat_meta c'))"
    "cat_tables c' = cat_tables c" "cat_table_names c' = cat_table_names c"
proof -
  let ?i = "GetNextIndexId (cat_meta c)"
  have X: "map_ordered (index_meta_pages (cat_meta c))"
    "\<And>t n j. map_of (index_map c t) n = Some j \<Longrightarrow> map_of (index_meta_pages (cat_meta c)) j \<noteq> None \<and>
        (\<exists>ix. map_of (cat_indexes c) j = Some ix \<and> im_index_id (ix_meta ix) = j \<and> im_index_name (ix_meta ix) = n)"
    "\<And>t n t' n' j. map_of (index_map c t) n = Some j \<Longrightarrow> map_of (index_map c t') n' = Some j \<Longrightarrow> t' = t"
    using inv by (simp_all add: catalog_inv_def indexes_inv_def)
  have fresh: "map_of (index_meta_pages (cat_meta c)) ?i = None"
    unfolding GetNextIndexId_def by (rule next_id_fresh [OF X(1) ids_left_last [OF ids(1)]])
  have new: "map_of (index_map c s) m \<noteq> Some ?i" for s m using X(2) [of s m ?i] fresh by auto
  have less: "ids_left k (index_meta_pages (cat_meta c))" by (rule ids_left_mono [OF ids(1)]) simp
  have "catalog_inv c' \<and> table_meta_pages (cat_meta c') = table_meta_pages (cat_meta c) \<and> ids_left k (index_meta_pages (cat_meta c')) \<and>
    cat_tables c' = cat_tables c \<and> cat_table_names c' = cat_table_names c"
    using cr
  proof (cases rule: CreateIndex_cases)
    case (created ix page tid ks)
    have M: "map_of (index_map c' s) m = (if s = t \<and> m = n then Some ?i else map_of (index_map c s) m)" for s m
      by (simp add: created(7) update_conv')
    have "indexes_inv c'" unfolding indexes_inv_def
    proof (intro conjI allI impI)
      show "map_ordered (index_meta_pages (cat_meta c'))" using map_put_ordered [OF X(1)] by (simp add: created(6))
      fix s m j assume m: "map_of (index_map c' s) m = Some j"
      show "map_of (index_meta_pages (cat_meta c')) j \<noteq> None" using m X(2) [of s m j] by (auto simp: M created(6) map_of_put split: if_splits)
      show "\<exists>ix. map_of (cat_indexes c') j = Some ix \<and> im_index_id (ix_meta ix) = j \<and> im_index_name (ix_meta ix) = m"
      proof (cases "s = t \<and> m = n")
        case True
        then show ?thesis using m created(2) by (simp add: M created(5) update_conv' IndexMetadata_Create_def)
      next
        case False
        then have "map_of (index_map c s) m = Some j" "j \<noteq> ?i" using m new [of s m] by (auto simp: M)
        then show ?thesis using X(2) [of s m j] by (simp add: created(5) update_conv')
      qed
      fix s' m' assume m': "map_of (index_map c' s') m' = Some j"
      show "s' = s" using m m' new X(3) [of s m j s' m'] by (auto simp: M split: if_splits)
    qed
    moreover have "tables_inv c' = tables_inv c" by (rule tables_inv_cong) (simp_all add: created)
    moreover have "ids_left k (index_meta_pages (cat_meta c'))"
      unfolding created(6) GetNextIndexId_def using ids_left_put [OF X(1) ids] by simp
    ultimately show ?thesis using inv created(3,4) by (simp add: catalog_inv_def created(6))
  qed (use inv less in simp_all)
  then show "catalog_inv c'" "table_meta_pages (cat_meta c') = table_meta_pages (cat_meta c)" "ids_left k (index_meta_pages (cat_meta c'))"
    "cat_tables c' = cat_tables c" "cat_table_names c' = cat_table_names c" by auto
qed

lemma create_unique_indexes_inv:
  "catalog_inv c \<Longrightarrow> create_unique_indexes c t is = Some (Done (), c') \<Longrightarrow> ids_left (length is) (index_meta_pages (cat_meta c)) \<Longrightarrow> length is < 2 ^ 32 \<Longrightarrow>
   catalog_inv c' \<and> cat_tables c' = cat_tables c \<and> cat_table_names c' = cat_table_names c"
proof (induction "is" arbitrary: c)
  case (Cons i "is")
  show ?case
  proof (cases "col_unique i")
    case True
    from Cons.prems(2) True obtain r c1 where r: "CreateIndex c t (col_name i @ unique_suffix) [col_name i] ''bptree'' = Some (Done r, c1)"
      "create_unique_indexes c1 t is = Some (Done (), c')"
      by (auto simp: bind_eq_Some_conv case_outcome_Done)
    note I = CreateIndex_inv [OF Cons.prems(1) r(1), of "length is"]
    have "catalog_inv c' \<and> cat_tables c' = cat_tables c1 \<and> cat_table_names c' = cat_table_names c1"
      by (rule Cons.IH [OF I(1) r(2)]) (use Cons.prems I(3) in simp_all)
    then show ?thesis using I(4,5) Cons.prems by simp
  next
    case False
    then have c: "create_unique_indexes c t is = Some (Done (), c')" using Cons.prems(2) by simp
    have "ids_left (length is) (index_meta_pages (cat_meta c))" by (rule ids_left_mono [OF Cons.prems(3)]) simp
    then show ?thesis using Cons.IH [OF Cons.prems(1) c] Cons.prems(4) by simp
  qed
qed simp

text \<open>The catalog when \<^verbatim>\<open>CreateTable\<close> turns to the unique columns.\<close>

lemma CreateTable_cases:
  assumes "CreateTable c name schema = Some (Done r, c')"
  obtains (unchanged) "map_of (cat_table_names c) name \<noteq> None" "r = DB_TABLE_ALREADY_EXIST" "c' = c"
  | (created) heap fsm page b where "map_of (cat_table_names c) name = None" "r = DB_SUCCESS" "TableHeap_new (cat_bpm c) (DeepCopySchema schema) = Some heap"
      "create_unique_indexes (c\<lparr>cat_table_names := AList.update name (GetNextTableId (cat_meta c)) (cat_table_names c),
         cat_tables := AList.update (GetNextTableId (cat_meta c)) (TableInfo_Init (TableMetadata_Create (GetNextTableId (cat_meta c)) name
           (th_first_page_id heap) (fsm_first (fsm :: free_space_map)) (DeepCopySchema schema)) heap) (cat_tables c),
         cat_meta := (cat_meta c)\<lparr>table_meta_pages := map_put (GetNextTableId (cat_meta c)) page (table_meta_pages (cat_meta c))\<rparr>,
         cat_bpm := b\<rparr>) name schema = Some (Done (), c')"
proof (cases "map_of (cat_table_names c) name")
  case None
  with assms obtain heap fsm page b where c: "r = DB_SUCCESS" "TableHeap_new (cat_bpm c) (DeepCopySchema schema) = Some heap"
    "create_unique_indexes (c\<lparr>cat_table_names := AList.update name (GetNextTableId (cat_meta c)) (cat_table_names c),
       cat_tables := AList.update (GetNextTableId (cat_meta c)) (TableInfo_Init (TableMetadata_Create (GetNextTableId (cat_meta c)) name
         (th_first_page_id heap) (fsm_first (fsm :: free_space_map)) (DeepCopySchema schema)) heap) (cat_tables c),
       cat_meta := (cat_meta c)\<lparr>table_meta_pages := map_put (GetNextTableId (cat_meta c)) page (table_meta_pages (cat_meta c))\<rparr>,
       cat_bpm := b\<rparr>) name schema = Some (Done (), c')"
    by (auto simp: CreateTable_def Let_def bind_eq_Some_conv case_outcome_Done)
  show thesis by (rule created [OF None c])
next
  case (Some i)
  with assms show thesis by (intro unchanged) (simp_all add: CreateTable_def)
qed

lemma enter_table_inv:
  assumes inv: "tables_inv c" and name: "map_of (cat_table_names c) name = None" and ids: "ids_left (Suc k) (table_meta_pages (cat_meta c))"
    and info: "GetTableName info = name" "tm_table_id (tbl_meta info) = GetNextTableId (cat_meta c)"
  shows "tables_inv (c\<lparr>cat_table_names := AList.update name (GetNextTableId (cat_meta c)) (cat_table_names c),
    cat_tables := AList.update (GetNextTableId (cat_meta c)) info (cat_tables c),
    cat_meta := (cat_meta c)\<lparr>table_meta_pages := map_put (GetNextTableId (cat_meta c)) page (table_meta_pages (cat_meta c))\<rparr>, cat_bpm := b\<rparr>)"
    (is "tables_inv ?c")
proof -
  let ?i = "GetNextTableId (cat_meta c)"
  have T: "map_ordered (table_meta_pages (cat_meta c))"
    "\<And>n j. map_of (cat_table_names c) n = Some j \<longleftrightarrow> (\<exists>info. map_of (cat_tables c) j = Some info \<and> GetTableName info = n)"
    "\<And>j info. map_of (cat_tables c) j = Some info \<Longrightarrow> tm_table_id (tbl_meta info) = j \<and> map_of (table_meta_pages (cat_meta c)) j \<noteq> None"
    using inv by (simp_all add: tables_inv_def)
  have fresh: "map_of (table_meta_pages (cat_meta c)) ?i = None"
    unfolding GetNextTableId_def by (rule next_id_fresh [OF T(1) ids_left_last [OF ids]])
  have "map_of (cat_table_names ?c) n = Some j \<longleftrightarrow> (\<exists>info. map_of (cat_tables ?c) j = Some info \<and> GetTableName info = n)" for n j
  proof (cases "j = ?i")
    case True
    have "map_of (cat_table_names c) n \<noteq> Some ?i" using T(2) [of n ?i] T(3) fresh by fastforce
    then show ?thesis using True info by (auto simp: update_conv')
  next
    case False
    then show ?thesis using T(2) [of n j] name by (auto simp: update_conv')
  qed
  moreover have "tm_table_id (tbl_meta x) = j \<and> map_of (table_meta_pages (cat_meta ?c)) j \<noteq> None" if "map_of (cat_tables ?c) j = Some x" for j x
    using T(3) [of j x] that info by (simp add: update_conv' map_of_put split: if_splits)
  ultimately show ?thesis using map_put_ordered [OF T(1)] by (simp add: tables_inv_def)
qed

lemma CreateTable_inv:
  assumes inv: "catalog_inv c" and cr: "CreateTable c name schema = Some (Done r, c')" and ids: "ids_for (Suc (length schema)) c"
  shows "catalog_inv c'" "r = DB_SUCCESS \<Longrightarrow> \<exists>info. CM_GetTable c' name = (DB_SUCCESS, Some info) \<and> GetTableName info = name \<and> GetSchema info = DeepCopySchema schema"
proof -
  have "catalog_inv c' \<and> (r = DB_SUCCESS \<longrightarrow> (\<exists>info. CM_GetTable c' name = (DB_SUCCESS, Some info) \<and> GetTableName info = name \<and> GetSchema info = DeepCopySchema schema))"
    using cr
  proof (cases rule: CreateTable_cases)
    case (created heap fsm page b)
    let ?i = "GetNextTableId (cat_meta c)"
    let ?info = "TableInfo_Init (TableMetadata_Create ?i name (th_first_page_id heap) (fsm_first fsm) (DeepCopySchema schema)) heap"
    let ?c = "c\<lparr>cat_table_names := AList.update name ?i (cat_table_names c), cat_tables := AList.update ?i ?info (cat_tables c),
      cat_meta := (cat_meta c)\<lparr>table_meta_pages := map_put ?i page (table_meta_pages (cat_meta c))\<rparr>, cat_bpm := b\<rparr>"
    have I: "tables_inv c" "indexes_inv c" using inv by (simp_all add: catalog_inv_def)
    have L: "ids_left (Suc (length schema)) (table_meta_pages (cat_meta c))" "ids_left (Suc (length schema)) (index_meta_pages (cat_meta c))"
      "length schema < 2 ^ 32" using ids by (simp_all add: ids_for_def)
    have "tables_inv ?c" by (rule enter_table_inv [OF I(1) created(1) L(1)]) (simp_all add: TableInfo_Init_def TableMetadata_Create_def)
    moreover have "indexes_inv ?c" using indexes_inv_cong [of ?c c] I(2) by simp
    ultimately have "catalog_inv ?c" by (simp add: catalog_inv_def)
    from create_unique_indexes_inv [OF this created(4)] L(3) ids_left_mono [OF L(2), of "length schema"]
    have "catalog_inv c'" "cat_tables c' = cat_tables ?c" "cat_table_names c' = cat_table_names ?c" by simp_all
    then show ?thesis by (simp add: CM_GetTable_def update_conv' TableInfo_Init_def TableMetadata_Create_def)
  qed (use inv in simp)
  then show "catalog_inv c'" "r = DB_SUCCESS \<Longrightarrow> \<exists>info. CM_GetTable c' name = (DB_SUCCESS, Some info) \<and> GetTableName info = name \<and> GetSchema info = DeepCopySchema schema"
    by blast+
qed

lemma with_heap_inv:
  assumes inv: "catalog_inv c" and "with_heap c i f = Some (x, c')"
  shows "catalog_inv c'"
proof -
  from assms(2) obtain info h where i: "map_of (cat_tables c) i = Some info" and
    c': "c' = c\<lparr>cat_bpm := th_bpm h, cat_tables := AList.update i (info\<lparr>tbl_heap := h\<rparr>) (cat_tables c)\<rparr>"
    by (auto simp: with_heap_def bind_eq_Some_conv)
  have "tables_inv c'" using inv i by (auto simp: catalog_inv_def tables_inv_def c' update_conv')
  moreover have "indexes_inv c' = indexes_inv c" by (rule indexes_inv_cong) (simp_all add: c')
  ultimately show ?thesis using inv by (simp add: catalog_inv_def)
qed

lemma with_index_inv:
  assumes inv: "catalog_inv c" and "with_index c i f = Some (x, c')"
  shows "catalog_inv c'"
proof -
  from assms(2) obtain ix t where i: "map_of (cat_indexes c) i = Some ix" and
    c': "c' = c\<lparr>cat_bpm := bt_bpm t, cat_indexes := AList.update i (ix\<lparr>ix_index := Some t\<rparr>) (cat_indexes c)\<rparr>"
    by (auto simp: with_index_def bind_eq_Some_conv)
  have "indexes_inv c'" using inv i by (fastforce simp: catalog_inv_def indexes_inv_def c' update_conv')
  moreover have "tables_inv c' = tables_inv c" by (rule tables_inv_cong) (simp_all add: c')
  ultimately show ?thesis using inv by (simp add: catalog_inv_def)
qed

lemma bpm_inv_keep: "catalog_inv (c\<lparr>cat_bpm := b\<rparr>) = catalog_inv c"
  unfolding catalog_inv_def by (subst tables_inv_cong [of _ c], simp_all, subst indexes_inv_cong [of _ c], simp_all)

lemma catalog_step_inv: "catalog_step c c' \<Longrightarrow> catalog_inv c \<Longrightarrow> catalog_inv c'"
proof (induction rule: catalog_step.induct)
  case (create_index c t n keys ty r c')
  then show ?case using CreateIndex_inv(1) [of c t n keys ty r c' 0] by (simp add: ids_for_def)
next
  case (table_indexes c t r c')
  then show ?case by (auto simp: GetTableIndexes_def Let_def split: if_splits)
next
  case (flush c r c')
  then show ?case by (auto simp: FlushCatalogMetaPage_def bind_eq_Some_conv bpm_inv_keep)
next
  case (drop_all_indexes c n k r k' c')
  then show ?case using drop_in_tables_inv by (simp add: DropAllIndexes_def)
qed (rule CreateTable_inv(1) DropTable_inv DropIndex_inv with_heap_inv with_index_inv; assumption)+

text \<open>A table \<open>t\<close> with an index \<open>i\<close>; the metadata has their pages.\<close>

definition t_catalog :: catalog where
  "t_catalog = ab_catalog\<lparr>cat_meta := \<lparr>table_meta_pages = [(0, 5)], index_meta_pages = [(0, 6)]\<rparr>,
     cat_index_names := [(bytes_of ''t'', [(bytes_of ''i'', 0)])], cat_indexes := [(0, a_index 0 ''i'')]\<rparr>"

lemma t_catalog_inv: "catalog_inv t_catalog"
  by (auto simp: catalog_inv_def tables_inv_def indexes_inv_def t_catalog_def ab_catalog_def map_ordered_def index_map_def
      TableInfo_Init_def TableMetadata_Create_def a_index_def IndexMetadata_Create_def split: if_splits)

section \<open>Properties\<close>

text \<open>
  C14: every sequence of operations of the catalog manager, and of uses of tables and indexes by executors, keeps the
  maps of the catalog in agreement. So looking up a table by name either finds it, under its own id and name, or
  reports that it does not exist: the lookup never ends in the inconsistent case.
\<close>

theorem catalog_steps_keep_invariant:
  assumes "catalog_step\<^sup>*\<^sup>* c c'" "catalog_inv c"
  shows "catalog_inv c' \<and>
    (case CM_GetTable c' name of (DB_SUCCESS, Some info) \<Rightarrow> GetTableName info = name \<and> CM_GetTable_by_id c' (tm_table_id (tbl_meta info)) = (DB_SUCCESS, Some info)
     | (DB_TABLE_NOT_EXIST, None) \<Rightarrow> map_of (cat_table_names c') name = None | _ \<Rightarrow> False)"
proof -
  from assms have inv: "catalog_inv c'" by (induction rule: rtranclp_induct) (auto intro: catalog_step_inv)
  then have N: "map_of (cat_table_names c') name = Some i \<longleftrightarrow> (\<exists>info. map_of (cat_tables c') i = Some info \<and> GetTableName info = name)"
    "map_of (cat_tables c') i = Some info \<Longrightarrow> tm_table_id (tbl_meta info) = i" for i info by (simp_all add: catalog_inv_def tables_inv_def)
  show ?thesis
  proof (cases "map_of (cat_table_names c') name")
    case (Some i)
    then obtain info where "map_of (cat_tables c') i = Some info" "GetTableName info = name" using N(1) by blast
    then show ?thesis using inv Some N(2) by (simp add: CM_GetTable_def CM_GetTable_by_id_def)
  qed (use inv in \<open>simp add: CM_GetTable_def\<close>)
qed

theorem catalog_steps_keep_invariant_witness:
  "catalog_inv (snd (DropTable t_catalog (bytes_of ''t''))) \<and> fst (CM_GetTable (snd (DropTable t_catalog (bytes_of ''t''))) (bytes_of ''t'')) = DB_TABLE_NOT_EXIST"
proof -
  let ?c = "snd (DropTable t_catalog (bytes_of ''t''))"
  have "catalog_step\<^sup>*\<^sup>* t_catalog ?c" by (rule r_into_rtranclp) (rule drop_table [OF prod.collapse [symmetric]])
  from catalog_steps_keep_invariant [OF this t_catalog_inv, of "bytes_of ''t''"] show ?thesis
    by (simp add: DropTable_def t_catalog_def ab_catalog_def CM_GetTable_def)
qed

text \<open>
  C37: dropping a table removes it from the maps of names and ids only. Its metadata page stays in the catalog's
  metadata, so the table is entered again when the database is opened the next time, and the indexes of the table stay
  in memory under its name, where a new table of that name finds them.
\<close>

theorem drop_table_leaves_indexes:
  assumes "catalog_inv c" "map_of (cat_table_names c) name = Some i" "DropTable c name = (r, c')"
  shows "r = DB_SUCCESS \<and> CM_GetTable c' name = (DB_TABLE_NOT_EXIST, None) \<and> CM_GetTable_by_id c' i = (DB_FAILED, None) \<and>
    map_of (table_meta_pages (cat_meta c')) i \<noteq> None \<and> index_map c' name = index_map c name \<and> cat_indexes c' = cat_indexes c"
proof -
  have "map_of (table_meta_pages (cat_meta c)) i \<noteq> None" using assms(1,2) by (auto simp: catalog_inv_def tables_inv_def)
  then show ?thesis using assms(2,3) by (auto simp: DropTable_def CM_GetTable_def CM_GetTable_by_id_def delete_conv')
qed

theorem drop_table_leaves_indexes_witness:
  "map_of (table_meta_pages (cat_meta (snd (DropTable t_catalog (bytes_of ''t''))))) 0 = Some 5 \<and>
   index_map (snd (DropTable t_catalog (bytes_of ''t''))) (bytes_of ''t'') = [(bytes_of ''i'', 0)]"
proof -
  have "map_of (cat_table_names t_catalog) (bytes_of ''t'') = Some 0" by (simp add: t_catalog_def ab_catalog_def)
  from drop_table_leaves_indexes [OF t_catalog_inv this prod.collapse [symmetric]] show ?thesis
    by (simp add: t_catalog_def ab_catalog_def index_map_def DropTable_def)
qed

end
