(* ===== verification/Storage_Engine.thy ===== *)
theory Storage_Engine
  imports Catalog_Invariant
begin

text \<open>
  A database: \<^verbatim>\<open>DBStorageEngine\<close> (\<^verbatim>\<open>include/common/instance.h\<close>, \<^verbatim>\<open>common/instance.cpp\<close>) puts the disk manager, the buffer
  pool and the catalog together. The catalog holds the pool and the pool holds the disk manager, so the engine is the catalog with the
  name of its file. The file system is an association list from paths to contents. The disk manager flushes every write to its file at once: after each operation on a
  database its file is what the stream of its disk manager holds (\<open>write_through\<close>). A failing \<^verbatim>\<open>ASSERT\<close> and \<^verbatim>\<open>exit\<close> are \<^term>\<open>None\<close>.
\<close>

section \<open>Model\<close>

type_synonym file_system = "(byte list \<times> byte list) list"

record storage_engine =
  se_file_name :: "byte list"
  se_init :: bool
  se_catalog :: catalog

definition DEFAULT_BUFFER_POOL_SIZE :: nat where "DEFAULT_BUFFER_POOL_SIZE = 20480"

definition database_path :: "byte list \<Rightarrow> byte list" where
  "database_path db_name = map of_char ''./databases/'' @ db_name"

text \<open>The constructor of \<^verbatim>\<open>DiskManager\<close> opens the file and creates it when it does not exist.\<close>

definition open_file :: "file_system \<Rightarrow> byte list \<Rightarrow> fstream \<times> file_system" where
  "open_file fs path =
     (case map_of fs path of
        Some bytes \<Rightarrow> (\<lparr>fs_content = bytes, fs_open = True, fs_fail = False\<rparr>, fs)
      | None \<Rightarrow> (\<lparr>fs_content = [], fs_open = True, fs_fail = False\<rparr>, AList.update path [] fs))"

text \<open>
  What a disk manager has written is in its file. The path of a file that was removed while it is open names no file.
\<close>

definition write_through :: "file_system \<Rightarrow> byte list \<Rightarrow> disk_manager \<Rightarrow> file_system" where
  "write_through fs path disk = (if map_of fs path = None then fs else AList.update path (fs_content (db_io disk)) fs)"

text \<open>The pages 0 and 1 of a new database; the exceptions are \<open>Thrown\<close>.\<close>

definition static_pages :: "bpm \<Rightarrow> (unit outcome \<times> bpm) option" where
  "static_pages b = do {
     (free, b) \<leftarrow> BPM_IsPageFree b CATALOG_META_PAGE_ID;
     if \<not> free then Some (Thrown, b)
     else do {
       (free, b) \<leftarrow> BPM_IsPageFree b INDEX_ROOTS_PAGE_ID;
       if \<not> free then Some (Thrown, b)
       else do {
         (r, b) \<leftarrow> BPM_NewPage b;
         if map_option fst r \<noteq> Some CATALOG_META_PAGE_ID then Some (Thrown, b)
         else do {
           (r, b) \<leftarrow> BPM_NewPage b;
           if map_option fst r \<noteq> Some INDEX_ROOTS_PAGE_ID then Some (Thrown, b)
           else do {
             (free0, b) \<leftarrow> BPM_IsPageFree b CATALOG_META_PAGE_ID;
             (free1, b) \<leftarrow> (if free0 then Some (True, b) else BPM_IsPageFree b INDEX_ROOTS_PAGE_ID);
             ensure (\<not> free1);
             (_, b) \<leftarrow> BPM_UnpinPage b CATALOG_META_PAGE_ID False;
             (_, b) \<leftarrow> BPM_UnpinPage b INDEX_ROOTS_PAGE_ID False;
             Some (Done (), b) } } } } }"

definition DBStorageEngine_new :: "file_system \<Rightarrow> byte list \<Rightarrow> bool \<Rightarrow> nat \<Rightarrow> (storage_engine outcome \<times> file_system) option" where
  "DBStorageEngine_new fs db_name init buffer_pool_size = do {
     let path = database_path db_name;
     let fs = (if init then AList.delete path fs else fs);
     let (f, fs) = open_file fs path;
     disk \<leftarrow> DM_open f;
     let b = BPM_new buffer_pool_size disk;
     (s, b) \<leftarrow> (if init then static_pages b
       else do {
         (free, b) \<leftarrow> BPM_IsPageFree b CATALOG_META_PAGE_ID;
         ensure (\<not> free);
         (free, b) \<leftarrow> BPM_IsPageFree b INDEX_ROOTS_PAGE_ID;
         ensure (\<not> free);
         Some (Done (), b) });
     case s of Thrown \<Rightarrow> Some (Thrown, write_through fs path (bpm_disk b))
     | Done _ \<Rightarrow> do {
         (s, c) \<leftarrow> CatalogManager_new b init;
         let fs = write_through fs path (bpm_disk (cat_bpm c));
         case s of Thrown \<Rightarrow> Some (Thrown, fs)
         | Done _ \<Rightarrow> Some (Done \<lparr>se_file_name = path, se_init = init, se_catalog = c\<rparr>, fs) } }"

text \<open>The destructor; \<open>order\<close> is the order in which the pool's hash table is walked.\<close>

definition DBStorageEngine_delete :: "((int \<rightharpoonup> int) \<Rightarrow> int list) \<Rightarrow> file_system \<Rightarrow> storage_engine \<Rightarrow> file_system option" where
  "DBStorageEngine_delete order fs e = do {
     c \<leftarrow> CatalogManager_delete (se_catalog e);
     b \<leftarrow> BPM_flush_all (cat_bpm c) (order (bpm_table (cat_bpm c)));
     disk \<leftarrow> (if closed (bpm_disk b) then Some (bpm_disk b) else DM_Close (bpm_disk b));
     Some (write_through fs (se_file_name e) disk) }"

section \<open>A new database\<close>

lemma BPM_IsPageFree_ok:
  assumes "disk_inv (bpm_disk b)" "l < BITMAP_SIZE"
  shows "BPM_IsPageFree b (int l) = Some (l \<notin> disk_used (bpm_disk b), b)"
  using DM_IsPageFree_ok [OF assms(1), of l] assms(2) by (simp add: BPM_IsPageFree_def EXT_LIMIT_def)

lemma pool_ok_new:
  assumes "n \<le> N" "n \<le> (EXT_LIMIT - 1) * BITMAP_SIZE"
  shows "pool_ok n (BPM_new N fresh_disk)" "pool_pages (BPM_new N fresh_disk) = {}" "bpm_disk (BPM_new N fresh_disk) = fresh_disk"
proof -
  have "bpm_wf (BPM_new N fresh_disk)" using bpm_inv_new [OF disk_inv_fresh, of N] by (simp add: bpm_inv_def)
  then show "pool_ok n (BPM_new N fresh_disk)"
    using assms by (simp add: pool_ok_def disk_space_def BPM_new_def allocated_only_def disk_used_fresh)
qed (simp_all add: pool_pages_def BPM_new_def disk_used_fresh)

lemma static_pages_ok:
  assumes "n + 2 \<le> N" "n + 2 \<le> (EXT_LIMIT - 1) * BITMAP_SIZE"
  obtains b where "static_pages (BPM_new N fresh_disk) = Some (Done (), b)" "pool_ok n b" "pool_pages b = {CATALOG_META_PAGE_ID, INDEX_ROOTS_PAGE_ID}"
    "bpm_view b CATALOG_META_PAGE_ID = replicate PAGE_SIZE 0" "bpm_view b INDEX_ROOTS_PAGE_ID = replicate PAGE_SIZE 0"
proof -
  let ?b0 = "BPM_new N fresh_disk"
  note P = pool_ok_new [OF assms, unfolded add_2_eq_Suc']
  obtain d1 d2 where d: "DM_AllocatePage fresh_disk = Some (0, d1)" "disk_inv d1" "disk_used d1 = {0}" "DM_AllocatePage d1 = Some (1, d2)" "disk_inv d2" "disk_used d2 = {0, 1}"
    by (rule disk_first_two)
  obtain p f b1 where b1: "BPM_NewPage ?b0 = Some (Some (p, f), b1)" "pool_ok (Suc n) b1" "pool_pages b1 = insert p (pool_pages ?b0)"
    "\<And>q. 0 \<le> q \<Longrightarrow> bpm_view b1 q = (if q = p then replicate PAGE_SIZE 0 else bpm_view ?b0 q)" "DM_AllocatePage (bpm_disk ?b0) = Some (p, bpm_disk b1)"
    by (rule pool_new [OF P(1)], rule that, assumption+)
  have p: "p = 0" "bpm_disk b1 = d1" using b1(5) d(1) P(3) by simp_all
  obtain p' f' b2 where b2: "BPM_NewPage b1 = Some (Some (p', f'), b2)" "pool_ok n b2" "pool_pages b2 = insert p' (pool_pages b1)"
    "\<And>q. 0 \<le> q \<Longrightarrow> bpm_view b2 q = (if q = p' then replicate PAGE_SIZE 0 else bpm_view b1 q)" "DM_AllocatePage (bpm_disk b1) = Some (p', bpm_disk b2)"
    by (rule pool_new [OF b1(2)], rule that, assumption+)
  have p': "p' = 1" "bpm_disk b2 = d2" using b2(5) d(4) p by simp_all
  obtain r3 b3 where b3: "BPM_UnpinPage b2 0 False = Some (r3, b3)" "pool_ok n b3" "pool_pages b3 = pool_pages b2" "\<And>q. 0 \<le> q \<Longrightarrow> bpm_view b3 q = bpm_view b2 q"
    by (rule pool_unpin [OF b2(2)], rule that, assumption+)
  obtain r4 b4 where b4: "BPM_UnpinPage b3 1 False = Some (r4, b4)" "pool_ok n b4" "pool_pages b4 = pool_pages b3" "\<And>q. 0 \<le> q \<Longrightarrow> bpm_view b4 q = bpm_view b3 q"
    by (rule pool_unpin [OF b3(2)], rule that, assumption+)
  have z: "0 < BITMAP_SIZE" "1 < BITMAP_SIZE" by (simp_all add: BITMAP_SIZE_val)
  have free: "BPM_IsPageFree ?b0 0 = Some (True, ?b0)" "BPM_IsPageFree ?b0 1 = Some (True, ?b0)" "BPM_IsPageFree b2 0 = Some (False, b2)" "BPM_IsPageFree b2 1 = Some (False, b2)"
    using BPM_IsPageFree_ok [of ?b0 0] BPM_IsPageFree_ok [of ?b0 1] BPM_IsPageFree_ok [of b2 0] BPM_IsPageFree_ok [of b2 1] P(3) p' d z
    by (simp_all add: disk_inv_fresh disk_used_fresh)
  have "static_pages ?b0 = Some (Done (), b4)"
    using free b1(1) b2(1) b3(1) b4(1) p p' by (simp add: static_pages_def CATALOG_META_PAGE_ID_def INDEX_ROOTS_PAGE_ID_def)
  then show thesis
    by (rule that) (use b4 b3 b2 b1 p p' P(2) in \<open>auto simp: CATALOG_META_PAGE_ID_def INDEX_ROOTS_PAGE_ID_def\<close>)
qed

lemma roots_rep_zero: "roots_rep (replicate PAGE_SIZE 0) []"
  by (simp add: roots_rep_def u32_at_zeros PAGE_SIZE_def)

lemma map_of_write_through: "map_of (write_through fs path disk) = (if map_of fs path = None then map_of fs else (map_of fs)(path \<mapsto> fs_content (db_io disk)))"
  by (simp add: write_through_def update_conv')

lemma database_ready:
  assumes "n + 2 \<le> buffer_pool_size" "n + 2 \<le> (EXT_LIMIT - 1) * BITMAP_SIZE"
  shows "\<exists>e fs'. DBStorageEngine_new fs db_name True buffer_pool_size = Some (Done e, fs') \<and>
    map_of fs' = (map_of fs)(database_path db_name \<mapsto> fs_content (db_io (bpm_disk (cat_bpm (se_catalog e))))) \<and>
    catalog_inv (se_catalog e) \<and> pool_ok n (cat_bpm (se_catalog e)) \<and> pool_pages (cat_bpm (se_catalog e)) = {CATALOG_META_PAGE_ID, INDEX_ROOTS_PAGE_ID} \<and>
    bpm_view (cat_bpm (se_catalog e)) CATALOG_META_PAGE_ID = replicate PAGE_SIZE 0 \<and> bpm_view (cat_bpm (se_catalog e)) INDEX_ROOTS_PAGE_ID = replicate PAGE_SIZE 0 \<and>
    roots_rep (bpm_view (cat_bpm (se_catalog e)) INDEX_ROOTS_PAGE_ID) []"
proof -
  obtain b where b: "static_pages (BPM_new buffer_pool_size fresh_disk) = Some (Done (), b)" "pool_ok n b" "pool_pages b = {CATALOG_META_PAGE_ID, INDEX_ROOTS_PAGE_ID}"
    "bpm_view b CATALOG_META_PAGE_ID = replicate PAGE_SIZE 0" "bpm_view b INDEX_ROOTS_PAGE_ID = replicate PAGE_SIZE 0" by (rule static_pages_ok [OF assms])
  have "open_file (AList.delete (database_path db_name) fs) (database_path db_name) =
      (empty_file, AList.update (database_path db_name) [] (AList.delete (database_path db_name) fs))"
    by (simp add: open_file_def delete_conv' empty_file_def)
  then show ?thesis
    using b DM_open_empty roots_rep_zero catalog_inv_new
    by (simp add: DBStorageEngine_new_def CatalogManager_new_def map_of_write_through update_conv' delete_conv' Let_def)
qed



end
