(* ===== verification/Tree_Correct.thy ===== *)
theory Tree_Correct
  imports Tree_Insert Storage_Engine
begin

text \<open>
  The B+ tree as a map. The contract is the locale \<open>key_value_index\<close>: a lookup finds the entry of an equal key and an insertion adds an entry or
  refuses it. The tree on a buffer pool with enough room is an instance; all that a client needs to know about sequences of
  insertions follows from the contract.
\<close>

section \<open>The first entry\<close>

definition btree_empty :: "nat \<Rightarrow> btree \<Rightarrow> (int \<Rightarrow> buffer) \<Rightarrow> int set \<Rightarrow> bool" where
  "btree_empty n t m A \<longleftrightarrow> tstate n t m A \<and> bt_root t = INVALID_PAGE_ID \<and> max_sizes_ok (ksz t) (lmx t) (imx t) \<and> INDEX_ROOTS_PAGE_ID \<in> A \<and>
     (\<exists>rs. roots_rep (m INDEX_ROOTS_PAGE_ID) rs \<and> map_of rs (bt_index_id t) = None \<and> length rs < MAX_INDEX_COUNT)"

lemma StartNewTree_ok:
  assumes e: "btree_empty (Suc n) t m A" and key: "orderable_key (bt_km t) key" "length key = ksz t" and v: "rid_ok v"
  obtains t' m' p where "StartNewTree t key v = Some (Done (), t')" "btree_ok n t' m' (insert p A) (PLeaf p [(key, v)])" "tkeep t t'" "p \<notin> A"
    "\<And>x. x \<in> A - {INDEX_ROOTS_PAGE_ID} \<Longrightarrow> m' x = m x"
proof -
  let ?R = INDEX_ROOTS_PAGE_ID and ?ks = "ksz t"
  from e obtain rs where E: "tstate (Suc n) t m A" "bt_root t = INVALID_PAGE_ID" "max_sizes_ok ?ks (lmx t) (imx t)" "?R \<in> A"
    and rs: "roots_rep (m ?R) rs" "map_of rs (bt_index_id t) = None" "length rs < MAX_INDEX_COUNT" unfolding btree_empty_def by blast
  note M = max_sizesD [OF E(3)]
  obtain p f t1 where t1: "new_node t = Some (Some (p, f), t1)" "tstate n t1 (m(p := replicate PAGE_SIZE 0)) (insert p A)" "holds t1 f p" "p \<notin> A"
    "tkeep t t1" "bt_root t1 = bt_root t"
    by (rule new_node_ok [OF E(1)], rule that, assumption+)
  let ?m1 = "m(p := replicate PAGE_SIZE 0)" and ?t1 = "t1\<lparr>bt_root := p\<rparr>"
  have ne: "p \<noteq> ?R" using E(4) t1(4) by blast
  have pok: "pid_ok p" using tstate_pid_ok [OF t1(2)] by simp
  note F1 = tkeep_fields [OF t1(5)]
  obtain t2 d where t2: "UpdateRootPageId ?t1 1 = Some t2" "tstate n t2 (?m1(?R := d)) (insert p A)" "tkeep ?t1 t2" "bt_root t2 = bt_root ?t1"
    "roots_rep d (rs @ [(bt_index_id ?t1, bt_root ?t1)])"
    by (rule UpdateRootPageId_new [of n ?t1 ?m1 "insert p A" rs]) (use t1(2) E(4) rs ne pok F1 that in simp_all)
  have K2: "tkeep t t2" using tkeep_trans [OF t1(5) t2(3) [unfolded tkeep_root(2)]] .
  note F2 = tkeep_fields [OF K2]
  have h2: "holds t2 f p" using tkeep_holds [OF t2(3) [unfolded tkeep_root(2)] t1(3)] .
  obtain e where e: "Leaf_Init (replicate PAGE_SIZE 0) p INVALID_PAGE_ID (int ?ks) (lmx t) = Some e" "leaf_rep ?ks e []" "node_header e p INVALID_PAGE_ID (lmx t)"
    by (rule Leaf_Init_node [of "replicate PAGE_SIZE 0" ?ks p INVALID_PAGE_ID "lmx t"]) (use M pok invalid_pid_ok that in simp_all)
  obtain d' i where d': "Leaf_Insert (bt_cmp t) e key v = Some (int (length ([] :: (generic_key \<times> rowid) list)) + 1, d')" "leaf_rep ?ks d' (take i [] @ (key, v) # drop i [])"
    "hdr_same 32 e d'"
    by (rule Leaf_Insert_ok [OF e(2) _ key v]) (use M(1) M(8) [of "[]"] that in \<open>simp_all add: leaf_keys_ok_def\<close>)
  have len: "length e = PAGE_SIZE" "length d' = PAGE_SIZE" using e(2) d'(2) by (auto simp: leaf_rep_def dest: node_repD(1))
  have hd: "node_header d' p INVALID_PAGE_ID (lmx t)" using hdr_same_header(4) [OF d'(3) _ len] e(3) by simp
  obtain t3 where t3: "put_node t2 f d' = Some t3" "tstate n t3 (?m1(?R := d, p := d')) (insert p A)" "tkeep t2 t3" "bt_root t3 = bt_root t2"
    by (rule put_node_ok [OF t2(2) h2 len(2)])
  obtain t4 where t4: "unpin_node t3 p True = Some t4" "tstate n t4 (?m1(?R := d, p := d')) (insert p A)" "tkeep t3 t4" "bt_root t4 = bt_root t3"
    by (rule unpin_node_ok [OF t3(2)])
  have K4: "tkeep t t4" using tkeep_trans [OF K2 tkeep_trans [OF t3(3) t4(3)]] .
  have root: "bt_root t4 = p" using t4(4) t3(4) t2(4) by simp
  have "map_of (rs @ [(bt_index_id t, p)]) (bt_index_id t) = Some p" using rs(2) by (simp add: map_add_def)
  then have roots: "roots_at (?m1(?R := d, p := d')) (insert p A) (bt_index_id t) p" using t2(5) ne E(4) F1
    by (simp add: roots_at_def) (rule exI [of _ "rs @ [(bt_index_id t, p)]"], simp)
  have "tree_at n t4 (?m1(?R := d, p := d')) (insert p A) (PLeaf p [(key, v)])"
    unfolding tree_at_def root tkeep_fields [OF K4] using t4(2) roots ne d'(2) hd E(3) M(1)
    by (auto simp: is_balanced_def)
  moreover have "tree_sorted (bt_km t4) (PLeaf p [(key, v)])" using key(1) tkeep_fields(1) [OF K4] by (simp add: tree_sorted_def)
  ultimately have ok: "btree_ok n t4 (?m1(?R := d, p := d')) (insert p A) (PLeaf p [(key, v)])" by (simp add: btree_ok_def)
  have "StartNewTree t key v = Some (Done (), t4)"
    unfolding StartNewTree_def t1(1) using t2(1) node_data_ok(1) [OF t2(2) h2] ne e(1) d'(1) t3(1) t4(1) F2 by simp
  then show thesis by (rule that [OF _ ok K4 t1(4)]) (use t1(4) in auto)
qed

lemma BT_Insert_start:
  assumes "btree_empty (Suc n) t m A" "orderable_key (bt_km t) key" "length key = ksz t" "rid_ok v"
  obtains t' m' p where "BT_Insert t key v = Some (Done True, t')" "btree_ok n t' m' (insert p A) (PLeaf p [(key, v)])" "tkeep t t'"
proof -
  obtain t' m' p where "StartNewTree t key v = Some (Done (), t')" "btree_ok n t' m' (insert p A) (PLeaf p [(key, v)])" "tkeep t t'"
    by (rule StartNewTree_ok [OF assms], rule that, assumption+)
  moreover have "BT_IsEmpty t" using assms(1) by (simp add: btree_empty_def BT_IsEmpty_def)
  ultimately show thesis using that by (simp add: BT_Insert_def)
qed

lemma BT_Insert_ok:
  assumes ok: "btree_ok (n + depth T + 2) t m A T" and key: "orderable_key (bt_km t) key" "length key = ksz t" and v: "rid_ok v"
  shows "\<exists>t'. if find (\<lambda>e. key_eq (bt_cmp t) (fst e) key) (entries T) \<noteq> None
    then BT_Insert t key v = Some (Done False, t') \<and> btree_ok (n + depth T + 2) t' m A T \<and> tkeep t t'
    else BT_Insert t key v = Some (Done True, t') \<and> inserted n t m A T key v t'"
proof -
  have "BT_Insert t key v = InsertIntoLeaf t key v" using btree_inv_root [OF btree_ok_inv [OF ok]] by (simp add: BT_Insert_def)
  then show ?thesis using InsertIntoLeaf_ok [OF assms] by (simp only:)
qed

section \<open>The depth of a tree\<close>

lemma balanced_size: "balanced h T \<Longrightarrow> nodes_ok T \<Longrightarrow> depth T = h \<and> 2 ^ h \<le> length (tree_pids T)"
proof (induction T arbitrary: h rule: ptree_induct)
  case (PNode p cs)
  obtain h' where h: "h = Suc h'" using PNode.prems(1) by (cases h) auto
  have IH: "depth (snd c) = h' \<and> 2 ^ h' \<le> length (tree_pids (snd c))" if "c \<in> set cs" for c
    by (rule PNode.IH [OF that]) (use PNode.prems that h in auto)
  obtain a b ds where cs: "cs = a # b # ds" using PNode.prems(2) by (cases cs; cases "tl cs") auto
  have "foldr max (map (\<lambda>c. depth (snd c)) ds) 0 \<le> h'" using IH unfolding cs by (induction ds) auto
  then have "depth (PNode p cs) = h" using IH [of a] IH [of b] by (simp add: cs h)
  moreover have "2 ^ h' + 2 ^ h' \<le> length (tree_pids (PNode p cs))" using IH [of a] IH [of b] by (simp add: cs)
  ultimately show ?case by (simp add: h)
qed simp

text \<open>A file has less than \<open>2 ^ 19\<close> pages that can be addressed, so no tree is deeper than 18.\<close>

lemma btree_depth:
  assumes "btree_ok n t m A T"
  shows "depth T \<le> 18"
proof -
  note D = tree_atD [OF assms [unfolded btree_ok_def, THEN conjunct1]]
  obtain h where h: "balanced h T" using D(9) by (auto simp: is_balanced_def)
  have b: "depth T = h" "2 ^ h \<le> length (tree_pids T)" using balanced_size [OF h] D(7) by (simp_all add: tree_shape_def)
  have P: "pool_ok n (bt_bpm t)" "pool_pages (bt_bpm t) = A" using D(1) by (simp_all add: tstate_def)
  let ?U = "disk_used (bpm_disk (bt_bpm t))"
  have sub: "set (tree_pids T) \<subseteq> int ` ?U"
  proof
    fix x assume "x \<in> set (tree_pids T)"
    then have "x \<in> pool_pages (bt_bpm t)" using D(5) P(2) by blast
    then have "nat x \<in> ?U" "x = int (nat x)" by (auto simp: pool_pages_def page_ok_def)
    then show "x \<in> int ` ?U" by blast
  qed
  have "length (tree_pids T) = card (set (tree_pids T))" using D(4) by (simp add: distinct_card)
  also have "\<dots> \<le> card (int ` ?U)" by (rule card_mono) (use sub finite_disk_used in auto)
  also have "\<dots> = card ?U" by (simp add: card_image)
  also have "\<dots> \<le> (EXT_LIMIT - 1) * BITMAP_SIZE" using P(1) by (simp add: pool_ok_def disk_space_def)
  also have "\<dots> < 2 ^ 19" by (simp add: EXT_LIMIT_def BITMAP_SIZE_val)
  finally have "(2 :: nat) ^ h < 2 ^ 19" using b(2) by simp
  then have "h < 19" by (rule power_less_imp_less_exp [rotated]) simp
  then show ?thesis using b(1) by simp
qed

section \<open>The entries of a tree\<close>

lemma entries_of_items: "nodes_ok T \<Longrightarrow> filter (\<lambda>x. case x of Ent _ \<Rightarrow> True | Sep _ \<Rightarrow> False) (items T) = map (Ent \<circ> fst) (entries T)"
proof (induction T rule: ptree_induct)
  case (PNode p cs)
  let ?P = "\<lambda>x. case x of Ent _ \<Rightarrow> True | Sep _ \<Rightarrow> False"
  have "filter ?P (items (snd c)) = map (Ent \<circ> fst) (entries (snd c))" if "c \<in> set cs" for c using PNode that by auto
  then have "filter ?P (child_items cs) = map (Ent \<circ> fst) (child_entries cs)" by (induction cs) simp_all
  moreover have "cs \<noteq> []" using PNode.prems by auto
  ultimately show ?case using items_node [of cs p] by (metis (no_types, lifting) entries.simps(2) filter.simps(2) item.case(2))
qed (simp add: filter_map o_def)

lemma entries_sorted:
  assumes "tree_sorted km T"
  shows "leaf_keys_ok km (entries T)"
proof -
  let ?P = "\<lambda>x. case x of Ent _ \<Rightarrow> True | Sep _ \<Rightarrow> False"
  have s: "sorted_wrt (item_less km) (map (Ent \<circ> fst) (entries T))" "\<forall>x \<in> set (map (Ent \<circ> fst) (entries T)). orderable_key km (item_key x)"
    using assms entries_of_items [of T] sorted_wrt_filter [of "item_less km" "items T" ?P] by (auto simp: tree_sorted_def simp flip: entries_of_items)
  then show ?thesis by (auto simp: leaf_keys_ok_def sorted_wrt_map)
qed

section \<open>The contract of an index\<close>

fun insert_seq :: "('s \<Rightarrow> 'k \<Rightarrow> 'v \<Rightarrow> (bool \<times> 's) option) \<Rightarrow> 's \<Rightarrow> ('k \<times> 'v) list \<Rightarrow> 's option" where
  "insert_seq ins s [] = Some s"
| "insert_seq ins s ((k, v) # kvs) = do { (_, s) \<leftarrow> ins s k v; insert_seq ins s kvs }"

text \<open>\<open>ok n s es\<close>: the index holds the entries \<open>es\<close> and takes \<open>n\<close> more insertions.\<close>

locale key_value_index =
  fixes ok :: "nat \<Rightarrow> 's \<Rightarrow> ('k \<times> 'v) list \<Rightarrow> bool" and valid :: "'k \<Rightarrow> bool" and storable :: "'v \<Rightarrow> bool" and eq :: "'k \<Rightarrow> 'k \<Rightarrow> bool"
    and ins :: "'s \<Rightarrow> 'k \<Rightarrow> 'v \<Rightarrow> (bool \<times> 's) option" and lookup :: "'s \<Rightarrow> 'k \<Rightarrow> ('v option \<times> 's) option"
  assumes eq_refl: "valid a \<Longrightarrow> eq a a"
    and eq_sym: "valid a \<Longrightarrow> valid b \<Longrightarrow> eq a b \<Longrightarrow> eq b a"
    and eq_trans: "valid a \<Longrightarrow> valid b \<Longrightarrow> valid c \<Longrightarrow> eq a b \<Longrightarrow> eq b c \<Longrightarrow> eq a c"
    and keys: "ok n s es \<Longrightarrow> e \<in> set es \<Longrightarrow> valid (fst e)"
    and lookup: "ok n s es \<Longrightarrow> valid k \<Longrightarrow> \<exists>s'. lookup s k = Some (map_option snd (find (\<lambda>e. eq (fst e) k) es), s') \<and> ok n s' es"
    and insert_new: "ok (Suc n) s es \<Longrightarrow> valid k \<Longrightarrow> storable v \<Longrightarrow> find (\<lambda>e. eq (fst e) k) es = None \<Longrightarrow>
      \<exists>s' xs ys. ins s k v = Some (True, s') \<and> es = xs @ ys \<and> ok n s' (xs @ (k, v) # ys)"
    and insert_old: "ok (Suc n) s es \<Longrightarrow> valid k \<Longrightarrow> storable v \<Longrightarrow> find (\<lambda>e. eq (fst e) k) es \<noteq> None \<Longrightarrow>
      \<exists>s'. ins s k v = Some (False, s') \<and> ok n s' es"
begin

definition get :: "('k \<times> 'v) list \<Rightarrow> 'k \<Rightarrow> 'v option" where
  "get es k = map_option snd (find (\<lambda>e. eq (fst e) k) es)"

lemma get_Nil: "get [] k = None"
  by (simp add: get_def)

lemma get_Cons: "get ((k, v) # es) k' = (if eq k k' then Some v else get es k')"
  by (simp add: get_def)

lemma get_append: "get (xs @ ys) k = (case get xs k of None \<Rightarrow> get ys k | Some v \<Rightarrow> Some v)"
  by (induction xs) (auto simp: get_def)

lemma get_None: "get es k = None \<longleftrightarrow> (\<forall>e \<in> set es. \<not> eq (fst e) k)"
  by (auto simp: get_def find_None_iff)

lemma get_equal: "\<forall>e \<in> set es. valid (fst e) \<Longrightarrow> valid k \<Longrightarrow> valid k' \<Longrightarrow> eq k k' \<Longrightarrow> get es k' = get es k"
proof (induction es)
  case (Cons e es)
  have "eq (fst e) k' \<longleftrightarrow> eq (fst e) k" using Cons.prems eq_sym eq_trans by (meson list.set_intros(1))
  then show ?case using Cons by (cases e) (simp add: get_Cons)
qed (simp add: get_Nil)

text \<open>The place of a new entry does not matter.\<close>

lemma get_inserted:
  assumes "\<forall>e \<in> set (xs @ ys). valid (fst e)" "valid k" "get (xs @ ys) k = None" "valid k'"
  shows "get (xs @ (k, v) # ys) k' = get ((xs @ ys) @ [(k, v)]) k'"
proof (cases "eq k k'")
  case True
  have "get (xs @ ys) k' = None" using get_equal [OF assms(1,2,4) True] assms(3) by simp
  then show ?thesis using True by (simp add: get_append get_Cons split: option.splits)
qed (simp add: get_append get_Cons get_Nil split: option.splits)

lemma insert_step:
  assumes "ok (Suc n) s es" "valid k" "storable v"
  obtains r s' es' where "ins s k v = Some (r, s')" "ok n s' es'" "r \<longleftrightarrow> get es k = None" "\<And>k'. valid k' \<Longrightarrow> get es' k' = get (es @ [(k, v)]) k'"
proof (cases "find (\<lambda>e. eq (fst e) k) es")
  case None
  from insert_new [OF assms None] obtain s' xs ys where s': "ins s k v = Some (True, s')" "es = xs @ ys" "ok n s' (xs @ (k, v) # ys)" by blast
  have g: "get (xs @ ys) k = None" using None s'(2) by (simp add: get_def)
  have "\<forall>e \<in> set (xs @ ys). valid (fst e)" using keys [OF assms(1)] s'(2) by blast
  then show thesis using that [OF s'(1,3)] get_inserted [OF _ assms(2) g] g s'(2) by simp
next
  case (Some e)
  then have "find (\<lambda>e. eq (fst e) k) es \<noteq> None" by simp
  from insert_old [OF assms this] obtain s' where s': "ins s k v = Some (False, s')" "ok n s' es" by blast
  have old: "get (es @ [(k, v)]) k' = get es k'" if k': "valid k'" for k'
  proof (cases "eq k k'")
    case True
    have "get es k' = get es k" by (rule get_equal) (use keys [OF assms(1)] assms(2) k' True in auto)
    moreover have "get es k = Some (snd e)" using Some by (simp add: get_def)
    ultimately show ?thesis by (simp add: get_append)
  qed (simp add: get_append get_Cons get_Nil split: option.splits)
  show thesis by (rule that [OF s']) (use Some old in \<open>simp_all add: get_def\<close>)
qed

text \<open>After a sequence of insertions every key has the value of its first insertion.\<close>

lemma insert_seq_get:
  "ok (n + length kvs) s es \<Longrightarrow> \<forall>kv \<in> set kvs. valid (fst kv) \<and> storable (snd kv) \<Longrightarrow>
   \<exists>s' es'. insert_seq ins s kvs = Some s' \<and> ok n s' es' \<and> (\<forall>k. valid k \<longrightarrow> get es' k = get (es @ kvs) k)"
proof (induction kvs arbitrary: s es)
  case (Cons kv kvs)
  obtain k v where kv: "kv = (k, v)" by (cases kv)
  obtain r s1 es1 where s1: "ins s k v = Some (r, s1)" "ok (n + length kvs) s1 es1" "\<And>k'. valid k' \<Longrightarrow> get es1 k' = get (es @ [(k, v)]) k'"
    by (rule insert_step [of "n + length kvs" s es k v]) (use Cons.prems kv that in auto)
  from Cons.IH [OF s1(2)] Cons.prems(2) obtain s' es' where s': "insert_seq ins s1 kvs = Some s'" "ok n s' es'" "\<forall>k. valid k \<longrightarrow> get es' k = get (es1 @ kvs) k" by auto
  have "get (es1 @ kvs) k' = get (es @ kv # kvs) k'" if "valid k'" for k'
    using s1(3) [OF that] by (simp add: get_append get_Cons get_Nil kv split: option.splits)
  then show ?case using s1(1) s' by (auto simp: kv)
qed auto

lemma insert_seq_lookup:
  assumes "ok (n + length kvs) s es" "\<forall>kv \<in> set kvs. valid (fst kv) \<and> storable (snd kv)" "valid k"
  shows "\<exists>s' s''. insert_seq ins s kvs = Some s' \<and> lookup s' k = Some (get (es @ kvs) k, s'')"
proof -
  from insert_seq_get [OF assms(1,2)] obtain s' es' where s': "insert_seq ins s kvs = Some s'" "ok n s' es'" "\<forall>k. valid k \<longrightarrow> get es' k = get (es @ kvs) k" by blast
  from lookup [OF s'(2) assms(3)] obtain s'' where "lookup s' k = Some (get es' k, s'')" by (auto simp: get_def)
  then show ?thesis using s' assms(3) by auto
qed

end

section \<open>The tree is an index\<close>

text \<open>An insertion creates at most one page for each level, one for the leaf and one for a new root.\<close>

definition btree_map :: "key_manager \<Rightarrow> nat \<Rightarrow> btree \<Rightarrow> (generic_key \<times> rowid) list \<Rightarrow> bool" where
  "btree_map km n t es \<longleftrightarrow> bt_km t = km \<and>
     ((\<exists>m A T. btree_ok (20 * n) t m A T \<and> entries T = es) \<or> (es = [] \<and> (\<exists>m A. btree_empty (20 * n) t m A)))"

definition bt_put :: "btree \<Rightarrow> generic_key \<Rightarrow> rowid \<Rightarrow> (bool \<times> btree) option" where
  "bt_put t key v = do { (r, t) \<leftarrow> BT_Insert t key v; case r of Thrown \<Rightarrow> None | Done b \<Rightarrow> Some (b, t) }"

lemma orderable_key_length: "orderable_key km k \<Longrightarrow> length k = km_key_size km"
  by (auto simp: orderable_key_def key_rep_def)

lemma btree_ok_weaken: "btree_ok n t m A T \<Longrightarrow> k \<le> n \<Longrightarrow> btree_ok k t m A T"
  using tree_at_weaken by (auto simp: btree_ok_def)

lemma btree_map_lookup:
  assumes "btree_map km n t es" "orderable_key km k"
  shows "\<exists>t'. GetValue t k = Some (map_option snd (find (\<lambda>e. key_eq (CompareKeys km) (fst e) k) es), t') \<and> btree_map km n t' es"
proof (cases "\<exists>m A T. btree_ok (20 * n) t m A T \<and> entries T = es")
  case True
  then obtain m A T where ok: "btree_ok (20 * n) t m A T" "entries T = es" by blast
  have km: "bt_km t = km" using assms(1) by (simp add: btree_map_def)
  then have k: "orderable_key (bt_km t) k" using assms(2) by simp
  obtain t' where t': "GetValue t k = Some (map_option snd (find (\<lambda>e. key_eq (bt_cmp t) (fst e) k) (entries T)), t')"
    "tstate (20 * n) t' m A" "tkeep t t'" "bt_root t' = bt_root t" by (rule GetValue_ok [OF btree_ok_inv [OF ok(1)] k])
  have "btree_ok (20 * n) t' m A T" by (rule btree_ok_keep [OF ok(1) t'(3,4,2)])
  then have "btree_map km n t' es" using ok(2) km tkeep_fields(1) [OF t'(3)] unfolding btree_map_def by blast
  then show ?thesis using t'(1) ok(2) km by blast
next
  case False
  then have "es = []" "bt_root t = INVALID_PAGE_ID" using assms(1) by (auto simp: btree_map_def btree_empty_def)
  then show ?thesis using assms(1) by (simp add: GetValue_def BT_IsEmpty_def)
qed

lemma btree_map_insert:
  assumes ok: "btree_map km (Suc n) t es" and k: "orderable_key km k" and v: "rid_ok v"
  shows "if find (\<lambda>e. key_eq (CompareKeys km) (fst e) k) es = None
    then \<exists>t' xs ys. bt_put t k v = Some (True, t') \<and> es = xs @ ys \<and> btree_map km n t' (xs @ (k, v) # ys)
    else \<exists>t'. bt_put t k v = Some (False, t') \<and> btree_map km n t' es"
proof (cases "\<exists>m A T. btree_ok (20 * Suc n) t m A T \<and> entries T = es")
  case True
  then obtain m A T where T: "btree_ok (20 * Suc n) t m A T" "entries T = es" by blast
  have km: "bt_km t = km" using ok by (simp add: btree_map_def)
  have key: "orderable_key (bt_km t) k" "length k = ksz t" using k km orderable_key_length by simp_all
  have "20 * n + depth T + 2 \<le> 20 * Suc n" using btree_depth [OF T(1)] by simp
  from BT_Insert_ok [OF btree_ok_weaken [OF T(1) this] key v] obtain t' where
    t': "if find (\<lambda>e. key_eq (CompareKeys km) (fst e) k) es \<noteq> None
      then BT_Insert t k v = Some (Done False, t') \<and> btree_ok (20 * n + depth T + 2) t' m A T \<and> tkeep t t'
      else BT_Insert t k v = Some (Done True, t') \<and> inserted (20 * n) t m A T k v t'" unfolding km T(2) by blast
  show ?thesis
  proof (cases "find (\<lambda>e. key_eq (CompareKeys km) (fst e) k) es = None")
    case True
    with t' have I: "BT_Insert t k v = Some (Done True, t')" "inserted (20 * n) t m A T k v t'" by simp_all
    then obtain m' A' T' xs ys where r: "btree_ok (20 * n) t' m' A' T'" "tkeep t t'" "es = xs @ ys" "entries T' = xs @ (k, v) # ys"
      unfolding inserted_def T(2) by blast
    have "btree_map km n t' (xs @ (k, v) # ys)" unfolding btree_map_def using r tkeep_fields(1) [OF r(2)] km by blast
    then show ?thesis using True I(1) r(3) by (auto simp: bt_put_def)
  next
    case False
    with t' have I: "BT_Insert t k v = Some (Done False, t')" "btree_ok (20 * n + depth T + 2) t' m A T" "bt_km t' = km" using km tkeep_fields(1) by auto
    then have "btree_map km n t' es" using btree_ok_weaken [OF I(2), of "20 * n"] T(2) unfolding btree_map_def by (metis le_add1 add.assoc)
    then show ?thesis using False I(1) by (simp add: bt_put_def)
  qed
next
  case False
  then obtain m A where e: "es = []" "btree_empty (20 * Suc n) t m A" "bt_km t = km" using ok unfolding btree_map_def by blast
  have "btree_empty (Suc (20 * n)) t m A" using e(2) tstate_weaken [of "20 * Suc n" t m A "Suc (20 * n)"] by (auto simp: btree_empty_def)
  from BT_Insert_start [OF this] k v e(3) orderable_key_length obtain t' m' p where t': "BT_Insert t k v = Some (Done True, t')"
    "btree_ok (20 * n) t' m' (insert p A) (PLeaf p [(k, v)])" "tkeep t t'" by metis
  have "btree_map km n t' [(k, v)]" unfolding btree_map_def using t'(2) e(3) tkeep_fields(1) [OF t'(3)] by (metis entries.simps(1))
  then show ?thesis using e(1) t'(1) by (simp add: bt_put_def)
qed

interpretation bt: key_value_index "btree_map km" "orderable_key km" rid_ok "key_eq (CompareKeys km)" bt_put GetValue for km
proof
  fix a b c :: generic_key and n t es e v and k :: generic_key
  show "key_eq (CompareKeys km) a a" if "orderable_key km a"
    using that km.eq_iff [OF that that] km.cmp_flip [OF that that] km.lt_le [of km a a] by blast
  have le: "key_eq (CompareKeys km) a b \<longleftrightarrow> key_le (CompareKeys km) a b \<and> key_le (CompareKeys km) b a" if "orderable_key km a" "orderable_key km b" for a b
    using that km.eq_iff [OF that] km.cmp_flip [OF that] by blast
  show "key_eq (CompareKeys km) b a" if "orderable_key km a" "orderable_key km b" "key_eq (CompareKeys km) a b"
    using that le by blast
  show "key_eq (CompareKeys km) a c" if "orderable_key km a" "orderable_key km b" "orderable_key km c" "key_eq (CompareKeys km) a b" "key_eq (CompareKeys km) b c"
    using that le [OF that(1,2)] le [OF that(2,3)] le [OF that(1,3)] km.cmp_trans [OF that(1,2,3)] km.cmp_trans [OF that(3,2,1)] by blast
  show "orderable_key km (fst e)" if "btree_map km n t es" "e \<in> set es"
  proof -
    from that obtain m A T where T: "btree_ok (20 * n) t m A T" "entries T = es" "bt_km t = km" unfolding btree_map_def by auto
    then have "leaf_keys_ok km es" using entries_sorted [of km T] by (simp add: btree_ok_def)
    then show ?thesis using that(2) by (auto simp: leaf_keys_ok_def)
  qed
  show "\<exists>t'. GetValue t k = Some (map_option snd (find (\<lambda>e. key_eq (CompareKeys km) (fst e) k) es), t') \<and> btree_map km n t' es"
    if "btree_map km n t es" "orderable_key km k" by (rule btree_map_lookup [OF that])
  show "\<exists>t' xs ys. bt_put t k v = Some (True, t') \<and> es = xs @ ys \<and> btree_map km n t' (xs @ (k, v) # ys)"
    if "btree_map km (Suc n) t es" "orderable_key km k" "rid_ok v" "find (\<lambda>e. key_eq (CompareKeys km) (fst e) k) es = None"
    using btree_map_insert [OF that(1-3)] unfolding if_P [OF that(4)] .
  show "\<exists>t'. bt_put t k v = Some (False, t') \<and> btree_map km n t' es"
    if "btree_map km (Suc n) t es" "orderable_key km k" "rid_ok v" "find (\<lambda>e. key_eq (CompareKeys km) (fst e) k) es \<noteq> None"
    using btree_map_insert [OF that(1-3)] unfolding if_not_P [OF that(4)] .
qed

section \<open>A new tree\<close>

lemma default_sizes:
  assumes "ks \<le> 1000"
  shows "max_sizes_ok ks (int ((PAGE_SIZE - LEAF_PAGE_HEADER_SIZE) div (8 + ks)) - 1) (int ((PAGE_SIZE - INTERNAL_PAGE_HEADER_SIZE) div (8 + ks)) - 1)"
proof -
  have a: "4 * (8 + ks) \<le> 4064" "4 * (8 + ks) \<le> 4068" using assms by simp_all
  have d: "4 \<le> 4064 div (8 + ks)" "4 \<le> 4068 div (8 + ks)" using a by (simp_all add: less_eq_div_iff_mult_less_eq)
  have b: "4064 div (8 + ks) * (ks + 8) \<le> 4064" "4068 div (8 + ks) * (ks + 8) \<le> 4068" by (simp_all add: add.commute)
  have "4068 div (8 + ks) * (ks + 4) \<le> 4068" using b(2) by (meson add_le_mono1 le_trans mult_le_mono2 numeral_le_iff order_refl semiring_norm add_left_mono)
  then show ?thesis using d b by (simp add: max_sizes_ok_def LEAF_PAGE_HEADER_SIZE_def INTERNAL_PAGE_HEADER_SIZE_def PAGE_SIZE_def nat_diff_distrib)
qed

lemma BPlusTree_new_ok:
  assumes b: "pool_ok (20 * n) b" "INDEX_ROOTS_PAGE_ID \<in> pool_pages b" and rs: "roots_rep (bpm_view b INDEX_ROOTS_PAGE_ID) rs" "map_of rs index_id = None" "length rs < MAX_INDEX_COUNT"
    and ks: "km_key_size km \<le> 1000"
  obtains t where "BPlusTree_new index_id b km UNDEFINED_SIZE UNDEFINED_SIZE = Some t" "btree_map km n t []"
proof -
  let ?lm = "int ((PAGE_SIZE - LEAF_PAGE_HEADER_SIZE) div (8 + km_key_size km)) - 1" and ?im = "int ((PAGE_SIZE - INTERNAL_PAGE_HEADER_SIZE) div (8 + km_key_size km)) - 1"
  let ?t0 = "\<lparr>bt_index_id = index_id, bt_root = INVALID_PAGE_ID, bt_bpm = b, bt_km = km, bt_leaf_max = ?lm, bt_int_max = ?im\<rparr>"
  have t0: "tstate (20 * n) ?t0 (bpm_view b) (pool_pages b)" using b(1) by (simp add: tstate_def)
  obtain f t1 where t1: "fetch_node ?t0 INDEX_ROOTS_PAGE_ID = Some (f, t1)" "tstate (20 * n) t1 (bpm_view b) (pool_pages b)" "holds t1 f INDEX_ROOTS_PAGE_ID" "tkeep ?t0 t1"
    "bt_root t1 = bt_root ?t0" by (rule fetch_node_ok [OF t0 b(2)])
  obtain t2 where t2: "unpin_node t1 INDEX_ROOTS_PAGE_ID True = Some t2" "tstate (20 * n) t2 (bpm_view b) (pool_pages b)" "tkeep t1 t2" "bt_root t2 = bt_root t1"
    by (rule unpin_node_ok [OF t1(2)])
  have g: "IR_GetRootId (bpm_view b INDEX_ROOTS_PAGE_ID) index_id = Some None" using IR_GetRootId_ok [OF rs(1)] rs(2) by simp
  note K = tkeep_trans [OF t1(4) t2(3)]
  have "BPlusTree_new index_id b km UNDEFINED_SIZE UNDEFINED_SIZE = Some t2"
    using t1(1) node_data_ok(1) [OF t1(2,3)] g t2(1) by (simp add: BPlusTree_new_def)
  moreover have "btree_empty (20 * n) t2 (bpm_view b) (pool_pages b)"
    unfolding btree_empty_def tkeep_fields [OF K] using t2(2,4) t1(5) default_sizes [OF ks] b(2) rs by auto
  then have "btree_map km n t2 []" unfolding btree_map_def using tkeep_fields(1) [OF K] by auto
  ultimately show thesis by (rule that)
qed

section \<open>Properties\<close>

text \<open>
  C4: \<^verbatim>\<open>BPlusTree::Insert\<close> on a tree with the pages of \<open>T\<close> and enough room in the pool. A key that the tree has is refused and every page keeps its contents. Any
  other key enters the leaf level at its place, with every split that this takes: the result is again a tree whose
  pages are well formed, sorted, within their sizes and balanced, registered with its root in the index roots page, and pages that are not part of the tree are unchanged.
\<close>

theorem btree_insert:
  assumes "btree_ok (n + depth T + 2) t m A T" "orderable_key (bt_km t) key" "rid_ok v"
  shows "\<exists>t'. if find (\<lambda>e. key_eq (bt_cmp t) (fst e) key) (entries T) \<noteq> None
    then BT_Insert t key v = Some (Done False, t') \<and> btree_ok (n + depth T + 2) t' m A T
    else BT_Insert t key v = Some (Done True, t') \<and>
      (\<exists>m' A' T' xs ys. btree_ok n t' m' A' T' \<and> entries T = xs @ ys \<and> entries T' = xs @ (key, v) # ys \<and> leaf_keys_ok (bt_km t) (entries T') \<and>
         A \<subseteq> A' \<and> (\<forall>x \<in> A - insert INDEX_ROOTS_PAGE_ID (set (tree_pids T)). m' x = m x))"
proof -
  have len: "length key = ksz t" using orderable_key_length [OF assms(2)] .
  obtain t' where t': "if find (\<lambda>e. key_eq (bt_cmp t) (fst e) key) (entries T) \<noteq> None
    then BT_Insert t key v = Some (Done False, t') \<and> btree_ok (n + depth T + 2) t' m A T \<and> tkeep t t'
    else BT_Insert t key v = Some (Done True, t') \<and> inserted n t m A T key v t'" using BT_Insert_ok [OF assms(1,2) len assms(3)] by blast
  have srt: "leaf_keys_ok (bt_km t) (entries T')" if "btree_ok n t' m' A' T'" "tkeep t t'" for m' A' T'
    using that entries_sorted [of "bt_km t" T'] tkeep_fields(1) [OF that(2)] by (simp add: btree_ok_def)
  show ?thesis
  proof (cases "find (\<lambda>e. key_eq (bt_cmp t) (fst e) key) (entries T) = None")
    case True
    with t' have "BT_Insert t key v = Some (Done True, t')" "inserted n t m A T key v t'" by simp_all
    then show ?thesis using True srt unfolding inserted_def by (intro exI [of _ t']) (simp, blast)
  qed (use t' in auto)
qed

text \<open>
  C3: the index is a map. Starting from a tree with the entries \<open>es\<close> and room for as many insertions as are made, \<^verbatim>\<open>Insert\<close> and \<^verbatim>\<open>GetValue\<close> always return, and after the
  insertion of \<open>kvs\<close> \<^verbatim>\<open>GetValue\<close> finds for every key the row id of the first entry with an equal key in \<open>es @ kvs\<close>: a later insertion of the key is without effect.
\<close>

theorem btree_is_map:
  assumes "btree_map km (length kvs) t es" "\<forall>kv \<in> set kvs. orderable_key km (fst kv) \<and> rid_ok (snd kv)" "orderable_key km key"
  shows "\<exists>t' t''. insert_seq bt_put t kvs = Some t' \<and>
    GetValue t' key = Some (map_option snd (find (\<lambda>e. key_eq (CompareKeys km) (fst e) key) (es @ kvs)), t'')"
  using bt.insert_seq_lookup [of km 0 kvs t es key] assms by (simp add: bt.get_def)

text \<open>
  C2: an index on a new database, with the sizes that the constructor of \<^verbatim>\<open>BPlusTree\<close> computes for keys of at most 1000 bytes: after any sequence of insertions that the pool and
  the file have room for (twenty pages for each), \<^verbatim>\<open>GetValue\<close> returns the row id of the first entry with an equal key, and nothing for a key that was not inserted.
\<close>

theorem new_index_finds_entries:
  assumes "20 * length kvs + 2 \<le> buffer_pool_size" "20 * length kvs + 2 \<le> (EXT_LIMIT - 1) * BITMAP_SIZE" "km_key_size km \<le> 1000"
    "\<forall>kv \<in> set kvs. orderable_key km (fst kv) \<and> rid_ok (snd kv)" "orderable_key km key"
  shows "\<exists>e fs' t t' t''. DBStorageEngine_new fs db_name True buffer_pool_size = Some (Done e, fs') \<and>
    BPlusTree_new index_id (cat_bpm (se_catalog e)) km UNDEFINED_SIZE UNDEFINED_SIZE = Some t \<and> insert_seq bt_put t kvs = Some t' \<and>
    GetValue t' key = Some (map_option snd (find (\<lambda>e. key_eq (CompareKeys km) (fst e) key) kvs), t'')"
proof -
  from database_ready [OF assms(1,2), of fs db_name] obtain e fs' where e: "DBStorageEngine_new fs db_name True buffer_pool_size = Some (Done e, fs')"
    "pool_ok (20 * length kvs) (cat_bpm (se_catalog e))" "pool_pages (cat_bpm (se_catalog e)) = {CATALOG_META_PAGE_ID, INDEX_ROOTS_PAGE_ID}"
    "roots_rep (bpm_view (cat_bpm (se_catalog e)) INDEX_ROOTS_PAGE_ID) []" by blast
  obtain t where t: "BPlusTree_new index_id (cat_bpm (se_catalog e)) km UNDEFINED_SIZE UNDEFINED_SIZE = Some t" "btree_map km (length kvs) t []"
    by (rule BPlusTree_new_ok [OF e(2) _ e(4) _ _ assms(3)]) (use e(3) that in \<open>simp_all add: MAX_INDEX_COUNT_def PAGE_SIZE_def\<close>)
  from bt.insert_seq_lookup [of km 0 kvs t "[]" key] t assms(4,5) obtain t' t'' where
    "insert_seq bt_put t kvs = Some t'" "GetValue t' key = Some (map_option snd (find (\<lambda>e. key_eq (CompareKeys km) (fst e) key) kvs), t'')"
    by (auto simp: bt.get_def)
  then show ?thesis using e(1) t(1) by blast
qed

section \<open>Instances\<close>

text \<open>The instances use integer keys on a new database.\<close>

definition slot_rid :: "u32 \<Rightarrow> rowid" where "slot_rid i = \<lparr>rid_page = 7, rid_slot = i\<rparr>"

lemma sample_tree:
  assumes "n \<le> 100"
  obtains t where "btree_map int_key_manager n t []"
proof -
  have r: "20 * n + 2 \<le> (3000 :: nat)" "20 * n + 2 \<le> (EXT_LIMIT - 1) * BITMAP_SIZE" using assms by (simp_all add: EXT_LIMIT_def BITMAP_SIZE_val)
  from database_ready [OF r, of "[]" "[100]"] obtain e fs' where e: "DBStorageEngine_new [] [100] True 3000 = Some (Done e, fs')"
    "pool_ok (20 * n) (cat_bpm (se_catalog e))" "pool_pages (cat_bpm (se_catalog e)) = {CATALOG_META_PAGE_ID, INDEX_ROOTS_PAGE_ID}"
    "roots_rep (bpm_view (cat_bpm (se_catalog e)) INDEX_ROOTS_PAGE_ID) []" by blast
  obtain t where t: "BPlusTree_new 3 (cat_bpm (se_catalog e)) int_key_manager UNDEFINED_SIZE UNDEFINED_SIZE = Some t" "btree_map int_key_manager n t []"
    by (rule BPlusTree_new_ok [of n "cat_bpm (se_catalog e)" "[]" 3 int_key_manager])
      (use e that in \<open>simp_all add: MAX_INDEX_COUNT_def PAGE_SIZE_def int_key_manager_def\<close>)
  then show thesis using that by blast
qed

theorem btree_insert_witness:
  "\<exists>t t' t''. BT_Insert t (sample_key 5) (slot_rid 1) = Some (Done True, t') \<and> BT_Insert t' (sample_key 5) (slot_rid 2) = Some (Done False, t'')"
proof -
  obtain t where t: "btree_map int_key_manager (Suc 9) t []" by (rule sample_tree [of "Suc 9"]) simp_all
  have ok: "orderable_key int_key_manager (sample_key i)" "rid_ok (slot_rid j)" for i j by (simp_all add: sample_key rid_ok_def slot_rid_def)
  have "\<exists>t0 xs ys. bt_put t (sample_key 5) (slot_rid 1) = Some (True, t0) \<and> [] = xs @ ys \<and> btree_map int_key_manager 9 t0 (xs @ (sample_key 5, slot_rid 1) # ys)"
    using bt.insert_new [OF t ok, of 5 1] by simp
  then obtain t0 where t0: "bt_put t (sample_key 5) (slot_rid 1) = Some (True, t0)" "btree_map int_key_manager 9 t0 [(sample_key 5, slot_rid 1)]" by auto
  have i: "BT_Insert t (sample_key 5) (slot_rid 1) = Some (Done True, t0)"
    using t0(1) by (cases "BT_Insert t (sample_key 5) (slot_rid 1)") (auto simp: bt_put_def split: outcome.splits prod.splits)
  have km: "bt_km t0 = int_key_manager" and "\<exists>m A T. btree_ok (20 * 9) t0 m A T \<and> entries T = [(sample_key 5, slot_rid 1)]"
    using t0(2) by (simp_all add: btree_map_def)
  then obtain m A T where T: "btree_ok (20 * 9) t0 m A T" "entries T = [(sample_key 5, slot_rid 1)]" by blast
  have "btree_ok (0 + depth T + 2) t0 m A T" by (rule btree_ok_weaken [OF T(1)]) (use btree_depth [OF T(1)] in simp)
  from btree_insert [OF this, of "sample_key 5" "slot_rid 2"] i km ok T(2) sample_key(3) [of 5 5] show ?thesis by (auto split: if_splits)
qed

theorem btree_is_map_witness:
  "\<exists>t t' t''. insert_seq bt_put t [(sample_key 5, slot_rid 1), (sample_key 2, slot_rid 2), (sample_key 5, slot_rid 3)] = Some t' \<and>
     GetValue t' (sample_key 5) = Some (Some (slot_rid 1), t'')"
proof -
  obtain t where t: "btree_map int_key_manager 3 t []" by (rule sample_tree [of 3]) simp_all
  with btree_is_map [of int_key_manager "[(sample_key 5, slot_rid 1), (sample_key 2, slot_rid 2), (sample_key 5, slot_rid 3)]" t "[]" "sample_key 5"]
  show ?thesis using sample_key by (auto simp: rid_ok_def slot_rid_def numeral_3_eq_3)
qed

theorem new_index_finds_entries_witness:
  "\<exists>e fs' t t' t''. DBStorageEngine_new [] [100] True 100 = Some (Done e, fs') \<and>
    BPlusTree_new 1 (cat_bpm (se_catalog e)) int_key_manager UNDEFINED_SIZE UNDEFINED_SIZE = Some t \<and>
    insert_seq bt_put t [(sample_key 5, slot_rid 1), (sample_key 2, slot_rid 2)] = Some t' \<and> GetValue t' (sample_key 2) = Some (Some (slot_rid 2), t'')"
  using new_index_finds_entries [of "[(sample_key 5, slot_rid 1), (sample_key 2, slot_rid 2)]" 100 int_key_manager "sample_key 2" "[]" "[100]" 1] sample_key
  by (auto simp: rid_ok_def slot_rid_def EXT_LIMIT_def BITMAP_SIZE_val int_key_manager_def)

end
