(* ===== verification/Sql_Scanner.thy ===== *)
theory Sql_Scanner
  imports Syntax_Tree
begin

text \<open>
  The scanner \<^verbatim>\<open>yylex\<close> that \<^verbatim>\<open>flex\<close> made of \<^verbatim>\<open>minisql.l\<close> (\<^verbatim>\<open>parser/minisql_lex.c\<close>): its tables, the loop that runs the automaton, the treatment of the
  end of the buffer, and the actions. The buffer is the one of \<^verbatim>\<open>yy_scan_string\<close>: the command, a C string, followed by two end-of-buffer characters.
  A table that is read outside its bounds, the text of a \<^verbatim>\<open>NUL\<close> in the buffer and a loop that does not end are \<^term>\<open>None\<close>.
\<close>

section \<open>Tables\<close>

definition yy_accept :: "nat list" where
  "yy_accept = [0, 41, 41, 57, 55, 54, 54, 55, 49, 52, 53, 47, 46, 41, 55, 41, 48, 50, 42, 51, 39, 39, 39, 39, 39, 39, 39, 39, 39, 39, 39, 39, 39, 39, 39, 39,
     39, 39, 39, 0, 1, 0, 0, 41, 40, 44, 43, 45, 39, 39, 39, 39, 39, 39, 39, 39, 39, 39, 39, 39, 39, 37, 39, 39, 39, 22, 35, 39, 39, 39, 39, 39, 39,
     39, 39, 39, 39, 39, 34, 39, 39, 39, 39, 39, 39, 39, 39, 39, 39, 39, 39, 32, 29, 36, 39, 39, 39, 39, 39, 26, 39, 39, 39, 39, 14, 39, 39, 39, 39,
     31, 39, 39, 39, 39, 3, 39, 39, 23, 39, 39, 25, 38, 39, 11, 39, 39, 13, 39, 39, 39, 39, 39, 39, 8, 39, 39, 39, 39, 39, 33, 20, 39, 39, 39, 39,
     18, 39, 39, 15, 39, 24, 9, 2, 39, 6, 39, 39, 5, 39, 39, 4, 19, 30, 7, 27, 39, 39, 21, 28, 39, 16, 12, 10, 17, 0]"

definition yy_ec :: "nat list" where
  "yy_ec = [0, 1, 1, 1, 1, 1, 1, 1, 1, 2, 3, 2, 2, 1, 1, 1, 1, 1, 1, 1, 1, 1, 1, 1, 1, 1, 1, 1, 1, 1, 1, 1, 2, 1, 4, 1, 1, 1, 1, 5, 6, 7, 8, 1, 9, 10, 11,
     1, 12, 12, 12, 12, 12, 12, 12, 12, 12, 12, 1, 13, 14, 15, 16, 1, 1, 17, 17, 17, 17, 17, 17, 17, 17, 17, 17, 17, 17, 17, 17, 17, 17, 17, 17, 17,
     17, 17, 17, 17, 17, 17, 17, 1, 18, 1, 1, 17, 1, 19, 20, 21, 22, 23, 24, 25, 26, 27, 17, 28, 29, 30, 31, 32, 33, 34, 35, 36, 37, 38, 39, 40, 41,
     42, 17, 1, 1, 1, 1, 1, 1, 1, 1, 1, 1, 1, 1, 1, 1, 1, 1, 1, 1, 1, 1, 1, 1, 1, 1, 1, 1, 1, 1, 1, 1, 1, 1, 1, 1, 1, 1, 1, 1, 1, 1, 1, 1, 1, 1, 1,
     1, 1, 1, 1, 1, 1, 1, 1, 1, 1, 1, 1, 1, 1, 1, 1, 1, 1, 1, 1, 1, 1, 1, 1, 1, 1, 1, 1, 1, 1, 1, 1, 1, 1, 1, 1, 1, 1, 1, 1, 1, 1, 1, 1, 1, 1, 1, 1,
     1, 1, 1, 1, 1, 1, 1, 1, 1, 1, 1, 1, 1, 1, 1, 1, 1, 1, 1, 1, 1, 1, 1, 1, 1, 1, 1, 1, 1, 1, 1, 1, 1, 1, 1, 1, 1, 1, 1, 1]"

definition yy_meta :: "nat list" where
  "yy_meta = [0, 1, 1, 1, 1, 1, 1, 1, 1, 1, 1, 1, 2, 1, 1, 1, 1, 2, 1, 2, 2, 2, 2, 2, 2, 2, 2, 2, 2, 2, 2, 2, 2, 2, 2, 2, 2, 2, 2, 2, 2, 2, 2]"

definition yy_base :: "nat list" where
  "yy_base = [0, 0, 0, 188, 189, 189, 189, 39, 189, 189, 189, 189, 189, 33, 175, 35, 189, 33, 189, 171, 0, 154, 161, 24, 32, 142, 23, 29, 159, 30, 35, 146,
     142, 147, 38, 159, 38, 158, 150, 59, 189, 172, 162, 42, 161, 189, 189, 189, 0, 150, 146, 151, 139, 145, 130, 137, 133, 141, 131, 130, 50, 0,
     119, 123, 130, 0, 0, 131, 130, 127, 44, 123, 134, 126, 130, 52, 122, 127, 0, 122, 113, 117, 127, 126, 121, 110, 121, 122, 110, 116, 115, 105, 0,
     0, 107, 105, 97, 104, 109, 0, 91, 101, 95, 109, 0, 96, 88, 90, 93, 0, 96, 85, 101, 83, 0, 95, 81, 0, 76, 81, 0, 0, 96, 0, 94, 92, 0, 89, 73, 73,
     84, 85, 84, 0, 69, 82, 85, 80, 75, 0, 78, 63, 64, 79, 60, 60, 72, 71, 0, 57, 0, 0, 0, 56, 0, 62, 54, 0, 43, 63, 0, 0, 0, 0, 0, 60, 59, 0, 0, 52,
     42, 0, 0, 0, 189, 87, 74]"

definition yy_def :: "nat list" where
  "yy_def = [0, 174, 1, 174, 174, 174, 174, 175, 174, 174, 174, 174, 174, 174, 174, 174, 174, 174, 174, 174, 176, 176, 176, 176, 176, 176, 176, 176, 176,
     176, 176, 176, 176, 176, 176, 176, 176, 176, 176, 175, 174, 175, 174, 174, 174, 174, 174, 174, 176, 176, 176, 176, 176, 176, 176, 176, 176, 176,
     176, 176, 176, 176, 176, 176, 176, 176, 176, 176, 176, 176, 176, 176, 176, 176, 176, 176, 176, 176, 176, 176, 176, 176, 176, 176, 176, 176, 176,
     176, 176, 176, 176, 176, 176, 176, 176, 176, 176, 176, 176, 176, 176, 176, 176, 176, 176, 176, 176, 176, 176, 176, 176, 176, 176, 176, 176, 176,
     176, 176, 176, 176, 176, 176, 176, 176, 176, 176, 176, 176, 176, 176, 176, 176, 176, 176, 176, 176, 176, 176, 176, 176, 176, 176, 176, 176, 176,
     176, 176, 176, 176, 176, 176, 176, 176, 176, 176, 176, 176, 176, 176, 176, 176, 176, 176, 176, 176, 176, 176, 176, 176, 176, 176, 176, 176, 176,
     0, 174, 174]"

definition yy_nxt :: "nat list" where
  "yy_nxt = [0, 4, 5, 6, 7, 8, 9, 10, 11, 12, 13, 14, 15, 16, 17, 18, 19, 20, 4, 21, 22, 23, 24, 25, 26, 20, 20, 27, 28, 20, 20, 29, 30, 31, 32, 33, 34, 35,
     36, 37, 38, 20, 20, 40, 42, 43, 42, 43, 45, 46, 51, 54, 58, 42, 43, 55, 52, 41, 59, 53, 60, 70, 63, 40, 71, 61, 65, 56, 64, 73, 66, 74, 89, 98,
     75, 104, 48, 41, 173, 105, 172, 99, 171, 170, 169, 168, 90, 91, 39, 39, 167, 166, 165, 164, 163, 162, 161, 160, 159, 158, 157, 156, 155, 154,
     153, 152, 151, 150, 149, 148, 147, 146, 145, 144, 143, 142, 141, 140, 139, 138, 137, 136, 135, 134, 133, 132, 131, 130, 129, 128, 127, 126, 125,
     124, 123, 122, 121, 120, 119, 118, 117, 116, 115, 114, 113, 112, 111, 110, 109, 108, 107, 106, 103, 102, 101, 100, 97, 96, 95, 94, 93, 92, 88,
     87, 86, 85, 84, 83, 82, 81, 80, 79, 78, 44, 44, 174, 77, 76, 72, 69, 68, 67, 62, 57, 50, 49, 47, 44, 174, 3, 174, 174, 174, 174, 174, 174, 174,
     174, 174, 174, 174, 174, 174, 174, 174, 174, 174, 174, 174, 174, 174, 174, 174, 174, 174, 174, 174, 174, 174, 174, 174, 174, 174, 174, 174, 174,
     174, 174, 174, 174, 174, 174]"

definition yy_chk :: "nat list" where
  "yy_chk = [0, 1, 1, 1, 1, 1, 1, 1, 1, 1, 1, 1, 1, 1, 1, 1, 1, 1, 1, 1, 1, 1, 1, 1, 1, 1, 1, 1, 1, 1, 1, 1, 1, 1, 1, 1, 1, 1, 1, 1, 1, 1, 1, 7, 13, 13, 15,
     15, 17, 17, 23, 24, 26, 43, 43, 24, 23, 7, 26, 23, 27, 34, 29, 39, 34, 27, 30, 24, 29, 36, 30, 36, 60, 70, 36, 75, 176, 39, 170, 75, 169, 70,
     166, 165, 159, 158, 60, 60, 175, 175, 156, 155, 153, 149, 147, 146, 145, 144, 143, 142, 141, 140, 138, 137, 136, 135, 134, 132, 131, 130, 129,
     128, 127, 125, 124, 122, 119, 118, 116, 115, 113, 112, 111, 110, 108, 107, 106, 105, 103, 102, 101, 100, 98, 97, 96, 95, 94, 91, 90, 89, 88, 87,
     86, 85, 84, 83, 82, 81, 80, 79, 77, 76, 74, 73, 72, 71, 69, 68, 67, 64, 63, 62, 59, 58, 57, 56, 55, 54, 53, 52, 51, 50, 49, 44, 42, 41, 38, 37,
     35, 33, 32, 31, 28, 25, 22, 21, 19, 14, 3, 174, 174, 174, 174, 174, 174, 174, 174, 174, 174, 174, 174, 174, 174, 174, 174, 174, 174, 174, 174,
     174, 174, 174, 174, 174, 174, 174, 174, 174, 174, 174, 174, 174, 174, 174, 174, 174, 174, 174, 174, 174, 174, 174]"

definition entry :: "'a list \<Rightarrow> nat \<Rightarrow> 'a option" where
  "entry t i = (if i < length t then Some (t ! i) else None)"

section \<open>The automaton\<close>

definition YY_END_OF_BUFFER_CHAR :: char where "YY_END_OF_BUFFER_CHAR = CHR 0x00"
definition YY_END_OF_BUFFER :: nat where "YY_END_OF_BUFFER = 57"
definition YY_STATE_EOF :: nat where "YY_STATE_EOF = 58"

definition yy_scan_buffer :: "string \<Rightarrow> string option" where
  "yy_scan_buffer base =
     (let size = length base in
      if size < 2 \<or> base ! (size - 2) \<noteq> YY_END_OF_BUFFER_CHAR \<or> base ! (size - 1) \<noteq> YY_END_OF_BUFFER_CHAR then None
      else Some (take (size - 2) base))"

definition yy_scan_bytes :: "string \<Rightarrow> string option" where
  "yy_scan_bytes s = yy_scan_buffer (s @ [YY_END_OF_BUFFER_CHAR, YY_END_OF_BUFFER_CHAR])"

definition yy_scan_string :: "string \<Rightarrow> string option" where "yy_scan_string s = yy_scan_bytes (c_string s)"

definition char_class :: "char \<Rightarrow> nat" where "char_class c = yy_ec ! of_char c"

text \<open>One transition: the walk along the default states.\<close>

partial_function (option) yy_trans :: "nat \<Rightarrow> nat \<Rightarrow> nat option" where
  "yy_trans q c = do {
     b \<leftarrow> entry yy_base q;
     k \<leftarrow> entry yy_chk (b + c);
     if k = q then entry yy_nxt (b + c)
     else do {
       d \<leftarrow> entry yy_def q;
       m \<leftarrow> (if 175 \<le> d then entry yy_meta c else Some c);
       yy_trans d m } }"

text \<open>The last accepting state and the number of characters read when it was left.\<close>

type_synonym last_accept = "(nat \<times> nat) option"

definition note_accept :: "nat \<Rightarrow> nat \<Rightarrow> last_accept \<Rightarrow> last_accept option" where
  "note_accept q n seen = do { a \<leftarrow> entry yy_accept q; Some (if a \<noteq> 0 then Some (q, n) else seen) }"

fun yy_match :: "nat \<Rightarrow> string \<Rightarrow> nat \<Rightarrow> last_accept \<Rightarrow> (nat \<times> nat \<times> last_accept) option" where
  "yy_match q [] n seen = None"
| "yy_match q (ch # buf) n seen = do {
     seen \<leftarrow> note_accept q n seen;
     q \<leftarrow> yy_trans q (char_class ch);
     b \<leftarrow> entry yy_base q;
     if b = 189 then Some (q, Suc n, seen) else yy_match q buf (Suc n) seen }"

definition yy_find_action :: "nat \<Rightarrow> nat \<Rightarrow> last_accept \<Rightarrow> (nat \<times> nat) option" where
  "yy_find_action q n seen = do {
     a \<leftarrow> entry yy_accept q;
     if a \<noteq> 0 then Some (a, n)
     else do {
       (q, n) \<leftarrow> seen;
       a \<leftarrow> entry yy_accept q;
       ensure (a \<noteq> 0);
       Some (a, n) } }"

fun yy_get_previous_state :: "nat \<Rightarrow> string \<Rightarrow> nat \<Rightarrow> last_accept \<Rightarrow> (nat \<times> last_accept) option" where
  "yy_get_previous_state q [] n seen = Some (q, seen)"
| "yy_get_previous_state q (ch # buf) n seen = do {
     seen \<leftarrow> note_accept q n seen;
     q \<leftarrow> yy_trans q (if ch \<noteq> CHR 0x00 then char_class ch else 1);
     yy_get_previous_state q buf (Suc n) seen }"

text \<open>
  The rule that is matched at the start of \<open>s\<close> and the length of the text. At the end of the buffer either the input is at an end or the text before it is
  matched first.
\<close>

definition yy_lexeme :: "string \<Rightarrow> (nat \<times> nat) option" where
  "yy_lexeme s = do {
     (q, n, seen) \<leftarrow> yy_match 1 (s @ [YY_END_OF_BUFFER_CHAR, YY_END_OF_BUFFER_CHAR]) 0 None;
     (act, n) \<leftarrow> yy_find_action q n seen;
     if act \<noteq> YY_END_OF_BUFFER then Some (act, n)
     else do {
       ensure (length s < n);
       if n = 1 then Some (YY_STATE_EOF, 0)
       else do {
         (q, seen) \<leftarrow> yy_get_previous_state 1 s 0 seen;
         yy_find_action q (length s) seen } } }"

section \<open>The actions\<close>

definition IDENTIFIER :: int where "IDENTIFIER = 295"
definition STRING :: int where "STRING = 296"
definition NUMBER :: int where "NUMBER = 297"

text \<open>The tokens of the rules 2 to 38, the keywords, and 42 to 53.\<close>

definition keyword_tokens :: "int list" where
  "keyword_tokens = [258, 259, 260, 261, 262, 263, 264, 265, 266, 267, 268, 269, 270, 271, 272, 273, 274, 275, 276, 277, 278, 279, 280,
     281, 282, 283, 284, 285, 286, 287, 288, 289, 290, 291, 292, 293, 294]"

definition symbol_tokens :: "int list" where
  "symbol_tokens = [298, 299, 300, 301, 44, 42, 59, 39, 60, 62, 40, 41]"

definition unrecognized :: "string \<Rightarrow> string" where
  "unrecognized s = ''Unrecognized token ['' @ s @ ''] in input sql.''"

text \<open>
  The token that is returned, if the rule returns one, and \<^verbatim>\<open>yylval\<close>. \<^verbatim>\<open>yylineno\<close>, the first argument of \<^verbatim>\<open>MinisqlParserMovePos\<close>, is not used there and
  not modelled.
\<close>

definition yy_action :: "allocator \<Rightarrow> nat \<Rightarrow> string \<Rightarrow> syntax_node option \<Rightarrow> parser_globals \<Rightarrow> (int option \<times> syntax_node option \<times> parser_globals) option" where
  "yy_action usable r yytext yylval g =
     (let moved = MinisqlParserMovePos 0 yytext g in
      if r = 1 then do { (n, g) \<leftarrow> CreateSyntaxNode usable kNodeString (Some yytext) moved; Some (Some STRING, Some n, g) }
      else if 2 \<le> r \<and> r \<le> 38 then Some (Some (keyword_tokens ! (r - 2)), yylval, moved)
      else if r = 39 then do { (n, g) \<leftarrow> CreateSyntaxNode usable kNodeIdentifier (Some yytext) moved; Some (Some IDENTIFIER, Some n, g) }
      else if r = 40 \<or> r = 41 then do { (n, g) \<leftarrow> CreateSyntaxNode usable kNodeNumber (Some yytext) moved; Some (Some NUMBER, Some n, g) }
      else if 42 \<le> r \<and> r \<le> 53 then Some (Some (symbol_tokens ! (r - 42)), yylval, moved)
      else if r = 54 then Some (None, yylval, moved)
      else if r = 55 then Some (None, yylval, MinisqlParserSetError (unrecognized yytext) g)
      else if r = YY_STATE_EOF then Some (Some 0, yylval, g)
      else None)"

partial_function (option) yylex :: "allocator \<Rightarrow> string \<Rightarrow> syntax_node option \<Rightarrow> parser_globals \<Rightarrow> (int \<times> string \<times> syntax_node option \<times> parser_globals) option" where
  "yylex usable s yylval g = do {
     (act, n) \<leftarrow> yy_lexeme s;
     (token, yylval, g) \<leftarrow> yy_action usable act (take n s) yylval g;
     case token of Some t \<Rightarrow> Some (t, drop n s, yylval, g)
     | None \<Rightarrow> yylex usable (drop n s) yylval g }"

declare yy_trans.simps [code] yylex.simps [code]

section \<open>Facts of the tables\<close>

definition word_state :: "nat \<Rightarrow> bool" where "word_state q = (q = 1 \<or> 3 < q \<and> q < 174)"

lemma table_lengths:
  "length yy_accept = 175" "length yy_ec = 256" "length yy_meta = 43" "length yy_base = 177" "length yy_def = 177" "length yy_nxt = 232"
  "length yy_chk = 232"
  by (simp_all add: yy_accept_def yy_ec_def yy_meta_def yy_base_def yy_def_def yy_nxt_def yy_chk_def)

lemma jam_entries: "drop 189 yy_chk = replicate 43 174" "drop 189 yy_nxt = 3 # replicate 42 174"
  by (simp_all add: yy_chk_def yy_nxt_def numeral_eq_Suc)

lemma nxt_entries: "list_all (\<lambda>(k, r). 3 \<le> r \<and> r \<le> 174 \<and> (r = 3 \<longrightarrow> k = 174) \<and> (r = 40 \<longrightarrow> k = 7 \<or> k = 39)) (tl (zip yy_chk yy_nxt))"
  by (simp add: yy_chk_def yy_nxt_def)

lemma base_entries:
  "list_all (\<lambda>(q, b, d). b \<le> 189 \<and> (q \<noteq> 0 \<and> q \<noteq> 2 \<and> q < 174 \<longrightarrow> 174 \<le> d \<and> d \<le> 176) \<and> (b = 189 \<longrightarrow> d = 174 \<or> 174 \<le> q)) (zip [0..<177] (zip yy_base yy_def))"
  by (simp add: yy_base_def yy_def_def upt_rec)

lemma chk_base: "list_all2 (\<lambda>q b. yy_chk ! b \<noteq> q \<or> q = 0 \<or> q = 3 \<or> 174 \<le> q) [0..<177] yy_base"
  by (simp add: yy_base_def yy_chk_def upt_rec)

lemma accept_entries:
  "list_all (\<lambda>(q, a). (a = 57 \<longrightarrow> q = 3) \<and> a \<le> 57 \<and> a \<noteq> 56 \<and> (a = 1 \<longrightarrow> q = 40) \<and> (a = 0 \<longrightarrow> q \<in> set [0, 39, 41, 42, 174])) (zip [0..<175] yy_accept)"
  by code_simp

lemma start_entries: "list_all (\<lambda>(k, r). k = 1 \<and> 4 \<le> r \<and> r \<le> 38) (take 42 (tl (zip yy_chk yy_nxt)))"
  by code_simp

lemma class_entries: "list_all (\<lambda>c. 1 \<le> c \<and> c < 43) (tl yy_ec) \<and> yy_ec ! 0 = 0"
  by code_simp

lemma meta_entries: "list_all (\<lambda>(c, m). m \<le> 2 \<and> (m = 0 \<longleftrightarrow> c = 0)) (zip [0..<43] yy_meta)"
  by code_simp

section \<open>Transitions\<close>

lemma list_all_zip: "list_all P (zip xs ys) \<Longrightarrow> i < length xs \<Longrightarrow> i < length ys \<Longrightarrow> P (xs ! i, ys ! i)"
  by (auto simp: list_all_length)

lemma list_all_tl_zip:
  "list_all P (tl (zip xs ys)) \<Longrightarrow> 0 < i \<Longrightarrow> i < length xs \<Longrightarrow> i < length ys \<Longrightarrow> P (xs ! i, ys ! i)"
  by (cases i) (auto simp: list_all_length nth_tl dest: spec [of _ "i - 1"])

lemma nxt_entry:
  assumes "0 < i" "i < 232"
  shows "3 \<le> yy_nxt ! i \<and> yy_nxt ! i \<le> 174 \<and> (yy_nxt ! i = 3 \<longrightarrow> yy_chk ! i = 174) \<and> (yy_nxt ! i = 40 \<longrightarrow> yy_chk ! i = 7 \<or> yy_chk ! i = 39)"
  using list_all_tl_zip [OF nxt_entries assms(1)] assms by (simp add: table_lengths)

lemma base_entry: "q < 177 \<Longrightarrow> yy_base ! q \<le> 189 \<and> (q \<noteq> 0 \<and> q \<noteq> 2 \<and> q < 174 \<longrightarrow> 174 \<le> yy_def ! q \<and> yy_def ! q \<le> 176) \<and>
    (yy_base ! q = 189 \<longrightarrow> yy_def ! q = 174 \<or> 174 \<le> q)"
  using list_all_zip [OF base_entries, of q] by (simp add: table_lengths)

lemma chk_base_entry: "q < 174 \<Longrightarrow> q \<noteq> 0 \<Longrightarrow> q \<noteq> 3 \<Longrightarrow> yy_chk ! (yy_base ! q) \<noteq> q"
  using list_all2_nthD [OF chk_base, of q] by simp

lemma accept_entry:
  assumes "q < 175"
  shows "yy_accept ! q \<le> 57" "yy_accept ! q \<noteq> 56" "yy_accept ! q = 57 \<Longrightarrow> q = 3" "yy_accept ! q = 1 \<Longrightarrow> q = 40"
    "yy_accept ! q = 0 \<Longrightarrow> q \<in> {0, 39, 41, 42, 174}"
  using list_all_zip [OF accept_entries, of q] assms by (auto simp: table_lengths)

lemma jam_entry: "c < 43 \<Longrightarrow> yy_chk ! (189 + c) = 174 \<and> yy_nxt ! (189 + c) = (if c = 0 then 3 else 174)"
  using nth_drop [of 189 yy_chk c] nth_drop [of 189 yy_nxt c] by (cases c) (simp_all add: jam_entries table_lengths)

lemma start_entry: "0 < c \<Longrightarrow> c < 43 \<Longrightarrow> yy_chk ! c = 1 \<and> 4 \<le> yy_nxt ! c \<and> yy_nxt ! c \<le> 38"
  using start_entries unfolding list_all_length by (auto simp: table_lengths nth_tl dest!: spec [of _ "c - 1"])

lemma fixed_entries:
  "yy_base ! 1 = 0" "yy_base ! 3 = 188" "yy_base ! 174 = 189" "yy_base ! 175 = 87" "yy_base ! 176 = 74" "yy_def ! 1 = 174" "yy_def ! 3 = 174"
  "yy_def ! 175 = 174" "yy_def ! 176 = 174" "yy_chk ! 188 = 3" "yy_nxt ! 188 = 174" "yy_accept ! 3 = 57" "yy_accept ! 174 = 0" "yy_chk ! 87 = 60"
  "yy_chk ! 88 = 175" "yy_chk ! 89 = 175" "yy_nxt ! 88 = 39" "yy_nxt ! 89 = 39" "yy_chk ! 74 = 36" "yy_chk ! 75 = 75" "yy_chk ! 76 = 176"
  "yy_base ! 39 = 59" "yy_base ! 41 = 172" "yy_base ! 42 = 162" "yy_nxt ! 76 = 48" "yy_accept ! 1 = 41"
  by (simp_all add: yy_base_def yy_def_def yy_chk_def yy_nxt_def yy_accept_def)

lemma meta_entry: "c < 43 \<Longrightarrow> yy_meta ! c \<le> 2 \<and> (yy_meta ! c = 0 \<longleftrightarrow> c = 0)"
  using list_all_zip [OF meta_entries, of c] by (simp add: table_lengths)

lemma class_entry: "0 < i \<Longrightarrow> i < 256 \<Longrightarrow> 1 \<le> yy_ec ! i \<and> yy_ec ! i < 43"
  using class_entries unfolding list_all_length by (auto simp: table_lengths nth_tl dest!: spec [of _ "i - 1"])

lemma char_class_bounds: "char_class ch < 43" "char_class ch = 0 \<longleftrightarrow> ch = CHR 0x00"
proof -
  have "of_char ch < (256 :: nat)" by simp
  moreover have "of_char ch = (0 :: nat) \<longleftrightarrow> ch = CHR 0x00" using of_char_eq_iff [of ch "CHR 0x00"] by simp
  ultimately show "char_class ch < 43" "char_class ch = 0 \<longleftrightarrow> ch = CHR 0x00"
    using class_entries class_entry [of "of_char ch"] unfolding char_class_def by (cases "of_char ch = (0 :: nat)"; simp)+
qed

lemma trans_jam: "c < 43 \<Longrightarrow> yy_trans 174 c = Some (if c = 0 then 3 else 174)"
  using jam_entry [of c] by (subst yy_trans.simps) (simp add: entry_def table_lengths fixed_entries add.commute)

lemma less_3: "(m :: nat) \<le> 2 \<Longrightarrow> m = 0 \<or> m = 1 \<or> m = 2"
  by auto

lemma trans_defaults:
  assumes "m \<le> 2"
  shows "yy_trans 175 m = Some (if m = 0 then 3 else 39)" "yy_trans 176 m = Some (if m = 0 then 3 else if m = 2 then 48 else 174)"
  using less_3 [OF assms] trans_jam [of 0] trans_jam [of 1]
  by (subst yy_trans.simps, auto simp: entry_def table_lengths fixed_entries)+

text \<open>The transition of a state that is not a template, in closed form.\<close>

definition default_trans :: "nat \<Rightarrow> nat \<Rightarrow> nat" where
  "default_trans d c =
     (if c = 0 then 3 else if d = 175 then 39 else if d = 176 \<and> yy_meta ! c = 2 then 48 else 174)"

lemma trans_closed:
  assumes q: "q < 174" "q \<noteq> 0" "q \<noteq> 2" and c: "c < 43"
  shows "yy_trans q c = Some (if yy_chk ! (yy_base ! q + c) = q then yy_nxt ! (yy_base ! q + c) else default_trans (yy_def ! q) c)"
proof -
  have "yy_def ! q = 174 \<or> yy_def ! q = 175 \<or> yy_def ! q = 176" "yy_base ! q + c < 232" using base_entry [of q] q c by auto
  then show ?thesis using q trans_jam [OF c] meta_entry [OF c] trans_defaults [of "yy_meta ! c"]
    by (subst yy_trans.simps) (auto simp: entry_def table_lengths default_trans_def c)
qed

lemma trans_ok:
  assumes q: "q < 174" "q \<noteq> 0" "q \<noteq> 2" and c: "c < 43"
  obtains r where "yy_trans q c = Some r" "3 \<le> r" "r \<le> 174" "r = 3 \<longleftrightarrow> c = 0 \<and> q \<noteq> 3" "q = 3 \<Longrightarrow> r = 174" "q = 1 \<Longrightarrow> c \<noteq> 0 \<Longrightarrow> 4 \<le> r \<and> r \<le> 38"
    "r = 40 \<Longrightarrow> q = 7 \<or> q = 39" "yy_base ! q = 189 \<Longrightarrow> c \<noteq> 0 \<Longrightarrow> r = 174"
proof -
  let ?i = "yy_base ! q + c"
  let ?r = "if yy_chk ! ?i = q then yy_nxt ! ?i else default_trans (yy_def ! q) c"
  have i: "?i < 232" using base_entry [of q] q c by auto
  have z: "yy_chk ! 0 = 0" by (simp add: yy_chk_def)
  then have i0: "yy_chk ! ?i = q \<Longrightarrow> 0 < ?i" using q by (metis gr0I)
  show ?thesis
  proof (rule that [OF trans_closed [OF assms]])
    show "3 \<le> ?r" "?r \<le> 174" using nxt_entry [OF i0 i] by (auto simp: default_trans_def)
    show "?r = 3 \<longleftrightarrow> c = 0 \<and> q \<noteq> 3"
      using nxt_entry [OF i0 i] q chk_base_entry [OF q(1,2)] by (auto simp: default_trans_def fixed_entries)
    show "q = 3 \<Longrightarrow> ?r = 174"
      using jam_entry [of "c - 1"] c by (cases c) (auto simp: default_trans_def fixed_entries)
    show "q = 1 \<Longrightarrow> c \<noteq> 0 \<Longrightarrow> 4 \<le> ?r \<and> ?r \<le> 38" using start_entry [of c] c by (auto simp: fixed_entries simp del: One_nat_def)
    show "?r = 40 \<Longrightarrow> q = 7 \<or> q = 39" using nxt_entry [OF i0 i] by (auto simp: default_trans_def split: if_splits)
    show "yy_base ! q = 189 \<Longrightarrow> c \<noteq> 0 \<Longrightarrow> ?r = 174"
      using jam_entry [OF c] q base_entry [of q] by (auto simp: default_trans_def)
  qed
qed

section \<open>The longest match\<close>

text \<open>The automaton without its tables: the state after a text, and the rule that accepts it, if any.\<close>

fun yy_run :: "nat \<Rightarrow> string \<Rightarrow> nat option" where
  "yy_run q [] = Some q"
| "yy_run q (ch # s) = do { r \<leftarrow> yy_trans q (char_class ch); yy_run r s }"

definition run_accept :: "nat \<Rightarrow> string \<Rightarrow> nat" where
  "run_accept q s = (case yy_run q s of Some r \<Rightarrow> yy_accept ! r | None \<Rightarrow> 0)"

text \<open>The longest match, one character after the other.\<close>

definition mark :: "nat \<Rightarrow> nat \<Rightarrow> last_accept \<Rightarrow> last_accept" where
  "mark q n seen = (if yy_accept ! q \<noteq> 0 then Some (q, n) else seen)"

fun longest :: "nat \<Rightarrow> string \<Rightarrow> nat \<Rightarrow> last_accept \<Rightarrow> last_accept" where
  "longest q [] n seen = mark q n seen"
| "longest q (ch # s) n seen =
     (case yy_trans q (char_class ch) of Some r \<Rightarrow> longest r s (Suc n) (mark q n seen) | None \<Rightarrow> None)"

definition no_nul :: "string \<Rightarrow> bool" where "no_nul s = (CHR 0x00 \<notin> set s)"

lemma no_nul_simps [simp]: "no_nul []" "no_nul (ch # s) \<longleftrightarrow> char_class ch \<noteq> 0 \<and> no_nul s" "no_nul (s @ t) \<longleftrightarrow> no_nul s \<and> no_nul t"
  by (auto simp: no_nul_def char_class_bounds)

lemma no_nul_take_drop: "no_nul s \<Longrightarrow> no_nul (take n s) \<and> no_nul (drop n s)"
  by (auto simp: no_nul_def dest: in_set_takeD in_set_dropD)

lemma note_accept_mark: "q < 175 \<Longrightarrow> note_accept q n seen = Some (mark q n seen)"
  by (simp add: note_accept_def mark_def entry_def table_lengths)

lemma mark_jam [simp]: "mark 174 n seen = seen"
  by (simp add: mark_def fixed_entries)

lemma longest_jam: "no_nul s \<Longrightarrow> longest 174 s n seen = seen"
  by (induction s arbitrary: n) (simp_all add: trans_jam char_class_bounds)

lemma longest_final:
  assumes "q < 174" "q \<noteq> 0" "q \<noteq> 2" "yy_base ! q = 189" "no_nul s"
  shows "longest q s n seen = Some (q, n)"
proof -
  have "yy_accept ! q \<noteq> 0"
  proof
    assume "yy_accept ! q = 0"
    then have "q \<in> {39, 41, 42}" using accept_entry(5) [of q] assms by auto
    then show False using assms(4) by (auto simp: fixed_entries)
  qed
  then show ?thesis
  proof (cases s)
    case (Cons ch t)
    have "yy_trans q (char_class ch) = Some 174"
      by (rule trans_ok [OF assms(1-3) char_class_bounds(1) [of ch]]) (use assms Cons in auto)
    with Cons assms(5) show ?thesis using \<open>yy_accept ! q \<noteq> 0\<close> by (simp add: mark_def longest_jam)
  qed (simp add: mark_def)
qed

lemma char_class_end: "char_class YY_END_OF_BUFFER_CHAR = 0"
  by (simp add: YY_END_OF_BUFFER_CHAR_def char_class_bounds)

lemma trans_nul: "q < 174 \<Longrightarrow> q \<noteq> 0 \<Longrightarrow> q \<noteq> 2 \<Longrightarrow> q \<noteq> 3 \<Longrightarrow> yy_trans q 0 = Some 3"
  by (rule trans_ok [of q 0]) auto

lemma trans_nul_end: "yy_trans 3 0 = Some 174"
  by (rule trans_ok [of 3 0]) auto

lemma match_longest:
  assumes "q < 174" "q \<noteq> 0" "q \<noteq> 2" "q \<noteq> 3" "no_nul s"
  shows "\<exists>q' n' seen'. yy_match q (s @ [YY_END_OF_BUFFER_CHAR, YY_END_OF_BUFFER_CHAR]) n seen = Some (q', n', seen') \<and> q' < 175 \<and> q' \<noteq> 3 \<and>
    (q' = 174 \<and> seen' = Some (3, n + length s + 1) \<or> mark q' n' seen' = longest q s n seen)"
  using assms
proof (induction s arbitrary: q n seen)
  case Nil
  then show ?case
    using trans_nul [OF Nil(1-4)] trans_nul_end by (simp add: char_class_end note_accept_mark entry_def table_lengths fixed_entries mark_def)
next
  case (Cons ch s)
  obtain r where r: "yy_trans q (char_class ch) = Some r" "3 < r" "r \<le> 174" "q = 3 \<Longrightarrow> r = 174"
    by (rule trans_ok [OF Cons.prems(1-3) char_class_bounds(1) [of ch]]) (use Cons.prems(4,5) le_neq_implies_less in \<open>auto simp: le_less\<close>)
  show ?case
  proof (cases "yy_base ! r = 189")
    case True
    then have "mark r (Suc n) (mark q n seen) = longest r s (Suc n) (mark q n seen)"
    proof (cases "r = 174")
      case False
      then have "r < 174" using r by simp
      with True show ?thesis using longest_final [of r "[]"] longest_final [of r s] r Cons.prems by simp
    qed (use longest_jam Cons.prems in simp)
    then show ?thesis using True r Cons.prems by (auto simp: note_accept_mark entry_def table_lengths)
  next
    case False
    then have "r < 174" using r fixed_entries(3) by (cases "r = 174") auto
    then show ?thesis using Cons.IH [of r "Suc n" "mark q n seen"] False r Cons.prems
      by (simp add: note_accept_mark entry_def table_lengths)
  qed
qed

lemma previous_longest:
  assumes "q \<le> 174" "q \<noteq> 0" "q \<noteq> 2" "q \<noteq> 3" "no_nul s"
  shows "\<exists>q' seen'. yy_get_previous_state q s n seen = Some (q', seen') \<and> q' < 175 \<and> q' \<noteq> 3 \<and> mark q' (n + length s) seen' = longest q s n seen"
  using assms
proof (induction s arbitrary: q n seen)
  case (Cons ch s)
  have c: "char_class ch \<noteq> 0" "ch \<noteq> CHR 0x00" using Cons.prems(5) char_class_bounds(2) [of ch] by auto
  obtain r where r: "yy_trans q (char_class ch) = Some r" "3 < r" "r \<le> 174"
  proof (cases "q = 174")
    case True
    then show ?thesis using that trans_jam [OF char_class_bounds(1) [of ch]] c by simp
  next
    case False
    then have "q < 174" using Cons.prems(1) by simp
    then show ?thesis
      by (rule trans_ok [OF _ Cons.prems(2,3) char_class_bounds(1) [of ch]]) (use that Cons.prems(4) c in \<open>auto simp: le_less\<close>)
  qed
  then show ?case using Cons.IH [of r "Suc n" "mark q n seen"] Cons.prems c by (simp add: note_accept_mark)
qed auto

lemma find_action_mark:
  assumes "q' < 175" "mark q' n' seen' = Some (q, n)" "yy_accept ! q \<noteq> 0" "q < 175"
  shows "yy_find_action q' n' seen' = Some (yy_accept ! q, n)"
  using assms by (auto simp: yy_find_action_def mark_def entry_def table_lengths split: if_splits)

lemma run_accept_simps [simp]:
  "run_accept q [] = yy_accept ! q" "yy_trans q (char_class ch) = Some r \<Longrightarrow> run_accept q (ch # s) = run_accept r s"
  by (simp_all add: run_accept_def)

lemma longest_spec:
  assumes "longest q s n seen = Some (r, k)"
  shows "(\<exists>i\<le>length s. k = n + i \<and> yy_run q (take i s) = Some r \<and> yy_accept ! r \<noteq> 0 \<and> (\<forall>m. i < m \<and> m \<le> length s \<longrightarrow> run_accept q (take m s) = 0)) \<or>
    seen = Some (r, k) \<and> (\<forall>m\<le>length s. run_accept q (take m s) = 0)"
  using assms
proof (induction s arbitrary: q n seen)
  case Nil
  then show ?case by (auto simp: mark_def split: if_splits)
next
  case (Cons ch s)
  then obtain p where p: "yy_trans q (char_class ch) = Some p" "longest p s (Suc n) (mark q n seen) = Some (r, k)"
    by (auto split: option.splits)
  have sfx: "run_accept q (take m (ch # s)) = (if m = 0 then yy_accept ! q else run_accept p (take (m - 1) s))" for m
    using p(1) by (cases m) auto
  from Cons.IH [OF p(2)] show ?case
  proof (elim disjE exE conjE)
    fix i assume "i \<le> length s" "k = Suc n + i" "yy_run p (take i s) = Some r" "yy_accept ! r \<noteq> 0"
      "\<forall>m. i < m \<and> m \<le> length s \<longrightarrow> run_accept p (take m s) = 0"
    moreover from this have "run_accept p (take (m - 1) s) = 0" if "Suc i < m" "m \<le> Suc (length s)" for m
      using that by (cases m) auto
    ultimately show ?thesis using p(1) by (intro disjI1 exI [of _ "Suc i"]) (auto simp: sfx)
  next
    assume "mark q n seen = Some (r, k)" and z: "\<forall>m\<le>length s. run_accept p (take m s) = 0"
    moreover have "run_accept q (take m (ch # s)) = 0" if "0 < m" "m \<le> Suc (length s)" for m
      using z that sfx [of m] by (cases m) auto
    ultimately show ?thesis by (cases "yy_accept ! q = 0") (auto simp: mark_def sfx)
  qed
qed

lemma longest_some:
  assumes "no_nul s" "q \<le> 174" "q \<noteq> 0" "q \<noteq> 2" "q \<noteq> 3" "yy_accept ! q \<noteq> 0 \<or> (\<exists>r k. seen = Some (r, k) \<and> r < 175 \<and> r \<noteq> 3 \<and> yy_accept ! r \<noteq> 0)"
  shows "\<exists>r k. longest q s n seen = Some (r, k) \<and> r < 175 \<and> r \<noteq> 3 \<and> yy_accept ! r \<noteq> 0"
  using assms
proof (induction s arbitrary: q n seen)
  case (Cons ch s)
  have "\<exists>r. yy_trans q (char_class ch) = Some r \<and> 3 < r \<and> r \<le> 174"
  proof (cases "q = 174")
    case True
    then show ?thesis using trans_jam [OF char_class_bounds(1) [of ch]] Cons.prems(1) by simp
  next
    case False
    then have "q < 174" using Cons.prems by simp
    then show ?thesis
      by (rule trans_ok [OF _ Cons.prems(3,4) char_class_bounds(1) [of ch]]) (use Cons.prems in \<open>auto simp: le_less\<close>)
  qed
  then show ?case using Cons.IH [of _ "mark q n seen" "Suc n"] Cons.prems by (auto simp: mark_def)
qed (auto simp: mark_def)

lemma longest_from_start: "longest 1 s n seen = longest 1 s n None"
  by (cases s) (simp_all add: mark_def fixed_entries del: One_nat_def split: option.splits)

lemma lexeme_longest:
  assumes "s \<noteq> []" "no_nul s"
  obtains q n where "longest 1 s 0 None = Some (q, n)" "yy_lexeme s = Some (yy_accept ! q, n)" "q < 175" "q \<noteq> 3" "yy_accept ! q \<noteq> 0"
proof -
  obtain q n where l: "longest 1 s 0 None = Some (q, n)" "q < 175" "q \<noteq> 3" "yy_accept ! q \<noteq> 0"
    using longest_some [OF assms(2), of 1 None 0] by (auto simp: fixed_entries simp del: One_nat_def)
  have a57: "yy_accept ! q \<noteq> 57" using accept_entry(3) [OF l(2)] l(3) by auto
  obtain q' n' seen' where m: "yy_match 1 (s @ [YY_END_OF_BUFFER_CHAR, YY_END_OF_BUFFER_CHAR]) 0 None = Some (q', n', seen')" "q' < 175"
    "q' = 174 \<and> seen' = Some (3, length s + 1) \<or> mark q' n' seen' = Some (q, n)"
    using match_longest [of 1 s 0 None] assms(2) l(1) by (auto simp del: yy_match.simps)
  from m(3) have "yy_lexeme s = Some (yy_accept ! q, n)"
  proof
    assume e: "q' = 174 \<and> seen' = Some (3, length s + 1)"
    then have "yy_find_action q' n' seen' = Some (57, length s + 1)"
      by (simp add: yy_find_action_def entry_def table_lengths fixed_entries)
    moreover obtain p seen'' where "yy_get_previous_state 1 s 0 seen' = Some (p, seen'')" "p < 175" "mark p (length s) seen'' = Some (q, n)"
      using previous_longest [of 1 s 0 seen'] assms(2) l(1) longest_from_start [of s 0 seen'] by auto
    ultimately show ?thesis using m(1) assms(1) find_action_mark [OF _ _ l(4,2)] by (simp add: yy_lexeme_def YY_END_OF_BUFFER_def)
  next
    assume "mark q' n' seen' = Some (q, n)"
    then show ?thesis using m(1,2) a57 find_action_mark [OF _ _ l(4,2)] by (simp add: yy_lexeme_def YY_END_OF_BUFFER_def)
  qed
  with l show ?thesis by (intro that)
qed

lemma first_accept:
  assumes "no_nul (ch # s)"
  obtains r where "yy_run 1 [ch] = Some r" "4 \<le> r" "r \<le> 38" "yy_accept ! r \<noteq> 0"
proof -
  obtain r where "yy_trans 1 (char_class ch) = Some r" "4 \<le> r" "r \<le> 38"
    by (rule trans_ok [OF _ _ _ char_class_bounds(1) [of ch], of 1]) (use assms in auto)
  moreover from this have "yy_accept ! r \<noteq> 0" using accept_entry(5) [of r] by auto
  ultimately show ?thesis by (intro that [of r]) simp_all
qed

lemma longest_positive:
  assumes "longest 1 s 0 None = Some (q, n)" "s \<noteq> []" "no_nul s"
  shows "0 < n \<and> n \<le> length s \<and> yy_run 1 (take n s) = Some q \<and> (\<forall>m. n < m \<and> m \<le> length s \<longrightarrow> run_accept 1 (take m s) = 0) \<and> (n = 1 \<longrightarrow> q \<noteq> 40)"
proof -
  obtain ch t where s: "s = ch # t" using assms(2) by (cases s) auto
  obtain r where r: "yy_run 1 [ch] = Some r" "4 \<le> r" "r \<le> 38" "yy_accept ! r \<noteq> 0" using first_accept assms(3) s by blast
  have *: "n \<le> length s \<and> yy_run 1 (take n s) = Some q \<and> (\<forall>m. n < m \<and> m \<le> length s \<longrightarrow> run_accept 1 (take m s) = 0)"
    using longest_spec [OF assms(1)] by auto
  have "n \<noteq> 0"
  proof
    assume "n = 0"
    then have "run_accept 1 (take 1 s) = 0" using * s by auto
    then show False using r s by (simp add: run_accept_def)
  qed
  then show ?thesis using * r s by auto
qed

section \<open>Properties\<close>

text \<open>
  C13: At the start of every text without NUL characters the scanner finds a rule, by its compressed tables, its backing up and its special case for the end of
  the buffer, and takes a text that is not empty and the longest one that any rule accepts.
\<close>

theorem scanner_longest_match:
  assumes "s \<noteq> []" "CHR 0x00 \<notin> set s"
  shows "\<exists>r n. yy_lexeme s = Some (r, n) \<and> 1 \<le> r \<and> r \<le> 55 \<and> 0 < n \<and> n \<le> length s \<and> run_accept 1 (take n s) = r \<and>
    (\<forall>m. n < m \<and> m \<le> length s \<longrightarrow> run_accept 1 (take m s) = 0)"
proof -
  from assms obtain q n where q: "longest 1 s 0 None = Some (q, n)" "yy_lexeme s = Some (yy_accept ! q, n)" "q < 175" "q \<noteq> 3" "yy_accept ! q \<noteq> 0"
    using lexeme_longest by (auto simp: no_nul_def)
  then show ?thesis
    using longest_positive [OF q(1)] assms accept_entry(1-3) [OF q(3)]
    by (intro exI [of _ "yy_accept ! q"] exI [of _ n]) (auto simp: no_nul_def run_accept_def)
qed

theorem scanner_longest_match_witness:
  "\<exists>r n. yy_lexeme ''selects 1'' = Some (r, n) \<and> 1 \<le> r \<and> r \<le> 55 \<and> 0 < n \<and> n \<le> length ''selects 1'' \<and> run_accept 1 (take n ''selects 1'') = r"
  using scanner_longest_match [of "''selects 1''"] by auto

section \<open>The scanner returns\<close>

lemma keyword_tokens_bounds: "length keyword_tokens = 37 \<and> list_all (\<lambda>k. 0 < k \<and> k < 295) keyword_tokens"
  by (simp add: keyword_tokens_def)

lemma symbol_tokens_bounds: "length symbol_tokens = 12 \<and> list_all (\<lambda>k. 0 < k \<and> k \<le> 301 \<and> k \<notin> {295, 296, 297}) symbol_tokens"
  by (simp add: symbol_tokens_def)

lemma move_root: "pg_root_node (MinisqlParserMovePos line s g) = pg_root_node g"
proof -
  have "pg_root_node (move_pos t g) = pg_root_node g" for t by (induction t g rule: move_pos.induct) simp_all
  then show ?thesis by (simp add: MinisqlParserMovePos_def)
qed

lemma set_error_root: "pg_root_node (MinisqlParserSetError m g) = pg_root_node g"
  by (simp add: MinisqlParserSetError_def)

lemma action_ok:
  assumes "1 \<le> r" "r \<le> 55" "CHR 0x00 \<notin> set yytext" "r = 1 \<Longrightarrow> 2 \<le> length yytext"
  shows "\<exists>t v' g'. yy_action (roomy slack) r yytext v g = Some (t, v', g') \<and>
    (t = None \<or> (\<exists>k. t = Some k \<and> 0 < k \<and> k \<le> 301 \<and> (k \<in> {IDENTIFIER, STRING, NUMBER} \<longrightarrow> v' \<noteq> None))) \<and> pg_root_node g' = pg_root_node g"
proof -
  have kw: "0 < keyword_tokens ! (r - 2) \<and> keyword_tokens ! (r - 2) < 295" if "2 \<le> r" "r \<le> 38"
    using keyword_tokens_bounds that by (auto simp: list_all_length dest!: spec [of _ "r - 2"])
  have sy: "0 < symbol_tokens ! (r - 42) \<and> symbol_tokens ! (r - 42) \<le> 301 \<and> symbol_tokens ! (r - 42) \<notin> {295, 296, 297}" if "42 \<le> r" "r \<le> 53"
    using symbol_tokens_bounds that by (auto simp: list_all_length dest!: spec [of _ "r - 42"])
  have str: "\<exists>x. copy_value (roomy slack) kNodeString yytext = Some x" if "r = 1"
    using assms(4) that by (simp add: copy_value_string)
  consider "r = 1" | "2 \<le> r" "r \<le> 38" | "r = 39 \<or> r = 40 \<or> r = 41" | "42 \<le> r" "r \<le> 53" | "r = 54 \<or> r = 55" using assms(1,2) by linarith
  then show ?thesis
  proof cases
    case 1
    with str obtain x where "copy_value (roomy slack) kNodeString yytext = Some x" by blast
    with 1 show ?thesis by (simp add: move_root yy_action_def Let_def CreateSyntaxNode_def STRING_def)
  next
    case 2
    then show ?thesis using kw by (simp add: move_root yy_action_def IDENTIFIER_def STRING_def NUMBER_def)
  next
    case 3
    then show ?thesis
      using copy_value_roomy [OF assms(3), of kNodeIdentifier slack] copy_value_roomy [OF assms(3), of kNodeNumber slack]
      by (elim disjE) (simp_all add: move_root set_error_root yy_action_def Let_def CreateSyntaxNode_def IDENTIFIER_def NUMBER_def)
  next
    case 4
    then show ?thesis using sy by (simp add: move_root yy_action_def IDENTIFIER_def STRING_def NUMBER_def)
  next
    case 5
    then show ?thesis by (elim disjE) (simp_all add: move_root set_error_root yy_action_def)
  qed
qed

lemma lexeme_end: "yy_lexeme [] = Some (YY_STATE_EOF, 0)"
  using trans_nul [of 1] trans_nul_end
  by (simp add: yy_lexeme_def char_class_end note_accept_mark entry_def table_lengths fixed_entries mark_def yy_find_action_def YY_END_OF_BUFFER_def
      del: One_nat_def)

text \<open>What the parser relies on: an answer for every input, a token that is not the end of the input takes characters away, and the tokens with a value have one.\<close>

lemma yylex_returns:
  assumes "CHR 0x00 \<notin> set s"
  shows "\<exists>t rest v' g'. yylex (roomy slack) s v g = Some (t, rest, v', g') \<and> CHR 0x00 \<notin> set rest \<and> 0 \<le> t \<and> t \<le> 301 \<and> length rest \<le> length s \<and>
    (t \<noteq> 0 \<longrightarrow> length rest < length s) \<and> (t \<in> {IDENTIFIER, STRING, NUMBER} \<longrightarrow> v' \<noteq> None) \<and> pg_root_node g' = pg_root_node g"
  using assms
proof (induction "length s" arbitrary: s v g rule: less_induct)
  case less
  show ?case
  proof (cases "s = []")
    case True
    then show ?thesis by (subst yylex.simps) (simp add: lexeme_end yy_action_def YY_STATE_EOF_def IDENTIFIER_def STRING_def NUMBER_def)
  next
    case False
    obtain q n where q: "longest 1 s 0 None = Some (q, n)" "yy_lexeme s = Some (yy_accept ! q, n)" "q < 175" "q \<noteq> 3" "yy_accept ! q \<noteq> 0"
      using lexeme_longest [OF False] less.prems by (auto simp: no_nul_def)
    have n: "0 < n" "n \<le> length s" "n = 1 \<longrightarrow> q \<noteq> 40" using longest_positive [OF q(1) False] less.prems by (auto simp: no_nul_def)
    have sub: "CHR 0x00 \<notin> set (take n s)" "CHR 0x00 \<notin> set (drop n s)" using less.prems by (auto dest: in_set_takeD in_set_dropD)
    have bounds: "1 \<le> yy_accept ! q" "yy_accept ! q \<le> 55" "yy_accept ! q = 1 \<Longrightarrow> 2 \<le> length (take n s)"
      using accept_entry(1-3) [OF q(3)] q(4,5) accept_entry(4) [OF q(3)] n by (linarith, linarith, simp)
    obtain t v' g' where a: "yy_action (roomy slack) (yy_accept ! q) (take n s) v g = Some (t, v', g')"
      "t = None \<or> (\<exists>k. t = Some k \<and> 0 < k \<and> k \<le> 301 \<and> (k \<in> {IDENTIFIER, STRING, NUMBER} \<longrightarrow> v' \<noteq> None))" "pg_root_node g' = pg_root_node g"
      using action_ok [OF bounds(1,2) sub(1) bounds(3), of slack v g] by auto
    show ?thesis
    proof (cases t)
      case None
      have "length (drop n s) < length s" using n by simp
      from less.hyps [OF this sub(2), of v' g'] obtain t rest v'' g'' where
        "yylex (roomy slack) (drop n s) v' g' = Some (t, rest, v'', g'')" "CHR 0x00 \<notin> set rest" "0 \<le> t" "t \<le> 301" "length rest \<le> length (drop n s)"
        "t \<in> {IDENTIFIER, STRING, NUMBER} \<longrightarrow> v'' \<noteq> None" "pg_root_node g'' = pg_root_node g'" by auto
      with None n a(1,3) q(2) show ?thesis by (subst yylex.simps) auto
    next
      case (Some k)
      then show ?thesis using a q(2) n sub by (subst yylex.simps) auto
    qed
  qed
qed

end
