(* ===== verification/Sql_Parser.thy ===== *)
theory Sql_Parser
  imports Sql_Scanner
begin

text \<open>
  The parser \<^verbatim>\<open>yyparse\<close> that \<^verbatim>\<open>bison\<close> made of \<^verbatim>\<open>minisql.y\<close> (\<^verbatim>\<open>parser/minisql_yacc.c\<close>): its tables, the loop with its labels \<^verbatim>\<open>yynewstate\<close>,
  \<^verbatim>\<open>yybackup\<close>, \<^verbatim>\<open>yydefault\<close>, \<^verbatim>\<open>yyreduce\<close> and \<^verbatim>\<open>yyerrlab\<close>, and the actions. The stacks are lists with the top first; the wasted bottom element of the
  stack of values is \<^term>\<open>None\<close>. The scanner is the parameter \<open>scan\<close>. Nodes are values: the actions use each node once, as a child or as a sibling of one
  other node. The count \<^verbatim>\<open>yynerrs\<close> is never read and left out, as are the empty \<^verbatim>\<open>yydestruct\<close> and a failing allocation of the stacks. A table that is read outside
  its bounds, a stack that is popped below its bottom and a null pointer that is dereferenced are \<^term>\<open>None\<close>.
\<close>

section \<open>Tables\<close>

definition yytranslate :: "nat list" where
  "yytranslate = [0, 2, 2, 2, 2, 2, 2, 2, 2, 2, 2, 2, 2, 2, 2, 2, 2, 2, 2, 2, 2, 2, 2, 2, 2, 2, 2, 2, 2, 2, 2, 2, 2, 2, 2, 2, 2, 2, 2, 2, 48, 49, 51, 2, 50, 2, 2,
     2, 2, 2, 2, 2, 2, 2, 2, 2, 2, 2, 2, 47, 52, 2, 53, 2, 2, 2, 2, 2, 2, 2, 2, 2, 2, 2, 2, 2, 2, 2, 2, 2, 2, 2, 2, 2, 2, 2, 2, 2, 2, 2, 2, 2, 2, 2,
     2, 2, 2, 2, 2, 2, 2, 2, 2, 2, 2, 2, 2, 2, 2, 2, 2, 2, 2, 2, 2, 2, 2, 2, 2, 2, 2, 2, 2, 2, 2, 2, 2, 2, 2, 2, 2, 2, 2, 2, 2, 2, 2, 2, 2, 2, 2, 2,
     2, 2, 2, 2, 2, 2, 2, 2, 2, 2, 2, 2, 2, 2, 2, 2, 2, 2, 2, 2, 2, 2, 2, 2, 2, 2, 2, 2, 2, 2, 2, 2, 2, 2, 2, 2, 2, 2, 2, 2, 2, 2, 2, 2, 2, 2, 2, 2,
     2, 2, 2, 2, 2, 2, 2, 2, 2, 2, 2, 2, 2, 2, 2, 2, 2, 2, 2, 2, 2, 2, 2, 2, 2, 2, 2, 2, 2, 2, 2, 2, 2, 2, 2, 2, 2, 2, 2, 2, 2, 2, 2, 2, 2, 2, 2, 2,
     2, 2, 2, 2, 2, 2, 2, 2, 2, 2, 2, 2, 2, 2, 2, 2, 2, 2, 1, 2, 3, 4, 5, 6, 7, 8, 9, 10, 11, 12, 13, 14, 15, 16, 17, 18, 19, 20, 21, 22, 23, 24, 25,
     26, 27, 28, 29, 30, 31, 32, 33, 34, 35, 36, 37, 38, 39, 40, 41, 42, 43, 44, 45, 46]"

definition yyr1 :: "nat list" where
  "yyr1 = [0, 54, 55, 56, 56, 56, 56, 56, 56, 56, 56, 56, 56, 56, 56, 56, 56, 56, 56, 56, 56, 56, 57, 58, 59, 60, 61, 62, 63, 63, 64, 64, 64, 65, 65, 66,
     66, 66, 67, 68, 68, 69, 70, 71, 71, 72, 72, 73, 73, 74, 74, 75, 76, 76, 76, 77, 77, 77, 77, 77, 77, 77, 77, 78, 79, 79, 80, 80, 81, 81, 82, 82,
     83, 84, 85, 86, 87, 88]"

definition yyr2 :: "nat list" where
  "yyr2 = [0, 2, 2, 1, 1, 1, 1, 1, 1, 1, 1, 1, 1, 1, 1, 1, 1, 1, 1, 1, 1, 1, 3, 3, 2, 2, 2, 6, 3, 1, 3, 1, 5, 3, 2, 1, 1, 4, 3, 8, 10, 3, 2, 4, 6, 1, 1, 3,
     1, 1, 1, 3, 1, 1, 1, 1, 1, 1, 1, 1, 1, 1, 1, 7, 3, 1, 3, 5, 4, 6, 3, 1, 3, 1, 1, 1, 1, 2]"

definition yydefact :: "nat list" where
  "yydefact = [0, 0, 0, 0, 0, 0, 0, 73, 74, 75, 76, 0, 0, 0, 0, 0, 3, 4, 5, 6, 7, 8, 9, 10, 11, 12, 13, 14, 15, 16, 17, 18, 19, 20, 21, 0, 0, 0, 0, 0, 0, 29,
     45, 46, 0, 0, 0, 0, 77, 24, 26, 42, 25, 1, 2, 22, 0, 0, 23, 38, 41, 0, 0, 0, 66, 0, 0, 0, 28, 43, 0, 0, 0, 68, 71, 0, 0, 0, 31, 0, 0, 0, 0, 67,
     48, 0, 0, 0, 0, 0, 35, 36, 34, 27, 0, 0, 44, 54, 52, 53, 65, 0, 62, 61, 55, 56, 57, 58, 59, 60, 0, 49, 50, 0, 72, 69, 70, 0, 0, 33, 30, 0, 0,
     63, 51, 47, 0, 0, 39, 64, 32, 37, 0, 40]"

definition yydefgoto :: "int list" where
  "yydefgoto = [- 1, 14, 15, 16, 17, 18, 19, 20, 21, 43, 77, 78, 92, 22, 23, 24, 25, 26, 44, 83, 113, 84, 100, 110, 27, 101, 28, 29, 73, 74, 30, 31, 32, 33, 34]"

definition yypact :: "int list" where
  "yypact = [32, 2, 3, - 36, - 19, 8, - 7, - 85, - 85, - 85, - 85, 10, 7, 12, 53, 11, - 85, - 85, - 85, - 85, - 85, - 85, - 85, - 85, - 85, - 85, - 85, - 85,
     - 85, - 85, - 85, - 85, - 85, - 85, - 85, 14, 15, 17, 19, 20, 21, 13, - 85, - 85, 38, 24, 25, 39, - 85, - 85, - 85, - 85, - 85, - 85, - 85,
     - 85, 22, 44, - 85, - 85, - 85, 28, 29, 43, 47, 33, - 24, 34, - 85, 50, 30, 36, 37, 52, 31, 49, 16, 35, 40, 41, 36, - 11, - 35, - 22, - 85,
     - 11, 36, 33, 45, 46, - 85, - 85, 51, - 85, - 24, 28, - 22, - 85, - 85, - 85, 42, 48, - 85, - 85, - 85, - 85, - 85, - 85, - 85, - 85, - 11,
     - 85, - 85, 36, - 85, - 22, - 85, 28, 54, - 85, - 85, 55, - 11, - 85, - 85, - 85, 56, 57, 67, - 85, - 85, - 85, 58, - 85]"

definition yypgoto :: "int list" where
  "yypgoto = [- 85, - 85, - 85, - 85, - 85, - 85, - 85, - 85, - 85, - 61, - 9, - 85, - 85, - 85, - 85, - 85, - 85, - 85, - 85, - 74, - 85, - 27, - 84, - 85,
     - 85, - 34, - 85, - 85, 0, - 85, - 85, - 85, - 85, - 85, - 85]"

definition yytable :: "nat list" where
  "yytable = [68, 114, 102, 103, 41, 75, 96, 45, 104, 105, 106, 107, 115, 111, 112, 42, 76, 108, 109, 35, 38, 36, 39, 37, 40, 49, 124, 50, 97, 51, 98, 99, 46,
     47, 121, 1, 2, 3, 4, 5, 6, 7, 8, 9, 10, 11, 12, 13, 89, 90, 91, 48, 52, 53, 55, 56, 126, 57, 54, 58, 59, 60, 62, 61, 63, 64, 65, 67, 41, 69, 66,
     70, 71, 72, 79, 80, 82, 86, 81, 88, 85, 87, 119, 132, 93, 120, 125, 116, 129, 95, 94, 0, 122, 117, 118, 0, 127, 123, 133, 0, 0, 0, 0, 0, 128,
     130, 131]"

definition yycheck :: "int list" where
  "yycheck = [61, 85, 37, 38, 40, 29, 80, 26, 43, 44, 45, 46, 86, 35, 36, 51, 40, 52, 53, 17, 17, 19, 19, 21, 21, 18, 110, 20, 39, 22, 41, 42, 24, 40, 95, 3,
     4, 5, 6, 7, 8, 9, 10, 11, 12, 13, 14, 15, 32, 33, 34, 41, 40, 0, 40, 40, 117, 40, 47, 40, 40, 40, 24, 50, 40, 40, 27, 23, 40, 40, 48, 28, 25,
     40, 40, 25, 40, 25, 48, 30, 43, 50, 31, 16, 49, 94, 113, 87, 122, 48, 50, - 1, 50, 48, 48, - 1, 42, 49, 40, - 1, - 1, - 1, - 1, - 1, 49, 49, 49]"

definition YYFINAL :: nat where "YYFINAL = 53"
definition YYLAST :: int where "YYLAST = 106"
definition YYNTOKENS :: nat where "YYNTOKENS = 54"
definition YYUNDEFTOK :: nat where "YYUNDEFTOK = 2"
definition YYMAXUTOK :: int where "YYMAXUTOK = 301"
definition YYPACT_NINF :: int where "YYPACT_NINF = - 85"
definition YYEMPTY :: int where "YYEMPTY = - 2"
definition YYEOF :: int where "YYEOF = 0"
definition YYTERROR :: int where "YYTERROR = 1"
definition YYINITDEPTH :: nat where "YYINITDEPTH = 200"
definition YYMAXDEPTH :: nat where "YYMAXDEPTH = 10000"

text \<open>The tokens are not negative where this is used.\<close>

definition YYTRANSLATE :: "int \<Rightarrow> nat option" where
  "YYTRANSLATE c = (if 0 \<le> c \<and> c \<le> YYMAXUTOK then entry yytranslate (nat c) else Some YYUNDEFTOK)"

text \<open>An index into \<^verbatim>\<open>yytable\<close> that is checked: the entry, if the check says so.\<close>

definition yylookup :: "int \<Rightarrow> nat \<Rightarrow> nat option option" where
  "yylookup i k =
     (if i < 0 \<or> YYLAST < i then Some None
      else do {
        c \<leftarrow> entry yycheck (nat i);
        if c \<noteq> int k then Some None else map_option Some (entry yytable (nat i)) })"

section \<open>The actions\<close>

text \<open>\<open>d i\<close> is the value of the symbol \<open>i\<close> of the rule.\<close>

type_synonym semantic = "nat \<Rightarrow> syntax_node option"
type_synonym reduced = "(syntax_node option \<times> parser_globals) option"

definition node_leaf :: "allocator \<Rightarrow> SyntaxNodeType \<Rightarrow> string option \<Rightarrow> parser_globals \<Rightarrow> reduced" where
  "node_leaf usable ty val g = do { (n, g) \<leftarrow> CreateSyntaxNode usable ty val g; Some (Some n, g) }"

definition node_with :: "allocator \<Rightarrow> SyntaxNodeType \<Rightarrow> string option \<Rightarrow> syntax_node option list \<Rightarrow> parser_globals \<Rightarrow> reduced" where
  "node_with usable ty val children g = do {
     (n, g) \<leftarrow> CreateSyntaxNode usable ty val g;
     Some (Some (foldl SyntaxNodeAddChildren n children), g) }"

definition database_action :: "allocator \<Rightarrow> nat \<Rightarrow> semantic \<Rightarrow> parser_globals \<Rightarrow> reduced" where
  "database_action usable r d g =
     (if r = 22 then node_with usable kNodeCreateDB None [d 3] g
      else if r = 23 then node_with usable kNodeDropDB None [d 3] g
      else if r = 24 then node_leaf usable kNodeShowDB None g
      else if r = 25 then node_with usable kNodeUseDB None [d 2] g
      else node_leaf usable kNodeShowTables None g)"

definition table_action :: "allocator \<Rightarrow> nat \<Rightarrow> semantic \<Rightarrow> parser_globals \<Rightarrow> reduced" where
  "table_action usable r d g =
     (if r = 27 then do {
        (yyval, g) \<leftarrow> CreateSyntaxNode usable kNodeCreateTable None g;
        (list_node, g) \<leftarrow> CreateSyntaxNode usable kNodeColumnDefinitionList None g;
        let list_node = SyntaxNodeAddChildren list_node (d 5);
        let yyval = SyntaxNodeAddChildren yyval (d 3);
        Some (Some (SyntaxNodeAddChildren yyval (Some list_node)), g) }
      else if r = 28 \<or> r = 30 then Some (SyntaxNodeAddSibling (d 1) (d 3), g)
      else if r = 29 \<or> r = 31 then Some (d 1, g)
      else if r = 32 then node_with usable kNodeColumnList (Some ''primary keys'') [d 4] g
      else if r = 33 then node_with usable kNodeColumnDefinition (Some ''unique'') [d 1, d 2] g
      else if r = 34 then node_with usable kNodeColumnDefinition None [d 1, d 2] g
      else if r = 35 then node_leaf usable kNodeColumnType (Some ''int'') g
      else if r = 36 then node_leaf usable kNodeColumnType (Some ''float'') g
      else if r = 37 then node_with usable kNodeColumnType (Some ''char'') [d 3] g
      else node_with usable kNodeDropTable None [d 3] g)"

definition index_action :: "allocator \<Rightarrow> nat \<Rightarrow> semantic \<Rightarrow> parser_globals \<Rightarrow> reduced" where
  "index_action usable r d g =
     (if r = 39 \<or> r = 40 then do {
        (yyval, g) \<leftarrow> CreateSyntaxNode usable kNodeCreateIndex None g;
        let yyval = SyntaxNodeAddChildren yyval (d 3);
        let yyval = SyntaxNodeAddChildren yyval (d 5);
        (index_keys_node, g) \<leftarrow> CreateSyntaxNode usable kNodeColumnList (Some ''index keys'') g;
        let index_keys_node = SyntaxNodeAddChildren index_keys_node (d 7);
        let yyval = SyntaxNodeAddChildren yyval (Some index_keys_node);
        if r = 39 then Some (Some yyval, g)
        else do {
          (index_type_node, g) \<leftarrow> CreateSyntaxNode usable kNodeIndexType (Some ''index type'') g;
          let index_type_node = SyntaxNodeAddChildren index_type_node (d 10);
          Some (Some (SyntaxNodeAddChildren yyval (Some index_type_node)), g) } }
      else if r = 41 then node_with usable kNodeDropIndex None [d 3] g
      else node_leaf usable kNodeShowIndexes None g)"

definition condition_child :: "allocator \<Rightarrow> syntax_node \<Rightarrow> syntax_node option \<Rightarrow> parser_globals \<Rightarrow> reduced" where
  "condition_child usable yyval c g = do {
     (condition_node, g) \<leftarrow> CreateSyntaxNode usable kNodeConditions None g;
     let condition_node = SyntaxNodeAddChildren condition_node c;
     Some (Some (SyntaxNodeAddChildren yyval (Some condition_node)), g) }"

definition select_action :: "allocator \<Rightarrow> nat \<Rightarrow> semantic \<Rightarrow> parser_globals \<Rightarrow> reduced" where
  "select_action usable r d g =
     (if r = 43 then node_with usable kNodeSelect None [d 2, d 4] g
      else if r = 44 then do {
        (yyval, g) \<leftarrow> CreateSyntaxNode usable kNodeSelect None g;
        let yyval = SyntaxNodeAddChildren yyval (d 2);
        let yyval = SyntaxNodeAddChildren yyval (d 4);
        condition_child usable yyval (d 6) g }
      else if r = 45 then node_leaf usable kNodeAllColumns None g
      else if r = 46 then node_with usable kNodeColumnList (Some ''select columns'') [d 1] g
      else if r = 47 \<or> r = 51 then do {
        yyval \<leftarrow> d 2;
        let yyval = SyntaxNodeAddChildren yyval (d 1);
        Some (Some (SyntaxNodeAddChildren yyval (d 3)), g) }
      else if r = 49 then node_leaf usable kNodeConnector (Some ''and'') g
      else if r = 50 then node_leaf usable kNodeConnector (Some ''or'') g
      else Some (d 1, g))"

definition value_action :: "allocator \<Rightarrow> nat \<Rightarrow> semantic \<Rightarrow> parser_globals \<Rightarrow> reduced" where
  "value_action usable r d g =
     (if r = 52 \<or> r = 53 then Some (d 1, g)
      else if r = 54 then node_leaf usable kNodeNull None g
      else node_leaf usable kNodeCompareOperator (Some ([''='', ''<>'', ''<='', ''>='', ''<'', ''>'', ''is'', ''not''] ! (r - 55))) g)"

definition modify_action :: "allocator \<Rightarrow> nat \<Rightarrow> semantic \<Rightarrow> parser_globals \<Rightarrow> reduced" where
  "modify_action usable r d g =
     (if r = 63 then do {
        (yyval, g) \<leftarrow> CreateSyntaxNode usable kNodeInsert None g;
        let yyval = SyntaxNodeAddChildren yyval (d 3);
        (col_val_node, g) \<leftarrow> CreateSyntaxNode usable kNodeColumnValues None g;
        let col_val_node = SyntaxNodeAddChildren col_val_node (d 6);
        Some (Some (SyntaxNodeAddChildren yyval (Some col_val_node)), g) }
      else if r = 64 \<or> r = 70 then Some (SyntaxNodeAddSibling (d 1) (d 3), g)
      else if r = 65 \<or> r = 71 then Some (d 1, g)
      else if r = 66 then node_with usable kNodeDelete None [d 3] g
      else if r = 67 then do {
        (yyval, g) \<leftarrow> CreateSyntaxNode usable kNodeDelete None g;
        let yyval = SyntaxNodeAddChildren yyval (d 3);
        condition_child usable yyval (d 5) g }
      else if r = 68 \<or> r = 69 then do {
        (yyval, g) \<leftarrow> CreateSyntaxNode usable kNodeUpdate None g;
        let yyval = SyntaxNodeAddChildren yyval (d 2);
        (upd_values_node, g) \<leftarrow> CreateSyntaxNode usable kNodeUpdateValues None g;
        let upd_values_node = SyntaxNodeAddChildren upd_values_node (d 4);
        let yyval = SyntaxNodeAddChildren yyval (Some upd_values_node);
        if r = 68 then Some (Some yyval, g) else condition_child usable yyval (d 6) g }
      else node_with usable kNodeUpdateValue None [d 1, d 3] g)"

definition other_action :: "allocator \<Rightarrow> nat \<Rightarrow> semantic \<Rightarrow> parser_globals \<Rightarrow> reduced" where
  "other_action usable r d g =
     (if r = 73 then node_leaf usable kNodeTrxBegin None g
      else if r = 74 then node_leaf usable kNodeTrxCommit None g
      else if r = 75 then node_leaf usable kNodeTrxRollback None g
      else if r = 76 then node_leaf usable kNodeQuit None g
      else if r = 77 then node_with usable kNodeExecFile None [d 2] g
      else Some (d 1, g))"

definition yyaction :: "allocator \<Rightarrow> nat \<Rightarrow> semantic \<Rightarrow> parser_globals \<Rightarrow> reduced" where
  "yyaction usable r d g =
     (if r = 2 then Some (d 1, MinisqlParserSetRoot (d 1) g)
      else if 3 \<le> r \<and> r \<le> 21 then Some (d 1, g)
      else if 22 \<le> r \<and> r \<le> 26 then database_action usable r d g
      else if 27 \<le> r \<and> r \<le> 38 then table_action usable r d g
      else if 39 \<le> r \<and> r \<le> 42 then index_action usable r d g
      else if 43 \<le> r \<and> r \<le> 51 then select_action usable r d g
      else if 52 \<le> r \<and> r \<le> 62 then value_action usable r d g
      else if 63 \<le> r \<and> r \<le> 72 then modify_action usable r d g
      else other_action usable r d g)"

section \<open>The loop\<close>

record 'i yy_state =
  yyss :: "nat list"
  yyvs :: "syntax_node option list"
  yystacksize :: nat
  yychar :: int
  yylval :: "syntax_node option"
  yyerrstatus :: nat
  yyinput :: 'i
  yyglobals :: parser_globals

datatype 'i verdict = Continue "'i yy_state" | Finish int "'i yy_state"

type_synonym 'i lexer = "'i \<Rightarrow> syntax_node option \<Rightarrow> parser_globals \<Rightarrow> (int \<times> 'i \<times> syntax_node option \<times> parser_globals) option"

definition yyerror :: "string \<Rightarrow> 'i yy_state \<Rightarrow> 'i yy_state" where
  "yyerror msg s = s\<lparr>yyglobals := MinisqlParserSetError msg (yyglobals s)\<rparr>"

definition yysetstate :: "'i yy_state \<Rightarrow> 'i verdict" where
  "yysetstate s =
     (if yystacksize s \<le> length (yyss s) then
        if YYMAXDEPTH \<le> yystacksize s then Finish 2 (yyerror ''memory exhausted'' s)
        else
          let n = (if YYMAXDEPTH < yystacksize s * 2 then YYMAXDEPTH else yystacksize s * 2); s = s\<lparr>yystacksize := n\<rparr> in
          if n \<le> length (yyss s) then Finish 1 s else Continue s
      else Continue s)"

definition yynewstate :: "nat \<Rightarrow> 'i yy_state \<Rightarrow> 'i verdict" where
  "yynewstate q s = yysetstate (s\<lparr>yyss := q # yyss s\<rparr>)"

definition yygoto :: "nat \<Rightarrow> nat \<Rightarrow> nat option" where
  "yygoto q x = do {
     ensure (YYNTOKENS \<le> x);
     b \<leftarrow> entry yypgoto (x - YYNTOKENS);
     l \<leftarrow> yylookup (b + int q) q;
     case l of Some p \<Rightarrow> Some p
     | None \<Rightarrow> do { p \<leftarrow> entry yydefgoto (x - YYNTOKENS); ensure (0 \<le> p); Some (nat p) } }"

definition yyreduce :: "allocator \<Rightarrow> nat \<Rightarrow> 'i yy_state \<Rightarrow> 'i verdict option" where
  "yyreduce usable r s = do {
     yylen \<leftarrow> entry yyr2 r;
     ensure (0 < yylen \<and> yylen < length (yyss s) \<and> yylen < length (yyvs s));
     (yyval, g) \<leftarrow> yyaction usable r (\<lambda>i. yyvs s ! (yylen - i)) (yyglobals s);
     let ss = drop yylen (yyss s);
     x \<leftarrow> entry yyr1 r;
     q \<leftarrow> yygoto (hd ss) x;
     Some (yynewstate q (s\<lparr>yyss := ss, yyvs := yyval # drop yylen (yyvs s), yyglobals := g\<rparr>)) }"

text \<open>The states that cannot shift the error token are popped.\<close>

fun yyerrlab1 :: "nat list \<Rightarrow> syntax_node option list \<Rightarrow> (nat \<times> nat list \<times> syntax_node option list) option option" where
  "yyerrlab1 [] vs = None"
| "yyerrlab1 (q # ss) vs = do {
     yyn \<leftarrow> entry yypact q;
     l \<leftarrow> (if yyn = YYPACT_NINF then Some None else yylookup (yyn + YYTERROR) (nat YYTERROR));
     case l of
       Some p \<Rightarrow>
         if 0 < p then Some (Some (p, q # ss, vs)) else if ss = [] then Some None else yyerrlab1 ss (drop 1 vs)
     | None \<Rightarrow> if ss = [] then Some None else yyerrlab1 ss (drop 1 vs) }"

definition yyerrlab :: "'i yy_state \<Rightarrow> 'i verdict option" where
  "yyerrlab s =
     (let s = (if yyerrstatus s = 0 then yyerror ''syntax error'' s else s) in
      if yyerrstatus s = 3 \<and> yychar s = YYEOF then Some (Finish 1 s)
      else do {
        let s = (if yyerrstatus s = 3 \<and> YYEOF < yychar s then s\<lparr>yychar := YYEMPTY\<rparr> else s);
        let s = s\<lparr>yyerrstatus := 3\<rparr>;
        l \<leftarrow> yyerrlab1 (yyss s) (yyvs s);
        case l of
          None \<Rightarrow> Some (Finish 1 s)
        | Some (p, ss, vs) \<Rightarrow>
            if p = YYFINAL then Some (Finish 0 s)
            else Some (yynewstate p (s\<lparr>yyss := ss, yyvs := yylval s # vs\<rparr>)) })"

definition yydefault :: "allocator \<Rightarrow> 'i yy_state \<Rightarrow> 'i verdict option" where
  "yydefault usable s = do {
     yyn \<leftarrow> entry yydefact (hd (yyss s));
     if yyn = 0 then yyerrlab s else yyreduce usable yyn s }"

text \<open>The look-ahead token is read when there is none.\<close>

definition read_token :: "'i lexer \<Rightarrow> 'i yy_state \<Rightarrow> 'i yy_state option" where
  "read_token scan s =
     (if yychar s = YYEMPTY then do {
        (c, i, v, g) \<leftarrow> scan (yyinput s) (yylval s) (yyglobals s);
        Some (s\<lparr>yychar := (if c \<le> YYEOF then YYEOF else c), yyinput := i, yylval := v, yyglobals := g\<rparr>) }
      else Some s)"

definition yybackup :: "'i lexer \<Rightarrow> allocator \<Rightarrow> 'i yy_state \<Rightarrow> 'i verdict option" where
  "yybackup scan usable s = do {
     yyn \<leftarrow> entry yypact (hd (yyss s));
     if yyn = YYPACT_NINF then yydefault usable s
     else do {
       s \<leftarrow> read_token scan s;
       yytoken \<leftarrow> (if yychar s \<le> YYEOF then Some 0 else YYTRANSLATE (yychar s));
       l \<leftarrow> yylookup (yyn + int yytoken) yytoken;
       case l of
         None \<Rightarrow> yydefault usable s
       | Some p \<Rightarrow>
           if p = 0 then yyerrlab s
           else if p = YYFINAL then Some (Finish 0 s)
           else Some (yynewstate p (s\<lparr>yyerrstatus := yyerrstatus s - 1,
             yychar := (if yychar s \<noteq> YYEOF then YYEMPTY else yychar s), yyvs := yylval s # yyvs s\<rparr>)) } }"

partial_function (option) yyloop :: "'i lexer \<Rightarrow> allocator \<Rightarrow> 'i yy_state \<Rightarrow> (int \<times> 'i yy_state) option" where
  "yyloop scan usable s = do {
     v \<leftarrow> yybackup scan usable s;
     case v of Continue s \<Rightarrow> yyloop scan usable s | Finish r s \<Rightarrow> Some (r, s) }"

declare yyloop.simps [code]

definition start_state :: "'i \<Rightarrow> syntax_node option \<Rightarrow> parser_globals \<Rightarrow> 'i yy_state" where
  "start_state i v g = \<lparr>yyss = [0], yyvs = [None], yystacksize = YYINITDEPTH, yychar = YYEMPTY, yylval = v, yyerrstatus = 0, yyinput = i, yyglobals = g\<rparr>"

definition yyparse :: "'i lexer \<Rightarrow> allocator \<Rightarrow> 'i \<Rightarrow> syntax_node option \<Rightarrow> parser_globals \<Rightarrow> (int \<times> 'i yy_state) option" where
  "yyparse scan usable i v g =
     (case yysetstate (start_state i v g) of Continue s \<Rightarrow> yyloop scan usable s | Finish r s \<Rightarrow> Some (r, s))"

end
