(* ===== verification/Commands.thy ===== *)
theory Commands
  imports Storage_Engine Sql_Parser
begin

text \<open>
  The commands: \<^verbatim>\<open>ExecuteEngine\<close> (\<^verbatim>\<open>executor/execute_engine.cpp\<close>), \<^verbatim>\<open>ResultWriter\<close> and the program \<^verbatim>\<open>main.cpp\<close>. The engine is a
  record of the open databases, the current one, the files and the output. An entry of \<^verbatim>\<open>dbs_\<close> that \<^verbatim>\<open>operator[]\<close> would add is a null pointer that
  the code dereferences at once: \<^term>\<open>None\<close>. The order in which a hash table is walked is the parameter \<open>order\<close>, the allocator of the
  parser is the parameter \<open>usable\<close>; the text of an exception and the elapsed time are tokens of the output. A file of commands is read as it is when it is opened.
\<close>

section \<open>Output\<close>

datatype out_token = Text "byte list" | Exception_text | Elapsed_time

abbreviation line :: "byte list \<Rightarrow> out_token" where "line s \<equiv> Text (s @ [10])"

fun digits :: "nat \<Rightarrow> byte list" where
  "digits n = (if n < 10 then [of_nat (48 + n)] else digits (n div 10) @ [of_nat (48 + n mod 10)])"

declare digits.simps [simp del]

definition int_text :: "int \<Rightarrow> byte list" where
  "int_text i = (if i < 0 then 45 # digits (nat (- i)) else digits (nat i))"

text \<open>\<^verbatim>\<open>std::to_string(float)\<close>: six decimals, rounded to nearest.\<close>

definition float_text :: "u32 \<Rightarrow> byte list" where
  "float_text w =
     (let e = uint (drop_bit 23 w AND 255); m = uint (w AND 0x7FFFFF); sign = (if bit w 31 then [45] else []) in
      if e = 255 then sign @ bytes_of (if m = 0 then ''inf'' else ''nan'')
      else let (a, x) = (if e = 0 then (m, - 149) else (m + 2 ^ 23, e - 150));
               micros = nat (if 0 \<le> x then a * 2 ^ nat x * 10 ^ 6 else round_half_even (a * 10 ^ 6) (2 ^ nat (- x)));
               frac = digits (micros mod 10 ^ 6) in
           sign @ digits (micros div 10 ^ 6) @ [46] @ replicate (6 - length frac) 48 @ frac)"

text \<open>Another member of the union than the type names is \<^term>\<open>None\<close>.\<close>

definition Field_toString :: "field \<Rightarrow> byte list option" where
  "Field_toString f =
     (if fd_null f then Some (bytes_of ''NULL'')
      else case (fd_type f, fd_value f) of
        (kTypeInt, Integer i) \<Rightarrow> Some (int_text (sint i))
      | (kTypeFloat, Float w) \<Rightarrow> Some (float_text w)
      | (kTypeChar, Chars s) \<Rightarrow> if unat (fd_len f) \<le> length s then Some (takeWhile (\<lambda>c. c \<noteq> 0) (take (unat (fd_len f)) s)) else None
      | _ \<Rightarrow> None)"

definition pad_right :: "nat \<Rightarrow> byte list \<Rightarrow> byte list" where
  "pad_right w s = s @ replicate (w - length s) 32"

subsection \<open>The result writer\<close>

definition WriteCell :: "byte list \<Rightarrow> nat \<Rightarrow> byte list" where
  "WriteCell cell width = [32] @ pad_right width cell @ [32, 124]"

definition Divider :: "nat list \<Rightarrow> byte list" where
  "Divider data_width = [43] @ concat (map (\<lambda>w. replicate (w + 2) 45 @ [43]) data_width) @ [10]"

definition EndInformation :: "nat \<Rightarrow> bool \<Rightarrow> out_token list" where
  "EndInformation result_size is_scan =
     [Text (if is_scan then (if result_size = 0 then bytes_of ''Empty set'' else digits result_size @ bytes_of '' row in set'')
            else bytes_of ''Query OK, '' @ digits result_size @ bytes_of '' row affected''),
      Text [40], Elapsed_time, line (bytes_of '' sec).'')]"

text \<open>The cells of a row; a row with too few fields is out of range.\<close>

fun row_cells :: "row \<Rightarrow> nat \<Rightarrow> nat \<Rightarrow> byte list list option" where
  "row_cells row i 0 = Some []"
| "row_cells row i (Suc n) = do { f \<leftarrow> GetField row i; c \<leftarrow> Field_toString f; cs \<leftarrow> row_cells row (Suc i) n; Some (c # cs) }"

definition widths :: "byte list list list \<Rightarrow> byte list list \<Rightarrow> nat list" where
  "widths cells names = map (\<lambda>i. foldr max (map (\<lambda>r. length (r ! i)) cells) (length (names ! i))) [0..<length names]"

definition write_row :: "nat list \<Rightarrow> byte list list \<Rightarrow> byte list" where
  "write_row ws cells = [124] @ concat (map2 WriteCell cells ws) @ [10]"

definition write_result :: "schema \<Rightarrow> row list \<Rightarrow> out_token list option" where
  "write_result schema result_set =
     (if result_set = [] then Some []
      else do {
        cells \<leftarrow> those (map (\<lambda>row. row_cells row 0 (length schema)) result_set);
        let names = map col_name schema;
        let ws = widths cells names;
        Some [Text (Divider ws @ write_row ws names @ Divider ws @ concat (map (write_row ws) cells) @ Divider ws)] })"

section \<open>The engine\<close>

record engine =
  eng_dbs :: "(byte list \<times> storage_engine) list"
  eng_current :: "byte list"
  eng_files :: file_system
  eng_out :: "out_token list"

definition print :: "out_token list \<Rightarrow> engine \<Rightarrow> engine" where
  "print xs e = e\<lparr>eng_out := eng_out e @ xs\<rparr>"

definition current_catalog :: "engine \<Rightarrow> catalog option" where
  "current_catalog e = map_option se_catalog (map_of (eng_dbs e) (eng_current e))"

text \<open>The catalog of the current database after an operation on it; what the operation has written is in the database's file.\<close>

definition set_catalog :: "engine \<Rightarrow> catalog \<Rightarrow> engine" where
  "set_catalog e c = e\<lparr>eng_dbs := map (\<lambda>(n, se). (n, if n = eng_current e then se\<lparr>se_catalog := c\<rparr> else se)) (eng_dbs e),
     eng_files := (case map_of (eng_dbs e) (eng_current e) of None \<Rightarrow> eng_files e
       | Some se \<Rightarrow> write_through (eng_files e) (se_file_name se) (bpm_disk (cat_bpm c)))\<rparr>"

text \<open>The entries of the directory \<^verbatim>\<open>./databases\<close> that do not start with a dot.\<close>

definition database_names :: "file_system \<Rightarrow> byte list list" where
  "database_names fs =
     (let pre = database_path [] in
      filter (\<lambda>n. n \<noteq> [] \<and> hd n \<noteq> 46 \<and> 47 \<notin> set n)
        (map (drop (length pre)) (filter (\<lambda>p. take (length pre) p = pre) (map fst fs))))"

fun open_databases :: "byte list list \<Rightarrow> engine \<Rightarrow> (unit outcome \<times> engine) option" where
  "open_databases [] e = Some (Done (), e)"
| "open_databases (name # names) e = do {
     (r, fs) \<leftarrow> DBStorageEngine_new (eng_files e) name False DEFAULT_BUFFER_POOL_SIZE;
     case r of Thrown \<Rightarrow> Some (Thrown, e\<lparr>eng_files := fs\<rparr>)
     | Done se \<Rightarrow> open_databases names (e\<lparr>eng_files := fs, eng_dbs := AList.update name se (eng_dbs e)\<rparr>) }"

definition ExecuteEngine_new :: "file_system \<Rightarrow> (unit outcome \<times> engine) option" where
  "ExecuteEngine_new fs = open_databases (database_names fs) \<lparr>eng_dbs = [], eng_current = [], eng_files = fs, eng_out = []\<rparr>"

fun close_databases :: "((int \<rightharpoonup> int) \<Rightarrow> int list) \<Rightarrow> (byte list \<times> storage_engine) list \<Rightarrow> file_system \<Rightarrow> file_system option" where
  "close_databases order [] fs = Some fs"
| "close_databases order ((_, se) # rest) fs = do { fs \<leftarrow> DBStorageEngine_delete order fs se; close_databases order rest fs }"

definition ExecuteEngine_delete :: "((int \<rightharpoonup> int) \<Rightarrow> int list) \<Rightarrow> engine \<Rightarrow> file_system option" where
  "ExecuteEngine_delete order e = close_databases order (eng_dbs e) (eng_files e)"

definition ExecuteInformation :: "dberr \<Rightarrow> engine \<Rightarrow> engine" where
  "ExecuteInformation result e =
     (case result of
        DB_ALREADY_EXIST \<Rightarrow> print [line (bytes_of ''Database already exists.'')] e
      | DB_NOT_EXIST \<Rightarrow> print [line (bytes_of ''Database not exists.'')] e
      | DB_TABLE_ALREADY_EXIST \<Rightarrow> print [line (bytes_of ''Table already exists.'')] e
      | DB_TABLE_NOT_EXIST \<Rightarrow> print [line (bytes_of ''Table not exists.'')] e
      | DB_INDEX_ALREADY_EXIST \<Rightarrow> print [line (bytes_of ''Index already exists.'')] e
      | DB_INDEX_NOT_FOUND \<Rightarrow> print [line (bytes_of ''Index not exists.'')] e
      | DB_COLUMN_NAME_NOT_EXIST \<Rightarrow> print [line (bytes_of ''Column not exists.'')] e
      | DB_KEY_NOT_FOUND \<Rightarrow> print [line (bytes_of ''Key not exists.'')] e
      | DB_QUIT \<Rightarrow> print [line (bytes_of ''Bye.'')] e
      | _ \<Rightarrow> e)"

section \<open>Commands on databases\<close>

definition child_val :: "syntax_node \<Rightarrow> byte list option" where
  "child_val ast = do { ch \<leftarrow> sn_child ast; v \<leftarrow> sn_val ch; Some (bytes_of v) }"

definition frame_line :: "nat \<Rightarrow> byte list" where "frame_line w = [43] @ replicate (w + 2) 45 @ [43, 10]"
definition name_line :: "nat \<Rightarrow> byte list \<Rightarrow> byte list" where "name_line w s = [124, 32] @ pad_right w s @ [32, 124, 10]"

definition ExecuteCreateDatabase :: "engine \<Rightarrow> syntax_node \<Rightarrow> (dberr outcome \<times> engine) option" where
  "ExecuteCreateDatabase e ast = do {
     db_name \<leftarrow> child_val ast;
     if map_of (eng_dbs e) db_name \<noteq> None then Some (Done DB_ALREADY_EXIST, e)
     else do {
       (r, fs) \<leftarrow> DBStorageEngine_new (eng_files e) db_name True DEFAULT_BUFFER_POOL_SIZE;
       let e = e\<lparr>eng_files := fs\<rparr>;
       case r of Thrown \<Rightarrow> Some (Thrown, e)
       | Done se \<Rightarrow> Some (Done DB_SUCCESS, e\<lparr>eng_dbs := eng_dbs e @ [(db_name, se)]\<rparr>) } }"

text \<open>The file that is removed is the one named like the database in the working directory.\<close>

definition ExecuteDropDatabase :: "((int \<rightharpoonup> int) \<Rightarrow> int list) \<Rightarrow> engine \<Rightarrow> syntax_node \<Rightarrow> (dberr outcome \<times> engine) option" where
  "ExecuteDropDatabase order e ast = do {
     db_name \<leftarrow> child_val ast;
     case map_of (eng_dbs e) db_name of
       None \<Rightarrow> Some (Done DB_NOT_EXIST, e)
     | Some se \<Rightarrow> do {
         fs \<leftarrow> DBStorageEngine_delete order (AList.delete db_name (eng_files e)) se;
         Some (Done DB_SUCCESS, e\<lparr>eng_files := fs, eng_dbs := AList.delete db_name (eng_dbs e)\<rparr>) } }"

definition ExecuteShowDatabases :: "engine \<Rightarrow> dberr \<times> engine" where
  "ExecuteShowDatabases e =
     (if eng_dbs e = [] then (DB_SUCCESS, print [line (bytes_of ''Empty set (0.00 sec)'')] e)
      else let w = foldr max (map (length \<circ> fst) (eng_dbs e)) 8 in
        (DB_SUCCESS, print [Text (frame_line w @ name_line w (bytes_of ''Database'') @ frame_line w @
           concat (map (name_line w \<circ> fst) (eng_dbs e)) @ frame_line w)] e))"

definition ExecuteUseDatabase :: "engine \<Rightarrow> syntax_node \<Rightarrow> (dberr \<times> engine) option" where
  "ExecuteUseDatabase e ast = do {
     db_name \<leftarrow> child_val ast;
     if map_of (eng_dbs e) db_name \<noteq> None
     then Some (DB_SUCCESS, print [line (bytes_of ''Database changed'')] (e\<lparr>eng_current := db_name\<rparr>))
     else Some (DB_NOT_EXIST, e) }"

definition no_database :: "engine \<Rightarrow> engine" where
  "no_database e = print [line (bytes_of ''No database selected'')] e"

definition ExecuteShowTables :: "engine \<Rightarrow> (dberr \<times> engine) option" where
  "ExecuteShowTables e =
     (if eng_current e = [] then Some (DB_FAILED, no_database e)
      else do {
        c \<leftarrow> current_catalog e;
        let (r, tables) = GetTables c;
        if r = DB_FAILED then Some (DB_FAILED, print [line (bytes_of ''Empty set (0.00 sec)'')] e)
        else do {
          let title = bytes_of ''Tables_in_'' @ eng_current e;
          let w = foldr max (map (length \<circ> GetTableName) tables) (length title);
          Some (DB_SUCCESS, print [Text (frame_line w @ name_line w title @ frame_line w @
            concat (map (name_line w \<circ> GetTableName) tables) @ frame_line w)] e) } })"

section \<open>Commands on tables and indexes\<close>

definition atoi :: "string \<Rightarrow> int option" where
  "atoi s =
     (let (neg, r) = sign_split s; n = decimal (takeWhile is_digit r); v = (if neg then - n else n) in
      if - (2 ^ 31) \<le> v \<and> v < 2 ^ 31 then Some v else None)"

text \<open>A column definition; \<open>v\<close> is the value of its node. A type other than the three of the grammar leaves \<^verbatim>\<open>column_type\<close> uninitialised.\<close>

definition column_definition :: "syntax_node option \<Rightarrow> string option \<Rightarrow> nat \<Rightarrow> column option" where
  "column_definition child v column_id = do {
     name_node \<leftarrow> child;
     column_name \<leftarrow> sn_val name_node;
     type_node \<leftarrow> sn_next name_node;
     column_type_raw \<leftarrow> sn_val type_node;
     let unique = (v = Some ''unique'');
     let nullable = (\<not> unique);
     if column_type_raw = ''int'' then Column_fixed (bytes_of column_name) kTypeInt (of_nat column_id) nullable unique
     else if column_type_raw = ''float'' then Column_fixed (bytes_of column_name) kTypeFloat (of_nat column_id) nullable unique
     else if column_type_raw = ''char'' then do {
       length_node \<leftarrow> sn_child type_node;
       s \<leftarrow> sn_val length_node;
       len \<leftarrow> atoi s;
       Column_char (bytes_of column_name) kTypeChar (word_of_int len) (of_nat column_id) nullable unique }
     else None }"

text \<open>The loop over the definitions; it ends at the node of the primary keys, which is returned.\<close>

fun column_definitions :: "syntax_node option \<Rightarrow> nat \<Rightarrow> (schema \<times> syntax_node option) option" where
  "column_definitions None column_id = Some ([], None)"
| "column_definitions (Some (SyntaxNode i ty l k ch nx v)) column_id =
     (if v = Some ''primary keys'' then Some ([], Some (SyntaxNode i ty l k ch nx v))
      else do {
        column \<leftarrow> column_definition ch v column_id;
        (columns, def) \<leftarrow> column_definitions nx (Suc column_id);
        Some (column # columns, def) })"

fun set_primary :: "byte list \<Rightarrow> schema \<Rightarrow> schema" where
  "set_primary key_name [] = []"
| "set_primary key_name (column # columns) =
     (if col_name column = key_name then column\<lparr>col_nullable := False, col_unique := True\<rparr> # columns
      else column # set_primary key_name columns)"

definition table_schema :: "syntax_node option \<Rightarrow> schema option" where
  "table_schema defs = do {
     (columns, def) \<leftarrow> column_definitions defs 0;
     case def of None \<Rightarrow> Some columns
     | Some d \<Rightarrow> do { key_name \<leftarrow> child_val d; Some (set_primary key_name columns) } }"

definition ExecuteCreateTable :: "engine \<Rightarrow> syntax_node \<Rightarrow> (dberr outcome \<times> engine) option" where
  "ExecuteCreateTable e ast =
     (if eng_current e = [] then Some (Done DB_FAILED, no_database e)
      else do {
        c \<leftarrow> current_catalog e;
        table_name \<leftarrow> child_val ast;
        ch \<leftarrow> sn_child ast;
        case sn_next ch of None \<Rightarrow> Some (Done DB_FAILED, e)
        | Some def \<Rightarrow> do {
            schema \<leftarrow> table_schema (sn_child def);
            (r, c) \<leftarrow> CreateTable c table_name schema;
            let e = set_catalog e c;
            Some (r, if r = Done DB_SUCCESS then print [line (bytes_of ''Successfully create table'')] e else e) } })"

definition ExecuteDropTable :: "engine \<Rightarrow> syntax_node \<Rightarrow> (dberr \<times> engine) option" where
  "ExecuteDropTable e ast =
     (if eng_current e = [] then Some (DB_FAILED, no_database e)
      else do {
        c \<leftarrow> current_catalog e;
        table_name \<leftarrow> child_val ast;
        let (r, c) = DropTable c table_name;
        let e = set_catalog e c;
        Some (r, if r = DB_SUCCESS then print [line (bytes_of ''Successfully drop table'')] e else e) })"

fun index_lines :: "nat \<Rightarrow> catalog \<Rightarrow> table_info list \<Rightarrow> byte list \<times> catalog" where
  "index_lines w c [] = ([], c)"
| "index_lines w c (table # tables) =
     (let ((_, indexes), c) = GetTableIndexes c (GetTableName table); (rest, c) = index_lines w c tables in
      (concat (map (\<lambda>ix. [124, 32] @ pad_right w (GetTableName table) @ [32, 124, 32] @ pad_right w (im_index_name (ix_meta ix)) @ [32, 124, 10]) indexes) @ rest, c))"

definition ExecuteShowIndexes :: "engine \<Rightarrow> (dberr \<times> engine) option" where
  "ExecuteShowIndexes e =
     (if eng_current e = [] then Some (DB_FAILED, no_database e)
      else do {
        c \<leftarrow> current_catalog e;
        let w = foldr max (map (length \<circ> fst) (eng_dbs e)) 8;
        let frame = [43] @ replicate (w + 2) 45 @ [43] @ replicate (w + 2) 45 @ [43, 10];
        let title = [124, 32] @ pad_right w (bytes_of ''Tables'') @ [32, 124, 32] @ pad_right w (bytes_of ''Indexes'') @ [32, 124, 10];
        let (ls, c) = index_lines w c (snd (GetTables c));
        Some (DB_SUCCESS, print [Text (frame @ title @ frame @ ls @ frame)] (set_catalog e c)) })"

fun sibling_values :: "syntax_node option \<Rightarrow> byte list list option" where
  "sibling_values None = Some []"
| "sibling_values (Some (SyntaxNode i ty l k ch nx v)) = do { s \<leftarrow> v; rest \<leftarrow> sibling_values nx; Some (bytes_of s # rest) }"

definition ExecuteCreateIndex :: "engine \<Rightarrow> syntax_node \<Rightarrow> (dberr outcome \<times> engine) option" where
  "ExecuteCreateIndex e ast =
     (if eng_current e = [] then Some (Done DB_FAILED, no_database e)
      else do {
        c \<leftarrow> current_catalog e;
        index_node \<leftarrow> sn_child ast;
        table_node \<leftarrow> sn_next index_node;
        index_keys \<leftarrow> sn_next table_node;
        index_type \<leftarrow> (case sn_next index_keys of None \<Rightarrow> Some ''bptree'' | Some n \<Rightarrow> do { t \<leftarrow> sn_child n; sn_val t });
        if index_type \<noteq> ''bptree'' then
          Some (Done DB_FAILED, print [line (bytes_of ''unsupported index type of '' @ bytes_of index_type @ bytes_of ''(now only support bptree)'')] e)
        else do {
          keys \<leftarrow> sibling_values (sn_child index_keys);
          table_name \<leftarrow> sn_val table_node;
          index_name \<leftarrow> sn_val index_node;
          (r, c) \<leftarrow> CreateIndex c (bytes_of table_name) (bytes_of index_name) keys index_type;
          let e = set_catalog e c;
          Some (r, if r = Done DB_SUCCESS then print [line (bytes_of ''Successfully create index'')] e else e) } })"

definition ExecuteDropIndex :: "engine \<Rightarrow> syntax_node \<Rightarrow> (dberr \<times> engine) option" where
  "ExecuteDropIndex e ast =
     (if eng_current e = [] then Some (DB_FAILED, no_database e)
      else do {
        c \<leftarrow> current_catalog e;
        index_name \<leftarrow> child_val ast;
        (r, drop_tot, c) \<leftarrow> DropAllIndexes c index_name 0;
        let e = set_catalog e c;
        Some (r, if r = DB_SUCCESS then print [line (bytes_of ''Successfully drop '' @ digits (unat drop_tot) @ bytes_of '' index'')] e else e) })"

definition ExecuteTrxBegin :: dberr where "ExecuteTrxBegin = DB_FAILED"
definition ExecuteTrxCommit :: dberr where "ExecuteTrxCommit = DB_FAILED"
definition ExecuteTrxRollback :: dberr where "ExecuteTrxRollback = DB_FAILED"

text \<open>The result of \<^verbatim>\<open>CheckAllUnpinned\<close> is only logged.\<close>

definition ExecuteQuit :: "engine \<Rightarrow> dberr option" where
  "ExecuteQuit e = do { c \<leftarrow> current_catalog e; Some DB_QUIT }"

section \<open>Execution of a statement\<close>

text \<open>\<open>Exited\<close>: the process has ended by \<^verbatim>\<open>exit(0)\<close>; \<open>Threw\<close>: an exception has left \<^verbatim>\<open>Execute\<close>.\<close>

datatype answer = Returned dberr | Threw | Exited

definition answer_of :: "dberr outcome \<Rightarrow> answer" where
  "answer_of r = (case r of Thrown \<Rightarrow> Threw | Done d \<Rightarrow> Returned d)"

definition is_scan :: "plan \<Rightarrow> bool" where
  "is_scan p \<longleftrightarrow> (case p of SeqScanPlan _ _ _ \<Rightarrow> True | IndexScanPlan _ _ _ _ _ \<Rightarrow> True | _ \<Rightarrow> False)"

text \<open>
  Planning and running of a query. Without a current database the execution context is null: the four statements
  of the grammar dereference it, every other node is refused.
\<close>

definition execute_query :: "engine \<Rightarrow> syntax_node \<Rightarrow> (dberr \<times> engine) option" where
  "execute_query e ast =
     (let planner_error = print [Text (bytes_of ''Error Encountered in Planner: ''), Exception_text, line []] in
      if sn_type ast \<notin> {kNodeSelect, kNodeInsert, kNodeDelete, kNodeUpdate} then Some (DB_FAILED, planner_error e)
      else do {
        c \<leftarrow> current_catalog e;
        case PlanQuery c ast of
          (Inl Aborted, _) \<Rightarrow> None
        | (Inl Logic_error, c) \<Rightarrow> Some (DB_FAILED, planner_error (set_catalog e c))
        | (Inr p, c) \<Rightarrow> do {
            (r, result_set, c) \<leftarrow> ExecutePlan c p;
            let e = set_catalog e c;
            let e = (if r = DB_FAILED then print [Text (bytes_of ''Error Encountered in Executor Execution: ''), Exception_text, line []] e else e);
            table \<leftarrow> (if is_scan p then do { schema \<leftarrow> OutputSchema p; write_result schema result_set } else Some []);
            Some (DB_SUCCESS, print (table @ EndInformation (length result_set) (is_scan p)) e) } })"

definition returned :: "(dberr \<times> engine) option \<Rightarrow> (answer \<times> engine) option" where
  "returned = map_option (\<lambda>(r, e). (Returned r, e))"

definition answered :: "(dberr outcome \<times> engine) option \<Rightarrow> (answer \<times> engine) option" where
  "answered = map_option (\<lambda>(r, e). (answer_of r, e))"

text \<open>Every statement but \<^verbatim>\<open>execfile\<close>; the context of the current database is made first.\<close>

definition Execute_statement :: "((int \<rightharpoonup> int) \<Rightarrow> int list) \<Rightarrow> engine \<Rightarrow> syntax_node \<Rightarrow> (answer \<times> engine) option" where
  "Execute_statement order e ast = do {
     ensure (eng_current e = [] \<or> current_catalog e \<noteq> None);
     case sn_type ast of
       kNodeCreateDB \<Rightarrow> answered (ExecuteCreateDatabase e ast)
     | kNodeDropDB \<Rightarrow> answered (ExecuteDropDatabase order e ast)
     | kNodeShowDB \<Rightarrow> returned (Some (ExecuteShowDatabases e))
     | kNodeUseDB \<Rightarrow> returned (ExecuteUseDatabase e ast)
     | kNodeShowTables \<Rightarrow> returned (ExecuteShowTables e)
     | kNodeCreateTable \<Rightarrow> answered (ExecuteCreateTable e ast)
     | kNodeDropTable \<Rightarrow> returned (ExecuteDropTable e ast)
     | kNodeShowIndexes \<Rightarrow> returned (ExecuteShowIndexes e)
     | kNodeCreateIndex \<Rightarrow> answered (ExecuteCreateIndex e ast)
     | kNodeDropIndex \<Rightarrow> returned (ExecuteDropIndex e ast)
     | kNodeTrxBegin \<Rightarrow> Some (Returned ExecuteTrxBegin, e)
     | kNodeTrxCommit \<Rightarrow> Some (Returned ExecuteTrxCommit, e)
     | kNodeTrxRollback \<Rightarrow> Some (Returned ExecuteTrxRollback, e)
     | kNodeQuit \<Rightarrow> map_option (\<lambda>r. (Returned r, e)) (ExecuteQuit e)
     | _ \<Rightarrow> returned (execute_query e ast) }"

subsection \<open>Parsing a command\<close>

text \<open>
  The globals of the parser after \<^verbatim>\<open>MinisqlParserInit\<close>; \<^verbatim>\<open>MinisqlParserFinish\<close> has emptied the list of nodes. The value of \<^verbatim>\<open>yylval\<close> that is left from the
  last command is not modelled: only tokens that do not set it are shifted with it, and no action reads their values.
\<close>

definition parser_start :: parser_globals where
  "parser_start = MinisqlParserInit \<lparr>pg_line_no = 1, pg_column_no = 0, pg_debug_node_count = 0, pg_syntax_node_list = [], pg_root_node = None,
     pg_error = 0, pg_error_message = None, pg_reports = [], pg_blocks = []\<rparr>"

definition report_text :: "int \<times> int \<times> string \<Rightarrow> out_token" where
  "report_text = (\<lambda>(line_no, column_no, msg). line (bytes_of ''Minisql parse error at line '' @ int_text line_no @ bytes_of '', col '' @ int_text column_no @
     bytes_of '', message: '' @ bytes_of msg))"

text \<open>
  \<^verbatim>\<open>MinisqlParserGetErrorMessage\<close>: the messages of the parser are string literals; the one of the scanner is an array of a block that has been left, and
  reading it is undefined.
\<close>

definition error_text :: "parser_globals \<Rightarrow> out_token list option" where
  "error_text g =
     (if pg_error g = 0 then Some []
      else do {
        msg \<leftarrow> pg_error_message g;
        ensure (msg = ''syntax error'' \<or> msg = ''memory exhausted'');
        Some [line (bytes_of msg)] })"

text \<open>The root of the syntax tree, or null, and what is printed. The return value of \<^verbatim>\<open>yyparse\<close> is not used.\<close>

definition parse_command :: "allocator \<Rightarrow> byte list \<Rightarrow> (syntax_node option \<times> out_token list) option" where
  "parse_command usable cmd = do {
     buffer \<leftarrow> yy_scan_string (map (\<lambda>b. char_of (unat b)) cmd);
     (_, s) \<leftarrow> yyparse (yylex usable) usable buffer None parser_start;
     msgs \<leftarrow> error_text (yyglobals s);
     Some (pg_root_node (yyglobals s), map report_text (pg_reports (yyglobals s)) @ msgs) }"

subsection \<open>Files of commands\<close>

definition BUF_SIZE :: nat where "BUF_SIZE = 1024"

text \<open>\<^verbatim>\<open>InputFileCommand\<close>: the text up to a semicolon, the rest of the file, and whether the end of the file has been met.\<close>

definition InputFileCommand :: "byte list \<Rightarrow> (byte list \<times> byte list \<times> bool) option" where
  "InputFileCommand s =
     (let pre = takeWhile (\<lambda>c. c \<noteq> 59) s in
      case dropWhile (\<lambda>c. c \<noteq> 59) s of
        [] \<Rightarrow> if length pre < BUF_SIZE then Some (pre, [], True) else None
      | _ # rest \<Rightarrow> if length pre + 1 < BUF_SIZE then Some (pre @ [59], drop 1 rest, rest = []) else None)"

text \<open>\<^verbatim>\<open>ExecuteExecfile\<close>: the loop over the commands of an open file. A file may execute another one, or itself.\<close>

partial_function (option) run_file :: "allocator \<Rightarrow> ((int \<rightharpoonup> int) \<Rightarrow> int list) \<Rightarrow> engine \<Rightarrow> byte list \<Rightarrow> (answer \<times> engine) option" where
  "run_file usable order e s = do {
     (cmd, rest, eof) \<leftarrow> InputFileCommand s;
     (root, msgs) \<leftarrow> parse_command usable cmd;
     let e = print msgs e;
     (a, e) \<leftarrow> (case root of None \<Rightarrow> Some (Returned DB_FAILED, e)
       | Some ast \<Rightarrow>
           if sn_type ast = kNodeExecFile then do {
             ensure (eng_current e = [] \<or> current_catalog e \<noteq> None);
             file_name \<leftarrow> child_val ast;
             case map_of (eng_files e) file_name of None \<Rightarrow> Some (Returned DB_FAILED, e)
             | Some s \<Rightarrow> run_file usable order e s }
           else Execute_statement order e ast);
     case a of Threw \<Rightarrow> Some (Threw, e) | Exited \<Rightarrow> Some (Exited, e)
     | Returned r \<Rightarrow>
         let e = ExecuteInformation r e in
         if r = DB_QUIT then Some (Exited, e)
         else if eof then Some (Returned DB_SUCCESS, print [line (bytes_of ''Successfully execute all the command in the file!'')] e)
         else run_file usable order e rest }"

definition ExecuteExecfile :: "allocator \<Rightarrow> ((int \<rightharpoonup> int) \<Rightarrow> int list) \<Rightarrow> engine \<Rightarrow> syntax_node \<Rightarrow> (answer \<times> engine) option" where
  "ExecuteExecfile usable order e ast = do {
     file_name \<leftarrow> child_val ast;
     case map_of (eng_files e) file_name of None \<Rightarrow> Some (Returned DB_FAILED, e)
     | Some s \<Rightarrow> run_file usable order e s }"

definition Execute :: "allocator \<Rightarrow> ((int \<rightharpoonup> int) \<Rightarrow> int list) \<Rightarrow> engine \<Rightarrow> syntax_node option \<Rightarrow> (answer \<times> engine) option" where
  "Execute usable order e root =
     (case root of None \<Rightarrow> Some (Returned DB_FAILED, e)
      | Some ast \<Rightarrow>
          if sn_type ast = kNodeExecFile then do {
            ensure (eng_current e = [] \<or> current_catalog e \<noteq> None);
            ExecuteExecfile usable order e ast }
          else Execute_statement order e ast)"

section \<open>The program\<close>

text \<open>\<^verbatim>\<open>LoadBatchCommands\<close>; \<open>current\<close> is the command that is being collected.\<close>

fun batch_commands :: "byte list \<Rightarrow> byte list \<Rightarrow> byte list list" where
  "batch_commands current [] = (if \<exists>c \<in> set current. c \<notin> {32, 9, 13, 10} then [current @ [59]] else [])"
| "batch_commands current (ch # rest) =
     (if ch = 59 then (current @ [ch]) # batch_commands [] rest else batch_commands (current @ [ch]) rest)"

definition LoadBatchCommands :: "byte list \<Rightarrow> byte list list" where
  "LoadBatchCommands all = batch_commands [] all"

definition ExecuteCommand :: "allocator \<Rightarrow> ((int \<rightharpoonup> int) \<Rightarrow> int list) \<Rightarrow> engine \<Rightarrow> byte list \<Rightarrow> (answer \<times> engine) option" where
  "ExecuteCommand usable order e command = do {
     (root, msgs) \<leftarrow> parse_command usable command;
     (a, e) \<leftarrow> Execute usable order (print msgs e) root;
     Some (case a of Returned r \<Rightarrow> (a, ExecuteInformation r e) | _ \<Rightarrow> (a, e)) }"

text \<open>The loops of \<^verbatim>\<open>main\<close>: a batch file, the lines of a client, and the prompt. The result is how the loop ended.\<close>

fun run_batch :: "allocator \<Rightarrow> ((int \<rightharpoonup> int) \<Rightarrow> int list) \<Rightarrow> engine \<Rightarrow> byte list list \<Rightarrow> (answer \<times> engine) option" where
  "run_batch usable order e [] = Some (Returned DB_SUCCESS, e)"
| "run_batch usable order e (command # commands) = do {
     (a, e) \<leftarrow> ExecuteCommand usable order e command;
     case a of Returned r \<Rightarrow> if r = DB_QUIT then Some (a, e) else run_batch usable order e commands
     | _ \<Rightarrow> Some (a, e) }"

fun run_repl :: "allocator \<Rightarrow> ((int \<rightharpoonup> int) \<Rightarrow> int list) \<Rightarrow> engine \<Rightarrow> byte list list \<Rightarrow> (answer \<times> engine) option" where
  "run_repl usable order e [] = Some (Returned DB_SUCCESS, e)"
| "run_repl usable order e (command # commands) =
     (if command = [] then run_repl usable order e commands
      else do {
        (a, e) \<leftarrow> ExecuteCommand usable order e (if last command \<noteq> 59 then command @ [59] else command);
        case a of Returned r \<Rightarrow>
          let e = print [Text ([10] @ bytes_of ''__MINISQL_END__'' @ [10])] e in
          if r = DB_QUIT then Some (a, e) else run_repl usable order e commands
        | _ \<Rightarrow> Some (a, e) })"

text \<open>\<^verbatim>\<open>InputCommand\<close> writes past its buffer when the input ends before a semicolon.\<close>

definition InputCommand :: "byte list \<Rightarrow> (byte list \<times> byte list) option" where
  "InputCommand s =
     (let pre = takeWhile (\<lambda>c. c \<noteq> 59) s in
      case dropWhile (\<lambda>c. c \<noteq> 59) s of
        [] \<Rightarrow> None
      | _ # rest \<Rightarrow> if length pre + 1 < BUF_SIZE then Some (pre @ [59], drop 1 rest) else None)"

lemma InputCommand_rest: "InputCommand s = Some (cmd, rest) \<Longrightarrow> length rest < length s"
  using length_dropWhile_le [of "\<lambda>c. c \<noteq> 59" s] by (auto simp: InputCommand_def Let_def split: list.splits if_splits)

function run_prompt :: "allocator \<Rightarrow> ((int \<rightharpoonup> int) \<Rightarrow> int list) \<Rightarrow> engine \<Rightarrow> byte list \<Rightarrow> (answer \<times> engine) option" where
  "run_prompt usable order e s =
     (case InputCommand s of None \<Rightarrow> None
      | Some (cmd, rest) \<Rightarrow> do {
          (a, e) \<leftarrow> ExecuteCommand usable order (print [Text (bytes_of ''minisql > '')] e) cmd;
          case a of Returned r \<Rightarrow> if r = DB_QUIT then Some (a, e) else run_prompt usable order e rest
          | _ \<Rightarrow> Some (a, e) })"
  by pat_completeness auto

termination
  by (relation "measure (\<lambda>(usable, order, e, s). length s)") (auto dest: InputCommand_rest)

text \<open>\<^verbatim>\<open>main\<close> with \<^verbatim>\<open>--batch\<close>: the engine is destroyed when \<^verbatim>\<open>main\<close> returns, and is not after \<^verbatim>\<open>exit(0)\<close> or an exception.\<close>

definition main_batch :: "allocator \<Rightarrow> ((int \<rightharpoonup> int) \<Rightarrow> int list) \<Rightarrow> file_system \<Rightarrow> byte list \<Rightarrow> (answer \<times> engine) option" where
  "main_batch usable order fs path = do {
     (r, e) \<leftarrow> ExecuteEngine_new fs;
     case r of Thrown \<Rightarrow> Some (Threw, e)
     | Done _ \<Rightarrow>
         case map_of (eng_files e) path of
           None \<Rightarrow> Some (Exited, print [Text (bytes_of ''failed to open batch file: ''), line path] e)
         | Some all \<Rightarrow> do {
             (a, e) \<leftarrow> run_batch usable order e (LoadBatchCommands all);
             case a of Returned _ \<Rightarrow> do { fs \<leftarrow> ExecuteEngine_delete order e; Some (a, e\<lparr>eng_files := fs, eng_dbs := []\<rparr>) }
             | _ \<Rightarrow> Some (a, e) } }"

section \<open>Properties\<close>

definition white :: "byte \<Rightarrow> bool" where "white c \<longleftrightarrow> c \<in> {32, 9, 13, 10}"

lemma batch_commands_split:
  "59 \<notin> set current \<Longrightarrow> list_all (\<lambda>c. \<exists>body. c = body @ [59] \<and> 59 \<notin> set body) (batch_commands current s) \<and>
    (concat (batch_commands current s) = current @ s @ [59] \<or> (\<exists>ws. list_all white ws \<and> concat (batch_commands current s) @ ws = current @ s))"
proof (induction current s rule: batch_commands.induct)
  case (1 current)
  then show ?case by (auto simp: list_all_iff white_def)
next
  case (2 current ch rest)
  then show ?case by (cases "ch = 59") auto
qed

text \<open>
  The commands of a batch file. Each ends with the only semicolon it has; put together they are the text of the file, with a semicolon added
  when the last command lacks one, or with nothing but white space left over at the end.
\<close>

theorem batch_file_split:
  "list_all (\<lambda>c. \<exists>body. c = body @ [59] \<and> 59 \<notin> set body) (LoadBatchCommands all) \<and>
    (concat (LoadBatchCommands all) = all @ [59] \<or> (\<exists>ws. list_all white ws \<and> concat (LoadBatchCommands all) @ ws = all))"
  using batch_commands_split [of "[]" all] by (simp add: LoadBatchCommands_def)

end
