(* ===== verification/Durability.thy ===== *)
theory Durability
  imports Storage_Engine
begin

text \<open>
  What closing a database keeps: the destructors of the catalog manager, the buffer pool and the disk manager, one after the
  other, and what the next constructor finds in the file. The order in which the pool's hash table is walked is a parameter;
  what is relied on is that it visits the keys of the table.
\<close>

section \<open>Flushing\<close>

definition visits_table :: "((int \<rightharpoonup> int) \<Rightarrow> int list) \<Rightarrow> bool" where
  "visits_table order \<longleftrightarrow> (\<forall>t. (\<forall>p \<in> dom t. page_ok p) \<longrightarrow> set (order t) = dom t)"

text \<open>Ascending order is such an order.\<close>

definition ascending :: "(int \<rightharpoonup> int) \<Rightarrow> int list" where
  "ascending t = filter (\<lambda>p. t p \<noteq> None) (map int [0..<PHYS_LIMIT])"

lemma visits_ascending: "visits_table ascending"
proof -
  have "p \<in> int ` {..<PHYS_LIMIT}" if "page_ok p" for p
  proof -
    have "nat p \<le> data_block (nat p)" by (simp add: data_block_alt)
    then show ?thesis using that by (auto simp: page_ok_def intro!: image_eqI [of _ _ "nat p"])
  qed
  then show ?thesis by (fastforce simp: visits_table_def ascending_def dom_def)
qed

lemma closed_write_physical: "WritePhysicalPage d p x = Some d' \<Longrightarrow> closed d' = closed d"
  by (auto simp: WritePhysicalPage_def Let_def split: if_splits)

lemma closed_read_physical: "ReadPhysicalPage d p = Some (x, d') \<Longrightarrow> closed d' = closed d"
  by (auto simp: ReadPhysicalPage_def Let_def bind_eq_Some_conv split: if_splits)

lemma closed_write: "DM_WritePage d p x = Some d' \<Longrightarrow> closed d' = closed d"
  by (auto simp: DM_WritePage_def bind_eq_Some_conv dest: closed_write_physical)

lemma closed_read: "DM_ReadPage d p = Some (x, d') \<Longrightarrow> closed d' = closed d"
  by (auto simp: DM_ReadPage_def bind_eq_Some_conv dest: closed_read_physical)

lemma closed_is_free: "DM_IsPageFree d p = Some (x, d') \<Longrightarrow> closed d' = closed d"
  by (auto simp: DM_IsPageFree_def bind_eq_Some_conv Let_def split: if_splits dest: closed_read_physical)

lemma closed_allocate: "DM_AllocatePage d = Some (x, d') \<Longrightarrow> closed d' = closed d"
  by (fastforce simp: DM_AllocatePage_def bind_eq_Some_conv Let_def split: if_splits dest!: closed_read_physical closed_write_physical)

lemma closed_open: "DM_open f = Some d \<Longrightarrow> \<not> closed d"
  by (auto simp: DM_open_def bind_eq_Some_conv dest: closed_read_physical)

lemma take_frame_disk: "take_frame b = Some (fo, b') \<Longrightarrow> bpm_disk b' = bpm_disk b"
  by (auto simp: take_frame_def bind_eq_Some_conv split: if_splits list.splits)

lemma closed_fetch:
  assumes "BPM_FetchPage b p = Some (fo, b')"
  shows "closed (bpm_disk b') = closed (bpm_disk b)"
proof (cases "bpm_table b p")
  case None
  with assms obtain fr b1 where t: "take_frame b = Some (fr, b1)" by (auto simp: BPM_FetchPage_def bind_eq_Some_conv)
  show ?thesis
  proof (cases fr)
    case (Some f)
    with assms None t obtain pg d x d' where "vector_get (bpm_pages b1) f = Some pg" "(if pg_dirty pg then DM_WritePage (bpm_disk b1) p (pg_data pg) else Some (bpm_disk b1)) = Some d"
      "DM_ReadPage d p = Some (x, d')" "bpm_disk b' = d'" by (fastforce simp: BPM_FetchPage_def Let_def bind_eq_Some_conv)
    then show ?thesis using take_frame_disk [OF t] closed_write closed_read by (metis option.inject)
  qed (use assms None t take_frame_disk [OF t] in \<open>simp add: BPM_FetchPage_def\<close>)
qed (use assms in \<open>auto simp: BPM_FetchPage_def bind_eq_Some_conv\<close>)

lemma closed_new:
  assumes "BPM_NewPage b = Some (r, b')"
  shows "closed (bpm_disk b') = closed (bpm_disk b)"
proof -
  from assms obtain fr b1 where t: "take_frame b = Some (fr, b1)" by (auto simp: BPM_NewPage_def bind_eq_Some_conv)
  show ?thesis
  proof (cases fr)
    case (Some f)
    with assms t obtain p d0 pg d where "DM_AllocatePage (bpm_disk b1) = Some (p, d0)" "vector_get (bpm_pages b1) f = Some pg"
      "(if pg_dirty pg then DM_WritePage d0 p (pg_data pg) else Some d0) = Some d" "bpm_disk b' = d"
      by (fastforce simp: BPM_NewPage_def Let_def bind_eq_Some_conv)
    then show ?thesis using take_frame_disk [OF t] closed_write closed_allocate by (metis option.inject)
  qed (use assms t take_frame_disk [OF t] in \<open>simp add: BPM_NewPage_def\<close>)
qed

lemma closed_unpin: "BPM_UnpinPage b p dirty = Some (r, b') \<Longrightarrow> bpm_disk b' = bpm_disk b"
  by (auto simp: BPM_UnpinPage_def bind_eq_Some_conv Let_def split: option.splits if_splits)

lemma closed_page_free: "BPM_IsPageFree b p = Some (r, b') \<Longrightarrow> closed (bpm_disk b') = closed (bpm_disk b)"
  by (auto simp: BPM_IsPageFree_def bind_eq_Some_conv dest: closed_is_free)

lemma closed_static_pages: "static_pages b = Some (r, b') \<Longrightarrow> closed (bpm_disk b') = closed (bpm_disk b)"
  by (auto simp: static_pages_def bind_eq_Some_conv split: if_splits dest!: closed_page_free closed_new closed_unpin)

lemma closed_store: "write_frame b f d = Some b' \<Longrightarrow> bpm_disk b' = bpm_disk b"
  by (auto simp: write_frame_def bind_eq_Some_conv)

lemma pool_flush:
  assumes ok: "pool_ok n b" and t: "bpm_table b p = Some f"
  obtains b' where "BPM_FlushPage b p = Some (True, b')" "pool_ok n b'" "bpm_table b' = bpm_table b" "pool_pages b' = pool_pages b"
    "disk_used (bpm_disk b') = disk_used (bpm_disk b)" "closed (bpm_disk b') = closed (bpm_disk b)"
    "\<And>q. page_at (bpm_disk b') q = (if q = nat p then bpm_view b p else page_at (bpm_disk b) q)"
    "\<And>q. 0 \<le> q \<Longrightarrow> bpm_view b' q = bpm_view b q"
proof -
  have wf: "bpm_wf b" using ok by (simp add: pool_ok_def)
  note D = bpm_wfD [OF wf]
  have f: "f \<in> frame_ids b" "f \<notin> set (bpm_free b)" "pg_id (frame b f) = p" "page_ok p" using D(7) [OF t] by auto
  note acc = frame_ids_access_wf [OF wf f(1)]
  have pos: "0 \<le> pg_pins (frame b f)" "length (pg_data (frame b f)) = PAGE_SIZE" using D(10) [OF f(1)] by auto
  obtain d where d: "DM_WritePage (bpm_disk b) p (pg_data (frame b f)) = Some d" "disk_inv d" "disk_used d = disk_used (bpm_disk b)"
    "\<And>q. page_at d q = (if q = nat p then pg_data (frame b f) else page_at (bpm_disk b) q)"
    using DM_WritePage_ok' [OF D(4) f(4) pos(2)] by blast
  let ?b = "b\<lparr>bpm_pages := (bpm_pages b)[nat f := Page_ResetDirty (frame b f)], bpm_disk := d, bpm_replacer := bpm_replacer b\<rparr>"
  have "lru_frames (bpm_replacer b) = (if pg_pins (frame b f) = 0 then insert f (lru_frames (bpm_replacer b))
      else lru_frames (bpm_replacer b) - {f})" using D(11) f(1,2) by auto
  then have "bpm_wf ?b"
    by (intro bpm_wf_update_frame [OF wf f(1,2)]) (use pos D(2) d f(3) in \<open>simp_all add: Page_ResetDirty_def\<close>)
  moreover have "bpm_view ?b q = bpm_view b q" if "0 \<le> q" for q
    using bpm_view_update_frame_wf [OF wf f(1,2), of d q "bpm_replacer b" "Page_ResetDirty (frame b f)"] that f(3) t d(4)
    by (simp add: bpm_view_def Page_ResetDirty_def)
  moreover have "BPM_FlushPage b p = Some (True, ?b)" using t acc d(1) by (simp add: BPM_FlushPage_def)
  ultimately show thesis
    using that [of ?b] d t ok closed_write [OF d(1)] by (simp add: bpm_view_def pool_ok_def pool_pages_def allocated_only_def disk_space_def)
qed

lemma pool_flush_all:
  "pool_ok n b \<Longrightarrow> set ids \<subseteq> dom (bpm_table b) \<Longrightarrow> \<exists>b'. BPM_flush_all b ids = Some b' \<and> pool_ok n b' \<and> bpm_table b' = bpm_table b \<and>
     disk_used (bpm_disk b') = disk_used (bpm_disk b) \<and> closed (bpm_disk b') = closed (bpm_disk b) \<and>
     (\<forall>q \<ge> 0. bpm_view b' q = bpm_view b q) \<and>
     (\<forall>q \<ge> 0. page_at (bpm_disk b') (nat q) = (if q \<in> set ids then bpm_view b q else page_at (bpm_disk b) (nat q)))"
proof (induction ids arbitrary: b)
  case (Cons p ids)
  then obtain f where t: "bpm_table b p = Some f" by auto
  have p: "0 \<le> p" by (rule pool_read(6) [OF Cons.prems(1) t])
  obtain b1 where b1: "BPM_FlushPage b p = Some (True, b1)" "pool_ok n b1" "bpm_table b1 = bpm_table b"
    "disk_used (bpm_disk b1) = disk_used (bpm_disk b)" "closed (bpm_disk b1) = closed (bpm_disk b)"
    "\<And>q. page_at (bpm_disk b1) q = (if q = nat p then bpm_view b p else page_at (bpm_disk b) q)" "\<And>q. 0 \<le> q \<Longrightarrow> bpm_view b1 q = bpm_view b q"
    by (rule pool_flush [OF Cons.prems(1) t], rule that, assumption+)
  obtain b' where b': "BPM_flush_all b1 ids = Some b'" "pool_ok n b'" "bpm_table b' = bpm_table b1"
    "disk_used (bpm_disk b') = disk_used (bpm_disk b1)" "closed (bpm_disk b') = closed (bpm_disk b1)" "\<forall>q \<ge> 0. bpm_view b' q = bpm_view b1 q"
    "\<forall>q \<ge> 0. page_at (bpm_disk b') (nat q) = (if q \<in> set ids then bpm_view b1 q else page_at (bpm_disk b1) (nat q))"
    using Cons.IH [OF b1(2)] Cons.prems(2) b1(3) by auto
  have "page_at (bpm_disk b') (nat q) = (if q \<in> set (p # ids) then bpm_view b q else page_at (bpm_disk b) (nat q))" if "0 \<le> q" for q
    using b'(7) b1(6,7) that p by (cases "q = p") (auto simp: eq_nat_nat_iff)
  with b1 b' show ?case by simp
qed simp

section \<open>The catalog page\<close>

lemma FlushCatalogMetaPage_ok:
  assumes ok: "pool_ok n (cat_bpm c)" and page: "CATALOG_META_PAGE_ID \<in> pool_pages (cat_bpm c)" and meta: "catalog_meta_ok (cat_meta c)"
  obtains b d k where "FlushCatalogMetaPage c = Some (DB_SUCCESS, c\<lparr>cat_bpm := b\<rparr>)" "pool_ok n b"
    "pool_pages b = pool_pages (cat_bpm c)" "closed (bpm_disk b) = closed (bpm_disk (cat_bpm c))"
    "\<And>q. 0 \<le> q \<Longrightarrow> bpm_view b q = (if q = CATALOG_META_PAGE_ID then d else bpm_view (cat_bpm c) q)"
    "CatalogMeta_DeserializeFrom d 0 = Some (cat_meta c, k)"
proof -
  let ?b = "cat_bpm c"
  have M: "META_PAGE_ID = CATALOG_META_PAGE_ID" by (simp add: META_PAGE_ID_def CATALOG_META_PAGE_ID_def)
  obtain f b1 where b1: "BPM_FetchPage ?b CATALOG_META_PAGE_ID = Some (Some f, b1)" "pool_ok n b1" "bpm_table b1 CATALOG_META_PAGE_ID = Some f"
    "pool_pages b1 = pool_pages ?b" "\<And>q. 0 \<le> q \<Longrightarrow> bpm_view b1 q = bpm_view ?b q"
    by (rule pool_fetch [OF ok page], rule that, assumption+)
  note R = pool_read [OF b1(2,3)]
  let ?v = "bpm_view b1 CATALOG_META_PAGE_ID" and ?k = "length (catalog_meta_encode (cat_meta c))"
  have fit: "0 + ?k \<le> length ?v"
    using meta R(4) by (simp add: catalog_meta_ok_def catalog_meta_encode_def)
  obtain d where d: "CatalogMeta_SerializeTo (cat_meta c) ?v 0 = Some (d, ?k)" "CatalogMeta_DeserializeFrom d 0 = Some (cat_meta c, ?k)" "length d = length ?v"
    by (rule catalog_codec.get_put [OF meta catalog_codec.size_encode [OF meta] fit]) (rule that; assumption)
  obtain b2 where b2: "write_frame b1 f d = Some b2" "pool_ok n b2" "bpm_table b2 = bpm_table b1" "pool_pages b2 = pool_pages b1"
    "\<And>q. 0 \<le> q \<Longrightarrow> bpm_view b2 q = (if q = CATALOG_META_PAGE_ID then d else bpm_view b1 q)"
    by (rule pool_write [OF b1(2,3), of d]) (use d(3) R(4) in simp, rule that, assumption+)
  have t2: "bpm_table b2 CATALOG_META_PAGE_ID = Some f" using b1(3) b2(3) by simp
  obtain b3 where b3: "BPM_FlushPage b2 CATALOG_META_PAGE_ID = Some (True, b3)" "pool_ok n b3" "pool_pages b3 = pool_pages b2"
    "closed (bpm_disk b3) = closed (bpm_disk b2)" "\<And>q. 0 \<le> q \<Longrightarrow> bpm_view b3 q = bpm_view b2 q"
    by (rule pool_flush [OF b2(2) t2], rule that, assumption+)
  have "FlushCatalogMetaPage c = Some (DB_SUCCESS, c\<lparr>cat_bpm := b3\<rparr>)"
    using b1(1) R(1,2) d(1) b2(1) b3(1) by (simp add: FlushCatalogMetaPage_def frame_data_def M)
  then show thesis
    using that [of b3 d ?k] b3 b2 b1 d(2) closed_fetch [OF b1(1)] closed_store [OF b2(1)] by simp
qed

section \<open>Closing and opening\<close>

definition opened :: "byte list \<Rightarrow> fstream" where "opened bytes = \<lparr>fs_content = bytes, fs_open = True, fs_fail = False\<rparr>"

lemma close_not_fail: "disk_inv db \<Longrightarrow> DM_Close db = Some db' \<Longrightarrow> \<not> fs_fail (db_io db')"
  using disk_invD(1,2) [of db] by (auto simp: DM_Close_def WritePhysicalPage_def Let_def io_ok_def bind_eq_Some_conv split: if_splits)

lemma close_and_open:
  assumes ok: "pool_ok n (cat_bpm (se_catalog e))" "CATALOG_META_PAGE_ID \<in> pool_pages (cat_bpm (se_catalog e))" "catalog_meta_ok (cat_meta (se_catalog e))"
    and open_file: "\<not> closed (bpm_disk (cat_bpm (se_catalog e)))" "map_of fs (se_file_name e) \<noteq> None" and order: "visits_table order"
  shows "\<exists>fs' bytes disk k. DBStorageEngine_delete order fs e = Some fs' \<and> map_of fs' = (map_of fs)(se_file_name e \<mapsto> bytes) \<and>
    DM_open (opened bytes) = Some disk \<and> disk_inv disk \<and> pool_pages (BPM_new N disk) = pool_pages (cat_bpm (se_catalog e)) \<and>
    (\<forall>p \<in> pool_pages (cat_bpm (se_catalog e)) - {CATALOG_META_PAGE_ID}. bpm_view (BPM_new N disk) p = bpm_view (cat_bpm (se_catalog e)) p) \<and>
    CatalogMeta_DeserializeFrom (bpm_view (BPM_new N disk) CATALOG_META_PAGE_ID) 0 = Some (cat_meta (se_catalog e), k)"
proof -
  let ?c = "se_catalog e"
  obtain b d k where b: "FlushCatalogMetaPage ?c = Some (DB_SUCCESS, ?c\<lparr>cat_bpm := b\<rparr>)" "pool_ok n b" "pool_pages b = pool_pages (cat_bpm ?c)"
    "closed (bpm_disk b) = closed (bpm_disk (cat_bpm ?c))"
    "\<And>q. 0 \<le> q \<Longrightarrow> bpm_view b q = (if q = CATALOG_META_PAGE_ID then d else bpm_view (cat_bpm ?c) q)"
    "CatalogMeta_DeserializeFrom d 0 = Some (cat_meta ?c, k)"
    by (rule FlushCatalogMetaPage_ok [OF ok], rule that, assumption+)
  have wf: "bpm_wf b" using b(2) by (simp add: pool_ok_def)
  have "\<forall>p \<in> dom (bpm_table b). page_ok p" using bpm_wfD(7) [OF wf] by auto
  then have visits: "set (order (bpm_table b)) = dom (bpm_table b)" using order unfolding visits_table_def by blast
  obtain b' where b': "BPM_flush_all b (order (bpm_table b)) = Some b'" "pool_ok n b'" "disk_used (bpm_disk b') = disk_used (bpm_disk b)"
    "closed (bpm_disk b') = closed (bpm_disk b)"
    "\<forall>q \<ge> 0. page_at (bpm_disk b') (nat q) = (if q \<in> set (order (bpm_table b)) then bpm_view b q else page_at (bpm_disk b) (nat q))"
    using pool_flush_all [OF b(2), of "order (bpm_table b)"] visits by auto
  have at: "page_at (bpm_disk b') (nat q) = bpm_view b q" if "0 \<le> q" for q
    using b'(5) that visits by (auto simp: bpm_view_def split: option.splits)
  have inv: "disk_inv (bpm_disk b')" "\<not> closed (bpm_disk b')"
    using b'(2,4) b(4) open_file(1) by (auto simp: pool_ok_def dest: bpm_wfD(4))
  obtain d1 disk where d1: "DM_Close (bpm_disk b') = Some d1" "DM_open ((db_io d1)\<lparr>fs_open := True\<rparr>) = Some disk" "disk_inv disk"
    "disk_used disk = disk_used (bpm_disk b')" "\<forall>p. page_at disk p = page_at (bpm_disk b') p"
    using disk_close_open [OF inv] by auto
  have fail: "\<not> fs_fail (db_io d1)" by (rule close_not_fail [OF inv(1) d1(1)])
  let ?bytes = "fs_content (db_io d1)"
  have "DBStorageEngine_delete order fs e = Some (AList.update (se_file_name e) ?bytes fs)"
    using b(1) b'(1) inv(2) d1(1) open_file(2) by (auto simp: DBStorageEngine_delete_def CatalogManager_delete_def write_through_def)
  moreover have "DM_open (opened ?bytes) = Some disk" using d1(2) fail by (cases "db_io d1") (simp add: opened_def)
  moreover have pages: "pool_pages (BPM_new N disk) = pool_pages (cat_bpm ?c)" using d1(4) b'(3) b(3) by (simp add: pool_pages_def BPM_new_def)
  moreover have view: "bpm_view (BPM_new N disk) p = bpm_view b p" if "0 \<le> p" for p using d1(5) at [OF that] by (simp add: bpm_view_def BPM_new_def)
  moreover have "bpm_view (BPM_new N disk) p = bpm_view (cat_bpm ?c) p" if "p \<in> pool_pages (cat_bpm ?c) - {CATALOG_META_PAGE_ID}" for p
    using view [of p] b(5) [of p] pool_pages_pos [of p "cat_bpm ?c"] that by auto
  moreover have "bpm_view (BPM_new N disk) CATALOG_META_PAGE_ID = d"
    using view b(5) by (simp add: CATALOG_META_PAGE_ID_def)
  ultimately show ?thesis using d1(3) b(6) by (auto simp: update_conv')
qed

lemma new_database_state:
  assumes "DBStorageEngine_new fs db_name True N = Some (Done e, fs')"
  shows "\<not> closed (bpm_disk (cat_bpm (se_catalog e)))" "cat_meta (se_catalog e) = CatalogMeta_new" "cat_table_names (se_catalog e) = []"
    "se_file_name e = database_path db_name"
  using assms by (auto simp: DBStorageEngine_new_def CatalogManager_new_def bind_eq_Some_conv Let_def BPM_new_def case_prod_beta case_outcome_Done
      dest!: closed_static_pages closed_open)

lemma new_meta_ok: "catalog_meta_ok CatalogMeta_new"
  by (simp add: catalog_meta_ok_def CatalogMeta_new_def pages_ok_def map_ordered_def PAGE_SIZE_def)

section \<open>Properties\<close>

text \<open>
  C8: closing a database makes it durable. When the pool can hold the pages in use and the catalog's metadata fits its page, the destructor of
  \<^verbatim>\<open>DBStorageEngine\<close> returns, and the file it leaves is opened again by the disk manager with the same pages in use; a pool of any size over it
  shows every page as it was before, written back or not, and the catalog page holds the catalog's metadata.
\<close>

theorem close_database_durable:
  assumes "pool_ok n (cat_bpm (se_catalog e))" "CATALOG_META_PAGE_ID \<in> pool_pages (cat_bpm (se_catalog e))" "catalog_meta_ok (cat_meta (se_catalog e))"
    "\<not> closed (bpm_disk (cat_bpm (se_catalog e)))" "map_of fs (se_file_name e) \<noteq> None" "visits_table order"
  shows "\<exists>fs' bytes disk k. DBStorageEngine_delete order fs e = Some fs' \<and> map_of fs' = (map_of fs)(se_file_name e \<mapsto> bytes) \<and>
    DM_open (opened bytes) = Some disk \<and> disk_inv disk \<and> pool_pages (BPM_new N disk) = pool_pages (cat_bpm (se_catalog e)) \<and>
    (\<forall>p \<in> pool_pages (cat_bpm (se_catalog e)) - {CATALOG_META_PAGE_ID}. bpm_view (BPM_new N disk) p = bpm_view (cat_bpm (se_catalog e)) p) \<and>
    CatalogMeta_DeserializeFrom (bpm_view (BPM_new N disk) CATALOG_META_PAGE_ID) 0 = Some (cat_meta (se_catalog e), k)"
  by (rule close_and_open [OF assms])

theorem close_database_durable_witness:
  "\<exists>e fs fs' bytes disk k. DBStorageEngine_new [] (bytes_of ''d'') True DEFAULT_BUFFER_POOL_SIZE = Some (Done e, fs) \<and>
    DBStorageEngine_delete ascending fs e = Some fs' \<and> map_of fs' (database_path (bytes_of ''d'')) = Some bytes \<and> DM_open (opened bytes) = Some disk \<and>
    pool_pages (BPM_new 10 disk) = {CATALOG_META_PAGE_ID, INDEX_ROOTS_PAGE_ID} \<and>
    CatalogMeta_DeserializeFrom (bpm_view (BPM_new 10 disk) CATALOG_META_PAGE_ID) 0 = Some (CatalogMeta_new, k)"
proof -
  obtain e fs where e: "DBStorageEngine_new [] (bytes_of ''d'') True DEFAULT_BUFFER_POOL_SIZE = Some (Done e, fs)"
    "map_of fs (database_path (bytes_of ''d'')) \<noteq> None" "pool_ok 0 (cat_bpm (se_catalog e))"
    "pool_pages (cat_bpm (se_catalog e)) = {CATALOG_META_PAGE_ID, INDEX_ROOTS_PAGE_ID}"
    using database_ready [of 0 DEFAULT_BUFFER_POOL_SIZE "[]" "bytes_of ''d''"] by (auto simp: DEFAULT_BUFFER_POOL_SIZE_def EXT_LIMIT_def BITMAP_SIZE_val)
  note S = new_database_state [OF e(1)]
  show ?thesis
    using close_database_durable [OF e(3), of fs ascending 10] e S new_meta_ok visits_ascending by auto
qed

end
