(* ===== verification/Engine_Invariant.thy ===== *)
theory Engine_Invariant
  imports Commands Durability
begin

text \<open>
  What statements keep. A query changes the contents of tables and indexes and none of the definitions in the catalog;
  every statement keeps the invariant of the catalogs of all open databases. The proofs follow the executors down to
  the two ways in which they touch the catalog, \<^const>\<open>with_heap\<close> and \<^const>\<open>with_index\<close>.
\<close>

section \<open>Catalogs with the same definitions\<close>

definition same_definitions :: "catalog \<Rightarrow> catalog \<Rightarrow> bool" where
  "same_definitions c c' \<longleftrightarrow> cat_meta c' = cat_meta c \<and> cat_table_names c' = cat_table_names c \<and> index_map c' = index_map c \<and>
     map_option tbl_meta \<circ> map_of (cat_tables c') = map_option tbl_meta \<circ> map_of (cat_tables c) \<and>
     (\<lambda>i. map_option (\<lambda>ix. (ix_meta ix, ix_table ix, ix_key_schema ix)) (map_of (cat_indexes c') i)) =
     (\<lambda>i. map_option (\<lambda>ix. (ix_meta ix, ix_table ix, ix_key_schema ix)) (map_of (cat_indexes c) i))"

lemma same_refl [simp]: "same_definitions c c"
  by (simp add: same_definitions_def)

lemma same_trans [trans]: "same_definitions c c' \<Longrightarrow> same_definitions c' c'' \<Longrightarrow> same_definitions c c''"
  by (simp add: same_definitions_def)

lemma with_heap_same: "with_heap c i f = Some (x, c') \<Longrightarrow> same_definitions c c'"
  by (auto simp: with_heap_def bind_eq_Some_conv same_definitions_def update_conv' fun_eq_iff)

lemma with_index_same: "with_index c i f = Some (x, c') \<Longrightarrow> same_definitions c c'"
  by (auto simp: with_index_def bind_eq_Some_conv same_definitions_def update_conv' fun_eq_iff)

lemma GetTableIndexes_same: "GetTableIndexes c t = (r, c') \<Longrightarrow> same_definitions c c'"
  by (auto simp: GetTableIndexes_def Let_def same_definitions_def split: if_splits)

lemmas same_access = with_heap_same with_index_same GetTableIndexes_same

lemmas monad_splits = Option.bind_splits prod.splits if_splits outcome.splits option.splits sum.splits failure.splits

section \<open>Executors\<close>

lemma SeqScan_Init_same: "SeqScan_Init c e = Some (e', c') \<Longrightarrow> same_definitions c c'"
  by (auto simp: SeqScan_Init_def bind_eq_Some_conv dest: with_heap_same)

lemma SeqScan_Next_same':
  assumes "SeqScan_Next c e = Some x"
  shows "same_definitions c (snd (snd x))"
proof (rule SeqScan_Next.raw_induct [OF _ assms, where P = "\<lambda>c e x. same_definitions c (snd (snd x))"], goal_cases)
  case (1 f c e x)
  from 1(2) show ?case
    by (auto simp: Let_def move_next_def split: monad_splits dest!: with_heap_same 1(1) intro: same_trans)
qed

lemma SeqScan_Next_same: "SeqScan_Next c e = Some (r, e', c') \<Longrightarrow> same_definitions c c'"
  using SeqScan_Next_same' [of c e "(r, e', c')"] by simp

lemma scan_indexes_same: "scan_indexes c is col key cmp = Some (r, c') \<Longrightarrow> same_definitions c c'"
  by (induction "is" arbitrary: c)
    (auto split: monad_splits dest!: with_index_same)

lemma IndexScan_same: "IndexScan c is p = Some (r, c') \<Longrightarrow> same_definitions c c'"
  by (induction c "is" p arbitrary: r c' rule: IndexScan.induct)
    (auto simp: Let_def split: monad_splits expression.splits dest: scan_indexes_same intro: same_trans)

lemma IndexScan_Init_same: "IndexScan_Init c e = Some (e', c') \<Longrightarrow> same_definitions c c'"
  by (auto simp: IndexScan_Init_def bind_eq_Some_conv dest!: with_heap_same IndexScan_same intro: same_trans)

lemma IndexScan_Next_same: "IndexScan_Next c e = Some (r, e', c') \<Longrightarrow> same_definitions c c'"
proof (induction "length (is_result e) - is_cursor e" arbitrary: c e r e' c' rule: less_induct)
  case less
  from less.prems show ?case
    unfolding IndexScan_Next.simps [of c e]
    by (auto simp: Let_def simp del: IndexScan_Next.simps split: monad_splits dest!: with_heap_same less.hyps [rotated] intro: same_trans)
qed

lemma key_exists_same: "key_exists c schema row is = Some (r, c') \<Longrightarrow> same_definitions c c'"
  by (induction "is" arbitrary: c)
    (auto split: monad_splits dest!: with_index_same intro: same_trans)

lemma insert_keys_same: "insert_keys c schema row is = Some (r, c') \<Longrightarrow> same_definitions c c'"
  by (induction "is" arbitrary: c)
    (auto split: monad_splits dest!: with_index_same intro: same_trans)

lemma remove_keys_same: "remove_keys c schema row rid is = Some c' \<Longrightarrow> same_definitions c c'"
  by (induction "is" arbitrary: c)
    (auto split: monad_splits dest!: with_index_same intro: same_trans)

lemma update_keys_same: "update_keys c schema row row' rid is = Some (r, c') \<Longrightarrow> same_definitions c c'"
  by (induction "is" arbitrary: c)
    (auto split: monad_splits dest!: with_index_same intro: same_trans)

lemma Insert_Next_same: "Insert_Next c e = Some (r, e', c') \<Longrightarrow> same_definitions c c'"
  by (auto simp: Insert_Next_def Let_def split: monad_splits dest!: key_exists_same with_heap_same insert_keys_same intro: same_trans)

lemma Delete_Next_same: "Delete_Next c e = Some (r, e', c') \<Longrightarrow> same_definitions c c'"
  by (auto simp: Delete_Next_def Let_def split: monad_splits dest!: SeqScan_Next_same with_heap_same remove_keys_same intro: same_trans)

lemma Update_Next_same: "Update_Next c e = Some (r, e', c') \<Longrightarrow> same_definitions c c'"
  by (auto simp: Update_Next_def Let_def split: monad_splits dest!: SeqScan_Next_same with_heap_same update_keys_same intro: same_trans)

lemma Insert_Init_same: "Insert_Init c e = Some (e', c') \<Longrightarrow> same_definitions c c'"
  by (auto simp: Insert_Init_def Let_def split: monad_splits dest!: GetTableIndexes_same)

lemma Modify_Init_same: "Modify_Init c e = Some (e', c') \<Longrightarrow> same_definitions c c'"
  by (auto simp: Modify_Init_def Let_def split: monad_splits dest!: SeqScan_Init_same GetTableIndexes_same intro: same_trans)

lemma Executor_Init_same: "Executor_Init c e = Some (e', c') \<Longrightarrow> same_definitions c c'"
  by (cases e) (auto dest: SeqScan_Init_same IndexScan_Init_same Insert_Init_same Modify_Init_same)

lemma Executor_Next_same: "Executor_Next c e row = Some (r, e', c') \<Longrightarrow> same_definitions c c'"
  by (cases e) (auto simp del: IndexScan_Next.simps split: monad_splits dest: SeqScan_Next_same IndexScan_Next_same Insert_Next_same Delete_Next_same Update_Next_same)

lemma plan_loop_same':
  assumes "plan_loop c e row rs = Some x"
  shows "same_definitions c (snd x)"
proof (rule plan_loop.raw_induct [OF _ assms, where P = "\<lambda>c e row rs x. same_definitions c (snd x)"], goal_cases)
  case (1 f c e row rs x)
  from 1(2) show ?case by (auto split: monad_splits dest!: Executor_Next_same 1(1) intro: same_trans)
qed

lemma plan_loop_same: "plan_loop c e row rs = Some (r, c') \<Longrightarrow> same_definitions c c'"
  using plan_loop_same' [of c e row rs "(r, c')"] by simp

lemma ExecutePlan_same: "ExecutePlan c p = Some (r, rs, c') \<Longrightarrow> same_definitions c c'"
  by (auto simp: ExecutePlan_def split: monad_splits dest!: Executor_Init_same plan_loop_same intro: same_trans)

lemma PlanQuery_same: "PlanQuery c ast = (r, c') \<Longrightarrow> same_definitions c c'"
  by (auto simp: PlanQuery_def PlanSelect_def Let_def split: monad_splits dest!: GetTableIndexes_same)

section \<open>The engine\<close>

lemma same_definitions_inv:
  assumes "same_definitions c c'" "catalog_inv c"
  shows "catalog_inv c'"
proof -
  have T: "map_option tbl_meta (map_of (cat_tables c') i) = map_option tbl_meta (map_of (cat_tables c) i)" for i
    using assms(1) by (simp add: same_definitions_def fun_eq_iff)
  have X: "map_option (\<lambda>ix. (ix_meta ix, ix_table ix, ix_key_schema ix)) (map_of (cat_indexes c') i) =
      map_option (\<lambda>ix. (ix_meta ix, ix_table ix, ix_key_schema ix)) (map_of (cat_indexes c) i)" for i
    using assms(1) unfolding same_definitions_def by meson
  have t: "(\<exists>info. map_of (cat_tables c') i = Some info \<and> Q (tbl_meta info)) \<longleftrightarrow> (\<exists>info. map_of (cat_tables c) i = Some info \<and> Q (tbl_meta info))" for i Q
    using T [of i] by (cases "map_of (cat_tables c') i"; cases "map_of (cat_tables c) i") auto
  have x: "(\<exists>ix. map_of (cat_indexes c') i = Some ix \<and> Q (ix_meta ix)) \<longleftrightarrow> (\<exists>ix. map_of (cat_indexes c) i = Some ix \<and> Q (ix_meta ix))" for i Q
    using X [of i] by (cases "map_of (cat_indexes c') i"; cases "map_of (cat_indexes c) i") auto
  have a: "(\<forall>info. map_of (cat_tables c') i = Some info \<longrightarrow> Q (tbl_meta info)) \<longleftrightarrow> (\<forall>info. map_of (cat_tables c) i = Some info \<longrightarrow> Q (tbl_meta info))" for i Q
    using t [of i "\<lambda>m. \<not> Q m"] by blast
  have "tables_inv c' = tables_inv c"
    using assms(1) t [of _ "\<lambda>m. tm_table_name m = _"] a [of _ "\<lambda>m. tm_table_id m = _ \<and> _"] by (simp add: tables_inv_def same_definitions_def)
  moreover have "indexes_inv c' = indexes_inv c"
    using assms(1) x [of _ "\<lambda>m. im_index_id m = _ \<and> im_index_name m = _"] by (simp add: indexes_inv_def same_definitions_def)
  ultimately show ?thesis using assms(2) by (simp add: catalog_inv_def)
qed

definition engine_inv :: "engine \<Rightarrow> bool" where
  "engine_inv e \<longleftrightarrow> distinct (map fst (eng_dbs e)) \<and> (\<forall>(n, se) \<in> set (eng_dbs e). catalog_inv (se_catalog se))"

lemma engine_inv_print [simp]: "engine_inv (print xs e) = engine_inv e" "eng_dbs (print xs e) = eng_dbs e" "eng_current (print xs e) = eng_current e"
  by (simp_all add: print_def engine_inv_def)

lemma engine_inv_no_database [simp]: "engine_inv (no_database e) = engine_inv e"
  by (simp add: no_database_def)

lemma current_catalog_inv: "engine_inv e \<Longrightarrow> current_catalog e = Some c \<Longrightarrow> catalog_inv c"
  by (auto simp: engine_inv_def current_catalog_def dest!: map_of_SomeD)

lemma fst_set_catalog: "fst \<circ> (\<lambda>(n, se). (n, if n = k then se\<lparr>se_catalog := c\<rparr> else se)) = fst"
  by auto

lemma set_catalog_inv: "engine_inv e \<Longrightarrow> catalog_inv c \<Longrightarrow> engine_inv (set_catalog e c)"
  by (auto simp: engine_inv_def set_catalog_def fst_set_catalog)

lemma column_definitions_length: "column_definitions defs k = Some (cols, d) \<Longrightarrow> length cols \<le> size_option size defs"
proof (induction defs k arbitrary: cols d rule: column_definitions.induct)
  case (2 i ty l n ch nx v k)
  then show ?case by (fastforce split: monad_splits)
qed simp

lemma set_primary_length [simp]: "length (set_primary k cols) = length cols"
  by (induction cols) auto

lemma table_schema_length: "table_schema defs = Some schema \<Longrightarrow> length schema \<le> size_option size defs"
  by (auto simp: table_schema_def split: monad_splits dest!: column_definitions_length)

lemma ids_for_mono: "ids_for n c \<Longrightarrow> k \<le> n \<Longrightarrow> ids_for k c"
  by (auto simp: ids_for_def intro: ids_left_mono)

lemma size_grandchild: "sn_child ast = Some ch \<Longrightarrow> sn_next ch = Some def \<Longrightarrow> Suc (size_option size (sn_child def)) \<le> size ast"
  by (cases ast; cases ch; cases def) auto

lemma catalog_step_engine: "engine_inv e \<Longrightarrow> current_catalog e = Some c \<Longrightarrow> catalog_step c c' \<Longrightarrow> engine_inv (set_catalog e c')"
  by (meson current_catalog_inv catalog_step_inv set_catalog_inv)

lemma ExecuteCreateTable_inv:
  assumes inv: "engine_inv e" and r: "ExecuteCreateTable e ast = Some (Done r, e')" and ids: "\<And>c. current_catalog e = Some c \<Longrightarrow> ids_for (size ast) c"
  shows "engine_inv e'"
proof (cases "eng_current e = []")
  case False
  then obtain c name ch where c: "current_catalog e = Some c" "child_val ast = Some name" "sn_child ast = Some ch"
    using r by (auto simp: ExecuteCreateTable_def split: monad_splits)
  show ?thesis
  proof (cases "sn_next ch")
    case (Some def)
    with False c r obtain schema c' where s: "table_schema (sn_child def) = Some schema" "CreateTable c name schema = Some (Done r, c')"
      "e' = set_catalog e c' \<or> e' = print [line (bytes_of ''Successfully create table'')] (set_catalog e c')"
      by (auto simp: ExecuteCreateTable_def Let_def split: monad_splits)
    have "ids_for (Suc (length schema)) c"
      by (rule ids_for_mono [OF ids [OF c(1)]]) (use table_schema_length [OF s(1)] size_grandchild [OF c(3) Some] in simp)
    from catalog_step_engine [OF inv c(1) create_table [OF s(2) this]] s(3) show ?thesis by auto
  qed (use False c r inv in \<open>simp add: ExecuteCreateTable_def\<close>)
qed (use r inv in \<open>auto simp: ExecuteCreateTable_def\<close>)

lemma ExecuteCreateIndex_inv:
  assumes inv: "engine_inv e" and r: "ExecuteCreateIndex e ast = Some (Done r, e')" and ids: "\<And>c. current_catalog e = Some c \<Longrightarrow> ids_for 1 c"
  shows "engine_inv e'"
proof (cases "current_catalog e")
  case (Some c)
  have "engine_inv e \<Longrightarrow> CreateIndex c t n keys ty = Some (Done r, c') \<Longrightarrow> engine_inv (set_catalog e c')" for t n keys ty r c'
    by (meson catalog_step_engine [OF _ Some] create_index ids [OF Some])
  then show ?thesis using r inv Some by (auto simp: ExecuteCreateIndex_def Let_def split: monad_splits)
qed (use r inv in \<open>auto simp: ExecuteCreateIndex_def split: if_splits\<close>)

lemma ExecuteDropTable_inv: "engine_inv e \<Longrightarrow> ExecuteDropTable e ast = Some (r, e') \<Longrightarrow> engine_inv e'"
  using catalog_step_engine [OF _ _ drop_table]
  by (auto simp: ExecuteDropTable_def Let_def split: monad_splits)

lemma ExecuteDropIndex_inv: "engine_inv e \<Longrightarrow> ExecuteDropIndex e ast = Some (r, e') \<Longrightarrow> engine_inv e'"
  using catalog_step_engine [OF _ _ drop_all_indexes]
  by (auto simp: ExecuteDropIndex_def Let_def split: monad_splits)

lemma index_lines_same: "index_lines w c ts = (r, c') \<Longrightarrow> same_definitions c c'"
  by (induction ts arbitrary: c r c') (auto simp: Let_def split: prod.splits dest!: GetTableIndexes_same intro: same_trans)

lemma same_engine_inv: "engine_inv e \<Longrightarrow> current_catalog e = Some c \<Longrightarrow> same_definitions c c' \<Longrightarrow> engine_inv (set_catalog e c')"
  by (meson current_catalog_inv same_definitions_inv set_catalog_inv)

lemma ExecuteShowIndexes_inv: "engine_inv e \<Longrightarrow> ExecuteShowIndexes e = Some (r, e') \<Longrightarrow> engine_inv e'"
  using same_engine_inv [OF _ _ index_lines_same]
  by (auto simp: ExecuteShowIndexes_def Let_def split: monad_splits)

lemma ExecuteShowTables_inv: "engine_inv e \<Longrightarrow> ExecuteShowTables e = Some (r, e') \<Longrightarrow> engine_inv e'"
  by (auto simp: ExecuteShowTables_def Let_def split: monad_splits)

lemma ExecuteUseDatabase_inv: "engine_inv e \<Longrightarrow> ExecuteUseDatabase e ast = Some (r, e') \<Longrightarrow> engine_inv e'"
  by (auto simp: ExecuteUseDatabase_def engine_inv_def print_def split: monad_splits)

lemma ExecuteDropDatabase_inv: "engine_inv e \<Longrightarrow> ExecuteDropDatabase order e ast = Some (r, e') \<Longrightarrow> engine_inv e'"
  by (auto simp: ExecuteDropDatabase_def engine_inv_def distinct_map_filter AList.delete_eq split: monad_splits)

lemma create_database_returns:
  "\<exists>se fs'. DBStorageEngine_new fs db_name True DEFAULT_BUFFER_POOL_SIZE = Some (Done se, fs') \<and>
    map_of fs' = (map_of fs)(database_path db_name \<mapsto> fs_content (db_io (bpm_disk (cat_bpm (se_catalog se))))) \<and> catalog_inv (se_catalog se)"
  using database_ready [of 0 DEFAULT_BUFFER_POOL_SIZE fs db_name] by (auto simp: DEFAULT_BUFFER_POOL_SIZE_def EXT_LIMIT_def BITMAP_SIZE_val)

lemma ExecuteCreateDatabase_inv:
  assumes "engine_inv e" "ExecuteCreateDatabase e ast = Some (r, e')"
  shows "engine_inv e'"
proof -
  obtain n where n: "child_val ast = Some n" using assms(2) by (auto simp: ExecuteCreateDatabase_def split: monad_splits)
  show ?thesis
  proof (cases "map_of (eng_dbs e) n")
    case None
    obtain se fs' where "DBStorageEngine_new (eng_files e) n True DEFAULT_BUFFER_POOL_SIZE = Some (Done se, fs')" "catalog_inv (se_catalog se)"
      using create_database_returns by blast
    with assms n None show ?thesis by (auto simp: ExecuteCreateDatabase_def engine_inv_def map_of_eq_None_iff)
  qed (use assms n in \<open>auto simp: ExecuteCreateDatabase_def\<close>)
qed

lemma execute_query_runs:
  assumes "execute_query e ast = Some (r, e')" and True: "sn_type ast \<in> {kNodeSelect, kNodeInsert, kNodeDelete, kNodeUpdate}" and c: "current_catalog e = Some c"
  shows "\<exists>c'. same_definitions c c' \<and> eng_dbs e' = eng_dbs (set_catalog e c') \<and> eng_files e' = eng_files (set_catalog e c') \<and> eng_current e' = eng_current e"
proof -
  obtain x c1 where x: "PlanQuery c ast = (x, c1)" by (cases "PlanQuery c ast")
  then have s1: "same_definitions c c1" by (rule PlanQuery_same)
  show ?thesis
  proof (cases x)
    case (Inl a)
    then show ?thesis using assms(1) True c x s1 by (intro exI [of _ c1], cases a) (auto simp: execute_query_def print_def set_catalog_def Let_def)
  next
    case (Inr p)
    then obtain r' rs c2 where p: "ExecutePlan c1 p = Some (r', rs, c2)"
      using assms(1) True c x by (auto simp: execute_query_def bind_eq_Some_conv)
    then have "same_definitions c c2" using s1 ExecutePlan_same same_trans by blast
    moreover have "eng_dbs e' = eng_dbs (set_catalog e c2) \<and> eng_files e' = eng_files (set_catalog e c2) \<and> eng_current e' = eng_current e"
      using assms(1) True c x Inr p by (auto simp: execute_query_def bind_eq_Some_conv print_def set_catalog_def Let_def split: if_splits)
    ultimately show ?thesis by blast
  qed
qed

lemma execute_query_same:
  assumes "execute_query e ast = Some (r, e')"
  shows "eng_current e' = eng_current e \<and>
    (eng_dbs e' = eng_dbs e \<or> (\<exists>c c'. current_catalog e = Some c \<and> same_definitions c c' \<and> eng_dbs e' = eng_dbs (set_catalog e c') \<and> eng_files e' = eng_files (set_catalog e c')))"
proof (cases "sn_type ast \<in> {kNodeSelect, kNodeInsert, kNodeDelete, kNodeUpdate}")
  case False
  then show ?thesis using assms by (auto simp: execute_query_def print_def Let_def)
next
  case True
  then obtain c where c: "current_catalog e = Some c" using assms by (auto simp: execute_query_def bind_eq_Some_conv)
  from execute_query_runs [OF assms True c] c show ?thesis by blast
qed

lemma execute_query_inv: "engine_inv e \<Longrightarrow> execute_query e ast = Some (r, e') \<Longrightarrow> engine_inv e'"
  using execute_query_same [of e ast r e'] same_engine_inv [of e] by (fastforce simp: engine_inv_def)

lemma answered_Returned: "answered x = Some (Returned r, e') \<longleftrightarrow> x = Some (Done r, e')"
  by (cases x) (auto simp: answered_def answer_of_def split: outcome.splits prod.splits)

lemma returned_Returned: "returned x = Some (Returned r, e') \<longleftrightarrow> x = Some (r, e')"
  by (auto simp: returned_def)

lemma Execute_statement_inv:
  assumes inv: "engine_inv e" and r: "Execute_statement order e ast = Some (Returned r, e')" and ids: "\<And>c. current_catalog e = Some c \<Longrightarrow> ids_for (size ast) c"
  shows "engine_inv e'"
proof -
  have "1 \<le> size ast" by (cases ast) simp
  then have one: "\<And>c. current_catalog e = Some c \<Longrightarrow> ids_for 1 c" using ids ids_for_mono by blast
  show ?thesis
    using r inv ExecuteCreateTable_inv [OF inv _ ids] ExecuteCreateIndex_inv [OF inv _ one]
    by (auto simp: Execute_statement_def answered_Returned returned_Returned ExecuteShowDatabases_def Let_def split: monad_splits SyntaxNodeType.splits
        dest: ExecuteDropTable_inv ExecuteDropIndex_inv ExecuteShowIndexes_inv ExecuteShowTables_inv ExecuteUseDatabase_inv ExecuteDropDatabase_inv
          ExecuteCreateDatabase_inv execute_query_inv)
qed

text \<open>A statement that returns; it needs an id for each node of its syntax tree, as the ids of tables and indexes are not reused.\<close>

inductive engine_step :: "((int \<rightharpoonup> int) \<Rightarrow> int list) \<Rightarrow> engine \<Rightarrow> engine \<Rightarrow> bool" for order where
  statement: "Execute_statement order e ast = Some (Returned r, e') \<Longrightarrow> (case current_catalog e of None \<Rightarrow> True | Some c \<Rightarrow> ids_for (size ast) c) \<Longrightarrow>
    engine_step order e e'"

section \<open>Properties\<close>

text \<open>
  C9: whatever statements are executed, one after the other, the maps of the catalogs of all open databases stay in agreement: creation
  and removal of databases, tables and indexes, the listings, and queries with all their scans, insertions, deletions and updates.
\<close>

theorem statements_keep_catalogs:
  assumes "(engine_step order)\<^sup>*\<^sup>* e e'" "engine_inv e"
  shows "distinct (map fst (eng_dbs e')) \<and> list_all (\<lambda>(n, se). catalog_inv (se_catalog se)) (eng_dbs e')"
proof -
  from assms have "engine_inv e'"
  proof (induction rule: rtranclp_induct)
    case (step e1 e2)
    from step(2) show ?case
      by (rule engine_step.cases) (use step.IH [OF step.prems] in \<open>auto intro: Execute_statement_inv split: option.splits\<close>)
  qed
  then show ?thesis by (auto simp: engine_inv_def list_all_iff)
qed

text \<open>Commands on a database \<open>d\<close>.\<close>

definition named :: "SyntaxNodeType \<Rightarrow> string \<Rightarrow> syntax_node" where
  "named ty v = SyntaxNode 1 ty 1 0 (Some (SyntaxNode 0 kNodeIdentifier 1 0 None None (Some v))) None None"

definition empty_engine :: "file_system \<Rightarrow> engine" where
  "empty_engine fs = \<lparr>eng_dbs = [], eng_current = [], eng_files = fs, eng_out = []\<rparr>"

lemma child_val_named [simp]: "child_val (named ty v) = Some (bytes_of v)" "sn_type (named ty v) = ty"
  by (simp_all add: child_val_def named_def)

theorem statements_keep_catalogs_witness:
  "\<exists>e. (engine_step ascending)\<^sup>*\<^sup>* (empty_engine []) e \<and> map fst (eng_dbs e) = [bytes_of ''d''] \<and> list_all (\<lambda>(n, se). catalog_inv (se_catalog se)) (eng_dbs e)"
proof -
  obtain se fs where n: "DBStorageEngine_new [] (bytes_of ''d'') True DEFAULT_BUFFER_POOL_SIZE = Some (Done se, fs)"
    using create_database_returns by blast
  let ?e = "(empty_engine fs)\<lparr>eng_dbs := [(bytes_of ''d'', se)]\<rparr>"
  have "engine_step ascending (empty_engine []) ?e"
    by (rule statement [of _ _ "named kNodeCreateDB ''d''" DB_SUCCESS])
      (simp_all add: Execute_statement_def ensure_def empty_engine_def ExecuteCreateDatabase_def n answered_def answer_of_def current_catalog_def)
  then have steps: "(engine_step ascending)\<^sup>*\<^sup>* (empty_engine []) ?e" by (rule r_into_rtranclp)
  then show ?thesis using statements_keep_catalogs [OF steps] by (auto simp: engine_inv_def empty_engine_def)
qed

text \<open>
  C11: a query (\<^verbatim>\<open>select\<close>, \<^verbatim>\<open>insert\<close>, \<^verbatim>\<open>delete\<close>, \<^verbatim>\<open>update\<close>) that returns changes no definition. The open databases and the current one
  are as before, other databases are untouched, and in the catalog of the current one the metadata, the names and ids of tables and indexes, the
  schemas and the keys of the indexes are the same. The only file that may change is the one of the current database, and it holds what the disk manager has written.
\<close>

theorem query_keeps_definitions:
  assumes "Execute_statement order e ast = Some (Returned r, e')" "sn_type ast \<in> {kNodeSelect, kNodeInsert, kNodeDelete, kNodeUpdate}"
  shows "eng_current e' = eng_current e \<and> map fst (eng_dbs e') = map fst (eng_dbs e) \<and>
    (\<forall>n. n \<noteq> eng_current e \<longrightarrow> map_of (eng_dbs e') n = map_of (eng_dbs e) n) \<and>
    (\<exists>se c'. map_of (eng_dbs e) (eng_current e) = Some se \<and> current_catalog e' = Some c' \<and> same_definitions (se_catalog se) c' \<and>
      (\<forall>path. path \<noteq> se_file_name se \<longrightarrow> map_of (eng_files e') path = map_of (eng_files e) path) \<and>
      map_of (eng_files e') (se_file_name se) = map_option (\<lambda>_. fs_content (db_io (bpm_disk (cat_bpm c')))) (map_of (eng_files e) (se_file_name se)))"
proof -
  have q: "execute_query e ast = Some (r, e')" "current_catalog e \<noteq> None"
    using assms by (auto simp: Execute_statement_def returned_Returned execute_query_def split: monad_splits)
  then obtain se where se: "map_of (eng_dbs e) (eng_current e) = Some se" "current_catalog e = Some (se_catalog se)" by (auto simp: current_catalog_def)
  have other: "n \<noteq> k \<Longrightarrow> map_of (map (\<lambda>(n, se). (n, if n = k then se\<lparr>se_catalog := c\<rparr> else se)) xs) n = map_of xs n" for n k c and xs :: "(byte list \<times> storage_engine) list"
    by (induction xs) auto
  have same: "map_of (map (\<lambda>(n, se). (n, if n = k then se\<lparr>se_catalog := c\<rparr> else se)) xs) k = map_option (\<lambda>se. se\<lparr>se_catalog := c\<rparr>) (map_of xs k)"
    for k c and xs :: "(byte list \<times> storage_engine) list" by (induction xs) auto
  obtain c' where "same_definitions (se_catalog se) c'" "eng_dbs e' = eng_dbs (set_catalog e c')" "eng_files e' = eng_files (set_catalog e c')" "eng_current e' = eng_current e"
    using execute_query_runs [OF q(1) assms(2) se(2)] by blast
  then show ?thesis using se(1) by (auto simp: set_catalog_def current_catalog_def other same fst_set_catalog map_of_write_through)
qed

text \<open>A table without rows: the scan of its first page finds none, and a deletion from it runs its plan to the end.\<close>

lemma empty_begin:
  assumes "pool_ok n (th_bpm h)" "th_first_page_id h \<in> pool_pages (th_bpm h)" "tp_inv (bpm_view (th_bpm h) (th_first_page_id h))" "tp_cnt (bpm_view (th_bpm h) (th_first_page_id h)) = 0"
  shows "\<exists>b. TH_Begin h = Some (TH_End, h\<lparr>th_bpm := b\<rparr>) \<and> pool_ok n b \<and> pool_pages b = pool_pages (th_bpm h) \<and>
    bpm_view b (th_first_page_id h) = bpm_view (th_bpm h) (th_first_page_id h)"
proof -
  let ?p = "th_first_page_id h" and ?b = "th_bpm h"
  obtain f b1 where b1: "BPM_FetchPage ?b ?p = Some (Some f, b1)" "pool_ok n b1" "bpm_table b1 ?p = Some f" "pool_pages b1 = pool_pages ?b"
    "\<And>q. 0 \<le> q \<Longrightarrow> bpm_view b1 q = bpm_view ?b q" by (rule pool_fetch [OF assms(1,2)], rule that, assumption+)
  obtain x b2 where b2: "BPM_UnpinPage b1 ?p False = Some (x, b2)" "pool_ok n b2" "pool_pages b2 = pool_pages b1"
    "\<And>q. 0 \<le> q \<Longrightarrow> bpm_view b2 q = bpm_view b1 q" by (rule pool_unpin [OF b1(2)], rule that, assumption+)
  note R = pool_read [OF b1(2,3)]
  have "GetFirstTupleRid (bpm_view ?b ?p) = Some (False, \<lparr>rid_page = INVALID_PAGE_ID, rid_slot = 0\<rparr>)"
    using tp_invD(1) [OF assms(3)] assms(4) by (simp add: GetFirstTupleRid_def tp_getters)
  then have "TH_Begin h = Some (TH_End, h\<lparr>th_bpm := b2\<rparr>)"
    using b1(1,5) b2(1) R by (simp add: TH_Begin_def heap_fetch_def heap_unpin_def frame_data_def frame_id_of_def)
  then show ?thesis using b1 b2 R(6) by auto
qed

lemma delete_from_empty:
  assumes "pool_ok n b" "1 \<in> pool_pages b" "tp_inv (bpm_view b 1)" "tp_cnt (bpm_view b 1) = 0"
  shows "\<exists>c. ExecutePlan (t_catalog\<lparr>cat_bpm := b\<rparr>) (DeletePlan (Some ab_schema) (SeqScanPlan (Some ab_schema) (bytes_of ''t'') None) (bytes_of ''t'')) = Some (DB_SUCCESS, [], c)"
proof -
  let ?c = "t_catalog\<lparr>cat_bpm := b\<rparr>" and ?h = "\<lambda>b. \<lparr>th_bpm = b, th_first_page_id = 1, th_schema = ab_schema, th_fsm = None\<rparr>"
  obtain b1 where b1: "TH_Begin (?h b) = Some (TH_End, ?h b1)" "pool_ok n b1" "pool_pages b1 = pool_pages b" "bpm_view b1 1 = bpm_view b 1"
    using empty_begin [of n "?h b"] assms by auto
  obtain b2 where b2: "TH_Begin (?h b1) = Some (TH_End, ?h b2)" using empty_begin [of n "?h b1"] b1 assms by auto
  have end_it: "TableIterator_delete h TH_End = Some h" "ti_assign it TH_End = TH_End" "\<not> ti_neq TH_End TH_End" for h it
    by (simp_all add: TableIterator_delete_def ti_assign_def ti_neq_def ti_eq_def TH_End_def Let_def)
  have "\<exists>e c. Executor_Init ?c (DeleteExecutor \<lparr>me_child = SeqScan_new (Some ab_schema) (bytes_of ''t'') None, me_table_name = bytes_of ''t'', me_update_attrs = [],
      me_table = None, me_indexes = []\<rparr>) = Some (DeleteExecutor e, c) \<and> ss_iterator (me_child e) = TH_End"
    by (simp add: Modify_Init_def SeqScan_Init_def SeqScan_new_def with_heap_def table_id_of_def schema_of_id_def CM_GetTable_def t_catalog_def ab_catalog_def
        TableInfo_Init_def TableMetadata_Create_def b1 b2 end_it Let_def GetTableIndexes_def case_prod_beta)
  then obtain e c where e: "Executor_Init ?c (DeleteExecutor \<lparr>me_child = SeqScan_new (Some ab_schema) (bytes_of ''t'') None, me_table_name = bytes_of ''t'', me_update_attrs = [],
      me_table = None, me_indexes = []\<rparr>) = Some (DeleteExecutor e, c)" "ss_iterator (me_child e) = TH_End" by blast
  have "SeqScan_Next c (me_child e) = Some (Done None, me_child e, c)" using e(2) end_it by (subst SeqScan_Next.simps) simp
  then have "plan_loop c (DeleteExecutor e) row rs = Some (Done rs, c)" for row rs
    by (subst plan_loop.simps) (simp add: Delete_Next_def Let_def)
  with e(1) show ?thesis by (simp add: ExecutePlan_def)
qed

text \<open>The database \<open>d\<close> with an empty page as the first page of its table \<open>t\<close>.\<close>

definition d_pool_engine :: "bpm \<Rightarrow> engine" where
  "d_pool_engine b = \<lparr>eng_dbs = [(bytes_of ''d'', \<lparr>se_file_name = database_path (bytes_of ''d''), se_init = True, se_catalog = t_catalog\<lparr>cat_bpm := b\<rparr>\<rparr>)],
     eng_current = bytes_of ''d'', eng_files = [(database_path (bytes_of ''d''), []), ([], [1])], eng_out = []\<rparr>"

theorem query_keeps_definitions_witness:
  "\<exists>b c' r e'. tp_cnt (bpm_view b 1) = 0 \<and> ExecutePlan (t_catalog\<lparr>cat_bpm := b\<rparr>) (DeletePlan (Some ab_schema) (SeqScanPlan (Some ab_schema) (bytes_of ''t'') None) (bytes_of ''t'')) = Some (DB_SUCCESS, [], c') \<and>
    Execute_statement ascending (d_pool_engine b) (named kNodeDelete ''t'') = Some (Returned r, e') \<and> same_definitions t_catalog c' \<and> map_of (eng_files e') [] = Some [1]"
proof -
  obtain b0 where b0: "pool_ok 0 b0" "pool_pages b0 = {CATALOG_META_PAGE_ID, INDEX_ROOTS_PAGE_ID}"
    by (rule static_pages_ok [of 0 2]) (simp_all add: EXT_LIMIT_def BITMAP_SIZE_val)
  have page: "length sample_page = PAGE_SIZE" "tp_inv sample_page" "tp_cnt sample_page = 0"
    using tp_invD(1) [OF tp_repD(1) [OF sample_page(2)]] tp_repD(1) [OF sample_page(2)] sample_page(4) by simp_all
  obtain b where b: "pool_ok 0 b" "pool_pages b = pool_pages b0" "bpm_view b 1 = sample_page"
    by (rule pool.modify [OF b0(1), of 1 "\<lambda>_. Some sample_page" sample_page False])
      (use b0(2) page(1) that in \<open>auto simp: INDEX_ROOTS_PAGE_ID_def\<close>)
  let ?c = "t_catalog\<lparr>cat_bpm := b\<rparr>" and ?p = "DeletePlan (Some ab_schema) (SeqScanPlan (Some ab_schema) (bytes_of ''t'') None) (bytes_of ''t'')"
  obtain c' where run: "ExecutePlan ?c ?p = Some (DB_SUCCESS, [], c')"
    using delete_from_empty [OF b(1)] b0(2) b(2,3) page by (auto simp: INDEX_ROOTS_PAGE_ID_def)
  have plan: "PlanQuery ?c (named kNodeDelete ''t'') = (Inr ?p, ?c)"
    by (simp add: PlanQuery_def)
      (simp add: PlanDelete_def schema_of_def named_def table_named_def CM_GetTable_def t_catalog_def ab_catalog_def andthen_def bytes_of_def TableInfo_Init_def TableMetadata_Create_def)
  have "\<exists>e'. Execute_statement ascending (d_pool_engine b) (named kNodeDelete ''t'') = Some (Returned DB_SUCCESS, e') \<and> current_catalog e' = Some c'"
    using plan run by (simp add: Execute_statement_def ensure_def execute_query_def returned_def current_catalog_def d_pool_engine_def Let_def print_def set_catalog_def is_scan_def)
  then obtain e' where e': "Execute_statement ascending (d_pool_engine b) (named kNodeDelete ''t'') = Some (Returned DB_SUCCESS, e')" "current_catalog e' = Some c'" by blast
  have "database_path (bytes_of ''d'') \<noteq> []" by (simp add: database_path_def)
  with query_keeps_definitions [OF e'(1)] e' run b(3) page(3) show ?thesis
    by (intro exI [of _ b] exI [of _ c'] exI [of _ DB_SUCCESS] exI [of _ e']) (auto simp: d_pool_engine_def same_definitions_def index_map_def)
qed

lemma database_path_neq: "database_path n \<noteq> n"
proof
  assume "database_path n = n"
  then have "length (database_path n) = length n" by simp
  then show False by (simp add: database_path_def)
qed

text \<open>
  \<^verbatim>\<open>create database\<close> and \<^verbatim>\<open>use\<close>. For a name that is not open both succeed, whatever the files hold: the new database is current, has no
  table, satisfies the invariant of the catalog, and 20000 pages can be created in it; its file holds what its disk manager has written; the other databases and files are
  as before. A second \<^verbatim>\<open>create database\<close> of that name reports that it exists and changes nothing.
\<close>

theorem create_and_use_database:
  assumes "eng_current e = [] \<or> current_catalog e \<noteq> None" "map_of (eng_dbs e) n = None"
    "sn_type ast = kNodeCreateDB" "child_val ast = Some n" "sn_type ast' = kNodeUseDB" "child_val ast' = Some n"
  shows "\<exists>e1 e2 c. Execute_statement order e ast = Some (Returned DB_SUCCESS, e1) \<and> Execute_statement order e1 ast = Some (Returned DB_ALREADY_EXIST, e1) \<and>
    Execute_statement order e1 ast' = Some (Returned DB_SUCCESS, e2) \<and> eng_current e2 = n \<and> current_catalog e2 = Some c \<and>
    catalog_inv c \<and> GetTables c = (DB_SUCCESS, []) \<and> pool_ok 20000 (cat_bpm c) \<and>
    map_of (eng_files e2) = (map_of (eng_files e))(database_path n \<mapsto> fs_content (db_io (bpm_disk (cat_bpm c)))) \<and> (\<forall>m. m \<noteq> n \<longrightarrow> map_of (eng_dbs e2) m = map_of (eng_dbs e) m)"
proof -
  obtain se fs where se: "DBStorageEngine_new (eng_files e) n True DEFAULT_BUFFER_POOL_SIZE = Some (Done se, fs)"
    "map_of fs = (map_of (eng_files e))(database_path n \<mapsto> fs_content (db_io (bpm_disk (cat_bpm (se_catalog se)))))" "catalog_inv (se_catalog se)" "pool_ok 20000 (cat_bpm (se_catalog se))"
    using database_ready [of 20000 DEFAULT_BUFFER_POOL_SIZE "eng_files e" n] by (auto simp: DEFAULT_BUFFER_POOL_SIZE_def EXT_LIMIT_def BITMAP_SIZE_val)
  have t: "GetTables (se_catalog se) = (DB_SUCCESS, [])" using new_database_state(3) [OF se(1)] by (simp add: GetTables_def)
  let ?e1 = "e\<lparr>eng_files := fs, eng_dbs := eng_dbs e @ [(n, se)]\<rparr>"
  have cur: "eng_current ?e1 = [] \<or> current_catalog ?e1 \<noteq> None" using assms(1) by (auto simp: current_catalog_def)
  have n1: "map_of (eng_dbs ?e1) n = Some se" "\<And>m. m \<noteq> n \<Longrightarrow> map_of (eng_dbs ?e1) m = map_of (eng_dbs e) m"
    using assms(2) by (auto simp: map_add_def split: option.splits)
  have "Execute_statement order e ast = Some (Returned DB_SUCCESS, ?e1)"
    using assms se(1) by (simp add: Execute_statement_def ensure_def ExecuteCreateDatabase_def answered_def answer_of_def)
  moreover have "Execute_statement order ?e1 ast = Some (Returned DB_ALREADY_EXIST, ?e1)"
    using assms(3,4) cur n1(1) by (simp add: Execute_statement_def ensure_def ExecuteCreateDatabase_def answered_def answer_of_def)
  moreover have "Execute_statement order ?e1 ast' = Some (Returned DB_SUCCESS, print [line (bytes_of ''Database changed'')] (?e1\<lparr>eng_current := n\<rparr>))"
    using assms(5,6) cur n1(1) by (simp add: Execute_statement_def ensure_def ExecuteUseDatabase_def returned_def)
  ultimately show ?thesis using se t n1
    by (intro exI [of _ ?e1] exI [of _ "print [line (bytes_of ''Database changed'')] (?e1\<lparr>eng_current := n\<rparr>)"] exI [of _ "se_catalog se"])
      (simp add: print_def current_catalog_def)
qed

theorem create_and_use_database_witness:
  "\<exists>e1 e2. Execute_statement ascending (empty_engine []) (named kNodeCreateDB ''d'') = Some (Returned DB_SUCCESS, e1) \<and>
    Execute_statement ascending e1 (named kNodeUseDB ''d'') = Some (Returned DB_SUCCESS, e2) \<and> eng_current e2 = bytes_of ''d''"
  using create_and_use_database [of "empty_engine []" "bytes_of ''d''" "named kNodeCreateDB ''d''" "named kNodeUseDB ''d''" ascending]
  by (auto simp: empty_engine_def)

text \<open>
  C38: \<^verbatim>\<open>drop database\<close> of the current database, when it returns: the database is closed, but its file in \<^verbatim>\<open>./databases\<close> is not removed, so the next
  start of the program opens it again; and the engine keeps the name as the current database, so that the next statement, whatever it is,
  dereferences a null pointer.
\<close>

theorem drop_current_database:
  assumes "Execute_statement order e ast = Some (a, e')" "sn_type ast = kNodeDropDB" "child_val ast = Some (eng_current e)" "eng_current e \<noteq> []"
    "map_of (eng_files e) (database_path (eng_current e)) \<noteq> None"
  shows "a = Returned DB_SUCCESS \<and> map_of (eng_dbs e') (eng_current e) = None \<and> map_of (eng_files e') (database_path (eng_current e)) \<noteq> None \<and>
    Execute usable order e' (Some ast') = None"
proof -
  let ?n = "eng_current e"
  obtain se fs where s: "map_of (eng_dbs e) ?n = Some se" "DBStorageEngine_delete order (AList.delete ?n (eng_files e)) se = Some fs"
    "e' = e\<lparr>eng_files := fs, eng_dbs := AList.delete ?n (eng_dbs e)\<rparr>" "a = Returned DB_SUCCESS"
  proof -
    have c: "current_catalog e \<noteq> None" "answered (ExecuteDropDatabase order e ast) = Some (a, e')"
      using assms(1,2,4) by (simp_all add: Execute_statement_def bind_eq_Some_conv ensure_def split: if_splits)
    then obtain se where "map_of (eng_dbs e) ?n = Some se" by (auto simp: current_catalog_def)
    with c(2) assms(3) that show thesis by (auto simp: ExecuteDropDatabase_def answered_def answer_of_def bind_eq_Some_conv)
  qed
  have "map_of fs (database_path ?n) \<noteq> None"
    using s(2) assms(5) database_path_neq [of ?n]
    by (auto simp: DBStorageEngine_delete_def bind_eq_Some_conv map_of_write_through delete_conv' split: if_splits)
  moreover have "current_catalog e' = None" "eng_current e' = ?n" using s(3) by (simp_all add: current_catalog_def delete_conv')
  ultimately show ?thesis using s assms(4) by (simp add: Execute_def Execute_statement_def ensure_def delete_conv')
qed

theorem drop_current_database_witness:
  "\<exists>e e'. eng_current e = bytes_of ''d'' \<and> Execute_statement ascending e (named kNodeDropDB ''d'') = Some (Returned DB_SUCCESS, e') \<and>
    map_of (eng_files e') (database_path (bytes_of ''d'')) \<noteq> None \<and> Execute id ascending e' (Some (named kNodeShowDB ''d'')) = None"
proof -
  let ?d = "bytes_of ''d''"
  obtain se fs where se: "DBStorageEngine_new [] ?d True DEFAULT_BUFFER_POOL_SIZE = Some (Done se, fs)"
    "map_of fs (database_path ?d) \<noteq> None" "pool_ok 0 (cat_bpm (se_catalog se))" "pool_pages (cat_bpm (se_catalog se)) = {CATALOG_META_PAGE_ID, INDEX_ROOTS_PAGE_ID}"
    using database_ready [of 0 DEFAULT_BUFFER_POOL_SIZE "[]" ?d] by (auto simp: DEFAULT_BUFFER_POOL_SIZE_def EXT_LIMIT_def BITMAP_SIZE_val)
  note S = new_database_state [OF se(1)]
  let ?e = "\<lparr>eng_dbs = [(?d, se)], eng_current = ?d, eng_files = fs, eng_out = []\<rparr>"
  have "map_of (AList.delete ?d fs) (se_file_name se) \<noteq> None" using se(2) S(4) database_path_neq [of ?d] by (simp add: delete_conv')
  then obtain fs' where "DBStorageEngine_delete ascending (AList.delete ?d fs) se = Some fs'"
    using close_and_open [OF se(3) _ _ S(1) _ visits_ascending, of "AList.delete ?d fs" 0] se(4) S(2) new_meta_ok by auto
  then have "\<exists>e'. Execute_statement ascending ?e (named kNodeDropDB ''d'') = Some (Returned DB_SUCCESS, e')"
    by (simp add: Execute_statement_def ExecuteDropDatabase_def current_catalog_def answered_def answer_of_def)
  then obtain e' where e': "Execute_statement ascending ?e (named kNodeDropDB ''d'') = Some (Returned DB_SUCCESS, e')" by blast
  from drop_current_database [OF e', of id "named kNodeShowDB ''d''"] e' se(2) show ?thesis
    by (intro exI [of _ ?e] exI [of _ e']) (simp add: bytes_of_def)
qed

end
