(* ===== verification/Parser_Tables.thy ===== *)
theory Parser_Tables
  imports Sql_Parser
begin

text \<open>
  What the tables of the parser guarantee, by a certificate: for every state the states that can lie below it on the stack, as far down as the reductions of the
  state reach, and a weight that every reduction decreases. The checks are evaluated over the tables.
\<close>

section \<open>The certificate\<close>

definition yy_past :: "nat list list list" where
  "yy_past = [[], [[0]], [[0]], [[0]], [[0]], [[0]], [[0]], [[0]], [[0]], [[0]], [[0]], [[0]], [[0]], [[0]], [], [[0]], [[0]], [[0]], [[0]], [[0]], [[0]],
     [[0]], [[0]], [[0]], [[0]], [[0]], [[0]], [[0]], [[0]], [[0]], [[0]], [[0]], [[0]], [[0]], [[0]], [[1], [0]], [[1], [0]], [[1], [0]],
     [[2], [0]], [[2], [0]], [[2], [0]], [[3, 61, 95, 117]], [[3]], [[3]], [[3], [0]], [[4], [0]], [[5], [0]], [[6], [0]], [[11], [0]], [[12], [0]],
     [[12], [0]], [[12], [0]], [[13], [0]], [], [[15], [0]], [[35], [1], [0]], [[36], [1], [0]], [[37], [1], [0]], [[38], [2], [0]],
     [[39], [2], [0]], [[40], [2], [0]], [[41], [3, 61, 95, 117]], [[44], [3], [0]], [[45], [4], [0]], [[46], [5], [0]], [[47], [6], [0]],
     [[56], [36], [1], [0]], [[57], [37], [1], [0]], [[61], [41], [3, 61, 95, 117]], [[62], [44], [3], [0]], [[63], [45], [4], [0]],
     [[64], [46], [5], [0]], [[65, 87]], [[65], [47], [6], [0]], [[65, 87]], [[66, 94]], [[66, 94]], [[66], [56], [36], [1], [0]], [[66, 94]],
     [[67], [57], [37], [1], [0]], [[69], [62], [44], [3], [0]], [[70], [63], [45], [4], [0]], [[71, 80, 86, 113]], [[71], [64], [46], [5], [0]],
     [[71, 80, 86]], [[72], [65, 87]], [[73], [65], [47], [6], [0]], [[74], [65, 87]], [[75], [66, 94]], [[76]], [[76]], [[76]], [[76], [66, 94]],
     [[77], [66], [56], [36], [1], [0]], [[78], [66, 94]], [[79], [67], [57], [37], [1], [0]], [[80], [69], [62], [44], [3], [0]],
     [[81, 85, 110, 122]], [[81, 85, 110, 122]], [[81, 85, 110, 122]], [[81, 122]], [[81], [70], [63], [45], [4], [0]], [[82]], [[82]], [[82]],
     [[82]], [[82]], [[82]], [[82]], [[82]], [[82], [71, 80, 86, 113]], [[83, 96, 115]], [[83, 96, 115]], [[83, 96, 115], [71, 80, 86]],
     [[85], [72], [65, 87]], [[86], [73], [65], [47], [6], [0]], [[87], [74], [65, 87]], [[88], [75], [66, 94]], [[89], [76]],
     [[92], [76], [66, 94]], [[94], [78], [66, 94]], [[95], [79], [67], [57], [37], [1], [0]], [[100], [81, 122]],
     [[101], [81], [70], [63], [45], [4], [0]], [[110], [82], [71, 80, 86, 113]], [[113], [83, 96, 115], [71, 80, 86]],
     [[117], [88], [75], [66, 94]], [[118], [89], [76]], [[121], [95], [79], [67], [57], [37], [1], [0]], [[122], [100], [81, 122]],
     [[126], [117], [88], [75], [66, 94]], [[127], [118], [89], [76]], [[128], [121], [95], [79], [67], [57], [37], [1], [0]],
     [[132], [128], [121], [95], [79], [67], [57], [37], [1], [0]]]"

definition yy_weight :: "nat list" where
  "yy_weight = [1, 1, 1, 1, 1, 1, 1, 3, 3, 3, 3, 1, 1, 1, 1, 1, 2, 2, 2, 2, 2, 2, 2, 2, 2, 2, 2, 2, 2, 2, 2, 2, 2, 2, 2, 1, 1, 1, 1, 1, 1, 3, 2, 2, 1, 1, 1, 1,
     2, 2, 2, 2, 2, 1, 1, 1, 1, 1, 1, 1, 1, 1, 1, 1, 1, 1, 1, 1, 1, 1, 1, 1, 1, 1, 2, 1, 1, 1, 2, 1, 1, 1, 1, 1, 2, 1, 1, 1, 1, 1, 3, 3, 2, 1, 1, 1,
     1, 3, 3, 3, 2, 1, 2, 2, 2, 2, 2, 2, 2, 2, 1, 2, 2, 1, 1, 1, 1, 1, 1, 1, 1, 1, 1, 1, 1, 1, 1, 1, 1, 1, 1, 1, 1, 1]"

text \<open>The symbol a state is entered by.\<close>

definition yystos :: "nat list" where
  "yystos = [0, 3, 4, 5, 6, 7, 8, 9, 10, 11, 12, 13, 14, 15, 55, 56, 57, 58, 59, 60, 61, 62, 67, 68, 69, 70, 71, 78, 80, 81, 84, 85, 86, 87, 88, 17, 19, 21,
     17, 19, 21, 40, 51, 63, 72, 26, 24, 40, 41, 18, 20, 22, 40, 0, 47, 40, 40, 40, 40, 40, 40, 50, 24, 40, 40, 27, 48, 23, 63, 40, 28, 25, 40, 82,
     83, 29, 40, 64, 65, 40, 25, 48, 40, 73, 75, 43, 25, 50, 30, 32, 33, 34, 66, 49, 50, 48, 73, 39, 41, 42, 76, 79, 37, 38, 43, 44, 45, 46, 52, 53,
     77, 35, 36, 74, 76, 73, 82, 48, 48, 31, 64, 63, 50, 49, 76, 75, 63, 42, 49, 79, 49, 49, 16, 40]"

definition valued :: "nat \<Rightarrow> bool" where
  "valued q = (yystos ! q \<in> {40, 41, 42} \<or> 54 \<le> yystos ! q)"

fun within :: "nat list list \<Rightarrow> nat list list \<Rightarrow> bool" where
  "within [] ts = True"
| "within (s # ss) [] = False"
| "within (s # ss) (t # ts) = (set t \<subseteq> set s \<and> within ss ts)"

definition good_move :: "nat \<Rightarrow> nat \<Rightarrow> bool" where
  "good_move p q = (q < 134 \<and> q \<noteq> YYFINAL \<and> within (yy_past ! q) ([p] # yy_past ! p))"

text \<open>The entries of the tables a state can use, with their tokens.\<close>

definition yywindow :: "int \<Rightarrow> (nat \<times> int \<times> nat) list" where
  "yywindow n = zip [nat (- n)..<54] (zip (drop (nat n) yycheck) (drop (nat n) yytable))"

definition good_shift :: "nat \<Rightarrow> nat \<Rightarrow> nat \<Rightarrow> bool" where
  "good_shift q t p =
     (if p = 0 then True else if p = YYFINAL then q = 14
      else good_move q p \<and> t \<noteq> 0 \<and> p \<noteq> 14 \<and> yystos ! p = t)"

definition good_shifts :: "nat \<Rightarrow> int \<Rightarrow> bool" where
  "good_shifts q n = (n = YYPACT_NINF \<or> list_all (\<lambda>(t, c, p). if c = int t then good_shift q t p else True) (yywindow n))"

definition uses :: "nat \<Rightarrow> nat option" where
  "uses r = (if 2 \<le> r \<and> r \<le> 21 \<or> r \<in> set [28, 29, 30, 31, 48, 52, 53, 64, 65, 70, 71] then Some 1
     else if r = 47 \<or> r = 51 then Some 2 else None)"

definition good_goto :: "nat \<Rightarrow> nat \<Rightarrow> nat \<Rightarrow> bool" where
  "good_goto q r p =
     (case yygoto p (yyr1 ! r) of None \<Rightarrow> False
      | Some g \<Rightarrow> good_move p g \<and> yy_weight ! g + 1 < yy_weight ! q + yyr2 ! r \<and> 54 \<le> yystos ! g \<and> (g = 14 \<longrightarrow> r = 2))"

definition good_reduce :: "nat \<Rightarrow> nat \<Rightarrow> bool" where
  "good_reduce q r =
     (q = YYFINAL \<or> r = 0 \<or> r < 78 \<and> 2 \<le> r \<and> 0 < yyr2 ! r \<and> yyr2 ! r \<le> length (yy_past ! q) \<and>
      (case uses r of None \<Rightarrow> True | Some i \<Rightarrow> list_all valued (([q] # yy_past ! q) ! (yyr2 ! r - i))) \<and>
      list_all (good_goto q r) (yy_past ! q ! (yyr2 ! r - 1)))"

section \<open>Its checks\<close>

definition yy_states :: "nat list" where
  "yy_states = [0, 1, 2, 3, 4, 5, 6, 7, 8, 9, 10, 11, 12, 13, 14, 15, 16, 17, 18, 19, 20, 21, 22, 23, 24, 25, 26, 27, 28, 29, 30, 31, 32, 33, 34, 35, 36, 37,
     38, 39, 40, 41, 42, 43, 44, 45, 46, 47, 48, 49, 50, 51, 52, 53, 54, 55, 56, 57, 58, 59, 60, 61, 62, 63, 64, 65, 66, 67, 68, 69, 70, 71, 72, 73,
     74, 75, 76, 77, 78, 79, 80, 81, 82, 83, 84, 85, 86, 87, 88, 89, 90, 91, 92, 93, 94, 95, 96, 97, 98, 99, 100, 101, 102, 103, 104, 105, 106, 107,
     108, 109, 110, 111, 112, 113, 114, 115, 116, 117, 118, 119, 120, 121, 122, 123, 124, 125, 126, 127, 128, 129, 130, 131, 132, 133]"

lemma yy_states_upt: "yy_states = [0..<134]"
  by code_simp

lemma parser_table_lengths:
  "length yytranslate = 302" "length yyr1 = 78" "length yyr2 = 78" "length yydefact = 134" "length yypact = 134" "length yycheck = 107" "length yytable = 107"
  "length yy_weight = 134"
  by (simp_all add: yytranslate_def yyr1_def yyr2_def yydefact_def yypact_def yycheck_def yytable_def yy_weight_def)

lemma past_nth:
  "yy_past ! 0 = []" "yy_past ! 2 = [[0]]" "yy_past ! 3 = [[0]]" "yy_past ! 4 = [[0]]" "yy_past ! 5 = [[0]]" "yy_past ! 6 = [[0]]"
     "yy_past ! 7 = [[0]]" "yy_past ! 8 = [[0]]" "yy_past ! 9 = [[0]]" "yy_past ! 10 = [[0]]" "yy_past ! 11 = [[0]]" "yy_past ! 12 = [[0]]"
     "yy_past ! 13 = [[0]]" "yy_past ! 14 = []" "yy_past ! 15 = [[0]]" "yy_past ! 16 = [[0]]" "yy_past ! 17 = [[0]]" "yy_past ! 18 = [[0]]"
     "yy_past ! 19 = [[0]]" "yy_past ! 20 = [[0]]" "yy_past ! 21 = [[0]]" "yy_past ! 22 = [[0]]" "yy_past ! 23 = [[0]]" "yy_past ! 24 = [[0]]"
     "yy_past ! 25 = [[0]]" "yy_past ! 26 = [[0]]" "yy_past ! 27 = [[0]]" "yy_past ! 28 = [[0]]" "yy_past ! 29 = [[0]]" "yy_past ! 30 = [[0]]"
     "yy_past ! 31 = [[0]]" "yy_past ! 32 = [[0]]" "yy_past ! 33 = [[0]]" "yy_past ! 34 = [[0]]" "yy_past ! 35 = [[1], [0]]"
     "yy_past ! 36 = [[1], [0]]" "yy_past ! 37 = [[1], [0]]" "yy_past ! 38 = [[2], [0]]" "yy_past ! 39 = [[2], [0]]" "yy_past ! 40 = [[2], [0]]"
     "yy_past ! 41 = [[3, 61, 95, 117]]" "yy_past ! 42 = [[3]]" "yy_past ! 43 = [[3]]" "yy_past ! 44 = [[3], [0]]" "yy_past ! 45 = [[4], [0]]"
     "yy_past ! 46 = [[5], [0]]" "yy_past ! 47 = [[6], [0]]" "yy_past ! 48 = [[11], [0]]" "yy_past ! 49 = [[12], [0]]"
     "yy_past ! 50 = [[12], [0]]" "yy_past ! 51 = [[12], [0]]" "yy_past ! 52 = [[13], [0]]" "yy_past ! 53 = []" "yy_past ! 54 = [[15], [0]]"
     "yy_past ! 55 = [[35], [1], [0]]" "yy_past ! 56 = [[36], [1], [0]]" "yy_past ! 57 = [[37], [1], [0]]" "yy_past ! 58 = [[38], [2], [0]]"
     "yy_past ! 59 = [[39], [2], [0]]" "yy_past ! 60 = [[40], [2], [0]]" "yy_past ! 61 = [[41], [3, 61, 95, 117]]"
     "yy_past ! 62 = [[44], [3], [0]]" "yy_past ! 63 = [[45], [4], [0]]" "yy_past ! 64 = [[46], [5], [0]]" "yy_past ! 65 = [[47], [6], [0]]"
     "yy_past ! 66 = [[56], [36], [1], [0]]" "yy_past ! 67 = [[57], [37], [1], [0]]" "yy_past ! 68 = [[61], [41], [3, 61, 95, 117]]"
     "yy_past ! 69 = [[62], [44], [3], [0]]" "yy_past ! 70 = [[63], [45], [4], [0]]" "yy_past ! 71 = [[64], [46], [5], [0]]"
     "yy_past ! 72 = [[65, 87]]" "yy_past ! 73 = [[65], [47], [6], [0]]" "yy_past ! 74 = [[65, 87]]" "yy_past ! 75 = [[66, 94]]"
     "yy_past ! 76 = [[66, 94]]" "yy_past ! 77 = [[66], [56], [36], [1], [0]]" "yy_past ! 78 = [[66, 94]]"
     "yy_past ! 79 = [[67], [57], [37], [1], [0]]" "yy_past ! 80 = [[69], [62], [44], [3], [0]]" "yy_past ! 81 = [[70], [63], [45], [4], [0]]"
     "yy_past ! 82 = [[71, 80, 86, 113]]" "yy_past ! 83 = [[71], [64], [46], [5], [0]]" "yy_past ! 84 = [[71, 80, 86]]"
     "yy_past ! 85 = [[72], [65, 87]]" "yy_past ! 86 = [[73], [65], [47], [6], [0]]" "yy_past ! 87 = [[74], [65, 87]]"
     "yy_past ! 88 = [[75], [66, 94]]" "yy_past ! 89 = [[76]]" "yy_past ! 90 = [[76]]" "yy_past ! 91 = [[76]]" "yy_past ! 92 = [[76], [66, 94]]"
     "yy_past ! 93 = [[77], [66], [56], [36], [1], [0]]" "yy_past ! 94 = [[78], [66, 94]]" "yy_past ! 95 = [[79], [67], [57], [37], [1], [0]]"
     "yy_past ! 96 = [[80], [69], [62], [44], [3], [0]]" "yy_past ! 97 = [[81, 85, 110, 122]]" "yy_past ! 98 = [[81, 85, 110, 122]]"
     "yy_past ! 99 = [[81, 85, 110, 122]]" "yy_past ! 100 = [[81, 122]]" "yy_past ! 101 = [[81], [70], [63], [45], [4], [0]]"
     "yy_past ! 102 = [[82]]" "yy_past ! 103 = [[82]]" "yy_past ! 104 = [[82]]" "yy_past ! 105 = [[82]]" "yy_past ! 106 = [[82]]"
     "yy_past ! 107 = [[82]]" "yy_past ! 108 = [[82]]" "yy_past ! 109 = [[82]]" "yy_past ! 110 = [[82], [71, 80, 86, 113]]"
     "yy_past ! 111 = [[83, 96, 115]]" "yy_past ! 112 = [[83, 96, 115]]" "yy_past ! 113 = [[83, 96, 115], [71, 80, 86]]"
     "yy_past ! 114 = [[85], [72], [65, 87]]" "yy_past ! 115 = [[86], [73], [65], [47], [6], [0]]" "yy_past ! 116 = [[87], [74], [65, 87]]"
     "yy_past ! 117 = [[88], [75], [66, 94]]" "yy_past ! 118 = [[89], [76]]" "yy_past ! 119 = [[92], [76], [66, 94]]"
     "yy_past ! 120 = [[94], [78], [66, 94]]" "yy_past ! 121 = [[95], [79], [67], [57], [37], [1], [0]]" "yy_past ! 122 = [[100], [81, 122]]"
     "yy_past ! 123 = [[101], [81], [70], [63], [45], [4], [0]]" "yy_past ! 124 = [[110], [82], [71, 80, 86, 113]]"
     "yy_past ! 125 = [[113], [83, 96, 115], [71, 80, 86]]" "yy_past ! 126 = [[117], [88], [75], [66, 94]]" "yy_past ! 127 = [[118], [89], [76]]"
     "yy_past ! 128 = [[121], [95], [79], [67], [57], [37], [1], [0]]" "yy_past ! 129 = [[122], [100], [81, 122]]"
     "yy_past ! 130 = [[126], [117], [88], [75], [66, 94]]" "yy_past ! 131 = [[127], [118], [89], [76]]"
     "yy_past ! 132 = [[128], [121], [95], [79], [67], [57], [37], [1], [0]]"
     "yy_past ! 133 = [[132], [128], [121], [95], [79], [67], [57], [37], [1], [0]]" "yy_past ! Suc 0 = [[0]]"
  by (simp_all add: yy_past_def)

lemma stos_nth:
  "yystos ! 0 = 0" "yystos ! 2 = 4" "yystos ! 3 = 5" "yystos ! 4 = 6" "yystos ! 5 = 7" "yystos ! 6 = 8" "yystos ! 7 = 9" "yystos ! 8 = 10"
     "yystos ! 9 = 11" "yystos ! 10 = 12" "yystos ! 11 = 13" "yystos ! 12 = 14" "yystos ! 13 = 15" "yystos ! 14 = 55" "yystos ! 15 = 56"
     "yystos ! 16 = 57" "yystos ! 17 = 58" "yystos ! 18 = 59" "yystos ! 19 = 60" "yystos ! 20 = 61" "yystos ! 21 = 62" "yystos ! 22 = 67"
     "yystos ! 23 = 68" "yystos ! 24 = 69" "yystos ! 25 = 70" "yystos ! 26 = 71" "yystos ! 27 = 78" "yystos ! 28 = 80" "yystos ! 29 = 81"
     "yystos ! 30 = 84" "yystos ! 31 = 85" "yystos ! 32 = 86" "yystos ! 33 = 87" "yystos ! 34 = 88" "yystos ! 35 = 17" "yystos ! 36 = 19"
     "yystos ! 37 = 21" "yystos ! 38 = 17" "yystos ! 39 = 19" "yystos ! 40 = 21" "yystos ! 41 = 40" "yystos ! 42 = 51" "yystos ! 43 = 63"
     "yystos ! 44 = 72" "yystos ! 45 = 26" "yystos ! 46 = 24" "yystos ! 47 = 40" "yystos ! 48 = 41" "yystos ! 49 = 18" "yystos ! 50 = 20"
     "yystos ! 51 = 22" "yystos ! 52 = 40" "yystos ! 53 = 0" "yystos ! 54 = 47" "yystos ! 55 = 40" "yystos ! 56 = 40" "yystos ! 57 = 40"
     "yystos ! 58 = 40" "yystos ! 59 = 40" "yystos ! 60 = 40" "yystos ! 61 = 50" "yystos ! 62 = 24" "yystos ! 63 = 40" "yystos ! 64 = 40"
     "yystos ! 65 = 27" "yystos ! 66 = 48" "yystos ! 67 = 23" "yystos ! 68 = 63" "yystos ! 69 = 40" "yystos ! 70 = 28" "yystos ! 71 = 25"
     "yystos ! 72 = 40" "yystos ! 73 = 82" "yystos ! 74 = 83" "yystos ! 75 = 29" "yystos ! 76 = 40" "yystos ! 77 = 64" "yystos ! 78 = 65"
     "yystos ! 79 = 40" "yystos ! 80 = 25" "yystos ! 81 = 48" "yystos ! 82 = 40" "yystos ! 83 = 73" "yystos ! 84 = 75" "yystos ! 85 = 43"
     "yystos ! 86 = 25" "yystos ! 87 = 50" "yystos ! 88 = 30" "yystos ! 89 = 32" "yystos ! 90 = 33" "yystos ! 91 = 34" "yystos ! 92 = 66"
     "yystos ! 93 = 49" "yystos ! 94 = 50" "yystos ! 95 = 48" "yystos ! 96 = 73" "yystos ! 97 = 39" "yystos ! 98 = 41" "yystos ! 99 = 42"
     "yystos ! 100 = 76" "yystos ! 101 = 79" "yystos ! 102 = 37" "yystos ! 103 = 38" "yystos ! 104 = 43" "yystos ! 105 = 44"
     "yystos ! 106 = 45" "yystos ! 107 = 46" "yystos ! 108 = 52" "yystos ! 109 = 53" "yystos ! 110 = 77" "yystos ! 111 = 35"
     "yystos ! 112 = 36" "yystos ! 113 = 74" "yystos ! 114 = 76" "yystos ! 115 = 73" "yystos ! 116 = 82" "yystos ! 117 = 48"
     "yystos ! 118 = 48" "yystos ! 119 = 31" "yystos ! 120 = 64" "yystos ! 121 = 63" "yystos ! 122 = 50" "yystos ! 123 = 49"
     "yystos ! 124 = 76" "yystos ! 125 = 75" "yystos ! 126 = 63" "yystos ! 127 = 42" "yystos ! 128 = 49" "yystos ! 129 = 79"
     "yystos ! 130 = 49" "yystos ! 131 = 49" "yystos ! 132 = 16" "yystos ! 133 = 40" "yystos ! Suc 0 = 3"
  by (simp_all add: yystos_def)

lemma weight_nth:
  "yy_weight ! 0 = 1" "yy_weight ! 2 = 1" "yy_weight ! 3 = 1" "yy_weight ! 4 = 1" "yy_weight ! 5 = 1" "yy_weight ! 6 = 1"
     "yy_weight ! 7 = 3" "yy_weight ! 8 = 3" "yy_weight ! 9 = 3" "yy_weight ! 10 = 3" "yy_weight ! 11 = 1" "yy_weight ! 12 = 1"
     "yy_weight ! 13 = 1" "yy_weight ! 14 = 1" "yy_weight ! 15 = 1" "yy_weight ! 16 = 2" "yy_weight ! 17 = 2" "yy_weight ! 18 = 2"
     "yy_weight ! 19 = 2" "yy_weight ! 20 = 2" "yy_weight ! 21 = 2" "yy_weight ! 22 = 2" "yy_weight ! 23 = 2" "yy_weight ! 24 = 2"
     "yy_weight ! 25 = 2" "yy_weight ! 26 = 2" "yy_weight ! 27 = 2" "yy_weight ! 28 = 2" "yy_weight ! 29 = 2" "yy_weight ! 30 = 2"
     "yy_weight ! 31 = 2" "yy_weight ! 32 = 2" "yy_weight ! 33 = 2" "yy_weight ! 34 = 2" "yy_weight ! 35 = 1" "yy_weight ! 36 = 1"
     "yy_weight ! 37 = 1" "yy_weight ! 38 = 1" "yy_weight ! 39 = 1" "yy_weight ! 40 = 1" "yy_weight ! 41 = 3" "yy_weight ! 42 = 2"
     "yy_weight ! 43 = 2" "yy_weight ! 44 = 1" "yy_weight ! 45 = 1" "yy_weight ! 46 = 1" "yy_weight ! 47 = 1" "yy_weight ! 48 = 2"
     "yy_weight ! 49 = 2" "yy_weight ! 50 = 2" "yy_weight ! 51 = 2" "yy_weight ! 52 = 2" "yy_weight ! 53 = 1" "yy_weight ! 54 = 1"
     "yy_weight ! 55 = 1" "yy_weight ! 56 = 1" "yy_weight ! 57 = 1" "yy_weight ! 58 = 1" "yy_weight ! 59 = 1" "yy_weight ! 60 = 1"
     "yy_weight ! 61 = 1" "yy_weight ! 62 = 1" "yy_weight ! 63 = 1" "yy_weight ! 64 = 1" "yy_weight ! 65 = 1" "yy_weight ! 66 = 1"
     "yy_weight ! 67 = 1" "yy_weight ! 68 = 1" "yy_weight ! 69 = 1" "yy_weight ! 70 = 1" "yy_weight ! 71 = 1" "yy_weight ! 72 = 1"
     "yy_weight ! 73 = 1" "yy_weight ! 74 = 2" "yy_weight ! 75 = 1" "yy_weight ! 76 = 1" "yy_weight ! 77 = 1" "yy_weight ! 78 = 2"
     "yy_weight ! 79 = 1" "yy_weight ! 80 = 1" "yy_weight ! 81 = 1" "yy_weight ! 82 = 1" "yy_weight ! 83 = 1" "yy_weight ! 84 = 2"
     "yy_weight ! 85 = 1" "yy_weight ! 86 = 1" "yy_weight ! 87 = 1" "yy_weight ! 88 = 1" "yy_weight ! 89 = 1" "yy_weight ! 90 = 3"
     "yy_weight ! 91 = 3" "yy_weight ! 92 = 2" "yy_weight ! 93 = 1" "yy_weight ! 94 = 1" "yy_weight ! 95 = 1" "yy_weight ! 96 = 1"
     "yy_weight ! 97 = 3" "yy_weight ! 98 = 3" "yy_weight ! 99 = 3" "yy_weight ! 100 = 2" "yy_weight ! 101 = 1" "yy_weight ! 102 = 2"
     "yy_weight ! 103 = 2" "yy_weight ! 104 = 2" "yy_weight ! 105 = 2" "yy_weight ! 106 = 2" "yy_weight ! 107 = 2" "yy_weight ! 108 = 2"
     "yy_weight ! 109 = 2" "yy_weight ! 110 = 1" "yy_weight ! 111 = 2" "yy_weight ! 112 = 2" "yy_weight ! 113 = 1" "yy_weight ! 114 = 1"
     "yy_weight ! 115 = 1" "yy_weight ! 116 = 1" "yy_weight ! 117 = 1" "yy_weight ! 118 = 1" "yy_weight ! 119 = 1" "yy_weight ! 120 = 1"
     "yy_weight ! 121 = 1" "yy_weight ! 122 = 1" "yy_weight ! 123 = 1" "yy_weight ! 124 = 1" "yy_weight ! 125 = 1" "yy_weight ! 126 = 1"
     "yy_weight ! 127 = 1" "yy_weight ! 128 = 1" "yy_weight ! 129 = 1" "yy_weight ! 130 = 1" "yy_weight ! 131 = 1" "yy_weight ! 132 = 1"
     "yy_weight ! 133 = 1" "yy_weight ! Suc 0 = 1"
  by (simp_all add: yy_weight_def)

lemma shift_check: "list_all (\<lambda>(q, n). good_shifts q n) (zip yy_states yypact)"
  unfolding yypact_def
  by (simp add: yy_states_def good_shifts_def yywindow_def good_shift_def good_move_def YYPACT_NINF_def YYFINAL_def yycheck_def yytable_def past_nth stos_nth upt_rec)

lemma reduce_check: "list_all (\<lambda>(q, r). good_reduce q r) (zip yy_states yydefact)"
  unfolding yydefact_def
  by (simp add: yy_states_def good_reduce_def uses_def good_goto_def yygoto_def yylookup_def entry_def YYNTOKENS_def YYLAST_def good_move_def YYFINAL_def valued_def
      past_nth stos_nth weight_nth yyr1_def yyr2_def yycheck_def yytable_def yypgoto_def yydefgoto_def upt_rec)

end
