(* ===== verification/Parser_Blocks.thy ===== *)
theory Parser_Blocks
  imports Sql_Parser
begin

text \<open>
  The scanner and the parser on any allocator. They depend on it only through the terminator that \<^verbatim>\<open>CreateSyntaxNode\<close> stores behind the block of a value. The run on an
  allocator with room behind every block collects the sizes of these blocks; on any allocator that keeps the contract of \<^verbatim>\<open>malloc\<close> the run is the same when each of these
  blocks has a spare byte, and undefined otherwise.
\<close>

definition spare :: "allocator \<Rightarrow> nat list \<Rightarrow> bool" where "spare usable bs \<longleftrightarrow> list_all (\<lambda>n. n < usable n) bs"

lemma spare_simps [simp]: "spare usable []" "spare usable (n # bs) \<longleftrightarrow> n < usable n \<and> spare usable bs" "spare usable (bs @ cs) \<longleftrightarrow> spare usable bs \<and> spare usable cs"
  by (simp_all add: spare_def)

lemma spare_set: "spare usable bs \<longleftrightarrow> (\<forall>n\<in>set bs. n < usable n)"
  by (simp add: spare_def list_all_iff)

lemma spare_roomy [simp]: "spare (roomy slack) bs"
  by (simp add: spare_def roomy_def list_all_iff)

text \<open>What \<open>y\<close> returns, with the blocks that it adds to \<open>b\<close>, is what \<open>x\<close> returns, if these blocks have a spare byte.\<close>

definition guarded :: "allocator \<Rightarrow> nat list \<Rightarrow> ('a \<Rightarrow> nat list) \<Rightarrow> 'a option \<Rightarrow> 'a option \<Rightarrow> bool" where
  "guarded usable b blocks x y \<longleftrightarrow> (\<forall>z. y = Some z \<longrightarrow> (\<exists>bs. blocks z = bs @ b \<and> x = (if spare usable bs then Some z else None)))"

named_theorems guards

lemma guarded_same: "(\<And>z. x = Some z \<Longrightarrow> blocks z = b) \<Longrightarrow> guarded usable b blocks x x"
  by (auto simp: guarded_def intro: exI [of _ "[]"])

lemma guarded_none [guards]: "guarded usable b blocks None None"
  by (simp add: guarded_def)

lemma guarded_some [guards]: "blocks z = b \<Longrightarrow> guarded usable b blocks (Some z) (Some z)"
  by (rule guarded_same) simp

lemma guarded_bind:
  assumes "guarded usable b blocks x y" "\<And>z. y = Some z \<Longrightarrow> guarded usable (blocks z) blocks' (f z) (h z)"
  shows "guarded usable b blocks' (x \<bind> f) (y \<bind> h)"
  unfolding guarded_def
proof (intro allI impI)
  fix w assume "y \<bind> h = Some w"
  then obtain z where z: "y = Some z" "h z = Some w" by (cases y) auto
  from assms(1) z(1) obtain bs where bs: "blocks z = bs @ b" "x = (if spare usable bs then Some z else None)" by (auto simp: guarded_def)
  from assms(2) z obtain cs where cs: "blocks' w = cs @ blocks z" "f z = (if spare usable cs then Some w else None)" by (auto simp: guarded_def)
  show "\<exists>ds. blocks' w = ds @ b \<and> x \<bind> f = (if spare usable ds then Some w else None)"
    using bs cs by (intro exI [of _ "cs @ bs"]) auto
qed

text \<open>A part that does not use the allocator.\<close>

lemma guarded_pure [guards]: "(\<And>z. x = Some z \<Longrightarrow> guarded usable b blocks (f z) (h z)) \<Longrightarrow> guarded usable b blocks (x \<bind> f) (x \<bind> h)"
  by (cases x) (auto simp: guarded_def)

lemma guarded_create:
  assumes "malloc_ok usable"
  shows "guarded usable (pg_blocks g) (\<lambda>(n, g). pg_blocks g) (CreateSyntaxNode usable ty val g) (CreateSyntaxNode (roomy slack) ty val g)"
proof (cases val)
  case None
  then show ?thesis by (auto simp: CreateSyntaxNode_def overrun_def Let_def intro: guarded_some)
next
  case (Some s)
  have room: "n < roomy slack n" for n by (simp add: roomy_def)
  show ?thesis
    using Some assms by (auto simp: guarded_def CreateSyntaxNode_def overrun_def Let_def copy_value_string copy_value_other room split: if_splits)
qed

lemma guarded_node [guards]:
  assumes "malloc_ok usable" "\<And>n g'. guarded usable (pg_blocks g') blocks (f n g') (h n g')"
  shows "guarded usable (pg_blocks g) blocks (CreateSyntaxNode usable ty val g \<bind> (\<lambda>(n, g). f n g)) (CreateSyntaxNode (roomy slack) ty val g \<bind> (\<lambda>(n, g). h n g))"
  by (rule guarded_bind [OF guarded_create [OF assms(1)]]) (use assms(2) in auto)

section \<open>The scanner\<close>

lemma move_pos_blocks [simp]: "pg_blocks (move_pos s g) = pg_blocks g"
  by (induction s g rule: move_pos.induct) simp_all

lemma globals_blocks [simp]:
  "pg_blocks (MinisqlParserMovePos l s g) = pg_blocks g" "pg_blocks (MinisqlParserSetRoot n g) = pg_blocks g"
  "pg_blocks (MinisqlParserSetError m g) = pg_blocks g" "pg_blocks (MinisqlParserInit g) = pg_blocks g"
  by (simp_all add: MinisqlParserMovePos_def MinisqlParserSetRoot_def MinisqlParserSetError_def MinisqlParserInit_def)

lemma guarded_scan_action:
  assumes "malloc_ok usable"
  shows "guarded usable (pg_blocks g) (\<lambda>(t, v, g). pg_blocks g) (yy_action usable r w v g) (yy_action (roomy slack) r w v g)"
proof -
  have node: "guarded usable (pg_blocks g) (\<lambda>(t, v, g). pg_blocks g)
      (CreateSyntaxNode usable ty val (MinisqlParserMovePos 0 w g) \<bind> (\<lambda>(n, g). Some (t, Some n, g)))
      (CreateSyntaxNode (roomy slack) ty val (MinisqlParserMovePos 0 w g) \<bind> (\<lambda>(n, g). Some (t, Some n, g)))" for ty val t
    using guarded_node [OF assms, of "\<lambda>(t, v, g). pg_blocks g" "\<lambda>n g. Some (t, Some n, g)" "\<lambda>n g. Some (t, Some n, g)" "MinisqlParserMovePos 0 w g"]
    by (simp add: guarded_some)
  show ?thesis unfolding yy_action_def Let_def by (auto intro!: node guarded_some guarded_none)
qed

lemma guarded_returned: "(\<And>z. y = Some z \<Longrightarrow> guarded usable b blocks x (Some z)) \<Longrightarrow> guarded usable b blocks x y"
  by (simp add: guarded_def)

lemma guarded_yylex:
  assumes ok: "malloc_ok usable"
  shows "guarded usable (pg_blocks g) (\<lambda>(t, i, v, g). pg_blocks g) (yylex usable s v g) (yylex (roomy slack) s v g)"
proof (rule guarded_returned)
  let ?P = "\<lambda>room s v g z. room = roomy slack \<longrightarrow> guarded usable (pg_blocks g) (\<lambda>(t, i, v, g). pg_blocks g) (yylex usable s v g) (Some z)"
  fix z assume ret: "yylex (roomy slack) s v g = Some z"
  have step: "?P room s v g z" if IH: "\<And>room s v g z. lex room s v g = Some z \<Longrightarrow> ?P room s v g z"
    and z: "do { (act, n) \<leftarrow> yy_lexeme s; (token, v, g) \<leftarrow> yy_action room act (take n s) v g;
      case token of Some t \<Rightarrow> Some (t, drop n s, v, g) | None \<Rightarrow> lex room (drop n s) v g } = Some z" for lex room s v g z
  proof
    assume "room = roomy slack"
    have next_token: "guarded usable (pg_blocks g) (\<lambda>(t, i, v, g). pg_blocks g) (yylex usable s v g) (lex (roomy slack) s v g)" for s v g
      by (rule guarded_returned) (rule IH [THEN mp, OF _ refl])
    show "guarded usable (pg_blocks g) (\<lambda>(t, i, v, g). pg_blocks g) (yylex usable s v g) (Some z)"
      unfolding z [symmetric] \<open>room = roomy slack\<close> by (subst yylex.simps)
        (auto intro!: guarded_pure guarded_bind [OF guarded_scan_action [OF ok]] guarded_some next_token split: option.splits)
  qed
  have "?P (roomy slack) s v g z" by (rule yylex.raw_induct [where P = ?P, OF _ ret]) (rule step)
  then show "guarded usable (pg_blocks g) (\<lambda>(t, i, v, g). pg_blocks g) (yylex usable s v g) (Some z)" by (rule mp) (rule refl)
qed

section \<open>The parser\<close>

lemma guarded_leaf [guards]:
  "malloc_ok usable \<Longrightarrow> guarded usable (pg_blocks g) (\<lambda>(v, g). pg_blocks g) (node_leaf usable ty val g) (node_leaf (roomy slack) ty val g)"
  unfolding node_leaf_def by (intro guards) auto

lemma guarded_with [guards]:
  "malloc_ok usable \<Longrightarrow> guarded usable (pg_blocks g) (\<lambda>(v, g). pg_blocks g) (node_with usable ty val cs g) (node_with (roomy slack) ty val cs g)"
  unfolding node_with_def by (intro guards) auto

lemma guarded_condition [guards]:
  "malloc_ok usable \<Longrightarrow> guarded usable (pg_blocks g) (\<lambda>(v, g). pg_blocks g) (condition_child usable n c g) (condition_child (roomy slack) n c g)"
  unfolding condition_child_def Let_def by (intro guards) auto

lemma guarded_actions [guards]:
  assumes "malloc_ok usable"
  shows "guarded usable (pg_blocks g) (\<lambda>(v, g). pg_blocks g) (database_action usable r d g) (database_action (roomy slack) r d g)"
    "guarded usable (pg_blocks g) (\<lambda>(v, g). pg_blocks g) (table_action usable r d g) (table_action (roomy slack) r d g)"
    "guarded usable (pg_blocks g) (\<lambda>(v, g). pg_blocks g) (index_action usable r d g) (index_action (roomy slack) r d g)"
    "guarded usable (pg_blocks g) (\<lambda>(v, g). pg_blocks g) (select_action usable r d g) (select_action (roomy slack) r d g)"
    "guarded usable (pg_blocks g) (\<lambda>(v, g). pg_blocks g) (value_action usable r d g) (value_action (roomy slack) r d g)"
    "guarded usable (pg_blocks g) (\<lambda>(v, g). pg_blocks g) (modify_action usable r d g) (modify_action (roomy slack) r d g)"
    "guarded usable (pg_blocks g) (\<lambda>(v, g). pg_blocks g) (other_action usable r d g) (other_action (roomy slack) r d g)"
  using assms
  by (auto simp: database_action_def table_action_def index_action_def select_action_def value_action_def modify_action_def other_action_def Let_def intro!: guards)

lemma guarded_yyaction:
  "malloc_ok usable \<Longrightarrow> guarded usable (pg_blocks g) (\<lambda>(v, g). pg_blocks g) (yyaction usable r d g) (yyaction (roomy slack) r d g)"
  unfolding yyaction_def by (auto intro!: guards)

fun verdict_blocks :: "'i verdict \<Rightarrow> nat list" where
  "verdict_blocks (Continue s) = pg_blocks (yyglobals s)"
| "verdict_blocks (Finish r s) = pg_blocks (yyglobals s)"

lemma newstate_blocks [simp]: "verdict_blocks (yynewstate q s) = pg_blocks (yyglobals s)" "verdict_blocks (yysetstate s) = pg_blocks (yyglobals s)"
  by (simp_all add: yynewstate_def yysetstate_def yyerror_def Let_def)

lemma errlab_blocks: "yyerrlab s = Some v \<Longrightarrow> verdict_blocks v = pg_blocks (yyglobals s)"
  by (auto simp: yyerrlab_def Let_def yyerror_def split: if_splits bind_splits option.splits)

lemma guarded_errlab: "guarded usable (pg_blocks (yyglobals s)) verdict_blocks (yyerrlab s) (yyerrlab s)"
  by (rule guarded_same) (rule errlab_blocks)

lemma guarded_reduce:
  "malloc_ok usable \<Longrightarrow> guarded usable (pg_blocks (yyglobals s)) verdict_blocks (yyreduce usable r s) (yyreduce (roomy slack) r s)"
  unfolding yyreduce_def Let_def
  by (intro guarded_pure guarded_bind [OF guarded_yyaction]) (auto intro!: guarded_pure guarded_some)

lemma guarded_default:
  "malloc_ok usable \<Longrightarrow> guarded usable (pg_blocks (yyglobals s)) verdict_blocks (yydefault usable s) (yydefault (roomy slack) s)"
  unfolding yydefault_def by (auto intro!: guarded_pure guarded_reduce guarded_errlab)

definition guarded_scan :: "allocator \<Rightarrow> 'i lexer \<Rightarrow> 'i lexer \<Rightarrow> bool" where
  "guarded_scan usable scan room \<longleftrightarrow> (\<forall>i v g. guarded usable (pg_blocks g) (\<lambda>(t, i, v, g). pg_blocks g) (scan i v g) (room i v g))"

lemma guarded_read:
  "guarded_scan usable scan room \<Longrightarrow> guarded usable (pg_blocks (yyglobals s)) (\<lambda>s. pg_blocks (yyglobals s)) (read_token scan s) (read_token room s)"
  unfolding read_token_def guarded_scan_def by (auto intro!: guarded_some guarded_bind [where blocks = "\<lambda>(t, i, v, g). pg_blocks g"])

lemma guarded_backup:
  assumes "malloc_ok usable" "guarded_scan usable scan room"
  shows "guarded usable (pg_blocks (yyglobals s)) verdict_blocks (yybackup scan usable s) (yybackup room (roomy slack) s)"
  using assms unfolding yybackup_def
  by (auto intro!: guarded_pure guarded_default guarded_bind [OF guarded_read] guarded_errlab guarded_some split: option.splits)

lemma guarded_loop:
  assumes ok: "malloc_ok usable" "guarded_scan usable scan room"
  shows "guarded usable (pg_blocks (yyglobals s)) (\<lambda>(r, s). pg_blocks (yyglobals s)) (yyloop scan usable s) (yyloop room (roomy slack) s)"
proof (rule guarded_returned)
  let ?P = "\<lambda>sc us s z. sc = room \<longrightarrow> us = roomy slack \<longrightarrow> guarded usable (pg_blocks (yyglobals s)) (\<lambda>(r, s). pg_blocks (yyglobals s)) (yyloop scan usable s) (Some z)"
  fix z assume ret: "yyloop room (roomy slack) s = Some z"
  have step: "?P sc us s z" if IH: "\<And>sc us s z. loop sc us s = Some z \<Longrightarrow> ?P sc us s z"
    and z: "do { v \<leftarrow> yybackup sc us s; case v of Continue s \<Rightarrow> loop sc us s | Finish r s \<Rightarrow> Some (r, s) } = Some z" for loop sc us s z
  proof (intro impI)
    assume room: "sc = room" "us = roomy slack"
    have next_state: "guarded usable (pg_blocks (yyglobals s)) (\<lambda>(r, s). pg_blocks (yyglobals s)) (yyloop scan usable s) (loop room (roomy slack) s)" for s
      by (rule guarded_returned) (rule IH [THEN mp, THEN mp, OF _ refl refl])
    show "guarded usable (pg_blocks (yyglobals s)) (\<lambda>(r, s). pg_blocks (yyglobals s)) (yyloop scan usable s) (Some z)"
      unfolding z [symmetric] room by (subst yyloop.simps)
        (auto intro!: guarded_bind [OF guarded_backup [OF ok]] guarded_some next_state split: verdict.splits)
  qed
  have "?P room (roomy slack) s z" by (rule yyloop.raw_induct [where P = ?P, OF _ ret]) (rule step)
  then show "guarded usable (pg_blocks (yyglobals s)) (\<lambda>(r, s). pg_blocks (yyglobals s)) (yyloop scan usable s) (Some z)" by blast
qed

lemma guarded_yyparse:
  assumes "malloc_ok usable"
  shows "guarded usable (pg_blocks g) (\<lambda>(r, s). pg_blocks (yyglobals s)) (yyparse (yylex usable) usable i v g) (yyparse (yylex (roomy slack)) (roomy slack) i v g)"
proof -
  have "guarded_scan usable (yylex usable) (yylex (roomy slack))" using guarded_yylex [OF assms] by (simp add: guarded_scan_def)
  moreover have "yysetstate (start_state i v g) = Continue (start_state i v g)" by (simp add: yysetstate_def start_state_def YYINITDEPTH_def)
  ultimately show ?thesis using guarded_loop [OF assms, of "yylex usable" "yylex (roomy slack)" "start_state i v g" slack] by (simp add: yyparse_def start_state_def)
qed

text \<open>What a parse on a roomy allocator returns says what a parse on any allocator returns.\<close>

lemma yyparse_any:
  assumes "yyparse (yylex (roomy slack)) (roomy slack) i v g = Some (r, s)" "pg_blocks g = []" "malloc_ok usable"
  shows "yyparse (yylex usable) usable i v g = (if spare usable (pg_blocks (yyglobals s)) then Some (r, s) else None)"
  using guarded_yyparse [OF assms(3), of g i v slack] assms(1,2) by (auto simp: guarded_def)

end
