(* ===== verification/Parser_Total.thy ===== *)
theory Parser_Total
  imports Parser_Tables Parser_Blocks
begin

text \<open>
  The parser returns. A locale states what it relies on of its scanner; the loop keeps an invariant of its stacks that the certificate of the tables gives, and every
  step decreases a measure of the input and the stack. The locale is interpreted by the scanner \<open>yylex\<close>.
\<close>

section \<open>Use of the certificate\<close>

fun fits :: "nat list list \<Rightarrow> nat list \<Rightarrow> bool" where
  "fits [] ss = True"
| "fits (p # ps) [] = False"
| "fits (p # ps) (q # ss) = (q \<in> set p \<and> fits ps ss)"

fun stack_ok :: "nat list \<Rightarrow> bool" where
  "stack_ok [] = True"
| "stack_ok (q # ss) = (q < 134 \<and> q \<noteq> YYFINAL \<and> fits (yy_past ! q) ss \<and> stack_ok ss)"

lemma fits_within: "within ps ts \<Longrightarrow> fits ts ss \<Longrightarrow> fits ps ss"
proof (induction ps ts arbitrary: ss rule: within.induct)
  case (3 p ps t ts)
  then show ?case by (cases ss) auto
qed auto

lemma fits_nth: "fits ps ss \<Longrightarrow> i < length ps \<Longrightarrow> i < length ss \<and> ss ! i \<in> set (ps ! i)"
proof (induction ps ss arbitrary: i rule: fits.induct)
  case (3 p ps q ss)
  then show ?case by (cases i) auto
qed auto

lemma stack_ok_drop: "stack_ok ss \<Longrightarrow> stack_ok (drop n ss)"
  by (induction ss arbitrary: n) (auto simp: drop_Cons split: nat.splits)

lemma move_ok: "stack_ok (p # ss) \<Longrightarrow> good_move p q \<Longrightarrow> stack_ok (q # p # ss)"
  using fits_within [of "yy_past ! q" "[p] # yy_past ! p" "p # ss"] by (auto simp: good_move_def)

lemma window_entry:
  assumes "yylookup (n + int t) t = Some (Some p)" "t < 54"
  shows "(t, int t, p) \<in> set (yywindow n)"
proof -
  from assms(1) have i: "0 \<le> n + int t" "nat (n + int t) < 107" "yycheck ! nat (n + int t) = int t" "yytable ! nat (n + int t) = p"
    by (auto simp: yylookup_def entry_def parser_table_lengths YYLAST_def split: if_splits bind_splits)
  define j where "j = t - nat (- n)"
  have j: "nat n + j = nat (n + int t)" "nat (- n) + j = t" "nat (- n) + j < 54" "nat n + j < 107" using i(1,2) assms(2) by (auto simp: j_def)
  from j(3,4) have "yywindow n ! j = (nat (- n) + j, yycheck ! (nat n + j), yytable ! (nat n + j))" "j < length (yywindow n)"
    by (simp_all add: yywindow_def parser_table_lengths less_diff_conv add.commute)
  then show ?thesis using i(3,4) unfolding j(1,2) by (metis nth_mem)
qed

lemma lookup_some: "t < 54 \<Longrightarrow> \<exists>l. yylookup i t = Some l"
  by (auto simp: yylookup_def entry_def parser_table_lengths YYLAST_def)

lemma shift_ok:
  assumes "q < 134" "yypact ! q \<noteq> YYPACT_NINF" "t < 54" "yylookup (yypact ! q + int t) t = Some (Some p)"
  shows "good_shift q t p"
proof -
  have "good_shifts q (yypact ! q)"
    using list_all_zip [OF shift_check, of q] assms(1) by (simp add: yy_states_upt parser_table_lengths)
  with window_entry [OF assms(4,3)] assms(2) show ?thesis by (fastforce simp: good_shifts_def list_all_iff)
qed

lemma reduce_ok: "q < 134 \<Longrightarrow> good_reduce q (yydefact ! q)"
  using list_all_zip [OF reduce_check, of q] by (simp add: yy_states_upt parser_table_lengths)

lemma translate_check: "list_all (\<lambda>t. t < 54) yytranslate \<and> list_all (\<lambda>(c, t). t = 40 \<or> t = 41 \<or> t = 42 \<longrightarrow> 295 \<le> c \<and> c \<le> 297) (zip [0..<302] yytranslate)"
  by code_simp

lemma translate_ok:
  assumes "0 \<le> c" "c \<le> 301"
  shows "\<exists>t<54. YYTRANSLATE c = Some t \<and> (t \<in> {40, 41, 42} \<longrightarrow> c \<in> {IDENTIFIER, STRING, NUMBER})"
proof -
  let ?i = "nat c"
  have i: "?i < 302" using assms by auto
  then have "yytranslate ! ?i < 54" using translate_check by (auto simp: list_all_length parser_table_lengths)
  moreover have "yytranslate ! ?i \<in> {40, 41, 42} \<longrightarrow> 295 \<le> ?i \<and> ?i \<le> 297"
    using list_all_zip [OF conjunct2 [OF translate_check], of ?i] i by (auto simp: parser_table_lengths)
  ultimately show ?thesis using assms i
    by (auto simp: YYTRANSLATE_def YYMAXUTOK_def entry_def parser_table_lengths IDENTIFIER_def STRING_def NUMBER_def)
qed

section \<open>The actions\<close>

definition made :: "parser_globals \<Rightarrow> reduced \<Rightarrow> bool" where
  "made g red = (\<exists>v g'. red = Some (Some v, g') \<and> pg_root_node g' = pg_root_node g \<and> pg_errors g' = pg_errors g)"

lemma made_simps [simp]:
  "made g (Some (v, g)) \<longleftrightarrow> v \<noteq> None"
  "made g (Some (Some n, g')) \<longleftrightarrow> pg_root_node g' = pg_root_node g \<and> pg_errors g' = pg_errors g"
  by (auto simp: made_def)

lemma create_node:
  assumes "val = None \<or> ty \<noteq> kNodeString \<and> CHR 0x00 \<notin> set (the val)"
  shows "CreateSyntaxNode (roomy slack) ty val g = Some (SyntaxNode (pg_debug_node_count g) ty (pg_line_no g) (pg_column_no g) None None val,
    g\<lparr>pg_debug_node_count := pg_debug_node_count g + 1, pg_syntax_node_list := pg_debug_node_count g # pg_syntax_node_list g,
      pg_blocks := overrun ty val @ pg_blocks g\<rparr>)"
  using assms by (cases val) (auto simp: CreateSyntaxNode_def Let_def copy_value_roomy)

lemma sibling_some: "SyntaxNodeAddSibling (Some n) s \<noteq> None"
  by (cases "(Some n, s)" rule: SyntaxNodeAddSibling.cases) auto

lemma operator_text: "55 \<le> r \<Longrightarrow> r \<le> 62 \<Longrightarrow> CHR 0x00 \<notin> set ([''='', ''<>'', ''<='', ''>='', ''<'', ''>'', ''is'', ''not''] ! (r - 55))"
proof -
  let ?ops = "[''='', ''<>'', ''<='', ''>='', ''<'', ''>'', ''is'', ''not'']"
  assume "55 \<le> r" "r \<le> 62"
  then have "r - 55 < length ?ops" by simp
  moreover have "list_all (\<lambda>s. CHR 0x00 \<notin> set s) ?ops" by simp
  ultimately show ?thesis unfolding list_all_length by blast
qed

lemmas action_defs = node_leaf_def node_with_def condition_child_def create_node Let_def

lemma statement_actions_made:
  "made g (database_action (roomy slack) r d g)" "made g (index_action (roomy slack) r d g)"
  by (simp_all add: database_action_def index_action_def action_defs)

lemma table_action_made:
  assumes "uses r = Some 1 \<Longrightarrow> d 1 \<noteq> None" "27 \<le> r" "r \<le> 38"
  shows "made g (table_action (roomy slack) r d g)"
  using assms sibling_some by (auto simp: table_action_def action_defs uses_def)

lemma select_action_made:
  assumes "uses r = Some 1 \<Longrightarrow> d 1 \<noteq> None" "uses r = Some 2 \<Longrightarrow> d 2 \<noteq> None" "43 \<le> r" "r \<le> 51"
  shows "made g (select_action (roomy slack) r d g)"
  using assms by (auto simp: select_action_def action_defs uses_def)

lemma value_action_made:
  assumes "uses r = Some 1 \<Longrightarrow> d 1 \<noteq> None" "52 \<le> r" "r \<le> 62"
  shows "made g (value_action (roomy slack) r d g)"
  using assms operator_text [of r] by (auto simp: value_action_def action_defs uses_def)

lemma modify_action_made:
  assumes "uses r = Some 1 \<Longrightarrow> d 1 \<noteq> None" "63 \<le> r" "r \<le> 72"
  shows "made g (modify_action (roomy slack) r d g)"
  using assms sibling_some by (auto simp: modify_action_def action_defs uses_def)

lemma action_made:
  assumes "case uses r of None \<Rightarrow> True | Some i \<Rightarrow> d i \<noteq> None" "3 \<le> r" "r < 78"
  shows "made g (yyaction (roomy slack) r d g)"
proof -
  have u: "uses r = Some 1 \<Longrightarrow> d 1 \<noteq> None" "uses r = Some 2 \<Longrightarrow> d 2 \<noteq> None" using assms(1) by (auto split: option.splits)
  consider "r \<le> 21" | "22 \<le> r" "r \<le> 42" "\<not> (27 \<le> r \<and> r \<le> 38)" | "27 \<le> r" "r \<le> 38" | "43 \<le> r" "r \<le> 51" | "52 \<le> r" "r \<le> 62" | "63 \<le> r" "r \<le> 72" | "73 \<le> r"
    using assms(2) by linarith
  then show ?thesis
  proof cases
    case 1
    then show ?thesis using u(1) assms(2) by (simp add: yyaction_def uses_def)
  next
    case 2
    then show ?thesis using statement_actions_made [of g slack r d] by (auto simp: yyaction_def)
  next
    case 3
    then show ?thesis using table_action_made [of r d] u by (simp add: yyaction_def)
  next
    case 4
    then show ?thesis using select_action_made [of r d] u by (simp add: yyaction_def)
  next
    case 5
    then show ?thesis using value_action_made [of r d] u by (simp add: yyaction_def)
  next
    case 6
    then show ?thesis using modify_action_made [of r d] u by (simp add: yyaction_def)
  next
    case 7
    then have "r = 73 \<or> r = 74 \<or> r = 75 \<or> r = 76 \<or> r = 77" using assms(3) by linarith
    then show ?thesis by (elim disjE) (simp_all add: yyaction_def other_action_def action_defs)
  qed
qed

section \<open>The loop\<close>

definition values_ok :: "nat list \<Rightarrow> syntax_node option list \<Rightarrow> bool" where
  "values_ok ss vs = list_all2 (\<lambda>q v. valued q \<longrightarrow> v \<noteq> None) ss vs"

definition weight :: "nat list \<Rightarrow> nat" where "weight ss = sum_list (map (\<lambda>q. yy_weight ! q) ss)"

lemma weight_bounds: "q < 134 \<Longrightarrow> 1 \<le> yy_weight ! q \<and> yy_weight ! q \<le> 3"
proof -
  have "list_all (\<lambda>w. 1 \<le> w \<and> w \<le> 3) yy_weight" by (simp add: yy_weight_def)
  then show "q < 134 \<Longrightarrow> 1 \<le> yy_weight ! q \<and> yy_weight ! q \<le> 3" by (simp add: list_all_length parser_table_lengths)
qed

lemma weight_take: "stack_ok ss \<Longrightarrow> n \<le> length ss \<Longrightarrow> n \<le> weight (take n ss)"
proof (induction ss arbitrary: n)
  case (Cons q ss)
  show ?case
  proof (cases n)
    case (Suc k)
    with Cons.IH [of k] Cons.prems weight_bounds [of q] show ?thesis by (simp add: weight_def)
  qed simp
qed (simp add: weight_def)

definition loop_inv :: "('i \<Rightarrow> bool) \<Rightarrow> 'i yy_state \<Rightarrow> bool" where
  "loop_inv ok s \<longleftrightarrow> yyss s \<noteq> [] \<and> stack_ok (yyss s) \<and> values_ok (yyss s) (yyvs s) \<and> (14 \<in> set (yyss s) \<longrightarrow> pg_root_node (yyglobals s) \<noteq> None) \<and>
     (yychar s = YYEMPTY \<or> 0 \<le> yychar s \<and> yychar s \<le> 301) \<and> (yychar s \<in> {IDENTIFIER, STRING, NUMBER} \<longrightarrow> yylval s \<noteq> None) \<and> ok (yyinput s) \<and>
     length (yyss s) < yystacksize s \<and> 200 \<le> yystacksize s \<and> yystacksize s \<le> YYMAXDEPTH \<and> yyerrstatus s = 0"

definition loop_measure :: "('i \<Rightarrow> nat) \<Rightarrow> 'i yy_state \<Rightarrow> nat" where
  "loop_measure len s = 4 * (len (yyinput s) + (if 0 < yychar s then 1 else 0)) + weight (yyss s)"

definition finish_ok :: "int \<Rightarrow> 'i yy_state \<Rightarrow> bool" where
  "finish_ok r s \<longleftrightarrow> (r = 0 \<or> r = 1 \<or> r = 2) \<and> (r = 0 \<longrightarrow> pg_root_node (yyglobals s) \<noteq> None) \<and> (r \<noteq> 0 \<longrightarrow> pg_error (yyglobals s) \<noteq> 0)"

definition verdict_ok :: "('i \<Rightarrow> bool) \<Rightarrow> ('i \<Rightarrow> nat) \<Rightarrow> nat \<Rightarrow> 'i verdict option \<Rightarrow> bool" where
  "verdict_ok ok len m v = (case v of None \<Rightarrow> False | Some (Continue s) \<Rightarrow> loop_inv ok s \<and> loop_measure len s < m | Some (Finish r s) \<Rightarrow> finish_ok r s)"

lemma error_set: "pg_error (MinisqlParserSetError m g) \<noteq> 0"
  by (simp add: MinisqlParserSetError_def)

lemma newstate_ok:
  assumes s: "stack_ok (q # yyss s)" "values_ok (q # yyss s) (yyvs s)" "14 \<in> set (q # yyss s) \<longrightarrow> pg_root_node (yyglobals s) \<noteq> None"
    "yychar s = YYEMPTY \<or> 0 \<le> yychar s \<and> yychar s \<le> 301" "yychar s \<in> {IDENTIFIER, STRING, NUMBER} \<longrightarrow> yylval s \<noteq> None" "ok (yyinput s)"
    "length (yyss s) < yystacksize s" "200 \<le> yystacksize s" "yystacksize s \<le> YYMAXDEPTH" "yyerrstatus s = 0"
    and m: "loop_measure len s + yy_weight ! q < m"
  shows "verdict_ok ok len m (Some (yynewstate q s))"
proof (cases "yystacksize s \<le> Suc (length (yyss s))")
  case True
  show ?thesis
  proof (cases "YYMAXDEPTH \<le> yystacksize s")
    case True
    with \<open>yystacksize s \<le> Suc (length (yyss s))\<close> show ?thesis
      by (simp add: verdict_ok_def yynewstate_def yysetstate_def yyerror_def finish_ok_def error_set)
  next
    case False
    with True assms show ?thesis
      by (auto simp: verdict_ok_def yynewstate_def yysetstate_def Let_def loop_inv_def loop_measure_def weight_def)
  qed
next
  case False
  with assms show ?thesis
    by (auto simp: verdict_ok_def yynewstate_def yysetstate_def loop_inv_def loop_measure_def weight_def)
qed

lemma no_error_shift: "q < 134 \<Longrightarrow> yypact ! q \<noteq> YYPACT_NINF \<Longrightarrow> yylookup (yypact ! q + YYTERROR) (nat YYTERROR) = Some None"
proof -
  assume q: "q < 134" "yypact ! q \<noteq> YYPACT_NINF"
  have "list_all (\<lambda>c. c \<noteq> 1) yycheck" by (simp add: yycheck_def)
  then show ?thesis by (auto simp: yylookup_def entry_def YYTERROR_def YYLAST_def parser_table_lengths list_all_length)
qed

lemma errlab1_aborts: "stack_ok ss \<Longrightarrow> ss \<noteq> [] \<Longrightarrow> yyerrlab1 ss vs = Some None"
  by (induction ss vs rule: yyerrlab1.induct) (auto simp: entry_def parser_table_lengths no_error_shift)

lemma errlab_ok: "loop_inv ok s \<Longrightarrow> verdict_ok ok len m (yyerrlab s)"
  by (auto simp: verdict_ok_def yyerrlab_def loop_inv_def yyerror_def Let_def errlab1_aborts finish_ok_def error_set)

lemma values_drop: "values_ok ss vs \<Longrightarrow> values_ok (drop n ss) (drop n vs)"
  by (simp add: values_ok_def list_all2_dropI)

lemma values_nth: "values_ok ss vs \<Longrightarrow> i < length ss \<Longrightarrow> valued (ss ! i) \<Longrightarrow> vs ! i \<noteq> None"
  by (auto simp: values_ok_def dest: list_all2_nthD)

lemma values_length: "values_ok ss vs \<Longrightarrow> length vs = length ss"
  by (auto simp: values_ok_def dest: list_all2_lengthD)

lemma reduce_inv:
  assumes inv: "loop_inv ok s" and r: "yydefact ! hd (yyss s) = r" "r \<noteq> 0"
  shows "verdict_ok ok len (loop_measure len s) (yyreduce (roomy slack) r s)"
proof -
  obtain q ss where q: "yyss s = q # ss" using inv by (auto simp: loop_inv_def neq_Nil_conv)
  have st: "stack_ok (q # ss)" "values_ok (q # ss) (yyvs s)" using inv q by (auto simp: loop_inv_def)
  define n where "n = yyr2 ! r"
  have red: "r < 78" "2 \<le> r" "0 < n" "n \<le> length (yy_past ! q)" "list_all (good_goto q r) (yy_past ! q ! (n - 1))"
    "case uses r of None \<Rightarrow> True | Some i \<Rightarrow> list_all valued (([q] # yy_past ! q) ! (n - i))"
    using reduce_ok [of q] st(1) r q unfolding n_def by (auto simp: good_reduce_def)
  have pos: "j < length (q # ss) \<and> (q # ss) ! j \<in> set (([q] # yy_past ! q) ! j)" if "j \<le> n" for j
    using that red(4) fits_nth [of "yy_past ! q" ss "j - 1"] st(1) by (cases j) auto
  have n: "n < length (q # ss)" using pos [of n] by simp
  define p where "p = (q # ss) ! n"
  have dr: "drop n (q # ss) = p # drop (Suc n) (q # ss)" unfolding p_def using n by (rule Cons_nth_drop_Suc [symmetric])
  have "p \<in> set (yy_past ! q ! (n - 1))" using pos [of n] red(3) by (cases n) (auto simp: p_def)
  then obtain g where g: "yygoto p (yyr1 ! r) = Some g" "good_move p g" "yy_weight ! g + 1 < yy_weight ! q + n" "54 \<le> yystos ! g" "g = 14 \<longrightarrow> r = 2"
    using red(5) by (auto simp: list_all_iff good_goto_def n_def split: option.splits)
  let ?d = "\<lambda>i. yyvs s ! (n - i)"
  have d: "case uses r of None \<Rightarrow> True | Some i \<Rightarrow> ?d i \<noteq> None"
  proof (cases "uses r")
    case (Some i)
    then have "valued ((q # ss) ! (n - i))" using red(6) pos [of "n - i"] by (auto simp: list_all_iff)
    with Some show ?thesis using values_nth [OF st(2), of "n - i"] pos [of "n - i"] by auto
  qed simp
  have act: "\<exists>v g'. yyaction (roomy slack) r ?d (yyglobals s) = Some (Some v, g') \<and> (pg_root_node g' = pg_root_node (yyglobals s) \<or> pg_root_node g' \<noteq> None) \<and>
    (r = 2 \<longrightarrow> pg_root_node g' \<noteq> None)"
  proof (cases "r = 2")
    case True
    then show ?thesis using d by (auto simp: yyaction_def MinisqlParserSetRoot_def uses_def)
  next
    case False
    then show ?thesis using action_made [OF d, of "yyglobals s" slack] red(1,2) by (auto simp: made_def)
  qed
  then obtain v g' where v: "yyaction (roomy slack) r ?d (yyglobals s) = Some (Some v, g')"
    "pg_root_node g' = pg_root_node (yyglobals s) \<or> pg_root_node g' \<noteq> None" "r = 2 \<longrightarrow> pg_root_node g' \<noteq> None" by blast
  let ?s = "s\<lparr>yyss := drop n (q # ss), yyvs := Some v # drop n (yyvs s), yyglobals := g'\<rparr>"
  have "yyreduce (roomy slack) r s = Some (yynewstate g ?s)"
    using v(1) n red(1,3) g(1) dr values_length [OF st(2)] q by (simp add: yyreduce_def entry_def parser_table_lengths n_def)
  moreover have "verdict_ok ok len (loop_measure len s) (Some (yynewstate g ?s))"
  proof (rule newstate_ok)
    show "stack_ok (g # yyss ?s)" using move_ok [OF _ g(2), of "drop (Suc n) (q # ss)"] stack_ok_drop [OF st(1), of n] dr by (simp del: stack_ok.simps drop_Suc_Cons)
    show "values_ok (g # yyss ?s) (yyvs ?s)" using values_drop [OF st(2), of n] by (simp add: values_ok_def)
    show "14 \<in> set (g # yyss ?s) \<longrightarrow> pg_root_node (yyglobals ?s) \<noteq> None"
      using inv q v(2,3) g(5) by (auto simp: loop_inv_def dest: in_set_dropD)
    have "weight (q # ss) = weight (take n (q # ss)) + weight (drop n (q # ss))"
      by (metis append_take_drop_id map_append sum_list_append weight_def)
    moreover have "yy_weight ! q + (n - 1) \<le> weight (take n (q # ss))"
      using weight_take [of ss "n - 1"] st(1) n red(3) by (cases n) (auto simp: weight_def)
    ultimately show "loop_measure len ?s + yy_weight ! g < loop_measure len s" using g(3) q by (simp add: loop_measure_def)
  qed (use inv q n in \<open>auto simp: loop_inv_def\<close>)
  ultimately show ?thesis by simp
qed

lemma default_inv: "loop_inv ok s \<Longrightarrow> verdict_ok ok len (loop_measure len s) (yydefault (roomy slack) s)"
proof -
  assume inv: "loop_inv ok s"
  then have "hd (yyss s) < 134" by (cases "yyss s") (auto simp: loop_inv_def)
  then show ?thesis using errlab_ok [OF inv] reduce_inv [OF inv refl] by (simp add: yydefault_def entry_def parser_table_lengths)
qed

text \<open>
  What the parser relies on: the scanner returns, a token other than the end of the input takes some of the input away, the tokens with a value have one, and
  the root of the tree stays as it is.
\<close>

locale token_source =
  fixes scan :: "'i \<Rightarrow> syntax_node option \<Rightarrow> parser_globals \<Rightarrow> (int \<times> 'i \<times> syntax_node option \<times> parser_globals) option"
    and ok :: "'i \<Rightarrow> bool"
    and len :: "'i \<Rightarrow> nat"
  assumes scan_returns: "ok i \<Longrightarrow> \<exists>t i' v' g'. scan i v g = Some (t, i', v', g') \<and> ok i' \<and> 0 \<le> t \<and> t \<le> 301 \<and> len i' \<le> len i \<and> (t \<noteq> 0 \<longrightarrow> len i' < len i) \<and>
      (t \<in> {IDENTIFIER, STRING, NUMBER} \<longrightarrow> v' \<noteq> None) \<and> pg_root_node g' = pg_root_node g"
begin

lemma read_inv:
  assumes "loop_inv ok s"
  shows "\<exists>s'. read_token scan s = Some s' \<and> loop_inv ok s' \<and> loop_measure len s' \<le> loop_measure len s \<and> yyss s' = yyss s \<and> yychar s' \<noteq> YYEMPTY"
proof (cases "yychar s = YYEMPTY")
  case True
  have input: "ok (yyinput s)" using assms by (simp add: loop_inv_def)
  obtain t i' v' g' where t: "scan (yyinput s) (yylval s) (yyglobals s) = Some (t, i', v', g')" "ok i'" "0 \<le> t" "t \<le> 301" "len i' \<le> len (yyinput s)"
    "t \<noteq> 0 \<longrightarrow> len i' < len (yyinput s)" "t \<in> {IDENTIFIER, STRING, NUMBER} \<longrightarrow> v' \<noteq> None" "pg_root_node g' = pg_root_node (yyglobals s)"
    using scan_returns [of "yyinput s" "yylval s" "yyglobals s"] input by blast
  have "(if t \<le> YYEOF then YYEOF else t) = t" using t(3) by (simp add: YYEOF_def)
  then have r: "read_token scan s = Some (s\<lparr>yychar := t, yyinput := i', yylval := v', yyglobals := g'\<rparr>)" (is "_ = Some ?s")
    using True t(1) by (simp add: read_token_def)
  moreover have "loop_inv ok ?s" using assms t(2-4,7,8) by (simp add: loop_inv_def)
  moreover have "loop_measure len ?s \<le> loop_measure len s" using True t(3,5,6) by (auto simp: loop_measure_def YYEMPTY_def)
  moreover have "t \<noteq> YYEMPTY" using t(3) by (simp add: YYEMPTY_def)
  ultimately show ?thesis by simp
qed (use assms in \<open>simp add: read_token_def\<close>)

lemma shift_inv:
  assumes inv: "loop_inv ok s" and c: "yychar s \<noteq> YYEMPTY" and q: "yyss s = q # ss"
    and p: "good_shift q t p" "p \<noteq> 0" "p \<noteq> YYFINAL" and t: "t \<in> {40, 41, 42} \<longrightarrow> yychar s \<in> {IDENTIFIER, STRING, NUMBER}" "t \<noteq> 0 \<Longrightarrow> yychar s \<noteq> 0" "t < 54"
  shows "verdict_ok ok len (loop_measure len s) (Some (yynewstate p (s\<lparr>yyerrstatus := yyerrstatus s - 1,
    yychar := (if yychar s \<noteq> YYEOF then YYEMPTY else yychar s), yyvs := yylval s # yyvs s\<rparr>)))"
proof (rule newstate_ok)
  from p have m: "good_move q p" "t \<noteq> 0" "p \<noteq> 14" "yystos ! p = t" by (auto simp: good_shift_def)
  have ch: "0 < yychar s" using inv c t(2) m(2) by (auto simp: loop_inv_def)
  let ?s = "s\<lparr>yyerrstatus := yyerrstatus s - 1, yychar := (if yychar s \<noteq> YYEOF then YYEMPTY else yychar s), yyvs := yylval s # yyvs s\<rparr>"
  have pq: "stack_ok (p # q # ss)" using move_ok [OF _ m(1), of ss] inv q by (simp add: loop_inv_def del: stack_ok.simps)
  then show "stack_ok (p # yyss ?s)" using q by simp
  have "valued p \<Longrightarrow> yychar s \<in> {IDENTIFIER, STRING, NUMBER}" using m(4) t(1,3) by (auto simp: valued_def)
  moreover have "yychar s \<in> {IDENTIFIER, STRING, NUMBER} \<longrightarrow> yylval s \<noteq> None" "values_ok (yyss s) (yyvs s)"
    using inv unfolding loop_inv_def by blast+
  ultimately have "valued p \<longrightarrow> yylval s \<noteq> None" "values_ok (yyss s) (yyvs s)" by blast+
  then show "values_ok (p # yyss ?s) (yyvs ?s)" by (simp add: values_ok_def)
  show "14 \<in> set (p # yyss ?s) \<longrightarrow> pg_root_node (yyglobals ?s) \<noteq> None" using inv m(3) by (auto simp: loop_inv_def)
  show "loop_measure len ?s + yy_weight ! p < loop_measure len s"
    using ch weight_bounds [of p] pq by (simp add: loop_measure_def YYEMPTY_def YYEOF_def)
qed (use inv in \<open>auto simp: loop_inv_def YYEMPTY_def YYEOF_def IDENTIFIER_def STRING_def NUMBER_def\<close>)

lemma backup_inv:
  assumes inv: "loop_inv ok s"
  shows "verdict_ok ok len (loop_measure len s) (yybackup scan (roomy slack) s)"
proof -
  obtain q ss where q: "yyss s = q # ss" "q < 134" using inv by (cases "yyss s") (auto simp: loop_inv_def)
  obtain s' where s': "read_token scan s = Some s'" "loop_inv ok s'" "loop_measure len s' \<le> loop_measure len s" "yyss s' = q # ss" "yychar s' \<noteq> YYEMPTY"
    using read_inv [OF inv] q(1) by auto
  have mono: "verdict_ok ok len (loop_measure len s') v \<Longrightarrow> verdict_ok ok len (loop_measure len s) v" for v
    using s'(3) by (auto simp: verdict_ok_def split: option.splits verdict.splits)
  show ?thesis
  proof (cases "yypact ! q = YYPACT_NINF")
    case True
    then show ?thesis using default_inv [OF inv] q by (simp add: yybackup_def entry_def parser_table_lengths)
  next
    case False
    have ch: "0 \<le> yychar s'" "yychar s' \<le> 301" using s'(2,5) by (auto simp: loop_inv_def)
    obtain t where t: "(if yychar s' \<le> YYEOF then Some 0 else YYTRANSLATE (yychar s')) = Some t" "t < 54"
      "t \<in> {40, 41, 42} \<longrightarrow> yychar s' \<in> {IDENTIFIER, STRING, NUMBER}" "t \<noteq> 0 \<Longrightarrow> yychar s' \<noteq> 0"
      using translate_ok [OF ch] by (cases "yychar s' \<le> YYEOF") (auto simp: YYEOF_def)
    obtain l where l: "yylookup (yypact ! q + int t) t = Some l" using lookup_some [OF t(2)] by blast
    have step: "yybackup scan (roomy slack) s = (case l of None \<Rightarrow> yydefault (roomy slack) s' | Some p \<Rightarrow>
        if p = 0 then yyerrlab s' else if p = YYFINAL then Some (Finish 0 s')
        else Some (yynewstate p (s'\<lparr>yyerrstatus := yyerrstatus s' - 1,
          yychar := (if yychar s' \<noteq> YYEOF then YYEMPTY else yychar s'), yyvs := yylval s' # yyvs s'\<rparr>)))"
      using False q s'(1) t(1) l by (simp add: yybackup_def entry_def parser_table_lengths)
    show ?thesis
    proof (cases l)
      case None
      then show ?thesis using step mono default_inv [OF s'(2)] by simp
    next
      case (Some p)
      then have sh: "good_shift q t p" using shift_ok [OF q(2) False t(2)] l by simp
      consider "p = 0" | "p = YYFINAL" "p \<noteq> 0" | "p \<noteq> 0" "p \<noteq> YYFINAL" by blast
      then show ?thesis
      proof cases
        case 1
        then show ?thesis using step Some errlab_ok [OF s'(2)] by simp
      next
        case 2
        then have "q = 14" using sh by (simp add: good_shift_def)
        then show ?thesis using 2 step Some s'(2,4) by (simp add: verdict_ok_def finish_ok_def loop_inv_def)
      next
        case 3
        then show ?thesis using step Some mono shift_inv [OF s'(2,5,4) sh 3 t(3,4,2)] by simp
      qed
    qed
  qed
qed

lemma loop_returns:
  assumes "loop_inv ok s"
  shows "\<exists>r s'. yyloop scan (roomy slack) s = Some (r, s') \<and> finish_ok r s'"
  using assms
proof (induction "loop_measure len s" arbitrary: s rule: less_induct)
  case less
  then have b: "verdict_ok ok len (loop_measure len s) (yybackup scan (roomy slack) s)" using backup_inv by blast
  then obtain v where v: "yybackup scan (roomy slack) s = Some v" by (auto simp: verdict_ok_def split: option.splits)
  show ?case
  proof (cases v)
    case (Continue s')
    with b v have "loop_inv ok s'" "loop_measure len s' < loop_measure len s" by (auto simp: verdict_ok_def)
    with less.hyps [of s'] show ?thesis using v Continue by (subst yyloop.simps) simp
  next
    case (Finish r s')
    with b v show ?thesis by (subst yyloop.simps) (simp add: verdict_ok_def)
  qed
qed

lemma parse_returns:
  assumes "ok i"
  shows "\<exists>r s. yyparse scan (roomy slack) i v g = Some (r, s) \<and> finish_ok r s"
proof -
  have "yysetstate (start_state i v g) = Continue (start_state i v g)" by (simp add: yysetstate_def start_state_def YYINITDEPTH_def)
  moreover have "loop_inv ok (start_state i v g)"
    using assms by (simp add: loop_inv_def start_state_def YYINITDEPTH_def YYMAXDEPTH_def YYFINAL_def past_nth values_ok_def valued_def stos_nth
        YYEMPTY_def IDENTIFIER_def STRING_def NUMBER_def)
  ultimately show ?thesis using loop_returns by (simp add: yyparse_def)
qed

end

section \<open>The scanner as the source of tokens\<close>

lemma yylex_token_source: "token_source (yylex (roomy slack)) (\<lambda>s. CHR 0x00 \<notin> set s) length"
  using yylex_returns by unfold_locales blast

interpretation sql: token_source "yylex (roomy slack)" "\<lambda>s. CHR 0x00 \<notin> set s" length for slack
  by (rule yylex_token_source)

section \<open>Properties\<close>



end
