(* ===== verification/Parser_Machine.thy ===== *)
theory Parser_Machine
  imports Parser_Total
begin

text \<open>
  The parser as a machine on trees: the same tables, with the ordered trees of the nodes in the place of the nodes, the remaining tokens in the place of the scanner, and without
  error handling. Every step of the machine is a step of the loop of the parser.
\<close>

section \<open>The machine\<close>

text \<open>The tree of the left side of a rule, from the trees of the symbols of its right side.\<close>

definition add_trees :: "ast list \<Rightarrow> ast list \<Rightarrow> ast list" where
  "add_trees t cs = (case t of [Ast ty v old] \<Rightarrow> [Ast ty v (old @ cs)] | _ \<Rightarrow> [])"

definition where_tree :: "ast list \<Rightarrow> ast" where "where_tree c = Ast kNodeConditions None c"

definition ast_action :: "nat \<Rightarrow> (nat \<Rightarrow> ast list) \<Rightarrow> ast list" where
  "ast_action r d =
     (if r = 22 then [Ast kNodeCreateDB None (d 3)] else if r = 23 then [Ast kNodeDropDB None (d 3)] else if r = 24 then [Ast kNodeShowDB None []]
      else if r = 25 then [Ast kNodeUseDB None (d 2)] else if r = 26 then [Ast kNodeShowTables None []]
      else if r = 27 then [Ast kNodeCreateTable None (d 3 @ [Ast kNodeColumnDefinitionList None (d 5)])]
      else if r = 28 \<or> r = 30 \<or> r = 64 \<or> r = 70 then d 1 @ d 3
      else if r = 32 then [Ast kNodeColumnList (Some ''primary keys'') (d 4)]
      else if r = 33 then [Ast kNodeColumnDefinition (Some ''unique'') (d 1 @ d 2)] else if r = 34 then [Ast kNodeColumnDefinition None (d 1 @ d 2)]
      else if r = 35 then [Ast kNodeColumnType (Some ''int'') []] else if r = 36 then [Ast kNodeColumnType (Some ''float'') []]
      else if r = 37 then [Ast kNodeColumnType (Some ''char'') (d 3)] else if r = 38 then [Ast kNodeDropTable None (d 3)]
      else if r = 39 then [Ast kNodeCreateIndex None (d 3 @ d 5 @ [Ast kNodeColumnList (Some ''index keys'') (d 7)])]
      else if r = 40 then [Ast kNodeCreateIndex None (d 3 @ d 5 @ [Ast kNodeColumnList (Some ''index keys'') (d 7), Ast kNodeIndexType (Some ''index type'') (d 10)])]
      else if r = 41 then [Ast kNodeDropIndex None (d 3)] else if r = 42 then [Ast kNodeShowIndexes None []]
      else if r = 43 then [Ast kNodeSelect None (d 2 @ d 4)] else if r = 44 then [Ast kNodeSelect None (d 2 @ d 4 @ [where_tree (d 6)])]
      else if r = 45 then [Ast kNodeAllColumns None []] else if r = 46 then [Ast kNodeColumnList (Some ''select columns'') (d 1)]
      else if r = 47 \<or> r = 51 then add_trees (d 2) (d 1 @ d 3)
      else if r = 49 then [Ast kNodeConnector (Some ''and'') []] else if r = 50 then [Ast kNodeConnector (Some ''or'') []]
      else if r = 54 then [Ast kNodeNull None []]
      else if 55 \<le> r \<and> r \<le> 62 then [Ast kNodeCompareOperator (Some ([''='', ''<>'', ''<='', ''>='', ''<'', ''>'', ''is'', ''not''] ! (r - 55))) []]
      else if r = 63 then [Ast kNodeInsert None (d 3 @ [Ast kNodeColumnValues None (d 6)])]
      else if r = 66 then [Ast kNodeDelete None (d 3)] else if r = 67 then [Ast kNodeDelete None (d 3 @ [where_tree (d 5)])]
      else if r = 68 then [Ast kNodeUpdate None (d 2 @ [Ast kNodeUpdateValues None (d 4)])]
      else if r = 69 then [Ast kNodeUpdate None (d 2 @ [Ast kNodeUpdateValues None (d 4), where_tree (d 6)])]
      else if r = 72 then [Ast kNodeUpdateValue None (d 1 @ d 3)]
      else if r = 73 then [Ast kNodeTrxBegin None []] else if r = 74 then [Ast kNodeTrxCommit None []] else if r = 75 then [Ast kNodeTrxRollback None []]
      else if r = 76 then [Ast kNodeQuit None []] else if r = 77 then [Ast kNodeExecFile None (d 2)]
      else d 1)"

text \<open>The symbols whose trees an action reads.\<close>

definition reads :: "nat \<Rightarrow> nat list" where
  "reads r =
     (if r \<in> set [22, 23, 37, 38, 41, 66] then [3] else if r \<in> set [25, 77] then [2] else if r = 27 then [3, 5]
      else if r \<in> set [28, 30, 64, 70, 72] then [1, 3] else if r = 32 then [4] else if r \<in> set [33, 34] then [1, 2] else if r = 39 then [3, 5, 7]
      else if r = 40 then [3, 5, 7, 10] else if r = 43 then [2, 4] else if r = 44 then [2, 4, 6] else if r \<in> set [47, 51] then [1, 2, 3]
      else if r = 63 then [3, 6] else if r = 67 then [3, 5] else if r = 68 then [2, 4] else if r = 69 then [2, 4, 6]
      else if r \<in> set [24, 26, 35, 36, 42, 45, 49, 50, 54, 55, 56, 57, 58, 59, 60, 61, 62, 73, 74, 75, 76] then [] else [1])"

type_synonym token = "int \<times> ast option"
type_synonym machine = "nat list \<times> ast list option list \<times> token list"

definition next_state :: "nat \<Rightarrow> nat \<Rightarrow> nat option" where
  "next_state q t = (if yypact ! q = YYPACT_NINF then None else case yylookup (yypact ! q + int t) t of Some (Some p) \<Rightarrow> Some p | _ \<Rightarrow> None)"

definition token_code :: "token list \<Rightarrow> nat" where
  "token_code ts = (case ts of [] \<Rightarrow> 0 | (c, a) # _ \<Rightarrow> yytranslate ! nat c)"

text \<open>The symbols of a right side. A symbol that an action does not read has no tree.\<close>

definition positions :: "nat \<Rightarrow> nat list" where "positions n = [1..<Suc n]"

definition areduce :: "machine \<Rightarrow> machine option" where
  "areduce = (\<lambda>(ss, fs, ts).
     let r = yydefact ! hd ss; n = yyr2 ! r; d = (\<lambda>i. fs ! (n - i)) in
     if r < 2 \<or> 78 \<le> r \<or> n = 0 \<or> length ss \<le> n \<or> list_ex (\<lambda>i. d i = None) (reads r) \<or> list_ex (\<lambda>i. i \<notin> set (reads r) \<and> d i \<noteq> None) (positions n) \<or> uses r = Some 1 \<and> d 1 = Some [] \<or> uses r = Some 2 \<and> length (the (d 2)) \<noteq> 1 then None
     else do {
       g \<leftarrow> yygoto (hd (drop n ss)) (yyr1 ! r);
       ensure (g < 134 \<and> (g = 14 \<longrightarrow> r = 2));
       Some (g # drop n ss, Some (ast_action r (the \<circ> d)) # drop n fs, ts) })"

definition astep :: "machine \<Rightarrow> machine option" where
  "astep = (\<lambda>(ss, fs, ts).
     if ss = [] \<or> 9999 \<le> length ss then None
     else case next_state (hd ss) (token_code ts) of
       None \<Rightarrow> areduce (ss, fs, ts)
     | Some p \<Rightarrow>
         (case ts of [] \<Rightarrow> None
          | (c, a) # ts \<Rightarrow> if p = 0 \<or> p = YYFINAL \<or> p = 14 \<or> 134 \<le> p then None else Some (p # ss, map_option (\<lambda>x. [x]) a # fs, ts)))"

definition reaches :: "machine \<Rightarrow> machine \<Rightarrow> bool" where "reaches = (\<lambda>c d. astep c = Some d)\<^sup>*\<^sup>*"

lemma reaches_refl: "reaches c c"
  by (simp add: reaches_def)

lemma reaches_step: "astep c = Some d \<Longrightarrow> reaches d e \<Longrightarrow> reaches c e"
  unfolding reaches_def by (rule converse_rtranclp_into_rtranclp)

lemma reaches_cases: "reaches c e \<Longrightarrow> c = e \<or> (\<exists>d. astep c = Some d \<and> reaches d e)"
  unfolding reaches_def by (blast elim: converse_rtranclpE)

lemma reaches_trans: "reaches c d \<Longrightarrow> reaches d e \<Longrightarrow> reaches c e"
  unfolding reaches_def by (rule rtranclp_trans)

section \<open>Actions on nodes and on trees\<close>

lemma add_child_siblings:
  "siblings (SyntaxNodeAddChildren n child) = (case siblings n of Ast ty v cs # rest \<Rightarrow> Ast ty v (cs @ forest child) # rest | [] \<Rightarrow> [])"
  by (cases "(n, child)" rule: SyntaxNodeAddChildren.cases) (simp_all add: siblings_append forest_def)

lemma add_sibling_forest: "node \<noteq> None \<Longrightarrow> forest (SyntaxNodeAddSibling node sib) = forest node @ forest sib"
  by (cases "(node, sib)" rule: SyntaxNodeAddSibling.cases) (simp_all add: siblings_append forest_def)

lemma forest_some: "forest (Some n) = siblings n"
  by (simp add: forest_def)

lemma forest_empty: "forest v = [] \<longleftrightarrow> v = None"
proof -
  have "siblings n \<noteq> []" for n by (cases n) simp
  then show ?thesis by (simp add: forest_def split: option.splits)
qed

text \<open>The action of a rule makes the tree of the rule.\<close>

definition makes :: "reduced \<Rightarrow> ast list \<Rightarrow> bool" where
  "makes red t = (case red of Some (v, g) \<Rightarrow> forest v = t | None \<Rightarrow> True)"

lemma makes_simps [simp]: "makes (Some (v, g)) t \<longleftrightarrow> forest v = t" "makes None t"
  by (simp_all add: makes_def)

lemmas tree_simps = action_defs forest_some forest_def [symmetric] add_child_siblings add_sibling_forest where_tree_def add_trees_def

lemma database_makes: "22 \<le> r \<Longrightarrow> r \<le> 26 \<Longrightarrow> makes (database_action (roomy slack) r d g) (ast_action r (forest \<circ> d))"
  by (simp add: database_action_def ast_action_def tree_simps)

lemma index_makes: "39 \<le> r \<Longrightarrow> r \<le> 42 \<Longrightarrow> makes (index_action (roomy slack) r d g) (ast_action r (forest \<circ> d))"
  by (simp add: index_action_def ast_action_def tree_simps)

lemma table_makes:
  assumes "27 \<le> r" "r \<le> 38" "uses r = Some 1 \<Longrightarrow> d 1 \<noteq> None"
  shows "makes (table_action (roomy slack) r d g) (ast_action r (forest \<circ> d))"
proof -
  have "r = 27 \<or> r = 28 \<or> r = 29 \<or> r = 30 \<or> r = 31 \<or> r = 32 \<or> r = 33 \<or> r = 34 \<or> r = 35 \<or> r = 36 \<or> r = 37 \<or> r = 38" using assms(1,2) by presburger
  then show ?thesis using assms(3) by (elim disjE) (simp_all add: table_action_def ast_action_def tree_simps uses_def)
qed

lemma value_makes: "52 \<le> r \<Longrightarrow> r \<le> 62 \<Longrightarrow> makes (value_action (roomy slack) r d g) (ast_action r (forest \<circ> d))"
  using operator_text [of r] by (simp add: value_action_def ast_action_def tree_simps)

lemma modify_makes:
  assumes "63 \<le> r" "r \<le> 72" "uses r = Some 1 \<Longrightarrow> d 1 \<noteq> None"
  shows "makes (modify_action (roomy slack) r d g) (ast_action r (forest \<circ> d))"
proof -
  have "r = 63 \<or> r = 64 \<or> r = 65 \<or> r = 66 \<or> r = 67 \<or> r = 68 \<or> r = 69 \<or> r = 70 \<or> r = 71 \<or> r = 72" using assms(1,2) by presburger
  then show ?thesis using assms(3) by (elim disjE) (simp_all add: modify_action_def ast_action_def tree_simps uses_def)
qed

lemma select_makes:
  assumes "43 \<le> r" "r \<le> 51" "uses r = Some 2 \<Longrightarrow> length (forest (d 2)) = 1"
  shows "makes (select_action (roomy slack) r d g) (ast_action r (forest \<circ> d))"
proof (cases "r = 47 \<or> r = 51")
  case True
  then obtain ty v cs where f: "forest (d 2) = [Ast ty v cs]" using assms(3) by (auto simp: uses_def length_Suc_conv; case_tac y; simp)
  then obtain n where n: "d 2 = Some n" by (cases "d 2") (auto simp: forest_def)
  show ?thesis using True f n by (auto simp: select_action_def ast_action_def tree_simps)
next
  case False
  then have "r = 43 \<or> r = 44 \<or> r = 45 \<or> r = 46 \<or> r = 48 \<or> r = 49 \<or> r = 50" using assms(1,2) by linarith
  then show ?thesis by (elim disjE) (simp_all add: select_action_def ast_action_def tree_simps)
qed

lemma action_makes:
  assumes "2 \<le> r" "r < 78" "uses r = Some 1 \<Longrightarrow> d 1 \<noteq> None" "uses r = Some 2 \<Longrightarrow> length (forest (d 2)) = 1"
  shows "makes (yyaction (roomy slack) r d g) (ast_action r (forest \<circ> d))"
proof -
  consider "r \<le> 21" | "22 \<le> r" "r \<le> 26" | "39 \<le> r" "r \<le> 42" | "27 \<le> r" "r \<le> 38" | "43 \<le> r" "r \<le> 51" | "52 \<le> r" "r \<le> 62" | "63 \<le> r" "r \<le> 72" | "73 \<le> r"
    by linarith
  then show ?thesis
  proof cases
    case 1
    then show ?thesis using assms(1) by (simp add: yyaction_def ast_action_def)
  next
    case 2
    then show ?thesis using database_makes [of r slack d g] by (simp add: yyaction_def)
  next
    case 3
    then show ?thesis using index_makes [of r slack d g] by (simp add: yyaction_def)
  next
    case 4
    then show ?thesis using table_makes [of r d slack g] assms(3) by (simp add: yyaction_def)
  next
    case 5
    then show ?thesis using select_makes [of r d slack g] assms(4) by (simp add: yyaction_def)
  next
    case 6
    then show ?thesis using value_makes [of r slack d g] by (simp add: yyaction_def)
  next
    case 7
    then show ?thesis using modify_makes [of r d slack g] assms(3) by (simp add: yyaction_def)
  next
    case 8
    then have "r = 73 \<or> r = 74 \<or> r = 75 \<or> r = 76 \<or> r = 77" using assms(2) by linarith
    then show ?thesis by (elim disjE) (simp_all add: yyaction_def other_action_def ast_action_def tree_simps)
  qed
qed

lemma ast_action_reads:
  assumes "list_all (\<lambda>i. d i = d' i) (reads r)" "r < 78"
  shows "ast_action r d = ast_action r d'"
proof -
  have "r \<in> set (take 78 yy_states)" using assms(2) by (simp add: yy_states_upt)
  then show ?thesis using assms(1) unfolding yy_states_def
    by (simp add: numeral_eq_Suc [of num.One]) (elim disjE; simp add: ast_action_def reads_def)
qed

section \<open>The blocks of a tree\<close>

text \<open>The sizes of the blocks with a terminator behind them, for the values of a tree.\<close>

fun tree_blocks :: "ast \<Rightarrow> nat list" where
  "tree_blocks (Ast ty v cs) = overrun ty v @ concat (map tree_blocks cs)"

definition forest_blocks :: "ast list \<Rightarrow> nat set" where "forest_blocks f = set (concat (map tree_blocks f))"

lemma forest_blocks_simps [simp]:
  "forest_blocks [] = {}" "forest_blocks (f @ h) = forest_blocks f \<union> forest_blocks h"
  "forest_blocks (Ast ty v cs # f) = set (overrun ty v) \<union> forest_blocks cs \<union> forest_blocks f"
  by (auto simp: forest_blocks_def)

definition some_blocks :: "ast list option \<Rightarrow> nat set" where "some_blocks f = (case f of None \<Rightarrow> {} | Some f \<Rightarrow> forest_blocks f)"

lemma some_blocks_simps [simp]: "some_blocks None = {}" "some_blocks (Some f) = forest_blocks f"
  by (simp_all add: some_blocks_def)

definition token_blocks :: "ast option \<Rightarrow> nat set" where "token_blocks a = some_blocks (map_option (\<lambda>x. [x]) a)"

text \<open>The blocks that the nodes of a rule add, and those of the tree of its left side.\<close>

definition rule_blocks :: "nat \<Rightarrow> nat set" where "rule_blocks r = forest_blocks (ast_action r (\<lambda>_. []))"

lemma rule_cases:
  assumes "r < 78" "\<And>q. q \<in> set (take 78 yy_states) \<Longrightarrow> P q"
  shows "P r"
  using assms by (simp add: yy_states_upt)

lemma ast_action_blocks:
  assumes "2 \<le> r" "r < 78" "uses r = Some 2 \<longrightarrow> length (f 2) = 1"
  shows "forest_blocks (ast_action r f) = rule_blocks r \<union> (\<Union>i\<in>set (reads r). forest_blocks (f i))"
proof (cases "r = 47 \<or> r = 51")
  case True
  then obtain ty v cs where "f 2 = [Ast ty v cs]" using assms(3) by (auto simp: uses_def length_Suc_conv; case_tac y; simp)
  with True show ?thesis by (auto simp: rule_blocks_def ast_action_def reads_def add_trees_def)
next
  case False
  have "r \<in> set (take 78 yy_states)" using assms(2) by (simp add: yy_states_upt)
  then show ?thesis using assms(1) False unfolding yy_states_def rule_blocks_def
    by (simp add: numeral_eq_Suc [of num.One]) (elim disjE; simp add: ast_action_def reads_def where_tree_def Un_ac)
qed

definition logs :: "parser_globals \<Rightarrow> nat set \<Rightarrow> reduced \<Rightarrow> bool" where
  "logs g B red = (case red of Some (v, g') \<Rightarrow> set (pg_blocks g') = B \<union> set (pg_blocks g) | None \<Rightarrow> True)"

lemma logs_simps [simp]: "logs g B (Some (v, g')) \<longleftrightarrow> set (pg_blocks g') = B \<union> set (pg_blocks g)" "logs g B None"
  by (simp_all add: logs_def)

lemma yyaction_blocks:
  assumes "2 \<le> r" "r < 78"
  shows "logs g (rule_blocks r) (yyaction (roomy slack) r d g)"
proof -
  have "r \<in> set (take 78 yy_states)" using assms(2) by (simp add: yy_states_upt)
  then show ?thesis using assms(1) unfolding yy_states_def rule_blocks_def
    by (simp add: numeral_eq_Suc [of num.One]) (elim disjE; simp add: yyaction_def database_action_def table_action_def index_action_def select_action_def
        value_action_def modify_action_def other_action_def action_defs ast_action_def where_tree_def add_trees_def Un_ac bind_split)
qed

lemma reads_positions:
  assumes "2 \<le> r" "r < 78"
  shows "set (reads r) \<subseteq> set (positions (yyr2 ! r))"
proof -
  have "r \<in> set (take 78 yy_states)" using assms(2) by (simp add: yy_states_upt)
  then show ?thesis using assms(1) unfolding yy_states_def
    by (simp add: numeral_eq_Suc [of num.One]) (elim disjE; simp add: reads_def positions_def yyr2_def)
qed

definition stack_blocks :: "ast list option list \<Rightarrow> nat set" where "stack_blocks fs = (\<Union>f\<in>set fs. some_blocks f)"

lemma stack_blocks_cons [simp]: "stack_blocks (f # fs) = some_blocks f \<union> stack_blocks fs" "stack_blocks [] = {}"
  by (simp_all add: stack_blocks_def)

lemma stack_blocks_drop:
  assumes "n \<le> length fs"
  shows "stack_blocks fs = (\<Union>i\<in>set (positions n). some_blocks (fs ! (n - i))) \<union> stack_blocks (drop n fs)"
proof -
  have "(\<lambda>i. fs ! (n - i)) ` set (positions n) = set (take n fs)"
  proof -
    have "(\<lambda>i. n - i) ` set (positions n) = {0..<n}"
    proof (intro equalityI subsetI)
      fix x assume "x \<in> {0..<n}"
      then show "x \<in> (\<lambda>i. n - i) ` set (positions n)" by (intro image_eqI [of _ _ "n - x"]) (auto simp: positions_def)
    qed (auto simp: positions_def)
    then show ?thesis using nth_image [OF assms] by (metis image_image)
  qed
  then have "(\<Union>i\<in>set (positions n). some_blocks (fs ! (n - i))) = (\<Union>f\<in>set (take n fs). some_blocks f)" by (metis (no_types) image_image)
  moreover have "set fs = set (take n fs) \<union> set (drop n fs)" by (metis append_take_drop_id set_append)
  ultimately show ?thesis by (simp add: stack_blocks_def)
qed

lemma read_blocks:
  assumes "\<And>i. i \<in> R \<Longrightarrow> d i \<noteq> None" "\<And>i. i \<in> P \<Longrightarrow> i \<notin> R \<Longrightarrow> d i = None" "R \<subseteq> P"
  shows "(\<Union>i\<in>P. some_blocks (d i)) = (\<Union>i\<in>R. forest_blocks (the (d i)))"
proof -
  have "some_blocks (d i) = (if i \<in> R then forest_blocks (the (d i)) else {})" if "i \<in> P" for i
    using assms(1,2) [of i] that by (auto simp: some_blocks_def)
  then have "(\<Union>i\<in>P. some_blocks (d i)) = (\<Union>i\<in>P. if i \<in> R then forest_blocks (the (d i)) else {})" by simp
  also have "\<dots> = (\<Union>i\<in>R. forest_blocks (the (d i)))" using assms(3) by (auto split: if_splits)
  finally show ?thesis .
qed

section \<open>The steps of the parser\<close>

definition quiet :: "parser_globals \<Rightarrow> nat set \<Rightarrow> parser_globals \<Rightarrow> bool" where
  "quiet g B g' = (pg_root_node g' = pg_root_node g \<and> pg_errors g' = pg_errors g \<and> set (pg_blocks g') = B \<union> set (pg_blocks g))"

text \<open>The scanner gives the tokens, with the trees of their values, and then the end of the input.\<close>

inductive delivers :: "'i lexer \<Rightarrow> 'i \<Rightarrow> token list \<Rightarrow> bool" for scan :: "'i lexer" where
  deliver_end: "(\<And>v g. \<exists>i' v' g'. scan i v g = Some (0, i', v', g') \<and> quiet g {} g') \<Longrightarrow> delivers scan i []"
| deliver_token: "(\<And>v g. \<exists>v' g'. scan i v g = Some (c, i', v', g') \<and> quiet g (token_blocks a) g' \<and> (a = None \<or> (\<exists>n. v' = Some n \<and> siblings n = [the a]))) \<Longrightarrow>
    0 < c \<Longrightarrow> c \<le> 301 \<Longrightarrow> delivers scan i' ts \<Longrightarrow> delivers scan i ((c, a) # ts)"

inductive_cases delivers_end: "delivers scan i []"
inductive_cases delivers_token: "delivers scan i ((c, a) # ts)"

definition pending :: "'i lexer \<Rightarrow> 'i yy_state \<Rightarrow> token list \<Rightarrow> bool" where
  "pending scan s ts \<longleftrightarrow> yychar s = YYEMPTY \<and> delivers scan (yyinput s) ts \<or>
     (case ts of [] \<Rightarrow> yychar s = 0
      | (c, a) # ts' \<Rightarrow> yychar s = c \<and> 0 < c \<and> c \<le> 301 \<and> (a = None \<or> (\<exists>n. yylval s = Some n \<and> siblings n = [the a])) \<and> delivers scan (yyinput s) ts')"

definition ahead :: "'i yy_state \<Rightarrow> token list \<Rightarrow> nat set" where
  "ahead s ts = (if yychar s = YYEMPTY then {} else case ts of [] \<Rightarrow> {} | (c, a) # _ \<Rightarrow> token_blocks a)"

definition logged :: "nat set \<Rightarrow> parser_globals \<Rightarrow> ast list option list \<Rightarrow> nat set \<Rightarrow> bool" where
  "logged B g fs A \<longleftrightarrow> set (pg_blocks g) = B \<union> stack_blocks fs \<union> A"

definition config :: "'i lexer \<Rightarrow> (int \<times> string option \<times> (int \<times> int \<times> string) list) \<times> nat set \<Rightarrow> 'i yy_state \<Rightarrow> machine \<Rightarrow> bool" where
  "config scan e s = (\<lambda>(ss, fs, ts). yyss s = ss \<and> ss \<noteq> [] \<and> list_all (\<lambda>q. q < 134) ss \<and> length fs = length ss \<and>
     list_all2 (\<lambda>v f. f = None \<or> f = Some (forest v)) (yyvs s) fs \<and> length ss < yystacksize s \<and> 200 \<le> yystacksize s \<and> yystacksize s \<le> YYMAXDEPTH \<and>
     yyerrstatus s = 0 \<and> pg_errors (yyglobals s) = fst e \<and>
     logged (snd e) (yyglobals s) fs (ahead s ts) \<and> pending scan s ts \<and> (hd ss = 14 \<longrightarrow> hd fs = Some (forest (pg_root_node (yyglobals s)))))"

lemma newstate_continue:
  assumes "length (yyss s) < yystacksize s" "200 \<le> yystacksize s" "yystacksize s \<le> YYMAXDEPTH" "Suc (length (yyss s)) < YYMAXDEPTH"
  shows "\<exists>n. yynewstate p s = Continue (s\<lparr>yyss := p # yyss s, yystacksize := n\<rparr>) \<and> Suc (length (yyss s)) < n \<and> 200 \<le> n \<and> n \<le> YYMAXDEPTH"
proof (cases "yystacksize s \<le> Suc (length (yyss s))")
  case True
  with assms show ?thesis
    by (intro exI [of _ "if YYMAXDEPTH < yystacksize s * 2 then YYMAXDEPTH else yystacksize s * 2"]) (auto simp: yynewstate_def yysetstate_def Let_def)
next
  case False
  with assms show ?thesis by (intro exI [of _ "yystacksize s"]) (simp add: yynewstate_def yysetstate_def)
qed

lemma loop_continue: "yybackup scan slack s = Some (Continue s') \<Longrightarrow> yyloop scan slack s = yyloop scan slack s'"
  by (subst yyloop.simps) simp

lemma read_config:
  assumes "config scan e s (ss, fs, ts)"
  shows "\<exists>s'. read_token scan s = Some s' \<and> config scan e s' (ss, fs, ts) \<and> yychar s' \<noteq> YYEMPTY"
proof (cases "yychar s = YYEMPTY")
  case True
  then have d: "delivers scan (yyinput s) ts" using assms by (auto simp: config_def pending_def YYEMPTY_def split: list.splits)
  show ?thesis
  proof (cases ts)
    case Nil
    with d obtain i' v' g' where "scan (yyinput s) (yylval s) (yyglobals s) = Some (0, i', v', g')" "quiet (yyglobals s) {} g'"
      by (blast elim: delivers_end)
    with True Nil assms show ?thesis
      by (auto simp: read_token_def config_def pending_def quiet_def ahead_def logged_def YYEMPTY_def YYEOF_def)
  next
    case (Cons t ts')
    obtain c a where t: "t = (c, a)" by (cases t)
    from d Cons t obtain i' where i: "0 < c" "c \<le> 301" "delivers scan i' ts'"
      "\<exists>v' g'. scan (yyinput s) (yylval s) (yyglobals s) = Some (c, i', v', g') \<and> quiet (yyglobals s) (token_blocks a) g' \<and> (a = None \<or> (\<exists>n. v' = Some n \<and> siblings n = [the a]))"
      by (blast elim: delivers_token)
    then obtain v' g' where "scan (yyinput s) (yylval s) (yyglobals s) = Some (c, i', v', g')" "quiet (yyglobals s) (token_blocks a) g'"
      "a = None \<or> (\<exists>n. v' = Some n \<and> siblings n = [the a])" by blast
    with True Cons t i(1-3) assms show ?thesis
      by (auto simp: read_token_def config_def pending_def quiet_def ahead_def logged_def YYEMPTY_def YYEOF_def)
  qed
qed (use assms in \<open>simp add: read_token_def\<close>)

lemma uses_reads:
  assumes "uses r = Some i" "2 \<le> r" "r < 78"
  shows "i \<in> set (reads r)"
proof -
  have "r \<in> set (take 78 yy_states)" using assms(3) by (simp add: yy_states_upt)
  then show ?thesis using assms(1,2) unfolding yy_states_def
    by (simp add: numeral_eq_Suc [of num.One]) (elim disjE; simp add: uses_def reads_def)
qed

lemma none_or_some: "(if P then None else x) = Some m \<longleftrightarrow> \<not> P \<and> x = Some m"
  by simp

lemma areduce_some:
  assumes "areduce (ss, fs, ts) = Some m" and "r = yydefact ! hd ss" "n = yyr2 ! r" "d = (\<lambda>i. fs ! (n - i))"
  shows "2 \<le> r" "r < 78" "0 < n" "n < length ss" "list_all (\<lambda>i. d i \<noteq> None) (reads r)" "list_all (\<lambda>i. i \<in> set (reads r) \<or> d i = None) (positions n)" "uses r = Some 1 \<longrightarrow> d 1 \<noteq> Some []"
    "uses r = Some 2 \<longrightarrow> length (the (d 2)) = 1"
    "\<exists>g. yygoto (hd (drop n ss)) (yyr1 ! r) = Some g \<and> g < 134 \<and> (g = 14 \<longrightarrow> r = 2) \<and> m = (g # drop n ss, Some (ast_action r (the \<circ> d)) # drop n fs, ts)"
proof -
  have *: "\<not> (r < 2 \<or> 78 \<le> r \<or> n = 0 \<or> length ss \<le> n \<or> list_ex (\<lambda>i. d i = None) (reads r) \<or> list_ex (\<lambda>i. i \<notin> set (reads r) \<and> d i \<noteq> None) (positions n) \<or> uses r = Some 1 \<and> d 1 = Some [] \<or> uses r = Some 2 \<and> length (the (d 2)) \<noteq> 1) \<and>
    do { g \<leftarrow> yygoto (hd (drop n ss)) (yyr1 ! r); ensure (g < 134 \<and> (g = 14 \<longrightarrow> r = 2)); Some (g # drop n ss, Some (ast_action r (the \<circ> d)) # drop n fs, ts) } = Some m"
    using assms(1) unfolding areduce_def Let_def prod.case assms(2-4) unfolding none_or_some .
  then show "2 \<le> r" "r < 78" "0 < n" "n < length ss" "list_all (\<lambda>i. d i \<noteq> None) (reads r)" "list_all (\<lambda>i. i \<in> set (reads r) \<or> d i = None) (positions n)" "uses r = Some 1 \<longrightarrow> d 1 \<noteq> Some []"
    "uses r = Some 2 \<longrightarrow> length (the (d 2)) = 1" by (auto simp: list_ex_iff list_all_iff)
  show "\<exists>g. yygoto (hd (drop n ss)) (yyr1 ! r) = Some g \<and> g < 134 \<and> (g = 14 \<longrightarrow> r = 2) \<and> m = (g # drop n ss, Some (ast_action r (the \<circ> d)) # drop n fs, ts)"
    using conjunct2 [OF *] by (auto split: bind_splits if_splits)
qed

lemma reduce_config:
  assumes c: "config scan e s (ss, fs, ts)" and m: "areduce (ss, fs, ts) = Some m" and l: "length ss < 9999"
  shows "\<exists>s'. yydefault (roomy slack) s = Some (Continue s') \<and> config scan e s' m"
proof -
  define r where "r = yydefact ! hd ss"
  define n where "n = yyr2 ! r"
  let ?d = "\<lambda>i. fs ! (n - i)"
  obtain g where g: "2 \<le> r" "r < 78" "0 < n" "n < length ss" "list_all (\<lambda>i. ?d i \<noteq> None) (reads r)" "list_all (\<lambda>i. i \<in> set (reads r) \<or> ?d i = None) (positions n)" "uses r = Some 1 \<longrightarrow> ?d 1 \<noteq> Some []"
    "uses r = Some 2 \<longrightarrow> length (the (?d 2)) = 1" "yygoto (hd (drop n ss)) (yyr1 ! r) = Some g" "g < 134" "g = 14 \<longrightarrow> r = 2"
    "m = (g # drop n ss, Some (ast_action r (the \<circ> ?d)) # drop n fs, ts)"
    using areduce_some [OF m r_def n_def refl] by (elim exE conjE) (rule that)
  have v: "length (yyvs s) = length ss" "\<And>i. i < length ss \<Longrightarrow> fs ! i = None \<or> fs ! i = Some (forest (yyvs s ! i))"
    using c by (auto simp: config_def dest: list_all2_lengthD list_all2_nthD2)
  let ?v = "\<lambda>i. yyvs s ! (n - i)"
  have rd: "i \<in> set (reads r) \<Longrightarrow> the (?d i) = forest (?v i)" for i
    using g(4,5) v(2) [of "n - i"] by (auto simp: list_all_iff)
  have same: "ast_action r (the \<circ> ?d) = ast_action r (forest \<circ> ?v)"
    by (rule ast_action_reads) (use rd g(2) in \<open>auto simp: list_all_iff\<close>)
  have u: "i \<in> set (reads r)" if "uses r = Some i" for i
    using uses_reads [OF that g(1,2)] .
  have u1: "uses r = Some 1 \<Longrightarrow> ?v 1 \<noteq> None"
    using u [of 1] rd [of 1] g(5,7) by (cases "?v 1") (auto simp: list_all_iff forest_def)
  have u2: "uses r = Some 2 \<Longrightarrow> length (forest (?v 2)) = 1" using u [of 2] rd [of 2] g(8) by auto
  have "uses r = Some i \<Longrightarrow> i = 1 \<or> i = 2" for i by (auto simp: uses_def split: if_splits)
  then have cs: "case uses r of None \<Rightarrow> True | Some i \<Rightarrow> ?v i \<noteq> None"
    using u1 u2 by (cases "uses r") (auto simp: forest_def split: option.splits)
  have "\<exists>w g'. yyaction (roomy slack) r ?v (yyglobals s) = Some (w, g') \<and> pg_errors g' = pg_errors (yyglobals s) \<and> (r = 2 \<longrightarrow> pg_root_node g' = w)"
  proof (cases "r = 2")
    case True
    then show ?thesis by (simp add: yyaction_def MinisqlParserSetRoot_def)
  next
    case False
    then show ?thesis using action_made [OF cs, of "yyglobals s" slack] g(1,2) by (auto simp: made_def)
  qed
  then obtain w g' where w: "yyaction (roomy slack) r ?v (yyglobals s) = Some (w, g')" "pg_errors g' = pg_errors (yyglobals s)" "r = 2 \<longrightarrow> pg_root_node g' = w" by blast
  have fw: "forest w = ast_action r (the \<circ> ?d)"
    using action_makes [OF g(1,2) u1 u2, of slack "yyglobals s"] w(1) same by simp
  have log: "logged (snd e) g' (Some (ast_action r (the \<circ> ?d)) # drop n fs) (ahead s ts)"
  proof -
    have "(\<Union>i\<in>set (positions n). some_blocks (?d i)) = (\<Union>i\<in>set (reads r). forest_blocks (the (?d i)))"
      by (rule read_blocks) (use g(5,6) reads_positions [OF g(1,2)] in \<open>auto simp: list_all_iff n_def\<close>)
    moreover have "length fs = length ss" "set (pg_blocks (yyglobals s)) = snd e \<union> stack_blocks fs \<union> ahead s ts" using c by (simp_all add: config_def logged_def)
    moreover have "forest_blocks (ast_action r (the \<circ> ?d)) = rule_blocks r \<union> (\<Union>i\<in>set (reads r). forest_blocks (the (?d i)))"
      using ast_action_blocks [OF g(1,2), of "the \<circ> ?d"] g(8) by simp
    moreover have "stack_blocks fs = (\<Union>i\<in>set (positions n). some_blocks (?d i)) \<union> stack_blocks (drop n fs)"
      using stack_blocks_drop [of n fs] g(4) calculation(2) by simp
    moreover have "set (pg_blocks g') = rule_blocks r \<union> set (pg_blocks (yyglobals s))"
      using yyaction_blocks [OF g(1,2), of "yyglobals s" slack ?v] w(1) by simp
    ultimately show ?thesis unfolding logged_def stack_blocks_cons some_blocks_simps by (simp only: Un_ac)
  qed
  let ?s = "s\<lparr>yyss := drop n ss, yyvs := w # drop n (yyvs s), yyglobals := g'\<rparr>"
  have "length (yyss ?s) < yystacksize ?s" "200 \<le> yystacksize ?s" "yystacksize ?s \<le> YYMAXDEPTH" "Suc (length (yyss ?s)) < YYMAXDEPTH"
    using c l g(3,4) by (auto simp: config_def YYMAXDEPTH_def)
  from newstate_continue [OF this, of g] obtain k where
    k: "yynewstate g ?s = Continue (?s\<lparr>yyss := g # drop n ss, yystacksize := k\<rparr>)" "Suc (length (drop n ss)) < k" "200 \<le> k" "k \<le> YYMAXDEPTH" by auto
  have "yydefault (roomy slack) s = Some (yynewstate g ?s)"
    using c g(1-4,9) w(1) v(1) by (cases ss) (auto simp: yydefault_def yyreduce_def config_def entry_def parser_table_lengths r_def n_def)
  moreover have "config scan e (?s\<lparr>yyss := g # drop n ss, yystacksize := k\<rparr>) m"
    using c g(4,10,11) k(2-4) w(2,3) fw log
    by (auto simp: config_def g(12) ahead_def pending_def list_all2_dropI list_all_iff dest: in_set_dropD split: list.splits)
  ultimately show ?thesis using k(1) by auto
qed

lemma next_state_none:
  assumes "q < 134" "t < 54" "next_state q t = None" "yypact ! q \<noteq> YYPACT_NINF"
  shows "yylookup (yypact ! q + int t) t = Some None"
  using assms lookup_some [OF assms(2), of "yypact ! q + int t"] by (auto simp: next_state_def split: option.splits)

lemma token_config:
  assumes "config scan e s (ss, fs, ts)" "yychar s \<noteq> YYEMPTY"
  shows "(if yychar s \<le> YYEOF then Some 0 else YYTRANSLATE (yychar s)) = Some (token_code ts)" "token_code ts < 54"
proof -
  have p: "case ts of [] \<Rightarrow> yychar s = 0 | (c, a) # ts' \<Rightarrow> yychar s = c \<and> 0 < c \<and> c \<le> 301"
    using assms by (cases ts) (auto simp: config_def pending_def)
  have "0 < c \<Longrightarrow> c \<le> 301 \<Longrightarrow> YYTRANSLATE c = Some (yytranslate ! nat c) \<and> yytranslate ! nat c < 54" for c
    using translate_ok [of c] by (auto simp: YYTRANSLATE_def YYMAXUTOK_def entry_def parser_table_lengths)
  with p show "(if yychar s \<le> YYEOF then Some 0 else YYTRANSLATE (yychar s)) = Some (token_code ts)" "token_code ts < 54"
    by (cases ts; auto simp: YYEOF_def token_code_def)+
qed

lemma step_config:
  assumes c: "config scan e s m" and st: "astep m = Some m'"
  shows "\<exists>s'. yyloop scan (roomy slack) s = yyloop scan (roomy slack) s' \<and> config scan e s' m'"
proof -
  obtain ss fs ts where m: "m = (ss, fs, ts)" by (cases m)
  define q where "q = hd ss"
  have l: "length ss < 9999" "ss \<noteq> []" using st m by (auto simp: astep_def split: if_splits)
  have q: "q < 134" "hd (yyss s) = q" using c m l(2) by (cases ss; auto simp: config_def q_def)+
  obtain s' where s': "read_token scan s = Some s'" "config scan e s' (ss, fs, ts)" "yychar s' \<noteq> YYEMPTY" using read_config c m by blast
  define t where "t = token_code ts"
  have tok: "(if yychar s' \<le> YYEOF then Some 0 else YYTRANSLATE (yychar s')) = Some t" "t < 54"
    using token_config [OF s'(2,3)] by (simp_all add: t_def)
  show ?thesis
  proof (cases "next_state q t")
    case None
    then have r: "areduce (ss, fs, ts) = Some m'" using st m l by (simp add: astep_def q_def t_def)
    show ?thesis
    proof (cases "yypact ! q = YYPACT_NINF")
      case True
      obtain s'' where "yydefault (roomy slack) s = Some (Continue s'')" "config scan e s'' m'"
        using reduce_config [OF _ r l(1), of scan e s slack] c m by auto
      moreover from this True have "yybackup scan (roomy slack) s = Some (Continue s'')"
        using q by (simp add: yybackup_def entry_def parser_table_lengths)
      ultimately show ?thesis using loop_continue by metis
    next
      case False
      obtain s'' where "yydefault (roomy slack) s' = Some (Continue s'')" "config scan e s'' m'"
        using reduce_config [OF s'(2) r l(1)] by auto
      moreover from this False have "yybackup scan (roomy slack) s = Some (Continue s'')"
        using q s'(1) tok next_state_none [OF q(1) tok(2) None False] by (simp add: yybackup_def entry_def parser_table_lengths)
      ultimately show ?thesis using loop_continue by metis
    qed
  next
    case (Some p)
    then obtain ch a ts' where p: "ts = (ch, a) # ts'" "p \<noteq> 0" "p \<noteq> YYFINAL" "p \<noteq> 14" "p < 134" "m' = (p # ss, map_option (\<lambda>x. [x]) a # fs, ts')"
      using st m l by (auto simp: astep_def q_def t_def split: list.splits if_splits)
    from Some have look: "yypact ! q \<noteq> YYPACT_NINF" "yylookup (yypact ! q + int t) t = Some (Some p)"
      by (auto simp: next_state_def split: if_splits option.splits)
    let ?s = "s'\<lparr>yyerrstatus := yyerrstatus s' - 1, yychar := (if yychar s' \<noteq> YYEOF then YYEMPTY else yychar s'), yyvs := yylval s' # yyvs s'\<rparr>"
    have ch: "yychar s' = ch" "0 < ch" "a = None \<or> (\<exists>n. yylval s' = Some n \<and> siblings n = [the a])" "delivers scan (yyinput s') ts'"
      using s'(2,3) p(1) by (auto simp: config_def pending_def)
    have "length (yyss ?s) < yystacksize ?s" "200 \<le> yystacksize ?s" "yystacksize ?s \<le> YYMAXDEPTH" "Suc (length (yyss ?s)) < YYMAXDEPTH"
      using s'(2) l by (auto simp: config_def YYMAXDEPTH_def)
    from newstate_continue [OF this, of p] obtain k where
      k: "yynewstate p ?s = Continue (?s\<lparr>yyss := p # yyss s', yystacksize := k\<rparr>)" "Suc (length (yyss s')) < k" "200 \<le> k" "k \<le> YYMAXDEPTH" by auto
    have log: "logged (snd e) (yyglobals s') (map_option (\<lambda>x. [x]) a # fs) (ahead ?s ts')"
      using s'(2,3) p(1) ch(1,2) by (auto simp: config_def logged_def ahead_def token_blocks_def YYEOF_def)
    have "yybackup scan (roomy slack) s = Some (Continue (?s\<lparr>yyss := p # yyss s', yystacksize := k\<rparr>))"
      using q s'(1) tok look p(2,3) k(1) by (simp add: yybackup_def entry_def parser_table_lengths)
    moreover have "config scan e (?s\<lparr>yyss := p # yyss s', yystacksize := k\<rparr>) m'"
      using s'(2) p(4-6) k(2-4) ch log by (cases a) (auto simp: config_def pending_def ahead_def YYEMPTY_def YYEOF_def forest_some)
    ultimately show ?thesis using loop_continue by metis
  qed
qed

lemma reaches_config:
  assumes "reaches m m'" "config scan e s m"
  shows "\<exists>s'. yyloop scan (roomy slack) s = yyloop scan (roomy slack) s' \<and> config scan e s' m'"
  using assms(1) unfolding reaches_def
proof (induction rule: rtranclp_induct)
  case base
  then show ?case using assms(2) by blast
next
  case (step d f)
  then show ?case using step_config by metis
qed

lemma accept_config:
  assumes "config scan e s ([14, 0], [Some f, None], [])"
  shows "\<exists>s'. yyloop scan slack s = Some (0, s') \<and> forest (pg_root_node (yyglobals s')) = f \<and> pg_errors (yyglobals s') = fst e \<and>
    set (pg_blocks (yyglobals s')) = snd e \<union> forest_blocks f"
proof -
  obtain s' where s': "read_token scan s = Some s'" "config scan e s' ([14, 0], [Some f, None], [])" "yychar s' \<noteq> YYEMPTY" using read_config assms by blast
  have "yychar s' = 0" using s'(2,3) by (simp add: config_def pending_def)
  moreover have "yyss s = [14, 0]" using assms by (simp add: config_def)
  moreover have "yypact ! 14 \<noteq> YYPACT_NINF" "yylookup (yypact ! 14 + int 0) 0 = Some (Some 53)"
    by (simp_all add: yypact_def YYPACT_NINF_def yylookup_def YYLAST_def entry_def yycheck_def yytable_def)
  ultimately have "yybackup scan slack s = Some (Finish 0 s')"
    using s'(1) by (simp add: yybackup_def entry_def parser_table_lengths YYEOF_def YYFINAL_def)
  then show ?thesis using s'(2) by (subst yyloop.simps) (simp add: config_def ahead_def logged_def)
qed

lemma reject_config:
  assumes "config scan e s ([14, 0], [Some f, None], t # ts)"
  shows "\<exists>s'. yyloop scan slack s = Some (1, s') \<and> forest (pg_root_node (yyglobals s')) = f \<and>
    set (pg_blocks (yyglobals s')) = snd e \<union> forest_blocks f \<union> token_blocks (snd t) \<and>
    (\<exists>h. pg_errors h = fst e \<and> pg_errors (yyglobals s') = pg_errors (MinisqlParserSetError ''syntax error'' h))"
proof -
  obtain s' where s': "read_token scan s = Some s'" "config scan e s' ([14, 0], [Some f, None], t # ts)" "yychar s' \<noteq> YYEMPTY" using read_config assms by blast
  define c where "c = token_code (t # ts)"
  note tok = token_config [OF s'(2,3), folded c_def]
  have "list_all (\<lambda>t. t \<noteq> 0) (tl yytranslate)" by (simp add: yytranslate_def)
  moreover have ch: "0 < yychar s'" "yychar s' \<le> 301" using s'(2,3) by (cases t; auto simp: config_def pending_def)+
  then obtain k where k: "nat (yychar s') = Suc k" "k < 301" by (cases "nat (yychar s')") auto
  ultimately have "yytranslate ! nat (yychar s') \<noteq> 0" by (simp add: list_all_length parser_table_lengths nth_tl)
  then have c: "0 < c" "c < 54"
    using tok ch k by (auto simp: YYEOF_def YYTRANSLATE_def YYMAXUTOK_def entry_def parser_table_lengths)
  have look: "yylookup (yypact ! 14 + int c) c = Some None"
  proof -
    have "list_all (\<lambda>t. t = 0 \<or> yylookup (yypact ! 14 + int t) t = Some None) [0..<54]"
      by (simp add: yypact_def yylookup_def YYLAST_def entry_def yycheck_def yytable_def upt_rec)
    then show ?thesis using c by (auto simp: list_all_length)
  qed
  have st: "yyss s = [14, 0]" "yyss s' = [14, 0]" "yyerrstatus s' = 0" using assms s'(2) by (simp_all add: config_def)
  have "yypact ! 14 \<noteq> YYPACT_NINF" "yydefact ! 14 = 0" by (simp_all add: yypact_def YYPACT_NINF_def yydefact_def)
  then have "yybackup scan slack s = yyerrlab s'"
    using s'(1) st tok look by (simp add: yybackup_def yydefault_def entry_def parser_table_lengths)
  also have "\<dots> = Some (Finish 1 (yyerror ''syntax error'' s'\<lparr>yyerrstatus := 3\<rparr>))"
    using st errlab1_aborts [of "[14, 0]" "yyvs s'"] by (simp add: yyerrlab_def Let_def yyerror_def past_nth YYFINAL_def del: yyerrlab1.simps)
  finally show ?thesis
    using s'(2,3) by (subst yyloop.simps, intro exI [of _ "yyerror ''syntax error'' s'\<lparr>yyerrstatus := 3\<rparr>"] conjI exI [of _ "yyglobals s'"])
      (auto simp: config_def yyerror_def set_error_root ahead_def logged_def split: prod.splits)
qed

text \<open>A run of the machine from its start to the accepting state is a run of the parser.\<close>

lemma start_config:
  assumes "delivers scan i ts"
  shows "config scan (pg_errors g, set (pg_blocks g)) (start_state i v g) ([0], [None], ts)" "yyparse scan slack i v g = yyloop scan slack (start_state i v g)"
  using assms
  by (simp_all add: config_def start_state_def pending_def ahead_def logged_def YYINITDEPTH_def YYMAXDEPTH_def yyparse_def yysetstate_def)

lemma machine_parses:
  assumes "reaches ([0], [None], ts) ([14, 0], [Some f, None], [])" "delivers scan i ts"
  shows "\<exists>s. yyparse scan (roomy slack) i v g = Some (0, s) \<and> forest (pg_root_node (yyglobals s)) = f \<and> pg_errors (yyglobals s) = pg_errors g \<and>
    set (pg_blocks (yyglobals s)) = set (pg_blocks g) \<union> forest_blocks f"
  using reaches_config [OF assms(1) start_config(1) [OF assms(2), of g v], of slack] accept_config start_config(2) [OF assms(2)] by (metis fst_conv snd_conv)

lemma machine_rejects:
  assumes "reaches ([0], [None], ts) ([14, 0], [Some f, None], t # z)" "delivers scan i ts"
  shows "\<exists>s. yyparse scan (roomy slack) i v g = Some (1, s) \<and> forest (pg_root_node (yyglobals s)) = f \<and>
    set (pg_blocks (yyglobals s)) = set (pg_blocks g) \<union> forest_blocks f \<union> token_blocks (snd t) \<and>
    (\<exists>h. pg_errors h = pg_errors g \<and> pg_errors (yyglobals s) = pg_errors (MinisqlParserSetError ''syntax error'' h))"
  using reaches_config [OF assms(1) start_config(1) [OF assms(2), of g v], of slack] reject_config start_config(2) [OF assms(2)] by (metis fst_conv snd_conv)

end
