(* ===== verification/Sql_Words.thy ===== *)
theory Sql_Words
  imports Sql_Scanner
begin

text \<open>
  What the scanner does with words: the keywords, in lower case, and the identifiers. The automaton reads a word along a tree of the prefixes of the keywords;
  \<open>yy_path\<close> is the prefix a state stands for.
\<close>

section \<open>Words\<close>

definition is_letter :: "char \<Rightarrow> bool" where
  "is_letter ch = (let c = (of_char ch :: nat) in 65 \<le> c \<and> c \<le> 90 \<or> c = 95 \<or> 97 \<le> c \<and> c \<le> 122)"

definition digit_char :: "char \<Rightarrow> bool" where
  "digit_char ch = (let c = (of_char ch :: nat) in 48 \<le> c \<and> c \<le> 57)"

definition keyword_rules :: "(string \<times> nat) list" where
  "keyword_rules = [(''create'', 2), (''drop'', 3), (''select'', 4), (''insert'', 5), (''delete'', 6), (''update'', 7), (''begin'', 8), (''commit'', 9),
     (''rollback'', 10), (''quit'', 11), (''execfile'', 12), (''show'', 13), (''use'', 14), (''using'', 15), (''database'', 16), (''databases'', 17),
     (''table'', 18), (''tables'', 19), (''index'', 20), (''indexes'', 21), (''on'', 22), (''from'', 23), (''where'', 24), (''into'', 25),
     (''set'', 26), (''values'', 27), (''primary'', 28), (''key'', 29), (''unique'', 30), (''char'', 31), (''int'', 32), (''float'', 33),
     (''and'', 34), (''or'', 35), (''not'', 36), (''is'', 37), (''null'', 38)]"

definition word_rule :: "string \<Rightarrow> nat" where
  "word_rule w = (case map_of keyword_rules w of Some r \<Rightarrow> r | None \<Rightarrow> 39)"

section \<open>The tree of the prefixes\<close>

definition yy_path :: "string list" where
  "yy_path = ['''', '''', '''', '''', '''', '''', '''', '''', '''', '''', '''', '''', '''', '''', '''', '''', '''', '''', '''', '''', '''', ''a'', ''b'',
     ''c'', ''d'', ''e'', ''f'', ''i'', ''k'', ''n'', ''o'', ''p'', ''q'', ''r'', ''s'', ''t'', ''u'', ''v'', ''w'', '''', '''', '''', '''', '''',
     '''', '''', '''', '''', '''', ''an'', ''be'', ''ch'', ''co'', ''cr'', ''da'', ''de'', ''dr'', ''ex'', ''fl'', ''fr'', ''in'', ''is'', ''ke'',
     ''no'', ''nu'', ''on'', ''or'', ''pr'', ''qu'', ''ro'', ''se'', ''sh'', ''ta'', ''un'', ''up'', ''us'', ''va'', ''wh'', ''and'', ''beg'',
     ''cha'', ''com'', ''cre'', ''dat'', ''del'', ''dro'', ''exe'', ''flo'', ''fro'', ''ind'', ''ins'', ''int'', ''key'', ''not'', ''nul'', ''pri'',
     ''qui'', ''rol'', ''sel'', ''set'', ''sho'', ''tab'', ''uni'', ''upd'', ''use'', ''usi'', ''val'', ''whe'', ''begi'', ''char'', ''comm'',
     ''crea'', ''data'', ''dele'', ''drop'', ''exec'', ''floa'', ''from'', ''inde'', ''inse'', ''into'', ''null'', ''prim'', ''quit'', ''roll'',
     ''sele'', ''show'', ''tabl'', ''uniq'', ''upda'', ''usin'', ''valu'', ''wher'', ''begin'', ''commi'', ''creat'', ''datab'', ''delet'',
     ''execf'', ''float'', ''index'', ''inser'', ''prima'', ''rollb'', ''selec'', ''table'', ''uniqu'', ''updat'', ''using'', ''value'', ''where'',
     ''commit'', ''create'', ''databa'', ''delete'', ''execfi'', ''indexe'', ''insert'', ''primar'', ''rollba'', ''select'', ''tables'', ''unique'',
     ''update'', ''values'', ''databas'', ''execfil'', ''indexes'', ''primary'', ''rollbac'', ''database'', ''execfile'', ''rollback'', ''databases'']"

definition letters :: string where "letters = ''abcdefghiklmnopqrstuvwxy''"

lemma class_letters:
  "list_all (\<lambda>(i, c). (c = 17 \<or> 19 \<le> c \<longleftrightarrow> 65 \<le> i \<and> i \<le> 90 \<or> i = 95 \<or> 97 \<le> i \<and> i \<le> 122) \<and> (c = 12 \<longleftrightarrow> 48 \<le> i \<and> i \<le> 57) \<and>
     (19 \<le> c \<longrightarrow> of_char (letters ! (c - 19)) = i)) (zip [0..<256] yy_ec)"
  by code_simp

lemma meta_words: "list_all (\<lambda>(c, m). m = 2 \<longleftrightarrow> c = 12 \<or> c = 17 \<or> 19 \<le> c) (zip [0..<43] yy_meta)"
  by (simp add: yy_meta_def upt_rec)

lemma path_entries: "list_all2 (\<lambda>p d. p \<noteq> [] \<longrightarrow> d = 176) yy_path (take 174 yy_def)"
  by (simp add: yy_path_def yy_def_def)

lemma path_start:
  "list_all (\<lambda>(c, r). c = 17 \<or> 19 \<le> c \<longrightarrow> r = 20 \<or> 19 \<le> c \<and> r < 174 \<and> yy_path ! r = [letters ! (c - 19)]) (zip [0..<43] (take 43 yy_nxt))"
  by (simp add: yy_nxt_def yy_path_def letters_def upt_rec)

lemma path_nth:
  "yy_path ! 0 = ''''" "yy_path ! 1 = ''''" "yy_path ! 2 = ''''" "yy_path ! 3 = ''''" "yy_path ! 4 = ''''" "yy_path ! 5 = ''''"
     "yy_path ! 6 = ''''" "yy_path ! 7 = ''''" "yy_path ! 8 = ''''" "yy_path ! 9 = ''''" "yy_path ! 10 = ''''" "yy_path ! 11 = ''''"
     "yy_path ! 12 = ''''" "yy_path ! 13 = ''''" "yy_path ! 14 = ''''" "yy_path ! 15 = ''''" "yy_path ! 16 = ''''" "yy_path ! 17 = ''''"
     "yy_path ! 18 = ''''" "yy_path ! 19 = ''''" "yy_path ! 20 = ''''" "yy_path ! 21 = ''a''" "yy_path ! 22 = ''b''" "yy_path ! 23 = ''c''"
     "yy_path ! 24 = ''d''" "yy_path ! 25 = ''e''" "yy_path ! 26 = ''f''" "yy_path ! 27 = ''i''" "yy_path ! 28 = ''k''" "yy_path ! 29 = ''n''"
     "yy_path ! 30 = ''o''" "yy_path ! 31 = ''p''" "yy_path ! 32 = ''q''" "yy_path ! 33 = ''r''" "yy_path ! 34 = ''s''" "yy_path ! 35 = ''t''"
     "yy_path ! 36 = ''u''" "yy_path ! 37 = ''v''" "yy_path ! 38 = ''w''" "yy_path ! 39 = ''''" "yy_path ! 40 = ''''" "yy_path ! 41 = ''''"
     "yy_path ! 42 = ''''" "yy_path ! 43 = ''''" "yy_path ! 44 = ''''" "yy_path ! 45 = ''''" "yy_path ! 46 = ''''" "yy_path ! 47 = ''''"
     "yy_path ! 48 = ''''" "yy_path ! 49 = ''an''" "yy_path ! 50 = ''be''" "yy_path ! 51 = ''ch''" "yy_path ! 52 = ''co''"
     "yy_path ! 53 = ''cr''" "yy_path ! 54 = ''da''" "yy_path ! 55 = ''de''" "yy_path ! 56 = ''dr''" "yy_path ! 57 = ''ex''"
     "yy_path ! 58 = ''fl''" "yy_path ! 59 = ''fr''" "yy_path ! 60 = ''in''" "yy_path ! 61 = ''is''" "yy_path ! 62 = ''ke''"
     "yy_path ! 63 = ''no''" "yy_path ! 64 = ''nu''" "yy_path ! 65 = ''on''" "yy_path ! 66 = ''or''" "yy_path ! 67 = ''pr''"
     "yy_path ! 68 = ''qu''" "yy_path ! 69 = ''ro''" "yy_path ! 70 = ''se''" "yy_path ! 71 = ''sh''" "yy_path ! 72 = ''ta''"
     "yy_path ! 73 = ''un''" "yy_path ! 74 = ''up''" "yy_path ! 75 = ''us''" "yy_path ! 76 = ''va''" "yy_path ! 77 = ''wh''"
     "yy_path ! 78 = ''and''" "yy_path ! 79 = ''beg''" "yy_path ! 80 = ''cha''" "yy_path ! 81 = ''com''" "yy_path ! 82 = ''cre''"
     "yy_path ! 83 = ''dat''" "yy_path ! 84 = ''del''" "yy_path ! 85 = ''dro''" "yy_path ! 86 = ''exe''" "yy_path ! 87 = ''flo''"
     "yy_path ! 88 = ''fro''" "yy_path ! 89 = ''ind''" "yy_path ! 90 = ''ins''" "yy_path ! 91 = ''int''" "yy_path ! 92 = ''key''"
     "yy_path ! 93 = ''not''" "yy_path ! 94 = ''nul''" "yy_path ! 95 = ''pri''" "yy_path ! 96 = ''qui''" "yy_path ! 97 = ''rol''"
     "yy_path ! 98 = ''sel''" "yy_path ! 99 = ''set''" "yy_path ! 100 = ''sho''" "yy_path ! 101 = ''tab''" "yy_path ! 102 = ''uni''"
     "yy_path ! 103 = ''upd''" "yy_path ! 104 = ''use''" "yy_path ! 105 = ''usi''" "yy_path ! 106 = ''val''" "yy_path ! 107 = ''whe''"
     "yy_path ! 108 = ''begi''" "yy_path ! 109 = ''char''" "yy_path ! 110 = ''comm''" "yy_path ! 111 = ''crea''" "yy_path ! 112 = ''data''"
     "yy_path ! 113 = ''dele''" "yy_path ! 114 = ''drop''" "yy_path ! 115 = ''exec''" "yy_path ! 116 = ''floa''" "yy_path ! 117 = ''from''"
     "yy_path ! 118 = ''inde''" "yy_path ! 119 = ''inse''" "yy_path ! 120 = ''into''" "yy_path ! 121 = ''null''" "yy_path ! 122 = ''prim''"
     "yy_path ! 123 = ''quit''" "yy_path ! 124 = ''roll''" "yy_path ! 125 = ''sele''" "yy_path ! 126 = ''show''" "yy_path ! 127 = ''tabl''"
     "yy_path ! 128 = ''uniq''" "yy_path ! 129 = ''upda''" "yy_path ! 130 = ''usin''" "yy_path ! 131 = ''valu''" "yy_path ! 132 = ''wher''"
     "yy_path ! 133 = ''begin''" "yy_path ! 134 = ''commi''" "yy_path ! 135 = ''creat''" "yy_path ! 136 = ''datab''" "yy_path ! 137 = ''delet''"
     "yy_path ! 138 = ''execf''" "yy_path ! 139 = ''float''" "yy_path ! 140 = ''index''" "yy_path ! 141 = ''inser''" "yy_path ! 142 = ''prima''"
     "yy_path ! 143 = ''rollb''" "yy_path ! 144 = ''selec''" "yy_path ! 145 = ''table''" "yy_path ! 146 = ''uniqu''" "yy_path ! 147 = ''updat''"
     "yy_path ! 148 = ''using''" "yy_path ! 149 = ''value''" "yy_path ! 150 = ''where''" "yy_path ! 151 = ''commit''"
     "yy_path ! 152 = ''create''" "yy_path ! 153 = ''databa''" "yy_path ! 154 = ''delete''" "yy_path ! 155 = ''execfi''"
     "yy_path ! 156 = ''indexe''" "yy_path ! 157 = ''insert''" "yy_path ! 158 = ''primar''" "yy_path ! 159 = ''rollba''"
     "yy_path ! 160 = ''select''" "yy_path ! 161 = ''tables''" "yy_path ! 162 = ''unique''" "yy_path ! 163 = ''update''"
     "yy_path ! 164 = ''values''" "yy_path ! 165 = ''databas''" "yy_path ! 166 = ''execfil''" "yy_path ! 167 = ''indexes''"
     "yy_path ! 168 = ''primary''" "yy_path ! 169 = ''rollbac''" "yy_path ! 170 = ''database''" "yy_path ! 171 = ''execfile''"
     "yy_path ! 172 = ''rollback''" "yy_path ! 173 = ''databases''"
  by (simp_all add: yy_path_def)

lemma base_nth:
  "yy_base ! 21 = 154" "yy_base ! 22 = 161" "yy_base ! 23 = 24" "yy_base ! 24 = 32" "yy_base ! 25 = 142" "yy_base ! 26 = 23"
     "yy_base ! 27 = 29" "yy_base ! 28 = 159" "yy_base ! 29 = 30" "yy_base ! 30 = 35" "yy_base ! 31 = 146" "yy_base ! 32 = 142"
     "yy_base ! 33 = 147" "yy_base ! 34 = 38" "yy_base ! 35 = 159" "yy_base ! 36 = 38" "yy_base ! 37 = 158" "yy_base ! 38 = 150"
     "yy_base ! 49 = 150" "yy_base ! 50 = 146" "yy_base ! 51 = 151" "yy_base ! 52 = 139" "yy_base ! 53 = 145" "yy_base ! 54 = 130"
     "yy_base ! 55 = 137" "yy_base ! 56 = 133" "yy_base ! 57 = 141" "yy_base ! 58 = 131" "yy_base ! 59 = 130" "yy_base ! 60 = 50"
     "yy_base ! 61 = 0" "yy_base ! 62 = 119" "yy_base ! 63 = 123" "yy_base ! 64 = 130" "yy_base ! 65 = 0" "yy_base ! 66 = 0"
     "yy_base ! 67 = 131" "yy_base ! 68 = 130" "yy_base ! 69 = 127" "yy_base ! 70 = 44" "yy_base ! 71 = 123" "yy_base ! 72 = 134"
     "yy_base ! 73 = 126" "yy_base ! 74 = 130" "yy_base ! 75 = 52" "yy_base ! 76 = 122" "yy_base ! 77 = 127" "yy_base ! 78 = 0"
     "yy_base ! 79 = 122" "yy_base ! 80 = 113" "yy_base ! 81 = 117" "yy_base ! 82 = 127" "yy_base ! 83 = 126" "yy_base ! 84 = 121"
     "yy_base ! 85 = 110" "yy_base ! 86 = 121" "yy_base ! 87 = 122" "yy_base ! 88 = 110" "yy_base ! 89 = 116" "yy_base ! 90 = 115"
     "yy_base ! 91 = 105" "yy_base ! 92 = 0" "yy_base ! 93 = 0" "yy_base ! 94 = 107" "yy_base ! 95 = 105" "yy_base ! 96 = 97"
     "yy_base ! 97 = 104" "yy_base ! 98 = 109" "yy_base ! 99 = 0" "yy_base ! 100 = 91" "yy_base ! 101 = 101" "yy_base ! 102 = 95"
     "yy_base ! 103 = 109" "yy_base ! 104 = 0" "yy_base ! 105 = 96" "yy_base ! 106 = 88" "yy_base ! 107 = 90" "yy_base ! 108 = 93"
     "yy_base ! 109 = 0" "yy_base ! 110 = 96" "yy_base ! 111 = 85" "yy_base ! 112 = 101" "yy_base ! 113 = 83" "yy_base ! 114 = 0"
     "yy_base ! 115 = 95" "yy_base ! 116 = 81" "yy_base ! 117 = 0" "yy_base ! 118 = 76" "yy_base ! 119 = 81" "yy_base ! 120 = 0"
     "yy_base ! 121 = 0" "yy_base ! 122 = 96" "yy_base ! 123 = 0" "yy_base ! 124 = 94" "yy_base ! 125 = 92" "yy_base ! 126 = 0"
     "yy_base ! 127 = 89" "yy_base ! 128 = 73" "yy_base ! 129 = 73" "yy_base ! 130 = 84" "yy_base ! 131 = 85" "yy_base ! 132 = 84"
     "yy_base ! 133 = 0" "yy_base ! 134 = 69" "yy_base ! 135 = 82" "yy_base ! 136 = 85" "yy_base ! 137 = 80" "yy_base ! 138 = 75"
     "yy_base ! 139 = 0" "yy_base ! 140 = 78" "yy_base ! 141 = 63" "yy_base ! 142 = 64" "yy_base ! 143 = 79" "yy_base ! 144 = 60"
     "yy_base ! 145 = 60" "yy_base ! 146 = 72" "yy_base ! 147 = 71" "yy_base ! 148 = 0" "yy_base ! 149 = 57" "yy_base ! 150 = 0"
     "yy_base ! 151 = 0" "yy_base ! 152 = 0" "yy_base ! 153 = 56" "yy_base ! 154 = 0" "yy_base ! 155 = 62" "yy_base ! 156 = 54"
     "yy_base ! 157 = 0" "yy_base ! 158 = 43" "yy_base ! 159 = 63" "yy_base ! 160 = 0" "yy_base ! 161 = 0" "yy_base ! 162 = 0"
     "yy_base ! 163 = 0" "yy_base ! 164 = 0" "yy_base ! 165 = 60" "yy_base ! 166 = 59" "yy_base ! 167 = 0" "yy_base ! 168 = 0"
     "yy_base ! 169 = 52" "yy_base ! 170 = 42" "yy_base ! 171 = 0" "yy_base ! 172 = 0" "yy_base ! 173 = 0"
  by (simp_all add: yy_base_def)

lemma path_edges:
  "list_all (\<lambda>(i, k, r). k < 174 \<longrightarrow> yy_path ! k \<noteq> [] \<longrightarrow> yy_base ! k + 19 \<le> i \<and> i < yy_base ! k + 43 \<and> r < 174 \<and> yy_path ! r = yy_path ! k @ [letters ! (i - yy_base ! k - 19)])
     (List.enumerate 0 (zip yy_chk yy_nxt))"
  unfolding yy_chk_def yy_nxt_def by (simp add: path_nth path_nth(2) [unfolded One_nat_def] base_nth letters_def)

lemma path_accept: "list_all2 (\<lambda>p a. p \<noteq> [] \<longrightarrow> a = word_rule p) yy_path (take 174 yy_accept)"
  by code_simp

section \<open>The run of the automaton over a word\<close>

lemma class_letter_facts:
  shows "is_letter ch \<longleftrightarrow> char_class ch = 17 \<or> 19 \<le> char_class ch" "digit_char ch \<longleftrightarrow> char_class ch = 12"
    "19 \<le> char_class ch \<Longrightarrow> letters ! (char_class ch - 19) = ch"
  using list_all_zip [OF class_letters, of "of_char ch"]
  by (simp_all add: table_lengths is_letter_def digit_char_def char_class_def Let_def)

lemma meta_word: "yy_meta ! char_class ch = 2 \<longleftrightarrow> is_letter ch \<or> digit_char ch"
  using list_all_zip [OF meta_words, of "char_class ch"] char_class_bounds(1) [of ch] by (auto simp: table_lengths class_letter_facts)

lemma path_length: "length yy_path = 174"
  using path_entries by (auto dest: list_all2_lengthD simp: table_lengths)

lemma path_entry: "q < 174 \<Longrightarrow> yy_path ! q \<noteq> [] \<Longrightarrow> yy_def ! q = 176 \<and> yy_accept ! q = word_rule (yy_path ! q)"
  using list_all2_nthD [OF path_entries, of q] list_all2_nthD [OF path_accept, of q] by (simp add: path_length)

lemma path_edge:
  assumes "k < 174" "yy_path ! k \<noteq> []" "i < 232" "yy_chk ! i = k"
  shows "yy_base ! k + 19 \<le> i" "yy_nxt ! i < 174" "yy_path ! (yy_nxt ! i) = yy_path ! k @ [letters ! (i - yy_base ! k - 19)]"
proof -
  have "(i, k, yy_nxt ! i) \<in> set (List.enumerate 0 (zip yy_chk yy_nxt))"
    using assms(3,4) by (auto simp: set_conv_nth table_lengths nth_enumerate_eq intro!: exI [of _ i])
  with path_edges assms(1,2) show "yy_base ! k + 19 \<le> i" "yy_nxt ! i < 174" "yy_path ! (yy_nxt ! i) = yy_path ! k @ [letters ! (i - yy_base ! k - 19)]"
    unfolding list_all_iff by blast+
qed

lemma generic_states: "yy_base ! 20 = 0" "yy_base ! 48 = 0" "yy_def ! 20 = 176" "yy_def ! 48 = 176" "yy_accept ! 20 = 39" "yy_accept ! 48 = 39"
  by (simp_all add: yy_base_def yy_def_def yy_accept_def)

text \<open>The state after a word: the one of the prefix, or one of the two states that no keyword leads to.\<close>

definition at_word :: "nat \<Rightarrow> string \<Rightarrow> bool" where
  "at_word q w = (q = 20 \<or> q = 48 \<or> q < 174 \<and> yy_path ! q = w \<and> w \<noteq> [])"

lemma at_word_bounds: "at_word q w \<Longrightarrow> q < 174 \<and> q \<noteq> 0 \<and> q \<noteq> 2 \<and> q \<noteq> 3"
  by (cases "q = 0"; cases "q = 2"; cases "q = 3") (auto simp: at_word_def path_nth)

lemma at_word_default:
  assumes "at_word q w"
  shows "yy_def ! q = 176"
  using assms path_entry by (auto simp: at_word_def generic_states)

lemma word_step:
  assumes "at_word q w" "is_letter ch \<or> digit_char ch"
  shows "\<exists>r. yy_trans q (char_class ch) = Some r \<and> at_word r (w @ [ch])"
proof -
  let ?c = "char_class ch" and ?i = "yy_base ! q + char_class ch"
  have c: "?c < 43" "0 < ?c" using char_class_bounds(1) [of ch] assms(2) by (auto simp: class_letter_facts)
  have i: "?i < 232" using base_entry [of q] at_word_bounds [OF assms(1)] c by auto
  have t: "yy_trans q ?c = Some (if yy_chk ! ?i = q then yy_nxt ! ?i else 48)"
    using trans_closed [of q ?c] at_word_bounds [OF assms(1)] at_word_default [OF assms(1)] c assms(2)
    by (simp add: default_trans_def meta_word)
  show ?thesis
  proof (cases "yy_chk ! ?i = q \<and> q \<noteq> 20 \<and> q \<noteq> 48")
    case True
    then have q: "q < 174" "yy_path ! q = w" "w \<noteq> []" using assms(1) by (auto simp: at_word_def)
    from path_edge [OF q(1) _ i] True q have "19 \<le> ?c" "yy_nxt ! ?i < 174" "yy_path ! (yy_nxt ! ?i) = w @ [letters ! (?c - 19)]" by auto
    with True t show ?thesis by (simp add: at_word_def class_letter_facts)
  next
    case False
    have "yy_chk ! ?i \<noteq> q" using start_entry [OF c(2,1)] False by (auto simp: generic_states)
    with t show ?thesis by (simp add: at_word_def)
  qed
qed

lemma run_append: "yy_run q (s @ t) = do { r \<leftarrow> yy_run q s; yy_run r t }"
  by (induction s arbitrary: q) (auto split: bind_splits)

lemma word_run:
  assumes "w \<noteq> []" "is_letter (hd w)" "\<forall>ch\<in>set w. is_letter ch \<or> digit_char ch"
  shows "\<exists>q. yy_run 1 w = Some q \<and> at_word q w"
  using assms
proof (induction w rule: rev_induct)
  case (snoc ch w)
  show ?case
  proof (cases "w = []")
    case True
    with snoc.prems have l: "is_letter ch" by simp
    then have c: "0 < char_class ch" "char_class ch < 43" using char_class_bounds(1) [of ch] by (auto simp: class_letter_facts)
    then have "yy_trans 1 (char_class ch) = Some (yy_nxt ! char_class ch)"
      using trans_closed [of 1 "char_class ch"] start_entry [OF c] by (simp add: fixed_entries del: One_nat_def)
    moreover have "at_word (yy_nxt ! char_class ch) [ch]"
      using list_all_zip [OF path_start, of "char_class ch"] c l by (auto simp: table_lengths at_word_def class_letter_facts)
    ultimately show ?thesis using True by simp
  next
    case False
    with snoc obtain q where "yy_run 1 w = Some q" "at_word q w" by (auto simp: hd_append)
    with word_step [of q w ch] snoc.prems show ?thesis by (auto simp: run_append)
  qed
qed simp

lemma keyword_runs: "list_all (\<lambda>(w, r). run_accept 1 w = r) keyword_rules"
  unfolding keyword_rules_def list.pred_inject prod.case
  by (simp add: run_accept_def trans_closed char_class_def base_nth fixed_entries yy_ec_def yy_chk_def yy_nxt_def yy_accept_def default_trans_def
      del: One_nat_def)

lemma at_word_accept:
  assumes "yy_run 1 w = Some q" "at_word q w"
  shows "yy_accept ! q = word_rule w" "yy_accept ! q \<noteq> 0"
proof -
  show "yy_accept ! q \<noteq> 0"
  proof
    assume "yy_accept ! q = 0"
    then have "q = 39 \<or> q = 41 \<or> q = 42" using accept_entry(5) [of q] at_word_bounds [OF assms(2)] by auto
    then show False using assms(2) by (auto simp: at_word_def path_nth)
  qed
  show "yy_accept ! q = word_rule w"
  proof (cases "q = 20 \<or> q = 48")
    case True
    then have "run_accept 1 w = 39" using assms(1) by (auto simp: run_accept_def generic_states)
    then have "map_of keyword_rules w = Some r \<Longrightarrow> r = 39" for r
      using keyword_runs by (auto simp: list_all_iff dest!: map_of_SomeD)
    then show ?thesis using True by (auto simp: word_rule_def generic_states split: option.splits)
  next
    case False
    then show ?thesis using assms(2) path_entry [of q] by (auto simp: at_word_def)
  qed
qed

lemma word_stop:
  assumes "at_word q w" "\<not> is_letter ch" "\<not> digit_char ch" "char_class ch \<noteq> 0"
  shows "yy_trans q (char_class ch) = Some 174"
proof -
  let ?c = "char_class ch" and ?i = "yy_base ! q + char_class ch"
  have c: "0 < ?c" "?c < 43" using char_class_bounds(1) [of ch] assms(4) by auto
  have i: "?i < 232" using base_entry [of q] at_word_bounds [OF assms(1)] c by auto
  have "yy_chk ! ?i \<noteq> q"
  proof
    assume e: "yy_chk ! ?i = q"
    then have "q \<noteq> 20" "q \<noteq> 48" using start_entry [OF c] by (auto simp: generic_states)
    then have "19 \<le> ?c" using assms(1) path_edge(1) [OF _ _ i e] by (auto simp: at_word_def)
    then show False using assms(2) by (simp add: class_letter_facts)
  qed
  then show ?thesis
    using trans_closed [of q ?c] at_word_bounds [OF assms(1)] at_word_default [OF assms(1)] c assms(2,3) meta_word [of ch]
    by (simp add: default_trans_def)
qed

lemma run_jam: "no_nul s \<Longrightarrow> yy_run 174 s = Some 174"
  by (induction s) (simp_all add: trans_jam char_class_bounds)

lemma lexeme_unique:
  assumes "0 < k" "k \<le> length s" "no_nul s" "run_accept 1 (take k s) \<noteq> 0" "\<And>m. k < m \<Longrightarrow> m \<le> length s \<Longrightarrow> run_accept 1 (take m s) = 0"
  shows "yy_lexeme s = Some (run_accept 1 (take k s), k)"
proof -
  have "s \<noteq> []" using assms(1,2) by auto
  obtain q n where q: "longest 1 s 0 None = Some (q, n)" "yy_lexeme s = Some (yy_accept ! q, n)" "q < 175" "q \<noteq> 3" "yy_accept ! q \<noteq> 0"
    using lexeme_longest [OF \<open>s \<noteq> []\<close> assms(3)] .
  from longest_positive [OF q(1) \<open>s \<noteq> []\<close> assms(3)] have n: "0 < n" "n \<le> length s" "yy_run 1 (take n s) = Some q"
    "\<And>m. n < m \<Longrightarrow> m \<le> length s \<Longrightarrow> run_accept 1 (take m s) = 0" by auto
  have "n = k" using n(4) [of k] assms(2,4) assms(5) [of n] n(2,3) q(5) by (cases n k rule: linorder_cases) (auto simp: run_accept_def)
  then show ?thesis using q(2) n(3) by (simp add: run_accept_def)
qed

lemma word_lexeme:
  assumes "w \<noteq> []" "is_letter (hd w)" "\<forall>ch\<in>set w. is_letter ch \<or> digit_char ch" "CHR 0x00 \<notin> set rest"
    and "rest \<noteq> [] \<Longrightarrow> \<not> is_letter (hd rest) \<and> \<not> digit_char (hd rest)"
  shows "yy_lexeme (w @ rest) = Some (word_rule w, length w)"
proof -
  obtain q where q: "yy_run 1 w = Some q" "at_word q w" using word_run assms(1-3) by blast
  have acc: "run_accept 1 w = word_rule w" "word_rule w \<noteq> 0" using at_word_accept [OF q] q(1) by (simp_all add: run_accept_def)
  have "char_class ch \<noteq> 0" if "ch \<in> set w" for ch using assms(3) that by (auto simp: class_letter_facts)
  then have nul: "no_nul w" "no_nul rest" using assms(4) char_class_bounds(2) by (auto simp: no_nul_def)
  have "run_accept 1 (take m (w @ rest)) = 0" if m: "length w < m" "m \<le> length (w @ rest)" for m
  proof -
    obtain ch t where r: "rest = ch # t" using m by (cases rest) auto
    then have "yy_trans q (char_class ch) = Some 174" using word_stop [OF q(2)] assms(5) nul(2) by simp
    moreover obtain k where "m - length w = Suc k" using m(1) by (cases "m - length w") auto
    ultimately show ?thesis using r q(1) run_jam [of "take k t"] nul(2) no_nul_take_drop [of t k]
      by (simp add: run_accept_def run_append fixed_entries)
  qed
  then show ?thesis using lexeme_unique [of "length w" "w @ rest"] acc nul assms(1) by simp
qed

section \<open>Properties\<close>

text \<open>
  A word of letters, digits and underscores that starts with a letter or underscore and is followed by another character or by the end of the input is one
  token: the keyword, when it is one of the thirty-seven in lower case, and an identifier otherwise.
\<close>

theorem words_scanned:
  assumes "w \<noteq> []" "is_letter (hd w)" "\<forall>ch\<in>set w. is_letter ch \<or> digit_char ch" "CHR 0x00 \<notin> set rest"
    and "rest \<noteq> [] \<Longrightarrow> \<not> is_letter (hd rest) \<and> \<not> digit_char (hd rest)"
  shows "yy_lexeme (w @ rest) = Some (word_rule w, length w)"
  by (rule word_lexeme) (use assms in auto)

theorem words_scanned_witness:
  "yy_lexeme (''select'' @ '' * from t;'') = Some (word_rule ''select'', length ''select'') \<and> word_rule ''select'' = 4 \<and>
   yy_lexeme (''Select1'' @ []) = Some (word_rule ''Select1'', length ''Select1'') \<and> word_rule ''Select1'' = 39"
proof (intro conjI)
  show "yy_lexeme (''select'' @ '' * from t;'') = Some (word_rule ''select'', length ''select'')"
    by (rule words_scanned) (simp_all add: is_letter_def digit_char_def)
  show "yy_lexeme (''Select1'' @ []) = Some (word_rule ''Select1'', length ''Select1'')"
    by (rule words_scanned) (simp_all add: is_letter_def digit_char_def)
qed (simp_all add: word_rule_def keyword_rules_def)

end
