(* ===== verification/Sql_Grammar.thy ===== *)
theory Sql_Grammar
  imports Parser_Machine Sql_Words
begin

text \<open>
  The statements of the language as data, their tokens and their trees, and the theorem that the parser makes the tree of every statement from its tokens. The facts of the
  tables that the runs of the machine use are evaluated once.
\<close>

section \<open>Statements\<close>

datatype literal = LString string | LNumber string | LNull
datatype operator = OpEq | OpNe | OpLe | OpGe | OpLt | OpGt | OpIs | OpNot
datatype connector = ConAnd | ConOr
datatype condition = Condition string operator literal
datatype column_type = IntType | FloatType | CharType string
datatype column_def = ColumnDef string column_type bool

type_synonym conditions = "condition \<times> (connector \<times> condition) list"

datatype sql =
  CreateDatabase string | DropDatabase string | ShowDatabases | UseDatabase string | ShowTables
| CreateTable string "column_def list" "string list" | DropTable string
| CreateIndex string string "string list" "string option" | DropIndex string | ShowIndexes
| Select "string list option" string "conditions option" | Insert string "literal list"
| Delete string "conditions option" | Update string "(string \<times> literal) list" "conditions option"
| TrxBegin | TrxCommit | TrxRollback | Quit | ExecFile string

subsection \<open>Their tokens\<close>

definition keyword :: "string \<Rightarrow> token" where "keyword w = (keyword_tokens ! (word_rule w - 2), None)"

definition name_tree :: "string \<Rightarrow> ast" where "name_tree x = Ast kNodeIdentifier (Some x) []"
definition name_token :: "string \<Rightarrow> token" where "name_token x = (295, Some (name_tree x))"

definition mark_token :: "char \<Rightarrow> token" where "mark_token ch = (of_char ch, None)"

fun literal_tree :: "literal \<Rightarrow> ast" where
  "literal_tree (LString x) = Ast kNodeString (Some x) []"
| "literal_tree (LNumber x) = Ast kNodeNumber (Some x) []"
| "literal_tree LNull = Ast kNodeNull None []"

fun literal_token :: "literal \<Rightarrow> token" where
  "literal_token (LString x) = (296, Some (literal_tree (LString x)))"
| "literal_token (LNumber x) = (297, Some (literal_tree (LNumber x)))"
| "literal_token LNull = keyword ''null''"

fun operator_token :: "operator \<Rightarrow> token" where
  "operator_token OpEq = (298, None)" | "operator_token OpNe = (299, None)" | "operator_token OpLe = (300, None)" | "operator_token OpGe = (301, None)"
| "operator_token OpLt = mark_token (CHR ''<'')" | "operator_token OpGt = mark_token (CHR ''>'')"
| "operator_token OpIs = keyword ''is''" | "operator_token OpNot = keyword ''not''"

fun connector_token :: "connector \<Rightarrow> token" where
  "connector_token ConAnd = keyword ''and''" | "connector_token ConOr = keyword ''or''"

fun condition_tokens :: "condition \<Rightarrow> token list" where
  "condition_tokens (Condition c opr l) = [name_token c, operator_token opr, literal_token l]"

fun more_conditions :: "(connector \<times> condition) list \<Rightarrow> token list" where
  "more_conditions [] = []"
| "more_conditions ((k, c) # cs) = connector_token k # condition_tokens c @ more_conditions cs"

fun where_tokens :: "conditions option \<Rightarrow> token list" where
  "where_tokens None = []"
| "where_tokens (Some (c, cs)) = keyword ''where'' # condition_tokens c @ more_conditions cs"

text \<open>The elements of a list, separated by commas.\<close>

fun commas :: "token list list \<Rightarrow> token list" where
  "commas [] = []"
| "commas [x] = x"
| "commas (x # y # ys) = x @ mark_token (CHR '','') # commas (y # ys)"

definition name_list :: "string list \<Rightarrow> token list" where "name_list xs = commas (map (\<lambda>x. [name_token x]) xs)"
definition literal_list :: "literal list \<Rightarrow> token list" where "literal_list ls = commas (map (\<lambda>l. [literal_token l]) ls)"
definition value_list :: "(string \<times> literal) list \<Rightarrow> token list" where
  "value_list us = commas (map (\<lambda>(c, l). [name_token c, operator_token OpEq, literal_token l]) us)"

fun type_tokens :: "column_type \<Rightarrow> token list" where
  "type_tokens IntType = [keyword ''int'']" | "type_tokens FloatType = [keyword ''float'']"
| "type_tokens (CharType n) = [keyword ''char'', mark_token (CHR ''(''), literal_token (LNumber n), mark_token (CHR '')'')]"

fun column_tokens :: "column_def \<Rightarrow> token list" where
  "column_tokens (ColumnDef c t u) = name_token c # type_tokens t @ (if u then [keyword ''unique''] else [])"

definition key_tokens :: "string list \<Rightarrow> token list" where
  "key_tokens ks = keyword ''primary'' # keyword ''key'' # mark_token (CHR ''('') # name_list ks @ [mark_token (CHR '')'')]"

definition definition_list :: "column_def list \<Rightarrow> string list \<Rightarrow> token list" where
  "definition_list cs ks = commas (map column_tokens cs @ (if ks = [] then [] else [key_tokens ks]))"

fun sql_body :: "sql \<Rightarrow> token list" where
  "sql_body (CreateDatabase x) = [keyword ''create'', keyword ''database'', name_token x]"
| "sql_body (DropDatabase x) = [keyword ''drop'', keyword ''database'', name_token x]"
| "sql_body ShowDatabases = [keyword ''show'', keyword ''databases'']"
| "sql_body (UseDatabase x) = [keyword ''use'', name_token x]"
| "sql_body ShowTables = [keyword ''show'', keyword ''tables'']"
| "sql_body (CreateTable t cs ks) =
     keyword ''create'' # keyword ''table'' # name_token t # mark_token (CHR ''('') # definition_list cs ks @ [mark_token (CHR '')'')]"
| "sql_body (DropTable x) = [keyword ''drop'', keyword ''table'', name_token x]"
| "sql_body (CreateIndex i t ks u) =
     keyword ''create'' # keyword ''index'' # name_token i # keyword ''on'' # name_token t # mark_token (CHR ''('') # name_list ks @ mark_token (CHR '')'') #
     (case u of None \<Rightarrow> [] | Some x \<Rightarrow> [keyword ''using'', name_token x])"
| "sql_body (DropIndex x) = [keyword ''drop'', keyword ''index'', name_token x]"
| "sql_body ShowIndexes = [keyword ''show'', keyword ''indexes'']"
| "sql_body (Select cs t w) =
     keyword ''select'' # (case cs of None \<Rightarrow> [mark_token (CHR ''*'')] | Some xs \<Rightarrow> name_list xs) @ keyword ''from'' # name_token t # where_tokens w"
| "sql_body (Insert t ls) =
     keyword ''insert'' # keyword ''into'' # name_token t # keyword ''values'' # mark_token (CHR ''('') # literal_list ls @ [mark_token (CHR '')'')]"
| "sql_body (Delete t w) = keyword ''delete'' # keyword ''from'' # name_token t # where_tokens w"
| "sql_body (Update t us w) = keyword ''update'' # name_token t # keyword ''set'' # value_list us @ where_tokens w"
| "sql_body TrxBegin = [keyword ''begin'']"
| "sql_body TrxCommit = [keyword ''commit'']"
| "sql_body TrxRollback = [keyword ''rollback'']"
| "sql_body Quit = [keyword ''quit'']"
| "sql_body (ExecFile x) = [keyword ''execfile'', literal_token (LString x)]"

definition sql_tokens :: "sql \<Rightarrow> token list" where "sql_tokens st = sql_body st @ [mark_token (CHR '';'')]"

subsection \<open>Their trees\<close>

fun operator_tree :: "operator \<Rightarrow> ast list \<Rightarrow> ast" where
  "operator_tree opr cs = Ast kNodeCompareOperator (Some (case opr of OpEq \<Rightarrow> ''='' | OpNe \<Rightarrow> ''<>'' | OpLe \<Rightarrow> ''<='' | OpGe \<Rightarrow> ''>='' | OpLt \<Rightarrow> ''<''
     | OpGt \<Rightarrow> ''>'' | OpIs \<Rightarrow> ''is'' | OpNot \<Rightarrow> ''not'')) cs"

fun condition_tree :: "condition \<Rightarrow> ast" where
  "condition_tree (Condition c opr l) = operator_tree opr [name_tree c, literal_tree l]"

text \<open>Conditions are joined from the left.\<close>

fun conditions_tree :: "ast \<Rightarrow> (connector \<times> condition) list \<Rightarrow> ast" where
  "conditions_tree t [] = t"
| "conditions_tree t ((k, c) # cs) =
     conditions_tree (Ast kNodeConnector (Some (case k of ConAnd \<Rightarrow> ''and'' | ConOr \<Rightarrow> ''or'')) [t, condition_tree c]) cs"

fun where_trees :: "conditions option \<Rightarrow> ast list" where
  "where_trees None = []"
| "where_trees (Some (c, cs)) = [where_tree [conditions_tree (condition_tree c) cs]]"

fun type_tree :: "column_type \<Rightarrow> ast" where
  "type_tree IntType = Ast kNodeColumnType (Some ''int'') []" | "type_tree FloatType = Ast kNodeColumnType (Some ''float'') []"
| "type_tree (CharType n) = Ast kNodeColumnType (Some ''char'') [literal_tree (LNumber n)]"

fun column_tree :: "column_def \<Rightarrow> ast" where
  "column_tree (ColumnDef c t u) = Ast kNodeColumnDefinition (if u then Some ''unique'' else None) [name_tree c, type_tree t]"

definition definition_trees :: "column_def list \<Rightarrow> string list \<Rightarrow> ast list" where
  "definition_trees cs ks = map column_tree cs @ (if ks = [] then [] else [Ast kNodeColumnList (Some ''primary keys'') (map name_tree ks)])"

definition value_trees :: "(string \<times> literal) list \<Rightarrow> ast list" where
  "value_trees us = map (\<lambda>(c, l). Ast kNodeUpdateValue None [name_tree c, literal_tree l]) us"

fun sql_tree :: "sql \<Rightarrow> ast" where
  "sql_tree (CreateDatabase x) = Ast kNodeCreateDB None [name_tree x]"
| "sql_tree (DropDatabase x) = Ast kNodeDropDB None [name_tree x]"
| "sql_tree ShowDatabases = Ast kNodeShowDB None []"
| "sql_tree (UseDatabase x) = Ast kNodeUseDB None [name_tree x]"
| "sql_tree ShowTables = Ast kNodeShowTables None []"
| "sql_tree (CreateTable t cs ks) = Ast kNodeCreateTable None [name_tree t, Ast kNodeColumnDefinitionList None (definition_trees cs ks)]"
| "sql_tree (DropTable x) = Ast kNodeDropTable None [name_tree x]"
| "sql_tree (CreateIndex i t ks u) = Ast kNodeCreateIndex None ([name_tree i, name_tree t, Ast kNodeColumnList (Some ''index keys'') (map name_tree ks)] @
     (case u of None \<Rightarrow> [] | Some x \<Rightarrow> [Ast kNodeIndexType (Some ''index type'') [name_tree x]]))"
| "sql_tree (DropIndex x) = Ast kNodeDropIndex None [name_tree x]"
| "sql_tree ShowIndexes = Ast kNodeShowIndexes None []"
| "sql_tree (Select cs t w) = Ast kNodeSelect None ((case cs of None \<Rightarrow> Ast kNodeAllColumns None []
     | Some xs \<Rightarrow> Ast kNodeColumnList (Some ''select columns'') (map name_tree xs)) # name_tree t # where_trees w)"
| "sql_tree (Insert t ls) = Ast kNodeInsert None [name_tree t, Ast kNodeColumnValues None (map literal_tree ls)]"
| "sql_tree (Delete t w) = Ast kNodeDelete None (name_tree t # where_trees w)"
| "sql_tree (Update t us w) = Ast kNodeUpdate None (name_tree t # Ast kNodeUpdateValues None (value_trees us) # where_trees w)"
| "sql_tree TrxBegin = Ast kNodeTrxBegin None []"
| "sql_tree TrxCommit = Ast kNodeTrxCommit None []"
| "sql_tree TrxRollback = Ast kNodeTrxRollback None []"
| "sql_tree Quit = Ast kNodeQuit None []"
| "sql_tree (ExecFile x) = Ast kNodeExecFile None [literal_tree (LString x)]"

text \<open>The lists of a statement are not empty and fit on the stack of the parser, which they fill from the right: two entries for an element.\<close>

definition fits_stack :: "'a list \<Rightarrow> bool" where "fits_stack xs = (xs \<noteq> [] \<and> length xs \<le> 4900)"

fun sql_ok :: "sql \<Rightarrow> bool" where
  "sql_ok (CreateTable t cs ks) = (0 < length cs + length ks \<and> length cs + length ks \<le> 4900)"
| "sql_ok (CreateIndex i t ks u) = fits_stack ks"
| "sql_ok (Select cs t w) = (case cs of None \<Rightarrow> True | Some xs \<Rightarrow> fits_stack xs)"
| "sql_ok (Insert t ls) = fits_stack ls"
| "sql_ok (Update t us w) = fits_stack us"
| "sql_ok _ = True"

section \<open>Facts of the tables\<close>

lemma next_facts:
  "next_state 0 3 = Some 1" "next_state 0 4 = Some 2" "next_state 0 5 = Some 3" "next_state 0 6 = Some 4" "next_state 0 7 = Some 5"
     "next_state 0 8 = Some 6" "next_state 0 9 = Some 7" "next_state 0 10 = Some 8" "next_state 0 11 = Some 9" "next_state 0 12 = Some 10"
     "next_state 0 13 = Some 11" "next_state 0 14 = Some 12" "next_state 0 15 = Some 13" "next_state (Suc 0) 17 = Some 35"
     "next_state (Suc 0) 19 = Some 36" "next_state (Suc 0) 21 = Some 37" "next_state 2 17 = Some 38" "next_state 2 19 = Some 39"
     "next_state 2 21 = Some 40" "next_state 3 40 = Some 41" "next_state 3 51 = Some 42" "next_state 4 26 = Some 45" "next_state 5 24 = Some 46"
     "next_state 6 40 = Some 47" "next_state 11 41 = Some 48" "next_state 12 18 = Some 49" "next_state 12 20 = Some 50"
     "next_state 12 22 = Some 51" "next_state 13 40 = Some 52" "next_state 14 0 = Some 53" "next_state 15 47 = Some 54"
     "next_state 35 40 = Some 55" "next_state 36 40 = Some 56" "next_state 37 40 = Some 57" "next_state 38 40 = Some 58"
     "next_state 39 40 = Some 59" "next_state 40 40 = Some 60" "next_state 41 50 = Some 61" "next_state 44 24 = Some 62"
     "next_state 45 40 = Some 63" "next_state 46 40 = Some 64" "next_state 47 27 = Some 65" "next_state 56 48 = Some 66"
     "next_state 57 23 = Some 67" "next_state 61 40 = Some 41" "next_state 62 40 = Some 69" "next_state 63 28 = Some 70"
     "next_state 64 25 = Some 71" "next_state 65 40 = Some 72" "next_state 66 29 = Some 75" "next_state 66 40 = Some 76"
     "next_state 67 40 = Some 79" "next_state 69 25 = Some 80" "next_state 70 48 = Some 81" "next_state 71 40 = Some 82"
     "next_state 72 43 = Some 85" "next_state 73 25 = Some 86" "next_state 74 50 = Some 87" "next_state 75 30 = Some 88"
     "next_state 76 32 = Some 89" "next_state 76 33 = Some 90" "next_state 76 34 = Some 91" "next_state 77 49 = Some 93"
     "next_state 78 50 = Some 94" "next_state 79 48 = Some 95" "next_state 80 40 = Some 82" "next_state 81 39 = Some 97"
     "next_state 81 41 = Some 98" "next_state 81 42 = Some 99" "next_state 82 37 = Some 102" "next_state 82 38 = Some 103"
     "next_state 82 43 = Some 104" "next_state 82 44 = Some 105" "next_state 82 45 = Some 106" "next_state 82 46 = Some 107"
     "next_state 82 52 = Some 108" "next_state 82 53 = Some 109" "next_state 83 35 = Some 111" "next_state 83 36 = Some 112"
     "next_state 85 39 = Some 97" "next_state 85 41 = Some 98" "next_state 85 42 = Some 99" "next_state 86 40 = Some 82"
     "next_state 87 40 = Some 72" "next_state 88 48 = Some 117" "next_state 89 48 = Some 118" "next_state 92 31 = Some 119"
     "next_state 94 29 = Some 75" "next_state 94 40 = Some 76" "next_state 95 40 = Some 41" "next_state 96 35 = Some 111"
     "next_state 96 36 = Some 112" "next_state 100 50 = Some 122" "next_state 101 49 = Some 123" "next_state 110 39 = Some 97"
     "next_state 110 41 = Some 98" "next_state 110 42 = Some 99" "next_state 113 40 = Some 82" "next_state 115 35 = Some 111"
     "next_state 115 36 = Some 112" "next_state 117 40 = Some 41" "next_state 118 42 = Some 127" "next_state 121 49 = Some 128"
     "next_state 122 39 = Some 97" "next_state 122 41 = Some 98" "next_state 122 42 = Some 99" "next_state 126 49 = Some 130"
     "next_state 127 49 = Some 131" "next_state 128 16 = Some 132" "next_state 132 40 = Some 133"
  by (simp_all add: next_state_def yylookup_def entry_def yypact_def yycheck_def yytable_def YYPACT_NINF_def YYLAST_def)

lemma next_none_facts:
  "next_state 41 47 = None" "next_state 41 49 = None" "next_state 41 25 = None" "next_state 41 35 = None" "next_state 41 36 = None"
     "next_state 41 16 = None" "next_state 41 31 = None" "next_state 41 24 = None" "next_state 64 47 = None" "next_state 64 49 = None"
     "next_state 64 50 = None" "next_state 64 35 = None" "next_state 64 36 = None" "next_state 64 16 = None" "next_state 64 31 = None"
     "next_state 64 24 = None" "next_state 69 47 = None" "next_state 69 49 = None" "next_state 69 50 = None" "next_state 69 35 = None"
     "next_state 69 36 = None" "next_state 69 16 = None" "next_state 69 31 = None" "next_state 69 24 = None" "next_state 73 47 = None"
     "next_state 73 49 = None" "next_state 73 50 = None" "next_state 73 35 = None" "next_state 73 36 = None" "next_state 73 16 = None"
     "next_state 73 31 = None" "next_state 73 24 = None" "next_state 74 47 = None" "next_state 74 49 = None" "next_state 74 25 = None"
     "next_state 74 35 = None" "next_state 74 36 = None" "next_state 74 16 = None" "next_state 74 31 = None" "next_state 74 24 = None"
     "next_state 78 47 = None" "next_state 78 49 = None" "next_state 78 25 = None" "next_state 78 35 = None" "next_state 78 36 = None"
     "next_state 78 16 = None" "next_state 78 31 = None" "next_state 78 24 = None" "next_state 83 47 = None" "next_state 83 49 = None"
     "next_state 83 50 = None" "next_state 83 25 = None" "next_state 83 16 = None" "next_state 83 31 = None" "next_state 83 24 = None"
     "next_state 92 47 = None" "next_state 92 49 = None" "next_state 92 50 = None" "next_state 92 25 = None" "next_state 92 35 = None"
     "next_state 92 36 = None" "next_state 92 16 = None" "next_state 92 24 = None" "next_state 96 47 = None" "next_state 96 49 = None"
     "next_state 96 50 = None" "next_state 96 25 = None" "next_state 96 16 = None" "next_state 96 31 = None" "next_state 96 24 = None"
     "next_state 100 47 = None" "next_state 100 49 = None" "next_state 100 25 = None" "next_state 100 35 = None" "next_state 100 36 = None"
     "next_state 100 16 = None" "next_state 100 31 = None" "next_state 100 24 = None" "next_state 115 47 = None" "next_state 115 49 = None"
     "next_state 115 50 = None" "next_state 115 25 = None" "next_state 115 16 = None" "next_state 115 31 = None" "next_state 115 24 = None"
     "next_state 128 47 = None" "next_state 128 49 = None" "next_state 128 50 = None" "next_state 128 25 = None" "next_state 128 35 = None"
     "next_state 128 36 = None" "next_state 128 31 = None" "next_state 128 24 = None"
  by (simp_all add: next_state_def yylookup_def entry_def yypact_def yycheck_def yytable_def YYPACT_NINF_def YYLAST_def)

lemma default_facts:
  "yypact ! 7 = - 85" "yypact ! 8 = - 85" "yypact ! 9 = - 85" "yypact ! 10 = - 85" "yypact ! 16 = - 85" "yypact ! 17 = - 85"
     "yypact ! 18 = - 85" "yypact ! 19 = - 85" "yypact ! 20 = - 85" "yypact ! 21 = - 85" "yypact ! 22 = - 85" "yypact ! 23 = - 85"
     "yypact ! 24 = - 85" "yypact ! 25 = - 85" "yypact ! 26 = - 85" "yypact ! 27 = - 85" "yypact ! 28 = - 85" "yypact ! 29 = - 85"
     "yypact ! 30 = - 85" "yypact ! 31 = - 85" "yypact ! 32 = - 85" "yypact ! 33 = - 85" "yypact ! 34 = - 85" "yypact ! 42 = - 85"
     "yypact ! 43 = - 85" "yypact ! 48 = - 85" "yypact ! 49 = - 85" "yypact ! 50 = - 85" "yypact ! 51 = - 85" "yypact ! 52 = - 85"
     "yypact ! 53 = - 85" "yypact ! 54 = - 85" "yypact ! 55 = - 85" "yypact ! 58 = - 85" "yypact ! 59 = - 85" "yypact ! 60 = - 85"
     "yypact ! 68 = - 85" "yypact ! 84 = - 85" "yypact ! 90 = - 85" "yypact ! 91 = - 85" "yypact ! 93 = - 85" "yypact ! 97 = - 85"
     "yypact ! 98 = - 85" "yypact ! 99 = - 85" "yypact ! 102 = - 85" "yypact ! 103 = - 85" "yypact ! 104 = - 85" "yypact ! 105 = - 85"
     "yypact ! 106 = - 85" "yypact ! 107 = - 85" "yypact ! 108 = - 85" "yypact ! 109 = - 85" "yypact ! 111 = - 85" "yypact ! 112 = - 85"
     "yypact ! 114 = - 85" "yypact ! 116 = - 85" "yypact ! 119 = - 85" "yypact ! 120 = - 85" "yypact ! 123 = - 85" "yypact ! 124 = - 85"
     "yypact ! 125 = - 85" "yypact ! 129 = - 85" "yypact ! 130 = - 85" "yypact ! 131 = - 85" "yypact ! 133 = - 85"
  by (simp_all add: yypact_def)

lemma rule_facts:
  "yydefact ! 9 = 75" "yydefact ! 7 = 73" "yydefact ! 8 = 74" "yydefact ! 10 = 76" "yydefact ! 48 = 77" "yydefact ! 42 = 45"
     "yydefact ! 31 = 18" "yydefact ! 51 = 42" "yydefact ! 49 = 24" "yydefact ! 33 = 20" "yydefact ! 41 = 29" "yydefact ! 52 = 25"
     "yydefact ! 30 = 17" "yydefact ! 50 = 26" "yydefact ! 32 = 19" "yydefact ! 34 = 21" "yydefact ! 25 = 12" "yydefact ! 55 = 22"
     "yydefact ! 60 = 41" "yydefact ! 18 = 5" "yydefact ! 20 = 7" "yydefact ! 64 = 66" "yydefact ! 59 = 38" "yydefact ! 43 = 46"
     "yydefact ! 19 = 6" "yydefact ! 58 = 23" "yydefact ! 16 = 3" "yydefact ! 22 = 9" "yydefact ! 24 = 11" "yydefact ! 28 = 15"
     "yydefact ! 17 = 4" "yydefact ! 54 = 2" "yydefact ! 69 = 43" "yydefact ! 68 = 28" "yydefact ! 97 = 54" "yydefact ! 106 = 57"
     "yydefact ! 99 = 53" "yydefact ! 108 = 59" "yydefact ! 26 = 13" "yydefact ! 102 = 62" "yydefact ! 109 = 60" "yydefact ! 98 = 52"
     "yydefact ! 90 = 35" "yydefact ! 105 = 56" "yydefact ! 103 = 61" "yydefact ! 107 = 58" "yydefact ! 91 = 36" "yydefact ! 104 = 55"
     "yydefact ! 92 = 34" "yydefact ! 114 = 72" "yydefact ! 100 = 65" "yydefact ! 78 = 31" "yydefact ! 74 = 71" "yydefact ! 119 = 33"
     "yydefact ! 73 = 68" "yydefact ! 128 = 39" "yydefact ! 123 = 63" "yydefact ! 131 = 37" "yydefact ! 124 = 51" "yydefact ! 130 = 32"
     "yydefact ! 84 = 48" "yydefact ! 23 = 10" "yydefact ! 93 = 27" "yydefact ! 27 = 14" "yydefact ! 29 = 16" "yydefact ! 96 = 44"
     "yydefact ! 129 = 64" "yydefact ! 21 = 8" "yydefact ! 133 = 40" "yydefact ! 83 = 67" "yydefact ! 111 = 49" "yydefact ! 112 = 50"
     "yydefact ! 116 = 70" "yydefact ! 120 = 30" "yydefact ! 115 = 69" "yydefact ! 125 = 47"
  "yyr1 ! 2 = 55" "yyr1 ! 3 = 56" "yyr1 ! 4 = 56" "yyr1 ! 5 = 56" "yyr1 ! 6 = 56" "yyr1 ! 7 = 56" "yyr1 ! 8 = 56" "yyr1 ! 9 = 56"
     "yyr1 ! 10 = 56" "yyr1 ! 11 = 56" "yyr1 ! 12 = 56" "yyr1 ! 13 = 56" "yyr1 ! 14 = 56" "yyr1 ! 15 = 56" "yyr1 ! 16 = 56" "yyr1 ! 17 = 56"
     "yyr1 ! 18 = 56" "yyr1 ! 19 = 56" "yyr1 ! 20 = 56" "yyr1 ! 21 = 56" "yyr1 ! 22 = 57" "yyr1 ! 23 = 58" "yyr1 ! 24 = 59" "yyr1 ! 25 = 60"
     "yyr1 ! 26 = 61" "yyr1 ! 27 = 62" "yyr1 ! 28 = 63" "yyr1 ! 29 = 63" "yyr1 ! 30 = 64" "yyr1 ! 31 = 64" "yyr1 ! 32 = 64" "yyr1 ! 33 = 65"
     "yyr1 ! 34 = 65" "yyr1 ! 35 = 66" "yyr1 ! 36 = 66" "yyr1 ! 37 = 66" "yyr1 ! 38 = 67" "yyr1 ! 39 = 68" "yyr1 ! 40 = 68" "yyr1 ! 41 = 69"
     "yyr1 ! 42 = 70" "yyr1 ! 43 = 71" "yyr1 ! 44 = 71" "yyr1 ! 45 = 72" "yyr1 ! 46 = 72" "yyr1 ! 47 = 73" "yyr1 ! 48 = 73" "yyr1 ! 49 = 74"
     "yyr1 ! 50 = 74" "yyr1 ! 51 = 75" "yyr1 ! 52 = 76" "yyr1 ! 53 = 76" "yyr1 ! 54 = 76" "yyr1 ! 55 = 77" "yyr1 ! 56 = 77" "yyr1 ! 57 = 77"
     "yyr1 ! 58 = 77" "yyr1 ! 59 = 77" "yyr1 ! 60 = 77" "yyr1 ! 61 = 77" "yyr1 ! 62 = 77" "yyr1 ! 63 = 78" "yyr1 ! 64 = 79" "yyr1 ! 65 = 79"
     "yyr1 ! 66 = 80" "yyr1 ! 67 = 80" "yyr1 ! 68 = 81" "yyr1 ! 69 = 81" "yyr1 ! 70 = 82" "yyr1 ! 71 = 82" "yyr1 ! 72 = 83" "yyr1 ! 73 = 84"
     "yyr1 ! 74 = 85" "yyr1 ! 75 = 86" "yyr1 ! 76 = 87" "yyr1 ! 77 = 88" "yyr2 ! 2 = 2" "yyr2 ! 3 = Suc 0" "yyr2 ! 4 = Suc 0"
     "yyr2 ! 5 = Suc 0" "yyr2 ! 6 = Suc 0" "yyr2 ! 7 = Suc 0" "yyr2 ! 8 = Suc 0" "yyr2 ! 9 = Suc 0" "yyr2 ! 10 = Suc 0" "yyr2 ! 11 = Suc 0"
     "yyr2 ! 12 = Suc 0" "yyr2 ! 13 = Suc 0" "yyr2 ! 14 = Suc 0" "yyr2 ! 15 = Suc 0" "yyr2 ! 16 = Suc 0" "yyr2 ! 17 = Suc 0"
     "yyr2 ! 18 = Suc 0" "yyr2 ! 19 = Suc 0" "yyr2 ! 20 = Suc 0" "yyr2 ! 21 = Suc 0" "yyr2 ! 22 = 3" "yyr2 ! 23 = 3" "yyr2 ! 24 = 2"
     "yyr2 ! 25 = 2" "yyr2 ! 26 = 2" "yyr2 ! 27 = 6" "yyr2 ! 28 = 3" "yyr2 ! 29 = Suc 0" "yyr2 ! 30 = 3" "yyr2 ! 31 = Suc 0" "yyr2 ! 32 = 5"
     "yyr2 ! 33 = 3" "yyr2 ! 34 = 2" "yyr2 ! 35 = Suc 0" "yyr2 ! 36 = Suc 0" "yyr2 ! 37 = 4" "yyr2 ! 38 = 3" "yyr2 ! 39 = 8" "yyr2 ! 40 = 10"
     "yyr2 ! 41 = 3" "yyr2 ! 42 = 2" "yyr2 ! 43 = 4" "yyr2 ! 44 = 6" "yyr2 ! 45 = Suc 0" "yyr2 ! 46 = Suc 0" "yyr2 ! 47 = 3"
     "yyr2 ! 48 = Suc 0" "yyr2 ! 49 = Suc 0" "yyr2 ! 50 = Suc 0" "yyr2 ! 51 = 3" "yyr2 ! 52 = Suc 0" "yyr2 ! 53 = Suc 0" "yyr2 ! 54 = Suc 0"
     "yyr2 ! 55 = Suc 0" "yyr2 ! 56 = Suc 0" "yyr2 ! 57 = Suc 0" "yyr2 ! 58 = Suc 0" "yyr2 ! 59 = Suc 0" "yyr2 ! 60 = Suc 0"
     "yyr2 ! 61 = Suc 0" "yyr2 ! 62 = Suc 0" "yyr2 ! 63 = 7" "yyr2 ! 64 = 3" "yyr2 ! 65 = Suc 0" "yyr2 ! 66 = 3" "yyr2 ! 67 = 5"
     "yyr2 ! 68 = 4" "yyr2 ! 69 = 6" "yyr2 ! 70 = 3" "yyr2 ! 71 = Suc 0" "yyr2 ! 72 = 3" "yyr2 ! 73 = Suc 0" "yyr2 ! 74 = Suc 0"
     "yyr2 ! 75 = Suc 0" "yyr2 ! 76 = Suc 0" "yyr2 ! 77 = 2"
  by (simp_all add: yydefact_def yyr1_def yyr2_def)

lemma goto_facts:
  "yygoto 0 55 = Some 14" "yygoto 0 56 = Some 15" "yygoto 0 57 = Some 16" "yygoto 0 58 = Some 17" "yygoto 0 59 = Some 18"
     "yygoto 0 60 = Some 19" "yygoto 0 61 = Some 20" "yygoto 0 62 = Some 21" "yygoto 0 67 = Some 22" "yygoto 0 68 = Some 23"
     "yygoto 0 69 = Some 24" "yygoto 0 70 = Some 25" "yygoto 0 71 = Some 26" "yygoto 0 78 = Some 27" "yygoto 0 80 = Some 28"
     "yygoto 0 81 = Some 29" "yygoto 0 84 = Some 30" "yygoto 0 85 = Some 31" "yygoto 0 86 = Some 32" "yygoto 0 87 = Some 33"
     "yygoto 0 88 = Some 34" "yygoto 3 63 = Some 43" "yygoto 3 72 = Some 44" "yygoto 61 63 = Some 68" "yygoto 65 82 = Some 73"
     "yygoto 65 83 = Some 74" "yygoto 66 64 = Some 77" "yygoto 66 65 = Some 78" "yygoto 71 73 = Some 83" "yygoto 71 75 = Some 84"
     "yygoto 76 66 = Some 92" "yygoto 80 73 = Some 96" "yygoto 80 75 = Some 84" "yygoto 81 76 = Some 100" "yygoto 81 79 = Some 101"
     "yygoto 82 77 = Some 110" "yygoto 83 74 = Some 113" "yygoto 85 76 = Some 114" "yygoto 86 73 = Some 115" "yygoto 86 75 = Some 84"
     "yygoto 87 82 = Some 116" "yygoto 87 83 = Some 74" "yygoto 94 64 = Some 120" "yygoto 94 65 = Some 78" "yygoto 95 63 = Some 121"
     "yygoto 96 74 = Some 113" "yygoto 110 76 = Some 124" "yygoto 113 75 = Some 125" "yygoto 115 74 = Some 113" "yygoto 117 63 = Some 126"
     "yygoto 122 76 = Some 100" "yygoto 122 79 = Some 129"
  by (simp_all add: yygoto_def yylookup_def entry_def yypgoto_def yydefgoto_def yycheck_def yytable_def YYNTOKENS_def YYLAST_def)

lemma token_facts:
  "yytranslate ! 258 = 3" "yytranslate ! 259 = 4" "yytranslate ! 260 = 5" "yytranslate ! 261 = 6" "yytranslate ! 262 = 7"
     "yytranslate ! 263 = 8" "yytranslate ! 264 = 9" "yytranslate ! 265 = 10" "yytranslate ! 266 = 11" "yytranslate ! 267 = 12"
     "yytranslate ! 268 = 13" "yytranslate ! 269 = 14" "yytranslate ! 270 = 15" "yytranslate ! 271 = 16" "yytranslate ! 272 = 17"
     "yytranslate ! 273 = 18" "yytranslate ! 274 = 19" "yytranslate ! 275 = 20" "yytranslate ! 276 = 21" "yytranslate ! 277 = 22"
     "yytranslate ! 278 = 23" "yytranslate ! 279 = 24" "yytranslate ! 280 = 25" "yytranslate ! 281 = 26" "yytranslate ! 282 = 27"
     "yytranslate ! 283 = 28" "yytranslate ! 284 = 29" "yytranslate ! 285 = 30" "yytranslate ! 286 = 31" "yytranslate ! 287 = 32"
     "yytranslate ! 288 = 33" "yytranslate ! 289 = 34" "yytranslate ! 290 = 35" "yytranslate ! 291 = 36" "yytranslate ! 292 = 37"
     "yytranslate ! 293 = 38" "yytranslate ! 294 = 39" "yytranslate ! 295 = 40" "yytranslate ! 296 = 41" "yytranslate ! 297 = 42"
     "yytranslate ! 298 = 43" "yytranslate ! 299 = 44" "yytranslate ! 300 = 45" "yytranslate ! 301 = 46" "yytranslate ! 40 = 48"
     "yytranslate ! 41 = 49" "yytranslate ! 42 = 51" "yytranslate ! 44 = 50" "yytranslate ! 59 = 47" "yytranslate ! 60 = 52"
     "yytranslate ! 62 = 53"
  by (simp_all add: yytranslate_def)

lemma keyword_facts:
  "keyword ''create'' = (258, None)" "keyword ''drop'' = (259, None)" "keyword ''select'' = (260, None)" "keyword ''insert'' = (261, None)"
     "keyword ''delete'' = (262, None)" "keyword ''update'' = (263, None)" "keyword ''begin'' = (264, None)" "keyword ''commit'' = (265, None)"
     "keyword ''rollback'' = (266, None)" "keyword ''quit'' = (267, None)" "keyword ''execfile'' = (268, None)" "keyword ''show'' = (269, None)"
     "keyword ''use'' = (270, None)" "keyword ''using'' = (271, None)" "keyword ''database'' = (272, None)" "keyword ''databases'' = (273, None)"
     "keyword ''table'' = (274, None)" "keyword ''tables'' = (275, None)" "keyword ''index'' = (276, None)" "keyword ''indexes'' = (277, None)"
     "keyword ''on'' = (278, None)" "keyword ''from'' = (279, None)" "keyword ''where'' = (280, None)" "keyword ''into'' = (281, None)"
     "keyword ''set'' = (282, None)" "keyword ''values'' = (283, None)" "keyword ''primary'' = (284, None)" "keyword ''key'' = (285, None)"
     "keyword ''unique'' = (286, None)" "keyword ''char'' = (287, None)" "keyword ''int'' = (288, None)" "keyword ''float'' = (289, None)"
     "keyword ''and'' = (290, None)" "keyword ''or'' = (291, None)" "keyword ''not'' = (292, None)" "keyword ''is'' = (293, None)"
     "keyword ''null'' = (294, None)"
  by (simp_all add: keyword_def word_rule_def keyword_rules_def keyword_tokens_def)

section \<open>Runs of the machine\<close>

text \<open>The machine accepts with the tree \<open>f\<close> and the tokens \<open>z\<close> left.\<close>

definition parses :: "token list \<Rightarrow> machine \<Rightarrow> ast list \<Rightarrow> bool" where "parses z c f = reaches c ([14, 0], [Some f, None], z)"

lemma next_accept: "next_state 14 t = (if t = 0 then Some 53 else None)"
proof (cases "t < 120")
  case True
  have "list_all (\<lambda>t. next_state 14 t = (if t = 0 then Some 53 else None)) [0..<120]"
    by (simp add: next_state_def yylookup_def entry_def yypact_def yycheck_def yytable_def YYPACT_NINF_def YYLAST_def upt_rec)
  then show ?thesis using True by (simp add: list_all_length)
next
  case False
  then show ?thesis by (simp add: next_state_def yylookup_def yypact_def YYLAST_def)
qed

lemma accept_stuck: "astep ([14, 0], [Some f, x], z) = None"
  by (simp add: astep_def next_accept areduce_def yydefact_def YYFINAL_def split: list.splits)

lemma parses_unfold: "parses z c f = (case astep c of Some d \<Rightarrow> parses z d f | None \<Rightarrow> c = ([14, 0], [Some f, None], z))"
proof (cases "astep c")
  case None
  then show ?thesis unfolding parses_def reaches_def by (auto elim: converse_rtranclpE)
next
  case (Some d)
  have "c \<noteq> ([14, 0], [Some f, None], z)" using Some accept_stuck by auto
  then have "reaches c ([14, 0], [Some f, None], z) \<longleftrightarrow> reaches d ([14, 0], [Some f, None], z)"
    using Some reaches_step reaches_cases by (metis option.inject)
  with Some show ?thesis by (simp add: parses_def)
qed

lemma parses_accept: "parses z ([14, 0], [Some g, None], z) f \<longleftrightarrow> g = f"
  by (subst parses_unfold) (simp add: accept_stuck)

lemma next_default: "yypact ! q = - 85 \<Longrightarrow> next_state q t = None"
  by (simp add: next_state_def YYPACT_NINF_def)

lemma parses_default:
  assumes "yypact ! q = - 85" "length ss < 9998"
  shows "parses z (q # ss, fs, ts) f = (case areduce (q # ss, fs, ts) of Some d \<Rightarrow> parses z d f | None \<Rightarrow> False)"
proof -
  have "q \<noteq> 14" using assms(1) by (auto simp: yypact_def)
  then show ?thesis using assms(2) by (subst parses_unfold) (simp add: astep_def next_default [OF assms(1)] split: option.splits)
qed

lemmas parses_token = parses_unfold [of z "(q # ss, fs, (c, a) # ts)" for z q ss fs c a ts]

lemma positions_facts:
  "positions (Suc 0) = [1]" "positions 2 = [1, 2]" "positions 3 = [1, 2, 3]" "positions 4 = [1, 2, 3, 4]" "positions 5 = [1, 2, 3, 4, 5]"
  "positions 6 = [1, 2, 3, 4, 5, 6]" "positions 7 = [1, 2, 3, 4, 5, 6, 7]" "positions 8 = [1, 2, 3, 4, 5, 6, 7, 8]" "positions 10 = [1, 2, 3, 4, 5, 6, 7, 8, 9, 10]"
  by (simp_all add: positions_def upt_rec)

lemmas run_simps = positions_facts parses_token parses_default parses_accept astep_def areduce_def next_facts next_none_facts next_default default_facts rule_facts goto_facts token_facts
  keyword_facts Let_def reads_def uses_def ast_action_def token_code_def add_trees_def YYFINAL_def name_token_def mark_token_def

lemma simple_statements_parse:
  "parses z ([0], [None], sql_tokens (CreateDatabase x) @ z) [sql_tree (CreateDatabase x)]"
  "parses z ([0], [None], sql_tokens (DropDatabase x) @ z) [sql_tree (DropDatabase x)]"
  "parses z ([0], [None], sql_tokens ShowDatabases @ z) [sql_tree ShowDatabases]"
  "parses z ([0], [None], sql_tokens (UseDatabase x) @ z) [sql_tree (UseDatabase x)]"
  "parses z ([0], [None], sql_tokens ShowTables @ z) [sql_tree ShowTables]"
  "parses z ([0], [None], sql_tokens (DropTable x) @ z) [sql_tree (DropTable x)]"
  "parses z ([0], [None], sql_tokens (DropIndex x) @ z) [sql_tree (DropIndex x)]"
  "parses z ([0], [None], sql_tokens ShowIndexes @ z) [sql_tree ShowIndexes]"
  "parses z ([0], [None], sql_tokens TrxBegin @ z) [sql_tree TrxBegin]"
  "parses z ([0], [None], sql_tokens TrxCommit @ z) [sql_tree TrxCommit]"
  "parses z ([0], [None], sql_tokens TrxRollback @ z) [sql_tree TrxRollback]"
  "parses z ([0], [None], sql_tokens Quit @ z) [sql_tree Quit]"
  "parses z ([0], [None], sql_tokens (ExecFile x) @ z) [sql_tree (ExecFile x)]"
  by (simp_all add: sql_tokens_def run_simps)

subsection \<open>Lists\<close>

lemma parses_reduce:
  assumes "next_state q (token_code ts) = None" "length ss < 9998" "q \<noteq> 14"
  shows "parses z (q # ss, fs, ts) f = (case areduce (q # ss, fs, ts) of Some d \<Rightarrow> parses z d f | None \<Rightarrow> False)"
  using assms by (subst parses_unfold) (simp add: astep_def split: option.splits)

lemma name_list_parses:
  assumes "xs \<noteq> []" "next_state q 40 = Some 41" "yygoto q 63 = Some n" "n < 134" "n \<noteq> 14" "length ss + 2 * length xs < 9990" "next_state 41 (token_code rest) = None"
  shows "parses z (q # ss, fs, name_list xs @ rest) f = parses z (n # q # ss, Some (map name_tree xs) # fs, rest) f"
  using assms
proof (induction xs arbitrary: q n ss fs rule: induct_list012)
  case (2 x)
  then show ?case by (simp add: name_list_def run_simps) (simp add: parses_reduce run_simps)
next
  case (3 x y ys)
  have "parses z (61 # 41 # q # ss, None # Some [name_tree x] # fs, name_list (y # ys) @ rest) f =
    parses z (68 # 61 # 41 # q # ss, Some (map name_tree (y # ys)) # None # Some [name_tree x] # fs, rest) f"
    by (rule "3.IH"(2)) (use "3.prems" in \<open>simp_all add: run_simps\<close>)
  moreover have "name_list (x # y # ys) @ rest = name_token x # mark_token (CHR '','') # name_list (y # ys) @ rest" by (simp add: name_list_def)
  ultimately show ?case using "3.prems" by (simp add: run_simps)
qed simp

lemma literal_parses:
  assumes "next_state q 39 = Some 97" "next_state q 41 = Some 98" "next_state q 42 = Some 99" "yygoto q 76 = Some n" "n < 134" "n \<noteq> 14" "length ss < 9990"
  shows "parses z (q # ss, fs, literal_token l # rest) f = parses z (n # q # ss, Some [literal_tree l] # fs, rest) f"
  using assms by (cases l) (simp_all add: run_simps)

lemma literal_list_parses:
  assumes "ls \<noteq> []" "q = 81 \<and> n = 101 \<or> q = 122 \<and> n = 129" "length ss + 2 * length ls < 9980" "next_state 100 (token_code rest) = None"
  shows "parses z (q # ss, fs, literal_list ls @ rest) f = parses z (n # q # ss, Some (map literal_tree ls) # fs, rest) f"
  using assms
proof (induction ls arbitrary: q n ss fs rule: induct_list012)
  case (2 l)
  have "parses z (q # ss, fs, literal_list [l] @ rest) f = parses z (100 # q # ss, Some [literal_tree l] # fs, rest) f"
    unfolding literal_list_def using "2.prems" literal_parses [of q 100 ss z fs l rest f] by (auto simp: run_simps)
  also have "\<dots> = parses z (n # q # ss, Some [literal_tree l] # fs, rest) f" using "2.prems" by (auto simp: parses_reduce run_simps)
  finally show ?case by simp
next
  case (3 l k ls)
  have toks: "literal_list (l # k # ls) @ rest = literal_token l # mark_token (CHR '','') # literal_list (k # ls) @ rest" by (simp add: literal_list_def)
  have "parses z (q # ss, fs, literal_list (l # k # ls) @ rest) f =
      parses z (100 # q # ss, Some [literal_tree l] # fs, mark_token (CHR '','') # literal_list (k # ls) @ rest) f"
    unfolding toks using "3.prems" literal_parses [of q 100 ss z fs l _ f] by (auto simp: run_simps)
  also have "\<dots> = parses z (122 # 100 # q # ss, None # Some [literal_tree l] # fs, literal_list (k # ls) @ rest) f"
    using "3.prems" by (simp add: run_simps)
  also have "\<dots> = parses z (129 # 122 # 100 # q # ss, Some (map literal_tree (k # ls)) # None # Some [literal_tree l] # fs, rest) f"
    by (rule "3.IH"(2)) (use "3.prems" in simp_all)
  also have "\<dots> = parses z (n # q # ss, Some (map literal_tree (l # k # ls)) # fs, rest) f" using "3.prems" by (auto simp: run_simps)
  finally show ?case .
qed simp

lemma operator_parses:
  assumes "length ss < 9990"
  shows "parses z (82 # ss, fs, operator_token opr # rest) f = parses z (110 # 82 # ss, Some [operator_tree opr []] # fs, rest) f"
  using assms by (cases opr) (simp_all add: run_simps)

lemma condition_parses:
  assumes "next_state q 40 = Some 82" "yygoto q 75 = Some n" "n < 134" "n \<noteq> 14" "length ss < 9980"
  shows "parses z (q # ss, fs, condition_tokens c @ rest) f = parses z (n # q # ss, Some [condition_tree c] # fs, rest) f"
proof -
  obtain x opr l where c: "c = Condition x opr l" by (cases c)
  have "parses z (q # ss, fs, condition_tokens c @ rest) f = parses z (82 # q # ss, Some [name_tree x] # fs, operator_token opr # literal_token l # rest) f"
    unfolding c using assms by (simp add: run_simps)
  also have "\<dots> = parses z (124 # 110 # 82 # q # ss, Some [literal_tree l] # Some [operator_tree opr []] # Some [name_tree x] # fs, rest) f"
    using assms by (simp add: operator_parses literal_parses run_simps)
  also have "\<dots> = parses z (n # q # ss, Some [condition_tree c] # fs, rest) f" unfolding c using assms by (simp add: run_simps)
  finally show ?thesis .
qed

lemma more_conditions_parse:
  assumes "q = 71 \<and> m = 83 \<or> q = 80 \<and> m = 96 \<or> q = 86 \<and> m = 115" "length ss < 9970"
  shows "parses z (m # q # ss, Some [t] # fs, more_conditions cs @ rest) f = parses z (m # q # ss, Some [conditions_tree t cs] # fs, rest) f"
  using assms
proof (induction cs arbitrary: t)
  case (Cons a cs)
  obtain k c where a: "a = (k, c)" by (cases a)
  let ?k = "Ast kNodeConnector (Some (case k of ConAnd \<Rightarrow> ''and'' | ConOr \<Rightarrow> ''or''))"
  have "parses z (m # q # ss, Some [t] # fs, more_conditions (a # cs) @ rest) f =
      parses z (113 # m # q # ss, Some [?k []] # Some [t] # fs, condition_tokens c @ more_conditions cs @ rest) f"
    unfolding a using Cons.prems by (cases k) (auto simp: run_simps)
  also have "\<dots> = parses z (125 # 113 # m # q # ss, Some [condition_tree c] # Some [?k []] # Some [t] # fs, more_conditions cs @ rest) f"
    using Cons.prems by (intro condition_parses) (simp_all add: run_simps)
  also have "\<dots> = parses z (m # q # ss, Some [?k [t, condition_tree c]] # fs, more_conditions cs @ rest) f" using Cons.prems by (auto simp: run_simps)
  finally show ?case using Cons by (simp add: a)
qed simp

lemma conditions_parse:
  assumes "q = 71 \<and> m = 83 \<or> q = 80 \<and> m = 96 \<or> q = 86 \<and> m = 115" "length ss < 9970"
  shows "parses z (q # ss, fs, condition_tokens c @ more_conditions cs @ rest) f = parses z (m # q # ss, Some [conditions_tree (condition_tree c) cs] # fs, rest) f"
proof -
  have "parses z (q # ss, fs, condition_tokens c @ more_conditions cs @ rest) f = parses z (84 # q # ss, Some [condition_tree c] # fs, more_conditions cs @ rest) f"
    using assms by (intro condition_parses) (auto simp: run_simps)
  also have "\<dots> = parses z (m # q # ss, Some [condition_tree c] # fs, more_conditions cs @ rest) f" using assms by (auto simp: run_simps)
  finally show ?thesis using more_conditions_parse [OF assms] by simp
qed

lemma value_item_parses:
  assumes "q = 65 \<or> q = 87" "length ss < 9970"
  shows "parses z (q # ss, fs, name_token c # operator_token OpEq # literal_token l # rest) f =
    parses z (74 # q # ss, Some [Ast kNodeUpdateValue None [name_tree c, literal_tree l]] # fs, rest) f"
proof -
  have "parses z (q # ss, fs, name_token c # operator_token OpEq # literal_token l # rest) f =
      parses z (85 # 72 # q # ss, None # Some [name_tree c] # fs, literal_token l # rest) f" using assms by (auto simp: run_simps)
  also have "\<dots> = parses z (114 # 85 # 72 # q # ss, Some [literal_tree l] # None # Some [name_tree c] # fs, rest) f"
    using assms by (intro literal_parses) (simp_all add: run_simps)
  finally show ?thesis using assms by (auto simp: run_simps)
qed

lemma value_list_parses:
  assumes "us \<noteq> []" "q = 65 \<and> n = 73 \<or> q = 87 \<and> n = 116" "length ss + 2 * length us < 9960" "next_state 74 (token_code rest) = None"
  shows "parses z (q # ss, fs, value_list us @ rest) f = parses z (n # q # ss, Some (value_trees us) # fs, rest) f"
  using assms
proof (induction us arbitrary: q n ss fs rule: induct_list012)
  case (2 u)
  obtain c l where u: "u = (c, l)" by (cases u)
  have "parses z (q # ss, fs, value_list [u] @ rest) f = parses z (74 # q # ss, Some (value_trees [u]) # fs, rest) f"
    using "2.prems" value_item_parses [of q ss z fs c l rest f] by (auto simp: u value_list_def value_trees_def)
  also have "\<dots> = parses z (n # q # ss, Some (value_trees [u]) # fs, rest) f" using "2.prems" by (auto simp: parses_reduce run_simps value_trees_def)
  finally show ?case .
next
  case (3 u w us)
  obtain c l where u: "u = (c, l)" by (cases u)
  have toks: "value_list (u # w # us) @ rest = name_token c # operator_token OpEq # literal_token l # mark_token (CHR '','') # value_list (w # us) @ rest"
    by (simp add: value_list_def u)
  have "parses z (q # ss, fs, value_list (u # w # us) @ rest) f =
      parses z (74 # q # ss, Some (value_trees [u]) # fs, mark_token (CHR '','') # value_list (w # us) @ rest) f"
    unfolding toks using "3.prems" value_item_parses [of q ss z fs c l _ f] by (auto simp: u value_trees_def)
  also have "\<dots> = parses z (87 # 74 # q # ss, None # Some (value_trees [u]) # fs, value_list (w # us) @ rest) f" using "3.prems" by (simp add: run_simps)
  also have "\<dots> = parses z (116 # 87 # 74 # q # ss, Some (value_trees (w # us)) # None # Some (value_trees [u]) # fs, rest) f"
    by (rule "3.IH"(2)) (use "3.prems" in simp_all)
  also have "\<dots> = parses z (n # q # ss, Some (value_trees (u # w # us)) # fs, rest) f" using "3.prems" by (auto simp: run_simps value_trees_def)
  finally show ?case .
qed simp

lemma column_parses:
  assumes "q = 66 \<or> q = 94" "length ss < 9970" "next_state 92 (token_code rest) = None"
  shows "parses z (q # ss, fs, column_tokens c @ rest) f = parses z (78 # q # ss, Some [column_tree c] # fs, rest) f"
proof -
  obtain x t u where c: "c = ColumnDef x t u" by (cases c)
  have "parses z (q # ss, fs, column_tokens c @ rest) f =
      parses z (92 # 76 # q # ss, Some [type_tree t] # Some [name_tree x] # fs, (if u then [keyword ''unique''] else []) @ rest) f"
    unfolding c using assms(1,2) by (cases t) (auto simp: run_simps)
  also have "\<dots> = parses z (78 # q # ss, Some [column_tree c] # fs, rest) f"
    unfolding c using assms by (cases u) (auto simp: parses_reduce run_simps)
  finally show ?thesis .
qed

lemma keys_parse:
  assumes "ks \<noteq> []" "q = 66 \<and> n = 77 \<or> q = 94 \<and> n = 120" "length ss + 2 * length ks < 9960"
  shows "parses z (q # ss, fs, key_tokens ks @ rest) f = parses z (n # q # ss, Some [Ast kNodeColumnList (Some ''primary keys'') (map name_tree ks)] # fs, rest) f"
proof -
  have "parses z (q # ss, fs, key_tokens ks @ rest) f =
      parses z (117 # 88 # 75 # q # ss, None # None # None # fs, name_list ks @ mark_token (CHR '')'') # rest) f"
    using assms by (auto simp: key_tokens_def run_simps)
  also have "\<dots> = parses z (126 # 117 # 88 # 75 # q # ss, Some (map name_tree ks) # None # None # None # fs, mark_token (CHR '')'') # rest) f"
    using assms by (intro name_list_parses) (simp_all add: run_simps)
  finally show ?thesis using assms by (auto simp: run_simps)
qed

lemma definition_list_step:
  assumes "cs \<noteq> [] \<or> ks \<noteq> []"
  shows "definition_list (c # cs) ks = column_tokens c @ mark_token (CHR '','') # definition_list cs ks"
  using assms by (cases cs; cases ks) (simp_all add: definition_list_def)

lemma definition_list_parses:
  assumes "0 < length cs + length ks" "q = 66 \<and> n = 77 \<or> q = 94 \<and> n = 120" "length ss + 2 * (length cs + length ks) < 9950"
    "next_state 78 (token_code rest) = None" "next_state 92 (token_code rest) = None"
  shows "parses z (q # ss, fs, definition_list cs ks @ rest) f = parses z (n # q # ss, Some (definition_trees cs ks) # fs, rest) f"
  using assms
proof (induction cs arbitrary: q n ss fs)
  case Nil
  then show ?case using keys_parse [of ks q n ss z fs rest f] by (auto simp: definition_list_def definition_trees_def)
next
  case (Cons c cs)
  show ?case
  proof (cases "cs = [] \<and> ks = []")
    case True
    then have "parses z (q # ss, fs, definition_list (c # cs) ks @ rest) f = parses z (78 # q # ss, Some [column_tree c] # fs, rest) f"
      using Cons.prems column_parses [of q ss rest z fs c f] by (auto simp: definition_list_def)
    also have "\<dots> = parses z (n # q # ss, Some [column_tree c] # fs, rest) f" using Cons.prems by (auto simp: parses_reduce run_simps)
    finally show ?thesis using True by (simp add: definition_trees_def)
  next
    case False
    then have "parses z (q # ss, fs, definition_list (c # cs) ks @ rest) f =
        parses z (78 # q # ss, Some [column_tree c] # fs, mark_token (CHR '','') # definition_list cs ks @ rest) f"
      using Cons.prems column_parses [of q ss "mark_token (CHR '','') # definition_list cs ks @ rest" z fs c f]
      by (auto simp: definition_list_step run_simps)
    also have "\<dots> = parses z (94 # 78 # q # ss, None # Some [column_tree c] # fs, definition_list cs ks @ rest) f" using Cons.prems by (simp add: run_simps)
    also have "\<dots> = parses z (120 # 94 # 78 # q # ss, Some (definition_trees cs ks) # None # Some [column_tree c] # fs, rest) f"
      by (rule Cons.IH) (use Cons.prems False in auto)
    also have "\<dots> = parses z (n # q # ss, Some (definition_trees (c # cs) ks) # fs, rest) f"
      using Cons.prems by (auto simp: run_simps definition_trees_def)
    finally show ?thesis .
  qed
qed

subsection \<open>Statements\<close>

lemma create_table_parses: "sql_ok (CreateTable t cs ks) \<Longrightarrow> parses z ([0], [None], sql_tokens (CreateTable t cs ks) @ z) [sql_tree (CreateTable t cs ks)]"
  by (simp add: sql_tokens_def run_simps definition_list_parses)

lemma create_index_parses: "sql_ok (CreateIndex i t ks u) \<Longrightarrow> parses z ([0], [None], sql_tokens (CreateIndex i t ks u) @ z) [sql_tree (CreateIndex i t ks u)]"
  by (cases u) (simp_all add: sql_tokens_def run_simps name_list_parses fits_stack_def)

lemma insert_parses: "sql_ok (Insert t ls) \<Longrightarrow> parses z ([0], [None], sql_tokens (Insert t ls) @ z) [sql_tree (Insert t ls)]"
  by (simp add: sql_tokens_def run_simps literal_list_parses fits_stack_def)

lemma select_parses: "sql_ok (Select cs t w) \<Longrightarrow> parses z ([0], [None], sql_tokens (Select cs t w) @ z) [sql_tree (Select cs t w)]"
  by (cases cs; cases w) (auto simp: sql_tokens_def run_simps name_list_parses conditions_parse fits_stack_def where_tree_def)

lemma delete_parses: "parses z ([0], [None], sql_tokens (Delete t w) @ z) [sql_tree (Delete t w)]"
  by (cases w) (auto simp: sql_tokens_def run_simps conditions_parse where_tree_def)

lemma update_parses: "sql_ok (Update t us w) \<Longrightarrow> parses z ([0], [None], sql_tokens (Update t us w) @ z) [sql_tree (Update t us w)]"
  by (cases w) (auto simp: sql_tokens_def run_simps value_list_parses conditions_parse fits_stack_def where_tree_def)

lemma statement_parses: "sql_ok st \<Longrightarrow> parses z ([0], [None], sql_tokens st @ z) [sql_tree st]"
  by (cases st) (simp_all only: simple_statements_parse create_table_parses create_index_parses insert_parses select_parses delete_parses update_parses)

lemma statements_parsed:
  assumes "sql_ok st" "delivers scan i (sql_tokens st)"
  shows "\<exists>s. yyparse scan (roomy slack) i v g = Some (0, s) \<and> forest (pg_root_node (yyglobals s)) = [sql_tree st] \<and> pg_errors (yyglobals s) = pg_errors g \<and>
    set (pg_blocks (yyglobals s)) = set (pg_blocks g) \<union> set (tree_blocks (sql_tree st))"
  using machine_parses [of "sql_tokens st" "[sql_tree st]", OF _ assms(2)] statement_parses [OF assms(1), of "[]"] by (simp add: parses_def forest_blocks_def)

text \<open>After a statement the parser has set the root before it reads the next token.\<close>

lemma trailing_tokens_reported:
  assumes "sql_ok st" "delivers scan i (sql_tokens st @ t # ts)"
  shows "\<exists>s. yyparse scan (roomy slack) i v g = Some (1, s) \<and> forest (pg_root_node (yyglobals s)) = [sql_tree st] \<and>
    set (pg_blocks (yyglobals s)) = set (pg_blocks g) \<union> set (tree_blocks (sql_tree st)) \<union> token_blocks (snd t) \<and>
    (\<exists>h. pg_errors h = pg_errors g \<and> pg_errors (yyglobals s) = pg_errors (MinisqlParserSetError ''syntax error'' h))"
  using machine_rejects [of "sql_tokens st @ t # ts" "[sql_tree st]" t ts, OF _ assms(2)] statement_parses [OF assms(1), of "t # ts"]
  by (simp add: parses_def forest_blocks_def)

end
