(* ===== verification/Sql_Text.thy ===== *)
theory Sql_Text
  imports Sql_Grammar
begin

text \<open>
  From the characters of a statement to its tree: the text of a statement, with a blank before every token, and the theorem that the scanner and the parser together make
  the tree of the statement from it.
\<close>

section \<open>Texts\<close>

fun all_digits :: "string \<Rightarrow> bool" where "all_digits s = (s \<noteq> [] \<and> list_all digit_char s)"

text \<open>A minus sign, digits, and a point with digits.\<close>

definition is_number :: "string \<Rightarrow> bool" where
  "is_number s =
     (let t = (if s \<noteq> [] \<and> hd s = CHR ''-'' then tl s else s); a = takeWhile digit_char t; b = dropWhile digit_char t in
      a \<noteq> [] \<and> (b = [] \<or> hd b = CHR ''.'' \<and> all_digits (tl b)))"

definition is_name :: "string \<Rightarrow> bool" where
  "is_name s = (s \<noteq> [] \<and> is_letter (hd s) \<and> list_all (\<lambda>ch. is_letter ch \<or> digit_char ch) s \<and> word_rule s = 39)"

definition is_plain :: "string \<Rightarrow> bool" where
  "is_plain s = list_all (\<lambda>ch. ch \<noteq> CHR 0x00 \<and> ch \<noteq> CHR 0x22 \<and> ch \<noteq> CHR 0x5C) s"

definition symbol_texts :: "(int \<times> string) list" where
  "symbol_texts = [(298, ''=''), (299, ''<>''), (300, ''<=''), (301, ''>=''), (44, '',''), (42, ''*''), (59, '';''), (60, ''<''), (62, ''>''), (40, ''(''), (41, '')'')]"

definition value_text :: "ast \<Rightarrow> string" where
  "value_text a = (case a of Ast ty v cs \<Rightarrow>
     (case v of None \<Rightarrow> [] | Some x \<Rightarrow> if ty = kNodeString then CHR 0x22 # x @ [CHR 0x22] else x))"

definition token_text :: "token \<Rightarrow> string" where
  "token_text = (\<lambda>(c, a). case a of Some t \<Rightarrow> value_text t
     | None \<Rightarrow> if 258 \<le> c \<and> c \<le> 294 then fst (keyword_rules ! nat (c - 258)) else the (map_of symbol_texts c))"

definition token_ok :: "token \<Rightarrow> bool" where
  "token_ok = (\<lambda>(c, a). case a of
       None \<Rightarrow> 258 \<le> c \<and> c \<le> 294 \<or> c \<in> set (map fst symbol_texts)
     | Some (Ast ty v cs) \<Rightarrow> cs = [] \<and> (case v of None \<Rightarrow> False
         | Some x \<Rightarrow> c = 295 \<and> ty = kNodeIdentifier \<and> is_name x \<or> c = 296 \<and> ty = kNodeString \<and> is_plain x \<or> c = 297 \<and> ty = kNodeNumber \<and> is_number x))"

definition tokens_text :: "token list \<Rightarrow> string" where "tokens_text ts = concat (map (\<lambda>t. CHR '' '' # token_text t) ts)"

definition sql_text :: "sql \<Rightarrow> string" where "sql_text st = tokens_text (sql_tokens st)"

definition sql_text_ok :: "sql \<Rightarrow> bool" where "sql_text_ok st = list_all token_ok (sql_tokens st)"

section \<open>The scanner on texts\<close>

definition ends :: "string \<Rightarrow> bool" where "ends rest = (no_nul rest \<and> (rest = [] \<or> hd rest = CHR '' ''))"

lemma lexeme_of_run:
  assumes "yy_run 1 w = Some q" "yy_accept ! q \<noteq> 0" "w \<noteq> []" "no_nul w" "ends rest" "yy_trans q (char_class (CHR '' '')) = Some 174"
  shows "yy_lexeme (w @ rest) = Some (yy_accept ! q, length w)"
proof -
  have acc: "run_accept 1 w = yy_accept ! q" using assms(1) by (simp add: run_accept_def)
  have "run_accept 1 (take m (w @ rest)) = 0" if m: "length w < m" "m \<le> length (w @ rest)" for m
  proof -
    obtain t where r: "rest = CHR '' '' # t" using m assms(5) by (cases rest) (auto simp: ends_def)
    moreover obtain k where "m - length w = Suc k" using m(1) by (cases "m - length w") auto
    ultimately show ?thesis using assms(1,5,6) run_jam [of "take k t"] no_nul_take_drop [of t k]
      by (simp add: ends_def run_accept_def run_append fixed_entries)
  qed
  then show ?thesis using lexeme_unique [of "length w" "w @ rest"] acc assms(2-5) by (simp add: ends_def)
qed

lemma char_classes:
  "char_class (CHR '' '') = 2" "char_class (CHR ''-'') = 10" "char_class (CHR ''.'') = 11" "char_class (CHR 0x22) = 4"
  by (simp_all add: char_class_def yy_ec_def)

lemma class_quote: "char_class ch = 4 \<longleftrightarrow> ch = CHR 0x22" "char_class ch = 18 \<longleftrightarrow> ch = CHR 0x5C"
proof -
  have "list_all (\<lambda>(i, c). (c = 4 \<longleftrightarrow> i = 34) \<and> (c = 18 \<longleftrightarrow> i = 92)) (zip [0..<256] yy_ec)" by code_simp
  from list_all_zip [OF this, of "of_char ch"] have "char_class ch = 4 \<longleftrightarrow> of_char ch = (34 :: nat)" "char_class ch = 18 \<longleftrightarrow> of_char ch = (92 :: nat)"
    by (simp_all add: table_lengths char_class_def)
  then show "char_class ch = 4 \<longleftrightarrow> ch = CHR 0x22" "char_class ch = 18 \<longleftrightarrow> ch = CHR 0x5C"
    using of_char_eq_iff [of ch "CHR 0x22"] of_char_eq_iff [of ch "CHR 0x5C"] by simp_all
qed

lemma blank_lexeme: "no_nul rest \<Longrightarrow> yy_lexeme (CHR '' '' # rest) = Some (54, 1)"
proof -
  assume nul: "no_nul rest"
  have t: "yy_trans 1 2 = Some 5" by (simp add: trans_closed fixed_entries yy_chk_def yy_nxt_def del: One_nat_def)
  have b: "yy_base ! 5 = 189" "yy_accept ! 5 = 54" by (simp_all add: yy_base_def yy_accept_def)
  have "run_accept 1 (take m (CHR '' '' # rest)) = 0" if m: "1 < m" "m \<le> length (CHR '' '' # rest)" for m
  proof -
    obtain ch r where r: "rest = ch # r" using m by (cases rest) auto
    obtain k where k: "m = Suc (Suc k)" using m(1) by (metis One_nat_def Suc_lessE less_imp_Suc_add)
    have "yy_trans 5 (char_class ch) = Some 174"
      by (rule trans_ok [of 5 "char_class ch"]) (use b nul r char_class_bounds(1) in auto)
    then show ?thesis using r k t nul run_jam [of "take k r"] no_nul_take_drop [of r k]
      by (simp add: run_accept_def char_classes fixed_entries del: One_nat_def)
  qed
  moreover have "run_accept 1 (take 1 (CHR '' '' # rest)) = 54" using t b by (simp add: run_accept_def char_classes)
  ultimately show ?thesis using lexeme_unique [of 1 "CHR '' '' # rest"] nul by (simp add: char_classes)
qed

lemma number_trans:
  "yy_trans 1 10 = Some 13" "yy_trans 1 12 = Some 15" "yy_trans 13 12 = Some 43" "yy_trans 15 12 = Some 43" "yy_trans 43 12 = Some 43"
  "yy_trans 15 11 = Some 42" "yy_trans 43 11 = Some 42" "yy_trans 42 12 = Some 44" "yy_trans 44 12 = Some 44"
  "yy_trans 15 2 = Some 174" "yy_trans 43 2 = Some 174" "yy_trans 44 2 = Some 174" "yy_trans 40 2 = Some 174" "yy_trans 1 4 = Some 7"
  "yy_trans 7 4 = Some 40" "yy_trans 39 4 = Some 40"
  by (simp_all add: trans_closed fixed_entries yy_base_def yy_chk_def yy_nxt_def yy_def_def default_trans_def yy_meta_def del: One_nat_def)

lemma value_accepts: "yy_accept ! 15 = 41" "yy_accept ! 43 = 41" "yy_accept ! 44 = 40" "yy_accept ! 40 = 1"
  by (simp_all add: yy_accept_def)

lemma digit_runs: "list_all digit_char ds \<Longrightarrow> yy_run 43 ds = Some 43 \<and> yy_run 44 ds = Some 44"
  by (induction ds) (simp_all add: class_letter_facts number_trans)

lemma digits_no_nul: "list_all digit_char ds \<Longrightarrow> no_nul ds"
  by (induction ds) (simp_all add: class_letter_facts)

lemma whole_run:
  assumes "all_digits ds"
  shows "yy_run 1 ds = Some 15 \<or> yy_run 1 ds = Some 43" "yy_run 13 ds = Some 43"
  using assms digit_runs by (cases ds; cases "tl ds"; auto simp: class_letter_facts number_trans simp del: One_nat_def)+

lemma fraction_run: "q = 15 \<or> q = 43 \<Longrightarrow> all_digits ds \<Longrightarrow> yy_run q (CHR ''.'' # ds) = Some 44"
  using digit_runs by (cases ds) (auto simp: class_letter_facts char_classes number_trans)

lemma number_run:
  assumes "is_number s"
  shows "\<exists>q. yy_run 1 s = Some q \<and> (q = 15 \<or> q = 43 \<or> q = 44) \<and> s \<noteq> [] \<and> no_nul s"
proof -
  define t where "t = (if s \<noteq> [] \<and> hd s = CHR ''-'' then tl s else s)"
  define a where "a = takeWhile digit_char t"
  define b where "b = dropWhile digit_char t"
  have n: "a \<noteq> []" "b = [] \<or> hd b = CHR ''.'' \<and> all_digits (tl b)"
    using assms unfolding is_number_def Let_def a_def b_def t_def by blast+
  have "list_all digit_char a" unfolding a_def by (auto simp: list_all_iff dest: set_takeWhileD)
  moreover have "t = a @ b" by (simp add: a_def b_def)
  ultimately have ab: "all_digits a" "b = [] \<or> (\<exists>ds. b = CHR ''.'' # ds \<and> all_digits ds)" "t = a @ b"
    using n by (simp, cases b, simp_all)
  have nul: "no_nul t" using ab digits_no_nul by (auto simp: char_classes)
  have "\<exists>q. (q = 15 \<or> q = 43) \<and> yy_run (if s \<noteq> [] \<and> hd s = CHR ''-'' then 13 else 1) a = Some q"
    using whole_run [OF ab(1)] by (cases "s \<noteq> [] \<and> hd s = CHR ''-''") (auto simp del: One_nat_def)
  then obtain q where q: "q = 15 \<or> q = 43" "yy_run (if s \<noteq> [] \<and> hd s = CHR ''-'' then 13 else 1) a = Some q" by blast
  have "\<exists>r. yy_run (if s \<noteq> [] \<and> hd s = CHR ''-'' then 13 else 1) t = Some r \<and> (r = 15 \<or> r = 43 \<or> r = 44)"
    using ab(2) q fraction_run [OF q(1)] by (auto simp: ab(3) run_append)
  moreover have "s = (if s \<noteq> [] \<and> hd s = CHR ''-'' then CHR ''-'' # t else t)" by (cases s) (auto simp: t_def)
  moreover have "t \<noteq> []" using ab by auto
  ultimately show ?thesis using nul by (cases "s \<noteq> [] \<and> hd s = CHR ''-''") (auto simp: char_classes number_trans simp del: One_nat_def)
qed

lemma plain_trans:
  assumes "q = 7 \<or> q = 39" "ch \<noteq> CHR 0x00" "ch \<noteq> CHR 0x22" "ch \<noteq> CHR 0x5C"
  shows "yy_trans q (char_class ch) = Some 39"
proof -
  have c: "char_class ch < 43" "char_class ch \<noteq> 0" "char_class ch \<noteq> 4" "char_class ch \<noteq> 18"
    using assms(2-4) char_class_bounds class_quote by auto
  have "list_all (\<lambda>c. c \<in> set [0, 4, 18] \<or> yy_trans 7 c = Some 39 \<and> yy_trans 39 c = Some 39) [0..<43]"
    by (simp add: trans_closed fixed_entries yy_base_def yy_chk_def yy_nxt_def yy_def_def default_trans_def upt_rec del: One_nat_def)
  then show ?thesis unfolding list_all_length using c assms(1) by (auto dest!: spec [of _ "char_class ch"])
qed

lemma plain_run: "q = 7 \<or> q = 39 \<Longrightarrow> is_plain s \<Longrightarrow> \<exists>r. (r = 7 \<or> r = 39) \<and> yy_run q s = Some r"
proof (induction s arbitrary: q)
  case (Cons ch s)
  then have "yy_trans q (char_class ch) = Some 39" by (intro plain_trans) (auto simp: is_plain_def)
  with Cons show ?case by (simp add: is_plain_def)
qed auto

lemma string_run:
  assumes "is_plain s"
  shows "yy_run 1 (CHR 0x22 # s @ [CHR 0x22]) = Some 40"
  using plain_run [of 7 s] assms by (auto simp: run_append char_classes number_trans simp del: One_nat_def)

lemma symbol_runs:
  "list_all (\<lambda>(c, w). w \<noteq> [] \<and> no_nul w \<and> (case yy_run 1 w of None \<Rightarrow> False | Some q \<Rightarrow>
     42 \<le> yy_accept ! q \<and> yy_accept ! q \<le> 53 \<and> symbol_tokens ! (yy_accept ! q - 42) = c \<and> yy_trans q 2 = Some 174)) symbol_texts"
  by (simp add: symbol_texts_def trans_closed char_class_def yy_ec_def fixed_entries yy_base_def yy_chk_def yy_nxt_def yy_def_def default_trans_def
      yy_meta_def yy_accept_def symbol_tokens_def del: One_nat_def)

lemma keyword_words:
  "list_all (\<lambda>(i, w, r). w \<noteq> [] \<and> is_letter (hd w) \<and> list_all is_letter w \<and> r = i + 2 \<and> word_rule w = r \<and> keyword_tokens ! i = int i + 258)
     (List.enumerate 0 keyword_rules)"
  by code_simp

lemma quiet_move: "quiet g {} (MinisqlParserMovePos line s g)"
proof -
  have "pg_root_node (move_pos t g) = pg_root_node g \<and> pg_errors (move_pos t g) = pg_errors g" for t by (induction t g rule: move_pos.induct) simp_all
  then show ?thesis by (simp add: MinisqlParserMovePos_def quiet_def)
qed

lemma quiet_trans: "quiet g {} h \<Longrightarrow> quiet h B k \<Longrightarrow> quiet g B k"
  by (simp add: quiet_def)

text \<open>One call of the scanner, on a blank and the text of a token.\<close>

lemma yylex_blank:
  assumes "no_nul s"
  shows "yylex slack (CHR '' '' # s) v g = yylex slack s v (MinisqlParserMovePos 0 '' '' g)"
  by (subst yylex.simps) (simp add: blank_lexeme [OF assms] yy_action_def)

lemma yylex_token:
  assumes "yy_lexeme (w @ rest) = Some (r, length w)" "yy_action slack r w v g = Some (Some c, v', g')"
  shows "yylex slack (w @ rest) v g = Some (c, rest, v', g')"
  using assms by (subst yylex.simps) simp

lemma word_scanned:
  assumes "w \<noteq> []" "is_letter (hd w)" "list_all (\<lambda>ch. is_letter ch \<or> digit_char ch) w" "ends rest"
  shows "yy_lexeme (w @ rest) = Some (word_rule w, length w)" "no_nul w"
proof -
  have "\<not> is_letter (CHR '' '')" "\<not> digit_char (CHR '' '')" by (simp_all add: is_letter_def digit_char_def)
  then show "yy_lexeme (w @ rest) = Some (word_rule w, length w)" using assms by (intro word_lexeme) (auto simp: ends_def no_nul_def list_all_iff)
  show "no_nul w" using assms(3) by (induction w) (auto simp: class_letter_facts)
qed

lemma node_action:
  assumes "r = 39 \<and> ty = kNodeIdentifier \<and> c = 295 \<or> (r = 40 \<or> r = 41) \<and> ty = kNodeNumber \<and> c = 297" "no_nul w"
  shows "\<exists>n g'. yy_action (roomy slack) r w v g = Some (Some c, Some n, g') \<and>
    quiet g (token_blocks (Some (Ast ty (Some w) []))) g' \<and> siblings n = [Ast ty (Some w) []]"
proof -
  have "CHR 0x00 \<notin> set w" using assms(2) by (simp add: no_nul_def)
  then have "CreateSyntaxNode (roomy slack) ty (Some w) h = Some (SyntaxNode (pg_debug_node_count h) ty (pg_line_no h) (pg_column_no h) None None (Some w),
      h\<lparr>pg_debug_node_count := pg_debug_node_count h + 1, pg_syntax_node_list := pg_debug_node_count h # pg_syntax_node_list h,
        pg_blocks := overrun ty (Some w) @ pg_blocks h\<rparr>)" for h
    using assms(1) by (intro create_node) auto
  note node = this
  consider "r = 39" "ty = kNodeIdentifier" "c = 295" | "r = 40" "ty = kNodeNumber" "c = 297" | "r = 41" "ty = kNodeNumber" "c = 297"
    using assms(1) by blast
  then show ?thesis by cases (use node quiet_move [of g 0 w] in \<open>simp_all add: yy_action_def Let_def IDENTIFIER_def NUMBER_def quiet_def token_blocks_def\<close>)
qed

lemma string_action:
  assumes "CHR 0x00 \<notin> set x"
  shows "\<exists>n g'. yy_action (roomy slack) 1 (CHR 0x22 # x @ [CHR 0x22]) v g = Some (Some 296, Some n, g') \<and>
    quiet g (token_blocks (Some (Ast kNodeString (Some x) []))) g' \<and> siblings n = [Ast kNodeString (Some x) []]"
proof -
  have "copy_value (roomy slack) kNodeString (CHR 0x22 # x @ [CHR 0x22]) = Some x" using assms by (simp add: copy_value_string c_string_id)
  then show ?thesis using quiet_move [of g 0 "CHR 0x22 # x @ [CHR 0x22]"] by (simp add: yy_action_def Let_def CreateSyntaxNode_def STRING_def quiet_def token_blocks_def overrun_def)
qed

text \<open>The four kinds of tokens, at the start of a text.\<close>

definition scanned :: "allocator \<Rightarrow> int \<Rightarrow> string \<Rightarrow> ast option \<Rightarrow> string \<Rightarrow> bool" where
  "scanned usable c w a rest \<longleftrightarrow> no_nul w \<and> (\<forall>v g. \<exists>v' g'. yylex usable (w @ rest) v g = Some (c, rest, v', g') \<and> quiet g (token_blocks a) g' \<and>
     (a = None \<or> (\<exists>n. v' = Some n \<and> siblings n = [the a])))"

lemma keyword_scanned:
  assumes "258 \<le> c" "c \<le> 294" "ends rest"
  shows "scanned (roomy slack) c (fst (keyword_rules ! nat (c - 258))) None rest"
proof -
  define i where "i = nat (c - 258)"
  obtain w r where wr: "keyword_rules ! i = (w, r)" by (cases "keyword_rules ! i")
  have "i < length keyword_rules" using assms by (auto simp: i_def keyword_rules_def)
  then have "(i, w, r) \<in> set (List.enumerate 0 keyword_rules)" by (auto simp: in_set_enumerate_eq wr)
  then have k: "w \<noteq> []" "is_letter (hd w)" "list_all is_letter w" "word_rule w = i + 2" "keyword_tokens ! i = int i + 258"
    using keyword_words by (auto simp: list_all_iff)
  have ws: "yy_lexeme (w @ rest) = Some (i + 2, length w)" "no_nul w"
    using word_scanned [of w rest] k assms(3) by (auto simp: list_all_iff)
  have "c = int i + 258" "i \<le> 36" using assms by (auto simp: i_def)
  then have "yy_action (roomy slack) (i + 2) w v g = Some (Some c, v, MinisqlParserMovePos 0 w g)" for v g
    using k(5) by (simp add: yy_action_def YY_STATE_EOF_def)
  then show ?thesis using ws quiet_move [of _ 0 w] yylex_token [OF ws(1)] by (auto simp: scanned_def token_blocks_def wr i_def [symmetric])
qed

lemma symbol_scanned:
  assumes "map_of symbol_texts c = Some w" "ends rest"
  shows "0 < c \<and> c \<le> 301 \<and> scanned (roomy slack) c w None rest"
proof -
  have cw: "(c, w) \<in> set symbol_texts" using assms(1) by (rule map_of_SomeD)
  with symbol_runs obtain q where q: "w \<noteq> []" "no_nul w" "yy_run 1 w = Some q" "42 \<le> yy_accept ! q" "yy_accept ! q \<le> 53"
    "symbol_tokens ! (yy_accept ! q - 42) = c" "yy_trans q 2 = Some 174"
    by (auto simp: list_all_iff split: option.splits simp del: One_nat_def)
  have c: "0 < c \<and> c \<le> 301" using cw by (auto simp: symbol_texts_def)
  have lx: "yy_lexeme (w @ rest) = Some (yy_accept ! q, length w)" using q assms(2) by (intro lexeme_of_run) (auto simp: char_classes)
  have "yy_action (roomy slack) (yy_accept ! q) w v g = Some (Some c, v, MinisqlParserMovePos 0 w g)" for v g
    using q(4-6) by (simp add: yy_action_def YY_STATE_EOF_def)
  then show ?thesis using c q(2) quiet_move [of _ 0 w] yylex_token [OF lx] by (auto simp: scanned_def token_blocks_def)
qed

lemma scanned_node:
  assumes "yy_lexeme (w @ rest) = Some (r, length w)" "no_nul w"
    "\<And>v g. \<exists>n g'. yy_action (roomy slack) r w v g = Some (Some c, Some n, g') \<and> quiet g (token_blocks (Some t)) g' \<and> siblings n = [t]"
  shows "scanned (roomy slack) c w (Some t) rest"
  unfolding scanned_def using assms(2)
proof (intro conjI allI)
  fix v g
  obtain n g' where "yy_action (roomy slack) r w v g = Some (Some c, Some n, g')" "quiet g (token_blocks (Some t)) g'" "siblings n = [t]" using assms(3) by blast
  with yylex_token [OF assms(1)] show "\<exists>v' g'. yylex (roomy slack) (w @ rest) v g = Some (c, rest, v', g') \<and> quiet g (token_blocks (Some t)) g' \<and>
    (Some t = None \<or> (\<exists>n. v' = Some n \<and> siblings n = [the (Some t)]))" by auto
qed

lemma name_scanned:
  assumes "is_name w" "ends rest"
  shows "scanned (roomy slack) 295 w (Some (Ast kNodeIdentifier (Some w) [])) rest"
proof -
  have ws: "yy_lexeme (w @ rest) = Some (39, length w)" "no_nul w" using word_scanned [of w rest] assms by (auto simp: is_name_def)
  then show ?thesis by (intro scanned_node [where r = 39] node_action) auto
qed

lemma string_scanned:
  assumes "is_plain w" "ends rest"
  shows "scanned (roomy slack) 296 (CHR 0x22 # w @ [CHR 0x22]) (Some (Ast kNodeString (Some w) [])) rest"
proof -
  let ?w = "CHR 0x22 # w @ [CHR 0x22]"
  have nul: "CHR 0x00 \<notin> set w" "no_nul ?w" using assms(1) by (auto simp: is_plain_def list_all_iff no_nul_def)
  then have lx: "yy_lexeme (?w @ rest) = Some (1, length ?w)"
    using lexeme_of_run [OF string_run [OF assms(1)], of rest] assms(2) by (simp add: value_accepts char_classes number_trans)
  show ?thesis by (rule scanned_node [OF lx nul(2)]) (rule string_action [OF nul(1)])
qed

lemma number_scanned:
  assumes "is_number w" "ends rest"
  shows "scanned (roomy slack) 297 w (Some (Ast kNodeNumber (Some w) [])) rest"
proof -
  obtain q where q: "yy_run 1 w = Some q" "q = 15 \<or> q = 43 \<or> q = 44" "w \<noteq> []" "no_nul w" using number_run [OF assms(1)] by blast
  then have lx: "yy_lexeme (w @ rest) = Some (yy_accept ! q, length w)"
    using assms(2) by (intro lexeme_of_run) (auto simp: value_accepts char_classes number_trans)
  have "yy_accept ! q = 40 \<or> yy_accept ! q = 41" using q(2) by (auto simp: value_accepts)
  then show ?thesis by (intro scanned_node [OF lx q(4)] node_action) (use q(4) in auto)
qed

lemma token_scanned:
  assumes "token_ok (c, a)" "ends rest"
  shows "0 < c \<and> c \<le> 301 \<and> scanned (roomy slack) c (token_text (c, a)) a rest"
proof (cases a)
  case None
  show ?thesis
  proof (cases "258 \<le> c \<and> c \<le> 294")
    case True
    then show ?thesis using keyword_scanned [of c rest slack] assms(2) None by (simp add: token_text_def)
  next
    case False
    then have "c \<in> set (map fst symbol_texts)" using assms(1) None by (auto simp: token_ok_def)
    then obtain w where "map_of symbol_texts c = Some w" using weak_map_of_SomeI by fastforce
    then show ?thesis using symbol_scanned [of c w rest slack] assms(2) None False by (auto simp: token_text_def)
  qed
next
  case (Some t)
  obtain ty x cs where t: "t = Ast ty x cs" by (cases t)
  with assms(1) Some obtain w where w: "cs = []" "x = Some w"
    "c = 295 \<and> ty = kNodeIdentifier \<and> is_name w \<or> c = 296 \<and> ty = kNodeString \<and> is_plain w \<or> c = 297 \<and> ty = kNodeNumber \<and> is_number w"
    by (auto simp: token_ok_def split: option.splits)
  then show ?thesis using name_scanned [of w rest slack] string_scanned [of w rest slack] number_scanned [of w rest slack] assms(2)
    by (auto simp: Some t token_text_def value_text_def)
qed

lemma text_no_nul: "list_all token_ok ts \<Longrightarrow> no_nul (tokens_text ts)"
proof (induction ts)
  case (Cons t ts)
  then show ?case using token_scanned [of "fst t" "snd t" "[]"] by (simp add: tokens_text_def char_classes ends_def scanned_def)
qed (simp add: tokens_text_def)

lemma text_delivers: "list_all token_ok ts \<Longrightarrow> delivers (yylex (roomy slack)) (tokens_text ts) ts"
proof (induction ts)
  case Nil
  show ?case by (rule deliver_end) (subst yylex.simps, simp add: tokens_text_def lexeme_end yy_action_def YY_STATE_EOF_def quiet_def)
next
  case (Cons t ts)
  obtain c a where t: "t = (c, a)" by (cases t)
  let ?rest = "tokens_text ts"
  have ok: "token_ok (c, a)" "ends ?rest"
    using Cons.prems text_no_nul [of ts] t by (cases ts; simp add: ends_def tokens_text_def)+
  have shape: "tokens_text (t # ts) = CHR '' '' # token_text (c, a) @ ?rest" by (simp add: tokens_text_def t)
  have nul: "no_nul (token_text (c, a) @ ?rest)" using token_scanned [OF ok] ok(2) by (simp add: ends_def scanned_def)
  have "delivers (yylex (roomy slack)) (CHR '' '' # token_text (c, a) @ ?rest) ((c, a) # ts)"
  proof (rule deliver_token)
    fix v g
    obtain v' g' where "yylex (roomy slack) (token_text (c, a) @ ?rest) v (MinisqlParserMovePos 0 '' '' g) = Some (c, ?rest, v', g')"
      "quiet (MinisqlParserMovePos 0 '' '' g) (token_blocks a) g'" "a = None \<or> (\<exists>n. v' = Some n \<and> siblings n = [the a])"
      using token_scanned [OF ok, of slack] unfolding scanned_def by blast
    then show "\<exists>v' g'. yylex (roomy slack) (CHR '' '' # token_text (c, a) @ ?rest) v g = Some (c, ?rest, v', g') \<and> quiet g (token_blocks a) g' \<and>
        (a = None \<or> (\<exists>n. v' = Some n \<and> siblings n = [the a]))"
      using yylex_blank [OF nul, of "roomy slack" v g] quiet_trans [OF quiet_move] by auto
  qed (use token_scanned [OF ok] Cons in auto)
  then show ?case using shape t by simp
qed

text \<open>On any allocator: the parse of a text is defined when the blocks of its values have a spare byte.\<close>

lemma text_parsed:
  assumes "sql_ok st" "sql_text_ok st" "pg_blocks g = []"
  shows "\<exists>s. forest (pg_root_node (yyglobals s)) = [sql_tree st] \<and> pg_errors (yyglobals s) = pg_errors g \<and>
    (\<forall>usable. malloc_ok usable \<longrightarrow> yyparse (yylex usable) usable (sql_text st) v g = (if \<forall>n \<in> set (tree_blocks (sql_tree st)). n < usable n then Some (0, s) else None))"
proof -
  have "delivers (yylex (roomy 0)) (sql_text st) (sql_tokens st)" using text_delivers assms(2) by (simp add: sql_text_def sql_text_ok_def)
  then obtain s where "yyparse (yylex (roomy 0)) (roomy 0) (sql_text st) v g = Some (0, s)" "forest (pg_root_node (yyglobals s)) = [sql_tree st]"
    "pg_errors (yyglobals s) = pg_errors g" "set (pg_blocks (yyglobals s)) = set (tree_blocks (sql_tree st))"
    using statements_parsed [OF assms(1)] assms(3) by fastforce
  then show ?thesis using yyparse_any [OF _ assms(3), of 0] by (intro exI [of _ s]) (simp add: spare_set)
qed

lemma trailing_text:
  assumes "sql_ok st" "sql_text_ok st" "token_ok t" "list_all token_ok ts" "pg_blocks g = []"
  shows "\<exists>s. forest (pg_root_node (yyglobals s)) = [sql_tree st] \<and>
    (\<exists>h. pg_errors h = pg_errors g \<and> pg_errors (yyglobals s) = pg_errors (MinisqlParserSetError ''syntax error'' h)) \<and>
    (\<forall>usable. malloc_ok usable \<longrightarrow> yyparse (yylex usable) usable (sql_text st @ tokens_text (t # ts)) v g =
       (if \<forall>n \<in> set (tree_blocks (sql_tree st)) \<union> token_blocks (snd t). n < usable n then Some (1, s) else None))"
proof -
  have "sql_text st @ tokens_text (t # ts) = tokens_text (sql_tokens st @ t # ts)" by (simp add: sql_text_def tokens_text_def)
  moreover have "list_all token_ok (sql_tokens st @ t # ts)" using assms(2-4) by (simp add: sql_text_ok_def)
  ultimately have "delivers (yylex (roomy 0)) (sql_text st @ tokens_text (t # ts)) (sql_tokens st @ t # ts)" using text_delivers by simp
  then obtain s where "yyparse (yylex (roomy 0)) (roomy 0) (sql_text st @ tokens_text (t # ts)) v g = Some (1, s)" "forest (pg_root_node (yyglobals s)) = [sql_tree st]"
    "set (pg_blocks (yyglobals s)) = set (tree_blocks (sql_tree st)) \<union> token_blocks (snd t)"
    "\<exists>h. pg_errors h = pg_errors g \<and> pg_errors (yyglobals s) = pg_errors (MinisqlParserSetError ''syntax error'' h)"
    using trailing_tokens_reported [OF assms(1)] assms(5) by fastforce
  then show ?thesis using yyparse_any [OF _ assms(5), of 0] by (intro exI [of _ s]) (simp add: spare_set)
qed

section \<open>Properties\<close>

text \<open>
  C5: The scanner and the parser make the right tree of every statement of the language, from its characters: on the text of the statement they return 0
  without an error, and the root is the tree of the statement, with its names, values, lists of columns and conditions in their order and the conditions
  joined from the left. This holds on every allocator that keeps the contract of \<^verbatim>\<open>malloc\<close> and happens to have a spare byte behind the block of every value of the tree that is not a
  string; if one of them has none, the parse is undefined. The text has one blank before every token; lists that the grammar writes from the right have up to 4900 elements, so that the stack
  of 10000 states suffices; names are not keywords, and strings have no quotation marks and backslashes.
\<close>

theorem sql_text_parsed:
  assumes "sql_ok st" "sql_text_ok st" "pg_blocks g = []"
  shows "\<exists>s. forest (pg_root_node (yyglobals s)) = [sql_tree st] \<and> pg_errors (yyglobals s) = pg_errors g \<and>
    (\<forall>usable. malloc_ok usable \<longrightarrow> yyparse (yylex usable) usable (sql_text st) v g = (if \<forall>n \<in> set (tree_blocks (sql_tree st)). n < usable n then Some (0, s) else None))"
  using text_parsed [OF assms] .

text \<open>Blocks of whole words have a spare byte for these names and numbers; exact blocks have none.\<close>

theorem sql_text_parsed_witness:
  "let st = Select (Some [''id'', ''name'']) ''accounts'' (Some (Condition ''name'' OpEq (LString ''name1''), [(ConAnd, Condition ''amount'' OpLt (LNumber ''-2.5''))]));
     g = \<lparr>pg_line_no = 1, pg_column_no = 0, pg_debug_node_count = 0, pg_syntax_node_list = [], pg_root_node = None, pg_error = 0, pg_error_message = None, pg_reports = [], pg_blocks = []\<rparr>
   in (\<exists>s. yyparse (yylex whole_words) whole_words (sql_text st) None g = Some (0, s) \<and> forest (pg_root_node (yyglobals s)) = [sql_tree st]) \<and>
     yyparse (yylex id) id (sql_text st) None g = None"
proof -
  let ?st = "Select (Some [''id'', ''name'']) ''accounts'' (Some (Condition ''name'' OpEq (LString ''name1''), [(ConAnd, Condition ''amount'' OpLt (LNumber ''-2.5''))]))"
  let ?g = "\<lparr>pg_line_no = 1, pg_column_no = 0, pg_debug_node_count = 0, pg_syntax_node_list = [], pg_root_node = None, pg_error = 0, pg_error_message = None, pg_reports = [], pg_blocks = []\<rparr>"
  have st: "sql_ok ?st" "pg_blocks ?g = []" by (simp_all add: fits_stack_def)
  have txt_ok: "sql_text_ok ?st" by code_simp
  have "\<forall>n \<in> set (tree_blocks (sql_tree ?st)). n < whole_words n" "\<not> (\<forall>n \<in> set (tree_blocks (sql_tree ?st)). n < id n)" by code_simp+
  then show ?thesis using sql_text_parsed [OF st(1) txt_ok st(2), of None] malloc_ok_examples unfolding Let_def by metis
qed

end
