(* ===== verification/Sql_Session.thy ===== *)
theory Sql_Session
  imports Engine_Invariant Sql_Text
begin

text \<open>
  From characters to effects: what \<^verbatim>\<open>ExecuteCommand\<close> and the loop over a batch file do with the text of statements. The scanner, the parser, the splitting of a
  batch file and the execution engine are put together here.
\<close>

section \<open>Commands as texts\<close>

lemma chars_of_bytes: "map (\<lambda>b. char_of (unat b)) (bytes_of s) = s"
proof -
  have "char_of (unat (of_char c :: byte)) = c" for c
  proof -
    have "unat (of_nat (of_char c) :: byte) = of_char c" using of_char_mod_256 [of c, where 'a = nat] by (simp add: unat_of_nat)
    then show ?thesis by (metis char_of_char of_nat_of_char)
  qed
  then show ?thesis by (simp add: bytes_of_def comp_def)
qed

lemma scan_string: "yy_scan_string s = Some (c_string s)"
  by (simp add: yy_scan_string_def yy_scan_bytes_def yy_scan_buffer_def Let_def nth_append)

lemma tokens_text_whole: "list_all token_ok ts \<Longrightarrow> c_string (tokens_text ts) = tokens_text ts"
  using text_no_nul [of ts] by (auto simp: c_string_def no_nul_def takeWhile_eq_all_conv)

lemma start_errors: "pg_errors parser_start = (0, None, [])"
  by (simp add: parser_start_def MinisqlParserInit_def pg_errors_def)

lemma start_blocks: "pg_blocks parser_start = []"
  by (simp add: parser_start_def MinisqlParserInit_def)

text \<open>A command is parsed if the blocks of its values have a spare byte; otherwise the run is undefined.\<close>

definition roomy_for :: "allocator \<Rightarrow> nat set \<Rightarrow> bool" where "roomy_for usable B \<longleftrightarrow> (\<forall>n \<in> B. n < usable n)"

lemma parse_statement:
  assumes "sql_ok st" "sql_text_ok st"
  shows "\<exists>root. siblings root = [sql_tree st] \<and> (\<forall>usable. malloc_ok usable \<longrightarrow>
    parse_command usable (bytes_of (sql_text st)) = (if roomy_for usable (set (tree_blocks (sql_tree st))) then Some (Some root, []) else None))"
proof -
  obtain s where s: "forest (pg_root_node (yyglobals s)) = [sql_tree st]" "pg_errors (yyglobals s) = (0, None, [])"
    "\<And>usable. malloc_ok usable \<Longrightarrow> yyparse (yylex usable) usable (sql_text st) None parser_start =
       (if \<forall>n \<in> set (tree_blocks (sql_tree st)). n < usable n then Some (0, s) else None)"
    using text_parsed [OF assms start_blocks, of None] start_errors by auto
  then obtain root where "pg_root_node (yyglobals s) = Some root" "siblings root = [sql_tree st]"
    by (cases "pg_root_node (yyglobals s)") (auto simp: forest_def)
  moreover have "c_string (sql_text st) = sql_text st" using assms(2) tokens_text_whole by (simp add: sql_text_def sql_text_ok_def)
  ultimately show ?thesis using s
    by (intro exI [of _ root]) (simp add: parse_command_def chars_of_bytes scan_string error_text_def pg_errors_def roomy_for_def)
qed

lemma parse_trailing:
  assumes "sql_ok st" "sql_text_ok st" "token_ok t" "list_all token_ok ts"
  shows "\<exists>root l c. siblings root = [sql_tree st] \<and> (\<forall>usable. malloc_ok usable \<longrightarrow>
    parse_command usable (bytes_of (sql_text st @ tokens_text (t # ts))) =
      (if roomy_for usable (set (tree_blocks (sql_tree st)) \<union> token_blocks (snd t))
       then Some (Some root, [report_text (l, c, ''syntax error''), line (bytes_of ''syntax error'')]) else None))"
proof -
  obtain s h where s: "forest (pg_root_node (yyglobals s)) = [sql_tree st]" "pg_errors h = (0, None, [])"
    "pg_errors (yyglobals s) = pg_errors (MinisqlParserSetError ''syntax error'' h)"
    "\<And>usable. malloc_ok usable \<Longrightarrow> yyparse (yylex usable) usable (sql_text st @ tokens_text (t # ts)) None parser_start =
       (if \<forall>n \<in> set (tree_blocks (sql_tree st)) \<union> token_blocks (snd t). n < usable n then Some (1, s) else None)"
    using trailing_text [OF assms start_blocks, of None] start_errors by auto
  then obtain root where "pg_root_node (yyglobals s) = Some root" "siblings root = [sql_tree st]"
    by (cases "pg_root_node (yyglobals s)") (auto simp: forest_def)
  moreover have "sql_text st @ tokens_text (t # ts) = tokens_text (sql_tokens st @ t # ts)" by (simp add: sql_text_def tokens_text_def)
  then have "c_string (sql_text st @ tokens_text (t # ts)) = sql_text st @ tokens_text (t # ts)"
    using assms(2-4) tokens_text_whole [of "sql_tokens st @ t # ts"] by (simp add: sql_text_ok_def)
  ultimately show ?thesis using s
    by (intro exI [of _ root] exI [of _ "pg_line_no h"] exI [of _ "pg_column_no h"])
      (simp add: parse_command_def chars_of_bytes scan_string error_text_def pg_errors_def MinisqlParserSetError_def roomy_for_def)
qed

section \<open>Batches of statements\<close>

text \<open>What a loop of \<^verbatim>\<open>main\<close> does with syntax trees, each of which has been made with its blocks.\<close>

fun run_trees :: "allocator \<Rightarrow> ((int \<rightharpoonup> int) \<Rightarrow> int list) \<Rightarrow> engine \<Rightarrow> syntax_node list \<Rightarrow> (answer \<times> engine) option" where
  "run_trees usable order e [] = Some (Returned DB_SUCCESS, e)"
| "run_trees usable order e (root # roots) = do {
     ensure (roomy_for usable (forest_blocks (siblings root)));
     (a, e) \<leftarrow> Execute usable order e (Some root);
     case a of Returned r \<Rightarrow>
       let e = ExecuteInformation r e in if r = DB_QUIT then Some (a, e) else run_trees usable order e roots
     | _ \<Rightarrow> Some (a, e) }"

text \<open>The only semicolon of the text is the last character.\<close>

definition one_semicolon :: "sql \<Rightarrow> bool" where
  "one_semicolon st = (CHR '';'' \<notin> set (butlast (sql_text st)))"

lemma print_nothing [simp]: "print [] e = e"
  by (simp add: print_def)

lemma sql_text_end: "\<exists>body. sql_text st = body @ '';''"
  by (simp add: sql_text_def sql_tokens_def tokens_text_def token_text_def mark_token_def symbol_texts_def)

lemma batch_body: "59 \<notin> set body \<Longrightarrow> batch_commands current (body @ 59 # rest) = (current @ body @ [59]) # batch_commands [] rest"
  by (induction body arbitrary: current) auto

lemma semicolon_byte: "(59 :: byte) = of_char c \<Longrightarrow> c = CHR '';''"
proof -
  assume c: "(59 :: byte) = of_char c"
  have "char_of (unat (of_char c :: byte)) = c" using chars_of_bytes [of "[c]"] by (simp add: bytes_of_def)
  moreover have "char_of (59 :: nat) = CHR '';''" by code_simp
  ultimately show ?thesis unfolding c [symmetric] by simp
qed

lemma load_statements: "list_all one_semicolon sts \<Longrightarrow> LoadBatchCommands (bytes_of (concat (map sql_text sts))) = map (\<lambda>st. bytes_of (sql_text st)) sts"
proof (induction sts)
  case Nil
  show ?case by (simp add: LoadBatchCommands_def bytes_of_def)
next
  case (Cons st sts)
  obtain body where b: "sql_text st = body @ '';''" using sql_text_end by blast
  then have "59 \<notin> set (bytes_of body)" using Cons.prems semicolon_byte by (fastforce simp: one_semicolon_def bytes_of_def)
  then show ?case using Cons b batch_body [of "bytes_of body" "[]" "bytes_of (concat (map sql_text sts))"]
    by (simp add: LoadBatchCommands_def bytes_of_def)
qed

lemma execute_statement_text:
  assumes "sql_ok st" "sql_text_ok st"
  shows "\<exists>root. siblings root = [sql_tree st] \<and> (\<forall>usable order e roots. malloc_ok usable \<longrightarrow> run_trees usable order e (root # roots) = do {
      (a, e) \<leftarrow> ExecuteCommand usable order e (bytes_of (sql_text st));
      case a of Returned r \<Rightarrow> if r = DB_QUIT then Some (a, e) else run_trees usable order e roots | _ \<Rightarrow> Some (a, e) })"
proof -
  obtain root where root: "siblings root = [sql_tree st]" "\<And>usable. malloc_ok usable \<Longrightarrow>
      parse_command usable (bytes_of (sql_text st)) = (if roomy_for usable (set (tree_blocks (sql_tree st))) then Some (Some root, []) else None)"
    using parse_statement [OF assms] by blast
  have "forest_blocks (siblings root) = set (tree_blocks (sql_tree st))" by (simp add: root(1) forest_blocks_def)
  then have "run_trees usable order e (root # roots) = do {
      (a, e) \<leftarrow> ExecuteCommand usable order e (bytes_of (sql_text st));
      case a of Returned r \<Rightarrow> if r = DB_QUIT then Some (a, e) else run_trees usable order e roots | _ \<Rightarrow> Some (a, e) }" if "malloc_ok usable" for usable order e roots
    using root(2) [OF that] by (cases "roomy_for usable (set (tree_blocks (sql_tree st)))"; cases "Execute usable order e (Some root)")
      (auto simp: ExecuteCommand_def ensure_def split: answer.split)
  then show ?thesis using root(1) by blast
qed

section \<open>Properties\<close>

text \<open>
  C6: A batch file of statements is executed as it reads: its text is split at the semicolons, the scanner and the parser make the tree of each statement, without a
  message, and the loop executes the trees one after the other until one quits, throws or exits. The statements have no semicolon inside a string, where the file would be split
  as well. On an allocator that keeps the contract of \<^verbatim>\<open>malloc\<close> the run is undefined from the first statement on whose values have a block without a spare byte.
\<close>

theorem batch_statements_executed:
  assumes "list_all (\<lambda>st. sql_ok st \<and> sql_text_ok st \<and> one_semicolon st) sts" "malloc_ok usable"
  shows "\<exists>roots. map siblings roots = map (\<lambda>st. [sql_tree st]) sts \<and>
    run_batch usable order e (LoadBatchCommands (bytes_of (concat (map sql_text sts)))) = run_trees usable order e roots"
proof -
  have "\<exists>roots. map siblings roots = map (\<lambda>st. [sql_tree st]) sts \<and>
    (\<forall>e. run_batch usable order e (map (\<lambda>st. bytes_of (sql_text st)) sts) = run_trees usable order e roots)"
    using assms(1)
  proof (induction sts)
    case (Cons st sts)
    then obtain roots where r: "map siblings roots = map (\<lambda>st. [sql_tree st]) sts"
      "\<And>e. run_batch usable order e (map (\<lambda>st. bytes_of (sql_text st)) sts) = run_trees usable order e roots" by auto
    obtain root where "siblings root = [sql_tree st]" "\<And>e roots. run_trees usable order e (root # roots) = do {
      (a, e) \<leftarrow> ExecuteCommand usable order e (bytes_of (sql_text st));
      case a of Returned r \<Rightarrow> if r = DB_QUIT then Some (a, e) else run_trees usable order e roots | _ \<Rightarrow> Some (a, e) }"
      using execute_statement_text [of st] Cons.prems assms(2) by fastforce
    with r show ?case by (intro exI [of _ "root # roots"]) (simp del: run_trees.simps cong: answer.case_cong if_cong)
  qed simp
  moreover have "list_all one_semicolon sts" using assms(1) by (simp add: list_all_iff)
  ultimately show ?thesis by (auto simp: load_statements)
qed

theorem batch_statements_executed_witness:
  "\<exists>roots. map siblings roots = [[sql_tree (CreateDatabase ''d'')], [sql_tree Quit]] \<and>
    run_batch whole_words ascending (empty_engine []) (LoadBatchCommands (bytes_of '' create database d ; quit ;'')) = run_trees whole_words ascending (empty_engine []) roots"
proof -
  have "list_all (\<lambda>st. sql_ok st \<and> sql_text_ok st \<and> one_semicolon st) [CreateDatabase ''d'', Quit]" by code_simp
  moreover have "concat (map sql_text [CreateDatabase ''d'', Quit]) = '' create database d ; quit ;''" by code_simp
  ultimately show ?thesis using batch_statements_executed [of "[CreateDatabase ''d'', Quit]" whole_words ascending "empty_engine []"] by simp
qed

text \<open>
  C39: A command that goes on after the semicolon of its statement with more tokens is reported as a syntax error, twice, and the statement is executed all the same: the root of the
  tree is set when the semicolon is read, the error does not reset it, and \<^verbatim>\<open>ExecuteCommand\<close> looks neither at the error nor at the code of \<^verbatim>\<open>yyparse\<close>. What follows are
  well-formed tokens with a blank before each. On an allocator that keeps the contract of \<^verbatim>\<open>malloc\<close> this is so when the blocks of the values of the statement and of the next token have a spare byte; otherwise
  the run is undefined.
\<close>

theorem trailing_text_executed:
  assumes "sql_ok st" "sql_text_ok st" "token_ok t" "list_all token_ok ts" "malloc_ok usable"
  shows "\<exists>root l c. siblings root = [sql_tree st] \<and>
    ExecuteCommand usable order e (bytes_of (sql_text st @ tokens_text (t # ts))) =
      (if \<forall>n \<in> set (tree_blocks (sql_tree st)) \<union> token_blocks (snd t). n < usable n
       then map_option (\<lambda>(a, e). case a of Returned r \<Rightarrow> (a, ExecuteInformation r e) | _ \<Rightarrow> (a, e))
         (Execute usable order (print [report_text (l, c, ''syntax error''), line (bytes_of ''syntax error'')] e) (Some root))
       else None)"
proof -
  obtain root l c where r: "siblings root = [sql_tree st]" "parse_command usable (bytes_of (sql_text st @ tokens_text (t # ts))) =
    (if roomy_for usable (set (tree_blocks (sql_tree st)) \<union> token_blocks (snd t))
     then Some (Some root, [report_text (l, c, ''syntax error''), line (bytes_of ''syntax error'')]) else None)"
    using parse_trailing [OF assms(1-4)] assms(5) by blast
  then show ?thesis by (intro exI [of _ root] exI [of _ l] exI [of _ c])
      (cases "Execute usable order (print [report_text (l, c, ''syntax error''), line (bytes_of ''syntax error'')] e) (Some root)", auto simp: ExecuteCommand_def roomy_for_def)
qed

theorem trailing_text_executed_witness:
  "\<exists>root l c. siblings root = [sql_tree (UseDatabase ''d'')] \<and>
    ExecuteCommand whole_words ascending (empty_engine []) (bytes_of '' use d ; ,'') =
      map_option (\<lambda>(a, e). case a of Returned r \<Rightarrow> (a, ExecuteInformation r e) | _ \<Rightarrow> (a, e))
        (Execute whole_words ascending (print [report_text (l, c, ''syntax error''), line (bytes_of ''syntax error'')] (empty_engine [])) (Some root))"
proof -
  have "sql_ok (UseDatabase ''d'')" "sql_text_ok (UseDatabase ''d'')" "token_ok (mark_token (CHR '',''))" "list_all token_ok []" by code_simp+
  moreover have "sql_text (UseDatabase ''d'') @ tokens_text [mark_token (CHR '','')] = '' use d ; ,''" by code_simp
  moreover have "\<forall>n \<in> set (tree_blocks (sql_tree (UseDatabase ''d''))) \<union> token_blocks (snd (mark_token (CHR '',''))). n < whole_words n"
    by (simp add: name_tree_def overrun_def whole_words_def token_blocks_def mark_token_def)
  ultimately show ?thesis
    using trailing_text_executed [of "UseDatabase ''d''" "mark_token (CHR '','')" "[]" whole_words ascending "empty_engine []"] malloc_ok_examples by simp
qed

lemma single_tree:
  assumes "siblings root = [Ast ty v (map name_tree ns)]"
  shows "sn_type root = ty" "ns = n # ns' \<Longrightarrow> child_val root = Some (bytes_of n)"
proof -
  obtain i l c ch nx where root: "root = SyntaxNode i ty l c ch nx v" "(case ch of None \<Rightarrow> [] | Some x \<Rightarrow> siblings x) = map name_tree ns"
    using assms by (cases root) auto
  then show "sn_type root = ty" by simp
  assume "ns = n # ns'"
  with root obtain x where x: "ch = Some x" "siblings x = name_tree n # map name_tree ns'" by (cases ch) auto
  then show "child_val root = Some (bytes_of n)" using root by (cases x) (auto simp: child_val_def name_tree_def)
qed

lemma named_statement_ok:
  assumes "is_name n"
  shows "sql_text_ok (CreateDatabase n)" "sql_text_ok (UseDatabase n)" "one_semicolon (CreateDatabase n)" "one_semicolon (UseDatabase n)"
proof -
  have "token_ok (name_token n)" using assms by (simp add: token_ok_def name_token_def name_tree_def)
  moreover have "token_ok (keyword ''create'')" "token_ok (keyword ''database'')" "token_ok (keyword ''use'')" "token_ok (mark_token (CHR '';''))" by code_simp+
  ultimately show "sql_text_ok (CreateDatabase n)" "sql_text_ok (UseDatabase n)" by (simp_all add: sql_text_ok_def sql_tokens_def)
  have "CHR '';'' \<notin> set n" using assms by (auto simp: is_name_def list_all_iff is_letter_def digit_char_def dest!: bspec)
  moreover have "token_text (name_token n) = n" by (simp add: token_text_def name_token_def value_text_def name_tree_def)
  moreover have "token_text (keyword ''create'') = ''create''" "token_text (keyword ''database'') = ''database''" "token_text (keyword ''use'') = ''use''"
    "token_text (mark_token (CHR '';'')) = '';''" by code_simp+
  ultimately show "one_semicolon (CreateDatabase n)" "one_semicolon (UseDatabase n)"
    by (simp_all add: one_semicolon_def sql_text_def sql_tokens_def tokens_text_def butlast_append)
qed

lemma named_blocks:
  "tree_blocks (sql_tree (CreateDatabase n)) = [length n + 1]" "tree_blocks (sql_tree (UseDatabase n)) = [length n + 1]" "tree_blocks (sql_tree Quit) = []"
  by (simp_all add: name_tree_def overrun_def)



text \<open>
  C40: \<^verbatim>\<open>quit\<close> while no database is in use dereferences a null pointer, whatever else the batch has.
\<close>

theorem quit_without_database:
  assumes "eng_current e = []" "map_of (eng_dbs e) [] = None" "malloc_ok usable"
  shows "run_batch usable order e (bytes_of (sql_text Quit) # cmds) = None"
proof -
  have "sql_text_ok Quit" by code_simp
  then obtain root where r: "siblings root = [sql_tree Quit]" "parse_command usable (bytes_of (sql_text Quit)) = Some (Some root, [])"
    using parse_statement [of Quit] assms(3) unfolding named_blocks by (auto simp: roomy_for_def)
  then have "sn_type root = kNodeQuit" using single_tree(1) [of root kNodeQuit None "[]"] by simp
  moreover have "current_catalog e = None" using assms(1,2) by (simp add: current_catalog_def)
  ultimately show ?thesis using r(2) assms by (simp add: ExecuteCommand_def Execute_def Execute_statement_def ExecuteQuit_def)
qed

theorem quit_without_database_witness:
  "run_batch id ascending (empty_engine []) [bytes_of (sql_text Quit), bytes_of (sql_text ShowDatabases)] = None"
  using quit_without_database [of "empty_engine []" id ascending] by (simp add: empty_engine_def)

end
