(* ===== verification/Spec2Isabelle.thy ===== *)
theory Spec2Isabelle
  imports Recovery Table_Page_Map Tree_Correct Sql_Session
begin

text \<open>
  \<^bold>\<open>MiniSQL: a verification development.\<close>

  MiniSQL (\<^verbatim>\<open>minisql/src\<close>) is a relational database in C++ with a scanner and parser generated by flex and bison. This library models its own code, from the
  bytes of the database file up to the text of SQL commands, and proves what makes each part correct, or, where the code fails, how it fails. All paths below are
  relative to \<^verbatim>\<open>minisql/src\<close>.

  \<^bold>\<open>How the program is put together.\<close> \<^verbatim>\<open>main.cpp\<close> reads commands and hands each to the scanner and the parser (\<^verbatim>\<open>parser\<close>), which leave a syntax tree. The
  execution engine (\<^verbatim>\<open>executor/execute_engine.cpp\<close>) interprets commands on the open databases itself and gives queries to the planner, which binds names and
  types to the schemas of the catalog and chooses a plan; the executors run the plan on table heaps and indexes. A table heap is a list of slotted pages with a
  free-space map, an index is a B+ tree of leaf and internal pages, and the catalog keeps its records in pages of its own. All pages are reached through the buffer
  pool, with an LRU replacer, on top of the disk manager, which maps logical pages to physical ones with one bitmap page for each extent. The recovery manager
  replays a log.

  \<^bold>\<open>Conventions.\<close> The state of a class is a record and its methods are functions on the record; a constructor has the suffix \<open>_new\<close>, a destructor \<open>_delete\<close>.
  Machine integers keep their width as words, or are integers with the overflow written out. Undefined behaviour (a null pointer, an index outside an
  array, a failed assertion, a signed overflow, a read of a dead object) is \<^term>\<open>None\<close>; exceptions and error codes are values. A loop that the code does not
  bound is a partial function in the option monad, and that it returns is proved as such. The order in which a hash table is walked is a parameter
  \<open>order\<close> that visits the keys. Files are byte lists in an association list of paths; the disk manager flushes each write, so the file of an open database is what the stream of its disk
  manager holds, and is brought up to date after each operation on the database. Log sequence numbers are 32-bit integers, and the theorem on recovery asks for a log of less than
  \<open>2 ^ 31\<close> records.

  \<^bold>\<open>The allocator.\<close> \<^verbatim>\<open>CreateSyntaxNode\<close> stores the terminator of a value that is not a string in the byte behind the block that it asked for. What that does is not for the program to say, so \<^verbatim>\<open>malloc\<close>
  is a parameter \<open>usable\<close>, the number of bytes that may be written in the block for a request, and all that is assumed of it is its contract \<open>malloc_ok\<close>: no fewer than were asked for. A store
  behind the usable bytes is undefined. The globals of the parser collect, in a field that the program does not have, the sizes of the blocks with a store behind them. The theorems on commands are exact: with the
  allocator that gives what is asked for, a command with a name or a number is undefined; with any allocator it behaves as stated when the blocks of its values happen to have a spare byte, and
  is undefined otherwise.

  \<^bold>\<open>The theories\<close>, from the bottom to the top:

  \<^item> \<^verbatim>\<open>Prelude\<close>: generic lemmas, buffers of bytes and the little-endian reads and writes; \<^verbatim>\<open>Interfaces\<close>: the contracts between the parts as locales (the allocation of identifiers, a store of
    blocks, a replacer, a codec), with the lemmas of their clients. Other locales stand beside their providers: the order of keys in \<^verbatim>\<open>Generic_Key\<close>, the pages of a pool
    in \<^verbatim>\<open>Pool_Client\<close>, an index in \<^verbatim>\<open>Tree_Correct\<close>, a source of tokens in \<^verbatim>\<open>Parser_Total\<close>. Each is interpreted on the definitions of the model.
  \<^item> \<^verbatim>\<open>Bitmap_Page\<close>, \<^verbatim>\<open>Disk_Manager\<close> (\<^verbatim>\<open>page/bitmap_page.cpp\<close>, \<^verbatim>\<open>storage/disk_manager.cpp\<close>): allocation returns a free page and marks just it, pages read back as they
    were written, and other pages are left alone.
  \<^item> \<^verbatim>\<open>Lru_Replacer\<close>, \<^verbatim>\<open>Buffer_Pool\<close>, \<^verbatim>\<open>Pool_Client\<close> (\<^verbatim>\<open>buffer\<close>): the replacer refines a list; the pool keeps its invariant and shows the contents of pages whatever it
    evicts. \<^verbatim>\<open>Pool_Client\<close> is the contract that the trees use.
  \<^item> \<^verbatim>\<open>Recovery\<close> (\<^verbatim>\<open>include/recovery\<close>): redo and undo restore the effects of the committed transactions; the undo loop ends.
  \<^item> \<^verbatim>\<open>Field_Types\<close>, \<^verbatim>\<open>Schema_Row\<close>, \<^verbatim>\<open>Generic_Key\<close> (\<^verbatim>\<open>record\<close>, \<^verbatim>\<open>include/index/generic_key.h\<close>): values, their comparison and their serialisation; rows read back; keys
    compare lexicographically.
  \<^item> \<^verbatim>\<open>Table_Page\<close>, \<^verbatim>\<open>Table_Page_Map\<close>, \<^verbatim>\<open>Free_Space_Map\<close>, \<^verbatim>\<open>Table_Heap\<close> (\<^verbatim>\<open>page/table_page.cpp\<close>, \<^verbatim>\<open>storage\<close>): a slotted page refines a map of slots to tuples under insertion,
    update and deletion, and the iteration visits each tuple.
  \<^item> \<^verbatim>\<open>B_Plus_Tree_Page\<close>, \<^verbatim>\<open>Leaf_Page\<close>, \<^verbatim>\<open>Internal_Page\<close>, \<^verbatim>\<open>Index_Roots\<close>, \<^verbatim>\<open>B_Plus_Tree\<close>, \<^verbatim>\<open>Tree_Search\<close>, \<^verbatim>\<open>Tree_Insert\<close>, \<^verbatim>\<open>Tree_Correct\<close>, \<^verbatim>\<open>Tree_Index\<close> (\<^verbatim>\<open>index\<close>, the pages in
    \<^verbatim>\<open>page\<close>): the pages as sorted lists; the pages of a tree as an inductive shape; insertion with splits up to the root keeps a sorted, balanced tree on
    disjoint pages, and the tree is a map. The theorems ask for 20 free pages and frames for each insertion: an insertion pins a page on each level and adds at most one
    more on each, and a file of less than \<open>2 ^ 19\<close> addressable pages holds no tree deeper than 18.
  \<^item> \<^verbatim>\<open>Catalog_Meta\<close>, \<^verbatim>\<open>Catalog\<close>, \<^verbatim>\<open>Catalog_Invariant\<close> (\<^verbatim>\<open>catalog\<close>): the records read back; the maps of names, ids, tables and indexes agree in every state.
  \<^item> \<^verbatim>\<open>Expressions\<close>, \<^verbatim>\<open>Statements\<close>, \<^verbatim>\<open>Planner\<close>, \<^verbatim>\<open>Executors\<close> (\<^verbatim>\<open>include/planner\<close>, \<^verbatim>\<open>planner\<close>, \<^verbatim>\<open>executor\<close>): predicates have three values; a bound predicate is well typed; the plans
    and executors, with what an index scan returns.
  \<^item> \<^verbatim>\<open>Syntax_Tree\<close>, \<^verbatim>\<open>Sql_Scanner\<close>, \<^verbatim>\<open>Sql_Words\<close>, \<^verbatim>\<open>Sql_Parser\<close>, \<^verbatim>\<open>Parser_Tables\<close>, \<^verbatim>\<open>Parser_Blocks\<close>, \<^verbatim>\<open>Parser_Total\<close>, \<^verbatim>\<open>Parser_Machine\<close>, \<^verbatim>\<open>Sql_Grammar\<close>, \<^verbatim>\<open>Sql_Text\<close> (\<^verbatim>\<open>parser\<close>): the tables and the loops of
    \<^verbatim>\<open>minisql_lex.c\<close> and \<^verbatim>\<open>minisql_yacc.c\<close> as they are. \<^verbatim>\<open>Parser_Tables\<close> is a certificate that the kernel checks on the tables: the stacks that can lie below a state, and a weight
    that every reduction lowers. \<^verbatim>\<open>Parser_Blocks\<close> relates the runs on two allocators. From these follow that scanner and parser end on every command, and are undefined only through the terminator behind a block; that the scanner takes the
    longest match; and, by a simulation with a machine on trees, that every statement of the grammar in \<^verbatim>\<open>minisql.y\<close> is parsed from its text to its tree, with the blocks of the tree. Lists have up to 4900
    elements there, because the grammar recurses on the right and the stack ends at 10000 states.
  \<^item> \<^verbatim>\<open>Storage_Engine\<close>, \<^verbatim>\<open>Durability\<close> (\<^verbatim>\<open>common/instance.cpp\<close>): a new database is well formed, and closing one and opening its file again gives the same pages.
  \<^item> \<^verbatim>\<open>Commands\<close>, \<^verbatim>\<open>Engine_Invariant\<close>, \<^verbatim>\<open>Sql_Session\<close> (\<^verbatim>\<open>executor/execute_engine.cpp\<close>, \<^verbatim>\<open>include/common/result_writer.h\<close>, \<^verbatim>\<open>main.cpp\<close>): every command, the files of commands and the
    loops of \<^verbatim>\<open>main\<close>; statements keep the catalogs of all databases, queries change no definition and only the file of their database, and a batch file is executed as the statements it spells.

  \<^bold>\<open>What is not modelled.\<close> Latches and locks (the program has one thread and its lock manager is a stub), the transaction manager, which no statement uses, the
  clock replacer, which the configuration leaves out, the header page, which no code uses, logging, the debug output and the syntax tree printer. The
  deletion from a B+ tree is modelled, and its theorems are those of its pages. Of the generated scanner the reading from files and the stack of buffers are left out, because
  commands are scanned from strings; of the parser the trace and the failure of an allocation. Pin counts are unbounded; the key schema of an index is a copy. \<^verbatim>\<open>dis-minisql\<close>, a Java program that coordinates several processes,
  the tests and the third-party libraries are outside. Floating-point values are words; their text and their comparison are written out.
\<close>

end
